(* ===== verification/Prelude.thy ===== *)
theory Prelude imports Main "HOL-Library.Word" "HOL-Library.AList" begin

text \<open>
  Shared vocabulary of the development: the error values of the Go code, operations
  that pass a state and may return an error, and the collections of lemmas that the
  component theories fill.
  \<^item> An operation of the code that returns \<open>(T, error)\<close> and touches state of type
    \<open>'s\<close> is a function \<open>'s \<Rightarrow> (go_error + 'a) \<times> 's\<close>: \<open>Inl e\<close> is a non-nil error,
    \<open>Inr x\<close> the returned value. The state is returned in both cases, because a Go
    function that fails may have changed the database before it failed.
  \<^item> \<open>bindE\<close> is the code's \<open>if err != nil { return err }\<close>.
\<close>

section \<open>Errors\<close>

text \<open>
  \<open>ErrNotFound\<close>, \<open>ErrDuplicate\<close>, \<open>ErrPrimaryAddress\<close> and \<open>ErrNoBlobDir\<close> are the
  sentinel errors of package \<open>store\<close>; \<open>ErrNoRows\<close> is \<open>sql.ErrNoRows\<close>, which a query
  inside a transaction returns as it is; \<open>ErrUnique\<close> and \<open>ErrForeignKey\<close> stand for the
  constraint errors of the database driver before \<open>wrapDuplicate\<close>, \<open>ErrDriver\<close> for
  any other failure of a statement, \<open>ErrBlob\<close> for a failure of the blob directory, and
  \<open>ErrText\<close> for an error made with \<open>errors.New\<close> or \<open>fmt.Errorf\<close>.
\<close>

datatype go_error =
    ErrNotFound
  | ErrNoRows
  | ErrDuplicate
  | ErrPrimaryAddress
  | ErrNoBlobDir
  | ErrUnique
  | ErrForeignKey
  | ErrDriver
  | ErrBlob
  | ErrText string

section \<open>Operations with state and errors\<close>

type_synonym ('s, 'a) op = "'s \<Rightarrow> (go_error + 'a) \<times> 's"

definition okE :: "'a \<Rightarrow> ('s, 'a) op" where
  "okE x s = (Inr x, s)"

definition failE :: "go_error \<Rightarrow> ('s, 'a) op" where
  "failE e s = (Inl e, s)"

definition bindE :: "('s, 'a) op \<Rightarrow> ('a \<Rightarrow> ('s, 'b) op) \<Rightarrow> ('s, 'b) op" where
  "bindE m f s = (case m s of (Inl e, s') \<Rightarrow> (Inl e, s') | (Inr x, s') \<Rightarrow> f x s')"

text \<open>\<open>_ = op(...)\<close> and \<open>_, _ = op(...)\<close>: the result is dropped, the effect stays.\<close>

definition execE :: "('s, 'a) op \<Rightarrow> 's \<Rightarrow> 's" where
  "execE m s = snd (m s)"

lemma okE_simp [simp]: "okE x s = (Inr x, s)"
  by (simp add: okE_def)

lemma failE_simp [simp]: "failE e s = (Inl e, s)"
  by (simp add: failE_def)

lemma bindE_Inr [simp]: "m s = (Inr x, s') \<Longrightarrow> bindE m f s = f x s'"
  by (simp add: bindE_def)

lemma bindE_Inl [simp]: "m s = (Inl e, s') \<Longrightarrow> bindE m f s = (Inl e, s')"
  by (simp add: bindE_def)

lemma bindE_Inr_iff:
  "bindE m f s = (Inr y, t) \<longleftrightarrow> (\<exists>x s'. m s = (Inr x, s') \<and> f x s' = (Inr y, t))"
  by (auto simp: bindE_def split: prod.splits sum.splits)

lemma snd_bindE:
  "snd (bindE m f s) = (case m s of (Inl e, s') \<Rightarrow> s' | (Inr x, s') \<Rightarrow> snd (f x s'))"
  by (auto simp: bindE_def split: prod.splits sum.splits)

text \<open>
  An invariant of the state that an operation keeps whether it succeeds or fails.
  The component theories prove it for each operation; the rules below lift it over
  \<open>bindE\<close> and over the loops of the code.
\<close>

definition keeps :: "('s \<Rightarrow> bool) \<Rightarrow> ('s, 'a) op \<Rightarrow> bool" where
  "keeps I m \<longleftrightarrow> (\<forall>s. I s \<longrightarrow> I (snd (m s)))"

named_theorems keeps_intros "rules that an operation keeps an invariant"

lemma keepsI: "(\<And>s. I s \<Longrightarrow> I (snd (m s))) \<Longrightarrow> keeps I m"
  by (simp add: keeps_def)

lemma keepsD: "keeps I m \<Longrightarrow> I s \<Longrightarrow> I (snd (m s))"
  by (simp add: keeps_def)

lemma keepsD_eq: "keeps I m \<Longrightarrow> I s \<Longrightarrow> m s = (r, s') \<Longrightarrow> I s'"
  by (metis keepsD snd_conv)

lemma keeps_okE [keeps_intros]: "keeps I (okE x)"
  by (simp add: keeps_def)

lemma keeps_failE [keeps_intros]: "keeps I (failE e)"
  by (simp add: keeps_def)

lemma keeps_bindE [keeps_intros]:
  assumes "keeps I m" and "\<And>x. keeps I (f x)"
  shows "keeps I (bindE m f)"
proof (rule keepsI)
  fix s assume "I s"
  then have "I (snd (m s))" using assms(1) by (rule keepsD [rotated])
  then show "I (snd (bindE m f s))"
    using assms(2) by (auto simp: snd_bindE keeps_def split: prod.splits sum.splits)
qed

lemma keeps_if [keeps_intros]:
  "(b \<Longrightarrow> keeps I m) \<Longrightarrow> (\<not> b \<Longrightarrow> keeps I n) \<Longrightarrow> keeps I (if b then m else n)"
  by simp

lemma keeps_execE: "keeps I m \<Longrightarrow> I s \<Longrightarrow> I (execE m s)"
  by (simp add: execE_def keeps_def)

section \<open>Lists\<close>

text \<open>\<open>LIMIT n\<close> of a query, with the code's convention that \<open>n \<le> 0\<close> is no limit.\<close>

definition limit_rows :: "int \<Rightarrow> 'a list \<Rightarrow> 'a list" where
  "limit_rows n xs = (if n > 0 then take (nat n) xs else xs)"

lemma set_limit_rows: "set (limit_rows n xs) \<subseteq> set xs"
  by (auto simp: limit_rows_def dest: in_set_takeD)

lemma first_row_mem: "limit_rows 1 (sort_key k xs) = x # ys \<Longrightarrow> x \<in> set xs"
  using set_limit_rows [of 1 "sort_key k xs"] by (metis list.set_intros(1) set_sort subsetD)

lemma length_limit_rows: "0 < n \<Longrightarrow> length (limit_rows n xs) \<le> nat n"
  by (simp add: limit_rows_def)

lemma sorted_wrt_map_key:
  "sorted_wrt (<) (map f xs) \<longleftrightarrow> sorted_wrt (\<lambda>x y. f x < f y) xs"
  by (simp add: sorted_wrt_map)

lemma strict_sorted_unique:
  fixes f :: "'a \<Rightarrow> 'b::linorder"
  assumes "sorted_wrt (\<lambda>x y. f x < f y) xs" "x \<in> set xs" "y \<in> set xs" "f x = f y"
  shows "x = y"
proof -
  from assms(1) have "sorted_wrt (<) (map f xs)" by (simp only: sorted_wrt_map)
  then have "distinct (map f xs)" by (simp only: strict_sorted_iff)
  then have "inj_on f (set xs)" by (simp only: distinct_map)
  with assms(2-4) show ?thesis by (simp add: inj_on_def)
qed

lemma sorted_hd_last:
  assumes "sorted xs" "x \<in> set xs" shows "hd xs \<le> x \<and> x \<le> last xs"
proof -
  obtain i where i: "i < length xs" "x = xs ! i" using assms(2) by (auto simp: in_set_conv_nth)
  then have ne: "xs \<noteq> []" by auto
  show ?thesis unfolding i(2) hd_conv_nth [OF ne] last_conv_nth [OF ne]
    by (intro conjI sorted_nth_mono assms(1)) (use i(1) in auto)
qed

lemma find_SomeD: "find P xs = Some x \<Longrightarrow> x \<in> set xs \<and> P x"
  by (auto simp: find_Some_iff)

lemma find_None_iff2: "find P xs = None \<longleftrightarrow> (\<forall>x\<in>set xs. \<not> P x)"
  by (auto simp: find_None_iff)

text \<open>An \<open>UPDATE ... WHERE\<close>: the rows that match are rewritten in place.\<close>

definition update_where :: "('a \<Rightarrow> bool) \<Rightarrow> ('a \<Rightarrow> 'a) \<Rightarrow> 'a list \<Rightarrow> 'a list" where
  "update_where P f xs = map (\<lambda>x. if P x then f x else x) xs"

lemma update_where_Nil [simp]: "update_where P f [] = []"
  by (simp add: update_where_def)

lemma update_where_Cons [simp]:
  "update_where P f (x # xs) = (if P x then f x else x) # update_where P f xs"
  by (simp add: update_where_def)

lemma length_update_where [simp]: "length (update_where P f xs) = length xs"
  by (simp add: update_where_def)

lemma set_update_where:
  "set (update_where P f xs) = {x \<in> set xs. \<not> P x} \<union> f ` {x \<in> set xs. P x}"
  by (auto simp: update_where_def)

lemma map_update_where:
  "(\<And>x. x \<in> set xs \<Longrightarrow> P x \<Longrightarrow> g (f x) = g x) \<Longrightarrow> map g (update_where P f xs) = map g xs"
  by (induction xs) auto

lemma update_where_none: "\<forall>x\<in>set xs. \<not> P x \<Longrightarrow> update_where P f xs = xs"
  by (induction xs) auto

lemma find_update_where:
  assumes "\<And>x. k (f x) = k x"
  shows "find (\<lambda>x. k x = a) (update_where (\<lambda>x. k x = b) f xs) =
    map_option (\<lambda>x. if a = b then f x else x) (find (\<lambda>x. k x = a) xs)"
  by (induction xs) (auto simp: assms)

lemma find_append: "find P (xs @ ys) = (case find P xs of None \<Rightarrow> find P ys | Some x \<Rightarrow> Some x)"
  by (induction xs) auto

text \<open>The first row of a query, as \<open>find\<close>.\<close>

lemma case_filter_find:
  "(case filter P xs of [] \<Rightarrow> a | x # ys \<Rightarrow> g x) = (case find P xs of None \<Rightarrow> a | Some x \<Rightarrow> g x)"
  by (induction xs) auto

end
