(* ===== verification/GoLib.thy ===== *)
theory GoLib imports Prelude begin

text \<open>
  What the code uses of the Go language and its standard library, over byte strings: a
  Go \<open>string\<close> is a sequence of bytes and so is a \<open>string\<close> here. \<open>strings.ToLower\<close>,
  \<open>strings.ToUpper\<close>, \<open>strings.EqualFold\<close>, \<open>strings.TrimSpace\<close> and \<open>strings.Fields\<close>
  are modelled on ASCII: bytes above 127 are neither letters nor spaces. \<open>int\<close> and
  \<open>int64\<close> are both 64 bits wide; \<open>strconv.ParseInt\<close> keeps its overflow behaviour.
\<close>

section \<open>Package strings\<close>

definition is_space :: "char \<Rightarrow> bool" where
  "is_space c \<longleftrightarrow> c \<in> {CHR 0x09, CHR 0x0A, CHR 0x0B, CHR 0x0C, CHR 0x0D, CHR 0x20}"

definition trim_left :: "(char \<Rightarrow> bool) \<Rightarrow> string \<Rightarrow> string" where
  "trim_left P s = dropWhile P s"

definition trim_right :: "(char \<Rightarrow> bool) \<Rightarrow> string \<Rightarrow> string" where
  "trim_right P s = rev (dropWhile P (rev s))"

definition trim_space :: "string \<Rightarrow> string" where
  "trim_space s = trim_right is_space (trim_left is_space s)"

definition trim_set :: "string \<Rightarrow> string \<Rightarrow> string" where
  "trim_set cs s = trim_right (\<lambda>c. c \<in> set cs) (trim_left (\<lambda>c. c \<in> set cs) s)"

definition has_prefix :: "string \<Rightarrow> string \<Rightarrow> bool" where
  "has_prefix s p \<longleftrightarrow> take (length p) s = p"

definition has_suffix :: "string \<Rightarrow> string \<Rightarrow> bool" where
  "has_suffix s p \<longleftrightarrow> length p \<le> length s \<and> drop (length s - length p) s = p"

definition trim_suffix :: "string \<Rightarrow> string \<Rightarrow> string" where
  "trim_suffix s p = (if has_suffix s p then take (length s - length p) s else s)"

fun index_byte :: "string \<Rightarrow> char \<Rightarrow> nat option" where
  "index_byte [] c = None"
| "index_byte (x # xs) c = (if x = c then Some 0 else map_option Suc (index_byte xs c))"

definition last_index_byte :: "string \<Rightarrow> char \<Rightarrow> nat option" where
  "last_index_byte s c = map_option (\<lambda>i. length s - 1 - i) (index_byte (rev s) c)"

fun index_str :: "string \<Rightarrow> string \<Rightarrow> nat option" where
  "index_str [] p = (if p = [] then Some 0 else None)"
| "index_str (x # xs) p =
     (if has_prefix (x # xs) p then Some 0 else map_option Suc (index_str xs p))"

definition contains_byte :: "string \<Rightarrow> char \<Rightarrow> bool" where
  "contains_byte s c \<longleftrightarrow> c \<in> set s"

definition contains_any :: "string \<Rightarrow> string \<Rightarrow> bool" where
  "contains_any s cs \<longleftrightarrow> list_ex (\<lambda>c. c \<in> set cs) s"

text \<open>\<open>strings.Split\<close> and \<open>strings.SplitN(_, _, 2)\<close> with a one-byte separator.\<close>

fun split_byte :: "char \<Rightarrow> string \<Rightarrow> string list" where
  "split_byte c [] = [[]]"
| "split_byte c (x # xs) =
     (if x = c then [] # split_byte c xs
      else case split_byte c xs of [] \<Rightarrow> [[x]] | y # ys \<Rightarrow> (x # y) # ys)"

definition cut_byte :: "char \<Rightarrow> string \<Rightarrow> string \<times> string \<times> bool" where
  "cut_byte c s = (case index_byte s c of
     None \<Rightarrow> (s, [], False) | Some i \<Rightarrow> (take i s, drop (Suc i) s, True))"

definition split_byte2 :: "char \<Rightarrow> string \<Rightarrow> string list" where
  "split_byte2 c s = (case index_byte s c of
     None \<Rightarrow> [s] | Some i \<Rightarrow> [take i s, drop (Suc i) s])"

text \<open>\<open>strings.Fields\<close>: the maximal runs of non-space bytes.\<close>

fun fields_acc :: "string \<Rightarrow> string \<Rightarrow> string list" where
  "fields_acc cur [] = (if cur = [] then [] else [cur])"
| "fields_acc cur (x # xs) =
     (if is_space x then (if cur = [] then fields_acc [] xs else cur # fields_acc [] xs)
      else fields_acc (cur @ [x]) xs)"

definition fields :: "string \<Rightarrow> string list" where
  "fields s = fields_acc [] s"

fun join :: "string \<Rightarrow> string list \<Rightarrow> string" where
  "join sep [] = []"
| "join sep [x] = x"
| "join sep (x # y # ys) = x @ sep @ join sep (y # ys)"

definition lower_char :: "char \<Rightarrow> char" where
  "lower_char c = (let n = of_char c :: nat in if 65 \<le> n \<and> n \<le> 90 then char_of (n + 32) else c)"

definition upper_char :: "char \<Rightarrow> char" where
  "upper_char c = (let n = of_char c :: nat in if 97 \<le> n \<and> n \<le> 122 then char_of (n - 32) else c)"

definition to_lower :: "string \<Rightarrow> string" where
  "to_lower s = map lower_char s"

definition to_upper :: "string \<Rightarrow> string" where
  "to_upper s = map upper_char s"

definition equal_fold :: "string \<Rightarrow> string \<Rightarrow> bool" where
  "equal_fold s t \<longleftrightarrow> to_lower s = to_lower t"

text \<open>\<open>strings.ReplaceAll\<close> of a single byte.\<close>

definition replace_byte :: "char \<Rightarrow> string \<Rightarrow> string \<Rightarrow> string" where
  "replace_byte c r s = concat (map (\<lambda>x. if x = c then r else [x]) s)"

section \<open>Package strconv\<close>

definition digit_char :: "nat \<Rightarrow> char" where
  "digit_char d = char_of (48 + d)"

definition is_digit :: "char \<Rightarrow> bool" where
  "is_digit c \<longleftrightarrow> 48 \<le> (of_char c :: nat) \<and> (of_char c :: nat) \<le> 57"

definition digit_val :: "char \<Rightarrow> nat" where
  "digit_val c = of_char c - 48"

fun nat_str :: "nat \<Rightarrow> string" where
  "nat_str n = (if n < 10 then [digit_char n] else nat_str (n div 10) @ [digit_char (n mod 10)])"

declare nat_str.simps [simp del]

text \<open>\<open>strconv.Itoa\<close>, \<open>strconv.FormatInt(_, 10)\<close> and \<open>fmt.Sprintf("%d", _)\<close>.\<close>

definition itoa :: "int \<Rightarrow> string" where
  "itoa n = (if n < 0 then CHR ''-'' # nat_str (nat (- n)) else nat_str (nat n))"

text \<open>
  \<open>strconv.ParseUint(s, 10, 64)\<close>: the loop over the bytes, which reports a range error
  at the byte where the value overflows, before it has seen the rest.
\<close>

datatype num_status = NumOk nat | NumSyntax | NumRange

fun parse_uint_loop :: "nat \<Rightarrow> string \<Rightarrow> num_status" where
  "parse_uint_loop n [] = NumOk n"
| "parse_uint_loop n (c # cs) =
     (if \<not> is_digit c then NumSyntax
      else if 2 ^ 64 \<le> 10 * n + digit_val c then NumRange
      else parse_uint_loop (10 * n + digit_val c) cs)"

text \<open>
  \<open>strconv.ParseInt(s, 10, 64)\<close> and \<open>strconv.Atoi\<close>: the value and whether \<open>err == nil\<close>.
  A range error returns the nearest bound together with the error.
\<close>

definition max_int64 :: int where "max_int64 = 2 ^ 63 - 1"
definition min_int64 :: int where "min_int64 = - (2 ^ 63)"

definition parse_int64 :: "string \<Rightarrow> int \<times> bool" where
  "parse_int64 s = (case s of
     [] \<Rightarrow> (0, False)
   | c # cs \<Rightarrow>
      (let neg = (c = CHR ''-''); t = (if c = CHR ''-'' \<or> c = CHR ''+'' then cs else s) in
       if t = [] then (0, False)
       else case parse_uint_loop 0 t of
          NumSyntax \<Rightarrow> (0, False)
        | NumRange \<Rightarrow> (if neg then min_int64 else max_int64, False)
        | NumOk n \<Rightarrow>
            if \<not> neg \<and> 2 ^ 63 \<le> n then (max_int64, False)
            else if neg \<and> 2 ^ 63 < n then (min_int64, False)
            else (if neg then - int n else int n, True)))"

text \<open>Two's complement wrap-around of an \<open>int64\<close> result.\<close>

definition wrap64 :: "int \<Rightarrow> int" where
  "wrap64 x = (x + 2 ^ 63) mod 2 ^ 64 - 2 ^ 63"

definition int64_range :: "int \<Rightarrow> bool" where
  "int64_range x \<longleftrightarrow> min_int64 \<le> x \<and> x \<le> max_int64"

section \<open>Facts about strings\<close>

lemma split_byte_not_Nil [simp]: "split_byte c s \<noteq> []"
  by (induction s) (auto split: list.splits)

lemma split_byte_free: "c \<notin> set s \<Longrightarrow> split_byte c s = [s]"
  by (induction s) auto

lemma split_byte_append: "c \<notin> set s \<Longrightarrow> split_byte c (s @ c # t) = s # split_byte c t"
  by (induction s) auto

lemma join_Cons2: "ys \<noteq> [] \<Longrightarrow> join sep (y # ys) = y @ sep @ join sep ys"
  by (cases ys) auto

lemma split_join:
  "xs \<noteq> [] \<Longrightarrow> \<forall>x\<in>set xs. c \<notin> set x \<Longrightarrow> split_byte c (join [c] xs) = xs"
proof (induction xs)
  case (Cons x xs)
  then show ?case
    by (cases "xs = []") (auto simp: split_byte_free join_Cons2 split_byte_append)
qed simp

lemma trim_left_no_space: "s = [] \<or> \<not> is_space (hd s) \<Longrightarrow> trim_left is_space s = s"
  by (cases s) (auto simp: trim_left_def)

lemma trim_space_id:
  assumes "\<forall>c\<in>set s. \<not> is_space c" shows "trim_space s = s"
proof -
  have "dropWhile is_space t = t" if "set t \<subseteq> set s" for t
    using that assms by (cases t) auto
  then show ?thesis by (simp add: trim_space_def trim_left_def trim_right_def)
qed

lemma index_byte_None_iff: "index_byte s c = None \<longleftrightarrow> c \<notin> set s"
  by (induction s) auto

lemma index_byte_SomeD:
  "index_byte s c = Some i \<Longrightarrow> i < length s \<and> s ! i = c \<and> c \<notin> set (take i s)"
  by (induction s arbitrary: i) (auto split: if_splits)

lemma index_str_SomeD:
  "index_str s p = Some i \<Longrightarrow> i + length p \<le> length s \<and> take (length p) (drop i s) = p"
proof (induction s arbitrary: i)
  case Nil
  then show ?case by (auto split: if_splits)
next
  case (Cons x xs)
  show ?case
  proof (cases "has_prefix (x # xs) p")
    case True
    then have "take (length p) (x # xs) = p" by (simp add: has_prefix_def)
    moreover from this have "length p \<le> length (x # xs)"
      by (metis length_take min.bounded_iff order_refl)
    ultimately show ?thesis using Cons.prems True by auto
  next
    case False
    with Cons show ?thesis by (auto split: if_splits)
  qed
qed

section \<open>Facts about numbers\<close>

lemma of_char_digit_char: "d < 10 \<Longrightarrow> (of_char (digit_char d) :: nat) = 48 + d"
  by (simp add: digit_char_def)

lemma is_digit_digit_char [simp]: "d < 10 \<Longrightarrow> is_digit (digit_char d)"
  by (simp add: is_digit_def of_char_digit_char)

lemma digit_val_digit_char [simp]: "d < 10 \<Longrightarrow> digit_val (digit_char d) = d"
  by (simp add: digit_val_def of_char_digit_char)

lemma nat_str_digits: "c \<in> set (nat_str n) \<Longrightarrow> is_digit c"
proof (induction n rule: nat_str.induct)
  case (1 n)
  then show ?case by (cases "n < 10") (auto simp: nat_str.simps [of n])
qed

lemma nat_str_not_Nil [simp]: "nat_str n \<noteq> []"
  by (subst nat_str.simps) simp

lemma parse_uint_loop_append:
  assumes "parse_uint_loop n xs = NumOk m"
  shows "parse_uint_loop n (xs @ ys) = parse_uint_loop m ys"
  using assms by (induction n xs rule: parse_uint_loop.induct) (auto split: if_splits)

lemma parse_uint_nat_str: "n < 2 ^ 64 \<Longrightarrow> parse_uint_loop 0 (nat_str n) = NumOk n"
proof (induction n rule: nat_str.induct)
  case (1 n)
  show ?case
  proof (cases "n < 10")
    case True
    with 1 show ?thesis by (simp add: nat_str.simps [of n])
  next
    case False
    with 1 have "parse_uint_loop 0 (nat_str (n div 10)) = NumOk (n div 10)" by simp
    from parse_uint_loop_append [OF this, of "[digit_char (n mod 10)]"] False "1.prems"
    show ?thesis by (simp add: nat_str.simps [of n])
  qed
qed

lemma is_digit_not_sign: "is_digit c \<Longrightarrow> c \<noteq> CHR ''-'' \<and> c \<noteq> CHR ''+''"
  by (auto simp: is_digit_def)

lemma parse_int64_itoa: "int64_range n \<Longrightarrow> parse_int64 (itoa n) = (n, True)"
proof (cases "n < 0")
  case True
  moreover assume "int64_range n"
  ultimately have b: "nat (- n) \<le> 2 ^ 63"
    by (simp add: int64_range_def min_int64_def nat_le_iff)
  then have "parse_uint_loop 0 (nat_str (nat (- n))) = NumOk (nat (- n))"
    by (intro parse_uint_nat_str) simp
  with True b show ?thesis by (simp add: itoa_def parse_int64_def)
next
  case False
  moreover assume "int64_range n"
  ultimately have b: "nat n < 2 ^ 63"
    by (simp add: int64_range_def max_int64_def nat_less_iff)
  then have p: "parse_uint_loop 0 (nat_str (nat n)) = NumOk (nat n)"
    by (intro parse_uint_nat_str) simp
  obtain c cs where c: "nat_str (nat n) = c # cs" by (cases "nat_str (nat n)") auto
  then have "is_digit c" by (intro nat_str_digits [of c "nat n"]) simp
  with False b p c show ?thesis
    using is_digit_not_sign [of c] by (simp add: itoa_def parse_int64_def)
qed

lemma parse_int64_range: "int64_range (fst (parse_int64 s))"
proof (cases s)
  case (Cons c cs)
  then show ?thesis
    by (simp add: parse_int64_def Let_def int64_range_def min_int64_def max_int64_def
             split: num_status.split)
qed (simp add: parse_int64_def int64_range_def min_int64_def max_int64_def)

lemma is_digit_not_space: "is_digit c \<Longrightarrow> \<not> is_space c"
  by (auto simp: is_digit_def is_space_def)

lemma itoa_chars: "c \<in> set (itoa n) \<Longrightarrow> is_digit c \<or> c = CHR ''-''"
  by (auto simp: itoa_def dest: nat_str_digits split: if_splits)

lemma itoa_not_Nil [simp]: "itoa n \<noteq> []"
  by (simp add: itoa_def)

lemma trim_space_itoa [simp]: "trim_space (itoa n) = itoa n"
  by (rule trim_space_id) (auto dest!: itoa_chars is_digit_not_space simp: is_space_def)

lemma wrap64_id: "int64_range x \<Longrightarrow> wrap64 x = x"
  by (simp add: wrap64_def int64_range_def min_int64_def max_int64_def)

lemma wrap64_range: "int64_range (wrap64 x)"
proof -
  have "0 \<le> (x + 2 ^ 63) mod 2 ^ 64" and "(x + 2 ^ 63) mod 2 ^ 64 < (2::int) ^ 64" by simp_all
  then show ?thesis by (simp add: wrap64_def int64_range_def min_int64_def max_int64_def)
qed

lemma nat_str_inj: "nat_str m = nat_str n \<Longrightarrow> m < 2 ^ 64 \<Longrightarrow> n < 2 ^ 64 \<Longrightarrow> m = n"
  by (metis num_status.inject parse_uint_nat_str)

lemma itoa_inj: "itoa m = itoa n \<Longrightarrow> int64_range m \<Longrightarrow> int64_range n \<Longrightarrow> m = n"
  by (metis fst_conv parse_int64_itoa)

end
