(* ===== verification/StoreBase.thy ===== *)
theory StoreBase imports GoLib "HOL-Library.List_Lexorder" "HOL-Library.Char_ord" begin

text \<open>
  Package \<open>internal/store\<close>, the base: the rows of the tables, the database with its
  constraints, the handle with the blob directory, the statement helpers of \<open>store.go\<close>
  and the invariant \<open>db_ok\<close> that the schema and the operations maintain.
  \<^item> A table is the list of its rows in insertion order. A column of 0 and 1 that the Go
    struct reads as a \<open>bool\<close> is a \<open>bool\<close> here. An \<open>AUTOINCREMENT\<close> id is one more than the
    largest id the table ever gave out, kept in a counter.
  \<^item> The tables hold what the schema of \<open>migrations/0001_init.sqlite.sql\<close> declares:
    primary keys, unique indexes and foreign keys are checked by the insert functions.
  \<^item> Every statement, \<open>BEGIN\<close> and \<open>COMMIT\<close> and every access to the blob directory can
    fail: \<open>st_faults\<close> says of each, in order, whether it does (an empty list: no more
    failures). The theorems hold for every fault list.
  \<^item> The blob directory is behind the interface \<open>Blobs\<close>; it maps keys to contents. The
    random identifiers (\<open>newID\<close>, \<open>NewUUID\<close>), the hash in a blob key and the clock are
    parameters kept in the handle.
\<close>

section \<open>Rows\<close>

(* src: internal/store/users.go 13-31 User *)
record user =
  us_id :: string
  us_name :: string
  us_address :: string
  us_display :: string
  us_hash :: string
  us_folder_seq :: int
  us_created :: int

(* src: internal/store/folders.go 14-47 Folder *)
record folder =
  fo_id :: int
  fo_user :: string
  fo_parent :: int
  fo_name :: string
  fo_type :: int
  fo_class :: string
  fo_seq :: int
  fo_deleted :: bool
  fo_uidvalidity :: int
  fo_uuid :: string
  fo_public :: bool

(* src: internal/store/messages.go 9-42 Message *)
record message =
  ms_id :: int
  ms_user :: string
  ms_folder :: int
  ms_subject :: string
  ms_from_addr :: string
  ms_from_name :: string
  ms_to :: string
  ms_cc :: string
  ms_date :: int
  ms_size :: int
  ms_read :: bool
  ms_flagged :: bool
  ms_importance :: int
  ms_class :: string
  ms_msgid :: string
  ms_body_text :: string
  ms_body_html :: string
  ms_raw :: string
  ms_raw_path :: string
  ms_has_att :: bool
  ms_deleted :: bool
  ms_sender_addr :: string
  ms_sender_name :: string
  ms_bcc :: bool
  ms_conv :: string

(* src: internal/store/messages.go 284-295 Attachment *)
record attachment =
  at_id :: int
  at_message :: int
  at_file :: string
  at_ctype :: string
  at_size :: int
  at_cid :: string
  at_inline :: bool
  at_path :: string
  at_data :: string

(* src: internal/store/items.go 10-47 Contact *)
record contact =
  co_id :: int
  co_user :: string
  co_folder :: int
  co_first :: string
  co_last :: string
  co_middle :: string
  co_file_as :: string
  co_company :: string
  co_department :: string
  co_job :: string
  co_email1 :: string
  co_email2 :: string
  co_email3 :: string
  co_home_phone :: string
  co_home2_phone :: string
  co_mobile :: string
  co_business_phone :: string
  co_business_fax :: string
  co_home_street :: string
  co_home_city :: string
  co_home_state :: string
  co_home_postal :: string
  co_home_country :: string
  co_business_street :: string
  co_business_city :: string
  co_business_state :: string
  co_business_postal :: string
  co_business_country :: string
  co_body :: string
  co_deleted :: bool

(* src: internal/store/items.go 167-172 Attendee *)
record attendee =
  an_name :: string
  an_email :: string
  an_status :: int
  an_type :: int

(* src: internal/store/items.go 284-298 Recurrence *)
record recurrence =
  rc_type :: int
  rc_interval :: int
  rc_until :: int
  rc_occurrences :: int
  rc_day_of_week :: int
  rc_day_of_month :: int
  rc_week_of_month :: int
  rc_month_of_year :: int

(* src: internal/store/items.go 390-409 Exception *)
record event_exception =
  ex_occurrence :: int
  ex_deleted :: bool
  ex_subject :: string
  ex_location :: string
  ex_body :: string
  ex_start :: int
  ex_end :: int
  ex_all_day :: bool
  ex_busy :: int
  ex_sensitivity :: int
  ex_reminder :: int
  ex_meeting :: int

text \<open>The column \<open>attendees\<close> holds the JSON text of the list; it is the list here.\<close>

(* src: internal/store/items.go 175-213 Event *)
record event =
  ev_id :: int
  ev_user :: string
  ev_folder :: int
  ev_uid :: string
  ev_subject :: string
  ev_location :: string
  ev_body :: string
  ev_start :: int
  ev_end :: int
  ev_dtstamp :: int
  ev_all_day :: bool
  ev_busy :: int
  ev_sensitivity :: int
  ev_meeting :: int
  ev_reminder :: int
  ev_org_name :: string
  ev_org_email :: string
  ev_attendees :: "attendee list"
  ev_recurrence :: recurrence
  ev_sequence :: int
  ev_modified :: int
  ev_exceptions :: "event_exception list"
  ev_deleted :: bool

(* src: internal/store/sync.go 3-10 Change *)
record change =
  ch_seq :: int
  ch_folder :: int
  ch_type :: string
  ch_item :: int
  ch_kind :: string

(* src: internal/store/sync.go 52-59 SyncState *)
record sync_state =
  ss_user :: string
  ss_device :: string
  ss_folder :: int
  ss_key :: string
  ss_seq :: int

record sync_item =
  si_user :: string
  si_device :: string
  si_folder :: int
  si_item :: int

(* src: internal/store/devices.go 3-16 Device *)
record device =
  dv_user :: string
  dv_address :: string
  dv_id :: string
  dv_type :: string
  dv_protocol :: string
  dv_policy :: string
  dv_last_seen :: int
  dv_wipe :: bool
  dv_created :: int
  dv_last_ip :: string
  dv_app_version :: string

(* src: internal/store/aliases.go 10-25 Alias *)
record mail_alias =
  al_address :: string
  al_user :: string
  al_primary :: bool
  al_created :: int

(* src: internal/store/outbox.go 24-34 outboundRow *)
record outbox_row =
  ob_id :: int
  ob_from :: string
  ob_recipients :: string
  ob_raw_path :: string
  ob_attempts :: int
  ob_last_error :: string
  ob_next_attempt :: int
  ob_failed :: bool
  ob_created :: int

section \<open>The database\<close>

text \<open>
  \<open>tb_exceptions\<close> pairs a row with its \<open>event_id\<close>. The column \<open>updated_at\<close> of \<open>users\<close> is
  written but never read; it is not modelled. The column \<open>address\<close> of a row of \<open>users\<close> or
  \<open>devices\<close> is empty in the table and filled by the join of a query.
\<close>

record db =
  tb_users :: "user list"
  tb_aliases :: "mail_alias list"
  tb_folders :: "folder list"
  tb_messages :: "message list"
  tb_attachments :: "attachment list"
  tb_contacts :: "contact list"
  tb_events :: "event list"
  tb_exceptions :: "(int \<times> event_exception) list"
  tb_changes :: "change list"
  tb_states :: "sync_state list"
  tb_items :: "sync_item list"
  tb_devices :: "device list"
  tb_outbox :: "outbox_row list"
  sq_folders :: int
  sq_messages :: int
  sq_attachments :: int
  sq_contacts :: int
  sq_events :: int
  sq_changes :: int
  sq_outbox :: int
  tb_settings :: "string \<rightharpoonup> string"

definition empty_db :: db where
  "empty_db = \<lparr>tb_users = [], tb_aliases = [], tb_folders = [], tb_messages = [],
     tb_attachments = [], tb_contacts = [], tb_events = [], tb_exceptions = [], tb_changes = [],
     tb_states = [], tb_items = [], tb_devices = [], tb_outbox = [], sq_folders = 0,
     sq_messages = 0, sq_attachments = 0, sq_contacts = 0, sq_events = 0, sq_changes = 0,
     sq_outbox = 0, tb_settings = Map.empty\<rparr>"

(* src: internal/store/store.go 38-58 Store *)
record store =
  st_db :: db
  st_blobs :: "(string \<rightharpoonup> string) option"
  st_now :: int
  st_faults :: "bool list"
  st_ids :: "nat \<Rightarrow> string"
  st_uuids :: "nat \<Rightarrow> string"
  st_drawn :: nat
  st_sum :: "string \<Rightarrow> string"

section \<open>Statements\<close>

text \<open>A statement: it fails when the next fault says so, otherwise it runs on the tables.\<close>

definition next_fault :: "store \<Rightarrow> bool" where
  "next_fault s \<longleftrightarrow> st_faults s \<noteq> [] \<and> hd (st_faults s)"

definition pop_fault :: "store \<Rightarrow> store" where
  "pop_fault s = s\<lparr>st_faults := tl (st_faults s)\<rparr>"

definition sql :: "(db \<Rightarrow> go_error + 'a \<times> db) \<Rightarrow> (store, 'a) op" where
  "sql f s =
    (if next_fault s then (Inl ErrDriver, pop_fault s)
     else case f (st_db s) of
       Inl e \<Rightarrow> (Inl e, pop_fault s)
     | Inr (x, d) \<Rightarrow> (Inr x, (pop_fault s)\<lparr>st_db := d\<rparr>))"

(* src: internal/store/store.go 191-198 Store.get *)
definition get_row :: "(db \<Rightarrow> 'a list) \<Rightarrow> (store, 'a) op" where
  "get_row q = sql (\<lambda>d. case q d of [] \<Rightarrow> Inl ErrNotFound | x # _ \<Rightarrow> Inr (x, d))"

text \<open>\<open>tx.Get\<close>, which does not translate \<open>sql.ErrNoRows\<close>.\<close>

definition tx_get_row :: "(db \<Rightarrow> 'a list) \<Rightarrow> (store, 'a) op" where
  "tx_get_row q = sql (\<lambda>d. case q d of [] \<Rightarrow> Inl ErrNoRows | x # _ \<Rightarrow> Inr (x, d))"

(* src: internal/store/store.go 200-203 Store.getAll *)
definition getAll :: "(db \<Rightarrow> 'a) \<Rightarrow> (store, 'a) op" where
  "getAll q = sql (\<lambda>d. Inr (q d, d))"

(* src: internal/store/store.go 179-181 Store.exec *)
definition exec :: "(db \<Rightarrow> db) \<Rightarrow> (store, unit) op" where
  "exec f = sql (\<lambda>d. Inr ((), f d))"

text \<open>An \<open>UPDATE\<close> or \<open>DELETE\<close> whose number of affected rows is used.\<close>

definition exec_count :: "(db \<Rightarrow> nat) \<Rightarrow> (db \<Rightarrow> db) \<Rightarrow> (store, nat) op" where
  "exec_count n f = sql (\<lambda>d. Inr (n d, f d))"

(* src: internal/store/store.go 205-222 Store.inTx *)
definition inTx :: "(store, 'a) op \<Rightarrow> (store, 'a) op" where
  "inTx fn s =
    (if next_fault s then (Inl ErrDriver, pop_fault s)
     else case fn (pop_fault s) of
       (Inl e, s') \<Rightarrow> (Inl e, s'\<lparr>st_db := st_db s\<rparr>)
     | (Inr x, s') \<Rightarrow>
         if next_fault s' then (Inl ErrDriver, (pop_fault s')\<lparr>st_db := st_db s\<rparr>)
         else (Inr x, pop_fault s'))"

section \<open>The blob directory\<close>

(* src: internal/blobstore/blobstore.go 91-105 extension *)
definition extension :: "string \<Rightarrow> string" where
  "extension fileName =
    (let ext = to_lower (case last_index_byte fileName CHR ''.'' of
           None \<Rightarrow> []
         | Some i \<Rightarrow> (case last_index_byte fileName CHR ''/'' of
               Some j \<Rightarrow> if i < j then [] else drop i fileName
             | None \<Rightarrow> drop i fileName))
     in if length ext < 2 \<or> length ext > 8 then ''.bin''
        else if list_all (\<lambda>r. (CHR ''a'' \<le> r \<and> r \<le> CHR ''z'') \<or> (CHR ''0'' \<le> r \<and> r \<le> CHR ''9'')) (tl ext)
        then ext else ''.bin'')"

definition hex_lower :: "nat \<Rightarrow> char" where
  "hex_lower n = char_of (if n < 10 then 48 + n else 87 + n)"

text \<open>\<open>sha\<close> gives the hexadecimal text of the first eight bytes of SHA-256.\<close>

(* src: internal/blobstore/blobstore.go 35-42 Key *)
definition blobKey :: "(string \<Rightarrow> string) \<Rightarrow> string \<Rightarrow> int \<Rightarrow> string \<Rightarrow> string \<Rightarrow> string" where
  "blobKey sha kind messageID fileName data =
    kind @ ''/'' @ (let b = nat (messageID mod 256) in [hex_lower (b div 16), hex_lower (b mod 16)]) @
    ''/'' @ itoa messageID @ ''-'' @ sha data @ extension fileName"

text \<open>The three operations of \<open>Blobs\<close>; they are only called when the directory is set.\<close>

definition blobPut :: "string \<Rightarrow> string \<Rightarrow> (store, unit) op" where
  "blobPut key data s =
    (if next_fault s then (Inl ErrBlob, pop_fault s)
     else (Inr (), (pop_fault s)\<lparr>st_blobs := map_option (\<lambda>m. m(key \<mapsto> data)) (st_blobs s)\<rparr>))"

definition blobGet :: "string \<Rightarrow> (store, string) op" where
  "blobGet key s =
    (if next_fault s then (Inl ErrBlob, pop_fault s)
     else case st_blobs s of
       None \<Rightarrow> (Inl ErrBlob, pop_fault s)
     | Some m \<Rightarrow> (case m key of None \<Rightarrow> (Inl ErrBlob, pop_fault s) | Some b \<Rightarrow> (Inr b, pop_fault s)))"

definition blobRemove :: "string \<Rightarrow> (store, unit) op" where
  "blobRemove key s =
    (if next_fault s then (Inl ErrBlob, pop_fault s)
     else (Inr (), (pop_fault s)\<lparr>st_blobs := map_option (\<lambda>m. m(key := None)) (st_blobs s)\<rparr>))"

section \<open>Helpers of \<open>store.go\<close>\<close>

(* src: internal/store/store.go 224-230 newID *)
definition newID :: "(store, string) op" where
  "newID s = (Inr (st_ids s (st_drawn s)), s\<lparr>st_drawn := Suc (st_drawn s)\<rparr>)"

(* src: internal/store/folders.go 213-224 NewUUID *)
definition NewUUID :: "(store, string) op" where
  "NewUUID s = (Inr (st_uuids s (st_drawn s)), s\<lparr>st_drawn := Suc (st_drawn s)\<rparr>)"

(* src: internal/store/store.go 232-232 nowUnix *)
definition nowUnix :: "store \<Rightarrow> int" where
  "nowUnix s = st_now s"

(* src: internal/store/store.go 234-236 normalizeEmail *)
definition normalizeEmail :: "string \<Rightarrow> string" where
  "normalizeEmail email = to_lower (trim_space email)"

(* src: internal/store/store.go 245-254 ClassForType *)
definition ClassForType :: "int \<Rightarrow> string" where
  "ClassForType t = (if t = 8 then ''Calendar'' else if t = 9 then ''Contacts'' else ''Email'')"

(* src: internal/store/store.go 259-272 wrapDuplicate *)
definition wrapDuplicate :: "(store, 'a) op \<Rightarrow> (store, 'a) op" where
  "wrapDuplicate m s = (case m s of (Inl ErrUnique, s') \<Rightarrow> (Inl ErrDuplicate, s') | r \<Rightarrow> r)"

text \<open>\<open>ORDER BY f DESC\<close> on an integer column; the sort is stable.\<close>

definition sort_desc :: "('a \<Rightarrow> int) \<Rightarrow> 'a list \<Rightarrow> 'a list" where
  "sort_desc f xs = sort_key (\<lambda>x. - f x) xs"

section \<open>The invariant of the tables\<close>

text \<open>A table with an auto-increment id: the ids ascend and none exceeds the counter.\<close>

definition ids_ok :: "('a \<Rightarrow> int) \<Rightarrow> int \<Rightarrow> 'a list \<Rightarrow> bool" where
  "ids_ok f n xs \<longleftrightarrow> sorted_wrt (\<lambda>x y. f x < f y) xs \<and> (\<forall>x\<in>set xs. 0 < f x \<and> f x \<le> n) \<and> 0 \<le> n"

lemma ids_ok_empty [simp]: "ids_ok f 0 []"
  by (simp add: ids_ok_def)

lemma ids_ok_append: "ids_ok f n xs \<Longrightarrow> f x = n + 1 \<Longrightarrow> ids_ok f (n + 1) (xs @ [x])"
  by (force simp: ids_ok_def sorted_wrt_append)

lemma ids_ok_filter: "ids_ok f n xs \<Longrightarrow> ids_ok f n (filter P xs)"
  by (auto simp: ids_ok_def sorted_wrt_filter)

lemma ids_ok_map:
  "ids_ok f n ys \<longleftrightarrow> sorted_wrt (<) (map f ys) \<and> (\<forall>i\<in>set (map f ys). 0 < i \<and> i \<le> n) \<and> 0 \<le> n"
  by (simp add: ids_ok_def sorted_wrt_map)

lemma ids_ok_update:
  assumes "ids_ok f n xs" "\<And>x. f (g x) = f x" shows "ids_ok f n (update_where P g xs)"
proof -
  have "map f (update_where P g xs) = map f xs" using assms(2) by (intro map_update_where)
  then show ?thesis using assms(1) unfolding ids_ok_map by metis
qed

lemma ids_ok_unique: "ids_ok f n xs \<Longrightarrow> x \<in> set xs \<Longrightarrow> y \<in> set xs \<Longrightarrow> f x = f y \<Longrightarrow> x = y"
  by (auto simp: ids_ok_def intro: strict_sorted_unique)

text \<open>Every row refers to an existing row of another table.\<close>

definition refs_ok :: "('a \<Rightarrow> 'k) \<Rightarrow> 'a list \<Rightarrow> 'k list \<Rightarrow> bool" where
  "refs_ok f xs ks \<longleftrightarrow> f ` set xs \<subseteq> set ks"

lemma refs_ok_map: "refs_ok f xs ks \<longleftrightarrow> set (map f xs) \<subseteq> set ks"
  by (simp add: refs_ok_def)

lemma refs_ok_append [simp]: "refs_ok f (xs @ [x]) ks \<longleftrightarrow> refs_ok f xs ks \<and> f x \<in> set ks"
  by (auto simp: refs_ok_def)

lemma refs_ok_empty [simp]: "refs_ok f [] ks"
  by (simp add: refs_ok_def)

lemma refs_ok_filter: "refs_ok f xs ks \<Longrightarrow> refs_ok f (filter P xs) ks"
  by (auto simp: refs_ok_def)

lemma refs_ok_more: "refs_ok f xs ks \<Longrightarrow> refs_ok f xs (ks @ ls)"
  by (auto simp: refs_ok_def)

lemma refs_ok_mono: "refs_ok f xs ks \<Longrightarrow> set ks \<subseteq> set ls \<Longrightarrow> refs_ok f xs ls"
  by (auto simp: refs_ok_def)

lemma refs_ok_update:
  "refs_ok f xs ks \<Longrightarrow> (\<And>x. f (g x) = f x \<or> f (g x) \<in> set ks) \<Longrightarrow> refs_ok f (update_where P g xs) ks"
  by (fastforce simp: refs_ok_def set_update_where)

definition state_key :: "sync_state \<Rightarrow> string \<times> string \<times> int" where
  "state_key r = (ss_user r, ss_device r, ss_folder r)"

definition device_key :: "device \<Rightarrow> string \<times> string" where
  "device_key r = (dv_user r, dv_id r)"

definition folder_key :: "folder \<Rightarrow> string \<times> int \<times> string" where
  "folder_key f = (fo_user f, fo_parent f, fo_name f)"

definition uuid_rows :: "folder list \<Rightarrow> string list" where
  "uuid_rows fs = filter (\<lambda>u. u \<noteq> []) (map fo_uuid fs)"

definition primary_rows :: "mail_alias list \<Rightarrow> string list" where
  "primary_rows as = map al_user (filter al_primary as)"

definition account_ok :: "db \<Rightarrow> bool" where
  "account_ok d \<longleftrightarrow> distinct (map us_id (tb_users d)) \<and> distinct (map us_name (tb_users d)) \<and>
     distinct (map al_address (tb_aliases d)) \<and> distinct (primary_rows (tb_aliases d)) \<and>
     refs_ok al_user (tb_aliases d) (map us_id (tb_users d))"

definition folders_ok :: "db \<Rightarrow> bool" where
  "folders_ok d \<longleftrightarrow> ids_ok fo_id (sq_folders d) (tb_folders d) \<and>
     distinct (map folder_key (tb_folders d)) \<and> distinct (uuid_rows (tb_folders d)) \<and>
     refs_ok fo_user (tb_folders d) (map us_id (tb_users d))"

definition mail_ok :: "db \<Rightarrow> bool" where
  "mail_ok d \<longleftrightarrow> ids_ok ms_id (sq_messages d) (tb_messages d) \<and>
     refs_ok ms_user (tb_messages d) (map us_id (tb_users d)) \<and>
     refs_ok ms_folder (tb_messages d) (map fo_id (tb_folders d)) \<and>
     ids_ok at_id (sq_attachments d) (tb_attachments d) \<and>
     refs_ok at_message (tb_attachments d) (map ms_id (tb_messages d))"

definition calendar_ok :: "db \<Rightarrow> bool" where
  "calendar_ok d \<longleftrightarrow> ids_ok co_id (sq_contacts d) (tb_contacts d) \<and>
     refs_ok co_user (tb_contacts d) (map us_id (tb_users d)) \<and>
     refs_ok co_folder (tb_contacts d) (map fo_id (tb_folders d)) \<and>
     ids_ok ev_id (sq_events d) (tb_events d) \<and>
     refs_ok ev_user (tb_events d) (map us_id (tb_users d)) \<and>
     refs_ok ev_folder (tb_events d) (map fo_id (tb_folders d)) \<and>
     distinct (map (\<lambda>(e, x). (e, ex_occurrence x)) (tb_exceptions d)) \<and>
     refs_ok fst (tb_exceptions d) (map ev_id (tb_events d))"

definition feed_ok :: "db \<Rightarrow> bool" where
  "feed_ok d \<longleftrightarrow> ids_ok ch_seq (sq_changes d) (tb_changes d) \<and>
     refs_ok ch_folder (tb_changes d) (map fo_id (tb_folders d)) \<and>
     distinct (map state_key (tb_states d)) \<and>
     refs_ok ss_user (tb_states d) (map us_id (tb_users d)) \<and>
     refs_ok ss_folder (tb_states d) (map fo_id (tb_folders d)) \<and>
     distinct (tb_items d) \<and>
     refs_ok si_user (tb_items d) (map us_id (tb_users d)) \<and>
     refs_ok si_folder (tb_items d) (map fo_id (tb_folders d)) \<and>
     distinct (map device_key (tb_devices d)) \<and>
     refs_ok dv_user (tb_devices d) (map us_id (tb_users d))"

definition outbox_ok :: "db \<Rightarrow> bool" where
  "outbox_ok d \<longleftrightarrow> ids_ok ob_id (sq_outbox d) (tb_outbox d)"

definition db_ok :: "db \<Rightarrow> bool" where
  "db_ok d \<longleftrightarrow> account_ok d \<and> folders_ok d \<and> mail_ok d \<and> calendar_ok d \<and> feed_ok d \<and> outbox_ok d"

definition store_ok :: "store \<Rightarrow> bool" where
  "store_ok s \<longleftrightarrow> db_ok (st_db s)"

lemmas db_parts = account_ok_def folders_ok_def mail_ok_def calendar_ok_def feed_ok_def outbox_ok_def

lemma empty_db_ok: "db_ok empty_db"
  by (simp add: db_ok_def db_parts empty_db_def uuid_rows_def primary_rows_def)

section \<open>Statements and the invariant\<close>

lemma pop_fault_simps [simp]:
  "st_db (pop_fault s) = st_db s" "st_blobs (pop_fault s) = st_blobs s" "st_now (pop_fault s) = st_now s"
  "st_faults (pop_fault s) = tl (st_faults s)" "st_ids (pop_fault s) = st_ids s"
  "st_uuids (pop_fault s) = st_uuids s" "st_drawn (pop_fault s) = st_drawn s" "st_sum (pop_fault s) = st_sum s"
  by (simp_all add: pop_fault_def)

lemma no_fault [simp]: "st_faults s = [] \<Longrightarrow> \<not> next_fault s" "st_faults s = [] \<Longrightarrow> pop_fault s = s"
  by (simp_all add: next_fault_def pop_fault_def)

definition keeps_db :: "(db \<Rightarrow> go_error + 'a \<times> db) \<Rightarrow> bool" where
  "keeps_db f \<longleftrightarrow> (\<forall>d x d'. db_ok d \<longrightarrow> f d = Inr (x, d') \<longrightarrow> db_ok d')"

lemma keeps_sql: "keeps_db f \<Longrightarrow> keeps store_ok (sql f)"
  by (auto simp: keeps_def sql_def store_ok_def keeps_db_def split: sum.splits)

lemma keeps_getAll [keeps_intros]: "keeps store_ok (getAll q)"
  by (auto simp: getAll_def intro!: keeps_sql simp: keeps_db_def)

lemma keeps_get_row [keeps_intros]: "keeps store_ok (get_row q)"
  by (auto simp: get_row_def keeps_db_def intro!: keeps_sql split: list.splits)

lemma keeps_tx_get_row [keeps_intros]: "keeps store_ok (tx_get_row q)"
  by (auto simp: tx_get_row_def keeps_db_def intro!: keeps_sql split: list.splits)

lemma keeps_exec: "(\<And>d. db_ok d \<Longrightarrow> db_ok (f d)) \<Longrightarrow> keeps store_ok (exec f)"
  by (auto simp: exec_def keeps_db_def intro!: keeps_sql)

lemma keeps_exec_count: "(\<And>d. db_ok d \<Longrightarrow> db_ok (f d)) \<Longrightarrow> keeps store_ok (exec_count n f)"
  by (auto simp: exec_count_def keeps_db_def intro!: keeps_sql)

lemma keeps_inTx [keeps_intros]: "keeps store_ok m \<Longrightarrow> keeps store_ok (inTx m)"
proof (rule keepsI)
  fix s assume k: "keeps store_ok m" and s: "store_ok s"
  have "store_ok (snd (m (pop_fault s)))"
    by (rule keepsD [OF k]) (use s in \<open>simp add: store_ok_def\<close>)
  then show "store_ok (snd (inTx m s))"
    using s by (cases "m (pop_fault s)"; cases "fst (m (pop_fault s))") (simp_all add: inTx_def store_ok_def)
qed

lemma keeps_blobs [keeps_intros]:
  "keeps store_ok (blobPut key data)" "keeps store_ok (blobGet key)" "keeps store_ok (blobRemove key)"
  by (auto simp: keeps_def blobPut_def blobGet_def blobRemove_def store_ok_def split: option.splits)

lemma keeps_ids [keeps_intros]: "keeps store_ok newID" "keeps store_ok NewUUID"
  by (auto simp: keeps_def newID_def NewUUID_def store_ok_def)

lemma snd_wrapDuplicate [simp]: "snd (wrapDuplicate m s) = snd (m s)"
proof (cases "m s")
  case (Pair r t)
  then show ?thesis
    by (cases r) (auto simp: wrapDuplicate_def split: go_error.split)
qed

lemma wrapDuplicate_Inr_iff [simp]: "wrapDuplicate m s = (Inr x, t) \<longleftrightarrow> m s = (Inr x, t)"
proof (cases "m s")
  case (Pair r u)
  then show ?thesis
    by (cases r) (auto simp: wrapDuplicate_def split: go_error.split)
qed

lemma keeps_wrapDuplicate [keeps_intros]: "keeps I m \<Longrightarrow> keeps I (wrapDuplicate m)"
  by (simp add: keeps_def)

text \<open>A failed transaction leaves the tables as they were.\<close>

lemma inTx_rollback: "inTx m s = (Inl e, s') \<Longrightarrow> st_db s' = st_db s"
  by (auto simp: inTx_def split: if_splits prod.splits sum.splits)

lemma inTx_commit:
  "inTx m s = (Inr x, s') \<Longrightarrow> \<exists>t. m (pop_fault s) = (Inr x, t) \<and> s' = pop_fault t"
  by (auto simp: inTx_def split: if_splits prod.splits sum.splits)

text \<open>Evaluation when no statement fails.\<close>

lemma sql_no_fault:
  "st_faults s = [] \<Longrightarrow> sql f s = (case f (st_db s) of Inl e \<Rightarrow> (Inl e, s) | Inr (x, d) \<Rightarrow> (Inr x, s\<lparr>st_db := d\<rparr>))"
  by (cases "f (st_db s)") (simp_all add: sql_def split_beta)

lemma sql_Inr_iff:
  "sql f s = (Inr x, s') \<longleftrightarrow>
     \<not> next_fault s \<and> (\<exists>d. f (st_db s) = Inr (x, d) \<and> s' = (pop_fault s)\<lparr>st_db := d\<rparr>)"
  by (auto simp: sql_def split: sum.splits)

lemma sql_Inl_db: "sql f s = (Inl e, s') \<Longrightarrow> st_db s' = st_db s"
  by (auto simp: sql_def split: if_splits sum.splits prod.splits)

lemma upd_same_db [simp]: "s\<lparr>st_db := st_db s\<rparr> = s"
  by (cases s) simp

lemma pop_same_db [simp]: "(pop_fault s)\<lparr>st_db := st_db s\<rparr> = pop_fault s"
  using upd_same_db [of "pop_fault s"] by simp

lemma get_row_Inr_iff:
  "get_row q s = (Inr x, s') \<longleftrightarrow>
     \<not> next_fault s \<and> s' = pop_fault s \<and> (\<exists>xs. q (st_db s) = x # xs)"
  by (auto simp: get_row_def sql_Inr_iff split: list.splits)

lemma getAll_Inr_iff:
  "getAll q s = (Inr x, s') \<longleftrightarrow> \<not> next_fault s \<and> s' = pop_fault s \<and> x = q (st_db s)"
  by (auto simp: getAll_def sql_Inr_iff)

lemma exec_Inr_iff:
  "exec f s = (Inr x, s') \<longleftrightarrow> \<not> next_fault s \<and> s' = (pop_fault s)\<lparr>st_db := f (st_db s)\<rparr>"
  by (auto simp: exec_def sql_Inr_iff)

lemmas op_Inr_iffs = sql_Inr_iff get_row_Inr_iff getAll_Inr_iff exec_Inr_iff

section \<open>A small example\<close>

text \<open>
  One account with an inbox, a spam folder and an address, two messages whose arrival is in
  the change feed, and a device that has consumed the first change. The witnesses of the
  component theories start here.
\<close>

definition demo_folder :: "int \<Rightarrow> string \<Rightarrow> int \<Rightarrow> int \<Rightarrow> folder" where
  "demo_folder i name typ n = \<lparr>fo_id = i, fo_user = ''u'', fo_parent = 0, fo_name = name, fo_type = typ,
     fo_class = ClassForType typ, fo_seq = n, fo_deleted = False, fo_uidvalidity = 7,
     fo_uuid = [], fo_public = False\<rparr>"

definition demo_message :: "int \<Rightarrow> message" where
  "demo_message i = \<lparr>ms_id = i, ms_user = ''u'', ms_folder = 1, ms_subject = ''hi'', ms_from_addr = ''a@x'',
     ms_from_name = [], ms_to = ''u@x'', ms_cc = [], ms_date = 10 * i, ms_size = 0, ms_read = False,
     ms_flagged = False, ms_importance = 1, ms_class = ''IPM.Note'', ms_msgid = [], ms_body_text = ''text'',
     ms_body_html = [], ms_raw = [], ms_raw_path = [], ms_has_att = False, ms_deleted = False,
     ms_sender_addr = [], ms_sender_name = [], ms_bcc = False, ms_conv = []\<rparr>"

definition demo_user :: user where
  "demo_user = \<lparr>us_id = ''u'', us_name = ''box'', us_address = [], us_display = ''Box'', us_hash = [],
     us_folder_seq = 2, us_created = 0\<rparr>"

definition demo_db :: db where
  "demo_db = empty_db\<lparr>
     tb_users := [demo_user],
     tb_aliases := [\<lparr>al_address = ''u@x'', al_user = ''u'', al_primary = True, al_created = 0\<rparr>],
     tb_folders := [demo_folder 1 ''Inbox'' 2 1, demo_folder 2 ''Spam'' 12 2], sq_folders := 2,
     tb_messages := [demo_message 1, demo_message 2], sq_messages := 2,
     tb_changes := [\<lparr>ch_seq = 1, ch_folder = 1, ch_type = ''email'', ch_item = 1, ch_kind = ''add''\<rparr>,
        \<lparr>ch_seq = 2, ch_folder = 1, ch_type = ''email'', ch_item = 2, ch_kind = ''add''\<rparr>], sq_changes := 2,
     tb_states := [\<lparr>ss_user = ''u'', ss_device = ''d'', ss_folder = 1, ss_key = ''2'', ss_seq = 1\<rparr>],
     tb_items := [\<lparr>si_user = ''u'', si_device = ''d'', si_folder = 1, si_item = 1\<rparr>]\<rparr>"

definition demo_store :: store where
  "demo_store = \<lparr>st_db = demo_db, st_blobs = Some Map.empty, st_now = 1000, st_faults = [],
     st_ids = (\<lambda>n. ''id'' @ itoa (int n)), st_uuids = (\<lambda>n. ''uuid'' @ itoa (int n)), st_drawn = 0,
     st_sum = (\<lambda>_. ''00'')\<rparr>"

lemmas demo_defs = demo_store_def demo_db_def demo_user_def demo_message_def demo_folder_def
  empty_db_def ClassForType_def

lemma demo_ok: "store_ok demo_store"
  by (simp add: store_ok_def db_ok_def db_parts demo_defs ids_ok_def refs_ok_def folder_key_def
      uuid_rows_def primary_rows_def state_key_def)

lemma demo_simps [simp]:
  "st_db demo_store = demo_db" "st_blobs demo_store = Some Map.empty" "st_now demo_store = 1000"
  "st_faults demo_store = []"
  by (simp_all add: demo_store_def)

end
