(* ===== verification/StoreSync.thy ===== *)
theory StoreSync imports StoreBase begin

text \<open>
  \<open>internal/store/sync.go\<close> and \<open>maintenance.go\<close>: the change feed of a folder, the sync
  state of a device and the items a device knows. The feed is an interface
  (\<open>change_feed\<close>) whose client reads it page by page; it is interpreted on the tables.
\<close>

section \<open>Operations\<close>

definition folder_ids :: "db \<Rightarrow> int list" where
  "folder_ids d = map fo_id (tb_folders d)"

definition user_ids :: "db \<Rightarrow> string list" where
  "user_ids d = map us_id (tb_users d)"

definition insert_change :: "int \<Rightarrow> string \<Rightarrow> string \<Rightarrow> int \<Rightarrow> db \<Rightarrow> go_error + int \<times> db" where
  "insert_change folderID kind itemType itemID d =
    (if folderID \<notin> set (folder_ids d) then Inl ErrForeignKey
     else let seq = sq_changes d + 1 in
       Inr (seq, d\<lparr>tb_changes := tb_changes d @
           [\<lparr>ch_seq = seq, ch_folder = folderID, ch_type = itemType, ch_item = itemID, ch_kind = kind\<rparr>],
         sq_changes := seq\<rparr>))"

(* src: internal/store/sync.go 12-19 Store.AddChange *)
definition AddChange :: "int \<Rightarrow> string \<Rightarrow> string \<Rightarrow> int \<Rightarrow> (store, int) op" where
  "AddChange folderID kind itemType itemID = sql (insert_change folderID kind itemType itemID)"

definition changes_after :: "int \<Rightarrow> int \<Rightarrow> db \<Rightarrow> change list" where
  "changes_after folderID after d =
    sort_key ch_seq (filter (\<lambda>c. ch_folder c = folderID \<and> ch_seq c > after) (tb_changes d))"

(* src: internal/store/sync.go 21-33 Store.ChangesSince *)
definition ChangesSince :: "int \<Rightarrow> int \<Rightarrow> int \<Rightarrow> (store, change list) op" where
  "ChangesSince folderID after limit = getAll (\<lambda>d. limit_rows limit (changes_after folderID after d))"

definition count_after :: "int \<Rightarrow> int \<Rightarrow> db \<Rightarrow> nat" where
  "count_after folderID after d =
    length (filter (\<lambda>c. ch_folder c = folderID \<and> ch_seq c > after) (tb_changes d))"

(* src: internal/store/sync.go 35-43 Store.HasChangesAfter *)
definition HasChangesAfter :: "int \<Rightarrow> int \<Rightarrow> (store, bool) op" where
  "HasChangesAfter folderID after = getAll (\<lambda>d. count_after folderID after d > 0)"

(* src: internal/store/sync.go 45-50 Store.CountChangesAfter *)
definition CountChangesAfter :: "int \<Rightarrow> int \<Rightarrow> (store, int) op" where
  "CountChangesAfter folderID after = getAll (\<lambda>d. int (count_after folderID after d))"

(* src: internal/store/sync.go 61-75 Store.GetSyncState *)
definition GetSyncState :: "string \<Rightarrow> string \<Rightarrow> int \<Rightarrow> (store, sync_state option) op" where
  "GetSyncState userID deviceID folderID s =
    (case get_row (\<lambda>d. filter (\<lambda>r. state_key r = (userID, deviceID, folderID)) (tb_states d)) s of
       (Inl e, s') \<Rightarrow> if e = ErrNotFound then (Inr None, s') else (Inl e, s')
     | (Inr st, s') \<Rightarrow> (Inr (Some st), s'))"

definition upsert_state :: "sync_state \<Rightarrow> db \<Rightarrow> go_error + unit \<times> db" where
  "upsert_state st d =
    (if ss_user st \<notin> set (user_ids d) \<or> ss_folder st \<notin> set (folder_ids d) then Inl ErrForeignKey
     else if state_key st \<in> set (map state_key (tb_states d)) then
       Inr ((), d\<lparr>tb_states := update_where (\<lambda>r. state_key r = state_key st)
          (\<lambda>r. r\<lparr>ss_key := ss_key st, ss_seq := ss_seq st\<rparr>) (tb_states d)\<rparr>)
     else Inr ((), d\<lparr>tb_states := tb_states d @ [st]\<rparr>))"

(* src: internal/store/sync.go 77-86 Store.SaveSyncState *)
definition SaveSyncState :: "sync_state \<Rightarrow> (store, unit) op" where
  "SaveSyncState st = sql (upsert_state st)"

definition drop_items :: "(sync_item \<Rightarrow> bool) \<Rightarrow> db \<Rightarrow> db" where
  "drop_items P d = d\<lparr>tb_items := filter (\<lambda>r. \<not> P r) (tb_items d)\<rparr>"

definition drop_states :: "(sync_state \<Rightarrow> bool) \<Rightarrow> db \<Rightarrow> db" where
  "drop_states P d = d\<lparr>tb_states := filter (\<lambda>r. \<not> P r) (tb_states d)\<rparr>"

(* src: internal/store/sync.go 130-136 Store.ForgetAllItems *)
definition ForgetAllItems :: "string \<Rightarrow> string \<Rightarrow> int \<Rightarrow> (store, unit) op" where
  "ForgetAllItems userID deviceID folderID =
    exec (drop_items (\<lambda>r. si_user r = userID \<and> si_device r = deviceID \<and> si_folder r = folderID))"

(* src: internal/store/sync.go 88-96 Store.ResetSyncState *)
definition ResetSyncState :: "string \<Rightarrow> string \<Rightarrow> int \<Rightarrow> (store, unit) op" where
  "ResetSyncState userID deviceID folderID =
    bindE (exec (drop_states (\<lambda>r. state_key r = (userID, deviceID, folderID))))
      (\<lambda>_. ForgetAllItems userID deviceID folderID)"

definition known_items :: "string \<Rightarrow> string \<Rightarrow> int \<Rightarrow> db \<Rightarrow> int set" where
  "known_items userID deviceID folderID d =
    set (map si_item (filter (\<lambda>r. si_user r = userID \<and> si_device r = deviceID \<and> si_folder r = folderID)
      (tb_items d)))"

text \<open>The map of the code has only \<open>true\<close> values: it is the set of its keys.\<close>

(* src: internal/store/sync.go 98-111 Store.KnownItems *)
definition KnownItems :: "string \<Rightarrow> string \<Rightarrow> int \<Rightarrow> (store, int set) op" where
  "KnownItems userID deviceID folderID = getAll (known_items userID deviceID folderID)"

definition insert_item :: "sync_item \<Rightarrow> db \<Rightarrow> go_error + unit \<times> db" where
  "insert_item r d =
    (if r \<in> set (tb_items d) then Inr ((), d)
     else if si_user r \<notin> set (user_ids d) \<or> si_folder r \<notin> set (folder_ids d) then Inl ErrForeignKey
     else Inr ((), d\<lparr>tb_items := tb_items d @ [r]\<rparr>))"

(* src: internal/store/sync.go 113-120 Store.MarkItemKnown *)
definition MarkItemKnown :: "string \<Rightarrow> string \<Rightarrow> int \<Rightarrow> int \<Rightarrow> (store, unit) op" where
  "MarkItemKnown userID deviceID folderID itemID =
    sql (insert_item \<lparr>si_user = userID, si_device = deviceID, si_folder = folderID, si_item = itemID\<rparr>)"

(* src: internal/store/sync.go 122-128 Store.ForgetItem *)
definition ForgetItem :: "string \<Rightarrow> string \<Rightarrow> int \<Rightarrow> int \<Rightarrow> (store, unit) op" where
  "ForgetItem userID deviceID folderID itemID = exec (drop_items (\<lambda>r.
     r = \<lparr>si_user = userID, si_device = deviceID, si_folder = folderID, si_item = itemID\<rparr>))"

text \<open>
  The subquery of \<open>PruneChanges\<close> is NULL for a folder no device has synced; the comparison
  with NULL is not true and the row stays.
\<close>

definition watermark :: "db \<Rightarrow> int \<Rightarrow> int option" where
  "watermark d folderID =
    (case map ss_seq (filter (\<lambda>r. ss_folder r = folderID) (tb_states d)) of
       [] \<Rightarrow> None | x # xs \<Rightarrow> Some (foldl min x xs))"

definition prunable :: "db \<Rightarrow> change \<Rightarrow> bool" where
  "prunable d c \<longleftrightarrow> (case watermark d (ch_folder c) of None \<Rightarrow> False | Some w \<Rightarrow> ch_seq c \<le> w)"

(* src: internal/store/maintenance.go 3-14 Store.PruneChanges *)
definition PruneChanges :: "(store, int) op" where
  "PruneChanges = bindE
    (exec_count (\<lambda>d. length (filter (prunable d) (tb_changes d)))
      (\<lambda>d. d\<lparr>tb_changes := filter (\<lambda>c. \<not> prunable d c) (tb_changes d)\<rparr>))
    (\<lambda>n. okE (int n))"

section \<open>The invariant\<close>

text \<open>What an update of the tables of this theory has to show.\<close>

lemma db_ok_items:
  "db_ok d \<Longrightarrow> distinct it \<Longrightarrow> refs_ok si_user it (map us_id (tb_users d)) \<Longrightarrow>
   refs_ok si_folder it (map fo_id (tb_folders d)) \<Longrightarrow> db_ok (d\<lparr>tb_items := it\<rparr>)"
  by (simp add: db_ok_def db_parts)

lemma db_ok_states:
  "db_ok d \<Longrightarrow> distinct (map state_key st) \<Longrightarrow> refs_ok ss_user st (map us_id (tb_users d)) \<Longrightarrow>
   refs_ok ss_folder st (map fo_id (tb_folders d)) \<Longrightarrow> db_ok (d\<lparr>tb_states := st\<rparr>)"
  by (simp add: db_ok_def db_parts)

lemma db_ok_changes:
  "db_ok d \<Longrightarrow> ids_ok ch_seq n c \<Longrightarrow> refs_ok ch_folder c (map fo_id (tb_folders d)) \<Longrightarrow>
   db_ok (d\<lparr>tb_changes := c, sq_changes := n\<rparr>)"
  by (simp add: db_ok_def db_parts)

lemma db_okD_feed:
  assumes "db_ok d"
  shows "ids_ok ch_seq (sq_changes d) (tb_changes d)" "refs_ok ch_folder (tb_changes d) (map fo_id (tb_folders d))"
    "distinct (map state_key (tb_states d))" "refs_ok ss_user (tb_states d) (map us_id (tb_users d))"
    "refs_ok ss_folder (tb_states d) (map fo_id (tb_folders d))" "distinct (tb_items d)"
    "refs_ok si_user (tb_items d) (map us_id (tb_users d))"
    "refs_ok si_folder (tb_items d) (map fo_id (tb_folders d))"
  using assms by (simp_all add: db_ok_def feed_ok_def)

lemma keeps_AddChange [keeps_intros]: "keeps store_ok (AddChange f k t i)"
  unfolding AddChange_def
proof (rule keeps_sql, unfold keeps_db_def, intro allI impI)
  fix d x d' assume "db_ok d" "insert_change f k t i d = Inr (x, d')"
  then show "db_ok d'"
    by (auto simp: insert_change_def Let_def folder_ids_def db_okD_feed split: if_splits
        intro!: db_ok_changes ids_ok_append)
qed

lemma keeps_drop_items [keeps_intros]: "keeps store_ok (exec (drop_items P))"
  by (rule keeps_exec) (auto simp: drop_items_def db_okD_feed intro!: db_ok_items refs_ok_filter)

lemma keeps_drop_states [keeps_intros]: "keeps store_ok (exec (drop_states P))"
  by (rule keeps_exec)
    (auto simp: drop_states_def db_okD_feed distinct_map_filter intro!: db_ok_states refs_ok_filter)

lemma keeps_SaveSyncState [keeps_intros]: "keeps store_ok (SaveSyncState st)"
  unfolding SaveSyncState_def
proof (rule keeps_sql, unfold keeps_db_def, intro allI impI)
  fix d x d' assume d: "db_ok d" and u: "upsert_state st d = Inr (x, d')"
  let ?f = "\<lambda>r. r\<lparr>ss_key := ss_key st, ss_seq := ss_seq st\<rparr>"
  have "map state_key (update_where P ?f xs) = map state_key xs" for P xs
    by (rule map_update_where) (simp add: state_key_def)
  with d u show "db_ok d'"
    by (auto simp: upsert_state_def user_ids_def folder_ids_def db_okD_feed split: if_splits
        intro!: db_ok_states refs_ok_update)
qed

lemma keeps_MarkItemKnown [keeps_intros]: "keeps store_ok (MarkItemKnown u v f i)"
  unfolding MarkItemKnown_def
proof (rule keeps_sql, unfold keeps_db_def, intro allI impI)
  fix d r x d' assume "db_ok d" "insert_item \<lparr>si_user = u, si_device = v, si_folder = f, si_item = i\<rparr> d = Inr (x, d')"
  then show "db_ok d'"
    by (auto simp: insert_item_def user_ids_def folder_ids_def db_okD_feed split: if_splits
        intro!: db_ok_items)
qed

lemma keeps_sync [keeps_intros]:
  "keeps store_ok (ChangesSince f a n)" "keeps store_ok (HasChangesAfter f a)"
  "keeps store_ok (CountChangesAfter f a)" "keeps store_ok (KnownItems u v f)"
  "keeps store_ok (ForgetItem u v f i)" "keeps store_ok (ForgetAllItems u v f)"
  "keeps store_ok (ResetSyncState u v f)"
  by (simp_all add: ChangesSince_def HasChangesAfter_def CountChangesAfter_def KnownItems_def
      ForgetItem_def ForgetAllItems_def ResetSyncState_def keeps_intros)

lemma keeps_GetSyncState [keeps_intros]: "keeps store_ok (GetSyncState u v f)"
proof -
  have "snd (GetSyncState u v f s) =
      snd (get_row (\<lambda>d. filter (\<lambda>r. state_key r = (u, v, f)) (tb_states d)) s)" for s
    by (simp add: GetSyncState_def split: prod.split sum.split)
  then show ?thesis
    using keeps_get_row [of "\<lambda>d. filter (\<lambda>r. state_key r = (u, v, f)) (tb_states d)"]
    by (simp add: keeps_def)
qed

lemma keeps_PruneChanges [keeps_intros]: "keeps store_ok PruneChanges"
proof -
  have "keeps store_ok (exec_count (\<lambda>d. length (filter (prunable d) (tb_changes d)))
      (\<lambda>d. d\<lparr>tb_changes := filter (\<lambda>c. \<not> prunable d c) (tb_changes d)\<rparr>))"
  proof (rule keeps_exec_count)
    fix d assume d: "db_ok d"
    from db_ok_changes [OF d ids_ok_filter refs_ok_filter, OF db_okD_feed(1,2) [OF d]]
    show "db_ok (d\<lparr>tb_changes := filter (\<lambda>c. \<not> prunable d c) (tb_changes d)\<rparr>)"
      by (metis (no_types, lifting) db.surjective db.update_convs(9) db.update_convs(19))
  qed
  then show ?thesis by (simp add: PruneChanges_def keeps_intros)
qed

section \<open>The change feed as an interface\<close>

definition feed :: "db \<Rightarrow> int \<Rightarrow> change list" where
  "feed d f = filter (\<lambda>c. ch_folder c = f) (tb_changes d)"

locale change_feed =
  fixes ok :: "'d \<Rightarrow> bool"
    and log :: "'d \<Rightarrow> int \<Rightarrow> change list"
    and add :: "int \<Rightarrow> string \<Rightarrow> string \<Rightarrow> int \<Rightarrow> 'd \<Rightarrow> go_error + int \<times> 'd"
    and since :: "int \<Rightarrow> int \<Rightarrow> 'd \<Rightarrow> change list"
  assumes log_sorted: "ok d \<Longrightarrow> sorted_wrt (\<lambda>x y. ch_seq x < ch_seq y) (log d f)"
    and since_log: "ok d \<Longrightarrow> since f a d = filter (\<lambda>c. a < ch_seq c) (log d f)"
    and add_log: "ok d \<Longrightarrow> add f k t i d = Inr (n, d') \<Longrightarrow>
      ok d' \<and> log d' f = log d f @ [\<lparr>ch_seq = n, ch_folder = f, ch_type = t, ch_item = i, ch_kind = k\<rparr>] \<and>
      (\<forall>g. g \<noteq> f \<longrightarrow> log d' g = log d g) \<and> (\<forall>g. \<forall>c\<in>set (log d g). ch_seq c < n)"
begin

text \<open>A reader that takes a prefix of what is new continues at the last entry it took.\<close>

lemma since_prefix:
  assumes "ok d" "since f a d = p @ q" "p \<noteq> []"
  shows "since f (ch_seq (last p)) d = q"
proof -
  have s: "sorted_wrt (\<lambda>x y. ch_seq x < ch_seq y) (p @ q)"
    unfolding assms(2) [symmetric] since_log [OF assms(1)]
    by (rule sorted_wrt_filter) (rule log_sorted [OF assms(1)])
  have pq: "\<forall>x\<in>set p. \<forall>y\<in>set q. ch_seq x < ch_seq y" using s by (simp add: sorted_wrt_append)
  have lp: "\<forall>x\<in>set p. ch_seq x \<le> ch_seq (last p)"
  proof -
    obtain xs x where p: "p = xs @ [x]" using assms(3) by (metis rev_exhaust)
    show ?thesis using s by (auto simp: p sorted_wrt_append)
  qed
  have a: "a < ch_seq (last p)"
  proof -
    have "last p \<in> set (since f a d)" using assms(2,3) by simp
    then show ?thesis by (simp add: since_log [OF assms(1)])
  qed
  have "since f (ch_seq (last p)) d = filter (\<lambda>c. ch_seq (last p) < ch_seq c) (since f a d)"
    unfolding since_log [OF assms(1)] filter_filter using a by (intro filter_cong) auto
  also have "\<dots> = q"
    unfolding assms(2) filter_append using pq lp assms(3)
    by (simp add: filter_empty_conv filter_id_conv) (metis last_in_set not_less)
  finally show ?thesis .
qed

lemma since_add:
  assumes "ok d" "add f k t i d = Inr (n, d')" "a < n"
  shows "since f a d' = since f a d @ [\<lparr>ch_seq = n, ch_folder = f, ch_type = t, ch_item = i, ch_kind = k\<rparr>]"
  using add_log [OF assms(1,2)] assms by (simp add: since_log)

lemma since_other: "ok d \<Longrightarrow> add f k t i d = Inr (n, d') \<Longrightarrow> g \<noteq> f \<Longrightarrow> since g a d' = since g a d"
  using add_log [of d f k t i n d'] by (simp add: since_log)

end

lemma feed_sorted: "db_ok d \<Longrightarrow> sorted_wrt (\<lambda>x y. ch_seq x < ch_seq y) (feed d f)"
  using db_okD_feed(1) [of d] by (simp add: feed_def ids_ok_def sorted_wrt_filter)

lemma changes_after_feed: "db_ok d \<Longrightarrow> changes_after f a d = filter (\<lambda>c. a < ch_seq c) (feed d f)"
proof -
  assume d: "db_ok d"
  let ?r = "filter (\<lambda>c. ch_folder c = f \<and> ch_seq c > a) (tb_changes d)"
  have "sorted_wrt (\<lambda>x y. ch_seq x < ch_seq y) ?r"
    using db_okD_feed(1) [OF d] by (simp add: ids_ok_def sorted_wrt_filter)
  then have "sorted (map ch_seq ?r)"
    by (simp add: sorted_wrt_map) (rule sorted_wrt_mono_rel, auto)
  then have "sort_key ch_seq ?r = ?r" by (rule sort_key_id_if_sorted)
  then show ?thesis by (simp add: changes_after_def feed_def conj_commute)
qed

interpretation tables: change_feed db_ok feed insert_change changes_after
proof unfold_locales
  fix d f k t i n d' assume d: "db_ok d" and a: "insert_change f k t i d = Inr (n, d')"
  have "db_ok d'"
    using keepsD_eq [OF keeps_AddChange [of f k t i], of "\<lparr>st_db = d, st_blobs = None, st_now = 0,
      st_faults = [], st_ids = \<lambda>_. [], st_uuids = \<lambda>_. [], st_drawn = 0, st_sum = \<lambda>x. x\<rparr>"] d a
    by (simp add: AddChange_def sql_no_fault store_ok_def)
  then show "db_ok d' \<and>
      feed d' f = feed d f @ [\<lparr>ch_seq = n, ch_folder = f, ch_type = t, ch_item = i, ch_kind = k\<rparr>] \<and>
      (\<forall>g. g \<noteq> f \<longrightarrow> feed d' g = feed d g) \<and> (\<forall>g. \<forall>c\<in>set (feed d g). ch_seq c < n)"
    using a db_okD_feed(1) [OF d]
    by (force simp: insert_change_def feed_def Let_def ids_ok_def split: if_splits)
qed (simp_all add: feed_sorted changes_after_feed)

lemma count_after_changes: "count_after f a d = length (changes_after f a d)"
  by (simp add: count_after_def changes_after_def)

section \<open>Properties\<close>

text \<open>Appending to the change feed gives the entry a sequence number above every number
  in the feed of any folder, puts it at the end of its folder's feed and changes no other
  feed; a device that has read up to any earlier number sees exactly one more change.\<close>

theorem AddChange_appends:
  assumes "store_ok s" "AddChange f k t i s = (Inr n, s')"
  shows "(\<forall>g. \<forall>c\<in>set (feed (st_db s) g). ch_seq c < n) \<and>
    (\<forall>a<n. changes_after f a (st_db s') = changes_after f a (st_db s) @
       [\<lparr>ch_seq = n, ch_folder = f, ch_type = t, ch_item = i, ch_kind = k\<rparr>]) \<and>
    (\<forall>g a. g \<noteq> f \<longrightarrow> changes_after g a (st_db s') = changes_after g a (st_db s))"
proof -
  have d: "db_ok (st_db s)" and a: "insert_change f k t i (st_db s) = Inr (n, st_db s')"
    using assms by (auto simp: store_ok_def AddChange_def sql_Inr_iff)
  show ?thesis
    using tables.add_log [OF d a] tables.since_add [OF d a] tables.since_other [OF d a] by blast
qed

theorem AddChange_appends_witness:
  "fst (AddChange 1 ''delete'' ''email'' 1 demo_store) = Inr 3 \<and>
   changes_after 1 2 (st_db (snd (AddChange 1 ''delete'' ''email'' 1 demo_store))) =
     [\<lparr>ch_seq = 3, ch_folder = 1, ch_type = ''email'', ch_item = 1, ch_kind = ''delete''\<rparr>]"
proof -
  obtain s' where a: "AddChange 1 ''delete'' ''email'' 1 demo_store = (Inr 3, s')"
    by (simp add: AddChange_def sql_no_fault insert_change_def demo_defs folder_ids_def)
  have "changes_after 1 2 demo_db = []" by (simp add: changes_after_def demo_defs)
  then show ?thesis using AddChange_appends [OF demo_ok a] a by simp
qed

text \<open>C13: reading the feed in pages loses and repeats nothing: a page of \<open>ChangesSince\<close> is a
  prefix of what is new after the given number, and what is new after its last entry is
  exactly the rest; a page shorter than the limit is the whole of it.\<close>

theorem ChangesSince_pages:
  assumes "store_ok s" "ChangesSince f a limit s = (Inr p, s')" "0 < limit"
  shows "length p \<le> nat limit \<and> (length p < nat limit \<longrightarrow> changes_after f a (st_db s) = p) \<and>
    (p \<noteq> [] \<longrightarrow> changes_after f a (st_db s) = p @ changes_after f (ch_seq (last p)) (st_db s)) \<and>
    (p = [] \<longrightarrow> changes_after f a (st_db s) = [])"
proof -
  let ?c = "changes_after f a (st_db s)"
  have d: "db_ok (st_db s)" and p: "p = take (nat limit) ?c"
    using assms by (auto simp: store_ok_def ChangesSince_def getAll_Inr_iff limit_rows_def)
  have c: "?c = p @ drop (nat limit) ?c" by (simp add: p)
  show ?thesis
    using tables.since_prefix [OF d c] c p assms(3) by auto
qed

theorem ChangesSince_pages_witness:
  "\<exists>c s'. ChangesSince 1 0 1 demo_store = (Inr [c], s') \<and> ch_seq c = 1 \<and>
     changes_after 1 0 demo_db = [c] @ changes_after 1 1 demo_db"
proof -
  let ?c = "\<lparr>ch_seq = 1, ch_folder = 1, ch_type = ''email'', ch_item = 1, ch_kind = ''add''\<rparr>"
  have a: "ChangesSince 1 0 1 demo_store = (Inr [?c], demo_store)"
    by (simp add: ChangesSince_def getAll_def sql_no_fault limit_rows_def changes_after_def demo_defs)
  show ?thesis using ChangesSince_pages [OF demo_ok a] a by (intro exI [of _ ?c]) simp
qed

lemma get_find_eval:
  "st_faults s = [] \<Longrightarrow> get_row (\<lambda>d. filter P (q d)) s =
     (case find P (q (st_db s)) of None \<Rightarrow> (Inl ErrNotFound, s) | Some x \<Rightarrow> (Inr x, s))"
  by (simp add: get_row_def sql_no_fault case_filter_find split: option.split)

lemma GetSyncState_eval:
  "st_faults s = [] \<Longrightarrow> GetSyncState u v f s =
     (Inr (find (\<lambda>r. state_key r = (u, v, f)) (tb_states (st_db s))), s)"
  by (simp add: GetSyncState_def get_find_eval split: option.split)

lemma foldl_min_le: "foldl min (x::int) xs \<le> x \<and> (\<forall>y\<in>set xs. foldl min x xs \<le> y)"
  by (induction xs arbitrary: x) (auto simp: min_le_iff_disj intro: order_trans, fastforce+)

lemma watermark_le:
  assumes "st \<in> set (tb_states d)"
  obtains w where "watermark d (ss_folder st) = Some w" "w \<le> ss_seq st"
proof -
  have "ss_seq st \<in> set (map ss_seq (filter (\<lambda>r. ss_folder r = ss_folder st) (tb_states d)))"
    using assms by auto
  then obtain x xs where l: "map ss_seq (filter (\<lambda>r. ss_folder r = ss_folder st) (tb_states d)) = x # xs"
    "ss_seq st \<in> set (x # xs)" by (cases "map ss_seq (filter (\<lambda>r. ss_folder r = ss_folder st) (tb_states d))") auto
  show ?thesis
    by (rule that [of "foldl min x xs"]) (use l foldl_min_le [of x xs] in \<open>auto simp: watermark_def\<close>)
qed

text \<open>A saved sync state is the one read back, with its key and position, and saving it
  changes the state of no other device or folder.\<close>

theorem SaveSyncState_get:
  assumes "store_ok s" "SaveSyncState st s = (Inr (), s')" "st_faults s' = []"
  shows "fst (GetSyncState (ss_user st) (ss_device st) (ss_folder st) s') = Inr (Some st) \<and>
    (\<forall>u v f. (u, v, f) \<noteq> state_key st \<longrightarrow> fst (GetSyncState u v f s') =
      Inr (find (\<lambda>r. state_key r = (u, v, f)) (tb_states (st_db s))))"
proof -
  let ?k = "state_key st" and ?d = "st_db s"
  let ?f = "\<lambda>r. r\<lparr>ss_key := ss_key st, ss_seq := ss_seq st\<rparr>"
  have u: "upsert_state st ?d = Inr ((), st_db s')"
    using assms(2) by (auto simp: SaveSyncState_def sql_Inr_iff)
  have kf: "state_key (?f r) = state_key r" for r by (simp add: state_key_def)
  have "find (\<lambda>r. state_key r = k) (tb_states (st_db s')) =
      (if k = ?k then Some st else find (\<lambda>r. state_key r = k) (tb_states ?d))" for k
  proof (cases "?k \<in> set (map state_key (tb_states ?d))")
    case True
    then have "?d\<lparr>tb_states := update_where (\<lambda>r. state_key r = ?k) ?f (tb_states ?d)\<rparr> = st_db s'"
      using u unfolding upsert_state_def by (simp only: if_True sum.inject prod.inject sum.distinct HOL.simp_thms split: if_splits)
    from arg_cong [OF this [symmetric], of tb_states]
    have t: "tb_states (st_db s') = update_where (\<lambda>r. state_key r = ?k) ?f (tb_states ?d)" by simp
    have same: "?f r = st" if "state_key r = ?k" for r
      using that by (cases r, cases st) (simp add: state_key_def)
    have "find (\<lambda>r. state_key r = ?k) (tb_states ?d) \<noteq> None"
      using True by (auto simp: find_None_iff)
    then obtain r where r: "find (\<lambda>r. state_key r = ?k) (tb_states ?d) = Some r" by blast
    then have "?f r = st" using find_SomeD same by fast
    then show ?thesis unfolding t find_update_where [of state_key, OF kf]
      using r by (cases "k = ?k") (simp_all add: option.map_ident)
  next
    case False
    then have "?d\<lparr>tb_states := tb_states ?d @ [st]\<rparr> = st_db s'"
      using u unfolding upsert_state_def by (simp only: if_False sum.inject prod.inject sum.distinct HOL.simp_thms split: if_splits)
    from arg_cong [OF this [symmetric], of tb_states]
    have t: "tb_states (st_db s') = tb_states ?d @ [st]" by simp
    have "find (\<lambda>r. state_key r = ?k) (tb_states ?d) = None"
      using False unfolding find_None_iff set_map by (metis image_eqI)
    then show ?thesis unfolding t find_append by (auto split: option.split)
  qed
  then show ?thesis
    by (auto simp: GetSyncState_eval [OF assms(3)] state_key_def)
qed

theorem SaveSyncState_get_witness:
  "fst (GetSyncState ''u'' ''d'' 1 (snd (SaveSyncState
     \<lparr>ss_user = ''u'', ss_device = ''d'', ss_folder = 1, ss_key = ''3'', ss_seq = 2\<rparr> demo_store))) =
   Inr (Some \<lparr>ss_user = ''u'', ss_device = ''d'', ss_folder = 1, ss_key = ''3'', ss_seq = 2\<rparr>)"
proof -
  let ?st = "\<lparr>ss_user = ''u'', ss_device = ''d'', ss_folder = 1, ss_key = ''3'', ss_seq = 2\<rparr>"
  obtain s' where a: "SaveSyncState ?st demo_store = (Inr (), s')" "st_faults s' = []"
    by (simp add: SaveSyncState_def sql_no_fault upsert_state_def demo_defs user_ids_def folder_ids_def
        state_key_def)
  show ?thesis using SaveSyncState_get [OF demo_ok a] a by simp
qed

text \<open>C14: pruning the feed takes nothing from a device that has a sync state for the folder:
  the changes after its position stay as they were, and what is removed was consumed by
  every device with a state.\<close>

theorem PruneChanges_keeps_pending:
  assumes "store_ok s" "PruneChanges s = (Inr n, s')" "st \<in> set (tb_states (st_db s))" "ss_seq st \<le> a"
  shows "changes_after (ss_folder st) a (st_db s') = changes_after (ss_folder st) a (st_db s) \<and>
    tb_states (st_db s') = tb_states (st_db s)"
proof -
  let ?d = "st_db s"
  have d': "st_db s' = ?d\<lparr>tb_changes := filter (\<lambda>c. \<not> prunable ?d c) (tb_changes ?d)\<rparr>"
    using assms(2) by (auto simp: PruneChanges_def bindE_Inr_iff exec_count_def sql_Inr_iff)
  obtain w where w: "watermark ?d (ss_folder st) = Some w" "w \<le> ss_seq st"
    using assms(3) by (rule watermark_le)
  have "\<not> prunable ?d c" if "ch_folder c = ss_folder st" "a < ch_seq c" for c
    using w that assms(4) by (simp add: prunable_def)
  then have "filter (\<lambda>c. ch_folder c = ss_folder st \<and> ch_seq c > a) (tb_changes (st_db s')) =
      filter (\<lambda>c. ch_folder c = ss_folder st \<and> ch_seq c > a) (tb_changes ?d)"
    unfolding d' by (auto intro!: filter_cong)
  then show ?thesis unfolding changes_after_def by (simp add: d')
qed

theorem PruneChanges_keeps_pending_witness:
  "changes_after 1 1 (st_db (snd (PruneChanges demo_store))) = changes_after 1 1 demo_db \<and>
   fst (PruneChanges demo_store) = Inr 1"
proof -
  let ?st = "\<lparr>ss_user = ''u'', ss_device = ''d'', ss_folder = 1, ss_key = ''2'', ss_seq = 1\<rparr>"
  have "fst (PruneChanges demo_store) = Inr 1"
    by (simp add: PruneChanges_def bindE_def exec_count_def sql_no_fault prunable_def watermark_def demo_defs)
  moreover obtain n s' where a: "PruneChanges demo_store = (Inr n, s')"
    using calculation by (cases "PruneChanges demo_store") auto
  moreover have "?st \<in> set (tb_states (st_db demo_store))" by (simp add: demo_defs)
  ultimately show ?thesis using PruneChanges_keeps_pending [OF demo_ok a, of ?st 1] by simp
qed

end
