(* ===== verification/StoreFolders.thy ===== *)
theory StoreFolders imports StoreSync begin

text \<open>
  \<open>internal/store/folders.go\<close>: folders and the per-account counter that orders their
  changes. Every change of a folder runs in a transaction that first draws the next value
  of the counter.
\<close>

section \<open>Reading\<close>

(* src: internal/store/folders.go 106-113 Store.FolderByID *)
definition FolderByID :: "int \<Rightarrow> (store, folder) op" where
  "FolderByID i = get_row (\<lambda>d. filter (\<lambda>f. fo_id f = i) (tb_folders d))"

(* src: internal/store/folders.go 115-124 Store.FolderByType *)
definition FolderByType :: "string \<Rightarrow> int \<Rightarrow> (store, folder) op" where
  "FolderByType userID typ = get_row (\<lambda>d. limit_rows 1 (sort_key fo_id
     (filter (\<lambda>f. fo_user f = userID \<and> fo_type f = typ \<and> \<not> fo_deleted f) (tb_folders d))))"

(* src: internal/store/folders.go 126-135 Store.FolderByName *)
definition FolderByName :: "string \<Rightarrow> string \<Rightarrow> (store, folder) op" where
  "FolderByName userID name = get_row (\<lambda>d. limit_rows 1 (sort_key fo_id
     (filter (\<lambda>f. fo_user f = userID \<and> to_lower (fo_name f) = to_lower (trim_space name) \<and> \<not> fo_deleted f)
       (tb_folders d))))"

(* src: internal/store/folders.go 137-145 Store.FoldersByUser *)
definition FoldersByUser :: "string \<Rightarrow> (store, folder list) op" where
  "FoldersByUser userID = getAll (\<lambda>d. sort_key fo_parent (sort_key fo_id
     (filter (\<lambda>f. fo_user f = userID) (tb_folders d))))"

(* src: internal/store/folders.go 147-155 Store.CalendarFolders *)
definition CalendarFolders :: "string \<Rightarrow> (store, folder list) op" where
  "CalendarFolders userID = getAll (\<lambda>d. sort_key fo_id
     (filter (\<lambda>f. fo_user f = userID \<and> fo_type f = 8 \<and> \<not> fo_deleted f) (tb_folders d)))"

(* src: internal/store/folders.go 201-208 IsSystemFolder *)
definition IsSystemFolder :: "int \<Rightarrow> bool" where
  "IsSystemFolder typ \<longleftrightarrow> typ \<in> {2, 3, 4, 5, 6, 8, 9, 12}"

(* src: internal/store/folders.go 210-211 FolderTypeCalendar *)
definition FolderTypeCalendar :: int where
  "FolderTypeCalendar = 8"

(* src: internal/store/folders.go 226-237 Store.FolderByUUID *)
definition FolderByUUID :: "string \<Rightarrow> (store, folder) op" where
  "FolderByUUID uuid = (if trim_space uuid = [] then failE ErrNotFound
     else get_row (\<lambda>d. limit_rows 1 (sort_key fo_id
       (filter (\<lambda>f. fo_uuid f = uuid \<and> \<not> fo_deleted f) (tb_folders d)))))"

(* src: internal/store/folders.go 254-263 CalendarSummary *)
record calendar_summary =
  cs_id :: int
  cs_user :: string
  cs_owner :: string
  cs_name :: string
  cs_public :: bool
  cs_uuid :: string

definition primary_address :: "string \<Rightarrow> db \<Rightarrow> string option" where
  "primary_address userID d =
    map_option al_address (find (\<lambda>a. al_user a = userID \<and> al_primary a) (tb_aliases d))"

(* src: internal/store/folders.go 265-293 Store.AllCalendars *)
definition AllCalendars :: "(store, calendar_summary list) op" where
  "AllCalendars = getAll (\<lambda>d. sort_key cs_owner (sort_key cs_id
     (map (\<lambda>f. \<lparr>cs_id = fo_id f, cs_user = fo_user f,
         cs_owner = (case primary_address (fo_user f) d of None \<Rightarrow> fo_user f | Some a \<Rightarrow> a),
         cs_name = fo_name f, cs_public = fo_public f, cs_uuid = fo_uuid f\<rparr>)
       (filter (\<lambda>f. fo_type f = 8 \<and> \<not> fo_deleted f) (tb_folders d)))))"

section \<open>Writing\<close>

text \<open>\<open>UPDATE users SET folder_seq = folder_seq + 1 ... RETURNING folder_seq\<close>\<close>

definition bump_seq :: "go_error \<Rightarrow> string \<Rightarrow> db \<Rightarrow> go_error + int \<times> db" where
  "bump_seq missing userID d =
    (case find (\<lambda>u. us_id u = userID) (tb_users d) of
       None \<Rightarrow> Inl missing
     | Some u \<Rightarrow> Inr (us_folder_seq u + 1, d\<lparr>tb_users := update_where (\<lambda>u. us_id u = userID)
         (\<lambda>u. u\<lparr>us_folder_seq := us_folder_seq u + 1\<rparr>) (tb_users d)\<rparr>))"

definition insert_folder :: "folder \<Rightarrow> db \<Rightarrow> go_error + int \<times> db" where
  "insert_folder f d =
    (if folder_key f \<in> set (map folder_key (tb_folders d)) then Inl ErrUnique
     else if fo_uuid f \<noteq> [] \<and> fo_uuid f \<in> set (map fo_uuid (tb_folders d)) then Inl ErrUnique
     else if fo_user f \<notin> set (user_ids d) then Inl ErrForeignKey
     else let i = sq_folders d + 1 in
       Inr (i, d\<lparr>tb_folders := tb_folders d @ [f\<lparr>fo_id := i\<rparr>], sq_folders := i\<rparr>))"

(* src: internal/store/folders.go 76-104 insertFolderTx *)
definition insertFolderTx :: "string \<Rightarrow> int \<Rightarrow> string \<Rightarrow> int \<Rightarrow> (store, folder) op" where
  "insertFolderTx userID parentID name typ =
    bindE (sql (bump_seq ErrNoRows userID)) (\<lambda>seq.
    bindE (if typ = FolderTypeCalendar then NewUUID else okE []) (\<lambda>uuid.
    bindE (\<lambda>s. okE (nowUnix s) s) (\<lambda>now.
    let f = \<lparr>fo_id = 0, fo_user = userID, fo_parent = parentID, fo_name = name, fo_type = typ,
             fo_class = ClassForType typ, fo_seq = seq, fo_deleted = False, fo_uidvalidity = now,
             fo_uuid = uuid, fo_public = False\<rparr> in
    bindE (wrapDuplicate (sql (insert_folder f))) (\<lambda>i. okE (f\<lparr>fo_id := i\<rparr>)))))"

(* src: internal/store/folders.go 62-74 Store.CreateFolder *)
definition CreateFolder :: "string \<Rightarrow> int \<Rightarrow> string \<Rightarrow> int \<Rightarrow> (store, folder) op" where
  "CreateFolder userID parentID name typ = inTx (insertFolderTx userID parentID name typ)"

text \<open>\<open>UPDATE folders SET <assignment>, seq = ? WHERE id = ?\<close>, with the unique index.\<close>

definition update_folder :: "int \<Rightarrow> (folder \<Rightarrow> folder) \<Rightarrow> int \<Rightarrow> db \<Rightarrow> go_error + unit \<times> db" where
  "update_folder i g seq d =
    (let fs = update_where (\<lambda>f. fo_id f = i) (\<lambda>f. (g f)\<lparr>fo_seq := seq\<rparr>) (tb_folders d) in
     if distinct (map folder_key fs) then Inr ((), d\<lparr>tb_folders := fs\<rparr>) else Inl ErrUnique)"

(* src: internal/store/folders.go 181-199 Store.touchFolder *)
definition touchFolder :: "int \<Rightarrow> (folder \<Rightarrow> folder) \<Rightarrow> (store, unit) op" where
  "touchFolder i g = inTx (
    bindE (tx_get_row (\<lambda>d. map fo_user (filter (\<lambda>f. fo_id f = i) (tb_folders d)))) (\<lambda>userID.
    bindE (sql (bump_seq ErrNoRows userID)) (\<lambda>seq.
    sql (update_folder i g seq))))"

(* src: internal/store/folders.go 165-168 Store.RenameFolder *)
definition RenameFolder :: "int \<Rightarrow> string \<Rightarrow> (store, unit) op" where
  "RenameFolder i name = touchFolder i (\<lambda>f. f\<lparr>fo_name := name\<rparr>)"

(* src: internal/store/folders.go 170-173 Store.ReparentFolder *)
definition ReparentFolder :: "int \<Rightarrow> int \<Rightarrow> (store, unit) op" where
  "ReparentFolder i parentID = touchFolder i (\<lambda>f. f\<lparr>fo_parent := parentID\<rparr>)"

(* src: internal/store/folders.go 175-179 Store.DeleteFolder *)
definition DeleteFolder :: "int \<Rightarrow> (store, unit) op" where
  "DeleteFolder i = touchFolder i (\<lambda>f. f\<lparr>fo_deleted := True\<rparr>)"

(* src: internal/store/folders.go 239-252 Store.SetFolderPublic *)
definition SetFolderPublic :: "int \<Rightarrow> bool \<Rightarrow> (store, unit) op" where
  "SetFolderPublic i public =
    (let P = \<lambda>f. fo_id f = i \<and> fo_type f = 8 \<and> \<not> fo_deleted f in
     bindE (exec_count (\<lambda>d. length (filter P (tb_folders d)))
         (\<lambda>d. d\<lparr>tb_folders := update_where P (\<lambda>f. f\<lparr>fo_public := public\<rparr>) (tb_folders d)\<rparr>))
       (\<lambda>n. if n = 0 then failE ErrNotFound else okE ()))"

section \<open>The invariant\<close>

lemma db_ok_users:
  "db_ok d \<Longrightarrow> map us_id us = map us_id (tb_users d) \<Longrightarrow> map us_name us = map us_name (tb_users d) \<Longrightarrow>
   db_ok (d\<lparr>tb_users := us\<rparr>)"
  by (simp add: db_ok_def db_parts)

lemma db_ok_folders_upd:
  assumes "db_ok d" "map fo_id fs = map fo_id (tb_folders d)" "map fo_user fs = map fo_user (tb_folders d)"
    and "map fo_uuid fs = map fo_uuid (tb_folders d)" "distinct (map folder_key fs)"
  shows "db_ok (d\<lparr>tb_folders := fs\<rparr>)"
proof -
  have "ids_ok fo_id n fs = ids_ok fo_id n (tb_folders d)" for n
    unfolding ids_ok_map assms(2) ..
  moreover have "refs_ok fo_user fs ks = refs_ok fo_user (tb_folders d) ks" for ks
    unfolding refs_ok_map assms(3) ..
  moreover have "uuid_rows fs = uuid_rows (tb_folders d)"
    unfolding uuid_rows_def assms(4) ..
  ultimately show ?thesis using assms(1,2,5) by (simp add: db_ok_def db_parts)
qed

lemma db_ok_folder_add:
  assumes "db_ok d" "insert_folder f d = Inr (i, d')" shows "db_ok d'"
proof -
  let ?f = "f\<lparr>fo_id := sq_folders d + 1\<rparr>"
  have i: "folder_key f \<notin> set (map folder_key (tb_folders d))"
    "fo_uuid f \<noteq> [] \<Longrightarrow> fo_uuid f \<notin> set (map fo_uuid (tb_folders d))" "fo_user f \<in> set (map us_id (tb_users d))"
    and d': "d' = d\<lparr>tb_folders := tb_folders d @ [?f], sq_folders := sq_folders d + 1\<rparr>"
    using assms(2) by (auto simp: insert_folder_def Let_def user_ids_def split: if_splits)
  have "folders_ok d" using assms(1) by (simp add: db_ok_def)
  then have "folders_ok d'"
    using i by (auto simp: folders_ok_def d' uuid_rows_def ids_ok_append folder_key_def)
  then show ?thesis using assms(1) by (simp add: db_ok_def db_parts d' refs_ok_more)
qed

lemma keeps_bump [keeps_intros]: "keeps store_ok (sql (bump_seq e u))"
proof (rule keeps_sql, unfold keeps_db_def, intro allI impI)
  fix d x d' assume "db_ok d" "bump_seq e u d = Inr (x, d')"
  then show "db_ok d'"
    by (auto simp: bump_seq_def split: option.splits intro!: db_ok_users map_update_where)
qed

lemma keeps_insert_folder [keeps_intros]: "keeps store_ok (sql (insert_folder f))"
  by (rule keeps_sql) (auto simp: keeps_db_def intro: db_ok_folder_add)

lemma keeps_insertFolderTx [keeps_intros]: "keeps store_ok (insertFolderTx u p n t)"
  unfolding insertFolderTx_def Let_def
  by (intro keeps_intros) (simp add: keeps_def)

lemma keeps_CreateFolder [keeps_intros]: "keeps store_ok (CreateFolder u p n t)"
  unfolding CreateFolder_def by (intro keeps_intros)

definition keeps_identity :: "(folder \<Rightarrow> folder) \<Rightarrow> bool" where
  "keeps_identity g \<longleftrightarrow> (\<forall>f. fo_id (g f) = fo_id f \<and> fo_user (g f) = fo_user f \<and> fo_uuid (g f) = fo_uuid f)"

lemma keeps_touchFolder:
  assumes "keeps_identity g" shows "keeps store_ok (touchFolder i g)"
proof -
  have "keeps store_ok (sql (update_folder i g seq))" for seq
  proof (rule keeps_sql, unfold keeps_db_def, intro allI impI)
    fix d x d' assume "db_ok d" "update_folder i g seq d = Inr (x, d')"
    then show "db_ok d'"
      using assms by (auto simp: update_folder_def Let_def keeps_identity_def split: if_splits
          intro!: db_ok_folders_upd map_update_where)
  qed
  then show ?thesis unfolding touchFolder_def by (intro keeps_intros)
qed

lemma keeps_folder_updates [keeps_intros]:
  "keeps store_ok (RenameFolder i n)" "keeps store_ok (ReparentFolder i p)" "keeps store_ok (DeleteFolder i)"
  unfolding RenameFolder_def ReparentFolder_def DeleteFolder_def
  by (rule keeps_touchFolder, simp add: keeps_identity_def)+

lemma keeps_SetFolderPublic [keeps_intros]: "keeps store_ok (SetFolderPublic i b)"
proof -
  let ?P = "\<lambda>f. fo_id f = i \<and> fo_type f = 8 \<and> \<not> fo_deleted f"
  have "keeps store_ok (exec_count (\<lambda>d. length (filter ?P (tb_folders d)))
      (\<lambda>d. d\<lparr>tb_folders := update_where ?P (\<lambda>f. f\<lparr>fo_public := b\<rparr>) (tb_folders d)\<rparr>))"
  proof (rule keeps_exec_count)
    fix d assume d: "db_ok d"
    have m: "map folder_key (update_where ?P (\<lambda>f. f\<lparr>fo_public := b\<rparr>) fs) = map folder_key fs" for fs
      by (rule map_update_where) (simp add: folder_key_def)
    show "db_ok (d\<lparr>tb_folders := update_where ?P (\<lambda>f. f\<lparr>fo_public := b\<rparr>) (tb_folders d)\<rparr>)"
      using d by (intro db_ok_folders_upd map_update_where) (auto simp: m db_ok_def folders_ok_def)
  qed
  then show ?thesis unfolding SetFolderPublic_def Let_def
    by (intro keeps_bindE keeps_if keeps_okE keeps_failE)
qed

lemma keeps_folder_reads [keeps_intros]:
  "keeps store_ok (FolderByID i)" "keeps store_ok (FolderByType u t)" "keeps store_ok (FolderByName u n)"
  "keeps store_ok (FoldersByUser u)" "keeps store_ok (CalendarFolders u)" "keeps store_ok (FolderByUUID v)"
  "keeps store_ok AllCalendars"
  by (simp_all add: FolderByID_def FolderByType_def FolderByName_def FoldersByUser_def CalendarFolders_def
      FolderByUUID_def AllCalendars_def keeps_intros)

section \<open>Folder rows and the account counter\<close>

definition folder_row :: "db \<Rightarrow> int \<Rightarrow> folder option" where
  "folder_row d i = find (\<lambda>f. fo_id f = i) (tb_folders d)"

definition user_row :: "db \<Rightarrow> string \<Rightarrow> user option" where
  "user_row d u = find (\<lambda>r. us_id r = u) (tb_users d)"

text \<open>No folder carries a sequence number beyond its owner's counter.\<close>

definition seqs_ok :: "db \<Rightarrow> bool" where
  "seqs_ok d \<longleftrightarrow> (\<forall>f\<in>set (tb_folders d). \<forall>u. user_row d (fo_user f) = Some u \<longrightarrow> fo_seq f \<le> us_folder_seq u)"

lemma FolderByID_eval:
  "st_faults s = [] \<Longrightarrow> FolderByID i s =
    (case folder_row (st_db s) i of None \<Rightarrow> (Inl ErrNotFound, s) | Some f \<Rightarrow> (Inr f, s))"
  by (simp add: FolderByID_def folder_row_def get_find_eval)

lemma filter_Cons_find: "filter P xs = x # ys \<Longrightarrow> find P xs = Some x"
  by (induction xs) (auto split: if_splits)

lemma FolderByID_Inr:
  "FolderByID i s = (Inr f, s') \<Longrightarrow> s' = pop_fault s \<and> folder_row (st_db s) i = Some f"
  by (auto simp: FolderByID_def get_row_Inr_iff folder_row_def dest: filter_Cons_find)

lemma folder_rowD: "folder_row d i = Some f \<Longrightarrow> f \<in> set (tb_folders d) \<and> fo_id f = i"
  by (auto simp: folder_row_def dest: find_SomeD)

lemma user_rowD: "user_row d u = Some r \<Longrightarrow> r \<in> set (tb_users d) \<and> us_id r = u"
  by (auto simp: user_row_def dest: find_SomeD)

lemma folder_row_mem: "db_ok d \<Longrightarrow> f \<in> set (tb_folders d) \<Longrightarrow> folder_row d (fo_id f) = Some f"
proof -
  assume d: "db_ok d" and f: "f \<in> set (tb_folders d)"
  have "folder_row d (fo_id f) \<noteq> None" using f by (auto simp: folder_row_def find_None_iff)
  then obtain g where g: "folder_row d (fo_id f) = Some g" by blast
  have "ids_ok fo_id (sq_folders d) (tb_folders d)" using d by (simp add: db_ok_def folders_ok_def)
  then have "g = f" using folder_rowD [OF g] f by (auto intro: ids_ok_unique)
  with g show ?thesis by simp
qed

lemma bump_seq_Inr:
  assumes "bump_seq e v d = Inr (seq, d')"
  obtains u where "user_row d v = Some u" "seq = us_folder_seq u + 1"
    "tb_folders d' = tb_folders d" "sq_folders d' = sq_folders d"
    "\<And>w. user_row d' w = (if w = v then Some (u\<lparr>us_folder_seq := us_folder_seq u + 1\<rparr>) else user_row d w)"
proof -
  obtain u where u: "find (\<lambda>u. us_id u = v) (tb_users d) = Some u"
    using assms by (auto simp: bump_seq_def split: option.splits)
  let ?f = "\<lambda>u. u\<lparr>us_folder_seq := us_folder_seq u + 1\<rparr>"
  have d': "seq = us_folder_seq u + 1"
    "d' = d\<lparr>tb_users := update_where (\<lambda>u. us_id u = v) ?f (tb_users d)\<rparr>"
    using assms u by (auto simp: bump_seq_def)
  have "us_id (?f r) = us_id r" for r by simp
  note fu = find_update_where [of us_id ?f, OF this]
  show ?thesis
    by (rule that [of u]) (use u in \<open>auto simp: d' user_row_def fu option.map_ident split: if_splits\<close>)
qed

lemma insertFolderTx_Inr:
  assumes "insertFolderTx v p n t s = (Inr f, s')"
  obtains u where "user_row (st_db s) v = Some u"
    "fo_id f = sq_folders (st_db s) + 1" "fo_user f = v" "fo_parent f = p" "fo_name f = n" "fo_type f = t"
    "fo_class f = ClassForType t" "fo_seq f = us_folder_seq u + 1" "\<not> fo_deleted f" "\<not> fo_public f"
    "fo_uuid f \<noteq> [] \<longrightarrow> t = FolderTypeCalendar"
    "tb_folders (st_db s') = tb_folders (st_db s) @ [f]" "sq_folders (st_db s') = fo_id f"
    "\<And>w. user_row (st_db s') w = (if w = v then Some (u\<lparr>us_folder_seq := us_folder_seq u + 1\<rparr>) else user_row (st_db s) w)"
proof -
  obtain seq s1 where b: "sql (bump_seq ErrNoRows v) s = (Inr seq, s1)"
    and r1: "bindE (if t = FolderTypeCalendar then NewUUID else okE []) (\<lambda>uuid.
      bindE (\<lambda>s. okE (nowUnix s) s) (\<lambda>now.
      let f = \<lparr>fo_id = 0, fo_user = v, fo_parent = p, fo_name = n, fo_type = t,
             fo_class = ClassForType t, fo_seq = seq, fo_deleted = False, fo_uidvalidity = now,
             fo_uuid = uuid, fo_public = False\<rparr> in
      bindE (wrapDuplicate (sql (insert_folder f))) (\<lambda>i. okE (f\<lparr>fo_id := i\<rparr>)))) s1 = (Inr f, s')"
    using assms unfolding insertFolderTx_def bindE_Inr_iff by blast
  obtain uuid s2 where id: "(if t = FolderTypeCalendar then NewUUID else okE []) s1 = (Inr uuid, s2)"
    and r2: "bindE (\<lambda>s. okE (nowUnix s) s) (\<lambda>now.
      let f = \<lparr>fo_id = 0, fo_user = v, fo_parent = p, fo_name = n, fo_type = t,
             fo_class = ClassForType t, fo_seq = seq, fo_deleted = False, fo_uidvalidity = now,
             fo_uuid = uuid, fo_public = False\<rparr> in
      bindE (wrapDuplicate (sql (insert_folder f))) (\<lambda>i. okE (f\<lparr>fo_id := i\<rparr>))) s2 = (Inr f, s')"
    using r1 unfolding bindE_Inr_iff by blast
  have s2: "st_db s2 = st_db s1" "uuid \<noteq> [] \<longrightarrow> t = FolderTypeCalendar"
    using id by (auto simp: NewUUID_def split: if_splits)
  let ?f = "\<lparr>fo_id = 0, fo_user = v, fo_parent = p, fo_name = n, fo_type = t,
             fo_class = ClassForType t, fo_seq = seq, fo_deleted = False, fo_uidvalidity = nowUnix s2,
             fo_uuid = uuid, fo_public = False\<rparr>"
  obtain i where i: "sql (insert_folder ?f) s2 = (Inr i, s')" "f = ?f\<lparr>fo_id := i\<rparr>"
    using r2 by (auto simp: bindE_Inr_iff Let_def)
  have d1: "bump_seq ErrNoRows v (st_db s) = Inr (seq, st_db s1)"
    using b by (auto simp: sql_Inr_iff)
  have d2: "insert_folder ?f (st_db s1) = Inr (i, st_db s')"
    using i(1) s2(1) by (auto simp: sql_Inr_iff)
  then have "i = sq_folders (st_db s1) + 1"
    and e: "st_db s' = (st_db s1)\<lparr>tb_folders := tb_folders (st_db s1) @ [?f\<lparr>fo_id := i\<rparr>], sq_folders := i\<rparr>"
    by (auto simp: insert_folder_def Let_def split: if_splits)
  moreover obtain u where "user_row (st_db s) v = Some u" "seq = us_folder_seq u + 1"
    "tb_folders (st_db s1) = tb_folders (st_db s)" "sq_folders (st_db s1) = sq_folders (st_db s)"
    "\<And>w. user_row (st_db s1) w = (if w = v then Some (u\<lparr>us_folder_seq := us_folder_seq u + 1\<rparr>) else user_row (st_db s) w)"
    using d1 by (rule bump_seq_Inr) blast
  ultimately show ?thesis
    by (intro that [of u]) (use s2(2) in \<open>simp_all add: i(2) user_row_def e\<close>)
qed

lemma touchFolder_Inr:
  assumes "touchFolder i g s = (Inr (), s')" "keeps_identity g"
  obtains f u where "folder_row (st_db s) i = Some f" "user_row (st_db s) (fo_user f) = Some u"
    "tb_folders (st_db s') = update_where (\<lambda>f. fo_id f = i)
       (\<lambda>f. (g f)\<lparr>fo_seq := us_folder_seq u + 1\<rparr>) (tb_folders (st_db s))"
    "\<And>w. user_row (st_db s') w = (if w = fo_user f then Some (u\<lparr>us_folder_seq := us_folder_seq u + 1\<rparr>)
       else user_row (st_db s) w)"
    "distinct (map folder_key (tb_folders (st_db s')))"
proof -
  let ?q = "\<lambda>d. map fo_user (filter (\<lambda>f. fo_id f = i) (tb_folders d))"
  obtain t where t: "bindE (tx_get_row ?q) (\<lambda>userID. bindE (sql (bump_seq ErrNoRows userID))
      (\<lambda>seq. sql (update_folder i g seq))) (pop_fault s) = (Inr (), t)" "s' = pop_fault t"
    using inTx_commit [OF assms(1) [unfolded touchFolder_def]] by blast
  obtain v s1 where v: "tx_get_row ?q (pop_fault s) = (Inr v, s1)"
    and r1: "bindE (sql (bump_seq ErrNoRows v)) (\<lambda>seq. sql (update_folder i g seq)) s1 = (Inr (), t)"
    using t(1) unfolding bindE_Inr_iff by blast
  obtain seq s2 where b: "sql (bump_seq ErrNoRows v) s1 = (Inr seq, s2)"
    and r2: "sql (update_folder i g seq) s2 = (Inr (), t)"
    using r1 unfolding bindE_Inr_iff by blast
  obtain f where f: "folder_row (st_db s) i = Some f" "v = fo_user f" "st_db s1 = st_db s"
  proof -
    have "st_db s1 = st_db s" "\<exists>xs. ?q (st_db s) = v # xs"
      using v by (auto simp: tx_get_row_def sql_Inr_iff split: list.splits)
    then obtain f xs where f: "filter (\<lambda>f. fo_id f = i) (tb_folders (st_db s)) = f # xs" "v = fo_user f"
      by (auto simp: map_eq_Cons_conv)
    show ?thesis
      by (rule that [of f]) (use filter_Cons_find [OF f(1)] f(2) \<open>st_db s1 = st_db s\<close> in
          \<open>simp_all add: folder_row_def\<close>)
  qed
  have d1: "bump_seq ErrNoRows v (st_db s) = Inr (seq, st_db s2)"
    using b f(3) by (auto simp: sql_Inr_iff)
  have d2: "update_folder i g seq (st_db s2) = Inr ((), st_db s')"
    using r2 t(2) by (auto simp: sql_Inr_iff)
  then have e: "st_db s' = (st_db s2)\<lparr>tb_folders := update_where (\<lambda>f. fo_id f = i)
       (\<lambda>f. (g f)\<lparr>fo_seq := seq\<rparr>) (tb_folders (st_db s2))\<rparr>"
    "distinct (map folder_key (update_where (\<lambda>f. fo_id f = i)
       (\<lambda>f. (g f)\<lparr>fo_seq := seq\<rparr>) (tb_folders (st_db s2))))"
    by (auto simp: update_folder_def Let_def split: if_splits)
  obtain u where u: "user_row (st_db s) v = Some u" "seq = us_folder_seq u + 1"
    "tb_folders (st_db s2) = tb_folders (st_db s)" "sq_folders (st_db s2) = sq_folders (st_db s)"
    "\<And>w. user_row (st_db s2) w = (if w = v then Some (u\<lparr>us_folder_seq := us_folder_seq u + 1\<rparr>) else user_row (st_db s) w)"
    using d1 by (rule bump_seq_Inr) blast
  then have "tb_folders (st_db s') = update_where (\<lambda>f. fo_id f = i)
       (\<lambda>f. (g f)\<lparr>fo_seq := us_folder_seq u + 1\<rparr>) (tb_folders (st_db s))"
    "user_row (st_db s') w = (if w = v then Some (u\<lparr>us_folder_seq := us_folder_seq u + 1\<rparr>) else user_row (st_db s) w)"
    "distinct (map folder_key (tb_folders (st_db s')))" for w
    using e by (simp_all add: user_row_def)
  then show ?thesis using f(1,2) u(1) that by blast
qed

lemma seqs_ok_insert:
  assumes "insertFolderTx v p n t s = (Inr f, s')" "seqs_ok (st_db s)"
  shows "seqs_ok (st_db s')"
proof -
  obtain u where "user_row (st_db s) v = Some u" "fo_user f = v" "fo_seq f = us_folder_seq u + 1"
    "tb_folders (st_db s') = tb_folders (st_db s) @ [f]"
    "\<And>w. user_row (st_db s') w = (if w = v then Some (u\<lparr>us_folder_seq := us_folder_seq u + 1\<rparr>) else user_row (st_db s) w)"
    using assms(1) by (rule insertFolderTx_Inr) blast
  with assms(2) show ?thesis by (force simp: seqs_ok_def)
qed

lemma seqs_ok_touch:
  assumes "touchFolder i g s = (Inr (), s')" "keeps_identity g" "db_ok (st_db s)" "seqs_ok (st_db s)"
  shows "seqs_ok (st_db s')"
proof -
  obtain f u where u: "folder_row (st_db s) i = Some f" "user_row (st_db s) (fo_user f) = Some u"
    "tb_folders (st_db s') = update_where (\<lambda>f. fo_id f = i)
       (\<lambda>f. (g f)\<lparr>fo_seq := us_folder_seq u + 1\<rparr>) (tb_folders (st_db s))"
    "\<And>w. user_row (st_db s') w = (if w = fo_user f then Some (u\<lparr>us_folder_seq := us_folder_seq u + 1\<rparr>)
       else user_row (st_db s) w)"
    using assms(1,2) by (rule touchFolder_Inr) blast
  have one: "x = f" if "x \<in> set (tb_folders (st_db s))" "fo_id x = i" for x
    using folder_row_mem [OF assms(3) that(1)] that(2) u(1) by simp
  show ?thesis unfolding seqs_ok_def
  proof (intro ballI allI impI)
    fix x w assume "x \<in> set (tb_folders (st_db s'))" and w: "user_row (st_db s') (fo_user x) = Some w"
    then consider "x \<in> set (tb_folders (st_db s))" "fo_id x \<noteq> i"
      | y where "y \<in> set (tb_folders (st_db s))" "fo_id y = i" "x = (g y)\<lparr>fo_seq := us_folder_seq u + 1\<rparr>"
      unfolding u(3) set_update_where by blast
    then show "fo_seq x \<le> us_folder_seq w"
    proof cases
      case 1
      then show ?thesis using w assms(4) u(2) unfolding u(4) seqs_ok_def
        by (fastforce split: if_splits)
    next
      case 2
      then have "y = f" using one by blast
      then show ?thesis using 2 w assms(2) unfolding u(4) by (simp add: keeps_identity_def) auto
    qed
  qed
qed

section \<open>Properties\<close>

text \<open>Creating a folder gives it an id above every earlier one, the class of its type and
  the next value of its owner's counter, which is above the number of every folder the owner
  has; it is appended to the table and no other folder and no other account changes. If any
  step fails (a duplicate name, a missing account, a failing statement or commit) the tables
  are unchanged.\<close>

theorem CreateFolder_spec:
  assumes "store_ok s" "seqs_ok (st_db s)"
  shows "case CreateFolder v p n t s of
      (Inl e, s') \<Rightarrow> st_db s' = st_db s
    | (Inr f, s') \<Rightarrow>
        tb_folders (st_db s') = tb_folders (st_db s) @ [f] \<and>
        fo_user f = v \<and> fo_parent f = p \<and> fo_name f = n \<and> fo_type f = t \<and> fo_class f = ClassForType t \<and>
        \<not> fo_deleted f \<and> (\<forall>g\<in>set (tb_folders (st_db s)). fo_id g < fo_id f) \<and>
        (\<forall>g\<in>set (tb_folders (st_db s)). fo_user g = v \<longrightarrow> fo_seq g < fo_seq f) \<and>
        (\<exists>u. user_row (st_db s) v = Some u \<and> fo_seq f = us_folder_seq u + 1 \<and>
          user_row (st_db s') v = Some (u\<lparr>us_folder_seq := fo_seq f\<rparr>)) \<and>
        (\<forall>w. w \<noteq> v \<longrightarrow> user_row (st_db s') w = user_row (st_db s) w) \<and> seqs_ok (st_db s')"
proof (cases "CreateFolder v p n t s")
  case (Pair r s')
  show ?thesis
  proof (cases r)
    case (Inl e)
    then show ?thesis using Pair inTx_rollback [of "insertFolderTx v p n t" s e s']
      by (simp add: CreateFolder_def)
  next
    case (Inr f)
    obtain z where z: "insertFolderTx v p n t (pop_fault s) = (Inr f, z)" "s' = pop_fault z"
      using inTx_commit [of "insertFolderTx v p n t" s f s'] Pair Inr by (auto simp: CreateFolder_def)
    obtain u where u: "user_row (st_db (pop_fault s)) v = Some u"
      "fo_id f = sq_folders (st_db (pop_fault s)) + 1" "fo_user f = v" "fo_parent f = p" "fo_name f = n"
      "fo_type f = t" "fo_class f = ClassForType t" "fo_seq f = us_folder_seq u + 1" "\<not> fo_deleted f"
      "\<not> fo_public f" "fo_uuid f \<noteq> [] \<longrightarrow> t = FolderTypeCalendar"
      "tb_folders (st_db z) = tb_folders (st_db (pop_fault s)) @ [f]" "sq_folders (st_db z) = fo_id f"
      "\<And>w. user_row (st_db z) w = (if w = v then Some (u\<lparr>us_folder_seq := us_folder_seq u + 1\<rparr>)
         else user_row (st_db (pop_fault s)) w)"
      using z(1) by (rule insertFolderTx_Inr) blast
    have "\<forall>g\<in>set (tb_folders (st_db s)). fo_id g \<le> sq_folders (st_db s)"
      using assms(1) by (simp add: store_ok_def db_ok_def folders_ok_def ids_ok_def)
    moreover have "\<forall>g\<in>set (tb_folders (st_db s)). fo_user g = v \<longrightarrow> fo_seq g \<le> us_folder_seq u"
      using assms(2) u(1) by (auto simp: seqs_ok_def)
    moreover have "seqs_ok (st_db z)" using seqs_ok_insert [OF z(1)] assms(2) by simp
    ultimately show ?thesis using Pair Inr u z(2) by fastforce
  qed
qed

theorem CreateFolder_spec_witness:
  "\<exists>f s'. CreateFolder ''u'' 1 ''Work'' 1 demo_store = (Inr f, s') \<and> fo_id f = 3 \<and> fo_seq f = 3 \<and>
     tb_folders (st_db s') = tb_folders demo_db @ [f] \<and> seqs_ok (st_db s')"
proof -
  have q: "seqs_ok (st_db demo_store)"
    by (simp add: seqs_ok_def user_row_def demo_defs)
  obtain f s' where c: "CreateFolder ''u'' 1 ''Work'' 1 demo_store = (Inr f, s')" "fo_id f = 3" "fo_seq f = 3"
    by (simp add: CreateFolder_def inTx_def insertFolderTx_def Let_def bindE_def sql_no_fault bump_seq_def
        insert_folder_def demo_defs FolderTypeCalendar_def folder_key_def user_ids_def nowUnix_def wrapDuplicate_def)
  show ?thesis using CreateFolder_spec [OF demo_ok q, of "''u''" 1 "''Work''" 1] c by auto
qed

text \<open>Renaming, moving or deleting a folder changes that row only, draws the next value of
  the owner's counter for it (so it is above the number of every folder of the owner) and
  keeps the bound that no folder is ahead of its owner's counter; a failure leaves the tables
  unchanged. A deleted folder stays in the table as a tombstone.\<close>

theorem folder_update_spec:
  assumes "store_ok s" "seqs_ok (st_db s)"
    and "(m, g) \<in> {(RenameFolder i n, \<lambda>f. f\<lparr>fo_name := n\<rparr>), (ReparentFolder i p, \<lambda>f. f\<lparr>fo_parent := p\<rparr>),
                   (DeleteFolder i, \<lambda>f. f\<lparr>fo_deleted := True\<rparr>)}"
  shows "case m s of
      (Inl e, s') \<Rightarrow> st_db s' = st_db s
    | (Inr _, s') \<Rightarrow> \<exists>f u. folder_row (st_db s) i = Some f \<and> user_row (st_db s) (fo_user f) = Some u \<and>
        folder_row (st_db s') i = Some ((g f)\<lparr>fo_seq := us_folder_seq u + 1\<rparr>) \<and>
        (\<forall>j. j \<noteq> i \<longrightarrow> folder_row (st_db s') j = folder_row (st_db s) j) \<and>
        user_row (st_db s') (fo_user f) = Some (u\<lparr>us_folder_seq := us_folder_seq u + 1\<rparr>) \<and>
        (\<forall>h\<in>set (tb_folders (st_db s)). fo_user h = fo_user f \<longrightarrow> fo_seq h < us_folder_seq u + 1) \<and>
        seqs_ok (st_db s')"
proof -
  have m: "m = touchFolder i g" and g: "keeps_identity g"
    using assms(3) by (auto simp: RenameFolder_def ReparentFolder_def DeleteFolder_def keeps_identity_def)
  show ?thesis
  proof (cases "touchFolder i g s")
    case (Pair r s')
    show ?thesis
    proof (cases r)
      case (Inl e)
      then show ?thesis using Pair m inTx_rollback by (force simp: touchFolder_def)
    next
      case (Inr x)
      then have t: "touchFolder i g s = (Inr (), s')" using Pair by simp
      obtain f u where u: "folder_row (st_db s) i = Some f" "user_row (st_db s) (fo_user f) = Some u"
        "tb_folders (st_db s') = update_where (\<lambda>f. fo_id f = i)
           (\<lambda>f. (g f)\<lparr>fo_seq := us_folder_seq u + 1\<rparr>) (tb_folders (st_db s))"
        "\<And>w. user_row (st_db s') w = (if w = fo_user f then Some (u\<lparr>us_folder_seq := us_folder_seq u + 1\<rparr>)
           else user_row (st_db s) w)"
        using t g by (rule touchFolder_Inr) blast
      let ?h = "\<lambda>f. (g f)\<lparr>fo_seq := us_folder_seq u + 1\<rparr>"
      have "folder_row (st_db s') j = map_option (\<lambda>x. if j = i then ?h x else x) (folder_row (st_db s) j)" for j
        unfolding folder_row_def u(3) by (rule find_update_where) (use g in \<open>simp add: keeps_identity_def\<close>)
      then have "folder_row (st_db s') i = Some (?h f)" "\<forall>j. j \<noteq> i \<longrightarrow> folder_row (st_db s') j = folder_row (st_db s) j"
        using u(1) by (simp_all add: option.map_ident)
      moreover have "\<forall>h\<in>set (tb_folders (st_db s)). fo_user h = fo_user f \<longrightarrow> fo_seq h < us_folder_seq u + 1"
        using assms(2) u(2) by (force simp: seqs_ok_def)
      moreover have "seqs_ok (st_db s')"
        by (rule seqs_ok_touch [OF t g _ assms(2)]) (use assms(1) in \<open>simp add: store_ok_def\<close>)
      ultimately show ?thesis using t m u(1,2,4) by simp
    qed
  qed
qed

theorem folder_update_spec_witness:
  "folder_row (st_db (snd (DeleteFolder 2 demo_store))) 2 =
     Some ((demo_folder 2 ''Spam'' 12 3)\<lparr>fo_deleted := True\<rparr>) \<and>
   folder_row (st_db (snd (DeleteFolder 2 demo_store))) 1 = folder_row demo_db 1"
proof -
  have q: "seqs_ok (st_db demo_store)"
    by (simp add: seqs_ok_def user_row_def demo_defs)
  obtain x s' where c: "DeleteFolder 2 demo_store = (Inr x, s')"
    by (simp add: DeleteFolder_def touchFolder_def inTx_def Let_def bindE_def sql_no_fault bump_seq_def
        tx_get_row_def update_folder_def demo_defs folder_key_def)
  have "folder_row (st_db demo_store) 2 = Some (demo_folder 2 ''Spam'' 12 2)"
    "user_row (st_db demo_store) ''u'' = Some demo_user"
    by (simp_all add: folder_row_def user_row_def demo_defs)
  then show ?thesis
    using folder_update_spec [OF demo_ok q, of "DeleteFolder 2" "\<lambda>f. f\<lparr>fo_deleted := True\<rparr>" 2 "''n''" 0] c
    by (auto simp: demo_folder_def demo_user_def)
qed

end
