(* ===== verification/StoreMessages.thy ===== *)
theory StoreMessages imports StoreFolders begin

text \<open>
  \<open>internal/store/messages.go\<close> and \<open>counts.go\<close>: messages, whose MIME source lives in the
  blob directory, and attachments. A write that touches both the tables and the directory is
  not one transaction; the model keeps the order of its steps and where it stops.
\<close>

section \<open>Writing messages\<close>

definition insert_message :: "message \<Rightarrow> db \<Rightarrow> go_error + int \<times> db" where
  "insert_message m d =
    (if ms_user m \<notin> set (user_ids d) \<or> ms_folder m \<notin> set (folder_ids d) then Inl ErrForeignKey
     else let i = sq_messages d + 1 in
       Inr (i, d\<lparr>tb_messages := tb_messages d @ [m\<lparr>ms_id := i, ms_raw := [], ms_raw_path := []\<rparr>],
                 sq_messages := i\<rparr>))"

definition upd_messages :: "(message \<Rightarrow> bool) \<Rightarrow> (message \<Rightarrow> message) \<Rightarrow> db \<Rightarrow> db" where
  "upd_messages P f d = d\<lparr>tb_messages := update_where P f (tb_messages d)\<rparr>"

text \<open>The defaults that \<open>InsertMessage\<close> fills in on the struct of the caller.\<close>

(* src: internal/store/messages.go 101-109 Store.InsertMessage *)
definition message_defaults :: "int \<Rightarrow> message \<Rightarrow> message" where
  "message_defaults now m = m\<lparr>
     ms_class := (if ms_class m = [] then ''IPM.Note'' else ms_class m),
     ms_importance := (if ms_importance m = 0 then 1 else ms_importance m),
     ms_date := (if ms_date m = 0 then now else ms_date m)\<rparr>"

text \<open>
  The result is the id with the error, as in the code: an error after the row is in the table
  still returns the id. The caller's struct gets the id and the blob key.
\<close>

(* src: internal/store/messages.go 99-138 Store.InsertMessage *)
definition InsertMessage :: "message \<Rightarrow> (store, int) op" where
  "InsertMessage m0 s =
    (let m = message_defaults (nowUnix s) m0 in
     if st_blobs s = None then (Inl ErrNoBlobDir, s)
     else bindE (sql (insert_message m)) (\<lambda>i.
       if ms_raw m = [] then okE i
       else (\<lambda>s. let path = blobKey (st_sum s) ''raw'' i ''mime.eml'' (ms_raw m) in
         bindE (blobPut path (ms_raw m)) (\<lambda>_.
         bindE (exec (upd_messages (\<lambda>r. ms_id r = i) (\<lambda>r. r\<lparr>ms_raw_path := path\<rparr>))) (\<lambda>_. okE i)) s)) s)"

(* src: internal/store/messages.go 140-153 Store.UpdateMessage *)
definition UpdateMessage :: "message \<Rightarrow> (store, unit) op" where
  "UpdateMessage m = sql (\<lambda>d.
     if ms_folder m \<notin> set (folder_ids d) \<and> (\<exists>r\<in>set (tb_messages d). ms_id r = ms_id m) then Inl ErrForeignKey
     else Inr ((), upd_messages (\<lambda>r. ms_id r = ms_id m) (\<lambda>r. r\<lparr>
       ms_folder := ms_folder m, ms_subject := ms_subject m, ms_from_addr := ms_from_addr m,
       ms_from_name := ms_from_name m, ms_to := ms_to m, ms_cc := ms_cc m, ms_date := ms_date m,
       ms_size := ms_size m, ms_read := ms_read m, ms_flagged := ms_flagged m,
       ms_importance := ms_importance m, ms_class := ms_class m, ms_msgid := ms_msgid m,
       ms_body_text := ms_body_text m, ms_body_html := ms_body_html m,
       ms_has_att := ms_has_att m, ms_deleted := ms_deleted m\<rparr>) d))"

(* src: internal/store/messages.go 265-269 Store.SoftDeleteMessage *)
definition SoftDeleteMessage :: "int \<Rightarrow> (store, unit) op" where
  "SoftDeleteMessage i = exec (upd_messages (\<lambda>r. ms_id r = i) (\<lambda>r. r\<lparr>ms_deleted := True\<rparr>))"

(* src: internal/store/messages.go 271-275 Store.MoveMessage *)
definition MoveMessage :: "int \<Rightarrow> int \<Rightarrow> (store, unit) op" where
  "MoveMessage i folderID = sql (\<lambda>d.
     if folderID \<notin> set (folder_ids d) \<and> (\<exists>r\<in>set (tb_messages d). ms_id r = i) then Inl ErrForeignKey
     else Inr ((), upd_messages (\<lambda>r. ms_id r = i) (\<lambda>r. r\<lparr>ms_folder := folderID\<rparr>) d))"

(* src: internal/store/messages.go 277-281 Store.MarkMessageRead *)
definition MarkMessageRead :: "int \<Rightarrow> bool \<Rightarrow> (store, unit) op" where
  "MarkMessageRead i read = exec (upd_messages (\<lambda>r. ms_id r = i) (\<lambda>r. r\<lparr>ms_read := read\<rparr>))"

section \<open>Reading messages\<close>

text \<open>The source and the message with \<open>Raw\<close> set.\<close>

(* src: internal/store/messages.go 177-195 Store.LoadRaw *)
definition LoadRaw :: "message option \<Rightarrow> (store, message) op" where
  "LoadRaw mo s = (case mo of
     None \<Rightarrow> (Inl ErrNotFound, s)
   | Some m \<Rightarrow>
      if ms_raw m \<noteq> [] \<or> ms_raw_path m = [] then (Inr m, s)
      else if st_blobs s = None then (Inl ErrNoBlobDir, s)
      else bindE (blobGet (ms_raw_path m)) (\<lambda>raw. okE (m\<lparr>ms_raw := raw\<rparr>)) s)"

definition message_query :: "int \<Rightarrow> (store, message) op" where
  "message_query i = get_row (\<lambda>d. filter (\<lambda>m. ms_id m = i) (tb_messages d))"

(* src: internal/store/messages.go 155-166 Store.MessageByID *)
definition MessageByID :: "int \<Rightarrow> (store, message) op" where
  "MessageByID i = bindE (message_query i) (\<lambda>m. LoadRaw (Some m))"

(* src: internal/store/messages.go 168-175 Store.MessageMetaByID *)
definition MessageMetaByID :: "int \<Rightarrow> (store, message) op" where
  "MessageMetaByID i = message_query i"

definition live_in :: "int \<Rightarrow> message \<Rightarrow> bool" where
  "live_in folderID m \<longleftrightarrow> ms_folder m = folderID \<and> \<not> ms_deleted m"

(* src: internal/store/messages.go 197-205 Store.MessagesForIMAP *)
definition MessagesForIMAP :: "int \<Rightarrow> (store, message list) op" where
  "MessagesForIMAP folderID = getAll (\<lambda>d. sort_key ms_id (filter (live_in folderID) (tb_messages d)))"

definition max_opt :: "int list \<Rightarrow> int option" where
  "max_opt xs = (case xs of [] \<Rightarrow> None | x # ys \<Rightarrow> Some (foldl max x ys))"

(* src: internal/store/messages.go 207-218 Store.NextUID *)
definition NextUID :: "int \<Rightarrow> (store, int) op" where
  "NextUID folderID = bindE
     (getAll (\<lambda>d. max_opt (map ms_id (filter (\<lambda>m. ms_folder m = folderID) (tb_messages d)))))
     (\<lambda>mx. okE (case mx of None \<Rightarrow> 1 | Some n \<Rightarrow> n + 1))"

(* src: internal/store/messages.go 220-226 Store.CountUnseen *)
definition CountUnseen :: "int \<Rightarrow> (store, int) op" where
  "CountUnseen folderID = getAll (\<lambda>d.
     int (length (filter (\<lambda>m. live_in folderID m \<and> \<not> ms_read m) (tb_messages d))))"

text \<open>\<open>ORDER BY date_received DESC, id DESC\<close>: the later key first, then the stable sort.\<close>

(* src: internal/store/messages.go 228-241 Store.MessagesByFolder *)
definition MessagesByFolder :: "int \<Rightarrow> int \<Rightarrow> (store, message list) op" where
  "MessagesByFolder folderID limit = getAll (\<lambda>d. limit_rows limit
     (sort_desc ms_date (sort_desc ms_id (filter (live_in folderID) (tb_messages d)))))"

(* src: internal/store/messages.go 243-248 Store.CountMessagesInFolder *)
definition CountMessagesInFolder :: "int \<Rightarrow> (store, int) op" where
  "CountMessagesInFolder folderID = getAll (\<lambda>d. int (length (filter (live_in folderID) (tb_messages d))))"

(* src: internal/store/messages.go 250-263 Store.MessageIDExists *)
definition MessageIDExists :: "string \<Rightarrow> string \<Rightarrow> (store, bool) op" where
  "MessageIDExists userID messageID = (if messageID = [] then okE False
     else getAll (\<lambda>d. length (filter (\<lambda>m. ms_user m = userID \<and> ms_msgid m = messageID) (tb_messages d)) > 0))"

section \<open>Attachments\<close>

definition insert_attachment :: "attachment \<Rightarrow> db \<Rightarrow> go_error + int \<times> db" where
  "insert_attachment a d =
    (if at_message a \<notin> ms_id ` set (tb_messages d) then Inl ErrForeignKey
     else let i = sq_attachments d + 1 in
       Inr (i, d\<lparr>tb_attachments := tb_attachments d @ [a\<lparr>at_id := i, at_data := []\<rparr>], sq_attachments := i\<rparr>))"

(* src: internal/store/messages.go 315-334 Store.InsertAttachment *)
definition InsertAttachment :: "attachment \<Rightarrow> (store, int) op" where
  "InsertAttachment a s =
    (if st_blobs s = None then (Inl ErrNoBlobDir, s)
     else let path = blobKey (st_sum s) ''att'' (at_message a) (at_file a) (at_data a) in
       bindE (blobPut path (at_data a)) (\<lambda>_.
         sql (insert_attachment (a\<lparr>at_size := int (length (at_data a)), at_path := path\<rparr>))) s)"

(* src: internal/store/messages.go 336-349 Store.AttachmentsByMessage *)
definition AttachmentsByMessage :: "int \<Rightarrow> (store, attachment list) op" where
  "AttachmentsByMessage messageID = getAll (\<lambda>d.
     sort_key at_id (filter (\<lambda>a. at_message a = messageID) (tb_attachments d)))"

(* src: internal/store/messages.go 351-372 Store.AttachmentByID *)
definition AttachmentByID :: "int \<Rightarrow> (store, attachment) op" where
  "AttachmentByID i = bindE (get_row (\<lambda>d. filter (\<lambda>a. at_id a = i) (tb_attachments d))) (\<lambda>a s.
     if at_path a = [] then (Inr a, s)
     else if st_blobs s = None then (Inl ErrNoBlobDir, s)
     else bindE (blobGet (at_path a)) (\<lambda>stored. okE (a\<lparr>at_data := stored\<rparr>)) s)"

section \<open>Counts\<close>

(* src: internal/store/counts.go 3-8 Store.CountUsers *)
definition CountUsers :: "(store, int) op" where
  "CountUsers = getAll (\<lambda>d. int (length (tb_users d)))"

(* src: internal/store/counts.go 10-15 Store.CountMessages *)
definition CountMessages :: "(store, int) op" where
  "CountMessages = getAll (\<lambda>d. int (length (filter (\<lambda>m. \<not> ms_deleted m) (tb_messages d))))"

(* src: internal/store/counts.go 17-22 Store.CountDevices *)
definition CountDevices :: "(store, int) op" where
  "CountDevices = getAll (\<lambda>d. int (length (tb_devices d)))"

section \<open>The invariant\<close>

lemma db_ok_messages:
  assumes "db_ok d" "ids_ok ms_id n ms" "refs_ok ms_user ms (map us_id (tb_users d))"
    and "refs_ok ms_folder ms (map fo_id (tb_folders d))" "set (map ms_id (tb_messages d)) \<subseteq> set (map ms_id ms)"
  shows "db_ok (d\<lparr>tb_messages := ms, sq_messages := n\<rparr>)"
proof -
  have "refs_ok at_message (tb_attachments d) (map ms_id ms)"
    by (rule refs_ok_mono [of _ _ "map ms_id (tb_messages d)"])
       (use assms(1,5) in \<open>simp_all add: db_ok_def mail_ok_def\<close>)
  then show ?thesis using assms(1-4) by (simp add: db_ok_def db_parts)
qed

lemma db_okD_mail:
  assumes "db_ok d"
  shows "ids_ok ms_id (sq_messages d) (tb_messages d)" "refs_ok ms_user (tb_messages d) (map us_id (tb_users d))"
    "refs_ok ms_folder (tb_messages d) (map fo_id (tb_folders d))"
    "ids_ok at_id (sq_attachments d) (tb_attachments d)"
  using assms by (simp_all add: db_ok_def mail_ok_def)

lemma db_ok_upd_messages:
  assumes "db_ok d" "\<And>m. ms_id (f m) = ms_id m" "\<And>m. ms_user (f m) = ms_user m"
    and "\<And>m. m \<in> set (tb_messages d) \<Longrightarrow> P m \<Longrightarrow> ms_folder (f m) = ms_folder m \<or> ms_folder (f m) \<in> set (folder_ids d)"
  shows "db_ok (upd_messages P f d)"
proof -
  let ?ms = "update_where P f (tb_messages d)"
  have i: "map ms_id ?ms = map ms_id (tb_messages d)" by (rule map_update_where) (simp add: assms(2))
  have "refs_ok ms_folder ?ms (map fo_id (tb_folders d))"
    using db_okD_mail(3) [OF assms(1)] assms(4)
    by (fastforce simp: refs_ok_def set_update_where folder_ids_def)
  moreover have "refs_ok ms_user ?ms (map us_id (tb_users d))"
    using db_okD_mail(2) [OF assms(1)] by (rule refs_ok_update) (simp add: assms(3))
  ultimately have "db_ok (d\<lparr>tb_messages := ?ms, sq_messages := sq_messages d\<rparr>)"
    using db_okD_mail(1) [OF assms(1)] i
    by (intro db_ok_messages assms(1) ids_ok_update) (simp_all add: assms(2))
  moreover have "d\<lparr>tb_messages := ?ms, sq_messages := sq_messages d\<rparr> = upd_messages P f d"
    by (simp add: upd_messages_def)
  ultimately show ?thesis by simp
qed

lemma keeps_upd_messages:
  "(\<And>m. ms_id (f m) = ms_id m) \<Longrightarrow> (\<And>m. ms_user (f m) = ms_user m) \<Longrightarrow> (\<And>m. ms_folder (f m) = ms_folder m) \<Longrightarrow>
   keeps store_ok (exec (upd_messages P f))"
  by (rule keeps_exec) (rule db_ok_upd_messages, auto)

lemma keeps_insert_message [keeps_intros]: "keeps store_ok (sql (insert_message m))"
proof (rule keeps_sql, unfold keeps_db_def, intro allI impI)
  fix d x d' assume "db_ok d" "insert_message m d = Inr (x, d')"
  then show "db_ok d'"
    by (auto simp: insert_message_def Let_def user_ids_def folder_ids_def db_okD_mail split: if_splits
        intro!: db_ok_messages ids_ok_append)
qed

lemma keeps_InsertMessage [keeps_intros]: "keeps store_ok (InsertMessage m)"
proof (rule keepsI)
  fix s assume s: "store_ok s"
  let ?m = "message_defaults (nowUnix s) m"
  have "keeps store_ok (bindE (sql (insert_message ?m)) (\<lambda>i.
       if ms_raw ?m = [] then okE i
       else (\<lambda>s. let path = blobKey (st_sum s) ''raw'' i ''mime.eml'' (ms_raw ?m) in
         bindE (blobPut path (ms_raw ?m)) (\<lambda>_.
         bindE (exec (upd_messages (\<lambda>r. ms_id r = i) (\<lambda>r. r\<lparr>ms_raw_path := path\<rparr>))) (\<lambda>_. okE i)) s)))"
  proof (intro keeps_bindE keeps_insert_message keeps_if keeps_okE keepsI)
    fix i s assume s: "store_ok s"
    let ?p = "blobKey (st_sum s) ''raw'' i ''mime.eml'' (ms_raw ?m)"
    have "keeps store_ok (bindE (blobPut ?p (ms_raw ?m)) (\<lambda>_.
        bindE (exec (upd_messages (\<lambda>r. ms_id r = i) (\<lambda>r. r\<lparr>ms_raw_path := ?p\<rparr>))) (\<lambda>_. okE i)))"
      by (intro keeps_bindE keeps_blobs keeps_upd_messages keeps_okE) simp_all
    from keepsD [OF this s] show "store_ok (snd (let path = ?p in bindE (blobPut path (ms_raw ?m)) (\<lambda>_.
        bindE (exec (upd_messages (\<lambda>r. ms_id r = i) (\<lambda>r. r\<lparr>ms_raw_path := path\<rparr>))) (\<lambda>_. okE i)) s))"
      by (simp add: Let_def)
  qed
  from keepsD [OF this s] show "store_ok (snd (InsertMessage m s))"
    using s by (simp add: InsertMessage_def Let_def)
qed

lemma keeps_message_updates [keeps_intros]:
  "keeps store_ok (SoftDeleteMessage i)" "keeps store_ok (MarkMessageRead i b)"
  by (simp_all add: SoftDeleteMessage_def MarkMessageRead_def keeps_upd_messages)

lemma keeps_MoveMessage [keeps_intros]: "keeps store_ok (MoveMessage i f)"
  unfolding MoveMessage_def
proof (rule keeps_sql, unfold keeps_db_def, intro allI impI)
  fix d x d' assume "db_ok d" "(if f \<notin> set (folder_ids d) \<and> (\<exists>r\<in>set (tb_messages d). ms_id r = i) then Inl ErrForeignKey
     else Inr ((), upd_messages (\<lambda>r. ms_id r = i) (\<lambda>r. r\<lparr>ms_folder := f\<rparr>) d)) = Inr (x, d')"
  then show "db_ok d'" by (auto split: if_splits intro!: db_ok_upd_messages)
qed

lemma keeps_UpdateMessage [keeps_intros]: "keeps store_ok (UpdateMessage m)"
  unfolding UpdateMessage_def
  by (rule keeps_sql) (auto simp: keeps_db_def split: if_splits intro!: db_ok_upd_messages)

lemma keeps_InsertAttachment [keeps_intros]: "keeps store_ok (InsertAttachment a)"
proof -
  have "keeps store_ok (sql (insert_attachment b))" for b
    by (rule keeps_sql) (auto simp: keeps_db_def insert_attachment_def Let_def db_ok_def db_parts ids_ok_append
        split: if_splits)
  then have "keeps store_ok (bindE (blobPut p x) (\<lambda>_. sql (insert_attachment b)))" for p x b
    by (intro keeps_bindE keeps_blobs)
  then show ?thesis by (simp add: keeps_def InsertAttachment_def Let_def)
qed

lemma keeps_LoadRaw [keeps_intros]: "keeps store_ok (LoadRaw mo)"
proof (rule keepsI)
  fix s assume s: "store_ok s"
  have "store_ok (snd (bindE (blobGet p) (\<lambda>raw. okE (m\<lparr>ms_raw := raw\<rparr>)) s))" for p and m :: message
    by (rule keepsD [where s = s and I = store_ok]) (intro keeps_intros, rule s)
  then show "store_ok (snd (LoadRaw mo s))"
    using s by (simp add: LoadRaw_def split: option.split)
qed

lemma keeps_AttachmentByID [keeps_intros]: "keeps store_ok (AttachmentByID i)"
proof -
  have "keeps store_ok (\<lambda>s. if at_path a = [] then (Inr a, s)
     else if st_blobs s = None then (Inl ErrNoBlobDir, s)
     else bindE (blobGet (at_path a)) (\<lambda>stored. okE (a\<lparr>at_data := stored\<rparr>)) s)" for a
  proof (rule keepsI)
    fix s assume s: "store_ok s"
    have "keeps store_ok (bindE (blobGet (at_path a)) (\<lambda>stored. okE (a\<lparr>at_data := stored\<rparr>)))"
      by (intro keeps_intros)
    then show "store_ok (snd (if at_path a = [] then (Inr a, s)
     else if st_blobs s = None then (Inl ErrNoBlobDir, s)
     else bindE (blobGet (at_path a)) (\<lambda>stored. okE (a\<lparr>at_data := stored\<rparr>)) s))"
      using s by (simp add: keeps_def)
  qed
  then show ?thesis unfolding AttachmentByID_def by (intro keeps_bindE keeps_get_row)
qed

lemma keeps_message_reads [keeps_intros]:
  "keeps store_ok (message_query i)" "keeps store_ok (MessageMetaByID i)" "keeps store_ok (MessageByID i)"
  "keeps store_ok (MessagesForIMAP f)" "keeps store_ok (NextUID f)" "keeps store_ok (CountUnseen f)"
  "keeps store_ok (MessagesByFolder f n)" "keeps store_ok (CountMessagesInFolder f)"
  "keeps store_ok (MessageIDExists u v)" "keeps store_ok (AttachmentsByMessage i)"
  "keeps store_ok CountUsers" "keeps store_ok CountMessages" "keeps store_ok CountDevices"
  by (simp_all add: message_query_def MessageMetaByID_def MessageByID_def MessagesForIMAP_def NextUID_def
      CountUnseen_def MessagesByFolder_def CountMessagesInFolder_def MessageIDExists_def
      AttachmentsByMessage_def CountUsers_def CountMessages_def CountDevices_def
      keeps_getAll keeps_get_row keeps_bindE keeps_okE keeps_LoadRaw)

section \<open>Properties\<close>

definition message_row :: "db \<Rightarrow> int \<Rightarrow> message option" where
  "message_row d i = find (\<lambda>m. ms_id m = i) (tb_messages d)"

lemma message_query_eval:
  "st_faults s = [] \<Longrightarrow> message_query i s =
    (case message_row (st_db s) i of None \<Rightarrow> (Inl ErrNotFound, s) | Some m \<Rightarrow> (Inr m, s))"
  by (simp add: message_query_def message_row_def get_find_eval)

lemma message_rowD: "message_row d i = Some m \<Longrightarrow> m \<in> set (tb_messages d) \<and> ms_id m = i"
  by (auto simp: message_row_def dest: find_SomeD)

lemma message_row_mem: "db_ok d \<Longrightarrow> m \<in> set (tb_messages d) \<Longrightarrow> message_row d (ms_id m) = Some m"
proof -
  assume d: "db_ok d" and m: "m \<in> set (tb_messages d)"
  have "message_row d (ms_id m) \<noteq> None" using m by (auto simp: message_row_def find_None_iff)
  then obtain g where g: "message_row d (ms_id m) = Some g" by blast
  then have "g = m" using message_rowD [OF g] m ids_ok_unique [OF db_okD_mail(1) [OF d]] by blast
  with g show ?thesis by simp
qed

lemma message_row_upd:
  assumes "\<And>m. ms_id (f m) = ms_id m"
  shows "message_row (upd_messages (\<lambda>r. ms_id r = i) f d) j =
    map_option (\<lambda>m. if j = i then f m else m) (message_row d j)"
  unfolding message_row_def upd_messages_def
  by (simp add: find_update_where [of ms_id f, OF assms])

lemma insert_message_Inr:
  assumes "insert_message m d = Inr (i, d')"
  shows "i = sq_messages d + 1 \<and> ms_user m \<in> set (user_ids d) \<and> ms_folder m \<in> set (folder_ids d) \<and>
    d' = d\<lparr>tb_messages := tb_messages d @ [m\<lparr>ms_id := i, ms_raw := [], ms_raw_path := []\<rparr>], sq_messages := i\<rparr>"
  using assms by (auto simp: insert_message_def Let_def split: if_splits)

lemma message_row_insert:
  assumes "db_ok d" "insert_message m d = Inr (i, d')"
  shows "message_row d' j = (if j = i then Some (m\<lparr>ms_id := i, ms_raw := [], ms_raw_path := []\<rparr>) else message_row d j)"
proof -
  have "message_row d i = None"
    using db_okD_mail(1) [OF assms(1)] insert_message_Inr [OF assms(2)]
    by (fastforce simp: message_row_def find_None_iff ids_ok_def)
  then show ?thesis
    using insert_message_Inr [OF assms(2)]
    by (auto simp: message_row_def find_append split: option.split)
qed

text \<open>A message that was stored is the message that is read back: by its new id, which is
  above every earlier id, with the defaults for an empty class, importance and date, its MIME
  source read from the blob directory, and every other message as before.\<close>

theorem InsertMessage_roundtrip:
  assumes "store_ok s" "InsertMessage m s = (Inr i, s')" "st_faults s' = []"
  shows "\<exists>path. fst (MessageByID i s') =
      Inr ((message_defaults (nowUnix s) m)\<lparr>ms_id := i, ms_raw_path := path\<rparr>) \<and>
    (\<forall>r\<in>set (tb_messages (st_db s)). ms_id r < i) \<and>
    (\<forall>j. j \<noteq> i \<longrightarrow> message_row (st_db s') j = message_row (st_db s) j)"
proof -
  let ?m = "message_defaults (nowUnix s) m"
  let ?p = "\<lambda>t. blobKey (st_sum t) ''raw'' i ''mime.eml'' (ms_raw ?m)"
  have d: "db_ok (st_db s)" using assms(1) by (simp add: store_ok_def)
  have raw: "ms_raw ?m = ms_raw m" by (simp add: message_defaults_def)
  obtain j t where j: "sql (insert_message ?m) s = (Inr j, t)" and b: "st_blobs s \<noteq> None"
    using assms(2) by (auto simp: InsertMessage_def Let_def bindE_Inr_iff split: if_splits)
  have t: "insert_message ?m (st_db s) = Inr (j, st_db t)" "st_blobs t = st_blobs s"
    using j by (auto simp: sql_Inr_iff)
  have new: "\<forall>r\<in>set (tb_messages (st_db s)). ms_id r < j"
    using db_okD_mail(1) [OF d] insert_message_Inr [OF t(1)] by (auto simp: ids_ok_def)
  note row = message_row_insert [OF d t(1)]
  show ?thesis
  proof (cases "ms_raw m = []")
    case True
    then have s': "j = i" "s' = t" using assms(2) j b raw by (auto simp: InsertMessage_def Let_def)
    have "fst (MessageByID i s') = Inr (?m\<lparr>ms_id := i, ms_raw_path := []\<rparr>)"
      using True raw row [of i] assms(3)
      by (simp add: MessageByID_def bindE_def message_query_eval s' LoadRaw_def)
    then show ?thesis using new row s' by auto
  next
    case False
    obtain u where u: "j = i" "blobPut (?p t) (ms_raw ?m) t = (Inr (), u)"
      "exec (upd_messages (\<lambda>r. ms_id r = i) (\<lambda>r. r\<lparr>ms_raw_path := ?p t\<rparr>)) u = (Inr (), s')"
      using assms(2) j b raw False by (auto simp: InsertMessage_def Let_def bindE_Inr_iff)
    have u': "st_db u = st_db t" "st_blobs u = map_option (\<lambda>m. m(?p t \<mapsto> ms_raw ?m)) (st_blobs t)"
      using u(2) by (auto simp: blobPut_def split: if_splits)
    have s': "st_db s' = upd_messages (\<lambda>r. ms_id r = i) (\<lambda>r. r\<lparr>ms_raw_path := ?p t\<rparr>) (st_db t)"
      "st_blobs s' = st_blobs u"
      using u(3) u'(1) by (auto simp: exec_Inr_iff)
    have row': "message_row (st_db s') k = (if k = i then Some (?m\<lparr>ms_id := i, ms_raw := [], ms_raw_path := ?p t\<rparr>)
        else message_row (st_db s) k)" for k
      unfolding s'(1) by (subst message_row_upd) (use row u(1) in \<open>auto simp: option.map_ident\<close>)
    obtain bm where bm: "st_blobs s' = Some bm" "bm (?p t) = Some (ms_raw m)"
      using b t(2) u'(2) s'(2) raw by auto
    have np: "?p t \<noteq> []" by (simp add: blobKey_def)
    have "fst (MessageByID i s') = Inr (?m\<lparr>ms_id := i, ms_raw_path := ?p t\<rparr>)"
      using row' [of i] assms(3) bm np raw
      by (simp add: MessageByID_def bindE_def message_query_eval LoadRaw_def blobGet_def)
    then show ?thesis using new row' u(1) by auto
  qed
qed

theorem InsertMessage_roundtrip_witness:
  "\<exists>path s'. InsertMessage ((demo_message 9)\<lparr>ms_raw := ''mime'', ms_class := []\<rparr>) demo_store = (Inr 3, s') \<and>
     fst (MessageByID 3 s') = Inr ((demo_message 3)\<lparr>ms_date := 90, ms_raw := ''mime'', ms_raw_path := path\<rparr>)"
proof -
  let ?m = "(demo_message 9)\<lparr>ms_raw := ''mime'', ms_class := []\<rparr>"
  obtain s' where a: "InsertMessage ?m demo_store = (Inr 3, s')" "st_faults s' = []"
    by (simp add: InsertMessage_def Let_def message_defaults_def bindE_def sql_no_fault insert_message_def
        blobPut_def exec_def demo_defs user_ids_def folder_ids_def)
  show ?thesis
    using InsertMessage_roundtrip [OF demo_ok a] a
    by (simp add: message_defaults_def demo_message_def)
qed

lemma foldl_max_ge: "(x::int) \<le> foldl max x xs \<and> (\<forall>y\<in>set xs. y \<le> foldl max x xs)"
  by (induction xs arbitrary: x) (auto intro: order_trans, (metis max.bounded_iff)+)

lemma foldl_max_mem: "foldl max (x::int) xs \<in> set (x # xs)"
proof (induction xs arbitrary: x)
  case (Cons y ys)
  have "foldl max (max x y) ys \<in> set (max x y # ys)" by (rule Cons.IH)
  then show ?case by (cases "x \<le> y") (auto simp: max_absorb1 max_absorb2)
qed simp

text \<open>The next UID of a folder is above the id of every message the folder holds,
  deleted ones included, and no message of the folder has it.\<close>

theorem NextUID_bound:
  assumes "NextUID f s = (Inr n, s')"
  shows "\<forall>m\<in>set (tb_messages (st_db s)). ms_folder m = f \<longrightarrow> ms_id m < n"
proof -
  let ?ids = "map ms_id (filter (\<lambda>m. ms_folder m = f) (tb_messages (st_db s)))"
  have n: "n = (case max_opt ?ids of None \<Rightarrow> 1 | Some n \<Rightarrow> n + 1)"
    using assms by (auto simp: NextUID_def bindE_Inr_iff getAll_Inr_iff)
  have "\<forall>i\<in>set ?ids. i < n"
  proof (cases ?ids)
    case (Cons x xs)
    then show ?thesis using n foldl_max_ge [of x xs] by (auto simp: max_opt_def)
  qed simp
  then show ?thesis by auto
qed

theorem NextUID_bound_witness:
  "fst (NextUID 1 demo_store) = Inr 3 \<and> ms_id (demo_message 2) < 3"
proof -
  have a: "NextUID 1 demo_store = (Inr 3, demo_store)"
    by (simp add: NextUID_def bindE_def getAll_def sql_no_fault max_opt_def demo_defs)
  have "demo_message 2 \<in> set (tb_messages (st_db demo_store))" "ms_folder (demo_message 2) = 1"
    by (simp_all add: demo_db_def) (simp add: demo_message_def)
  then show ?thesis using NextUID_bound [OF a] a by simp
qed

text \<open>The next UID is not monotone: moving the message with the largest id out of a folder
  lowers it, so a UID the folder has announced as used is announced as next again. (The
  comment in the code promises one greater than the largest id ever used in the folder.)\<close>

theorem NextUID_drops_after_move:
  assumes "store_ok s" "NextUID f s = (Inr n, s1)" "MoveMessage (n - 1) g s1 = (Inr (), s2)"
    and "message_row (st_db s) (n - 1) = Some m" "ms_folder m = f" "g \<noteq> f" "NextUID f s2 = (Inr k, s3)"
  shows "k < n"
proof -
  have d1: "st_db s1 = st_db s" using assms(2) by (auto simp: NextUID_def bindE_Inr_iff getAll_Inr_iff)
  have d2: "st_db s2 = upd_messages (\<lambda>r. ms_id r = n - 1) (\<lambda>r. r\<lparr>ms_folder := g\<rparr>) (st_db s)"
    using assms(3) d1 by (auto simp: MoveMessage_def sql_Inr_iff split: if_splits)
  let ?ids = "map ms_id (filter (\<lambda>m. ms_folder m = f) (tb_messages (st_db s2)))"
  have k: "k = (case max_opt ?ids of None \<Rightarrow> 1 | Some n \<Rightarrow> n + 1)"
    using assms(7) by (auto simp: NextUID_def bindE_Inr_iff getAll_Inr_iff)
  have lt: "i < n - 1" if i: "i \<in> set ?ids" for i
  proof -
    obtain r where r: "r \<in> set (tb_messages (st_db s2))" "ms_folder r = f" "ms_id r = i" using i by auto
    then have "r \<in> set (tb_messages (st_db s))" "ms_id r \<noteq> n - 1"
      using assms(6) unfolding d2 upd_messages_def by (auto simp: set_update_where)
    then show ?thesis using NextUID_bound [OF assms(2)] r by force
  qed
  have pos: "0 < n - 1" using message_rowD [OF assms(4)] assms(1)
    by (auto simp: store_ok_def db_ok_def mail_ok_def ids_ok_def)
  show ?thesis
  proof (cases ?ids)
    case Nil
    then show ?thesis using k pos by (simp add: max_opt_def)
  next
    case (Cons x xs)
    then have "foldl max x xs < n - 1" using foldl_max_mem [of x xs] by (intro lt) simp
    then show ?thesis using k Cons by (simp add: max_opt_def)
  qed
qed


definition moved_store :: store where
  "moved_store = demo_store\<lparr>st_db := demo_db\<lparr>tb_messages := [demo_message 1, (demo_message 2)\<lparr>ms_folder := 2\<rparr>]\<rparr>\<rparr>"

theorem NextUID_drops_after_move_witness:
  "fst (NextUID 1 demo_store) = Inr 3 \<and> fst (NextUID 1 moved_store) = Inr 2 \<and> (2::int) < 3"
proof -
  have a: "NextUID 1 demo_store = (Inr 3, demo_store)"
    by (simp add: NextUID_def bindE_def getAll_def sql_no_fault max_opt_def demo_defs)
  have b: "MoveMessage (3 - 1) 2 demo_store = (Inr (), moved_store)"
    by (simp add: MoveMessage_def sql_no_fault upd_messages_def moved_store_def demo_defs folder_ids_def)
  have c: "NextUID 1 moved_store = (Inr 2, moved_store)"
    by (simp add: moved_store_def NextUID_def bindE_def getAll_def sql_no_fault max_opt_def demo_defs)
  have r: "message_row (st_db demo_store) (3 - 1) = Some (demo_message 2)" "ms_folder (demo_message 2) = 1"
    by (simp_all add: message_row_def demo_defs)
  show ?thesis using NextUID_drops_after_move [OF demo_ok a b r _ c] a c by simp
qed

end
