(* ===== verification/StoreUsers.thy ===== *)
theory StoreUsers imports StoreMessages begin

text \<open>
  \<open>internal/store/users.go\<close> and \<open>aliases.go\<close>: accounts, their provisioning with the default
  folders, and the addresses that reach them, of which at most one per account is primary.
\<close>

section \<open>Accounts: reading\<close>

text \<open>
  The query \<open>userSelect\<close>: the row of the account with its primary address. The unique index on
  primary aliases makes the \<open>LEFT JOIN\<close> yield one row for each account.
\<close>

(* src: internal/store/users.go 45-50 userSelect *)
definition user_view :: "db \<Rightarrow> user \<Rightarrow> user" where
  "user_view d u = u\<lparr>us_address := (case primary_address (us_id u) d of None \<Rightarrow> [] | Some a \<Rightarrow> a)\<rparr>"

(* src: internal/store/users.go 52-52 normalizeName *)
definition normalizeName :: "string \<Rightarrow> string" where
  "normalizeName name = to_lower (trim_space name)"

definition blanks :: string where
  "blanks = [CHR '' '', CHR 0x09, CHR 0x0D, CHR 0x0A]"

(* src: internal/store/users.go 54-62 validateName *)
definition validateName :: "string \<Rightarrow> go_error option" where
  "validateName name =
    (if name = [] then Some (ErrText ''store: login name is required'')
     else if contains_any name (CHR ''@'' # blanks)
     then Some (ErrText (''store: login name must not contain '' @ [CHR 0x27, CHR ''@'', CHR 0x27] @ '' or whitespace''))
     else None)"

(* src: internal/store/users.go 64-79 defaultFolders *)
definition defaultFolders :: "(string \<times> int) list" where
  "defaultFolders = [(''Inbox'', 2), (''Drafts'', 3), (''Outbox'', 6), (''Sent Items'', 5),
     (''Deleted Items'', 4), (''Spam'', 12), (''Calendar'', 8), (''Contacts'', 9)]"

(* src: internal/store/users.go 123-130 Store.UserByName *)
definition UserByName :: "string \<Rightarrow> (store, user) op" where
  "UserByName name = get_row (\<lambda>d. map (user_view d)
     (filter (\<lambda>u. us_name u = normalizeName name) (tb_users d)))"

(* src: internal/store/users.go 132-139 Store.UserByID *)
definition UserByID :: "string \<Rightarrow> (store, user) op" where
  "UserByID i = get_row (\<lambda>d. map (user_view d) (filter (\<lambda>u. us_id u = i) (tb_users d)))"

(* src: internal/store/users.go 141-152 Store.ListUsers *)
definition ListUsers :: "(store, user list) op" where
  "ListUsers = getAll (\<lambda>d. map (user_view d) (sort_key us_name (tb_users d)))"

section \<open>Accounts: writing\<close>

definition insert_user :: "user \<Rightarrow> db \<Rightarrow> go_error + unit \<times> db" where
  "insert_user u d =
    (if us_id u \<in> set (user_ids d) \<or> us_name u \<in> set (map us_name (tb_users d)) then Inl ErrUnique
     else Inr ((), d\<lparr>tb_users := tb_users d @ [u]\<rparr>))"

definition insert_alias :: "mail_alias \<Rightarrow> db \<Rightarrow> go_error + unit \<times> db" where
  "insert_alias a d =
    (if al_address a \<in> set (map al_address (tb_aliases d)) then Inl ErrUnique
     else if al_primary a \<and> al_user a \<in> set (primary_rows (tb_aliases d)) then Inl ErrUnique
     else if al_user a \<notin> set (user_ids d) then Inl ErrForeignKey
     else Inr ((), d\<lparr>tb_aliases := tb_aliases d @ [a]\<rparr>))"

(* src: internal/store/users.go 104-108 Store.CreateUser *)
fun insertFolders :: "string \<Rightarrow> (string \<times> int) list \<Rightarrow> (store, unit) op" where
  "insertFolders i [] = okE ()"
| "insertFolders i ((name, typ) # fs) =
     bindE (insertFolderTx i 0 name typ) (\<lambda>_. insertFolders i fs)"

text \<open>The transaction of \<open>CreateUser\<close>.\<close>

(* src: internal/store/users.go 96-117 Store.CreateUser *)
definition provision :: "user \<Rightarrow> string \<Rightarrow> (store, unit) op" where
  "provision u addr =
     bindE (wrapDuplicate (sql (insert_user u))) (\<lambda>_.
     bindE (insertFolders (us_id u) defaultFolders) (\<lambda>_.
     if addr \<noteq> [] then
       wrapDuplicate (sql (insert_alias \<lparr>al_address = addr, al_user = us_id u, al_primary = True,
                                         al_created = us_created u\<rparr>))
     else okE ()))"

definition address_chars_ok :: "string \<Rightarrow> bool" where
  "address_chars_ok addr \<longleftrightarrow> contains_byte addr CHR ''@'' \<and> \<not> contains_any addr blanks"

(* src: internal/store/users.go 81-121 Store.CreateUser *)
definition CreateUser :: "string \<Rightarrow> string \<Rightarrow> string \<Rightarrow> string \<Rightarrow> (store, user) op" where
  "CreateUser name0 address displayName0 passwordHash =
    (let name = normalizeName name0 in
     case validateName name of
       Some e \<Rightarrow> failE e
     | None \<Rightarrow>
       (let displayName = (if displayName0 = [] then name else displayName0);
            addr = normalizeEmail address in
        if addr \<noteq> [] \<and> \<not> address_chars_ok addr then failE (ErrText ''store: invalid primary address'')
        else bindE newID (\<lambda>i.
          bindE (\<lambda>s. okE (nowUnix s) s) (\<lambda>now.
          bindE (inTx (provision \<lparr>us_id = i, us_name = name, us_address = [], us_display = displayName,
                        us_hash = passwordHash, us_folder_seq = 0, us_created = now\<rparr> addr))
            (\<lambda>_. UserByID i)))))"

definition upd_users :: "(user \<Rightarrow> bool) \<Rightarrow> (user \<Rightarrow> user) \<Rightarrow> (store, unit) op" where
  "upd_users P f = bindE (exec_count (\<lambda>d. length (filter P (tb_users d)))
      (\<lambda>d. d\<lparr>tb_users := update_where P f (tb_users d)\<rparr>))
    (\<lambda>n. if n = 0 then failE ErrNotFound else okE ())"

(* src: internal/store/users.go 154-167 Store.SetPassword *)
definition SetPassword :: "string \<Rightarrow> string \<Rightarrow> (store, unit) op" where
  "SetPassword name hash = upd_users (\<lambda>u. us_name u = normalizeName name) (\<lambda>u. u\<lparr>us_hash := hash\<rparr>)"

(* src: internal/store/users.go 169-181 Store.SetPasswordByID *)
definition SetPasswordByID :: "string \<Rightarrow> string \<Rightarrow> (store, unit) op" where
  "SetPasswordByID i hash = upd_users (\<lambda>u. us_id u = i) (\<lambda>u. u\<lparr>us_hash := hash\<rparr>)"

(* src: internal/store/users.go 183-195 Store.UpdateDisplayName *)
definition UpdateDisplayName :: "string \<Rightarrow> string \<Rightarrow> (store, unit) op" where
  "UpdateDisplayName i displayName = upd_users (\<lambda>u. us_id u = i) (\<lambda>u. u\<lparr>us_display := displayName\<rparr>)"

text \<open>
  \<open>DELETE FROM users\<close> with the cascades of the schema: the account's rows, the rows in its
  folders, and what belongs to those rows.
\<close>

definition cascade_user :: "string \<Rightarrow> db \<Rightarrow> db" where
  "cascade_user i d =
    (let F = set (map fo_id (filter (\<lambda>f. fo_user f = i) (tb_folders d)));
         ms = filter (\<lambda>m. ms_user m \<noteq> i \<and> ms_folder m \<notin> F) (tb_messages d);
         evs = filter (\<lambda>e. ev_user e \<noteq> i \<and> ev_folder e \<notin> F) (tb_events d) in
     d\<lparr>tb_users := filter (\<lambda>u. us_id u \<noteq> i) (tb_users d),
       tb_aliases := filter (\<lambda>a. al_user a \<noteq> i) (tb_aliases d),
       tb_folders := filter (\<lambda>f. fo_user f \<noteq> i) (tb_folders d),
       tb_messages := ms,
       tb_attachments := filter (\<lambda>a. at_message a \<in> ms_id ` set ms) (tb_attachments d),
       tb_contacts := filter (\<lambda>c. co_user c \<noteq> i \<and> co_folder c \<notin> F) (tb_contacts d),
       tb_events := evs,
       tb_exceptions := filter (\<lambda>x. fst x \<in> ev_id ` set evs) (tb_exceptions d),
       tb_changes := filter (\<lambda>c. ch_folder c \<notin> F) (tb_changes d),
       tb_states := filter (\<lambda>r. ss_user r \<noteq> i \<and> ss_folder r \<notin> F) (tb_states d),
       tb_items := filter (\<lambda>r. si_user r \<noteq> i \<and> si_folder r \<notin> F) (tb_items d),
       tb_devices := filter (\<lambda>r. dv_user r \<noteq> i) (tb_devices d)\<rparr>)"

(* src: internal/store/users.go 223-243 Store.payloadPaths *)
definition payloadPaths :: "string \<Rightarrow> (store, string list) op" where
  "payloadPaths userID s =
    (if st_blobs s = None then (Inr [], s)
     else bindE (getAll (\<lambda>d. map at_path (filter (\<lambda>a. at_path a \<noteq> [] \<and>
              (\<exists>m\<in>set (tb_messages d). ms_id m = at_message a \<and> ms_user m = userID)) (tb_attachments d))))
       (\<lambda>as. bindE (getAll (\<lambda>d. map ms_raw_path
              (filter (\<lambda>m. ms_raw_path m \<noteq> [] \<and> ms_user m = userID) (tb_messages d))))
       (\<lambda>rs. okE (as @ rs))) s)"

text \<open>\<open>_ = s.blobs.Remove(path)\<close> for every path.\<close>

definition remove_blobs :: "string list \<Rightarrow> (store, unit) op" where
  "remove_blobs paths s = (Inr (),
     if st_blobs s = None then s else fold (\<lambda>p. execE (blobRemove p)) paths s)"

(* src: internal/store/users.go 197-221 Store.DeleteUser *)
definition DeleteUser :: "string \<Rightarrow> (store, unit) op" where
  "DeleteUser i =
     bindE (UserByID i) (\<lambda>_.
     bindE (payloadPaths i) (\<lambda>paths.
     bindE (exec_count (\<lambda>d. length (filter (\<lambda>u. us_id u = i) (tb_users d))) (cascade_user i)) (\<lambda>n.
     if n = 0 then failE ErrNotFound else remove_blobs paths)))"

(* src: internal/store/users.go 245-254 Store.TouchFolderSeq *)
definition TouchFolderSeq :: "string \<Rightarrow> (store, int) op" where
  "TouchFolderSeq userID = sql (bump_seq ErrNotFound userID)"

section \<open>Addresses\<close>

(* src: internal/store/aliases.go 42-45 validAddress *)
definition validAddress :: "string \<Rightarrow> bool" where
  "validAddress value \<longleftrightarrow> value \<noteq> [] \<and> contains_byte value CHR ''@'' \<and> \<not> contains_any value blanks"

(* src: internal/store/aliases.go 64-73 Store.AliasByAddress *)
definition AliasByAddress :: "string \<Rightarrow> (store, mail_alias) op" where
  "AliasByAddress address = get_row (\<lambda>d. filter (\<lambda>a. al_address a = normalizeEmail address) (tb_aliases d))"

(* src: internal/store/aliases.go 47-62 Store.CreateAlias *)
definition CreateAlias :: "string \<Rightarrow> string \<Rightarrow> (store, mail_alias) op" where
  "CreateAlias address userID =
    (let addr = normalizeEmail address in
     if \<not> validAddress addr then failE (ErrText ''store: invalid alias address'')
     else bindE (UserByID userID) (\<lambda>_.
       bindE (\<lambda>s. okE (nowUnix s) s) (\<lambda>now.
       bindE (wrapDuplicate (sql (insert_alias \<lparr>al_address = addr, al_user = userID, al_primary = False,
                                                al_created = now\<rparr>)))
         (\<lambda>_. AliasByAddress addr))))"

(* src: internal/store/aliases.go 75-84 Store.AliasesByUser *)
definition AliasesByUser :: "string \<Rightarrow> (store, mail_alias list) op" where
  "AliasesByUser userID = getAll (\<lambda>d. sort_key (\<lambda>a. if al_primary a then 0 else 1 :: int)
     (sort_key al_address (filter (\<lambda>a. al_user a = userID) (tb_aliases d))))"

(* src: internal/store/aliases.go 86-93 Store.ListAliases *)
definition ListAliases :: "(store, mail_alias list) op" where
  "ListAliases = getAll (\<lambda>d. sort_key al_address (tb_aliases d))"

text \<open>\<open>existing, err := AliasByAddress(addr)\<close> where \<open>ErrNotFound\<close> is not an error.\<close>

definition existing_alias :: "string \<Rightarrow> (store, mail_alias option) op" where
  "existing_alias addr s = (case AliasByAddress addr s of
      (Inl e, s') \<Rightarrow> if e = ErrNotFound then (Inr None, s') else (Inl e, s')
    | (Inr a, s') \<Rightarrow> (Inr (Some a), s'))"

definition drop_alias :: "string \<Rightarrow> db \<Rightarrow> db" where
  "drop_alias addr d = d\<lparr>tb_aliases := filter (\<lambda>a. al_address a \<noteq> addr) (tb_aliases d)\<rparr>"

definition clear_primary :: "string \<Rightarrow> db \<Rightarrow> db" where
  "clear_primary userID d = d\<lparr>tb_aliases := update_where (\<lambda>a. al_user a = userID \<and> al_primary a)
     (\<lambda>a. a\<lparr>al_primary := False\<rparr>) (tb_aliases d)\<rparr>"

(* src: internal/store/aliases.go 95-115 Store.DeleteAlias *)
definition DeleteAlias :: "string \<Rightarrow> (store, unit) op" where
  "DeleteAlias address =
    (let addr = normalizeEmail address in
     bindE (existing_alias addr) (\<lambda>existing.
     if existing \<noteq> None \<and> al_primary (the existing) then failE ErrPrimaryAddress
     else bindE (exec_count (\<lambda>d. length (filter (\<lambda>a. al_address a = addr) (tb_aliases d))) (drop_alias addr))
       (\<lambda>n. if n = 0 then failE ErrNotFound else okE ())))"

text \<open>The transaction of \<open>SetPrimaryAddress\<close>.\<close>

(* src: internal/store/aliases.go 135-148 Store.SetPrimaryAddress *)
definition swap_primary :: "string \<Rightarrow> string \<Rightarrow> (store, unit) op" where
  "swap_primary userID addr =
     bindE (exec (drop_alias addr)) (\<lambda>_.
     bindE (exec (clear_primary userID)) (\<lambda>_.
     bindE (\<lambda>s. okE (nowUnix s) s) (\<lambda>now.
     wrapDuplicate (sql (insert_alias \<lparr>al_address = addr, al_user = userID, al_primary = True,
                                       al_created = now\<rparr>)))))"

(* src: internal/store/aliases.go 117-153 Store.SetPrimaryAddress *)
definition SetPrimaryAddress :: "string \<Rightarrow> string \<Rightarrow> (store, mail_alias) op" where
  "SetPrimaryAddress userID address =
    (let addr = normalizeEmail address in
     if \<not> validAddress addr then failE (ErrText ''store: invalid address'')
     else bindE (UserByID userID) (\<lambda>_.
       bindE (existing_alias addr) (\<lambda>existing.
       if existing \<noteq> None \<and> al_user (the existing) \<noteq> userID then failE ErrDuplicate
       else bindE (inTx (swap_primary userID addr)) (\<lambda>_. AliasByAddress addr))))"

(* src: internal/store/aliases.go 190-205 Store.userByAlias *)
definition userByAlias :: "string \<Rightarrow> (store, user) op" where
  "userByAlias addr = get_row (\<lambda>d. concat (map (\<lambda>a.
     map (user_view d) (filter (\<lambda>u. us_id u = al_user a) (tb_users d)))
     (filter (\<lambda>a. al_address a = addr) (tb_aliases d))))"

(* src: internal/store/aliases.go 168-188 Store.UserByAddress *)
definition UserByAddress :: "string \<Rightarrow> (store, user) op" where
  "UserByAddress address s =
    (let addr = normalizeEmail address in
     if addr = [] then (Inl ErrNotFound, s)
     else case userByAlias addr s of
       (Inr u, s') \<Rightarrow> (Inr u, s')
     | (Inl e, s') \<Rightarrow>
         if e \<noteq> ErrNotFound then (Inl e, s')
         else case last_index_byte addr CHR ''@'' of
           None \<Rightarrow> (Inl ErrNotFound, s')
         | Some at \<Rightarrow>
             if at = 0 then (Inl ErrNotFound, s')
             else (case index_byte (take at addr) CHR ''+'' of
                 None \<Rightarrow> (Inl ErrNotFound, s')
               | Some i \<Rightarrow> if i > 0 then userByAlias (take i (take at addr) @ drop at addr) s'
                           else (Inl ErrNotFound, s')))"

(* src: internal/store/aliases.go 155-166 Store.UserByLogin *)
definition UserByLogin :: "string \<Rightarrow> (store, user) op" where
  "UserByLogin login =
    (let name = trim_space login in
     if name = [] then failE ErrNotFound
     else if contains_byte name CHR ''@'' then UserByAddress name
     else UserByName name)"

section \<open>The invariant\<close>

lemma db_okD_account:
  assumes "db_ok d"
  shows "distinct (map us_id (tb_users d))" "distinct (map us_name (tb_users d))"
    "distinct (map al_address (tb_aliases d))" "distinct (primary_rows (tb_aliases d))"
    "refs_ok al_user (tb_aliases d) (map us_id (tb_users d))"
  using assms by (simp_all add: db_ok_def account_ok_def)

lemma db_ok_aliases:
  "db_ok d \<Longrightarrow> distinct (map al_address as) \<Longrightarrow> distinct (primary_rows as) \<Longrightarrow>
   refs_ok al_user as (map us_id (tb_users d)) \<Longrightarrow> db_ok (d\<lparr>tb_aliases := as\<rparr>)"
  by (simp add: db_ok_def db_parts)

lemma db_ok_add_user:
  "db_ok d \<Longrightarrow> us_id u \<notin> set (map us_id (tb_users d)) \<Longrightarrow> us_name u \<notin> set (map us_name (tb_users d)) \<Longrightarrow>
   db_ok (d\<lparr>tb_users := tb_users d @ [u]\<rparr>)"
  by (simp add: db_ok_def db_parts refs_ok_more)

lemma distinct_primary_filter: "distinct (primary_rows as) \<Longrightarrow> distinct (primary_rows (filter P as))"
  by (induction as) (auto simp: primary_rows_def)

lemma keeps_insert_user [keeps_intros]: "keeps store_ok (sql (insert_user u))"
  by (rule keeps_sql) (auto simp: keeps_db_def insert_user_def user_ids_def split: if_splits
      intro!: db_ok_add_user)

lemma keeps_insert_alias [keeps_intros]: "keeps store_ok (sql (insert_alias a))"
  by (rule keeps_sql) (auto simp: keeps_db_def insert_alias_def user_ids_def db_okD_account primary_rows_def
      split: if_splits intro!: db_ok_aliases dest: db_okD_account(4))

lemma keeps_insertFolders [keeps_intros]: "keeps store_ok (insertFolders i fs)"
  by (induction fs) (auto simp del: okE_simp intro!: keeps_intros)

lemma keeps_provision [keeps_intros]: "keeps store_ok (provision u addr)"
  unfolding provision_def by (intro keeps_intros)

lemma keeps_user_reads [keeps_intros]:
  "keeps store_ok (UserByID i)" "keeps store_ok (UserByName n)" "keeps store_ok ListUsers"
  "keeps store_ok (AliasByAddress a)" "keeps store_ok (AliasesByUser i)" "keeps store_ok ListAliases"
  "keeps store_ok (userByAlias a)" "keeps store_ok (TouchFolderSeq i)"
  by (simp_all add: UserByID_def UserByName_def ListUsers_def AliasByAddress_def AliasesByUser_def
      ListAliases_def userByAlias_def TouchFolderSeq_def keeps_get_row keeps_getAll keeps_bump)

lemma keeps_now [keeps_intros]: "keeps I (\<lambda>s. okE (nowUnix s) s)"
  by (simp add: keeps_def)

lemma keeps_CreateUser [keeps_intros]: "keeps store_ok (CreateUser n a v h)"
  unfolding CreateUser_def Let_def
  by (auto split: option.split intro!: keeps_intros simp del: okE_simp failE_simp)

lemma keeps_upd_users:
  assumes "\<And>u. us_id (f u) = us_id u" "\<And>u. us_name (f u) = us_name u"
  shows "keeps store_ok (upd_users P f)"
  unfolding upd_users_def
  by (intro keeps_bindE keeps_exec_count keeps_if keeps_okE keeps_failE db_ok_users map_update_where)
     (simp_all add: assms)

lemma keeps_user_updates [keeps_intros]:
  "keeps store_ok (SetPassword n h)" "keeps store_ok (SetPasswordByID i h)" "keeps store_ok (UpdateDisplayName i n)"
  by (simp_all add: SetPassword_def SetPasswordByID_def UpdateDisplayName_def keeps_upd_users)

lemma refs_okD: "refs_ok f xs ks \<Longrightarrow> x \<in> set xs \<Longrightarrow> f x \<in> set ks"
  by (auto simp: refs_ok_def)

lemma refs_user_kept:
  "refs_ok f xs (map us_id us) \<Longrightarrow>
   refs_ok f (filter (\<lambda>x. f x \<noteq> i) xs) (map us_id (filter (\<lambda>u. us_id u \<noteq> i) us))"
  "refs_ok f xs (map us_id us) \<Longrightarrow>
   refs_ok f (filter (\<lambda>x. f x \<noteq> i \<and> Q x) xs) (map us_id (filter (\<lambda>u. us_id u \<noteq> i) us))"
  by (force simp: refs_ok_def)+

lemma refs_folder_kept:
  "refs_ok f xs (map fo_id fs) \<Longrightarrow>
   refs_ok f (filter (\<lambda>x. f x \<notin> fo_id ` {g \<in> set fs. fo_user g = i}) xs)
     (map fo_id (filter (\<lambda>g. fo_user g \<noteq> i) fs))"
  "refs_ok f xs (map fo_id fs) \<Longrightarrow>
   refs_ok f (filter (\<lambda>x. Q x \<and> f x \<notin> fo_id ` {g \<in> set fs. fo_user g = i}) xs)
     (map fo_id (filter (\<lambda>g. fo_user g \<noteq> i) fs))"
  by (force simp: refs_ok_def)+

lemma refs_ok_mem: "refs_ok f (filter (\<lambda>x. f x \<in> g ` {y \<in> set ys. P y}) xs) (map g (filter P ys))"
  by (auto simp: refs_ok_def)

lemma distinct_uuid_filter: "distinct (uuid_rows fs) \<Longrightarrow> distinct (uuid_rows (filter P fs))"
  by (induction fs) (auto simp: uuid_rows_def)

lemma cascade_ok: "db_ok d \<Longrightarrow> db_ok (cascade_user i d)"
proof -
  assume d: "db_ok d"
  note p = d [unfolded db_ok_def db_parts]
  let ?c = "cascade_user i d"
  note u = refs_user_kept
  note f = refs_folder_kept
  have "account_ok ?c"
    unfolding account_ok_def cascade_user_def Let_def
    using p by (auto simp: distinct_map_filter distinct_primary_filter intro!: u)
  moreover have "folders_ok ?c"
    unfolding folders_ok_def cascade_user_def Let_def
    using p by (auto simp: distinct_map_filter distinct_uuid_filter ids_ok_filter intro!: u)
  moreover have "mail_ok ?c"
    unfolding mail_ok_def cascade_user_def Let_def
    using p by (auto simp: ids_ok_filter refs_ok_mem intro!: u f)
  moreover have "calendar_ok ?c"
    unfolding calendar_ok_def cascade_user_def Let_def
    using p by (auto simp: ids_ok_filter refs_ok_mem distinct_map_filter intro!: u f)
  moreover have "feed_ok ?c"
    unfolding feed_ok_def cascade_user_def Let_def
    using p by (auto simp: ids_ok_filter distinct_map_filter intro!: u f)
  moreover have "outbox_ok ?c"
    unfolding outbox_ok_def cascade_user_def Let_def using p by auto
  ultimately show ?thesis by (simp add: db_ok_def)
qed

lemma fold_execE_ok:
  "(\<And>x. keeps I (m x)) \<Longrightarrow> I s \<Longrightarrow> I (fold (\<lambda>x. execE (m x)) xs s)"
  by (induction xs arbitrary: s) (auto intro: keeps_execE)

lemma keeps_DeleteUser [keeps_intros]: "keeps store_ok (DeleteUser i)"
proof -
  have "keeps store_ok (remove_blobs ps)" for ps
    by (rule keepsI) (auto simp: remove_blobs_def intro!: fold_execE_ok keeps_blobs)
  moreover have "keeps store_ok (payloadPaths i)"
  proof (rule keepsI)
    fix s assume s: "store_ok s"
    have "store_ok (snd (bindE (getAll q) (\<lambda>as. bindE (getAll q') (\<lambda>rs. okE (as @ rs))) s))"
      for q q' :: "db \<Rightarrow> string list"
      by (rule keepsD [where s = s and I = store_ok]) (intro keeps_intros, rule s)
    then show "store_ok (snd (payloadPaths i s))" using s by (simp add: payloadPaths_def)
  qed
  ultimately show ?thesis unfolding DeleteUser_def
    by (intro keeps_bindE keeps_if keeps_failE keeps_user_reads keeps_exec_count cascade_ok)
qed

section \<open>Evaluation\<close>

lemma UserByID_Inr:
  "UserByID i s = (Inr u, s') \<Longrightarrow>
   s' = pop_fault s \<and> (\<exists>r. user_row (st_db s) i = Some r \<and> u = user_view (st_db s) r)"
  by (auto simp: UserByID_def get_row_Inr_iff user_row_def map_eq_Cons_conv dest!: filter_Cons_find)

lemma get_row_db [simp]: "st_db (snd (get_row q s)) = st_db s"
  by (auto simp: get_row_def sql_def split: list.splits)

lemma UserByID_db [simp]: "st_db (snd (UserByID i s)) = st_db s"
  by (simp add: UserByID_def)

lemma AliasByAddress_db [simp]: "st_db (snd (AliasByAddress a s)) = st_db s"
  by (simp add: AliasByAddress_def)

lemma existing_alias_db [simp]: "st_db (snd (existing_alias a s)) = st_db s"
proof -
  have "snd (existing_alias a s) = snd (AliasByAddress a s)"
    by (simp add: existing_alias_def split: prod.split sum.split)
  then show ?thesis by simp
qed

lemma user_row_view [simp]: "us_id (user_view d u) = us_id u"
  by (simp add: user_view_def)

lemma UserByID_eval:
  "st_faults s = [] \<Longrightarrow> UserByID i s = (case user_row (st_db s) i of
     None \<Rightarrow> (Inl ErrNotFound, s) | Some u \<Rightarrow> (Inr (user_view (st_db s) u), s))"
  using case_filter_find [of "Inl ErrNotFound" "\<lambda>x. Inr (x, st_db s)" "\<lambda>u. us_id u = i" "tb_users (st_db s)"]
  by (cases "filter (\<lambda>u. us_id u = i) (tb_users (st_db s))")
     (auto simp: UserByID_def user_row_def get_row_def sql_no_fault find_None_iff filter_empty_conv
       split: option.splits dest!: filter_Cons_find dest: find_SomeD)

section \<open>Provisioning\<close>

definition aliases_are :: "mail_alias list \<Rightarrow> store \<Rightarrow> bool" where
  "aliases_are A s \<longleftrightarrow> tb_aliases (st_db s) = A"

lemma keeps_aliases_sql:
  "(\<And>d x d'. f d = Inr (x, d') \<Longrightarrow> tb_aliases d' = tb_aliases d) \<Longrightarrow> keeps (aliases_are A) (sql f)"
  by (auto simp: keeps_def aliases_are_def sql_def split: sum.splits)

lemma keeps_aliases_folder: "keeps (aliases_are A) (insertFolderTx u p n t)"
proof -
  have "keeps (aliases_are A) (sql (bump_seq e v))" "keeps (aliases_are A) (sql (insert_folder f))" for e v f
    by (rule keeps_aliases_sql, auto simp: bump_seq_def insert_folder_def Let_def split: if_splits option.splits)+
  moreover have "keeps (aliases_are A) NewUUID"
    by (simp add: keeps_def NewUUID_def aliases_are_def)
  ultimately show ?thesis unfolding insertFolderTx_def Let_def
    by (intro keeps_bindE keeps_if keeps_okE keeps_now keeps_wrapDuplicate)
qed

lemma insertFolderTx_aliases: "insertFolderTx u p n t s = (r, s') \<Longrightarrow> tb_aliases (st_db s') = tb_aliases (st_db s)"
  using keepsD_eq [OF keeps_aliases_folder, of "tb_aliases (st_db s)" s u p n t r s']
  by (simp add: aliases_are_def)

lemma insertFolders_Inr:
  assumes "insertFolders i fs s = (Inr (), s')" "user_row (st_db s) i = Some u"
  shows "\<exists>gs. tb_folders (st_db s') = tb_folders (st_db s) @ gs \<and>
    map (\<lambda>f. (fo_name f, fo_type f)) gs = fs \<and>
    (\<forall>f\<in>set gs. fo_user f = i \<and> fo_parent f = 0 \<and> \<not> fo_deleted f \<and> fo_class f = ClassForType (fo_type f)) \<and>
    map fo_seq gs = [us_folder_seq u + 1 .. us_folder_seq u + int (length fs)] \<and>
    user_row (st_db s') i = Some (u\<lparr>us_folder_seq := us_folder_seq u + int (length fs)\<rparr>) \<and>
    (\<forall>w. w \<noteq> i \<longrightarrow> user_row (st_db s') w = user_row (st_db s) w) \<and>
    tb_aliases (st_db s') = tb_aliases (st_db s)"
  using assms
proof (induction i fs arbitrary: s u rule: insertFolders.induct)
  case (1 i)
  then show ?case by simp
next
  case (2 i name ty fs)
  obtain f t where f: "insertFolderTx i 0 name ty s = (Inr f, t)" and r: "insertFolders i fs t = (Inr (), s')"
    using 2(2) by (auto simp: bindE_Inr_iff)
  obtain v where v: "user_row (st_db s) i = Some v" "fo_user f = i" "fo_parent f = 0" "fo_name f = name"
    "fo_type f = ty" "fo_class f = ClassForType ty" "fo_seq f = us_folder_seq v + 1" "\<not> fo_deleted f"
    "tb_folders (st_db t) = tb_folders (st_db s) @ [f]"
    "\<And>w. user_row (st_db t) w = (if w = i then Some (v\<lparr>us_folder_seq := us_folder_seq v + 1\<rparr>) else user_row (st_db s) w)"
    using f by (rule insertFolderTx_Inr) blast
  have [simp]: "v = u" using v(1) 2(3) by simp
  let ?u = "u\<lparr>us_folder_seq := us_folder_seq u + 1\<rparr>"
  have "user_row (st_db t) i = Some ?u" using v by simp
  note IH = 2(1) [OF r this]
  obtain gs where gs: "tb_folders (st_db s') = tb_folders (st_db t) @ gs"
    "map (\<lambda>f. (fo_name f, fo_type f)) gs = fs"
    "\<forall>f\<in>set gs. fo_user f = i \<and> fo_parent f = 0 \<and> \<not> fo_deleted f \<and> fo_class f = ClassForType (fo_type f)"
    "map fo_seq gs = [us_folder_seq ?u + 1 .. us_folder_seq ?u + int (length fs)]"
    "user_row (st_db s') i = Some (?u\<lparr>us_folder_seq := us_folder_seq ?u + int (length fs)\<rparr>)"
    "\<forall>w. w \<noteq> i \<longrightarrow> user_row (st_db s') w = user_row (st_db t) w"
    "tb_aliases (st_db s') = tb_aliases (st_db t)"
    using IH by blast
  have "[us_folder_seq u + 1 .. us_folder_seq u + int (length ((name, ty) # fs))] =
      (us_folder_seq u + 1) # [us_folder_seq u + 2 .. us_folder_seq u + 1 + int (length fs)]"
    by (subst upto_rec1) (simp_all add: ac_simps)
  then show ?case
    using gs v insertFolderTx_aliases [OF f]
    by (intro exI [of _ "f # gs"]) (auto simp: ac_simps)
qed

section \<open>Properties\<close>

definition provisioned :: "db \<Rightarrow> db \<Rightarrow> user \<Rightarrow> string \<Rightarrow> bool" where
  "provisioned d d' u addr \<longleftrightarrow>
    user_row d (us_id u) = None \<and> (\<forall>v\<in>set (tb_users d). us_name v \<noteq> us_name u) \<and>
    user_row d' (us_id u) = Some (u\<lparr>us_folder_seq := 8\<rparr>) \<and>
    (\<forall>w. w \<noteq> us_id u \<longrightarrow> user_row d' w = user_row d w) \<and>
    (\<exists>fs. tb_folders d' = tb_folders d @ fs \<and> map (\<lambda>f. (fo_name f, fo_type f)) fs = defaultFolders \<and>
      map fo_seq fs = [1..8] \<and>
      (\<forall>f\<in>set fs. fo_user f = us_id u \<and> fo_parent f = 0 \<and> \<not> fo_deleted f \<and>
         fo_class f = ClassForType (fo_type f))) \<and>
    tb_aliases d' = tb_aliases d @ (if addr = [] then [] else
      [\<lparr>al_address = addr, al_user = us_id u, al_primary = True, al_created = us_created u\<rparr>])"

lemma provision_Inr:
  assumes "provision u addr s = (Inr (), s')" "us_folder_seq u = 0"
  shows "provisioned (st_db s) (st_db s') u addr"
proof -
  obtain t t2 where i: "sql (insert_user u) s = (Inr (), t)"
    and f: "insertFolders (us_id u) defaultFolders t = (Inr (), t2)"
    and r: "(if addr \<noteq> [] then wrapDuplicate (sql (insert_alias \<lparr>al_address = addr, al_user = us_id u,
         al_primary = True, al_created = us_created u\<rparr>)) else okE ()) t2 = (Inr (), s')"
    using assms(1) unfolding provision_def bindE_Inr_iff by auto
  have t: "us_id u \<notin> us_id ` set (tb_users (st_db s))" "us_name u \<notin> us_name ` set (tb_users (st_db s))"
    "st_db t = (st_db s)\<lparr>tb_users := tb_users (st_db s) @ [u]\<rparr>"
    using i by (auto simp: sql_Inr_iff insert_user_def user_ids_def split: if_splits)
  have none: "user_row (st_db s) (us_id u) = None"
    using t(1) by (cases "user_row (st_db s) (us_id u)") (auto dest!: user_rowD simp: image_iff)
  have row: "user_row (st_db t) w = (if w = us_id u then Some u else user_row (st_db s) w)" for w
    using none t(3) by (cases "w = us_id u") (auto simp: user_row_def find_append split: option.split)
  have al: "tb_users (st_db s') = tb_users (st_db t2)" "tb_folders (st_db s') = tb_folders (st_db t2)"
    "tb_aliases (st_db s') = tb_aliases (st_db t2) @ (if addr = [] then [] else
      [\<lparr>al_address = addr, al_user = us_id u, al_primary = True, al_created = us_created u\<rparr>])"
    using r by (auto simp: sql_Inr_iff insert_alias_def split: if_splits)
  have "user_row (st_db t) (us_id u) = Some u" using row by simp
  note F = insertFolders_Inr [OF f this]
  have len: "int (length defaultFolders) = 8" by (simp add: defaultFolders_def)
  have ur: "user_row (st_db s') w = user_row (st_db t2) w" for w by (simp add: user_row_def al)
  show ?thesis
    using F none row t(2) assms(2) len unfolding provisioned_def al ur
    by (auto simp: t(3) image_iff)
qed

text \<open>The account \<open>CreateUser\<close> is about to insert.\<close>

definition new_account :: "string \<Rightarrow> string \<Rightarrow> string \<Rightarrow> store \<Rightarrow> user" where
  "new_account name displayName hash s = \<lparr>us_id = st_ids s (st_drawn s), us_name = normalizeName name, us_address = [],
     us_display = (if displayName = [] then normalizeName name else displayName), us_hash = hash, us_folder_seq = 0,
     us_created = nowUnix s\<rparr>"

lemma CreateUser_cases:
  "(\<exists>e. CreateUser name address displayName hash s = (Inl e, s)) \<or>
   CreateUser name address displayName hash s =
     bindE (inTx (provision (new_account name displayName hash s) (normalizeEmail address)))
       (\<lambda>_. UserByID (st_ids s (st_drawn s))) (s\<lparr>st_drawn := Suc (st_drawn s)\<rparr>)"
proof (cases "validateName (normalizeName name)")
  case None
  then show ?thesis
    by (auto simp: CreateUser_def Let_def newID_def nowUnix_def bindE_def new_account_def)
next
  case (Some e)
  then show ?thesis by (simp add: CreateUser_def Let_def)
qed

text \<open>C35: creating an account is all or nothing. Either the tables are as before and there is an
  error, or the account is there under a login name that no account had, with exactly the
  eight default folders numbered 1 to 8 in the order of the list, with the address as its
  primary alias, and with no other account, folder or alias touched; then the result is that
  account, unless reading it back failed.\<close>

theorem CreateUser_atomic:
  assumes "CreateUser name address displayName hash s = (r, s')"
  shows "(st_db s' = st_db s \<and> (\<exists>e. r = Inl e)) \<or>
    (\<exists>u. us_id u = st_ids s (st_drawn s) \<and> us_name u = normalizeName name \<and> us_hash u = hash \<and>
       us_display u = (if displayName = [] then normalizeName name else displayName) \<and>
       provisioned (st_db s) (st_db s') u (normalizeEmail address) \<and>
       (r = Inr (user_view (st_db s') (u\<lparr>us_folder_seq := 8\<rparr>)) \<or> (\<exists>e. r = Inl e)))"
proof -
  let ?u = "new_account name displayName hash s" and ?a = "normalizeEmail address" and ?i = "st_ids s (st_drawn s)"
  let ?s = "s\<lparr>st_drawn := Suc (st_drawn s)\<rparr>"
  consider e where "CreateUser name address displayName hash s = (Inl e, s)"
    | "CreateUser name address displayName hash s = bindE (inTx (provision ?u ?a)) (\<lambda>_. UserByID ?i) ?s"
    using CreateUser_cases by blast
  then show ?thesis
  proof cases
    case 1
    then show ?thesis using assms by auto
  next
    case 2
    show ?thesis
    proof (cases "inTx (provision ?u ?a) ?s")
      case (Pair q t)
      show ?thesis
      proof (cases q)
        case (Inl e)
        then show ?thesis using 2 assms Pair inTx_rollback by fastforce
      next
        case (Inr x)
        then have c: "inTx (provision ?u ?a) ?s = (Inr (), t)" using Pair by simp
        obtain z where z: "provision ?u ?a (pop_fault ?s) = (Inr (), z)" "t = pop_fault z"
          using inTx_commit [OF c] by blast
        have p: "provisioned (st_db s) (st_db t) ?u ?a"
          using provision_Inr [OF z(1)] z(2) by (simp add: new_account_def)
        have b: "UserByID ?i t = (r, s')" using 2 assms c by simp
        then have d: "st_db s' = st_db t" using UserByID_db [of ?i t] by simp
        have "r = Inr (user_view (st_db s') (?u\<lparr>us_folder_seq := 8\<rparr>)) \<or> (\<exists>e. r = Inl e)"
          using b d p by (cases r) (auto simp: provisioned_def new_account_def dest!: UserByID_Inr)
        then show ?thesis using p d by (intro disjI2 exI [of _ ?u]) (simp add: new_account_def)
      qed
    qed
  qed
qed

definition fresh_store :: store where
  "fresh_store = \<lparr>st_db = empty_db, st_blobs = None, st_now = 1000, st_faults = [],
     st_ids = (\<lambda>_. ''a1''), st_uuids = (\<lambda>_. ''u1''), st_drawn = 0, st_sum = (\<lambda>_. ''00'')\<rparr>"

lemma fresh_simps:
  "st_db fresh_store = empty_db" "st_faults fresh_store = []" "st_ids fresh_store n = ''a1''"
  by (simp_all add: fresh_store_def)

theorem CreateUser_atomic_witness:
  "\<exists>v s'. CreateUser '' Anna '' ''Anna@X'' [] [] fresh_store = (Inr v, s') \<and>
     us_name v = ''anna'' \<and> length (tb_folders (st_db s')) = 8"
proof -
  have n: "normalizeName '' Anna '' = ''anna''" "normalizeEmail ''Anna@X'' = ''anna@x''"
    "validateName ''anna'' = None" "address_chars_ok ''anna@x''"
    by (simp_all add: normalizeName_def normalizeEmail_def trim_space_def trim_left_def trim_right_def
        is_space_def to_lower_def lower_char_def validateName_def address_chars_ok_def contains_any_def
        contains_byte_def blanks_def char_of_def bit_Suc_0_iff)
  obtain v s' where c: "CreateUser '' Anna '' ''Anna@X'' [] [] fresh_store = (Inr v, s')"
    "us_name v = ''anna''"
    by (simp add: CreateUser_def Let_def n inTx_def provision_def insert_user_def insert_alias_def
        insertFolderTx_def bindE_def sql_no_fault bump_seq_def insert_folder_def fresh_store_def empty_db_def
        FolderTypeCalendar_def folder_key_def user_ids_def nowUnix_def wrapDuplicate_def defaultFolders_def
        newID_def NewUUID_def UserByID_def get_row_def user_view_def primary_address_def primary_rows_def)
  then obtain u where "provisioned empty_db (st_db s') u (normalizeEmail ''Anna@X'')"
    using CreateUser_atomic [OF c(1)] by (auto simp: fresh_simps)
  then obtain fs where fs: "tb_folders (st_db s') = fs"
    "map (\<lambda>f. (fo_name f, fo_type f)) fs = defaultFolders"
    by (auto simp: provisioned_def empty_db_def)
  have "length fs = length defaultFolders" using arg_cong [OF fs(2), of length] by simp
  then show ?thesis using c fs(1) by (auto simp: defaultFolders_def)
qed

end
