(* ===== verification/StoreSettings.thy ===== *)
theory StoreSettings imports StoreUsers begin

text \<open>
  \<open>internal/store/settings.go\<close>: the key/value table. The column \<open>key\<close> is the primary key,
  so the table is a map. A Go map has no order; the pairs of \<open>SetSettings\<close> come in the
  order in which the loop meets them.
\<close>

(* src: internal/store/settings.go 5-13 Store.Setting *)
definition Setting :: "string \<Rightarrow> (store, string) op" where
  "Setting key s =
    (case get_row (\<lambda>d. case tb_settings d key of None \<Rightarrow> [] | Some v \<Rightarrow> [v]) s of
       (Inl e, s') \<Rightarrow> if e = ErrNotFound then (Inr [], s') else (Inl e, s')
     | r \<Rightarrow> r)"

(* src: internal/store/settings.go 15-30 Store.Settings *)
definition Settings :: "(store, string \<rightharpoonup> string) op" where
  "Settings = getAll tb_settings"

definition put_setting :: "string \<Rightarrow> string \<Rightarrow> db \<Rightarrow> db" where
  "put_setting key v d = d\<lparr>tb_settings := (tb_settings d)(key \<mapsto> v)\<rparr>"

fun put_settings :: "(string \<times> string) list \<Rightarrow> (store, unit) op" where
  "put_settings [] = okE ()"
| "put_settings ((key, v) # kvs) = bindE (exec (put_setting key v)) (\<lambda>_. put_settings kvs)"

(* src: internal/store/settings.go 37-53 Store.SetSettings *)
definition SetSettings :: "(string \<times> string) list \<Rightarrow> (store, unit) op" where
  "SetSettings values = (if values = [] then okE () else inTx (put_settings values))"

(* src: internal/store/settings.go 32-35 Store.SetSetting *)
definition SetSetting :: "string \<Rightarrow> string \<Rightarrow> (store, unit) op" where
  "SetSetting key v = SetSettings [(key, v)]"

section \<open>The invariant\<close>

lemma keeps_put_setting [keeps_intros]: "keeps store_ok (exec (put_setting k v))"
  by (rule keeps_exec) (simp add: put_setting_def db_ok_def db_parts)

lemma keeps_SetSettings [keeps_intros]:
  "keeps store_ok (SetSettings kvs)" "keeps store_ok (SetSetting k v)" "keeps store_ok Settings"
proof -
  have "keeps store_ok (put_settings kvs)" for kvs
    by (induction kvs) (auto intro!: keeps_bindE keeps_put_setting keeps_okE simp del: okE_simp)
  then have S: "keeps store_ok (SetSettings kvs)" for kvs
    unfolding SetSettings_def by (intro keeps_if keeps_okE keeps_inTx)
  then show "keeps store_ok (SetSettings kvs)" "keeps store_ok (SetSetting k v)" "keeps store_ok Settings"
    by (simp_all add: SetSetting_def Settings_def keeps_getAll)
qed

lemma keeps_Setting [keeps_intros]: "keeps store_ok (Setting k)"
proof -
  have "snd (Setting k s) = snd (get_row (\<lambda>d. case tb_settings d k of None \<Rightarrow> [] | Some v \<Rightarrow> [v]) s)" for s
    by (simp add: Setting_def split: prod.split sum.split)
  then show ?thesis
    using keeps_get_row [of "\<lambda>d. case tb_settings d k of None \<Rightarrow> [] | Some v \<Rightarrow> [v]"]
    by (simp add: keeps_def)
qed

text \<open>Settings are written all or nothing, and a setting that was written is the one that
  is read, until the same key is written again; every other key keeps its value.\<close>

theorem SetSettings_get:
  assumes "SetSettings kvs s = (r, s')"
  shows "(\<exists>e. r = Inl e \<and> st_db s' = st_db s) \<or>
    (r = Inr () \<and> (\<forall>k t. st_db t = st_db s' \<longrightarrow> st_faults t = [] \<longrightarrow> Setting k t =
      (Inr (case map_of (rev kvs) k of Some v \<Rightarrow> v
         | None \<Rightarrow> (case tb_settings (st_db s) k of Some v \<Rightarrow> v | None \<Rightarrow> [])), t)))"
proof -
  have put: "tb_settings (st_db t) = tb_settings (st_db s) ++ map_of (rev kvs)"
    if "put_settings kvs s = (Inr (), t)" for s t
    using that
  proof (induction kvs arbitrary: s rule: put_settings.induct)
    case (2 key v kvs)
    then obtain u where "put_settings kvs u = (Inr (), t)"
      "tb_settings (st_db u) = (tb_settings (st_db s))(key \<mapsto> v)"
      by (auto simp: bindE_Inr_iff exec_Inr_iff put_setting_def)
    with 2(1) show ?case by (simp add: map_add_def fun_eq_iff split: option.split)
  qed simp
  have get: "Setting k t = (Inr (case tb_settings (st_db t) k of Some v \<Rightarrow> v | None \<Rightarrow> []), t)"
    if "st_faults t = []" for k t
    using that by (simp add: Setting_def get_row_def sql_no_fault split: option.split)
  have "(\<exists>e. r = Inl e \<and> st_db s' = st_db s) \<or>
      (r = Inr () \<and> tb_settings (st_db s') = tb_settings (st_db s) ++ map_of (rev kvs))"
  proof (cases "kvs = []")
    case True
    then show ?thesis using assms by (simp add: SetSettings_def)
  next
    case False
    then have i: "inTx (put_settings kvs) s = (r, s')" using assms by (simp add: SetSettings_def)
    show ?thesis
    proof (cases r)
      case (Inl e)
      then show ?thesis using i inTx_rollback by blast
    next
      case (Inr x)
      then obtain t where "put_settings kvs (pop_fault s) = (Inr (), t)" "s' = pop_fault t"
        using inTx_commit [of "put_settings kvs" s x s'] i by auto
      then show ?thesis using put Inr by auto
    qed
  qed
  then show ?thesis using get by (auto simp: map_add_def split: option.splits)
qed

theorem SetSettings_get_witness:
  "\<exists>s'. SetSettings [(''a'', ''1''), (''b'', ''2''), (''a'', ''3'')] demo_store = (Inr (), s') \<and>
     Setting ''a'' s' = (Inr ''3'', s') \<and> Setting ''c'' s' = (Inr [], s')"
proof -
  obtain s' where c: "SetSettings [(''a'', ''1''), (''b'', ''2''), (''a'', ''3'')] demo_store = (Inr (), s')"
    "st_faults s' = []"
    by (simp add: SetSettings_def inTx_def bindE_def exec_def sql_no_fault)
  have "tb_settings (st_db demo_store) ''c'' = None" by (simp add: demo_db_def empty_db_def)
  then show ?thesis using SetSettings_get [OF c(1)] c by auto
qed

end
