(* ===== verification/Wbxml.thy ===== *)
theory Wbxml imports GoLib begin

unbundle bit_operations_syntax

text \<open>
  Package \<open>internal/wbxml\<close>: the WBXML tree, the encoder and the decoder. The wire is a
  list of bytes (\<open>8 word\<close>); element texts are byte strings. The decoder keeps the
  code's position and page in \<open>dstate\<close>; reading a byte or a slice out of range, which
  panics in Go, is the error \<open>Panic\<close>. The recursion of \<open>element\<close> is on fuel;
  \<open>decode_total\<close> (theory \<open>WbxmlProps\<close>) shows the fuel given by \<open>Decode\<close> is enough.
\<close>

section \<open>The tree\<close>

type_synonym byte = "8 word"

(* src: internal/wbxml/wbxml.go 13-30 Node *)
datatype node = Node (n_page: int) (n_name: string) (n_token: byte) (n_text: string)
  (n_children: "node list") (n_binary: bool) (n_force: bool)

(* src: internal/wbxml/wbxml.go 32-35 N *)
definition wbN :: "int \<Rightarrow> string \<Rightarrow> node list \<Rightarrow> node" where
  "wbN page name children = Node page name 0 [] children False False"

(* src: internal/wbxml/wbxml.go 37-40 T *)
definition wbT :: "int \<Rightarrow> string \<Rightarrow> string \<Rightarrow> node" where
  "wbT page name text = Node page name 0 text [] False False"

(* src: internal/wbxml/wbxml.go 42-45 B *)
definition wbB :: "int \<Rightarrow> string \<Rightarrow> string \<Rightarrow> node" where
  "wbB page name data = Node page name 0 data [] True False"

text \<open>A \<open>*Node\<close> receiver may be nil: it is a \<open>node option\<close>.\<close>

(* src: internal/wbxml/wbxml.go 47-58 Node.Child *)
definition Child :: "node option \<Rightarrow> string \<Rightarrow> node option" where
  "Child n name = (case n of None \<Rightarrow> None
     | Some n' \<Rightarrow> find (\<lambda>c. n_name c = name) (n_children n'))"

(* src: internal/wbxml/wbxml.go 60-72 Node.ChildrenNamed *)
definition ChildrenNamed :: "node option \<Rightarrow> string \<Rightarrow> node list" where
  "ChildrenNamed n name = (case n of None \<Rightarrow> []
     | Some n' \<Rightarrow> filter (\<lambda>c. n_name c = name) (n_children n'))"

(* src: internal/wbxml/wbxml.go 74-80 Node.ChildText *)
definition ChildText :: "node option \<Rightarrow> string \<Rightarrow> string" where
  "ChildText n name = (case Child n name of None \<Rightarrow> [] | Some c \<Rightarrow> n_text c)"

(* src: internal/wbxml/wbxml.go 82-91 Node.Path *)
fun Path :: "node option \<Rightarrow> string list \<Rightarrow> node option" where
  "Path cur [] = cur"
| "Path cur (name # names) = (case Child cur name of None \<Rightarrow> None | Some c \<Rightarrow> Path (Some c) names)"

(* src: internal/wbxml/wbxml.go 93-97 Lookup *)
record lookup =
  lk_token :: "int \<Rightarrow> string \<Rightarrow> byte option"
  lk_name :: "int \<Rightarrow> byte \<Rightarrow> string option"

datatype wb_error =
    NilRoot
  | UnknownElement string int
  | TooShort
  | BadVersion byte
  | BadStringTable
  | EmptyDocument
  | MbOverflow
  | UnexpectedEOF
  | Panic
  | OutOfFuel

definition str_bytes :: "string \<Rightarrow> byte list" where
  "str_bytes s = map (\<lambda>c. word_of_nat (of_char c)) s"

definition bytes_str :: "byte list \<Rightarrow> string" where
  "bytes_str bs = map (\<lambda>b. char_of (unat b)) bs"

section \<open>Encoding\<close>

text \<open>The 7-bit groups of a value, most significant first (the array \<open>tmp\<close> from index \<open>i\<close>).\<close>

(* src: internal/wbxml/wbxml.go 389-398 writeMB *)
function mb_groups :: "32 word \<Rightarrow> byte list \<Rightarrow> byte list" where
  "mb_groups v acc =
     (let acc' = ucast (v AND 0x7F) # acc; v' = drop_bit 7 v
      in if v' = 0 then acc' else mb_groups v' acc')"
  by pat_completeness auto
termination
proof (relation "measure (\<lambda>(v, acc). unat v)")
  fix v :: "32 word" and acc acc' :: "byte list" and v'
  assume v': "v' = drop_bit 7 v" "v' \<noteq> 0"
  have "unat v' = unat v div 2 ^ 7"
    unfolding v'(1) unat_drop_bit_eq by (rule drop_bit_eq_div)
  moreover have "unat v' \<noteq> 0" using v'(2) by (simp add: unat_eq_0)
  ultimately have "unat v' < unat v" by (cases "unat v") auto
  then show "((v', acc'), v, acc) \<in> measure (\<lambda>(v, acc). unat v)" by simp
qed simp

declare mb_groups.simps [simp del]

(* src: internal/wbxml/wbxml.go 388-406 writeMB *)
definition writeMB :: "32 word \<Rightarrow> byte list" where
  "writeMB v = (let tmp = mb_groups v [] in map (\<lambda>b. b OR 0x80) (butlast tmp) @ [last tmp])"

(* src: internal/wbxml/wbxml.go 120-158 encoder.node *)
fun enc_node :: "lookup \<Rightarrow> int \<Rightarrow> node \<Rightarrow> wb_error + byte list \<times> int"
  and enc_children :: "lookup \<Rightarrow> int \<Rightarrow> node list \<Rightarrow> wb_error + byte list \<times> int" where
  "enc_node lk pg (Node p nm tk tx cs bin fc) =
    (let pre = (if p \<noteq> pg then 0x00 # writeMB (word_of_int p) else []) in
     case lk_token lk p nm of
       None \<Rightarrow> Inl (UnknownElement nm p)
     | Some tok \<Rightarrow>
        let hasContent = (cs \<noteq> [] \<or> tx \<noteq> [] \<or> fc) in
        if \<not> hasContent then Inr (pre @ [tok], p)
        else if cs \<noteq> [] then
          (case enc_children lk p cs of
             Inl e \<Rightarrow> Inl e
           | Inr (bs, pg') \<Rightarrow> Inr (pre @ (tok OR 0x40) # bs @ [0x01], pg'))
        else if bin then
          Inr (pre @ (tok OR 0x40) # 0xC3 # writeMB (word_of_nat (length tx)) @ str_bytes tx @ [0x01], p)
        else
          Inr (pre @ (tok OR 0x40) # 0x03 # str_bytes (replace_byte (CHR 0x00) [] tx) @ [0x00, 0x01], p))"
| "enc_children lk pg [] = Inr ([], pg)"
| "enc_children lk pg (c # cs) =
    (case enc_node lk pg c of
       Inl e \<Rightarrow> Inl e
     | Inr (b, pg1) \<Rightarrow>
        (case enc_children lk pg1 cs of
           Inl e \<Rightarrow> Inl e
         | Inr (bs, pg2) \<Rightarrow> Inr (b @ bs, pg2)))"

(* src: internal/wbxml/wbxml.go 99-118 Encode *)
definition Encode :: "node option \<Rightarrow> lookup \<Rightarrow> wb_error + byte list" where
  "Encode root lk = (case root of
     None \<Rightarrow> Inl NilRoot
   | Some n \<Rightarrow> (case enc_node lk 0 n of
       Inl e \<Rightarrow> Inl e
     | Inr (body, _) \<Rightarrow> Inr ([0x03, 0x01, 0x6A, 0x00] @ body)))"

section \<open>Decoding\<close>

(* src: internal/wbxml/wbxml.go 215-221 decoder *)
record dstate =
  d_data :: "byte list"
  d_pos :: nat
  d_page :: int
  d_table :: "byte list"

abbreviation adv :: "dstate \<Rightarrow> nat \<Rightarrow> dstate" where
  "adv d k \<equiv> d\<lparr>d_pos := d_pos d + k\<rparr>"

definition at_end :: "dstate \<Rightarrow> bool" where
  "at_end d \<longleftrightarrow> d_pos d \<ge> length (d_data d)"

text \<open>\<open>d.data[d.pos]\<close> and \<open>d.data[d.pos : d.pos+l]\<close>, which panic out of range.\<close>

definition rd :: "dstate \<Rightarrow> wb_error + byte" where
  "rd d = (if d_pos d < length (d_data d) then Inr (d_data d ! d_pos d) else Inl Panic)"

definition rd_slice :: "dstate \<Rightarrow> nat \<Rightarrow> wb_error + byte list" where
  "rd_slice d l = (if d_pos d + l \<le> length (d_data d) then Inr (take l (drop (d_pos d) (d_data d)))
                   else Inl Panic)"

(* src: internal/wbxml/wbxml.go 348-362 decoder.mb *)
fun mb_loop :: "nat \<Rightarrow> 32 word \<Rightarrow> dstate \<Rightarrow> wb_error + 32 word \<times> dstate" where
  "mb_loop 0 v d = Inl MbOverflow"
| "mb_loop (Suc i) v d =
    (if at_end d then Inl UnexpectedEOF
     else case rd d of Inl e \<Rightarrow> Inl e | Inr b \<Rightarrow>
       let v' = push_bit 7 v OR ucast (b AND 0x7F) in
       if b AND 0x80 = 0 then Inr (v', adv d 1) else mb_loop i v' (adv d 1))"

(* src: internal/wbxml/wbxml.go 348-362 decoder.mb *)
definition mb :: "dstate \<Rightarrow> wb_error + 32 word \<times> dstate" where
  "mb d = mb_loop 5 0 d"

(* src: internal/wbxml/wbxml.go 364-375 decoder.inlineString *)
definition inlineString :: "dstate \<Rightarrow> wb_error + string \<times> dstate" where
  "inlineString d =
    (let rest = drop (d_pos d) (d_data d); s = takeWhile (\<lambda>b. b \<noteq> 0x00) rest in
     if at_end (adv d (length s)) then Inl UnexpectedEOF
     else Inr (bytes_str s, adv d (length s + 1)))"

(* src: internal/wbxml/wbxml.go 377-386 decoder.strAt *)
definition strAt :: "dstate \<Rightarrow> 32 word \<Rightarrow> string" where
  "strAt d off = (if unat off \<ge> length (d_table d) then []
     else bytes_str (takeWhile (\<lambda>b. b \<noteq> 0x00) (drop (unat off) (d_table d))))"

(* src: internal/wbxml/wbxml.go 314-346 decoder.skipAttrs *)
fun skipAttrs :: "nat \<Rightarrow> dstate \<Rightarrow> wb_error + dstate" where
  "skipAttrs 0 d = Inl OutOfFuel"
| "skipAttrs (Suc k) d =
    (if at_end d then Inl UnexpectedEOF
     else case rd d of Inl e \<Rightarrow> Inl e | Inr b \<Rightarrow>
       let d1 = adv d 1 in
       if b = 0x01 then Inr d1
       else if at_end d1 then Inl UnexpectedEOF
       else case rd d1 of Inl e \<Rightarrow> Inl e | Inr v \<Rightarrow>
         if v = 0x03 then
           (case inlineString (adv d1 1) of Inl e \<Rightarrow> Inl e | Inr (_, d2) \<Rightarrow> skipAttrs k d2)
         else if v = 0xC3 then
           (case mb (adv d1 1) of Inl e \<Rightarrow> Inl e | Inr (l, d2) \<Rightarrow> skipAttrs k (adv d2 (unat l)))
         else
           (case mb d1 of Inl e \<Rightarrow> Inl e | Inr (_, d2) \<Rightarrow> skipAttrs k d2))"

(* src: internal/wbxml/wbxml.go 309-312 decoder.known *)
definition known_tok :: "lookup \<Rightarrow> dstate \<Rightarrow> byte \<Rightarrow> bool" where
  "known_tok lk d tok \<longleftrightarrow> lk_name lk (d_page d) tok \<noteq> None"

text \<open>\<open>fmt.Sprintf("x%02X", tok)\<close>\<close>

definition hex_digit :: "nat \<Rightarrow> char" where
  "hex_digit n = char_of (if n < 10 then 48 + n else 55 + n)"

definition synthetic_name :: "byte \<Rightarrow> string" where
  "synthetic_name tok = [CHR ''x'', hex_digit (unat tok div 16), hex_digit (unat tok mod 16)]"

fun add_text :: "node \<Rightarrow> string \<Rightarrow> node" where
  "add_text (Node p nm tk tx cs bin fc) s = Node p nm tk (tx @ s) cs bin fc"

fun set_binary :: "node \<Rightarrow> node" where
  "set_binary (Node p nm tk tx cs bin fc) = Node p nm tk tx cs True fc"

fun add_child :: "node \<Rightarrow> node \<Rightarrow> node" where
  "add_child (Node p nm tk tx cs bin fc) c = Node p nm tk tx (cs @ [c]) bin fc"

(* src: internal/wbxml/wbxml.go 223-307 decoder.element *)
fun element :: "nat \<Rightarrow> lookup \<Rightarrow> dstate \<Rightarrow> wb_error + node \<times> dstate"
  and content_loop :: "nat \<Rightarrow> lookup \<Rightarrow> node \<Rightarrow> dstate \<Rightarrow> wb_error + node \<times> dstate" where
  "element 0 lk d = Inl OutOfFuel"
| "element (Suc k) lk d =
    (if at_end d then Inl UnexpectedEOF
     else case rd d of Inl e \<Rightarrow> Inl e | Inr b \<Rightarrow>
      let d1 = adv d 1;
          hasAttrs = (b AND 0x80 \<noteq> 0);
          hasContent = (b AND 0x40 \<noteq> 0);
          tok = b AND 0x3F;
          name0 = (case lk_name lk (d_page d) tok of None \<Rightarrow> [] | Some s \<Rightarrow> s);
          name = (if name0 = [] then synthetic_name tok else name0);
          n = Node (d_page d) name tok [] [] False False
      in case (if hasAttrs then skipAttrs (Suc (length (d_data d))) d1 else Inr d1) of
           Inl e \<Rightarrow> Inl e
         | Inr d2 \<Rightarrow> if \<not> hasContent then Inr (n, d2) else content_loop k lk n d2)"
| "content_loop 0 lk n d = Inl OutOfFuel"
| "content_loop (Suc k) lk n d =
    (if at_end d then Inl UnexpectedEOF
     else case rd d of Inl e \<Rightarrow> Inl e | Inr b \<Rightarrow>
      if b = 0x01 then Inr (n, adv d 1)
      else if b = 0x00 then
        (case mb (adv d 1) of Inl e \<Rightarrow> Inl e
         | Inr (p, d1) \<Rightarrow> content_loop k lk n (d1\<lparr>d_page := uint p\<rparr>))
      else if b = 0x03 then
        (case inlineString (adv d 1) of Inl e \<Rightarrow> Inl e
         | Inr (s, d1) \<Rightarrow> content_loop k lk (add_text n s) d1)
      else if b = 0xC3 then
        (case mb (adv d 1) of Inl e \<Rightarrow> Inl e
         | Inr (l, d1) \<Rightarrow>
            if int (unat l) > int (length (d_data d1)) - int (d_pos d1) then Inl UnexpectedEOF
            else (case rd_slice d1 (unat l) of Inl e \<Rightarrow> Inl e
              | Inr bs \<Rightarrow> content_loop k lk (set_binary (add_text n (bytes_str bs))) (adv d1 (unat l))))
      else if b AND 0x40 = 0 \<and> b AND 0x80 = 0 \<and> b < 0x05 then content_loop k lk n (adv d 1)
      else if b = 0x83 then
        (case mb (adv d 1) of Inl e \<Rightarrow> Inl e
         | Inr (off, d1) \<Rightarrow> content_loop k lk (add_text n (strAt d1 off)) d1)
      else if b < 0x40 \<and> \<not> known_tok lk d b then
        (case mb d of Inl e \<Rightarrow> Inl e
         | Inr (off, d1) \<Rightarrow> content_loop k lk (add_text n (strAt d1 off)) d1)
      else
        (case element k lk d of Inl e \<Rightarrow> Inl e
         | Inr (c, d1) \<Rightarrow> content_loop k lk (add_child n c) d1))"

(* src: internal/wbxml/wbxml.go 187-213 Decode *)
fun decode_loop :: "nat \<Rightarrow> lookup \<Rightarrow> node option \<Rightarrow> dstate \<Rightarrow> wb_error + node" where
  "decode_loop 0 lk root d = Inl OutOfFuel"
| "decode_loop (Suc k) lk root d =
    (if at_end d then (case root of None \<Rightarrow> Inl EmptyDocument | Some n \<Rightarrow> Inr n)
     else case rd d of Inl e \<Rightarrow> Inl e | Inr b \<Rightarrow>
      if b = 0x00 then
        (case mb (adv d 1) of Inl e \<Rightarrow> Inl e
         | Inr (p, d1) \<Rightarrow> decode_loop k lk root (d1\<lparr>d_page := uint p\<rparr>))
      else if b = 0x01 then decode_loop k lk root (adv d 1)
      else
        (case element (2 * length (d_data d) + 2) lk d of Inl e \<Rightarrow> Inl e
         | Inr (n, d1) \<Rightarrow> decode_loop k lk (if root = None then Some n else root) d1))"

(* src: internal/wbxml/wbxml.go 160-213 Decode *)
definition Decode :: "byte list \<Rightarrow> lookup \<Rightarrow> wb_error + node" where
  "Decode data lk =
    (if length data < 4 then Inl TooShort
     else if data ! 0 \<noteq> 0x03 \<and> data ! 0 \<noteq> 0x02 then Inl (BadVersion (data ! 0))
     else
      let d = \<lparr>d_data = data, d_pos = 1, d_page = 0, d_table = []\<rparr> in
      case mb d of Inl e \<Rightarrow> Inl e | Inr (_, d1) \<Rightarrow>
      (case mb d1 of Inl e \<Rightarrow> Inl e | Inr (_, d2) \<Rightarrow>
      (case mb d2 of Inl e \<Rightarrow> Inl e | Inr (stLen, d3) \<Rightarrow>
        if int (unat stLen) > int (length data) - int (d_pos d3) then Inl BadStringTable
        else (case rd_slice d3 (unat stLen) of Inl e \<Rightarrow> Inl e
          | Inr tbl \<Rightarrow> decode_loop (length data + 1) lk None
                        ((adv d3 (unat stLen))\<lparr>d_table := tbl\<rparr>)))))"

end
