(* ===== verification/WbxmlProps.thy ===== *)
theory WbxmlProps imports Wbxml begin

unbundle bit_operations_syntax

text \<open>
  Correctness of package \<open>internal/wbxml\<close>: the decoder is total and never reads out of
  range, and decoding what the encoder wrote gives the tree back (up to the fields the
  wire does not carry). The element table is an interface (\<open>wbxml_codec\<close>); theory
  \<open>EasTokens\<close> interprets it with the table of package \<open>eas\<close>.
\<close>

section \<open>The decoder is total\<close>

definition safe_err :: "wb_error \<Rightarrow> bool" where
  "safe_err e \<longleftrightarrow> e \<noteq> Panic \<and> e \<noteq> OutOfFuel"

definition left_over :: "dstate \<Rightarrow> nat" where
  "left_over d = length (d_data d) - d_pos d"

text \<open>A decoder step: a failure is not a panic, a success consumes at least one byte.\<close>

definition good_step :: "dstate \<Rightarrow> wb_error + 'a \<times> dstate \<Rightarrow> bool" where
  "good_step d r \<longleftrightarrow> (case r of Inl e \<Rightarrow> safe_err e
     | Inr (x, d') \<Rightarrow> d_data d' = d_data d \<and> d_pos d < d_pos d')"

lemma rd_ok [simp]: "\<not> at_end d \<Longrightarrow> rd d = Inr (d_data d ! d_pos d)"
  by (simp add: rd_def at_end_def)

lemma safe_err_simps [simp]:
  "safe_err UnexpectedEOF" "safe_err MbOverflow" "\<not> safe_err Panic" "\<not> safe_err OutOfFuel"
  "safe_err EmptyDocument" "safe_err TooShort" "safe_err (BadVersion b)" "safe_err BadStringTable"
  by (simp_all add: safe_err_def)

lemma good_mb_loop: "good_step d (mb_loop k v d)"
proof (induction k arbitrary: v d)
  case (Suc k)
  have "good_step d (mb_loop k v' (adv d 1))" for v'
    using Suc [of "adv d 1" v'] by (auto simp: good_step_def split: sum.splits)
  then show ?case by (auto simp: good_step_def Let_def)
qed (simp add: good_step_def)

lemma good_mb: "good_step d (mb d)"
  by (simp add: mb_def good_mb_loop)

lemma good_inlineString: "good_step d (inlineString d)"
  by (simp add: good_step_def inlineString_def Let_def)

lemma rd_slice_ok: "d_pos d + l \<le> length (d_data d) \<Longrightarrow> \<exists>bs. rd_slice d l = Inr bs"
  by (simp add: rd_slice_def)

lemma good_stepE:
  assumes "good_step d r"
  obtains e where "r = Inl e" "safe_err e"
  | x d' where "r = Inr (x, d')" "d_data d' = d_data d" "d_pos d < d_pos d'"
  using assms by (auto simp: good_step_def split: sum.splits)

lemma good_step_Inl: "good_step d r \<Longrightarrow> r = Inl e \<Longrightarrow> safe_err e"
  by (simp add: good_step_def)

lemma good_step_Inr: "good_step d r \<Longrightarrow> r = Inr (x, d') \<Longrightarrow> d_data d' = d_data d \<and> d_pos d < d_pos d'"
  by (simp add: good_step_def)

lemmas mb_Inl = good_step_Inl [OF good_mb]
lemmas mb_Inr = good_step_Inr [OF good_mb]
lemmas inline_Inl = good_step_Inl [OF good_inlineString]
lemmas inline_Inr = good_step_Inr [OF good_inlineString]

lemma left_over_less:
  "\<not> at_end d \<Longrightarrow> d_data d' = d_data d \<Longrightarrow> d_pos d < d_pos d' \<Longrightarrow> left_over d' < left_over d"
  by (simp add: left_over_def at_end_def)

definition good_skip :: "dstate \<Rightarrow> wb_error + dstate \<Rightarrow> bool" where
  "good_skip d r \<longleftrightarrow> (case r of Inl e \<Rightarrow> safe_err e
     | Inr d' \<Rightarrow> d_data d' = d_data d \<and> d_pos d < d_pos d')"

lemma good_skip_weaken:
  "good_skip d' r \<Longrightarrow> d_data d' = d_data d \<Longrightarrow> d_pos d \<le> d_pos d' \<Longrightarrow> good_skip d r"
  by (auto simp: good_skip_def split: sum.splits)

lemma good_skipAttrs: "left_over d < k \<Longrightarrow> good_skip d (skipAttrs k d)"
proof (induction k arbitrary: d)
  case (Suc k)
  show ?case
  proof (cases "at_end d \<or> d_data d ! d_pos d = 0x01 \<or> at_end (adv d 1)")
    case True
    then show ?thesis by (auto simp: good_skip_def Let_def)
  next
    case False
    have step: "good_skip d (skipAttrs k d')"
      if "d_data d' = d_data d" "d_pos d + 1 < d_pos d'" for d'
    proof (rule good_skip_weaken [of d'])
      have "left_over d' < left_over d" using False that by (auto simp: left_over_def at_end_def)
      then show "good_skip d' (skipAttrs k d')" using Suc by simp
    qed (use that in auto)
    have bad: "good_skip d (Inl e)" if "safe_err e" for e using that by (simp add: good_skip_def)
    let ?v = "d_data d ! Suc (d_pos d)"
    consider "?v = 0x03" | "?v = 0xC3" | "?v \<noteq> 0x03" "?v \<noteq> 0xC3" by blast
    then show ?thesis
    proof cases
      case 1
      show ?thesis
        by (rule good_stepE [OF good_inlineString, of "adv d 2"])
           (use False 1 in \<open>auto simp: Let_def intro!: step bad\<close>)
    next
      case 2
      show ?thesis
        by (rule good_stepE [OF good_mb, of "adv d 2"])
           (use False 2 in \<open>auto simp: Let_def intro!: step bad\<close>)
    next
      case 3
      show ?thesis
        by (rule good_stepE [OF good_mb, of "adv d 1"])
           (use False 3 in \<open>auto simp: Let_def intro!: step bad\<close>)
    qed
  qed
qed simp

lemma good_step_weaken:
  "good_step d' r \<Longrightarrow> d_data d' = d_data d \<Longrightarrow> d_pos d \<le> d_pos d' \<Longrightarrow> good_step d r"
  by (auto simp: good_step_def split: sum.splits)

lemma good_skipE:
  assumes "good_skip d r"
  obtains e where "r = Inl e" "safe_err e"
  | d' where "r = Inr d'" "d_data d' = d_data d" "d_pos d < d_pos d'"
  using assms by (auto simp: good_skip_def split: sum.splits)

lemma good_step_Inl_iff [simp]: "good_step d (Inl e) \<longleftrightarrow> safe_err e"
  by (simp add: good_step_def)

lemma good_step_Inr_iff [simp]:
  "good_step d (Inr (x, d')) \<longleftrightarrow> d_data d' = d_data d \<and> d_pos d < d_pos d'"
  by (simp add: good_step_def)

lemma rd_slice_fits:
  fixes l :: "32 word"
  assumes "\<not> int (unat l) > int (length (d_data d)) - int (d_pos d)"
  shows "rd_slice d (unat l) = Inr (take (unat l) (drop (d_pos d) (d_data d)))"
  using assms by (simp add: rd_slice_def del: of_nat_unat)

lemma good_element_and_loop:
  "2 * left_over d + 1 \<le> k \<Longrightarrow> good_step d (element k lk d)"
  "2 * left_over d + 2 \<le> k \<Longrightarrow> good_step d (content_loop k lk n d)"
proof (induction k arbitrary: d n)
  case (Suc k)
  {
    case 1
    show ?case
    proof (cases "at_end d")
      case False
      let ?b = "d_data d ! d_pos d"
      have loop: "good_step d (content_loop k lk n d')"
        if "d_data d' = d_data d" "d_pos d < d_pos d'" for n d'
      proof (rule good_step_weaken [of d'])
        have "left_over d' < left_over d" using False that by (auto simp: left_over_def at_end_def)
        then show "good_step d' (content_loop k lk n d')" using Suc.IH(2) 1 by simp
      qed (use that in auto)
      have sk: "good_skip (adv d 1) (skipAttrs (Suc (length (d_data d))) (adv d 1))"
        by (rule good_skipAttrs) (simp add: left_over_def)
      show ?thesis
        by (rule good_skipE [OF sk])
           (use False in \<open>auto simp: Let_def simp del: skipAttrs.simps intro!: loop\<close>)
    qed simp
  next
    case 2
    show ?case
    proof (cases "at_end d")
      case False
      let ?b = "d_data d ! d_pos d"
      have loop: "good_step d (content_loop k lk n d')"
        if "d_data d' = d_data d" "d_pos d < d_pos d'" for n d'
      proof (rule good_step_weaken [of d'])
        have "left_over d' < left_over d" using False that by (auto simp: left_over_def at_end_def)
        then show "good_step d' (content_loop k lk n d')" using Suc.IH(2) 2 by simp
      qed (use that in auto)
      have el: "good_step d (element k lk d)" using Suc.IH(1) 2 by simp
      have page: "good_step d (case mb (adv d 1) of Inl e \<Rightarrow> Inl e
          | Inr (p, d1) \<Rightarrow> content_loop k lk n (d1\<lparr>d_page := uint p\<rparr>))"
        by (rule good_stepE [OF good_mb, of "adv d 1"]) (auto intro!: loop)
      have str: "good_step d (case inlineString (adv d 1) of Inl e \<Rightarrow> Inl e
          | Inr (s, d1) \<Rightarrow> content_loop k lk (add_text n s) d1)"
        by (rule good_stepE [OF good_inlineString, of "adv d 1"]) (auto intro!: loop)
      have opq: "good_step d (case mb (adv d 1) of Inl e \<Rightarrow> Inl e
          | Inr (l, d1) \<Rightarrow>
            if int (unat l) > int (length (d_data d1)) - int (d_pos d1) then Inl UnexpectedEOF
            else (case rd_slice d1 (unat l) of Inl e \<Rightarrow> Inl e
              | Inr bs \<Rightarrow> content_loop k lk (set_binary (add_text n (bytes_str bs))) (adv d1 (unat l))))"
        by (rule good_stepE [OF good_mb, of "adv d 1"])
           (auto simp: rd_slice_fits simp del: of_nat_unat intro!: loop)
      have ref: "good_step d (case mb (adv d 1) of Inl e \<Rightarrow> Inl e
          | Inr (off, d1) \<Rightarrow> content_loop k lk (add_text n (strAt d1 off)) d1)"
        by (rule good_stepE [OF good_mb, of "adv d 1"]) (auto intro!: loop)
      have low: "good_step d (case mb d of Inl e \<Rightarrow> Inl e
          | Inr (off, d1) \<Rightarrow> content_loop k lk (add_text n (strAt d1 off)) d1)"
        by (rule good_stepE [OF good_mb, of d]) (auto intro!: loop)
      have child: "good_step d (case element k lk d of Inl e \<Rightarrow> Inl e
          | Inr (c, d1) \<Rightarrow> content_loop k lk (add_child n c) d1)"
        by (rule good_stepE [OF el]) (auto intro!: loop)
      have skip: "good_step d (content_loop k lk n (adv d 1))" by (rule loop) auto
      show ?thesis
        unfolding content_loop.simps(2) rd_ok [OF False] sum.case
        using False page str opq ref low child skip by (simp split del: if_split split: if_split)
    qed simp
  }
qed simp_all

lemma good_decode_loop:
  assumes "left_over d < k" shows "case decode_loop k lk root d of Inl e \<Rightarrow> safe_err e | Inr n \<Rightarrow> True"
  using assms
proof (induction k arbitrary: root d)
  case (Suc k)
  show ?case
  proof (cases "at_end d")
    case True
    then show ?thesis by (simp split: option.splits)
  next
    case False
    have loop: "case decode_loop k lk root d' of Inl e \<Rightarrow> safe_err e | Inr n \<Rightarrow> True"
      if "d_data d' = d_data d" "d_pos d < d_pos d'" for root d'
    proof -
      have "left_over d' < left_over d" using False that by (auto simp: left_over_def at_end_def)
      then show ?thesis using Suc by simp
    qed
    have el: "good_step d (element (2 * length (d_data d) + 2) lk d)"
      by (rule good_element_and_loop) (simp add: left_over_def)
    let ?b = "d_data d ! d_pos d"
    consider "?b = 0x00" | "?b = 0x01" | "?b \<noteq> 0x00" "?b \<noteq> 0x01" by blast
    then show ?thesis
    proof cases
      case 1
      then show ?thesis
        by (rule_tac good_stepE [OF good_mb, of "adv d 1"])
           (use False loop in \<open>auto\<close>)
    next
      case 2
      then show ?thesis using False loop by simp
    next
      case 3
      then show ?thesis
        by (rule_tac good_stepE [OF el]) (use False loop in \<open>auto simp del: element.simps\<close>)
    qed
  qed
qed simp

definition not_bad :: "wb_error + node \<Rightarrow> bool" where
  "not_bad r \<longleftrightarrow> (case r of Inl e \<Rightarrow> safe_err e | Inr n \<Rightarrow> True)"

lemma not_bad_if: "(b \<Longrightarrow> not_bad x) \<Longrightarrow> (\<not> b \<Longrightarrow> not_bad y) \<Longrightarrow> not_bad (if b then x else y)"
  by simp

lemma not_bad_mb:
  assumes "\<And>x d'. d_data d' = d_data d \<Longrightarrow> not_bad (f x d')"
  shows "not_bad (case mb d of Inl e \<Rightarrow> Inl e | Inr (x, d') \<Rightarrow> f x d')"
  by (rule good_stepE [OF good_mb, of d]) (use assms in \<open>auto simp: not_bad_def\<close>)

lemma not_bad_tail:
  assumes "d_data d3 = data"
  shows "not_bad (if int (unat stLen) > int (length data) - int (d_pos d3) then Inl BadStringTable
        else (case rd_slice d3 (unat (stLen :: 32 word)) of Inl e \<Rightarrow> Inl e
          | Inr tbl \<Rightarrow> decode_loop (length data + 1) lk None
                        ((adv d3 (unat stLen))\<lparr>d_table := tbl\<rparr>)))"
proof (cases "int (unat stLen) > int (length data) - int (d_pos d3)")
  case False
  with assms have fit: "rd_slice d3 (unat stLen) = Inr (take (unat stLen) (drop (d_pos d3) data))"
    using rd_slice_fits [of d3 stLen] by simp
  have "not_bad (decode_loop (length data + 1) lk None
      ((adv d3 (unat stLen))\<lparr>d_table := take (unat stLen) (drop (d_pos d3) data)\<rparr>))"
    unfolding not_bad_def by (rule good_decode_loop) (simp add: left_over_def assms)
  with False fit show ?thesis by (simp del: of_nat_unat decode_loop.simps)
qed (simp add: not_bad_def)

text \<open>C12: decoding is total on every input and every element table: \<open>Decode\<close> returns a tree or
  one of its own errors, never reads a byte or slices out of range (which would panic in
  Go) and never exhausts the fuel of the model, so its loops and its recursion end.\<close>

theorem decode_total: "Decode data lk \<noteq> Inl Panic \<and> Decode data lk \<noteq> Inl OutOfFuel"
proof -
  have "not_bad (Decode data lk)"
    unfolding Decode_def Let_def
    by (intro not_bad_if not_bad_mb not_bad_tail) (auto simp: not_bad_def)
  then show ?thesis by (auto simp: not_bad_def safe_err_def)
qed

section \<open>Bytes and multi-byte integers\<close>

lemma byte_exhaust:
  fixes t :: byte
  assumes "list_all P (map word_of_nat [0..<m])" "unat t < m" "m \<le> 256"
  shows "P t"
proof -
  have "\<forall>x<m. P (word_of_nat x)" using assms(1) by (simp add: list_all_iff)
  then have "P (word_of_nat (unat t))" using assms(2) by blast
  then show ?thesis by simp
qed

lemma token_bits:
  fixes t :: byte
  assumes "t < 64"
  shows "t AND 0x3F = t" "(t OR 0x40) AND 0x3F = t" "(t OR 0x40) AND 0x40 \<noteq> 0"
    "(t OR 0x40) AND 0x80 = 0" "t AND 0x40 = 0" "t AND 0x80 = 0" "\<not> t OR 0x40 < 0x40"
proof -
  let ?P = "\<lambda>t::byte. t AND 0x3F = t \<and> (t OR 0x40) AND 0x3F = t \<and> (t OR 0x40) AND 0x40 \<noteq> 0 \<and>
    (t OR 0x40) AND 0x80 = 0 \<and> t AND 0x40 = 0 \<and> t AND 0x80 = 0 \<and> \<not> t OR 0x40 < 0x40"
  have "list_all ?P (map word_of_nat [0..<64])" by code_simp
  then have "?P t" by (rule byte_exhaust) (use assms in \<open>simp_all add: word_less_nat_alt\<close>)
  then show "t AND 0x3F = t" "(t OR 0x40) AND 0x3F = t" "(t OR 0x40) AND 0x40 \<noteq> 0"
    "(t OR 0x40) AND 0x80 = 0" "t AND 0x40 = 0" "t AND 0x80 = 0" "\<not> t OR 0x40 < 0x40"
    by blast+
qed

lemma group_bits:
  fixes g :: byte
  assumes "g < 128"
  shows "g AND 0x7F = g" "g AND 0x80 = 0" "(g OR 0x80) AND 0x7F = g" "(g OR 0x80) AND 0x80 \<noteq> 0"
proof -
  let ?P = "\<lambda>g::byte. g AND 0x7F = g \<and> g AND 0x80 = 0 \<and> (g OR 0x80) AND 0x7F = g \<and>
    (g OR 0x80) AND 0x80 \<noteq> 0"
  have "list_all ?P (map word_of_nat [0..<128])" by code_simp
  then have "?P g" by (rule byte_exhaust) (use assms in \<open>simp_all add: word_less_nat_alt\<close>)
  then show "g AND 0x7F = g" "g AND 0x80 = 0" "(g OR 0x80) AND 0x7F = g" "(g OR 0x80) AND 0x80 \<noteq> 0"
    by blast+
qed

definition mb_step :: "32 word \<Rightarrow> byte \<Rightarrow> 32 word" where
  "mb_step v g = push_bit 7 v OR ucast g"

lemma mask7: "v AND 0x7F = take_bit 7 (v :: 32 word)"
proof -
  have "(0x7F :: 32 word) = mask 7" by (simp add: mask_eq_exp_minus_1)
  then show ?thesis by (simp only: take_bit_eq_mask)
qed

lemma low_group: "ucast (v AND 0x7F :: 32 word) < (128 :: byte)"
proof -
  have "unat (take_bit 7 v) < 128"
    unfolding unsigned_take_bit_eq by (simp add: take_bit_eq_mod)
  then show ?thesis
    by (simp add: word_less_nat_alt mask7 unsigned_ucast_eq take_bit_eq_mod)
qed

lemma mb_step_inv: "mb_step (drop_bit 7 v) (ucast (v AND 0x7F)) = v"
proof (rule bit_word_eqI)
  fix n assume "n < LENGTH(32)"
  then show "bit (mb_step (drop_bit 7 v) (ucast (v AND 0x7F))) n = bit v n"
    by (cases "n < 7") (auto simp: mb_step_def bit_simps mask7)
qed

lemma drop7_unat: "unat (drop_bit 7 v :: 32 word) = unat v div 128"
  by (simp only: unat_drop_bit_eq) (simp add: drop_bit_eq_div)

lemma mb_groups_spec:
  "unat v < 128 ^ Suc m \<Longrightarrow>
   \<exists>gs. mb_groups v acc = gs @ acc \<and> gs \<noteq> [] \<and> length gs \<le> Suc m \<and>
     (\<forall>g\<in>set gs. g < 128) \<and> foldl mb_step 0 gs = v"
proof (induction m arbitrary: v acc)
  case 0
  then have "drop_bit 7 v = 0" by (simp add: drop7_unat unat_eq_0 [symmetric])
  moreover from this have "mb_step 0 (ucast (v AND 0x7F)) = v" using mb_step_inv [of v] by simp
  ultimately show ?case
    by (subst mb_groups.simps) (simp add: low_group)
next
  case (Suc m)
  show ?case
  proof (cases "drop_bit 7 v = 0")
    case True
    moreover from this have "mb_step 0 (ucast (v AND 0x7F)) = v" using mb_step_inv [of v] by simp
    ultimately show ?thesis
      by (subst mb_groups.simps) (simp add: low_group)
  next
    case False
    have "unat (drop_bit 7 v) < 128 ^ Suc m"
      using Suc.prems by (simp add: drop7_unat)
    from Suc.IH [OF this, of "ucast (v AND 0x7F) # acc"] obtain gs where
      "mb_groups (drop_bit 7 v) (ucast (v AND 0x7F) # acc) = gs @ ucast (v AND 0x7F) # acc"
      "gs \<noteq> []" "length gs \<le> Suc m" "\<forall>g\<in>set gs. g < 128" "foldl mb_step 0 gs = drop_bit 7 v"
      by blast
    then have "mb_groups v acc = (gs @ [ucast (v AND 0x7F)]) @ acc \<and>
      gs @ [ucast (v AND 0x7F)] \<noteq> [] \<and> length (gs @ [ucast (v AND 0x7F)]) \<le> Suc (Suc m) \<and>
      (\<forall>g\<in>set (gs @ [ucast (v AND 0x7F)]). g < 128) \<and>
      foldl mb_step 0 (gs @ [ucast (v AND 0x7F)]) = v"
      using False by (subst mb_groups.simps) (simp add: low_group mb_step_inv)
    then show ?thesis by blast
  qed
qed

declare rd_ok [simp del]

text \<open>The bytes the decoder has not read yet.\<close>

definition ahead :: "dstate \<Rightarrow> byte list" where
  "ahead d = drop (d_pos d) (d_data d)"

lemma ahead_adv [simp]: "ahead (adv d k) = drop k (ahead d)"
  by (simp add: ahead_def add.commute)

lemma ahead_adv1 [simp]: "ahead (d\<lparr>d_pos := Suc (d_pos d)\<rparr>) = tl (ahead d)"
  by (simp add: ahead_def drop_Suc tl_drop)

lemma ahead_upd [simp]:
  "ahead (d\<lparr>d_page := p\<rparr>) = ahead d" "ahead (d\<lparr>d_table := t\<rparr>) = ahead d"
  by (simp_all add: ahead_def)

lemma at_end_ahead: "at_end d \<longleftrightarrow> ahead d = []"
  by (simp add: at_end_def ahead_def)

lemma rd_ahead: "ahead d = b # bs \<Longrightarrow> rd d = Inr b"
  by (cases "d_pos d < length (d_data d)") (auto simp: rd_def ahead_def hd_drop_conv_nth [symmetric])

lemma mb_loop_groups:
  assumes "ahead d = map (\<lambda>b. b OR 0x80) gs @ g # rest"
    and "length gs < k" "\<forall>x\<in>set gs. x < 128" "g < 128"
  shows "mb_loop k v d = Inr (foldl mb_step v (gs @ [g]), adv d (Suc (length gs)))"
  using assms
proof (induction gs arbitrary: k v d)
  case Nil
  then obtain k' where "k = Suc k'" by (cases k) auto
  with Nil show ?case
    by (simp add: at_end_ahead rd_ahead Let_def group_bits mb_step_def)
next
  case (Cons x gs)
  then obtain k' where k: "k = Suc k'" by (cases k) auto
  from Cons have "mb_loop k' (mb_step v x) (adv d 1) =
      Inr (foldl mb_step (mb_step v x) (gs @ [g]), adv (adv d 1) (Suc (length gs)))"
    by (intro Cons.IH) (simp_all add: k)
  with Cons.prems k show ?case
    by (simp add: at_end_ahead rd_ahead Let_def group_bits mb_step_def [symmetric])
qed

lemma writeMB_spec:
  obtains gs g where "writeMB v = map (\<lambda>b. b OR 0x80) gs @ [g]" "length gs < 5"
    "\<forall>x\<in>set gs. x < 128" "g < 128" "foldl mb_step 0 (gs @ [g]) = v"
proof -
  have "unat v < 128 ^ Suc 4" using unsigned_less [of v, where 'a = nat] by simp
  from mb_groups_spec [OF this, of "[]"] obtain hs where hs: "mb_groups v [] = hs" "hs \<noteq> []"
    "length hs \<le> 5" "\<forall>g\<in>set hs. g < 128" "foldl mb_step 0 hs = v" by auto
  then obtain gs g where "hs = gs @ [g]" by (metis rev_exhaust)
  with hs that [of gs g] show ?thesis by (simp add: writeMB_def)
qed

lemma mb_writeMB:
  assumes "ahead d = writeMB v @ rest" shows "mb d = Inr (v, adv d (length (writeMB v)))"
proof -
  obtain gs g where w: "writeMB v = map (\<lambda>b. b OR 0x80) gs @ [g]" "length gs < 5"
    "\<forall>x\<in>set gs. x < 128" "g < 128" "foldl mb_step 0 (gs @ [g]) = v" by (rule writeMB_spec)
  with assms have "mb_loop 5 0 d = Inr (foldl mb_step 0 (gs @ [g]), adv d (Suc (length gs)))"
    by (intro mb_loop_groups) simp_all
  with w show ?thesis by (simp add: mb_def)
qed

lemma writeMB_not_Nil [simp]: "writeMB v \<noteq> []"
  by (simp add: writeMB_def Let_def)

lemma bytes_str_bytes [simp]: "bytes_str (str_bytes s) = s"
proof -
  have "unat (word_of_nat (of_char c) :: byte) = of_char c" for c
    by (simp add: unsigned_of_nat take_bit_eq_mod)
  then show ?thesis by (simp add: bytes_str_def str_bytes_def comp_def)
qed

lemma length_str_bytes [simp]: "length (str_bytes s) = length s"
  by (simp add: str_bytes_def)

lemma str_bytes_no_zero: "CHR 0x00 \<notin> set s \<Longrightarrow> 0 \<notin> set (str_bytes s)"
proof -
  have "word_of_nat (of_char c) = (0 :: byte) \<Longrightarrow> c = CHR 0x00" for c :: char
  proof -
    assume "word_of_nat (of_char c) = (0 :: byte)"
    then have "unat (word_of_nat (of_char c) :: byte) = 0" by simp
    then have "of_char c = (of_char (CHR 0x00) :: nat)"
      by (simp add: unsigned_of_nat take_bit_eq_mod)
    then show "c = CHR 0x00" by (simp only: of_char_eq_iff)
  qed
  then show "CHR 0x00 \<notin> set s \<Longrightarrow> 0 \<notin> set (str_bytes s)" by (auto simp: str_bytes_def dest: sym)
qed

lemma inlineString_ahead:
  assumes "ahead d = str_bytes s @ 0x00 # rest" "CHR 0x00 \<notin> set s"
  shows "inlineString d = Inr (s, adv d (length s + 1))"
proof -
  have "takeWhile (\<lambda>b. b \<noteq> 0x00) (str_bytes s @ 0x00 # rest) = str_bytes s"
    using str_bytes_no_zero [OF assms(2)] by (subst takeWhile_append2) auto
  moreover have "drop (d_pos d) (d_data d) = str_bytes s @ 0x00 # rest"
    using assms(1) by (simp add: ahead_def)
  ultimately show ?thesis
    using assms(1) by (simp add: inlineString_def Let_def at_end_ahead)
qed

section \<open>The round trip\<close>

text \<open>
  What the wire carries of a tree: the token of the element, its text without NUL bytes
  (opaque data keeps them), no text beside children, and no \<open>ForceContent\<close>.
\<close>

fun canon :: "lookup \<Rightarrow> node \<Rightarrow> node" where
  "canon lk (Node p nm tk tx cs bin fc) =
     Node p nm (the (lk_token lk p nm))
       (if cs \<noteq> [] then [] else if bin then tx else replace_byte (CHR 0x00) [] tx)
       (map (canon lk) cs)
       (bin \<and> cs = [] \<and> (tx \<noteq> [] \<or> fc)) False"

text \<open>A tree the format can hold: pages and opaque lengths fit the 32-bit integers.\<close>

fun wf_node :: "node \<Rightarrow> bool" where
  "wf_node (Node p nm tk tx cs bin fc) \<longleftrightarrow>
     0 \<le> p \<and> p < 2 ^ 32 \<and> length tx < 2 ^ 32 \<and> (\<forall>c\<in>set cs. wf_node c)"

lemma loop_page:
  assumes "ahead d = 0x00 # writeMB (word_of_int p) @ rest" "0 \<le> p" "p < 2 ^ 32"
  shows "content_loop (Suc k) lk n d =
    content_loop k lk n ((adv d (Suc (length (writeMB (word_of_int p)))))\<lparr>d_page := p\<rparr>)"
proof -
  have "mb (adv d 1) = Inr (word_of_int p, adv (adv d 1) (length (writeMB (word_of_int p))))"
    by (rule mb_writeMB) (simp add: assms(1))
  moreover have "uint (word_of_int p :: 32 word) = p"
    using assms(2,3) by (simp add: uint_word_of_int)
  ultimately show ?thesis using assms(1) by (simp add: at_end_ahead rd_ahead)
qed

lemma loop_end:
  "ahead d = 0x01 # rest \<Longrightarrow> content_loop (Suc k) lk n d = Inr (n, adv d 1)"
  by (simp add: at_end_ahead rd_ahead)

lemma loop_text:
  assumes "ahead d = 0x03 # str_bytes s @ 0x00 # rest" "CHR 0x00 \<notin> set s"
  shows "content_loop (Suc k) lk n d = content_loop k lk (add_text n s) (adv d (length s + 2))"
proof -
  have "inlineString (adv d 1) = Inr (s, adv (adv d 1) (length s + 1))"
    by (rule inlineString_ahead [OF _ assms(2), of _ rest]) (simp add: assms(1))
  then show ?thesis using assms(1) by (simp add: at_end_ahead rd_ahead)
qed

lemma rd_slice_ahead:
  assumes "ahead d = xs @ rest" "d_pos d \<le> length (d_data d)"
  shows "rd_slice d (length xs) = Inr xs"
proof -
  have "length (ahead d) = length xs + length rest" by (simp add: assms(1))
  then have "length xs \<le> length (d_data d) - d_pos d" by (simp add: ahead_def)
  moreover have "take (length xs) (drop (d_pos d) (d_data d)) = xs"
    using assms(1) by (simp add: ahead_def)
  ultimately show ?thesis using assms(2) by (simp add: rd_slice_def)
qed

lemma loop_opaque:
  assumes "ahead d = 0xC3 # writeMB (word_of_nat (length s)) @ str_bytes s @ rest" "length s < 2 ^ 32"
  shows "content_loop (Suc k) lk n d = content_loop k lk (set_binary (add_text n s))
    (adv d (1 + length (writeMB (word_of_nat (length s))) + length s))"
proof -
  let ?w = "writeMB (word_of_nat (length s))"
  have m: "mb (adv d 1) = Inr (word_of_nat (length s), adv (adv d 1) (length ?w))"
    by (rule mb_writeMB [of _ _ "str_bytes s @ rest"]) (simp add: assms(1))
  have u: "unat (word_of_nat (length s) :: 32 word) = length s"
    using assms(2) by (simp add: unsigned_of_nat take_bit_eq_mod)
  have a: "ahead (adv (adv d 1) (length ?w)) = str_bytes s @ rest"
    unfolding ahead_adv by (simp add: assms(1))
  have le: "d_pos d + 1 + length ?w + length s \<le> length (d_data d)"
  proof -
    have "length (ahead d) = 1 + length ?w + length s + length rest" by (simp add: assms(1))
    then show ?thesis by (simp add: ahead_def)
  qed
  have sl: "rd_slice (adv (adv d 1) (length ?w)) (length s) = Inr (str_bytes s)"
    using rd_slice_ahead [OF a] le by simp
  show ?thesis using m u sl le assms(1)
    by (simp add: at_end_ahead rd_ahead add.assoc del: of_nat_unat)
qed

lemma foldl_add_child:
  "foldl add_child (Node p nm tk tx cs bin fc) xs = Node p nm tk tx (cs @ xs) bin fc"
  by (induction xs arbitrary: cs) auto

lemma page_same: "d_page d = p \<Longrightarrow> d\<lparr>d_page := p\<rparr> = d"
  by (cases d) simp

lemma decode_loop_page:
  assumes "ahead d = 0x00 # writeMB (word_of_int p) @ rest" "0 \<le> p" "p < 2 ^ 32"
  shows "decode_loop (Suc k) lk root d =
    decode_loop k lk root ((adv d (Suc (length (writeMB (word_of_int p)))))\<lparr>d_page := p\<rparr>)"
proof -
  have "mb (adv d 1) = Inr (word_of_int p, adv (adv d 1) (length (writeMB (word_of_int p))))"
    by (rule mb_writeMB) (simp add: assms(1))
  moreover have "uint (word_of_int p :: 32 word) = p"
    using assms(2,3) by (simp add: uint_word_of_int)
  ultimately show ?thesis using assms(1) by (simp add: at_end_ahead rd_ahead)
qed

lemma mb_byte: "ahead d = b # rest \<Longrightarrow> b < 128 \<Longrightarrow> mb d = Inr (ucast b, adv d 1)"
  by (simp add: mb_def numeral_eq_Suc at_end_ahead rd_ahead Let_def group_bits)

locale wbxml_codec =
  fixes lk :: lookup
  assumes name_of_token:
    "lk_token lk p n = Some t \<Longrightarrow> lk_name lk p t = Some n \<and> n \<noteq> [] \<and> 5 \<le> t \<and> t < 64"
begin

definition parses :: "node \<Rightarrow> bool" where
  "parses n \<longleftrightarrow> (\<forall>body pg' d rest k. enc_node lk (n_page n) n = Inr (body, pg') \<longrightarrow>
     ahead d = body @ rest \<longrightarrow> d_page d = n_page n \<longrightarrow> 2 * length body \<le> k \<longrightarrow>
     element k lk d = Inr (canon lk n, (adv d (length body))\<lparr>d_page := pg'\<rparr>))"

lemma enc_node_prefix:
  assumes "enc_node lk pg n = Inr (bs, pg')"
  obtains body where "enc_node lk (n_page n) n = Inr (body, pg')"
    "bs = (if n_page n \<noteq> pg then 0x00 # writeMB (word_of_int (n_page n)) else []) @ body"
proof (cases n)
  case (Node p nm tk tx cs bin fc)
  then show ?thesis
    using assms that
    by (auto simp: Let_def split: option.splits sum.splits if_splits prod.splits)
qed

lemma enc_node_head:
  assumes "enc_node lk (n_page n) n = Inr (body, pg')"
  obtains t where "lk_token lk (n_page n) (n_name n) = Some t"
    "body \<noteq> []" "hd body = t \<or> hd body = t OR 0x40"
proof (cases n)
  case (Node p nm tk tx cs bin fc)
  then show ?thesis
    using assms that
    by (auto simp: Let_def split: option.splits sum.splits if_splits prod.splits)
qed

lemma token_range: "lk_token lk p n = Some t \<Longrightarrow> lk_name lk p t = Some n" "lk_token lk p n = Some t \<Longrightarrow> n \<noteq> []"
    "lk_token lk p n = Some t \<Longrightarrow> 5 \<le> t" "lk_token lk p n = Some t \<Longrightarrow> t < 64"
  using name_of_token by auto

lemma token_dispatch:
  assumes "lk_token lk p n = Some t" "b = t \<or> b = t OR 0x40"
  shows "b \<noteq> 0x00" "b \<noteq> 0x01" "b \<noteq> 0x03" "b \<noteq> 0xC3" "b \<noteq> 0x83"
    "\<not> (b AND 0x40 = 0 \<and> b AND 0x80 = 0 \<and> b < 0x05)" "b < 0x40 \<Longrightarrow> b = t"
proof -
  let ?P = "\<lambda>t::byte. 5 \<le> t \<longrightarrow> (\<forall>b\<in>{t, t OR 0x40}. b \<noteq> 0x00 \<and> b \<noteq> 0x01 \<and> b \<noteq> 0x03 \<and> b \<noteq> 0xC3 \<and>
    b \<noteq> 0x83 \<and> \<not> (b AND 0x40 = 0 \<and> b AND 0x80 = 0 \<and> b < 0x05) \<and> (b < 0x40 \<longrightarrow> b = t))"
  have "list_all ?P (map word_of_nat [0..<64])" by code_simp
  then have "?P t"
    by (rule byte_exhaust) (use token_range(4) [OF assms(1)] in \<open>simp_all add: word_less_nat_alt\<close>)
  with assms(2) token_range(3) [OF assms(1)]
  show "b \<noteq> 0x00" "b \<noteq> 0x01" "b \<noteq> 0x03" "b \<noteq> 0xC3" "b \<noteq> 0x83"
    "\<not> (b AND 0x40 = 0 \<and> b AND 0x80 = 0 \<and> b < 0x05)" "b < 0x40 \<Longrightarrow> b = t"
    by blast+
qed

lemma loop_child:
  assumes "parses c" "enc_node lk (n_page c) c = Inr (body, pg')" "ahead d = body @ rest"
    and "d_page d = n_page c" "2 * length body \<le> k"
  shows "content_loop (Suc k) lk n d =
    content_loop k lk (add_child n (canon lk c)) ((adv d (length body))\<lparr>d_page := pg'\<rparr>)"
proof -
  obtain t where t: "lk_token lk (n_page c) (n_name c) = Some t" "body \<noteq> []"
    "hd body = t \<or> hd body = t OR 0x40" using enc_node_head [OF assms(2)] by metis
  then obtain b bs where b: "body = b # bs" by (cases body) auto
  have el: "element k lk d = Inr (canon lk c, (adv d (length body))\<lparr>d_page := pg'\<rparr>)"
    using assms unfolding parses_def by blast
  have bt: "b = t \<or> b = t OR 0x40" using b t(3) by simp
  have kn: "known_tok lk d b" if "b < 0x40"
    using token_dispatch(7) [OF t(1) bt that] token_range(1) [OF t(1)] assms(4)
    by (simp add: known_tok_def)
  have "rd d = Inr b" "\<not> at_end d" using assms(3) b by (simp_all add: rd_ahead at_end_ahead)
  then show ?thesis
    using token_dispatch [OF t(1) bt] kn el
    by (auto simp: content_loop.simps(2) simp del: element.simps)
qed

lemma loop_children:
  assumes "\<forall>c\<in>set cs. parses c \<and> wf_node c" "enc_children lk pg cs = Inr (bs, pg')"
    and "ahead d = bs @ 0x01 # rest" "d_page d = pg" "2 * length bs + 1 \<le> k"
  shows "content_loop k lk n d =
    Inr (foldl add_child n (map (canon lk) cs), (adv d (length bs + 1))\<lparr>d_page := pg'\<rparr>)"
  using assms
proof (induction cs arbitrary: n d k pg bs)
  case Nil
  then obtain k' where "k = Suc k'" by (cases k) auto
  with Nil show ?case by (simp add: rd_ahead at_end_ahead)
next
  case (Cons c cs)
  from Cons.prems(2) obtain b1 pg1 b2 where e: "enc_node lk pg c = Inr (b1, pg1)"
    "enc_children lk pg1 cs = Inr (b2, pg')" "bs = b1 @ b2"
    by (auto split: sum.splits prod.splits)
  obtain body where body: "enc_node lk (n_page c) c = Inr (body, pg1)"
    "b1 = (if n_page c \<noteq> pg then 0x00 # writeMB (word_of_int (n_page c)) else []) @ body"
    by (rule enc_node_prefix [OF e(1)])
  have "body \<noteq> []" using enc_node_head [OF body(1)] by metis
  then have lb: "1 \<le> length body" by (cases body) auto
  have wf: "0 \<le> n_page c" "n_page c < 2 ^ 32" "parses c"
    using Cons.prems(1) by (cases c, simp)+
  define pre where "pre = (if n_page c \<noteq> pg then 0x00 # writeMB (word_of_int (n_page c)) else [])"
  define d1 where "d1 = (adv d (length pre))\<lparr>d_page := n_page c\<rparr>"
  obtain k1 where k1: "content_loop k lk n d = content_loop (Suc k1) lk n d1"
    "2 * length body + 2 * length b2 + 1 \<le> Suc k1"
  proof (cases "n_page c = pg")
    case True
    then have "d1 = d" using Cons.prems(4) by (simp add: d1_def pre_def)
    with True show ?thesis
      using that [of "k - 1"] Cons.prems(5) body(2) e(3) by simp
  next
    case False
    have "ahead d = 0x00 # writeMB (word_of_int (n_page c)) @ body @ b2 @ 0x01 # rest"
      using Cons.prems(3) body(2) e(3) False by simp
    from loop_page [OF this wf(1,2), of "k - 1" lk n]
    have "content_loop k lk n d = content_loop (Suc (k - 2)) lk n d1"
      using Cons.prems(5) body(2) e(3) lb False
      by (simp add: d1_def pre_def Suc_diff_Suc numeral_2_eq_2 del: content_loop.simps)
    then show ?thesis
      by (rule that [of "k - 2"])
         (use Cons.prems(5) body(2) e(3) lb False in \<open>simp del: content_loop.simps\<close>)
  qed
  have a1: "ahead d1 = body @ b2 @ 0x01 # rest"
    using Cons.prems(3) body(2) e(3) by (simp add: d1_def pre_def)
  have "content_loop (Suc k1) lk n d1 =
      content_loop k1 lk (add_child n (canon lk c)) ((adv d1 (length body))\<lparr>d_page := pg1\<rparr>)"
    by (rule loop_child [OF wf(3) body(1) a1]) (use k1(2) in \<open>simp_all add: d1_def\<close>)
  also have "\<dots> = Inr (foldl add_child (add_child n (canon lk c)) (map (canon lk) cs),
      (adv ((adv d1 (length body))\<lparr>d_page := pg1\<rparr>) (length b2 + 1))\<lparr>d_page := pg'\<rparr>)"
    by (rule Cons.IH [where pg = pg1])
       (use Cons.prems(1) e(2) a1 k1(2) lb in simp_all)
  finally show ?case using k1(1) body(2) e(3) by (simp add: d1_def pre_def add_ac)
qed

lemma element_open:
  assumes "lk_token lk (d_page d) nm = Some t" "ahead d = (t OR 0x40) # rest"
  shows "element (Suc k) lk d = content_loop k lk (Node (d_page d) nm t [] [] False False) (adv d 1)"
  using assms token_range [OF assms(1)] token_bits [of t]
  by (simp add: at_end_ahead rd_ahead Let_def del: content_loop.simps)

lemma element_empty:
  assumes "lk_token lk (d_page d) nm = Some t" "ahead d = t # rest"
  shows "element (Suc k) lk d = Inr (Node (d_page d) nm t [] [] False False, adv d 1)"
  using assms token_range [OF assms(1)] token_bits [of t]
  by (simp add: at_end_ahead rd_ahead Let_def del: content_loop.simps)

lemma replace_NUL_free: "CHR 0x00 \<notin> set (replace_byte (CHR 0x00) [] s)"
  by (auto simp: replace_byte_def split: if_splits)

lemma parses_wf: "wf_node n \<Longrightarrow> parses n"
proof (induction n)
  case (Node p nm tk tx cs bin fc)
  show ?case unfolding parses_def
  proof (intro allI impI)
    fix body pg' d rest k
    assume e: "enc_node lk (n_page (Node p nm tk tx cs bin fc)) (Node p nm tk tx cs bin fc) = Inr (body, pg')"
      and a: "ahead d = body @ rest" and pg: "d_page d = n_page (Node p nm tk tx cs bin fc)"
      and k: "2 * length body \<le> k"
    obtain t where t: "lk_token lk p nm = Some t" using e by (auto split: option.splits)
    have pg: "d_page d = p" using pg by simp
    consider (empty) "cs = []" "tx = []" "\<not> fc" | (kids) "cs \<noteq> []"
      | (opaque) "cs = []" "tx \<noteq> [] \<or> fc" "bin" | (plain) "cs = []" "tx \<noteq> [] \<or> fc" "\<not> bin" by blast
    then show "element k lk d = Inr (canon lk (Node p nm tk tx cs bin fc),
        (adv d (length body))\<lparr>d_page := pg'\<rparr>)"
    proof cases
      case empty
      then have b: "body = [t]" "pg' = p" using e t by auto
      then obtain k' where k': "k = Suc k'" using k by (cases k) auto
      have "element (Suc k') lk d = Inr (Node (d_page d) nm t [] [] False False, adv d 1)"
        by (rule element_empty) (use a b t pg in auto)
      then show ?thesis using b k' pg t empty
        by (simp add: page_same replace_byte_def del: element.simps)
    next
      case kids
      then obtain bs where bs: "enc_children lk p cs = Inr (bs, pg')" "body = (t OR 0x40) # bs @ [0x01]"
        using e t by (auto split: sum.splits prod.splits)
      then obtain k' where k': "k = Suc k'" "2 * length bs + 1 \<le> k'" using k by (cases k) auto
      have "element (Suc k') lk d = content_loop k' lk (Node (d_page d) nm t [] [] False False) (adv d 1)"
        by (rule element_open) (use a bs t pg in auto)
      also have "\<dots> = Inr (foldl add_child (Node (d_page d) nm t [] [] False False) (map (canon lk) cs),
          (adv (adv d 1) (length bs + 1))\<lparr>d_page := pg'\<rparr>)"
        by (rule loop_children [OF _ bs(1), of _ rest]) (use Node a bs pg k' in auto)
      finally show ?thesis using bs k' pg t kids by (simp add: foldl_add_child del: element.simps)
    next
      case opaque
      then have b: "body = (t OR 0x40) # 0xC3 # writeMB (word_of_nat (length tx)) @ str_bytes tx @ [0x01]"
        "pg' = p" using e t by (auto split: if_splits)
      then obtain k' where k': "k = Suc (Suc (Suc k'))" using k by (cases k; cases "k - 1"; cases "k - 2") auto
      have "element (Suc (Suc (Suc k'))) lk d =
          content_loop (Suc (Suc k')) lk (Node (d_page d) nm t [] [] False False) (adv d 1)"
        by (rule element_open) (use a b t pg in auto)
      also have "\<dots> = content_loop (Suc k') lk (set_binary (add_text (Node (d_page d) nm t [] [] False False) tx))
          (adv (adv d 1) (1 + length (writeMB (word_of_nat (length tx))) + length tx))"
        by (rule loop_opaque [of _ _ "0x01 # rest"]) (use Node.prems a b in auto)
      also have "\<dots> = Inr (set_binary (add_text (Node (d_page d) nm t [] [] False False) tx),
          adv (adv (adv d 1) (1 + length (writeMB (word_of_nat (length tx))) + length tx)) 1)"
        by (rule loop_end [of _ rest], unfold ahead_adv) (use a b in auto)
      finally show ?thesis using b k' pg t opaque
        by (simp add: page_same del: element.simps)
    next
      case plain
      define s where "s = replace_byte (CHR 0x00) [] tx"
      have b: "body = (t OR 0x40) # 0x03 # str_bytes s @ [0x00, 0x01]" "pg' = p"
        using e t plain by (auto simp: s_def split: if_splits)
      then obtain k' where k': "k = Suc (Suc (Suc k'))" using k by (cases k; cases "k - 1"; cases "k - 2") auto
      have "element (Suc (Suc (Suc k'))) lk d =
          content_loop (Suc (Suc k')) lk (Node (d_page d) nm t [] [] False False) (adv d 1)"
        by (rule element_open) (use a b t pg in auto)
      also have "\<dots> = content_loop (Suc k') lk (add_text (Node (d_page d) nm t [] [] False False) s)
          (adv (adv d 1) (length s + 2))"
        by (rule loop_text [of _ _ "0x01 # rest"]) (use a b in \<open>auto simp: s_def replace_NUL_free\<close>)
      also have "\<dots> = Inr (add_text (Node (d_page d) nm t [] [] False False) s,
          adv (adv (adv d 1) (length s + 2)) 1)"
        by (rule loop_end [of _ rest], unfold ahead_adv) (use a b in auto)
      finally show ?thesis using b k' pg t plain
        by (simp add: page_same s_def del: element.simps)
    qed
  qed
qed

lemma decode_loop_tree:
  assumes "enc_node lk 0 n = Inr (bs, pg')" "wf_node n" "ahead d = bs" "d_page d = 0" "2 < k"
  shows "decode_loop k lk None d = Inr (canon lk n)"
proof -
  obtain body where body: "enc_node lk (n_page n) n = Inr (body, pg')"
    "bs = (if n_page n \<noteq> 0 then 0x00 # writeMB (word_of_int (n_page n)) else []) @ body"
    by (rule enc_node_prefix [OF assms(1)])
  have wf: "0 \<le> n_page n" "n_page n < 2 ^ 32" using assms(2) by (cases n, simp)+
  obtain t where t: "lk_token lk (n_page n) (n_name n) = Some t" "body \<noteq> []"
    "hd body = t \<or> hd body = t OR 0x40" using enc_node_head [OF body(1)] by metis
  then obtain b body' where b: "body = b # body'" by (cases body) auto
  have bt: "b = t \<or> b = t OR 0x40" using b t(3) by simp
  have main: "decode_loop (Suc (Suc k)) lk None d = Inr (canon lk n)"
    if a: "ahead d = body" and pg: "d_page d = n_page n" for d k
  proof -
    have "length body \<le> length (d_data d)" unfolding a [symmetric] by (simp add: ahead_def)
    then have "element (2 * length (d_data d) + 2) lk d =
        Inr (canon lk n, (adv d (length body))\<lparr>d_page := pg'\<rparr>)"
      using parses_wf [OF assms(2), unfolded parses_def, rule_format, OF body(1), of d "[]"] a pg
      by (simp del: element.simps)
    moreover have "ahead ((adv d (length body))\<lparr>d_page := pg'\<rparr>) = []" by (simp add: a)
    ultimately show ?thesis
      using a b token_dispatch [OF t(1) bt] by (simp add: at_end_ahead rd_ahead del: element.simps)
  qed
  obtain k' where k: "k = Suc (Suc (Suc k'))" using assms(5)
    by (cases k; cases "k - 1"; cases "k - 2") auto
  show ?thesis
  proof (cases "n_page n = 0")
    case True
    then show ?thesis unfolding k using main assms(3,4) body(2) by simp
  next
    case False
    then have "ahead d = 0x00 # writeMB (word_of_int (n_page n)) @ body" using assms(3) body(2) by simp
    note st = decode_loop_page [OF this wf, of "Suc (Suc k')" lk None]
    show ?thesis
      unfolding k st
    proof (rule main)
      show "ahead ((adv d (Suc (length (writeMB (word_of_int (n_page n))))))\<lparr>d_page := n_page n\<rparr>) = body"
        unfolding ahead_upd ahead_adv using assms(3) body(2) False by simp
    qed simp
  qed
qed

lemma decode_encode:
  assumes "Encode (Some n) lk = Inr bs" "wf_node n"
  shows "Decode bs lk = Inr (canon lk n)"
proof -
  obtain body pg' where e: "enc_node lk 0 n = Inr (body, pg')" "bs = [0x03, 0x01, 0x6A, 0x00] @ body"
    using assms(1) by (auto simp: Encode_def split: sum.splits prod.splits)
  let ?d = "\<lambda>i. \<lparr>d_data = bs, d_pos = i, d_page = 0, d_table = []\<rparr>"
  have m: "mb (?d 1) = Inr (1, ?d 2)" "mb (?d 2) = Inr (0x6A, ?d 3)" "mb (?d 3) = Inr (0, ?d 4)"
    using mb_byte [of "?d 1" 1 "0x6A # 0x00 # body"] mb_byte [of "?d 2" "0x6A" "0x00 # body"]
      mb_byte [of "?d 3" 0 body] by (simp_all add: e ahead_def)
  have "decode_loop (length bs + 1) lk None (?d 4) = Inr (canon lk n)"
    by (rule decode_loop_tree [OF e(1) assms(2)]) (simp_all add: e ahead_def)
  then show ?thesis using m e
    by (simp add: Decode_def Let_def rd_slice_def)
qed

end

end
