(* ===== verification/EasTokens.thy ===== *)
theory EasTokens imports WbxmlProps begin

text \<open>
  The WBXML code pages of package \<open>internal/eas\<close> (file \<open>tokens.go\<close>): the element names of
  every page the server implements, and the codec built from them. The codec is the
  interpretation of the interface \<open>wbxml_codec\<close>, so the round trip of theory
  \<open>WbxmlProps\<close> holds for every tree the server sends.
\<close>

section \<open>Code pages\<close>

(* src: internal/eas/tokens.go 6-6 pageAirSync *)
definition pageAirSync :: int where "pageAirSync = 0"

(* src: internal/eas/tokens.go 7-7 pageContacts *)
definition pageContacts :: int where "pageContacts = 1"

(* src: internal/eas/tokens.go 8-8 pageEmail *)
definition pageEmail :: int where "pageEmail = 2"

(* src: internal/eas/tokens.go 9-9 pageCalendar *)
definition pageCalendar :: int where "pageCalendar = 4"

(* src: internal/eas/tokens.go 10-10 pageMove *)
definition pageMove :: int where "pageMove = 5"

(* src: internal/eas/tokens.go 11-11 pageGetItemEstimate *)
definition pageGetItemEstimate :: int where "pageGetItemEstimate = 6"

(* src: internal/eas/tokens.go 12-12 pageFolderHierarchy *)
definition pageFolderHierarchy :: int where "pageFolderHierarchy = 7"

(* src: internal/eas/tokens.go 13-13 pageMeetingResponse *)
definition pageMeetingResponse :: int where "pageMeetingResponse = 8"

(* src: internal/eas/tokens.go 14-14 pageResolveRecipients *)
definition pageResolveRecipients :: int where "pageResolveRecipients = 10"

(* src: internal/eas/tokens.go 15-15 pagePing *)
definition pagePing :: int where "pagePing = 13"

(* src: internal/eas/tokens.go 16-16 pageProvision *)
definition pageProvision :: int where "pageProvision = 14"

(* src: internal/eas/tokens.go 17-17 pageSearch *)
definition pageSearch :: int where "pageSearch = 15"

(* src: internal/eas/tokens.go 18-18 pageGAL *)
definition pageGAL :: int where "pageGAL = 16"

(* src: internal/eas/tokens.go 19-19 pageAirSyncBase *)
definition pageAirSyncBase :: int where "pageAirSyncBase = 17"

(* src: internal/eas/tokens.go 20-20 pageSettings *)
definition pageSettings :: int where "pageSettings = 18"

(* src: internal/eas/tokens.go 21-21 pageItemOperations *)
definition pageItemOperations :: int where "pageItemOperations = 20"

(* src: internal/eas/tokens.go 22-22 pageComposeMail *)
definition pageComposeMail :: int where "pageComposeMail = 21"

(* src: internal/eas/tokens.go 23-23 pageEmail2 *)
definition pageEmail2 :: int where "pageEmail2 = 22"

(* src: internal/eas/tokens.go 28-36 tokenPages *)
definition namesAirSync :: "string list" where
  "namesAirSync = [
    ''Sync'', ''Responses'', ''Add'', ''Change'', ''Delete'', ''Fetch'', ''SyncKey'',
    ''ClientId'', ''ServerId'', ''Status'', ''Collection'', ''Class'', ''Version'',
    ''CollectionId'', ''GetChanges'', ''MoreAvailable'', ''WindowSize'', ''Commands'',
    ''Options'', ''FilterType'', ''Truncation'', ''RtfTruncation'', ''Conflict'',
    ''Collections'', ''ApplicationData'', ''DeletesAsMoves'', ''NotifyGUID'', ''Supported'',
    ''SoftDelete'', ''MIMESupport'', ''MIMETruncation'', ''Wait'', ''Limit'', ''Partial'',
    ''ConversationMode'', ''MaxItems'', ''HeartbeatInterval'']"

(* src: internal/eas/tokens.go 37-53 tokenPages *)
definition namesContacts :: "string list" where
  "namesContacts = [
    ''Anniversary'', ''AssistantName'', ''AssistantTelephoneNumber'', ''Birthday'', ''Body'',
    ''BodySize'', ''BodyTruncated'', ''Business2PhoneNumber'', ''BusinessAddressCity'',
    ''BusinessAddressCountry'', ''BusinessAddressPostalCode'', ''BusinessAddressState'',
    ''BusinessAddressStreet'', ''BusinessFaxNumber'', ''BusinessPhoneNumber'',
    ''CarPhoneNumber'', ''Categories'', ''Category'', ''Children'', ''Child'', ''CompanyName'',
    ''Department'', ''Email1Address'', ''Email2Address'', ''Email3Address'', ''FileAs'',
    ''FirstName'', ''Home2PhoneNumber'', ''HomeAddressCity'', ''HomeAddressCountry'',
    ''HomeAddressPostalCode'', ''HomeAddressState'', ''HomeAddressStreet'', ''HomeFaxNumber'',
    ''HomePhoneNumber'', ''JobTitle'', ''LastName'', ''MiddleName'', ''MobilePhoneNumber'',
    ''OfficeLocation'', ''OtherAddressCity'', ''OtherAddressCountry'',
    ''OtherAddressPostalCode'', ''OtherAddressState'', ''OtherAddressStreet'', ''PagerNumber'',
    ''RadioPhoneNumber'', ''Spouse'', ''Suffix'', ''Title'', ''WebPage'', ''YomiCompanyName'',
    ''YomiFirstName'', ''YomiLastName'', ''CompressedRTF'', ''Picture'', ''Alias'',
    ''WeightedRank'']"

(* src: internal/eas/tokens.go 54-68 tokenPages *)
definition namesEmail :: "string list" where
  "namesEmail = [
    ''Attachment'', ''Attachments'', ''AttName'', ''AttSize'', ''Att0Id'', ''AttMethod'',
    ''AttRemoved'', ''Body'', ''BodySize'', ''BodyTruncated'', ''DateReceived'',
    ''DisplayName'', ''DisplayTo'', ''Importance'', ''MessageClass'', ''Subject'', ''Read'',
    ''To'', ''Cc'', ''From'', ''ReplyTo'', ''AllDayEvent'', ''Categories'', ''Category'',
    ''DTStamp'', ''EndTime'', ''InstanceType'', ''BusyStatus'', ''Location'',
    ''MeetingRequest'', ''Organizer'', ''RecurrenceId'', ''Reminder'', ''ResponseRequested'',
    ''Recurrences'', ''Recurrence'', ''Recurrence_Type'', ''Recurrence_Until'',
    ''Recurrence_Occurrences'', ''Recurrence_Interval'', ''Recurrence_DayOfWeek'',
    ''Recurrence_DayOfMonth'', ''Recurrence_WeekOfMonth'', ''Recurrence_MonthOfYear'',
    ''StartTime'', ''Sensitivity'', ''TimeZone'', ''GlobalObjId'', ''ThreadTopic'',
    ''MIMEData'', ''MIMETruncated'', ''MIMESize'', ''InternetCPID'', ''Flag'', ''FlagStatus'',
    ''ContentClass'', ''FlagType'', ''CompleteTime'', ''DisallowNewTimeProposal'']"

(* src: internal/eas/tokens.go 69-82 tokenPages *)
definition namesCalendar :: "string list" where
  "namesCalendar = [
    ''TimeZone'', ''AllDayEvent'', ''Attendees'', ''Attendee'', ''Email'', ''Name'', ''Body'',
    ''BodyTruncated'', ''BusyStatus'', ''Categories'', ''Category'', ''CompressedRTF'',
    ''DtStamp'', ''EndTime'', ''Exception'', ''Exceptions'', ''Deleted'',
    ''ExceptionStartTime'', ''Location'', ''MeetingStatus'', ''OrganizerEmail'',
    ''OrganizerName'', ''Recurrence'', ''RecurrenceType'', ''RecurrenceUntil'',
    ''RecurrenceOccurrences'', ''RecurrenceInterval'', ''RecurrenceDayOfWeek'',
    ''RecurrenceDayOfMonth'', ''RecurrenceWeekOfMonth'', ''RecurrenceMonthOfYear'',
    ''Reminder'', ''Sensitivity'', ''Subject'', ''StartTime'', ''UID'', ''AttendeeStatus'',
    ''AttendeeType'', [], [], [], [], [], [], [], [], ''DisallowNewTimeProposal'',
    ''ResponseRequested'', ''AppointmentReplyTime'', ''ResponseType'', ''CalendarType'',
    ''IsLeapMonth'', ''FirstDayOfWeek'']"

(* src: internal/eas/tokens.go 83-86 tokenPages *)
definition namesMove :: "string list" where
  "namesMove = [
    ''MoveItems'', ''Move'', ''SrcMsgId'', ''SrcFldId'', ''DstFldId'', ''Response'',
    ''Status'', ''DstMsgId'']"

(* src: internal/eas/tokens.go 87-90 tokenPages *)
definition namesGetItemEstimate :: "string list" where
  "namesGetItemEstimate = [
    ''GetItemEstimate'', ''Version'', ''Folders'', ''Folder'', ''FolderType'', ''FolderId'',
    ''DateTime'', ''Estimate'', ''Response'', ''Status'']"

(* src: internal/eas/tokens.go 91-96 tokenPages *)
definition namesFolderHierarchy :: "string list" where
  "namesFolderHierarchy = [
    ''Folders'', ''Folder'', ''DisplayName'', ''ServerId'', ''ParentId'', ''Type'',
    ''Response'', ''Status'', ''ContentClass'', ''Changes'', ''Add'', ''Delete'', ''Update'',
    ''SyncKey'', ''FolderCreate'', ''FolderDelete'', ''FolderUpdate'', ''FolderSync'',
    ''Count'']"

(* src: internal/eas/tokens.go 97-100 tokenPages *)
definition namesPing :: "string list" where
  "namesPing = [
    ''Ping'', ''AutdState'', ''Status'', ''HeartbeatInterval'', ''Folders'', ''Folder'',
    ''ServerId'', ''Class'', ''MaxFolders'', ''Version'']"

(* src: internal/eas/tokens.go 101-104 tokenPages *)
definition namesMeetingResponse :: "string list" where
  "namesMeetingResponse = [
    ''CalendarId'', ''FolderId'', ''MeetingResponse'', ''RequestId'', ''Request'', ''Result'',
    ''Status'', ''UserResponse'', ''Version'', ''InstanceId'']"

(* src: internal/eas/tokens.go 105-112 tokenPages *)
definition namesResolveRecipients :: "string list" where
  "namesResolveRecipients = [
    ''ResolveRecipients'', ''Response'', ''Status'', ''Type'', ''Recipient'', ''DisplayName'',
    ''EmailAddress'', ''Certificates'', ''Certificate'', ''MiniCertificate'', ''Options'',
    ''To'', ''CertificateRetrieval'', ''RecipientCount'', ''MaxCertificates'',
    ''MaxAmbiguousRecipients'', ''CertificateCount'', ''Availability'', ''StartTime'',
    ''EndTime'', ''MergedFreeBusy'', ''Picture'', ''MaxSize'', ''Data'', ''MaxPictures'']"

(* src: internal/eas/tokens.go 113-120 tokenPages *)
definition namesSearch :: "string list" where
  "namesSearch = [
    ''Search'', [], ''Store'', ''Name'', ''Query'', ''Options'', ''Range'', ''Status'',
    ''Response'', ''Result'', ''Properties'', ''Total'', ''EqualTo'', ''Value'', ''And'',
    ''Or'', ''FreeText'', [], ''DeepTraversal'', ''LongId'', ''RebuildResults'', ''LessThan'',
    ''GreaterThan'', ''Schema'', ''Supported'', ''UserName'', ''Password'', ''ConversationId'',
    ''Picture'', ''MaxSize'', ''MaxPictures'']"

(* src: internal/eas/tokens.go 121-125 tokenPages *)
definition namesGAL :: "string list" where
  "namesGAL = [
    ''DisplayName'', ''Phone'', ''Office'', ''Title'', ''Company'', ''Alias'', ''FirstName'',
    ''LastName'', ''HomePhone'', ''MobilePhone'', ''EmailAddress'', ''Picture'', ''Status'']"

(* src: internal/eas/tokens.go 126-148 tokenPages *)
definition namesProvision :: "string list" where
  "namesProvision = [
    ''Provision'', ''Policies'', ''Policy'', ''PolicyType'', ''PolicyKey'', ''Data'',
    ''Status'', ''RemoteWipe'', ''EASProvisionDoc'', ''DevicePasswordEnabled'',
    ''AlphanumericDevicePasswordRequired'', ''RequireStorageCardEncryption'',
    ''PasswordRecoveryEnabled'', ''DocumentBrowseEnabled'', ''AttachmentsEnabled'',
    ''MinDevicePasswordLength'', ''MaxInactivityTimeDeviceLock'',
    ''MaxDevicePasswordFailedAttempts'', ''MaxAttachmentSize'', ''AllowSimpleDevicePassword'',
    ''DevicePasswordExpiration'', ''DevicePasswordHistory'', ''AllowStorageCard'',
    ''AllowCamera'', ''RequireDeviceEncryption'', ''AllowUnsignedApplications'',
    ''AllowUnsignedInstallationPackages'', ''MinDevicePasswordComplexCharacters'',
    ''AllowWiFi'', ''AllowTextMessaging'', ''AllowPOPIMAPEmail'', ''AllowBluetooth'',
    ''AllowIrDA'', ''RequireManualSyncWhenRoaming'', ''AllowDesktopSync'',
    ''MaxCalendarAgeFilter'', ''AllowHTMLEmail'', ''MaxEmailAgeFilter'',
    ''MaxEmailBodyTruncationSize'', ''MaxEmailHTMLBodyTruncationSize'',
    ''RequireSignedSMIMEMessages'', ''RequireEncryptedSMIMEMessages'',
    ''RequireSignedSMIMEAlgorithm'', ''RequireEncryptionSMIMEAlgorithm'',
    ''AllowSMIMEEncryptionAlgorithmNegotiation'', ''AllowSMIMESoftCerts'', ''AllowBrowser'',
    ''AllowConsumerEmail'', ''AllowRemoteDesktop'', ''AllowInternetSharing'',
    ''UnapprovedInROMApplicationList'', ''ApplicationName'', ''ApprovedApplicationList'',
    ''Hash'']"

(* src: internal/eas/tokens.go 149-155 tokenPages *)
definition namesAirSyncBase :: "string list" where
  "namesAirSyncBase = [
    ''BodyPreference'', ''Type'', ''Truncation'', ''AllOrNone'', [], ''Body'', ''Data'',
    ''EstimatedDataSize'', ''Truncated'', ''Attachments'', ''Attachment'', ''DisplayName'',
    ''FileReference'', ''Method'', ''ContentId'', ''ContentLocation'', ''IsInline'',
    ''NativeBodyType'', ''ContentType'', ''Preview'', ''BodyPartPreference'', ''BodyPart'',
    ''Status'']"

(* src: internal/eas/tokens.go 156-164 tokenPages *)
definition namesSettings :: "string list" where
  "namesSettings = [
    ''Settings'', ''Status'', ''Get'', ''Set'', ''Oof'', ''OofState'', ''StartTime'',
    ''EndTime'', ''OofMessage'', ''AppliesToInternal'', ''AppliesToExternalKnown'',
    ''AppliesToExternalUnknown'', ''Enabled'', ''ReplyMessage'', ''BodyType'',
    ''DevicePassword'', ''Password'', ''DeviceInformation'', ''Model'', ''IMEI'',
    ''FriendlyName'', ''OS'', ''OSLanguage'', ''PhoneNumber'', ''UserInformation'',
    ''EmailAddresses'', ''SmtpAddress'', ''UserAgent'', ''EnableOutboundSMS'',
    ''MobileOperator'', ''PrimarySmtpAddress'']"

(* src: internal/eas/tokens.go 165-170 tokenPages *)
definition namesItemOperations :: "string list" where
  "namesItemOperations = [
    ''ItemOperations'', ''Fetch'', ''Store'', ''Options'', ''Range'', ''Total'',
    ''Properties'', ''Data'', ''Status'', ''Response'', ''Version'', ''Schema'', ''Part'',
    ''EmptyFolderContents'', ''DeleteSubFolders'', ''UserName'', ''Password'', ''Move'',
    ''DstFldId'', ''ConversationId'', ''MoveAlways'']"

(* src: internal/eas/tokens.go 171-175 tokenPages *)
definition namesComposeMail :: "string list" where
  "namesComposeMail = [
    ''SendMail'', ''SmartForward'', ''SmartReply'', ''SaveInSentItems'', ''ReplaceMime'',
    ''Type'', ''Source'', ''FolderId'', ''ItemId'', ''LongId'', ''InstanceId'', ''Mime'',
    ''ClientId'', ''Status'', ''AccountId'']"

(* src: internal/eas/tokens.go 176-182 tokenPages *)
definition namesEmail2 :: "string list" where
  "namesEmail2 = [
    ''UmCallerID'', ''UmUserNotes'', ''UmAttDuration'', ''UmAttOrder'', ''ConversationId'',
    ''ConversationIndex'', ''LastVerbExecuted'', ''LastVerbExecutionTime'', ''ReceivedAsBcc'',
    ''Sender'', ''CalendarType'', ''IsLeapMonth'', ''AccountId'', ''FirstDayOfWeek'',
    ''MeetingMessageType'', [], ''IsDraft'', ''Bcc'', ''Send'']"

text \<open>The map \<open>tokenPages\<close>; its keys are distinct, so the order of the entries does not matter.\<close>

(* src: internal/eas/tokens.go 26-27 tokenPages *)
definition tokenPages :: "(int \<times> string list) list" where
  "tokenPages = [
    (pageAirSync, namesAirSync),
    (pageContacts, namesContacts),
    (pageEmail, namesEmail),
    (pageCalendar, namesCalendar),
    (pageMove, namesMove),
    (pageGetItemEstimate, namesGetItemEstimate),
    (pageFolderHierarchy, namesFolderHierarchy),
    (pagePing, namesPing),
    (pageMeetingResponse, namesMeetingResponse),
    (pageResolveRecipients, namesResolveRecipients),
    (pageSearch, namesSearch),
    (pageGAL, namesGAL),
    (pageProvision, namesProvision),
    (pageAirSyncBase, namesAirSyncBase),
    (pageSettings, namesSettings),
    (pageItemOperations, namesItemOperations),
    (pageComposeMail, namesComposeMail),
    (pageEmail2, namesEmail2)]"

lemmas page_defs =
  pageAirSync_def pageContacts_def pageEmail_def pageCalendar_def pageMove_def pageGetItemEstimate_def pageFolderHierarchy_def pageMeetingResponse_def pageResolveRecipients_def pagePing_def pageProvision_def pageSearch_def pageGAL_def pageAirSyncBase_def pageSettings_def pageItemOperations_def pageComposeMail_def pageEmail2_def

lemmas names_defs =
  namesAirSync_def namesContacts_def namesEmail_def namesCalendar_def namesMove_def namesGetItemEstimate_def namesFolderHierarchy_def namesPing_def namesMeetingResponse_def namesResolveRecipients_def namesSearch_def namesGAL_def namesProvision_def namesAirSyncBase_def namesSettings_def namesItemOperations_def namesComposeMail_def namesEmail2_def

section \<open>The codec\<close>

(* src: internal/eas/tokens.go 185-188 wbxmlCodec *)
record wbxmlCodec =
  cd_tokens :: "int \<rightharpoonup> (string \<rightharpoonup> byte)"
  cd_names :: "int \<rightharpoonup> (byte \<rightharpoonup> string)"

text \<open>The inner loop: \<open>i\<close> is the index in the list.\<close>

(* src: internal/eas/tokens.go 200-207 newCodec *)
fun load_names :: "nat \<Rightarrow> string list \<Rightarrow> (string \<rightharpoonup> byte) \<Rightarrow> (byte \<rightharpoonup> string) \<Rightarrow>
    (string \<rightharpoonup> byte) \<times> (byte \<rightharpoonup> string)" where
  "load_names i [] tk nm = (tk, nm)"
| "load_names i (name # list) tk nm =
    (if name = [] then load_names (Suc i) list tk nm
     else let tok = word_of_nat (i + 5) in load_names (Suc i) list (tk(name \<mapsto> tok)) (nm(tok \<mapsto> name)))"

(* src: internal/eas/tokens.go 197-208 newCodec *)
fun load_pages :: "(int \<times> string list) list \<Rightarrow> wbxmlCodec \<Rightarrow> wbxmlCodec" where
  "load_pages [] c = c"
| "load_pages ((page, list) # ps) c =
    (let (tk, nm) = load_names 0 list Map.empty Map.empty
     in load_pages ps \<lparr>cd_tokens = (cd_tokens c)(page \<mapsto> tk), cd_names = (cd_names c)(page \<mapsto> nm)\<rparr>)"

(* src: internal/eas/tokens.go 190-210 newCodec *)
definition newCodec :: wbxmlCodec where
  "newCodec = load_pages tokenPages \<lparr>cd_tokens = Map.empty, cd_names = Map.empty\<rparr>"

(* src: internal/eas/tokens.go 212-219 wbxmlCodec.Token *)
definition Token :: "wbxmlCodec \<Rightarrow> int \<Rightarrow> string \<Rightarrow> byte option" where
  "Token c page name = (case cd_tokens c page of None \<Rightarrow> None | Some m \<Rightarrow> m name)"

(* src: internal/eas/tokens.go 221-228 wbxmlCodec.Name *)
definition Name :: "wbxmlCodec \<Rightarrow> int \<Rightarrow> byte \<Rightarrow> string option" where
  "Name c page token = (case cd_names c page of None \<Rightarrow> None | Some m \<Rightarrow> m token)"

definition codec :: lookup where
  "codec = \<lparr>lk_token = Token newCodec, lk_name = Name newCodec\<rparr>"

section \<open>The codec keeps the contract of the format\<close>

definition page_ok :: "nat \<Rightarrow> (string \<rightharpoonup> byte) \<Rightarrow> (byte \<rightharpoonup> string) \<Rightarrow> bool" where
  "page_ok i tk nm \<longleftrightarrow>
     (\<forall>n t. tk n = Some t \<longrightarrow> nm t = Some n \<and> n \<noteq> [] \<and> 5 \<le> unat t \<and> unat t < i + 5)"

lemma page_ok_step:
  assumes "page_ok i tk nm" "n \<noteq> []" "i + 5 < 64"
  shows "page_ok (Suc i) (tk(n \<mapsto> word_of_nat (i + 5))) (nm(word_of_nat (i + 5) \<mapsto> n))"
proof -
  have u: "unat (word_of_nat (i + 5) :: byte) = i + 5"
    using assms(3) by (simp only: unsigned_of_nat take_bit_eq_mod) simp
  show ?thesis unfolding page_ok_def
  proof (intro allI impI)
    fix m t assume m: "(tk(n \<mapsto> word_of_nat (i + 5))) m = Some t"
    show "(nm(word_of_nat (i + 5) \<mapsto> n)) t = Some m \<and> m \<noteq> [] \<and> 5 \<le> unat t \<and> unat t < Suc i + 5"
    proof (cases "m = n")
      case True
      then have "t = word_of_nat (i + 5)" using m by simp
      then show ?thesis using True u assms(2) by (simp del: of_nat_add)
    next
      case False
      then have "tk m = Some t" using m by simp
      then have t: "nm t = Some m" "m \<noteq> []" "5 \<le> unat t" "unat t < i + 5"
        using assms(1) by (auto simp: page_ok_def)
      then have "t \<noteq> word_of_nat (i + 5)" using u by auto
      with t show ?thesis by simp
    qed
  qed
qed

lemma page_ok_mono: "page_ok i tk nm \<Longrightarrow> page_ok (Suc i) tk nm"
  by (force simp: page_ok_def)

lemma load_names_ok:
  assumes "page_ok i tk nm" "i + length list + 5 \<le> 64" "load_names i list tk nm = (tk', nm')"
  shows "page_ok (i + length list) tk' nm'"
  using assms
proof (induction list arbitrary: i tk nm)
  case (Cons name list)
  show ?case
  proof (cases "name = []")
    case True
    then show ?thesis using Cons.IH [OF page_ok_mono [OF Cons.prems(1)]] Cons.prems by simp
  next
    case False
    define tok where "tok = (word_of_nat (i + 5) :: byte)"
    have p: "page_ok (Suc i) (tk(name \<mapsto> tok)) (nm(tok \<mapsto> name))"
      unfolding tok_def using False Cons.prems by (intro page_ok_step) simp_all
    have "load_names i (name # list) tk nm = load_names (Suc i) list (tk(name \<mapsto> tok)) (nm(tok \<mapsto> name))"
      using False by (simp add: Let_def tok_def)
    with Cons.prems have "load_names (Suc i) list (tk(name \<mapsto> tok)) (nm(tok \<mapsto> name)) = (tk', nm')"
      by metis
    from Cons.IH [OF p _ this] Cons.prems show ?thesis by simp
  qed
qed simp

definition codec_ok :: "wbxmlCodec \<Rightarrow> bool" where
  "codec_ok c \<longleftrightarrow> (\<forall>p tk. cd_tokens c p = Some tk \<longrightarrow> (\<exists>nm. cd_names c p = Some nm \<and> page_ok 59 tk nm))"

lemma page_ok_le: "page_ok i tk nm \<Longrightarrow> i \<le> j \<Longrightarrow> page_ok j tk nm"
  by (force simp: page_ok_def)

lemma load_pages_ok:
  "codec_ok c \<Longrightarrow> \<forall>(p, list)\<in>set ps. length list \<le> 59 \<Longrightarrow> codec_ok (load_pages ps c)"
proof (induction ps c rule: load_pages.induct)
  case (2 page list ps c)
  obtain tk nm where l: "load_names 0 list Map.empty Map.empty = (tk, nm)" by fastforce
  have "page_ok 0 Map.empty Map.empty" by (simp add: page_ok_def)
  from load_names_ok [OF this _ l] 2(3) have "page_ok (length list) tk nm" by simp
  then have "page_ok 59 tk nm" using 2(3) by (auto intro: page_ok_le)
  with 2 l show ?case by (auto simp: codec_ok_def)
qed simp

lemma table_lengths: "\<forall>(p, list)\<in>set tokenPages. length list \<le> 59"
  unfolding tokenPages_def names_defs by simp

lemma newCodec_ok: "codec_ok newCodec"
  unfolding newCodec_def by (rule load_pages_ok [OF _ table_lengths]) (simp add: codec_ok_def)

lemma codec_law:
  assumes "lk_token codec p n = Some t"
  shows "lk_name codec p t = Some n \<and> n \<noteq> [] \<and> 5 \<le> t \<and> t < 64"
proof -
  from assms obtain tk where "cd_tokens newCodec p = Some tk" "tk n = Some t"
    by (auto simp: codec_def Token_def split: option.splits)
  moreover from this newCodec_ok obtain nm where "cd_names newCodec p = Some nm" "page_ok 59 tk nm"
    by (auto simp: codec_ok_def)
  ultimately show ?thesis
    by (auto simp: codec_def Name_def page_ok_def word_le_nat_alt word_less_nat_alt)
qed

interpretation eas: wbxml_codec codec
  by unfold_locales (rule codec_law)

section \<open>Evaluating the tables\<close>

fun last_token :: "nat \<Rightarrow> string list \<Rightarrow> string \<Rightarrow> byte option \<Rightarrow> byte option" where
  "last_token i [] n a = a"
| "last_token i (x # xs) n a =
    last_token (Suc i) xs n (if x = n \<and> x \<noteq> [] then Some (word_of_nat (i + 5)) else a)"

lemma load_names_last: "fst (load_names i list tk nm) n = last_token i list n (tk n)"
  by (induction list arbitrary: i tk nm) (auto simp: Let_def simp del: of_nat_add)

lemma load_pages_tokens:
  "distinct (map fst ps) \<Longrightarrow> cd_tokens (load_pages ps c) p =
     (case map_of ps p of None \<Rightarrow> cd_tokens c p
      | Some l \<Rightarrow> Some (fst (load_names 0 l Map.empty Map.empty)))"
proof (induction ps arbitrary: c)
  case (Cons a ps)
  obtain q l where a: "a = (q, l)" by (cases a)
  have "map_of ps q = None" using Cons.prems by (simp add: a map_of_eq_None_iff)
  then show ?case
    using Cons by (cases "p = q") (simp_all add: a split_beta split: option.split)
qed simp

lemma Token_eval:
  "lk_token codec p n = (case map_of tokenPages p of None \<Rightarrow> None | Some l \<Rightarrow> last_token 0 l n None)"
proof -
  have "distinct (map fst tokenPages)" unfolding tokenPages_def page_defs by simp
  from load_pages_tokens [OF this] show ?thesis
    by (simp add: codec_def Token_def newCodec_def load_names_last split: option.splits)
qed

lemmas codec_eval = Token_eval tokenPages_def page_defs names_defs

section \<open>The round trip\<close>

text \<open>C2: what the server writes, a device that decodes by the rules of the format reads back:
  decoding the encoding of a tree gives the tree, with each element's token filled in, text
  dropped beside children and NUL bytes dropped from inline strings, for every tree that
  encodes at all (its names are in the tables) and whose pages and lengths fit the format.\<close>

theorem decode_encode_roundtrip:
  assumes "Encode (Some n) codec = Inr bs" "wf_node n"
  shows "Decode bs codec = Inr (canon codec n)"
  by (rule eas.decode_encode [OF assms])

theorem decode_encode_roundtrip_witness:
  "Encode (Some (wbN 0 ''Sync'' [wbT 0 ''Status'' ''1'', wbB 17 ''Data'' [CHR 0x00, CHR ''b'']])) codec =
     Inr [3, 1, 0x6A, 0, 0x45, 0x4E, 3, 0x31, 0, 1, 0, 17, 0x4B, 0xC3, 2, 0, 0x62, 1, 1] \<and>
   Decode [3, 1, 0x6A, 0, 0x45, 0x4E, 3, 0x31, 0, 1, 0, 17, 0x4B, 0xC3, 2, 0, 0x62, 1, 1] codec =
     Inr (Node 0 ''Sync'' 5 [] [Node 0 ''Status'' 14 ''1'' [] False False,
            Node 17 ''Data'' 11 [CHR 0x00, CHR ''b''] [] True False] False False)"
proof -
  let ?n = "wbN 0 ''Sync'' [wbT 0 ''Status'' ''1'', wbB 17 ''Data'' [CHR 0x00, CHR ''b'']]"
  let ?bs = "[3, 1, 0x6A, 0, 0x45, 0x4E, 3, 0x31, 0, 1, 0, 17, 0x4B, 0xC3, 2, 0, 0x62, 1, 1] :: byte list"
  have t: "lk_token codec 0 ''Sync'' = Some 5" "lk_token codec 0 ''Status'' = Some 14"
    "lk_token codec 17 ''Data'' = Some 11" by (simp_all add: codec_eval)
  have w: "writeMB 17 = [17]" "writeMB 2 = [2]" by code_simp+
  have e: "Encode (Some ?n) codec = Inr ?bs"
    by (simp add: Encode_def wbN_def wbT_def wbB_def t w str_bytes_def replace_byte_def)
  moreover have "Decode ?bs codec = Inr (canon codec ?n)"
    by (rule decode_encode_roundtrip [OF e]) (simp add: wbN_def wbT_def wbB_def)
  ultimately show ?thesis by (simp add: wbN_def wbT_def wbB_def t replace_byte_def)
qed

end
