(* ===== verification/StoreItems.thy ===== *)
theory StoreItems imports StoreMessages begin

text \<open>
  \<open>internal/store/items.go\<close>: contacts, calendar events and the overrides of single
  occurrences. The JSON text of the attendees is the attendee list itself (see
  \<open>StoreBase\<close>): writing and reading it back is the identity.
\<close>

section \<open>Contacts\<close>

definition insert_contact :: "contact \<Rightarrow> db \<Rightarrow> go_error + int \<times> db" where
  "insert_contact c d =
    (if co_user c \<notin> set (user_ids d) \<or> co_folder c \<notin> set (folder_ids d) then Inl ErrForeignKey
     else let i = sq_contacts d + 1 in
       Inr (i, d\<lparr>tb_contacts := tb_contacts d @ [c\<lparr>co_id := i\<rparr>], sq_contacts := i\<rparr>))"

(* src: internal/store/items.go 106-123 Store.InsertContact *)
definition InsertContact :: "contact \<Rightarrow> (store, int) op" where
  "InsertContact c = sql (insert_contact c)"

text \<open>Every column but the id and the owner is written.\<close>

(* src: internal/store/items.go 125-141 Store.UpdateContact *)
definition UpdateContact :: "contact \<Rightarrow> (store, unit) op" where
  "UpdateContact c = sql (\<lambda>d.
     if co_folder c \<notin> set (folder_ids d) \<and> (\<exists>r\<in>set (tb_contacts d). co_id r = co_id c) then Inl ErrForeignKey
     else Inr ((), d\<lparr>tb_contacts := update_where (\<lambda>r. co_id r = co_id c)
       (\<lambda>r. c\<lparr>co_id := co_id r, co_user := co_user r\<rparr>) (tb_contacts d)\<rparr>))"

definition contact_row :: "db \<Rightarrow> int \<Rightarrow> contact option" where
  "contact_row d i = find (\<lambda>c. co_id c = i) (tb_contacts d)"

(* src: internal/store/items.go 143-150 Store.ContactByID *)
definition ContactByID :: "int \<Rightarrow> (store, contact) op" where
  "ContactByID i = get_row (\<lambda>d. filter (\<lambda>c. co_id c = i) (tb_contacts d))"

(* src: internal/store/items.go 152-164 Store.ContactsByFolder *)
definition ContactsByFolder :: "int \<Rightarrow> (store, contact list) op" where
  "ContactsByFolder folderID = getAll (\<lambda>d. sort_key co_file_as (sort_key co_id
     (filter (\<lambda>c. co_folder c = folderID \<and> \<not> co_deleted c) (tb_contacts d))))"

section \<open>Events\<close>

(* src: internal/store/items.go 300-301 Recurrence.Active *)
definition Active :: "recurrence \<Rightarrow> bool" where
  "Active r \<longleftrightarrow> rc_interval r > 0"

(* src: internal/store/items.go 305-313 Store.InsertEvent *)
definition event_defaults :: "int \<Rightarrow> event \<Rightarrow> event" where
  "event_defaults now e0 =
    (let e1 = e0\<lparr>ev_busy := (if ev_busy e0 = 0 then 2 else ev_busy e0)\<rparr>;
         e2 = e1\<lparr>ev_dtstamp := (if ev_dtstamp e1 = 0 then now else ev_dtstamp e1)\<rparr>
     in e2\<lparr>ev_modified := (if ev_modified e2 = 0 then ev_dtstamp e2 else ev_modified e2)\<rparr>)"

definition insert_event :: "event \<Rightarrow> db \<Rightarrow> go_error + int \<times> db" where
  "insert_event e d =
    (if ev_user e \<notin> set (user_ids d) \<or> ev_folder e \<notin> set (folder_ids d) then Inl ErrForeignKey
     else let i = sq_events d + 1 in
       Inr (i, d\<lparr>tb_events := tb_events d @ [e\<lparr>ev_id := i, ev_exceptions := []\<rparr>], sq_events := i\<rparr>))"

(* src: internal/store/items.go 303-334 Store.InsertEvent *)
definition InsertEvent :: "event \<Rightarrow> (store, int) op" where
  "InsertEvent e s = sql (insert_event (event_defaults (nowUnix s) e)) s"

(* src: internal/store/items.go 336-357 Store.UpdateEvent *)
definition UpdateEvent :: "event \<Rightarrow> (store, unit) op" where
  "UpdateEvent e s = sql (\<lambda>d.
     if ev_folder e \<notin> set (folder_ids d) \<and> (\<exists>r\<in>set (tb_events d). ev_id r = ev_id e) then Inl ErrForeignKey
     else Inr ((), d\<lparr>tb_events := update_where (\<lambda>r. ev_id r = ev_id e)
       (\<lambda>r. e\<lparr>ev_id := ev_id r, ev_user := ev_user r, ev_exceptions := [],
              ev_sequence := ev_sequence r + 1, ev_modified := nowUnix s\<rparr>) (tb_events d)\<rparr>)) s"

definition event_row :: "db \<Rightarrow> int \<Rightarrow> event option" where
  "event_row d i = find (\<lambda>e. ev_id e = i) (tb_events d)"

(* src: internal/store/items.go 359-366 Store.EventByID *)
definition EventByID :: "int \<Rightarrow> (store, event) op" where
  "EventByID i = get_row (\<lambda>d. filter (\<lambda>e. ev_id e = i) (tb_events d))"

(* src: internal/store/items.go 368-378 Store.EventByUID *)
definition EventByUID :: "string \<Rightarrow> string \<Rightarrow> (store, event) op" where
  "EventByUID userID uid = get_row (\<lambda>d. limit_rows 1 (sort_desc ev_id
     (filter (\<lambda>e. ev_user e = userID \<and> ev_uid e = uid \<and> \<not> ev_deleted e) (tb_events d))))"

(* src: internal/store/items.go 380-388 Store.EventsByFolder *)
definition EventsByFolder :: "int \<Rightarrow> (store, event list) op" where
  "EventsByFolder folderID = getAll (\<lambda>d. sort_key ev_start (sort_key ev_id
     (filter (\<lambda>e. ev_folder e = folderID \<and> \<not> ev_deleted e) (tb_events d))))"

section \<open>Occurrence overrides\<close>

definition exceptions_of :: "int \<Rightarrow> db \<Rightarrow> event_exception list" where
  "exceptions_of eventID d =
     sort_key ex_occurrence (map snd (filter (\<lambda>(e, x). e = eventID) (tb_exceptions d)))"

(* src: internal/store/items.go 439-455 Store.EventExceptions *)
definition EventExceptions :: "int \<Rightarrow> (store, event_exception list) op" where
  "EventExceptions eventID = getAll (exceptions_of eventID)"

text \<open>The map of the code as a function; a missing key is the empty list.\<close>

(* src: internal/store/items.go 457-476 Store.ExceptionsByFolder *)
definition ExceptionsByFolder :: "int \<Rightarrow> (store, int \<Rightarrow> event_exception list) op" where
  "ExceptionsByFolder folderID = getAll (\<lambda>d.
     let live = set (map ev_id (filter (\<lambda>e. ev_folder e = folderID \<and> \<not> ev_deleted e) (tb_events d)));
         rows = sort_key fst (sort_key (\<lambda>(e, x). ex_occurrence x)
           (filter (\<lambda>(e, x). e \<in> live) (tb_exceptions d)))
     in (\<lambda>i. map snd (filter (\<lambda>(e, x). e = i) rows)))"

definition insert_exception :: "int \<Rightarrow> event_exception \<Rightarrow> db \<Rightarrow> go_error + unit \<times> db" where
  "insert_exception eventID x d =
    (if (eventID, ex_occurrence x) \<in> (\<lambda>(e, y). (e, ex_occurrence y)) ` set (tb_exceptions d) then Inl ErrUnique
     else if eventID \<notin> ev_id ` set (tb_events d) then Inl ErrForeignKey
     else Inr ((), d\<lparr>tb_exceptions := tb_exceptions d @ [(eventID, x)]\<rparr>))"

fun insert_exceptions :: "int \<Rightarrow> event_exception list \<Rightarrow> (store, unit) op" where
  "insert_exceptions eventID [] = okE ()"
| "insert_exceptions eventID (x # xs) =
     bindE (sql (insert_exception eventID x)) (\<lambda>_. insert_exceptions eventID xs)"

(* src: internal/store/items.go 520-526 touchEventTx *)
definition touchEventTx :: "int \<Rightarrow> (store, unit) op" where
  "touchEventTx eventID s = exec (\<lambda>d. d\<lparr>tb_events := update_where (\<lambda>r. ev_id r = eventID)
     (\<lambda>r. r\<lparr>ev_sequence := ev_sequence r + 1, ev_modified := nowUnix s\<rparr>) (tb_events d)\<rparr>) s"

definition drop_exceptions :: "int \<Rightarrow> db \<Rightarrow> db" where
  "drop_exceptions eventID d = d\<lparr>tb_exceptions := filter (\<lambda>(e, x). e \<noteq> eventID) (tb_exceptions d)\<rparr>"

(* src: internal/store/items.go 478-496 Store.ReplaceEventExceptions *)
definition ReplaceEventExceptions :: "int \<Rightarrow> event_exception list \<Rightarrow> (store, unit) op" where
  "ReplaceEventExceptions eventID list = inTx (
     bindE (exec (drop_exceptions eventID)) (\<lambda>_.
     bindE (insert_exceptions eventID list) (\<lambda>_. touchEventTx eventID)))"

definition empty_exception :: event_exception where
  "empty_exception = \<lparr>ex_occurrence = 0, ex_deleted = False, ex_subject = [], ex_location = [], ex_body = [],
     ex_start = 0, ex_end = 0, ex_all_day = False, ex_busy = 0, ex_sensitivity = 0, ex_reminder = 0,
     ex_meeting = 0\<rparr>"

(* src: internal/store/items.go 498-518 Store.SetExceptionMeetingStatus *)
definition SetExceptionMeetingStatus :: "int \<Rightarrow> int \<Rightarrow> int \<Rightarrow> (store, unit) op" where
  "SetExceptionMeetingStatus eventID occurrence status =
    (let P = \<lambda>(e, x). e = eventID \<and> ex_occurrence x = occurrence in
     inTx (
     bindE (exec_count (\<lambda>d. length (filter P (tb_exceptions d)))
        (\<lambda>d. d\<lparr>tb_exceptions := update_where P (\<lambda>(e, x). (e, x\<lparr>ex_meeting := status\<rparr>)) (tb_exceptions d)\<rparr>)) (\<lambda>n.
     bindE (if n = 0 then sql (insert_exception eventID
               (empty_exception\<lparr>ex_occurrence := occurrence, ex_meeting := status\<rparr>)) else okE ()) (\<lambda>_.
     touchEventTx eventID))))"

section \<open>The invariant\<close>

lemma db_okD_items:
  assumes "db_ok d"
  shows "ids_ok co_id (sq_contacts d) (tb_contacts d)" "refs_ok co_user (tb_contacts d) (map us_id (tb_users d))"
    "refs_ok co_folder (tb_contacts d) (map fo_id (tb_folders d))"
    "ids_ok ev_id (sq_events d) (tb_events d)" "refs_ok ev_user (tb_events d) (map us_id (tb_users d))"
    "refs_ok ev_folder (tb_events d) (map fo_id (tb_folders d))"
    "distinct (map (\<lambda>(e, x). (e, ex_occurrence x)) (tb_exceptions d))"
    "refs_ok fst (tb_exceptions d) (map ev_id (tb_events d))"
  using assms by (simp_all add: db_ok_def calendar_ok_def)

lemma db_ok_contacts:
  "db_ok d \<Longrightarrow> ids_ok co_id n cs \<Longrightarrow> refs_ok co_user cs (map us_id (tb_users d)) \<Longrightarrow>
   refs_ok co_folder cs (map fo_id (tb_folders d)) \<Longrightarrow> db_ok (d\<lparr>tb_contacts := cs, sq_contacts := n\<rparr>)"
  by (simp add: db_ok_def db_parts)

lemma db_ok_events:
  assumes "db_ok d" "ids_ok ev_id n es" "refs_ok ev_user es (map us_id (tb_users d))"
    and "refs_ok ev_folder es (map fo_id (tb_folders d))" "set (map ev_id (tb_events d)) \<subseteq> set (map ev_id es)"
  shows "db_ok (d\<lparr>tb_events := es, sq_events := n\<rparr>)"
proof -
  have "refs_ok fst (tb_exceptions d) (map ev_id es)"
    by (rule refs_ok_mono [of _ _ "map ev_id (tb_events d)"])
       (use assms(1,5) in \<open>simp_all add: db_ok_def calendar_ok_def\<close>)
  then show ?thesis using assms(1-4) by (simp add: db_ok_def db_parts)
qed

lemma db_ok_exceptions:
  "db_ok d \<Longrightarrow> distinct (map (\<lambda>(e, x). (e, ex_occurrence x)) xs) \<Longrightarrow> refs_ok fst xs (map ev_id (tb_events d)) \<Longrightarrow>
   db_ok (d\<lparr>tb_exceptions := xs\<rparr>)"
  by (simp add: db_ok_def db_parts)

lemma keeps_InsertContact [keeps_intros]: "keeps store_ok (InsertContact c)"
  unfolding InsertContact_def
  by (rule keeps_sql) (auto simp: keeps_db_def insert_contact_def Let_def user_ids_def folder_ids_def db_okD_items
      split: if_splits intro!: db_ok_contacts ids_ok_append)

lemma upd_same_sq:
  "d\<lparr>tb_contacts := cs, sq_contacts := sq_contacts d\<rparr> = d\<lparr>tb_contacts := cs\<rparr>"
  "d\<lparr>tb_events := es, sq_events := sq_events d\<rparr> = d\<lparr>tb_events := es\<rparr>"
  by simp_all

lemma keeps_UpdateContact [keeps_intros]: "keeps store_ok (UpdateContact c)"
  unfolding UpdateContact_def
proof (rule keeps_sql, unfold keeps_db_def, intro allI impI)
  fix d :: db and x d'
  let ?f = "\<lambda>r. c\<lparr>co_id := co_id r, co_user := co_user r\<rparr>"
  let ?cs = "update_where (\<lambda>r. co_id r = co_id c) ?f (tb_contacts d)"
  assume d: "db_ok d" and e: "(if co_folder c \<notin> set (folder_ids d) \<and> (\<exists>r\<in>set (tb_contacts d). co_id r = co_id c)
     then Inl ErrForeignKey else Inr ((), d\<lparr>tb_contacts := ?cs\<rparr>)) = Inr (x, d')"
  have "refs_ok co_folder ?cs (map fo_id (tb_folders d))"
    using db_okD_items(3) [OF d] e by (auto simp: refs_ok_def set_update_where folder_ids_def split: if_splits)
  moreover have "refs_ok co_user ?cs (map us_id (tb_users d))"
    using db_okD_items(2) [OF d] by (rule refs_ok_update) simp
  ultimately have "db_ok (d\<lparr>tb_contacts := ?cs, sq_contacts := sq_contacts d\<rparr>)"
    using db_okD_items(1) [OF d] by (intro db_ok_contacts d ids_ok_update) simp_all
  then show "db_ok d'" using e by (simp split: if_splits)
qed

lemma keeps_InsertEvent [keeps_intros]: "keeps store_ok (InsertEvent e)"
proof -
  have "keeps store_ok (sql (insert_event e))" for e
    by (rule keeps_sql) (auto simp: keeps_db_def insert_event_def Let_def user_ids_def folder_ids_def db_okD_items
        split: if_splits intro!: db_ok_events ids_ok_append)
  then show ?thesis by (simp add: keeps_def InsertEvent_def)
qed

lemma keeps_UpdateEvent [keeps_intros]: "keeps store_ok (UpdateEvent e)"
proof -
  have "keeps store_ok (sql (\<lambda>d.
     if ev_folder e \<notin> set (folder_ids d) \<and> (\<exists>r\<in>set (tb_events d). ev_id r = ev_id e) then Inl ErrForeignKey
     else Inr ((), d\<lparr>tb_events := update_where (\<lambda>r. ev_id r = ev_id e)
       (\<lambda>r. e\<lparr>ev_id := ev_id r, ev_user := ev_user r, ev_exceptions := [],
              ev_sequence := ev_sequence r + 1, ev_modified := t\<rparr>) (tb_events d)\<rparr>)))" for t
  proof (rule keeps_sql, unfold keeps_db_def, intro allI impI)
    fix d :: db and x d'
    let ?f = "\<lambda>r. e\<lparr>ev_id := ev_id r, ev_user := ev_user r, ev_exceptions := [],
              ev_sequence := ev_sequence r + 1, ev_modified := t\<rparr>"
    let ?es = "update_where (\<lambda>r. ev_id r = ev_id e) ?f (tb_events d)"
    assume d: "db_ok d" and u: "(if ev_folder e \<notin> set (folder_ids d) \<and> (\<exists>r\<in>set (tb_events d). ev_id r = ev_id e)
       then Inl ErrForeignKey else Inr ((), d\<lparr>tb_events := ?es\<rparr>)) = Inr (x, d')"
    have i: "map ev_id ?es = map ev_id (tb_events d)" by (rule map_update_where) simp
    have "refs_ok ev_folder ?es (map fo_id (tb_folders d))"
      using db_okD_items(6) [OF d] u by (auto simp: refs_ok_def set_update_where folder_ids_def split: if_splits)
    moreover have "refs_ok ev_user ?es (map us_id (tb_users d))"
      using db_okD_items(5) [OF d] by (rule refs_ok_update) simp
    ultimately have "db_ok (d\<lparr>tb_events := ?es, sq_events := sq_events d\<rparr>)"
      using db_okD_items(4) [OF d] i by (intro db_ok_events d ids_ok_update) simp_all
    then show "db_ok d'" using u by (simp split: if_splits)
  qed
  then show ?thesis by (simp add: keeps_def UpdateEvent_def)
qed

lemma keeps_touchEventTx [keeps_intros]: "keeps store_ok (touchEventTx i)"
proof -
  have "keeps store_ok (exec (\<lambda>d. d\<lparr>tb_events := update_where (\<lambda>r. ev_id r = i)
     (\<lambda>r. r\<lparr>ev_sequence := ev_sequence r + 1, ev_modified := t\<rparr>) (tb_events d)\<rparr>))" for t
  proof (rule keeps_exec)
    fix d assume d: "db_ok d"
    let ?es = "update_where (\<lambda>r. ev_id r = i) (\<lambda>r. r\<lparr>ev_sequence := ev_sequence r + 1, ev_modified := t\<rparr>) (tb_events d)"
    have "map ev_id ?es = map ev_id (tb_events d)" by (rule map_update_where) simp
    then have "db_ok (d\<lparr>tb_events := ?es, sq_events := sq_events d\<rparr>)"
      using db_okD_items [OF d] by (intro db_ok_events d ids_ok_update refs_ok_update) simp_all
    then show "db_ok (d\<lparr>tb_events := ?es\<rparr>)" by simp
  qed
  then show ?thesis by (simp add: keeps_def touchEventTx_def)
qed

lemma keeps_insert_exception [keeps_intros]: "keeps store_ok (sql (insert_exception i x))"
  by (rule keeps_sql) (auto simp: keeps_db_def insert_exception_def db_okD_items image_iff
      split: if_splits intro!: db_ok_exceptions)

lemma keeps_insert_exceptions [keeps_intros]: "keeps store_ok (insert_exceptions i xs)"
  by (induction xs) (simp_all only: insert_exceptions.simps keeps_okE keeps_bindE keeps_insert_exception)

lemma keeps_drop_exceptions [keeps_intros]: "keeps store_ok (exec (drop_exceptions i))"
  by (rule keeps_exec) (auto simp: drop_exceptions_def db_okD_items intro!: db_ok_exceptions
      distinct_map_filter refs_ok_filter)

lemma keeps_ReplaceEventExceptions [keeps_intros]: "keeps store_ok (ReplaceEventExceptions i xs)"
  unfolding ReplaceEventExceptions_def by (intro keeps_intros)

lemma keeps_SetExceptionMeetingStatus [keeps_intros]: "keeps store_ok (SetExceptionMeetingStatus i o' st)"
proof -
  let ?P = "\<lambda>(e, x). e = i \<and> ex_occurrence x = o'"
  let ?f = "\<lambda>(e, x). (e, x\<lparr>ex_meeting := st\<rparr>)"
  have "keeps store_ok (exec_count (\<lambda>d. length (filter ?P (tb_exceptions d)))
        (\<lambda>d. d\<lparr>tb_exceptions := update_where ?P ?f (tb_exceptions d)\<rparr>))"
  proof (rule keeps_exec_count)
    fix d assume d: "db_ok d"
    have "map (\<lambda>(e, x). (e, ex_occurrence x)) (update_where ?P ?f (tb_exceptions d)) =
        map (\<lambda>(e, x). (e, ex_occurrence x)) (tb_exceptions d)"
      by (rule map_update_where) auto
    then show "db_ok (d\<lparr>tb_exceptions := update_where ?P ?f (tb_exceptions d)\<rparr>)"
      using db_okD_items(7,8) [OF d] by (intro db_ok_exceptions d refs_ok_update) auto
  qed
  then show ?thesis unfolding SetExceptionMeetingStatus_def Let_def
    by (intro keeps_inTx keeps_bindE keeps_if keeps_insert_exception keeps_okE keeps_touchEventTx)
qed

lemma keeps_item_reads [keeps_intros]:
  "keeps store_ok (ContactByID i)" "keeps store_ok (ContactsByFolder f)" "keeps store_ok (EventByID i)"
  "keeps store_ok (EventByUID u v)" "keeps store_ok (EventsByFolder f)" "keeps store_ok (EventExceptions i)"
  "keeps store_ok (ExceptionsByFolder f)"
  by (simp_all add: ContactByID_def ContactsByFolder_def EventByID_def EventByUID_def EventsByFolder_def
      EventExceptions_def ExceptionsByFolder_def keeps_getAll keeps_get_row)

section \<open>Properties\<close>

lemma EventByID_eval:
  "st_faults s = [] \<Longrightarrow> EventByID i s =
    (case event_row (st_db s) i of None \<Rightarrow> (Inl ErrNotFound, s) | Some m \<Rightarrow> (Inr m, s))"
  by (simp add: EventByID_def event_row_def get_find_eval)

lemma ContactByID_eval:
  "st_faults s = [] \<Longrightarrow> ContactByID i s =
    (case contact_row (st_db s) i of None \<Rightarrow> (Inl ErrNotFound, s) | Some m \<Rightarrow> (Inr m, s))"
  by (simp add: ContactByID_def contact_row_def get_find_eval)

lemma insert_exceptions_Inr:
  "insert_exceptions i xs s = (Inr (), s') \<Longrightarrow>
   st_db s' = (st_db s)\<lparr>tb_exceptions := tb_exceptions (st_db s) @ map (Pair i) xs\<rparr> \<and>
   distinct (map ex_occurrence xs) \<and>
   (\<forall>x\<in>set xs. \<forall>(e, y)\<in>set (tb_exceptions (st_db s)). e = i \<longrightarrow> ex_occurrence y \<noteq> ex_occurrence x)"
proof (induction xs arbitrary: s)
  case (Cons x xs)
  then obtain t where t: "sql (insert_exception i x) s = (Inr (), t)" "insert_exceptions i xs t = (Inr (), s')"
    by (auto simp: bindE_Inr_iff)
  have "(i, ex_occurrence x) \<notin> (\<lambda>(e, y). (e, ex_occurrence y)) ` set (tb_exceptions (st_db s))"
    and d: "st_db t = (st_db s)\<lparr>tb_exceptions := tb_exceptions (st_db s) @ [(i, x)]\<rparr>"
    using t(1) by (auto simp: sql_Inr_iff insert_exception_def split: if_splits)
  then have "\<forall>(e, y)\<in>set (tb_exceptions (st_db s)). e = i \<longrightarrow> ex_occurrence y \<noteq> ex_occurrence x"
    by force
  with Cons.IH [OF t(2)] d show ?case by fastforce
qed auto

lemma insert_exceptions_now: "insert_exceptions i ys a = (Inr (), b) \<Longrightarrow> st_now b = st_now a"
  by (induction ys arbitrary: a) (auto simp: bindE_Inr_iff sql_Inr_iff)

lemma ReplaceEventExceptions_Inr:
  assumes "ReplaceEventExceptions i xs s = (Inr (), s')"
  shows "tb_exceptions (st_db s') = filter (\<lambda>(e, x). e \<noteq> i) (tb_exceptions (st_db s)) @ map (Pair i) xs"
    "tb_events (st_db s') = update_where (\<lambda>r. ev_id r = i)
       (\<lambda>r. r\<lparr>ev_sequence := ev_sequence r + 1, ev_modified := st_now s\<rparr>) (tb_events (st_db s))"
    "distinct (map ex_occurrence xs)"
proof -
  obtain t where t: "bindE (exec (drop_exceptions i)) (\<lambda>_. bindE (insert_exceptions i xs) (\<lambda>_. touchEventTx i))
      (pop_fault s) = (Inr (), t)" "s' = pop_fault t"
    using inTx_commit [OF assms [unfolded ReplaceEventExceptions_def]] by blast
  then obtain u v where u: "exec (drop_exceptions i) (pop_fault s) = (Inr (), u)"
    "insert_exceptions i xs u = (Inr (), v)" "touchEventTx i v = (Inr (), t)"
    unfolding bindE_Inr_iff by (metis (full_types) old.unit.exhaust)
  have du: "st_db u = drop_exceptions i (st_db s)" "st_now u = st_now s" using u(1) by (auto simp: exec_Inr_iff)
  have now: "st_now v = st_now s" using insert_exceptions_now [OF u(2)] du(2) by simp
  have dv: "st_db v = (st_db u)\<lparr>tb_exceptions := tb_exceptions (st_db u) @ map (Pair i) xs\<rparr>"
    "distinct (map ex_occurrence xs)" using insert_exceptions_Inr [OF u(2)] by auto
  have dt: "st_db t = (st_db v)\<lparr>tb_events := update_where (\<lambda>r. ev_id r = i)
       (\<lambda>r. r\<lparr>ev_sequence := ev_sequence r + 1, ev_modified := st_now s\<rparr>) (tb_events (st_db v))\<rparr>"
    using u(3) now by (auto simp: touchEventTx_def exec_Inr_iff nowUnix_def)
  show "tb_exceptions (st_db s') = filter (\<lambda>(e, x). e \<noteq> i) (tb_exceptions (st_db s)) @ map (Pair i) xs"
    "tb_events (st_db s') = update_where (\<lambda>r. ev_id r = i)
       (\<lambda>r. r\<lparr>ev_sequence := ev_sequence r + 1, ev_modified := st_now s\<rparr>) (tb_events (st_db s))"
    using t(2) dt dv du(1) by (simp_all add: drop_exceptions_def)
  show "distinct (map ex_occurrence xs)" by (rule dv(2))
qed

lemma exceptions_replaced:
  assumes "tb_exceptions d' = filter (\<lambda>(e, x). e \<noteq> i) (tb_exceptions d) @ map (Pair i) xs"
  shows "exceptions_of j d' = (if j = i then sort_key ex_occurrence xs else exceptions_of j d)"
proof -
  have "filter (\<lambda>(e, x). e = i) (tb_exceptions d') = map (Pair i) xs"
    unfolding assms by (simp add: filter_map comp_def filter_empty_conv split_beta)
  moreover have "filter (\<lambda>(e, x). e = j) (tb_exceptions d') = filter (\<lambda>(e, x). e = j) (tb_exceptions d)" if "j \<noteq> i"
  proof -
    have "filter (\<lambda>(e, x). e = j) (filter (\<lambda>(e, x). e \<noteq> i) ys) = filter (\<lambda>(e, x). e = j) ys"
      for ys :: "(int \<times> event_exception) list"
      using that by (auto intro!: filter_cong)
    then show ?thesis unfolding assms using that by (simp add: filter_map comp_def)
  qed
  ultimately show ?thesis by (simp add: exceptions_of_def comp_def)
qed

text \<open>Storing the overrides of an event replaces all of them, atomically: on success the
  overrides read back are the given ones in order of occurrence (which are distinct), the
  event's revision counter is one higher, and no other event's overrides change; on any
  failure, a repeated occurrence included, the tables are as before.\<close>

theorem ReplaceEventExceptions_spec:
  shows "case ReplaceEventExceptions i xs s of
      (Inl e, s') \<Rightarrow> st_db s' = st_db s
    | (Inr _, s') \<Rightarrow> exceptions_of i (st_db s') = sort_key ex_occurrence xs \<and> distinct (map ex_occurrence xs) \<and>
        (\<forall>j. j \<noteq> i \<longrightarrow> exceptions_of j (st_db s') = exceptions_of j (st_db s)) \<and>
        event_row (st_db s') i = map_option (\<lambda>e. e\<lparr>ev_sequence := ev_sequence e + 1,
          ev_modified := nowUnix s\<rparr>) (event_row (st_db s) i)"
proof (cases "ReplaceEventExceptions i xs s")
  case (Pair r s')
  show ?thesis
  proof (cases r)
    case (Inl e)
    then show ?thesis using Pair inTx_rollback by (force simp: ReplaceEventExceptions_def)
  next
    case (Inr x)
    then have "ReplaceEventExceptions i xs s = (Inr (), s')" using Pair by simp
    note R = ReplaceEventExceptions_Inr [OF this]
    let ?f = "\<lambda>r. r\<lparr>ev_sequence := ev_sequence r + 1, ev_modified := st_now s\<rparr>"
    have "event_row (st_db s') i = map_option ?f (event_row (st_db s) i)"
      unfolding event_row_def R(2) by (subst find_update_where) simp_all
    then show ?thesis
      using Pair Inr R(3) exceptions_replaced [OF R(1)] by (simp add: nowUnix_def)
  qed
qed

definition demo_event :: event where
  "demo_event = \<lparr>ev_id = 0, ev_user = ''u'', ev_folder = 1, ev_uid = ''x'', ev_subject = ''standup'',
     ev_location = [], ev_body = [], ev_start = 100, ev_end = 200, ev_dtstamp = 0, ev_all_day = False,
     ev_busy = 0, ev_sensitivity = 0, ev_meeting = 0, ev_reminder = 15, ev_org_name = [], ev_org_email = [],
     ev_attendees = [], ev_recurrence = \<lparr>rc_type = 0, rc_interval = 0, rc_until = 0, rc_occurrences = 0,
       rc_day_of_week = 0, rc_day_of_month = 0, rc_week_of_month = 0, rc_month_of_year = 0\<rparr>,
     ev_sequence = 0, ev_modified = 0, ev_exceptions = [], ev_deleted = False\<rparr>"

theorem ReplaceEventExceptions_spec_witness:
  "let s = snd (InsertEvent demo_event demo_store);
       a = empty_exception\<lparr>ex_occurrence := 900\<rparr>; b = empty_exception\<lparr>ex_occurrence := 300, ex_deleted := True\<rparr>;
       s' = snd (ReplaceEventExceptions 1 [a, b] s)
   in fst (ReplaceEventExceptions 1 [a, b] s) = Inr () \<and> exceptions_of 1 (st_db s') = [b, a] \<and>
      map_option ev_sequence (event_row (st_db s') 1) = Some 1"
proof -
  define s where "s = snd (InsertEvent demo_event demo_store)"
  define a where "a = empty_exception\<lparr>ex_occurrence := 900\<rparr>"
  define b where "b = empty_exception\<lparr>ex_occurrence := 300, ex_deleted := True\<rparr>"
  have s: "st_faults s = []" "tb_events (st_db s) = [(event_defaults 1000 demo_event)\<lparr>ev_id := 1\<rparr>]"
    "tb_exceptions (st_db s) = []"
    by (simp_all add: s_def InsertEvent_def sql_no_fault insert_event_def Let_def demo_defs user_ids_def
        folder_ids_def nowUnix_def event_defaults_def demo_event_def)
  have r: "fst (ReplaceEventExceptions 1 [a, b] s) = Inr ()"
    by (simp add: ReplaceEventExceptions_def inTx_def bindE_def exec_def sql_no_fault s drop_exceptions_def
        insert_exception_def touchEventTx_def a_def b_def empty_exception_def)
  have e: "event_row (st_db s) 1 = Some ((event_defaults 1000 demo_event)\<lparr>ev_id := 1\<rparr>)"
    by (simp add: event_row_def s)
  obtain s' where c: "ReplaceEventExceptions 1 [a, b] s = (Inr (), s')"
    using r by (cases "ReplaceEventExceptions 1 [a, b] s") auto
  have "sort_key ex_occurrence [a, b] = [b, a]" by (simp add: a_def b_def empty_exception_def)
  moreover have "ev_sequence ((event_defaults 1000 demo_event)\<lparr>ev_id := 1\<rparr>) = 0"
    by (simp add: event_defaults_def demo_event_def)
  ultimately show ?thesis
    using ReplaceEventExceptions_spec [where i = 1 and xs = "[a, b]" and s = s] e c
    unfolding s_def [symmetric] a_def [symmetric] b_def [symmetric] Let_def by simp
qed

end
