(* ===== verification/EasData.thy ===== *)
theory EasData imports StoreSettings EasTokens StoreItems begin

text \<open>
  \<open>internal/eas/appdata.go\<close> and the helpers of \<open>server.go\<close>: rendering items of the store as
  \<open>ApplicationData\<close> elements and reading them back.
  \<^item> \<open>env\<close> holds the parts of the Go library that the code only calls: \<open>mail.Address.String\<close>,
    \<open>mail.ParseAddress\<close> and \<open>time.Parse\<close> (for a layout and a value, the Unix time or an error).
  \<^item> Formatting of times (\<open>time.Format\<close>) and standard base64 are written out.
  \<^item> The zero time that \<open>parseEasTime\<close> returns when no layout fits is \<open>zero_time\<close>, its Unix
    time.
\<close>

record env =
  en_addr_string :: "string \<Rightarrow> string \<Rightarrow> string"
  en_parse_address :: "string \<Rightarrow> (string \<times> string) option"
  en_time_parse :: "string \<Rightarrow> string \<Rightarrow> int option"

section \<open>Integers and text\<close>

(* src: internal/eas/server.go 442-445 parseInt *)
definition parseInt :: "string \<Rightarrow> int" where
  "parseInt value = fst (parse_int64 (trim_space value))"

(* src: internal/eas/server.go 447-453 atoiDefault *)
definition atoiDefault :: "string \<Rightarrow> int \<Rightarrow> int" where
  "atoiDefault value def = (let r = parse_int64 (trim_space value) in if snd r then fst r else def)"

(* src: internal/eas/server.go 455-460 boolString *)
definition boolString :: "bool \<Rightarrow> string" where
  "boolString v = (if v then ''1'' else ''0'')"

(* src: internal/eas/server.go 464-464 i64toa *)
definition i64toa :: "int \<Rightarrow> string" where
  "i64toa v = itoa v"

definition len :: "'a list \<Rightarrow> int" where
  "len xs = int (length xs)"

text \<open>\<open>utf8.RuneStart\<close>: the byte is not a continuation byte.\<close>

definition rune_start :: "char \<Rightarrow> bool" where
  "rune_start c = (let n = of_char c :: nat in n < 128 \<or> 192 \<le> n)"

(* src: internal/eas/server.go 511-514 truncateUTF8 *)
fun cut_back :: "string \<Rightarrow> nat \<Rightarrow> nat" where
  "cut_back s 0 = 0"
| "cut_back s (Suc n) = (if rune_start (s ! Suc n) then Suc n else cut_back s n)"

(* src: internal/eas/server.go 507-516 truncateUTF8 *)
definition truncateUTF8 :: "string \<Rightarrow> int \<Rightarrow> string" where
  "truncateUTF8 s mx = (if mx \<le> 0 \<or> len s \<le> mx then s else take (cut_back s (nat mx)) s)"

(* src: internal/eas/server.go 331-346 containsElement *)
fun containsElement :: "node \<Rightarrow> string \<Rightarrow> bool" where
  "containsElement (Node p nm tk tx cs b f) name \<longleftrightarrow>
     nm = name \<or> list_ex (\<lambda>c. containsElement c name) cs"

section \<open>Base64\<close>

definition b64_alphabet :: string where
  "b64_alphabet = ''ABCDEFGHIJKLMNOPQRSTUVWXYZabcdefghijklmnopqrstuvwxyz0123456789+/''"

definition b64_char :: "nat \<Rightarrow> char" where
  "b64_char n = b64_alphabet ! n"

definition b64_val :: "char \<Rightarrow> nat option" where
  "b64_val c = index_byte b64_alphabet c"

fun b64_encode :: "string \<Rightarrow> string" where
  "b64_encode [] = []"
| "b64_encode [a] = (let n = of_char a :: nat in
     [b64_char (n div 4), b64_char (n mod 4 * 16), CHR ''='', CHR ''=''])"
| "b64_encode [a, b] = (let n = of_char a * 256 + of_char b :: nat in
     [b64_char (n div 1024), b64_char (n div 16 mod 64), b64_char (n mod 16 * 4), CHR ''=''])"
| "b64_encode (a # b # c # r) = (let n = (of_char a * 256 + of_char b) * 256 + of_char c :: nat in
     [b64_char (n div 262144), b64_char (n div 4096 mod 64), b64_char (n div 64 mod 64), b64_char (n mod 64)]
     @ b64_encode r)"

text \<open>The decoder of \<open>StdEncoding\<close>: line breaks are skipped, the padding is required and ends
  the text, and the unused low bits of the last group are not checked.\<close>

fun b64_groups :: "string \<Rightarrow> string option" where
  "b64_groups [] = Some []"
| "b64_groups (a # b # c # d # r) =
    (case (b64_val a, b64_val b) of
       (Some x, Some y) \<Rightarrow>
         if c = CHR ''='' then
           (if d = CHR ''='' \<and> r = [] then Some [char_of ((x * 64 + y) div 16)] else None)
         else (case b64_val c of
             None \<Rightarrow> None
           | Some z \<Rightarrow>
               if d = CHR ''='' then
                 (if r = [] then Some [char_of (((x * 64 + y) * 64 + z) div 1024),
                                       char_of (((x * 64 + y) * 64 + z) div 4 mod 256)] else None)
               else (case (b64_val d, b64_groups r) of
                   (Some w, Some t) \<Rightarrow>
                     (let n = ((x * 64 + y) * 64 + z) * 64 + w in
                      Some (char_of (n div 65536) # char_of (n div 256 mod 256) # char_of (n mod 256) # t))
                 | _ \<Rightarrow> None))
     | _ \<Rightarrow> None)"
| "b64_groups _ = None"

definition b64_decode :: "string \<Rightarrow> string option" where
  "b64_decode s = b64_groups (filter (\<lambda>c. c \<noteq> CHR 0x0D \<and> c \<noteq> CHR 0x0A) s)"

section \<open>Times\<close>

text \<open>The civil date of a day number (day 0 is 1 January 1970), in the proleptic Gregorian
  calendar, by the usual split into eras of 400 years.\<close>

definition civil :: "int \<Rightarrow> int \<times> int \<times> int" where
  "civil days =
    (let z = days + 719468; era = z div 146097; doe = z mod 146097;
         yoe = (doe - doe div 1460 + doe div 36524 - doe div 146096) div 365;
         doy = doe - (365 * yoe + yoe div 4 - yoe div 100);
         mp = (5 * doy + 2) div 153;
         d = doy - (153 * mp + 2) div 5 + 1;
         m = (if mp < 10 then mp + 3 else mp - 9);
         y = yoe + era * 400
     in (if m \<le> 2 then y + 1 else y, m, d))"

definition pad :: "nat \<Rightarrow> int \<Rightarrow> string" where
  "pad w n = (let ds = nat_str (nat \<bar>n\<bar>) in
     (if n < 0 then [CHR ''-''] else []) @ replicate (w - length ds) CHR ''0'' @ ds)"

(* src: internal/eas/server.go 489-491 formatEasTime *)
definition formatEasTime :: "int \<Rightarrow> string" where
  "formatEasTime unix = (let (y, m, d) = civil (unix div 86400); sec = unix mod 86400 in
     pad 4 y @ ''-'' @ pad 2 m @ ''-'' @ pad 2 d @ ''T'' @ pad 2 (sec div 3600) @ '':'' @
     pad 2 (sec div 60 mod 60) @ '':'' @ pad 2 (sec mod 60) @ ''.000Z'')"

(* src: internal/eas/appdata.go 265-270 formatEasCalendarTime *)
definition formatEasCalendarTime :: "int \<Rightarrow> string" where
  "formatEasCalendarTime unix = (let (y, m, d) = civil (unix div 86400); sec = unix mod 86400 in
     pad 4 y @ pad 2 m @ pad 2 d @ ''T'' @ pad 2 (sec div 3600) @
     pad 2 (sec div 60 mod 60) @ pad 2 (sec mod 60) @ ''Z'')"

(* src: internal/eas/server.go 466-487 easTimeLayouts *)
definition easTimeLayouts :: "string list" where
  "easTimeLayouts =
    [''2006-01-02T15:04:05.000Z'', ''2006-01-02T15:04:05Z'', ''2006-01-02T15:04:05.0000000Z'',
     ''2006-01-02T15:04:05.000000Z'', ''20060102T150405Z'', ''20060102T150405'',
     ''2006-01-02T15:04:05.000'', ''2006-01-02T15:04:05'', ''2006-01-02 15:04:05.000Z'',
     ''2006-01-02 15:04:05Z'', ''2006-01-02 15:04:05.000'', ''2006-01-02 15:04:05'',
     ''2006-01-02T15:04:05.999999999Z07:00'', ''2006-01-02T15:04:05Z07:00'',
     ''2006-01-02T15:04:05.000Z07:00'', ''2006-01-02T15:04:05Z07:00'',
     ''2006-01-02T15:04:05.000Z0700'', ''2006-01-02T15:04:05Z0700'']"

definition zero_time :: int where
  "zero_time = - 62135596800"

fun first_parse :: "env \<Rightarrow> string list \<Rightarrow> string \<Rightarrow> int" where
  "first_parse E [] v = zero_time"
| "first_parse E (l # ls) v = (case en_time_parse E l v of Some t \<Rightarrow> t | None \<Rightarrow> first_parse E ls v)"

(* src: internal/eas/server.go 493-505 parseEasTime *)
definition parseEasTime :: "env \<Rightarrow> string \<Rightarrow> int" where
  "parseEasTime E value0 =
    (let v = trim_right (\<lambda>c. c = CHR 0x00) (trim_space value0);
         v = (if has_suffix v ''z'' then take (length v - 1) v @ ''Z'' else v)
     in first_parse E easTimeLayouts v)"


section \<open>Body preferences\<close>

(* src: internal/eas/appdata.go 25-36 bodyPref *)
record bodyPref =
  bp_type :: int
  bp_truncation :: int
  bp_all_or_none :: bool
  bp_part_type :: int
  bp_part_truncation :: int
  bp_part_all_or_none :: bool

(* src: internal/eas/appdata.go 38-54 bodyPrefFrom *)
definition bodyPrefFrom :: "node option \<Rightarrow> bodyPref" where
  "bodyPrefFrom options =
    (let pref = \<lparr>bp_type = 2, bp_truncation = 0, bp_all_or_none = False, bp_part_type = 0,
                 bp_part_truncation = 0, bp_part_all_or_none = False\<rparr> in
     if options = None then pref
     else let pref = (case Child options ''BodyPreference'' of None \<Rightarrow> pref
              | Some bp \<Rightarrow> pref\<lparr>bp_type := atoiDefault (ChildText (Some bp) ''Type'') 2,
                  bp_truncation := atoiDefault (ChildText (Some bp) ''Truncation'') 0,
                  bp_all_or_none := ChildText (Some bp) ''AllOrNone'' = ''1''\<rparr>)
          in (case Child options ''BodyPartPreference'' of None \<Rightarrow> pref
              | Some bp \<Rightarrow> pref\<lparr>bp_part_type := atoiDefault (ChildText (Some bp) ''Type'') 0,
                  bp_part_truncation := atoiDefault (ChildText (Some bp) ''Truncation'') 0,
                  bp_part_all_or_none := ChildText (Some bp) ''AllOrNone'' = ''1''\<rparr>))"

(* src: internal/eas/appdata.go 56-82 bodyData *)
definition bodyData :: "message \<Rightarrow> int \<Rightarrow> int \<Rightarrow> string \<times> bool" where
  "bodyData m bodyType truncation =
    (if bodyType = 4 then
       (if ms_raw m = [] then ([], False)
        else if truncation > 0 \<and> len (ms_raw m) > truncation
        then (b64_encode (take (nat truncation) (ms_raw m)), True)
        else (b64_encode (ms_raw m), False))
     else let d = (if bodyType = 2 then ms_body_html m else ms_body_text m) in
       if truncation > 0 \<and> len d > truncation then (truncateUTF8 d truncation, True) else (d, False))"

text \<open>The children that follow \<open>EstimatedDataSize\<close> in both body elements.\<close>

definition body_rest :: "string \<Rightarrow> bool \<Rightarrow> node list" where
  "body_rest d truncated =
     (if truncated then [wbT pageAirSyncBase ''Truncated'' ''1''] else []) @
     (if d \<noteq> [] then [wbT pageAirSyncBase ''Data'' d] else [])"

(* src: internal/eas/appdata.go 84-108 bodyNode *)
definition bodyNode :: "message \<Rightarrow> bodyPref \<Rightarrow> node" where
  "bodyNode m pref =
    (let bodyType = (if bp_type pref = 4 \<and> ms_raw m \<noteq> [] then 4
                     else if bp_type pref = 2 \<and> ms_body_html m \<noteq> [] then 2
                     else if ms_body_text m = [] \<and> ms_body_html m \<noteq> [] then 2 else 1);
         (d, truncated) = bodyData m bodyType (bp_truncation pref) in
     wbN pageAirSyncBase ''Body''
       ([wbT pageAirSyncBase ''Type'' (itoa bodyType),
         wbT pageAirSyncBase ''EstimatedDataSize'' (itoa (len d))] @ body_rest d truncated))"

(* src: internal/eas/appdata.go 110-130 bodyPartNode *)
definition bodyPartNode :: "message \<Rightarrow> bodyPref \<Rightarrow> node" where
  "bodyPartNode m pref =
    (let bodyType = (if bp_part_type pref \<noteq> 2 \<and> bp_part_type pref \<noteq> 4 then 1 else bp_part_type pref);
         (d, truncated) = bodyData m bodyType (bp_part_truncation pref) in
     wbN pageAirSyncBase ''BodyPart''
       ([wbT pageAirSyncBase ''Status'' ''1'', wbT pageAirSyncBase ''Type'' (itoa bodyType),
         wbT pageAirSyncBase ''EstimatedDataSize'' (itoa (len d))] @ body_rest d truncated))"

section \<open>Messages\<close>

(* src: internal/eas/appdata.go 132-137 formatAddress *)
definition formatAddress :: "env \<Rightarrow> string \<Rightarrow> string \<Rightarrow> string" where
  "formatAddress E name addr = (if name = [] then addr else en_addr_string E name addr)"

(* src: internal/eas/appdata.go 215-217 attachmentRef *)
definition attachmentRef :: "int \<Rightarrow> int \<Rightarrow> string" where
  "attachmentRef messageID attachmentID = i64toa messageID @ '':'' @ i64toa attachmentID"

(* src: internal/eas/appdata.go 189-210 emailAppData *)
definition attachmentNode :: "attachment \<Rightarrow> node" where
  "attachmentNode a = wbN pageAirSyncBase ''Attachment''
     ([wbT pageAirSyncBase ''DisplayName'' (at_file a),
       wbT pageAirSyncBase ''FileReference'' (attachmentRef (at_message a) (at_id a)),
       wbT pageAirSyncBase ''Method'' ''1'',
       wbT pageAirSyncBase ''EstimatedDataSize'' (i64toa (at_size a)),
       wbT pageAirSyncBase ''ContentType'' (at_ctype a)] @
      (if at_cid a \<noteq> [] then [wbT pageAirSyncBase ''ContentId'' (at_cid a)] else []) @
      (if at_inline a \<or> at_cid a \<noteq> [] then [wbT pageAirSyncBase ''IsInline'' ''1''] else []))"

(* src: internal/eas/appdata.go 139-213 emailAppData *)
definition emailAppData :: "env \<Rightarrow> message \<Rightarrow> attachment list \<Rightarrow> bodyPref \<Rightarrow> node" where
  "emailAppData E m attachments pref = wbN pageAirSync ''ApplicationData''
     ([if bp_part_type pref > 0 then bodyPartNode m pref else bodyNode m pref] @
      [wbT pageEmail ''Subject'' (ms_subject m),
       wbT pageEmail ''From'' (formatAddress E (ms_from_name m) (ms_from_addr m)),
       wbT pageEmail ''To'' (ms_to m),
       wbT pageEmail ''Cc'' (ms_cc m),
       wbT pageEmail ''DisplayTo'' (ms_to m),
       wbT pageEmail ''DateReceived'' (formatEasTime (ms_date m)),
       wbT pageEmail ''Importance'' (itoa (ms_importance m)),
       wbT pageEmail ''MessageClass'' (ms_class m),
       wbT pageEmail ''Read'' (boolString (ms_read m))] @
      (if ms_sender_addr m \<noteq> [] \<and> \<not> equal_fold (ms_sender_addr m) (ms_from_addr m)
       then [wbT pageEmail2 ''Sender'' (formatAddress E (ms_sender_name m) (ms_sender_addr m))] else []) @
      (if ms_bcc m then [wbT pageEmail2 ''ReceivedAsBcc'' ''1''] else []) @
      (if ms_conv m \<noteq> [] then [wbT pageEmail2 ''ConversationId'' (ms_conv m)] else []) @
      [wbN pageEmail ''Flag''
         ([wbT pageEmail ''FlagStatus'' (if ms_flagged m then ''2'' else ''0'')] @
          (if ms_flagged m then [wbT pageEmail ''FlagType'' ''FollowUp''] else []))] @
      (if attachments \<noteq> [] then [wbN pageAirSyncBase ''Attachments'' (map attachmentNode attachments)] else []))"

text \<open>\<open>if v := ad.ChildText(name); v != "" \{ ... \}\<close>\<close>

definition when_text :: "node option \<Rightarrow> string \<Rightarrow> (string \<Rightarrow> 'a \<Rightarrow> 'a) \<Rightarrow> 'a \<Rightarrow> 'a" where
  "when_text ad name f x = (let v = ChildText ad name in if v \<noteq> [] then f v x else x)"

(* src: internal/eas/appdata.go 492-522 parseEmailAppData *)
definition parseEmailFields :: "env \<Rightarrow> node option \<Rightarrow> message \<Rightarrow> message" where
  "parseEmailFields E ad m0 =
    (let m = when_text ad ''Subject'' (\<lambda>v m. m\<lparr>ms_subject := v\<rparr>) m0;
         m = when_text ad ''From'' (\<lambda>v m. case en_parse_address E v of
               Some (name, addr) \<Rightarrow> m\<lparr>ms_from_addr := addr, ms_from_name := name\<rparr>
             | None \<Rightarrow> m\<lparr>ms_from_addr := v\<rparr>) m;
         m = when_text ad ''To'' (\<lambda>v m. m\<lparr>ms_to := v\<rparr>) m;
         m = when_text ad ''Cc'' (\<lambda>v m. m\<lparr>ms_cc := v\<rparr>) m;
         m = when_text ad ''DateReceived'' (\<lambda>v m.
               let t = parseEasTime E v in if t \<noteq> zero_time then m\<lparr>ms_date := t\<rparr> else m) m;
         m = when_text ad ''Importance'' (\<lambda>v m. m\<lparr>ms_importance := atoiDefault v 1\<rparr>) m;
         m = when_text ad ''Read'' (\<lambda>v m. m\<lparr>ms_read := (v = ''1'')\<rparr>) m
     in when_text ad ''MessageClass'' (\<lambda>v m. m\<lparr>ms_class := v\<rparr>) m)"

(* src: internal/eas/appdata.go 487-548 parseEmailAppData *)
definition parseEmailAppData :: "env \<Rightarrow> node option \<Rightarrow> message \<Rightarrow> message" where
  "parseEmailAppData E ad m0 =
    (if ad = None then m0
     else let m = parseEmailFields E ad m0;
       m = (case Child ad ''Flag'' of
             Some flag \<Rightarrow>
               (let status = ChildText (Some flag) ''FlagStatus'';
                    status = (if status = [] then ChildText (Some flag) ''Status'' else status)
                in m\<lparr>ms_flagged := (status \<noteq> [] \<and> status \<noteq> ''0'')\<rparr>)
           | None \<Rightarrow> when_text ad ''FlagStatus'' (\<lambda>v m. m\<lparr>ms_flagged := (v \<noteq> ''0'')\<rparr>) m)
     in (case Child ad ''Body'' of
           None \<Rightarrow> m
         | Some body \<Rightarrow>
            (let typ = atoiDefault (ChildText (Some body) ''Type'') 1; d = ChildText (Some body) ''Data'' in
             if typ = 2 then m\<lparr>ms_body_html := d\<rparr>
             else if typ = 4 then (case b64_decode (trim_space d) of
                 Some raw \<Rightarrow> m\<lparr>ms_raw := raw\<rparr> | None \<Rightarrow> m)
             else m\<lparr>ms_body_text := d\<rparr>)))"

section \<open>Contacts\<close>

definition textBody :: "string \<Rightarrow> node" where
  "textBody body = wbN pageAirSyncBase ''Body''
     [wbT pageAirSyncBase ''Type'' ''1'', wbT pageAirSyncBase ''EstimatedDataSize'' (itoa (len body)),
      wbT pageAirSyncBase ''Data'' body]"

(* src: internal/eas/appdata.go 221-247 contactAppData *)
definition contactFields :: "contact \<Rightarrow> (string \<times> string) list" where
  "contactFields c =
    [(''FirstName'', co_first c), (''LastName'', co_last c), (''MiddleName'', co_middle c),
     (''FileAs'', co_file_as c), (''CompanyName'', co_company c), (''Department'', co_department c),
     (''JobTitle'', co_job c), (''Email1Address'', co_email1 c), (''Email2Address'', co_email2 c),
     (''Email3Address'', co_email3 c), (''HomePhoneNumber'', co_home_phone c),
     (''Home2PhoneNumber'', co_home2_phone c), (''MobilePhoneNumber'', co_mobile c),
     (''BusinessPhoneNumber'', co_business_phone c), (''BusinessFaxNumber'', co_business_fax c),
     (''HomeAddressStreet'', co_home_street c), (''HomeAddressCity'', co_home_city c),
     (''HomeAddressState'', co_home_state c), (''HomeAddressPostalCode'', co_home_postal c),
     (''HomeAddressCountry'', co_home_country c), (''BusinessAddressStreet'', co_business_street c),
     (''BusinessAddressCity'', co_business_city c), (''BusinessAddressState'', co_business_state c),
     (''BusinessAddressPostalCode'', co_business_postal c), (''BusinessAddressCountry'', co_business_country c)]"

(* src: internal/eas/appdata.go 219-263 contactAppData *)
definition contactAppData :: "contact \<Rightarrow> node" where
  "contactAppData c = wbN pageAirSync ''ApplicationData''
     (map (\<lambda>(n, v). wbT pageContacts n v) (filter (\<lambda>(n, v). v \<noteq> []) (contactFields c)) @
      (if co_body c \<noteq> [] then [textBody (co_body c)] else []))"

text \<open>The text of a body: the \<open>Data\<close> child, or the text of the element itself.\<close>

definition bodyText :: "node \<Rightarrow> string" where
  "bodyText body = (let d = ChildText (Some body) ''Data'' in if d \<noteq> [] then d else n_text body)"

definition zero_contact :: contact where
  "zero_contact = \<lparr>co_id = 0, co_user = [], co_folder = 0, co_first = [], co_last = [], co_middle = [],
     co_file_as = [], co_company = [], co_department = [], co_job = [], co_email1 = [], co_email2 = [],
     co_email3 = [], co_home_phone = [], co_home2_phone = [], co_mobile = [], co_business_phone = [],
     co_business_fax = [], co_home_street = [], co_home_city = [], co_home_state = [], co_home_postal = [],
     co_home_country = [], co_business_street = [], co_business_city = [], co_business_state = [],
     co_business_postal = [], co_business_country = [], co_body = [], co_deleted = False\<rparr>"

(* src: internal/eas/appdata.go 550-591 parseContactAppData *)
definition parseContactAppData :: "node option \<Rightarrow> contact" where
  "parseContactAppData ad =
    (if ad = None then zero_contact
     else let c = zero_contact\<lparr>
         co_first := ChildText ad ''FirstName'', co_last := ChildText ad ''LastName'',
         co_middle := ChildText ad ''MiddleName'', co_file_as := ChildText ad ''FileAs'',
         co_company := ChildText ad ''CompanyName'', co_department := ChildText ad ''Department'',
         co_job := ChildText ad ''JobTitle'', co_email1 := ChildText ad ''Email1Address'',
         co_email2 := ChildText ad ''Email2Address'', co_email3 := ChildText ad ''Email3Address'',
         co_home_phone := ChildText ad ''HomePhoneNumber'', co_home2_phone := ChildText ad ''Home2PhoneNumber'',
         co_mobile := ChildText ad ''MobilePhoneNumber'', co_business_phone := ChildText ad ''BusinessPhoneNumber'',
         co_business_fax := ChildText ad ''BusinessFaxNumber'', co_home_street := ChildText ad ''HomeAddressStreet'',
         co_home_city := ChildText ad ''HomeAddressCity'', co_home_state := ChildText ad ''HomeAddressState'',
         co_home_postal := ChildText ad ''HomeAddressPostalCode'', co_home_country := ChildText ad ''HomeAddressCountry'',
         co_business_street := ChildText ad ''BusinessAddressStreet'',
         co_business_city := ChildText ad ''BusinessAddressCity'',
         co_business_state := ChildText ad ''BusinessAddressState'',
         co_business_postal := ChildText ad ''BusinessAddressPostalCode'',
         co_business_country := ChildText ad ''BusinessAddressCountry''\<rparr>;
       c = (case Child ad ''Body'' of None \<Rightarrow> c | Some body \<Rightarrow> c\<lparr>co_body := bodyText body\<rparr>)
     in if co_file_as c = [] then c\<lparr>co_file_as := trim_space (co_first c @ '' '' @ co_last c)\<rparr> else c)"


section \<open>Events\<close>

(* src: internal/eas/appdata.go 272-294 parseRecurrence *)
definition parseRecurrence :: "env \<Rightarrow> node \<Rightarrow> recurrence" where
  "parseRecurrence E n =
    (let txt = (\<lambda>name. ChildText (Some n) name);
         iv = atoiDefault (txt ''RecurrenceInterval'') 1;
         v = txt ''RecurrenceUntil'' in
     \<lparr>rc_type = atoiDefault (txt ''RecurrenceType'') 0,
      rc_interval = (if iv < 1 then 1 else iv),
      rc_until = (if v \<noteq> [] \<and> parseEasTime E v \<noteq> zero_time then parseEasTime E v else 0),
      rc_occurrences = atoiDefault (txt ''RecurrenceOccurrences'') 0,
      rc_day_of_week = atoiDefault (txt ''RecurrenceDayOfWeek'') 0,
      rc_day_of_month = atoiDefault (txt ''RecurrenceDayOfMonth'') 0,
      rc_week_of_month = atoiDefault (txt ''RecurrenceWeekOfMonth'') 0,
      rc_month_of_year = atoiDefault (txt ''RecurrenceMonthOfYear'') 0\<rparr>)"

(* src: internal/eas/appdata.go 296-331 recurrenceNode *)
definition recurrenceNode :: "recurrence \<Rightarrow> node" where
  "recurrenceNode r =
    (let add = (\<lambda>name v. wbT pageCalendar name v) in
     wbN pageCalendar ''Recurrence''
     ([wbT pageCalendar ''RecurrenceType'' (itoa (rc_type r)),
       wbT pageCalendar ''RecurrenceInterval'' (itoa (rc_interval r))] @
      (if rc_type r = 1 then
         (if rc_day_of_week r \<noteq> 0 then [add ''RecurrenceDayOfWeek'' (itoa (rc_day_of_week r))] else [])
       else if rc_type r = 2 then [add ''RecurrenceDayOfMonth'' (itoa (rc_day_of_month r))]
       else if rc_type r = 3 then [add ''RecurrenceDayOfWeek'' (itoa (rc_day_of_week r)),
                                   add ''RecurrenceWeekOfMonth'' (itoa (rc_week_of_month r))]
       else if rc_type r = 4 then [add ''RecurrenceDayOfMonth'' (itoa (rc_day_of_month r)),
                                   add ''RecurrenceMonthOfYear'' (itoa (rc_month_of_year r))]
       else if rc_type r = 5 then [add ''RecurrenceDayOfWeek'' (itoa (rc_day_of_week r)),
                                   add ''RecurrenceWeekOfMonth'' (itoa (rc_week_of_month r)),
                                   add ''RecurrenceMonthOfYear'' (itoa (rc_month_of_year r))]
       else []) @
      (if rc_until r > 0 then [add ''RecurrenceUntil'' (formatEasCalendarTime (rc_until r))]
       else if rc_occurrences r > 0 then [add ''RecurrenceOccurrences'' (itoa (rc_occurrences r))]
       else [])))"

text \<open>One override; a field that is not a time keeps the zero value.\<close>

definition time_or_zero :: "env \<Rightarrow> string \<Rightarrow> int" where
  "time_or_zero E v = (let t = parseEasTime E v in if t \<noteq> zero_time then t else 0)"

(* src: internal/eas/appdata.go 351-382 parseExceptions *)
definition parseException :: "env \<Rightarrow> node \<Rightarrow> event_exception" where
  "parseException E n =
    (let txt = (\<lambda>name. ChildText (Some n) name) in
     \<lparr>ex_occurrence = time_or_zero E (txt ''ExceptionStartTime''),
      ex_deleted = (txt ''Deleted'' = ''1''),
      ex_subject = txt ''Subject'', ex_location = txt ''Location'',
      ex_body = (case Child (Some n) ''Body'' of None \<Rightarrow> [] | Some body \<Rightarrow> bodyText body),
      ex_start = time_or_zero E (txt ''StartTime''), ex_end = time_or_zero E (txt ''EndTime''),
      ex_all_day = (txt ''AllDayEvent'' = ''1''),
      ex_busy = atoiDefault (txt ''BusyStatus'') 0,
      ex_sensitivity = atoiDefault (txt ''Sensitivity'') 0,
      ex_reminder = atoiDefault (txt ''Reminder'') 0,
      ex_meeting = atoiDefault (txt ''MeetingStatus'') 0\<rparr>)"

(* src: internal/eas/appdata.go 333-384 parseExceptions *)
definition parseExceptions :: "env \<Rightarrow> node option \<Rightarrow> event_exception list" where
  "parseExceptions E ad =
    (if ad = None then []
     else let lst = (case Child ad ''Exceptions'' of
              Some l \<Rightarrow> Some l
            | None \<Rightarrow> (case Child ad ''Recurrence'' of
                 Some r \<Rightarrow> Child (Some r) ''Exceptions'' | None \<Rightarrow> None))
     in if lst = None then []
        else filter (\<lambda>x. ex_occurrence x \<noteq> 0) (map (parseException E) (ChildrenNamed lst ''Exception'')))"

(* src: internal/eas/appdata.go 391-427 exceptionsNode *)
definition exceptionNode :: "event_exception \<Rightarrow> node" where
  "exceptionNode x =
    (let add = (\<lambda>name v. wbT pageCalendar name v) in
     wbN pageCalendar ''Exception''
      ([add ''ExceptionStartTime'' (formatEasCalendarTime (ex_occurrence x))] @
       (if ex_deleted x then [add ''Deleted'' ''1'']
        else
          (if ex_start x > 0 then [add ''StartTime'' (formatEasCalendarTime (ex_start x))] else []) @
          (if ex_end x > 0 then [add ''EndTime'' (formatEasCalendarTime (ex_end x))] else []) @
          (if ex_subject x \<noteq> [] then [add ''Subject'' (ex_subject x)] else []) @
          (if ex_location x \<noteq> [] then [add ''Location'' (ex_location x)] else []) @
          (if ex_all_day x then [add ''AllDayEvent'' ''1''] else []) @
          (if ex_reminder x > 0 then [add ''Reminder'' (itoa (ex_reminder x))] else []) @
          (if ex_busy x > 0 then [add ''BusyStatus'' (itoa (ex_busy x))] else []) @
          (if ex_meeting x > 0 then [add ''MeetingStatus'' (itoa (ex_meeting x))] else []))))"

(* src: internal/eas/appdata.go 386-429 exceptionsNode *)
definition exceptionsNode :: "event_exception list \<Rightarrow> node" where
  "exceptionsNode lst = wbN pageCalendar ''Exceptions'' (map exceptionNode lst)"

(* src: internal/eas/appdata.go 460-471 eventAppData *)
definition attendeeNode :: "attendee \<Rightarrow> node" where
  "attendeeNode a = wbN pageCalendar ''Attendee''
     ((if an_email a \<noteq> [] then [wbT pageCalendar ''Email'' (an_email a)] else []) @
      (if an_name a \<noteq> [] then [wbT pageCalendar ''Name'' (an_name a)] else []) @
      [wbT pageCalendar ''AttendeeStatus'' (itoa (an_status a)),
       wbT pageCalendar ''AttendeeType'' (itoa (an_type a))])"

(* src: internal/eas/appdata.go 431-485 eventAppData *)
definition eventAppData :: "event \<Rightarrow> string \<Rightarrow> node" where
  "eventAppData e timeZone = wbN pageAirSync ''ApplicationData''
     ([wbT pageCalendar ''TimeZone'' timeZone,
       wbT pageCalendar ''AllDayEvent'' (boolString (ev_all_day e)),
       wbT pageCalendar ''StartTime'' (formatEasCalendarTime (ev_start e)),
       wbT pageCalendar ''EndTime'' (formatEasCalendarTime (ev_end e)),
       wbT pageCalendar ''Subject'' (ev_subject e),
       wbT pageCalendar ''Location'' (ev_location e),
       wbT pageCalendar ''UID'' (ev_uid e),
       wbT pageCalendar ''DtStamp'' (formatEasCalendarTime (ev_dtstamp e)),
       wbT pageCalendar ''BusyStatus'' (itoa (ev_busy e)),
       wbT pageCalendar ''Sensitivity'' (itoa (ev_sensitivity e)),
       wbT pageCalendar ''MeetingStatus'' (itoa (ev_meeting e)),
       wbT pageCalendar ''Reminder'' (itoa (ev_reminder e))] @
      (if Active (ev_recurrence e) then [recurrenceNode (ev_recurrence e)] else []) @
      (if ev_exceptions e \<noteq> [] then [exceptionsNode (ev_exceptions e)] else []) @
      (if ev_org_name e \<noteq> [] \<or> ev_org_email e \<noteq> []
       then [wbT pageCalendar ''OrganizerName'' (ev_org_name e),
             wbT pageCalendar ''OrganizerEmail'' (ev_org_email e)] else []) @
      (if ev_attendees e \<noteq> [] then [wbN pageCalendar ''Attendees'' (map attendeeNode (ev_attendees e))] else []) @
      (if ev_body e \<noteq> [] then [textBody (ev_body e)] else []))"

definition zero_recurrence :: recurrence where
  "zero_recurrence = \<lparr>rc_type = 0, rc_interval = 0, rc_until = 0, rc_occurrences = 0, rc_day_of_week = 0,
     rc_day_of_month = 0, rc_week_of_month = 0, rc_month_of_year = 0\<rparr>"

definition zero_event :: event where
  "zero_event = \<lparr>ev_id = 0, ev_user = [], ev_folder = 0, ev_uid = [], ev_subject = [], ev_location = [],
     ev_body = [], ev_start = 0, ev_end = 0, ev_dtstamp = 0, ev_all_day = False, ev_busy = 0,
     ev_sensitivity = 0, ev_meeting = 0, ev_reminder = 0, ev_org_name = [], ev_org_email = [],
     ev_attendees = [], ev_recurrence = zero_recurrence, ev_sequence = 0, ev_modified = 0,
     ev_exceptions = [], ev_deleted = False\<rparr>"

(* src: internal/eas/appdata.go 647-654 parseEventAppData *)
definition parseAttendee :: "node \<Rightarrow> attendee" where
  "parseAttendee n = (let txt = (\<lambda>name. ChildText (Some n) name) in
     \<lparr>an_name = txt ''Name'', an_email = txt ''Email'', an_status = atoiDefault (txt ''AttendeeStatus'') 0,
      an_type = atoiDefault (txt ''AttendeeType'') 0\<rparr>)"

text \<open>\<open>now\<close> is the clock. \<open>when_text\<close> is the guard on a non-empty child, as for messages.\<close>

(* src: internal/eas/appdata.go 593-661 parseEventAppData *)
definition parseEventAppData :: "env \<Rightarrow> int \<Rightarrow> node option \<Rightarrow> event" where
  "parseEventAppData E now ad =
    (let e0 = zero_event\<lparr>ev_reminder := 15, ev_busy := 2\<rparr> in
     if ad = None then e0
     else let
       e = when_text ad ''StartTime'' (\<lambda>v e.
             let t = parseEasTime E v in if t \<noteq> zero_time then e\<lparr>ev_start := t\<rparr> else e) e0;
       e = when_text ad ''EndTime'' (\<lambda>v e.
             let t = parseEasTime E v in if t \<noteq> zero_time then e\<lparr>ev_end := t\<rparr> else e) e;
       e = (if ev_start e \<le> 0 then e\<lparr>ev_start := now\<rparr> else e);
       e = (if ev_end e \<le> 0 then e\<lparr>ev_end := wrap64 (ev_start e + 3600)\<rparr> else e);
       e = e\<lparr>ev_subject := ChildText ad ''Subject'', ev_location := ChildText ad ''Location'',
             ev_uid := ChildText ad ''UID''\<rparr>;
       e = (case Child ad ''Recurrence'' of None \<Rightarrow> e
            | Some n \<Rightarrow> e\<lparr>ev_recurrence := parseRecurrence E n\<rparr>);
       e = when_text ad ''AllDayEvent'' (\<lambda>v e. e\<lparr>ev_all_day := (v = ''1'')\<rparr>) e;
       e = when_text ad ''BusyStatus'' (\<lambda>v e. e\<lparr>ev_busy := atoiDefault v 2\<rparr>) e;
       e = when_text ad ''Sensitivity'' (\<lambda>v e. e\<lparr>ev_sensitivity := atoiDefault v 0\<rparr>) e;
       e = when_text ad ''MeetingStatus'' (\<lambda>v e. e\<lparr>ev_meeting := atoiDefault v 0\<rparr>) e;
       e = when_text ad ''Reminder'' (\<lambda>v e. e\<lparr>ev_reminder := atoiDefault v 15\<rparr>) e;
       e = e\<lparr>ev_org_name := ChildText ad ''OrganizerName'', ev_org_email := ChildText ad ''OrganizerEmail''\<rparr>;
       e = (case Child ad ''Body'' of None \<Rightarrow> e | Some body \<Rightarrow> e\<lparr>ev_body := bodyText body\<rparr>);
       e = (case Child ad ''Attendees'' of None \<Rightarrow> e
            | Some l \<Rightarrow> e\<lparr>ev_attendees := map parseAttendee (ChildrenNamed (Some l) ''Attendee'')\<rparr>);
       e = (if ev_dtstamp e = 0 then e\<lparr>ev_dtstamp := now\<rparr> else e)
     in e\<lparr>ev_exceptions := parseExceptions E ad\<rparr>)"

(* src: internal/eas/appdata.go 15-23 newEventUID *)
definition newEventUID :: "(store, string) op" where
  "newEventUID = bindE newID (\<lambda>b. okE (b @ ''@lifemail''))"

section \<open>Time zones\<close>

(* src: internal/eas/appdata.go 692-698 putBias *)
definition putBias :: "32 word \<Rightarrow> string" where
  "putBias minutes = map (\<lambda>i. char_of (unat (ucast (drop_bit (8 * i) minutes) :: byte))) [0, 1, 2, 3]"

text \<open>The destination of \<open>writeUTF16Name\<close> is the zeroed part of the buffer of length \<open>n\<close>.\<close>

(* src: internal/eas/appdata.go 706-711 writeUTF16Name *)
definition writeUTF16Name :: "nat \<Rightarrow> string \<Rightarrow> string" where
  "writeUTF16Name n name =
    (let w = concat (map (\<lambda>c. [c, CHR 0x00]) (take (n div 2) name)) in w @ replicate (n - length w) (CHR 0x00))"

(* src: internal/eas/appdata.go 672-684 timeZoneBlob *)
definition timeZoneBlob :: "string \<Rightarrow> 32 word \<Rightarrow> string" where
  "timeZoneBlob name bias =
     b64_encode (putBias bias @ writeUTF16Name 64 name @ replicate 16 (CHR 0x00) @ putBias bias @
       writeUTF16Name 64 name @ replicate 16 (CHR 0x00) @ putBias bias)"

(* src: internal/eas/appdata.go 686-690 defaultTimeZoneBlob *)
definition defaultTimeZoneBlob :: string where
  "defaultTimeZoneBlob = timeZoneBlob ''China Standard Time'' (- 480)"

(* src: internal/eas/appdata.go 700-704 utcTimeZoneBlob *)
definition utcTimeZoneBlob :: string where
  "utcTimeZoneBlob = timeZoneBlob ''UTC'' 0"

(* src: internal/eas/appdata.go 713-713 calendarTimeZoneSetting *)
definition calendarTimeZoneSetting :: string where
  "calendarTimeZoneSetting = ''eas.calendar.timezone.''"

(* src: internal/eas/appdata.go 715-725 Server.calendarTimeZone *)
definition calendarTimeZone :: "string \<Rightarrow> (store, string) op" where
  "calendarTimeZone userID s = (case Setting (calendarTimeZoneSetting @ userID) s of
      (Inl e, s') \<Rightarrow> (Inr defaultTimeZoneBlob, s')
    | (Inr v, s') \<Rightarrow> (Inr (if trim_space v \<noteq> [] then trim_space v else defaultTimeZoneBlob), s'))"

(* src: internal/eas/appdata.go 727-737 Server.rememberCalendarTimeZone *)
definition rememberCalendarTimeZone :: "string \<Rightarrow> string \<Rightarrow> store \<Rightarrow> store" where
  "rememberCalendarTimeZone userID blob0 s =
    (let blob = trim_space blob0 in
     if blob = [] \<or> userID = [] then s
     else execE (SetSetting (calendarTimeZoneSetting @ userID) blob) s)"

end
