(* ===== verification/EasTyping.thy ===== *)
theory EasTyping imports EasData begin

text \<open>
  A type discipline for response trees: an element is well-typed when its name is in the
  table of its code page. Exactly the well-typed trees can be encoded, so a handler whose
  response is well-typed never fails with \<open>unknown element\<close> (HTTP status 500).
\<close>

section \<open>Well-typed trees\<close>

fun typed :: "lookup \<Rightarrow> node \<Rightarrow> bool" where
  "typed lk (Node p nm tk tx cs b f) \<longleftrightarrow> lk_token lk p nm \<noteq> None \<and> list_all (typed lk) cs"

named_theorems typing "rules for well-typed trees"

lemma typed_enc:
  "typed lk n \<Longrightarrow> \<exists>r. enc_node lk pg n = Inr r"
  "list_all (typed lk) cs \<Longrightarrow> \<exists>r. enc_children lk pg cs = Inr r"
proof (induction lk pg n and lk pg cs rule: enc_node_enc_children.induct)
  case (1 lk pg p nm tk tx cs bin fc)
  then obtain tok where t: "lk_token lk p nm = Some tok" by auto
  show ?case
  proof (cases "cs = []")
    case True
    then show ?thesis using t by (simp add: Let_def)
  next
    case False
    then have "\<exists>r. enc_children lk p cs = Inr r"
      using 1 t by (simp add: Let_def)
    then obtain bs q where "enc_children lk p cs = Inr (bs, q)" by auto
    then show ?thesis using t False by (simp add: Let_def)
  qed
next
  case (3 lk pg c cs)
  then obtain b pg1 where b: "enc_node lk pg c = Inr (b, pg1)" by auto
  have "\<exists>r. enc_children lk pg1 cs = Inr r" by (rule 3(2) [OF b refl]) (use 3(3) in simp)
  then obtain bs q where "enc_children lk pg1 cs = Inr (bs, q)" by auto
  with b show ?case by simp
qed simp

lemma enc_typed:
  "enc_node lk pg n = Inr r \<Longrightarrow> typed lk n"
  "enc_children lk pg cs = Inr q \<Longrightarrow> list_all (typed lk) cs"
proof (induction lk pg n and lk pg cs arbitrary: r and q rule: enc_node_enc_children.induct)
  case (1 lk pg p nm tk tx cs bin fc)
  then obtain tok where t: "lk_token lk p nm = Some tok"
    by (cases "lk_token lk p nm") (auto simp: Let_def)
  have "list_all (typed lk) cs"
  proof (cases "cs = []")
    case False
    then obtain q where "enc_children lk p cs = Inr q"
      using 1(2) t by (cases "enc_children lk p cs") (auto simp: Let_def)
    then show ?thesis using 1(1) t False by (auto simp: Let_def)
  qed simp
  then show ?case using t by simp
next
  case (3 lk pg c cs)
  then obtain b pg1 where b: "enc_node lk pg c = Inr (b, pg1)"
    by (cases "enc_node lk pg c") auto
  obtain q' where q: "enc_children lk pg1 cs = Inr q'"
    using 3(3) b by (cases "enc_children lk pg1 cs") auto
  have "typed lk c" by (rule 3(1) [OF b])
  moreover have "list_all (typed lk) cs" by (rule 3(2) [OF b refl q])
  ultimately show ?case by simp
qed simp

lemma Encode_typed_iff: "(\<exists>bs. Encode (Some n) lk = Inr bs) \<longleftrightarrow> typed lk n"
proof
  assume "\<exists>bs. Encode (Some n) lk = Inr bs"
  then obtain r where "enc_node lk 0 n = Inr r"
    by (cases "enc_node lk 0 n") (auto simp: Encode_def)
  then show "typed lk n" by (rule enc_typed)
next
  assume "typed lk n"
  then obtain r where "enc_node lk 0 n = Inr r" using typed_enc(1) by blast
  then show "\<exists>bs. Encode (Some n) lk = Inr bs" by (cases r) (simp add: Encode_def)
qed

section \<open>The tables as sets of names\<close>

definition on_page :: "int \<Rightarrow> string \<Rightarrow> bool" where
  "on_page p n \<longleftrightarrow> n \<noteq> [] \<and> (case map_of tokenPages p of None \<Rightarrow> False | Some l \<Rightarrow> n \<in> set l)"

lemma last_token_None: "last_token i l n a = None \<longleftrightarrow> a = None \<and> (n \<notin> set l \<or> n = [])"
  by (induction l arbitrary: i a) auto

lemma token_on_page: "lk_token codec p n \<noteq> None \<longleftrightarrow> on_page p n"
proof (cases "map_of tokenPages p")
  case (Some l)
  then show ?thesis using last_token_None [of 0 l n None]
    by (simp add: Token_eval on_page_def) blast
qed (simp add: Token_eval on_page_def)

lemma typed_codec: "typed codec (Node p nm tk tx cs b f) \<longleftrightarrow> on_page p nm \<and> list_all (typed codec) cs"
  using token_on_page [of p nm] by simp

lemma typed_wbN [typing]: "typed codec (wbN p nm cs) \<longleftrightarrow> on_page p nm \<and> list_all (typed codec) cs"
  unfolding wbN_def typed_codec ..

lemma typed_wbT [typing]: "typed codec (wbT p nm t) \<longleftrightarrow> on_page p nm"
  unfolding wbT_def typed_codec by simp

lemma on_pages:
  "on_page pageAirSync n \<longleftrightarrow> n \<noteq> [] \<and> n \<in> set namesAirSync"
  "on_page pageContacts n \<longleftrightarrow> n \<noteq> [] \<and> n \<in> set namesContacts"
  "on_page pageEmail n \<longleftrightarrow> n \<noteq> [] \<and> n \<in> set namesEmail"
  "on_page pageCalendar n \<longleftrightarrow> n \<noteq> [] \<and> n \<in> set namesCalendar"
  "on_page pageMove n \<longleftrightarrow> n \<noteq> [] \<and> n \<in> set namesMove"
  "on_page pageGetItemEstimate n \<longleftrightarrow> n \<noteq> [] \<and> n \<in> set namesGetItemEstimate"
  "on_page pageFolderHierarchy n \<longleftrightarrow> n \<noteq> [] \<and> n \<in> set namesFolderHierarchy"
  "on_page pagePing n \<longleftrightarrow> n \<noteq> [] \<and> n \<in> set namesPing"
  "on_page pageProvision n \<longleftrightarrow> n \<noteq> [] \<and> n \<in> set namesProvision"
  "on_page pageAirSyncBase n \<longleftrightarrow> n \<noteq> [] \<and> n \<in> set namesAirSyncBase"
  "on_page pageSettings n \<longleftrightarrow> n \<noteq> [] \<and> n \<in> set namesSettings"
  "on_page pageItemOperations n \<longleftrightarrow> n \<noteq> [] \<and> n \<in> set namesItemOperations"
  "on_page pageEmail2 n \<longleftrightarrow> n \<noteq> [] \<and> n \<in> set namesEmail2"
  unfolding on_page_def tokenPages_def page_defs by simp_all

lemma typed_if [typing]: "list_all P (if b then xs else ys) \<longleftrightarrow> (b \<longrightarrow> list_all P xs) \<and> (\<not> b \<longrightarrow> list_all P ys)"
  by simp

lemma typed_append [typing]: "list_all P (xs @ ys) \<longleftrightarrow> list_all P xs \<and> list_all P ys"
  by simp

text \<open>The names the renderers use.\<close>

lemma names_sync [typing]:
  "on_page pageAirSync ''ApplicationData''" "on_page pageAirSync ''Sync''" "on_page pageAirSync ''Collections''"
  "on_page pageAirSync ''Collection''" "on_page pageAirSync ''CollectionId''" "on_page pageAirSync ''Status''"
  "on_page pageAirSync ''SyncKey''" "on_page pageAirSync ''Class''" "on_page pageAirSync ''Commands''"
  "on_page pageAirSync ''Responses''" "on_page pageAirSync ''MoreAvailable''" "on_page pageAirSync ''Add''"
  "on_page pageAirSync ''Change''" "on_page pageAirSync ''Delete''" "on_page pageAirSync ''Fetch''"
  "on_page pageAirSync ''ServerId''" "on_page pageAirSync ''ClientId''"
  by (simp_all add: on_pages namesAirSync_def)

lemma names_base [typing]:
  "on_page pageAirSyncBase ''Body''" "on_page pageAirSyncBase ''BodyPart''" "on_page pageAirSyncBase ''Type''"
  "on_page pageAirSyncBase ''EstimatedDataSize''" "on_page pageAirSyncBase ''Truncated''"
  "on_page pageAirSyncBase ''Data''" "on_page pageAirSyncBase ''Status''" "on_page pageAirSyncBase ''Attachments''"
  "on_page pageAirSyncBase ''Attachment''" "on_page pageAirSyncBase ''DisplayName''"
  "on_page pageAirSyncBase ''FileReference''" "on_page pageAirSyncBase ''Method''"
  "on_page pageAirSyncBase ''ContentType''" "on_page pageAirSyncBase ''ContentId''" "on_page pageAirSyncBase ''IsInline''"
  by (simp_all add: on_pages namesAirSyncBase_def)

lemma names_email [typing]:
  "on_page pageEmail ''Subject''" "on_page pageEmail ''From''" "on_page pageEmail ''To''" "on_page pageEmail ''Cc''"
  "on_page pageEmail ''DisplayTo''" "on_page pageEmail ''DateReceived''" "on_page pageEmail ''Importance''"
  "on_page pageEmail ''MessageClass''" "on_page pageEmail ''Read''" "on_page pageEmail ''Flag''"
  "on_page pageEmail ''FlagStatus''" "on_page pageEmail ''FlagType''"
  by (simp_all add: on_pages namesEmail_def)

lemma names_email2 [typing]:
  "on_page pageEmail2 ''Sender''" "on_page pageEmail2 ''ReceivedAsBcc''" "on_page pageEmail2 ''ConversationId''"
  by (simp_all add: on_pages namesEmail2_def)

lemma names_calendar [typing]:
  "on_page pageCalendar ''TimeZone''" "on_page pageCalendar ''AllDayEvent''" "on_page pageCalendar ''StartTime''"
  "on_page pageCalendar ''EndTime''" "on_page pageCalendar ''Subject''" "on_page pageCalendar ''Location''"
  "on_page pageCalendar ''UID''" "on_page pageCalendar ''DtStamp''" "on_page pageCalendar ''BusyStatus''"
  "on_page pageCalendar ''Sensitivity''" "on_page pageCalendar ''MeetingStatus''" "on_page pageCalendar ''Reminder''"
  "on_page pageCalendar ''OrganizerName''" "on_page pageCalendar ''OrganizerEmail''"
  "on_page pageCalendar ''Attendees''" "on_page pageCalendar ''Attendee''" "on_page pageCalendar ''Email''"
  "on_page pageCalendar ''Name''" "on_page pageCalendar ''AttendeeStatus''" "on_page pageCalendar ''AttendeeType''"
  "on_page pageCalendar ''Exceptions''" "on_page pageCalendar ''Exception''" "on_page pageCalendar ''ExceptionStartTime''"
  "on_page pageCalendar ''Deleted''"
  by (simp_all add: on_pages namesCalendar_def)

lemma names_recurrence [typing]:
  "on_page pageCalendar ''Recurrence''" "on_page pageCalendar ''RecurrenceType''"
  "on_page pageCalendar ''RecurrenceInterval''" "on_page pageCalendar ''RecurrenceUntil''"
  "on_page pageCalendar ''RecurrenceOccurrences''" "on_page pageCalendar ''RecurrenceDayOfWeek''"
  "on_page pageCalendar ''RecurrenceDayOfMonth''" "on_page pageCalendar ''RecurrenceWeekOfMonth''"
  "on_page pageCalendar ''RecurrenceMonthOfYear''"
  by (simp_all add: on_pages namesCalendar_def)


section \<open>Items are well-typed\<close>

lemma typed_map [typing]: "list_all P (map f xs) \<longleftrightarrow> (\<forall>x\<in>set xs. P (f x))"
  by (simp add: list_all_iff)

lemma typed_body_rest [typing]: "list_all (typed codec) (body_rest d b)"
  by (simp add: body_rest_def typing)

lemma typed_bodyNode [typing]: "typed codec (bodyNode m pref)"
  by (simp add: bodyNode_def Let_def split_beta typing)

lemma typed_bodyPartNode [typing]: "typed codec (bodyPartNode m pref)"
  by (simp add: bodyPartNode_def Let_def split_beta typing)

lemma typed_attachmentNode [typing]: "typed codec (attachmentNode a)"
  by (simp add: attachmentNode_def typing)

lemma typed_email [typing]: "typed codec (emailAppData E m as pref)"
  by (simp add: emailAppData_def typing)

lemma contact_names: "\<forall>(n, v)\<in>set (contactFields c). on_page pageContacts n"
  by (simp add: contactFields_def on_pages namesContacts_def)

lemma typed_textBody [typing]: "typed codec (textBody b)"
  by (simp add: textBody_def typing)

lemma typed_contact [typing]: "typed codec (contactAppData c)"
proof -
  have m: "list_all (typed codec) (map (\<lambda>(n, v). wbT pageContacts n v) xs)" if "set xs \<subseteq> set (contactFields c)" for xs
    using contact_names [of c] that by (fastforce simp: list_all_iff typing)
  show ?thesis unfolding contactAppData_def typed_wbN typed_append
    by (intro conjI m filter_is_subset) (simp_all add: typing)
qed

lemma typed_recurrence [typing]: "typed codec (recurrenceNode r)"
  by (simp add: recurrenceNode_def Let_def typing)

lemma typed_exception [typing]: "typed codec (exceptionNode x)"
  by (simp add: exceptionNode_def Let_def typing)

lemma typed_exceptions [typing]: "typed codec (exceptionsNode xs)"
  by (simp add: exceptionsNode_def typing)

lemma typed_attendee [typing]: "typed codec (attendeeNode a)"
  by (simp add: attendeeNode_def typing)

lemma typed_event [typing]: "typed codec (eventAppData e tz)"
  by (simp add: eventAppData_def typing)

text \<open>Every message, contact and event renders to an element that can be encoded: whatever
  the fields hold, all element names of the rendered item are in the code pages the server
  has, so an item never makes a response fail with an unknown element.\<close>

theorem items_encodable:
  "(\<exists>bs. Encode (Some (emailAppData E m attachments pref)) codec = Inr bs) \<and>
   (\<exists>bs. Encode (Some (contactAppData c)) codec = Inr bs) \<and>
   (\<exists>bs. Encode (Some (eventAppData e timeZone)) codec = Inr bs)"
  unfolding Encode_typed_iff by (simp add: typing)

end
