(* ===== verification/EasSync.thy ===== *)
theory EasSync imports EasTyping begin

text \<open>
  \<open>internal/eas/sync.go\<close>: the \<open>Sync\<close> command. A collection is synchronised in three steps: the
  sync key is checked against the stored state (or the state is reset for an initial sync),
  the commands of the device are applied, and the change feed of the folder is turned into
  commands for the device. The maps \<open>known\<close> and \<open>skipped\<close> of the code hold only \<open>true\<close>: they are
  sets. A handler that cannot fail returns its value and the store.
\<close>

section \<open>Loading an item\<close>

text \<open>\<open>(node, gone, date)\<close>.\<close>

type_synonym loaded = "node option \<times> bool \<times> int"

definition gone_item :: loaded where
  "gone_item = (None, True, 0)"

text \<open>\<open>if errors.Is(err, store.ErrNotFound) \{ return nil, true, 0, nil \}\<close>\<close>

definition or_gone :: "(store, 'a) op \<Rightarrow> ('a \<Rightarrow> (store, loaded) op) \<Rightarrow> (store, loaded) op" where
  "or_gone m f s = (case m s of
     (Inl e, s') \<Rightarrow> if e = ErrNotFound then (Inr gone_item, s') else (Inl e, s')
   | (Inr x, s') \<Rightarrow> f x s')"

definition with_exceptions :: "event \<Rightarrow> (store, event) op" where
  "with_exceptions e s = (case EventExceptions (ev_id e) s of
     (Inr xs, s') \<Rightarrow> (Inr (e\<lparr>ev_exceptions := xs\<rparr>), s') | (Inl _, s') \<Rightarrow> (Inr e, s'))"

(* src: internal/eas/sync.go 242-290 Server.loadAppData *)
definition loadAppData :: "env \<Rightarrow> folder \<Rightarrow> int \<Rightarrow> bodyPref \<Rightarrow> (store, loaded) op" where
  "loadAppData E folder i pref =
    (if fo_class folder = ''Contacts'' then
       or_gone (ContactByID i) (\<lambda>c.
         if co_deleted c \<or> co_folder c \<noteq> fo_id folder then okE gone_item
         else okE (Some (contactAppData c), False, 0))
     else if fo_class folder = ''Calendar'' then
       or_gone (EventByID i) (\<lambda>e.
         if ev_deleted e \<or> ev_folder e \<noteq> fo_id folder then okE gone_item
         else bindE (with_exceptions e) (\<lambda>e.
              bindE (calendarTimeZone (fo_user folder)) (\<lambda>tz.
              okE (Some (eventAppData e tz), False, 0))))
     else
       or_gone (MessageByID i) (\<lambda>m.
         if ms_deleted m \<or> ms_folder m \<noteq> fo_id folder then okE gone_item
         else bindE (AttachmentsByMessage i) (\<lambda>atts.
              okE (Some (emailAppData E m atts pref), False, ms_date m))))"

section \<open>Commands for the device\<close>

definition serverIdNode :: "int \<Rightarrow> node" where
  "serverIdNode i = wbT pageAirSync ''ServerId'' (i64toa i)"

(* src: internal/eas/sync.go 234-239 Server.itemCommand *)
definition deleteCommand :: "string \<Rightarrow> string \<Rightarrow> int \<Rightarrow> int \<Rightarrow> int set \<Rightarrow> store \<Rightarrow> (node option \<times> int set) \<times> store" where
  "deleteCommand userID deviceID folderID i known s =
    (if i \<notin> known then ((None, known), s)
     else ((Some (wbN pageAirSync ''Delete'' [serverIdNode i]), known - {i}),
           execE (ForgetItem userID deviceID folderID i) s))"

(* src: internal/eas/sync.go 206-240 Server.itemCommand *)
definition itemCommand :: "env \<Rightarrow> string \<Rightarrow> string \<Rightarrow> folder \<Rightarrow> int \<Rightarrow> string \<Rightarrow> int set \<Rightarrow> bodyPref \<Rightarrow> int \<Rightarrow>
    store \<Rightarrow> (node option \<times> int set) \<times> store" where
  "itemCommand E userID deviceID folder i kind known pref cutoff s =
    (if kind = ''delete'' then deleteCommand userID deviceID (fo_id folder) i known s
     else case loadAppData E folder i pref s of
       (Inl e, s') \<Rightarrow> ((None, known), s')
     | (Inr (app, gone, date), s') \<Rightarrow>
         if gone then deleteCommand userID deviceID (fo_id folder) i known s'
         else if cutoff > 0 \<and> date > 0 \<and> date < cutoff then ((None, known), s')
         else ((Some (wbN pageAirSync (if i \<in> known then ''Change'' else ''Add'')
                  (serverIdNode i # (case app of None \<Rightarrow> [] | Some a \<Rightarrow> [a]))), insert i known),
               execE (MarkItemKnown userID deviceID (fo_id folder) i) s'))"

text \<open>The loop over the feed: skipped entries are passed over, the last entry of an item decides,
  at most \<open>window\<close> items are taken. The result is the items in order and the last sequence
  number that was consumed.\<close>

(* src: internal/eas/sync.go 173-191 Server.serverChanges *)
fun take_changes :: "int set \<Rightarrow> int \<Rightarrow> change list \<Rightarrow> (int \<times> string) list \<Rightarrow> int \<Rightarrow> (int \<times> string) list \<times> int" where
  "take_changes skipped window [] order lastSeq = (order, lastSeq)"
| "take_changes skipped window (ch # chs) order lastSeq =
    (if ch_seq ch \<in> skipped then take_changes skipped window chs order (ch_seq ch)
     else if len order \<ge> window then (order, lastSeq)
     else if ch_item ch \<in> fst ` set order then
       take_changes skipped window chs
         (map (\<lambda>(i, k). if i = ch_item ch then (i, ch_kind ch) else (i, k)) order) (ch_seq ch)
     else take_changes skipped window chs (order @ [(ch_item ch, ch_kind ch)]) (ch_seq ch))"

(* src: internal/eas/sync.go 193-198 Server.serverChanges *)
fun itemCommands :: "env \<Rightarrow> string \<Rightarrow> string \<Rightarrow> folder \<Rightarrow> bodyPref \<Rightarrow> int \<Rightarrow> (int \<times> string) list \<Rightarrow> int set \<Rightarrow>
    store \<Rightarrow> node list \<times> store" where
  "itemCommands E u v folder pref cutoff [] known s = ([], s)"
| "itemCommands E u v folder pref cutoff ((i, kind) # ps) known s =
    (let ((n, known'), s') = itemCommand E u v folder i kind known pref cutoff s;
         (ns, s'') = itemCommands E u v folder pref cutoff ps known' s'
     in ((case n of None \<Rightarrow> ns | Some x \<Rightarrow> x # ns), s''))"

(* src: internal/eas/sync.go 156-204 Server.serverChanges *)
definition serverChanges :: "env \<Rightarrow> string \<Rightarrow> string \<Rightarrow> folder \<Rightarrow> int \<Rightarrow> int \<Rightarrow> bodyPref \<Rightarrow> int \<Rightarrow> int set \<Rightarrow>
    (store, node list \<times> bool \<times> int) op" where
  "serverChanges E userID deviceID folder after window pref cutoff skipped =
    bindE (KnownItems userID deviceID (fo_id folder)) (\<lambda>known.
    bindE (ChangesSince (fo_id folder) after (window * 4 + int (card skipped))) (\<lambda>changes.
    let (order, lastSeq) = take_changes skipped window changes [] after in (\<lambda>s.
    let (commands, s') = itemCommands E userID deviceID folder pref cutoff order known s in
    bindE (HasChangesAfter (fo_id folder) lastSeq) (\<lambda>hasMore. okE (commands, hasMore, lastSeq)) s')))"

section \<open>Commands of the device\<close>

(* src: internal/eas/sync.go 303-313 Server.applyClientCommands *)
definition statusResponse :: "string \<Rightarrow> int \<Rightarrow> string \<Rightarrow> string \<Rightarrow> node" where
  "statusResponse name i clientID status = wbN pageAirSync name
     ((if i \<noteq> 0 then [serverIdNode i] else []) @
      (if clientID \<noteq> [] then [wbT pageAirSync ''ClientId'' clientID] else []) @
      [wbT pageAirSync ''Status'' status])"

definition zero_message :: message where
  "zero_message = \<lparr>ms_id = 0, ms_user = [], ms_folder = 0, ms_subject = [], ms_from_addr = [], ms_from_name = [],
     ms_to = [], ms_cc = [], ms_date = 0, ms_size = 0, ms_read = False, ms_flagged = False, ms_importance = 0,
     ms_class = [], ms_msgid = [], ms_body_text = [], ms_body_html = [], ms_raw = [], ms_raw_path = [],
     ms_has_att = False, ms_deleted = False, ms_sender_addr = [], ms_sender_name = [], ms_bcc = False,
     ms_conv = []\<rparr>"

text \<open>An \<open>Add\<close>: the new id and the sequence number of its change.\<close>

(* src: internal/eas/sync.go 326-332 Server.applyClientCommands *)
definition addContact :: "string \<Rightarrow> folder \<Rightarrow> node option \<Rightarrow> (store, int \<times> int) op" where
  "addContact userID folder ad =
    bindE (InsertContact ((parseContactAppData ad)\<lparr>co_user := userID, co_folder := fo_id folder\<rparr>)) (\<lambda>i.
    bindE (AddChange (fo_id folder) ''add'' ''contact'' i) (\<lambda>seq. okE (i, seq)))"

(* src: internal/eas/sync.go 333-358 Server.applyClientCommands *)
definition addEvent :: "env \<Rightarrow> string \<Rightarrow> folder \<Rightarrow> node option \<Rightarrow> string \<Rightarrow> (store, int \<times> int) op" where
  "addEvent E userID folder ad clientID s0 =
    (let e = (parseEventAppData E (nowUnix s0) ad)\<lparr>ev_user := userID, ev_folder := fo_id folder\<rparr>;
         s1 = rememberCalendarTimeZone userID (ChildText ad ''TimeZone'') s0;
         e = (if ev_uid e = [] then e\<lparr>ev_uid := clientID\<rparr> else e) in
     bindE (if ev_uid e = [] then newEventUID else okE (ev_uid e)) (\<lambda>uid.
     let e = e\<lparr>ev_uid := uid\<rparr> in
     bindE (InsertEvent e) (\<lambda>i s.
     let s' = (if ev_exceptions e \<noteq> [] then execE (ReplaceEventExceptions i (ev_exceptions e)) s else s) in
     bindE (AddChange (fo_id folder) ''add'' ''event'' i) (\<lambda>seq. okE (i, seq)) s')) s1)"

(* src: internal/eas/sync.go 359-372 Server.applyClientCommands *)
definition addMessage :: "env \<Rightarrow> string \<Rightarrow> folder \<Rightarrow> node option \<Rightarrow> (store, int \<times> int) op" where
  "addMessage E userID folder ad s =
    (let m = parseEmailAppData E ad (zero_message\<lparr>ms_user := userID, ms_folder := fo_id folder,
               ms_date := nowUnix s, ms_class := ''IPM.Note'', ms_importance := 1\<rparr>);
         m = m\<lparr>ms_size := len (ms_raw m)\<rparr> in
     bindE (InsertMessage m) (\<lambda>i.
     bindE (AddChange (fo_id folder) ''add'' ''email'' i) (\<lambda>seq. okE (i, seq))) s)"

text \<open>\<open>seq, _ = AddChange(...)\<close>: 0 when it fails.\<close>

definition change_seq :: "int \<Rightarrow> string \<Rightarrow> string \<Rightarrow> int \<Rightarrow> store \<Rightarrow> int \<times> store" where
  "change_seq f kind typ i s = (case AddChange f kind typ i s of (Inr n, s') \<Rightarrow> (n, s') | (Inl _, s') \<Rightarrow> (0, s'))"

text \<open>A \<open>Change\<close>: the status and the sequence number to skip (0: none).\<close>

(* src: internal/eas/sync.go 389-401 Server.applyClientCommands *)
definition changeContact :: "string \<Rightarrow> folder \<Rightarrow> node option \<Rightarrow> int \<Rightarrow> store \<Rightarrow> (string \<times> int) \<times> store" where
  "changeContact userID folder ad i s0 = (case ContactByID i s0 of
     (Inl e, s) \<Rightarrow> ((''3'', 0), s)
   | (Inr c, s) \<Rightarrow>
      if co_user c \<noteq> userID \<or> co_folder c \<noteq> fo_id folder then ((''3'', 0), s)
      else (case UpdateContact ((parseContactAppData ad)\<lparr>co_id := co_id c, co_user := co_user c,
                                  co_folder := co_folder c\<rparr>) s of
          (Inl e, s') \<Rightarrow> ((''6'', 0), s')
        | (Inr _, s') \<Rightarrow> (let (n, s'') = change_seq (fo_id folder) ''change'' ''contact'' i s' in ((''1'', n), s''))))"

(* src: internal/eas/sync.go 402-434 Server.applyClientCommands *)
definition changeEvent :: "env \<Rightarrow> string \<Rightarrow> folder \<Rightarrow> node option \<Rightarrow> int \<Rightarrow> store \<Rightarrow> (string \<times> int) \<times> store" where
  "changeEvent E userID folder ad i s0 = (case EventByID i s0 of
     (Inl e, s) \<Rightarrow> ((''3'', 0), s)
   | (Inr e, s) \<Rightarrow>
      if ev_user e \<noteq> userID \<or> ev_folder e \<noteq> fo_id folder then ((''3'', 0), s)
      else
       (let s1 = rememberCalendarTimeZone userID (ChildText ad ''TimeZone'') s;
            p = (parseEventAppData E (nowUnix s) ad)\<lparr>ev_id := ev_id e, ev_user := ev_user e, ev_folder := ev_folder e\<rparr>;
            p = (if ev_uid p = [] then p\<lparr>ev_uid := ev_uid e\<rparr> else p);
            hasRule = (ad \<noteq> None \<and> Child ad ''Recurrence'' \<noteq> None);
            (p, s2) = (if hasRule then (p, s1)
              else (case EventExceptions (ev_id e) s1 of
                  (Inr xs, t) \<Rightarrow> (p\<lparr>ev_recurrence := ev_recurrence e, ev_exceptions := xs\<rparr>, t)
                | (Inl _, t) \<Rightarrow> (p\<lparr>ev_recurrence := ev_recurrence e\<rparr>, t)))
        in case UpdateEvent p s2 of
          (Inl _, s3) \<Rightarrow> ((''6'', 0), s3)
        | (Inr _, s3) \<Rightarrow>
            (let s4 = (if hasRule then execE (ReplaceEventExceptions (ev_id p) (ev_exceptions p)) s3 else s3);
                 (n, s5) = change_seq (fo_id folder) ''change'' ''event'' i s4 in ((''1'', n), s5))))"

(* src: internal/eas/sync.go 435-447 Server.applyClientCommands *)
definition changeMessage :: "env \<Rightarrow> string \<Rightarrow> folder \<Rightarrow> node option \<Rightarrow> int \<Rightarrow> store \<Rightarrow> (string \<times> int) \<times> store" where
  "changeMessage E userID folder ad i s0 = (case MessageByID i s0 of
     (Inl e, s) \<Rightarrow> ((''3'', 0), s)
   | (Inr m, s) \<Rightarrow>
      if ms_user m \<noteq> userID \<or> ms_folder m \<noteq> fo_id folder then ((''3'', 0), s)
      else (case UpdateMessage (parseEmailAppData E ad m) s of
          (Inl e, s') \<Rightarrow> ((''6'', 0), s')
        | (Inr _, s') \<Rightarrow> (let (n, s'') = change_seq (fo_id folder) ''change'' ''email'' i s' in ((''1'', n), s''))))"

text \<open>The closure \<open>addChange\<close> of \<open>deleteItem\<close>: the sequence number when there is one.\<close>

(* src: internal/eas/sync.go 489-493 Server.deleteItem *)
definition add_seq :: "int \<Rightarrow> string \<Rightarrow> string \<Rightarrow> int \<Rightarrow> store \<Rightarrow> int list \<times> store" where
  "add_seq f kind typ i s = (let (n, s') = change_seq f kind typ i s in (if n > 0 then [n] else [], s'))"

(* src: internal/eas/sync.go 520-528 Server.deleteItem *)
definition moveToTrash :: "string \<Rightarrow> folder \<Rightarrow> int \<Rightarrow> store \<Rightarrow> int list option \<times> store" where
  "moveToTrash userID folder i s0 = (case FolderByType userID 4 s0 of
     (Inl e, s) \<Rightarrow> (None, s)
   | (Inr trash, s) \<Rightarrow>
      if fo_id trash = fo_id folder then (None, s)
      else (case MoveMessage i (fo_id trash) s of
          (Inl e, s') \<Rightarrow> (None, s')
        | (Inr _, s') \<Rightarrow>
            (let (a, s1) = add_seq (fo_id trash) ''add'' ''email'' i s';
                 (b, s2) = add_seq (fo_id folder) ''delete'' ''email'' i s1 in (Some (a @ b), s2))))"

(* src: internal/eas/sync.go 484-535 Server.deleteItem *)
definition deleteItem :: "string \<Rightarrow> folder \<Rightarrow> int \<Rightarrow> bool \<Rightarrow> store \<Rightarrow> (int list \<times> string) \<times> store" where
  "deleteItem userID folder i deletesAsMoves s0 =
    (if fo_class folder = ''Contacts'' then
      (case ContactByID i s0 of
         (Inl e, s) \<Rightarrow> (([], ''3''), s)
       | (Inr c, s) \<Rightarrow>
          if co_user c \<noteq> userID \<or> co_folder c \<noteq> fo_id folder then (([], ''3''), s)
          else (case UpdateContact (c\<lparr>co_deleted := True\<rparr>) s of
              (Inl _, s') \<Rightarrow> (([], ''6''), s')
            | (Inr _, s') \<Rightarrow> (let (a, t) = add_seq (fo_id folder) ''delete'' ''contact'' i s' in ((a, ''1''), t))))
     else if fo_class folder = ''Calendar'' then
      (case EventByID i s0 of
         (Inl e, s) \<Rightarrow> (([], ''3''), s)
       | (Inr e, s) \<Rightarrow>
          if ev_user e \<noteq> userID \<or> ev_folder e \<noteq> fo_id folder then (([], ''3''), s)
          else (case UpdateEvent (e\<lparr>ev_deleted := True\<rparr>) s of
              (Inl _, s') \<Rightarrow> (([], ''6''), s')
            | (Inr _, s') \<Rightarrow> (let (a, t) = add_seq (fo_id folder) ''delete'' ''event'' i s' in ((a, ''1''), t))))
     else
      (case MessageByID i s0 of
         (Inl e, s) \<Rightarrow> (([], ''3''), s)
       | (Inr m, s) \<Rightarrow>
          if ms_user m \<noteq> userID \<or> ms_folder m \<noteq> fo_id folder then (([], ''3''), s)
          else (case (if deletesAsMoves then moveToTrash userID folder i s else (None, s)) of
              (Some a, s') \<Rightarrow> ((a, ''1''), s')
            | (None, s') \<Rightarrow>
               (case SoftDeleteMessage i s' of
                  (Inl _, t) \<Rightarrow> (([], ''6''), t)
                | (Inr _, t) \<Rightarrow> (let (a, t') = add_seq (fo_id folder) ''delete'' ''email'' i t in ((a, ''1''), t'))))))"

text \<open>One command: the response, if there is one, and the sequence numbers to skip.\<close>

(* src: internal/eas/sync.go 315-479 Server.applyClientCommands *)
definition clientCommand :: "env \<Rightarrow> string \<Rightarrow> folder \<Rightarrow> bool \<Rightarrow> node \<Rightarrow> store \<Rightarrow> (node list \<times> int list) \<times> store" where
  "clientCommand E userID folder deletesAsMoves cmd s =
    (let txt = ChildText (Some cmd); ad = Child (Some cmd) ''ApplicationData'';
         positive = (\<lambda>n. if n > 0 then [n] else []) in
     if n_name cmd = ''Add'' then
       (let clientID = txt ''ClientId'' in
        case (if fo_class folder = ''Contacts'' then addContact userID folder ad s
              else if fo_class folder = ''Calendar'' then addEvent E userID folder ad clientID s
              else addMessage E userID folder ad s) of
          (Inl e, s') \<Rightarrow> (([statusResponse ''Add'' 0 clientID ''6''], []), s')
        | (Inr (i, seq), s') \<Rightarrow> (([statusResponse ''Add'' i clientID ''1''], positive seq), s'))
     else if n_name cmd = ''Change'' then
       (let i = parseInt (txt ''ServerId'');
            ((status, seq), s') =
              (if fo_class folder = ''Contacts'' then changeContact userID folder ad i s
               else if fo_class folder = ''Calendar'' then changeEvent E userID folder ad i s
               else changeMessage E userID folder ad i s)
        in (([statusResponse ''Change'' i [] status], positive seq), s'))
     else if n_name cmd = ''Delete'' then
       (let i = parseInt (txt ''ServerId'') in
        if i = 0 then (([], []), s)
        else let ((seqs, status), s') = deleteItem userID folder i deletesAsMoves s
             in (([statusResponse ''Delete'' i [] status], seqs), s'))
     else if n_name cmd = ''Fetch'' then
       (let i = parseInt (txt ''ServerId'') in
        case loadAppData E folder i (bodyPrefFrom (Child (Some cmd) ''Options'')) s of
          (Inl e, s') \<Rightarrow> (([statusResponse ''Fetch'' i [] ''3''], []), s')
        | (Inr (app, gone, _), s') \<Rightarrow>
            if gone then (([statusResponse ''Fetch'' i [] ''3''], []), s')
            else (([wbN pageAirSync ''Fetch'' ([serverIdNode i, wbT pageAirSync ''Status'' ''1''] @
                     (case app of None \<Rightarrow> [] | Some a \<Rightarrow> [a]))], []), s'))
     else (([], []), s))"

(* src: internal/eas/sync.go 292-482 Server.applyClientCommands *)
fun applyClientCommands :: "env \<Rightarrow> string \<Rightarrow> folder \<Rightarrow> bool \<Rightarrow> node list \<Rightarrow> store \<Rightarrow> (node list \<times> int list) \<times> store" where
  "applyClientCommands E userID folder moves [] s = (([], []), s)"
| "applyClientCommands E userID folder moves (c # cs) s =
    (let ((r, k), s') = clientCommand E userID folder moves c s;
         ((rs, ks), s'') = applyClientCommands E userID folder moves cs s'
     in ((r @ rs, k @ ks), s''))"

section \<open>A collection\<close>

(* src: internal/eas/sync.go 134-154 filterWindow *)
definition filterWindow :: "int \<Rightarrow> int" where
  "filterWindow t = (if t = 1 then 86400 else if t = 2 then 3 * 86400 else if t = 3 then 7 * 86400
     else if t = 4 then 14 * 86400 else if t = 5 then 30 * 86400 else if t = 6 then 90 * 86400
     else if t = 7 then 180 * 86400 else if t = 8 then 365 * 86400 else 0)"

(* src: internal/eas/sync.go 40-46 Server.syncCollection *)
definition windowSize :: "node option \<Rightarrow> int" where
  "windowSize req = (let w = atoiDefault (ChildText req ''WindowSize'') 100; w = (if w \<le> 0 then 100 else w)
     in if w > 500 then 500 else w)"

text \<open>The sync state of the request, or the status of the answer.\<close>

(* src: internal/eas/sync.go 50-69 Server.syncCollection *)
definition openState :: "string \<Rightarrow> string \<Rightarrow> folder \<Rightarrow> string \<Rightarrow> store \<Rightarrow> (string + sync_state) \<times> store" where
  "openState userID deviceID folder key s0 =
    (case GetSyncState userID deviceID (fo_id folder) s0 of
       (Inl e, s) \<Rightarrow> (Inl ''5'', s)
     | (Inr st, s) \<Rightarrow>
        if key = [] \<or> key = ''0'' then
          (case ResetSyncState userID deviceID (fo_id folder) s of
             (Inl _, s') \<Rightarrow> (Inl ''5'', s')
           | (Inr _, s') \<Rightarrow>
              (let st' = \<lparr>ss_user = userID, ss_device = deviceID, ss_folder = fo_id folder, ss_key = ''1'', ss_seq = 0\<rparr>
               in case SaveSyncState st' s' of
                 (Inl _, s'') \<Rightarrow> (Inl ''5'', s'') | (Inr _, s'') \<Rightarrow> (Inr st', s'')))
        else (case st of
            None \<Rightarrow> (Inl ''3'', s)
          | Some st' \<Rightarrow> if ss_key st' \<noteq> key then (Inl ''3'', s) else (Inr st', s)))"

(* src: internal/eas/sync.go 88-95 Server.syncCollection *)
definition cutoffTime :: "bool \<Rightarrow> folder \<Rightarrow> node option \<Rightarrow> store \<Rightarrow> int" where
  "cutoffTime initial folder options s =
    (if initial \<and> fo_class folder = ''Email'' then
       (let ft = atoiDefault (ChildText options ''FilterType'') 0 in
        if ft > 0 \<and> filterWindow ft > 0 then nowUnix s - filterWindow ft else 0)
     else 0)"

(* src: internal/eas/sync.go 103-110 Server.syncCollection *)
definition nextState :: "sync_state \<Rightarrow> int \<Rightarrow> bool \<Rightarrow> bool \<Rightarrow> sync_state" where
  "nextState st newSeq applied hasMore =
     st\<lparr>ss_seq := newSeq,
        ss_key := (if newSeq \<noteq> ss_seq st \<or> applied \<or> hasMore then i64toa (wrap64 (parseInt (ss_key st) + 1))
                   else ss_key st)\<rparr>"

definition statusNode :: "string \<Rightarrow> node" where
  "statusNode st = wbT pageAirSync ''Status'' st"

(* src: internal/eas/sync.go 27-132 Server.syncCollection *)
definition syncCollection :: "env \<Rightarrow> string \<Rightarrow> string \<Rightarrow> node \<Rightarrow> store \<Rightarrow> node \<times> store" where
  "syncCollection E userID deviceID req s0 =
    (let collectionID = parseInt (ChildText (Some req) ''CollectionId'');
         head = wbT pageAirSync ''CollectionId'' (i64toa collectionID);
         out = (\<lambda>cs. wbN pageAirSync ''Collection'' (head # cs)) in
     case FolderByID collectionID s0 of
       (Inl _, s) \<Rightarrow> (out [statusNode ''5''], s)
     | (Inr folder, s) \<Rightarrow>
      if fo_user folder \<noteq> userID \<or> fo_deleted folder then (out [statusNode ''5''], s)
      else
       (let key = trim_space (ChildText (Some req) ''SyncKey''); window = windowSize (Some req);
            options = Child (Some req) ''Options''; moves = (Child (Some req) ''DeletesAsMoves'' \<noteq> None);
            initial = (key = [] \<or> key = ''0'') in
        case openState userID deviceID folder key s of
          (Inl status, s1) \<Rightarrow> (out [statusNode status], s1)
        | (Inr st, s1) \<Rightarrow>
           (let ((responses, skip), s2) = (case Child (Some req) ''Commands'' of
                   None \<Rightarrow> (([], []), s1)
                 | Some commands \<Rightarrow> applyClientCommands E userID folder moves (n_children commands) s1);
                applied = (responses \<noteq> [] \<or> skip \<noteq> []);
                rs = (if responses \<noteq> [] then [wbN pageAirSync ''Responses'' responses] else []);
                pref = bodyPrefFrom options; cutoff = cutoffTime initial folder options s2 in
            case serverChanges E userID deviceID folder (ss_seq st) window pref cutoff (set skip) s2 of
              (Inl _, s3) \<Rightarrow> (out (rs @ [statusNode ''5'']), s3)
            | (Inr (commands, hasMore, newSeq), s3) \<Rightarrow>
               (let st' = nextState st newSeq applied hasMore in
                case SaveSyncState st' s3 of
                  (Inl _, s4) \<Rightarrow> (out (rs @ [statusNode ''5'']), s4)
                | (Inr _, s4) \<Rightarrow>
                   (out (rs @ [wbT pageAirSync ''SyncKey'' (ss_key st'), statusNode ''1''] @
                      (if fo_class folder \<noteq> [] then [wbT pageAirSync ''Class'' (fo_class folder)] else []) @
                      (if commands \<noteq> [] then [wbN pageAirSync ''Commands'' commands] else []) @
                      (if hasMore then [wbN pageAirSync ''MoreAvailable'' []] else [])), s4)))))"

fun syncCollections :: "env \<Rightarrow> string \<Rightarrow> string \<Rightarrow> node list \<Rightarrow> store \<Rightarrow> node list \<times> store" where
  "syncCollections E u v [] s = ([], s)"
| "syncCollections E u v (c # cs) s =
    (let (n, s') = syncCollection E u v c s; (ns, s'') = syncCollections E u v cs s' in (n # ns, s''))"

(* src: internal/eas/sync.go 12-25 Server.cmdSync *)
definition cmdSync :: "env \<Rightarrow> user \<Rightarrow> string \<Rightarrow> node option \<Rightarrow> (store, node) op" where
  "cmdSync E user deviceID req s = (case Child req ''Collections'' of
     None \<Rightarrow> (Inr (wbN pageAirSync ''Sync'' []), s)
   | Some collections \<Rightarrow>
      (let (ns, s') = syncCollections E (us_id user) deviceID (ChildrenNamed (Some collections) ''Collection'') s
       in (Inr (wbN pageAirSync ''Sync'' [wbN pageAirSync ''Collections'' ns]), s')))"

end
