(* ===== verification/EasSyncInv.thy ===== *)
theory EasSyncInv imports EasSync begin

text \<open>
  The invariant of the tables through \<open>Sync\<close>: whatever a device sends, the handlers of
  \<open>internal/eas/sync.go\<close> leave the tables consistent, also where an operation fails half way.
  And the answer is one the code pages can encode.
\<close>

section \<open>The invariant of the tables\<close>

text \<open>Rules for the handlers that look at the result of an operation or ignore it.\<close>

named_theorems ok_intros "rules that a handler leaves the tables consistent"

lemma ok_case:
  assumes "keeps store_ok m" "store_ok s" "\<And>e t. store_ok t \<Longrightarrow> store_ok (snd (f e t))" "\<And>x t. store_ok t \<Longrightarrow> store_ok (snd (g x t))"
  shows "store_ok (snd (case m s of (Inl e, t) \<Rightarrow> f e t | (Inr x, t) \<Rightarrow> g x t))"
  using keepsD [OF assms(1,2)] assms(3,4) by (auto split: prod.split sum.split)

lemma ok_bind:
  assumes "store_ok (snd (h s))" "\<And>x t. store_ok t \<Longrightarrow> store_ok (snd (g x t))"
  shows "store_ok (snd (case h s of (x, t) \<Rightarrow> g x t))"
  using assms by (auto split: prod.split)

lemma ok_sum:
  assumes "store_ok (snd p)" "\<And>e t. store_ok t \<Longrightarrow> store_ok (snd (f e t))" "\<And>x t. store_ok t \<Longrightarrow> store_ok (snd (g x t))"
  shows "store_ok (snd (case p of (Inl e, t) \<Rightarrow> f e t | (Inr x, t) \<Rightarrow> g x t))"
  using assms by (auto split: prod.split sum.split)

lemma ok_pairs:
  assumes "store_ok (snd p)" "\<And>a b t. store_ok t \<Longrightarrow> store_ok (snd (g a b t))"
  shows "store_ok (snd ((\<lambda>((a, b), t). g a b t) p))"
  using assms by (auto split: prod.split)

lemma ok_opt:
  assumes "store_ok (snd (h s))" "\<And>t. store_ok t \<Longrightarrow> store_ok (snd (f t))" "\<And>x t. store_ok t \<Longrightarrow> store_ok (snd (g x t))"
  shows "store_ok (snd (case h s of (None, t) \<Rightarrow> f t | (Some x, t) \<Rightarrow> g x t))"
  using assms by (auto split: prod.split option.split)

lemma ok_if: "(b \<Longrightarrow> store_ok (snd x)) \<Longrightarrow> (\<not> b \<Longrightarrow> store_ok (snd y)) \<Longrightarrow> store_ok (snd (if b then x else y))"
  by simp

lemma ok_pair: "store_ok t \<Longrightarrow> store_ok (snd (x, t))"
  by simp

lemma ok_execE: "keeps store_ok m \<Longrightarrow> store_ok s \<Longrightarrow> store_ok (execE m s)"
  by (rule keeps_execE)

lemma ok_if_store: "store_ok s \<Longrightarrow> store_ok t \<Longrightarrow> store_ok (if b then s else t)"
  by simp

lemma keeps_or_gone [keeps_intros]:
  assumes "keeps store_ok m" "\<And>x. keeps store_ok (f x)"
  shows "keeps store_ok (or_gone m f)"
  unfolding or_gone_def
proof (rule keepsI)
  fix s assume s: "store_ok s"
  show "store_ok (snd (case m s of (Inl e, s') \<Rightarrow> if e = ErrNotFound then (Inr gone_item, s') else (Inl e, s')
      | (Inr x, s') \<Rightarrow> f x s'))"
    by (rule ok_case [OF assms(1) s]) (simp_all add: keepsD [OF assms(2)])
qed

lemma keeps_with_exceptions [keeps_intros]: "keeps store_ok (with_exceptions e)"
proof (rule keepsI)
  fix s assume "store_ok s"
  then have "store_ok (snd (EventExceptions (ev_id e) s))" by (rule keepsD [rotated]) (intro keeps_intros)
  then show "store_ok (snd (with_exceptions e s))"
    by (auto simp: with_exceptions_def split: prod.splits sum.splits)
qed

lemma keeps_calendarTimeZone [keeps_intros]: "keeps store_ok (calendarTimeZone u)"
proof -
  have "snd (calendarTimeZone u s) = s \<or> snd (calendarTimeZone u s) = snd (Setting (calendarTimeZoneSetting @ u) s)" for s
    by (auto simp: calendarTimeZone_def split: prod.splits sum.splits)
  then show ?thesis using keeps_Setting unfolding keeps_def by metis
qed

lemma keeps_loadAppData [keeps_intros]: "keeps store_ok (loadAppData E f i pref)"
  unfolding loadAppData_def by (intro keeps_intros)

lemma ok_deleteCommand [ok_intros]: "store_ok s \<Longrightarrow> store_ok (snd (deleteCommand u v f i K s))"
  by (simp add: deleteCommand_def ok_execE keeps_intros)

lemma ok_itemCommand [ok_intros]: "store_ok s \<Longrightarrow> store_ok (snd (itemCommand E u v f i kind K pref cutoff s))"
  using keepsD [OF keeps_loadAppData, of s E f i pref]
  by (auto simp: itemCommand_def ok_deleteCommand ok_execE keeps_intros split: prod.splits sum.splits)

lemma ok_itemCommands [ok_intros]: "store_ok s \<Longrightarrow> store_ok (snd (itemCommands E u v f pref cutoff ps K s))"
proof (induction ps arbitrary: K s)
  case (Cons p ps)
  obtain i kind where p: "p = (i, kind)" by (cases p)
  obtain n K' t where r: "itemCommand E u v f i kind K pref cutoff s = ((n, K'), t)" by (metis prod.exhaust)
  then have "store_ok t" using ok_itemCommand [OF Cons.prems, of E u v f i kind K pref cutoff] by simp
  then show ?case using Cons.IH [of t K'] by (auto simp: p r Let_def split: prod.split)
qed simp

lemma keeps_serverChanges [keeps_intros]: "keeps store_ok (serverChanges E u v f after w pref cutoff sk)"
  unfolding serverChanges_def
proof (intro keeps_bindE keeps_sync)
  fix K cs
  have h: "keeps store_ok (bindE (HasChangesAfter (fo_id f) l) (\<lambda>h. okE (c, h, l)))" for c :: "node list" and l
    by (intro keeps_intros)
  show "keeps store_ok (let (order, lastSeq) = take_changes sk w cs [] after
     in (\<lambda>s. let (commands, s') = itemCommands E u v f pref cutoff order K s
         in bindE (HasChangesAfter (fo_id f) lastSeq) (\<lambda>hasMore. okE (commands, hasMore, lastSeq)) s'))"
    by (cases "take_changes sk w cs [] after")
      (auto simp: Let_def keeps_def intro!: ok_bind ok_itemCommands keepsD [OF h])
qed

section \<open>The commands of the device\<close>

lemma ok_change_seq [ok_intros]: "store_ok s \<Longrightarrow> store_ok (snd (change_seq f k t i s))"
  unfolding change_seq_def by (intro ok_case ok_pair keeps_intros)

lemma ok_add_seq [ok_intros]: "store_ok s \<Longrightarrow> store_ok (snd (add_seq f k t i s))"
  unfolding add_seq_def Let_def by (intro ok_bind ok_pair ok_intros)

lemma ok_remember [ok_intros]: "store_ok s \<Longrightarrow> store_ok (rememberCalendarTimeZone u b s)"
  by (simp add: rememberCalendarTimeZone_def Let_def ok_execE keeps_intros)

lemma ok_changeContact [ok_intros]: "store_ok s \<Longrightarrow> store_ok (snd (changeContact u f ad i s))"
  unfolding changeContact_def Let_def by (intro ok_case ok_if ok_bind ok_pair ok_intros keeps_intros)

lemma ok_changeMessage [ok_intros]: "store_ok s \<Longrightarrow> store_ok (snd (changeMessage E u f ad i s))"
  unfolding changeMessage_def Let_def by (intro ok_case ok_if ok_bind ok_pair ok_intros keeps_intros)

lemma ok_moveToTrash [ok_intros]: "store_ok s \<Longrightarrow> store_ok (snd (moveToTrash u f i s))"
  unfolding moveToTrash_def Let_def by (intro ok_case ok_if ok_bind ok_pair ok_intros keeps_intros)


lemma ok_changeEvent [ok_intros]: "store_ok s \<Longrightarrow> store_ok (snd (changeEvent E u f ad i s))"
  unfolding changeEvent_def Let_def
proof (rule ok_case [OF keeps_item_reads(3)], assumption, rule ok_pair, assumption, rule ok_if, rule ok_pair, assumption, goal_cases)
  case (1 e t)
  let ?t1 = "rememberCalendarTimeZone u (ChildText ad ''TimeZone'') t"
  have t1: "store_ok ?t1" by (rule ok_remember [OF 1(2)])
  show ?case
    apply (rule ok_bind)
     apply (rule ok_if)
      apply (rule ok_pair [OF t1])
     apply (rule ok_case [OF keeps_item_reads(6) t1]; rule ok_pair; assumption)
    apply (rule ok_case [OF keeps_UpdateEvent], assumption)
     apply (rule ok_pair, assumption)
    apply (rule ok_bind)
     apply (rule ok_change_seq, rule ok_if_store)
      apply (rule ok_execE [OF keeps_ReplaceEventExceptions], assumption, assumption)
    apply (rule ok_pair, assumption)
    done
qed

lemma ok_deleteItem [ok_intros]:
  assumes s: "store_ok s" shows "store_ok (snd (deleteItem u f i b s))"
proof -
  have d: "store_ok (snd (if b then moveToTrash u f i t else (None, t)))" if "store_ok t" for t
    using ok_moveToTrash [OF that, of u f i] that by simp
  show ?thesis
    unfolding deleteItem_def Let_def
    apply (intro ok_if)
      apply (rule ok_case [OF keeps_item_reads(1) s])
       apply (rule ok_pair, assumption)
      apply (intro ok_case ok_if ok_bind ok_pair ok_intros keeps_intros; assumption)
     apply (rule ok_case [OF keeps_item_reads(3) s])
      apply (rule ok_pair, assumption)
     apply (intro ok_case ok_if ok_bind ok_pair ok_intros keeps_intros; assumption)
    apply (rule ok_case [OF keeps_message_reads(3) s])
     apply (rule ok_pair, assumption)
    apply (rule ok_if, rule ok_pair, assumption)
    apply (rule ok_opt [where h="\<lambda>t. if b then moveToTrash u f i t else (None, t)"], rule d, assumption)
     apply (intro ok_case ok_bind ok_pair ok_intros keeps_intros; assumption)
    apply (rule ok_pair, assumption)
    done
qed


lemma keeps_newID [keeps_intros]: "keeps store_ok newID"
  by (simp add: keeps_def newID_def store_ok_def Let_def)

lemma keeps_newEventUID [keeps_intros]: "keeps store_ok newEventUID"
  unfolding newEventUID_def by (intro keeps_intros)

lemma keeps_addContact [keeps_intros]: "keeps store_ok (addContact u f ad)"
  unfolding addContact_def by (intro keeps_intros)

lemma keeps_pre: "keeps store_ok m \<Longrightarrow> (\<And>s. store_ok s \<Longrightarrow> store_ok (g s)) \<Longrightarrow> keeps store_ok (\<lambda>s. m (g s))"
  by (simp add: keeps_def)

lemma keeps_addMessage [keeps_intros]: "keeps store_ok (addMessage E u f ad)"
proof -
  have "keeps store_ok (bindE (InsertMessage m) (\<lambda>i. bindE (AddChange (fo_id f) ''add'' ''email'' i)
      (\<lambda>seq. okE (i, seq))))" for m
    by (intro keeps_intros)
  then show ?thesis unfolding keeps_def addMessage_def Let_def by blast
qed

lemma keeps_addEvent [keeps_intros]: "keeps store_ok (addEvent E u f ad cid)"
proof -
  have a: "keeps store_ok (bindE (AddChange (fo_id f) ''add'' ''event'' i) (\<lambda>seq. okE (i, seq)))" for i
    by (intro keeps_intros)
  have "keeps store_ok (\<lambda>s. bindE (AddChange (fo_id f) ''add'' ''event'' i) (\<lambda>seq. okE (i, seq))
      (if xs \<noteq> [] then execE (ReplaceEventExceptions i xs) s else s))" for i xs
    by (rule keeps_pre [OF a]) (simp add: ok_execE keeps_intros)
  then have "keeps store_ok (bindE (if ev_uid e = [] then newEventUID else okE (ev_uid e)) (\<lambda>uid.
      bindE (InsertEvent (e\<lparr>ev_uid := uid\<rparr>)) (\<lambda>i s. bindE (AddChange (fo_id f) ''add'' ''event'' i)
        (\<lambda>seq. okE (i, seq)) (if ev_exceptions (e\<lparr>ev_uid := uid\<rparr>) \<noteq> []
          then execE (ReplaceEventExceptions i (ev_exceptions (e\<lparr>ev_uid := uid\<rparr>))) s else s))))" for e
    by (intro keeps_intros)
  then show ?thesis using ok_remember unfolding keeps_def addEvent_def Let_def by blast
qed

lemma ok_clientCommand [ok_intros]: "store_ok s \<Longrightarrow> store_ok (snd (clientCommand E u f b cmd s))"
proof -
  assume s: "store_ok s"
  let ?ad = "Child (Some cmd) ''ApplicationData''"
  have add: "store_ok (snd (case (if fo_class f = ''Contacts'' then addContact u f ?ad s
              else if fo_class f = ''Calendar'' then addEvent E u f ?ad c s
              else addMessage E u f ?ad s) of
          (Inl e, s') \<Rightarrow> (([statusResponse ''Add'' 0 c ''6''], []), s')
        | (Inr (i, seq), s') \<Rightarrow> (([statusResponse ''Add'' i c ''1''], if seq > 0 then [seq] else []), s')))" for c
  proof -
    have "keeps store_ok (if fo_class f = ''Contacts'' then addContact u f ?ad
       else if fo_class f = ''Calendar'' then addEvent E u f ?ad c else addMessage E u f ?ad)"
      by (intro keeps_intros)
    from keepsD [OF this s] show ?thesis by (auto split: prod.split sum.split)
  qed
  have change: "store_ok (snd (if fo_class f = ''Contacts'' then changeContact u f ?ad i s
               else if fo_class f = ''Calendar'' then changeEvent E u f ?ad i s
               else changeMessage E u f ?ad i s))" for i
    by (intro ok_if ok_intros s)
  have load: "store_ok (snd (loadAppData E f i p s))" for i p
    using keepsD [OF keeps_loadAppData s] .
  show ?thesis
    unfolding clientCommand_def Let_def
    apply (intro ok_if)
        apply (rule add)
       apply (rule ok_pairs, rule change)
       apply (simp split: prod.split)
      apply (rule ok_pair [OF s])
     apply (rule ok_pairs, rule ok_deleteItem [OF s])
     apply (simp split: prod.split)
     apply (rule ok_sum, rule load, rule ok_pair, assumption)
     apply (auto split: prod.split simp: s)
    done
qed

lemma ok_applyClientCommands [ok_intros]:
  "store_ok s \<Longrightarrow> store_ok (snd (applyClientCommands E u f b cs s))"
proof (induction cs arbitrary: s)
  case (Cons c cs)
  obtain r k t where r: "clientCommand E u f b c s = ((r, k), t)" by (metis prod.exhaust)
  then have "store_ok t" using ok_clientCommand [OF Cons.prems, of E u f b c] by simp
  then show ?case using Cons.IH [of t] by (auto simp: r Let_def split: prod.split)
qed simp

section \<open>The collection and the command\<close>

lemma ok_openState [ok_intros]: "store_ok s \<Longrightarrow> store_ok (snd (openState u v f key s))"
  unfolding openState_def Let_def
  apply (rule ok_case [OF keeps_GetSyncState], assumption, rule ok_pair, assumption)
  apply (rule ok_if)
   apply (intro ok_case ok_pair keeps_intros; assumption)
  apply (auto split: option.split)
  done

lemma ok_syncCollection [ok_intros]:
  assumes s: "store_ok s" shows "store_ok (snd (syncCollection E u v req s))"
proof -
  have cmds: "store_ok (snd (case Child (Some req) ''Commands'' of None \<Rightarrow> (([], []), t)
      | Some c \<Rightarrow> applyClientCommands E u f m (n_children c) t))" if "store_ok t" for f m t
    using that by (auto split: option.split intro: ok_applyClientCommands)
  have changes: "store_ok (snd (serverChanges E u v f a w pref cut sk t))" if "store_ok t" for f a w pref cut sk t
    by (rule keepsD [OF keeps_serverChanges that])
  have save: "store_ok (snd (SaveSyncState st t))" if "store_ok t" for st t
    by (rule keepsD [OF keeps_SaveSyncState that])
  show ?thesis
    unfolding syncCollection_def Let_def
    apply (rule ok_case [OF keeps_folder_reads(1) s], rule ok_pair, assumption)
    apply (rule ok_if, rule ok_pair, assumption)
    apply (rule ok_sum, rule ok_openState, assumption, rule ok_pair, assumption)
    apply (rule ok_pairs, rule cmds, assumption)
    apply (rule ok_sum, rule changes, assumption, rule ok_pair, assumption)
    subgoal for _ t0 _ t1 _ _ t2 x t3
      by (cases x) (auto intro!: ok_sum save ok_pair)
    done
qed

lemma ok_syncCollections [ok_intros]: "store_ok s \<Longrightarrow> store_ok (snd (syncCollections E u v cs s))"
proof (induction cs arbitrary: s)
  case (Cons c cs)
  obtain n t where r: "syncCollection E u v c s = (n, t)" by fastforce
  then have "store_ok t" using ok_syncCollection [OF Cons.prems, of E u v c] by simp
  then show ?case using Cons.IH [of t] by (auto simp: r Let_def split: prod.split)
qed simp

text \<open>Whatever a device sends in a \<open>Sync\<close> request, and whichever statements fail while it is
  handled, the tables stay consistent: keys unique, references resolved, sequences above every
  number given out.\<close>

theorem cmdSync_keeps_tables:
  assumes "store_ok s"
  shows "store_ok (snd (cmdSync E user deviceID req s))"
proof (cases "Child req ''Collections''")
  case None
  then show ?thesis using assms by (simp add: cmdSync_def)
next
  case (Some c)
  show ?thesis
    using ok_syncCollections [OF assms, of E "us_id user" deviceID "ChildrenNamed (Some c) ''Collection''"]
    by (simp add: cmdSync_def Some Let_def split_beta)
qed

definition demo_env :: env where
  "demo_env = \<lparr>en_addr_string = (\<lambda>n a. a), en_parse_address = (\<lambda>s. None), en_time_parse = (\<lambda>l v. None)\<rparr>"

text \<open>A device that deletes a message of a folder that is not there, with statements failing.\<close>

theorem cmdSync_keeps_tables_witness:
  "store_ok (snd (cmdSync demo_env demo_user ''d'' (Some (wbN pageAirSync ''Sync'' [wbN pageAirSync ''Collections''
     [wbN pageAirSync ''Collection'' [wbT pageAirSync ''CollectionId'' ''1'']]])) (demo_store\<lparr>st_faults := [True]\<rparr>)))"
  by (rule cmdSync_keeps_tables) (use demo_ok in \<open>simp add: store_ok_def\<close>)


section \<open>The answer is well-typed\<close>

lemma or_gone_Inr:
  "or_gone m f s = (Inr x, t) \<Longrightarrow> x = gone_item \<or> (\<exists>y u. m s = (Inr y, u) \<and> f y u = (Inr x, t))"
  by (auto simp: or_gone_def split: prod.splits sum.splits if_splits)

lemma typed_loadAppData:
  assumes "loadAppData E f i pref s = (Inr (Some a, g, d), t)"
  shows "typed codec a"
  using assms unfolding loadAppData_def
  by (auto simp: bindE_Inr_iff gone_item_def typing dest!: or_gone_Inr split: if_splits)

lemma typed_serverId [typing]: "typed codec (serverIdNode i)"
  by (simp add: serverIdNode_def typing)

lemma typed_statusNode [typing]: "typed codec (statusNode st)"
  by (simp add: statusNode_def typing)

lemma typed_deleteCommand: "deleteCommand u v f i K s = ((Some n, K'), t) \<Longrightarrow> typed codec n"
  by (auto simp: deleteCommand_def typing split: if_splits)

lemma typed_itemCommand:
  assumes "itemCommand E u v f i kind K pref cutoff s = ((Some n, K'), t)"
  shows "typed codec n"
proof (cases "kind = ''delete''")
  case True
  then show ?thesis using assms typed_deleteCommand by (simp add: itemCommand_def)
next
  case False
  obtain r s' where r: "loadAppData E f i pref s = (r, s')" by fastforce
  show ?thesis
  proof (cases r)
    case (Inl e)
    then show ?thesis using assms False r by (simp add: itemCommand_def)
  next
    case (Inr x)
    obtain app g d where x: "x = (app, g, d)" by (cases x)
    have "list_all (typed codec) (case app of None \<Rightarrow> [] | Some a \<Rightarrow> [a])"
      using typed_loadAppData r by (auto simp: Inr x split: option.split)
    then show ?thesis using assms False r
      by (auto simp: itemCommand_def Inr x typing split: if_splits dest: typed_deleteCommand)
  qed
qed

lemma typed_itemCommands: "list_all (typed codec) (fst (itemCommands E u v f pref cutoff ps K s))"
proof (induction ps arbitrary: K s)
  case (Cons p ps)
  obtain i kind where p: "p = (i, kind)" by (cases p)
  obtain n K' t where r: "itemCommand E u v f i kind K pref cutoff s = ((n, K'), t)" by (metis prod.exhaust)
  show ?case
    using Cons.IH [of K' t] typed_itemCommand [of E u v f i kind K pref cutoff s _ K' t] r
    by (cases n) (auto simp: p r Let_def split_beta)
qed simp

lemma typed_serverChanges:
  assumes "serverChanges E u v f after w pref ct sk s = (Inr (cs, h, n), t)"
  shows "list_all (typed codec) cs"
proof -
  have "\<exists>order K s'. cs = fst (itemCommands E u v f pref ct order K s')"
    using assms unfolding serverChanges_def bindE_Inr_iff
    by (auto simp: Let_def split_beta bindE_Inr_iff)
  then show ?thesis using typed_itemCommands by auto
qed

lemma typed_statusResponse: "nm \<in> {''Add'', ''Change'', ''Delete'', ''Fetch''} \<Longrightarrow> typed codec (statusResponse nm i c st)"
  by (auto simp: statusResponse_def typing)

lemma typed_clientCommand: "list_all (typed codec) (fst (fst (clientCommand E u f b cmd s)))"
proof -
  consider "n_name cmd = ''Add''" | "n_name cmd = ''Change''" | "n_name cmd = ''Delete''" | "n_name cmd = ''Fetch''"
    | "n_name cmd \<notin> {''Add'', ''Change'', ''Delete'', ''Fetch''}"
    by blast
  then show ?thesis
  proof cases
    case 1
    then show ?thesis
      by (simp add: clientCommand_def Let_def typed_statusResponse split: prod.split sum.split)
  next
    case 4
    then show ?thesis
      by (auto simp: clientCommand_def Let_def typed_statusResponse typing
          split: prod.split sum.split option.split dest: typed_loadAppData)
  qed (simp_all add: clientCommand_def Let_def typed_statusResponse split_beta)
qed

lemma typed_applyClientCommands: "list_all (typed codec) (fst (fst (applyClientCommands E u f b cs s)))"
proof (induction cs arbitrary: s)
  case (Cons c cs)
  obtain r k t where r: "clientCommand E u f b c s = ((r, k), t)" by (metis prod.exhaust)
  show ?case
    using Cons.IH [of t] typed_clientCommand [of E u f b c s] by (simp add: r Let_def split_beta)
qed simp


lemma typed_syncCollection: "typed codec (fst (syncCollection E u v req s))"
proof -
  have r: "list_all (typed codec) (if x \<noteq> [] then [wbN pageAirSync ''Responses'' x] else [])"
    if "list_all (typed codec) x" for x
    using that by (simp add: typing)
  have c: "list_all (typed codec) (if x \<noteq> [] then [wbN pageAirSync ''Commands'' x] else [])"
    if "list_all (typed codec) x" for x
    using that by (simp add: typing)
  have cmds: "list_all (typed codec) x"
    if "(case Child (Some req) ''Commands'' of None \<Rightarrow> (([], []), t)
      | Some c \<Rightarrow> applyClientCommands E u f m (n_children c) t) = ((x, k), t')" for f m t x k t'
    using that typed_applyClientCommands [of E u f m _ t] by (cases "Child (Some req) ''Commands''") (auto, metis fst_conv)
  show ?thesis
    unfolding syncCollection_def Let_def
    by (auto simp: typing split: prod.splits sum.splits dest!: cmds typed_serverChanges)
qed

lemma typed_syncCollections: "list_all (typed codec) (fst (syncCollections E u v cs s))"
proof (induction cs arbitrary: s)
  case (Cons c cs)
  obtain n t where r: "syncCollection E u v c s = (n, t)" by fastforce
  then show ?case
    using Cons.IH [of t] typed_syncCollection [of E u v c s] by (simp add: Let_def split_beta)
qed simp

text \<open>C11: \<open>Sync\<close> always answers, and the answer can always be encoded: for every request, every
  content of the tables and every failing statement the handler returns a response whose
  elements are all in the code pages.\<close>

theorem cmdSync_encodable:
  "\<exists>n bs. fst (cmdSync E user deviceID req s) = Inr n \<and> Encode (Some n) codec = Inr bs"
proof -
  have "\<exists>n. fst (cmdSync E user deviceID req s) = Inr n \<and> typed codec n"
    using typed_syncCollections [of E "us_id user" deviceID _ s]
    by (auto simp: cmdSync_def Let_def split_beta typing split: option.split)
  then show ?thesis using Encode_typed_iff by blast
qed

end
