(* ===== verification/EasFolders.thy ===== *)
theory EasFolders imports EasSyncInv begin

text \<open>
  \<open>internal/eas/folders.go\<close>: the folder hierarchy of an account. \<open>FolderSync\<close> reports the folders
  that changed after the key of the device, the other commands create, delete and change a
  folder. The fields of the account are those read when the request was authenticated.
\<close>

section \<open>Commands\<close>

definition statusFH :: "string \<Rightarrow> node" where
  "statusFH st = wbT pageFolderHierarchy ''Status'' st"

(* src: internal/eas/folders.go 157-164 contentClass *)
definition contentClass :: "string \<Rightarrow> string" where
  "contentClass c = (if c = [] then ''Email'' else c)"

(* src: internal/eas/folders.go 28-46 Server.cmdFolderSync *)
definition folderItems :: "int \<Rightarrow> folder \<Rightarrow> node list" where
  "folderItems since f =
    (if since \<noteq> 0 \<and> fo_seq f \<le> since then []
     else if fo_deleted f then
       (if since = 0 then []
        else [wbN pageFolderHierarchy ''Delete'' [wbT pageFolderHierarchy ''ServerId'' (i64toa (fo_id f))]])
     else [wbN pageFolderHierarchy ''Add'' [
        wbT pageFolderHierarchy ''ServerId'' (i64toa (fo_id f)),
        wbT pageFolderHierarchy ''ParentId'' (i64toa (fo_parent f)),
        wbT pageFolderHierarchy ''DisplayName'' (fo_name f),
        wbT pageFolderHierarchy ''Type'' (i64toa (fo_type f)),
        wbT pageFolderHierarchy ''ContentClass'' (contentClass (fo_class f))]])"

(* src: internal/eas/folders.go 10-60 Server.cmdFolderSync *)
definition cmdFolderSync :: "user \<Rightarrow> node option \<Rightarrow> (store, node) op" where
  "cmdFolderSync user req =
    (let since = parseInt (ChildText req ''SyncKey'') in
     if since > us_folder_seq user then okE (wbN pageFolderHierarchy ''FolderSync'' [statusFH ''9''])
     else bindE (FoldersByUser (us_id user)) (\<lambda>folders.
       let items = concat (map (folderItems since) folders);
           key = (if us_folder_seq user < 1 then 1 else us_folder_seq user) in
       okE (wbN pageFolderHierarchy ''FolderSync'' [statusFH ''1'',
         wbT pageFolderHierarchy ''SyncKey'' (i64toa key),
         wbN pageFolderHierarchy ''Changes'' (wbT pageFolderHierarchy ''Count'' (i64toa (len items)) # items)])))"

(* src: internal/eas/folders.go 62-68 Server.folderSyncKey *)
definition folderSyncKey :: "string \<Rightarrow> store \<Rightarrow> string \<times> store" where
  "folderSyncKey userID s = (case UserByID userID s of
     (Inl _, s') \<Rightarrow> (''1'', s')
   | (Inr u, s') \<Rightarrow> (if us_folder_seq u < 1 then ''1'' else i64toa (us_folder_seq u), s'))"

text \<open>The answer of a successful change: status, the new key, and the rest.\<close>

definition changed :: "string \<Rightarrow> string \<Rightarrow> node list \<Rightarrow> (store, node) op" where
  "changed name userID cs s = (let (key, s') = folderSyncKey userID s in
     (Inr (wbN pageFolderHierarchy name (statusFH ''1'' # wbT pageFolderHierarchy ''SyncKey'' key # cs)), s'))"

(* src: internal/eas/folders.go 79-85 Server.cmdFolderCreate *)
definition parentOK :: "user \<Rightarrow> int \<Rightarrow> store \<Rightarrow> bool \<times> store" where
  "parentOK user parent s =
    (if parent = 0 then (True, s)
     else case FolderByID parent s of
       (Inl _, s') \<Rightarrow> (False, s') | (Inr pf, s') \<Rightarrow> (fo_user pf = us_id user \<and> \<not> fo_deleted pf, s'))"

(* src: internal/eas/folders.go 70-100 Server.cmdFolderCreate *)
definition cmdFolderCreate :: "user \<Rightarrow> node option \<Rightarrow> (store, node) op" where
  "cmdFolderCreate user req s0 =
    (let name = ChildText req ''DisplayName''; typ = atoiDefault (ChildText req ''Type'') 1;
         parent = parseInt (ChildText req ''ParentId'');
         answer = (\<lambda>st. wbN pageFolderHierarchy ''FolderCreate'' [statusFH st]) in
     if name = [] then (Inr (answer ''5''), s0)
     else (let (ok, s) = parentOK user parent s0 in
       if \<not> ok then (Inr (answer ''4''), s)
       else (case CreateFolder (us_id user) parent name typ s of
           (Inl e, s') \<Rightarrow> if e = ErrDuplicate then (Inr (answer ''2''), s') else (Inl e, s')
         | (Inr f, s') \<Rightarrow> changed ''FolderCreate'' (us_id user)
             [wbT pageFolderHierarchy ''ServerId'' (i64toa (fo_id f))] s')))"

text \<open>The checks \<open>FolderDelete\<close> and \<open>FolderUpdate\<close> share: the folder, or the status of the answer.\<close>

(* src: internal/eas/folders.go 105-113 Server.cmdFolderDelete *)
definition ownFolder :: "user \<Rightarrow> int \<Rightarrow> store \<Rightarrow> (string + folder) \<times> store" where
  "ownFolder user i s = (case FolderByID i s of
     (Inl _, s') \<Rightarrow> (Inl ''3'', s')
   | (Inr f, s') \<Rightarrow> if fo_user f \<noteq> us_id user \<or> fo_deleted f then (Inl ''3'', s')
       else if IsSystemFolder (fo_type f) then (Inl ''4'', s') else (Inr f, s'))"

(* src: internal/eas/folders.go 102-122 Server.cmdFolderDelete *)
definition cmdFolderDelete :: "user \<Rightarrow> node option \<Rightarrow> (store, node) op" where
  "cmdFolderDelete user req s =
    (let i = parseInt (ChildText req ''ServerId'') in
     case ownFolder user i s of
       (Inl st, s') \<Rightarrow> (Inr (wbN pageFolderHierarchy ''FolderDelete'' [statusFH st]), s')
     | (Inr f, s') \<Rightarrow> bindE (DeleteFolder i) (\<lambda>_. changed ''FolderDelete'' (us_id user) []) s')"

(* src: internal/eas/folders.go 124-155 Server.cmdFolderUpdate *)
definition cmdFolderUpdate :: "user \<Rightarrow> node option \<Rightarrow> (store, node) op" where
  "cmdFolderUpdate user req s =
    (let i = parseInt (ChildText req ''ServerId'') in
     case ownFolder user i s of
       (Inl st, s') \<Rightarrow> (Inr (wbN pageFolderHierarchy ''FolderUpdate'' [statusFH st]), s')
     | (Inr f, s') \<Rightarrow>
        (let name = ChildText req ''DisplayName''; parentText = ChildText req ''ParentId'' in
         bindE (if name \<noteq> [] \<and> name \<noteq> fo_name f then RenameFolder i name else okE ()) (\<lambda>_.
         bindE (if parentText \<noteq> [] \<and> parseInt parentText \<noteq> fo_parent f
                then ReparentFolder i (parseInt parentText) else okE ()) (\<lambda>_.
         changed ''FolderUpdate'' (us_id user) [])) s'))"

section \<open>Invariant and typing\<close>

lemma keeps_UserByID [keeps_intros]: "keeps store_ok (UserByID i)"
  unfolding UserByID_def by (rule keeps_get_row)

lemma ok_folderSyncKey [ok_intros]: "store_ok s \<Longrightarrow> store_ok (snd (folderSyncKey u s))"
  unfolding folderSyncKey_def by (intro ok_case ok_pair keeps_intros)

lemma keeps_changed [keeps_intros]: "keeps store_ok (changed n u cs)"
  unfolding keeps_def changed_def Let_def using ok_folderSyncKey by (auto intro!: ok_bind ok_pair)

lemma keeps_cmdFolderSync [keeps_intros]: "keeps store_ok (cmdFolderSync user req)"
  unfolding cmdFolderSync_def Let_def by (intro keeps_intros)

lemma ok_parentOK [ok_intros]: "store_ok s \<Longrightarrow> store_ok (snd (parentOK user p s))"
  unfolding parentOK_def by (intro ok_if ok_case ok_pair keeps_intros)

lemma ok_ownFolder [ok_intros]: "store_ok s \<Longrightarrow> store_ok (snd (ownFolder user p s))"
  unfolding ownFolder_def by (intro ok_if ok_case ok_pair keeps_intros)

lemma keeps_changed_at: "store_ok s \<Longrightarrow> store_ok (snd (changed n u cs s))"
  using keeps_changed [of n u cs] unfolding keeps_def by blast

lemma keeps_cmdFolderCreate [keeps_intros]: "keeps store_ok (cmdFolderCreate user req)"
  unfolding keeps_def cmdFolderCreate_def Let_def
  apply (intro allI impI ok_if, rule ok_pair, assumption)
  apply (rule ok_bind, rule ok_parentOK, assumption)
  apply (intro ok_if, rule ok_pair, assumption)
  apply (rule ok_case [OF keeps_CreateFolder], assumption)
   apply (intro ok_if ok_pair; assumption)
  apply (rule keeps_changed_at, assumption)
  done

lemma keeps_cmdFolderDelete [keeps_intros]: "keeps store_ok (cmdFolderDelete user req)"
proof -
  have d: "store_ok (snd (bindE (DeleteFolder i) (\<lambda>_. changed ''FolderDelete'' v []) s))" if "store_ok s" for i v s
    by (rule keepsD [where I=store_ok, OF _ that]) (intro keeps_intros)
  show ?thesis
    unfolding keeps_def cmdFolderDelete_def Let_def
    by (intro allI impI, rule ok_sum, rule ok_ownFolder) (simp_all add: ok_pair d)
qed

lemma keeps_cmdFolderUpdate [keeps_intros]: "keeps store_ok (cmdFolderUpdate user req)"
proof -
  have k: "keeps store_ok (bindE (if b then RenameFolder i n else okE ()) (\<lambda>_.
     bindE (if c then ReparentFolder i p else okE ()) (\<lambda>_. changed ''FolderUpdate'' v [])))" for b i n c p v
    by (intro keeps_intros)
  show ?thesis
    unfolding keeps_def cmdFolderUpdate_def Let_def
    by (intro allI impI, rule ok_sum, rule ok_ownFolder) (simp_all add: ok_pair keepsD [OF k])
qed


section \<open>The folder list of a device\<close>

text \<open>What a device shows of a folder: parent, name and type.\<close>

type_synonym folder_list = "int \<rightharpoonup> int \<times> string \<times> int"

definition apply_folder_cmd :: "node \<Rightarrow> folder_list \<Rightarrow> folder_list" where
  "apply_folder_cmd c V = (let i = parseInt (ChildText (Some c) ''ServerId'') in
     if n_name c = ''Delete'' then V(i := None)
     else if n_name c = ''Add'' then V(i \<mapsto> (parseInt (ChildText (Some c) ''ParentId''),
       ChildText (Some c) ''DisplayName'', parseInt (ChildText (Some c) ''Type'')))
     else V)"

definition apply_changes :: "node \<Rightarrow> folder_list \<Rightarrow> folder_list" where
  "apply_changes answer V = (case Child (Some answer) ''Changes'' of None \<Rightarrow> V
     | Some cs \<Rightarrow> fold apply_folder_cmd (n_children cs) V)"

definition shown :: "folder \<Rightarrow> int \<times> string \<times> int" where
  "shown f = (fo_parent f, fo_name f, fo_type f)"

definition live_folders :: "db \<Rightarrow> string \<Rightarrow> folder_list" where
  "live_folders d u i = (case folder_row d i of None \<Rightarrow> None
     | Some f \<Rightarrow> if fo_user f = u \<and> \<not> fo_deleted f then Some (shown f) else None)"

text \<open>The list is right for all folders but those that changed after the key.\<close>

definition list_upto :: "db \<Rightarrow> string \<Rightarrow> int \<Rightarrow> folder_list \<Rightarrow> bool" where
  "list_upto d u since V \<longleftrightarrow> (\<forall>i. V i = live_folders d u i \<or>
     (\<exists>f\<in>set (tb_folders d). fo_user f = u \<and> fo_id f = i \<and> since < fo_seq f))"

definition folders_int64 :: "db \<Rightarrow> bool" where
  "folders_int64 d \<longleftrightarrow> (\<forall>f\<in>set (tb_folders d).
     int64_range (fo_id f) \<and> int64_range (fo_parent f) \<and> int64_range (fo_type f))"

lemma parse_i64 [simp]: "int64_range i \<Longrightarrow> parseInt (i64toa i) = i"
  by (simp add: parseInt_def i64toa_def parse_int64_itoa)

lemma apply_items:
  assumes "int64_range (fo_id f)" "int64_range (fo_parent f)" "int64_range (fo_type f)"
  shows "fold apply_folder_cmd (folderItems since f) V =
    (if since \<noteq> 0 \<and> fo_seq f \<le> since then V
     else if fo_deleted f then (if since = 0 then V else V(fo_id f := None)) else V(fo_id f \<mapsto> shown f))"
  using assms
  by (simp add: folderItems_def apply_folder_cmd_def ChildText_def Child_def wbN_def wbT_def shown_def Let_def)

lemma apply_all_items:
  assumes "distinct (map fo_id fs)"
    and "\<forall>f\<in>set fs. int64_range (fo_id f) \<and> int64_range (fo_parent f) \<and> int64_range (fo_type f)"
  shows "fold apply_folder_cmd (concat (map (folderItems since) fs)) V i =
    (case find (\<lambda>f. fo_id f = i) fs of None \<Rightarrow> V i | Some f \<Rightarrow>
       if since \<noteq> 0 \<and> fo_seq f \<le> since then V i
       else if fo_deleted f then (if since = 0 then V i else None) else Some (shown f))"
  using assms
proof (induction fs arbitrary: V)
  case (Cons f fs)
  have f: "int64_range (fo_id f)" "int64_range (fo_parent f)" "int64_range (fo_type f)" using Cons.prems(2) by auto
  have n: "find (\<lambda>f. fo_id f = i) fs = None" if "fo_id f = i"
    using Cons.prems(1) that unfolding find_None_iff by (metis distinct.simps(2) image_eqI list.set_map list.simps(9))
  show ?case
    using Cons.IH Cons.prems n by (auto simp: apply_items [OF f] split: option.split)
qed simp

lemma sorted_folders: "set (sort_key fo_parent (sort_key fo_id fs)) = set fs"
  by simp

lemma distinct_sorted_folders:
  "distinct (map fo_id fs) \<Longrightarrow> distinct (map fo_id (sort_key fo_parent (sort_key fo_id fs)))"
  by (simp add: distinct_map)

lemma find_user_folder:
  assumes "db_ok d"
  shows "find (\<lambda>f. fo_id f = i) (sort_key fo_parent (sort_key fo_id (filter (\<lambda>f. fo_user f = u) (tb_folders d)))) =
    (case folder_row d i of None \<Rightarrow> None | Some f \<Rightarrow> if fo_user f = u then Some f else None)"
    (is "find ?P ?l = _")
proof (cases "find ?P ?l")
  case None
  then have "\<forall>f\<in>set (tb_folders d). fo_user f = u \<longrightarrow> fo_id f \<noteq> i" by (auto simp: find_None_iff)
  then show ?thesis using None folder_rowD [of d i] by (auto split: option.split)
next
  case (Some f)
  then have "f \<in> set (tb_folders d)" "fo_user f = u" "fo_id f = i" by (auto dest: find_SomeD)
  then show ?thesis using Some folder_row_mem [OF assms, of f] by simp
qed

lemma ids_distinct: "db_ok d \<Longrightarrow> distinct (map fo_id (filter P (tb_folders d)))"
proof (rule distinct_map_filter)
  assume "db_ok d"
  then have "sorted_wrt (<) (map fo_id (tb_folders d))" by (simp add: db_ok_def folders_ok_def ids_ok_map)
  then show "distinct (map fo_id (tb_folders d))" by (simp add: strict_sorted_iff)
qed

text \<open>C3: \<open>FolderSync\<close> brings the folder list of a device up to date. A device that starts with
  an empty list, or whose list is right except for folders that changed after its key, has
  after applying the answer exactly the live folders of the account, with their current
  parents, names and types; the key it gets is the counter of the account.\<close>

theorem cmdFolderSync_converges:
  assumes "store_ok s" "cmdFolderSync user req s = (Inr answer, s')" "folders_int64 (st_db s)"
    and "parseInt (ChildText req ''SyncKey'') = since" "since \<le> us_folder_seq user"
    and "if since = 0 then V = Map.empty else list_upto (st_db s) (us_id user) since V"
  shows "apply_changes answer V = live_folders (st_db s) (us_id user) \<and> st_db s' = st_db s \<and>
    ChildText (Some answer) ''SyncKey'' = i64toa (max 1 (us_folder_seq user))"
proof -
  let ?d = "st_db s" and ?u = "us_id user"
  let ?fs = "sort_key fo_parent (sort_key fo_id (filter (\<lambda>f. fo_user f = ?u) (tb_folders ?d)))"
  let ?items = "concat (map (folderItems since) ?fs)"
  have d: "db_ok ?d" using assms(1) by (simp add: store_ok_def)
  have a: "answer = wbN pageFolderHierarchy ''FolderSync'' [statusFH ''1'',
      wbT pageFolderHierarchy ''SyncKey'' (i64toa (if us_folder_seq user < 1 then 1 else us_folder_seq user)),
      wbN pageFolderHierarchy ''Changes'' (wbT pageFolderHierarchy ''Count'' (i64toa (len ?items)) # ?items)]"
    and s': "st_db s' = ?d"
    using assms(2,4,5) by (auto simp: cmdFolderSync_def Let_def bindE_Inr_iff FoldersByUser_def getAll_Inr_iff)
  have "distinct (map fo_id ?fs)" by (rule distinct_sorted_folders) (rule ids_distinct [OF d])
  moreover have "\<forall>f\<in>set ?fs. int64_range (fo_id f) \<and> int64_range (fo_parent f) \<and> int64_range (fo_type f)"
    using assms(3) by (auto simp: folders_int64_def)
  ultimately have f: "fold apply_folder_cmd ?items V i = (case find (\<lambda>f. fo_id f = i) ?fs of None \<Rightarrow> V i | Some f \<Rightarrow>
       if since \<noteq> 0 \<and> fo_seq f \<le> since then V i
       else if fo_deleted f then (if since = 0 then V i else None) else Some (shown f))" for i
    by (rule apply_all_items)
  have "fold apply_folder_cmd ?items V i = live_folders ?d ?u i" for i
  proof (cases "folder_row ?d i")
    case None
    then have "\<not> (\<exists>f\<in>set (tb_folders ?d). fo_id f = i)" using folder_row_mem [OF d] by auto
    then have "V i = live_folders ?d ?u i" using assms(6) None
      unfolding list_upto_def by (cases "since = 0") (simp add: live_folders_def, auto)
    then show ?thesis unfolding f find_user_folder [OF d] using None by (simp add: live_folders_def)
  next
    case (Some g)
    have one: "x = g" if "x \<in> set (tb_folders ?d)" "fo_id x = i" for x
      using folder_row_mem [OF d that(1)] that(2) Some by simp
    have v: "if since = 0 then V i = None else V i = live_folders ?d ?u i \<or> (fo_user g = ?u \<and> since < fo_seq g)"
    proof (cases "since = 0")
      case False
      then have "list_upto ?d ?u since V" using assms(6) by simp
      then show ?thesis using False one unfolding list_upto_def by (auto dest: spec [of _ i])
    qed (use assms(6) in simp)
    show ?thesis unfolding f find_user_folder [OF d] using Some v
      by (auto simp: live_folders_def split: if_splits)
  qed
  then have "fold apply_folder_cmd ?items V = live_folders ?d ?u" by blast
  then show ?thesis
    by (simp add: s' a apply_changes_def apply_folder_cmd_def Child_def ChildText_def wbN_def wbT_def statusFH_def max_def)
qed


text \<open>The first synchronisation of the demo account: an inbox and a spam folder.\<close>

theorem cmdFolderSync_converges_witness:
  "\<exists>answer. fst (cmdFolderSync demo_user None demo_store) = Inr answer \<and>
     apply_changes answer Map.empty 2 = Some (0, ''Spam'', 12) \<and>
     ChildText (Some answer) ''SyncKey'' = i64toa 2"
proof -
  let ?s = "demo_store"
  have z: "parseInt (ChildText None ''SyncKey'') = 0"
    by (simp add: ChildText_def Child_def parseInt_def parse_int64_def trim_space_def trim_left_def trim_right_def)
  obtain answer s' where r: "cmdFolderSync demo_user None ?s = (Inr answer, s')"
    by (simp add: cmdFolderSync_def Let_def bindE_def FoldersByUser_def getAll_def sql_no_fault z demo_user_def)
  have i: "folders_int64 (st_db ?s)"
    by (simp add: folders_int64_def demo_defs int64_range_def max_int64_def min_int64_def)
  have l: "live_folders (st_db ?s) (us_id demo_user) 2 = Some (0, ''Spam'', 12)"
    by (simp add: live_folders_def folder_row_def demo_defs shown_def)
  have c: "(0::int) \<le> us_folder_seq demo_user" "max 1 (us_folder_seq demo_user) = 2" by (simp_all add: demo_user_def)
  show ?thesis
    using cmdFolderSync_converges [OF demo_ok r i z c(1), of Map.empty] l by (simp add: r c(2))
qed


section \<open>What the commands may change\<close>

lemma touchFolder_others:
  assumes "touchFolder i g s = (r, s')" "keeps_identity g" "f \<in> set (tb_folders (st_db s))" "fo_id f \<noteq> i"
  shows "f \<in> set (tb_folders (st_db s'))"
proof (cases r)
  case (Inl e)
  then have "st_db s' = st_db s" using assms(1) inTx_rollback by (force simp: touchFolder_def)
  then show ?thesis using assms(3) by simp
next
  case (Inr x)
  then have t: "touchFolder i g s = (Inr (), s')" using assms(1) by simp
  show ?thesis
    by (rule touchFolder_Inr [OF t assms(2)]) (use assms(3,4) in \<open>simp add: set_update_where\<close>)
qed

lemma folder_updates_touch:
  "\<exists>g. keeps_identity g \<and> RenameFolder i n = touchFolder i g"
  "\<exists>g. keeps_identity g \<and> ReparentFolder i p = touchFolder i g"
  "\<exists>g. keeps_identity g \<and> DeleteFolder i = touchFolder i g"
  unfolding RenameFolder_def ReparentFolder_def DeleteFolder_def
  by (rule exI, rule conjI [OF _ refl], simp add: keeps_identity_def)+

text \<open>An operation that leaves the folders with another id alone.\<close>

definition spares :: "int \<Rightarrow> (store, 'a) op \<Rightarrow> bool" where
  "spares i m \<longleftrightarrow> (\<forall>s f. f \<in> set (tb_folders (st_db s)) \<and> fo_id f \<noteq> i \<longrightarrow> f \<in> set (tb_folders (st_db (snd (m s)))))"

lemma spares_okE: "spares i (okE x)"
  by (simp add: spares_def)

lemma spares_bindE: "spares i m \<Longrightarrow> (\<And>x. spares i (g x)) \<Longrightarrow> spares i (bindE m g)"
  by (simp add: spares_def snd_bindE split: prod.split sum.split) (metis snd_conv)

lemma spares_if: "spares i m \<Longrightarrow> spares i n \<Longrightarrow> spares i (if b then m else n)"
  by simp

lemma spares_updates: "spares i (RenameFolder i n)" "spares i (ReparentFolder i p)" "spares i (DeleteFolder i)"
  using folder_updates_touch(1) [of i n] folder_updates_touch(2) [of i p] folder_updates_touch(3) [of i] touchFolder_others
  unfolding spares_def by (metis prod.collapse)+

lemma FolderByID_db: "st_db (snd (FolderByID i s)) = st_db s"
  unfolding FolderByID_def by (rule get_row_db)

lemma spares_changed: "spares i (changed n u cs)"
proof -
  have "st_db (snd (folderSyncKey u s)) = st_db s" for s
    using UserByID_db [of u s] by (cases "UserByID u s") (auto simp: folderSyncKey_def split: sum.split)
  then show ?thesis by (simp add: spares_def changed_def Let_def split_beta)
qed

lemma ownFolder_checked:
  assumes "ownFolder user i s = (r, t)"
  shows "st_db t = st_db s \<and> (\<forall>f. r = Inr f \<longrightarrow> folder_row (st_db s) i = Some f \<and> fo_user f = us_id user \<and>
    \<not> fo_deleted f \<and> \<not> IsSystemFolder (fo_type f))"
proof (cases "FolderByID i s")
  case (Pair q u)
  then have "st_db u = st_db s" using FolderByID_db [of i s] by simp
  then show ?thesis using assms Pair FolderByID_Inr [of i s _ u]
    by (auto simp: ownFolder_def split: sum.splits if_splits)
qed

text \<open>\<open>FolderDelete\<close> and \<open>FolderUpdate\<close> never touch a folder that belongs to another account,
  is one of the folders every mailbox has, or is already deleted: whatever the request says and
  whichever statements fail, its row stays as it was.\<close>

theorem folder_commands_spare:
  assumes "store_ok s" "f \<in> set (tb_folders (st_db s))"
    and "fo_user f \<noteq> us_id user \<or> IsSystemFolder (fo_type f) \<or> fo_deleted f"
  shows "f \<in> set (tb_folders (st_db (snd (cmdFolderDelete user req s)))) \<and>
    f \<in> set (tb_folders (st_db (snd (cmdFolderUpdate user req s))))"
proof -
  let ?i = "parseInt (ChildText req ''ServerId'')"
  have d: "db_ok (st_db s)" using assms(1) by (simp add: store_ok_def)
  obtain r t where o': "ownFolder user ?i s = (r, t)" by fastforce
  note c = ownFolder_checked [OF o']
  then have ft: "f \<in> set (tb_folders (st_db t))" using assms(2) by simp
  show ?thesis
  proof (cases r)
    case (Inl st)
    then show ?thesis using ft by (simp add: cmdFolderDelete_def cmdFolderUpdate_def Let_def o')
  next
    case (Inr g)
    then have "folder_row (st_db s) ?i = Some g" "fo_user g = us_id user" "\<not> fo_deleted g" "\<not> IsSystemFolder (fo_type g)"
      using c by auto
    then have i: "fo_id f \<noteq> ?i" using folder_row_mem [OF d assms(2)] assms(3) by auto
    have D: "spares ?i (bindE (DeleteFolder ?i) (\<lambda>_. changed ''FolderDelete'' (us_id user) []))"
      by (intro spares_bindE spares_updates spares_changed)
    have U: "spares ?i (bindE (if b then RenameFolder ?i n else okE ()) (\<lambda>_.
        bindE (if c then ReparentFolder ?i p else okE ()) (\<lambda>_. changed ''FolderUpdate'' (us_id user) [])))" for b n c p
      by (intro spares_bindE spares_if spares_updates spares_changed spares_okE)
    show ?thesis
      using D U ft i Inr unfolding cmdFolderDelete_def cmdFolderUpdate_def Let_def o' spares_def by simp
  qed
qed

text \<open>A request to delete the inbox.\<close>

theorem folder_commands_spare_witness:
  "demo_folder 1 ''Inbox'' 2 1 \<in> set (tb_folders (st_db (snd (cmdFolderDelete demo_user
     (Some (wbN pageFolderHierarchy ''FolderDelete'' [wbT pageFolderHierarchy ''ServerId'' ''1''])) demo_store))))"
proof -
  have f: "demo_folder 1 ''Inbox'' 2 1 \<in> set (tb_folders (st_db demo_store))"
    "IsSystemFolder (fo_type (demo_folder 1 ''Inbox'' 2 1))"
    by (simp_all add: demo_db_def) (simp add: demo_folder_def IsSystemFolder_def)
  show ?thesis using folder_commands_spare [OF demo_ok f(1)] f(2) by blast
qed


section \<open>The key stays good\<close>

lemma list_upto_touch:
  assumes "touchFolder i g s = (Inr (), s')" "keeps_identity g" "store_ok s" "seqs_ok (st_db s)"
    and "user_row (st_db s) u = Some r" "since \<le> us_folder_seq r" "list_upto (st_db s) u since V"
  shows "list_upto (st_db s') u since V"
  unfolding list_upto_def
proof
  fix j
  obtain f0 u0 where t: "folder_row (st_db s) i = Some f0" "user_row (st_db s) (fo_user f0) = Some u0"
    "tb_folders (st_db s') = update_where (\<lambda>f. fo_id f = i)
       (\<lambda>f. (g f)\<lparr>fo_seq := us_folder_seq u0 + 1\<rparr>) (tb_folders (st_db s))"
    using assms(1,2) by (rule touchFolder_Inr) blast
  let ?h = "\<lambda>f. (g f)\<lparr>fo_seq := us_folder_seq u0 + 1\<rparr>"
  have row: "folder_row (st_db s') j = map_option (\<lambda>x. if j = i then ?h x else x) (folder_row (st_db s) j)"
    unfolding folder_row_def t(3) by (rule find_update_where) (use assms(2) in \<open>simp add: keeps_identity_def\<close>)
  have gu: "fo_user (g f0) = fo_user f0" "fo_id (g f0) = i"
    using assms(2) folder_rowD [OF t(1)] by (simp_all add: keeps_identity_def)
  have d: "db_ok (st_db s)" using assms(3) by (simp add: store_ok_def)
  show "V j = live_folders (st_db s') u j \<or> (\<exists>f\<in>set (tb_folders (st_db s')). fo_user f = u \<and> fo_id f = j \<and> since < fo_seq f)"
  proof (cases "j = i \<and> fo_user f0 = u")
    case True
    then have "since < fo_seq (?h f0)" using assms(5,6) t(2) by simp
    moreover have "?h f0 \<in> set (tb_folders (st_db s'))"
      using folder_rowD [OF t(1)] by (auto simp: t(3) set_update_where)
    ultimately show ?thesis using True gu by (intro disjI2 bexI [of _ "?h f0"]) auto
  next
    case False
    have same: "live_folders (st_db s') u j = live_folders (st_db s) u j"
    proof (cases "j = i")
      case True
      then show ?thesis using False t(1) row gu(1) by (simp add: live_folders_def)
    next
      case False
      then show ?thesis using row by (simp add: live_folders_def option.map_ident)
    qed
    have "V j = live_folders (st_db s) u j \<or> (\<exists>f\<in>set (tb_folders (st_db s)). fo_user f = u \<and> fo_id f = j \<and> since < fo_seq f)"
      using assms(7) by (simp add: list_upto_def)
    moreover have "f \<in> set (tb_folders (st_db s'))"
      if "f \<in> set (tb_folders (st_db s))" "fo_user f = u" "fo_id f = j" for f
    proof -
      have "fo_id f \<noteq> i" using False that folder_row_mem [OF d that(1)] t(1) by auto
      then show ?thesis using that by (auto simp: t(3) set_update_where)
    qed
    ultimately show ?thesis unfolding same by blast
  qed
qed

lemma list_upto_touched:
  assumes "store_ok s" "seqs_ok (st_db s)" "user_row (st_db s) u = Some r" "since \<le> us_folder_seq r"
    and "list_upto (st_db s) u since V" "keeps_identity g"
  shows "list_upto (st_db (snd (touchFolder i g s))) u since V"
proof (cases "touchFolder i g s")
  case (Pair q s')
  show ?thesis
  proof (cases q)
    case (Inl e)
    then have "st_db s' = st_db s" using Pair inTx_rollback by (force simp: touchFolder_def)
    then show ?thesis using assms(5) Pair by simp
  next
    case (Inr x)
    then have t: "touchFolder i g s = (Inr (), s')" using Pair by simp
    show ?thesis using list_upto_touch [OF t assms(6,1-5)] Pair by simp
  qed
qed

lemma list_upto_add:
  assumes "tb_folders d' = tb_folders d @ [f]" "list_upto d u since V" "fo_user f = u \<longrightarrow> since < fo_seq f"
  shows "list_upto d' u since V"
  unfolding list_upto_def
proof
  fix j
  have row: "folder_row d' j = (case folder_row d j of None \<Rightarrow> if fo_id f = j then Some f else None
      | Some x \<Rightarrow> Some x)"
    by (simp add: folder_row_def assms(1) find_append split: option.split)
  have old: "V j = live_folders d u j \<or> (\<exists>f\<in>set (tb_folders d). fo_user f = u \<and> fo_id f = j \<and> since < fo_seq f)"
    using assms(2) by (simp add: list_upto_def)
  have "live_folders d' u j = live_folders d u j \<or> fo_id f = j \<and> fo_user f = u"
    by (auto simp: live_folders_def row split: option.split)
  then show "V j = live_folders d' u j \<or> (\<exists>f\<in>set (tb_folders d'). fo_user f = u \<and> fo_id f = j \<and> since < fo_seq f)"
    using old assms(1,3) by auto
qed

lemma list_upto_created:
  assumes "user_row (st_db s) u = Some r" "since \<le> us_folder_seq r" "list_upto (st_db s) u since V"
  shows "list_upto (st_db (snd (CreateFolder v p n t s))) u since V"
proof (cases "CreateFolder v p n t s")
  case (Pair q s')
  show ?thesis
  proof (cases q)
    case (Inl e)
    then have "st_db s' = st_db s" using Pair inTx_rollback by (force simp: CreateFolder_def)
    then show ?thesis using assms(3) Pair by simp
  next
    case (Inr f)
    then obtain z where z: "insertFolderTx v p n t (pop_fault s) = (Inr f, z)" "s' = pop_fault z"
      using inTx_commit [of "insertFolderTx v p n t" s f s'] Pair by (auto simp: CreateFolder_def)
    obtain w where w: "user_row (st_db (pop_fault s)) v = Some w" "fo_user f = v" "fo_seq f = us_folder_seq w + 1"
      "tb_folders (st_db z) = tb_folders (st_db (pop_fault s)) @ [f]"
      using z(1) by (rule insertFolderTx_Inr) blast
    have "list_upto (st_db s') u since V"
      by (rule list_upto_add [OF _ assms(3)]) (use w z(2) assms(1,2) in auto)
    then show ?thesis by (simp add: Pair)
  qed
qed

text \<open>Every change of a folder is seen. A device whose list was right up to its key is in
  the same situation after any folder of the account was created, renamed, moved or deleted,
  so its next \<open>FolderSync\<close> with the same key brings it up to date again.\<close>

theorem folder_changes_tracked:
  assumes "store_ok s" "seqs_ok (st_db s)" "user_row (st_db s) u = Some r" "since \<le> us_folder_seq r"
    and "list_upto (st_db s) u since V"
  shows "list_upto (st_db (snd (RenameFolder i n s))) u since V \<and>
    list_upto (st_db (snd (ReparentFolder i p s))) u since V \<and>
    list_upto (st_db (snd (DeleteFolder i s))) u since V \<and>
    list_upto (st_db (snd (CreateFolder v p n t s))) u since V"
  using list_upto_touched [OF assms] list_upto_created [OF assms(3-5)]
    folder_updates_touch(1) [of i n] folder_updates_touch(2) [of i p] folder_updates_touch(3) [of i] by metis

text \<open>The demo account at key 2, its folders all older.\<close>

theorem folder_changes_tracked_witness:
  "list_upto (st_db (snd (DeleteFolder 2 demo_store))) ''u'' 2 (live_folders demo_db ''u'')"
proof -
  have q: "seqs_ok (st_db demo_store)" "user_row (st_db demo_store) ''u'' = Some demo_user" "2 \<le> us_folder_seq demo_user"
    by (simp_all add: seqs_ok_def user_row_def demo_defs)
  have v: "list_upto (st_db demo_store) ''u'' 2 (live_folders demo_db ''u'')" by (simp add: list_upto_def)
  show ?thesis using folder_changes_tracked [OF demo_ok q v] by blast
qed


section \<open>Names and parents\<close>

lemma CreateFolder_taken:
  assumes "store_ok s" "st_faults s = []" "f \<in> set (tb_folders (st_db s))" "folder_key f = (v, p, n)"
  shows "\<exists>t. CreateFolder v p n typ s = (Inl ErrDuplicate, t) \<and> st_db t = st_db s"
proof -
  let ?s = "pop_fault s"
  have z: "st_faults ?s = []" "st_db ?s = st_db s" using assms(2) by (simp_all add: pop_fault_def)
  have "fo_user f = v" using assms(4) by (simp add: folder_key_def)
  then have "v \<in> set (map us_id (tb_users (st_db s)))"
    using assms(1,3) by (auto simp: store_ok_def db_ok_def folders_ok_def refs_ok_def)
  then obtain u where u: "find (\<lambda>u. us_id u = v) (tb_users (st_db s)) = Some u"
    by (metis (mono_tags, lifting) find_None_iff2 image_iff list.set_map not_None_eq)
  let ?d = "(st_db s)\<lparr>tb_users := update_where (\<lambda>u. us_id u = v) (\<lambda>u. u\<lparr>us_folder_seq := us_folder_seq u + 1\<rparr>) (tb_users (st_db s))\<rparr>"
  have b: "sql (bump_seq ErrNoRows v) ?s = (Inr (us_folder_seq u + 1), ?s\<lparr>st_db := ?d\<rparr>)"
    using assms(2) by (simp add: sql_no_fault bump_seq_def u)
  have k: "(v, p, n) \<in> set (map folder_key (tb_folders (st_db s)))"
    using assms(3,4) by (metis image_eqI list.set_map)
  have ins: "wrapDuplicate (sql (insert_folder g)) t = (Inl ErrDuplicate, t)"
    if "folder_key g = (v, p, n)" "st_faults t = []" "st_db t = ?d" for g t
    using k that by (simp add: wrapDuplicate_def sql_no_fault insert_folder_def)
  have "\<exists>t. insertFolderTx v p n typ ?s = (Inl ErrDuplicate, t)"
    using b z ins by (auto simp: insertFolderTx_def bindE_def NewUUID_def Let_def folder_key_def)
  then show ?thesis using assms(2) z by (auto simp: CreateFolder_def inTx_def)
qed

text \<open>The name of a deleted folder stays taken. When the account has a deleted folder of that
  name at the top level, \<open>FolderCreate\<close> answers status 2 (a folder of that name exists) and
  creates nothing, although no live folder has the name.\<close>

theorem deleted_name_blocked:
  assumes "store_ok s" "st_faults s = []" "f \<in> set (tb_folders (st_db s))" "fo_deleted f"
    and "fo_user f = us_id user" "fo_parent f = 0" "fo_name f \<noteq> []"
    and "ChildText req ''DisplayName'' = fo_name f" "parseInt (ChildText req ''ParentId'') = 0"
  shows "\<exists>t. cmdFolderCreate user req s =
    (Inr (wbN pageFolderHierarchy ''FolderCreate'' [wbT pageFolderHierarchy ''Status'' ''2'']), t) \<and> st_db t = st_db s"
proof -
  have "folder_key f = (us_id user, 0, fo_name f)" using assms(5,6) by (simp add: folder_key_def)
  from CreateFolder_taken [OF assms(1-3) this, of "atoiDefault (ChildText req ''Type'') 1"] assms(7-9)
  show ?thesis by (auto simp: cmdFolderCreate_def parentOK_def Let_def statusFH_def)
qed

text \<open>The demo account with a deleted folder \<open>Work\<close>, which the device creates again.\<close>

theorem deleted_name_blocked_witness:
  "\<exists>t. cmdFolderCreate demo_user (Some (wbN pageFolderHierarchy ''FolderCreate'' [
       wbT pageFolderHierarchy ''DisplayName'' ''Work'', wbT pageFolderHierarchy ''ParentId'' (i64toa 0)]))
     (demo_store\<lparr>st_db := demo_db\<lparr>tb_folders := tb_folders demo_db @ [(demo_folder 3 ''Work'' 1 2)\<lparr>fo_deleted := True\<rparr>],
        sq_folders := 3\<rparr>\<rparr>) =
   (Inr (wbN pageFolderHierarchy ''FolderCreate'' [wbT pageFolderHierarchy ''Status'' ''2'']), t)"
proof -
  let ?f = "(demo_folder 3 ''Work'' 1 2)\<lparr>fo_deleted := True\<rparr>"
  let ?s = "demo_store\<lparr>st_db := demo_db\<lparr>tb_folders := tb_folders demo_db @ [?f], sq_folders := 3\<rparr>\<rparr>"
  let ?r = "Some (wbN pageFolderHierarchy ''FolderCreate'' [
       wbT pageFolderHierarchy ''DisplayName'' ''Work'', wbT pageFolderHierarchy ''ParentId'' (i64toa 0)])"
  have ok: "store_ok ?s"
    by (simp add: store_ok_def db_ok_def db_parts demo_defs ids_ok_def refs_ok_def folder_key_def
      uuid_rows_def primary_rows_def state_key_def)
  have p: "parseInt (i64toa 0) = 0" by (simp add: int64_range_def max_int64_def min_int64_def)
  have r: "ChildText ?r ''DisplayName'' = ''Work''" "ChildText ?r ''ParentId'' = i64toa 0"
    by (simp_all add: ChildText_def Child_def wbN_def wbT_def)
  have f: "?f \<in> set (tb_folders (st_db ?s))" "fo_deleted ?f" "fo_user ?f = us_id demo_user" "fo_parent ?f = 0"
    "fo_name ?f = ''Work''" "st_faults ?s = []"
    by (simp_all add: demo_folder_def demo_user_def)
  show ?thesis
    using deleted_name_blocked [OF ok f(6,1,2,3,4), of ?r] by (simp add: r p f(5)) blast
qed

end
