(* ===== verification/StoreOutbox.thy ===== *)
theory StoreOutbox imports StoreItems begin

text \<open>
  \<open>internal/store/outbox.go\<close>: the queue of messages waiting for SMTP delivery. A row holds
  the recipients as one comma-separated text; the MIME source is in the blob directory.
\<close>

(* src: internal/store/outbox.go 9-22 Outbound *)
record outbound =
  on_id :: int
  on_from :: string
  on_recipients :: "string list"
  on_raw :: string
  on_raw_path :: string
  on_attempts :: int
  on_last_error :: string
  on_next_attempt :: int
  on_failed :: bool
  on_created :: int

(* src: internal/store/outbox.go 185-197 splitOutboxRecipients *)
definition splitOutboxRecipients :: "string \<Rightarrow> string list" where
  "splitOutboxRecipients value = (if value = [] then []
     else filter (\<lambda>p. p \<noteq> []) (map trim_space (split_byte CHR '','' value)))"

(* src: internal/store/outbox.go 36-42 outboundRow.outbound *)
definition outbound_of :: "outbox_row \<Rightarrow> outbound" where
  "outbound_of r = \<lparr>on_id = ob_id r, on_from = ob_from r,
     on_recipients = splitOutboxRecipients (ob_recipients r), on_raw = [], on_raw_path = ob_raw_path r,
     on_attempts = ob_attempts r, on_last_error = ob_last_error r, on_next_attempt = ob_next_attempt r,
     on_failed = ob_failed r, on_created = ob_created r\<rparr>"

definition insert_outbox :: "outbox_row \<Rightarrow> db \<Rightarrow> go_error + int \<times> db" where
  "insert_outbox r d = (let i = sq_outbox d + 1 in
     Inr (i, d\<lparr>tb_outbox := tb_outbox d @ [r\<lparr>ob_id := i\<rparr>], sq_outbox := i\<rparr>))"

definition upd_outbox :: "int \<Rightarrow> (outbox_row \<Rightarrow> outbox_row) \<Rightarrow> db \<Rightarrow> db" where
  "upd_outbox i f d = d\<lparr>tb_outbox := update_where (\<lambda>r. ob_id r = i) f (tb_outbox d)\<rparr>"

(* src: internal/store/outbox.go 55-77 Store.EnqueueOutbound *)
definition EnqueueOutbound :: "string \<Rightarrow> string list \<Rightarrow> string \<Rightarrow> (store, int) op" where
  "EnqueueOutbound envelopeFrom recipients raw s =
    (if st_blobs s = None then (Inl ErrNoBlobDir, s)
     else bindE (sql (insert_outbox \<lparr>ob_id = 0, ob_from = envelopeFrom, ob_recipients = join '','' recipients,
              ob_raw_path = [], ob_attempts = 0, ob_last_error = [], ob_next_attempt = 0, ob_failed = False,
              ob_created = nowUnix s\<rparr>)) (\<lambda>i s.
       let path = blobKey (st_sum s) ''out'' i ''mime.eml'' raw in
       bindE (blobPut path raw) (\<lambda>_.
       bindE (exec (upd_outbox i (\<lambda>r. r\<lparr>ob_raw_path := path\<rparr>))) (\<lambda>_. okE i)) s) s)"

(* src: internal/store/outbox.go 117-131 Store.loadOutboundRaw *)
definition loadOutboundRaw :: "outbound \<Rightarrow> (store, outbound) op" where
  "loadOutboundRaw item s =
    (if on_raw_path item = [] \<or> on_raw item \<noteq> [] then (Inr item, s)
     else if st_blobs s = None then (Inl ErrNoBlobDir, s)
     else bindE (blobGet (on_raw_path item)) (\<lambda>raw. okE (item\<lparr>on_raw := raw\<rparr>)) s)"

(* src: internal/store/outbox.go 92-96 Store.DueOutbound *)
fun load_all :: "outbound list \<Rightarrow> (store, outbound list) op" where
  "load_all [] = okE []"
| "load_all (x # xs) = bindE (loadOutboundRaw x) (\<lambda>y. bindE (load_all xs) (\<lambda>ys. okE (y # ys)))"

definition due_rows :: "int \<Rightarrow> db \<Rightarrow> outbox_row list" where
  "due_rows now d = sort_key ob_id (filter (\<lambda>r. \<not> ob_failed r \<and> ob_next_attempt r \<le> now) (tb_outbox d))"

(* src: internal/store/outbox.go 79-98 Store.DueOutbound *)
definition DueOutbound :: "int \<Rightarrow> int \<Rightarrow> (store, outbound list) op" where
  "DueOutbound now limit =
    (let limit = (if limit \<le> 0 then 10 else limit) in
     bindE (getAll (\<lambda>d. limit_rows limit (due_rows now d))) (\<lambda>rows. load_all (map outbound_of rows)))"

(* src: internal/store/outbox.go 100-115 Store.ListOutbound *)
definition ListOutbound :: "bool \<Rightarrow> int \<Rightarrow> (store, outbound list) op" where
  "ListOutbound failedOnly limit =
    (let limit = (if limit \<le> 0 \<or> limit > 500 then 100 else limit) in
     bindE (getAll (\<lambda>d. limit_rows limit (sort_desc ob_id
         (filter (\<lambda>r. failedOnly \<longrightarrow> ob_failed r) (tb_outbox d)))))
       (\<lambda>rows. okE (map outbound_of rows)))"

(* src: internal/store/outbox.go 133-139 Store.RetryOutboundNow *)
definition RetryOutboundNow :: "int \<Rightarrow> (store, unit) op" where
  "RetryOutboundNow i = exec (upd_outbox i (\<lambda>r. r\<lparr>ob_failed := False, ob_attempts := 0,
     ob_next_attempt := 0, ob_last_error := []\<rparr>))"

(* src: internal/store/outbox.go 141-152 Store.OutboundByID *)
definition OutboundByID :: "int \<Rightarrow> (store, outbound) op" where
  "OutboundByID i = bindE (get_row (\<lambda>d. filter (\<lambda>r. ob_id r = i) (tb_outbox d)))
     (\<lambda>row. loadOutboundRaw (outbound_of row))"

(* src: internal/store/outbox.go 154-160 Store.RetryOutbound *)
definition RetryOutbound :: "int \<Rightarrow> int \<Rightarrow> int \<Rightarrow> string \<Rightarrow> bool \<Rightarrow> (store, unit) op" where
  "RetryOutbound i attempts nextAttempt lastError failed = exec (upd_outbox i (\<lambda>r. r\<lparr>ob_attempts := attempts,
     ob_next_attempt := nextAttempt, ob_last_error := lastError, ob_failed := failed\<rparr>))"

text \<open>The path of a row that is gone is the empty string, and nothing is removed for it.\<close>

(* src: internal/store/outbox.go 162-176 Store.DeleteOutbound *)
definition DeleteOutbound :: "int \<Rightarrow> (store, unit) op" where
  "DeleteOutbound i s =
    (case get_row (\<lambda>d. map ob_raw_path (filter (\<lambda>r. ob_id r = i) (tb_outbox d))) s of
       (Inl e, s1) \<Rightarrow> if e \<noteq> ErrNotFound then (Inl e, s1)
         else exec (\<lambda>d. d\<lparr>tb_outbox := filter (\<lambda>r. ob_id r \<noteq> i) (tb_outbox d)\<rparr>) s1
     | (Inr path, s1) \<Rightarrow>
         bindE (exec (\<lambda>d. d\<lparr>tb_outbox := filter (\<lambda>r. ob_id r \<noteq> i) (tb_outbox d)\<rparr>)) (\<lambda>_ s2.
           if path \<noteq> [] \<and> st_blobs s2 \<noteq> None then (Inr (), execE (blobRemove path) s2) else (Inr (), s2)) s1)"

(* src: internal/store/outbox.go 178-183 Store.CountOutbound *)
definition CountOutbound :: "bool \<Rightarrow> (store, int) op" where
  "CountOutbound failed = getAll (\<lambda>d. int (length (filter (\<lambda>r. ob_failed r = failed) (tb_outbox d))))"

section \<open>The invariant\<close>

lemma db_ok_outbox: "db_ok d \<Longrightarrow> ids_ok ob_id n rs \<Longrightarrow> db_ok (d\<lparr>tb_outbox := rs, sq_outbox := n\<rparr>)"
  by (simp add: db_ok_def db_parts)

lemma db_ok_outbox_same: "db_ok d \<Longrightarrow> ids_ok ob_id (sq_outbox d) rs \<Longrightarrow> db_ok (d\<lparr>tb_outbox := rs\<rparr>)"
  using db_ok_outbox [of d "sq_outbox d" rs] by simp

lemma db_okD_outbox: "db_ok d \<Longrightarrow> ids_ok ob_id (sq_outbox d) (tb_outbox d)"
  by (simp add: db_ok_def outbox_ok_def)

lemma keeps_insert_outbox [keeps_intros]: "keeps store_ok (sql (insert_outbox r))"
  by (rule keeps_sql) (auto simp: keeps_db_def insert_outbox_def Let_def db_okD_outbox
      intro!: db_ok_outbox ids_ok_append)

lemma keeps_upd_outbox: "(\<And>r. ob_id (f r) = ob_id r) \<Longrightarrow> keeps store_ok (exec (upd_outbox i f))"
  by (rule keeps_exec) (auto simp: upd_outbox_def db_okD_outbox intro!: db_ok_outbox_same ids_ok_update)

lemma keeps_del_outbox [keeps_intros]:
  "keeps store_ok (exec (\<lambda>d. d\<lparr>tb_outbox := filter P (tb_outbox d)\<rparr>))"
  by (rule keeps_exec) (auto simp: db_okD_outbox intro!: db_ok_outbox_same ids_ok_filter)

lemma keeps_outbox_updates [keeps_intros]:
  "keeps store_ok (RetryOutboundNow i)" "keeps store_ok (RetryOutbound i n t e b)" "keeps store_ok (CountOutbound b)"
  by (simp_all add: RetryOutboundNow_def RetryOutbound_def CountOutbound_def keeps_upd_outbox keeps_getAll)

lemma keeps_EnqueueOutbound [keeps_intros]: "keeps store_ok (EnqueueOutbound f rs raw)"
proof -
  have "keeps store_ok (\<lambda>s. let path = blobKey (st_sum s) ''out'' i ''mime.eml'' raw in
       bindE (blobPut path raw) (\<lambda>_. bindE (exec (upd_outbox i (\<lambda>r. r\<lparr>ob_raw_path := path\<rparr>))) (\<lambda>_. okE i)) s)" for i
  proof (rule keepsI)
    fix s assume s: "store_ok s"
    have "keeps store_ok (bindE (blobPut p raw) (\<lambda>_. bindE (exec (upd_outbox i (\<lambda>r. r\<lparr>ob_raw_path := p\<rparr>))) (\<lambda>_. okE i)))" for p
      by (intro keeps_bindE keeps_blobs keeps_upd_outbox keeps_okE) simp
    then show "store_ok (snd (let path = blobKey (st_sum s) ''out'' i ''mime.eml'' raw in
       bindE (blobPut path raw) (\<lambda>_. bindE (exec (upd_outbox i (\<lambda>r. r\<lparr>ob_raw_path := path\<rparr>))) (\<lambda>_. okE i)) s))"
      using s by (simp add: Let_def keeps_def)
  qed
  then have k: "keeps store_ok (bindE (sql (insert_outbox r)) (\<lambda>i s. let path = blobKey (st_sum s) ''out'' i ''mime.eml'' raw in
       bindE (blobPut path raw) (\<lambda>_. bindE (exec (upd_outbox i (\<lambda>r. r\<lparr>ob_raw_path := path\<rparr>))) (\<lambda>_. okE i)) s))" for r
    by (intro keeps_bindE keeps_insert_outbox)
  show ?thesis
  proof (rule keepsI)
    fix s assume s: "store_ok s"
    show "store_ok (snd (EnqueueOutbound f rs raw s))"
      using keepsD [OF k s] s by (simp add: EnqueueOutbound_def)
  qed
qed

lemma keeps_loadOutboundRaw [keeps_intros]: "keeps store_ok (loadOutboundRaw x)"
proof (rule keepsI)
  fix s assume s: "store_ok s"
  have "keeps store_ok (bindE (blobGet (on_raw_path x)) (\<lambda>raw. okE (x\<lparr>on_raw := raw\<rparr>)))"
    by (intro keeps_intros)
  then show "store_ok (snd (loadOutboundRaw x s))" using s by (simp add: loadOutboundRaw_def keeps_def)
qed

lemma keeps_load_all [keeps_intros]: "keeps store_ok (load_all xs)"
  by (induction xs) (simp_all only: load_all.simps keeps_okE keeps_bindE keeps_loadOutboundRaw)

lemma keeps_outbox_reads [keeps_intros]:
  "keeps store_ok (DueOutbound t n)" "keeps store_ok (ListOutbound b n)" "keeps store_ok (OutboundByID i)"
  by (simp_all add: DueOutbound_def ListOutbound_def OutboundByID_def Let_def keeps_bindE keeps_getAll
      keeps_get_row keeps_okE keeps_load_all keeps_loadOutboundRaw del: okE_simp)

lemma keeps_DeleteOutbound [keeps_intros]: "keeps store_ok (DeleteOutbound i)"
proof (rule keepsI)
  fix s assume s: "store_ok s"
  let ?q = "get_row (\<lambda>d. map ob_raw_path (filter (\<lambda>r. ob_id r = i) (tb_outbox d)))"
  obtain r s1 where q: "?q s = (r, s1)" by (cases "?q s")
  have s1: "store_ok s1" using keepsD_eq [OF keeps_get_row s q] .
  have del: "keeps store_ok (exec (\<lambda>d. d\<lparr>tb_outbox := filter (\<lambda>r. ob_id r \<noteq> i) (tb_outbox d)\<rparr>))"
    by (rule keeps_del_outbox)
  have rm: "keeps store_ok (\<lambda>s2. if p \<noteq> [] \<and> st_blobs s2 \<noteq> None then (Inr (), execE (blobRemove p) s2) else (Inr (), s2))" for p
    using keeps_blobs(3) by (simp add: keeps_def execE_def)
  show "store_ok (snd (DeleteOutbound i s))"
    using keepsD [OF del s1] keepsD [OF keeps_bindE [OF del rm] s1]
    by (cases r) (simp_all add: DeleteOutbound_def q s1)
qed

section \<open>Properties\<close>

definition plain_recipient :: "string \<Rightarrow> bool" where
  "plain_recipient r \<longleftrightarrow> r \<noteq> [] \<and> CHR '','' \<notin> set r \<and> trim_space r = r"

lemma join_eq_Nil: "\<forall>x\<in>set xs. x \<noteq> [] \<Longrightarrow> join sep xs = [] \<longleftrightarrow> xs = []"
proof (cases xs)
  case (Cons x ys)
  assume "\<forall>x\<in>set xs. x \<noteq> []"
  then show ?thesis using Cons by (cases "ys = []") (auto simp: join_Cons2)
qed simp

text \<open>The recipients of a queued message survive the one-column storage: splitting the
  joined text gives the list back, in order, for addresses that are not empty, hold no comma
  and have no space at either end.\<close>

theorem recipients_roundtrip:
  assumes "\<forall>r\<in>set rs. plain_recipient r"
  shows "splitOutboxRecipients (join '','' rs) = rs"
proof (cases "rs = []")
  case False
  have "split_byte CHR '','' (join '','' rs) = rs"
    by (rule split_join) (use assms False in \<open>auto simp: plain_recipient_def\<close>)
  moreover have "join '','' rs \<noteq> []"
    using False assms by (subst join_eq_Nil) (auto simp: plain_recipient_def)
  moreover have "map trim_space rs = rs" using assms by (intro map_idI) (auto simp: plain_recipient_def)
  moreover have "filter (\<lambda>p. p \<noteq> []) rs = rs" using assms by (intro filter_True) (auto simp: plain_recipient_def)
  ultimately show ?thesis by (simp add: splitOutboxRecipients_def)
qed (simp add: splitOutboxRecipients_def)

theorem recipients_roundtrip_witness:
  "splitOutboxRecipients ''a@x,b@y'' = [''a@x'', ''b@y'']"
proof -
  have "plain_recipient ''a@x''"
    by (simp add: plain_recipient_def trim_space_def trim_left_def trim_right_def is_space_def)
  moreover have "plain_recipient ''b@y''"
    by (simp add: plain_recipient_def trim_space_def trim_left_def trim_right_def is_space_def)
  ultimately show ?thesis using recipients_roundtrip [of "[''a@x'', ''b@y'']"] by simp
qed

lemma due_rows_set: "set (due_rows t d) = {r \<in> set (tb_outbox d). \<not> ob_failed r \<and> ob_next_attempt r \<le> t}"
  by (auto simp: due_rows_def)

text \<open>A message that was queued is due at once and keeps what was queued: loading it by
  its id gives the sender, the recipients and the source, with no attempt counted, and no
  other row of the queue changes.\<close>

theorem EnqueueOutbound_due:
  assumes "store_ok s" "EnqueueOutbound f rs raw s = (Inr i, s')" "st_faults s' = []"
    and "\<forall>r\<in>set rs. plain_recipient r" "0 \<le> t"
  shows "\<exists>item. fst (OutboundByID i s') = Inr item \<and> on_id item = i \<and> on_from item = f \<and>
    on_recipients item = rs \<and> on_raw item = raw \<and> on_attempts item = 0 \<and> \<not> on_failed item \<and>
    i \<in> ob_id ` set (due_rows t (st_db s')) \<and>
    filter (\<lambda>r. ob_id r \<noteq> i) (tb_outbox (st_db s')) = tb_outbox (st_db s)"
proof -
  let ?r = "\<lparr>ob_id = 0, ob_from = f, ob_recipients = join '','' rs, ob_raw_path = [], ob_attempts = 0,
      ob_last_error = [], ob_next_attempt = 0, ob_failed = False, ob_created = nowUnix s\<rparr>"
  let ?p = "\<lambda>t. blobKey (st_sum t) ''out'' i ''mime.eml'' raw"
  have ids: "ids_ok ob_id (sq_outbox (st_db s)) (tb_outbox (st_db s))"
    using assms(1) by (simp add: store_ok_def db_okD_outbox)
  have b: "st_blobs s \<noteq> None"
    using assms(2) unfolding EnqueueOutbound_def by (cases "st_blobs s = None") simp_all
  obtain j a u where j: "sql (insert_outbox ?r) s = (Inr j, a)" "j = i"
    "blobPut (?p a) raw a = (Inr (), u)" "exec (upd_outbox i (\<lambda>r. r\<lparr>ob_raw_path := ?p a\<rparr>)) u = (Inr (), s')"
    using assms(2) b by (auto simp: EnqueueOutbound_def bindE_Inr_iff Let_def)
  have a: "i = sq_outbox (st_db s) + 1" "tb_outbox (st_db a) = tb_outbox (st_db s) @ [?r\<lparr>ob_id := i\<rparr>]"
    "st_blobs a = st_blobs s"
    using j(1,2) by (auto simp: sql_Inr_iff insert_outbox_def Let_def)
  have old: "\<forall>r\<in>set (tb_outbox (st_db s)). ob_id r \<noteq> i" using ids a(1) by (auto simp: ids_ok_def)
  have u: "st_db u = st_db a" "st_blobs u = map_option (\<lambda>m. m(?p a \<mapsto> raw)) (st_blobs a)"
    using j(3) by (auto simp: blobPut_def split: if_splits)
  let ?new = "?r\<lparr>ob_id := i, ob_raw_path := ?p a\<rparr>"
  have s': "tb_outbox (st_db s') = tb_outbox (st_db s) @ [?new]" "st_blobs s' = st_blobs u"
    using j(4) u(1) a(2) old
    by (auto simp: exec_Inr_iff upd_outbox_def update_where_def map_idI)
  have q: "filter (\<lambda>r. ob_id r = i) (tb_outbox (st_db s')) = [?new]"
    using old by (simp add: s' filter_empty_conv)
  have p: "?p a \<noteq> []" by (simp add: blobKey_def)
  obtain bm where bm: "st_blobs s' = Some bm" "bm (?p a) = Some raw" using b a(3) u(2) s'(2) by auto
  have "fst (OutboundByID i s') = Inr ((outbound_of ?new)\<lparr>on_raw := raw\<rparr>)"
    using q p bm assms(3)
    by (simp add: OutboundByID_def get_row_def bindE_def sql_no_fault loadOutboundRaw_def outbound_of_def blobGet_def)
  moreover have "?new \<in> set (due_rows t (st_db s'))" using assms(5) by (simp add: due_rows_set s')
  then have "i \<in> ob_id ` set (due_rows t (st_db s'))" by force
  moreover have "filter (\<lambda>r. ob_id r \<noteq> i) (tb_outbox (st_db s')) = tb_outbox (st_db s)"
    using old by (simp add: s' filter_id_conv)
  ultimately show ?thesis using recipients_roundtrip [OF assms(4)] by (auto simp: outbound_of_def)
qed

theorem EnqueueOutbound_due_witness:
  "\<exists>item s'. EnqueueOutbound ''u@x'' [''a@y''] ''mime'' demo_store = (Inr 1, s') \<and>
     fst (OutboundByID 1 s') = Inr item \<and> on_recipients item = [''a@y''] \<and> on_raw item = ''mime''"
proof -
  have p: "plain_recipient ''a@y''"
    by (simp add: plain_recipient_def trim_space_def trim_left_def trim_right_def is_space_def)
  obtain s' where a: "EnqueueOutbound ''u@x'' [''a@y''] ''mime'' demo_store = (Inr 1, s')" "st_faults s' = []"
    by (simp add: EnqueueOutbound_def Let_def bindE_def sql_no_fault insert_outbox_def
        blobPut_def exec_def demo_defs)
  have "\<forall>r\<in>set [''a@y'']. plain_recipient r" using p by simp
  from EnqueueOutbound_due [OF demo_ok a this, of 0] a show ?thesis by auto
qed

end
