(* ===== verification/StoreDevices.thy ===== *)
theory StoreDevices imports StoreOutbox begin

text \<open>
  \<open>internal/store/devices.go\<close>: the ActiveSync devices of the accounts, their policy keys and
  the remote wipe flag.
\<close>

text \<open>\<open>JOIN users u ... LEFT JOIN aliases p\<close>, with \<open>COALESCE(p.address, u.name, '')\<close>.\<close>

(* src: internal/store/devices.go 41-59 Store.ListDevices *)
definition ListDevices :: "(store, device list) op" where
  "ListDevices = getAll (\<lambda>d. sort_desc dv_last_seen (concat (map (\<lambda>v.
     (case user_row d (dv_user v) of
        None \<Rightarrow> []
      | Some u \<Rightarrow> [v\<lparr>dv_address := (case primary_address (dv_user v) d of
                        Some a \<Rightarrow> a | None \<Rightarrow> us_name u)\<rparr>])) (tb_devices d))))"

definition upsert_device :: "device \<Rightarrow> db \<Rightarrow> go_error + unit \<times> db" where
  "upsert_device v d =
    (if device_key v \<in> set (map device_key (tb_devices d)) then
       Inr ((), d\<lparr>tb_devices := update_where (\<lambda>r. device_key r = device_key v)
         (\<lambda>r. r\<lparr>dv_type := dv_type v, dv_protocol := dv_protocol v, dv_last_seen := dv_last_seen v,
                dv_last_ip := dv_last_ip v\<rparr>) (tb_devices d)\<rparr>)
     else if dv_user v \<notin> set (user_ids d) then Inl ErrForeignKey
     else Inr ((), d\<lparr>tb_devices := tb_devices d @ [v]\<rparr>))"

(* src: internal/store/devices.go 66-84 Store.RecordDevice *)
definition RecordDevice :: "string \<Rightarrow> string \<Rightarrow> string \<Rightarrow> string \<Rightarrow> string \<Rightarrow> (store, unit) op" where
  "RecordDevice userID deviceID deviceType protocol ip s =
    (if deviceID = [] then (Inr (), s)
     else let now = nowUnix s in
       sql (upsert_device \<lparr>dv_user = userID, dv_address = [], dv_id = deviceID, dv_type = deviceType,
         dv_protocol = protocol, dv_policy = [], dv_last_seen = now, dv_wipe = False, dv_created = now,
         dv_last_ip = ip, dv_app_version = []\<rparr>) s)"

(* src: internal/store/devices.go 61-64 Store.UpsertDevice *)
definition UpsertDevice :: "string \<Rightarrow> string \<Rightarrow> string \<Rightarrow> string \<Rightarrow> (store, unit) op" where
  "UpsertDevice userID deviceID deviceType protocol = RecordDevice userID deviceID deviceType protocol []"

definition upd_devices :: "(device \<Rightarrow> bool) \<Rightarrow> (device \<Rightarrow> device) \<Rightarrow> db \<Rightarrow> db" where
  "upd_devices P f d = d\<lparr>tb_devices := update_where P f (tb_devices d)\<rparr>"

(* src: internal/store/devices.go 86-92 Store.SetPolicyKey *)
definition SetPolicyKey :: "string \<Rightarrow> string \<Rightarrow> string \<Rightarrow> (store, unit) op" where
  "SetPolicyKey userID deviceID policyKey =
     exec (upd_devices (\<lambda>r. device_key r = (userID, deviceID)) (\<lambda>r. r\<lparr>dv_policy := policyKey\<rparr>))"

(* src: internal/store/devices.go 94-103 Store.PolicyKey *)
definition PolicyKey :: "string \<Rightarrow> string \<Rightarrow> (store, string) op" where
  "PolicyKey userID deviceID s =
    (case get_row (\<lambda>d. map dv_policy (filter (\<lambda>r. device_key r = (userID, deviceID)) (tb_devices d))) s of
       (Inl e, s') \<Rightarrow> if e = ErrNotFound then (Inr [], s') else (Inl e, s')
     | r \<Rightarrow> r)"

(* src: internal/store/devices.go 114-126 Store.ResetDeviceSync *)
definition ResetDeviceSync :: "string \<Rightarrow> string \<Rightarrow> (store, unit) op" where
  "ResetDeviceSync userID deviceID =
     bindE (exec (drop_items (\<lambda>r. si_user r = userID \<and> si_device r = deviceID)))
       (\<lambda>_. exec (drop_states (\<lambda>r. ss_user r = userID \<and> ss_device r = deviceID)))"

(* src: internal/store/devices.go 105-112 Store.DeleteDevice *)
definition DeleteDevice :: "string \<Rightarrow> string \<Rightarrow> (store, unit) op" where
  "DeleteDevice userID deviceID = bindE (ResetDeviceSync userID deviceID) (\<lambda>_.
     exec (\<lambda>d. d\<lparr>tb_devices := filter (\<lambda>r. device_key r \<noteq> (userID, deviceID)) (tb_devices d)\<rparr>))"

(* src: internal/store/devices.go 128-135 Store.RequestWipe *)
definition RequestWipe :: "string \<Rightarrow> string \<Rightarrow> (store, unit) op" where
  "RequestWipe userID deviceID =
     exec (upd_devices (\<lambda>r. device_key r = (userID, deviceID)) (\<lambda>r. r\<lparr>dv_wipe := True\<rparr>))"

(* src: internal/store/devices.go 137-146 Store.WipeRequested *)
definition WipeRequested :: "string \<Rightarrow> (store, bool) op" where
  "WipeRequested deviceID = getAll (\<lambda>d. \<exists>r\<in>set (tb_devices d). dv_id r = deviceID \<and> dv_wipe r)"

(* src: internal/store/devices.go 148-152 Store.ClearWipe *)
definition ClearWipe :: "string \<Rightarrow> (store, unit) op" where
  "ClearWipe deviceID = exec (upd_devices (\<lambda>r. dv_id r = deviceID) (\<lambda>r. r\<lparr>dv_wipe := False\<rparr>))"

section \<open>The invariant\<close>

lemma db_ok_devices:
  "db_ok d \<Longrightarrow> distinct (map device_key vs) \<Longrightarrow> refs_ok dv_user vs (map us_id (tb_users d)) \<Longrightarrow>
   db_ok (d\<lparr>tb_devices := vs\<rparr>)"
  by (simp add: db_ok_def db_parts)

lemma db_okD_devices:
  assumes "db_ok d"
  shows "distinct (map device_key (tb_devices d))" "refs_ok dv_user (tb_devices d) (map us_id (tb_users d))"
  using assms by (simp_all add: db_ok_def feed_ok_def)

lemma keeps_upd_devices:
  assumes "\<And>r. dv_user (f r) = dv_user r" "\<And>r. dv_id (f r) = dv_id r"
  shows "keeps store_ok (exec (upd_devices P f))"
proof (rule keeps_exec)
  fix d assume d: "db_ok d"
  have "map device_key (update_where P f (tb_devices d)) = map device_key (tb_devices d)"
    by (rule map_update_where) (simp add: device_key_def assms)
  then show "db_ok (upd_devices P f d)"
    using db_okD_devices [OF d] assms(1) unfolding upd_devices_def
    by (intro db_ok_devices d refs_ok_update) simp_all
qed

lemma keeps_device_updates [keeps_intros]:
  "keeps store_ok (SetPolicyKey u v k)" "keeps store_ok (RequestWipe u v)" "keeps store_ok (ClearWipe v)"
  by (simp_all add: SetPolicyKey_def RequestWipe_def ClearWipe_def keeps_upd_devices)

lemma keeps_RecordDevice [keeps_intros]: "keeps store_ok (RecordDevice u v t p i)"
proof -
  have "keeps store_ok (sql (upsert_device r))" for r
  proof (rule keeps_sql, unfold keeps_db_def, intro allI impI)
    fix d x d'
    let ?f = "\<lambda>q. q\<lparr>dv_type := dv_type r, dv_protocol := dv_protocol r, dv_last_seen := dv_last_seen r,
                dv_last_ip := dv_last_ip r\<rparr>"
    assume d: "db_ok d" and u: "upsert_device r d = Inr (x, d')"
    have "map device_key (update_where P ?f vs) = map device_key vs" for P vs
      by (rule map_update_where) (simp add: device_key_def)
    with d u show "db_ok d'"
      by (auto simp: upsert_device_def user_ids_def db_okD_devices split: if_splits
          intro!: db_ok_devices refs_ok_update)
  qed
  then show ?thesis by (simp add: keeps_def RecordDevice_def Let_def)
qed

lemma keeps_devices [keeps_intros]:
  "keeps store_ok (UpsertDevice u v t p)" "keeps store_ok ListDevices" "keeps store_ok (WipeRequested v)"
  "keeps store_ok (ResetDeviceSync u v)"
  by (simp_all add: UpsertDevice_def ListDevices_def WipeRequested_def ResetDeviceSync_def keeps_RecordDevice
      keeps_getAll keeps_bindE keeps_drop_items keeps_drop_states)

lemma keeps_DeleteDevice [keeps_intros]: "keeps store_ok (DeleteDevice u v)"
proof -
  have "keeps store_ok (exec (\<lambda>d. d\<lparr>tb_devices := filter P (tb_devices d)\<rparr>))" for P
    by (rule keeps_exec) (auto simp: db_okD_devices intro!: db_ok_devices distinct_map_filter refs_ok_filter)
  then show ?thesis unfolding DeleteDevice_def by (intro keeps_bindE keeps_devices)
qed

lemma keeps_PolicyKey [keeps_intros]: "keeps store_ok (PolicyKey u v)"
proof -
  have "snd (PolicyKey u v s) =
      snd (get_row (\<lambda>d. map dv_policy (filter (\<lambda>r. device_key r = (u, v)) (tb_devices d))) s)" for s
    by (simp add: PolicyKey_def split: prod.split sum.split)
  then show ?thesis
    using keeps_get_row [of "\<lambda>d. map dv_policy (filter (\<lambda>r. device_key r = (u, v)) (tb_devices d))"]
    by (simp add: keeps_def)
qed

section \<open>Properties\<close>

text \<open>Resetting a device forgets every sync key and every known item it has in any folder,
  and nothing of any other device; the next sync of each folder starts without a state.\<close>

theorem ResetDeviceSync_spec:
  assumes "ResetDeviceSync u v s = (Inr (), s')"
  shows "known_items u v f (st_db s') = {} \<and> find (\<lambda>r. state_key r = (u, v, f)) (tb_states (st_db s')) = None \<and>
    (\<forall>u' v'. (u', v') \<noteq> (u, v) \<longrightarrow> known_items u' v' f (st_db s') = known_items u' v' f (st_db s) \<and>
       find (\<lambda>r. state_key r = (u', v', f)) (tb_states (st_db s')) =
       find (\<lambda>r. state_key r = (u', v', f)) (tb_states (st_db s)))"
proof -
  have d: "st_db s' = drop_states (\<lambda>r. ss_user r = u \<and> ss_device r = v)
      (drop_items (\<lambda>r. si_user r = u \<and> si_device r = v) (st_db s))"
    using assms by (auto simp: ResetDeviceSync_def bindE_Inr_iff exec_Inr_iff)
  have keep: "find P (filter Q xs) = find P xs" if "\<And>x. P x \<Longrightarrow> Q x" for P Q and xs :: "sync_state list"
    using that by (induction xs) auto
  have "known_items u' v' f (st_db s') = (if (u', v') = (u, v) then {} else known_items u' v' f (st_db s))" for u' v'
    unfolding d by (auto simp: known_items_def drop_items_def drop_states_def)
  moreover have "find (\<lambda>r. state_key r = (u', v', f)) (tb_states (st_db s')) =
      (if (u', v') = (u, v) then None else find (\<lambda>r. state_key r = (u', v', f)) (tb_states (st_db s)))" for u' v'
    unfolding d
    by (auto simp: drop_items_def drop_states_def state_key_def find_None_iff intro!: keep)
  ultimately show ?thesis by simp
qed

theorem ResetDeviceSync_spec_witness:
  "known_items ''u'' ''d'' 1 demo_db = {1} \<and>
   known_items ''u'' ''d'' 1 (st_db (snd (ResetDeviceSync ''u'' ''d'' demo_store))) = {}"
proof -
  obtain s' where a: "ResetDeviceSync ''u'' ''d'' demo_store = (Inr (), s')"
    by (simp add: ResetDeviceSync_def bindE_def exec_def sql_no_fault)
  have "known_items ''u'' ''d'' 1 demo_db = {1}" by (simp add: known_items_def demo_defs)
  then show ?thesis using ResetDeviceSync_spec [OF a, of 1] a by simp
qed

end
