(* ===== verification/EasItems.thy ===== *)
theory EasItems imports EasFolders StoreDevices begin

text \<open>
  The item commands of \<open>internal/eas/misc.go\<close>: estimates, moves, fetches of bodies and
  attachments, emptying a folder, provisioning. A handler that cannot fail returns its value
  and the store. An index out of range panics in Go and is the error \<open>panic\<close> here.
\<close>

section \<open>Estimates\<close>

(* src: internal/eas/misc.go 207-219 Server.cmdGetItemEstimate *)
definition estimate :: "string \<Rightarrow> string \<Rightarrow> int \<Rightarrow> store \<Rightarrow> (int \<times> int) \<times> store" where
  "estimate userID deviceID i s =
    (let (r, s1) = GetSyncState userID deviceID i s;
         after = (case r of Inr (Some st) \<Rightarrow> ss_seq st | _ \<Rightarrow> 0) in
     case CountChangesAfter i after s1 of
       (Inl _, s2) \<Rightarrow> ((5, 0), s2) | (Inr n, s2) \<Rightarrow> ((1, n), s2))"

(* src: internal/eas/misc.go 203-232 Server.cmdGetItemEstimate *)
fun estimateResponses :: "string \<Rightarrow> string \<Rightarrow> node list \<Rightarrow> store \<Rightarrow> node list \<times> store" where
  "estimateResponses u v [] s = ([], s)"
| "estimateResponses u v (col # cols) s =
    (if n_name col \<noteq> ''Folder'' \<and> n_name col \<noteq> ''Collection'' then estimateResponses u v cols s
     else
      (let i0 = parseInt (ChildText (Some col) ''FolderId'');
           i = (if i0 = 0 then parseInt (ChildText (Some col) ''CollectionId'') else i0);
           ((status, n), s1) = estimate u v i s;
           (rs, s2) = estimateResponses u v cols s1
       in (wbN pageGetItemEstimate ''Response'' (wbT pageGetItemEstimate ''Status'' (i64toa status) #
            (if status = 1 then [wbN pageGetItemEstimate ''Collection'' [
               wbT pageGetItemEstimate ''CollectionId'' (i64toa i),
               wbT pageGetItemEstimate ''Estimate'' (i64toa n)]] else [])) # rs, s2)))"

(* src: internal/eas/misc.go 194-235 Server.cmdGetItemEstimate *)
definition cmdGetItemEstimate :: "user \<Rightarrow> string \<Rightarrow> node option \<Rightarrow> (store, node) op" where
  "cmdGetItemEstimate user deviceID req s =
    (let folders = (case Child req ''Folders'' of None \<Rightarrow> Child req ''Collections'' | Some f \<Rightarrow> Some f);
         (rs, t) = (case folders of None \<Rightarrow> ([], s)
            | Some f \<Rightarrow> estimateResponses (us_id user) deviceID (n_children f) s)
     in (Inr (wbN pageGetItemEstimate ''GetItemEstimate'' rs), t))"

section \<open>Moves\<close>

(* src: internal/eas/misc.go 308-316 Server.junkFolder *)
definition junkFolder :: "string \<Rightarrow> (store, folder) op" where
  "junkFolder userID s = (case FolderByType userID 12 s of
     (Inl e, s') \<Rightarrow> if e = ErrNotFound then CreateFolder userID 0 ''Spam'' 12 s' else (Inl e, s')
   | (Inr junk, s') \<Rightarrow> (Inr junk, s'))"

text \<open>The checks and the move itself: the status of the answer.\<close>

(* src: internal/eas/misc.go 251-287 Server.cmdMoveItems *)
definition moveTo :: "user \<Rightarrow> int \<Rightarrow> int \<Rightarrow> int \<Rightarrow> store \<Rightarrow> string \<times> store" where
  "moveTo user srcID srcFolder dst0 s0 =
    (let (dstFolder, s) = (if dst0 = 0 then
           (case junkFolder (us_id user) s0 of (Inl _, t) \<Rightarrow> (0, t) | (Inr junk, t) \<Rightarrow> (fo_id junk, t)) else (dst0, s0)) in
     case FolderByID dstFolder s of
       (Inl _, s1) \<Rightarrow> (''2'', s1)
     | (Inr dst, s1) \<Rightarrow>
        if fo_user dst \<noteq> us_id user \<or> fo_deleted dst then (''2'', s1)
        else if dstFolder = srcFolder then (''4'', s1)
        else (case MoveMessage srcID dstFolder s1 of
            (Inl _, s2) \<Rightarrow> (''5'', s2)
          | (Inr _, s2) \<Rightarrow> (''3'', execE (AddChange dstFolder ''add'' ''email'' srcID)
                                (execE (AddChange srcFolder ''delete'' ''email'' srcID) s2))))"

(* src: internal/eas/misc.go 245-288 Server.cmdMoveItems *)
definition moveItem :: "user \<Rightarrow> int \<Rightarrow> int \<Rightarrow> int \<Rightarrow> store \<Rightarrow> string \<times> store" where
  "moveItem user srcID srcFolder dstFolder s0 = (case MessageByID srcID s0 of
     (Inl _, s) \<Rightarrow> (''1'', s)
   | (Inr msg, s) \<Rightarrow>
      if ms_user msg \<noteq> us_id user \<or> ms_folder msg \<noteq> srcFolder then (''1'', s)
      else moveTo user srcID srcFolder dstFolder s)"

(* src: internal/eas/misc.go 240-304 Server.cmdMoveItems *)
fun moveResponses :: "user \<Rightarrow> node list \<Rightarrow> store \<Rightarrow> node list \<times> store" where
  "moveResponses user [] s = ([], s)"
| "moveResponses user (mv # mvs) s =
    (let srcID = parseInt (ChildText (Some mv) ''SrcMsgId'');
         (status, s1) = moveItem user srcID (parseInt (ChildText (Some mv) ''SrcFldId''))
            (parseInt (ChildText (Some mv) ''DstFldId'')) s;
         (rs, s2) = moveResponses user mvs s1
     in (wbN pageMove ''Response'' ([wbT pageMove ''SrcMsgId'' (i64toa srcID), wbT pageMove ''Status'' status] @
           (if status = ''3'' then [wbT pageMove ''DstMsgId'' (i64toa srcID)] else [])) # rs, s2))"

(* src: internal/eas/misc.go 237-306 Server.cmdMoveItems *)
definition cmdMoveItems :: "user \<Rightarrow> node option \<Rightarrow> (store, node) op" where
  "cmdMoveItems user req s =
    (let (rs, t) = moveResponses user (ChildrenNamed req ''Move'') s in (Inr (wbN pageMove ''MoveItems'' rs), t))"

section \<open>Fetches\<close>

text \<open>\<open>strings.SplitN(s, c, 2)\<close>\<close>

definition split2 :: "char \<Rightarrow> string \<Rightarrow> string list" where
  "split2 c s = (if c \<in> set s then [takeWhile (\<lambda>x. x \<noteq> c) s, tl (dropWhile (\<lambda>x. x \<noteq> c) s)] else [s])"

(* src: internal/eas/misc.go 457-463 parseAttachmentRef *)
definition parseAttachmentRef :: "string \<Rightarrow> int \<times> int" where
  "parseAttachmentRef ref = (case split2 (CHR '':'') ref of
     [a, b] \<Rightarrow> (parseInt a, parseInt b) | _ \<Rightarrow> (0, 0))"

(* src: internal/eas/misc.go 473-482 fetchRange *)
definition rangeSpec :: "node option \<Rightarrow> string" where
  "rangeSpec fetch =
    (let spec = (case Child fetch ''Options'' of None \<Rightarrow> [] | Some opts \<Rightarrow> trim_space (ChildText (Some opts) ''Range''))
     in if spec = [] then trim_space (ChildText fetch ''Range'') else spec)"

(* src: internal/eas/misc.go 465-502 fetchRange *)
definition fetchRange :: "node option \<Rightarrow> int \<Rightarrow> int \<times> int" where
  "fetchRange fetch sz =
    (if sz \<le> 0 then (0, 0)
     else let last = sz - 1; spec = rangeSpec fetch in
       if spec = [] then (0, last)
       else let parts = split2 (CHR ''-'') spec;
                start = parseInt (hd parts);
                end' = (if length parts = 2 \<and> trim_space (parts ! 1) \<noteq> [] then parseInt (parts ! 1) else last);
                start = (if start < 0 then 0 else start);
                start = (if start > last then last else start);
                end' = (if end' > last then last else end');
                end' = (if end' < start then last else end')
            in (start, end'))"

definition panic :: go_error where
  "panic = ErrText ''panic: slice bounds out of range''"

text \<open>\<open>data[start:end+1]\<close>\<close>

definition chunk :: "string \<Rightarrow> int \<Rightarrow> int \<Rightarrow> go_error + string" where
  "chunk data start end' =
    (if 0 \<le> start \<and> start \<le> end' + 1 \<and> end' + 1 \<le> len data
     then Inr (take (nat (end' + 1 - start)) (drop (nat start) data)) else Inl panic)"

(* src: internal/eas/misc.go 354-359 Server.itemFetch *)
definition fetchHead :: "string \<Rightarrow> int \<Rightarrow> int \<Rightarrow> node list" where
  "fetchHead status collectionID serverID =
    [wbT pageItemOperations ''Status'' status, wbT pageAirSync ''CollectionId'' (i64toa collectionID),
     wbT pageAirSync ''ServerId'' (i64toa serverID), wbT pageAirSync ''Class'' ''Email'']"

(* src: internal/eas/misc.go 361-385 Server.itemFetch *)
definition fetchAttachment :: "node option \<Rightarrow> string \<Rightarrow> int \<Rightarrow> int \<Rightarrow> (store, node) op" where
  "fetchAttachment fetch fileRef collectionID serverID s =
    (let (msgID, attID) = parseAttachmentRef fileRef in
     case AttachmentByID attID s of
       (Inl _, s') \<Rightarrow> (Inr (wbN pageItemOperations ''Fetch'' (fetchHead ''3'' collectionID serverID)), s')
     | (Inr att, s') \<Rightarrow>
        if at_message att \<noteq> msgID
        then (Inr (wbN pageItemOperations ''Fetch'' (fetchHead ''3'' collectionID serverID)), s')
        else (let (start, end') = fetchRange fetch (len (at_data att)) in
          case chunk (at_data att) start end' of
            Inl e \<Rightarrow> (Inl e, s')
          | Inr bytes \<Rightarrow> (Inr (wbN pageItemOperations ''Fetch'' (fetchHead ''1'' collectionID serverID @
              [wbT pageAirSyncBase ''FileReference'' fileRef,
               wbN pageItemOperations ''Properties'' [
                 wbT pageItemOperations ''Range'' (itoa start @ ''-'' @ itoa end'),
                 wbT pageItemOperations ''Total'' (i64toa (len (at_data att))),
                 wbT pageItemOperations ''Data'' (b64_encode bytes)]])), s')))"

(* src: internal/eas/misc.go 347-399 Server.itemFetch *)
definition itemFetch :: "env \<Rightarrow> user \<Rightarrow> node \<Rightarrow> (store, node) op" where
  "itemFetch E user fetch s0 =
    (let collectionID = parseInt (ChildText (Some fetch) ''CollectionId'');
         serverID = parseInt (ChildText (Some fetch) ''ServerId'');
         fileRef = trim_space (ChildText (Some fetch) ''FileReference'');
         pref = bodyPrefFrom (Child (Some fetch) ''Options'');
         missing = wbN pageItemOperations ''Fetch'' (fetchHead ''3'' collectionID serverID) in
     if fileRef \<noteq> [] then fetchAttachment (Some fetch) fileRef collectionID serverID s0
     else case FolderByID collectionID s0 of
       (Inl _, s) \<Rightarrow> (Inr missing, s)
     | (Inr folder, s) \<Rightarrow>
        if fo_user folder \<noteq> us_id user \<or> fo_deleted folder then (Inr missing, s)
        else (case loadAppData E folder serverID pref s of
            (Inl _, t) \<Rightarrow> (Inr missing, t)
          | (Inr (app, gone, _), t) \<Rightarrow>
             if gone then (Inr missing, t)
             else (Inr (wbN pageItemOperations ''Fetch'' (fetchHead ''1'' collectionID serverID @
                [wbN pageItemOperations ''Properties'' (case app of None \<Rightarrow> [] | Some a \<Rightarrow> n_children a)])), t)))"


section \<open>Emptying a folder\<close>

(* src: internal/eas/misc.go 421-428 Server.itemEmptyFolder *)
fun emptyMessages :: "int \<Rightarrow> message list \<Rightarrow> store \<Rightarrow> bool \<times> store" where
  "emptyMessages folderID [] s = (True, s)"
| "emptyMessages folderID (m # ms) s = (case SoftDeleteMessage (ms_id m) s of
     (Inl _, s') \<Rightarrow> (False, s')
   | (Inr _, s') \<Rightarrow> emptyMessages folderID ms (execE (AddChange folderID ''delete'' ''email'' (ms_id m)) s'))"

(* src: internal/eas/misc.go 429-440 Server.itemEmptyFolder *)
definition deleteSubFolders :: "string \<Rightarrow> int \<Rightarrow> store \<Rightarrow> store" where
  "deleteSubFolders userID folderID s = (case FoldersByUser userID s of
     (Inl _, s') \<Rightarrow> s'
   | (Inr fs, s') \<Rightarrow> foldl (\<lambda>t child. execE (DeleteFolder (fo_id child)) t) s'
        (filter (\<lambda>child. fo_parent child = folderID \<and> \<not> fo_deleted child) fs))"

(* src: internal/eas/misc.go 401-447 Server.itemEmptyFolder *)
definition itemEmptyFolder :: "user \<Rightarrow> node \<Rightarrow> store \<Rightarrow> node \<times> store" where
  "itemEmptyFolder user nd s0 =
    (let collectionID = parseInt (ChildText (Some nd) ''CollectionId'');
         answer = (\<lambda>st. wbN pageItemOperations ''EmptyFolderContents''
            [wbT pageItemOperations ''Status'' st, wbT pageAirSync ''CollectionId'' (i64toa collectionID)]) in
     case FolderByID collectionID s0 of
       (Inl _, s) \<Rightarrow> (answer ''3'', s)
     | (Inr folder, s) \<Rightarrow>
        if fo_user folder \<noteq> us_id user \<or> fo_deleted folder then (answer ''3'', s)
        else (case MessagesByFolder (fo_id folder) 0 s of
            (Inl _, s1) \<Rightarrow> (answer ''3'', s1)
          | (Inr ms, s1) \<Rightarrow>
             (let (done', s2) = emptyMessages (fo_id folder) ms s1 in
              if \<not> done' then (answer ''3'', s2)
              else (answer ''1'', if Path (Some nd) [''Options'', ''DeleteSubFolders''] \<noteq> None
                     then deleteSubFolders (us_id user) (fo_id folder) s2 else s2))))"

(* src: internal/eas/misc.go 449-455 Server.itemMoveConversation *)
definition itemMoveConversation :: "node \<Rightarrow> node" where
  "itemMoveConversation nd = wbN pageItemOperations ''Move'' [wbT pageItemOperations ''Status'' ''3'']"

fun fetchAll :: "env \<Rightarrow> user \<Rightarrow> node list \<Rightarrow> (store, node list) op" where
  "fetchAll E user [] = okE []"
| "fetchAll E user (f # fs) = bindE (itemFetch E user f) (\<lambda>n. bindE (fetchAll E user fs) (\<lambda>ns. okE (n # ns)))"

fun emptyAll :: "user \<Rightarrow> node list \<Rightarrow> store \<Rightarrow> node list \<times> store" where
  "emptyAll user [] s = ([], s)"
| "emptyAll user (e # es) s =
    (let (n, s') = itemEmptyFolder user e s; (ns, s'') = emptyAll user es s' in (n # ns, s''))"

(* src: internal/eas/misc.go 318-345 Server.cmdItemOperations *)
definition cmdItemOperations :: "env \<Rightarrow> user \<Rightarrow> node option \<Rightarrow> (store, node) op" where
  "cmdItemOperations E user req =
    (let fetches = ChildrenNamed req ''Fetch''; empties = ChildrenNamed req ''EmptyFolderContents'';
         moves = ChildrenNamed req ''Move'' in
     bindE (fetchAll E user fetches) (\<lambda>fs s.
       let (es, s') = emptyAll user empties s in
       (Inr (if fetches = [] \<and> empties = [] \<and> moves = []
             then wbN pageItemOperations ''ItemOperations'' [wbT pageItemOperations ''Status'' ''2'']
             else wbN pageItemOperations ''ItemOperations'' [wbT pageItemOperations ''Status'' ''1'',
               wbN pageItemOperations ''Response'' (fs @ es @ map itemMoveConversation moves)]), s')))"

section \<open>Provisioning\<close>

(* src: internal/eas/misc.go 520-527 Server.cmdProvision *)
definition acknowledged :: "node option \<Rightarrow> bool" where
  "acknowledged req = (case Child req ''Policies'' of
     None \<Rightarrow> False
   | Some policies \<Rightarrow> list_ex (\<lambda>policy. let key = ChildText (Some policy) ''PolicyKey'' in key \<noteq> [] \<and> key \<noteq> ''0'')
       (ChildrenNamed (Some policies) ''Policy''))"

(* src: internal/eas/misc.go 534-549 Server.cmdProvision *)
definition provisionDoc :: node where
  "provisionDoc = wbN pageProvision ''Data'' [wbN pageProvision ''EASProvisionDoc'' [
     wbT pageProvision ''DevicePasswordEnabled'' ''0'',
     wbT pageProvision ''AllowSimpleDevicePassword'' ''1'',
     wbT pageProvision ''MinDevicePasswordComplexCharacters'' ''0'',
     wbT pageProvision ''AttachmentsEnabled'' ''1'',
     wbT pageProvision ''AllowHTMLEmail'' ''1'',
     wbT pageProvision ''MaxAttachmentSize'' ''20480'']]"

(* src: internal/eas/misc.go 508-518 Server.cmdProvision *)
definition deliverWipe :: "user \<Rightarrow> string \<Rightarrow> store \<Rightarrow> store" where
  "deliverWipe user deviceID s = execE (ResetDeviceSync (us_id user) deviceID) (execE (ClearWipe deviceID) s)"

(* src: internal/eas/misc.go 504-556 Server.cmdProvision *)
definition cmdProvision :: "user \<Rightarrow> string \<Rightarrow> node option \<Rightarrow> (store, node) op" where
  "cmdProvision user deviceID req s0 =
    (let (wipe, s) = (if deviceID \<noteq> [] then
           (case WipeRequested deviceID s0 of (Inr w, t) \<Rightarrow> (w, t) | (Inl _, t) \<Rightarrow> (False, t)) else (False, s0)) in
     if wipe then (Inr (wbN pageProvision ''Provision'' [wbT pageProvision ''Status'' ''1'',
         wbN pageProvision ''RemoteWipe'' []]), deliverWipe user deviceID s)
     else
      (let policy = wbN pageProvision ''Policy'' ([
              wbT pageProvision ''PolicyType'' ''MS-EAS-Provisioning-WBXML'',
              wbT pageProvision ''Status'' ''1'', wbT pageProvision ''PolicyKey'' ''1''] @
              (if \<not> acknowledged req then [provisionDoc] else []))
       in (Inr (wbN pageProvision ''Provision'' [wbT pageProvision ''Status'' ''1'',
             wbN pageProvision ''Policies'' [policy]]),
           execE (SetPolicyKey (us_id user) deviceID ''1'') s)))"

section \<open>Attachments by URL\<close>

text \<open>An answer over HTTP: status, headers in the order they are set, body.\<close>

type_synonym http = "int \<times> (string \<times> string) list \<times> string"

definition http_error :: "string \<Rightarrow> int \<Rightarrow> http" where
  "http_error message code = (code, [(''Content-Type'', ''text/plain; charset=utf-8''), (''X-Content-Type-Options'', ''nosniff'')],
     message @ [CHR 0x0A])"

(* src: internal/eas/server.go 257-290 Server.serveGetAttachment *)
definition serveGetAttachment :: "user \<Rightarrow> string \<Rightarrow> store \<Rightarrow> http \<times> store" where
  "serveGetAttachment user ref0 s0 =
    (let ref = trim_space ref0; (msgID, attID) = parseAttachmentRef ref; missing = http_error ''not found'' 404 in
     if ref = [] then (http_error ''attachment not specified'' 400, s0)
     else if msgID = 0 \<or> attID = 0 then (missing, s0)
     else (case MessageByID msgID s0 of
        (Inl _, s) \<Rightarrow> (missing, s)
      | (Inr msg, s) \<Rightarrow>
         if ms_user msg \<noteq> us_id user then (missing, s)
         else (case AttachmentByID attID s of
            (Inl _, t) \<Rightarrow> (missing, t)
          | (Inr att, t) \<Rightarrow>
             if at_message att \<noteq> msgID \<or> at_data att = [] then (missing, t)
             else ((200, [(''Content-Type'', if at_ctype att = [] then ''application/octet-stream'' else at_ctype att),
                      (''Content-Length'', itoa (len (at_data att))), (''MS-Server-ActiveSync'', ''14.1'')],
                    at_data att), t))))"


section \<open>The invariant of the tables\<close>

lemma ok_estimate [ok_intros]: "store_ok s \<Longrightarrow> store_ok (snd (estimate u v i s))"
  using keepsD [where I=store_ok, OF keeps_GetSyncState [of u v i], of s]
  by (cases "GetSyncState u v i s") (auto simp: estimate_def Let_def intro!: ok_case ok_pair keeps_intros)

lemma ok_estimateResponses [ok_intros]: "store_ok s \<Longrightarrow> store_ok (snd (estimateResponses u v cs s))"
proof (induction cs arbitrary: s)
  case (Cons c cs)
  let ?i0 = "parseInt (ChildText (Some c) ''FolderId'')"
  let ?i = "if ?i0 = 0 then parseInt (ChildText (Some c) ''CollectionId'') else ?i0"
  obtain st n t where e: "estimate u v ?i s = ((st, n), t)" by (metis prod.exhaust)
  then have "store_ok t" using ok_estimate [OF Cons.prems, of u v ?i] by simp
  then show ?case using Cons.IH [of t] Cons.IH [OF Cons.prems] e by (simp add: Let_def split_beta)
qed simp

lemma keeps_cmdGetItemEstimate [keeps_intros]: "keeps store_ok (cmdGetItemEstimate user v req)"
  by (auto simp: keeps_def cmdGetItemEstimate_def Let_def split_beta ok_estimateResponses split: option.split)

lemma keeps_junkFolder [keeps_intros]: "keeps store_ok (junkFolder u)"
  unfolding keeps_def junkFolder_def
  by (intro allI impI, rule ok_case [OF keeps_folder_reads(2)])
    (auto intro!: ok_pair keepsD [where I=store_ok, OF keeps_CreateFolder])

lemma ok_moveTo [ok_intros]:
  assumes s: "store_ok s" shows "store_ok (snd (moveTo user i src dst s))"
proof -
  have j: "store_ok (snd (if dst = 0 then (case junkFolder (us_id user) s of (Inl _, t) \<Rightarrow> (0, t)
      | (Inr junk, t) \<Rightarrow> (fo_id junk, t)) else (dst, s)))"
    by (intro ok_if ok_case ok_pair s keeps_junkFolder)
  show ?thesis unfolding moveTo_def Let_def
    apply (rule ok_bind [where h="\<lambda>s. if dst = 0 then (case junkFolder (us_id user) s of (Inl _, t) \<Rightarrow> (0, t)
      | (Inr junk, t) \<Rightarrow> (fo_id junk, t)) else (dst, s)"], rule j)
    apply (rule ok_case [OF keeps_folder_reads(1)], assumption, rule ok_pair, assumption)
    apply (intro ok_if ok_pair, assumption, assumption)
    apply (rule ok_case [OF keeps_MoveMessage], assumption, rule ok_pair, assumption)
    apply (intro ok_pair ok_execE keeps_intros, assumption)
    done
qed

lemma ok_moveItem [ok_intros]: "store_ok s \<Longrightarrow> store_ok (snd (moveItem user i src dst s))"
  unfolding moveItem_def by (rule ok_case [OF keeps_message_reads(3)]) (auto intro!: ok_pair ok_moveTo)

lemma ok_moveResponses [ok_intros]: "store_ok s \<Longrightarrow> store_ok (snd (moveResponses user mvs s))"
proof (induction mvs arbitrary: s)
  case (Cons mv mvs)
  obtain st t where e: "moveItem user (parseInt (ChildText (Some mv) ''SrcMsgId''))
      (parseInt (ChildText (Some mv) ''SrcFldId'')) (parseInt (ChildText (Some mv) ''DstFldId'')) s = (st, t)"
    by fastforce
  then have "store_ok t" using ok_moveItem [OF Cons.prems] by (metis snd_conv)
  then show ?case using Cons.IH [of t] e by (simp add: Let_def split_beta)
qed simp

lemma keeps_cmdMoveItems [keeps_intros]: "keeps store_ok (cmdMoveItems user req)"
  by (simp add: keeps_def cmdMoveItems_def Let_def split_beta ok_moveResponses)

lemma keeps_fetchAttachment [keeps_intros]: "keeps store_ok (fetchAttachment fetch r c i)"
proof (rule keepsI)
  fix s assume s: "store_ok s"
  have "store_ok (snd (AttachmentByID (snd (parseAttachmentRef r)) s))"
    by (rule keepsD [where I=store_ok, OF keeps_AttachmentByID s])
  then show "store_ok (snd (fetchAttachment fetch r c i s))"
    by (auto simp: fetchAttachment_def Let_def split: prod.split sum.split)
qed

lemma keeps_itemFetch [keeps_intros]: "keeps store_ok (itemFetch E user f)"
  unfolding keeps_def itemFetch_def Let_def
proof (intro allI impI ok_if, goal_cases)
  case (1 s)
  then show ?case by (auto intro: keepsD [where I=store_ok, OF keeps_fetchAttachment])
next
  case (2 s)
  show ?case
    apply (rule ok_case [OF keeps_folder_reads(1) 2(1)], rule ok_pair, assumption)
    apply (intro ok_if, rule ok_pair, assumption)
    apply (rule ok_case [OF keeps_loadAppData], assumption, rule ok_pair, assumption)
    apply (auto split: prod.split)
    done
qed

lemma ok_emptyMessages [ok_intros]: "store_ok s \<Longrightarrow> store_ok (snd (emptyMessages f ms s))"
proof (induction ms arbitrary: s)
  case (Cons m ms)
  show ?case unfolding emptyMessages.simps
    by (rule ok_case [OF keeps_message_updates(1) Cons.prems])
      (auto intro!: ok_pair Cons.IH ok_execE keeps_intros)
qed simp

lemma ok_deleteSubFolders: "store_ok s \<Longrightarrow> store_ok (deleteSubFolders u f s)"
proof -
  assume s: "store_ok s"
  have l: "store_ok t \<Longrightarrow> store_ok (foldl (\<lambda>t child. execE (DeleteFolder (fo_id child)) t) t cs)" for t cs
    by (induction cs arbitrary: t) (simp_all add: ok_execE keeps_intros)
  have "store_ok (snd (FoldersByUser u s))" by (rule keepsD [where I=store_ok, OF keeps_folder_reads(4) s])
  then show ?thesis by (auto simp: deleteSubFolders_def l split: prod.split sum.split)
qed

lemma ok_itemEmptyFolder [ok_intros]: "store_ok s \<Longrightarrow> store_ok (snd (itemEmptyFolder user e s))"
  unfolding itemEmptyFolder_def Let_def
  apply (rule ok_case [OF keeps_folder_reads(1)], assumption, rule ok_pair, assumption)
  apply (intro ok_if, rule ok_pair, assumption)
  apply (rule ok_case [OF keeps_message_reads(7)], assumption, rule ok_pair, assumption)
  apply (rule ok_bind [where h="emptyMessages _ _"], rule ok_emptyMessages, assumption)
  apply (intro ok_if ok_pair ok_if_store ok_deleteSubFolders; assumption)
  done

lemma ok_emptyAll [ok_intros]: "store_ok s \<Longrightarrow> store_ok (snd (emptyAll user es s))"
proof (induction es arbitrary: s)
  case (Cons e es)
  obtain n t where r: "itemEmptyFolder user e s = (n, t)" by fastforce
  then have "store_ok t" using ok_itemEmptyFolder [OF Cons.prems] by (metis snd_conv)
  then show ?case using Cons.IH [of t] r by (simp add: Let_def split_beta)
qed simp

lemma keeps_fetchAll [keeps_intros]: "keeps store_ok (fetchAll E user fs)"
proof (induction fs)
  case (Cons f fs)
  then show ?case unfolding fetchAll.simps by (intro keeps_intros)
qed (simp add: keeps_def)

lemma keeps_cmdItemOperations [keeps_intros]: "keeps store_ok (cmdItemOperations E user req)"
  unfolding cmdItemOperations_def Let_def
  by (intro keeps_bindE keeps_fetchAll) (simp add: keeps_def split_beta ok_emptyAll)


lemma keeps_cmdProvision [keeps_intros]: "keeps store_ok (cmdProvision user v req)"
proof (rule keepsI)
  fix s assume s: "store_ok s"
  have w: "store_ok (snd (if v \<noteq> [] then (case WipeRequested v s of (Inr w, t) \<Rightarrow> (w, t) | (Inl _, t) \<Rightarrow> (False, t))
      else (False, s)))"
    using keepsD [where I=store_ok, OF keeps_devices(3) [of v] s] s by (auto split: prod.split sum.split)
  show "store_ok (snd (cmdProvision user v req s))"
    unfolding cmdProvision_def Let_def
    by (rule ok_bind [where h="\<lambda>s. if v \<noteq> [] then (case WipeRequested v s of (Inr w, t) \<Rightarrow> (w, t)
        | (Inl _, t) \<Rightarrow> (False, t)) else (False, s)"], rule w)
      (auto simp: deliverWipe_def intro!: ok_if ok_pair ok_execE keeps_intros)
qed

section \<open>Properties\<close>

lemma fetchRange_cases:
  assumes "0 < sz"
  shows "case fetchRange fetch sz of (a, b) \<Rightarrow> 0 \<le> a \<and> a \<le> b \<and> b < sz"
  using assms by (auto simp: fetchRange_def Let_def)

text \<open>Whatever byte range a client asks for, of a non-empty attachment it gets a chunk inside
  it: the slice never panics, starts at the first index of the answered range and has exactly
  the bytes of that range.\<close>

theorem fetchRange_in_bounds:
  assumes "data \<noteq> []" "fetchRange fetch (len data) = (a, b)"
  shows "\<exists>bytes. chunk data a b = Inr bytes \<and> 0 \<le> a \<and> a \<le> b \<and> b < len data \<and> len bytes = b - a + 1 \<and>
    (\<forall>i<length bytes. bytes ! i = data ! (nat a + i))"
proof -
  have "0 < len data" using assms(1) by (simp add: len_def)
  from fetchRange_cases [OF this, of fetch] have r: "0 \<le> a" "a \<le> b" "b < len data" by (simp_all add: assms(2))
  let ?bs = "take (nat (b + 1 - a)) (drop (nat a) data)"
  have c: "chunk data a b = Inr ?bs" using r by (simp add: chunk_def)
  have n: "length ?bs = nat (b + 1 - a)" using r by (simp add: len_def)
  then have "len ?bs = b - a + 1" using r by (simp add: len_def)
  moreover have "\<forall>i<length ?bs. ?bs ! i = data ! (nat a + i)"
    using r by (simp add: len_def)
  ultimately show ?thesis using r c by blast
qed

theorem fetchRange_in_bounds_witness:
  "\<exists>bytes. chunk ''abcdef'' 0 5 = Inr bytes \<and> len bytes = 6"
proof -
  have e: "fetchRange None (len ''abcdef'') = (0, 5)"
    by (simp add: fetchRange_def rangeSpec_def Child_def ChildText_def trim_space_def trim_left_def trim_right_def len_def)
  show ?thesis using fetchRange_in_bounds [OF _ e] by auto
qed

text \<open>A fetch by file reference does not look at the account. For any two accounts the answer
  to the same \<open>FileReference\<close> is the same, so a client that names the message and the
  attachment of another mailbox is given its bytes; only \<open>GetAttachment\<close> checks the owner.\<close>

theorem attachment_fetch_ignores_owner:
  assumes "trim_space (ChildText (Some fetch) ''FileReference'') \<noteq> []"
  shows "itemFetch E user fetch s = itemFetch E other fetch s \<and>
    (let (h, _) = serveGetAttachment user (ChildText (Some fetch) ''FileReference'') s in
     fst h = 200 \<longrightarrow> (\<exists>m. message_row (st_db s) (fst (parseAttachmentRef (trim_space
       (ChildText (Some fetch) ''FileReference'')))) = Some m \<and> ms_user m = us_id user))"
proof
  show "itemFetch E user fetch s = itemFetch E other fetch s"
    using assms by (simp add: itemFetch_def Let_def)
  let ?ref = "ChildText (Some fetch) ''FileReference''"
  let ?m = "fst (parseAttachmentRef (trim_space ?ref))"
  have "ms_user m = us_id user \<and> (\<exists>m'. message_row (st_db s) ?m = Some m' \<and> ms_user m' = ms_user m)"
    if found: "MessageByID ?m s = (Inr m, t)" "ms_user m = us_id user" for m t
  proof -
    obtain m' s1 where q: "message_query ?m s = (Inr m', s1)" "LoadRaw (Some m') s1 = (Inr m, t)"
      using found(1) unfolding MessageByID_def bindE_Inr_iff by blast
    have "message_row (st_db s) ?m = Some m'"
      using q(1) by (auto simp: message_query_def get_row_Inr_iff message_row_def dest: filter_Cons_find)
    moreover have "ms_user m' = ms_user m"
      using q(2) by (auto simp: LoadRaw_def bindE_Inr_iff split: if_splits)
    ultimately show ?thesis using found(2) by blast
  qed
  then show "let (h, _) = serveGetAttachment user ?ref s in fst h = 200 \<longrightarrow>
      (\<exists>m. message_row (st_db s) ?m = Some m \<and> ms_user m = us_id user)"
    by (auto simp: serveGetAttachment_def Let_def http_error_def split: prod.splits sum.splits if_splits)
qed


definition other_user :: user where
  "other_user = demo_user\<lparr>us_id := ''v'', us_name := ''other''\<rparr>"

text \<open>A message of the demo account with an attachment, asked for by another account.\<close>

theorem attachment_fetch_ignores_owner_witness:
  "let s = demo_store\<lparr>st_db := demo_db\<lparr>tb_attachments := [\<lparr>at_id = 1, at_message = 1, at_file = ''f'', at_ctype = [],
         at_size = 3, at_cid = [], at_inline = False, at_path = [], at_data = ''abc''\<rparr>], sq_attachments := 1\<rparr>\<rparr>;
       fetch = wbN pageItemOperations ''Fetch'' [wbT pageAirSyncBase ''FileReference'' ''1:1''] in
   itemFetch demo_env other_user fetch s = itemFetch demo_env demo_user fetch s"
proof -
  let ?fetch = "wbN pageItemOperations ''Fetch'' [wbT pageAirSyncBase ''FileReference'' ''1:1'']"
  have "trim_space (ChildText (Some ?fetch) ''FileReference'') \<noteq> []"
    by (simp add: ChildText_def Child_def wbN_def wbT_def trim_space_def trim_left_def trim_right_def is_space_def)
  from attachment_fetch_ignores_owner [OF this] show ?thesis by (simp add: Let_def)
qed


lemma estimate_ok: "st_faults s = [] \<Longrightarrow> \<exists>n. estimate u v i s = ((1, n), s)"
  by (simp add: estimate_def GetSyncState_eval CountChangesAfter_def getAll_def sql_no_fault)

lemma estimateResponses_untyped:
  "st_faults s = [] \<Longrightarrow> \<exists>c\<in>set cols. n_name c = ''Folder'' \<or> n_name c = ''Collection'' \<Longrightarrow>
   \<not> list_all (typed codec) (fst (estimateResponses u v cols s))"
proof (induction cols)
  case (Cons c cols)
  show ?case
  proof (cases "n_name c \<noteq> ''Folder'' \<and> n_name c \<noteq> ''Collection''")
    case True
    then show ?thesis using Cons by auto
  next
    case False
    let ?i0 = "parseInt (ChildText (Some c) ''FolderId'')"
    let ?i = "if ?i0 = 0 then parseInt (ChildText (Some c) ''CollectionId'') else ?i0"
    obtain n where n: "estimate u v ?i s = ((1, n), s)" using estimate_ok [OF Cons.prems(1), of u v ?i] by blast
    have "\<not> on_page pageGetItemEstimate ''Collection''" by (simp add: on_pages namesGetItemEstimate_def)
    moreover have "\<exists>rs. fst (estimateResponses u v (c # cols) s) = wbN pageGetItemEstimate ''Response''
        [wbT pageGetItemEstimate ''Status'' (i64toa 1), wbN pageGetItemEstimate ''Collection'' [
          wbT pageGetItemEstimate ''CollectionId'' (i64toa ?i), wbT pageGetItemEstimate ''Estimate'' (i64toa n)]] # rs"
      unfolding estimateResponses.simps if_not_P [OF False] Let_def n by (simp add: split_beta)
    ultimately show ?thesis by (auto simp: typed_wbN)
  qed
qed simp

text \<open>\<open>GetItemEstimate\<close> cannot be answered. Whenever the request names a folder and no statement
  fails, the response has an element \<open>Collection\<close>, which the code page of the command does
  not have, so encoding it fails and the device gets an internal error.\<close>

theorem GetItemEstimate_not_encodable:
  assumes "st_faults s = []" "Child req ''Folders'' = Some fs"
    and "\<exists>c\<in>set (n_children fs). n_name c = ''Folder'' \<or> n_name c = ''Collection''"
  shows "\<exists>answer e. fst (cmdGetItemEstimate user v req s) = Inr answer \<and> Encode (Some answer) codec = Inl e"
proof -
  obtain rs t where r: "estimateResponses (us_id user) v (n_children fs) s = (rs, t)" by fastforce
  then have "\<not> list_all (typed codec) rs"
    using estimateResponses_untyped [OF assms(1,3), of "us_id user" v] by simp
  then have "\<not> typed codec (wbN pageGetItemEstimate ''GetItemEstimate'' rs)" by (simp add: typed_wbN)
  then have "\<exists>e. Encode (Some (wbN pageGetItemEstimate ''GetItemEstimate'' rs)) codec = Inl e"
    using Encode_typed_iff by (metis sum.exhaust_sel sum.collapse(1) sum.collapse(2))
  then show ?thesis by (simp add: cmdGetItemEstimate_def assms(2) r Let_def)
qed

theorem GetItemEstimate_not_encodable_witness:
  "\<exists>answer e. fst (cmdGetItemEstimate demo_user ''d'' (Some (wbN pageGetItemEstimate ''GetItemEstimate''
      [wbN pageGetItemEstimate ''Folders'' [wbN pageGetItemEstimate ''Folder''
         [wbT pageGetItemEstimate ''FolderId'' ''1'']]])) demo_store) = Inr answer \<and>
    Encode (Some answer) codec = Inl e"
proof -
  let ?f = "wbN pageGetItemEstimate ''Folders'' [wbN pageGetItemEstimate ''Folder'' [wbT pageGetItemEstimate ''FolderId'' ''1'']]"
  have "Child (Some (wbN pageGetItemEstimate ''GetItemEstimate'' [?f])) ''Folders'' = Some ?f"
    by (simp add: Child_def wbN_def)
  moreover have "\<exists>c\<in>set (n_children ?f). n_name c = ''Folder'' \<or> n_name c = ''Collection''" by (simp add: wbN_def)
  ultimately show ?thesis using GetItemEstimate_not_encodable [of demo_store] by simp
qed

lemma pop_fault_none: "st_faults s = [] \<Longrightarrow> pop_fault s = s"
  by (cases s) (simp add: pop_fault_def)

lemma MessageByID_same:
  assumes "st_faults s = []" "message_row (st_db s) i = Some m"
  shows "(\<exists>e. MessageByID i s = (Inl e, s)) \<or>
    (\<exists>m'. MessageByID i s = (Inr m', s) \<and> ms_user m' = ms_user m \<and> ms_folder m' = ms_folder m)"
proof -
  have "MessageByID i s = LoadRaw (Some m) s"
    using assms by (simp add: MessageByID_def bindE_def message_query_eval)
  then show ?thesis
    using assms(1) pop_fault_none [OF assms(1)]
    by (auto simp: LoadRaw_def bindE_def blobGet_def split: option.split)
qed

definition moved_db :: "int \<Rightarrow> int \<Rightarrow> int \<Rightarrow> db \<Rightarrow> db" where
  "moved_db i src dst d = d\<lparr>tb_messages := update_where (\<lambda>r. ms_id r = i) (\<lambda>r. r\<lparr>ms_folder := dst\<rparr>) (tb_messages d),
     tb_changes := tb_changes d @ [
       \<lparr>ch_seq = sq_changes d + 1, ch_folder = src, ch_type = ''email'', ch_item = i, ch_kind = ''delete''\<rparr>,
       \<lparr>ch_seq = sq_changes d + 2, ch_folder = dst, ch_type = ''email'', ch_item = i, ch_kind = ''add''\<rparr>],
     sq_changes := sq_changes d + 2\<rparr>"

lemma move_and_record:
  assumes "st_faults s = []" "src \<in> set (folder_ids (st_db s))" "dst \<in> set (folder_ids (st_db s))"
  shows "\<exists>s2. MoveMessage i dst s = (Inr (), s2) \<and>
    execE (AddChange dst ''add'' ''email'' i) (execE (AddChange src ''delete'' ''email'' i) s2) =
      s\<lparr>st_db := moved_db i src dst (st_db s)\<rparr>"
  using assms
  by (simp add: MoveMessage_def sql_no_fault execE_def AddChange_def insert_change_def upd_messages_def folder_ids_def
      moved_db_def Let_def)

lemma moveTo_eval:
  assumes "store_ok s" "st_faults s = []" "message_row (st_db s) i = Some m" "ms_folder m = src" "dst \<noteq> 0"
  shows "(\<exists>st. moveTo user i src dst s = (st, s) \<and> st \<noteq> ''3'') \<or>
    (moveTo user i src dst s = (''3'', s\<lparr>st_db := moved_db i src dst (st_db s)\<rparr>) \<and> dst \<noteq> src \<and>
     (\<exists>f. folder_row (st_db s) dst = Some f \<and> fo_user f = us_id user \<and> \<not> fo_deleted f))"
proof (cases "folder_row (st_db s) dst")
  case None
  then show ?thesis using assms by (simp add: moveTo_def FolderByID_eval)
next
  case (Some f)
  have src: "src \<in> set (folder_ids (st_db s))"
    using message_rowD [OF assms(3)] assms(1,4) by (auto simp: store_ok_def db_ok_def mail_ok_def refs_ok_def folder_ids_def)
  have dst: "dst \<in> set (folder_ids (st_db s))" using folder_rowD [OF Some] by (auto simp: folder_ids_def)
  obtain s2 where "MoveMessage i dst s = (Inr (), s2)"
    "execE (AddChange dst ''add'' ''email'' i) (execE (AddChange src ''delete'' ''email'' i) s2) =
      s\<lparr>st_db := moved_db i src dst (st_db s)\<rparr>"
    using move_and_record [OF assms(2) src dst] by blast
  then show ?thesis using assms(2,5) Some by (simp add: moveTo_def FolderByID_eval)
qed

text \<open>A move that is reported as done has happened, and only then. With status 3 the message
  has been moved from the source folder to the folder that was asked for, which is a live folder
  of the account, and the feeds of both folders end with the change; with any other status the
  tables are as they were.\<close>

theorem moveItem_spec:
  assumes "store_ok s" "st_faults s = []" "moveItem user i src dst s = (status, t)" "message_row (st_db s) i = Some m"
    and "dst \<noteq> 0"
  shows "if status = ''3''
    then ms_user m = us_id user \<and> ms_folder m = src \<and> dst \<noteq> src \<and>
      message_row (st_db t) i = Some (m\<lparr>ms_folder := dst\<rparr>) \<and>
      (\<exists>f. folder_row (st_db s) dst = Some f \<and> fo_user f = us_id user \<and> \<not> fo_deleted f) \<and>
      (\<exists>c. feed (st_db t) dst = feed (st_db s) dst @ [c] \<and> ch_item c = i \<and> ch_kind c = ''add'') \<and>
      (\<exists>c. feed (st_db t) src = feed (st_db s) src @ [c] \<and> ch_item c = i \<and> ch_kind c = ''delete'')
    else st_db t = st_db s"
proof -
  consider e where "MessageByID i s = (Inl e, s)"
    | m' where "MessageByID i s = (Inr m', s)" "ms_user m' = ms_user m" "ms_folder m' = ms_folder m"
    using MessageByID_same [OF assms(2,4)] by blast
  then show ?thesis
  proof cases
    case 1
    then show ?thesis using assms(3) by (auto simp: moveItem_def)
  next
    case 2
    show ?thesis
    proof (cases "ms_user m = us_id user \<and> ms_folder m = src")
      case False
      then show ?thesis using 2 assms(3) by (auto simp: moveItem_def)
    next
      case True
      then have t: "moveTo user i src dst s = (status, t)" using 2 assms(3) by (simp add: moveItem_def)
      have row: "message_row (moved_db i src dst (st_db s)) i = Some (m\<lparr>ms_folder := dst\<rparr>)"
        using find_update_where [of ms_id "\<lambda>r. r\<lparr>ms_folder := dst\<rparr>" i i "tb_messages (st_db s)"] assms(4)
        by (simp add: message_row_def moved_db_def)
      show ?thesis
        using moveTo_eval [OF assms(1,2,4) _ assms(5), of src user] True t row
        by (auto simp: feed_def moved_db_def)
    qed
  qed
qed

theorem moveItem_spec_witness:
  "\<exists>t. moveItem demo_user 1 1 2 demo_store = (''3'', t) \<and> message_row (st_db t) 1 = Some ((demo_message 1)\<lparr>ms_folder := 2\<rparr>)"
proof -
  have m: "message_row (st_db demo_store) 1 = Some (demo_message 1)" by (simp add: message_row_def demo_defs)
  have f: "folder_row (st_db demo_store) 2 = Some (demo_folder 2 ''Spam'' 12 2)" by (simp add: folder_row_def demo_defs)
  have k: "1 \<in> set (folder_ids (st_db demo_store))" "2 \<in> set (folder_ids (st_db demo_store))"
    by (simp_all add: folder_ids_def demo_defs)
  have b: "MessageByID 1 demo_store = (Inr (demo_message 1), demo_store)"
    using m by (simp add: MessageByID_def bindE_def message_query_eval LoadRaw_def demo_message_def)
  obtain s2 where "MoveMessage 1 2 demo_store = (Inr (), s2)" using move_and_record [OF _ k] by auto
  then obtain t where t: "moveItem demo_user 1 1 2 demo_store = (''3'', t)"
    using b f by (simp add: moveItem_def moveTo_def FolderByID_eval demo_message_def demo_folder_def demo_user_def)
  show ?thesis using moveItem_spec [OF demo_ok _ t m] t by simp
qed


definition wipe_pending :: "string \<Rightarrow> db \<Rightarrow> bool" where
  "wipe_pending v d \<longleftrightarrow> (\<exists>r\<in>set (tb_devices d). dv_id r = v \<and> dv_wipe r)"

lemma WipeRequested_eval: "st_faults s = [] \<Longrightarrow> WipeRequested v s = (Inr (wipe_pending v (st_db s)), s)"
  by (simp add: WipeRequested_def getAll_def sql_no_fault wipe_pending_def)

lemma wipe_pending_policy:
  "wipe_pending v (upd_devices P (\<lambda>r. r\<lparr>dv_policy := k\<rparr>) d) = wipe_pending v d"
proof -
  have "(\<exists>r\<in>set (update_where P (\<lambda>r. r\<lparr>dv_policy := k\<rparr>) ds). dv_id r = v \<and> dv_wipe r) =
      (\<exists>r\<in>set ds. dv_id r = v \<and> dv_wipe r)" for ds
    by (induction ds) simp_all
  then show ?thesis unfolding wipe_pending_def upd_devices_def by simp
qed

lemma no_wipe_left: "\<not> (\<exists>r\<in>set (update_where (\<lambda>r. dv_id r = v) (\<lambda>r. r\<lparr>dv_wipe := False\<rparr>) ds). dv_id r = v \<and> dv_wipe r)"
  by (induction ds) simp_all

lemma ResetDeviceSync_db:
  "st_faults s = [] \<Longrightarrow> execE (ResetDeviceSync u v) s = s\<lparr>st_db := drop_states (\<lambda>r. ss_user r = u \<and> ss_device r = v)
     (drop_items (\<lambda>r. si_user r = u \<and> si_device r = v) (st_db s))\<rparr>"
  by (simp add: execE_def ResetDeviceSync_def bindE_def exec_def sql_no_fault)

text \<open>A requested wipe is delivered once. The first \<open>Provision\<close> of the device is answered with
  \<open>RemoteWipe\<close>, forgets every sync state and known item the account has on the device, and
  clears the request, so the next \<open>Provision\<close> hands out the policy; a device without a request
  is never told to wipe.\<close>

theorem provision_wipes_once:
  assumes "st_faults s = []" "device \<noteq> []" "cmdProvision user device req s = (Inr answer, t)"
  shows "(Child (Some answer) ''RemoteWipe'' \<noteq> None) =
      wipe_pending device (st_db s) \<and>
    (Child (Some answer) ''RemoteWipe'' \<noteq> None \<longrightarrow>
       (\<forall>f. known_items (us_id user) device f (st_db t) = {} \<and>
            find (\<lambda>r. state_key r = (us_id user, device, f)) (tb_states (st_db t)) = None)) \<and>
    (\<exists>again u. cmdProvision user device req t = (Inr again, u) \<and> Child (Some again) ''RemoteWipe'' = None)"
proof -
  have eval: "cmdProvision user device req x = (if wipe_pending device (st_db x)
      then (Inr (wbN pageProvision ''Provision'' [wbT pageProvision ''Status'' ''1'', wbN pageProvision ''RemoteWipe'' []]),
            deliverWipe user device x)
      else (Inr (wbN pageProvision ''Provision'' [wbT pageProvision ''Status'' ''1'', wbN pageProvision ''Policies'' [
             wbN pageProvision ''Policy'' ([wbT pageProvision ''PolicyType'' ''MS-EAS-Provisioning-WBXML'',
              wbT pageProvision ''Status'' ''1'', wbT pageProvision ''PolicyKey'' ''1''] @
              (if \<not> acknowledged req then [provisionDoc] else []))]]),
            execE (SetPolicyKey (us_id user) device ''1'') x))" if "st_faults x = []" for x
    using that assms(2) by (simp add: cmdProvision_def WipeRequested_eval)
  have child: "Child (Some (wbN pageProvision ''Provision'' [wbT pageProvision ''Status'' ''1'', wbN pageProvision ''RemoteWipe'' []])) ''RemoteWipe'' \<noteq> None"
    "Child (Some (wbN pageProvision ''Provision'' [wbT pageProvision ''Status'' ''1'', wbN pageProvision ''Policies'' cs])) ''RemoteWipe'' = None" for cs
    by (simp_all add: Child_def wbN_def wbT_def)
  let ?w = "\<lambda>x. wipe_pending device (st_db x)"
  have policy: "st_faults t = [] \<and> \<not> ?w t" if "\<not> ?w s"
  proof -
    have "t = s\<lparr>st_db := upd_devices (\<lambda>r. device_key r = (us_id user, device)) (\<lambda>r. r\<lparr>dv_policy := ''1''\<rparr>) (st_db s)\<rparr>"
      using assms(1,3) that by (simp add: eval execE_def SetPolicyKey_def exec_def sql_no_fault)
    then show ?thesis using that assms(1) by (simp add: wipe_pending_policy)
  qed
  let ?c = "upd_devices (\<lambda>r. dv_id r = device) (\<lambda>r. r\<lparr>dv_wipe := False\<rparr>) (st_db s)"
  have wiped: "t = s\<lparr>st_db := drop_states (\<lambda>r. ss_user r = us_id user \<and> ss_device r = device)
      (drop_items (\<lambda>r. si_user r = us_id user \<and> si_device r = device) ?c)\<rparr>" if "?w s"
    using assms(1,3) that
    by (simp add: eval deliverWipe_def ResetDeviceSync_db) (simp add: execE_def ClearWipe_def exec_def sql_no_fault ResetDeviceSync_def bindE_def)
  show ?thesis
  proof (cases "?w s")
    case True
    note t = wiped [OF True]
    have "\<not> ?w t" "st_faults t = []"
      using no_wipe_left [of device "tb_devices (st_db s)"] assms(1)
      by (simp_all add: t drop_states_def drop_items_def upd_devices_def wipe_pending_def)
    moreover have "known_items (us_id user) device f (st_db t) = {}" for f
      by (auto simp: t known_items_def drop_states_def drop_items_def)
    moreover have "find (\<lambda>r. state_key r = (us_id user, device, f)) (tb_states (st_db t)) = None" for f
      by (auto simp: t find_None_iff drop_states_def drop_items_def state_key_def)
    ultimately show ?thesis using True assms(1,3) child by (simp add: eval)
  next
    case False
    then show ?thesis using policy [OF False] assms(1,3) child by (auto simp: eval)
  qed
qed

text \<open>A device with a wipe request and one known item.\<close>

theorem provision_wipes_once_witness:
  "\<exists>answer t. cmdProvision demo_user ''d'' None (demo_store\<lparr>st_db := demo_db\<lparr>tb_devices :=
       [\<lparr>dv_user = ''u'', dv_address = [], dv_id = ''d'', dv_type = [], dv_protocol = [], dv_policy = [],
         dv_last_seen = 0, dv_wipe = True, dv_created = 0, dv_last_ip = [], dv_app_version = []\<rparr>]\<rparr>\<rparr>) = (Inr answer, t) \<and>
     Child (Some answer) ''RemoteWipe'' \<noteq> None \<and> known_items ''u'' ''d'' 1 (st_db t) = {}"
proof -
  let ?s = "demo_store\<lparr>st_db := demo_db\<lparr>tb_devices :=
       [\<lparr>dv_user = ''u'', dv_address = [], dv_id = ''d'', dv_type = [], dv_protocol = [], dv_policy = [],
         dv_last_seen = 0, dv_wipe = True, dv_created = 0, dv_last_ip = [], dv_app_version = []\<rparr>]\<rparr>\<rparr>"
  have w: "wipe_pending ''d'' (st_db ?s)" by (simp add: wipe_pending_def)
  then obtain answer t where r: "cmdProvision demo_user ''d'' None ?s = (Inr answer, t)"
    by (simp add: cmdProvision_def WipeRequested_eval)
  have "us_id demo_user = ''u''" by (simp add: demo_user_def)
  then show ?thesis using provision_wipes_once [OF _ _ r] r w by simp
qed

end
