(* ===== verification/AuthLimit.thy ===== *)
theory AuthLimit imports GoLib begin

text \<open>
  Package \<open>internal/authlimit\<close>: the login throttle shared by EAS, IMAP, SMTP and the
  admin console. Times and durations are \<open>int\<close> nanoseconds; a zero \<open>time.Time\<close> is
  \<open>None\<close>. The map \<open>entries\<close> is an association list with distinct keys. A nil
  \<open>*Limiter\<close> is \<open>None\<close>, and every operation takes the reading of the clock that
  the code takes under the mutex, so an operation is one atomic step.
\<close>

section \<open>State\<close>

(* src: internal/authlimit/limiter.go 21-25 entry *)
record limit_entry =
  le_failures :: int
  le_first :: int
  le_locked_to :: "int option"

(* src: internal/authlimit/limiter.go 12-19 Limiter *)
record limiter =
  lim_max :: int
  lim_window :: int
  lim_lockout :: int
  lim_entries :: "(string \<times> limit_entry) list"

abbreviation second :: int where "second \<equiv> 1000000000"
abbreviation minute :: int where "minute \<equiv> 60 * second"

(* src: internal/authlimit/limiter.go 27-46 New *)
definition new_limiter :: "int \<Rightarrow> int \<Rightarrow> int \<Rightarrow> limiter" where
  "new_limiter mx window lockout =
     \<lparr>lim_max = (if mx \<le> 0 then 5 else mx),
      lim_window = (if window \<le> 0 then 10 * minute else window),
      lim_lockout = (if lockout \<le> 0 then 5 * minute else lockout),
      lim_entries = []\<rparr>"

section \<open>Operations\<close>

text \<open>\<open>now.Before(t)\<close>; no clock reading is before the zero time.\<close>

definition before :: "int \<Rightarrow> int option \<Rightarrow> bool" where
  "before now t = (case t of None \<Rightarrow> False | Some t' \<Rightarrow> now < t')"

(* src: internal/authlimit/limiter.go 48-67 Limiter.Locked *)
definition Locked :: "int \<Rightarrow> string \<Rightarrow> limiter option \<Rightarrow> (bool \<times> int) \<times> limiter option" where
  "Locked now key lo = (case lo of
     None \<Rightarrow> ((False, 0), None)
   | Some l \<Rightarrow>
      if key = [] then ((False, 0), Some l)
      else case map_of (lim_entries l) key of
        None \<Rightarrow> ((False, 0), Some l)
      | Some e \<Rightarrow>
          if before now (le_locked_to e)
          then ((True, the (le_locked_to e) - now), Some l)
          else if le_locked_to e = None \<and> now - le_first e > lim_window l
          then ((False, 0), Some (l\<lparr>lim_entries := AList.delete key (lim_entries l)\<rparr>))
          else ((False, 0), Some l))"

(* src: internal/authlimit/limiter.go 105-114 Limiter.pruneLocked *)
definition pruneLocked :: "int \<Rightarrow> limiter \<Rightarrow> limiter" where
  "pruneLocked now l = l\<lparr>lim_entries :=
     filter (\<lambda>(k, e). before now (le_locked_to e) \<or> \<not> (now - le_first e > lim_window l))
       (lim_entries l)\<rparr>"

(* src: internal/authlimit/limiter.go 69-93 Limiter.Fail *)
definition Fail :: "int \<Rightarrow> string \<Rightarrow> limiter option \<Rightarrow> bool \<times> limiter option" where
  "Fail now key lo = (case lo of
     None \<Rightarrow> (False, None)
   | Some l0 \<Rightarrow>
      if key = [] then (False, Some l0)
      else
       let l = (if length (lim_entries l0) > 4096 then pruneLocked now l0 else l0);
           fresh = \<lparr>le_failures = 0, le_first = now, le_locked_to = None\<rparr>;
           e = (case map_of (lim_entries l) key of
                  None \<Rightarrow> fresh
                | Some e \<Rightarrow>
                    if (le_locked_to e \<noteq> None \<and> \<not> before now (le_locked_to e)) \<or>
                       now - le_first e > lim_window l
                    then fresh else e);
           n = le_failures e + 1
       in if n \<ge> lim_max l
          then (True, Some (l\<lparr>lim_entries := AList.update key
                 \<lparr>le_failures = 0, le_first = now, le_locked_to = Some (now + lim_lockout l)\<rparr>
                 (lim_entries l)\<rparr>))
          else (False, Some (l\<lparr>lim_entries := AList.update key (e\<lparr>le_failures := n\<rparr>)
                 (lim_entries l)\<rparr>)))"

(* src: internal/authlimit/limiter.go 95-103 Limiter.Reset *)
definition Reset :: "string \<Rightarrow> limiter option \<Rightarrow> limiter option" where
  "Reset key lo = (case lo of
     None \<Rightarrow> None
   | Some l \<Rightarrow> if key = [] then Some l
              else Some (l\<lparr>lim_entries := AList.delete key (lim_entries l)\<rparr>))"

section \<open>Reading an entry back\<close>

definition entry_of :: "limiter \<Rightarrow> string \<Rightarrow> limit_entry option" where
  "entry_of l key = map_of (lim_entries l) key"

text \<open>The keys of a Go map are distinct.\<close>

definition limiter_ok :: "limiter \<Rightarrow> bool" where
  "limiter_ok l \<longleftrightarrow> distinct (map fst (lim_entries l))"

lemma limiter_ok_new: "limiter_ok (new_limiter a b c)"
  by (simp add: limiter_ok_def new_limiter_def)

lemma map_of_filter_distinct:
  assumes "distinct (map fst xs)"
  shows "map_of (filter P xs) k = (case map_of xs k of None \<Rightarrow> None
           | Some v \<Rightarrow> if P (k, v) then Some v else None)"
  using assms
proof (induction xs)
  case (Cons a xs)
  obtain k' v' where a: "a = (k', v')" by (cases a)
  from Cons.prems a have "k' \<notin> fst ` set xs" by simp
  then have "map_of xs k' = None" by (simp add: map_of_eq_None_iff)
  with Cons a show ?case by (auto split: option.splits)
qed simp

lemma distinct_filter_fst: "distinct (map fst xs) \<Longrightarrow> distinct (map fst (filter P xs))"
  by (induction xs) auto

lemma entry_of_prune:
  "limiter_ok l \<Longrightarrow> entry_of (pruneLocked now l) key =
     (case entry_of l key of None \<Rightarrow> None
      | Some e \<Rightarrow> if before now (le_locked_to e) \<or> now - le_first e \<le> lim_window l
                 then Some e else None)"
  by (simp add: entry_of_def pruneLocked_def limiter_ok_def map_of_filter_distinct not_less
           split: option.splits)

lemma pruneLocked_simps [simp]:
  "lim_max (pruneLocked now l) = lim_max l"
  "lim_window (pruneLocked now l) = lim_window l"
  "lim_lockout (pruneLocked now l) = lim_lockout l"
  by (simp_all add: pruneLocked_def)

lemma limiter_ok_prune: "limiter_ok l \<Longrightarrow> limiter_ok (pruneLocked now l)"
  by (simp add: limiter_ok_def pruneLocked_def distinct_filter_fst)

text \<open>
  \<open>fail_entry\<close> is what one failure does to the key's own entry: the abstract view of
  \<open>Fail\<close>, without the map and its pruning.
\<close>

definition fail_entry :: "limiter \<Rightarrow> int \<Rightarrow> limit_entry option \<Rightarrow> bool \<times> limit_entry" where
  "fail_entry l now eo =
    (let fresh = \<lparr>le_failures = 0, le_first = now, le_locked_to = None\<rparr>;
         e = (case eo of None \<Rightarrow> fresh
              | Some e \<Rightarrow> if (le_locked_to e \<noteq> None \<and> \<not> before now (le_locked_to e)) \<or>
                            now - le_first e > lim_window l then fresh else e);
         n = le_failures e + 1
     in if n \<ge> lim_max l
        then (True, \<lparr>le_failures = 0, le_first = now, le_locked_to = Some (now + lim_lockout l)\<rparr>)
        else (False, e\<lparr>le_failures := n\<rparr>))"

lemma fail_entry_pruned:
  "limiter_ok l \<Longrightarrow> fail_entry l now (entry_of (pruneLocked now l) key) =
     fail_entry l now (entry_of l key)"
  by (auto simp: entry_of_prune fail_entry_def before_def split: option.splits)

lemma Fail_refines:
  assumes "limiter_ok l" "key \<noteq> []"
  obtains l' where "Fail now key (Some l) = (fst (fail_entry l now (entry_of l key)), Some l')"
    and "limiter_ok l'" "lim_max l' = lim_max l" "lim_window l' = lim_window l"
    and "lim_lockout l' = lim_lockout l"
    and "entry_of l' key = Some (snd (fail_entry l now (entry_of l key)))"
    and "\<And>k e. k \<noteq> key \<Longrightarrow> entry_of l k = Some e \<Longrightarrow>
           before now (le_locked_to e) \<or> now - le_first e \<le> lim_window l \<Longrightarrow> entry_of l' k = Some e"
proof -
  define l1 where "l1 = (if length (lim_entries l) > 4096 then pruneLocked now l else l)"
  define r where "r = fail_entry l now (entry_of l key)"
  have ok1: "limiter_ok l1" using assms(1) by (simp add: l1_def limiter_ok_prune)
  have par: "lim_max l1 = lim_max l" "lim_window l1 = lim_window l" "lim_lockout l1 = lim_lockout l"
    by (simp_all add: l1_def)
  have r: "fail_entry l now (entry_of l1 key) = r"
    using assms(1) by (simp add: l1_def r_def fail_entry_pruned)
  define l' where "l' = l1\<lparr>lim_entries := AList.update key (snd r) (lim_entries l1)\<rparr>"
  have fl: "Fail now key (Some l) = (fst r, Some l')"
    unfolding r [symmetric] l'_def Fail_def fail_entry_def entry_of_def
    using assms(2) par by (simp add: l1_def Let_def cong: if_cong option.case_cong)
  have other: "entry_of l' k = Some e"
    if "k \<noteq> key" "entry_of l k = Some e"
      "before now (le_locked_to e) \<or> now - le_first e \<le> lim_window l" for k e
  proof -
    have "entry_of l1 k = Some e"
      using that(2,3) assms(1) by (auto simp: l1_def entry_of_prune)
    then show ?thesis using that(1) by (simp add: l'_def entry_of_def update_conv')
  qed
  show ?thesis
    by (rule that [of l'])
      (use fl ok1 par other in \<open>auto simp: l'_def limiter_ok_def entry_of_def r_def
          distinct_update update_conv'\<close>)
qed

lemma Fail_None [simp]: "Fail now key None = (False, None)"
  by (simp add: Fail_def)

lemma Fail_empty_key [simp]: "Fail now [] (Some l) = (False, Some l)"
  by (simp add: Fail_def)

section \<open>Sequences of failures\<close>

text \<open>The failures of one key at the given clock readings, in order.\<close>

fun fails :: "string \<Rightarrow> limiter \<Rightarrow> int list \<Rightarrow> bool list \<times> limiter" where
  "fails key l [] = ([], l)"
| "fails key l (t # ts) = (case Fail t key (Some l) of
     (b, lo) \<Rightarrow> (case lo of None \<Rightarrow> ([b], l)
                | Some l' \<Rightarrow> (case fails key l' ts of (bs, l'') \<Rightarrow> (b # bs, l''))))"

lemma fails_Cons:
  assumes "limiter_ok l" "key \<noteq> []"
  obtains l' where
    "fails key l (t # ts) =
       (fst (fail_entry l t (entry_of l key)) # fst (fails key l' ts), snd (fails key l' ts))"
    "limiter_ok l'" "lim_max l' = lim_max l" "lim_window l' = lim_window l"
    "lim_lockout l' = lim_lockout l"
    "entry_of l' key = Some (snd (fail_entry l t (entry_of l key)))"
  by (rule Fail_refines [OF assms, of t]) (auto simp: split_beta)

lemma length_fails: "limiter_ok l \<Longrightarrow> key \<noteq> [] \<Longrightarrow> length (fst (fails key l ts)) = length ts"
proof (induction ts arbitrary: l)
  case (Cons t ts)
  obtain l' where "fails key l (t # ts) =
       (fst (fail_entry l t (entry_of l key)) # fst (fails key l' ts), snd (fails key l' ts))"
    and "limiter_ok l'"
    by (rule fails_Cons [OF Cons.prems, of t ts])
  with Cons show ?case by simp
qed simp

text \<open>
  Counting inside one window: an entry that started at \<open>f\<close> and holds \<open>k\<close> failures
  reports the lock exactly at failure number \<open>lim_max - k\<close>.
\<close>

lemma fails_in_window:
  assumes "limiter_ok l" "key \<noteq> []" "0 < lim_max l"
    and "entry_of l key = Some \<lparr>le_failures = k, le_first = f, le_locked_to = None\<rparr>"
    and "0 \<le> k" "k < lim_max l" "\<forall>t\<in>set ts. t - f \<le> lim_window l"
    and "k + int (length ts) = lim_max l" "ts \<noteq> []"
  shows "fst (fails key l ts) = replicate (length ts - 1) False @ [True] \<and>
    limiter_ok (snd (fails key l ts)) \<and>
    entry_of (snd (fails key l ts)) key =
      Some \<lparr>le_failures = 0, le_first = last ts, le_locked_to = Some (last ts + lim_lockout l)\<rparr>"
  using assms
proof (induction ts arbitrary: l k)
  case (Cons t ts)
  have fe: "fail_entry l t (entry_of l key) =
     (if k + 1 \<ge> lim_max l
      then (True, \<lparr>le_failures = 0, le_first = t, le_locked_to = Some (t + lim_lockout l)\<rparr>)
      else (False, \<lparr>le_failures = k + 1, le_first = f, le_locked_to = None\<rparr>))"
    using Cons.prems by (simp add: fail_entry_def)
  obtain l' where l': "fails key l (t # ts) =
       (fst (fail_entry l t (entry_of l key)) # fst (fails key l' ts), snd (fails key l' ts))"
    "limiter_ok l'" "lim_max l' = lim_max l" "lim_window l' = lim_window l"
    "lim_lockout l' = lim_lockout l"
    "entry_of l' key = Some (snd (fail_entry l t (entry_of l key)))"
    by (rule fails_Cons [OF Cons.prems(1,2), of t ts])
  show ?case
  proof (cases "ts = []")
    case True
    with Cons.prems fe l' show ?thesis by simp
  next
    case False
    with Cons.prems have lt: "k + 1 < lim_max l" by (cases ts) auto
    have "fst (fails key l' ts) = replicate (length ts - 1) False @ [True] \<and>
      limiter_ok (snd (fails key l' ts)) \<and>
      entry_of (snd (fails key l' ts)) key =
        Some \<lparr>le_failures = 0, le_first = last ts, le_locked_to = Some (last ts + lim_lockout l')\<rparr>"
      using Cons.prems l' fe lt False by (intro Cons.IH [of l' "k + 1"]) auto
    moreover obtain m where "length ts = Suc m" using False by (cases ts) auto
    ultimately show ?thesis using l' fe lt False by simp
  qed
qed simp

lemma fails_fresh_step:
  assumes "limiter_ok l" "key \<noteq> []" "1 < lim_max l"
    and "entry_of l key = None \<or> (\<exists>e. entry_of l key = Some e \<and> t - le_first e > lim_window l)"
  shows "fail_entry l t (entry_of l key) =
    (False, \<lparr>le_failures = 1, le_first = t, le_locked_to = None\<rparr>)"
  using assms by (auto simp: fail_entry_def)

text \<open>No lock inside one window means fewer than \<open>lim_max\<close> failures.\<close>

lemma fails_unlocked_bound:
  assumes "limiter_ok l" "key \<noteq> []"
    and "entry_of l key = Some \<lparr>le_failures = k, le_first = f, le_locked_to = None\<rparr>"
    and "k < lim_max l" "\<forall>t\<in>set ts. t - f \<le> lim_window l"
    and "True \<notin> set (fst (fails key l ts))"
  shows "k + int (length ts) < lim_max l \<and> limiter_ok (snd (fails key l ts)) \<and>
    lim_max (snd (fails key l ts)) = lim_max l \<and> lim_window (snd (fails key l ts)) = lim_window l \<and>
    entry_of (snd (fails key l ts)) key =
      Some \<lparr>le_failures = k + int (length ts), le_first = f, le_locked_to = None\<rparr>"
  using assms
proof (induction ts arbitrary: l k)
  case (Cons t ts)
  have fe: "fail_entry l t (entry_of l key) =
     (if k + 1 \<ge> lim_max l
      then (True, \<lparr>le_failures = 0, le_first = t, le_locked_to = Some (t + lim_lockout l)\<rparr>)
      else (False, \<lparr>le_failures = k + 1, le_first = f, le_locked_to = None\<rparr>))"
    using Cons.prems by (simp add: fail_entry_def)
  obtain l' where l': "fails key l (t # ts) =
       (fst (fail_entry l t (entry_of l key)) # fst (fails key l' ts), snd (fails key l' ts))"
    "limiter_ok l'" "lim_max l' = lim_max l" "lim_window l' = lim_window l"
    "entry_of l' key = Some (snd (fail_entry l t (entry_of l key)))"
    by (rule fails_Cons [OF Cons.prems(1,2), of t ts])
  have lt: "k + 1 < lim_max l" using Cons.prems(6) l'(1) fe by (auto split: if_splits)
  have "k + 1 + int (length ts) < lim_max l' \<and> limiter_ok (snd (fails key l' ts)) \<and>
    lim_max (snd (fails key l' ts)) = lim_max l' \<and>
    lim_window (snd (fails key l' ts)) = lim_window l' \<and>
    entry_of (snd (fails key l' ts)) key =
      Some \<lparr>le_failures = k + 1 + int (length ts), le_first = f, le_locked_to = None\<rparr>"
    using Cons.prems l' fe lt by (intro Cons.IH [of l' "k + 1"]) auto
  with l' show ?case by simp
qed simp

lemma fails_append:
  assumes "limiter_ok l" "key \<noteq> []"
  shows "fst (fails key l (us @ vs)) =
    fst (fails key l us) @ fst (fails key (snd (fails key l us)) vs)"
  using assms
proof (induction us arbitrary: l)
  case (Cons t us)
  obtain l' lo b where "Fail t key (Some l) = (b, lo)" "lo = Some l'" "limiter_ok l'"
    using Fail_refines [OF Cons.prems, of t] by metis
  with Cons show ?case by (simp add: split_beta)
qed simp

section \<open>Other keys\<close>

text \<open>One call on the limiter; the clock reading comes first.\<close>

datatype lim_call = CLocked int string | CFail int string | CReset int string

fun lim_step :: "lim_call \<Rightarrow> limiter option \<Rightarrow> limiter option" where
  "lim_step (CLocked t k) lo = snd (Locked t k lo)"
| "lim_step (CFail t k) lo = snd (Fail t k lo)"
| "lim_step (CReset t k) lo = Reset k lo"

fun lim_time :: "lim_call \<Rightarrow> int" where
  "lim_time (CLocked t k) = t" | "lim_time (CFail t k) = t" | "lim_time (CReset t k) = t"

fun lim_writes :: "lim_call \<Rightarrow> string \<Rightarrow> bool" where
  "lim_writes (CLocked t k) key = False"
| "lim_writes (CFail t k) key = (k = key)"
| "lim_writes (CReset t k) key = (k = key)"

lemma snd_Locked:
  "snd (Locked t k (Some l)) = Some l \<or>
   (snd (Locked t k (Some l)) = Some (l\<lparr>lim_entries := AList.delete k (lim_entries l)\<rparr>) \<and>
    (\<exists>e. entry_of l k = Some e \<and> le_locked_to e = None))"
  by (auto simp: Locked_def entry_of_def split: option.splits)

lemma entry_of_delete [simp]:
  "entry_of (l\<lparr>lim_entries := AList.delete k (lim_entries l)\<rparr>) key =
     (if k = key then None else entry_of l key)"
  by (simp add: entry_of_def delete_conv')

lemma limiter_ok_delete [simp]:
  "limiter_ok l \<Longrightarrow> limiter_ok (l\<lparr>lim_entries := AList.delete k (lim_entries l)\<rparr>)"
  by (simp add: limiter_ok_def distinct_delete)

lemma lim_step_keeps_lock:
  assumes "limiter_ok l" "entry_of l key = Some e" "le_locked_to e = Some T"
    and "lim_time c < T" "\<not> lim_writes c key"
  obtains l' where "lim_step c (Some l) = Some l'" "limiter_ok l'" "entry_of l' key = Some e"
proof (cases c)
  case (CLocked t k)
  from snd_Locked [of t k l] show ?thesis
  proof
    assume "snd (Locked t k (Some l)) = Some l"
    then show ?thesis using CLocked assms(1,2) by (intro that [of l]) auto
  next
    assume "snd (Locked t k (Some l)) = Some (l\<lparr>lim_entries := AList.delete k (lim_entries l)\<rparr>) \<and>
      (\<exists>e. entry_of l k = Some e \<and> le_locked_to e = None)"
    then show ?thesis using CLocked assms(1-3)
      by (intro that [of "l\<lparr>lim_entries := AList.delete k (lim_entries l)\<rparr>"]) auto
  qed
next
  case (CFail t k)
  show ?thesis
  proof (cases "k = []")
    case True
    then show ?thesis using assms CFail that by simp
  next
    case False
    obtain l' where "Fail t k (Some l) = (fst (fail_entry l t (entry_of l k)), Some l')"
      "limiter_ok l'"
      and o: "\<And>k' e. k' \<noteq> k \<Longrightarrow> entry_of l k' = Some e \<Longrightarrow>
           before t (le_locked_to e) \<or> t - le_first e \<le> lim_window l \<Longrightarrow> entry_of l' k' = Some e"
      using Fail_refines [OF assms(1) False, of t] by metis
    then show ?thesis
      using o [of key e] assms CFail that by (simp add: before_def)
  qed
next
  case (CReset t k)
  show ?thesis
  proof (cases "k = []")
    case True
    then show ?thesis using CReset assms(1,2) by (intro that [of l]) (auto simp: Reset_def)
  next
    case False
    then show ?thesis using CReset assms
      by (intro that [of "l\<lparr>lim_entries := AList.delete k (lim_entries l)\<rparr>"])
         (auto simp: Reset_def)
  qed
qed

lemma lim_steps_keep_lock:
  assumes "limiter_ok l" "entry_of l key = Some e" "le_locked_to e = Some T"
    and "\<forall>c\<in>set cs. lim_time c < T \<and> \<not> lim_writes c key"
  shows "\<exists>l'. fold lim_step cs (Some l) = Some l' \<and> limiter_ok l' \<and> entry_of l' key = Some e"
  using assms
proof (induction cs arbitrary: l)
  case (Cons c cs)
  from Cons.prems have "lim_time c < T" "\<not> lim_writes c key" by auto
  from lim_step_keeps_lock [OF Cons.prems(1-3) this]
  obtain l1 where l1: "lim_step c (Some l) = Some l1" "limiter_ok l1" "entry_of l1 key = Some e" .
  with Cons.IH [of l1] Cons.prems show ?case by simp
qed simp

lemma Locked_entry:
  assumes "entry_of l key = Some e" "le_locked_to e = Some T" "t < T" "key \<noteq> []"
  shows "fst (Locked t key (Some l)) = (True, T - t)"
  using assms by (simp add: Locked_def entry_of_def before_def)

section \<open>Properties\<close>

text \<open>A key with no history is locked by failure number \<open>max\<close> inside one window, not
  before, and \<open>Locked\<close> then blocks it for exactly the lockout time.\<close>

theorem lock_exactly_at_max:
  assumes "limiter_ok l" "key \<noteq> []" "0 < lim_max l" "entry_of l key = None"
    and "length ts = nat (lim_max l)" "\<forall>t\<in>set ts. t - hd ts \<le> lim_window l"
    and "now < last ts + lim_lockout l"
  shows "fst (fails key l ts) = replicate (nat (lim_max l) - 1) False @ [True] \<and>
    fst (Locked now key (Some (snd (fails key l ts)))) = (True, last ts + lim_lockout l - now)"
proof -
  obtain t ts' where ts: "ts = t # ts'" using assms(3,5) by (cases ts) auto
  obtain l' where l': "fails key l (t # ts') =
       (fst (fail_entry l t (entry_of l key)) # fst (fails key l' ts'), snd (fails key l' ts'))"
    "limiter_ok l'" "lim_max l' = lim_max l" "lim_window l' = lim_window l"
    "lim_lockout l' = lim_lockout l"
    "entry_of l' key = Some (snd (fail_entry l t (entry_of l key)))"
    by (rule fails_Cons [OF assms(1,2), of t ts'])
  show ?thesis
  proof (cases "lim_max l = 1")
    case True
    with assms(5) ts have "ts' = []" by simp
    with l' ts True assms show ?thesis by (simp add: fail_entry_def Locked_entry)
  next
    case False
    with assms(3) have lt: "1 < lim_max l" by simp
    have fe: "fail_entry l t (entry_of l key) =
        (False, \<lparr>le_failures = 1, le_first = t, le_locked_to = None\<rparr>)"
      by (rule fails_fresh_step) (use assms lt in auto)
    have ne: "ts' \<noteq> []" using lt assms(5) ts by auto
    have w: "fst (fails key l' ts') = replicate (length ts' - 1) False @ [True] \<and>
      limiter_ok (snd (fails key l' ts')) \<and>
      entry_of (snd (fails key l' ts')) key =
        Some \<lparr>le_failures = 0, le_first = last ts', le_locked_to = Some (last ts' + lim_lockout l')\<rparr>"
      by (rule fails_in_window [of _ _ 1 t]) (use assms l' fe lt ts ne in auto)
    have n: "replicate (nat (lim_max l) - 1) False = False # replicate (length ts' - 1) False"
      using assms(5) [symmetric] ts ne by (cases ts') auto
    show ?thesis unfolding n using w l' fe ts ne assms(2,7) by (simp add: Locked_entry)
  qed
qed

theorem lock_exactly_at_max_witness:
  "fst (fails ''imap|h|u'' (new_limiter 3 0 0) [5, 6, 7]) = [False, False, True] \<and>
   fst (Locked 8 ''imap|h|u'' (Some (snd (fails ''imap|h|u'' (new_limiter 3 0 0) [5, 6, 7]))))
     = (True, 5 * minute - 1)"
  using lock_exactly_at_max [of "new_limiter 3 0 0" "''imap|h|u''" "[5, 6, 7]" 8]
  by (simp add: limiter_ok_def new_limiter_def entry_of_def numeral_eq_Suc)

text \<open>Once a key is locked, no sequence of calls for other keys (failures that prune the
  map, resets, queries) and no query of the key itself shortens the lock: at every moment
  before its end the key is still blocked, for exactly the remaining time.\<close>

theorem lock_persists:
  assumes "limiter_ok l" "key \<noteq> []" "entry_of l key = Some e" "le_locked_to e = Some T"
    and "\<forall>c\<in>set cs. lim_time c < T \<and> \<not> lim_writes c key" "now < T"
  shows "fst (Locked now key (fold lim_step cs (Some l))) = (True, T - now)"
proof -
  obtain l' where "fold lim_step cs (Some l) = Some l'" "entry_of l' key = Some e"
    using lim_steps_keep_lock [OF assms(1,3,4,5)] by blast
  then show ?thesis using assms(2,4,6) by (simp add: Locked_entry)
qed

theorem lock_persists_witness:
  "fst (Locked 50 ''a'' (fold lim_step [CFail 40 ''b'', CReset 41 ''b'', CLocked 42 ''a'']
     (Some \<lparr>lim_max = 5, lim_window = 600, lim_lockout = 300,
            lim_entries = [(''a'', \<lparr>le_failures = 0, le_first = 10, le_locked_to = Some 310\<rparr>)]\<rparr>)))
   = (True, 260)"
  using lock_persists [of "\<lparr>lim_max = 5, lim_window = 600, lim_lockout = 300,
      lim_entries = [(''a'', \<lparr>le_failures = 0, le_first = 10, le_locked_to = Some 310\<rparr>)]\<rparr>"
    "''a''" "\<lparr>le_failures = 0, le_first = 10, le_locked_to = Some 310\<rparr>" 310
    "[CFail 40 ''b'', CReset 41 ''b'', CLocked 42 ''a'']" 50]
  by (simp add: limiter_ok_def entry_of_def)

text \<open>C39: the window is anchored at the first counted failure and does not slide: an interval
  no longer than the window holds at most \<open>2 * (max - 1) - k\<close> failures without a lock, where
  \<open>k\<close> are already counted. The witness reaches that bound: with the default budget of 5
  failures in ten minutes, seven failures within two seconds go through.\<close>

theorem unlocked_failures_bound:
  assumes "limiter_ok l" "key \<noteq> []" "1 < lim_max l"
    and "entry_of l key = Some \<lparr>le_failures = k, le_first = f, le_locked_to = None\<rparr>"
    and "0 \<le> k" "k < lim_max l" "sorted ts" "ts \<noteq> []" "last ts - hd ts \<le> lim_window l"
    and "True \<notin> set (fst (fails key l ts))"
  shows "int (length ts) \<le> 2 * (lim_max l - 1) - k"
proof -
  define us where "us = takeWhile (\<lambda>t. t - f \<le> lim_window l) ts"
  define vs where "vs = dropWhile (\<lambda>t. t - f \<le> lim_window l) ts"
  have ts: "ts = us @ vs" by (simp add: us_def vs_def)
  define l1 where "l1 = snd (fails key l us)"
  have nt: "True \<notin> set (fst (fails key l us))" "True \<notin> set (fst (fails key l1 vs))"
    using assms(10) by (simp_all add: ts l1_def fails_append [OF assms(1,2)])
  have us: "\<forall>t\<in>set us. t - f \<le> lim_window l" by (auto simp: us_def dest: set_takeWhileD)
  have b: "k + int (length us) < lim_max l \<and> limiter_ok l1 \<and> lim_max l1 = lim_max l \<and>
      lim_window l1 = lim_window l \<and> entry_of l1 key =
        Some \<lparr>le_failures = k + int (length us), le_first = f, le_locked_to = None\<rparr>"
    unfolding l1_def by (rule fails_unlocked_bound [OF assms(1,2,4,6) us nt(1)])
  have "int (length vs) \<le> lim_max l - 1"
  proof (cases vs)
    case (Cons v vs')
    have v: "v - f > lim_window l" using Cons vs_def by (metis (mono_tags) dropWhile_eq_Cons_conv not_less)
    obtain l2 where l2: "fails key l1 (v # vs') =
       (fst (fail_entry l1 v (entry_of l1 key)) # fst (fails key l2 vs'), snd (fails key l2 vs'))"
      "limiter_ok l2" "lim_max l2 = lim_max l1" "lim_window l2 = lim_window l1"
      "entry_of l2 key = Some (snd (fail_entry l1 v (entry_of l1 key)))"
      by (rule fails_Cons [of l1 key v vs']) (use b assms(2) in blast)+
    have fe: "fail_entry l1 v (entry_of l1 key) =
        (False, \<lparr>le_failures = 1, le_first = v, le_locked_to = None\<rparr>)"
      by (rule fails_fresh_step) (use b v assms(2,3) in auto)
    have "t - v \<le> lim_window l" if "t \<in> set vs'" for t
    proof -
      have mem: "v \<in> set ts" "t \<in> set ts" using ts Cons that by simp_all
      show ?thesis
        using sorted_hd_last [OF assms(7) mem(1)] sorted_hd_last [OF assms(7) mem(2)] assms(9)
        by linarith
    qed
    then have "1 + int (length vs') < lim_max l2"
      using fails_unlocked_bound [of l2 key 1 v vs'] l2 fe b assms(2,3) nt(2) Cons by simp
    then show ?thesis using l2 b Cons by simp
  qed (use assms(3) in simp)
  with b assms(5) ts show ?thesis by simp
qed

theorem unlocked_failures_bound_witness:
  "fst (fails ''k'' (new_limiter 5 0 0) [0]) = [False] \<and>
   fst (fails ''k'' (snd (fails ''k'' (new_limiter 5 0 0) [0]))
     [599 * second, 599 * second, 599 * second, 601 * second, 601 * second, 601 * second, 601 * second])
     = [False, False, False, False, False, False, False] \<and>
   int (length [599 * second, 599 * second, 599 * second, 601 * second, 601 * second,
     601 * second, 601 * second]) = 2 * (5 - 1) - 1"
proof -
  define l where "l = snd (fails ''k'' (new_limiter 5 0 0) [0])"
  let ?ts = "[599 * second, 599 * second, 599 * second, 601 * second, 601 * second,
     601 * second, 601 * second]"
  have l: "l = \<lparr>lim_max = 5, lim_window = 10 * minute, lim_lockout = 5 * minute,
      lim_entries = [(''k'', \<lparr>le_failures = 1, le_first = 0, le_locked_to = None\<rparr>)]\<rparr>"
    by (simp add: l_def Fail_def new_limiter_def)
  have f: "fst (fails ''k'' l ?ts) = [False, False, False, False, False, False, False]"
    unfolding l by code_simp
  have nt: "True \<notin> set (fst (fails ''k'' l ?ts))" unfolding f by simp
  have "int (length ?ts) \<le> 2 * (lim_max l - 1) - 1"
    by (rule unlocked_failures_bound [of l "''k''" 1 0 ?ts, OF _ _ _ _ _ _ _ _ _ nt])
       (simp_all add: l limiter_ok_def entry_of_def)
  moreover have "fst (fails ''k'' (new_limiter 5 0 0) [0]) = [False]" by code_simp
  ultimately show ?thesis using f [unfolded l_def] by (simp only: HOL.simp_thms) simp
qed

end
