(* ===== verification/EasPing.thy ===== *)
theory EasPing imports EasFolders AuthLimit begin

text \<open>
  The long poll of \<open>internal/eas/misc.go\<close>: \<open>Ping\<close> holds a request until a folder of the account
  has changes the device has not read. The registry of held polls and the throttle of repeated
  notifications are the fields \<open>pingWait\<close> and \<open>pingNotified\<close> of the server; every operation on
  them runs under its mutex and is one atomic step. A channel is a number; closing a channel
  twice panics in Go and is \<open>None\<close> here. Times are nanoseconds.
\<close>

section \<open>The registry of held polls\<close>

(* src: internal/eas/server.go 62-67 Server *)
record ping_state =
  pg_wait :: "string \<rightharpoonup> nat"
  pg_closed :: "nat list"
  pg_next :: nat
  pg_notified :: "(string \<times> int \<times> int) list"

definition close_channel :: "nat \<Rightarrow> ping_state \<Rightarrow> ping_state option" where
  "close_channel c p = (if c \<in> set (pg_closed p) then None else Some (p\<lparr>pg_closed := c # pg_closed p\<rparr>))"

(* src: internal/eas/misc.go 113-127 Server.acquirePing *)
definition acquirePing :: "string \<Rightarrow> ping_state \<Rightarrow> (nat \<times> ping_state) option" where
  "acquirePing key p =
    (case (case pg_wait p key of None \<Rightarrow> Some p | Some previous \<Rightarrow> close_channel previous p) of
       None \<Rightarrow> None
     | Some q \<Rightarrow> Some (pg_next q, q\<lparr>pg_wait := (pg_wait q)(key \<mapsto> pg_next q), pg_next := pg_next q + 1\<rparr>))"

(* src: internal/eas/misc.go 129-135 Server.releasePing *)
definition releasePing :: "string \<Rightarrow> nat \<Rightarrow> ping_state \<Rightarrow> ping_state" where
  "releasePing key c p = (if pg_wait p key = Some c then p\<lparr>pg_wait := (pg_wait p)(key := None)\<rparr> else p)"

(* src: internal/eas/misc.go 137-148 Server.cancelPing *)
definition cancelPing :: "string \<Rightarrow> ping_state \<Rightarrow> ping_state option" where
  "cancelPing key p = (case pg_wait p key of
     None \<Rightarrow> Some p
   | Some c \<Rightarrow> map_option (\<lambda>q. q\<lparr>pg_wait := (pg_wait q)(key := None)\<rparr>) (close_channel c p))"

section \<open>The throttle\<close>

(* src: internal/eas/misc.go 157-165 pingNotifyInterval *)
definition pingNotifyInterval :: int where
  "pingNotifyInterval = 30 * second"

text \<open>The map of the code is a list with distinct keys; an entry is the sequence number and the
  time of the last notification.\<close>

(* src: internal/eas/misc.go 167-192 Server.shouldNotify *)
definition shouldNotify :: "string \<Rightarrow> int \<Rightarrow> int \<Rightarrow> int \<Rightarrow> ping_state \<Rightarrow> bool \<times> ping_state" where
  "shouldNotify scopedDevice folderID seq now p =
    (let key = scopedDevice @ ''|'' @ i64toa folderID;
         muted = (case map_of (pg_notified p) key of
                    None \<Rightarrow> False | Some (s, at) \<Rightarrow> s = seq \<and> now - at < pingNotifyInterval) in
     if muted then (False, p)
     else (let kept = (if length (pg_notified p) > 1024
                       then filter (\<lambda>(k, s, at). \<not> (now - at \<ge> pingNotifyInterval)) (pg_notified p)
                       else pg_notified p)
           in (True, p\<lparr>pg_notified := AList.update key (seq, now) kept\<rparr>)))"

section \<open>The poll\<close>

(* src: internal/eas/misc.go 15-18 pingFolder *)
record ping_folder =
  pf_id :: int
  pf_class :: string

(* src: internal/eas/misc.go 20-23 maxPingHeartbeat *)
definition maxPingHeartbeat :: int where
  "maxPingHeartbeat = 120"

(* src: internal/eas/misc.go 27-33 Server.cmdPing *)
definition heartbeat :: "node option \<Rightarrow> int" where
  "heartbeat req = (let h = atoiDefault (ChildText req ''HeartbeatInterval'') 60; h = (if h \<le> 0 then 60 else h)
     in if h > maxPingHeartbeat then maxPingHeartbeat else h)"

(* src: internal/eas/misc.go 38-46 Server.cmdPing *)
definition requestedFolder :: "node \<Rightarrow> ping_folder" where
  "requestedFolder fn =
    (let i = ChildText (Some fn) ''ServerId''; c = ChildText (Some fn) ''Class'' in
     \<lparr>pf_id = parseInt (if i = [] then ChildText (Some fn) ''Id'' else i), pf_class = (if c = [] then ''Email'' else c)\<rparr>)"

(* src: internal/eas/misc.go 35-58 Server.cmdPing *)
definition pingCandidates :: "user \<Rightarrow> node option \<Rightarrow> (store, ping_folder list) op" where
  "pingCandidates user req = (case Child req ''Folders'' of
     Some fs \<Rightarrow> okE (map requestedFolder (ChildrenNamed (Some fs) ''Folder''))
   | None \<Rightarrow> bindE (FoldersByUser (us_id user)) (\<lambda>all.
       okE (map (\<lambda>f. \<lparr>pf_id = fo_id f, pf_class = fo_class f\<rparr>) (filter (\<lambda>f. \<not> fo_deleted f) all))))"

(* src: internal/eas/misc.go 60-68 Server.cmdPing *)
fun pingTargets :: "user \<Rightarrow> ping_folder list \<Rightarrow> store \<Rightarrow> ping_folder list \<times> store" where
  "pingTargets user [] s = ([], s)"
| "pingTargets user (pf # pfs) s =
    (let (r, s') = FolderByID (pf_id pf) s; (ts, t) = pingTargets user pfs s' in
     (case r of Inl _ \<Rightarrow> ts
      | Inr f \<Rightarrow> if fo_user f \<noteq> us_id user \<or> fo_deleted f then ts else pf # ts, t))"

text \<open>One pass over the targets at one reading of the clock.\<close>

(* src: internal/eas/misc.go 84-99 Server.cmdPing *)
fun pingScan :: "string \<Rightarrow> string \<Rightarrow> int \<Rightarrow> ping_folder list \<Rightarrow> store \<Rightarrow> ping_state \<Rightarrow> bool \<times> store \<times> ping_state" where
  "pingScan u v now [] s p = (False, s, p)"
| "pingScan u v now (pf # pfs) s p = (case GetSyncState u v (pf_id pf) s of
     (Inl _, s') \<Rightarrow> pingScan u v now pfs s' p
   | (Inr None, s') \<Rightarrow> pingScan u v now pfs s' p
   | (Inr (Some st), s') \<Rightarrow> (case HasChangesAfter (pf_id pf) (ss_seq st) s' of
        (Inl _, s'') \<Rightarrow> pingScan u v now pfs s'' p
      | (Inr has, s'') \<Rightarrow>
          if has then (let (notify, p') = shouldNotify (u @ ''|'' @ v) (pf_id pf) (ss_seq st) now p in
            if notify then (True, s'', p') else pingScan u v now pfs s'' p')
          else pingScan u v now pfs s'' p))"

text \<open>What ends a wait: the client went away, another request cancelled the poll, or two seconds
  passed. By then other requests may have changed the tables and the registry: the wake carries them.\<close>

datatype wake = CtxDone store ping_state | Cancelled store ping_state | Tick store ping_state int

(* src: internal/eas/misc.go 82-111 Server.cmdPing *)
fun pingLoop :: "string \<Rightarrow> string \<Rightarrow> ping_folder list \<Rightarrow> int \<Rightarrow> wake list \<Rightarrow> int \<Rightarrow> store \<Rightarrow> ping_state \<Rightarrow>
    (int \<times> store \<times> ping_state) option" where
  "pingLoop u v ts deadline wakes now s p =
    (let (found, s', p') = pingScan u v now ts s p in
     if found then Some (2, s', p')
     else if \<not> now < deadline then Some (1, s', p')
     else (case wakes of
         [] \<Rightarrow> None
       | CtxDone s1 p1 # _ \<Rightarrow> Some (1, s1, p1)
       | Cancelled s1 p1 # _ \<Rightarrow> Some (1, s1, p1)
       | Tick s1 p1 now1 # ws \<Rightarrow> pingLoop u v ts deadline ws now1 s1 p1))"

(* src: internal/eas/misc.go 150-155 pingResponse *)
definition pingResponse :: "int \<Rightarrow> node" where
  "pingResponse status = wbN pagePing ''Ping'' [wbT pagePing ''Status'' (i64toa status)]"

text \<open>The whole request; \<open>None\<close> is a panic or a poll that is still held when the wakes run out.\<close>

(* src: internal/eas/misc.go 25-111 Server.cmdPing *)
definition cmdPing :: "user \<Rightarrow> string \<Rightarrow> node option \<Rightarrow> int \<Rightarrow> wake list \<Rightarrow> store \<Rightarrow> ping_state \<Rightarrow>
    ((go_error + node) \<times> store \<times> ping_state) option" where
  "cmdPing user deviceID req now wakes s p = (case pingCandidates user req s of
     (Inl e, s') \<Rightarrow> Some (Inl e, s', p)
   | (Inr cs, s') \<Rightarrow>
      (let (targets, s1) = pingTargets user cs s'; key = us_id user @ ''|'' @ deviceID in
       case acquirePing key p of
         None \<Rightarrow> None
       | Some (c, p1) \<Rightarrow>
          (case pingLoop (us_id user) deviceID targets (now + heartbeat req * second) wakes now s1 p1 of
             None \<Rightarrow> None
           | Some (status, s2, p2) \<Rightarrow> Some (Inr (pingResponse status), s2, releasePing key c p2))))"


section \<open>The registry never panics\<close>

datatype ping_event = Acquire string | Release string nat | CancelPoll string

definition ping_step :: "ping_event \<Rightarrow> ping_state \<Rightarrow> ping_state option" where
  "ping_step e p = (case e of
     Acquire key \<Rightarrow> map_option snd (acquirePing key p)
   | Release key c \<Rightarrow> Some (releasePing key c p)
   | CancelPoll key \<Rightarrow> cancelPing key p)"

definition empty_ping :: ping_state where
  "empty_ping = \<lparr>pg_wait = Map.empty, pg_closed = [], pg_next = 0, pg_notified = []\<rparr>"

text \<open>The registries the server can be in: requests start, end and cancel polls in any order.\<close>

inductive ping_reachable :: "ping_state \<Rightarrow> bool" where
  start: "ping_reachable empty_ping"
| step: "ping_reachable p \<Longrightarrow> ping_step e p = Some q \<Longrightarrow> ping_reachable q"

inductive_cases ping_reachableE: "ping_reachable p"

text \<open>A registered channel is open and held under one key only.\<close>

definition registry_ok :: "ping_state \<Rightarrow> bool" where
  "registry_ok p \<longleftrightarrow> (\<forall>k c. pg_wait p k = Some c \<longrightarrow> c < pg_next p \<and> c \<notin> set (pg_closed p)) \<and>
     (\<forall>c\<in>set (pg_closed p). c < pg_next p) \<and>
     (\<forall>k l c. pg_wait p k = Some c \<longrightarrow> pg_wait p l = Some c \<longrightarrow> k = l)"

lemma registry_okI:
  assumes "\<And>k c. pg_wait p k = Some c \<Longrightarrow> c < pg_next p \<and> c \<notin> set (pg_closed p)"
    and "\<And>c. c \<in> set (pg_closed p) \<Longrightarrow> c < pg_next p"
    and "\<And>k l c. pg_wait p k = Some c \<Longrightarrow> pg_wait p l = Some c \<Longrightarrow> k = l"
  shows "registry_ok p"
  using assms unfolding registry_ok_def by blast

lemma registry_okD:
  assumes "registry_ok p"
  shows "pg_wait p k = Some c \<Longrightarrow> c < pg_next p" "pg_wait p k = Some c \<Longrightarrow> c \<notin> set (pg_closed p)"
    "c \<in> set (pg_closed p) \<Longrightarrow> c < pg_next p" "pg_wait p k = Some c \<Longrightarrow> pg_wait p l = Some c \<Longrightarrow> k = l"
  using assms unfolding registry_ok_def by blast+

lemma close_ok:
  assumes "registry_ok p" "pg_wait p key = Some c"
  shows "close_channel c p = Some (p\<lparr>pg_closed := c # pg_closed p\<rparr>)"
  using registry_okD(2) [OF assms] by (simp add: close_channel_def)

lemma registry_ok_forget:
  assumes "registry_ok p" shows "registry_ok (p\<lparr>pg_wait := (pg_wait p)(key := None)\<rparr>)"
  by (rule registry_okI) (use registry_okD [OF assms] in \<open>simp_all split: if_splits\<close>)

lemma registry_ok_close:
  assumes "registry_ok p" "pg_wait p key = Some c"
  shows "registry_ok (p\<lparr>pg_closed := c # pg_closed p, pg_wait := (pg_wait p)(key := None)\<rparr>)"
proof (rule registry_okI, goal_cases)
  case (1 k c')
  then have "pg_wait p k = Some c'" "k \<noteq> key" by (simp_all split: if_splits)
  then show ?case using registry_okD [OF assms(1)] assms(2) by auto
next
  case (2 c')
  then show ?case using registry_okD [OF assms(1)] assms(2) by auto
next
  case (3 k l c')
  then show ?case using registry_okD(4) [OF assms(1), of k c' l] by (simp split: if_splits)
qed

lemma registry_ok_new:
  assumes "registry_ok p"
  shows "registry_ok (p\<lparr>pg_wait := (pg_wait p)(key \<mapsto> pg_next p), pg_next := pg_next p + 1\<rparr>)"
proof (rule registry_okI, goal_cases)
  case (1 k c)
  show ?case
  proof (cases "k = key")
    case True
    then show ?thesis using 1 registry_okD(3) [OF assms, of "pg_next p"] by auto
  next
    case False
    then have "pg_wait p k = Some c" using 1 by simp
    then show ?thesis using registry_okD(1,2) [OF assms] by (simp add: less_SucI)
  qed
next
  case (2 c)
  then show ?case using registry_okD(3) [OF assms, of c] by simp
next
  case (3 k l c)
  have n: "pg_wait p j \<noteq> Some (pg_next p)" for j using registry_okD(1) [OF assms, of j] by blast
  show ?case using 3 registry_okD(4) [OF assms, of k c l] n by (auto split: if_splits)
qed

lemma acquire_eval:
  assumes "registry_ok p"
  shows "\<exists>q. acquirePing key p = Some (pg_next p, q) \<and> registry_ok q \<and> pg_wait q = (pg_wait p)(key \<mapsto> pg_next p) \<and>
    set (pg_closed q) = set (pg_closed p) \<union> set_option (pg_wait p key)"
proof (cases "pg_wait p key")
  case None
  then show ?thesis using registry_ok_new [OF assms, of key] by (simp add: acquirePing_def)
next
  case (Some c)
  let ?r = "p\<lparr>pg_closed := c # pg_closed p, pg_wait := (pg_wait p)(key := None)\<rparr>"
  have "registry_ok (?r\<lparr>pg_wait := (pg_wait ?r)(key \<mapsto> pg_next ?r), pg_next := pg_next ?r + 1\<rparr>)"
    by (rule registry_ok_new) (rule registry_ok_close [OF assms Some])
  then show ?thesis using Some close_ok [OF assms Some] by (simp add: acquirePing_def)
qed

lemma registry_ok_step:
  assumes "registry_ok p" shows "\<exists>q. ping_step e p = Some q \<and> registry_ok q"
proof (cases e)
  case (Acquire key)
  then show ?thesis using acquire_eval [OF assms, of key] by (auto simp: ping_step_def)
next
  case (Release key c)
  then show ?thesis using assms registry_ok_forget by (simp add: ping_step_def releasePing_def)
next
  case (CancelPoll key)
  show ?thesis
  proof (cases "pg_wait p key")
    case (Some c)
    then show ?thesis using CancelPoll close_ok [OF assms Some] registry_ok_close [OF assms Some]
      by (simp add: ping_step_def cancelPing_def)
  qed (use CancelPoll assms in \<open>simp add: ping_step_def cancelPing_def\<close>)
qed

lemma reachable_ok: "ping_reachable p \<Longrightarrow> registry_ok p"
proof (induction rule: ping_reachable.induct)
  case start
  then show ?case by (simp add: registry_ok_def empty_ping_def)
next
  case (step p e q)
  then show ?case using registry_ok_step [of p e] by auto
qed

text \<open>C38: the registry of held polls never closes a channel twice: in every state that requests can
  bring about by starting, ending and cancelling polls in any order, the next such step runs to
  its end. A new poll for a key ends the one it replaces and no other, and is itself open.\<close>

theorem ping_registry_safe:
  assumes "ping_reachable p"
  shows "\<exists>q. ping_step e p = Some q \<and> ping_reachable q \<and>
    (\<forall>key. e = Acquire key \<longrightarrow>
       (\<exists>c. pg_wait q key = Some c \<and> c \<notin> set (pg_closed q)) \<and>
       set (pg_closed q) = set (pg_closed p) \<union> set_option (pg_wait p key) \<and>
       (\<forall>k. k \<noteq> key \<longrightarrow> pg_wait q k = pg_wait p k))"
proof -
  obtain q where q: "ping_step e p = Some q" "registry_ok q" using registry_ok_step [OF reachable_ok [OF assms]] by blast
  moreover have "ping_reachable q" by (rule ping_reachable.step [OF assms q(1)])
  moreover have "(\<exists>c. pg_wait q key = Some c \<and> c \<notin> set (pg_closed q)) \<and>
       set (pg_closed q) = set (pg_closed p) \<union> set_option (pg_wait p key) \<and>
       (\<forall>k. k \<noteq> key \<longrightarrow> pg_wait q k = pg_wait p k)" if e: "e = Acquire key" for key
  proof -
    obtain r where r: "acquirePing key p = Some (pg_next p, r)" "registry_ok r"
      "pg_wait r = (pg_wait p)(key \<mapsto> pg_next p)" "set (pg_closed r) = set (pg_closed p) \<union> set_option (pg_wait p key)"
      using acquire_eval [OF reachable_ok [OF assms], of key] by blast
    have "q = r" using q(1) r(1) by (simp add: e ping_step_def)
    moreover have "pg_next p \<notin> set (pg_closed r)" using registry_okD(2) [OF r(2), of key "pg_next p"] r(3) by simp
    ultimately show ?thesis using r(3,4) by simp
  qed
  ultimately show ?thesis by blast
qed

text \<open>Two polls of one device, one after the other.\<close>

theorem ping_registry_safe_witness:
  "\<exists>p q. ping_step (Acquire ''u|d'') empty_ping = Some p \<and> ping_step (Acquire ''u|d'') p = Some q \<and>
     pg_closed q = [0] \<and> pg_wait q ''u|d'' = Some 1"
proof -
  obtain p where p: "ping_step (Acquire ''u|d'') empty_ping = Some p" "ping_reachable p"
    using ping_registry_safe [OF ping_reachable.start, of "Acquire ''u|d''"] by blast
  obtain q where q: "ping_step (Acquire ''u|d'') p = Some q"
    using ping_registry_safe [OF p(2), of "Acquire ''u|d''"] by blast
  have "p = empty_ping\<lparr>pg_wait := [''u|d'' \<mapsto> 0], pg_next := 1\<rparr>"
    using p(1) by (simp add: ping_step_def acquirePing_def empty_ping_def)
  then have "q = empty_ping\<lparr>pg_wait := [''u|d'' \<mapsto> 1], pg_next := 2, pg_closed := [0]\<rparr>"
    using q by (simp add: ping_step_def acquirePing_def close_channel_def empty_ping_def numeral_2_eq_2)
  then show ?thesis using p(1) q by (simp add: empty_ping_def)
qed


section \<open>The throttle and the length of a poll\<close>

lemma map_of_update: "map_of (AList.update k v xs) = (map_of xs)(k \<mapsto> v)"
  by (rule update_conv')

text \<open>A notification is not repeated within 30 seconds. After a device was told about a folder
  at one position, the same position is announced again exactly when the interval has passed;
  a new position of the folder is announced at once.\<close>

theorem shouldNotify_throttles:
  assumes "shouldNotify device folder seq now p = (True, q)"
  shows "fst (shouldNotify device folder seq later q) = (later - now \<ge> pingNotifyInterval) \<and>
    (\<forall>seq'. seq' \<noteq> seq \<longrightarrow> fst (shouldNotify device folder seq' later q))"
proof -
  let ?key = "device @ ''|'' @ i64toa folder"
  have "map_of (pg_notified q) ?key = Some (seq, now)"
    using assms by (auto simp: shouldNotify_def Let_def map_of_update split: if_splits)
  then show ?thesis by (auto simp: shouldNotify_def Let_def)
qed

theorem shouldNotify_throttles_witness:
  "\<exists>q. shouldNotify ''u|d'' 1 7 0 empty_ping = (True, q) \<and> \<not> fst (shouldNotify ''u|d'' 1 7 (29 * second) q) \<and>
     fst (shouldNotify ''u|d'' 1 7 (30 * second) q)"
proof -
  obtain q where q: "shouldNotify ''u|d'' 1 7 0 empty_ping = (True, q)"
    by (simp add: shouldNotify_def empty_ping_def Let_def)
  show ?thesis
    using shouldNotify_throttles [OF q, of "29 * second"] shouldNotify_throttles [OF q, of "30 * second"] q
    by (simp add: pingNotifyInterval_def)
qed

lemma pingScan_sound:
  assumes "pingScan u v now ts s p = (True, s', p')" "st_faults s = []"
  shows "\<exists>pf\<in>set ts. \<exists>st. find (\<lambda>r. state_key r = (u, v, pf_id pf)) (tb_states (st_db s)) = Some st \<and>
    changes_after (pf_id pf) (ss_seq st) (st_db s) \<noteq> []"
  using assms
proof (induction ts arbitrary: p)
  case (Cons pf ts)
  show ?case
  proof (cases "find (\<lambda>r. state_key r = (u, v, pf_id pf)) (tb_states (st_db s))")
    case None
    then show ?thesis using Cons by (simp add: GetSyncState_eval)
  next
    case (Some st)
    show ?thesis
    proof (cases "changes_after (pf_id pf) (ss_seq st) (st_db s) = []")
      case True
      then show ?thesis using Some Cons
        by (simp add: GetSyncState_eval HasChangesAfter_def getAll_def sql_no_fault count_after_changes)
    next
      case False
      then show ?thesis using Some by auto
    qed
  qed
qed simp

fun wake_time :: "wake \<Rightarrow> int option" where
  "wake_time (Tick s p now) = Some now"
| "wake_time _ = None"

lemma pingLoop_ends:
  "\<exists>w\<in>set wakes. (case wake_time w of None \<Rightarrow> True | Some t \<Rightarrow> deadline \<le> t) \<Longrightarrow>
   \<exists>st s' p'. pingLoop u v ts deadline wakes now s p = Some (st, s', p') \<and> (st = 1 \<or> st = 2)"
proof (induction wakes arbitrary: now s p)
  case (Cons w ws)
  obtain found s1 p1 where sc: "pingScan u v now ts s p = (found, s1, p1)" by (metis prod.exhaust)
  show ?case
  proof (cases w)
    case (Tick s2 p2 now2)
    show ?thesis
    proof (cases "deadline \<le> now2")
      case True
      obtain f s3 p3 where "pingScan u v now2 ts s2 p2 = (f, s3, p3)" by (metis prod.exhaust)
      then have "\<exists>st s' p'. pingLoop u v ts deadline ws now2 s2 p2 = Some (st, s', p') \<and> (st = 1 \<or> st = 2)"
        using True by (cases ws) (simp_all add: Let_def)
      then show ?thesis by (simp add: sc Tick)
    next
      case False
      then have "\<exists>w\<in>set ws. (case wake_time w of None \<Rightarrow> True | Some t \<Rightarrow> deadline \<le> t)"
        using Cons.prems Tick by auto
      from Cons.IH [OF this, of now2 s2 p2] show ?thesis by (simp add: sc Tick)
    qed
  qed (simp_all add: sc)
qed simp

text \<open>A poll ends. However long the device asks the server to wait, after at most 60 wakes of
  two seconds the request has been answered, with status 1 (nothing new) or 2 (changes), and
  the channel of the poll is no longer registered.\<close>

theorem cmdPing_bounded:
  assumes "ping_reachable p" "pingCandidates user req s = (Inr cs, s')" "60 \<le> length wakes"
    and "\<forall>i<length wakes. \<forall>t. wake_time (wakes ! i) = Some t \<longrightarrow> now + 2 * second * (int i + 1) \<le> t"
  shows "\<exists>status t q. cmdPing user device req now wakes s p = Some (Inr (pingResponse status), t, q) \<and>
    (status = 1 \<or> status = 2) \<and> pg_wait q (us_id user @ ''|'' @ device) \<noteq> Some (pg_next p)"
proof -
  let ?key = "us_id user @ ''|'' @ device"
  obtain targets s1 where t: "pingTargets user cs s' = (targets, s1)" by fastforce
  obtain p1 where a: "acquirePing ?key p = Some (pg_next p, p1)"
    using acquire_eval [OF reachable_ok [OF assms(1)], of ?key] by blast
  have h: "heartbeat req \<le> 120" by (simp add: heartbeat_def Let_def maxPingHeartbeat_def)
  have len: "59 < length wakes" using assms(3) by simp
  have "case wake_time (wakes ! 59) of None \<Rightarrow> True | Some t \<Rightarrow> now + heartbeat req * second \<le> t"
    using assms(4) [rule_format, OF len] h by (force split: option.split)
  then have "\<exists>w\<in>set wakes. (case wake_time w of None \<Rightarrow> True | Some t \<Rightarrow> now + heartbeat req * second \<le> t)"
    using nth_mem [OF len] by blast
  then obtain st s2 p2 where l: "pingLoop (us_id user) device targets (now + heartbeat req * second) wakes now s1 p1 =
      Some (st, s2, p2)" "st = 1 \<or> st = 2"
    using pingLoop_ends by meson
  have "cmdPing user device req now wakes s p = Some (Inr (pingResponse st), s2, releasePing ?key (pg_next p) p2)"
    unfolding cmdPing_def assms(2) prod.case sum.case t Let_def a option.case l(1) ..
  moreover have "pg_wait (releasePing ?key (pg_next p) p2) ?key \<noteq> Some (pg_next p)"
    by (simp add: releasePing_def)
  ultimately show ?thesis using l(2) by blast
qed

theorem cmdPing_bounded_witness:
  "\<exists>status t q. cmdPing demo_user ''d'' (Some (wbN pagePing ''Ping'' [wbN pagePing ''Folders'' []])) 0
     (map (\<lambda>i. Tick demo_store empty_ping (2 * second * (int i + 1))) [0..<60]) demo_store empty_ping =
     Some (Inr (pingResponse status), t, q)"
proof -
  have c: "pingCandidates demo_user (Some (wbN pagePing ''Ping'' [wbN pagePing ''Folders'' []])) demo_store =
      (Inr [], demo_store)"
    by (simp add: pingCandidates_def Child_def ChildrenNamed_def wbN_def)
  show ?thesis
    using cmdPing_bounded [OF ping_reachable.start c,
        of "map (\<lambda>i. Tick demo_store empty_ping (2 * second * (int i + 1))) [0..<60]" 0 "''d''"]
    by (simp del: upt_rec_numeral upt.simps cong: map_cong) blast
qed

end
