(* ===== verification/EasServer.thy ===== *)
theory EasServer imports EasItems EasPing begin

text \<open>
  \<open>internal/eas/server.go\<close> and \<open>internal/httpx\<close>: who may use the endpoint. A request is
  authenticated against the throttle (\<open>AuthLimit\<close>), the accounts (\<open>StoreUsers\<close>) and the
  cache of verified passwords, and then dispatched. The hash functions SHA-256 and bcrypt are
  parameters. Times are nanoseconds.
\<close>

section \<open>The client\<close>

text \<open>What the code reads of a request: two headers, the socket address with its host part when it
  has a port, and the credentials of the \<open>Authorization\<close> header.\<close>

record request =
  rq_forwarded :: string
  rq_real_ip :: string
  rq_remote :: string
  rq_remote_host :: "string option"
  rq_basic :: "(string \<times> string) option"

(* src: internal/httpx/httpx.go 12-31 ClientIP *)
definition ClientIP :: "request \<Rightarrow> string" where
  "ClientIP r =
    (let first = trim_space (takeWhile (\<lambda>c. c \<noteq> CHR '','') (rq_forwarded r)); real = trim_space (rq_real_ip r) in
     if rq_forwarded r \<noteq> [] \<and> first \<noteq> [] then first
     else if real \<noteq> [] then real
     else (case rq_remote_host r of Some host \<Rightarrow> host | None \<Rightarrow> rq_remote r))"

text \<open>\<open>strings.LastIndexAny\<close> of a backslash or a slash, and what follows it.\<close>

definition after_domain :: "string \<Rightarrow> string" where
  "after_domain u = rev (takeWhile (\<lambda>c. c \<noteq> CHR 0x5C \<and> c \<noteq> CHR ''/'') (rev u))"

(* src: internal/eas/server.go 386-397 basicAuth *)
definition basicAuth :: "request \<Rightarrow> (string \<times> string) option" where
  "basicAuth r = (case rq_basic r of None \<Rightarrow> None | Some (user, pass) \<Rightarrow> Some (after_domain user, pass))"

section \<open>Passwords\<close>

(* src: internal/eas/server.go 75-79 authCacheEntry *)
record auth_entry =
  ae_digest :: string
  ae_hash :: string
  ae_expires :: int

type_synonym auth_cache = "(string \<times> auth_entry) list"

(* src: internal/eas/server.go 70-73 authCacheTTL *)
definition authCacheTTL :: int where
  "authCacheTTL = 5 * minute"

(* src: internal/eas/server.go 81-117 Server.checkPassword *)
definition checkPassword :: "(string \<Rightarrow> string) \<Rightarrow> (string \<Rightarrow> string \<Rightarrow> bool) \<Rightarrow> int \<Rightarrow> user \<Rightarrow> string \<Rightarrow> auth_cache \<Rightarrow>
    bool \<times> auth_cache" where
  "checkPassword sha bcrypt now user password cache =
    (let digest = sha password;
         cached = (case map_of cache (us_id user) of
            None \<Rightarrow> False
          | Some e \<Rightarrow> now < ae_expires e \<and> ae_hash e = us_hash user \<and> ae_digest e = digest) in
     if cached then (True, cache)
     else if \<not> bcrypt (us_hash user) password then (False, cache)
     else (let kept = (if length cache > 256
              then filter (\<lambda>(k, e). \<not> (now > ae_expires e \<or> ae_hash e \<noteq> us_hash user)) cache else cache)
           in (True, AList.update (us_id user)
                 \<lparr>ae_digest = digest, ae_hash = us_hash user, ae_expires = now + authCacheTTL\<rparr> kept)))"

section \<open>Authentication\<close>

definition unauthorized :: http where
  "unauthorized = (401, [(''WWW-Authenticate'', ''Basic realm=\"lifemail\"'')], ''unauthorized'' @ [CHR 0x0A])"

text \<open>\<open>Retry-After\<close> in whole seconds, rounded up.\<close>

(* src: internal/eas/server.go 149-149 Server.ServeHTTP *)
definition retryAfter :: "int \<Rightarrow> int" where
  "retryAfter retry = (retry + second - 1) div second"

(* src: internal/eas/server.go 147-147 Server.ServeHTTP *)
definition limitKey :: "request \<Rightarrow> string \<Rightarrow> string" where
  "limitKey r email = ''eas|'' @ ClientIP r @ ''|'' @ to_lower email"

text \<open>The throttle and the cache of the server.\<close>

record auth_state =
  as_limiter :: "limiter option"
  as_cache :: auth_cache

(* src: internal/eas/server.go 139-170 Server.ServeHTTP *)
definition authenticate :: "(string \<Rightarrow> string) \<Rightarrow> (string \<Rightarrow> string \<Rightarrow> bool) \<Rightarrow> int \<Rightarrow> request \<Rightarrow> auth_state \<Rightarrow> store \<Rightarrow>
    (http + user) \<times> auth_state \<times> store" where
  "authenticate sha bcrypt now r a s = (case basicAuth r of
     None \<Rightarrow> (Inl unauthorized, a, s)
   | Some (email, password) \<Rightarrow>
      (let key = limitKey r email; ((locked, retry), lim) = Locked now key (as_limiter a); a1 = a\<lparr>as_limiter := lim\<rparr> in
       if locked then (Inl (401, (''Retry-After'', itoa (retryAfter retry)) # fst (snd unauthorized),
                            snd (snd unauthorized)), a1, s)
       else (case UserByLogin email s of
          (Inl _, s') \<Rightarrow> (Inl unauthorized, a1\<lparr>as_limiter := snd (Fail now key lim)\<rparr>, s')
        | (Inr user, s') \<Rightarrow>
           (let (ok, cache) = checkPassword sha bcrypt now user password (as_cache a1); a2 = a1\<lparr>as_cache := cache\<rparr> in
            if \<not> ok then (Inl unauthorized, a2\<lparr>as_limiter := snd (Fail now key lim)\<rparr>, s')
            else (Inr user, a2\<lparr>as_limiter := Reset key lim\<rparr>, s')))))"

(* src: internal/eas/server.go 291-307 emptySendResponse *)
definition emptySendResponse :: "string \<Rightarrow> string \<Rightarrow> bool" where
  "emptySendResponse cmd protocol =
    (if cmd \<notin> {''SendMail'', ''SmartReply'', ''SmartForward''} then False
     else (let major = (case index_byte protocol (CHR ''.'') of
              Some i \<Rightarrow> if i > 0 then fst (parse_int64 (take i protocol)) else fst (parse_int64 protocol)
            | None \<Rightarrow> fst (parse_int64 protocol))
           in major \<ge> 14))"


section \<open>Properties\<close>

text \<open>Every cached entry stands for a comparison that succeeded.\<close>

definition cache_ok :: "(string \<Rightarrow> string) \<Rightarrow> (string \<Rightarrow> string \<Rightarrow> bool) \<Rightarrow> auth_cache \<Rightarrow> bool" where
  "cache_ok sha bcrypt cache \<longleftrightarrow> (\<forall>k e. map_of cache k = Some e \<longrightarrow>
     (\<exists>p. ae_digest e = sha p \<and> bcrypt (ae_hash e) p)) \<and> distinct (map fst cache)"

lemma cache_ok_update:
  "cache_ok sha bcrypt c \<Longrightarrow> bcrypt h p \<Longrightarrow>
   cache_ok sha bcrypt (AList.update k \<lparr>ae_digest = sha p, ae_hash = h, ae_expires = t\<rparr> c)"
  by (auto simp: cache_ok_def update_conv' distinct_update split: if_splits)

lemma cache_ok_filter: "cache_ok sha bcrypt c \<Longrightarrow> cache_ok sha bcrypt (filter P c)"
  by (auto simp: cache_ok_def map_of_filter_distinct distinct_filter_fst split: option.splits if_splits)

lemma checkPassword_bcrypt:
  assumes "inj sha" "cache_ok sha bcrypt cache"
  shows "fst (checkPassword sha bcrypt now user password cache) = bcrypt (us_hash user) password"
proof -
  have "bcrypt (us_hash user) password"
    if e: "map_of cache (us_id user) = Some e" "ae_hash e = us_hash user" "ae_digest e = sha password" for e
  proof -
    obtain p where "ae_digest e = sha p" "bcrypt (ae_hash e) p" using assms(2) e(1) unfolding cache_ok_def by blast
    then show ?thesis using e(2,3) assms(1) by (auto dest: injD)
  qed
  then show ?thesis by (auto simp: checkPassword_def Let_def split: option.splits)
qed

lemma checkPassword_cache:
  assumes "cache_ok sha bcrypt cache"
  shows "cache_ok sha bcrypt (snd (checkPassword sha bcrypt now user password cache))"
  using assms cache_ok_update cache_ok_filter by (simp add: checkPassword_def Let_def split: option.split)

text \<open>C4: the cache of verified passwords changes nothing but the cost. Provided SHA-256 has no
  collisions, a password check with the cache gives exactly the result of bcrypt on the hash
  the account has now, whatever was cached, for whom and when; in particular a changed
  password is effective at once. The cache keeps holding only verified passwords.\<close>

theorem checkPassword_equiv:
  assumes "inj sha" "cache_ok sha bcrypt cache"
  shows "fst (checkPassword sha bcrypt now user password cache) = bcrypt (us_hash user) password \<and>
    cache_ok sha bcrypt (snd (checkPassword sha bcrypt now user password cache))"
  using checkPassword_bcrypt [OF assms] checkPassword_cache [OF assms(2)] by blast

text \<open>The hash of the account was changed after the old password had been cached.\<close>

theorem checkPassword_equiv_witness:
  "\<not> fst (checkPassword (\<lambda>p. p) (\<lambda>h p. h = p) 1 (demo_user\<lparr>us_hash := ''new''\<rparr>) ''old''
     [(''u'', \<lparr>ae_digest = ''old'', ae_hash = ''old'', ae_expires = 100\<rparr>)])"
proof -
  have "cache_ok (\<lambda>p. p) (\<lambda>h p. h = p) [(''u'', \<lparr>ae_digest = ''old'', ae_hash = ''old'', ae_expires = 100\<rparr>)]"
    by (simp add: cache_ok_def)
  from checkPassword_equiv [OF _ this, of 1 "demo_user\<lparr>us_hash := ''new''\<rparr>" "''old''"]
  show ?thesis by (simp add: inj_def)
qed

text \<open>C5: who gets in. A request is dispatched for an account only if the throttle does not lock
  its key, the login names that account, and the password matches the hash of the account;
  then the failures of the key are forgotten. A locked key is refused before any table or
  password is looked at, even with the right password.\<close>

theorem authenticate_sound:
  assumes "inj sha" "cache_ok sha bcrypt (as_cache a)" "basicAuth r = Some (email, password)"
  shows "case authenticate sha bcrypt now r a s of
      (Inr user, a', s') \<Rightarrow> \<not> fst (fst (Locked now (limitKey r email) (as_limiter a))) \<and>
        UserByLogin email s = (Inr user, s') \<and> bcrypt (us_hash user) password \<and>
        cache_ok sha bcrypt (as_cache a') \<and>
        (\<forall>l. as_limiter a' = Some l \<longrightarrow> entry_of l (limitKey r email) = None)
    | (Inl h, a', s') \<Rightarrow> fst h = 401 \<and> cache_ok sha bcrypt (as_cache a') \<and>
        (fst (fst (Locked now (limitKey r email) (as_limiter a))) \<longrightarrow> s' = s \<and> as_cache a' = as_cache a)"
proof -
  let ?key = "limitKey r email"
  obtain locked retry lim where L: "Locked now ?key (as_limiter a) = ((locked, retry), lim)" by (metis prod.exhaust)
  have k: "?key \<noteq> []" by (simp add: limitKey_def)
  show ?thesis
  proof (cases locked)
    case True
    then show ?thesis using assms L by (simp add: authenticate_def unauthorized_def)
  next
    case False
    obtain q s' where U: "UserByLogin email s = (q, s')" by fastforce
    show ?thesis
    proof (cases q)
      case (Inl e)
      then show ?thesis using assms L U False by (simp add: authenticate_def unauthorized_def Let_def)
    next
      case (Inr user)
      obtain ok c where C: "checkPassword sha bcrypt now user password (as_cache a) = (ok, c)" by fastforce
      have ok: "ok = bcrypt (us_hash user) password" "cache_ok sha bcrypt c"
        using checkPassword_bcrypt [OF assms(1,2), of now user password] checkPassword_cache [OF assms(2), of now user password] C
        by simp_all
      have "entry_of l ?key = None" if "Reset ?key lim = Some l" for l
        using that k by (auto simp: Reset_def split: option.splits)
      then show ?thesis using assms(3) L U Inr False C ok
        by (simp add: authenticate_def unauthorized_def Let_def)
    qed
  qed
qed


text \<open>The right password for a locked key.\<close>

theorem authenticate_sound_witness:
  "\<exists>h a' s'. authenticate (\<lambda>p. p) (\<lambda>h p. h = p) 0
     \<lparr>rq_forwarded = [], rq_real_ip = ''1.2.3.4'', rq_remote = [], rq_remote_host = None, rq_basic = Some (''u@x'', [])\<rparr>
     \<lparr>as_limiter = Some \<lparr>lim_max = 5, lim_window = 10, lim_lockout = 10, lim_entries =
        [(limitKey \<lparr>rq_forwarded = [], rq_real_ip = ''1.2.3.4'', rq_remote = [], rq_remote_host = None,
             rq_basic = Some (''u@x'', [])\<rparr> ''u@x'', \<lparr>le_failures = 0, le_first = 0, le_locked_to = Some 9\<rparr>)]\<rparr>, as_cache = []\<rparr>
     demo_store = (Inl h, a', s') \<and> fst h = 401 \<and> s' = demo_store"
proof -
  let ?r = "\<lparr>rq_forwarded = [], rq_real_ip = ''1.2.3.4'', rq_remote = [], rq_remote_host = None, rq_basic = Some (''u@x'', [])\<rparr>"
  let ?a = "\<lparr>as_limiter = Some \<lparr>lim_max = 5, lim_window = 10, lim_lockout = 10, lim_entries =
        [(limitKey ?r ''u@x'', \<lparr>le_failures = 0, le_first = 0, le_locked_to = Some 9\<rparr>)]\<rparr>, as_cache = []\<rparr>"
  have b: "basicAuth ?r = Some (''u@x'', [])" by (simp add: basicAuth_def after_domain_def)
  have k: "limitKey ?r ''u@x'' \<noteq> []" by (simp add: limitKey_def)
  have l: "fst (fst (Locked 0 (limitKey ?r ''u@x'') (as_limiter ?a)))" using k by (simp add: Locked_def before_def)
  have c: "cache_ok (\<lambda>p. p) (\<lambda>h p. h = p) (as_cache ?a)" by (simp add: cache_ok_def)
  have i: "inj (\<lambda>p :: string. p)" by (simp add: inj_def)
  obtain q a' s' where e: "authenticate (\<lambda>p. p) (\<lambda>h p. h = p) 0 ?r ?a demo_store = (q, a', s')" by (metis prod.exhaust)
  show ?thesis
    using authenticate_sound [OF i c b, of 0 demo_store] l unfolding e by (cases q) simp_all
qed

end
