(* ===== verification/EasRoundtrip.thy ===== *)
theory EasRoundtrip imports EasData begin

text \<open>
  Rendering an item and reading the element back (\<open>internal/eas/appdata.go\<close>): contacts,
  the state and the MIME source of messages, and the truncation of bodies.
\<close>

section \<open>Children by name\<close>

lemma Child_wbN: "Child (Some (wbN p nm cs)) name = find (\<lambda>c. n_name c = name) cs"
  by (simp add: Child_def wbN_def)

lemma ChildText_wbN: "ChildText (Some (wbN p nm cs)) name =
    (case find (\<lambda>c. n_name c = name) cs of None \<Rightarrow> [] | Some c \<Rightarrow> n_text c)"
  by (simp add: ChildText_def Child_wbN)

lemma name_wb [simp]: "n_name (wbN p nm cs) = nm" "n_name (wbT p nm t) = nm" "n_text (wbT p nm t) = t"
  "n_text (wbN p nm cs) = []" "n_children (wbN p nm cs) = cs" "n_children (wbT p nm t) = []"
  by (simp_all add: wbN_def wbT_def)

lemma find_fields:
  assumes "distinct (map fst fs)" "(n, v) \<in> set fs"
  shows "find (\<lambda>c. n_name c = n) (map (\<lambda>(n, v). wbT q n v) (filter (\<lambda>(n, v). v \<noteq> []) fs)) =
    (if v \<noteq> [] then Some (wbT q n v) else None)"
  using assms
proof (induction fs)
  case (Cons f fs)
  obtain m w where f: "f = (m, w)" by (cases f)
  have none: "find (\<lambda>c. n_name c = n) (map (\<lambda>(n, v). wbT q n v) (filter (\<lambda>(n, v). v \<noteq> []) fs)) = None"
    if "n \<notin> fst ` set fs"
    using that by (force simp: find_None_iff2)
  show ?case
  proof (cases "m = n")
    case True
    then have "n \<notin> fst ` set fs" "w = v" using Cons.prems by (auto simp: f image_iff)
    then show ?thesis using none True by (simp add: f)
  next
    case False
    then have "(n, v) \<in> set fs" using Cons.prems by (simp add: f)
    then show ?thesis using Cons False by (simp add: f)
  qed
qed simp

lemma find_fields_None:
  "n \<notin> fst ` set fs \<Longrightarrow> find (\<lambda>c. n_name c = n) (map (\<lambda>(n, v). wbT q n v) (filter (\<lambda>(n, v). v \<noteq> []) fs)) = None"
  by (force simp: find_None_iff2)

section \<open>Contacts\<close>

lemma contact_names_distinct: "distinct (map fst (contactFields c))"
  by (simp add: contactFields_def)

lemma contact_child:
  assumes "(n, v) \<in> set (contactFields c)"
  shows "ChildText (Some (contactAppData c)) n = v"
proof -
  have "''Body'' \<notin> fst ` set (contactFields c)" by (simp add: contactFields_def)
  then have "n \<noteq> ''Body''" using assms by force
  then show ?thesis
    unfolding contactAppData_def ChildText_wbN find_append find_fields [OF contact_names_distinct assms]
    by (simp add: textBody_def)
qed

lemma contact_body_child:
  "Child (Some (contactAppData c)) ''Body'' = (if co_body c \<noteq> [] then Some (textBody (co_body c)) else None)"
proof -
  have "''Body'' \<notin> fst ` set (contactFields c)" by (simp add: contactFields_def)
  then show ?thesis
    unfolding contactAppData_def Child_wbN find_append by (simp add: find_fields_None textBody_def)
qed

lemma bodyText_textBody: "bodyText (textBody b) = b"
  by (simp add: bodyText_def textBody_def ChildText_wbN)

text \<open>A contact survives the trip to a device and back: reading the rendered element gives
  every field of the contact, when it has a name to file it under; the ids, the owner and the
  deletion mark are not part of the element. A contact without one gets first and last name.\<close>

theorem contact_roundtrip:
  "parseContactAppData (Some (contactAppData c)) =
     c\<lparr>co_id := 0, co_user := [], co_folder := 0, co_deleted := False,
       co_file_as := (if co_file_as c = [] then trim_space (co_first c @ '' '' @ co_last c) else co_file_as c)\<rparr>"
proof -
  have t: "ChildText (Some (contactAppData c)) n = v" if "(n, v) \<in> set (contactFields c)" for n v
    using that by (rule contact_child)
  have fields:
    "ChildText (Some (contactAppData c)) ''FirstName'' = co_first c"
    "ChildText (Some (contactAppData c)) ''LastName'' = co_last c"
    "ChildText (Some (contactAppData c)) ''MiddleName'' = co_middle c"
    "ChildText (Some (contactAppData c)) ''FileAs'' = co_file_as c"
    "ChildText (Some (contactAppData c)) ''CompanyName'' = co_company c"
    "ChildText (Some (contactAppData c)) ''Department'' = co_department c"
    "ChildText (Some (contactAppData c)) ''JobTitle'' = co_job c"
    "ChildText (Some (contactAppData c)) ''Email1Address'' = co_email1 c"
    "ChildText (Some (contactAppData c)) ''Email2Address'' = co_email2 c"
    "ChildText (Some (contactAppData c)) ''Email3Address'' = co_email3 c"
    "ChildText (Some (contactAppData c)) ''HomePhoneNumber'' = co_home_phone c"
    "ChildText (Some (contactAppData c)) ''Home2PhoneNumber'' = co_home2_phone c"
    "ChildText (Some (contactAppData c)) ''MobilePhoneNumber'' = co_mobile c"
    "ChildText (Some (contactAppData c)) ''BusinessPhoneNumber'' = co_business_phone c"
    "ChildText (Some (contactAppData c)) ''BusinessFaxNumber'' = co_business_fax c"
    "ChildText (Some (contactAppData c)) ''HomeAddressStreet'' = co_home_street c"
    "ChildText (Some (contactAppData c)) ''HomeAddressCity'' = co_home_city c"
    "ChildText (Some (contactAppData c)) ''HomeAddressState'' = co_home_state c"
    "ChildText (Some (contactAppData c)) ''HomeAddressPostalCode'' = co_home_postal c"
    "ChildText (Some (contactAppData c)) ''HomeAddressCountry'' = co_home_country c"
    "ChildText (Some (contactAppData c)) ''BusinessAddressStreet'' = co_business_street c"
    "ChildText (Some (contactAppData c)) ''BusinessAddressCity'' = co_business_city c"
    "ChildText (Some (contactAppData c)) ''BusinessAddressState'' = co_business_state c"
    "ChildText (Some (contactAppData c)) ''BusinessAddressPostalCode'' = co_business_postal c"
    "ChildText (Some (contactAppData c)) ''BusinessAddressCountry'' = co_business_country c"
    by (rule t, simp add: contactFields_def)+
  have "parseContactAppData (Some (contactAppData c)) =
     (let d = c\<lparr>co_id := 0, co_user := [], co_folder := 0, co_deleted := False\<rparr>
      in if co_file_as d = [] then d\<lparr>co_file_as := trim_space (co_first d @ '' '' @ co_last d)\<rparr> else d)"
    unfolding parseContactAppData_def Let_def fields contact_body_child
    by (simp add: zero_contact_def bodyText_textBody)
  then show ?thesis by (simp add: Let_def)
qed

section \<open>Base64\<close>

lemma b64_val_char: "n < 64 \<Longrightarrow> b64_val (b64_char n) = Some n \<and> b64_char n \<noteq> CHR ''='' \<and>
    b64_char n \<noteq> CHR 0x0D \<and> b64_char n \<noteq> CHR 0x0A"
proof -
  have "list_all (\<lambda>n. b64_val (b64_char n) = Some n \<and> b64_char n \<noteq> CHR ''='' \<and>
    b64_char n \<noteq> CHR 0x0D \<and> b64_char n \<noteq> CHR 0x0A) [0..<64]" by code_simp
  then show "n < 64 \<Longrightarrow> ?thesis" by (simp add: list_all_iff)
qed

lemmas b64_chars = b64_val_char [THEN conjunct1] b64_val_char [THEN conjunct2, THEN conjunct1]

lemma of_char_lt: "(of_char c :: nat) < 256"
proof -
  have "(of_char c :: nat) mod 256 < 256" by simp
  then show ?thesis by simp
qed

text \<open>The arithmetic of the three group sizes.\<close>

lemma group1:
  fixes n :: nat assumes "n < 256"
  shows "n div 4 < 64" "n mod 4 * 16 < 64" "(n div 4 * 64 + n mod 4 * 16) div 16 = n"
proof -
  show "n div 4 < 64" using assms by (simp add: div_less_iff_less_mult)
  have "n mod 4 < 4" by simp
  then show "n mod 4 * 16 < 64" by linarith
  have "n div 4 * 64 + n mod 4 * 16 = n * 16" using div_mult_mod_eq [of n 4] by linarith
  then show "(n div 4 * 64 + n mod 4 * 16) div 16 = n" by simp
qed

lemma regroup: "a = d \<Longrightarrow> d * 16 + c = n \<Longrightarrow> a * 64 + c * 4 = n * (4::nat)"
  by auto

lemma group2:
  fixes n :: nat assumes "n < 65536"
  shows "n div 1024 < 64" "n div 16 mod 64 < 64" "n mod 16 * 4 < 64"
    "((n div 1024 * 64 + n div 16 mod 64) * 64 + n mod 16 * 4) = n * 4"
proof -
  show "n div 1024 < 64" using assms by (simp add: div_less_iff_less_mult)
  show "n div 16 mod 64 < 64" by simp
  have m: "n mod 16 < 16" by simp
  then show "n mod 16 * 4 < 64" by linarith
  have "n div 1024 = n div 16 div 64" by (simp flip: div_mult2_eq)
  then have "n div 1024 * 64 + n div 16 mod 64 = n div 16" by (simp only: div_mult_mod_eq)
  then show "((n div 1024 * 64 + n div 16 mod 64) * 64 + n mod 16 * 4) = n * 4"
    by (rule regroup) (rule div_mult_mod_eq)
qed

lemma group3:
  fixes n :: nat assumes "n < 16777216"
  shows "n div 262144 < 64" "n div 4096 mod 64 < 64" "n div 64 mod 64 < 64" "n mod 64 < 64"
    "((n div 262144 * 64 + n div 4096 mod 64) * 64 + n div 64 mod 64) * 64 + n mod 64 = n"
proof -
  show "n div 262144 < 64" using assms by (simp add: div_less_iff_less_mult)
  show "n div 4096 mod 64 < 64" "n div 64 mod 64 < 64" "n mod 64 < 64" by simp_all
  have "n div 262144 = n div 4096 div 64" "n div 4096 = n div 64 div 64" by (simp_all flip: div_mult2_eq)
  then have "n div 262144 * 64 + n div 4096 mod 64 = n div 4096"
    "n div 4096 * 64 + n div 64 mod 64 = n div 64" by (simp_all only: div_mult_mod_eq)
  then show "((n div 262144 * 64 + n div 4096 mod 64) * 64 + n div 64 mod 64) * 64 + n mod 64 = n"
    by (simp only: div_mult_mod_eq)
qed

lemma bytes2:
  fixes a b :: nat assumes "a < 256" "b < 256"
  shows "a * 256 + b < 65536" "(a * 256 + b) * 4 div 1024 = a" "(a * 256 + b) * 4 div 4 mod 256 = b"
proof -
  show "a * 256 + b < 65536" using assms by simp
  have "(a * 256 + b) * 4 div 1024 = (a * 256 + b) div 256" by simp
  then show "(a * 256 + b) * 4 div 1024 = a" using assms by simp
  show "(a * 256 + b) * 4 div 4 mod 256 = b" using assms by simp
qed

lemma bytes3:
  fixes a b c :: nat assumes "a < 256" "b < 256" "c < 256"
  shows "(a * 256 + b) * 256 + c < 16777216" "((a * 256 + b) * 256 + c) div 65536 = a"
    "((a * 256 + b) * 256 + c) div 256 mod 256 = b" "((a * 256 + b) * 256 + c) mod 256 = c"
proof -
  let ?n = "(a * 256 + b) * 256 + c"
  show "?n < 16777216" using assms by simp
  have d: "?n div 256 = a * 256 + b" using assms(3) by simp
  have "?n div 65536 = ?n div 256 div 256" by (simp flip: div_mult2_eq)
  then show "?n div 65536 = a" unfolding d using assms(2) by simp
  show "?n div 256 mod 256 = b" unfolding d using assms(2) by simp
  show "?n mod 256 = c" using assms(3) by (simp only: mod_mult_self3 mod_less)
qed

lemma b64_groups_encode: "b64_groups (b64_encode s) = Some s"
proof (induction s rule: b64_encode.induct)
  case (2 a)
  note g = group1 [OF of_char_lt [of a]]
  show ?case unfolding b64_encode.simps Let_def
    by (simp only: b64_groups.simps b64_chars [OF g(1)] b64_chars [OF g(2)] g(3) option.case prod.case
        simp_thms if_True char_of_char)
next
  case (3 a b)
  note l = bytes2 [OF of_char_lt [of a] of_char_lt [of b]]
  note g = group2 [OF l(1)]
  show ?case unfolding b64_encode.simps Let_def
    by (simp only: b64_groups.simps b64_chars [OF g(1)] b64_chars [OF g(2)] b64_chars [OF g(3)] g(4) l
        option.case prod.case simp_thms if_True if_False char_of_char)
next
  case (4 a b c r)
  note l = bytes3 [OF of_char_lt [of a] of_char_lt [of b] of_char_lt [of c]]
  note g = group3 [OF l(1)]
  show ?case unfolding b64_encode.simps Let_def append.simps
    by (simp only: b64_groups.simps b64_chars [OF g(1)] b64_chars [OF g(2)] b64_chars [OF g(3)]
        b64_chars [OF g(4)] g(5) l 4 option.case prod.case simp_thms if_True if_False char_of_char Let_def)
qed simp

lemma b64_char_mem: "n < 64 \<Longrightarrow> b64_char n \<in> set b64_alphabet"
  unfolding b64_char_def by (rule nth_mem) (simp add: b64_alphabet_def)

lemma b64_chars_plain:
  "c \<in> set (b64_encode s) \<Longrightarrow> c \<in> set b64_alphabet \<or> c = CHR ''=''"
proof (induction s rule: b64_encode.induct)
  case (2 a)
  note g = group1 [OF of_char_lt [of a]]
  show ?case using 2 g by (auto simp: Let_def b64_char_mem)
next
  case (3 a b)
  note g = group2 [OF bytes2(1) [OF of_char_lt [of a] of_char_lt [of b]]]
  show ?case using 3 g by (auto simp: Let_def b64_char_mem)
next
  case (4 a b c r)
  note g = group3 [OF bytes3(1) [OF of_char_lt [of a] of_char_lt [of b] of_char_lt [of c]]]
  show ?case using 4 g by (auto simp: Let_def b64_char_mem)
qed simp


lemma b64_decode_encode: "b64_decode (trim_space (b64_encode s)) = Some s"
proof -
  have "list_all (\<lambda>c. \<not> is_space c) (CHR ''='' # b64_alphabet)"
    by (simp add: b64_alphabet_def is_space_def)
  then have "\<forall>c\<in>set (b64_encode s). \<not> is_space c"
    using b64_chars_plain [of _ s] by (auto simp: list_all_iff)
  moreover from this have "filter (\<lambda>c. c \<noteq> CHR 0x0D \<and> c \<noteq> CHR 0x0A) (b64_encode s) = b64_encode s"
    by (auto simp: filter_id_conv is_space_def)
  ultimately show ?thesis by (simp add: trim_space_id b64_decode_def b64_groups_encode)
qed

section \<open>Messages\<close>

lemma find_if: "find P (if b then xs else ys) = (if b then find P xs else find P ys)"
  by simp

lemma name_bodies [simp]: "n_name (bodyNode m pref) = ''Body''" "n_name (bodyPartNode m pref) = ''BodyPart''"
  by (simp_all add: bodyNode_def bodyPartNode_def Let_def split_beta)

lemma name_head:
  "(n_name (if b then bodyPartNode m pref else bodyNode m pref) = name) \<longleftrightarrow>
   (if b then name = ''BodyPart'' else name = ''Body'')"
  by auto

lemmas email_find = emailAppData_def Child_wbN ChildText_wbN find_append find_if name_head

lemma email_texts:
  fixes E m as pref
  defines "ad \<equiv> Some (emailAppData E m as pref)"
  shows "ChildText ad ''Subject'' = ms_subject m" "ChildText ad ''To'' = ms_to m" "ChildText ad ''Cc'' = ms_cc m"
    "ChildText ad ''Importance'' = itoa (ms_importance m)" "ChildText ad ''Read'' = boolString (ms_read m)"
    "ChildText ad ''MessageClass'' = ms_class m"
  by (simp_all add: ad_def email_find)

lemma email_flag:
  "Child (Some (emailAppData E m as pref)) ''Flag'' = Some (wbN pageEmail ''Flag''
     ([wbT pageEmail ''FlagStatus'' (if ms_flagged m then ''2'' else ''0'')] @
      (if ms_flagged m then [wbT pageEmail ''FlagType'' ''FollowUp''] else [])))"
  by (simp add: email_find)

lemma email_body:
  "bp_part_type pref \<le> 0 \<Longrightarrow> Child (Some (emailAppData E m as pref)) ''Body'' = Some (bodyNode m pref)"
  by (simp add: email_find)

lemma when_text_same: "(\<And>v y. g (f v y) = g y) \<Longrightarrow> g (when_text ad name f x) = g x"
  by (simp add: when_text_def Let_def)

text \<open>What a device sends back unchanged changes nothing that matters: reading the rendered
  element of a message into any record gives it the read and flag marks of the message, its
  importance and every non-empty recipient, subject and class; and when the device asked for
  the whole MIME source, that source byte for byte.\<close>

theorem email_roundtrip:
  assumes "bp_part_type pref \<le> 0" "int64_range (ms_importance m)"
  shows "let m' = parseEmailAppData E (Some (emailAppData E m attachments pref)) m0 in
    ms_read m' = ms_read m \<and> ms_flagged m' = ms_flagged m \<and> ms_importance m' = ms_importance m \<and>
    ms_subject m' = (if ms_subject m \<noteq> [] then ms_subject m else ms_subject m0) \<and>
    ms_to m' = (if ms_to m \<noteq> [] then ms_to m else ms_to m0) \<and>
    ms_cc m' = (if ms_cc m \<noteq> [] then ms_cc m else ms_cc m0) \<and>
    ms_class m' = (if ms_class m \<noteq> [] then ms_class m else ms_class m0) \<and>
    (bp_type pref = 4 \<and> bp_truncation pref \<le> 0 \<and> ms_raw m \<noteq> [] \<longrightarrow> ms_raw m' = ms_raw m)"
proof -
  let ?ad = "Some (emailAppData E m attachments pref)"
  let ?m1 = "parseEmailFields E ?ad m0"
  have imp: "atoiDefault (itoa (ms_importance m)) 1 = ms_importance m"
    by (simp add: atoiDefault_def parse_int64_itoa [OF assms(2)])
  have rd: "boolString b \<noteq> []" "(boolString b = ''1'') = b" for b by (simp_all add: boolString_def)
  have f: "ms_read ?m1 = ms_read m" "ms_importance ?m1 = ms_importance m"
    "ms_subject ?m1 = (if ms_subject m \<noteq> [] then ms_subject m else ms_subject m0)"
    "ms_to ?m1 = (if ms_to m \<noteq> [] then ms_to m else ms_to m0)"
    "ms_cc ?m1 = (if ms_cc m \<noteq> [] then ms_cc m else ms_cc m0)"
    "ms_class ?m1 = (if ms_class m \<noteq> [] then ms_class m else ms_class m0)"
    by (simp_all add: parseEmailFields_def Let_def when_text_def email_texts rd imp split: option.split)
  define m2 where "m2 = ?m1\<lparr>ms_flagged := ms_flagged m\<rparr>"
  let ?body = "Some (bodyNode m pref)"
  let ?ty = "atoiDefault (ChildText ?body ''Type'') 1" and ?d = "ChildText ?body ''Data''"
  have fl: "ChildText (Some (wbN pageEmail ''Flag''
     ([wbT pageEmail ''FlagStatus'' (if ms_flagged m then ''2'' else ''0'')] @
      (if ms_flagged m then [wbT pageEmail ''FlagType'' ''FollowUp''] else [])))) ''FlagStatus'' =
      (if ms_flagged m then ''2'' else ''0'')"
    by (simp add: ChildText_wbN)
  have p: "parseEmailAppData E ?ad m0 =
      (if ?ty = 2 then m2\<lparr>ms_body_html := ?d\<rparr>
       else if ?ty = 4 then (case b64_decode (trim_space ?d) of Some raw \<Rightarrow> m2\<lparr>ms_raw := raw\<rparr> | None \<Rightarrow> m2)
       else m2\<lparr>ms_body_text := ?d\<rparr>)"
    unfolding parseEmailAppData_def Let_def email_flag email_body [OF assms(1)] option.case fl m2_def
    by (cases "ms_flagged m") (simp_all split: option.split)
  have raw: "?ty = 4 \<and> ?d = b64_encode (ms_raw m)"
    if "bp_type pref = 4" "bp_truncation pref \<le> 0" "ms_raw m \<noteq> []"
  proof -
    have "atoiDefault (itoa 4) 1 = 4" by (simp add: atoiDefault_def parse_int64_itoa int64_range_def min_int64_def max_int64_def)
    then show ?thesis using that
      by (simp add: bodyNode_def bodyData_def ChildText_wbN body_rest_def)
  qed
  have g: "ms_read (parseEmailAppData E ?ad m0) = ms_read m2" "ms_flagged (parseEmailAppData E ?ad m0) = ms_flagged m2"
    "ms_importance (parseEmailAppData E ?ad m0) = ms_importance m2"
    "ms_subject (parseEmailAppData E ?ad m0) = ms_subject m2" "ms_to (parseEmailAppData E ?ad m0) = ms_to m2"
    "ms_cc (parseEmailAppData E ?ad m0) = ms_cc m2" "ms_class (parseEmailAppData E ?ad m0) = ms_class m2"
    unfolding p by (simp_all split: option.split)
  have "ms_raw (parseEmailAppData E ?ad m0) = ms_raw m"
    if "bp_type pref = 4" "bp_truncation pref \<le> 0" "ms_raw m \<noteq> []"
    unfolding p using raw [OF that] by (simp add: b64_decode_encode)
  then show ?thesis unfolding Let_def g m2_def by (simp add: f)
qed

definition echo_env :: env where
  "echo_env = \<lparr>en_addr_string = (\<lambda>n a. n @ '' <'' @ a @ ''>''), en_parse_address = (\<lambda>v. Some ([], v)),
     en_time_parse = (\<lambda>l v. None)\<rparr>"

theorem email_roundtrip_witness:
  "ms_raw (parseEmailAppData echo_env (Some (emailAppData echo_env ((demo_message 1)\<lparr>ms_raw := ''MIME'', ms_flagged := True\<rparr>)
     [] ((bodyPrefFrom None)\<lparr>bp_type := 4\<rparr>))) (demo_message 2)) = ''MIME'' \<and>
   ms_flagged (parseEmailAppData echo_env (Some (emailAppData echo_env ((demo_message 1)\<lparr>ms_raw := ''MIME'', ms_flagged := True\<rparr>)
     [] ((bodyPrefFrom None)\<lparr>bp_type := 4\<rparr>))) (demo_message 2))"
proof -
  have "bp_part_type ((bodyPrefFrom None)\<lparr>bp_type := 4\<rparr>) \<le> 0"
    "int64_range (ms_importance ((demo_message 1)\<lparr>ms_raw := ''MIME'', ms_flagged := True\<rparr>))"
    by (simp_all add: bodyPrefFrom_def demo_message_def int64_range_def min_int64_def max_int64_def)
  from email_roundtrip [OF this, of echo_env "[]" "demo_message 2"] show ?thesis
    by (simp add: Let_def bodyPrefFrom_def)
qed

section \<open>Truncation\<close>

lemma cut_back_le: "cut_back s n \<le> n"
  by (induction n) auto

lemma cut_back_start: "0 < cut_back s n \<Longrightarrow> rune_start (s ! cut_back s n)"
  by (induction n) (auto split: if_splits)

lemma cut_back_max: "cut_back s n < j \<Longrightarrow> j \<le> n \<Longrightarrow> \<not> rune_start (s ! j)"
proof (induction n)
  case (Suc n)
  then show ?case by (cases "j = Suc n") (auto split: if_splits)
qed simp

text \<open>Cutting a text that is too long keeps a prefix no longer than asked, ends it before a
  byte that starts a character (so no UTF-8 sequence is split), and drops as little as that
  allows.\<close>

theorem truncateUTF8_spec:
  assumes "0 < n" "n < len s"
  shows "\<exists>k. truncateUTF8 s n = take k s \<and> int k \<le> n \<and> k < length s \<and> (k = 0 \<or> rune_start (s ! k)) \<and>
     (\<forall>j. k < j \<and> int j \<le> n \<longrightarrow> \<not> rune_start (s ! j))"
proof -
  let ?k = "cut_back s (nat n)"
  have le: "?k \<le> nat n" by (rule cut_back_le)
  have "truncateUTF8 s n = take ?k s" using assms by (simp add: truncateUTF8_def)
  moreover have "?k = 0 \<or> rune_start (s ! ?k)" using cut_back_start [of s "nat n"] by blast
  moreover have "\<not> rune_start (s ! j)" if "?k < j" "int j \<le> n" for j
    using cut_back_max [OF that(1)] that(2) by simp
  moreover have "int ?k \<le> n" "?k < length s" using le assms by (simp_all add: len_def)
  ultimately show ?thesis by blast
qed

theorem truncateUTF8_spec_witness:
  "truncateUTF8 [CHR ''a'', CHR 0xE4, CHR 0xBD, CHR 0xA0] 3 = ''a'' \<and>
   (\<exists>k. truncateUTF8 [CHR ''a'', CHR 0xE4, CHR 0xBD, CHR 0xA0] 3 = take k [CHR ''a'', CHR 0xE4, CHR 0xBD, CHR 0xA0])"
proof -
  have "truncateUTF8 [CHR ''a'', CHR 0xE4, CHR 0xBD, CHR 0xA0] 3 = ''a''"
    by (simp add: truncateUTF8_def len_def rune_start_def numeral_3_eq_3)
  then show ?thesis
    using truncateUTF8_spec [of 3 "[CHR ''a'', CHR 0xE4, CHR 0xBD, CHR 0xA0]"] by (auto simp: len_def)
qed

end
