(* ===== verification/EasSyncProps.thy ===== *)
theory EasSyncProps imports EasSyncInv begin

text \<open>
  Correctness of \<open>Sync\<close> (\<open>internal/eas/sync.go\<close>): a round of server changes carries the device
  from what it knows to what the folder holds. The abstract device is a set of item ids that
  the commands of a response change; the concrete state is the table of known items.
\<close>

section \<open>What a folder holds\<close>

definition item_live :: "db \<Rightarrow> folder \<Rightarrow> int \<Rightarrow> bool" where
  "item_live d f i =
    (if fo_class f = ''Contacts'' then
       (case contact_row d i of None \<Rightarrow> False | Some c \<Rightarrow> \<not> co_deleted c \<and> co_folder c = fo_id f)
     else if fo_class f = ''Calendar'' then
       (case event_row d i of None \<Rightarrow> False | Some e \<Rightarrow> \<not> ev_deleted e \<and> ev_folder e = fo_id f)
     else (case message_row d i of None \<Rightarrow> False | Some m \<Rightarrow> \<not> ms_deleted m \<and> ms_folder m = fo_id f))"

text \<open>The MIME source of every message can be read.\<close>

definition readable :: "store \<Rightarrow> bool" where
  "readable s \<longleftrightarrow> (\<forall>m\<in>set (tb_messages (st_db s)). ms_raw m = [] \<and> ms_raw_path m \<noteq> [] \<longrightarrow>
     (\<exists>bm b. st_blobs s = Some bm \<and> bm (ms_raw_path m) = Some b))"

lemma LoadRaw_readable:
  assumes "st_faults s = []" "readable s" "message_row (st_db s) i = Some m"
  shows "\<exists>r. LoadRaw (Some m) s = (Inr (m\<lparr>ms_raw := r\<rparr>), s)"
proof (cases "ms_raw m \<noteq> [] \<or> ms_raw_path m = []")
  case True
  then show ?thesis by (intro exI [of _ "ms_raw m"]) (simp add: LoadRaw_def)
next
  case False
  then obtain bm b where "st_blobs s = Some bm" "bm (ms_raw_path m) = Some b"
    using assms(2,3) message_rowD [OF assms(3)] by (auto simp: readable_def)
  then show ?thesis using assms(1) False
    by (intro exI [of _ b]) (simp add: LoadRaw_def bindE_def blobGet_def)
qed

lemma Setting_no_fault:
  "st_faults s = [] \<Longrightarrow> \<exists>v. Setting k s = (Inr v, s)"
  by (simp add: Setting_def get_row_def sql_no_fault split: option.split)

lemma calendarTimeZone_no_fault:
  "st_faults s = [] \<Longrightarrow> \<exists>tz. calendarTimeZone u s = (Inr tz, s)"
  using Setting_no_fault [of s "calendarTimeZoneSetting @ u"] by (auto simp: calendarTimeZone_def)

lemma loadAppData_eval:
  assumes "st_faults s = []" "readable s"
  shows "\<exists>app date. loadAppData E f i pref s =
    (if item_live (st_db s) f i then (Inr (Some app, False, date), s) else (Inr gone_item, s))"
proof (cases "fo_class f = ''Contacts''")
  case True
  then show ?thesis using assms(1)
    by (auto simp: loadAppData_def or_gone_def ContactByID_eval item_live_def split: option.split)
next
  case nc: False
  show ?thesis
  proof (cases "fo_class f = ''Calendar''")
    case True
    obtain tz where tz: "calendarTimeZone (fo_user f) s = (Inr tz, s)"
      using calendarTimeZone_no_fault [OF assms(1)] by blast
    note e = EventByID_eval [OF assms(1), of i]
    have x: "with_exceptions e s = (Inr (e\<lparr>ev_exceptions := exceptions_of (ev_id e) (st_db s)\<rparr>), s)" for e
      using assms(1) by (simp add: with_exceptions_def EventExceptions_def getAll_def sql_no_fault)
    show ?thesis
    proof (cases "event_row (st_db s) i")
      case None
      then show ?thesis using nc True by (simp add: loadAppData_def or_gone_def e item_live_def)
    next
      case (Some ev)
      then show ?thesis using nc True tz by (simp add: loadAppData_def or_gone_def e item_live_def x bindE_def)
    qed
  next
    case False
    show ?thesis
    proof (cases "message_row (st_db s) i")
      case None
      then show ?thesis using nc False assms(1)
        by (simp add: loadAppData_def or_gone_def MessageByID_def bindE_def message_query_eval item_live_def)
    next
      case (Some m)
      then obtain r where "LoadRaw (Some m) s = (Inr (m\<lparr>ms_raw := r\<rparr>), s)"
        using LoadRaw_readable [OF assms] by blast
      then show ?thesis using nc False assms(1) Some
        by (simp add: loadAppData_def or_gone_def MessageByID_def bindE_def message_query_eval item_live_def
            AttachmentsByMessage_def getAll_def sql_no_fault)
    qed
  qed
qed

section \<open>One item\<close>

text \<open>Two stores that differ in the known items of one device in one folder only.\<close>

definition same_but_items :: "store \<Rightarrow> store \<Rightarrow> bool" where
  "same_but_items s t \<longleftrightarrow> (\<exists>its. t = s\<lparr>st_db := (st_db s)\<lparr>tb_items := its\<rparr>\<rparr>)"

lemma same_refl [simp]: "same_but_items s s"
  unfolding same_but_items_def by (rule exI [of _ "tb_items (st_db s)"]) simp

lemma same_trans: "same_but_items s t \<Longrightarrow> same_but_items t u \<Longrightarrow> same_but_items s u"
  by (auto simp: same_but_items_def)

lemma sameD:
  assumes "same_but_items s t"
  shows "st_faults t = st_faults s" "readable t = readable s" "feed (st_db t) f = feed (st_db s) f"
    "changes_after f a (st_db t) = changes_after f a (st_db s)" "item_live (st_db t) fo = item_live (st_db s) fo"
    "user_ids (st_db t) = user_ids (st_db s)" "folder_ids (st_db t) = folder_ids (st_db s)"
    "tb_states (st_db t) = tb_states (st_db s)"
  using assms by (auto simp: same_but_items_def readable_def feed_def changes_after_def item_live_def
      contact_row_def event_row_def message_row_def user_ids_def folder_ids_def fun_eq_iff)

lemma same_drop: "same_but_items s (s\<lparr>st_db := drop_items P (st_db s)\<rparr>)"
  by (auto simp: same_but_items_def drop_items_def)

lemma known_iff:
  "i \<in> known_items u v f d \<longleftrightarrow> \<lparr>si_user = u, si_device = v, si_folder = f, si_item = i\<rparr> \<in> set (tb_items d)"
proof
  assume "i \<in> known_items u v f d"
  then obtain r where "r \<in> set (tb_items d)" "si_user r = u" "si_device r = v" "si_folder r = f" "si_item r = i"
    unfolding known_items_def set_map set_filter by blast
  moreover from this have "r = \<lparr>si_user = u, si_device = v, si_folder = f, si_item = i\<rparr>"
    by (intro sync_item.equality) simp_all
  ultimately show "\<lparr>si_user = u, si_device = v, si_folder = f, si_item = i\<rparr> \<in> set (tb_items d)" by simp
qed (force simp: known_items_def)

lemma known_drop:
  "known_items u v f (drop_items (\<lambda>r. r = \<lparr>si_user = u, si_device = v, si_folder = f, si_item = i\<rparr>) d) =
   known_items u v f d - {i}"
  by (rule set_eqI) (simp only: known_iff drop_items_def, simp add: known_iff)

lemma ForgetItem_eval:
  assumes "st_faults s = []"
  shows "same_but_items s (execE (ForgetItem u v f i) s) \<and>
    known_items u v f (st_db (execE (ForgetItem u v f i) s)) = known_items u v f (st_db s) - {i}"
proof -
  have "execE (ForgetItem u v f i) s = s\<lparr>st_db := drop_items (\<lambda>r.
      r = \<lparr>si_user = u, si_device = v, si_folder = f, si_item = i\<rparr>) (st_db s)\<rparr>"
    using assms by (simp add: execE_def ForgetItem_def exec_def sql_no_fault)
  then show ?thesis by (simp add: same_drop known_drop)
qed

lemma MarkItemKnown_eval:
  assumes "st_faults s = []" "u \<in> set (user_ids (st_db s))" "f \<in> set (folder_ids (st_db s))"
  shows "same_but_items s (execE (MarkItemKnown u v f i) s) \<and>
    known_items u v f (st_db (execE (MarkItemKnown u v f i) s)) = insert i (known_items u v f (st_db s))"
proof -
  let ?r = "\<lparr>si_user = u, si_device = v, si_folder = f, si_item = i\<rparr>"
  show ?thesis
  proof (cases "?r \<in> set (tb_items (st_db s))")
    case True
    then have "execE (MarkItemKnown u v f i) s = s"
      using assms by (simp add: execE_def MarkItemKnown_def sql_no_fault insert_item_def)
    moreover have "i \<in> known_items u v f (st_db s)" using True by (force simp: known_items_def)
    ultimately show ?thesis by (simp add: insert_absorb)
  next
    case False
    then have "execE (MarkItemKnown u v f i) s = s\<lparr>st_db := (st_db s)\<lparr>tb_items := tb_items (st_db s) @ [?r]\<rparr>\<rparr>"
      using assms by (simp add: execE_def MarkItemKnown_def sql_no_fault insert_item_def)
    then show ?thesis by (auto simp: same_but_items_def known_items_def)
  qed
qed

text \<open>What the device does with a command.\<close>

definition apply_cmd :: "node \<Rightarrow> int set \<Rightarrow> int set" where
  "apply_cmd c M = (let i = parseInt (ChildText (Some c) ''ServerId'') in
     if n_name c = ''Delete'' then M - {i} else insert i M)"

definition apply_cmds :: "node list \<Rightarrow> int set \<Rightarrow> int set" where
  "apply_cmds cs M = fold apply_cmd cs M"

lemma parseInt_i64toa: "int64_range i \<Longrightarrow> parseInt (i64toa i) = i"
  by (simp add: parseInt_def i64toa_def parse_int64_itoa)

lemma serverId_text: "int64_range i \<Longrightarrow> parseInt (ChildText (Some (wbN p nm (serverIdNode i # cs))) ''ServerId'') = i"
  by (simp add: ChildText_def Child_def wbN_def wbT_def serverIdNode_def parseInt_i64toa)

text \<open>The new knowledge of an item: known exactly when its change is not a deletion and it is there.\<close>

definition step_known :: "db \<Rightarrow> folder \<Rightarrow> int \<times> string \<Rightarrow> int set \<Rightarrow> int set" where
  "step_known d f p K = (if snd p \<noteq> ''delete'' \<and> item_live d f (fst p) then insert (fst p) K else K - {fst p})"

lemma itemCommand_step:
  assumes s: "st_faults s = []" "readable s" "u \<in> set (user_ids (st_db s))" "fo_id f \<in> set (folder_ids (st_db s))"
    and K: "K = known_items u v (fo_id f) (st_db s)" and i: "int64_range i"
    and r: "itemCommand E u v f i kind K pref 0 s = ((n, K'), t)"
  shows "same_but_items s t \<and> K' = known_items u v (fo_id f) (st_db t) \<and>
    K' = step_known (st_db s) f (i, kind) K \<and>
    (case n of None \<Rightarrow> K' = K | Some c \<Rightarrow> K' = apply_cmd c K)"
proof -
  obtain app date where l: "loadAppData E f i pref s =
      (if item_live (st_db s) f i then (Inr (Some app, False, date), s) else (Inr gone_item, s))"
    using loadAppData_eval [OF s(1,2)] by blast
  have del: "same_but_items s t \<and> K' = known_items u v (fo_id f) (st_db t) \<and> K' = K - {i} \<and>
      (case n of None \<Rightarrow> K' = K | Some c \<Rightarrow> K' = apply_cmd c K)"
    if d: "deleteCommand u v (fo_id f) i K s = ((n, K'), t)"
  proof (cases "i \<in> K")
    case True
    then have e: "n = Some (wbN pageAirSync ''Delete'' (serverIdNode i # []))" "K' = K - {i}"
      "t = execE (ForgetItem u v (fo_id f) i) s"
      using d by (simp_all add: deleteCommand_def)
    show ?thesis using ForgetItem_eval [OF s(1), of u v "fo_id f" i]
      unfolding e option.case apply_cmd_def serverId_text [OF i] by (simp add: K Let_def wbN_def)
  next
    case False
    then have "n = None" "K' = K" "t = s" using d by (simp_all add: deleteCommand_def)
    then show ?thesis using False K by simp
  qed
  show ?thesis
  proof (cases "kind \<noteq> ''delete'' \<and> item_live (st_db s) f i")
    case True
    then have e: "n = Some (wbN pageAirSync (if i \<in> K then ''Change'' else ''Add'') [serverIdNode i, app])"
      "K' = insert i K" "t = execE (MarkItemKnown u v (fo_id f) i) s"
      using r l by (auto simp: itemCommand_def)
    show ?thesis
      using MarkItemKnown_eval [OF s(1,3,4), of v i] True
      unfolding e option.case apply_cmd_def serverId_text [OF i]
      by (simp add: K step_known_def Let_def wbN_def)
  next
    case False
    then have "deleteCommand u v (fo_id f) i K s = ((n, K'), t)"
      using r l by (auto simp: itemCommand_def gone_item_def split: if_splits)
    from del [OF this] show ?thesis using False by (auto simp: step_known_def)
  qed
qed

lemma itemCommands_steps:
  assumes "st_faults s = []" "readable s" "u \<in> set (user_ids (st_db s))" "fo_id f \<in> set (folder_ids (st_db s))"
    and "K = known_items u v (fo_id f) (st_db s)" "\<forall>p\<in>set ps. int64_range (fst p)"
    and "itemCommands E u v f pref 0 ps K s = (ns, t)"
  shows "same_but_items s t \<and> known_items u v (fo_id f) (st_db t) = fold (step_known (st_db s) f) ps K \<and>
    apply_cmds ns K = known_items u v (fo_id f) (st_db t)"
  using assms
proof (induction ps arbitrary: K s ns)
  case Nil
  then show ?case by (simp add: apply_cmds_def)
next
  case (Cons p ps)
  obtain i kind where p: "p = (i, kind)" by (cases p)
  obtain n K1 s1 where r: "itemCommand E u v f i kind K pref 0 s = ((n, K1), s1)" by (metis prod.exhaust)
  obtain ns1 where rs: "itemCommands E u v f pref 0 ps K1 s1 = (ns1, t)"
    and ns: "ns = (case n of None \<Rightarrow> ns1 | Some x \<Rightarrow> x # ns1)"
    using Cons.prems(7) by (auto simp: p r Let_def split: prod.splits)
  have i: "int64_range i" using Cons.prems(6) by (simp add: p)
  note st = itemCommand_step [OF Cons.prems(1-5) i r]
  have sm: "same_but_items s s1" using st by blast
  note q = sameD [OF sm]
  have "step_known (st_db s1) f = step_known (st_db s) f"
    using q(5) [of f] by (simp add: fun_eq_iff step_known_def)
  moreover have "same_but_items s1 t \<and> known_items u v (fo_id f) (st_db t) = fold (step_known (st_db s1) f) ps K1 \<and>
      apply_cmds ns1 K1 = known_items u v (fo_id f) (st_db t)"
    by (rule Cons.IH [OF _ _ _ _ _ _ rs]) (use Cons.prems st q in auto)
  ultimately show ?case
    using st same_trans [OF sm] by (auto simp: p ns apply_cmds_def split: option.splits)
qed


section \<open>One round\<close>

text \<open>The kind of the last change of an item in a list of changes.\<close>

definition last_kind :: "change list \<Rightarrow> int \<Rightarrow> string option" where
  "last_kind cs i = map_of (rev (map (\<lambda>c. (ch_item c, ch_kind c)) cs)) i"

lemma last_kind_simps [simp]:
  "last_kind [] i = None"
  "last_kind (p @ q) i = (case last_kind q i of None \<Rightarrow> last_kind p i | Some k \<Rightarrow> Some k)"
  "last_kind [c] i = (if ch_item c = i then Some (ch_kind c) else None)"
  by (auto simp: last_kind_def map_add_def split: option.split)

lemma last_kind_Cons:
  "last_kind (c # p) i = (case last_kind p i of
     None \<Rightarrow> if ch_item c = i then Some (ch_kind c) else None | Some k \<Rightarrow> Some k)"
  using last_kind_simps(2) [of "[c]" p i] by (simp split: option.split)

lemma last_kind_None: "last_kind cs i = None \<longleftrightarrow> i \<notin> ch_item ` set cs"
  by (force simp: last_kind_def map_of_eq_None_iff)

lemma map_of_relabel:
  "map_of (map (\<lambda>(i, k). if i = a then (i, b) else (i, k)) xs) i =
   (if i = a \<and> map_of xs i \<noteq> None then Some b else map_of xs i)"
  by (induction xs) auto

lemma relabel_fst: "map fst (map (\<lambda>(i, k). if i = a then (i, b) else (i, k)) xs) = map fst xs"
  by (induction xs) auto

text \<open>The loop consumes a prefix of the feed and keeps the last kind of every item of it.\<close>

lemma take_changes_prefix:
  assumes "distinct (map fst order)" "take_changes {} w cs order l = (order', l')"
  shows "\<exists>p q. cs = p @ q \<and> distinct (map fst order') \<and>
    (\<forall>i. map_of order' i = (case last_kind p i of None \<Rightarrow> map_of order i | Some k \<Rightarrow> Some k)) \<and>
    l' = (if p = [] then l else ch_seq (last p)) \<and> (cs \<noteq> [] \<and> len order < w \<longrightarrow> p \<noteq> [])"
  using assms
proof (induction cs arbitrary: order l)
  case Nil
  then show ?case by (intro exI [of _ "[]"]) simp
next
  case (Cons c cs)
  show ?case
  proof (cases "len order \<ge> w")
    case True
    then show ?thesis using Cons.prems by (intro exI [of _ "[]"] exI [of _ "c # cs"]) simp
  next
    case room: False
    define order1 where "order1 = (if ch_item c \<in> fst ` set order
      then map (\<lambda>(i, k). if i = ch_item c then (i, ch_kind c) else (i, k)) order
      else order @ [(ch_item c, ch_kind c)])"
    have t: "take_changes {} w cs order1 (ch_seq c) = (order', l')"
      using Cons.prems(2) room by (simp add: order1_def split: if_splits)
    have d: "distinct (map fst order1)"
    proof (cases "ch_item c \<in> fst ` set order")
      case True
      show ?thesis unfolding order1_def if_P [OF True] relabel_fst by (rule Cons.prems(1))
    next
      case False
      then show ?thesis using Cons.prems(1) by (simp add: order1_def)
    qed
    have m: "map_of order1 i = (if i = ch_item c then Some (ch_kind c) else map_of order i)" for i
    proof (cases "ch_item c \<in> fst ` set order")
      case True
      then show ?thesis by (simp add: order1_def map_of_relabel map_of_eq_None_iff)
    next
      case False
      then have "map_of order (ch_item c) = None" by (simp add: map_of_eq_None_iff)
      then show ?thesis using False
        by (simp add: order1_def map_add_def split: option.split)
    qed
    obtain p q where pq: "cs = p @ q" "distinct (map fst order')"
      "\<forall>i. map_of order' i = (case last_kind p i of None \<Rightarrow> map_of order1 i | Some k \<Rightarrow> Some k)"
      "l' = (if p = [] then ch_seq c else ch_seq (last p))"
      using Cons.IH [OF d t] by blast
    show ?thesis
      by (rule exI [of _ "c # p"], rule exI [of _ q])
        (use pq in \<open>auto simp: m last_kind_Cons split: option.split\<close>)
  qed
qed

lemma take_changes_fresh:
  assumes "take_changes {} w cs [] l = (order, l')" "0 < w"
  obtains p q where "cs = p @ q" "distinct (map fst order)" "\<forall>i. map_of order i = last_kind p i"
    "l' = (if p = [] then l else ch_seq (last p))" "cs \<noteq> [] \<longrightarrow> p \<noteq> []"
proof -
  have e: "(case x of None \<Rightarrow> None | Some k \<Rightarrow> Some k) = x" for x :: "string option"
    by (cases x) simp_all
  have "len ([] :: (int \<times> string) list) < w" using assms(2) by (simp add: len_def)
  moreover have "distinct (map fst ([] :: (int \<times> string) list))" by simp
  note take_changes_prefix [OF this assms(1), unfolded map_of.simps(1) e]
  ultimately show ?thesis using that by blast
qed

lemma fold_step_known:
  assumes "distinct (map fst ps)"
  shows "i \<in> fold (step_known d f) ps K \<longleftrightarrow>
    (case map_of ps i of None \<Rightarrow> i \<in> K | Some k \<Rightarrow> k \<noteq> ''delete'' \<and> item_live d f i)"
  using assms
proof (induction ps arbitrary: K)
  case (Cons p ps)
  obtain a k where p: "p = (a, k)" by (cases p)
  then have "map_of ps a = None" using Cons.prems by (simp add: map_of_eq_None_iff)
  then show ?case
    using Cons by (auto simp: p step_known_def split: option.split)
qed simp

text \<open>What a device has to be told is in the part of the feed it has not read.\<close>

definition covered :: "db \<Rightarrow> folder \<Rightarrow> int set \<Rightarrow> int \<Rightarrow> bool" where
  "covered d f K after \<longleftrightarrow>
    (\<forall>i. (i \<in> K \<longleftrightarrow> item_live d f i) \<or> i \<in> ch_item ` set (changes_after (fo_id f) after d))"

text \<open>An item whose last change is a deletion is gone.\<close>

definition feed_true :: "db \<Rightarrow> folder \<Rightarrow> bool" where
  "feed_true d f \<longleftrightarrow> (\<forall>c\<in>set (feed d (fo_id f)). int64_range (ch_item c)) \<and>
     (\<forall>i. last_kind (feed d (fo_id f)) i = Some ''delete'' \<longrightarrow> \<not> item_live d f i)"

lemma last_kind_after:
  assumes "db_ok d" "last_kind (changes_after g a d) i = Some k"
  shows "last_kind (feed d g) i = Some k"
proof -
  have "last_kind (filter (\<lambda>c. a < ch_seq c) xs) i = Some k \<Longrightarrow> last_kind xs i = Some k"
    if "sorted_wrt (\<lambda>x y. ch_seq x < ch_seq y) xs" for xs
    using that
  proof (induction xs)
    case (Cons c xs)
    show ?case
    proof (cases "a < ch_seq c")
      case True
      then have "\<forall>x\<in>set xs. a < ch_seq x" using Cons.prems(2) by force
      then have "filter (\<lambda>c. a < ch_seq c) (c # xs) = c # xs" using True by simp
      then show ?thesis using Cons.prems(1) by simp
    next
      case False
      then show ?thesis using Cons by (simp add: last_kind_Cons)
    qed
  qed simp
  then show ?thesis using assms feed_sorted [OF assms(1)] by (simp add: changes_after_feed)
qed

lemma covered_step:
  assumes d: "db_ok d" "feed_true d f" "covered d f K after"
    and c: "changes_after (fo_id f) after d = p @ rest"
    and r: "changes_after (fo_id f) n d = rest"
    and ps: "distinct (map fst ps)" "\<forall>i. map_of ps i = last_kind p i"
  shows "covered d f (fold (step_known d f) ps K) n"
  unfolding covered_def
proof
  fix i
  let ?K = "fold (step_known d f) ps K"
  show "(i \<in> ?K \<longleftrightarrow> item_live d f i) \<or> i \<in> ch_item ` set (changes_after (fo_id f) n d)"
  proof (cases "i \<in> ch_item ` set rest")
    case True
    then show ?thesis by (simp add: r)
  next
    case False
    then have nr: "last_kind rest i = None" by (simp add: last_kind_None)
    show ?thesis
    proof (cases "last_kind p i")
      case None
      then have "i \<notin> ch_item ` set (p @ rest)" using False by (auto simp: last_kind_None)
      then have "i \<in> K \<longleftrightarrow> item_live d f i" using d(3) unfolding covered_def c by blast
      then show ?thesis using None ps by (simp add: fold_step_known)
    next
      case (Some k)
      have "last_kind (changes_after (fo_id f) after d) i = Some k" by (simp add: c nr Some)
      from last_kind_after [OF d(1) this] have "k = ''delete'' \<longrightarrow> \<not> item_live d f i"
        using d(2) by (auto simp: feed_true_def)
      then show ?thesis using Some ps by (auto simp: fold_step_known)
    qed
  qed
qed


text \<open>What a round needs: the tables are consistent, no statement fails, the sources of the
  messages can be read, and user and folder are there.\<close>

definition sync_ready :: "store \<Rightarrow> string \<Rightarrow> folder \<Rightarrow> bool" where
  "sync_ready s u f \<longleftrightarrow> store_ok s \<and> st_faults s = [] \<and> readable s \<and> u \<in> set (user_ids (st_db s)) \<and>
     fo_id f \<in> set (folder_ids (st_db s)) \<and> feed_true (st_db s) f"


lemma page_split:
  assumes "0 < w"
  obtains cs more where "changes_after g a d = cs @ more" "limit_rows (w * 4 + int (card ({}::int set))) (changes_after g a d) = cs"
    "changes_after g a d \<noteq> [] \<longrightarrow> cs \<noteq> []"
proof (rule that)
  show "changes_after g a d = take (nat (w * 4)) (changes_after g a d) @ drop (nat (w * 4)) (changes_after g a d)"
    by simp
qed (use assms in \<open>auto simp: limit_rows_def\<close>)

lemma serverChanges_read:
  assumes "st_faults s = []"
    and "limit_rows (w * 4 + int (card ({}::int set))) (changes_after (fo_id f) after (st_db s)) = cs"
    and "take_changes {} w cs [] after = (order, n)"
    and "itemCommands E u v f pref 0 order (known_items u v (fo_id f) (st_db s)) s = (cmds, t)" "st_faults t = []"
  shows "serverChanges E u v f after w pref 0 {} s = (Inr (cmds, changes_after (fo_id f) n (st_db t) \<noteq> [], n), t)"
  using assms
  by (simp add: serverChanges_def bindE_def KnownItems_def ChangesSince_def HasChangesAfter_def getAll_def
      sql_no_fault count_after_changes)

lemma serverChanges_round:
  assumes r: "sync_ready s u f" and w: "0 < w"
    and c: "covered (st_db s) f (known_items u v (fo_id f) (st_db s)) after"
  shows "\<exists>cmds more n t. serverChanges E u v f after w pref 0 {} s = (Inr (cmds, more, n), t) \<and>
    sync_ready t u f \<and> same_but_items s t \<and> covered (st_db t) f (known_items u v (fo_id f) (st_db t)) n \<and>
    apply_cmds cmds (known_items u v (fo_id f) (st_db s)) = known_items u v (fo_id f) (st_db t) \<and>
    more = (changes_after (fo_id f) n (st_db t) \<noteq> []) \<and>
    (changes_after (fo_id f) after (st_db s) \<noteq> [] \<longrightarrow>
       length (changes_after (fo_id f) n (st_db t)) < length (changes_after (fo_id f) after (st_db s))) \<and>
    length (changes_after (fo_id f) n (st_db t)) \<le> length (changes_after (fo_id f) after (st_db s))"
proof -
  let ?d = "st_db s" and ?K = "known_items u v (fo_id f) (st_db s)"
  have s: "store_ok s" "st_faults s = []" "readable s" "u \<in> set (user_ids ?d)" "fo_id f \<in> set (folder_ids ?d)"
    "feed_true ?d f" and d: "db_ok ?d"
    using r by (simp_all add: sync_ready_def store_ok_def)
  obtain cs rest0 where cs: "changes_after (fo_id f) after ?d = cs @ rest0"
    "limit_rows (w * 4 + int (card ({}::int set))) (changes_after (fo_id f) after ?d) = cs"
    "changes_after (fo_id f) after ?d \<noteq> [] \<longrightarrow> cs \<noteq> []"
    using page_split [OF w] by metis
  obtain order n where t: "take_changes {} w cs [] after = (order, n)" by fastforce
  obtain p q where p: "cs = p @ q" "distinct (map fst order)" "\<forall>i. map_of order i = last_kind p i"
    "n = (if p = [] then after else ch_seq (last p))" "cs \<noteq> [] \<longrightarrow> p \<noteq> []"
    using take_changes_fresh [OF t w] by metis
  have split: "changes_after (fo_id f) after ?d = p @ (q @ rest0)" by (simp add: cs(1) p(1))
  have rest: "changes_after (fo_id f) n ?d = q @ rest0"
  proof (cases "p = []")
    case True
    then show ?thesis using split p(4) by simp
  next
    case False
    then show ?thesis using tables.since_prefix [OF d split] p(4) by simp
  qed
  obtain cmds u1 where ic: "itemCommands E u v f pref 0 order ?K s = (cmds, u1)" by fastforce
  have int: "\<forall>x\<in>set order. int64_range (fst x)"
  proof
    fix x assume "x \<in> set order"
    then have "last_kind p (fst x) \<noteq> None" using p(2,3) by (metis map_of_eq_None_iff image_eqI)
    then obtain c where "c \<in> set p" "ch_item c = fst x" unfolding last_kind_None by auto
    moreover from this have "c \<in> set (changes_after (fo_id f) after ?d)" by (simp add: split)
    ultimately show "int64_range (fst x)"
      using s(6) by (auto simp: feed_true_def changes_after_feed [OF d])
  qed
  note st = itemCommands_steps [OF s(2-5) refl int ic]
  then have sm: "same_but_items s u1" and kn: "known_items u v (fo_id f) (st_db u1) = fold (step_known ?d f) order ?K"
    and ap: "apply_cmds cmds ?K = known_items u v (fo_id f) (st_db u1)"
    by blast+
  note q1 = sameD [OF sm]
  have ok: "store_ok u1" using ok_itemCommands [OF s(1), of E u v f pref 0 order ?K] by (simp add: ic)
  have ready: "sync_ready u1 u f"
    using r ok by (simp add: sync_ready_def q1 feed_true_def)
  have cov: "covered (st_db u1) f (known_items u v (fo_id f) (st_db u1)) n"
    using covered_step [OF d s(6) c split rest p(2,3)] by (simp add: kn covered_def q1)
  have sc: "serverChanges E u v f after w pref 0 {} s =
      (Inr (cmds, changes_after (fo_id f) n (st_db u1) \<noteq> [], n), u1)"
    by (rule serverChanges_read [OF s(2) cs(2) t ic]) (simp add: q1 s(2))
  show ?thesis
    by (intro exI conjI, rule sc, rule ready, rule sm, rule cov, rule ap, rule refl)
      (use p(5) cs(3) in \<open>auto simp: q1 rest split\<close>)
qed


section \<open>The device catches up\<close>

text \<open>The loop of a device that asks again while \<open>MoreAvailable\<close> is set: its view is changed by the
  commands of every answer. No answer within the fuel is \<open>None\<close>.\<close>

fun rounds :: "nat \<Rightarrow> env \<Rightarrow> string \<Rightarrow> string \<Rightarrow> folder \<Rightarrow> int \<Rightarrow> bodyPref \<Rightarrow> int \<Rightarrow> int set \<Rightarrow> store \<Rightarrow>
    (int set \<times> int \<times> store) option" where
  "rounds 0 E u v f w pref after M s = None"
| "rounds (Suc k) E u v f w pref after M s = (case serverChanges E u v f after w pref 0 {} s of
     (Inl _, t) \<Rightarrow> None
   | (Inr (cmds, again, n), t) \<Rightarrow>
       (let M' = apply_cmds cmds M in if again then rounds k E u v f w pref n M' t else Some (M', n, t)))"

lemma rounds_catch_up:
  assumes "sync_ready s u f" "0 < w" "covered (st_db s) f (known_items u v (fo_id f) (st_db s)) after"
    and "length (changes_after (fo_id f) after (st_db s)) < k"
  shows "\<exists>n t. rounds k E u v f w pref after (known_items u v (fo_id f) (st_db s)) s =
      Some ({i. item_live (st_db s) f i}, n, t) \<and>
    known_items u v (fo_id f) (st_db t) = {i. item_live (st_db s) f i} \<and> changes_after (fo_id f) n (st_db t) = []"
  using assms
proof (induction k arbitrary: s after)
  case (Suc k)
  obtain cmds again n t where r: "serverChanges E u v f after w pref 0 {} s = (Inr (cmds, again, n), t)"
    and t: "sync_ready t u f" "same_but_items s t" "covered (st_db t) f (known_items u v (fo_id f) (st_db t)) n"
      "apply_cmds cmds (known_items u v (fo_id f) (st_db s)) = known_items u v (fo_id f) (st_db t)"
      "again = (changes_after (fo_id f) n (st_db t) \<noteq> [])"
      "changes_after (fo_id f) after (st_db s) \<noteq> [] \<longrightarrow>
         length (changes_after (fo_id f) n (st_db t)) < length (changes_after (fo_id f) after (st_db s))"
      "length (changes_after (fo_id f) n (st_db t)) \<le> length (changes_after (fo_id f) after (st_db s))"
    using serverChanges_round [OF Suc.prems(1-3), of E pref] by blast
  have live: "item_live (st_db t) f = item_live (st_db s) f" using sameD(5) [OF t(2)] .
  show ?case
  proof (cases again)
    case False
    then have none: "changes_after (fo_id f) n (st_db t) = []" using t(5) by simp
    then have "known_items u v (fo_id f) (st_db t) = {i. item_live (st_db s) f i}"
      using t(3) by (auto simp: covered_def live)
    then show ?thesis using False none by (simp add: r t(4))
  next
    case True
    have "length (changes_after (fo_id f) n (st_db t)) < k"
      using Suc.prems(4) t(6,7) True t(5) by (cases "changes_after (fo_id f) after (st_db s)") auto
    from Suc.IH [OF t(1) Suc.prems(2) t(3) this] show ?thesis
      using True by (simp add: r t(4) live)
  qed
qed simp

text \<open>C1: a device converges to the folder. The premises: the tables are consistent; no statement
  fails; the source of every message can be read; account and folder exist; an item whose last
  change is a deletion is gone and item numbers fit 64 bits; the request sets no age limit
  (cutoff 0) and no item of the feed is skipped because the device itself sent it; the window is
  positive; and everything that differs between the view of the device and the folder is in the
  unread part of the change feed. Then after at most one round more than there are unread changes the server says
  there is no more, and the view of the device, changed only by the \<open>Add\<close>, \<open>Change\<close> and
  \<open>Delete\<close> commands it was sent, is exactly the set of live items of the folder; the table of
  known items agrees with it.\<close>

theorem serverChanges_catches_up:
  assumes "store_ok s" "st_faults s = []" "readable s"
    and "u \<in> set (user_ids (st_db s))" "fo_id f \<in> set (folder_ids (st_db s))" "feed_true (st_db s) f"
    and "0 < w" "covered (st_db s) f (known_items u v (fo_id f) (st_db s)) after"
    and "length (changes_after (fo_id f) after (st_db s)) < k"
  shows "\<exists>n t. rounds k E u v f w pref after (known_items u v (fo_id f) (st_db s)) s =
      Some ({i. item_live (st_db s) f i}, n, t) \<and>
    known_items u v (fo_id f) (st_db t) = {i. item_live (st_db s) f i} \<and> changes_after (fo_id f) n (st_db t) = []"
  using rounds_catch_up [of s u f w v after k] assms by (simp add: sync_ready_def)

definition plain_pref :: bodyPref where
  "plain_pref = \<lparr>bp_type = 1, bp_truncation = 0, bp_all_or_none = False, bp_part_type = 0,
     bp_part_truncation = 0, bp_part_all_or_none = False\<rparr>"

lemma demo_sync_ready: "sync_ready demo_store ''u'' (demo_folder 1 ''Inbox'' 2 1)"
  using demo_ok
  by (auto simp: sync_ready_def demo_defs readable_def user_ids_def folder_ids_def feed_true_def feed_def
      last_kind_Cons int64_range_def max_int64_def min_int64_def item_live_def message_row_def)

text \<open>A device that has the first message of the inbox and has read the first change.\<close>

theorem serverChanges_catches_up_witness:
  "\<exists>n t. rounds 2 demo_env ''u'' ''d'' (demo_folder 1 ''Inbox'' 2 1) 1 plain_pref 1 {1} demo_store = Some ({1, 2}, n, t) \<and>
     known_items ''u'' ''d'' 1 (st_db t) = {1, 2} \<and> changes_after 1 n (st_db t) = []"
proof -
  have k: "known_items ''u'' ''d'' 1 (st_db demo_store) = {1}" by (simp add: known_items_def demo_defs)
  have l: "item_live (st_db demo_store) (demo_folder 1 ''Inbox'' 2 1) i \<longleftrightarrow> i = 1 \<or> i = 2" for i
    by (simp add: item_live_def message_row_def demo_defs)
  then have l': "item_live demo_db (demo_folder 1 ''Inbox'' 2 1) i \<longleftrightarrow> i = 1 \<or> i = 2" for i by simp
  have e: "{i. item_live (st_db demo_store) (demo_folder 1 ''Inbox'' 2 1) i} = {1, 2}" by (auto simp: l')
  have f: "fo_id (demo_folder 1 ''Inbox'' 2 1) = 1" by (simp add: demo_folder_def)
  have c: "changes_after 1 1 (st_db demo_store) =
      [\<lparr>ch_seq = 2, ch_folder = 1, ch_type = ''email'', ch_item = 2, ch_kind = ''add''\<rparr>]"
    by (simp add: changes_after_def demo_defs)
  have cov: "covered (st_db demo_store) (demo_folder 1 ''Inbox'' 2 1) {1} 1"
    by (auto simp: covered_def l' f c [simplified])
  have ready: "store_ok demo_store" "st_faults demo_store = []" "readable demo_store" "''u'' \<in> set (user_ids (st_db demo_store))"
    "fo_id (demo_folder 1 ''Inbox'' 2 1) \<in> set (folder_ids (st_db demo_store))" "feed_true (st_db demo_store) (demo_folder 1 ''Inbox'' 2 1)"
    using demo_sync_ready unfolding sync_ready_def by blast+
  show ?thesis
    using serverChanges_catches_up [OF ready, of 1 "''d''" 1 2 demo_env plain_pref]
    unfolding f k c e using cov by simp
qed


section \<open>What a device does not get\<close>

text \<open>A change consumed by all devices may still be needed: \<open>PruneChanges\<close> spares what the
  devices with a state have not read, but a device that starts later reads the feed from the
  beginning and finds only what is left. Here the first message of the inbox has been read by
  the only device and is pruned; a new device is told there is nothing more, and has only the
  second of the two messages of the folder.\<close>

theorem pruned_items_never_sent:
  "\<exists>cmds n t. serverChanges demo_env ''u'' ''new'' (demo_folder 1 ''Inbox'' 2 1) 0 100 plain_pref 0 {}
      (snd (PruneChanges demo_store)) = (Inr (cmds, False, n), t) \<and>
    apply_cmds cmds {} = {2} \<and> {i. item_live (st_db t) (demo_folder 1 ''Inbox'' 2 1) i} = {1, 2}"
proof -
  let ?f = "demo_folder 1 ''Inbox'' 2 1" and ?s = "snd (PruneChanges demo_store)"
  have s: "?s = demo_store\<lparr>st_db := demo_db\<lparr>tb_changes :=
      [\<lparr>ch_seq = 2, ch_folder = 1, ch_type = ''email'', ch_item = 2, ch_kind = ''add''\<rparr>]\<rparr>\<rparr>"
    by (simp add: PruneChanges_def bindE_def exec_count_def sql_no_fault prunable_def watermark_def demo_defs)
  have f: "fo_id ?f = 1" by (simp add: demo_folder_def)
  have z: "st_faults ?s = []" "readable ?s" "''u'' \<in> set (user_ids (st_db ?s))" "fo_id ?f \<in> set (folder_ids (st_db ?s))"
    unfolding s by (auto simp: demo_defs readable_def user_ids_def folder_ids_def)
  have c: "changes_after 1 a (st_db ?s) = (if a < 2 then
      [\<lparr>ch_seq = 2, ch_folder = 1, ch_type = ''email'', ch_item = 2, ch_kind = ''add''\<rparr>] else [])" for a
    unfolding s by (simp add: changes_after_def)
  have l: "item_live (st_db ?s) ?f i \<longleftrightarrow> i = 1 \<or> i = 2" for i
    unfolding s by (simp add: item_live_def message_row_def demo_defs)
  have k: "{} = known_items ''u'' ''new'' (fo_id ?f) (st_db ?s)" unfolding s by (simp add: known_items_def demo_defs)
  obtain cmds t where ic: "itemCommands demo_env ''u'' ''new'' ?f plain_pref 0 [(2, ''add'')] {} ?s = (cmds, t)"
    by fastforce
  have st: "same_but_items ?s t \<and> known_items ''u'' ''new'' (fo_id ?f) (st_db t) =
      fold (step_known (st_db ?s) ?f) [(2, ''add'')] {} \<and> apply_cmds cmds {} = known_items ''u'' ''new'' (fo_id ?f) (st_db t)"
    by (rule itemCommands_steps [OF z k _ ic]) (simp add: int64_range_def max_int64_def min_int64_def)
  then have q: "same_but_items ?s t" by blast
  have r: "serverChanges demo_env ''u'' ''new'' ?f 0 100 plain_pref 0 {} ?s =
      (Inr (cmds, changes_after (fo_id ?f) 2 (st_db t) \<noteq> [], 2), t)"
    by (rule serverChanges_read [OF z(1) refl _ ic [unfolded k]])
      (simp_all add: f c limit_rows_def sameD(1) [OF q] z(1) len_def)
  show ?thesis
    by (intro exI conjI, subst r) (use st in \<open>auto simp: sameD [OF q] f c l step_known_def\<close>)
qed


text \<open>A folder with one message whose source is missing from the blob directory.\<close>

definition lost_store :: store where
  "lost_store = demo_store\<lparr>st_db := demo_db\<lparr>tb_messages := [(demo_message 1)\<lparr>ms_raw_path := ''gone''\<rparr>],
     tb_changes := [\<lparr>ch_seq = 1, ch_folder = 1, ch_type = ''email'', ch_item = 1, ch_kind = ''add''\<rparr>]\<rparr>\<rparr>"

text \<open>An item that cannot be rendered vanishes for the device. The message is live and its
  change is unread, but its source cannot be loaded: the answer has no command for it, says
  there is no more, and the position it returns is past the change, so no later round sends
  the message even when its source is back.\<close>

theorem unreadable_item_lost:
  "serverChanges demo_env ''u'' ''new'' (demo_folder 1 ''Inbox'' 2 1) 0 100 plain_pref 0 {} lost_store =
     (Inr ([], False, 1), lost_store) \<and>
   store_ok lost_store \<and> item_live (st_db lost_store) (demo_folder 1 ''Inbox'' 2 1) 1 \<and>
   (\<forall>m. changes_after 1 1 (st_db (lost_store\<lparr>st_blobs := m\<rparr>)) = [])"
proof -
  let ?f = "demo_folder 1 ''Inbox'' 2 1"
  have f: "fo_id ?f = 1" "fo_class ?f = ''Email''" by (simp_all add: demo_folder_def ClassForType_def)
  have z: "st_faults lost_store = []" by (simp add: lost_store_def)
  have c: "changes_after 1 a (st_db lost_store) = (if a < 1 then
      [\<lparr>ch_seq = 1, ch_folder = 1, ch_type = ''email'', ch_item = 1, ch_kind = ''add''\<rparr>] else [])" for a
    by (simp add: lost_store_def changes_after_def)
  have row: "message_row (st_db lost_store) 1 = Some ((demo_message 1)\<lparr>ms_raw_path := ''gone''\<rparr>)"
    by (simp add: lost_store_def message_row_def demo_message_def)
  have bl: "st_blobs lost_store = Some Map.empty" by (simp add: lost_store_def)
  have pop: "pop_fault lost_store = lost_store" by (simp add: lost_store_def pop_fault_def demo_store_def)
  have "\<exists>e. LoadRaw (Some ((demo_message 1)\<lparr>ms_raw_path := ''gone''\<rparr>)) lost_store = (Inl e, lost_store) \<and> e \<noteq> ErrNotFound"
    by (simp add: LoadRaw_def bl demo_message_def blobGet_def bindE_def pop)
  then have l: "\<exists>e. loadAppData demo_env ?f 1 plain_pref lost_store = (Inl e, lost_store)"
    by (auto simp: loadAppData_def f or_gone_def MessageByID_def bindE_def message_query_eval z row)
  then have ic: "itemCommands demo_env ''u'' ''new'' ?f plain_pref 0 [(1, ''add'')] K lost_store = ([], lost_store)" for K
    by (auto simp: itemCommand_def)
  have r: "serverChanges demo_env ''u'' ''new'' ?f 0 100 plain_pref 0 {} lost_store =
      (Inr ([], changes_after (fo_id ?f) 1 (st_db lost_store) \<noteq> [], 1), lost_store)"
    by (rule serverChanges_read [OF z refl _ ic z]) (simp add: f c limit_rows_def len_def)
  have ok: "store_ok lost_store"
    by (simp add: store_ok_def db_ok_def db_parts lost_store_def demo_defs ids_ok_def refs_ok_def folder_key_def
      uuid_rows_def primary_rows_def state_key_def)
  show ?thesis
    using r ok c [of 1] row
    by (simp add: f item_live_def demo_message_def)
qed

end
