(* ===== verification/Outbound.thy ===== *)
theory Outbound imports StoreOutbox begin

text \<open>
  Package \<open>internal/outbound\<close>: the worker that drains the queue with exponential backoff.
  The SMTP sender is outside: \<open>send n item\<close> is the outcome of the \<open>n\<close>-th call of
  \<open>Sender.Send\<close> (\<open>None\<close>: accepted, \<open>Some e\<close>: the error text). The worker keeps the list of
  calls it made with their outcomes, so the theorems can relate rows to deliveries. The
  ticker of \<open>Run\<close> and the log are not modelled: a run is a sequence of \<open>Drain\<close>s.
\<close>

section \<open>Backoff\<close>

definition nsecond :: int where "nsecond = 1000000000"
definition nminute :: int where "nminute = 60 * nsecond"

(* src: internal/outbound/worker.go 15-23 MaxAttempts *)
definition MaxAttempts :: int where "MaxAttempts = 20"
definition maxBackoff :: int where "maxBackoff = 60 * nminute"

text \<open>The shift is on \<open>int64\<close>: it wraps, and a count of 64 or more gives 0.\<close>

(* src: internal/outbound/worker.go 25-35 Backoff *)
definition Backoff :: "int \<Rightarrow> int" where
  "Backoff attempts =
    (let attempts = (if attempts < 1 then 1 else attempts);
         d = wrap64 (nminute * 2 ^ nat (attempts - 1))
     in if d > maxBackoff \<or> d \<le> 0 then maxBackoff else d)"

section \<open>The worker\<close>

(* src: internal/outbound/worker.go 37-40 Enqueue *)
definition Enqueue :: "string \<Rightarrow> string list \<Rightarrow> string \<Rightarrow> (store, int) op" where
  "Enqueue envelopeFrom recipients raw = EnqueueOutbound envelopeFrom recipients raw"

text \<open>\<open>time.Now().Add(delay).Unix()\<close>: the delay is a whole number of seconds.\<close>

(* src: internal/outbound/worker.go 88-105 Worker.fail *)
definition fail_item :: "outbound \<Rightarrow> string \<Rightarrow> store \<Rightarrow> store" where
  "fail_item item err s =
    (let attempts = on_attempts item + 1 in
     if attempts \<ge> MaxAttempts then execE (RetryOutbound (on_id item) attempts 0 err True) s
     else execE (RetryOutbound (on_id item) attempts (nowUnix s + Backoff attempts div nsecond) err False) s)"

type_synonym sends = "(outbound \<times> string option) list"

(* src: internal/outbound/worker.go 74-85 Worker.Drain *)
fun drain_loop :: "(nat \<Rightarrow> outbound \<Rightarrow> string option) \<Rightarrow> outbound list \<Rightarrow> store \<times> sends \<Rightarrow> store \<times> sends" where
  "drain_loop send [] w = w"
| "drain_loop send (item # items) (s, log) =
    (let r = send (length log) item; log' = log @ [(item, r)] in
     case r of
       Some err \<Rightarrow> drain_loop send items (fail_item item err s, log')
     | None \<Rightarrow> drain_loop send items (execE (DeleteOutbound (on_id item)) s, log'))"

(* src: internal/outbound/worker.go 63-86 Worker.Drain *)
definition Drain :: "(nat \<Rightarrow> outbound \<Rightarrow> string option) \<Rightarrow> bool \<Rightarrow> store \<times> sends \<Rightarrow> store \<times> sends" where
  "Drain send enabled w =
    (if \<not> enabled then w
     else case DueOutbound (nowUnix (fst w)) 20 (fst w) of
       (Inl e, s) \<Rightarrow> (s, snd w)
     | (Inr items, s) \<Rightarrow> drain_loop send items (s, snd w))"

section \<open>Backoff\<close>

lemma wrap_minute_large: "wrap64 (nminute * 2 ^ (54 + j)) = 0"
proof -
  have "(2::int) ^ 64 dvd nminute * 2 ^ (54 + j)"
    by (rule dvdI [of _ _ "58593750 * 2 ^ j"]) (simp add: nminute_def nsecond_def power_add)
  then have "(nminute * 2 ^ (54 + j)) mod 2 ^ 64 = 0" by (rule dvd_imp_mod_0)
  then have "(nminute * 2 ^ (54 + j) + 2 ^ 63) mod 2 ^ 64 = ((2::int) ^ 63) mod 2 ^ 64"
    by (metis (no_types) add.left_neutral mod_add_left_eq)
  then show ?thesis by (simp only: wrap64_def) simp
qed

lemma backoff_small:
  "list_all (\<lambda>k. (let d = wrap64 (nminute * 2 ^ k) in if d > maxBackoff \<or> d \<le> 0 then maxBackoff else d) =
     min maxBackoff (nminute * 2 ^ k)) [0..<54]"
  by code_simp

text \<open>The delay before attempt \<open>n + 1\<close> is \<open>2 ^ (n - 1)\<close> minutes, capped at an hour, for every
  number of attempts: the shift of the 64-bit duration never lets an overflowed value
  through, and a count below one is treated as one.\<close>

theorem Backoff_exact:
  "Backoff attempts = min (60 * nminute) (nminute * 2 ^ nat (max 1 attempts - 1))"
proof -
  define k where "k = nat (max 1 attempts - 1)"
  have "nat ((if attempts < 1 then 1 else attempts) - 1) = k" by (simp add: k_def)
  then have b: "Backoff attempts =
      (let d = wrap64 (nminute * 2 ^ k) in if d > maxBackoff \<or> d \<le> 0 then maxBackoff else d)"
    by (simp add: Backoff_def Let_def)
  show ?thesis
  proof (cases "k < 54")
    case True
    then show ?thesis using backoff_small b by (simp add: k_def [symmetric] maxBackoff_def list_all_iff)
  next
    case False
    then obtain j where j: "k = 54 + j" using le_Suc_ex not_less by blast
    define p where "p = (2::int) ^ j"
    have "1 \<le> p" by (simp add: p_def)
    then have "60 \<le> 2 ^ 54 * p" by simp
    then have "(60::int) \<le> 2 ^ 54 * 2 ^ j" unfolding p_def .
    then have "60 * nminute \<le> nminute * 2 ^ k"
      by (simp add: j nminute_def nsecond_def power_add)
    then show ?thesis using b wrap_minute_large [of j] j by (simp add: k_def [symmetric] maxBackoff_def)
  qed
qed

section \<open>What one drain does to the queue\<close>

definition core :: "outbox_row \<Rightarrow> string \<times> string \<times> string \<times> int" where
  "core r = (ob_from r, ob_recipients r, ob_raw_path r, ob_created r)"

lemma loadOutboundRaw_Inr:
  "loadOutboundRaw x s = (Inr y, s') \<Longrightarrow> st_db s' = st_db s \<and> (\<exists>raw. y = x\<lparr>on_raw := raw\<rparr>)"
  by (auto simp: loadOutboundRaw_def bindE_def blobGet_def split: if_splits option.splits intro: exI [of _ "on_raw x"])

lemma load_all_Inr:
  "load_all xs s = (Inr ys, s') \<Longrightarrow> st_db s' = st_db s \<and> list_all2 (\<lambda>x y. \<exists>raw. y = x\<lparr>on_raw := raw\<rparr>) xs ys"
proof (induction xs arbitrary: s ys)
  case (Cons x xs)
  then obtain y s1 zs where "loadOutboundRaw x s = (Inr y, s1)" "load_all xs s1 = (Inr zs, s')" "ys = y # zs"
    by (auto simp: bindE_Inr_iff)
  with Cons.IH [of s1 zs] loadOutboundRaw_Inr [of x s y s1] show ?case by auto
qed simp

lemma load_all_Inl: "load_all xs s = (Inl e, s') \<Longrightarrow> st_db s' = st_db s"
proof (induction xs arbitrary: s)
  case (Cons x xs)
  show ?case
  proof (cases "loadOutboundRaw x s")
    case (Pair r s1)
    have "st_db s1 = st_db s"
      using Pair by (auto simp: loadOutboundRaw_def bindE_def blobGet_def split: if_splits option.splits)
    with Pair Cons show ?thesis
      by (cases r; cases "load_all xs s1"; cases "fst (load_all xs s1)") (auto simp: bindE_def)
  qed
qed simp

definition item_ok :: "db \<Rightarrow> outbound \<Rightarrow> bool" where
  "item_ok d x \<longleftrightarrow> (\<exists>r\<in>set (tb_outbox d). on_id x = ob_id r \<and> on_from x = ob_from r \<and>
     on_recipients x = splitOutboxRecipients (ob_recipients r) \<and> on_attempts x = ob_attempts r \<and>
     \<not> ob_failed r)"

lemma DueOutbound_items:
  assumes "db_ok (st_db s)" "DueOutbound t n s = (Inr items, s')"
  shows "st_db s' = st_db s" "\<forall>x\<in>set items. item_ok (st_db s) x" "distinct (map on_id items)"
    "\<forall>x\<in>set items. on_id x \<in> ob_id ` set (due_rows t (st_db s))"
proof -
  obtain s1 where l: "load_all (map outbound_of (limit_rows (if n \<le> 0 then 10 else n) (due_rows t (st_db s)))) s1 = (Inr items, s')"
    "st_db s1 = st_db s"
    using assms(2) by (auto simp: DueOutbound_def Let_def bindE_Inr_iff getAll_Inr_iff)
  let ?rows = "limit_rows (if n \<le> 0 then 10 else n) (due_rows t (st_db s))"
  have l2: "list_all2 (\<lambda>r y. \<exists>raw. y = (outbound_of r)\<lparr>on_raw := raw\<rparr>) ?rows items"
    using load_all_Inr [OF l(1)] by (simp add: list_all2_map1)
  show "st_db s' = st_db s" using load_all_Inr [OF l(1)] l(2) by simp
  have sub: "set ?rows \<subseteq> set (due_rows t (st_db s))" by (rule set_limit_rows)
  show "\<forall>x\<in>set items. item_ok (st_db s) x"
  proof
    fix x assume "x \<in> set items"
    then obtain r raw where "r \<in> set ?rows" "x = (outbound_of r)\<lparr>on_raw := raw\<rparr>"
      using l2 by (auto simp: list_all2_conv_all_nth in_set_conv_nth) (metis nth_mem)
    then show "item_ok (st_db s) x" using sub by (force simp: item_ok_def due_rows_set outbound_of_def)
  qed
  have ids: "map on_id items = map ob_id ?rows"
    using l2 by (induction rule: list_all2_induct) (auto simp: outbound_of_def)
  have "distinct (map ob_id (tb_outbox (st_db s)))"
    using db_okD_outbox [OF assms(1)] by (simp add: ids_ok_map strict_sorted_iff)
  then have "distinct (map ob_id (due_rows t (st_db s)))"
    by (auto simp: due_rows_def distinct_map intro: inj_on_subset)
  then have "distinct (map ob_id ?rows)" by (auto simp: limit_rows_def take_map [symmetric] distinct_take)
  then show "distinct (map on_id items)" by (simp only: ids)
  have "set (map on_id items) \<subseteq> ob_id ` set (due_rows t (st_db s))" unfolding ids using sub by auto
  then show "\<forall>x\<in>set items. on_id x \<in> ob_id ` set (due_rows t (st_db s))" by auto
qed

lemma execE_exec: "st_db (execE (exec f) s) = st_db s \<or> st_db (execE (exec f) s) = f (st_db s)"
  by (auto simp: execE_def exec_def sql_def)

lemma fail_item_rows:
  "tb_outbox (st_db (fail_item x e s)) = tb_outbox (st_db s) \<or>
   (\<exists>b t. tb_outbox (st_db (fail_item x e s)) = update_where (\<lambda>r. ob_id r = on_id x)
      (\<lambda>r. r\<lparr>ob_attempts := on_attempts x + 1, ob_next_attempt := t, ob_last_error := e, ob_failed := b\<rparr>)
      (tb_outbox (st_db s)) \<and> (b \<longleftrightarrow> MaxAttempts \<le> on_attempts x + 1))"
proof -
  define b where "b = (MaxAttempts \<le> on_attempts x + 1)"
  define t where "t = (if b then 0 else nowUnix s + Backoff (on_attempts x + 1) div nsecond)"
  let ?f = "\<lambda>r. r\<lparr>ob_attempts := on_attempts x + 1, ob_next_attempt := t, ob_last_error := e, ob_failed := b\<rparr>"
  have "fail_item x e s = execE (exec (upd_outbox (on_id x) ?f)) s"
    by (simp add: fail_item_def Let_def RetryOutbound_def b_def t_def)
  then have "st_db (fail_item x e s) = st_db s \<or> st_db (fail_item x e s) = upd_outbox (on_id x) ?f (st_db s)"
    using execE_exec by simp
  then show ?thesis
  proof
    assume "st_db (fail_item x e s) = upd_outbox (on_id x) ?f (st_db s)"
    then have "tb_outbox (st_db (fail_item x e s)) = update_where (\<lambda>r. ob_id r = on_id x) ?f (tb_outbox (st_db s))"
      by (simp add: upd_outbox_def)
    then show ?thesis unfolding b_def by blast
  qed simp
qed

lemma fail_item_row:
  assumes "r \<in> set (tb_outbox (st_db s))"
  shows "\<exists>r1\<in>set (tb_outbox (st_db (fail_item x e s))). ob_id r1 = ob_id r \<and> core r1 = core r"
  using fail_item_rows [of x e s]
proof
  assume "tb_outbox (st_db (fail_item x e s)) = tb_outbox (st_db s)"
  then show ?thesis using assms by auto
next
  assume "\<exists>b t. tb_outbox (st_db (fail_item x e s)) = update_where (\<lambda>r. ob_id r = on_id x)
      (\<lambda>r. r\<lparr>ob_attempts := on_attempts x + 1, ob_next_attempt := t, ob_last_error := e, ob_failed := b\<rparr>)
      (tb_outbox (st_db s)) \<and> (b \<longleftrightarrow> MaxAttempts \<le> on_attempts x + 1)"
  then obtain b t where u: "tb_outbox (st_db (fail_item x e s)) = update_where (\<lambda>r. ob_id r = on_id x)
      (\<lambda>r. r\<lparr>ob_attempts := on_attempts x + 1, ob_next_attempt := t, ob_last_error := e, ob_failed := b\<rparr>)
      (tb_outbox (st_db s))" by blast
  let ?r = "if ob_id r = on_id x then r\<lparr>ob_attempts := on_attempts x + 1, ob_next_attempt := t,
      ob_last_error := e, ob_failed := b\<rparr> else r"
  have "?r \<in> set (tb_outbox (st_db (fail_item x e s)))"
    unfolding u update_where_def using assms by (auto intro: rev_image_eqI)
  moreover have "ob_id ?r = ob_id r" "core ?r = core r" by (simp_all add: core_def)
  ultimately show ?thesis by blast
qed

lemma DeleteOutbound_rows:
  "tb_outbox (st_db (execE (DeleteOutbound i) s)) = tb_outbox (st_db s) \<or>
   tb_outbox (st_db (execE (DeleteOutbound i) s)) = filter (\<lambda>r. ob_id r \<noteq> i) (tb_outbox (st_db s))"
proof -
  let ?q = "get_row (\<lambda>d. map ob_raw_path (filter (\<lambda>r. ob_id r = i) (tb_outbox d)))"
  let ?del = "exec (\<lambda>d. d\<lparr>tb_outbox := filter (\<lambda>r. ob_id r \<noteq> i) (tb_outbox d)\<rparr>)"
  obtain r s1 where q: "?q s = (r, s1)" by (cases "?q s")
  have s1: "st_db s1 = st_db s"
    using q by (auto simp: get_row_def sql_def split: if_splits list.splits sum.splits prod.splits)
  obtain r2 s2 where e: "?del s1 = (r2, s2)" by (cases "?del s1")
  have s2: "tb_outbox (st_db s2) = tb_outbox (st_db s) \<or>
      tb_outbox (st_db s2) = filter (\<lambda>r. ob_id r \<noteq> i) (tb_outbox (st_db s))"
    using e s1 execE_exec [of "\<lambda>d. d\<lparr>tb_outbox := filter (\<lambda>r. ob_id r \<noteq> i) (tb_outbox d)\<rparr>" s1]
    by (auto simp: execE_def)
  have rm: "st_db (execE (blobRemove p) s2) = st_db s2" for p
    by (simp add: execE_def blobRemove_def)
  show ?thesis
    using s1 s2 e rm by (cases r; cases r2) (auto simp: DeleteOutbound_def q execE_def bindE_def)
qed

lemma drain_loop_log:
  "\<exists>new. snd (drain_loop send items (s, log)) = log @ new \<and> map fst new = items"
proof (induction items arbitrary: s log)
  case (Cons x xs)
  show ?case
    using Cons.IH [of "execE (DeleteOutbound (on_id x)) s" "log @ [(x, send (length log) x)]"]
      Cons.IH [of "fail_item x (the (send (length log) x)) s" "log @ [(x, send (length log) x)]"]
    by (cases "send (length log) x") (auto simp: Let_def)
qed simp

lemma drain_loop_shift:
  "\<exists>new. drain_loop send items (s, pre @ log) = (fst (drain_loop (\<lambda>n. send (n + length pre)) items (s, log)), pre @ new) \<and>
     snd (drain_loop (\<lambda>n. send (n + length pre)) items (s, log)) = new"
proof (induction items arbitrary: s log)
  case (Cons x xs)
  let ?r = "send (length pre + length log) x"
  show ?case
    using Cons.IH [of "execE (DeleteOutbound (on_id x)) s" "log @ [(x, ?r)]"]
      Cons.IH [of "fail_item x (the ?r) s" "log @ [(x, ?r)]"]
    by (cases ?r) (simp_all add: Let_def add.commute)
qed simp

lemma drain_loop_keeps_row:
  assumes "r \<in> set (tb_outbox (st_db s))"
    and "\<forall>x. (x, None) \<in> set (snd (drain_loop send items (s, log))) \<longrightarrow> on_id x = ob_id r \<longrightarrow> (x, None) \<in> set log"
    and "\<forall>x. (x, None) \<in> set log \<longrightarrow> on_id x \<noteq> ob_id r"
  shows "\<exists>r'\<in>set (tb_outbox (st_db (fst (drain_loop send items (s, log))))). ob_id r' = ob_id r \<and> core r' = core r"
  using assms
proof (induction items arbitrary: s log r)
  case (Cons x xs)
  let ?log = "log @ [(x, send (length log) x)]"
  show ?case
  proof (cases "send (length log) x")
    case None
    let ?s = "execE (DeleteOutbound (on_id x)) s"
    obtain new where "snd (drain_loop send xs (?s, ?log)) = ?log @ new"
      using drain_loop_log [of send xs ?s ?log] by blast
    then have "(x, None) \<in> set (snd (drain_loop send (x # xs) (s, log)))" using None by simp
    then have ne: "on_id x \<noteq> ob_id r" using Cons.prems(2,3) by blast
    have "r \<in> set (tb_outbox (st_db ?s))"
      using DeleteOutbound_rows [of "on_id x" s] Cons.prems(1) ne by auto
    moreover have "snd (drain_loop send (x # xs) (s, log)) = snd (drain_loop send xs (?s, ?log))"
      "fst (drain_loop send (x # xs) (s, log)) = fst (drain_loop send xs (?s, ?log))" using None by simp_all
    moreover have "(y, None) \<in> set ?log \<longleftrightarrow> (y, None) \<in> set log \<or> y = x" for y using None by auto
    ultimately show ?thesis
      using Cons.IH [of r ?s ?log] Cons.prems(2,3) ne by metis
  next
    case (Some e)
    let ?s = "fail_item x e s"
    obtain r1 where r1: "r1 \<in> set (tb_outbox (st_db ?s))" "ob_id r1 = ob_id r" "core r1 = core r"
      using fail_item_row [OF Cons.prems(1)] by blast
    have "\<exists>r'\<in>set (tb_outbox (st_db (fst (drain_loop send xs (?s, ?log))))). ob_id r' = ob_id r1 \<and> core r' = core r1"
      using Cons.prems(2,3) Some r1(2) by (intro Cons.IH r1(1)) auto
    then show ?thesis using Some r1(2,3) by simp
  qed
qed auto

lemma keeps_fail_item: "store_ok s \<Longrightarrow> store_ok (fail_item x e s)"
  by (simp add: fail_item_def Let_def keeps_execE keeps_outbox_updates)

lemma drain_loop_ok: "store_ok s \<Longrightarrow> store_ok (fst (drain_loop send items (s, log)))"
proof (induction items arbitrary: s log)
  case (Cons x xs)
  have "store_ok (execE (DeleteOutbound (on_id x)) s)" "\<And>e. store_ok (fail_item x e s)"
    using Cons.prems by (simp_all add: keeps_execE keeps_DeleteOutbound keeps_fail_item)
  with Cons.IH show ?case by (simp add: Let_def split: option.split)
qed simp

lemma Drain_ok: "store_ok s \<Longrightarrow> store_ok (fst (Drain send en (s, log)))"
proof -
  assume s: "store_ok s"
  show ?thesis
  proof (cases "DueOutbound (nowUnix s) 20 s")
    case (Pair r s1)
    then have "store_ok s1" using keepsD_eq [OF keeps_outbox_reads(1) s] by blast
    then show ?thesis using s drain_loop_ok Pair by (cases r) (simp_all add: Drain_def)
  qed
qed

definition row_bounds :: "outbox_row \<Rightarrow> bool" where
  "row_bounds r \<longleftrightarrow> 0 \<le> ob_attempts r \<and> ob_attempts r \<le> MaxAttempts \<and>
     (ob_failed r \<or> ob_attempts r < MaxAttempts)"

definition queue_bounds :: "db \<Rightarrow> bool" where
  "queue_bounds d \<longleftrightarrow> (\<forall>r\<in>set (tb_outbox d). row_bounds r)"

lemma fail_item_bounds:
  assumes "queue_bounds (st_db s)" "0 \<le> on_attempts x" "on_attempts x < MaxAttempts"
  shows "queue_bounds (st_db (fail_item x e s))"
  using fail_item_rows [of x e s] assms
  by (auto simp: queue_bounds_def set_update_where row_bounds_def)

lemma delete_bounds: "queue_bounds (st_db s) \<Longrightarrow> queue_bounds (st_db (execE (DeleteOutbound i) s))"
  using DeleteOutbound_rows [of i s] by (auto simp: queue_bounds_def)

lemma drain_loop_bounds:
  "queue_bounds (st_db s) \<Longrightarrow> \<forall>x\<in>set items. 0 \<le> on_attempts x \<and> on_attempts x < MaxAttempts \<Longrightarrow>
   queue_bounds (st_db (fst (drain_loop send items (s, log))))"
proof (induction items arbitrary: s log)
  case (Cons x xs)
  then have "queue_bounds (st_db (execE (DeleteOutbound (on_id x)) s))" "\<And>e. queue_bounds (st_db (fail_item x e s))"
    by (simp_all add: delete_bounds fail_item_bounds)
  with Cons show ?case by (simp add: Let_def split: option.split)
qed simp

lemma item_bounds:
  assumes "item_ok d x" "queue_bounds d" shows "0 \<le> on_attempts x" "on_attempts x < MaxAttempts"
proof -
  obtain r where "r \<in> set (tb_outbox d)" "on_attempts x = ob_attempts r" "\<not> ob_failed r"
    using assms(1) by (auto simp: item_ok_def)
  then show "0 \<le> on_attempts x" "on_attempts x < MaxAttempts"
    using assms(2) by (auto simp: queue_bounds_def row_bounds_def)
qed

section \<open>The queue as a state machine\<close>

text \<open>
  One step of the system on the queue: a message is queued, the worker drains, an
  administrator retries a message, time passes.
\<close>

inductive queue_step :: "store \<times> sends \<Rightarrow> store \<times> sends \<Rightarrow> bool" where
  enqueue: "queue_step (s, log) (execE (Enqueue f rs raw) s, log)"
| drain: "queue_step w (Drain send en w)"
| retry: "queue_step (s, log) (execE (RetryOutboundNow i) s, log)"
| tick: "t \<ge> st_now s \<Longrightarrow> queue_step (s, log) (s\<lparr>st_now := t\<rparr>, log)"

lemma enqueue_bounds:
  assumes "queue_bounds (st_db s)" shows "queue_bounds (st_db (execE (Enqueue f rs raw) s))"
proof -
  have upd: "queue_bounds d \<Longrightarrow> queue_bounds (upd_outbox i (\<lambda>r. r\<lparr>ob_raw_path := p\<rparr>) d)" for d i p
    by (auto simp: queue_bounds_def upd_outbox_def set_update_where row_bounds_def)
  let ?r = "\<lparr>ob_id = 0, ob_from = f, ob_recipients = join '','' rs, ob_raw_path = [], ob_attempts = 0,
      ob_last_error = [], ob_next_attempt = 0, ob_failed = False, ob_created = nowUnix s\<rparr>"
  obtain r a where a: "sql (insert_outbox ?r) s = (r, a)" by (cases "sql (insert_outbox ?r) s")
  have qa: "queue_bounds (st_db a)"
    using a assms by (auto simp: sql_def insert_outbox_def Let_def queue_bounds_def row_bounds_def MaxAttempts_def
        split: if_splits)
  have rest: "queue_bounds (st_db (snd (bindE (blobPut p raw) (\<lambda>_. bindE (exec (upd_outbox i (\<lambda>r. r\<lparr>ob_raw_path := p\<rparr>)))
      (\<lambda>_. okE i)) a)))" for p i
    using qa upd by (auto simp: bindE_def blobPut_def exec_def sql_def split: if_splits)
  show ?thesis
    using rest qa assms a
    by (cases r) (auto simp: execE_def Enqueue_def EnqueueOutbound_def Let_def bindE_def [of "sql _"])
qed

lemma queue_step_inv:
  assumes "queue_step w w'" "store_ok (fst w)" "queue_bounds (st_db (fst w))"
  shows "store_ok (fst w') \<and> queue_bounds (st_db (fst w'))"
  using assms
proof (induction rule: queue_step.induct)
  case (enqueue s log f rs raw)
  then show ?case using enqueue_bounds [of s f rs raw]
    by (simp add: Enqueue_def keeps_execE keeps_EnqueueOutbound)
next
  case (drain w send en)
  obtain s log where w: "w = (s, log)" by (cases w)
  have "queue_bounds (st_db (fst (Drain send en (s, log))))"
  proof (cases "DueOutbound (nowUnix s) 20 s")
    case (Pair r s1)
    have "st_db s1 = st_db s" if "r = Inl e" for e
      using Pair that load_all_Inl by (fastforce simp: DueOutbound_def Let_def bindE_def getAll_def sql_def
          split: if_splits)
    moreover have "st_db s1 = st_db s" "\<forall>x\<in>set items. 0 \<le> on_attempts x \<and> on_attempts x < MaxAttempts"
      if "r = Inr items" for items
      using DueOutbound_items [of s "nowUnix s" 20 items s1] Pair that drain(1,2) w
      by (auto simp: store_ok_def dest: item_bounds)
    ultimately show ?thesis
      using drain(2) w Pair drain_loop_bounds by (cases r) (auto simp: Drain_def)
  qed
  then show ?case using Drain_ok drain(1) w by simp
next
  case (retry s log i)
  have "store_ok (execE (RetryOutboundNow i) s)"
    using retry by (simp add: keeps_execE keeps_outbox_updates)
  moreover have "queue_bounds (st_db (execE (RetryOutboundNow i) s))"
    using execE_exec [of "upd_outbox i (\<lambda>r. r\<lparr>ob_failed := False, ob_attempts := 0, ob_next_attempt := 0, ob_last_error := []\<rparr>)" s] retry
    by (auto simp: RetryOutboundNow_def queue_bounds_def upd_outbox_def set_update_where row_bounds_def MaxAttempts_def)
  ultimately show ?case by simp
next
  case (tick t s log)
  then show ?case by (simp add: store_ok_def)
qed

section \<open>Properties\<close>

text \<open>In every state the queue can reach from an empty one, by queueing, draining (with any
  outcomes of the sender and any failing statements), manual retries and the passing of time,
  a message has been attempted at most \<open>MaxAttempts\<close> times, and one that is not marked
  failed has attempts left.\<close>

theorem attempts_bounded:
  assumes "queue_step\<^sup>*\<^sup>* (s0, []) (s, log)" "store_ok s0" "tb_outbox (st_db s0) = []"
  shows "\<forall>r\<in>set (tb_outbox (st_db s)). 0 \<le> ob_attempts r \<and> ob_attempts r \<le> MaxAttempts \<and>
    (\<not> ob_failed r \<longrightarrow> ob_attempts r < MaxAttempts)"
proof -
  have "store_ok (fst (s, log)) \<and> queue_bounds (st_db (fst (s, log)))"
    using assms(1)
  proof (induction rule: rtranclp_induct)
    case base
    then show ?case using assms(2,3) by (simp add: queue_bounds_def)
  next
    case (step w w')
    then show ?case using queue_step_inv by blast
  qed
  then show ?thesis by (auto simp: queue_bounds_def row_bounds_def)
qed

theorem attempts_bounded_witness:
  "let s1 = execE (Enqueue ''u@x'' [''a@y''] ''mime'') demo_store;
       s2 = fst (Drain (\<lambda>_ _. Some ''refused'') True (s1, []))
   in map ob_attempts (tb_outbox (st_db s2)) = [1] \<and>
      (\<forall>r\<in>set (tb_outbox (st_db s2)). ob_attempts r \<le> MaxAttempts)"
proof -
  define s1 where "s1 = execE (Enqueue ''u@x'' [''a@y''] ''mime'') demo_store"
  define w where "w = Drain (\<lambda>_ _. Some ''refused'') True (s1, [])"
  have r: "queue_step\<^sup>*\<^sup>* (demo_store, []) (fst w, snd w)"
    using queue_step.enqueue [of demo_store "[]" "''u@x''" "[''a@y'']" "''mime''"]
      queue_step.drain [of "(s1, [])" "\<lambda>_ _. Some ''refused''" True]
    unfolding w_def s1_def prod.collapse by (meson converse_rtranclp_into_rtranclp r_into_rtranclp)
  have e: "tb_outbox (st_db demo_store) = []" by (simp add: demo_defs)
  have "map ob_attempts (tb_outbox (st_db (fst w))) = [1]"
    by (simp add: w_def s1_def Drain_def DueOutbound_def due_rows_def limit_rows_def bindE_def getAll_def
        sql_no_fault Enqueue_def EnqueueOutbound_def execE_def Let_def insert_outbox_def blobPut_def exec_def
        demo_defs nowUnix_def loadOutboundRaw_def outbound_of_def upd_outbox_def blobKey_def blobGet_def
        fail_item_def MaxAttempts_def RetryOutbound_def)
  then show ?thesis
    using attempts_bounded [OF r demo_ok e] unfolding s1_def [symmetric] w_def [symmetric] Let_def by simp
qed

text \<open>C33: a drain removes a message from the queue only after the sender accepted it: a row for
  which no call of this drain succeeded is still there, with its sender, recipients and source
  key, whatever else failed.\<close>

theorem Drain_no_loss:
  assumes "Drain send en (s, log) = (s', log')" "r \<in> set (tb_outbox (st_db s))"
    and "\<forall>x. (x, None) \<in> set (drop (length log) log') \<longrightarrow> on_id x \<noteq> ob_id r"
  shows "\<exists>r'\<in>set (tb_outbox (st_db s')). ob_id r' = ob_id r \<and> core r' = core r"
proof (cases "DueOutbound (nowUnix s) 20 s")
  case (Pair q s1)
  show ?thesis
  proof (cases "\<not> en \<or> (\<exists>e. q = Inl e)")
    case True
    moreover have "st_db s1 = st_db s" if "q = Inl e" for e
      using Pair that load_all_Inl by (fastforce simp: DueOutbound_def Let_def bindE_def getAll_def sql_def
          split: if_splits)
    ultimately show ?thesis using assms(1,2) Pair by (cases en) (auto simp: Drain_def)
  next
    case False
    then obtain items where q: "q = Inr items" and en: en by (cases q) auto
    have d: "st_db s1 = st_db s"
      using Pair q load_all_Inr by (fastforce simp: DueOutbound_def Let_def bindE_Inr_iff getAll_Inr_iff)
    have l: "drain_loop send items (s1, log) = (s', log')" using assms(1) Pair q en by (simp add: Drain_def)
    obtain new where new: "log' = log @ new" "map fst new = items"
      using drain_loop_log [of send items s1 log] l by auto
    have "\<forall>x. (x, None) \<in> set new \<longrightarrow> on_id x \<noteq> ob_id r" using assms(3) new(1) by simp
    moreover obtain l0 where l0: "drain_loop (\<lambda>n. send (n + length log)) items (s1, []) = (s', new)"
      using drain_loop_shift [of send items s1 log "[]"] l new(1) by auto
    ultimately show ?thesis
      using drain_loop_keeps_row [of r s1 "\<lambda>n. send (n + length log)" items "[]"] assms(2) d by auto
  qed
qed

definition demo_row :: "int \<Rightarrow> string \<Rightarrow> string \<Rightarrow> outbox_row" where
  "demo_row i rcpt key = \<lparr>ob_id = i, ob_from = ''u@x'', ob_recipients = rcpt, ob_raw_path = key,
     ob_attempts = 0, ob_last_error = [], ob_next_attempt = 0, ob_failed = False, ob_created = 5\<rparr>"

definition queue_store :: store where
  "queue_store = demo_store\<lparr>st_db := demo_db\<lparr>tb_outbox := [demo_row 1 ''a@y'' ''k1'', demo_row 2 ''b@y'' ''k2''],
     sq_outbox := 2\<rparr>, st_blobs := Some [''k1'' \<mapsto> ''one'', ''k2'' \<mapsto> ''two'']\<rparr>"

lemma queue_store_ok: "store_ok queue_store"
  using demo_ok by (simp add: store_ok_def queue_store_def db_ok_def db_parts demo_row_def ids_ok_def)

lemmas drain_eval = Drain_def DueOutbound_def due_rows_def limit_rows_def bindE_def getAll_def sql_no_fault
  execE_def Let_def exec_def queue_store_def nowUnix_def loadOutboundRaw_def outbound_of_def upd_outbox_def
  blobGet_def fail_item_def MaxAttempts_def RetryOutbound_def DeleteOutbound_def get_row_def blobRemove_def
  demo_row_def

theorem Drain_no_loss_witness:
  "map ob_recipients (tb_outbox (st_db (fst (Drain (\<lambda>n _. if n = 0 then None else Some ''refused'') True
     (queue_store, []))))) = [''b@y''] \<and>
   (\<exists>r'\<in>set (tb_outbox (st_db (fst (Drain (\<lambda>n _. if n = 0 then None else Some ''refused'') True
     (queue_store, []))))). ob_id r' = 2)"
proof -
  let ?send = "\<lambda>n (_::outbound). if n = (0::nat) then None else Some ''refused''"
  obtain s' log' where d: "Drain ?send True (queue_store, []) = (s', log')"
    by (cases "Drain ?send True (queue_store, [])")
  have e: "map ob_recipients (tb_outbox (st_db (fst (Drain ?send True (queue_store, []))))) = [''b@y'']"
    "map (\<lambda>(x, r). (on_id x, r)) (snd (Drain ?send True (queue_store, []))) = [(1, None), (2, Some ''refused'')]"
    by (simp_all add: drain_eval)
  have r: "\<exists>r\<in>set (tb_outbox (st_db queue_store)). ob_id r = 2"
    by (simp add: queue_store_def demo_row_def)
  then obtain r where r: "r \<in> set (tb_outbox (st_db queue_store))" "ob_id r = 2" by blast
  have "\<forall>x. (x, None) \<in> set (drop (length ([]::sends)) log') \<longrightarrow> on_id x \<noteq> ob_id r"
  proof (intro allI impI)
    fix x assume "(x, None) \<in> set (drop (length ([]::sends)) log')"
    then have "(on_id x, None) \<in> set (map (\<lambda>(x, r). (on_id x, r)) log')" by force
    then show "on_id x \<noteq> ob_id r" using e(2) d r(2) by auto
  qed
  from Drain_no_loss [OF d r(1) this] e(1) r(2) d show ?thesis by auto
qed

text \<open>C34: a drain only sends messages that are due and not marked failed, each at most once,
  to exactly the stored recipients.\<close>

theorem Drain_sends_due:
  assumes "store_ok s" "Drain send en (s, log) = (s', log')"
  shows "\<exists>new. log' = log @ new \<and> distinct (map (on_id \<circ> fst) new) \<and>
    (\<forall>(x, res)\<in>set new. \<exists>r\<in>set (due_rows (nowUnix s) (st_db s)). on_id x = ob_id r \<and> on_from x = ob_from r \<and>
       on_recipients x = splitOutboxRecipients (ob_recipients r) \<and> \<not> ob_failed r \<and> ob_next_attempt r \<le> nowUnix s)"
proof (cases "DueOutbound (nowUnix s) 20 s")
  case (Pair q s1)
  show ?thesis
  proof (cases "\<not> en \<or> (\<exists>e. q = Inl e)")
    case True
    then show ?thesis using assms(2) Pair by (cases en) (auto simp: Drain_def)
  next
    case False
    then obtain items where q: "q = Inr items" and en: en by (cases q) auto
    have l: "drain_loop send items (s1, log) = (s', log')" using assms(2) Pair q en by (simp add: Drain_def)
    obtain new where new: "log' = log @ new" "map fst new = items"
      using drain_loop_log [of send items s1 log] l by auto
    have d: "db_ok (st_db s)" using assms(1) by (simp add: store_ok_def)
    note it = DueOutbound_items [OF d Pair [unfolded q]]
    have "\<exists>r\<in>set (due_rows (nowUnix s) (st_db s)). on_id x = ob_id r \<and> on_from x = ob_from r \<and>
       on_recipients x = splitOutboxRecipients (ob_recipients r) \<and> \<not> ob_failed r \<and> ob_next_attempt r \<le> nowUnix s"
      if x: "x \<in> set items" for x
    proof -
      obtain r where r: "r \<in> set (tb_outbox (st_db s))" "on_id x = ob_id r" "on_from x = ob_from r"
        "on_recipients x = splitOutboxRecipients (ob_recipients r)" "\<not> ob_failed r"
        using it(2) x by (auto simp: item_ok_def)
      obtain r' where r': "r' \<in> set (due_rows (nowUnix s) (st_db s))" "on_id x = ob_id r'"
        using it(4) x by auto
      then have "r' = r" using r ids_ok_unique [OF db_okD_outbox [OF d]] by (simp add: due_rows_set)
      with r r' show ?thesis by (auto simp: due_rows_set)
    qed
    then have "\<forall>(x, res)\<in>set new. \<exists>r\<in>set (due_rows (nowUnix s) (st_db s)). on_id x = ob_id r \<and> on_from x = ob_from r \<and>
       on_recipients x = splitOutboxRecipients (ob_recipients r) \<and> \<not> ob_failed r \<and> ob_next_attempt r \<le> nowUnix s"
      using new(2) by force
    moreover have "distinct (map (on_id \<circ> fst) new)" using it(3) new(2) by (metis map_map)
    ultimately show ?thesis using new(1) by blast
  qed
qed

theorem Drain_sends_due_witness:
  "\<exists>new. snd (Drain (\<lambda>_ _. None) True (queue_store, [])) = new \<and> distinct (map (on_id \<circ> fst) new) \<and>
     map (on_raw \<circ> fst) new = [''one'', ''two'']"
proof -
  obtain s' log' where d: "Drain (\<lambda>_ _. None) True (queue_store, []) = (s', log')"
    by (cases "Drain (\<lambda>_ _. None) True (queue_store, [])")
  have e: "map (on_raw \<circ> fst) (snd (Drain (\<lambda>_ _. None) True (queue_store, []))) = [''one'', ''two'']"
    by (simp add: drain_eval)
  from Drain_sends_due [OF queue_store_ok d] e d show ?thesis by auto
qed

text \<open>Queueing is not atomic. When the row is written but storing the source fails,
  \<open>EnqueueOutbound\<close> reports an error, yet the row stays in the queue with an empty source key,
  is due at once, and the next drain sends the recipients an empty message.\<close>

theorem partial_enqueue_sends_empty:
  assumes "st_blobs s = Some bm" "st_faults s = [False, True]" "tb_outbox (st_db s) = []" "0 \<le> nowUnix s"
  shows "\<exists>s' item. EnqueueOutbound f rs raw s = (Inl ErrBlob, s') \<and>
    snd (Drain send True (s', [])) = [(item, send 0 item)] \<and> on_raw item = [] \<and>
    on_recipients item = splitOutboxRecipients (join '','' rs)"
proof -
  let ?r = "\<lparr>ob_id = 0, ob_from = f, ob_recipients = join '','' rs, ob_raw_path = [], ob_attempts = 0,
      ob_last_error = [], ob_next_attempt = 0, ob_failed = False, ob_created = nowUnix s\<rparr>"
  let ?i = "sq_outbox (st_db s) + 1"
  let ?r' = "?r\<lparr>ob_id := ?i\<rparr>"
  define s1 where "s1 = (pop_fault s)\<lparr>st_db := (st_db s)\<lparr>tb_outbox := [?r'], sq_outbox := ?i\<rparr>\<rparr>"
  define s2 where "s2 = pop_fault s1"
  have 1: "sql (insert_outbox ?r) s = (Inr ?i, s1)"
    using assms(2,3) by (simp add: sql_def next_fault_def insert_outbox_def Let_def s1_def)
  have 2: "blobPut p raw s1 = (Inl ErrBlob, s2)" for p
    using assms(2) by (simp add: blobPut_def next_fault_def s1_def s2_def)
  have e: "EnqueueOutbound f rs raw s = (Inl ErrBlob, s2)"
    using assms(1) by (simp add: EnqueueOutbound_def bindE_def 1 2 Let_def)
  have f: "st_faults s2 = []" "nowUnix s2 = nowUnix s" "tb_outbox (st_db s2) = [?r']"
    using assms(2) by (simp_all add: s2_def s1_def nowUnix_def)
  let ?x = "outbound_of ?r'"
  have "DueOutbound (nowUnix s2) 20 s2 = (Inr [?x], s2)"
    using f assms(4) by (simp add: DueOutbound_def due_rows_def limit_rows_def bindE_def getAll_def sql_no_fault
        loadOutboundRaw_def outbound_of_def)
  then have "snd (Drain send True (s2, [])) = [(?x, send 0 ?x)]"
    by (simp add: Drain_def Let_def split: option.split)
  then show ?thesis using e by (intro exI [of _ s2] exI [of _ ?x]) (simp add: outbound_of_def)
qed

theorem partial_enqueue_sends_empty_witness:
  "\<exists>item. snd (Drain (\<lambda>_ _. None) True
     (snd (EnqueueOutbound ''u@x'' [] ''mime'' (demo_store\<lparr>st_faults := [False, True]\<rparr>)), [])) = [(item, None)] \<and>
     on_raw item = []"
  using partial_enqueue_sends_empty [of "demo_store\<lparr>st_faults := [False, True]\<rparr>" Map.empty "''u@x''" "[]" "''mime''" "\<lambda>_ _. None"]
  by (auto simp: nowUnix_def demo_defs)

end
