(* ===== verification/StoreAddresses.thy ===== *)
theory StoreAddresses imports StoreUsers begin

text \<open>
  What the operations of \<open>internal/store/aliases.go\<close> guarantee: the primary address of an
  account changes atomically, and a recipient address resolves to its account directly or by
  plus addressing.
\<close>

section \<open>Primary address\<close>

lemma find_update_None: "(\<And>x. P x \<Longrightarrow> \<not> P (f x)) \<Longrightarrow> find P (update_where P f xs) = None"
  by (induction xs) auto

lemma addresses_update:
  "al_address ` {a \<in> set (update_where P (\<lambda>a. a\<lparr>al_primary := b\<rparr>) as). al_user a = v} =
   al_address ` {a \<in> set as. al_user a = v}"
proof -
  have "map al_address (filter (\<lambda>a. al_user a = v) (update_where P (\<lambda>a. a\<lparr>al_primary := b\<rparr>) as)) =
      map al_address (filter (\<lambda>a. al_user a = v) as)" by (induction as) auto
  from arg_cong [OF this, of set] show ?thesis by simp
qed

lemma swap_primary_Inr:
  assumes "swap_primary v addr s = (Inr (), s')" "db_ok (st_db s)"
    and "\<forall>a\<in>set (tb_aliases (st_db s)). al_address a = addr \<longrightarrow> al_user a = v"
  shows "primary_address v (st_db s') = Some addr"
    "al_address ` {a \<in> set (tb_aliases (st_db s')). al_user a = v} =
       insert addr (al_address ` {a \<in> set (tb_aliases (st_db s)). al_user a = v})"
    "w \<noteq> v \<Longrightarrow> filter (\<lambda>a. al_user a = w) (tb_aliases (st_db s')) = filter (\<lambda>a. al_user a = w) (tb_aliases (st_db s))"
    "tb_users (st_db s') = tb_users (st_db s)"
    "find (\<lambda>a. al_address a = addr) (tb_aliases (st_db s')) =
       Some \<lparr>al_address = addr, al_user = v, al_primary = True, al_created = st_now s\<rparr>"
proof -
  let ?new = "\<lparr>al_address = addr, al_user = v, al_primary = True, al_created = st_now s\<rparr>"
  let ?as = "update_where (\<lambda>a. al_user a = v \<and> al_primary a) (\<lambda>a. a\<lparr>al_primary := False\<rparr>)
      (filter (\<lambda>a. al_address a \<noteq> addr) (tb_aliases (st_db s)))"
  have d': "tb_aliases (st_db s') = ?as @ [?new]" "tb_users (st_db s') = tb_users (st_db s)"
    using assms(1)
    by (auto simp: swap_primary_def bindE_Inr_iff exec_Inr_iff sql_Inr_iff insert_alias_def drop_alias_def
        clear_primary_def nowUnix_def split: if_splits)
  show "tb_users (st_db s') = tb_users (st_db s)" by (rule d')
  have none: "find (\<lambda>a. al_user a = v \<and> al_primary a) ?as = None"
    by (rule find_update_None) simp
  then show "primary_address v (st_db s') = Some addr"
    unfolding primary_address_def d'(1) find_append by simp
  have addr: "al_address a \<noteq> addr" if "a \<in> set ?as" for a
    using that by (auto simp: set_update_where)
  then have "find (\<lambda>a. al_address a = addr) ?as = None"
    unfolding find_None_iff2 by blast
  then show "find (\<lambda>a. al_address a = addr) (tb_aliases (st_db s')) = Some ?new"
    unfolding d'(1) find_append by simp
  show "al_address ` {a \<in> set (tb_aliases (st_db s')). al_user a = v} =
       insert addr (al_address ` {a \<in> set (tb_aliases (st_db s)). al_user a = v})"
  proof -
    have "al_address ` {a \<in> set ?as. al_user a = v} =
        al_address ` {a \<in> set (tb_aliases (st_db s)). al_user a = v} - {addr}"
      unfolding addresses_update by auto
    moreover have "al_address ` {a \<in> set (?as @ [?new]). al_user a = v} =
        insert addr (al_address ` {a \<in> set ?as. al_user a = v})"
    proof -
      have "{a \<in> set (?as @ [?new]). al_user a = v} = insert ?new {a \<in> set ?as. al_user a = v}" by auto
      then show ?thesis by simp
    qed
    ultimately show ?thesis unfolding d'(1) by simp
  qed
  show "filter (\<lambda>a. al_user a = w) (tb_aliases (st_db s')) = filter (\<lambda>a. al_user a = w) (tb_aliases (st_db s))"
    if "w \<noteq> v"
  proof -
    have "filter (\<lambda>a. al_user a = w) (update_where (\<lambda>a. al_user a = v \<and> al_primary a) (\<lambda>a. a\<lparr>al_primary := False\<rparr>)
        (filter (\<lambda>a. al_address a \<noteq> addr) as)) = filter (\<lambda>a. al_user a = w) as"
      if "\<forall>a\<in>set as. al_address a = addr \<longrightarrow> al_user a = v" for as
      using that \<open>w \<noteq> v\<close> by (induction as) auto
    from this [OF assms(3)] show ?thesis using that unfolding d'(1) by simp
  qed
qed

lemma existing_alias_eval:
  "existing_alias addr s = (if next_fault s then (Inl ErrDriver, pop_fault s)
     else (Inr (find (\<lambda>a. al_address a = normalizeEmail addr) (tb_aliases (st_db s))), pop_fault s))"
proof (cases "filter (\<lambda>a. al_address a = normalizeEmail addr) (tb_aliases (st_db s))")
  case Nil
  then have "find (\<lambda>a. al_address a = normalizeEmail addr) (tb_aliases (st_db s)) = None"
    by (simp only: find_None_iff filter_empty_conv) blast
  then show ?thesis using Nil by (simp add: existing_alias_def AliasByAddress_def get_row_def sql_def)
next
  case (Cons a as)
  then show ?thesis
    using filter_Cons_find [OF Cons] by (simp add: existing_alias_def AliasByAddress_def get_row_def sql_def)
qed

lemma is_space_lower [simp]: "is_space (lower_char c) = is_space c"
proof -
  have n: "\<not> is_space (char_of n)" if "65 \<le> n" "n \<le> 122" for n :: nat
    using that by (auto simp: is_space_def dest!: arg_cong [where f = "of_char :: char \<Rightarrow> nat"])
  have "\<not> is_space c" if "65 \<le> (of_char c :: nat)" "(of_char c :: nat) \<le> 122"
    using n [OF that] by simp
  then show ?thesis using n by (auto simp: lower_char_def Let_def)
qed

lemma lower_char_idem [simp]: "lower_char (lower_char c) = lower_char c"
  by (simp add: lower_char_def Let_def)

lemma trim_left_lower: "trim_left is_space (to_lower s) = to_lower (trim_left is_space s)"
  by (simp add: trim_left_def to_lower_def dropWhile_map comp_def)

lemma trim_right_lower: "trim_right is_space (to_lower s) = to_lower (trim_right is_space s)"
  by (simp add: trim_right_def to_lower_def rev_map dropWhile_map comp_def)

lemma trim_right_hd: "xs = [] \<or> \<not> P (hd xs) \<Longrightarrow> trim_right P xs = [] \<or> \<not> P (hd (trim_right P xs))"
proof -
  assume a: "xs = [] \<or> \<not> P (hd xs)"
  have "xs = trim_right P xs @ rev (takeWhile P (rev xs))"
    unfolding trim_right_def rev_append [symmetric] by simp
  then show ?thesis using a by (cases "trim_right P xs") (simp, metis append_Cons list.sel(1) list.distinct(1))
qed

lemma trim_space_idem: "trim_space (trim_space s) = trim_space s"
proof -
  let ?l = "trim_left is_space s"
  have "?l = [] \<or> \<not> is_space (hd ?l)" unfolding trim_left_def by (metis hd_dropWhile)
  from trim_right_hd [of ?l is_space, OF this]
  have "trim_left is_space (trim_right is_space ?l) = trim_right is_space ?l"
    by (rule trim_left_no_space)
  moreover have "trim_right is_space (trim_right is_space ?l) = trim_right is_space ?l"
    by (simp add: trim_right_def)
  ultimately show ?thesis by (simp add: trim_space_def)
qed

lemma normalizeEmail_idem [simp]: "normalizeEmail (normalizeEmail a) = normalizeEmail a"
proof -
  have "trim_space (to_lower t) = to_lower (trim_space t)" for t
    by (simp add: trim_space_def trim_left_lower trim_right_lower)
  moreover have "to_lower (to_lower t) = to_lower t" for t by (simp add: to_lower_def)
  ultimately show ?thesis by (simp add: normalizeEmail_def trim_space_idem)
qed

lemma bindE_read:
  assumes "bindE m f s = (r, s')" "st_db (snd (m s)) = st_db s" "\<not> (st_db s' = st_db s \<and> (\<exists>e. r = Inl e))"
  shows "\<exists>x t. m s = (Inr x, t) \<and> st_db t = st_db s \<and> f x t = (r, s')"
  using assms by (cases "m s"; cases "fst (m s)") (auto simp: bindE_def)

lemma alias_owned:
  assumes "db_ok d" "x = find (\<lambda>a. al_address a = adr) (tb_aliases d)" "x = None \<or> al_user (the x) = v"
  shows "\<forall>a\<in>set (tb_aliases d). al_address a = adr \<longrightarrow> al_user a = v"
proof (intro ballI impI)
  fix a assume a: "a \<in> set (tb_aliases d)" "al_address a = adr"
  then obtain b where b: "x = Some b" "b \<in> set (tb_aliases d)" "al_address b = adr"
    unfolding assms(2) by (cases "find (\<lambda>a. al_address a = adr) (tb_aliases d)")
      (auto simp: find_None_iff2 dest: find_SomeD)
  moreover have "distinct (map al_address (tb_aliases d))" using assms(1) by (rule db_okD_account)
  ultimately have "a = b" using a by (auto simp: distinct_map inj_on_def)
  then show "al_user a = v" using assms(3) b by simp
qed

lemma inTx_or_same:
  assumes "bindE (inTx m) f z = (r, s')" "\<not> (st_db s' = st_db z \<and> (\<exists>e. r = Inl e))"
  obtains x p where "m (pop_fault z) = (Inr x, p)" "f x (pop_fault p) = (r, s')"
proof (cases "inTx m z")
  case (Pair x y)
  show ?thesis
  proof (cases x)
    case (Inl e)
    then have "inTx m z = (Inl e, y)" using Pair by simp
    then show ?thesis using assms inTx_rollback [of m z e y] by auto
  next
    case (Inr w)
    then have q: "inTx m z = (Inr w, y)" using Pair by simp
    obtain p where "m (pop_fault z) = (Inr w, p)" "y = pop_fault p" using inTx_commit [OF q] by blast
    then show ?thesis using that q assms(1) by simp
  qed
qed

text \<open>A call that is not refused looks up the account and the alias, and swaps the address.\<close>

lemma SetPrimaryAddress_steps:
  assumes "SetPrimaryAddress v address s = (r, s')" "\<not> (st_db s' = st_db s \<and> (\<exists>e. r = Inl e))"
  obtains x z where "x = find (\<lambda>a. al_address a = normalizeEmail address) (tb_aliases (st_db s))"
    "x = None \<or> al_user (the x) = v" "st_db z = st_db s"
    "bindE (inTx (swap_primary v (normalizeEmail address))) (\<lambda>_. AliasByAddress (normalizeEmail address)) z = (r, s')"
proof -
  let ?a = "normalizeEmail address"
  have v: "validAddress ?a" using assms by (auto simp: SetPrimaryAddress_def Let_def split: if_splits)
  obtain u t where t: "st_db t = st_db s" and r1: "bindE (existing_alias ?a) (\<lambda>existing.
      if existing \<noteq> None \<and> al_user (the existing) \<noteq> v then failE ErrDuplicate
      else bindE (inTx (swap_primary v ?a)) (\<lambda>_. AliasByAddress ?a)) t = (r, s')"
    using bindE_read [of "UserByID v" _ s r s', OF _ UserByID_db assms(2)] assms(1) v
    by (auto simp: SetPrimaryAddress_def Let_def)
  have F: "\<not> (st_db s' = st_db t \<and> (\<exists>e. r = Inl e))" using assms(2) t by simp
  obtain x z where x: "existing_alias ?a t = (Inr x, z)" "st_db z = st_db t"
    and r2: "(if x \<noteq> None \<and> al_user (the x) \<noteq> v then failE ErrDuplicate
      else bindE (inTx (swap_primary v ?a)) (\<lambda>_. AliasByAddress ?a)) z = (r, s')"
    using bindE_read [OF r1 existing_alias_db F] by blast
  show ?thesis
  proof (rule that [of x z])
    show "x = find (\<lambda>a. al_address a = ?a) (tb_aliases (st_db s))"
      using x t by (simp add: existing_alias_eval split: if_splits)
    show "st_db z = st_db s" using x(2) t by simp
    then show "x = None \<or> al_user (the x) = v"
      "bindE (inTx (swap_primary v ?a)) (\<lambda>_. AliasByAddress ?a) z = (r, s')"
      using r2 assms(2) by (auto split: if_splits)
  qed
qed

text \<open>C36: setting the primary address is all or nothing. Either the tables are as before and there
  is an error, or the address is the primary one of the account, the account keeps every
  address it had and gains this one, the aliases of the other accounts are untouched, and the
  result is the new alias unless reading it back failed. An address that belongs to another
  account is refused.\<close>

theorem SetPrimaryAddress_atomic:
  assumes "store_ok s" "SetPrimaryAddress v address s = (r, s')"
  shows "(st_db s' = st_db s \<and> (\<exists>e. r = Inl e)) \<or>
    (primary_address v (st_db s') = Some (normalizeEmail address) \<and>
     al_address ` {a \<in> set (tb_aliases (st_db s')). al_user a = v} =
       insert (normalizeEmail address) (al_address ` {a \<in> set (tb_aliases (st_db s)). al_user a = v}) \<and>
     (\<forall>w. w \<noteq> v \<longrightarrow> filter (\<lambda>a. al_user a = w) (tb_aliases (st_db s')) =
                     filter (\<lambda>a. al_user a = w) (tb_aliases (st_db s))) \<and>
     (\<forall>a\<in>set (tb_aliases (st_db s)). al_address a = normalizeEmail address \<longrightarrow> al_user a = v) \<and>
     ((\<exists>t. r = Inr \<lparr>al_address = normalizeEmail address, al_user = v, al_primary = True, al_created = t\<rparr>) \<or>
      (\<exists>e. r = Inl e)))"
proof (cases "st_db s' = st_db s \<and> (\<exists>e. r = Inl e)")
  case False
  let ?a = "normalizeEmail address"
  have d: "db_ok (st_db s)" using assms(1) by (simp add: store_ok_def)
  obtain x z where x: "x = find (\<lambda>a. al_address a = ?a) (tb_aliases (st_db s))" "x = None \<or> al_user (the x) = v"
    and z: "st_db z = st_db s" "bindE (inTx (swap_primary v ?a)) (\<lambda>_. AliasByAddress ?a) z = (r, s')"
    using SetPrimaryAddress_steps [OF assms(2) False] .
  note own = alias_owned [OF d x]
  have "\<not> (st_db s' = st_db z \<and> (\<exists>e. r = Inl e))" using False z(1) by simp
  then obtain p where p: "swap_primary v ?a (pop_fault z) = (Inr (), p)" and b: "AliasByAddress ?a (pop_fault p) = (r, s')"
    using inTx_or_same [OF z(2)] by (metis (full_types) old.unit.exhaust)
  have sd: "st_db s' = st_db p"
    using arg_cong [OF b, of "\<lambda>x. st_db (snd x)"] by (simp only: AliasByAddress_db snd_conv pop_fault_simps)
  have pz: "st_db (pop_fault z) = st_db s" using z(1) by simp
  note S = swap_primary_Inr [OF p, unfolded pz, OF d own]
  have "(\<exists>t. r = Inr \<lparr>al_address = ?a, al_user = v, al_primary = True, al_created = t\<rparr>) \<or> (\<exists>e. r = Inl e)"
  proof (cases r)
    case (Inr x)
    then obtain xs where "filter (\<lambda>a. al_address a = ?a) (tb_aliases (st_db p)) = x # xs"
      using b by (auto simp: AliasByAddress_def get_row_Inr_iff)
    from filter_Cons_find [OF this] show ?thesis using S(5) Inr by auto
  qed simp
  then show ?thesis using S(1-3) own unfolding sd by blast
qed simp

theorem SetPrimaryAddress_atomic_witness:
  "\<exists>a s'. SetPrimaryAddress ''u'' ''box@y'' demo_store = (Inr a, s') \<and>
     primary_address ''u'' (st_db s') = Some ''box@y'' \<and> primary_address ''u'' demo_db = Some ''u@x'' \<and>
     al_address ` {a \<in> set (tb_aliases (st_db s')). al_user a = ''u''} = {''box@y'', ''u@x''}"
proof -
  have n: "normalizeEmail ''box@y'' = ''box@y''"
    by (simp add: normalizeEmail_def trim_space_def trim_left_def trim_right_def
        is_space_def to_lower_def lower_char_def)
  obtain a s' where c: "SetPrimaryAddress ''u'' ''box@y'' demo_store = (Inr a, s')"
    by (simp add: SetPrimaryAddress_def Let_def n validAddress_def contains_byte_def contains_any_def blanks_def
        UserByID_eval user_row_def existing_alias_def AliasByAddress_def get_row_def bindE_def sql_no_fault
        inTx_def swap_primary_def exec_def drop_alias_def clear_primary_def insert_alias_def wrapDuplicate_def
        nowUnix_def demo_defs primary_rows_def user_ids_def user_view_def primary_address_def)
  have "primary_address ''u'' demo_db = Some ''u@x''"
    by (simp add: primary_address_def demo_defs)
  moreover have "al_address ` {a \<in> set (tb_aliases demo_db). al_user a = ''u''} = {''u@x''}"
    unfolding set_filter [symmetric] by (simp add: demo_defs)
  ultimately show ?thesis using SetPrimaryAddress_atomic [OF demo_ok c] c n by auto
qed


section \<open>Resolving a recipient\<close>

definition alias_owner :: "db \<Rightarrow> string \<Rightarrow> user option" where
  "alias_owner d addr = (case find (\<lambda>a. al_address a = addr) (tb_aliases d) of
     None \<Rightarrow> None | Some a \<Rightarrow> user_row d (al_user a))"

lemma distinct_filter_find:
  assumes "distinct (map k xs)"
  shows "filter (\<lambda>x. k x = b) xs = (case find (\<lambda>x. k x = b) xs of None \<Rightarrow> [] | Some x \<Rightarrow> [x])"
  using assms
proof (induction xs)
  case (Cons x xs)
  then show ?case
    by (cases "k x = b") (auto simp: filter_empty_conv image_iff split: option.splits dest!: find_SomeD)
qed simp

lemma userByAlias_eval:
  assumes "store_ok s" "st_faults s = []"
  shows "userByAlias addr s = (case alias_owner (st_db s) addr of
     None \<Rightarrow> Inl ErrNotFound | Some u \<Rightarrow> Inr (user_view (st_db s) u), s)"
proof -
  have d: "distinct (map al_address (tb_aliases (st_db s)))" "distinct (map us_id (tb_users (st_db s)))"
    using assms(1) by (auto simp: store_ok_def intro: db_okD_account)
  show ?thesis
    unfolding userByAlias_def alias_owner_def user_row_def
    using assms(2)
    by (simp add: get_row_def sql_no_fault distinct_filter_find [OF d(1)] distinct_filter_find [OF d(2)]
        split: option.split)
qed

lemma last_index_byte_append:
  "c \<notin> set t \<Longrightarrow> last_index_byte (s @ c # t) c = Some (length s)"
proof -
  assume c: "c \<notin> set t"
  have "index_byte (xs @ c # ys) c = Some (length xs)" if "c \<notin> set xs" for xs ys
    using that by (induction xs) auto
  from this [of "rev t" "rev s"] c show ?thesis by (simp add: last_index_byte_def)
qed

lemma index_byte_append: "c \<notin> set s \<Longrightarrow> index_byte (s @ c # t) c = Some (length s)"
  by (induction s) auto

text \<open>A recipient address is resolved to the account of the exact alias when there is one,
  whatever the address looks like; an address with a tag after a plus sign that is not an
  alias itself reaches the account of the address without the tag, and when neither is an
  alias the result is the sentinel error for a missing row. The tables do not change.\<close>

theorem UserByAddress_resolves:
  assumes "store_ok s" "st_faults s = []" "normalizeEmail address = local @ CHR ''+'' # tag @ CHR ''@'' # host"
    and "local \<noteq> []" "CHR ''+'' \<notin> set local" "CHR ''@'' \<notin> set host"
  shows "UserByAddress address s =
    (case alias_owner (st_db s) (normalizeEmail address) of
       Some u \<Rightarrow> Inr (user_view (st_db s) u)
     | None \<Rightarrow> (case alias_owner (st_db s) (local @ CHR ''@'' # host) of
           Some u \<Rightarrow> Inr (user_view (st_db s) u)
         | None \<Rightarrow> Inl ErrNotFound), s)"
proof -
  let ?a = "normalizeEmail address" and ?b = "local @ CHR ''+'' # tag"
  have a: "?a = ?b @ CHR ''@'' # host" using assms(3) by simp
  have at: "last_index_byte ?a CHR ''@'' = Some (length ?b)"
    unfolding a by (rule last_index_byte_append) (rule assms(6))
  have take: "take (length ?b) ?a = ?b" "drop (length ?b) ?a = CHR ''@'' # host" unfolding a by simp_all
  have plus: "index_byte ?b CHR ''+'' = Some (length local)" by (rule index_byte_append) (rule assms(5))
  have ne: "?a \<noteq> []" "length ?b \<noteq> 0" "0 < length local" using a assms(4) by auto
  have "UserByAddress address s = (case userByAlias ?a s of (Inr u, s') \<Rightarrow> (Inr u, s')
     | (Inl e, s') \<Rightarrow> if e \<noteq> ErrNotFound then (Inl e, s')
         else userByAlias (local @ CHR ''@'' # host) s')"
    unfolding UserByAddress_def Let_def at option.case take plus
    using ne by (auto split: prod.split sum.split)
  then show ?thesis by (simp add: userByAlias_eval [OF assms(1,2)] split: option.split)
qed

theorem UserByAddress_resolves_witness:
  "fst (UserByAddress ''U+news@x'' demo_store) = Inr (demo_user\<lparr>us_address := ''u@x''\<rparr>)"
proof -
  have n: "normalizeEmail ''U+news@x'' = ''u'' @ CHR ''+'' # ''news'' @ CHR ''@'' # ''x''"
    by (simp add: normalizeEmail_def trim_space_def trim_left_def trim_right_def
        is_space_def to_lower_def lower_char_def char_of_def bit_Suc_0_iff)
  have "alias_owner demo_db ''u+news@x'' = None" "alias_owner demo_db ''u@x'' = Some demo_user"
    "user_view demo_db demo_user = demo_user\<lparr>us_address := ''u@x''\<rparr>"
    by (simp_all add: alias_owner_def user_row_def user_view_def primary_address_def demo_defs)
  then show ?thesis using UserByAddress_resolves [OF demo_ok _ n] n by simp
qed

section \<open>Deleting an account\<close>

lemma filter_other: "w \<noteq> i \<Longrightarrow> filter (\<lambda>x. k x \<noteq> i \<and> k x = w) xs = filter (\<lambda>x. k x = w) xs"
  by (induction xs) auto

text \<open>Deleting an account leaves no row that belongs to it or to one of its folders, in any
  table, and keeps every row of the other accounts: their folders, and the messages, contacts,
  events and sync records they have in folders of their own. All references stay valid.\<close>

theorem DeleteUser_spec:
  assumes "store_ok s" "DeleteUser i s = (Inr (), s')"
  shows "store_ok s' \<and> user_row (st_db s') i = None \<and>
    (\<forall>w. w \<noteq> i \<longrightarrow> user_row (st_db s') w = user_row (st_db s) w \<and>
       filter (\<lambda>f. fo_user f = w) (tb_folders (st_db s')) = filter (\<lambda>f. fo_user f = w) (tb_folders (st_db s)) \<and>
       filter (\<lambda>a. al_user a = w) (tb_aliases (st_db s')) = filter (\<lambda>a. al_user a = w) (tb_aliases (st_db s)) \<and>
       filter (\<lambda>v. dv_user v = w) (tb_devices (st_db s')) = filter (\<lambda>v. dv_user v = w) (tb_devices (st_db s))) \<and>
    (\<forall>f m. folder_row (st_db s) f \<noteq> None \<longrightarrow> fo_user (the (folder_row (st_db s) f)) \<noteq> i \<longrightarrow>
       ms_folder m = f \<longrightarrow> ms_user m \<noteq> i \<longrightarrow> m \<in> set (tb_messages (st_db s)) \<longrightarrow> m \<in> set (tb_messages (st_db s'))) \<and>
    (\<forall>m\<in>set (tb_messages (st_db s')). ms_user m \<noteq> i) \<and> (\<forall>f\<in>set (tb_folders (st_db s')). fo_user f \<noteq> i) \<and>
    (\<forall>r\<in>set (tb_states (st_db s')). ss_user r \<noteq> i) \<and> (\<forall>r\<in>set (tb_items (st_db s')). si_user r \<noteq> i) \<and>
    (\<forall>r\<in>set (tb_contacts (st_db s')). co_user r \<noteq> i) \<and> (\<forall>r\<in>set (tb_events (st_db s')). ev_user r \<noteq> i)"
proof -
  have ok: "store_ok s'" using keepsD [OF keeps_DeleteUser assms(1), of i] assms(2) by simp
  have rm: "st_db (fold (\<lambda>p. execE (blobRemove p)) ps t) = st_db t" for ps t
    by (induction ps arbitrary: t) (simp_all add: execE_def blobRemove_def)
  have pp: "st_db t' = st_db t" if "payloadPaths i t = (Inr ps, t')" for ps t t'
    using that by (auto simp: payloadPaths_def bindE_Inr_iff getAll_Inr_iff split: if_splits)
  have d: "st_db s' = cascade_user i (st_db s)"
    using assms(2)
    by (auto simp: DeleteUser_def bindE_Inr_iff exec_count_def sql_Inr_iff remove_blobs_def rm
        dest!: UserByID_Inr pp split: if_splits)
  have keep: "find P (filter Q xs) = find P xs" if "\<And>x. P x \<Longrightarrow> Q x" for P Q and xs :: "user list"
    using that by (induction xs) auto
  have "user_row (st_db s') i = None"
    by (auto simp: d cascade_user_def Let_def user_row_def find_None_iff2)
  moreover have "user_row (st_db s') w = user_row (st_db s) w" if "w \<noteq> i" for w
    using that by (auto simp: d cascade_user_def Let_def user_row_def intro: keep)
  moreover have "m \<in> set (tb_messages (st_db s'))"
    if f: "folder_row (st_db s) (ms_folder m) \<noteq> None" "fo_user (the (folder_row (st_db s) (ms_folder m))) \<noteq> i"
      "ms_user m \<noteq> i" "m \<in> set (tb_messages (st_db s))" for m
  proof -
    have "fo_user g \<noteq> i" if "g \<in> set (tb_folders (st_db s))" "fo_id g = ms_folder m" for g
      using folder_row_mem [of "st_db s" g] that f(2) assms(1) by (simp add: store_ok_def)
    then show ?thesis using f(3,4) by (force simp: d cascade_user_def Let_def)
  qed
  moreover have "filter (\<lambda>f. fo_user f = w) (tb_folders (st_db s')) = filter (\<lambda>f. fo_user f = w) (tb_folders (st_db s))"
    "filter (\<lambda>a. al_user a = w) (tb_aliases (st_db s')) = filter (\<lambda>a. al_user a = w) (tb_aliases (st_db s))"
    "filter (\<lambda>v. dv_user v = w) (tb_devices (st_db s')) = filter (\<lambda>v. dv_user v = w) (tb_devices (st_db s))"
    if "w \<noteq> i" for w
    using that by (simp_all add: d cascade_user_def Let_def filter_other)
  moreover have "\<forall>m\<in>set (tb_messages (st_db s')). ms_user m \<noteq> i" "\<forall>f\<in>set (tb_folders (st_db s')). fo_user f \<noteq> i"
    "\<forall>r\<in>set (tb_states (st_db s')). ss_user r \<noteq> i" "\<forall>r\<in>set (tb_items (st_db s')). si_user r \<noteq> i"
    "\<forall>r\<in>set (tb_contacts (st_db s')). co_user r \<noteq> i" "\<forall>r\<in>set (tb_events (st_db s')). ev_user r \<noteq> i"
    by (simp_all add: d cascade_user_def Let_def)
  ultimately show ?thesis using ok by blast
qed


theorem DeleteUser_spec_witness:
  "\<exists>s'. DeleteUser ''u'' demo_store = (Inr (), s') \<and> user_row (st_db s') ''u'' = None \<and>
     filter (\<lambda>m. ms_user m = ''u'') (tb_messages (st_db s')) = []"
proof -
  have u: "user_row demo_db ''u'' = Some demo_user" by (simp add: user_row_def demo_defs)
  have l: "filter (\<lambda>u. us_id u = ''u'') (tb_users demo_db) = [demo_user]" by (simp add: demo_defs)
  have p: "\<exists>ps. payloadPaths ''u'' demo_store = (Inr ps, demo_store)"
    by (simp add: payloadPaths_def getAll_def sql_no_fault bindE_def)
  obtain s' where c: "DeleteUser ''u'' demo_store = (Inr (), s')"
    using p by (auto simp: DeleteUser_def bindE_def UserByID_eval u exec_count_def sql_no_fault l remove_blobs_def)
  show ?thesis unfolding filter_empty_conv using DeleteUser_spec [OF demo_ok c] c by blast
qed

end
