(* ===== verification/ImapProto.thy ===== *)
theory ImapProto imports AuthLimit StoreUsers begin

text \<open>
  \<open>internal/imap/proto.go\<close> and \<open>splitCommand\<close> of \<open>server.go\<close>: a connection with its two
  streams, the reader of command lines and literals, the tokens of an argument list, quoted
  strings and sequence sets.
  \<^item> \<open>cn_in\<close> is what the peer will still send before it closes the connection: a read past
    its end is the error of the reader.
  \<^item> \<open>cn_out\<close> is what was written. \<open>cn_writes\<close> says how many more writes the peer takes
    (\<open>None\<close>: no limit); after that every write fails, as \<open>bufio.Writer\<close> keeps its error.
\<close>

section \<open>The connection\<close>

(* src: internal/imap/server.go 49-57 conn *)
record conn =
  cn_user :: "user option"
  cn_selected :: "folder option"
  cn_readOnly :: bool
  cn_remote :: string
  cn_in :: string
  cn_out :: string
  cn_writes :: "nat option"

abbreviation CR :: char where "CR \<equiv> CHR 0x0D"
abbreviation LF :: char where "LF \<equiv> CHR 0x0A"
abbreviation backslash :: char where "backslash \<equiv> CHR 0x5C"
abbreviation dquote :: char where "dquote \<equiv> CHR 0x22"

definition write_bytes :: "string \<Rightarrow> conn \<Rightarrow> bool \<times> conn" where
  "write_bytes b c =
    (if cn_writes c = Some 0 then (False, c)
     else (True, c\<lparr>cn_out := cn_out c @ b, cn_writes := map_option (\<lambda>n. n - 1) (cn_writes c)\<rparr>))"

(* src: internal/imap/proto.go 12-17 conn.writeLine *)
definition writeLine :: "string \<Rightarrow> conn \<Rightarrow> bool \<times> conn" where
  "writeLine line c = write_bytes (line @ [CR, LF]) c"

text \<open>\<open>_ = c.writeLine(...)\<close>\<close>

definition say :: "string \<Rightarrow> conn \<Rightarrow> conn" where
  "say line c = snd (writeLine line c)"

(* src: internal/imap/proto.go 19-19 conn.ok *)
definition say_ok :: "string \<Rightarrow> string \<Rightarrow> conn \<Rightarrow> conn" where
  "say_ok tag text = say (tag @ '' OK '' @ text)"

(* src: internal/imap/proto.go 20-20 conn.no *)
definition say_no :: "string \<Rightarrow> string \<Rightarrow> conn \<Rightarrow> conn" where
  "say_no tag text = say (tag @ '' NO '' @ text)"

(* src: internal/imap/proto.go 21-21 conn.bad *)
definition say_bad :: "string \<Rightarrow> string \<Rightarrow> conn \<Rightarrow> conn" where
  "say_bad tag text = say (tag @ '' BAD '' @ text)"

section \<open>Reading\<close>

text \<open>\<open>bufio.Reader.ReadString\<close> up to a line feed, and \<open>io.ReadFull\<close>.\<close>

definition readString :: "(conn, string) op" where
  "readString c = (case index_byte (cn_in c) LF of
     None \<Rightarrow> (Inl (ErrText ''EOF''), c\<lparr>cn_in := []\<rparr>)
   | Some i \<Rightarrow> (Inr (take (Suc i) (cn_in c)), c\<lparr>cn_in := drop (Suc i) (cn_in c)\<rparr>))"

definition readFull :: "nat \<Rightarrow> (conn, string) op" where
  "readFull n c =
    (if length (cn_in c) < n then (Inl (ErrText ''unexpected EOF''), c\<lparr>cn_in := []\<rparr>)
     else (Inr (take n (cn_in c)), c\<lparr>cn_in := drop n (cn_in c)\<rparr>))"

definition writeE :: "string \<Rightarrow> (conn, unit) op" where
  "writeE line c = (case writeLine line c of
     (True, c') \<Rightarrow> (Inr (), c') | (False, c') \<Rightarrow> (Inl (ErrText ''write''), c'))"

(* src: internal/imap/proto.go 41-41 conn.readCommand *)
definition literal_max :: int where
  "literal_max = 64 * 2 ^ 20"

(* src: internal/imap/proto.go 23-58 conn.readCommand *)
definition readCommand :: "(conn, string \<times> string) op" where
  "readCommand = bindE readString (\<lambda>line.
    let raw = trim_right (\<lambda>ch. ch \<in> {CR, LF}) line in
    if \<not> has_suffix raw ''}'' then okE (raw, [])
    else (case last_index_byte raw CHR ''{'' of
       None \<Rightarrow> okE (raw, [])
     | Some opn \<Rightarrow>
        (let spec = take (length raw - 1 - Suc opn) (drop (Suc opn) raw);
             nonSync = has_suffix spec ''+'';
             (size, ok) = parse_int64 (trim_suffix spec ''+'') in
         if \<not> ok \<or> size < 0 \<or> size > literal_max then failE (ErrText ''invalid literal size'')
         else bindE (if nonSync then okE () else writeE ''+ Ready for literal data'') (\<lambda>_.
              bindE (readFull (nat size)) (\<lambda>lit.
              bindE readString (\<lambda>rest.
              okE (trim_space (take opn raw @ '' '' @ rest), lit)))))))"

section \<open>Tokens\<close>

text \<open>The loop: the token read so far, the depth of brackets, whether a quoted string is open.\<close>

(* src: internal/imap/proto.go 63-110 splitTokens *)
fun tokens_loop :: "string \<Rightarrow> nat \<Rightarrow> bool \<Rightarrow> string \<Rightarrow> string list" where
  "tokens_loop cur depth inQuote [] = (if cur \<noteq> [] then [cur] else [])"
| "tokens_loop cur depth True (ch # rest) =
     (if ch = backslash \<and> rest \<noteq> [] then tokens_loop (cur @ [ch, hd rest]) depth True (tl rest)
      else tokens_loop (cur @ [ch]) depth (ch \<noteq> dquote) rest)"
| "tokens_loop cur depth False (ch # rest) =
     (if ch = dquote then tokens_loop (cur @ [ch]) depth True rest
      else if ch = CHR ''['' \<or> ch = CHR ''('' then tokens_loop (cur @ [ch]) (depth + 1) False rest
      else if ch = CHR '']'' \<or> ch = CHR '')'' then tokens_loop (cur @ [ch]) (depth - 1) False rest
      else if ch = CHR '' '' \<or> ch = CHR 0x09 then
        (if depth = 0 then
           (if cur \<noteq> [] then cur # tokens_loop [] depth False rest else tokens_loop cur depth False rest)
         else tokens_loop (cur @ [ch]) depth False rest)
      else tokens_loop (cur @ [ch]) depth False rest)"

(* src: internal/imap/proto.go 60-110 splitTokens *)
definition splitTokens :: "string \<Rightarrow> string list" where
  "splitTokens s = tokens_loop [] 0 False s"

(* src: internal/imap/proto.go 116-126 unquote *)
fun unescape :: "string \<Rightarrow> string" where
  "unescape [] = []"
| "unescape [ch] = [ch]"
| "unescape (ch # x # rest) = (if ch = backslash then x # unescape rest else ch # unescape (x # rest))"

(* src: internal/imap/proto.go 112-127 unquote *)
definition unquote :: "string \<Rightarrow> string" where
  "unquote s = (if length s < 2 \<or> hd s \<noteq> dquote \<or> last s \<noteq> dquote then s
     else unescape (butlast (tl s)))"

(* src: internal/imap/proto.go 130-131 quote *)
definition escape :: "string \<Rightarrow> string" where
  "escape s = replace_byte dquote [backslash, dquote] (replace_byte backslash [backslash, backslash] s)"

(* src: internal/imap/proto.go 129-133 quote *)
definition quote :: "string \<Rightarrow> string" where
  "quote s = [dquote] @ escape s @ [dquote]"

section \<open>Sequence sets\<close>

text \<open>\<open>-1\<close> is the asterisk.\<close>

(* src: internal/imap/proto.go 135-138 seqRange *)
record seqRange =
  sr_from :: int
  sr_to :: int

(* src: internal/imap/proto.go 169-178 parseSeqNum *)
definition parseSeqNum :: "string \<Rightarrow> go_error + int" where
  "parseSeqNum s = (if s = ''*'' then Inr (- 1)
     else (case parse_int64 s of (n, ok) \<Rightarrow>
       if \<not> ok \<or> n \<le> 0 then Inl (ErrText ''invalid sequence number'') else Inr n))"

(* src: internal/imap/proto.go 149-161 parseSeqSet *)
definition parse_range :: "string \<Rightarrow> go_error + seqRange" where
  "parse_range part = (case cut_byte CHR '':'' part of (fromStr, toStr, hasRange) \<Rightarrow>
    (case parseSeqNum fromStr of
       Inl e \<Rightarrow> Inl e
     | Inr from \<Rightarrow>
         if \<not> hasRange then Inr \<lparr>sr_from = from, sr_to = from\<rparr>
         else (case parseSeqNum toStr of Inl e \<Rightarrow> Inl e | Inr to \<Rightarrow> Inr \<lparr>sr_from = from, sr_to = to\<rparr>)))"

(* src: internal/imap/proto.go 144-162 parseSeqSet *)
fun parse_ranges :: "string list \<Rightarrow> go_error + seqRange list" where
  "parse_ranges [] = Inr []"
| "parse_ranges (part # parts) =
     (if trim_space part = [] then parse_ranges parts
      else (case parse_range (trim_space part) of
         Inl e \<Rightarrow> Inl e
       | Inr r \<Rightarrow> (case parse_ranges parts of Inl e \<Rightarrow> Inl e | Inr rs \<Rightarrow> Inr (r # rs))))"

(* src: internal/imap/proto.go 142-167 parseSeqSet *)
definition parseSeqSet :: "string \<Rightarrow> go_error + seqRange list" where
  "parseSeqSet s = (case parse_ranges (split_byte CHR '','' s) of
     Inl e \<Rightarrow> Inl e
   | Inr [] \<Rightarrow> Inl (ErrText ''empty sequence set'')
   | Inr rs \<Rightarrow> Inr rs)"

(* src: internal/imap/proto.go 180-197 seqSet.contains *)
fun seq_contains :: "seqRange list \<Rightarrow> int \<Rightarrow> int \<Rightarrow> bool" where
  "seq_contains [] v mx = False"
| "seq_contains (r # rs) v mx =
     (let lo = (if sr_from r < 0 then mx else sr_from r);
          hi = (if sr_to r < 0 then mx else sr_to r);
          (lo', hi') = (if lo > hi then (hi, lo) else (lo, hi)) in
      if v \<ge> lo' \<and> v \<le> hi' then True else seq_contains rs v mx)"

section \<open>Commands\<close>

(* src: internal/imap/proto.go 199-205 splitVerb *)
definition splitVerb :: "string \<Rightarrow> string \<times> string" where
  "splitVerb rest = (case index_byte rest CHR '' '' of
     None \<Rightarrow> (rest, [])
   | Some i \<Rightarrow> (take i rest, trim_left (\<lambda>ch. ch = CHR '' '') (drop (Suc i) rest)))"

(* src: internal/imap/server.go 83-95 splitCommand *)
definition splitCommand :: "string \<Rightarrow> string \<times> string \<times> string" where
  "splitCommand line = (case index_byte line CHR '' '' of
     None \<Rightarrow> (line, [], [])
   | Some i \<Rightarrow>
      (let rest = trim_left (\<lambda>ch. ch = CHR '' '') (drop (Suc i) line) in
       case index_byte rest CHR '' '' of
         None \<Rightarrow> (take i line, rest, [])
       | Some j \<Rightarrow> (take i line, take j rest, trim_left (\<lambda>ch. ch = CHR '' '') (drop (Suc j) rest))))"

section \<open>Facts about the connection\<close>

named_theorems conn_simps "what writing leaves alone"

lemma write_bytes_fields [conn_simps]:
  "cn_user (snd (write_bytes b c)) = cn_user c" "cn_selected (snd (write_bytes b c)) = cn_selected c"
  "cn_readOnly (snd (write_bytes b c)) = cn_readOnly c" "cn_in (snd (write_bytes b c)) = cn_in c"
  "cn_remote (snd (write_bytes b c)) = cn_remote c"
  by (simp_all add: write_bytes_def)

lemma say_fields [conn_simps]:
  "cn_user (say l c) = cn_user c" "cn_selected (say l c) = cn_selected c"
  "cn_readOnly (say l c) = cn_readOnly c" "cn_in (say l c) = cn_in c" "cn_remote (say l c) = cn_remote c"
  by (simp_all add: say_def writeLine_def conn_simps)

lemma answer_fields [conn_simps]:
  "cn_user (say_ok t l c) = cn_user c" "cn_selected (say_ok t l c) = cn_selected c"
  "cn_user (say_no t l c) = cn_user c" "cn_selected (say_no t l c) = cn_selected c"
  "cn_user (say_bad t l c) = cn_user c" "cn_selected (say_bad t l c) = cn_selected c"
  "cn_in (say_ok t l c) = cn_in c" "cn_in (say_no t l c) = cn_in c" "cn_in (say_bad t l c) = cn_in c"
  by (simp_all add: say_ok_def say_no_def say_bad_def conn_simps)

lemma writeLine_unlimited: "cn_writes c = None \<Longrightarrow> writeLine l c = (True, c\<lparr>cn_out := cn_out c @ l @ [CR, LF]\<rparr>)"
  by (cases c) (simp add: writeLine_def write_bytes_def)

lemma say_unlimited: "cn_writes c = None \<Longrightarrow> say l c = c\<lparr>cn_out := cn_out c @ l @ [CR, LF]\<rparr>"
  by (simp add: say_def writeLine_unlimited)

section \<open>Quoted strings and tokens\<close>

definition esc1 :: "char \<Rightarrow> string" where
  "esc1 ch = (if ch = backslash \<or> ch = dquote then [backslash, ch] else [ch])"

lemma escape_concat: "escape s = concat (map esc1 s)"
  by (induction s) (auto simp: escape_def replace_byte_def esc1_def)

lemma escape_Nil [simp]: "escape [] = []"
  by (simp add: escape_concat)

lemma escape_Cons: "escape (ch # s) = esc1 ch @ escape s"
  by (simp add: escape_concat)

lemma unescape_plain: "ch \<noteq> backslash \<Longrightarrow> unescape (ch # s) = ch # unescape s"
  by (cases s) auto

lemma unescape_escape: "unescape (escape s) = s"
  by (induction s) (auto simp: escape_Cons esc1_def unescape_plain)

lemma unquote_quote: "unquote (quote s) = s"
  by (simp add: unquote_def quote_def unescape_escape butlast_append)

lemma tokens_escaped:
  "tokens_loop cur d True (escape s @ dquote # rest) = tokens_loop (cur @ escape s @ [dquote]) d False rest"
proof (induction s arbitrary: cur)
  case (Cons ch s)
  then show ?case by (auto simp: escape_Cons esc1_def)
qed simp

lemma tokens_quoted:
  "tokens_loop cur d False (quote s @ rest) = tokens_loop (cur @ quote s) d False rest"
  by (simp add: quote_def tokens_escaped)

text \<open>An atom: a word with none of the bytes the tokenizer looks at.\<close>

definition atom_byte :: "char \<Rightarrow> bool" where
  "atom_byte ch \<longleftrightarrow> ch \<notin> {dquote, CHR ''['', CHR ''('', CHR '']'', CHR '')'', CHR '' '', CHR 0x09}"

lemma tokens_atom:
  "list_all atom_byte w \<Longrightarrow> tokens_loop cur d False (w @ rest) = tokens_loop (cur @ w) d False rest"
  by (induction w arbitrary: cur) (auto simp: atom_byte_def)

text \<open>An argument as a client writes it, and the value the handlers take from its token.\<close>

datatype arg = Atom string | Quoted string

fun arg_text :: "arg \<Rightarrow> string" where
  "arg_text (Atom w) = w"
| "arg_text (Quoted s) = quote s"

fun arg_value :: "arg \<Rightarrow> string" where
  "arg_value (Atom w) = w"
| "arg_value (Quoted s) = s"

fun arg_ok :: "arg \<Rightarrow> bool" where
  "arg_ok (Atom w) \<longleftrightarrow> w \<noteq> [] \<and> list_all atom_byte w"
| "arg_ok (Quoted s) \<longleftrightarrow> True"

lemma quote_not_Nil [simp]: "quote s \<noteq> []"
  by (simp add: quote_def)

lemma arg_text_not_Nil: "arg_ok a \<Longrightarrow> arg_text a \<noteq> []"
  by (cases a) auto

lemma tokens_arg:
  "arg_ok a \<Longrightarrow> tokens_loop cur d False (arg_text a @ rest) = tokens_loop (cur @ arg_text a) d False rest"
  by (cases a) (simp_all add: tokens_atom tokens_quoted)

lemma unquote_arg: "arg_ok a \<Longrightarrow> unquote (arg_text a) = arg_value a"
proof (cases a)
  case (Atom w)
  moreover assume "arg_ok a"
  ultimately show ?thesis by (auto simp: unquote_def atom_byte_def neq_Nil_conv)
qed (simp add: unquote_quote)

lemma splitTokens_args:
  "list_all arg_ok xs \<Longrightarrow> splitTokens (join '' '' (map arg_text xs)) = map arg_text xs"
proof (induction xs)
  case (Cons a xs)
  show ?case
  proof (cases "xs = []")
    case True
    with Cons.prems tokens_arg [of a "[]" 0 "[]"] show ?thesis
      by (simp add: splitTokens_def arg_text_not_Nil)
  next
    case False
    with Cons tokens_arg [of a "[]" 0 "'' '' @ join '' '' (map arg_text xs)"] show ?thesis
      by (simp add: splitTokens_def join_Cons2 arg_text_not_Nil)
  qed
qed (simp add: splitTokens_def)

text \<open>The arguments of a command arrive as they were sent. Whatever bytes the arguments
  hold, when each is written as an atom or with \<open>quote\<close>, backslashes, quotes, blanks and
  brackets included, splitting the line and unquoting the tokens gives back exactly the
  arguments, in order.\<close>

theorem arguments_roundtrip:
  assumes "list_all arg_ok xs"
  shows "map unquote (splitTokens (join '' '' (map arg_text xs))) = map arg_value xs"
  using assms unquote_arg by (simp add: splitTokens_args list_all_iff)

theorem arguments_roundtrip_witness:
  "map unquote (splitTokens (arg_text (Atom ''bob'') @ '' '' @ arg_text (Quoted [CHR ''a'', dquote, CHR '' '', backslash]))) =
   [''bob'', [CHR ''a'', dquote, CHR '' '', backslash]]"
  using arguments_roundtrip [of "[Atom ''bob'', Quoted [CHR ''a'', dquote, CHR '' '', backslash]]"]
  by (simp add: atom_byte_def)


section \<open>Sequence sets denote sets of numbers\<close>

text \<open>The number a bound stands for when the last message has number \<open>mx\<close>, and the numbers of
  a set.\<close>

definition seq_value :: "int \<Rightarrow> int \<Rightarrow> int" where
  "seq_value mx n = (if n < 0 then mx else n)"

definition seq_numbers :: "seqRange list \<Rightarrow> int \<Rightarrow> int set" where
  "seq_numbers rs mx = (\<Union>r\<in>set rs. {min (seq_value mx (sr_from r)) (seq_value mx (sr_to r)) ..
     max (seq_value mx (sr_from r)) (seq_value mx (sr_to r))})"

lemma seq_contains_Cons:
  "seq_contains (r # rs) v mx \<longleftrightarrow>
    v \<in> {min (seq_value mx (sr_from r)) (seq_value mx (sr_to r)) .. max (seq_value mx (sr_from r)) (seq_value mx (sr_to r))} \<or>
    seq_contains rs v mx"
  unfolding seq_contains.simps seq_value_def [symmetric] Let_def by (cases "seq_value mx (sr_from r) > seq_value mx (sr_to r)") auto

lemma seq_contains_iff: "seq_contains rs v mx \<longleftrightarrow> v \<in> seq_numbers rs mx"
proof (induction rs)
  case (Cons r rs)
  then show ?case unfolding seq_contains_Cons by (simp add: seq_numbers_def)
qed (simp add: seq_numbers_def)

definition seq_num_ok :: "int \<Rightarrow> bool" where
  "seq_num_ok n \<longleftrightarrow> n = - 1 \<or> 0 < n \<and> n \<le> max_int64"

definition seq_num_text :: "int \<Rightarrow> string" where
  "seq_num_text n = (if n < 0 then ''*'' else itoa n)"

definition seq_range_text :: "seqRange \<Rightarrow> string" where
  "seq_range_text r = (if sr_to r = sr_from r then seq_num_text (sr_from r)
     else seq_num_text (sr_from r) @ '':'' @ seq_num_text (sr_to r))"

definition seq_range_ok :: "seqRange \<Rightarrow> bool" where
  "seq_range_ok r \<longleftrightarrow> seq_num_ok (sr_from r) \<and> seq_num_ok (sr_to r)"

lemma itoa_head: "0 < n \<Longrightarrow> itoa n \<noteq> ''*''"
  using itoa_chars [of "CHR ''*''" n] by (auto simp: is_digit_def)

lemma parseSeqNum_text: "seq_num_ok n \<Longrightarrow> parseSeqNum (seq_num_text n) = Inr n"
  by (auto simp: parseSeqNum_def seq_num_text_def seq_num_ok_def itoa_head parse_int64_itoa int64_range_def
      min_int64_def)

lemma parseSeqNum_ok: "parseSeqNum s = Inr n \<Longrightarrow> seq_num_ok n"
  using parse_int64_range [of s]
  by (auto simp: parseSeqNum_def seq_num_ok_def int64_range_def split: if_splits prod.splits)

lemma seq_num_chars: "ch \<in> set (seq_num_text n) \<Longrightarrow> is_digit ch \<or> ch = CHR ''-'' \<or> ch = CHR ''*''"
  by (auto simp: seq_num_text_def split: if_splits dest: itoa_chars)

lemma seq_range_chars:
  "ch \<in> set (seq_range_text r) \<Longrightarrow> is_digit ch \<or> ch \<in> {CHR ''-'', CHR ''*'', CHR '':''}"
  by (auto simp: seq_range_text_def split: if_splits dest: seq_num_chars)

lemma seq_num_no_colon: "CHR '':'' \<notin> set (seq_num_text n)"
  using seq_num_chars [of "CHR '':''" n] by (auto simp: is_digit_def)

lemma seq_range_no_comma: "CHR '','' \<notin> set (seq_range_text r)"
  using seq_range_chars [of "CHR '',''" r] by (auto simp: is_digit_def)

lemma trim_space_range: "trim_space (seq_range_text r) = seq_range_text r"
  by (rule trim_space_id) (auto dest!: seq_range_chars simp: is_digit_def is_space_def)

lemma seq_range_text_not_Nil: "seq_range_text r \<noteq> []"
  by (simp add: seq_range_text_def seq_num_text_def)

lemma index_byte_free_append: "c \<notin> set s \<Longrightarrow> index_byte (s @ c # t) c = Some (length s)"
  by (induction s) auto

lemma parse_range_text: "seq_range_ok r \<Longrightarrow> parse_range (seq_range_text r) = Inr r"
proof (cases "sr_to r = sr_from r")
  case True
  moreover assume "seq_range_ok r"
  ultimately show ?thesis
    using seq_num_no_colon index_byte_None_iff [of "seq_num_text (sr_from r)" "CHR '':''"]
    by (simp add: parse_range_def seq_range_text_def cut_byte_def seq_range_ok_def parseSeqNum_text)
next
  case False
  moreover assume "seq_range_ok r"
  ultimately show ?thesis
    using index_byte_free_append [OF seq_num_no_colon, of "sr_from r" "seq_num_text (sr_to r)"]
    by (simp add: parse_range_def seq_range_text_def cut_byte_def seq_range_ok_def parseSeqNum_text)
qed

lemma parse_ranges_text: "list_all seq_range_ok rs \<Longrightarrow> parse_ranges (map seq_range_text rs) = Inr rs"
  by (induction rs) (simp_all add: trim_space_range seq_range_text_not_Nil parse_range_text)

lemma parse_range_ok: "parse_range s = Inr r \<Longrightarrow> seq_range_ok r"
  by (auto simp: parse_range_def seq_range_ok_def split: prod.splits sum.splits if_splits dest: parseSeqNum_ok)

lemma parse_ranges_ok: "parse_ranges ps = Inr rs \<Longrightarrow> list_all seq_range_ok rs"
  by (induction ps arbitrary: rs) (auto split: if_splits sum.splits dest: parse_range_ok)

text \<open>A sequence set means what it says. Every set that is accepted consists of positive
  64-bit numbers and asterisks, is not empty, and selects exactly the numbers between its
  bounds in either order, with the asterisk standing for the last message; every such set,
  written out, is read back unchanged.\<close>

theorem sequence_sets:
  "(\<forall>s rs. parseSeqSet s = Inr rs \<longrightarrow> rs \<noteq> [] \<and> list_all seq_range_ok rs \<and>
      (\<forall>v mx. seq_contains rs v mx \<longleftrightarrow> v \<in> seq_numbers rs mx)) \<and>
   (\<forall>rs. rs \<noteq> [] \<and> list_all seq_range_ok rs \<longrightarrow> parseSeqSet (join '','' (map seq_range_text rs)) = Inr rs)"
proof (intro conjI allI impI)
  fix s rs assume "parseSeqSet s = Inr rs"
  then show "rs \<noteq> []" "list_all seq_range_ok rs"
    by (auto simp: parseSeqSet_def split: sum.splits list.splits dest: parse_ranges_ok)
next
  fix rs assume "rs \<noteq> [] \<and> list_all seq_range_ok rs"
  then show "parseSeqSet (join '','' (map seq_range_text rs)) = Inr rs"
    by (cases rs) (simp_all add: parseSeqSet_def split_join seq_range_no_comma parse_ranges_text del: list.map)
qed (simp add: seq_contains_iff)

theorem sequence_sets_witness:
  "parseSeqSet (join '','' (map seq_range_text [\<lparr>sr_from = 7, sr_to = - 1\<rparr>])) = Inr [\<lparr>sr_from = 7, sr_to = - 1\<rparr>] \<and>
   seq_contains [\<lparr>sr_from = 7, sr_to = - 1\<rparr>] 5 4"
proof -
  have "list_all seq_range_ok [\<lparr>sr_from = 7, sr_to = - 1\<rparr>]"
    by (simp add: seq_range_ok_def seq_num_ok_def max_int64_def)
  then have p: "parseSeqSet (join '','' (map seq_range_text [\<lparr>sr_from = 7, sr_to = - 1\<rparr>])) = Inr [\<lparr>sr_from = 7, sr_to = - 1\<rparr>]"
    using sequence_sets by blast
  then have "seq_contains [\<lparr>sr_from = 7, sr_to = - 1\<rparr>] 5 4 \<longleftrightarrow> 5 \<in> seq_numbers [\<lparr>sr_from = 7, sr_to = - 1\<rparr>] 4"
    using sequence_sets by blast
  with p show ?thesis by (simp add: seq_numbers_def seq_value_def)
qed

section \<open>Framing of commands\<close>

lemma trim_right_crlf:
  assumes "line = [] \<or> last line \<notin> {CR, LF}"
  shows "trim_right (\<lambda>ch. ch \<in> {CR, LF}) (line @ [CR, LF]) = line"
proof -
  have "dropWhile (\<lambda>ch. ch \<in> {CR, LF}) (rev line) = rev line"
    using assms by (cases "rev line") (auto simp: last_rev [symmetric] hd_rev dest: arg_cong [of _ _ rev])
  then show ?thesis by (simp add: trim_right_def)
qed

lemma readString_line:
  assumes "LF \<notin> set line" "cn_in c = line @ LF # rest"
  shows "readString c = (Inr (line @ [LF]), c\<lparr>cn_in := rest\<rparr>)"
  using assms by (simp add: readString_def index_byte_free_append)

lemma readFull_exact:
  "cn_in c = lit @ rest \<Longrightarrow> readFull (length lit) c = (Inr lit, c\<lparr>cn_in := rest\<rparr>)"
  by (simp add: readFull_def)

lemma last_index_brace:
  assumes "CHR ''{'' \<notin> set t"
  shows "last_index_byte (s @ CHR ''{'' # t) CHR ''{'' = Some (length s)"
  using index_byte_free_append [of "CHR ''{''" "rev t" "rev s"] assms by (simp add: last_index_byte_def)

lemma has_suffix_snoc: "has_suffix (s @ [c]) [d] \<longleftrightarrow> c = d"
  by (simp add: has_suffix_def)

lemma trim_suffix_snoc: "trim_suffix (s @ [c]) [c] = s"
  by (simp add: trim_suffix_def has_suffix_snoc)


lemma readCommand_line:
  assumes "cn_in c = line @ [CR, LF] @ next_in" "LF \<notin> set line" "line = [] \<or> last line \<notin> {CR, LF, CHR ''}''}"
  shows "readCommand c = (Inr (line, []), c\<lparr>cn_in := next_in\<rparr>)"
proof -
  have r: "readString c = (Inr ((line @ [CR]) @ [LF]), c\<lparr>cn_in := next_in\<rparr>)"
    by (rule readString_line) (use assms in simp_all)
  have t: "trim_right (\<lambda>ch. ch \<in> {CR, LF}) ((line @ [CR]) @ [LF]) = line"
    using trim_right_crlf [of line] assms(3) by auto
  have "\<not> has_suffix line ''}''"
    using assms(3) by (cases line rule: rev_cases) (auto simp: has_suffix_def)
  with t show ?thesis
    unfolding readCommand_def bindE_Inr [where m = readString, OF r] Let_def t by simp
qed

lemma writeE_ready:
  assumes "cn_writes c \<noteq> Some 0"
  shows "\<exists>c'. writeE l c = (Inr (), c') \<and> cn_in c' = cn_in c"
  using assms by (simp add: writeE_def writeLine_def write_bytes_def)

lemma literal_tail:
  assumes "rest_in = lit @ rest @ LF # next_in" "LF \<notin> set rest" "cn_in c = rest_in" "n = int (length lit)"
  shows "bindE (readFull (nat n)) (\<lambda>l. bindE readString (\<lambda>r. okE (f r, l))) c =
    (Inr (f (rest @ [LF]), lit), c\<lparr>cn_in := next_in\<rparr>)"
proof -
  have a: "readFull (nat n) c = (Inr lit, c\<lparr>cn_in := rest @ LF # next_in\<rparr>)"
    using assms readFull_exact [of c lit] by simp
  have "readString (c\<lparr>cn_in := rest @ LF # next_in\<rparr>) = (Inr (rest @ [LF]), c\<lparr>cn_in := rest @ LF # next_in\<rparr>\<lparr>cn_in := next_in\<rparr>)"
    by (rule readString_line) (use assms(2) in simp_all)
  then show ?thesis by (simp add: bindE_Inr [where m = "readFull (nat n)", OF a])
qed

text \<open>The header of a literal: what precedes it, its size, and whether the client waits.\<close>

definition literal_head :: "string \<Rightarrow> int \<Rightarrow> bool \<Rightarrow> string" where
  "literal_head pre n nonSync = pre @ ''{'' @ itoa n @ (if nonSync then ''+'' else []) @ ''}''"

lemma itoa_no_brace: "CHR ''{'' \<notin> set (itoa n)" "LF \<notin> set (itoa n)"
  using itoa_chars [of "CHR ''{''" n] itoa_chars [of LF n] by (auto simp: is_digit_def)

lemma literal_head_parse:
  fixes pre :: string and ns :: bool
  assumes "0 \<le> n" "n \<le> literal_max"
  defines "raw \<equiv> literal_head pre n ns"
  defines "spec \<equiv> take (length raw - 1 - Suc (length pre)) (drop (Suc (length pre)) raw)"
  shows "has_suffix raw ''}''" "last_index_byte raw CHR ''{'' = Some (length pre)"
    "has_suffix spec ''+'' = ns" "parse_int64 (trim_suffix spec ''+'') = (n, True)" "take (length pre) raw = pre"
proof -
  have raw: "raw = pre @ CHR ''{'' # (itoa n @ (if ns then ''+'' else []) @ ''}'')"
    by (simp add: raw_def literal_head_def)
  have spec: "spec = itoa n @ (if ns then ''+'' else [])" by (simp add: spec_def raw)
  have nr: "int64_range n" using assms(1,2)
    by (simp add: int64_range_def literal_max_def min_int64_def max_int64_def)
  have np: "\<not> has_suffix (itoa n) ''+''"
  proof
    assume "has_suffix (itoa n) ''+''"
    then have "CHR ''+'' \<in> set (itoa n)"
      unfolding has_suffix_def by (metis in_set_dropD list.set_intros(1))
    then show False using itoa_chars by (fastforce simp: is_digit_def)
  qed
  show "has_suffix raw ''}''" using has_suffix_snoc [of "pre @ CHR ''{'' # itoa n @ (if ns then ''+'' else [])" "CHR ''}''"]
    by (simp add: raw)
  show "last_index_byte raw CHR ''{'' = Some (length pre)" unfolding raw
    by (rule last_index_brace) (use itoa_no_brace in auto)
  show "has_suffix spec ''+'' = ns" using np by (simp add: spec has_suffix_snoc)
  show "parse_int64 (trim_suffix spec ''+'') = (n, True)"
    using np by (cases ns) (simp_all add: spec trim_suffix_snoc parse_int64_itoa [OF nr] trim_suffix_def [of "itoa n"])
  show "take (length pre) raw = pre" by (simp add: raw)
qed

text \<open>C9: a literal is data. When a command line announces a literal of at most 64 MiB, of either
  form, exactly the announced number of bytes becomes the literal, whatever they are: line
  ends and text that looks like commands stay in the literal, and the next command is read
  from right behind the end of this one.\<close>

theorem literal_framing:
  assumes "cn_in c = literal_head pre (int (length lit)) nonSync @ [CR, LF] @ lit @ rest @ [LF] @ next_in"
    and "LF \<notin> set pre" "LF \<notin> set rest" "int (length lit) \<le> literal_max" "nonSync \<or> cn_writes c \<noteq> Some 0"
  shows "\<exists>c'. readCommand c = (Inr (trim_space (pre @ '' '' @ rest @ [LF]), lit), c') \<and> cn_in c' = next_in"
proof -
  let ?raw = "literal_head pre (int (length lit)) nonSync" and ?in = "lit @ rest @ LF # next_in"
  have nl: "LF \<notin> set ?raw" using assms(2) itoa_no_brace by (auto simp: literal_head_def)
  have r: "readString c = (Inr ((?raw @ [CR]) @ [LF]), c\<lparr>cn_in := ?in\<rparr>)"
    by (rule readString_line) (use assms nl in simp_all)
  have t: "trim_right (\<lambda>ch. ch \<in> {CR, LF}) ((?raw @ [CR]) @ [LF]) = ?raw"
    using trim_right_crlf [of ?raw] by (simp add: literal_head_def)
  note p = literal_head_parse [of "int (length lit)" pre nonSync, OF _ assms(4)]
  obtain c1 where w: "(if nonSync then okE () else writeE ''+ Ready for literal data'') (c\<lparr>cn_in := ?in\<rparr>) = (Inr (), c1)"
    and c1: "cn_in c1 = ?in"
    using assms(5) writeE_ready [of "c\<lparr>cn_in := ?in\<rparr>" "''+ Ready for literal data''"] by (cases nonSync) auto
  have "readCommand c = bindE (readFull (nat (int (length lit)))) (\<lambda>l. bindE readString (\<lambda>x.
      okE (trim_space (pre @ '' '' @ x), l))) c1"
    unfolding readCommand_def bindE_Inr [where m = readString, OF r] Let_def t
    using p assms(4) w by simp
  also have "\<dots> = (Inr (trim_space (pre @ '' '' @ rest @ [LF]), lit), c1\<lparr>cn_in := next_in\<rparr>)"
    by (rule literal_tail [OF refl assms(3) c1 refl])
  finally show ?thesis by simp
qed

theorem literal_framing_witness:
  "\<exists>c'. readCommand \<lparr>cn_user = None, cn_selected = None, cn_readOnly = False, cn_remote = [],
       cn_in = literal_head ''a APPEND INBOX '' 2 True @ [CR, LF] @ [CR, LF] @ [] @ [LF] @ ''b NOOP'', cn_out = [],
       cn_writes = None\<rparr> = (Inr (trim_space (''a APPEND INBOX '' @ '' '' @ [] @ [LF]), [CR, LF]), c') \<and>
     cn_in c' = ''b NOOP''"
  by (rule literal_framing [where nonSync = True]) (simp_all add: literal_max_def)

end
