(* ===== verification/ImapFetch.thy ===== *)
theory ImapFetch imports ImapProto StoreMessages begin

text \<open>
  \<open>internal/imap/fetch.go\<close>, the part without a connection: the items of a \<open>FETCH\<close>, the sections
  of a message and the response. \<open>mime_env\<close> holds what the code only calls of \<open>net/mail\<close>,
  \<open>mime\<close> and \<open>time\<close>: reading a header, decoding its words, parsing address lists and media
  types, and printing a time in the zone of the server. A slice with a negative bound panics:
  the functions that slice return \<open>None\<close> then. \<open>%q\<close> is modelled on printable ASCII.
\<close>

record mime_env =
  me_read :: "string \<Rightarrow> (string \<Rightarrow> string) option"
  me_decode :: "string \<Rightarrow> string option"
  me_addresses :: "string \<Rightarrow> (string \<times> string) list option"
  me_media :: "string \<Rightarrow> string option"
  me_date :: "int \<Rightarrow> string"

section \<open>Items\<close>

(* src: internal/imap/fetch.go 15-21 fetchItem *)
record fetchItem =
  fi_name :: string
  fi_key :: string
  fi_section :: string
  fi_start :: int
  fi_length :: int

definition plain_item :: "string \<Rightarrow> string \<Rightarrow> string \<Rightarrow> fetchItem" where
  "plain_item name key section =
    \<lparr>fi_name = name, fi_key = key, fi_section = section, fi_start = 0, fi_length = - 1\<rparr>"

definition named_item :: "string \<Rightarrow> fetchItem" where
  "named_item name = plain_item name name []"

text \<open>The suffix \<open><start.length>\<close>; errors of \<open>strconv.Atoi\<close> are ignored.\<close>

(* src: internal/imap/fetch.go 99-106 parseFetchItem *)
definition parse_partial :: "string \<Rightarrow> fetchItem \<Rightarrow> fetchItem" where
  "parse_partial rest item = (case index_byte rest CHR ''<'' of
     None \<Rightarrow> item
   | Some i \<Rightarrow>
      (let parts = split_byte2 CHR ''.'' (trim_suffix (drop (Suc i) rest) ''>'');
           item1 = item\<lparr>fi_start := fst (parse_int64 (hd parts))\<rparr> in
       if length parts = 2 then item1\<lparr>fi_length := fst (parse_int64 (parts ! 1))\<rparr> else item1))"

(* src: internal/imap/fetch.go 90-107 parseFetchItem *)
definition parse_section :: "nat \<Rightarrow> string \<Rightarrow> go_error + fetchItem" where
  "parse_section start token = (case index_byte (drop start token) CHR '']'' of
     None \<Rightarrow> Inl (ErrText ''invalid BODY section'')
   | Some e \<Rightarrow>
      (let section = take e (drop start token);
           rest = drop (Suc e) (drop start token);
           key = ''BODY['' @ to_upper section @ '']'' in
       Inr (parse_partial rest (plain_item key key section))))"

(* src: internal/imap/fetch.go 66-108 parseFetchItem *)
definition parseFetchItem :: "string \<Rightarrow> go_error + fetchItem" where
  "parseFetchItem token =
    (let upper = to_upper token in
     if upper \<in> {''FLAGS'', ''UID'', ''INTERNALDATE'', ''ENVELOPE'', ''RFC822.SIZE'', ''BODYSTRUCTURE''}
       then Inr (named_item upper)
     else if upper = ''RFC822'' then Inr (plain_item ''BODY[]'' ''RFC822'' [])
     else if upper = ''RFC822.HEADER'' then Inr (plain_item ''BODY[HEADER]'' ''RFC822.HEADER'' ''HEADER'')
     else if upper = ''RFC822.TEXT'' then Inr (plain_item ''BODY[TEXT]'' ''RFC822.TEXT'' ''TEXT'')
     else if upper = ''BODY'' then Inr (plain_item ''BODYSTRUCTURE'' ''BODY'' [])
     else if has_prefix upper ''BODY.PEEK['' then parse_section (length ''BODY.PEEK['') token
     else if has_prefix upper ''BODY['' then parse_section (length ''BODY['') token
     else Inl (ErrText (''unsupported fetch item '' @ quote token)))"

(* src: internal/imap/fetch.go 31-53 parseFetchItems *)
definition macro_items :: "string \<Rightarrow> fetchItem list option" where
  "macro_items token =
    (let fast = map named_item [''FLAGS'', ''INTERNALDATE'', ''RFC822.SIZE''] in
     if to_upper token = ''ALL'' then Some (fast @ [named_item ''ENVELOPE''])
     else if to_upper token = ''FAST'' then Some fast
     else if to_upper token = ''FULL'' then Some (fast @ [named_item ''ENVELOPE'', named_item ''BODY''])
     else None)"

(* src: internal/imap/fetch.go 29-59 parseFetchItems *)
fun fetch_items :: "string list \<Rightarrow> go_error + fetchItem list" where
  "fetch_items [] = Inr []"
| "fetch_items (token # tokens) =
     (case macro_items token of
        Some items \<Rightarrow> map_sum id (\<lambda>rest. items @ rest) (fetch_items tokens)
      | None \<Rightarrow> (case parseFetchItem token of
           Inl e \<Rightarrow> Inl e
         | Inr item \<Rightarrow> map_sum id (\<lambda>rest. item # rest) (fetch_items tokens)))"

(* src: internal/imap/fetch.go 23-64 parseFetchItems *)
definition parseFetchItems :: "string \<Rightarrow> go_error + fetchItem list" where
  "parseFetchItems value0 =
    (let v = trim_space value0;
         v' = (if has_prefix v ''('' \<and> has_suffix v '')'' then take (length v - 2) (drop 1 v) else v) in
     case fetch_items (splitTokens v') of
       Inl e \<Rightarrow> Inl e
     | Inr [] \<Rightarrow> Inl (ErrText ''empty fetch item list'')
     | Inr items \<Rightarrow> Inr items)"

section \<open>Sections\<close>

fun crlf_to_lf :: "string \<Rightarrow> string" where
  "crlf_to_lf [] = []"
| "crlf_to_lf [x] = [x]"
| "crlf_to_lf (x # y # s) = (if x = CR \<and> y = LF then LF # crlf_to_lf s else x # crlf_to_lf (y # s))"

(* src: internal/imap/fetch.go 230-234 normalizeCRLF *)
definition normalizeCRLF :: "string \<Rightarrow> string" where
  "normalizeCRLF raw = replace_byte LF [CR, LF] (crlf_to_lf raw)"

(* src: internal/imap/fetch.go 255-260 headerPart *)
definition headerPart :: "string \<Rightarrow> string" where
  "headerPart body = (case index_str body [CR, LF, CR, LF] of Some i \<Rightarrow> take (i + 4) body | None \<Rightarrow> body)"

(* src: internal/imap/fetch.go 262-267 textPart *)
definition textPart :: "string \<Rightarrow> string" where
  "textPart body = (case index_str body [CR, LF, CR, LF] of Some i \<Rightarrow> drop (i + 4) body | None \<Rightarrow> [])"

(* src: internal/imap/fetch.go 269-280 parseHeaderFields *)
definition parseHeaderFields :: "string \<Rightarrow> string list" where
  "parseHeaderFields section = (case (index_byte section CHR ''('', last_index_byte section CHR '')'') of
     (Some opn, Some cls) \<Rightarrow>
       if cls \<le> opn then []
       else map (\<lambda>f. to_upper (trim_space f)) (GoLib.fields (take (cls - Suc opn) (drop (Suc opn) section)))
   | _ \<Rightarrow> [])"

text \<open>\<open>bytes.Split(_, "\r\n")\<close>\<close>

fun split_crlf :: "string \<Rightarrow> string list" where
  "split_crlf [] = [[]]"
| "split_crlf [x] = [[x]]"
| "split_crlf (x # y # s) =
     (if x = CR \<and> y = LF then [] # split_crlf s
      else (case split_crlf (y # s) of [] \<Rightarrow> [[x]] | l # ls \<Rightarrow> (x # l) # ls))"

(* src: internal/imap/fetch.go 293-297 filterHeaderFields *)
definition field_name :: "string \<Rightarrow> string" where
  "field_name line = to_upper (case index_byte line CHR '':'' of Some i \<Rightarrow> take i line | None \<Rightarrow> line)"

(* src: internal/imap/fetch.go 282-305 filterHeaderFields *)
definition filterHeaderFields :: "string \<Rightarrow> string list \<Rightarrow> bool \<Rightarrow> string" where
  "filterHeaderFields header want invert =
    concat (map (\<lambda>line. line @ [CR, LF])
      (filter (\<lambda>line. (field_name line \<in> set want) \<noteq> invert) (takeWhile (\<lambda>l. l \<noteq> []) (split_crlf header))))
    @ [CR, LF]"

(* src: internal/imap/fetch.go 236-253 sectionData *)
definition sectionData :: "string \<Rightarrow> string \<Rightarrow> string" where
  "sectionData raw section =
    (let body = normalizeCRLF raw; upper = to_upper (trim_space section) in
     if upper = [] then body
     else if upper = ''HEADER'' then headerPart body
     else if upper = ''TEXT'' then textPart body
     else if has_prefix upper ''HEADER.FIELDS.NOT''
       then filterHeaderFields (headerPart body) (parseHeaderFields section) True
     else if has_prefix upper ''HEADER.FIELDS''
       then filterHeaderFields (headerPart body) (parseHeaderFields section) False
     else [])"

section \<open>Descriptions\<close>

(* src: internal/imap/fetch.go 307-309 internalDate *)
definition internalDate :: "mime_env \<Rightarrow> message \<Rightarrow> string" where
  "internalDate e m = me_date e (ms_date m)"

(* src: internal/imap/fetch.go 311-323 flagsString *)
definition flagsString :: "message \<Rightarrow> string" where
  "flagsString m = ''('' @ join '' '' ((if ms_read m then [backslash # ''Seen''] else []) @
     (if ms_flagged m then [backslash # ''Flagged''] else []) @
     (if ms_deleted m then [backslash # ''Deleted''] else [])) @ '')''"

(* src: internal/imap/fetch.go 325-331 nstring *)
definition nstring :: "string \<Rightarrow> string" where
  "nstring value0 = (let v = trim_space value0 in if v = [] then ''NIL'' else quote v)"

(* src: internal/imap/fetch.go 385-390 splitAddress *)
definition splitAddress :: "string \<Rightarrow> string \<times> string" where
  "splitAddress addr = (case last_index_byte addr CHR ''@'' of
     Some i \<Rightarrow> (take i addr, drop (Suc i) addr) | None \<Rightarrow> (addr, []))"

(* src: internal/imap/fetch.go 367-383 addressList *)
definition addressList :: "mime_env \<Rightarrow> string \<Rightarrow> string" where
  "addressList e value0 =
    (if trim_space value0 = [] then ''NIL''
     else (case me_addresses e value0 of
        None \<Rightarrow> ''NIL''
      | Some list \<Rightarrow>
          if list = [] then ''NIL''
          else ''('' @ concat (map (\<lambda>(name, addr). case splitAddress addr of (mailbox, host) \<Rightarrow>
                 ''('' @ nstring name @ '' NIL '' @ nstring mailbox @ '' '' @ nstring host @ '')'') list) @ '')''))"

(* src: internal/imap/fetch.go 333-365 envelope *)
definition envelope :: "mime_env \<Rightarrow> string \<Rightarrow> string" where
  "envelope e raw = (case me_read e (normalizeCRLF raw) of
     None \<Rightarrow> ''NIL''
   | Some get \<Rightarrow>
      (let subject = (case me_decode e (get ''Subject'') of Some d \<Rightarrow> d | None \<Rightarrow> get ''Subject'');
           from = addressList e (get ''From'');
           sender0 = addressList e (get ''Sender'');
           sender = (if sender0 = ''NIL'' then from else sender0);
           replyTo0 = addressList e (get ''Reply-To'');
           replyTo = (if replyTo0 = ''NIL'' then from else replyTo0) in
       ''('' @ join '' '' [nstring (get ''Date''), nstring subject, from, sender, replyTo,
         addressList e (get ''To''), addressList e (get ''Cc''), addressList e (get ''Bcc''),
         nstring (get ''In-Reply-To''), nstring (get ''Message-Id'')] @ '')''))"

(* src: internal/imap/fetch.go 392-409 bodyStructure *)
definition bodyStructure :: "mime_env \<Rightarrow> string \<Rightarrow> string" where
  "bodyStructure e raw =
    (let body = normalizeCRLF raw;
         contentType = (case me_read e body of
            Some get \<Rightarrow> if get ''Content-Type'' \<noteq> [] then get ''Content-Type'' else ''text/plain''
          | None \<Rightarrow> ''text/plain'');
         (mainType, subType) = (case me_media e contentType of
            None \<Rightarrow> (''text'', ''plain'')
          | Some parsed \<Rightarrow> (case index_byte parsed CHR ''/'' of
               Some i \<Rightarrow> if i > 0 then (take i parsed, drop (Suc i) parsed) else (''text'', ''plain'')
             | None \<Rightarrow> (''text'', ''plain'')));
         lines = length (split_crlf body) - 1 in
     ''('' @ quote (to_upper mainType) @ '' '' @ quote (to_upper subType) @
       '' (\"CHARSET\" \"UTF-8\") NIL NIL \"7BIT\" '' @ itoa (int (length body)) @ '' '' @ itoa (int lines) @ '')'')"

section \<open>The response\<close>

(* src: internal/imap/fetch.go 176-183 buildFetchResponse *)
definition literal_piece :: "string \<Rightarrow> string \<Rightarrow> string" where
  "literal_piece key data = key @ '' {'' @ itoa (int (length data)) @ ''}'' @ [CR, LF] @ data"

(* src: internal/imap/fetch.go 202-221 buildFetchResponse *)
definition body_piece :: "string \<Rightarrow> fetchItem \<Rightarrow> string option" where
  "body_piece data item =
    (if fi_start item > 0 \<or> fi_length item \<ge> 0 then
       if fi_start item \<le> int (length data) \<and> fi_start item < 0 then None
       else
         (let d1 = (if fi_start item > int (length data) then [] else drop (nat (fi_start item)) data);
              d2 = (if fi_length item \<ge> 0 \<and> int (length d1) > fi_length item then take (nat (fi_length item)) d1 else d1);
              key = (if fi_length item \<ge> 0 then fi_key item @ ''<'' @ itoa (fi_start item) @ ''>'' else fi_key item) in
          Some (literal_piece key d2))
     else Some (literal_piece (fi_key item) data))"

(* src: internal/imap/fetch.go 185-222 buildFetchResponse *)
definition item_piece :: "mime_env \<Rightarrow> message \<Rightarrow> fetchItem \<Rightarrow> string option" where
  "item_piece e m item =
    (let name = fi_name item; raw = ms_raw m in
     if name = ''FLAGS'' then Some (''FLAGS '' @ flagsString m)
     else if name = ''UID'' then Some (''UID '' @ itoa (ms_id m))
     else if name = ''RFC822.SIZE'' then Some (''RFC822.SIZE '' @ itoa (int (length (normalizeCRLF raw))))
     else if name = ''INTERNALDATE'' then Some (''INTERNALDATE '' @ quote (internalDate e m))
     else if name = ''ENVELOPE'' then Some (''ENVELOPE '' @ envelope e raw)
     else if name = ''BODYSTRUCTURE'' then Some (''BODYSTRUCTURE '' @ bodyStructure e raw)
     else if name = ''BODY'' then Some (''BODY '' @ bodyStructure e raw)
     else body_piece (sectionData raw (fi_section item)) item)"

fun all_pieces :: "string option list \<Rightarrow> string list option" where
  "all_pieces [] = Some []"
| "all_pieces (p # ps) = (case p of None \<Rightarrow> None | Some x \<Rightarrow> map_option ((#) x) (all_pieces ps))"

(* src: internal/imap/fetch.go 165-228 buildFetchResponse *)
definition buildFetchResponse :: "mime_env \<Rightarrow> int \<Rightarrow> message \<Rightarrow> fetchItem list \<Rightarrow> bool \<Rightarrow> string option" where
  "buildFetchResponse e seq m items uidMode =
    map_option (\<lambda>pieces. ''* '' @ itoa seq @ '' FETCH ('' @ join '' '' (pieces @
        (if uidMode \<and> ''UID'' \<notin> set (map fi_name items) then [''UID '' @ itoa (ms_id m)] else [])) @ '')'' @ [CR, LF])
      (all_pieces (map (item_piece e m) items))"

section \<open>Sections of a message\<close>

lemma crlf_to_lf_expand: "crlf_to_lf (replace_byte LF [CR, LF] t) = t"
proof (induction t)
  case (Cons x t)
  show ?case
  proof (cases "x = LF")
    case False
    have "crlf_to_lf (x # replace_byte LF [CR, LF] t) = x # crlf_to_lf (replace_byte LF [CR, LF] t)"
      by (cases t) (auto simp: replace_byte_def)
    with Cons False show ?thesis by (simp add: replace_byte_def)
  qed (use Cons in \<open>simp add: replace_byte_def\<close>)
qed (simp add: replace_byte_def)

lemma normalizeCRLF_idem: "normalizeCRLF (normalizeCRLF s) = normalizeCRLF s"
  by (simp add: normalizeCRLF_def crlf_to_lf_expand)

lemma header_text: "headerPart b @ textPart b = b"
  by (simp add: headerPart_def textPart_def split: option.split)

lemma section_names:
  "sectionData raw [] = normalizeCRLF raw"
  "sectionData raw ''HEADER'' = headerPart (normalizeCRLF raw)"
  "sectionData raw ''TEXT'' = textPart (normalizeCRLF raw)"
proof -
  have "to_upper (trim_space []) = []" "to_upper (trim_space ''HEADER'') = ''HEADER''" "to_upper (trim_space ''TEXT'') = ''TEXT''"
    by code_simp+
  then show "sectionData raw [] = normalizeCRLF raw"
    "sectionData raw ''HEADER'' = headerPart (normalizeCRLF raw)"
    "sectionData raw ''TEXT'' = textPart (normalizeCRLF raw)"
    by (simp_all add: sectionData_def)
qed

text \<open>The sections of a message fit together. \<open>BODY[HEADER]\<close> followed by \<open>BODY[TEXT]\<close> is
  \<open>BODY[]\<close>; its line ends are normalized once and for all; and the size that is announced
  for a message is the number of bytes \<open>BODY[]\<close> sends.\<close>

theorem sections_fit:
  "sectionData raw ''HEADER'' @ sectionData raw ''TEXT'' = sectionData raw [] \<and>
   normalizeCRLF (sectionData raw []) = sectionData raw [] \<and>
   item_piece e (m\<lparr>ms_raw := raw\<rparr>) (named_item ''RFC822.SIZE'') =
     Some (''RFC822.SIZE '' @ itoa (int (length (sectionData raw []))))"
  by (simp add: section_names header_text normalizeCRLF_idem item_piece_def named_item_def plain_item_def)

section \<open>Partial fetches\<close>

definition partial_token :: "string \<Rightarrow> int \<Rightarrow> int \<Rightarrow> string" where
  "partial_token sec a b = ''BODY['' @ sec @ '']<'' @ itoa a @ ''.'' @ itoa b @ ''>''"

lemma itoa_free: "\<not> is_digit c \<Longrightarrow> c \<noteq> CHR ''-'' \<Longrightarrow> c \<notin> set (itoa n)"
  using itoa_chars by blast

lemma parse_partial_text:
  assumes "int64_range a" "int64_range b"
  shows "parse_partial (''<'' @ itoa a @ ''.'' @ itoa b @ ''>'') item = item\<lparr>fi_start := a, fi_length := b\<rparr>"
proof -
  have t: "trim_suffix (itoa a @ ''.'' @ itoa b @ ''>'') ''>'' = itoa a @ ''.'' @ itoa b"
    using trim_suffix_snoc [of "itoa a @ ''.'' @ itoa b"] by simp
  have "split_byte2 CHR ''.'' (itoa a @ ''.'' @ itoa b) = [itoa a, itoa b]"
    using index_byte_free_append [OF itoa_free, of "CHR ''.''" a "itoa b"] by (simp add: split_byte2_def is_digit_def)
  with t show ?thesis
    by (simp add: parse_partial_def Let_def parse_int64_itoa assms)
qed

lemma parse_partial_token:
  assumes "CHR '']'' \<notin> set sec" "int64_range a" "int64_range b"
  shows "parseFetchItem (partial_token sec a b) = Inr \<lparr>fi_name = ''BODY['' @ to_upper sec @ '']'',
    fi_key = ''BODY['' @ to_upper sec @ '']'', fi_section = sec, fi_start = a, fi_length = b\<rparr>"
proof -
  let ?t = "partial_token sec a b"
  obtain w where u: "to_upper ?t = ''BODY['' @ w"
    by (simp add: partial_token_def to_upper_def upper_char_def)
  have "index_byte (sec @ '']'' @ (''<'' @ itoa a @ ''.'' @ itoa b @ ''>'')) CHR '']'' = Some (length sec)"
    using index_byte_free_append [OF assms(1), of "''<'' @ itoa a @ ''.'' @ itoa b @ ''>''"] by simp
  then have "parse_section 5 ?t = Inr \<lparr>fi_name = ''BODY['' @ to_upper sec @ '']'',
    fi_key = ''BODY['' @ to_upper sec @ '']'', fi_section = sec, fi_start = a, fi_length = b\<rparr>"
    using parse_partial_text [OF assms(2,3)]
    by (simp add: parse_section_def partial_token_def plain_item_def Let_def)
  then show ?thesis by (simp add: parseFetchItem_def u has_prefix_def eval_nat_numeral)
qed

text \<open>A partial fetch. \<open>BODY[section]<a.b>\<close> with numbers of 64 bits is read as written. With
  \<open>a\<close> and \<open>b\<close> not negative the answer is exactly the bytes from \<open>a\<close> on, at most \<open>b\<close> of them,
  labelled with \<open>a\<close>, also when they lie behind the end; a negative \<open>a\<close> makes the slice
  expression panic, which nothing in the connection recovers.\<close>

theorem partial_fetch:
  assumes "CHR '']'' \<notin> set sec" "int64_range a" "int64_range b" "0 \<le> b"
  shows "\<exists>item. parseFetchItem (partial_token sec a b) = Inr item \<and> fi_section item = sec \<and>
    body_piece data item = (if a < 0 then None
      else Some (literal_piece (''BODY['' @ to_upper sec @ '']<'' @ itoa a @ ''>'') (take (nat b) (drop (nat a) data))))"
proof -
  have "take (nat b) (drop (nat a) data) = []" if "int (length data) < a"
    using that by simp
  then show ?thesis
    unfolding parse_partial_token [OF assms(1-3)] using assms(4)
    by (auto simp: body_piece_def Let_def)
qed

theorem partial_fetch_witness:
  "\<exists>item. parseFetchItem (partial_token [] (- 1) 5) = Inr item \<and> fi_section item = [] \<and> body_piece ''x'' item = None"
  using partial_fetch [of "[]" "- 1" 5 "''x''"] by (simp add: int64_range_def min_int64_def max_int64_def)

section \<open>Header fields\<close>

text \<open>A header as its lines.\<close>

definition header_text_of :: "string list \<Rightarrow> string" where
  "header_text_of ls = concat (map (\<lambda>l. l @ [CR, LF]) ls) @ [CR, LF]"

lemma split_crlf_line: "CR \<notin> set l \<Longrightarrow> split_crlf (l @ CR # LF # s) = l # split_crlf s"
proof (induction l)
  case (Cons x l)
  then have "split_crlf (x # (l @ CR # LF # s)) = (x # l) # split_crlf s"
    by (cases "l @ CR # LF # s") auto
  then show ?case by simp
qed simp

lemma split_crlf_header:
  "\<forall>l\<in>set ls. CR \<notin> set l \<Longrightarrow> split_crlf (header_text_of ls) = ls @ [[], []]"
  by (induction ls) (simp_all add: header_text_of_def split_crlf_line)

lemma filterHeaderFields_lines:
  assumes "\<forall>l\<in>set ls. CR \<notin> set l \<and> l \<noteq> []"
  shows "filterHeaderFields (header_text_of ls) want invert =
    header_text_of (filter (\<lambda>l. (field_name l \<in> set want) \<noteq> invert) ls)"
proof -
  have "takeWhile (\<lambda>l. l \<noteq> []) (ls @ [[], []]) = ls"
    using assms by (subst takeWhile_append2) auto
  moreover have "split_crlf (header_text_of ls) = ls @ [[], []]" using assms by (intro split_crlf_header) simp
  ultimately show ?thesis by (simp only: filterHeaderFields_def header_text_of_def [of "filter _ _"])
qed

lemma field_name_blank: "l \<noteq> [] \<Longrightarrow> is_space (hd l) \<Longrightarrow> field_name l = [] \<or> is_space (hd (field_name l))"
  by (cases l) (auto simp: field_name_def to_upper_def upper_char_def is_space_def split: option.split nat.split)

text \<open>\<open>HEADER.FIELDS\<close> loses folded lines. For a header of non-empty lines the answer to
  \<open>HEADER.FIELDS\<close> is exactly the lines that begin with one of the names: a continuation line,
  which begins with a blank, is never part of it when the wanted names are names, so a folded
  field is cut after its first line.\<close>

theorem folded_lines_dropped:
  assumes "\<forall>l\<in>set (pre @ [cont] @ rest). CR \<notin> set l \<and> l \<noteq> []" "is_space (hd cont)"
    and "\<forall>w\<in>set want. w \<noteq> [] \<and> \<not> is_space (hd w)"
  shows "filterHeaderFields (header_text_of (pre @ [cont] @ rest)) want False =
    header_text_of (filter (\<lambda>l. field_name l \<in> set want) (pre @ rest))"
proof -
  have "field_name cont \<notin> set want" using assms field_name_blank [of cont] by auto
  then show ?thesis unfolding filterHeaderFields_lines [OF assms(1)] by simp
qed

theorem folded_lines_dropped_witness:
  "filterHeaderFields (header_text_of ([''Subject: a''] @ ['' b''] @ [])) [''SUBJECT''] False = header_text_of [''Subject: a'']"
proof -
  have "filterHeaderFields (header_text_of ([''Subject: a''] @ ['' b''] @ [])) [''SUBJECT''] False =
    header_text_of (filter (\<lambda>l. field_name l \<in> set [''SUBJECT'']) ([''Subject: a''] @ []))"
    by (rule folded_lines_dropped) (simp_all add: is_space_def)
  moreover have "field_name ''Subject: a'' = ''SUBJECT''" by code_simp
  ultimately show ?thesis by simp
qed

end
