(* ===== verification/MailParse.thy ===== *)
theory MailParse imports GoLib begin

text \<open>
  Package \<open>internal/mailparse\<close>: the fields of a message, its thread, and the headers the server
  fills in. The MIME reader (\<open>go-message\<close>) and \<open>net/mail\<close> are third-party or library code: what
  they return for a message is the record \<open>mime_reader\<close>, and \<open>mail_lib\<close> holds the functions
  that are called on texts. Subjects are bytes; upper and lower case and blanks are ASCII.
\<close>

section \<open>Messages\<close>

(* src: internal/mailparse/mailparse.go 19-26 Part *)
record mail_part =
  mp_file :: string
  mp_ctype :: string
  mp_cid :: string
  mp_inline :: bool
  mp_data :: string

(* src: internal/mailparse/mailparse.go 28-48 Message *)
record parsed_mail =
  pm_subject :: string
  pm_from_name :: string
  pm_from_addr :: string
  pm_to :: string
  pm_cc :: string
  pm_bcc :: string
  pm_date :: "int option"
  pm_msgid :: string
  pm_sender_addr :: string
  pm_sender_name :: string
  pm_refs :: "string list"
  pm_in_reply_to :: string
  pm_text :: string
  pm_html :: string
  pm_parts :: "mail_part list"

definition empty_mail :: parsed_mail where
  "empty_mail = \<lparr>pm_subject = [], pm_from_name = [], pm_from_addr = [], pm_to = [], pm_cc = [], pm_bcc = [],
     pm_date = None, pm_msgid = [], pm_sender_addr = [], pm_sender_name = [], pm_refs = [], pm_in_reply_to = [],
     pm_text = [], pm_html = [], pm_parts = []\<rparr>"

text \<open>A part as the reader classifies it: inline (content type, disposition, content id) or
  attachment (file name, content type, disposition, content id).\<close>

datatype mime_part =
    InlinePart string string string string
  | AttachPart string string string string string

record mime_reader =
  rd_subject :: string
  rd_date :: "int option"
  rd_get :: "string \<Rightarrow> string"
  rd_addresses :: "string \<Rightarrow> (string \<times> string) list option"
  rd_parts :: "mime_part list"
  rd_fails :: bool

record mail_lib =
  ml_list :: "string \<Rightarrow> string list option"
  ml_string :: "string \<Rightarrow> string \<Rightarrow> string"
  ml_filename :: "string \<Rightarrow> string"
  ml_sha1 :: "string \<Rightarrow> string"

section \<open>Identifiers and threads\<close>

text \<open>The loop consumes the text behind each \<open>>\<close>.\<close>

(* src: internal/mailparse/conversation.go 94-109 messageIDs *)
function bracket_ids :: "string \<Rightarrow> string list" where
  "bracket_ids rest = (case index_byte rest CHR ''<'' of
     None \<Rightarrow> []
   | Some opn \<Rightarrow> (case index_byte (drop opn rest) CHR ''>'' of
        None \<Rightarrow> []
      | Some cls \<Rightarrow>
         (let i = trim_space (take (cls - 1) (drop (opn + 1) rest)); rest' = drop (opn + cls + 1) rest in
          (if i \<noteq> [] then [i] else []) @ bracket_ids rest')))"
  by pat_completeness auto
termination
  by (relation "measure length") (auto dest: index_byte_SomeD)

declare bracket_ids.simps [simp del]

(* src: internal/mailparse/conversation.go 90-118 messageIDs *)
definition messageIDs :: "string \<Rightarrow> string list" where
  "messageIDs v = (if bracket_ids v \<noteq> [] then bracket_ids v
     else filter (\<lambda>i. i \<noteq> []) (map (trim_set ''<> '') (GoLib.fields v)))"

(* src: internal/mailparse/conversation.go 120-126 firstMessageID *)
definition firstMessageID :: "string \<Rightarrow> string" where
  "firstMessageID v = (case messageIDs v of i # _ \<Rightarrow> i | [] \<Rightarrow> [])"

text \<open>The markers outside ASCII, in UTF-8: a full-width colon, and the Chinese words for a reply, an
  answer and a forward.\<close>

definition wide_colon :: string where "wide_colon = [CHR 0xEF, CHR 0xBC, CHR 0x9A]"
definition zh_reply :: string where "zh_reply = [CHR 0xE5, CHR 0x9B, CHR 0x9E, CHR 0xE5, CHR 0xA4, CHR 0x8D]"
definition zh_answer :: string where "zh_answer = [CHR 0xE7, CHR 0xAD, CHR 0x94, CHR 0xE5, CHR 0xA4, CHR 0x8D]"
definition zh_forward :: string where "zh_forward = [CHR 0xE8, CHR 0xBD, CHR 0xAC, CHR 0xE5, CHR 0x8F, CHR 0x91]"

(* src: internal/mailparse/conversation.go 40-45 replyPrefixes *)
definition replyPrefixes :: "string list" where
  "replyPrefixes = [''re:'', ''re'' @ wide_colon, ''re '', ''aw:'', ''sv:'',
     zh_reply @ '':'', zh_reply @ wide_colon, zh_answer @ '':'', zh_answer @ wide_colon]"

(* src: internal/mailparse/conversation.go 47-58 IsReplySubject *)
definition IsReplySubject :: "string \<Rightarrow> bool" where
  "IsReplySubject subject \<longleftrightarrow> list_ex (has_prefix (to_lower (trim_space subject))) replyPrefixes"

(* src: internal/mailparse/conversation.go 60-67 subjectPrefixes *)
definition subjectPrefixes :: "string list" where
  "subjectPrefixes = [''re:'', ''re'' @ wide_colon, ''re '', ''aw:'', ''sv:'',
     ''fwd:'', ''fwd'' @ wide_colon, ''fw:'', ''fw'' @ wide_colon, ''wg:'',
     zh_reply @ '':'', zh_reply @ wide_colon, zh_answer @ '':'', zh_answer @ wide_colon,
     zh_forward @ '':'', zh_forward @ wide_colon, zh_forward @ '' '']"

(* src: internal/mailparse/conversation.go 74-80 NormalizedSubject *)
definition strip_prefix :: "string \<Rightarrow> string" where
  "strip_prefix s = (case find (has_prefix s) subjectPrefixes of
     None \<Rightarrow> s | Some p \<Rightarrow> trim_space (drop (length p) s))"

lemma length_trim_space: "length (trim_space s) \<le> length s"
  unfolding trim_space_def trim_right_def trim_left_def
  by (metis length_dropWhile_le length_rev order_trans)

lemma prefixes_not_Nil: "p \<in> set subjectPrefixes \<Longrightarrow> p \<noteq> []"
  by (auto simp: subjectPrefixes_def wide_colon_def zh_reply_def zh_answer_def zh_forward_def)

lemma strip_prefix_shorter: "strip_prefix s \<noteq> s \<Longrightarrow> length (strip_prefix s) < length s"
proof -
  assume n: "strip_prefix s \<noteq> s"
  then obtain p where p: "find (has_prefix s) subjectPrefixes = Some p"
    by (auto simp: strip_prefix_def split: option.splits)
  then have "has_prefix s p" "p \<noteq> []" using prefixes_not_Nil by (auto dest: find_SomeD)
  then have "length (drop (length p) s) < length s"
    by (cases s) (auto simp: has_prefix_def)
  then show ?thesis using p length_trim_space [of "drop (length p) s"] by (simp add: strip_prefix_def)
qed

(* src: internal/mailparse/conversation.go 73-85 NormalizedSubject *)
function strip_loop :: "string \<Rightarrow> string" where
  "strip_loop s = (if strip_prefix s = s then s else strip_loop (strip_prefix s))"
  by pat_completeness auto
termination
  by (relation "measure length") (auto simp: strip_prefix_shorter)

declare strip_loop.simps [simp del]

(* src: internal/mailparse/conversation.go 69-88 NormalizedSubject *)
definition NormalizedSubject :: "string \<Rightarrow> string" where
  "NormalizedSubject subject = join '' '' (GoLib.fields (strip_loop (to_lower (trim_space subject))))"

text \<open>\<open>ml_sha1\<close> is the hexadecimal text of the first eight bytes of SHA-1.\<close>

(* src: internal/mailparse/conversation.go 9-38 ConversationID *)
definition ConversationID :: "mail_lib \<Rightarrow> parsed_mail \<Rightarrow> string" where
  "ConversationID l m =
    (let reply = trim_set ''<> '' (pm_in_reply_to m); own = trim_set ''<> '' (pm_msgid m);
         subject = NormalizedSubject (pm_subject m) in
     case pm_refs m of
       r # _ \<Rightarrow> ''ref:'' @ trim_set ''<>'' r
     | [] \<Rightarrow>
        if reply \<noteq> [] then ''ref:'' @ reply
        else if own \<noteq> [] then ''ref:'' @ own
        else if subject \<noteq> [] then ''sub:'' @ ml_sha1 l subject
        else [])"

section \<open>Addresses\<close>

(* src: internal/mailparse/domain.go 5-13 Domain *)
definition Domain :: "string \<Rightarrow> string" where
  "Domain address = (case last_index_byte address CHR ''@'' of
     None \<Rightarrow> []
   | Some at \<Rightarrow> if at + 1 = length address then [] else to_lower (trim_space (drop (at + 1) address)))"

text \<open>\<open>mail.ParseAddressList\<close>, of which only the addresses are used, is \<open>ml_list\<close>.\<close>

(* src: internal/mailparse/mailparse.go 158-163 Addresses *)
definition bare_address :: "string \<Rightarrow> string" where
  "bare_address candidate0 = (let candidate = trim_space candidate0 in
     case last_index_byte candidate CHR ''<'' of
       None \<Rightarrow> candidate
     | Some i \<Rightarrow> (case index_byte (drop i candidate) CHR ''>'' of
          Some j \<Rightarrow> if j > 0 then take (j - 1) (drop (i + 1) candidate) else candidate
        | None \<Rightarrow> candidate))"

(* src: internal/mailparse/mailparse.go 149-176 Addresses *)
definition Addresses :: "mail_lib \<Rightarrow> string \<Rightarrow> string list" where
  "Addresses l v =
    (if trim_space v = [] then []
     else (case ml_list l v of
        None \<Rightarrow> map to_lower (filter (\<lambda>a. a \<noteq> []) (map bare_address (split_byte CHR '','' v)))
      | Some list \<Rightarrow> map to_lower list))"

(* src: internal/mailparse/mailparse.go 178-188 formatAddressList *)
definition formatAddressList :: "mail_lib \<Rightarrow> mime_reader \<Rightarrow> string \<Rightarrow> string" where
  "formatAddressList l r key = (case rd_addresses r key of
     None \<Rightarrow> rd_get r key
   | Some list \<Rightarrow> join '', '' (map (\<lambda>(name, addr). ml_string l name addr) list))"

section \<open>Parsing\<close>

(* src: internal/mailparse/mailparse.go 137-147 inlineFileName *)
definition inlineFileName :: "mail_lib \<Rightarrow> string \<Rightarrow> string" where
  "inlineFileName l disposition = (if disposition = [] then [] else ml_filename l disposition)"

text \<open>One part, with the first 30 MiB of its body.\<close>

definition maxPartSize :: nat where
  "maxPartSize = 30 * 2 ^ 20"

(* src: internal/mailparse/mailparse.go 90-132 Parse *)
fun add_part :: "mail_lib \<Rightarrow> mime_part \<Rightarrow> parsed_mail \<Rightarrow> parsed_mail" where
  "add_part l (InlinePart ct disposition cid body) out =
    (let data = take maxPartSize body in
     if has_prefix ct ''text/plain'' \<and> pm_text out = [] then out\<lparr>pm_text := data\<rparr>
     else if has_prefix ct ''text/html'' \<and> pm_html out = [] then out\<lparr>pm_html := data\<rparr>
     else if has_prefix ct ''text/calendar'' then out\<lparr>pm_parts := pm_parts out @
       [\<lparr>mp_file = [], mp_ctype = ct, mp_cid = [], mp_inline = True, mp_data = data\<rparr>]\<rparr>
     else if \<not> has_prefix ct ''text/'' then out\<lparr>pm_parts := pm_parts out @
       [\<lparr>mp_file = inlineFileName l disposition, mp_ctype = ct, mp_cid = trim_set ''<> '' cid, mp_inline = True,
         mp_data = data\<rparr>]\<rparr>
     else out)"
| "add_part l (AttachPart name ct disposition cid body) out = out\<lparr>pm_parts := pm_parts out @
     [\<lparr>mp_file = name, mp_ctype = ct, mp_cid = trim_set ''<> '' cid, mp_inline = equal_fold disposition ''inline'',
       mp_data = take maxPartSize body\<rparr>]\<rparr>"

definition first_address :: "mime_reader \<Rightarrow> string \<Rightarrow> string \<times> string" where
  "first_address r key = (case rd_addresses r key of Some (a # _) \<Rightarrow> a | _ \<Rightarrow> ([], []))"

(* src: internal/mailparse/mailparse.go 57-88 Parse *)
definition parse_headers :: "mail_lib \<Rightarrow> mime_reader \<Rightarrow> parsed_mail" where
  "parse_headers l r =
    \<lparr>pm_subject = rd_subject r, pm_from_name = fst (first_address r ''From''), pm_from_addr = snd (first_address r ''From''),
     pm_to = formatAddressList l r ''To'', pm_cc = formatAddressList l r ''Cc'', pm_bcc = formatAddressList l r ''Bcc'',
     pm_date = rd_date r, pm_msgid = trim_space (rd_get r ''Message-Id''),
     pm_sender_addr = snd (first_address r ''Sender''), pm_sender_name = fst (first_address r ''Sender''),
     pm_refs = messageIDs (rd_get r ''References''), pm_in_reply_to = firstMessageID (rd_get r ''In-Reply-To''),
     pm_text = [], pm_html = [], pm_parts = []\<rparr>"

text \<open>The message and whether there was an error; \<open>None\<close>: no reader, so no message either.\<close>

(* src: internal/mailparse/mailparse.go 50-135 Parse *)
definition Parse :: "mail_lib \<Rightarrow> mime_reader option \<Rightarrow> parsed_mail option \<times> bool" where
  "Parse l reader = (case reader of
     None \<Rightarrow> (None, True)
   | Some r \<Rightarrow> (Some (fold (add_part l) (rd_parts r) (parse_headers l r)), rd_fails r))"

section \<open>Filling in headers\<close>

text \<open>Where the header block of a message ends: a blank line with either line end.\<close>

(* src: internal/mailparse/from.go 25-30 EnsureFrom *)
definition header_end :: "string \<Rightarrow> nat option" where
  "header_end text = (case index_str text [CHR 0x0D, CHR 0x0A, CHR 0x0D, CHR 0x0A] of
     Some i \<Rightarrow> Some i
   | None \<Rightarrow> index_str text [CHR 0x0A, CHR 0x0A])"

(* src: internal/mailparse/from.go 39-40 EnsureFrom *)
definition is_from_line :: "string \<Rightarrow> bool" where
  "is_from_line l = (let t = trim_right (\<lambda>c. c = CHR 0x0D) l in length t \<ge> 5 \<and> equal_fold (take 5 t) ''From:'')"

(* src: internal/mailparse/from.go 46-50 EnsureFrom *)
definition from_line_as :: "string \<Rightarrow> string \<Rightarrow> string" where
  "from_line_as line l = (if has_suffix l [CHR 0x0D] then line @ [CHR 0x0D] else line)"

(* src: internal/mailparse/from.go 8-66 EnsureFrom *)
definition EnsureFrom :: "mail_lib \<Rightarrow> string \<Rightarrow> string \<Rightarrow> string \<Rightarrow> string" where
  "EnsureFrom l raw name addr =
    (if trim_space addr = [] then raw
     else
       (let line = ''From: '' @ (if name \<noteq> [] then ml_string l name addr else addr);
            (header, rest) = (case header_end raw of Some i \<Rightarrow> (take i raw, drop i raw) | None \<Rightarrow> (raw, []));
            lines = split_byte CHR 0x0A header in
        case find (\<lambda>(i, x). is_from_line x) (enumerate 0 lines) of
          Some (i, x) \<Rightarrow>
            if trim_space (drop 5 (trim_right (\<lambda>c. c = CHR 0x0D) x)) \<noteq> [] then raw
            else join [CHR 0x0A] (lines[i := from_line_as line x]) @ rest
        | None \<Rightarrow>
            if header_end raw \<noteq> None then line @ [CHR 0x0D, CHR 0x0A] @ raw
            else (if raw \<noteq> [] \<and> \<not> has_suffix raw [CHR 0x0A] then raw @ [CHR 0x0D, CHR 0x0A] else raw) @
              line @ [CHR 0x0D, CHR 0x0A]))"

(* src: internal/mailparse/messageid.go 38-53 headerMessageID *)
definition headerMessageID :: "string \<Rightarrow> string" where
  "headerMessageID raw =
    (let text = (case header_end raw of Some i \<Rightarrow> take i raw | None \<Rightarrow> raw) in
     case find (\<lambda>line. case cut_byte CHR '':'' line of (name, v, ok) \<Rightarrow> ok \<and> equal_fold (trim_space name) ''message-id'')
         (split_byte CHR 0x0A text) of
       None \<Rightarrow> []
     | Some line \<Rightarrow> (case cut_byte CHR '':'' line of (name, v, ok) \<Rightarrow> trim_space v))"

text \<open>\<open>fresh\<close> is the random part of a new identifier.\<close>

(* src: internal/mailparse/messageid.go 55-61 newMessageID *)
definition newMessageID :: "string \<Rightarrow> string \<Rightarrow> string" where
  "newMessageID fresh domain = fresh @ ''@'' @ domain"

(* src: internal/mailparse/messageid.go 10-36 EnsureMessageID *)
definition EnsureMessageID :: "string \<Rightarrow> string \<Rightarrow> string \<Rightarrow> string \<times> string" where
  "EnsureMessageID fresh raw domain0 =
    (if headerMessageID raw \<noteq> [] then (raw, headerMessageID raw)
     else
       (let domain = (if domain0 = [] then ''lifemail.local'' else domain0);
            i = ''<'' @ newMessageID fresh domain @ ''>'';
            header = ''Message-ID: '' @ i @ [CHR 0x0D, CHR 0x0A] in
        case index_str raw [CHR 0x0D, CHR 0x0A, CHR 0x0D, CHR 0x0A] of
          Some n \<Rightarrow> (take (n + 2) raw @ header @ drop (n + 2) raw, i)
        | None \<Rightarrow> (case index_str raw [CHR 0x0A, CHR 0x0A] of
             Some n \<Rightarrow> (take (n + 1) raw @ header @ drop (n + 1) raw, i)
           | None \<Rightarrow> ((if raw \<noteq> [] \<and> \<not> has_suffix raw [CHR 0x0A] then raw @ [CHR 0x0D, CHR 0x0A] else raw) @ header, i))))"

section \<open>Threads\<close>

definition id_chars_ok :: "string \<Rightarrow> bool" where
  "id_chars_ok i \<longleftrightarrow> i \<noteq> [] \<and> (\<forall>c\<in>set i. \<not> is_space c \<and> c \<noteq> CHR ''<'' \<and> c \<noteq> CHR ''>'')"

lemma index_byte_free: "c \<notin> set s \<Longrightarrow> index_byte (s @ c # t) c = Some (length s)"
  by (induction s) auto

lemma bracket_ids_head:
  assumes "id_chars_ok i"
  shows "bracket_ids (CHR ''<'' # i @ CHR ''>'' # rest) = i # bracket_ids rest"
proof -
  have "index_byte (i @ CHR ''>'' # rest) CHR ''>'' = Some (length i)"
    by (rule index_byte_free) (use assms in \<open>auto simp: id_chars_ok_def\<close>)
  moreover have "trim_space i = i" by (rule trim_space_id) (use assms in \<open>simp add: id_chars_ok_def\<close>)
  ultimately show ?thesis using assms
    by (subst bracket_ids.simps) (simp add: Let_def id_chars_ok_def)
qed

lemma trim_set_none:
  assumes "s = [] \<or> hd s \<notin> set cs" "s = [] \<or> last s \<notin> set cs" shows "trim_set cs s = s"
proof -
  have "dropWhile (\<lambda>c. c \<in> set cs) s = s" using assms(1) by (cases s) auto
  moreover have "dropWhile (\<lambda>c. c \<in> set cs) (rev s) = rev s"
    using assms(2) by (cases s rule: rev_cases) auto
  ultimately show ?thesis by (simp add: trim_set_def trim_left_def trim_right_def)
qed

lemma id_ends: "id_chars_ok i \<Longrightarrow> hd i \<notin> set ''<> '' \<and> last i \<notin> set ''<> ''"
  using hd_in_set [of i] last_in_set [of i] by (auto simp: id_chars_ok_def is_space_def)

lemma trim_set_id: "id_chars_ok i \<Longrightarrow> trim_set ''<>'' i = i" "id_chars_ok i \<Longrightarrow> trim_set ''<> '' i = i"
  by (rule trim_set_none; use id_ends in \<open>force simp: id_chars_ok_def\<close>)+

lemma trim_set_brackets: "id_chars_ok i \<Longrightarrow> trim_set ''<> '' (CHR ''<'' # i @ ''>'') = i"
proof -
  assume i: "id_chars_ok i"
  have n: "i \<noteq> []" using i by (simp add: id_chars_ok_def)
  then have "dropWhile (\<lambda>c. c \<in> set ''<> '') (i @ ''>'') = i @ ''>''"
    using id_ends [OF i] by (cases i) simp_all
  moreover have "dropWhile (\<lambda>c. c \<in> set ''<> '') (rev i) = rev i"
    using n id_ends [OF i] by (cases i rule: rev_cases) simp_all
  ultimately show ?thesis by (simp add: trim_set_def trim_left_def trim_right_def)
qed

lemma Parse_thread:
  assumes "fst (Parse l (Some r)) = Some m"
  shows "pm_refs m = messageIDs (rd_get r ''References'')" "pm_in_reply_to m = firstMessageID (rd_get r ''In-Reply-To'')"
    "pm_msgid m = trim_space (rd_get r ''Message-Id'')"
proof -
  have s: "pm_refs (add_part l p x) = pm_refs x \<and> pm_in_reply_to (add_part l p x) = pm_in_reply_to x \<and>
      pm_msgid (add_part l p x) = pm_msgid x" for p x
    by (cases p) (simp_all add: Let_def)
  have f: "pm_refs (fold (add_part l) ps x) = pm_refs x \<and> pm_in_reply_to (fold (add_part l) ps x) = pm_in_reply_to x \<and>
      pm_msgid (fold (add_part l) ps x) = pm_msgid x" for ps x
    by (induction ps arbitrary: x) (simp_all add: s)
  show "pm_refs m = messageIDs (rd_get r ''References'')" "pm_in_reply_to m = firstMessageID (rd_get r ''In-Reply-To'')"
    "pm_msgid m = trim_space (rd_get r ''Message-Id'')"
    using assms f [of "rd_parts r" "parse_headers l r"] by (auto simp: Parse_def parse_headers_def)
qed

lemma trim_space_bracketed: "id_chars_ok i \<Longrightarrow> trim_space (CHR ''<'' # i @ ''>'') = CHR ''<'' # i @ ''>''"
  by (rule trim_space_id) (auto simp: id_chars_ok_def is_space_def)

text \<open>A reply joins the thread of the message that started it. When the first message of a
  thread names itself \<open><i>\<close> and refers to nothing, and a later message lists \<open><i>\<close> first in its
  \<open>References\<close>, whatever else is in either message, both get the same conversation.\<close>

theorem reply_joins_thread:
  assumes "id_chars_ok i"
    and "fst (Parse l (Some r0)) = Some root" "rd_get r0 ''References'' = []" "rd_get r0 ''In-Reply-To'' = []"
    and "rd_get r0 ''Message-Id'' = CHR ''<'' # i @ ''>''"
    and "fst (Parse l (Some r1)) = Some reply" "rd_get r1 ''References'' = CHR ''<'' # i @ CHR ''>'' # others"
  shows "ConversationID l reply = ConversationID l root \<and> ConversationID l root = ''ref:'' @ i"
proof -
  have e: "messageIDs [] = []" by (simp add: messageIDs_def bracket_ids.simps [of "[]"] GoLib.fields_def)
  have "messageIDs (CHR ''<'' # i @ CHR ''>'' # others) = i # bracket_ids others"
    by (simp add: messageIDs_def bracket_ids_head [OF assms(1)])
  then have "ConversationID l reply = ''ref:'' @ i"
    using Parse_thread(1) [OF assms(6)] assms(7) trim_set_id(1) [OF assms(1)] by (simp add: ConversationID_def)
  moreover have "ConversationID l root = ''ref:'' @ i"
    using Parse_thread [OF assms(2)] assms(3-5) e trim_space_bracketed [OF assms(1)] trim_set_brackets [OF assms(1)] assms(1)
    by (simp add: ConversationID_def firstMessageID_def id_chars_ok_def trim_set_none [of "[]"])
  ultimately show ?thesis by simp
qed

definition demo_lib :: mail_lib where
  "demo_lib = \<lparr>ml_list = (\<lambda>_. None), ml_string = (\<lambda>_ a. a), ml_filename = (\<lambda>_. []), ml_sha1 = (\<lambda>s. s)\<rparr>"

definition demo_reader :: "(string \<Rightarrow> string) \<Rightarrow> mime_reader" where
  "demo_reader g = \<lparr>rd_subject = [], rd_date = None, rd_get = g, rd_addresses = (\<lambda>_. None), rd_parts = [], rd_fails = False\<rparr>"

theorem reply_joins_thread_witness:
  "\<exists>root reply. fst (Parse demo_lib (Some (demo_reader ((\<lambda>_. [])(''Message-Id'' := ''<a>''))))) = Some root \<and>
     fst (Parse demo_lib (Some (demo_reader ((\<lambda>_. [])(''References'' := ''<a> <b>''))))) = Some reply \<and>
     ConversationID demo_lib reply = ConversationID demo_lib root"
proof -
  let ?r0 = "demo_reader ((\<lambda>_. [])(''Message-Id'' := ''<a>''))" and ?r1 = "demo_reader ((\<lambda>_. [])(''References'' := ''<a> <b>''))"
  obtain root reply where p: "fst (Parse demo_lib (Some ?r0)) = Some root" "fst (Parse demo_lib (Some ?r1)) = Some reply"
    by (simp add: Parse_def demo_reader_def first_address_def)
  have i: "id_chars_ok ''a''" by (simp add: id_chars_ok_def is_space_def)
  show ?thesis using reply_joins_thread [OF i p(1) _ _ _ p(2), of "'' <b>''"] p by (simp add: demo_reader_def)
qed

section \<open>Subjects\<close>

lemma trim_right_Cons:
  "trim_right P (x # s) = (if trim_right P s = [] then (if P x then [] else [x]) else x # trim_right P s)"
  by (auto simp: trim_right_def dropWhile_append dropWhile_eq_Nil_conv)

lemma trim_right_append: "trim_right P s \<noteq> [] \<Longrightarrow> trim_right P (p @ s) = p @ trim_right P s"
  by (induction p) (simp_all add: trim_right_Cons)

lemma trim_right_left: "trim_right P (trim_left P s) = trim_left P (trim_right P s)"
proof (induction s)
  case (Cons x s)
  then show ?case by (cases "P x") (auto simp: trim_left_def trim_right_Cons)
qed (simp add: trim_left_def trim_right_def)

lemma trim_right_idem: "trim_right P (trim_right P s) = trim_right P s"
  by (simp add: trim_right_def)

lemma trim_space_right: "trim_space (trim_right is_space s) = trim_space s"
  unfolding trim_space_def by (simp only: trim_right_left [symmetric] trim_right_idem)

lemma is_space_nat: "is_space c \<longleftrightarrow> (of_char c :: nat) \<in> {9, 10, 11, 12, 13, 32}"
proof -
  have "is_space c \<longleftrightarrow> (of_char c :: nat) \<in> of_char ` {CHR 0x09, CHR 0x0A, CHR 0x0B, CHR 0x0C, CHR 0x0D, CHR 0x20}"
    unfolding is_space_def by (auto simp del: of_char_Char)
  then show ?thesis by simp
qed

lemma lower_char_space: "is_space (lower_char c) = is_space c"
  by (simp add: is_space_nat lower_char_def Let_def)

lemma trim_to_lower: "trim_space (to_lower s) = to_lower (trim_space s)"
  by (simp add: trim_space_def trim_left_def trim_right_def to_lower_def dropWhile_map rev_map comp_def lower_char_space)

lemma prefix_chars: "p \<in> set subjectPrefixes \<Longrightarrow> to_lower p = p \<and> \<not> is_space (hd p)"
  by (auto simp: subjectPrefixes_def wide_colon_def zh_reply_def zh_answer_def zh_forward_def to_lower_def
      lower_char_def is_space_def)

lemma has_prefix_rec: "has_prefix s []" "\<not> has_prefix [] (b # q)"
  "has_prefix (a # s) (b # q) \<longleftrightarrow> a = b \<and> has_prefix s q"
  by (simp_all add: has_prefix_def)

lemma find_prefix: "p \<in> set subjectPrefixes \<Longrightarrow> find (has_prefix (p @ u)) subjectPrefixes = Some p"
proof -
  have "\<forall>p\<in>set subjectPrefixes. find (has_prefix (p @ u)) subjectPrefixes = Some p"
    unfolding subjectPrefixes_def wide_colon_def zh_reply_def zh_answer_def zh_forward_def
    by (simp add: has_prefix_rec)
  then show "p \<in> set subjectPrefixes \<Longrightarrow> find (has_prefix (p @ u)) subjectPrefixes = Some p" by blast
qed

text \<open>A reply or a forward has the subject of its original: put any of the markers in front of a
  subject that is not blank, and the normalised subject, by which threads without identifiers
  are grouped, is the same.\<close>

theorem reply_subject:
  assumes p: "p \<in> set subjectPrefixes" and s: "trim_space s \<noteq> []"
  shows "NormalizedSubject (p @ s) = NormalizedSubject s"
proof -
  have t: "trim_space (p @ s) = p @ trim_right is_space s"
  proof -
    have "trim_left is_space (p @ s) = p @ s"
      using prefix_chars [OF p] prefixes_not_Nil [OF p] by (cases p) (simp_all add: trim_left_def)
    moreover have "trim_right is_space s \<noteq> []"
      using s trim_right_left [of is_space s] by (auto simp: trim_space_def trim_left_def)
    ultimately show ?thesis by (simp add: trim_space_def trim_right_append)
  qed
  let ?u = "to_lower (trim_right is_space s)"
  have l: "to_lower (trim_space (p @ s)) = p @ ?u" using prefix_chars [OF p] by (simp add: t to_lower_def)
  have u: "trim_space ?u = to_lower (trim_space s)"
    by (simp only: trim_to_lower trim_space_right)
  have e: "strip_prefix (p @ ?u) = to_lower (trim_space s)" by (simp add: strip_prefix_def find_prefix [OF p] u)
  have "strip_prefix (p @ ?u) \<noteq> p @ ?u"
    using length_trim_space [of ?u] prefixes_not_Nil [OF p] arg_cong [of _ _ length] by (fastforce simp: e u [symmetric])
  then have "strip_loop (p @ ?u) = strip_loop (to_lower (trim_space s))" by (subst strip_loop.simps) (simp add: e)
  then show ?thesis by (simp add: NormalizedSubject_def l)
qed

theorem reply_subject_witness: "NormalizedSubject (''re:'' @ '' Hi'') = NormalizedSubject '' Hi''"
proof -
  have "''re:'' \<in> set subjectPrefixes" by (simp add: subjectPrefixes_def)
  moreover have "trim_space '' Hi'' \<noteq> []" by (simp add: trim_space_def trim_left_def trim_right_def is_space_def)
  ultimately show ?thesis by (rule reply_subject)
qed

end
