(* ===== verification/ImapMailbox.thy ===== *)
theory ImapMailbox imports ImapFetch MailParse begin

text \<open>
  \<open>internal/imap/mailbox.go\<close> and the commands of \<open>fetch.go\<close>: what an authenticated connection
  does with the store. A handler takes the account and the connection and returns both the
  connection and the store; \<open>FETCH\<close> can panic, which is \<open>None\<close>. \<open>imap_env\<close> holds what is
  only called: \<open>path.Match\<close>, \<open>time.Parse\<close> with the layout of \<open>APPEND\<close>, and the MIME reader of
  \<open>MailParse\<close>; a zero \<open>time.Time\<close> is \<open>None\<close>.
\<close>

record imap_env =
  ie_match :: "string \<Rightarrow> string \<Rightarrow> bool option"
  ie_date :: "string \<Rightarrow> int option"
  ie_reader :: "string \<Rightarrow> mime_reader option"
  ie_lib :: mail_lib
  ie_mime :: mime_env

type_synonym handler = "conn \<Rightarrow> store \<Rightarrow> conn \<times> store"

text \<open>\<open>v, _ := op(...)\<close> for a number: zero when the operation fails.\<close>

definition or_zero :: "(store, int) op \<Rightarrow> store \<Rightarrow> int \<times> store" where
  "or_zero m s = (case m s of (Inl _, s') \<Rightarrow> (0, s') | (Inr v, s') \<Rightarrow> (v, s'))"

section \<open>Mailboxes\<close>

(* src: internal/imap/mailbox.go 44-52 matchMailbox *)
definition matchMailbox :: "imap_env \<Rightarrow> string \<Rightarrow> string \<Rightarrow> bool" where
  "matchMailbox e pattern0 name =
    (let pattern = to_lower (replace_byte CHR ''%'' ''*'' pattern0) in
     if pattern = [] \<or> pattern = ''*'' then True else ie_match e pattern (to_lower name) = Some True)"

(* src: internal/imap/mailbox.go 54-68 specialUse *)
definition specialUse :: "folder \<Rightarrow> string" where
  "specialUse f = (if fo_type f = 2 then backslash # ''Inbox''
     else if fo_type f = 3 then backslash # ''Drafts''
     else if fo_type f = 4 then backslash # ''Trash''
     else if fo_type f = 5 then backslash # ''Sent''
     else if fo_type f = 12 then backslash # ''Junk''
     else [])"

(* src: internal/imap/mailbox.go 29-41 conn.listMailboxes *)
fun list_lines :: "string \<Rightarrow> string \<Rightarrow> folder list \<Rightarrow> conn \<Rightarrow> conn" where
  "list_lines tag verb [] c = say_ok tag (verb @ '' completed'') c"
| "list_lines tag verb (f # fs) c =
     (let attrs = [backslash # ''HasNoChildren''] @ (if specialUse f \<noteq> [] then [specialUse f] else []) in
      case writeLine (''* '' @ verb @ '' ('' @ join '' '' attrs @ '') \"/\" '' @ quote (fo_name f)) c of
        (True, c') \<Rightarrow> list_lines tag verb fs c'
      | (False, c') \<Rightarrow> c')"

(* src: internal/imap/mailbox.go 13-42 conn.listMailboxes *)
definition listMailboxes :: "imap_env \<Rightarrow> user \<Rightarrow> string \<Rightarrow> string \<Rightarrow> bool \<Rightarrow> handler" where
  "listMailboxes e u tag rest lsub c s =
    (let tokens = splitTokens rest; verb = (if lsub then ''LSUB'' else ''LIST'') in
     if length tokens < 2 then (say_bad tag ''LIST expects reference and pattern'' c, s)
     else (case FoldersByUser (us_id u) s of
        (Inl _, s') \<Rightarrow> (say_no tag ''cannot list mailboxes'' c, s')
      | (Inr folders, s') \<Rightarrow>
          (list_lines tag verb (filter (\<lambda>f. \<not> fo_deleted f \<and> matchMailbox e (unquote (tokens ! 1)) (fo_name f)) folders) c, s')))"

(* src: internal/imap/mailbox.go 70-76 conn.findFolder *)
definition findFolder :: "user \<Rightarrow> string \<Rightarrow> (store, folder) op" where
  "findFolder u name0 = (let name = trim_space name0 in
     if equal_fold name ''INBOX'' then FolderByType (us_id u) 2 else FolderByName (us_id u) name)"

(* src: internal/imap/mailbox.go 117-124 uidValidity *)
definition uidValidity :: "folder \<Rightarrow> int" where
  "uidValidity f = (if fo_uidvalidity f > 0 then fo_uidvalidity f else fo_id f)"

(* src: internal/imap/mailbox.go 100-111 conn.status *)
definition status_item :: "folder \<Rightarrow> int \<Rightarrow> int \<Rightarrow> int \<Rightarrow> string \<Rightarrow> string list" where
  "status_item f n unseen nxt item =
    (let w = to_upper item in
     if w = ''MESSAGES'' then [''MESSAGES '' @ itoa n]
     else if w = ''UIDNEXT'' then [''UIDNEXT '' @ itoa nxt]
     else if w = ''UIDVALIDITY'' then [''UIDVALIDITY '' @ itoa (uidValidity f)]
     else if w = ''UNSEEN'' then [''UNSEEN '' @ itoa unseen]
     else if w = ''RECENT'' then [''RECENT 0'']
     else [])"

(* src: internal/imap/mailbox.go 78-115 conn.status *)
definition status :: "user \<Rightarrow> string \<Rightarrow> string \<Rightarrow> handler" where
  "status u tag rest c s =
    (let tokens = splitTokens rest in
     if length tokens < 1 then (say_bad tag ''STATUS expects a mailbox'' c, s)
     else (case findFolder u (unquote (hd tokens)) s of
        (Inl _, s1) \<Rightarrow> (say_no tag ''no such mailbox'' c, s1)
      | (Inr f, s1) \<Rightarrow> (case MessagesForIMAP (fo_id f) s1 of
           (Inl _, s2) \<Rightarrow> (say_no tag ''cannot read mailbox'' c, s2)
         | (Inr msgs, s2) \<Rightarrow>
             (let (unseen, s3) = or_zero (CountUnseen (fo_id f)) s2;
                  (nxt, s4) = or_zero (NextUID (fo_id f)) s3;
                  items = trim_set ''()'' (join '' '' (tl tokens));
                  out = concat (map (status_item f (int (length msgs)) unseen nxt) (GoLib.fields items)) in
              (say_ok tag ''STATUS completed''
                 (say (''* STATUS '' @ quote (fo_name f) @ '' ('' @ join '' '' out @ '')'') c), s4)))))"

(* src: internal/imap/mailbox.go 148-153 conn.selectMailbox *)
definition first_unseen :: "message list \<Rightarrow> conn \<Rightarrow> conn" where
  "first_unseen msgs c = (case find (\<lambda>(i, m). \<not> ms_read m) (enumerate 0 msgs) of
     None \<Rightarrow> c
   | Some (i, m) \<Rightarrow> say (''* OK [UNSEEN '' @ itoa (int i + 1) @ ''] First unseen'') c)"

(* src: internal/imap/mailbox.go 142-160 conn.selectMailbox *)
definition select_lines :: "string \<Rightarrow> folder \<Rightarrow> message list \<Rightarrow> int \<Rightarrow> int \<Rightarrow> bool \<Rightarrow> conn \<Rightarrow> conn" where
  "select_lines tag f msgs nxt unseen readOnly c =
    (let c1 = say (''* FLAGS ('' @ join '' '' (map (\<lambda>w. backslash # w) [''Answered'', ''Flagged'', ''Deleted'', ''Seen'', ''Draft'']) @ '')'') c;
         c2 = say (''* '' @ itoa (int (length msgs)) @ '' EXISTS'') c1;
         c3 = say ''* 0 RECENT'' c2;
         c4 = say (''* OK [UIDVALIDITY '' @ itoa (uidValidity f) @ ''] UIDs valid'') c3;
         c5 = say (''* OK [UIDNEXT '' @ itoa nxt @ ''] Predicted next UID'') c4;
         c6 = (if unseen > 0 then first_unseen msgs c5 else c5);
         c7 = say (''* OK [PERMANENTFLAGS ('' @ join '' '' (map (\<lambda>w. backslash # w) [''Seen'', ''Flagged'', ''Deleted'', ''*'']) @
                   '')] Flags permitted'') c6 in
     if readOnly then say_ok tag ''[READ-ONLY] EXAMINE completed'' c7
     else say_ok tag ''[READ-WRITE] SELECT completed'' c7)"

(* src: internal/imap/mailbox.go 126-161 conn.selectMailbox *)
definition selectMailbox :: "user \<Rightarrow> string \<Rightarrow> string \<Rightarrow> bool \<Rightarrow> handler" where
  "selectMailbox u tag rest readOnly c s =
    (case findFolder u (unquote (trim_space rest)) s of
       (Inl _, s1) \<Rightarrow> (say_no tag ''no such mailbox'' c, s1)
     | (Inr f, s1) \<Rightarrow> (case MessagesForIMAP (fo_id f) s1 of
          (Inl _, s2) \<Rightarrow> (say_no tag ''cannot read mailbox'' c, s2)
        | (Inr msgs, s2) \<Rightarrow>
            (let (nxt, s3) = or_zero (NextUID (fo_id f)) s2;
                 (unseen, s4) = or_zero (CountUnseen (fo_id f)) s3 in
             (select_lines tag f msgs nxt unseen readOnly (c\<lparr>cn_selected := Some f, cn_readOnly := readOnly\<rparr>), s4))))"

(* src: internal/imap/mailbox.go 163-178 conn.createMailbox *)
definition createMailbox :: "user \<Rightarrow> string \<Rightarrow> string \<Rightarrow> handler" where
  "createMailbox u tag rest c s =
    (let name = unquote (trim_space rest) in
     if name = [] then (say_bad tag ''CREATE expects a mailbox'' c, s)
     else (case findFolder u name s of
        (Inr _, s1) \<Rightarrow> (say_no tag ''mailbox already exists'' c, s1)
      | (Inl _, s1) \<Rightarrow> (case CreateFolder (us_id u) 0 name 1 s1 of
           (Inl _, s2) \<Rightarrow> (say_no tag ''cannot create mailbox'' c, s2)
         | (Inr _, s2) \<Rightarrow> (say_ok tag ''CREATE completed'' c, s2))))"

(* src: internal/imap/mailbox.go 180-198 conn.deleteMailbox *)
definition deleteMailbox :: "user \<Rightarrow> string \<Rightarrow> string \<Rightarrow> handler" where
  "deleteMailbox u tag rest c s =
    (case findFolder u (unquote (trim_space rest)) s of
       (Inl _, s1) \<Rightarrow> (say_no tag ''no such mailbox'' c, s1)
     | (Inr f, s1) \<Rightarrow>
         if fo_type f = 2 then (say_no tag ''cannot delete INBOX'' c, s1)
         else (case DeleteFolder (fo_id f) s1 of
            (Inl _, s2) \<Rightarrow> (say_no tag ''cannot delete mailbox'' c, s2)
          | (Inr _, s2) \<Rightarrow>
              (let c1 = (if map_option fo_id (cn_selected c) = Some (fo_id f) then c\<lparr>cn_selected := None\<rparr> else c) in
               (say_ok tag ''DELETE completed'' c1, s2))))"

(* src: internal/imap/mailbox.go 200-221 conn.renameMailbox *)
definition renameMailbox :: "user \<Rightarrow> string \<Rightarrow> string \<Rightarrow> handler" where
  "renameMailbox u tag rest c s =
    (let tokens = splitTokens rest in
     if length tokens < 2 then (say_bad tag ''RENAME expects two mailbox names'' c, s)
     else (case findFolder u (unquote (tokens ! 0)) s of
        (Inl _, s1) \<Rightarrow> (say_no tag ''no such mailbox'' c, s1)
      | (Inr f, s1) \<Rightarrow>
          if fo_type f = 2 then (say_no tag ''cannot rename INBOX'' c, s1)
          else (case RenameFolder (fo_id f) (unquote (tokens ! 1)) s1 of
             (Inl _, s2) \<Rightarrow> (say_no tag ''cannot rename mailbox'' c, s2)
           | (Inr _, s2) \<Rightarrow> (say_ok tag ''RENAME completed'' c, s2))))"

section \<open>Adding messages\<close>

(* src: internal/imap/mailbox.go 356-363 parseFlagWords *)
definition parseFlagWords :: "string \<Rightarrow> string list" where
  "parseFlagWords v = map to_lower (GoLib.fields (trim_set ''()'' (trim_space v)))"

(* src: internal/imap/mailbox.go 365-372 hasFlagWord *)
definition hasFlagWord :: "string list \<Rightarrow> string \<Rightarrow> bool" where
  "hasFlagWord flags want \<longleftrightarrow> want \<in> set flags"

(* src: internal/imap/mailbox.go 374-380 parseIMAPDate *)
definition parseIMAPDate :: "imap_env \<Rightarrow> string \<Rightarrow> int option" where
  "parseIMAPDate e v = ie_date e (trim_space v)"

(* src: internal/imap/mailbox.go 256-275 conn.appendMessage *)
definition appended :: "user \<Rightarrow> folder \<Rightarrow> parsed_mail \<Rightarrow> int \<Rightarrow> string list \<Rightarrow> string \<Rightarrow> message" where
  "appended u f p received flags literal = \<lparr>ms_id = 0, ms_user = us_id u, ms_folder = fo_id f,
     ms_subject = pm_subject p, ms_from_addr = pm_from_addr p, ms_from_name = pm_from_name p,
     ms_to = pm_to p, ms_cc = pm_cc p, ms_date = received, ms_size = int (length literal),
     ms_read = hasFlagWord flags (backslash # ''seen''), ms_flagged = hasFlagWord flags (backslash # ''flagged''),
     ms_importance = 1, ms_class = ''IPM.Note'', ms_msgid = pm_msgid p, ms_body_text = pm_text p,
     ms_body_html = pm_html p, ms_raw = literal, ms_raw_path = [], ms_has_att = (pm_parts p \<noteq> []),
     ms_deleted = False, ms_sender_addr = [], ms_sender_name = [], ms_bcc = False, ms_conv = []\<rparr>"

(* src: internal/imap/mailbox.go 281-290 conn.appendMessage *)
fun add_parts :: "int \<Rightarrow> mail_part list \<Rightarrow> store \<Rightarrow> store" where
  "add_parts i [] s = s"
| "add_parts i (p # ps) s = add_parts i ps (execE (InsertAttachment
     \<lparr>at_id = 0, at_message = i, at_file = mp_file p, at_ctype = mp_ctype p, at_size = 0, at_cid = mp_cid p,
      at_inline = mp_inline p, at_path = [], at_data = mp_data p\<rparr>) s)"

(* src: internal/imap/mailbox.go 223-293 conn.appendMessage *)
definition appendMessage :: "imap_env \<Rightarrow> user \<Rightarrow> string \<Rightarrow> string \<Rightarrow> string \<Rightarrow> handler" where
  "appendMessage e u tag rest literal c s = (case splitTokens rest of
     [] \<Rightarrow> (say_bad tag ''APPEND expects a mailbox'' c, s)
   | tok # toks \<Rightarrow>
      (let hasFlags = (toks \<noteq> [] \<and> has_prefix (hd toks) ''('');
           flags = (if hasFlags then parseFlagWords (hd toks) else []);
           toks' = (if hasFlags then tl toks else toks);
           given = (if toks' \<noteq> [] \<and> has_prefix (hd toks') [dquote] then parseIMAPDate e (unquote (hd toks')) else None) in
       case findFolder u (unquote tok) s of
         (Inl _, s1) \<Rightarrow> (say_no tag ''[TRYCREATE] no such mailbox'' c, s1)
       | (Inr f, s1) \<Rightarrow>
          (let p = (case fst (Parse (ie_lib e) (ie_reader e literal)) of Some p \<Rightarrow> p | None \<Rightarrow> empty_mail);
               received = (case given of Some t \<Rightarrow> t | None \<Rightarrow> (case pm_date p of Some t \<Rightarrow> t | None \<Rightarrow> nowUnix s1)) in
           case InsertMessage (appended u f p received flags literal) s1 of
             (Inl _, s2) \<Rightarrow> (say_no tag ''cannot append message'' c, s2)
           | (Inr i, s2) \<Rightarrow>
               (say_ok tag (''[APPENDUID '' @ itoa (fo_id f) @ '' '' @ itoa i @ ''] APPEND completed'') c,
                execE (AddChange (fo_id f) ''add'' ''email'' i) (add_parts i (pm_parts p) s2)))))"

section \<open>Messages of the selected mailbox\<close>

(* src: internal/imap/mailbox.go 295-298 conn.closeMailbox *)
definition closeMailbox :: "string \<Rightarrow> handler" where
  "closeMailbox tag c s = (say_ok tag ''CLOSE completed'' (c\<lparr>cn_selected := None\<rparr>), s)"

text \<open>\<open>requireSelected\<close> for a connection that is authenticated.\<close>

(* src: internal/imap/server.go 187-196 conn.requireSelected *)
definition requireSelected :: "string \<Rightarrow> (folder \<Rightarrow> handler) \<Rightarrow> handler" where
  "requireSelected tag h c s = (case cn_selected c of
     None \<Rightarrow> (say_bad tag ''no mailbox selected'' c, s) | Some f \<Rightarrow> h f c s)"

(* src: internal/imap/mailbox.go 300-306 conn.expunge *)
definition expunge :: "string \<Rightarrow> handler" where
  "expunge tag = requireSelected tag (\<lambda>_ c s. (say_ok tag ''EXPUNGE completed'' c, s))"

text \<open>The messages a command is about, each with its position: sequence numbers count from 1, in
  UID mode the asterisk is the last id.\<close>

(* src: internal/imap/mailbox.go 333-346 conn.moveMessages *)
definition chosen :: "seqRange list \<Rightarrow> bool \<Rightarrow> message list \<Rightarrow> (nat \<times> message) list" where
  "chosen rs uidMode msgs =
    (let lastUID = (if msgs = [] then 0 else ms_id (last msgs)) in
     filter (\<lambda>(i, m). if uidMode then seq_contains rs (ms_id m) lastUID
                      else seq_contains rs (int i + 1) (int (length msgs))) (enumerate 0 msgs))"

(* src: internal/imap/mailbox.go 347-352 conn.moveMessages *)
fun move_loop :: "int \<Rightarrow> int \<Rightarrow> (nat \<times> message) list \<Rightarrow> store \<Rightarrow> store" where
  "move_loop src dst [] s = s"
| "move_loop src dst ((i, m) # ms) s = (case MoveMessage (ms_id m) dst s of
     (Inl _, s1) \<Rightarrow> move_loop src dst ms s1
   | (Inr _, s1) \<Rightarrow> move_loop src dst ms (execE (AddChange dst ''add'' ''email'' (ms_id m))
                      (execE (AddChange src ''delete'' ''email'' (ms_id m)) s1)))"

(* src: internal/imap/mailbox.go 308-354 conn.moveMessages *)
definition moveMessages :: "user \<Rightarrow> string \<Rightarrow> string \<Rightarrow> bool \<Rightarrow> handler" where
  "moveMessages u tag rest uidMode = requireSelected tag (\<lambda>sel c s.
    (let tokens = splitTokens rest in
     if length tokens < 2 then (say_bad tag ''MOVE expects a set and mailbox'' c, s)
     else (case parseSeqSet (tokens ! 0) of
        Inl _ \<Rightarrow> (say_bad tag ''invalid sequence set'' c, s)
      | Inr rs \<Rightarrow> (case findFolder u (unquote (tokens ! 1)) s of
           (Inl _, s1) \<Rightarrow> (say_no tag ''[TRYCREATE] no such mailbox'' c, s1)
         | (Inr dst, s1) \<Rightarrow> (case MessagesForIMAP (fo_id sel) s1 of
              (Inl _, s2) \<Rightarrow> (say_no tag ''cannot read mailbox'' c, s2)
            | (Inr msgs, s2) \<Rightarrow>
                (say_ok tag ''MOVE completed'' c, move_loop (fo_id sel) (fo_id dst) (chosen rs uidMode msgs) s2))))))"

text \<open>Flags: read, flagged, deleted.\<close>

type_synonym flags = "bool \<times> bool \<times> bool"

(* src: internal/imap/fetch.go 450-461 conn.storeFlags *)
fun apply_flags :: "bool \<Rightarrow> string list \<Rightarrow> flags \<Rightarrow> flags" where
  "apply_flags enable [] fl = fl"
| "apply_flags enable (w # ws) (r, f, d) = apply_flags enable ws
     (if w = backslash # ''seen'' then (enable, f, d)
      else if w = backslash # ''flagged'' then (r, enable, d)
      else if w = backslash # ''deleted'' then (r, f, enable) else (r, f, d))"

(* src: internal/imap/fetch.go 462-473 conn.storeFlags *)
definition new_flags :: "string \<Rightarrow> string list \<Rightarrow> message \<Rightarrow> flags option" where
  "new_flags opr ws m =
    (if opr = ''FLAGS'' then Some (apply_flags True ws (False, False, False))
     else if opr = ''+FLAGS'' then Some (apply_flags True ws (ms_read m, ms_flagged m, ms_deleted m))
     else if opr = ''-FLAGS'' then Some (apply_flags False ws (ms_read m, ms_flagged m, ms_deleted m))
     else None)"

definition set_flags :: "flags \<Rightarrow> message \<Rightarrow> message" where
  "set_flags fl m = (case fl of (r, f, d) \<Rightarrow> m\<lparr>ms_read := r, ms_flagged := f, ms_deleted := d\<rparr>)"

(* src: internal/imap/fetch.go 449-490 conn.storeFlags *)
fun store_loop :: "string \<Rightarrow> string \<Rightarrow> bool \<Rightarrow> string list \<Rightarrow> int \<Rightarrow> (nat \<times> message) list \<Rightarrow> handler" where
  "store_loop tag opr silent ws sel [] c s = (say_ok tag ''STORE completed'' c, s)"
| "store_loop tag opr silent ws sel ((i, m) # ms) c s = (case new_flags opr ws m of
     None \<Rightarrow> (say_bad tag ''unsupported STORE item'' c, s)
   | Some fl \<Rightarrow>
      (let m' = set_flags fl m; kind = (if ms_deleted m' \<and> \<not> ms_deleted m then ''delete'' else ''change'') in
       case UpdateMessage m' s of
         (Inl _, s1) \<Rightarrow> store_loop tag opr silent ws sel ms c s1
       | (Inr _, s1) \<Rightarrow>
          (let s2 = execE (AddChange sel kind ''email'' (ms_id m)) s1 in
           if silent then store_loop tag opr silent ws sel ms c s2
           else (case writeLine (''* '' @ itoa (int i + 1) @ '' FETCH (FLAGS '' @ flagsString m' @ '')'') c of
              (False, c') \<Rightarrow> (c', s2)
            | (True, c') \<Rightarrow> store_loop tag opr silent ws sel ms c' s2))))"

(* src: internal/imap/fetch.go 411-491 conn.storeFlags *)
definition storeFlags :: "string \<Rightarrow> string \<Rightarrow> bool \<Rightarrow> handler" where
  "storeFlags tag rest uidMode = requireSelected tag (\<lambda>sel c s.
    (let tokens = splitTokens rest in
     if length tokens < 3 then (say_bad tag ''STORE expects set, item and flags'' c, s)
     else (case parseSeqSet (tokens ! 0) of
        Inl _ \<Rightarrow> (say_bad tag ''invalid sequence set'' c, s)
      | Inr rs \<Rightarrow>
         (let op0 = to_upper (tokens ! 1); silent = has_suffix op0 ''.SILENT''; opr = trim_suffix op0 ''.SILENT'';
              ws = parseFlagWords (tokens ! 2) in
          case MessagesForIMAP (fo_id sel) s of
            (Inl _, s1) \<Rightarrow> (say_no tag ''cannot read mailbox'' c, s1)
          | (Inr msgs, s1) \<Rightarrow> store_loop tag opr silent ws (fo_id sel) (chosen rs uidMode msgs) c s1))))"

(* src: internal/imap/fetch.go 527-558 matchesSearch *)
fun matches_all :: "string list \<Rightarrow> message \<Rightarrow> bool" where
  "matches_all [] m = True"
| "matches_all (field # fs) m =
     (let w = to_upper field in
      if w = ''ALL'' then matches_all fs m
      else if w = ''UNSEEN'' then \<not> ms_read m \<and> matches_all fs m
      else if w = ''SEEN'' then ms_read m \<and> matches_all fs m
      else if w = ''FLAGGED'' then ms_flagged m \<and> matches_all fs m
      else if w = ''UNFLAGGED'' then \<not> ms_flagged m \<and> matches_all fs m
      else if w = ''DELETED'' then ms_deleted m \<and> matches_all fs m
      else if w = ''UNDELETED'' then \<not> ms_deleted m \<and> matches_all fs m
      else False)"

(* src: internal/imap/fetch.go 521-559 matchesSearch *)
definition matchesSearch :: "string \<Rightarrow> message \<Rightarrow> bool" where
  "matchesSearch criteria m =
    matches_all (GoLib.fields (replace_byte CHR '')'' '' '' (replace_byte CHR ''('' '' '' criteria))) m"

(* src: internal/imap/fetch.go 493-519 conn.search *)
definition search :: "string \<Rightarrow> string \<Rightarrow> bool \<Rightarrow> handler" where
  "search tag rest uidMode = requireSelected tag (\<lambda>sel c s. (case MessagesForIMAP (fo_id sel) s of
     (Inl _, s1) \<Rightarrow> (say_no tag ''cannot read mailbox'' c, s1)
   | (Inr msgs, s1) \<Rightarrow>
      (let ids = map (\<lambda>(i, m). if uidMode then itoa (ms_id m) else itoa (int i + 1))
             (filter (\<lambda>(i, m). matchesSearch rest m) (enumerate 0 msgs)) in
       (say_ok tag ''SEARCH completed''
          (say (''* SEARCH'' @ (if ids \<noteq> [] then '' '' @ join '' '' ids else [])) c), s1))))"

(* src: internal/imap/fetch.go 149-162 conn.fetch *)
fun fetch_loop :: "mime_env \<Rightarrow> string \<Rightarrow> fetchItem list \<Rightarrow> bool \<Rightarrow> (nat \<times> message) list \<Rightarrow> conn \<Rightarrow> store \<Rightarrow> (conn \<times> store) option" where
  "fetch_loop e tag items uidMode [] c s = Some (say_ok tag ''FETCH completed'' c, s)"
| "fetch_loop e tag items uidMode ((i, m) # ms) c s = (case LoadRaw (Some m) s of
     (Inl _, s1) \<Rightarrow> Some (say_no tag ''cannot read message'' c, s1)
   | (Inr m', s1) \<Rightarrow> (case buildFetchResponse e (int i + 1) m' items uidMode of
        None \<Rightarrow> None
      | Some b \<Rightarrow> (case write_bytes b c of
           (False, c') \<Rightarrow> Some (c', s1)
         | (True, c') \<Rightarrow> fetch_loop e tag items uidMode ms c' s1)))"

definition error_text :: "go_error \<Rightarrow> string" where
  "error_text e = (case e of ErrText t \<Rightarrow> t | _ \<Rightarrow> [])"

(* src: internal/imap/fetch.go 110-163 conn.fetch *)
definition fetch :: "mime_env \<Rightarrow> string \<Rightarrow> string \<Rightarrow> bool \<Rightarrow> conn \<Rightarrow> store \<Rightarrow> (conn \<times> store) option" where
  "fetch e tag rest uidMode c s = (case cn_selected c of
     None \<Rightarrow> Some (say_bad tag ''no mailbox selected'' c, s)
   | Some sel \<Rightarrow>
      (let tokens = splitTokens rest in
       if length tokens < 2 then Some (say_bad tag ''FETCH expects a set and items'' c, s)
       else (case parseSeqSet (tokens ! 0) of
          Inl _ \<Rightarrow> Some (say_bad tag ''invalid sequence set'' c, s)
        | Inr rs \<Rightarrow> (case parseFetchItems (join '' '' (tl tokens)) of
             Inl err \<Rightarrow> Some (say_bad tag (error_text err) c, s)
           | Inr items \<Rightarrow> (case MessagesForIMAP (fo_id sel) s of
                (Inl _, s1) \<Rightarrow> Some (say_no tag ''cannot read mailbox'' c, s1)
              | (Inr msgs, s1) \<Rightarrow> fetch_loop e tag items uidMode (chosen rs uidMode msgs) c s1)))))"

end
