(* ===== verification/ImapServer.thy ===== *)
theory ImapServer imports ImapMailbox EasData begin

text \<open>
  \<open>internal/imap/server.go\<close>: authentication with the throttle, \<open>IDLE\<close> and the dispatch of
  commands. bcrypt is a parameter. \<open>IDLE\<close> reads the socket itself: \<open>idle_read\<close> lists what its
  reads return, in order; when the list is used up its deadline has passed. A connection is a
  sequence of commands between which other parts of the server change the store.
\<close>

section \<open>Authentication\<close>

(* src: internal/imap/server.go 19-19 capabilities *)
definition capabilities :: string where
  "capabilities = ''IMAP4rev1 AUTH=PLAIN AUTH=LOGIN IDLE UIDPLUS MOVE SPECIAL-USE QUOTA ID LITERAL+''"

record imap_server =
  is_env :: imap_env
  is_bcrypt :: "string \<Rightarrow> string \<Rightarrow> bool"
  is_version :: string

(* src: internal/imap/server.go 31-36 Server.version *)
definition version :: "imap_server \<Rightarrow> string" where
  "version srv = (if is_version srv = [] then ''dev'' else is_version srv)"

text \<open>The connection, the store and the throttle.\<close>

type_synonym world = "conn \<times> store \<times> limiter option"

(* src: internal/imap/server.go 270-270 conn.authenticateCredentials *)
definition imapKey :: "conn \<Rightarrow> string \<Rightarrow> string" where
  "imapKey c username = ''imap|'' @ cn_remote c @ ''|'' @ to_lower username"

(* src: internal/imap/server.go 269-289 conn.authenticateCredentials *)
definition authenticateCredentials :: "imap_server \<Rightarrow> int \<Rightarrow> string \<Rightarrow> string \<Rightarrow> string \<Rightarrow> conn \<Rightarrow> store \<Rightarrow> limiter option \<Rightarrow> world" where
  "authenticateCredentials srv now tag username password c s lim =
    (let key = imapKey c username; ((locked, retry), lim1) = Locked now key lim in
     if locked then (say_no tag ''[UNAVAILABLE] too many failed login attempts, try again later'' c, s, lim1)
     else (case UserByLogin username s of
        (Inl _, s1) \<Rightarrow> (say_no tag ''[AUTHENTICATIONFAILED] invalid credentials'' c, s1, snd (Fail now key lim1))
      | (Inr user, s1) \<Rightarrow>
          if \<not> is_bcrypt srv (us_hash user) password
          then (say_no tag ''[AUTHENTICATIONFAILED] invalid credentials'' c, s1, snd (Fail now key lim1))
          else (say_ok tag (''[CAPABILITY '' @ capabilities @ ''] LOGIN completed'') (c\<lparr>cn_user := Some user\<rparr>),
                s1, Reset key lim1)))"

(* src: internal/imap/server.go 198-205 conn.login *)
definition login :: "imap_server \<Rightarrow> int \<Rightarrow> string \<Rightarrow> string \<Rightarrow> conn \<Rightarrow> store \<Rightarrow> limiter option \<Rightarrow> world" where
  "login srv now tag rest c s lim =
    (let tokens = splitTokens rest in
     if length tokens < 2 then (say_bad tag ''LOGIN expects username and password'' c, s, lim)
     else authenticateCredentials srv now tag (unquote (tokens ! 0)) (unquote (tokens ! 1)) c s lim)"

(* src: internal/imap/server.go 254-267 conn.readBase64 *)
definition readBase64 :: "string \<Rightarrow> (conn, string) op" where
  "readBase64 prompt = bindE (writeE (''+ '' @ b64_encode prompt)) (\<lambda>_.
     bindE readString (\<lambda>line. case b64_decode (trim_space line) of
       None \<Rightarrow> failE (ErrText ''illegal base64 data'') | Some data \<Rightarrow> okE data))"

(* src: internal/imap/server.go 228-238 conn.authenticate *)
definition authPlain :: "imap_server \<Rightarrow> int \<Rightarrow> string \<Rightarrow> string \<Rightarrow> conn \<Rightarrow> store \<Rightarrow> limiter option \<Rightarrow> world" where
  "authPlain srv now tag payload c s lim = (case b64_decode payload of
     None \<Rightarrow> (say_no tag ''[AUTHENTICATIONFAILED] invalid payload'' c, s, lim)
   | Some raw \<Rightarrow> (case split_byte CHR 0x00 raw of
        [_, username, password] \<Rightarrow> authenticateCredentials srv now tag username password c s lim
      | _ \<Rightarrow> (say_no tag ''[AUTHENTICATIONFAILED] invalid payload'' c, s, lim)))"

(* src: internal/imap/server.go 207-252 conn.authenticate *)
definition imapAuthenticate :: "imap_server \<Rightarrow> int \<Rightarrow> string \<Rightarrow> string \<Rightarrow> conn \<Rightarrow> store \<Rightarrow> limiter option \<Rightarrow> world" where
  "imapAuthenticate srv now tag rest c s lim = (case GoLib.fields rest of
     [] \<Rightarrow> (say_bad tag ''AUTHENTICATE expects a mechanism'' c, s, lim)
   | mech # args \<Rightarrow>
      if to_upper mech = ''PLAIN'' then
        (case args of
           payload # _ \<Rightarrow> authPlain srv now tag payload c s lim
         | [] \<Rightarrow> (case bindE (writeE ''+ '') (\<lambda>_. readString) c of
              (Inl _, c1) \<Rightarrow> (c1, s, lim)
            | (Inr line, c1) \<Rightarrow> authPlain srv now tag (trim_space line) c1 s lim))
      else if to_upper mech = ''LOGIN'' then
        (case bindE (readBase64 ''Username:'') (\<lambda>username. bindE (readBase64 ''Password:'') (\<lambda>password. okE (username, password))) c of
           (Inl _, c1) \<Rightarrow> (c1, s, lim)
         | (Inr (username, password), c1) \<Rightarrow> authenticateCredentials srv now tag username password c1 s lim)
      else (say_no tag ''[AUTHENTICATIONFAILED] unsupported mechanism'' c, s, lim))"

section \<open>IDLE\<close>

datatype idle_read = Chunk string | Timeout | Broken

text \<open>The lines of the bytes that have arrived: \<open>None\<close> when one of them is \<open>DONE\<close>, otherwise what
  follows the last line end.\<close>

(* src: internal/imap/server.go 326-338 conn.idle *)
function idle_lines :: "string \<Rightarrow> string option" where
  "idle_lines pending = (case index_str pending [CR, LF] of
     None \<Rightarrow> Some pending
   | Some i \<Rightarrow> if equal_fold (trim_space (take i pending)) ''DONE'' then None else idle_lines (drop (i + 2) pending))"
  by pat_completeness auto
termination
  by (relation "measure length") (auto dest: index_str_SomeD)

declare idle_lines.simps [simp del]

(* src: internal/imap/server.go 313-321 conn.idle *)
definition idle_news :: "int \<Rightarrow> conn \<Rightarrow> store \<Rightarrow> int \<times> conn \<times> store" where
  "idle_news lastUID c s = (case cn_selected c of
     None \<Rightarrow> (lastUID, c, s)
   | Some sel \<Rightarrow> (case NextUID (fo_id sel) s of
        (Inl _, s1) \<Rightarrow> (lastUID, c, s1)
      | (Inr nxt, s1) \<Rightarrow>
          if nxt > lastUID then
            (case MessagesForIMAP (fo_id sel) s1 of
               (Inl _, s2) \<Rightarrow> (nxt, c, s2)
             | (Inr msgs, s2) \<Rightarrow> (nxt, say (''* '' @ itoa (int (length msgs)) @ '' EXISTS'') c, s2))
          else (lastUID, c, s1)))"

(* src: internal/imap/server.go 304-340 conn.idle *)
fun idle_loop :: "string \<Rightarrow> int \<Rightarrow> string \<Rightarrow> idle_read list \<Rightarrow> handler" where
  "idle_loop tag lastUID pending [] c s = (say_ok tag ''IDLE terminated'' c, s)"
| "idle_loop tag lastUID pending (Broken # reads) c s = (c, s)"
| "idle_loop tag lastUID pending (Timeout # reads) c s =
     (case idle_news lastUID c s of (lastUID', c', s') \<Rightarrow> idle_loop tag lastUID' pending reads c' s')"
| "idle_loop tag lastUID pending (Chunk b # reads) c s = (case idle_lines (pending @ b) of
     None \<Rightarrow> (say_ok tag ''IDLE terminated'' c, s)
   | Some rest \<Rightarrow> idle_loop tag lastUID rest reads c s)"

(* src: internal/imap/server.go 291-341 conn.idle *)
definition idle :: "string \<Rightarrow> idle_read list \<Rightarrow> handler" where
  "idle tag reads c s = (case writeLine ''+ idling'' c of
     (False, c1) \<Rightarrow> (c1, s)
   | (True, c1) \<Rightarrow>
      (let (lastUID, s1) = (case cn_selected c1 of None \<Rightarrow> (0, s) | Some sel \<Rightarrow> or_zero (NextUID (fo_id sel)) s) in
       idle_loop tag lastUID [] reads c1 s1))"

section \<open>Dispatch\<close>

text \<open>The commands of an authenticated connection. \<open>None\<close> is a panic.\<close>

(* src: internal/imap/server.go 120-176 conn.dispatch *)
definition dispatchUser :: "imap_server \<Rightarrow> idle_read list \<Rightarrow> user \<Rightarrow> string \<Rightarrow> string \<Rightarrow> string \<Rightarrow> string \<Rightarrow> conn \<Rightarrow> store \<Rightarrow> (conn \<times> store) option" where
  "dispatchUser srv reads u tag verb rest literal c s =
    (let e = is_env srv; mime = ie_mime e in
     if verb = ''LIST'' then Some (listMailboxes e u tag rest False c s)
     else if verb = ''LSUB'' then Some (listMailboxes e u tag rest True c s)
     else if verb = ''STATUS'' then Some (status u tag rest c s)
     else if verb = ''SELECT'' then Some (selectMailbox u tag rest False c s)
     else if verb = ''EXAMINE'' then Some (selectMailbox u tag rest True c s)
     else if verb = ''CREATE'' then Some (createMailbox u tag rest c s)
     else if verb = ''DELETE'' then Some (deleteMailbox u tag rest c s)
     else if verb = ''RENAME'' then Some (renameMailbox u tag rest c s)
     else if verb = ''SUBSCRIBE'' \<or> verb = ''UNSUBSCRIBE'' then Some (say_ok tag (verb @ '' completed'') c, s)
     else if verb = ''APPEND'' then Some (appendMessage e u tag rest literal c s)
     else if verb = ''CLOSE'' then Some (closeMailbox tag c s)
     else if verb = ''EXPUNGE'' then Some (expunge tag c s)
     else if verb = ''FETCH'' then fetch mime tag rest False c s
     else if verb = ''STORE'' then Some (storeFlags tag rest False c s)
     else if verb = ''SEARCH'' then Some (search tag rest False c s)
     else if verb = ''MOVE'' then Some (moveMessages u tag rest False c s)
     else if verb = ''UID'' then
       (let (sub, args) = splitVerb rest; w = to_upper sub in
        if w = ''FETCH'' then fetch mime tag args True c s
        else if w = ''STORE'' then Some (storeFlags tag args True c s)
        else if w = ''SEARCH'' then Some (search tag args True c s)
        else if w = ''MOVE'' then Some (moveMessages u tag args True c s)
        else if w = ''EXPUNGE'' then Some (expunge tag c s)
        else Some (say_bad tag ''unsupported UID command'' c, s))
     else if verb = ''IDLE'' then Some (idle tag reads c s)
     else if verb = ''CHECK'' then Some (say_ok tag ''CHECK completed'' c, s)
     else Some (say_bad tag (''unknown command '' @ verb) c, s))"

(* src: internal/imap/server.go 97-177 conn.dispatch *)
definition dispatch :: "imap_server \<Rightarrow> int \<Rightarrow> idle_read list \<Rightarrow> string \<Rightarrow> string \<Rightarrow> string \<Rightarrow> string \<Rightarrow> world \<Rightarrow> world option" where
  "dispatch srv now reads tag verb rest literal w = (case w of (c, s, lim) \<Rightarrow>
    if verb = ''CAPABILITY'' then Some (say_ok tag ''CAPABILITY completed'' (say (''* CAPABILITY '' @ capabilities) c), s, lim)
    else if verb = ''NOOP'' then Some (say_ok tag ''NOOP completed'' c, s, lim)
    else if verb = ''LOGOUT'' then Some (say_ok tag ''LOGOUT completed'' (say ''* BYE lifemail logging out'' c), s, lim)
    else if verb = ''ID'' then Some (say_ok tag ''ID completed''
       (say (''* ID (\"name\" \"lifemail\" \"version\" '' @ quote (version srv) @ '')'') c), s, lim)
    else if verb = ''LOGIN'' then Some (login srv now tag rest c s lim)
    else if verb = ''AUTHENTICATE'' then Some (imapAuthenticate srv now tag rest c s lim)
    else if verb = ''STARTTLS'' then Some (say_no tag ''STARTTLS not supported on this port'' c, s, lim)
    else (case cn_user c of
       None \<Rightarrow> Some (say_no tag ''authenticate first'' c, s, lim)
     | Some u \<Rightarrow> map_option (\<lambda>(c', s'). (c', s', lim)) (dispatchUser srv reads u tag verb rest literal c s)))"

text \<open>One round of the loop of \<open>serveConn\<close>: \<open>Inl ()\<close> when the connection ends.\<close>

(* src: internal/imap/server.go 65-80 Server.serveConn *)
definition serveOne :: "imap_server \<Rightarrow> int \<Rightarrow> idle_read list \<Rightarrow> world \<Rightarrow> (unit + world) option" where
  "serveOne srv now reads w = (case w of (c, s, lim) \<Rightarrow> (case readCommand c of
     (Inl _, c1) \<Rightarrow> Some (Inl ())
   | (Inr (line, literal), c1) \<Rightarrow>
      if trim_space line = [] then Some (Inr (c1, s, lim))
      else (case splitCommand line of (tag, verb, rest) \<Rightarrow>
        if tag = [] \<or> verb = [] then Some (Inr (say ''* BAD empty command'' c1, s, lim))
        else map_option Inr (dispatch srv now reads tag (to_upper verb) rest literal (c1, s, lim)))))"

end
