(* ===== verification/ImapInv.thy ===== *)
theory ImapInv imports ImapServer begin

text \<open>
  What the IMAP commands do to the tables, for every sequence of failing statements. The locale
  \<open>mailbox_store\<close> is what the handlers rely on: the operations they call keep an invariant when
  they are called on folders and messages they may touch, and reading gives such folders and
  messages. Its client lemmas say that every command keeps the invariant. It is interpreted
  twice on the store: for the invariant of the tables, and for the contents of one folder of
  another account.
\<close>

section \<open>Results of handlers\<close>

definition good :: "(store \<Rightarrow> bool) \<Rightarrow> conn \<times> store \<Rightarrow> bool" where
  "good I r \<longleftrightarrow> I (snd r)"

named_theorems good_intros "rules that a handler keeps an invariant of the store"

lemma good_pair [good_intros]: "I s \<Longrightarrow> good I (c, s)"
  by (simp add: good_def)

lemma good_if [good_intros]: "(b \<Longrightarrow> good I x) \<Longrightarrow> (\<not> b \<Longrightarrow> good I y) \<Longrightarrow> good I (if b then x else y)"
  by simp

lemma good_op [good_intros]:
  assumes "keeps I m" "I s" "\<And>e s'. I s' \<Longrightarrow> good I (f e s')" "\<And>x s'. m s = (Inr x, s') \<Longrightarrow> I s' \<Longrightarrow> good I (g x s')"
  shows "good I (case m s of (Inl e, s') \<Rightarrow> f e s' | (Inr x, s') \<Rightarrow> g x s')"
proof (cases "m s")
  case (Pair r t)
  then have "I t" using keepsD [OF assms(1,2)] by simp
  with Pair assms(3,4) show ?thesis by (cases r) auto
qed

lemma good_sum [good_intros]:
  "(\<And>e. good I (f e)) \<Longrightarrow> (\<And>x. r = Inr x \<Longrightarrow> good I (g x)) \<Longrightarrow> good I (case r of Inl e \<Rightarrow> f e | Inr x \<Rightarrow> g x)"
  by (cases r) auto

lemma good_list [good_intros]:
  "good I n \<Longrightarrow> (\<And>y ys. good I (f y ys)) \<Longrightarrow> good I (case xs of [] \<Rightarrow> n | y # ys \<Rightarrow> f y ys)"
  by (cases xs) auto

lemma good_option [good_intros]:
  "(x = None \<Longrightarrow> good I n) \<Longrightarrow> (\<And>y. x = Some y \<Longrightarrow> good I (f y)) \<Longrightarrow> good I (case x of None \<Rightarrow> n | Some y \<Rightarrow> f y)"
  by (cases x) auto

lemma good_write [good_intros]:
  "(\<And>c'. good I (f c')) \<Longrightarrow> (\<And>c'. good I (g c')) \<Longrightarrow> good I (case w of (True, c') \<Rightarrow> f c' | (False, c') \<Rightarrow> g c')"
  by (cases w; cases "fst w") auto

lemma good_or_zero [good_intros]:
  assumes "keeps I m" "I s" "\<And>v s'. I s' \<Longrightarrow> good I (f v s')"
  shows "good I (case or_zero m s of (v, s') \<Rightarrow> f v s')"
proof (cases "m s")
  case (Pair r t)
  then have "I t" using keepsD [OF assms(1,2)] by simp
  with Pair assms(3) show ?thesis by (cases r) (auto simp: or_zero_def)
qed

section \<open>The interface\<close>

lemma set_flags_same: "ms_folder (set_flags fl m) = ms_folder m" "ms_id (set_flags fl m) = ms_id m"
  by (cases fl, simp add: set_flags_def)+

lemma chosen_mem: "(i, m) \<in> set (chosen rs b ms) \<Longrightarrow> m \<in> set ms"
  by (auto simp: chosen_def Let_def in_set_enumerate_eq)

locale mailbox_store =
  fixes I :: "store \<Rightarrow> bool" and uid :: string and own :: "int \<Rightarrow> bool" and mine :: "int \<Rightarrow> bool"
  assumes reads: "keeps I (FoldersByUser uid)" "keeps I (FolderByType uid t)" "keeps I (FolderByName uid n)"
      "keeps I (MessagesForIMAP f)" "keeps I (CountUnseen f)" "keeps I (NextUID f)" "keeps I (LoadRaw m)"
    and folder_own: "I s \<Longrightarrow> FolderByType uid t s = (Inr g, s') \<Longrightarrow> own (fo_id g)"
      "I s \<Longrightarrow> FolderByName uid n s = (Inr g, s') \<Longrightarrow> own (fo_id g)"
    and messages_mine: "I s \<Longrightarrow> own f \<Longrightarrow> MessagesForIMAP f s = (Inr ms, s') \<Longrightarrow> m' \<in> set ms \<Longrightarrow>
      mine (ms_id m') \<and> own (ms_folder m')"
    and folder_writes: "keeps I (CreateFolder uid p n t)" "own f \<Longrightarrow> keeps I (DeleteFolder f)"
      "own f \<Longrightarrow> keeps I (RenameFolder f n)"
    and message_writes: "own (ms_folder r) \<Longrightarrow> keeps I (InsertMessage r)" "keeps I (InsertAttachment a)"
      "own (ms_folder r) \<Longrightarrow> mine (ms_id r) \<Longrightarrow> keeps I (UpdateMessage r)"
      "own f \<Longrightarrow> mine i \<Longrightarrow> keeps I (MoveMessage i f)" "own f \<Longrightarrow> keeps I (AddChange f k ty i)"
begin

abbreviation "selects_own c \<equiv> pred_option (\<lambda>f. own (fo_id f)) (cn_selected c)"

lemma keeps_findFolder: "us_id u = uid \<Longrightarrow> keeps I (findFolder u n)"
  by (simp add: findFolder_def Let_def reads)

lemma findFolder_own: "us_id u = uid \<Longrightarrow> I s \<Longrightarrow> findFolder u n s = (Inr g, s') \<Longrightarrow> own (fo_id g)"
  by (auto simp: findFolder_def Let_def split: if_splits intro: folder_own)

lemma listMailboxes_good: "us_id u = uid \<Longrightarrow> I s \<Longrightarrow> good I (listMailboxes e u tag rest l c s)"
  unfolding listMailboxes_def Let_def by (intro good_intros reads | simp add: reads)+

lemma status_good: "us_id u = uid \<Longrightarrow> I s \<Longrightarrow> good I (status u tag rest c s)"
  unfolding status_def Let_def by (intro good_intros keeps_findFolder reads) auto

lemma selectMailbox_good: "us_id u = uid \<Longrightarrow> I s \<Longrightarrow> good I (selectMailbox u tag rest b c s)"
  unfolding selectMailbox_def Let_def by (intro good_intros keeps_findFolder reads) auto

lemma createMailbox_good: "us_id u = uid \<Longrightarrow> I s \<Longrightarrow> good I (createMailbox u tag rest c s)"
proof -
  assume u: "us_id u = uid" and s: "I s"
  have "good I (case findFolder u n s of (Inr _, s1) \<Rightarrow> (say_no tag x c, s1)
      | (Inl _, s1) \<Rightarrow> (case CreateFolder (us_id u) 0 n 1 s1 of
           (Inl _, s2) \<Rightarrow> (say_no tag y c, s2) | (Inr _, s2) \<Rightarrow> (say_ok tag z c, s2)))" for n x y z
    unfolding u by (intro good_intros keeps_findFolder folder_writes u s) auto
  then show ?thesis using s by (simp add: createMailbox_def Let_def good_pair)
qed

lemma deleteMailbox_good:
  assumes "us_id u = uid" "I s" shows "good I (deleteMailbox u tag rest c s)"
  unfolding deleteMailbox_def Let_def
  by (intro good_intros keeps_findFolder folder_writes assms findFolder_own [OF assms(1,2)]) auto

lemma renameMailbox_good:
  assumes "us_id u = uid" "I s" shows "good I (renameMailbox u tag rest c s)"
  unfolding renameMailbox_def Let_def
  by (intro good_intros keeps_findFolder folder_writes assms findFolder_own [OF assms(1,2)]) auto

lemma add_parts_inv: "I s \<Longrightarrow> I (add_parts i ps s)"
  by (induction ps arbitrary: s) (auto intro: keeps_execE [where I = I] message_writes)

lemma appendMessage_good:
  assumes "us_id u = uid" "I s" shows "good I (appendMessage e u tag rest lit c s)"
proof -
  have L: "good I (case InsertMessage (appended u f p r fl lit) s1 of (Inl _, s2) \<Rightarrow> (say_no tag x c, s2)
      | (Inr i, s2) \<Rightarrow> (d i, execE (AddChange (fo_id f) k ty i) (add_parts i ps s2)))"
    if "own (fo_id f)" "I s1" for f p r fl s1 x d k ty ps
    using that by (intro good_intros message_writes keeps_execE [where I = I] add_parts_inv) (simp_all add: appended_def)
  show ?thesis unfolding appendMessage_def Let_def
    by (intro good_list good_pair good_op [where m = "findFolder _ _"] keeps_findFolder assms L findFolder_own [OF assms]; assumption)
qed

lemma requireSelected_good:
  assumes "I s" "selects_own c" "\<And>f. own (fo_id f) \<Longrightarrow> cn_selected c = Some f \<Longrightarrow> good I (h f c s)"
  shows "good I (requireSelected tag h c s)"
  using assms by (cases "cn_selected c") (auto simp: requireSelected_def good_pair)

lemma expunge_good: "I s \<Longrightarrow> selects_own c \<Longrightarrow> good I (expunge tag c s)"
  unfolding expunge_def by (rule requireSelected_good) (auto intro: good_pair)

lemma move_loop_inv:
  assumes "own src" "own dst" "\<forall>(i, m)\<in>set ms. mine (ms_id m)" "I s"
  shows "I (move_loop src dst ms s)"
  using assms(3,4)
proof (induction ms arbitrary: s)
  case (Cons p ms)
  obtain i m where p: "p = (i, m)" by fastforce
  have k: "keeps I (MoveMessage (ms_id m) dst)" using Cons.prems(1) p assms(2) by (auto intro: message_writes)
  obtain r s1 where r: "MoveMessage (ms_id m) dst s = (r, s1)" by fastforce
  have s1: "I s1" using keepsD [OF k Cons.prems(2)] r by simp
  have "I (execE (AddChange dst ''add'' ''email'' (ms_id m)) (execE (AddChange src ''delete'' ''email'' (ms_id m)) s1))"
    by (intro keeps_execE [where I = I] message_writes assms s1)
  then show ?case using Cons s1 p r by (cases r) simp_all
qed simp

lemma moveMessages_good:
  assumes "us_id u = uid" "I s" "selects_own c" shows "good I (moveMessages u tag rest b c s)"
  unfolding moveMessages_def
proof (rule requireSelected_good [OF assms(2,3)], goal_cases)
  case (1 f)
  have L: "I (move_loop (fo_id f) (fo_id g) (chosen rs b ms) s2)"
    if "findFolder u n s = (Inr g, s1)" "I s1" "MessagesForIMAP (fo_id f) s1 = (Inr ms, s2)" "I s2" for n g s1 ms s2 rs
    using that 1 findFolder_own [OF assms(1,2) that(1)] messages_mine [OF that(2) _ that(3)]
    by (intro move_loop_inv) (auto dest: chosen_mem)
  show ?case unfolding Let_def by (intro good_intros keeps_findFolder reads assms L; assumption)
qed

lemma store_loop_good:
  assumes "own f" "\<forall>(i, m)\<in>set ms. mine (ms_id m) \<and> own (ms_folder m)" "I s"
  shows "good I (store_loop tag opr silent ws f ms c s)"
  using assms(2,3)
proof (induction ms arbitrary: c s)
  case (Cons p ms)
  obtain i m where p: "p = (i, m)" by fastforce
  have k: "keeps I (UpdateMessage (set_flags fl m))" for fl
    using Cons.prems(1) p by (auto intro: message_writes simp: set_flags_same)
  have a: "I (execE (AddChange f kd ty j) s1)" if "I s1" for kd ty j s1
    using that assms(1) by (intro keeps_execE [where I = I] message_writes)
  have IH: "good I (store_loop tag opr silent ws f ms c' s')" if "I s'" for c' s'
    using Cons.IH [OF _ that] Cons.prems(1) by simp
  show ?case unfolding p store_loop.simps Let_def
    by (intro good_intros k Cons.prems(2) IH a)
qed (simp add: good_pair)

lemma storeFlags_good:
  assumes "I s" "selects_own c" shows "good I (storeFlags tag rest b c s)"
  unfolding storeFlags_def
proof (rule requireSelected_good [OF assms], goal_cases)
  case (1 f)
  have L: "good I (store_loop tag opr si ws (fo_id f) (chosen rs b ms) c s1)"
    if "MessagesForIMAP (fo_id f) s = (Inr ms, s1)" "I s1" for opr si ws rs ms s1
    using messages_mine [OF assms(1) 1(1) that(1)] 1(1) that(2) by (intro store_loop_good) (auto dest: chosen_mem)
  show ?case unfolding Let_def by (intro good_intros reads assms L; assumption)
qed

lemma search_good: "I s \<Longrightarrow> selects_own c \<Longrightarrow> good I (search tag rest b c s)"
  unfolding search_def by (rule requireSelected_good) (auto intro!: good_intros reads simp: Let_def)

lemma idle_news_inv: "I s \<Longrightarrow> I (snd (snd (idle_news l c s)))"
proof (cases "cn_selected c")
  case (Some f)
  assume s: "I s"
  obtain r s1 where n: "NextUID (fo_id f) s = (r, s1)" by fastforce
  then have s1: "I s1" using keepsD [OF reads(6) s, of "fo_id f"] by simp
  obtain q s2 where m: "MessagesForIMAP (fo_id f) s1 = (q, s2)" by fastforce
  then have "I s2" using keepsD [OF reads(4) s1, of "fo_id f"] by simp
  then show ?thesis using s1 n m Some by (cases r; cases q) (simp_all add: idle_news_def)
qed (simp add: idle_news_def)

lemma idle_loop_good: "I s \<Longrightarrow> good I (idle_loop tag l p rs c s)"
proof (induction tag l p rs c s rule: idle_loop.induct)
  case (3 tag l p rs c s)
  then show ?case using idle_news_inv [of s l c] by (cases "idle_news l c s") auto
qed (auto simp: good_pair split: option.split)

lemma idle_good:
  assumes "I s" shows "good I (idle tag rs c s)"
proof -
  obtain b c1 where w: "writeLine ''+ idling'' c = (b, c1)" by fastforce
  have "good I (case or_zero (NextUID f) s of (l, s1) \<Rightarrow> idle_loop tag l [] rs c1 s1)" for f
    by (intro good_intros reads assms idle_loop_good)
  then show ?thesis using assms w
    by (cases b; cases "cn_selected c1") (simp_all add: idle_def good_pair idle_loop_good)
qed

definition goodo :: "(conn \<times> store) option \<Rightarrow> bool" where
  "goodo r \<longleftrightarrow> (\<forall>x. r = Some x \<longrightarrow> good I x)"

lemma goodo_Some: "goodo (Some x) \<longleftrightarrow> good I x"
  by (simp add: goodo_def)

lemma fetch_loop_good: "I s \<Longrightarrow> goodo (fetch_loop e tag items b ms c s)"
proof (induction ms arbitrary: c s)
  case (Cons p ms)
  obtain i m where p: "p = (i, m)" by fastforce
  obtain r s1 where r: "LoadRaw (Some m) s = (r, s1)" by fastforce
  then have "I s1" using keepsD [OF reads(7) Cons.prems, of "Some m"] by simp
  with Cons.IH p r show ?case
    by (cases r) (auto simp: goodo_def good_pair split: option.split prod.split bool.split)
qed (simp add: goodo_Some good_pair)

lemma fetch_good:
  assumes "I s" shows "goodo (fetch e tag rest b c s)"
proof (cases "cn_selected c")
  case (Some f)
  obtain r s1 where r: "MessagesForIMAP (fo_id f) s = (r, s1)" by fastforce
  then have "I s1" using keepsD [OF reads(4) assms, of "fo_id f"] by simp
  then show ?thesis using assms Some r
    by (auto simp: fetch_def Let_def goodo_Some good_pair fetch_loop_good split: sum.split)
qed (simp add: fetch_def goodo_Some good_pair assms)

lemma dispatchUser_good:
  assumes "us_id u = uid" "I s" "selects_own c"
  shows "goodo (dispatchUser srv rs u tag verb rest lit c s)"
proof -
  note h = listMailboxes_good [OF assms(1,2)] status_good [OF assms(1,2)] selectMailbox_good [OF assms(1,2)]
    createMailbox_good [OF assms(1,2)] deleteMailbox_good [OF assms(1,2)] renameMailbox_good [OF assms(1,2)]
    appendMessage_good [OF assms(1,2)] expunge_good [OF assms(2,3)] storeFlags_good [OF assms(2,3)]
    search_good [OF assms(2,3)] moveMessages_good [OF assms] idle_good [OF assms(2)] fetch_good [OF assms(2)]
  have p: "good I (d, s)" for d using assms(2) by (rule good_pair)
  have u: "goodo (case splitVerb rest of (sub, args) \<Rightarrow> let w = to_upper sub in
        if w = ''FETCH'' then fetch m tag args True c s
        else if w = ''STORE'' then Some (storeFlags tag args True c s)
        else if w = ''SEARCH'' then Some (search tag args True c s)
        else if w = ''MOVE'' then Some (moveMessages u tag args True c s)
        else if w = ''EXPUNGE'' then Some (expunge tag c s)
        else Some (say_bad tag ''unsupported UID command'' c, s))" for m
    by (simp add: Let_def goodo_Some h p split: prod.split)
  show ?thesis unfolding dispatchUser_def Let_def
    by (simp add: goodo_Some h p u [unfolded Let_def] closeMailbox_def)
qed

end

section \<open>The tables stay well-formed\<close>

interpretation rows: mailbox_store store_ok uid "\<lambda>_. True" "\<lambda>_. True" for uid
  by unfold_locales (simp_all add: keeps_intros)

section \<open>A folder of another account\<close>

text \<open>What a folder holds: its row, its messages and its changes.\<close>

definition folder_view :: "int \<Rightarrow> db \<Rightarrow> folder list \<times> message list \<times> change list" where
  "folder_view i d = (filter (\<lambda>f. fo_id f = i) (tb_folders d), filter (\<lambda>m. ms_folder m = i) (tb_messages d),
     filter (\<lambda>c. ch_folder c = i) (tb_changes d))"

definition foreign_db :: "string \<Rightarrow> int \<Rightarrow> folder list \<times> message list \<times> change list \<Rightarrow> db \<Rightarrow> bool" where
  "foreign_db uid i V d \<longleftrightarrow> db_ok d \<and> folder_view i d = V \<and> fst V \<noteq> [] \<and> (\<forall>f\<in>set (fst V). fo_user f \<noteq> uid)"

definition foreign_ok :: "string \<Rightarrow> int \<Rightarrow> folder list \<times> message list \<times> change list \<Rightarrow> store \<Rightarrow> bool" where
  "foreign_ok uid i V s \<longleftrightarrow> foreign_db uid i V (st_db s)"

definition outside :: "folder list \<times> message list \<times> change list \<Rightarrow> int \<Rightarrow> bool" where
  "outside V k \<longleftrightarrow> k \<notin> ms_id ` set (fst (snd V))"

text \<open>Lifting: an operation keeps the view when its statements do.\<close>

lemma keeps_foreign_same:
  assumes "\<And>s. st_db (snd (m s)) = st_db s" shows "keeps (foreign_ok uid i V) m"
  by (simp add: keeps_def foreign_ok_def assms)

lemma keeps_foreign_sql:
  assumes "\<And>d x d'. foreign_db uid i V d \<Longrightarrow> f d = Inr (x, d') \<Longrightarrow> db_ok d' \<and> folder_view i d' = folder_view i d"
  shows "keeps (foreign_ok uid i V) (sql f)"
proof (rule keepsI)
  fix s assume s: "foreign_ok uid i V s"
  obtain r t where r: "sql f s = (r, t)" by fastforce
  show "foreign_ok uid i V (snd (sql f s))"
  proof (cases r)
    case (Inl e)
    then show ?thesis using s r sql_Inl_db [of f s e t] by (simp add: foreign_ok_def)
  next
    case (Inr x)
    then obtain d where "f (st_db s) = Inr (x, d)" "st_db t = d" using r by (auto simp: sql_Inr_iff)
    then show ?thesis using s r assms [of "st_db s" x d] by (auto simp: foreign_ok_def foreign_db_def)
  qed
qed

lemma keeps_foreign_inTx:
  assumes "keeps (foreign_ok uid i V) m" shows "keeps (foreign_ok uid i V) (inTx m)"
proof (rule keepsI)
  fix s assume s: "foreign_ok uid i V s"
  have "foreign_ok uid i V (snd (m (pop_fault s)))"
    by (rule keepsD [OF assms]) (use s in \<open>simp add: foreign_ok_def\<close>)
  then show "foreign_ok uid i V (snd (inTx m s))"
    using s by (cases "m (pop_fault s)"; cases "fst (m (pop_fault s))") (simp_all add: inTx_def foreign_ok_def)
qed

lemma keeps_db_sqlD: "keeps store_ok (sql f) \<Longrightarrow> db_ok d \<Longrightarrow> f d = Inr (x, d') \<Longrightarrow> db_ok d'"
proof -
  assume k: "keeps store_ok (sql f)" and d: "db_ok d" and f: "f d = Inr (x, d')"
  let ?s = "demo_store\<lparr>st_db := d\<rparr>"
  have "store_ok (snd (sql f ?s))" by (rule keepsD [OF k]) (simp add: store_ok_def d)
  then show "db_ok d'" using f by (simp add: sql_no_fault demo_store_def store_ok_def)
qed

lemma sql_reads_db:
  "st_db (snd (getAll q s)) = st_db s" "st_db (snd (get_row p s)) = st_db s" "st_db (snd (tx_get_row p s)) = st_db s"
  by (auto simp: getAll_def get_row_def tx_get_row_def sql_def split: list.splits)

lemma blob_ops_db:
  "st_db (snd (blobPut k b s)) = st_db s" "st_db (snd (blobGet k s)) = st_db s"
  by (auto simp: blobPut_def blobGet_def split: option.splits)

lemma LoadRaw_db: "st_db (snd (LoadRaw mo s)) = st_db s"
proof (cases mo)
  case (Some m)
  obtain r t where g: "blobGet (ms_raw_path m) s = (r, t)" by fastforce
  then have "st_db t = st_db s" using blob_ops_db(2) [of "ms_raw_path m" s] by simp
  then show ?thesis using Some g by (cases r) (auto simp: LoadRaw_def bindE_def)
qed (simp add: LoadRaw_def)

lemma keeps_foreign_read: "keeps (foreign_ok uid i V) (getAll q)" "keeps (foreign_ok uid i V) (get_row p)"
  "keeps (foreign_ok uid i V) (tx_get_row p)"
  by (rule keeps_foreign_same, rule sql_reads_db)+

lemma foreign_reads:
  "keeps (foreign_ok uid i V) (FoldersByUser u)" "keeps (foreign_ok uid i V) (FolderByType u t)"
  "keeps (foreign_ok uid i V) (FolderByName u n)" "keeps (foreign_ok uid i V) (MessagesForIMAP f)"
  "keeps (foreign_ok uid i V) (CountUnseen f)" "keeps (foreign_ok uid i V) (NextUID f)"
  "keeps (foreign_ok uid i V) (LoadRaw m)"
  unfolding FoldersByUser_def FolderByType_def FolderByName_def MessagesForIMAP_def CountUnseen_def NextUID_def
  by (intro keeps_foreign_read keeps_bindE keeps_okE keeps_foreign_same LoadRaw_db)+

lemma foreign_folder_ne:
  assumes "foreign_db uid i V d" "f \<in> set (tb_folders d)" "fo_user f = uid" shows "fo_id f \<noteq> i"
  using assms by (auto simp: foreign_db_def folder_view_def)

lemma found_folder_mem:
  "FolderByType uid t s = (Inr g, s') \<Longrightarrow> g \<in> set (tb_folders (st_db s)) \<and> fo_user g = uid"
  "FolderByName uid n s = (Inr g, s') \<Longrightarrow> g \<in> set (tb_folders (st_db s)) \<and> fo_user g = uid"
  unfolding FolderByType_def FolderByName_def get_row_Inr_iff by (elim conjE exE, drule first_row_mem, simp)+

lemma foreign_found:
  assumes "foreign_ok uid i V s"
  shows "FolderByType uid t s = (Inr g, s') \<Longrightarrow> fo_id g \<noteq> i" "FolderByName uid n s = (Inr g, s') \<Longrightarrow> fo_id g \<noteq> i"
  using assms found_folder_mem foreign_folder_ne unfolding foreign_ok_def by blast+

lemma foreign_messages:
  assumes "foreign_ok uid i V s" "f \<noteq> i" "MessagesForIMAP f s = (Inr ms, s')" "m \<in> set ms"
  shows "outside V (ms_id m) \<and> ms_folder m \<noteq> i"
proof -
  have m: "m \<in> set (tb_messages (st_db s))" "ms_folder m = f"
    using assms(3,4) by (auto simp: MessagesForIMAP_def getAll_Inr_iff live_in_def)
  have "ids_ok ms_id (sq_messages (st_db s)) (tb_messages (st_db s))"
    using assms(1) db_okD_mail by (auto simp: foreign_ok_def foreign_db_def)
  then have "x = m" if "x \<in> set (tb_messages (st_db s))" "ms_id x = ms_id m" for x
    using that m(1) by (auto intro: ids_ok_unique)
  then show ?thesis using m(2) assms(1,2)
    by (auto simp: outside_def foreign_ok_def foreign_db_def folder_view_def)
qed


lemma filter_update_where_other:
  "(\<And>x. P x \<Longrightarrow> k (f x) = k x) \<Longrightarrow> (\<And>x. P x \<Longrightarrow> k x \<noteq> i) \<Longrightarrow>
   filter (\<lambda>x. k x = i) (update_where P f xs) = filter (\<lambda>x. k x = i) xs"
  by (induction xs) auto

lemma foreign_bump: "keeps (foreign_ok uid i V) (sql (bump_seq e u))"
proof (rule keeps_foreign_sql)
  fix d x d' assume f: "foreign_db uid i V d" and b: "bump_seq e u d = Inr (x, d')"
  have "db_ok d'" by (rule keeps_db_sqlD [OF keeps_bump _ b]) (use f in \<open>simp add: foreign_db_def\<close>)
  then show "db_ok d' \<and> folder_view i d' = folder_view i d"
    using b by (auto simp: bump_seq_def folder_view_def split: option.splits)
qed

lemma foreign_insert_folder: "keeps (foreign_ok uid i V) (sql (insert_folder f))"
proof (rule keeps_foreign_sql)
  fix d x d' assume f: "foreign_db uid i V d" and b: "insert_folder f d = Inr (x, d')"
  have d: "db_ok d" "\<exists>g\<in>set (tb_folders d). fo_id g = i"
    using f by (auto simp: foreign_db_def folder_view_def filter_empty_conv)
  then have "i \<le> sq_folders d" by (auto simp: db_ok_def folders_ok_def ids_ok_def)
  then show "db_ok d' \<and> folder_view i d' = folder_view i d"
    using db_ok_folder_add [OF d(1) b] b by (auto simp: insert_folder_def folder_view_def Let_def split: if_splits)
qed

lemma foreign_NewUUID: "keeps (foreign_ok uid i V) NewUUID"
  by (rule keeps_foreign_same) (simp add: NewUUID_def)

lemma foreign_CreateFolder: "keeps (foreign_ok uid i V) (CreateFolder u p n t)"
proof -
  have "keeps (foreign_ok uid i V) (\<lambda>s. okE (nowUnix s) s)" by (simp add: keeps_def)
  then show ?thesis unfolding CreateFolder_def insertFolderTx_def Let_def
    by (intro keeps_foreign_inTx keeps_bindE keeps_if keeps_okE keeps_wrapDuplicate foreign_bump foreign_insert_folder
        foreign_NewUUID)
qed

lemma foreign_touchFolder:
  assumes "keeps_identity g" "j \<noteq> i" shows "keeps (foreign_ok uid i V) (touchFolder j g)"
proof -
  have "keeps (foreign_ok uid i V) (sql (update_folder j g seq))" for seq
  proof (rule keeps_foreign_sql)
    fix d x d' assume f: "foreign_db uid i V d" and b: "update_folder j g seq d = Inr (x, d')"
    have "db_ok (d\<lparr>tb_folders := update_where (\<lambda>f. fo_id f = j) (\<lambda>f. (g f)\<lparr>fo_seq := seq\<rparr>) (tb_folders d)\<rparr>)"
      by (rule db_ok_folders_upd) (use f b assms(1) in \<open>auto simp: foreign_db_def keeps_identity_def update_folder_def Let_def
          split: if_splits intro!: map_update_where\<close>)
    moreover have "filter (\<lambda>f. fo_id f = i) (update_where (\<lambda>f. fo_id f = j) (\<lambda>f. (g f)\<lparr>fo_seq := seq\<rparr>) (tb_folders d)) =
        filter (\<lambda>f. fo_id f = i) (tb_folders d)"
      by (rule filter_update_where_other) (use assms in \<open>auto simp: keeps_identity_def\<close>)
    ultimately show "db_ok d' \<and> folder_view i d' = folder_view i d"
      using b by (auto simp: update_folder_def folder_view_def Let_def split: if_splits)
  qed
  then show ?thesis unfolding touchFolder_def
    by (intro keeps_foreign_inTx keeps_bindE keeps_foreign_read foreign_bump)
qed

lemma foreign_folder_updates:
  "f \<noteq> i \<Longrightarrow> keeps (foreign_ok uid i V) (DeleteFolder f)" "f \<noteq> i \<Longrightarrow> keeps (foreign_ok uid i V) (RenameFolder f n)"
  unfolding RenameFolder_def DeleteFolder_def by (rule foreign_touchFolder, simp add: keeps_identity_def, assumption)+

lemma folder_view_upd_messages:
  assumes "\<And>m. m \<in> set (tb_messages d) \<Longrightarrow> P m \<Longrightarrow> ms_folder m \<noteq> i \<and> ms_folder (f m) \<noteq> i"
  shows "folder_view i (upd_messages P f d) = folder_view i d"
proof -
  have "filter (\<lambda>m. ms_folder m = i) (update_where P f ms) = filter (\<lambda>m. ms_folder m = i) ms"
    if "\<And>m. m \<in> set ms \<Longrightarrow> P m \<Longrightarrow> ms_folder m \<noteq> i \<and> ms_folder (f m) \<noteq> i" for ms
    using that by (induction ms) auto
  then show ?thesis using assms by (simp add: folder_view_def upd_messages_def)
qed

lemma foreign_outside:
  "foreign_db uid i V d \<Longrightarrow> outside V k \<Longrightarrow> m \<in> set (tb_messages d) \<Longrightarrow> ms_id m = k \<Longrightarrow> ms_folder m \<noteq> i"
  by (auto simp: foreign_db_def folder_view_def outside_def)

lemma foreign_UpdateMessage:
  assumes "ms_folder r \<noteq> i" "outside V (ms_id r)" shows "keeps (foreign_ok uid i V) (UpdateMessage r)"
  unfolding UpdateMessage_def
proof (rule keeps_foreign_sql, goal_cases)
  case (1 d x d')
  have "db_ok d'" by (rule keeps_db_sqlD [OF keeps_UpdateMessage [unfolded UpdateMessage_def] _ 1(2)])
      (use 1(1) in \<open>simp add: foreign_db_def\<close>)
  then show ?case using 1 foreign_outside [OF 1(1) assms(2)] assms(1)
    by (auto split: if_splits intro!: folder_view_upd_messages)
qed

lemma foreign_MoveMessage:
  assumes "f \<noteq> i" "outside V k" shows "keeps (foreign_ok uid i V) (MoveMessage k f)"
  unfolding MoveMessage_def
proof (rule keeps_foreign_sql, goal_cases)
  case (1 d x d')
  have "db_ok d'" by (rule keeps_db_sqlD [OF keeps_MoveMessage [unfolded MoveMessage_def] _ 1(2)])
      (use 1(1) in \<open>simp add: foreign_db_def\<close>)
  then show ?case using 1 foreign_outside [OF 1(1) assms(2)] assms(1)
    by (auto split: if_splits intro!: folder_view_upd_messages)
qed

lemma foreign_AddChange:
  assumes "f \<noteq> i" shows "keeps (foreign_ok uid i V) (AddChange f k ty j)"
  unfolding AddChange_def
proof (rule keeps_foreign_sql, goal_cases)
  case (1 d x d')
  have "db_ok d'" by (rule keeps_db_sqlD [OF keeps_AddChange [unfolded AddChange_def] _ 1(2)])
      (use 1(1) in \<open>simp add: foreign_db_def\<close>)
  then show ?case using 1(2) assms by (auto simp: insert_change_def Let_def folder_view_def split: if_splits)
qed

lemma foreign_blobPut: "keeps (foreign_ok uid i V) (blobPut k b)"
  by (rule keeps_foreign_same) (rule blob_ops_db)

lemma foreign_InsertAttachment: "keeps (foreign_ok uid i V) (InsertAttachment a)"
proof -
  have A: "keeps (foreign_ok uid i V) (sql (insert_attachment b))" for b
  proof (rule keeps_foreign_sql, goal_cases)
    case (1 d x d')
    then have "db_ok d'" by (auto simp: foreign_db_def insert_attachment_def Let_def db_ok_def db_parts ids_ok_append
        split: if_splits)
    then show ?case using 1(2) by (auto simp: insert_attachment_def Let_def folder_view_def split: if_splits)
  qed
  have "keeps (foreign_ok uid i V) (bindE (blobPut p x) (\<lambda>_. sql (insert_attachment b)))" for p x b
    by (intro keeps_bindE foreign_blobPut A)
  then show ?thesis by (simp add: keeps_def InsertAttachment_def Let_def)
qed


lemma foreign_insert_message:
  assumes "ms_folder r \<noteq> i" shows "keeps (foreign_ok uid i V) (sql (insert_message r))"
proof (rule keeps_foreign_sql, goal_cases)
  case (1 d x d')
  have "db_ok d'" by (rule keeps_db_sqlD [OF keeps_insert_message _ 1(2)]) (use 1(1) in \<open>simp add: foreign_db_def\<close>)
  then show ?case using 1(2) assms by (auto simp: insert_message_def Let_def folder_view_def split: if_splits)
qed

lemma new_message_outside:
  assumes "foreign_ok uid i V s" "sql (insert_message r) s = (Inr k, t)" shows "outside V k"
proof -
  have "k = sq_messages (st_db s) + 1"
    using assms(2) by (auto simp: sql_Inr_iff insert_message_def Let_def split: if_splits)
  moreover have "ms_id m \<le> sq_messages (st_db s)" if "m \<in> set (tb_messages (st_db s))" for m
    using that assms(1) by (auto simp: foreign_ok_def foreign_db_def db_ok_def mail_ok_def ids_ok_def)
  ultimately show ?thesis using assms(1)
    by (fastforce simp: outside_def foreign_ok_def foreign_db_def folder_view_def)
qed

lemma foreign_set_path:
  assumes "outside V k"
  shows "keeps (foreign_ok uid i V) (exec (upd_messages (\<lambda>r. ms_id r = k) (\<lambda>r. r\<lparr>ms_raw_path := p\<rparr>)))"
  unfolding exec_def
proof (rule keeps_foreign_sql, goal_cases)
  case (1 d x d')
  then have "db_ok d'" by (auto simp: foreign_db_def intro!: db_ok_upd_messages)
  moreover have "folder_view i (upd_messages (\<lambda>r. ms_id r = k) (\<lambda>r. r\<lparr>ms_raw_path := p\<rparr>) d) = folder_view i d"
    by (rule folder_view_upd_messages) (use foreign_outside [OF 1(1) assms] in simp)
  ultimately show ?case using 1(2) by simp
qed

lemma foreign_InsertMessage:
  assumes "ms_folder r \<noteq> i" shows "keeps (foreign_ok uid i V) (InsertMessage r)"
proof (rule keepsI)
  fix s assume s: "foreign_ok uid i V s"
  let ?m = "message_defaults (nowUnix s) r" and ?J = "foreign_ok uid i V"
  have f: "ms_folder ?m \<noteq> i" using assms by (simp add: message_defaults_def)
  obtain q t where q: "sql (insert_message ?m) s = (q, t)" by fastforce
  have t: "?J t" using keepsD [OF foreign_insert_message [OF f] s] q by simp
  have p: "?J (snd (bindE (blobPut p (ms_raw ?m)) (\<lambda>_. bindE (exec (upd_messages (\<lambda>r. ms_id r = k)
      (\<lambda>r. r\<lparr>ms_raw_path := p\<rparr>))) (\<lambda>_. okE k)) t))" if "outside V k" for p k
    by (rule keepsD [where I = ?J, OF _ t]) (intro keeps_bindE foreign_blobPut foreign_set_path that keeps_okE)
  show "?J (snd (InsertMessage r s))"
  proof (cases q)
    case (Inl e)
    then show ?thesis using s t q by (simp add: InsertMessage_def Let_def)
  next
    case (Inr k)
    then show ?thesis using s t q p new_message_outside [OF s, of ?m k t] by (simp add: InsertMessage_def Let_def)
  qed
qed

interpretation other: mailbox_store "foreign_ok uid i V" uid "\<lambda>f. f \<noteq> i" "outside V" for uid i V
  by unfold_locales (simp_all add: foreign_reads foreign_found foreign_messages foreign_CreateFolder
      foreign_folder_updates foreign_InsertMessage foreign_InsertAttachment foreign_UpdateMessage
      foreign_MoveMessage foreign_AddChange)

end
