(* ===== verification/ImapProps.thy ===== *)
theory ImapProps imports ImapInv begin

text \<open>
  The properties of the IMAP server: who gets in, that a command keeps the tables well-formed and
  never touches a folder of another account, what \<open>STORE\<close> does to the rows and to the change feed
  that the ActiveSync devices read, and the defects of \<open>EXAMINE\<close>, of partial fetches and of
  \<open>IDLE\<close>.
\<close>

section \<open>Logging in\<close>

lemma UserByLogin_db: "st_db (snd (UserByLogin l s)) = st_db s"
proof -
  have a: "st_db (snd (userByAlias x t)) = st_db t" for x t by (simp add: userByAlias_def sql_reads_db)
  have "st_db (snd (UserByAddress x t)) = st_db t" for x t
  proof (cases "userByAlias (normalizeEmail x) t")
    case (Pair r t1)
    then have "st_db t1 = st_db t" using a [of "normalizeEmail x" t] by simp
    then show ?thesis using Pair a
      by (auto simp: UserByAddress_def Let_def split: sum.split option.split)
  qed
  then show ?thesis by (simp add: UserByLogin_def Let_def UserByName_def sql_reads_db)
qed

lemma keeps_UserByLogin: "keeps store_ok (UserByLogin l)"
  by (simp add: keeps_def store_ok_def UserByLogin_db)

text \<open>What a login attempt may change.\<close>

definition login_ok :: "imap_server \<Rightarrow> int \<Rightarrow> world \<Rightarrow> world \<Rightarrow> bool" where
  "login_ok srv now w w' \<longleftrightarrow> (case (w, w') of ((c, s, lim), (c', s', lim')) \<Rightarrow>
     st_db s' = st_db s \<and> cn_selected c' = cn_selected c \<and> (cn_user c' \<noteq> cn_user c \<longrightarrow>
       (\<exists>username password u. cn_user c' = Some u \<and> \<not> fst (fst (Locked now (imapKey c username) lim)) \<and>
          fst (UserByLogin username s) = Inr u \<and> is_bcrypt srv (us_hash u) password)))"

lemma credentials_ok:
  assumes "cn_remote c0 = cn_remote c" "cn_user c0 = cn_user c" "cn_selected c0 = cn_selected c"
  shows "login_ok srv now (c0, s, lim) (authenticateCredentials srv now tag username password c s lim)"
proof -
  let ?key = "imapKey c username"
  obtain locked retry lim1 where l: "Locked now ?key lim = ((locked, retry), lim1)" by (metis prod.exhaust)
  obtain r s1 where u: "UserByLogin username s = (r, s1)" by fastforce
  have k: "imapKey c0 username = ?key" by (simp add: imapKey_def assms)
  have d: "st_db s1 = st_db s" using UserByLogin_db [of username s] u by simp
  show ?thesis
  proof (cases r)
    case (Inl e)
    then show ?thesis using assms l u d
      by (auto simp: login_ok_def authenticateCredentials_def Let_def conn_simps)
  next
    case (Inr x)
    show ?thesis
    proof (cases "locked \<or> \<not> is_bcrypt srv (us_hash x) password")
      case True
      then show ?thesis using assms l u d Inr
        by (auto simp: login_ok_def authenticateCredentials_def Let_def conn_simps)
    next
      case False
      have "fst (UserByLogin username s) = Inr x" "\<not> fst (fst (Locked now (imapKey c0 username) lim))"
        using u Inr l k False by simp_all
      then have e: "\<exists>username password. \<not> fst (fst (Locked now (imapKey c0 username) lim)) \<and>
          fst (UserByLogin username s) = Inr x \<and> is_bcrypt srv (us_hash x) password" using False by blast
      have "authenticateCredentials srv now tag username password c s lim =
          (say_ok tag (''[CAPABILITY '' @ capabilities @ ''] LOGIN completed'') (c\<lparr>cn_user := Some x\<rparr>), s1, Reset ?key lim1)"
        using False l u Inr by (simp add: authenticateCredentials_def Let_def)
      then show ?thesis using e d assms(3) by (simp add: login_ok_def conn_simps)
    qed
  qed
qed

lemma login_ok_same: "cn_user c' = cn_user c \<Longrightarrow> cn_selected c' = cn_selected c \<Longrightarrow> login_ok srv now (c, s, lim) (c', s, lim')"
  by (simp add: login_ok_def)

text \<open>Reading and writing on the connection.\<close>

definition same_conn :: "conn \<Rightarrow> conn \<Rightarrow> bool" where
  "same_conn c c' \<longleftrightarrow> cn_user c' = cn_user c \<and> cn_selected c' = cn_selected c \<and> cn_remote c' = cn_remote c"

lemma same_conn_ops: "same_conn c (snd (readString c))" "same_conn c (snd (writeE l c))"
  by (simp_all add: same_conn_def readString_def writeE_def writeLine_def write_bytes_def split: option.split)

lemma same_conn_bindE:
  "(\<And>c. same_conn c (snd (m c))) \<Longrightarrow> (\<And>x c. same_conn c (snd (f x c))) \<Longrightarrow> same_conn c (snd (bindE m f c))"
  by (simp add: same_conn_def snd_bindE split: prod.split sum.split) (metis snd_conv)

lemma same_conn_readBase64: "same_conn c (snd (readBase64 p c))"
  unfolding readBase64_def
  by (intro same_conn_bindE same_conn_ops) (simp add: same_conn_def split: option.split)

lemma authPlain_ok:
  assumes "same_conn c0 c" shows "login_ok srv now (c0, s, lim) (authPlain srv now tag p c s lim)"
proof -
  have "login_ok srv now (c0, s, lim) (say_no tag x c, s, lim)" for x
    using assms by (intro login_ok_same) (simp_all add: same_conn_def conn_simps)
  moreover have "login_ok srv now (c0, s, lim) (authenticateCredentials srv now tag a b c s lim)" for a b
    using assms by (intro credentials_ok) (simp_all add: same_conn_def)
  ultimately show ?thesis by (simp add: authPlain_def split: option.split list.split)
qed

lemma imapAuthenticate_ok: "login_ok srv now (c, s, lim) (imapAuthenticate srv now tag rest c s lim)"
proof -
  have r: "same_conn c (snd (bindE (writeE x) (\<lambda>_. readString) c))" for x by (intro same_conn_bindE same_conn_ops)
  have b: "same_conn c (snd (bindE (readBase64 x) (\<lambda>a. bindE (readBase64 y) (\<lambda>z. okE (a, z))) c))" for x y
    by (intro same_conn_bindE same_conn_readBase64) (simp add: same_conn_def)
  have s: "login_ok srv now (c, s, lim) (c1, s, lim)" if "same_conn c c1" for c1
    using that by (intro login_ok_same) (simp_all add: same_conn_def)
  have n: "same_conn c (say_no tag x c)" "same_conn c (say_bad tag x c)" for x
    by (simp_all add: same_conn_def say_no_def say_bad_def conn_simps)
  have a: "login_ok srv now (c, s, lim) (authenticateCredentials srv now tag x y c1 s lim)" if "same_conn c c1" for x y c1
    using that by (intro credentials_ok) (simp_all add: same_conn_def)
  show ?thesis unfolding imapAuthenticate_def
    using r [of "''+ ''"] b [of "''Username:''" "''Password:''"]
    by (auto intro: s n a authPlain_ok simp: same_conn_def [of c c] split: list.split prod.split sum.split)
qed

lemma login_ok_login: "login_ok srv now (c, s, lim) (login srv now tag rest c s lim)"
  by (auto simp: login_def Let_def conn_simps intro: login_ok_same credentials_ok)

text \<open>C8: who gets in. A command of a connection that is not logged in, whatever it is, changes
  no row; the connection is logged in afterwards only for an account that the login name
  resolves to, with a password that matches the hash of that account, under a key that the
  throttle does not lock.\<close>

theorem imap_login_required:
  assumes "cn_user c = None" "dispatch srv now reads tag verb rest lit (c, s, lim) = Some (c', s', lim')"
  shows "st_db s' = st_db s \<and> (\<forall>u. cn_user c' = Some u \<longrightarrow> (\<exists>username password.
    \<not> fst (fst (Locked now (imapKey c username) lim)) \<and> fst (UserByLogin username s) = Inr u \<and>
    is_bcrypt srv (us_hash u) password))"
proof -
  have "login_ok srv now (c, s, lim) (c', s', lim')"
    using assms login_ok_login [of srv now c s lim tag rest] imapAuthenticate_ok [of srv now c s lim tag rest]
    by (auto simp: dispatch_def conn_simps split: if_splits intro!: login_ok_same)
  then show ?thesis using assms(1) by (fastforce simp: login_ok_def)
qed

definition demo_conn :: conn where
  "demo_conn = \<lparr>cn_user = None, cn_selected = None, cn_readOnly = False, cn_remote = ''h'', cn_in = [], cn_out = [],
     cn_writes = None\<rparr>"

definition demo_imap :: imap_server where
  "demo_imap = \<lparr>is_env = \<lparr>ie_match = (\<lambda>_ _. None), ie_date = (\<lambda>_. None), ie_reader = (\<lambda>_. None),
       ie_lib = \<lparr>ml_list = (\<lambda>_. None), ml_string = (\<lambda>_ a. a), ml_filename = (\<lambda>_. []), ml_sha1 = (\<lambda>_. [])\<rparr>,
       ie_mime = \<lparr>me_read = (\<lambda>_. None), me_decode = (\<lambda>_. None), me_addresses = (\<lambda>_. None), me_media = (\<lambda>_. None),
         me_date = (\<lambda>_. [])\<rparr>\<rparr>,
     is_bcrypt = (\<lambda>h p. h = p), is_version = []\<rparr>"

theorem imap_login_required_witness:
  "\<exists>c' s' lim'. dispatch demo_imap 0 [] ''a'' ''DELETE'' ''Spam'' [] (demo_conn, demo_store, None) = Some (c', s', lim') \<and>
     st_db s' = demo_db \<and> cn_user c' = None"
proof -
  let ?c = "say_no ''a'' ''authenticate first'' demo_conn"
  have d: "dispatch demo_imap 0 [] ''a'' ''DELETE'' ''Spam'' [] (demo_conn, demo_store, None) = Some (?c, demo_store, None)"
    by (simp add: dispatch_def demo_conn_def)
  have "cn_user demo_conn = None" by (simp add: demo_conn_def)
  from imap_login_required [OF this d] have "st_db demo_store = st_db demo_store" by blast
  then show ?thesis using d by (simp add: conn_simps demo_conn_def)
qed

section \<open>The tables\<close>

lemma login_ok_store: "login_ok srv now (c, s, lim) (c', s', lim') \<Longrightarrow> st_db s' = st_db s"
  by (simp add: login_ok_def)

text \<open>A command either changes no row or is one of the commands of a user.\<close>

lemma dispatch_cases:
  assumes "dispatch srv now reads tag verb rest lit (c, s, lim) = Some (c', s', lim')"
  obtains "login_ok srv now (c, s, lim) (c', s', lim')"
  | u where "cn_user c = Some u" "dispatchUser srv reads u tag verb rest lit c s = Some (c', s')"
proof (cases "\<exists>u. cn_user c = Some u \<and> dispatchUser srv reads u tag verb rest lit c s = Some (c', s')")
  case False
  then have "login_ok srv now (c, s, lim) (c', s', lim')"
    using assms login_ok_login [of srv now c s lim tag rest] imapAuthenticate_ok [of srv now c s lim tag rest]
    by (auto simp: dispatch_def conn_simps split: if_splits option.splits intro!: login_ok_same)
  then show ?thesis by (rule that(1))
qed (use that(2) in blast)

lemma dispatch_keeps:
  assumes "store_ok s" "dispatch srv now reads tag verb rest lit (c, s, lim) = Some (c', s', lim')"
  shows "store_ok s'"
  using assms(2)
proof (cases rule: dispatch_cases)
  case 1
  then show ?thesis using assms(1) login_ok_store by (auto simp: store_ok_def)
next
  case (2 u)
  have "rows.goodo (dispatchUser srv reads u tag verb rest lit c s)"
    by (rule rows.dispatchUser_good [OF refl assms(1)]) (cases "cn_selected c"; simp)
  then show ?thesis using 2(2) by (simp add: rows.goodo_def good_def)
qed

text \<open>C6: a mailbox of another account is out of reach. Whatever a connection that is logged in
  sends, and whichever statements and writes fail on the way, a folder of another account keeps
  its row, its messages and its change feed, as long as the mailbox that is selected belongs to
  the account that is logged in.\<close>

theorem imap_isolation:
  assumes "store_ok s" "cn_user c = Some u" "g \<in> set (tb_folders (st_db s))" "fo_user g \<noteq> us_id u"
    and "\<And>f. cn_selected c = Some f \<Longrightarrow> \<exists>r\<in>set (tb_folders (st_db s)). fo_id r = fo_id f \<and> fo_user r = us_id u"
    and "dispatch srv now reads tag verb rest lit (c, s, lim) = Some (c', s', lim')"
  shows "folder_view (fo_id g) (st_db s') = folder_view (fo_id g) (st_db s)"
  using assms(6)
proof (cases rule: dispatch_cases)
  case 1
  then show ?thesis by (simp add: login_ok_store)
next
  case (2 v)
  let ?V = "folder_view (fo_id g) (st_db s)"
  have d: "db_ok (st_db s)" using assms(1) by (simp add: store_ok_def)
  have one: "r = g" if "r \<in> set (tb_folders (st_db s))" "fo_id r = fo_id g" for r
    using folder_row_mem [OF d that(1)] folder_row_mem [OF d assms(3)] that(2) by (metis option.inject)
  then have F: "foreign_ok (us_id u) (fo_id g) ?V s"
    using d assms(3,4) by (auto simp: foreign_ok_def foreign_db_def folder_view_def filter_empty_conv)
  have "fo_id f \<noteq> fo_id g" if "cn_selected c = Some f" for f
    using assms(4,5) that one by metis
  then have S: "pred_option (\<lambda>f. fo_id f \<noteq> fo_id g) (cn_selected c)" by (cases "cn_selected c") auto
  have "other.goodo (us_id u) (fo_id g) ?V (dispatchUser srv reads u tag verb rest lit c s)"
    by (rule other.dispatchUser_good [OF refl F S])
  then show ?thesis using 2 assms(2) by (auto simp: other.goodo_def good_def foreign_ok_def foreign_db_def)
qed


text \<open>Another account asks to delete a mailbox by the name of one of \<open>u\<close>.\<close>

theorem imap_isolation_witness:
  "\<exists>c' s' lim'. dispatch demo_imap 0 [] ''a'' ''DELETE'' ''Spam'' []
      (demo_conn\<lparr>cn_user := Some (demo_user\<lparr>us_id := ''w''\<rparr>)\<rparr>, demo_store, None) = Some (c', s', lim') \<and>
     folder_view 2 (st_db s') = folder_view 2 demo_db"
proof -
  let ?c = "demo_conn\<lparr>cn_user := Some (demo_user\<lparr>us_id := ''w''\<rparr>)\<rparr>"
  obtain c' s' where "deleteMailbox (demo_user\<lparr>us_id := ''w''\<rparr>) ''a'' ''Spam'' ?c demo_store = (c', s')" by fastforce
  then have d: "dispatch demo_imap 0 [] ''a'' ''DELETE'' ''Spam'' [] (?c, demo_store, None) = Some (c', s', None)"
    by (simp add: dispatch_def dispatchUser_def Let_def)
  have g: "demo_folder 2 ''Spam'' 12 2 \<in> set (tb_folders (st_db demo_store))" "fo_user (demo_folder 2 ''Spam'' 12 2) = ''u''"
    "fo_id (demo_folder 2 ''Spam'' 12 2) = 2"
    by (simp_all add: demo_db_def) (simp_all add: demo_folder_def)
  from imap_isolation [OF demo_ok _ g(1) _ _ d, of "demo_user\<lparr>us_id := ''w''\<rparr>"] g(2,3) d
  show ?thesis by (simp add: demo_conn_def)
qed

section \<open>Sessions\<close>

text \<open>A session: the commands of one connection, between which anything else may change the tables
  as long as it keeps them well-formed, may change the throttle and may let the peer send
  more.\<close>

inductive session :: "imap_server \<Rightarrow> world \<Rightarrow> bool" for srv where
  greeting: "session srv (c, s, lim)" if "cn_user c = None" "cn_selected c = None" "store_ok s"
| command: "session srv w'" if "session srv w" "serveOne srv now reads w = Some (Inr w')"
| elsewhere: "session srv (c\<lparr>cn_in := input, cn_writes := writes\<rparr>, s', lim')" if "session srv (c, s, lim)" "store_ok s'"

text \<open>The handlers never change the account, and leave the selection to the account.\<close>

definition keeps_user :: "conn \<Rightarrow> conn \<Rightarrow> bool" where
  "keeps_user c c' \<longleftrightarrow> cn_user c' = cn_user c"

lemma keeps_user_writes:
  "keeps_user c (say l c') = keeps_user c c'" "keeps_user c (say_ok t l c') = keeps_user c c'"
  "keeps_user c (say_no t l c') = keeps_user c c'" "keeps_user c (say_bad t l c') = keeps_user c c'"
  "keeps_user c (snd (writeLine l c')) = keeps_user c c'" "keeps_user c (snd (write_bytes l c')) = keeps_user c c'"
  "keeps_user c (c'\<lparr>cn_selected := x\<rparr>) = keeps_user c c'" "keeps_user c (c'\<lparr>cn_readOnly := y\<rparr>) = keeps_user c c'"
  by (simp_all add: keeps_user_def conn_simps writeLine_def)

lemma keeps_user_write: "writeLine l c' = (b, c'') \<Longrightarrow> keeps_user c c'' = keeps_user c c'"
  "write_bytes l c' = (b, c'') \<Longrightarrow> keeps_user c c'' = keeps_user c c'"
  using keeps_user_writes(5,6) by (metis snd_conv)+

lemma list_lines_user: "keeps_user c c' \<Longrightarrow> keeps_user c (list_lines t v fs c')"
  by (induction fs arbitrary: c') (auto simp: keeps_user_writes Let_def dest: keeps_user_write split: prod.split bool.split)


named_theorems user_simps "no handler changes the account"

lemma simple_handlers_user [user_simps]:
  "keeps_user c (fst (listMailboxes e u t r l c s))" "keeps_user c (fst (status u t r c s))"
  "keeps_user c (fst (createMailbox u t r c s))" "keeps_user c (fst (deleteMailbox u t r c s))"
  "keeps_user c (fst (renameMailbox u t r c s))" "keeps_user c (fst (appendMessage e u t r lit c s))"
  "keeps_user c (fst (closeMailbox t c s))"
proof -
  have r: "keeps_user c c" by (simp add: keeps_user_def)
  show "keeps_user c (fst (listMailboxes e u t r l c s))"
    by (simp add: listMailboxes_def Let_def keeps_user_writes list_lines_user r split: prod.split sum.split)
  show "keeps_user c (fst (status u t r c s))"
    by (simp add: status_def Let_def keeps_user_writes r split: prod.split sum.split)
  show "keeps_user c (fst (createMailbox u t r c s))"
    by (simp add: createMailbox_def Let_def keeps_user_writes r split: prod.split sum.split)
  show "keeps_user c (fst (deleteMailbox u t r c s))"
    by (simp add: deleteMailbox_def Let_def keeps_user_writes r split: prod.split sum.split)
  show "keeps_user c (fst (renameMailbox u t r c s))"
    by (simp add: renameMailbox_def Let_def keeps_user_writes r split: prod.split sum.split)
  show "keeps_user c (fst (appendMessage e u t r lit c s))"
    by (simp add: appendMessage_def Let_def keeps_user_writes r split: prod.split sum.split list.split)
  show "keeps_user c (fst (closeMailbox t c s))"
    by (simp add: closeMailbox_def keeps_user_writes r)
qed

lemma first_unseen_user: "keeps_user c (first_unseen ms c') = keeps_user c c'"
  by (simp add: first_unseen_def keeps_user_writes split: option.split prod.split)

lemma selectMailbox_user [user_simps]: "keeps_user c (fst (selectMailbox u t r b c s))"
proof -
  have "keeps_user c (select_lines t f ms n k b (c\<lparr>cn_selected := x, cn_readOnly := b\<rparr>))" for f ms n k x
    by (simp add: select_lines_def Let_def keeps_user_writes first_unseen_user) (simp add: keeps_user_def)
  then show ?thesis
    by (simp add: selectMailbox_def Let_def keeps_user_writes split: prod.split sum.split) (simp add: keeps_user_def)
qed

lemma requireSelected_user:
  assumes "\<And>f. keeps_user c (fst (h f c s))" shows "keeps_user c (fst (requireSelected t h c s))"
  using assms by (cases "cn_selected c") (simp_all add: requireSelected_def keeps_user_writes, simp add: keeps_user_def)

lemma store_loop_user: "keeps_user c c' \<Longrightarrow> keeps_user c (fst (store_loop t opr si ws f ms c' s))"
proof (induction ms arbitrary: c' s)
  case (Cons p ms)
  obtain i m where p: "p = (i, m)" by fastforce
  show ?case
  proof (cases "new_flags opr ws m")
    case None
    then show ?thesis using Cons.prems p by (simp add: keeps_user_writes)
  next
    case (Some fl)
    obtain r s1 where r: "UpdateMessage (set_flags fl m) s = (r, s1)" by fastforce
    obtain b c2 where w: "writeLine (''* '' @ itoa (int i + 1) @ '' FETCH (FLAGS '' @ flagsString (set_flags fl m) @ '')'') c' = (b, c2)"
      by fastforce
    then have "keeps_user c c2" using Cons.prems keeps_user_write(1) [OF w] by simp
    then show ?thesis using Cons p Some r w by (cases r; cases b; cases si) (simp_all add: Let_def)
  qed
qed (simp add: keeps_user_writes)

lemma selected_handlers_user [user_simps]:
  "keeps_user c (fst (expunge t c s))" "keeps_user c (fst (moveMessages u t r b c s))"
  "keeps_user c (fst (storeFlags t r b c s))" "keeps_user c (fst (search t r b c s))"
proof -
  have r: "keeps_user c c" by (simp add: keeps_user_def)
  show "keeps_user c (fst (expunge t c s))"
    unfolding expunge_def by (rule requireSelected_user) (simp add: keeps_user_writes r)
  show "keeps_user c (fst (moveMessages u t r b c s))"
    unfolding moveMessages_def
    by (rule requireSelected_user) (simp add: Let_def keeps_user_writes r split: prod.split sum.split)
  show "keeps_user c (fst (storeFlags t r b c s))"
    unfolding storeFlags_def
    by (rule requireSelected_user) (simp add: Let_def keeps_user_writes r store_loop_user split: prod.split sum.split)
  show "keeps_user c (fst (search t r b c s))"
    unfolding search_def
    by (rule requireSelected_user) (simp add: Let_def keeps_user_writes r split: prod.split sum.split)
qed

lemma idle_news_user: "keeps_user c c' \<Longrightarrow> keeps_user c (fst (snd (idle_news l c' s)))"
  by (simp add: idle_news_def keeps_user_writes split: option.split prod.split sum.split)

lemma idle_loop_user: "keeps_user c0 c \<Longrightarrow> keeps_user c0 (fst (idle_loop t l p rs c s))"
proof (induction t l p rs c s rule: idle_loop.induct)
  case (3 t l p rs c s)
  then show ?case using idle_news_user [of c0 c l s] by (cases "idle_news l c s") auto
qed (auto simp: keeps_user_writes split: option.split)

lemma idle_user [user_simps]: "keeps_user c (fst (idle t rs c s))"
proof -
  obtain b c1 where w: "writeLine ''+ idling'' c = (b, c1)" by fastforce
  then have "keeps_user c c1" using keeps_user_write(1) [OF w] by (simp add: keeps_user_def)
  then show ?thesis using w by (cases b) (simp_all add: idle_def idle_loop_user split: prod.split)
qed

lemma fetch_loop_user: "keeps_user c c' \<Longrightarrow> fetch_loop e t its b ms c' s = Some (c2, s2) \<Longrightarrow> keeps_user c c2"
proof (induction ms arbitrary: c' s)
  case (Cons p ms)
  obtain i m where p: "p = (i, m)" by fastforce
  obtain r s1 where r: "LoadRaw (Some m) s = (r, s1)" by fastforce
  show ?case
  proof (cases r)
    case (Inl x)
    then show ?thesis using Cons.prems p r by (auto simp: keeps_user_writes)
  next
    case (Inr m')
    then obtain x where x: "buildFetchResponse e (int i + 1) m' its b = Some x"
      using Cons.prems(2) p r by (auto split: option.splits)
    obtain ok c3 where w: "write_bytes x c' = (ok, c3)" by fastforce
    then have "keeps_user c c3" using Cons.prems(1) keeps_user_write(2) [OF w] by simp
    then show ?thesis using Cons p r Inr x w by (cases ok) auto
  qed
qed (auto simp: keeps_user_writes)

definition same_user :: "conn \<Rightarrow> (conn \<times> store) option \<Rightarrow> bool" where
  "same_user c r \<longleftrightarrow> (\<forall>x. r = Some x \<longrightarrow> keeps_user c (fst x))"

lemma same_user_Some [simp]: "same_user c (Some x) \<longleftrightarrow> keeps_user c (fst x)"
  by (simp add: same_user_def)

lemma fetch_user: "same_user c (fetch e t r b c s)"
proof -
  have u: "keeps_user c c" by (simp add: keeps_user_def)
  have l: "same_user c (fetch_loop e t its b ms c s1)" for its ms s1
    using fetch_loop_user [OF u] by (auto simp: same_user_def)
  show ?thesis
    by (simp add: fetch_def Let_def keeps_user_writes u l split: option.split sum.split prod.split)
qed

lemma dispatchUser_user: "same_user c (dispatchUser srv reads u t v r lit c s)"
proof -
  have u: "keeps_user c c" by (simp add: keeps_user_def)
  show ?thesis by (simp add: dispatchUser_def Let_def split_beta user_simps keeps_user_writes u fetch_user)
qed


lemma same_conn_refl [simp]: "same_conn c c"
  by (simp add: same_conn_def)

lemma same_conn_readFull: "same_conn c (snd (readFull n c))"
  by (simp add: same_conn_def readFull_def)

lemma same_conn_readCommand: "same_conn c (snd (readCommand c))"
proof -
  have a: "same_conn c (snd (bindE (readFull n) (\<lambda>lit. bindE readString (\<lambda>rest. okE (f rest, lit))) c))" for n f c
    by (intro same_conn_bindE same_conn_ops same_conn_readFull) simp
  have b: "same_conn c (snd (bindE (writeE x) (\<lambda>_. bindE (readFull n) (\<lambda>lit. bindE readString (\<lambda>rest. okE (f rest, lit)))) c))"
    for x n f c
    by (rule same_conn_bindE) (rule same_conn_ops, rule a)
  show ?thesis unfolding readCommand_def Let_def
    by (intro same_conn_bindE same_conn_ops) (auto simp: a b split: option.split prod.split)
qed

definition session_ok :: "world \<Rightarrow> bool" where
  "session_ok w \<longleftrightarrow> (case w of (c, s, lim) \<Rightarrow> store_ok s \<and> (cn_selected c \<noteq> None \<longrightarrow> cn_user c \<noteq> None))"

lemma dispatch_session_ok:
  assumes "session_ok (c, s, lim)" "dispatch srv now reads tag verb rest lit (c, s, lim) = Some (c', s', lim')"
  shows "session_ok (c', s', lim')"
proof -
  have "store_ok s'" using dispatch_keeps [OF _ assms(2)] assms(1) by (simp add: session_ok_def)
  moreover have "cn_selected c' \<noteq> None \<longrightarrow> cn_user c' \<noteq> None"
    using assms(2)
  proof (cases rule: dispatch_cases)
    case 1
    then show ?thesis using assms(1) by (cases "cn_user c' = cn_user c") (auto simp: login_ok_def session_ok_def)
  next
    case (2 u)
    then show ?thesis using dispatchUser_user [of c srv reads u tag verb rest lit s]
      by (simp add: same_user_def keeps_user_def)
  qed
  ultimately show ?thesis by (simp add: session_ok_def)
qed

lemma serveOne_session_ok:
  assumes "session_ok w" "serveOne srv now reads w = Some (Inr w')" shows "session_ok w'"
proof -
  obtain c s lim where w: "w = (c, s, lim)" by (cases w) auto
  obtain line lit c1 where r: "readCommand c = (Inr (line, lit), c1)"
    using assms(2) w by (auto simp: serveOne_def split: prod.splits sum.splits)
  have "same_conn c c1" using same_conn_readCommand [of c] r by simp
  then have c1: "session_ok (c1, s, lim)" using assms(1) w by (simp add: session_ok_def same_conn_def)
  obtain tag verb rest where v: "splitCommand line = (tag, verb, rest)" by (metis prod.exhaust)
  show ?thesis
  proof (cases "trim_space line = [] \<or> tag = [] \<or> verb = []")
    case True
    then show ?thesis using assms(2) w r v c1
      by (auto simp: serveOne_def session_ok_def conn_simps split: if_splits)
  next
    case False
    then have "dispatch srv now reads tag (to_upper verb) rest lit (c1, s, lim) = Some w'"
      using assms(2) w r v by (auto simp: serveOne_def)
    then show ?thesis using dispatch_session_ok [OF c1] by (cases w') auto
  qed
qed

text \<open>What holds all through a session. However the commands of a connection, the work of the
  rest of the server and failures interleave, the tables stay well-formed, and a mailbox is
  selected only while an account is logged in, so no handler reads the account of a connection
  that has none.\<close>

theorem session_invariant:
  assumes "session srv (c, s, lim)"
  shows "store_ok s \<and> (cn_selected c \<noteq> None \<longrightarrow> cn_user c \<noteq> None)"
proof -
  have "session srv w \<Longrightarrow> session_ok w" for w
  proof (induction rule: session.induct)
    case (command w now reads w')
    then show ?case by (blast intro: serveOne_session_ok)
  qed (simp_all add: session_ok_def)
  from this [OF assms] show ?thesis by (simp add: session_ok_def)
qed

lemma demo_session: "session demo_imap (demo_conn, demo_store, None)"
  by (rule session.greeting) (simp_all add: demo_conn_def demo_ok)

theorem session_invariant_witness: "store_ok (fst (snd (demo_conn, demo_store, None :: limiter option)))"
  using session_invariant [OF demo_session] by simp

section \<open>What STORE does\<close>

text \<open>What \<open>STORE\<close> promises (RFC 3501, 6.4.6), flag by flag: \<open>FLAGS\<close> replaces the flags by the named
  ones, \<open>+FLAGS\<close> adds them and \<open>-FLAGS\<close> takes them away. The row of a message afterwards, and the
  changes that are recorded.\<close>

definition flag_after :: "string \<Rightarrow> string list \<Rightarrow> string \<Rightarrow> bool \<Rightarrow> bool" where
  "flag_after opr ws name old =
    (if opr = ''FLAGS'' then name \<in> set ws
     else if opr = ''+FLAGS'' then old \<or> name \<in> set ws
     else old \<and> name \<notin> set ws)"

definition flagged :: "string \<Rightarrow> string list \<Rightarrow> message \<Rightarrow> message" where
  "flagged opr ws m = m\<lparr>
     ms_read := flag_after opr ws (backslash # ''seen'') (ms_read m),
     ms_flagged := flag_after opr ws (backslash # ''flagged'') (ms_flagged m),
     ms_deleted := flag_after opr ws (backslash # ''deleted'') (ms_deleted m)\<rparr>"

lemma apply_flags_on: "apply_flags True ws (r, f, d) =
    (r \<or> backslash # ''seen'' \<in> set ws, f \<or> backslash # ''flagged'' \<in> set ws, d \<or> backslash # ''deleted'' \<in> set ws)"
  by (induction ws arbitrary: r f d) (simp, simp split: if_split)

lemma apply_flags_off: "apply_flags False ws (r, f, d) =
    (r \<and> backslash # ''seen'' \<notin> set ws, f \<and> backslash # ''flagged'' \<notin> set ws, d \<and> backslash # ''deleted'' \<notin> set ws)"
  by (induction ws arbitrary: r f d) (simp, simp split: if_split)

lemma new_flags_flagged:
  assumes "opr \<in> {''FLAGS'', ''+FLAGS'', ''-FLAGS''}"
  obtains fl where "new_flags opr ws m = Some fl" "set_flags fl m = flagged opr ws m"
proof (rule that)
  let ?fl = "(ms_read (flagged opr ws m), ms_flagged (flagged opr ws m), ms_deleted (flagged opr ws m))"
  show "new_flags opr ws m = Some ?fl"
    using assms by (auto simp: new_flags_def flagged_def flag_after_def apply_flags_on apply_flags_off)
  show "set_flags ?fl m = flagged opr ws m" by (simp add: set_flags_def flagged_def)
qed

fun store_changes :: "int \<Rightarrow> string \<Rightarrow> string list \<Rightarrow> int \<Rightarrow> message list \<Rightarrow> change list" where
  "store_changes f opr ws n [] = []"
| "store_changes f opr ws n (m # ms) =
     \<lparr>ch_seq = n + 1, ch_folder = f, ch_type = ''email'', ch_item = ms_id m,
      ch_kind = (if ms_deleted (flagged opr ws m) \<and> \<not> ms_deleted m then ''delete'' else ''change'')\<rparr>
     # store_changes f opr ws (n + 1) ms"

definition store_db :: "int \<Rightarrow> string \<Rightarrow> string list \<Rightarrow> message list \<Rightarrow> db \<Rightarrow> db" where
  "store_db f opr ws ms d = d\<lparr>
     tb_messages := map (\<lambda>r. if r \<in> set ms then flagged opr ws r else r) (tb_messages d),
     tb_changes := tb_changes d @ store_changes f opr ws (sq_changes d) ms,
     sq_changes := sq_changes d + int (length ms)\<rparr>"

lemma flagged_same [simp]: "ms_id (flagged opr ws m) = ms_id m" "ms_folder (flagged opr ws m) = ms_folder m"
  by (simp_all add: flagged_def)

lemma message_unique: "db_ok d \<Longrightarrow> r \<in> set (tb_messages d) \<Longrightarrow> m \<in> set (tb_messages d) \<Longrightarrow> ms_id r = ms_id m \<Longrightarrow> r = m"
  using db_okD_mail(1) by (blast intro: ids_ok_unique)

lemma UpdateMessage_eval:
  assumes "store_ok s" "st_faults s = []" "m \<in> set (tb_messages (st_db s))"
  shows "UpdateMessage (set_flags fl m) s = (Inr (), s\<lparr>st_db := (st_db s)\<lparr>tb_messages :=
    map (\<lambda>r. if r = m then set_flags fl m else r) (tb_messages (st_db s))\<rparr>\<rparr>)"
proof -
  have d: "db_ok (st_db s)" using assms(1) by (simp add: store_ok_def)
  let ?m = "set_flags fl m"
  let ?f = "\<lambda>r. r\<lparr>ms_folder := ms_folder ?m, ms_subject := ms_subject ?m, ms_from_addr := ms_from_addr ?m,
       ms_from_name := ms_from_name ?m, ms_to := ms_to ?m, ms_cc := ms_cc ?m, ms_date := ms_date ?m,
       ms_size := ms_size ?m, ms_read := ms_read ?m, ms_flagged := ms_flagged ?m,
       ms_importance := ms_importance ?m, ms_class := ms_class ?m, ms_msgid := ms_msgid ?m,
       ms_body_text := ms_body_text ?m, ms_body_html := ms_body_html ?m,
       ms_has_att := ms_has_att ?m, ms_deleted := ms_deleted ?m\<rparr>"
  have f: "?f m = ?m" by (cases fl, cases m) (simp add: set_flags_def)
  have "update_where (\<lambda>r. ms_id r = ms_id ?m) ?f (tb_messages (st_db s)) =
      map (\<lambda>r. if r = m then ?m else r) (tb_messages (st_db s))"
    unfolding update_where_def using message_unique [OF d _ assms(3)] f
    by (intro map_cong refl) (auto simp: set_flags_same)
  moreover have "ms_folder ?m \<in> set (folder_ids (st_db s))"
    using db_okD_mail(3) [OF d] assms(3) by (auto simp: set_flags_same refs_ok_def folder_ids_def)
  ultimately show ?thesis using assms(2) by (simp add: UpdateMessage_def sql_no_fault upd_messages_def)
qed

lemma AddChange_eval:
  assumes "st_faults s = []" "f \<in> set (folder_ids (st_db s))"
  shows "execE (AddChange f k ty i) s = s\<lparr>st_db := (st_db s)\<lparr>tb_changes := tb_changes (st_db s) @
      [\<lparr>ch_seq = sq_changes (st_db s) + 1, ch_folder = f, ch_type = ty, ch_item = i, ch_kind = k\<rparr>],
      sq_changes := sq_changes (st_db s) + 1\<rparr>\<rparr>"
  using assms by (simp add: execE_def AddChange_def sql_no_fault insert_change_def Let_def)

lemma store_db_step:
  assumes "db_ok d" "m \<in> set (tb_messages d)" "ms_id m \<notin> ms_id ` set ms"
  shows "store_db f opr ws ms (d\<lparr>tb_messages := map (\<lambda>r. if r = m then flagged opr ws m else r) (tb_messages d),
      tb_changes := tb_changes d @ [\<lparr>ch_seq = sq_changes d + 1, ch_folder = f, ch_type = ''email'', ch_item = ms_id m,
        ch_kind = (if ms_deleted (flagged opr ws m) \<and> \<not> ms_deleted m then ''delete'' else ''change'')\<rparr>],
      sq_changes := sq_changes d + 1\<rparr>) = store_db f opr ws (m # ms) d"
proof -
  have "flagged opr ws m \<notin> set ms" using assms(3) flagged_same(1) by (metis image_eqI)
  then have "map (\<lambda>r. if r \<in> set ms then flagged opr ws r else r)
      (map (\<lambda>r. if r = m then flagged opr ws m else r) (tb_messages d)) =
      map (\<lambda>r. if r \<in> set (m # ms) then flagged opr ws r else r) (tb_messages d)"
    using assms(3) by auto
  then show ?thesis by (simp add: store_db_def algebra_simps)
qed

lemma store_loop_db:
  assumes "opr \<in> {''FLAGS'', ''+FLAGS'', ''-FLAGS''}"
  shows "store_ok s \<Longrightarrow> st_faults s = [] \<Longrightarrow> f \<in> set (folder_ids (st_db s)) \<Longrightarrow> cn_writes c = None \<Longrightarrow>
    set (map snd ms) \<subseteq> set (tb_messages (st_db s)) \<Longrightarrow> distinct (map ms_id (map snd ms)) \<Longrightarrow>
    st_db (snd (store_loop tag opr silent ws f ms c s)) = store_db f opr ws (map snd ms) (st_db s)"
proof (induction ms arbitrary: c s)
  case Nil
  then show ?case by (simp add: store_db_def)
next
  case (Cons p ms)
  obtain i m where p: "p = (i, m)" by fastforce
  have m: "m \<in> set (tb_messages (st_db s))" "ms_id m \<notin> ms_id ` set (map snd ms)" using Cons.prems p by auto
  let ?k = "if ms_deleted (flagged opr ws m) \<and> \<not> ms_deleted m then ''delete'' else ''change''"
  let ?s1 = "s\<lparr>st_db := (st_db s)\<lparr>tb_messages := map (\<lambda>r. if r = m then flagged opr ws m else r) (tb_messages (st_db s))\<rparr>\<rparr>"
  let ?s2 = "execE (AddChange f ?k ''email'' (ms_id m)) ?s1"
  obtain fl where n: "new_flags opr ws m = Some fl" "set_flags fl m = flagged opr ws m"
    using new_flags_flagged [OF assms] .
  have u: "UpdateMessage (flagged opr ws m) s = (Inr (), ?s1)"
    unfolding n(2) [symmetric] by (rule UpdateMessage_eval [OF Cons.prems(1,2) m(1)])
  have s1: "store_ok ?s1" using keepsD [OF keeps_UpdateMessage Cons.prems(1), of "flagged opr ws m"] u by simp
  have f1: "f \<in> set (folder_ids (st_db ?s1))" using Cons.prems(3) by (simp add: folder_ids_def)
  have s2: "?s2 = s\<lparr>st_db := (st_db ?s1)\<lparr>tb_changes := tb_changes (st_db s) @ [\<lparr>ch_seq = sq_changes (st_db s) + 1,
      ch_folder = f, ch_type = ''email'', ch_item = ms_id m, ch_kind = ?k\<rparr>], sq_changes := sq_changes (st_db s) + 1\<rparr>\<rparr>"
    using AddChange_eval [OF _ f1] Cons.prems(2) by simp
  have o2: "store_ok ?s2" by (rule keeps_execE [OF keeps_AddChange s1])
  have IH: "st_db (snd (store_loop tag opr silent ws f ms c' ?s2)) = store_db f opr ws (map snd ms) (st_db ?s2)"
    if "cn_writes c' = None" for c'
  proof (rule Cons.IH [OF o2])
    show "set (map snd ms) \<subseteq> set (tb_messages (st_db ?s2))"
    proof
      fix x assume x: "x \<in> set (map snd ms)"
      then have "x \<in> set (tb_messages (st_db s))" "x \<noteq> m" using Cons.prems(5) m(2) by auto
      then show "x \<in> set (tb_messages (st_db ?s2))" by (auto simp: s2 intro!: image_eqI [of _ _ x])
    qed
  qed (use Cons.prems that p in \<open>simp_all add: s2 folder_ids_def\<close>)
  have e: "store_db f opr ws (map snd ms) (st_db ?s2) = store_db f opr ws (map snd (p # ms)) (st_db s)"
    using store_db_step [OF _ m, of f opr ws] Cons.prems(1) p by (simp add: s2 store_ok_def)
  have "st_db (snd (store_loop tag opr silent ws f (p # ms) c s)) = store_db f opr ws (map snd ms) (st_db ?s2)"
    unfolding p store_loop.simps(2) n(1) option.case Let_def n(2) u
    using IH Cons.prems(4) by (cases silent) (simp_all add: writeLine_unlimited)
  then show ?case unfolding e .
qed


lemma map_snd_enumerate_filter: "map snd (filter P (enumerate n xs)) = map snd (filter P (enumerate n xs)) \<and>
  set (map snd (filter P (enumerate n xs))) \<subseteq> set xs"
  by (auto simp: in_set_enumerate_eq)

lemma distinct_chosen:
  assumes "distinct (map ms_id ms)" shows "distinct (map ms_id (map snd (chosen rs b ms)))"
proof -
  have "distinct (map ms_id (map snd (filter P (enumerate n xs))))" if "distinct (map ms_id xs)" for P n and xs :: "message list"
    using that by (induction xs arbitrary: n) (auto simp: in_set_enumerate_eq)
  then show ?thesis using assms by (simp add: chosen_def Let_def)
qed

definition mailbox_messages :: "int \<Rightarrow> db \<Rightarrow> message list" where
  "mailbox_messages f d = sort_key ms_id (filter (live_in f) (tb_messages d))"

lemma MessagesForIMAP_eval: "st_faults s = [] \<Longrightarrow> MessagesForIMAP f s = (Inr (mailbox_messages f (st_db s)), s)"
  by (simp add: MessagesForIMAP_def getAll_def sql_no_fault mailbox_messages_def)

lemma mailbox_distinct: "db_ok d \<Longrightarrow> distinct (map ms_id (mailbox_messages f d))"
proof -
  assume "db_ok d"
  then have "ids_ok ms_id (sq_messages d) (tb_messages d)" by (rule db_okD_mail)
  then have "sorted_wrt (<) (map ms_id (tb_messages d))" by (simp add: ids_ok_def sorted_wrt_map)
  then have "distinct (map ms_id (tb_messages d))" by (simp only: strict_sorted_iff)
  then have "distinct (map ms_id (filter (live_in f) (tb_messages d)))" by (simp add: distinct_map_filter)
  then show "distinct (map ms_id (mailbox_messages f d))"
    by (simp add: mailbox_messages_def distinct_map)
qed

text \<open>C7: what \<open>STORE\<close> does to the flags. When the store is consistent, no statement fails, the
  client takes what is written to it, a mailbox that exists is selected and the request is well formed, then
  exactly the messages of the mailbox that the set denotes get new flags: of \<open>\Seen\<close>, \<open>\Flagged\<close> and
  \<open>\Deleted\<close> those named replace the old ones (\<open>FLAGS\<close>), are added to them (\<open>+FLAGS\<close>) or are taken
  from them (\<open>-FLAGS\<close>), and nothing else of the row changes. No other row changes, and the feed of
  the mailbox is extended by one change for each of them, in order: a deletion for a message that
  the command deletes, so the devices remove it, and a change otherwise.\<close>

theorem store_flags_spec:
  assumes "store_ok s" "st_faults s = []" "cn_writes c = None" "cn_selected c = Some f"
    and "fo_id f \<in> set (folder_ids (st_db s))" "splitTokens rest = t # opr # w # ts" "parseSeqSet t = Inr rs"
    and "trim_suffix (to_upper opr) ''.SILENT'' \<in> {''FLAGS'', ''+FLAGS'', ''-FLAGS''}"
  shows "st_db (snd (storeFlags tag rest uidMode c s)) =
    store_db (fo_id f) (trim_suffix (to_upper opr) ''.SILENT'') (parseFlagWords w)
      (map snd (chosen rs uidMode (mailbox_messages (fo_id f) (st_db s)))) (st_db s)"
proof -
  let ?ms = "chosen rs uidMode (mailbox_messages (fo_id f) (st_db s))" and ?o = "trim_suffix (to_upper opr) ''.SILENT''"
  have d: "db_ok (st_db s)" using assms(1) by (simp add: store_ok_def)
  have "storeFlags tag rest uidMode c s = store_loop tag ?o (has_suffix (to_upper opr) ''.SILENT'') (parseFlagWords w) (fo_id f) ?ms c s"
    using assms(2,4,6,7) by (simp add: storeFlags_def requireSelected_def Let_def MessagesForIMAP_eval)
  moreover have "set (map snd ?ms) \<subseteq> set (tb_messages (st_db s))"
    by (auto dest!: chosen_mem simp: mailbox_messages_def)
  ultimately show ?thesis
    using store_loop_db [OF assms(8,1,2,5,3)] distinct_chosen [OF mailbox_distinct [OF d]] by simp
qed

lemma parse_one: "parseSeqSet ''1'' = Inr [\<lparr>sr_from = 1, sr_to = 1\<rparr>]"
proof -
  have "seq_range_text \<lparr>sr_from = 1, sr_to = 1\<rparr> = ''1''"
    by code_simp
  moreover have "parse_ranges (map seq_range_text [\<lparr>sr_from = 1, sr_to = 1\<rparr>]) = Inr [\<lparr>sr_from = 1, sr_to = 1\<rparr>]"
    by (rule parse_ranges_text) (simp add: seq_range_ok_def seq_num_ok_def max_int64_def)
  ultimately show ?thesis by (simp add: parseSeqSet_def)
qed

definition demo_inbox_conn :: conn where
  "demo_inbox_conn = demo_conn\<lparr>cn_user := Some demo_user, cn_selected := Some (demo_folder 1 ''Inbox'' 2 1)\<rparr>"

text \<open>\<open>STORE 1 +FLAGS.SILENT (\Deleted)\<close> on a mailbox of two messages.\<close>

theorem store_flags_spec_witness:
  "tb_messages (st_db (snd (storeFlags ''a'' (''1 +FLAGS.SILENT ('' @ [backslash] @ ''Deleted)'') False demo_inbox_conn demo_store))) =
     [(demo_message 1)\<lparr>ms_deleted := True\<rparr>, demo_message 2]"
proof -
  have t: "splitTokens (''1 +FLAGS.SILENT ('' @ [backslash] @ ''Deleted)'') =
      [''1'', ''+FLAGS.SILENT'', ''('' @ [backslash] @ ''Deleted)'']" by code_simp
  have o': "trim_suffix (to_upper ''+FLAGS.SILENT'') ''.SILENT'' = ''+FLAGS''" by code_simp
  have w: "parseFlagWords (''('' @ [backslash] @ ''Deleted)'') = [backslash # ''deleted'']" by code_simp
  have m: "mailbox_messages 1 demo_db = [demo_message 1, demo_message 2]"
    by (simp add: mailbox_messages_def demo_defs live_in_def)
  have c: "map snd (chosen [\<lparr>sr_from = 1, sr_to = 1\<rparr>] False [demo_message 1, demo_message 2]) = [demo_message 1]"
    by (simp add: chosen_def)
  have n: "demo_message 2 \<noteq> demo_message 1" by (simp add: demo_message_def)
  have f: "fo_id (demo_folder 1 ''Inbox'' 2 1) = 1" by (simp add: demo_folder_def)
  have fl: "flagged ''+FLAGS'' [backslash # ''deleted''] (demo_message 1) = (demo_message 1)\<lparr>ms_deleted := True\<rparr>"
    by (simp add: flagged_def flag_after_def demo_message_def)
  have i: "fo_id (demo_folder 1 ''Inbox'' 2 1) \<in> set (folder_ids (st_db demo_store))"
    by (simp add: folder_ids_def demo_defs)
  have "st_db (snd (storeFlags ''a'' (''1 +FLAGS.SILENT ('' @ [backslash] @ ''Deleted)'') False demo_inbox_conn demo_store)) =
      store_db 1 ''+FLAGS'' [backslash # ''deleted''] [demo_message 1] demo_db"
    using store_flags_spec [OF demo_ok _ _ _ i t parse_one, of demo_inbox_conn] m c
    by (simp add: o' w [simplified] f demo_inbox_conn_def demo_conn_def)
  then show ?thesis using n fl by (simp add: store_db_def demo_db_def)
qed

section \<open>EXAMINE\<close>

lemma write_readOnly:
  "write_bytes b (c\<lparr>cn_readOnly := x\<rparr>) = (fst (write_bytes b c), (snd (write_bytes b c))\<lparr>cn_readOnly := x\<rparr>)"
  by (simp add: write_bytes_def)

lemma store_loop_readOnly:
  "snd (store_loop tag opr silent ws f ms (c\<lparr>cn_readOnly := x\<rparr>) s) = snd (store_loop tag opr silent ws f ms c s)"
proof (induction ms arbitrary: c s)
  case (Cons p ms)
  obtain i m where p: "p = (i, m)" by fastforce
  show ?case
  proof (cases "new_flags opr ws m")
    case None
    then show ?thesis by (simp add: p)
  next
    case (Some fl)
    obtain r s1 where r: "UpdateMessage (set_flags fl m) s = (r, s1)" by fastforce
    obtain b c2 where w: "writeLine (''* '' @ itoa (int i + 1) @ '' FETCH (FLAGS '' @ flagsString (set_flags fl m) @ '')'') c = (b, c2)"
      by fastforce
    then have w': "writeLine (''* '' @ itoa (int i + 1) @ '' FETCH (FLAGS '' @ flagsString (set_flags fl m) @ '')'') (c\<lparr>cn_readOnly := x\<rparr>) =
        (b, c2\<lparr>cn_readOnly := x\<rparr>)" by (simp add: writeLine_def write_readOnly)
    show ?thesis unfolding p store_loop.simps(2) Some option.case Let_def r
      using Cons.IH by (cases r; cases silent; cases b) (simp_all add: w [simplified] w' [simplified])
  qed
qed simp

text \<open>\<open>EXAMINE\<close> does not protect a mailbox. What \<open>STORE\<close> and \<open>MOVE\<close> do to the tables does
  not depend on whether the mailbox was selected for reading only.\<close>

theorem examine_not_enforced:
  "snd (storeFlags tag rest uidMode (c\<lparr>cn_readOnly := x\<rparr>) s) = snd (storeFlags tag rest uidMode c s) \<and>
   snd (moveMessages u tag rest uidMode (c\<lparr>cn_readOnly := x\<rparr>) s) = snd (moveMessages u tag rest uidMode c s)"
  by (simp add: storeFlags_def moveMessages_def requireSelected_def Let_def store_loop_readOnly
      split: option.split sum.split prod.split)


section \<open>Panics\<close>

lemma partial_token_text: "partial_token [] (- 1) 5 = ''BODY[]<-1.5>''"
  by code_simp

lemma parse_fetch_negative:
  "parseFetchItems ''BODY[]<-1.5>'' = Inr [\<lparr>fi_name = ''BODY[]'', fi_key = ''BODY[]'', fi_section = [], fi_start = - 1, fi_length = 5\<rparr>]"
proof -
  have r: "int64_range (- 1)" "int64_range 5" by (simp_all add: int64_range_def min_int64_def max_int64_def)
  have i: "parseFetchItem ''BODY[]<-1.5>'' = Inr \<lparr>fi_name = ''BODY[]'', fi_key = ''BODY[]'', fi_section = [], fi_start = - 1, fi_length = 5\<rparr>"
    using parse_partial_token [OF _ r, of "[]"] by (simp add: partial_token_text to_upper_def)
  have t: "trim_space ''BODY[]<-1.5>'' = ''BODY[]<-1.5>''" "has_prefix ''BODY[]<-1.5>'' ''('' = False"
    "splitTokens ''BODY[]<-1.5>'' = [''BODY[]<-1.5>'']" "macro_items ''BODY[]<-1.5>'' = None"
    by code_simp+
  show ?thesis by (simp add: parseFetchItems_def t i)
qed

lemma negative_item_panics:
  "item_piece e m \<lparr>fi_name = ''BODY[]'', fi_key = k, fi_section = sec, fi_start = - 1, fi_length = 5\<rparr> = None"
  by (simp add: item_piece_def body_piece_def)

text \<open>C40: any account can stop the server. In a mailbox whose first message can be read, the command
  \<open>FETCH 1 BODY[]<-1.5>\<close> panics; the goroutine of the connection has no recovery, so the whole
  process ends.\<close>

theorem fetch_panics:
  assumes "cn_user c = Some u" "cn_selected c = Some f" "st_faults s = []"
    and "mailbox_messages (fo_id f) (st_db s) = m # ms" "fst (LoadRaw (Some m) s) = Inr m'"
  shows "dispatch srv now reads tag ''FETCH'' (''1 '' @ partial_token [] (- 1) 5) literal (c, s, lim) = None"
proof -
  have t: "splitTokens (''1 '' @ ''BODY[]<-1.5>'') = [''1'', ''BODY[]<-1.5>'']" by code_simp
  have "chosen [\<lparr>sr_from = 1, sr_to = 1\<rparr>] False (m # ms) = (0, m) # chosen_rest" if "chosen_rest = filter (\<lambda>(i, m).
      seq_contains [\<lparr>sr_from = 1, sr_to = 1\<rparr>] (int i + 1) (int (length (m # ms)))) (enumerate 1 ms)" for chosen_rest
    using that by (auto simp: chosen_def)
  then obtain cr where c: "chosen [\<lparr>sr_from = 1, sr_to = 1\<rparr>] False (m # ms) = (0, m) # cr" by blast
  obtain s1 where l: "LoadRaw (Some m) s = (Inr m', s1)" using assms(5) by (metis prod.collapse)
  have "fetch (ie_mime (is_env srv)) tag (''1 '' @ ''BODY[]<-1.5>'') False c s = None"
    unfolding fetch_def assms(2) option.case Let_def t
    by (simp add: parse_one parse_fetch_negative MessagesForIMAP_eval [OF assms(3)] assms(4) c l
        buildFetchResponse_def negative_item_panics)
  then show ?thesis using assms(1) by (simp add: dispatch_def dispatchUser_def Let_def partial_token_text)
qed

theorem fetch_panics_witness:
  "dispatch demo_imap 0 [] ''a'' ''FETCH'' (''1 '' @ partial_token [] (- 1) 5) [] (demo_inbox_conn, demo_store, None) = None"
proof (rule fetch_panics)
  show "mailbox_messages (fo_id (demo_folder 1 ''Inbox'' 2 1)) (st_db demo_store) = demo_message 1 # [demo_message 2]"
    by (simp add: mailbox_messages_def demo_defs live_in_def)
  show "fst (LoadRaw (Some (demo_message 1)) demo_store) = Inr (demo_message 1)"
    by (simp add: LoadRaw_def demo_message_def)
qed (simp_all add: demo_inbox_conn_def)

section \<open>IDLE\<close>

text \<open>What arrives behind the line \<open>DONE\<close> in the same read is lost: it stays in a local buffer.\<close>

lemma idle_loses_pipelined:
  "idle_loop tag n [] (Chunk (''DONE'' @ [CR, LF] @ next_command) # reads) c s = (say_ok tag ''IDLE terminated'' c, s)"
proof -
  have "index_str (''DONE'' @ [CR, LF] @ next_command) [CR, LF] = Some 4" by (simp add: has_prefix_def)
  moreover have "equal_fold (trim_space (take 4 (''DONE'' @ [CR, LF] @ next_command))) ''DONE''"
    by (simp add: trim_space_def trim_left_def trim_right_def is_space_def equal_fold_def)
  ultimately have "idle_lines (''DONE'' @ [CR, LF] @ next_command) = None"
    by (subst idle_lines.simps) (simp only: option.case if_True)
  then show ?thesis by simp
qed

end
