(* ===== verification/StoreWebmail.thy ===== *)
theory StoreWebmail imports StoreUsers StoreItems MailParse begin

text \<open>
  \<open>internal/store/webmail.go\<close> and \<open>search.go\<close>: the queries of the web client. Threads are groups
  of the rows by their conversation, read from the inbox and the folder of sent mail together;
  the search is a \<open>LIKE\<close> over lowered columns. Texts are bytes, so \<open>_\<close> in a pattern stands for
  one byte, and upper and lower case are those of ASCII, as in SQLite. Rows that tie in an
  \<open>ORDER BY\<close> stay in the order of the table.
\<close>

section \<open>LIKE\<close>

text \<open>A pattern, with the character that \<open>ESCAPE\<close> names, if any.\<close>

function like :: "char option \<Rightarrow> string \<Rightarrow> string \<Rightarrow> bool" where
  "like esc [] s = (s = [])"
| "like esc (p # ps) s =
    (if esc = Some p then (case ps of [] \<Rightarrow> False
       | q # qs \<Rightarrow> (case s of [] \<Rightarrow> False | x # xs \<Rightarrow> lower_char x = lower_char q \<and> like esc qs xs))
     else if p = CHR ''%'' then like esc ps s \<or> (case s of [] \<Rightarrow> False | x # xs \<Rightarrow> like esc (p # ps) xs)
     else (case s of [] \<Rightarrow> False
       | x # xs \<Rightarrow> (p = CHR ''_'' \<or> lower_char x = lower_char p) \<and> like esc ps xs))"
  by pat_completeness auto
termination by (relation "measure (\<lambda>(esc, p, s). length p + length s)") auto

(* src: internal/store/search.go 8-11 escapeLike *)
definition escapeLike :: "string \<Rightarrow> string" where
  "escapeLike v = concat (map (\<lambda>c. if c \<in> {CHR 0x5C, CHR ''%'', CHR ''_''} then [CHR 0x5C, c] else [c]) v)"

text \<open>The term is lowered by \<open>strings.ToLower\<close>, which knows the capitals of every alphabet and is a parameter \<open>lw\<close>
  here; the columns are lowered by \<open>lower\<close> of SQLite, which knows those of ASCII.\<close>

definition pattern_of :: "(string \<Rightarrow> string) \<Rightarrow> string \<Rightarrow> string" where
  "pattern_of lw term = CHR ''%'' # escapeLike (lw (trim_space term)) @ ''%''"

definition matches :: "string \<Rightarrow> string \<Rightarrow> bool" where
  "matches pat column = like (Some (CHR 0x5C)) pat (to_lower column)"

section \<open>Previews\<close>

text \<open>How many bytes the first character takes in UTF-8, if they encode one.\<close>

definition utf8_width :: "string \<Rightarrow> nat option" where
  "utf8_width s =
    (let g = (\<lambda>i. if i < length s then of_char (s ! i) else 0 :: nat);
         cont = (\<lambda>i. 0x80 \<le> g i \<and> g i \<le> 0xBF); a = g 0; b = g 1 in
     if s = [] then None
     else if a < 0x80 then Some 1
     else if 0xC2 \<le> a \<and> a \<le> 0xDF \<and> cont 1 then Some 2
     else if 0xE0 \<le> a \<and> a \<le> 0xEF \<and> cont 1 \<and> (a = 0xE0 \<longrightarrow> 0xA0 \<le> b) \<and> (a = 0xED \<longrightarrow> b \<le> 0x9F) \<and> cont 2 then Some 3
     else if 0xF0 \<le> a \<and> a \<le> 0xF4 \<and> cont 1 \<and> (a = 0xF0 \<longrightarrow> 0x90 \<le> b) \<and> (a = 0xF4 \<longrightarrow> b \<le> 0x8F) \<and> cont 2 \<and> cont 3
     then Some 4 else None)"

text \<open>\<open>[]rune(s)\<close>, each rune as the bytes that \<open>string\<close> gives it back.\<close>

function runes :: "string \<Rightarrow> string list" where
  "runes [] = []"
| "runes (x # xs) = (case utf8_width (x # xs) of
     None \<Rightarrow> [CHR 0xEF, CHR 0xBF, CHR 0xBD] # runes xs
   | Some n \<Rightarrow> take n (x # xs) # runes (drop (n - 1) xs))"
  by pat_completeness auto
termination by (relation "measure length") auto

(* src: internal/store/webmail.go 476-485 previewText *)
definition previewText :: "string \<Rightarrow> nat \<Rightarrow> string" where
  "previewText text n =
    (let joined = join '' '' (GoLib.fields text); rs = runes joined in
     if length rs \<le> n then joined else concat (take n rs) @ [CHR 0xE2, CHR 0x80, CHR 0xA6])"

section \<open>Folders\<close>

(* src: internal/store/webmail.go 12-17 FolderCount *)
record folder_count =
  fc_folder :: int
  fc_unread :: nat
  fc_total :: nat

definition live_of :: "string \<Rightarrow> db \<Rightarrow> message list" where
  "live_of userID d = filter (\<lambda>m. ms_user m = userID \<and> \<not> ms_deleted m) (tb_messages d)"

(* src: internal/store/webmail.go 19-42 Store.FolderCounts *)
definition FolderCounts :: "string \<Rightarrow> (store, folder_count list) op" where
  "FolderCounts userID = getAll (\<lambda>d.
     map (\<lambda>f. let ms = filter (\<lambda>m. ms_folder m = f) (live_of userID d) in
         \<lparr>fc_folder = f, fc_unread = length (filter (\<lambda>m. \<not> ms_read m) ms), fc_total = length ms\<rparr>)
       (sort (remdups (map ms_folder (live_of userID d)))))"

definition last_of_type :: "int \<Rightarrow> folder list \<Rightarrow> int" where
  "last_of_type t fs = (case filter (\<lambda>f. fo_type f = t) (rev fs) of [] \<Rightarrow> 0 | f # _ \<Rightarrow> fo_id f)"

(* src: internal/store/webmail.go 68-89 Store.mailFolderIDs *)
definition mailFolderIDs :: "string \<Rightarrow> (store, int \<times> int) op" where
  "mailFolderIDs userID = bindE
     (getAll (\<lambda>d. filter (\<lambda>f. fo_user f = userID \<and> \<not> fo_deleted f \<and> fo_type f \<in> {2, 5}) (tb_folders d)))
     (\<lambda>rows. okE (last_of_type 2 rows, last_of_type 5 rows))"

(* src: internal/store/webmail.go 91-94 Store.MailFolderIDs *)
definition MailFolderIDs :: "string \<Rightarrow> (store, int \<times> int) op" where
  "MailFolderIDs = mailFolderIDs"

(* src: internal/store/webmail.go 103-111 Store.conversationScope *)
definition scope_of :: "int \<Rightarrow> int \<Rightarrow> int \<Rightarrow> int list" where
  "scope_of inbox sent folderID =
    (if inbox = 0 \<or> folderID \<noteq> inbox \<and> folderID \<noteq> sent then [folderID]
     else inbox # (if sent \<noteq> 0 \<and> sent \<noteq> inbox then [sent] else []))"

(* src: internal/store/webmail.go 96-111 Store.conversationScope *)
definition conversationScope :: "string \<Rightarrow> int \<Rightarrow> (store, int list) op" where
  "conversationScope userID folderID = bindE (mailFolderIDs userID) (\<lambda>(inbox, sent). okE (scope_of inbox sent folderID))"

section \<open>The thread of a reply\<close>

definition lower_address :: "string \<Rightarrow> string" where
  "lower_address a = to_lower (trim_space a)"

text \<open>The set is the list of its members.\<close>

(* src: internal/store/webmail.go 184-193 lowerAddressSet *)
definition lowerAddressSet :: "string list \<Rightarrow> string list" where
  "lowerAddressSet addrs = filter (\<lambda>a. a \<noteq> []) (map lower_address addrs)"

(* src: internal/store/webmail.go 195-215 replyParticipantsMatch *)
definition replyParticipantsMatch :: "mail_lib \<Rightarrow> string \<Rightarrow> string list \<Rightarrow> message \<Rightarrow> bool" where
  "replyParticipantsMatch l newSender newRecipients r \<longleftrightarrow>
    (let sender = lower_address (ms_from_addr r) in
     sender \<noteq> [] \<and> sender \<in> set newRecipients \<or>
     newSender \<noteq> [] \<and> list_ex (\<lambda>addr. equal_fold addr newSender) (Addresses l (ms_to r) @ Addresses l (ms_cc r)))"

text \<open>The rows are newest first, and every match overwrites the one before it.\<close>

(* src: internal/store/webmail.go 168-181 Store.ThreadForReply *)
definition oldest_match :: "mail_lib \<Rightarrow> string \<Rightarrow> string \<Rightarrow> string list \<Rightarrow> message list \<Rightarrow> string" where
  "oldest_match l want newSender newRecipients rows = foldl (\<lambda>found r.
     if ms_conv r = [] \<or> NormalizedSubject (ms_subject r) \<noteq> want then found
     else if \<not> replyParticipantsMatch l newSender newRecipients r then found
     else ms_conv r) [] rows"

definition newest_first :: "message list \<Rightarrow> message list" where
  "newest_first ms = sort_desc ms_date (sort_desc ms_id ms)"

(* src: internal/store/webmail.go 113-182 Store.ThreadForReply *)
definition ThreadForReply :: "mail_lib \<Rightarrow> string \<Rightarrow> string \<Rightarrow> string \<Rightarrow> string list \<Rightarrow> (store, string) op" where
  "ThreadForReply l userID subject fromAddr toAddrs =
    (let want = NormalizedSubject subject in
     if want = [] then okE []
     else bindE (mailFolderIDs userID) (\<lambda>(inbox, sent).
       if inbox = 0 \<and> sent = 0 then okE []
       else bindE
         (getAll (\<lambda>d. take 200 (newest_first (filter (\<lambda>m. ms_folder m \<in>
             set ((if inbox \<noteq> 0 then [inbox] else []) @ (if sent \<noteq> 0 \<and> sent \<noteq> inbox then [sent] else [])))
           (live_of userID d)))))
         (\<lambda>rows. okE (oldest_match l want (lower_address fromAddr) (lowerAddressSet toAddrs) rows))))"

section \<open>Conversations\<close>

(* src: internal/store/webmail.go 44-46 conversationKeyExpr *)
definition conv_key :: "message \<Rightarrow> string" where
  "conv_key m = (if ms_conv m = [] then ''m:'' @ itoa (ms_id m) else ms_conv m)"

(* src: internal/store/webmail.go 48-66 Conversation *)
record conversation =
  cv_key :: string
  cv_last :: int
  cv_latest :: int
  cv_count :: nat
  cv_unread :: nat
  cv_subject :: string
  cv_from_name :: string
  cv_from_addr :: string
  cv_to :: string
  cv_preview :: string
  cv_has_att :: bool
  cv_inbox :: bool
  cv_sent :: bool

(* src: internal/store/webmail.go 236-247 Store.ConversationSummaries *)
record conv_row =
  cr_key :: string
  cr_last :: int
  cr_latest :: int
  cr_peer :: int
  cr_total :: nat
  cr_unread :: nat
  cr_inbox :: bool
  cr_sent :: bool

fun max_of :: "int list \<Rightarrow> int" where
  "max_of [] = 0"
| "max_of (x # xs) = foldl max x xs"

(* src: internal/store/webmail.go 249-259 Store.ConversationSummaries *)
definition conv_group :: "int \<Rightarrow> int \<Rightarrow> message list \<Rightarrow> string \<Rightarrow> conv_row" where
  "conv_group inbox sent rows k =
    (let ms = filter (\<lambda>m. conv_key m = k) rows in
     \<lparr>cr_key = k, cr_last = max_of (map ms_date ms), cr_latest = max_of (map ms_id ms),
      cr_peer = max_of (map (\<lambda>m. if ms_folder m = sent then 0 else ms_id m) ms),
      cr_total = length ms, cr_unread = length (filter (\<lambda>m. \<not> ms_read m) ms),
      cr_inbox = list_ex (\<lambda>m. ms_folder m = inbox) ms, cr_sent = list_ex (\<lambda>m. ms_folder m = sent) ms\<rparr>)"

definition scope_rows :: "string \<Rightarrow> int list \<Rightarrow> db \<Rightarrow> message list" where
  "scope_rows userID scope d = filter (\<lambda>m. ms_folder m \<in> set scope) (live_of userID d)"

text \<open>The query of the list: groups, the condition on the folder, order and limit.\<close>

(* src: internal/store/webmail.go 249-279 Store.ConversationSummaries *)
definition conv_rows :: "string \<Rightarrow> int \<Rightarrow> int \<Rightarrow> int list \<Rightarrow> int \<Rightarrow> nat \<Rightarrow> db \<Rightarrow> conv_row list" where
  "conv_rows userID inbox sent scope folderID limit d =
    (let rows = scope_rows userID scope d; crossFolder = length scope > 1 \<or> inbox \<noteq> 0 \<and> folderID = inbox;
         groups = map (conv_group inbox sent rows) (remdups (map conv_key rows)) in
     take limit (sort_desc cr_last (sort_desc cr_latest
       (filter (\<lambda>r. (crossFolder \<and> folderID = inbox \<longrightarrow> cr_inbox r) \<and> (crossFolder \<and> folderID = sent \<longrightarrow> cr_sent r)) groups))))"

(* src: internal/store/webmail.go 456-474 Store.messagesByID *)
definition messagesByID :: "int list \<Rightarrow> (store, int \<Rightarrow> message option) op" where
  "messagesByID ids = (if ids = [] then okE (\<lambda>_. None)
     else getAll (\<lambda>d i. find (\<lambda>m. ms_id m = i \<and> ms_id m \<in> set ids) (tb_messages d)))"

(* src: internal/store/webmail.go 331-358 Store.conversationFirstSubjects *)
definition conversationFirstSubjects :: "string \<Rightarrow> int list \<Rightarrow> (store, string \<Rightarrow> string) op" where
  "conversationFirstSubjects userID scope = getAll (\<lambda>d k.
     case sort_key ms_date (sort_key ms_id (filter (\<lambda>m. conv_key m = k) (scope_rows userID scope d))) of
       [] \<Rightarrow> [] | m # _ \<Rightarrow> ms_subject m)"

(* src: internal/store/webmail.go 299-327 Store.ConversationSummaries *)
definition conversation_of :: "(int \<Rightarrow> message option) \<Rightarrow> (string \<Rightarrow> string) \<Rightarrow> conv_row \<Rightarrow> conversation" where
  "conversation_of latest firstSubjects r =
    (let m = latest (cr_latest r);
         sender = (case latest (cr_peer r) of Some p \<Rightarrow> Some p | None \<Rightarrow> m);
         subject = (case m of Some x \<Rightarrow> ms_subject x | None \<Rightarrow> []) in
     \<lparr>cv_key = cr_key r, cv_last = cr_last r, cv_latest = cr_latest r, cv_count = cr_total r, cv_unread = cr_unread r,
      cv_subject = (if firstSubjects (cr_key r) \<noteq> [] then firstSubjects (cr_key r) else subject),
      cv_from_name = (case sender of Some x \<Rightarrow> ms_from_name x | None \<Rightarrow> []),
      cv_from_addr = (case sender of Some x \<Rightarrow> ms_from_addr x | None \<Rightarrow> []),
      cv_to = (case m of Some x \<Rightarrow> ms_to x | None \<Rightarrow> []),
      cv_preview = (case m of Some x \<Rightarrow> previewText (ms_body_text x) 140 | None \<Rightarrow> []),
      cv_has_att = (case m of Some x \<Rightarrow> ms_has_att x | None \<Rightarrow> False),
      cv_inbox = cr_inbox r, cv_sent = cr_sent r\<rparr>)"

definition clamp :: "int \<Rightarrow> int \<Rightarrow> int \<Rightarrow> nat" where
  "clamp dflt mx limit = nat (min mx (if limit \<le> 0 then dflt else limit))"

(* src: internal/store/webmail.go 217-329 Store.ConversationSummaries *)
definition ConversationSummaries :: "string \<Rightarrow> int \<Rightarrow> int \<Rightarrow> (store, conversation list) op" where
  "ConversationSummaries userID folderID limit =
     bindE (mailFolderIDs userID) (\<lambda>(inbox, sent).
     bindE (conversationScope userID folderID) (\<lambda>scope.
     bindE (getAll (conv_rows userID inbox sent scope folderID (clamp 50 200 limit))) (\<lambda>rows.
     if rows = [] then okE []
     else bindE (messagesByID (concat (map (\<lambda>r. cr_latest r #
         (if cr_peer r \<noteq> 0 \<and> cr_peer r \<noteq> cr_latest r then [cr_peer r] else [])) rows))) (\<lambda>latest.
     bindE (conversationFirstSubjects userID scope) (\<lambda>firstSubjects.
     okE (map (conversation_of latest firstSubjects) rows))))))"

definition oldest_first :: "message list \<Rightarrow> message list" where
  "oldest_first ms = sort_key ms_date (sort_key ms_id ms)"

text \<open>\<open>strings.CutPrefix(key, "m:")\<close>.\<close>

definition own_key :: "string \<Rightarrow> string option" where
  "own_key key = (if has_prefix key ''m:'' then Some (drop 2 key) else None)"

(* src: internal/store/webmail.go 360-400 Store.ConversationMessages *)
definition ConversationMessages :: "string \<Rightarrow> string \<Rightarrow> int \<Rightarrow> int \<Rightarrow> (store, message list) op" where
  "ConversationMessages userID key folderID limit = bindE (conversationScope userID folderID) (\<lambda>scope.
     case own_key key of
       Some rest \<Rightarrow>
         (let (i, ok) = parse_int64 rest in
          if \<not> ok \<or> i \<le> 0 then failE ErrNotFound
          else bindE (MessageMetaByID i) (\<lambda>m.
            if ms_user m \<noteq> userID \<or> ms_deleted m \<or> ms_folder m \<notin> set scope then failE ErrNotFound
            else okE [m]))
     | None \<Rightarrow> getAll (\<lambda>d. take (clamp 200 200 limit)
         (oldest_first (filter (\<lambda>m. ms_conv m = key) (scope_rows userID scope d)))))"

definition newer_than :: "message \<Rightarrow> message \<Rightarrow> bool" where
  "newer_than a m \<longleftrightarrow> ms_date m > ms_date a \<or> ms_date m = ms_date a \<and> ms_id m > ms_id a"

(* src: internal/store/webmail.go 402-445 Store.ConversationMessagesAfter *)
definition ConversationMessagesAfter :: "string \<Rightarrow> string \<Rightarrow> int \<Rightarrow> int \<Rightarrow> int \<Rightarrow> (store, message list) op" where
  "ConversationMessagesAfter userID key folderID afterID limit =
    (if own_key key \<noteq> None then okE []
     else bindE (conversationScope userID folderID) (\<lambda>scope s.
       case MessageMetaByID afterID s of
         (Inr a, s') \<Rightarrow>
           if ms_user a \<noteq> userID \<or> ms_deleted a \<or> ms_conv a \<noteq> key \<or> ms_folder a \<notin> set scope
           then ConversationMessages userID key folderID limit s'
           else getAll (\<lambda>d. take (clamp 200 200 limit) (oldest_first (filter (\<lambda>m. ms_conv m = key \<and> newer_than a m)
                  (scope_rows userID scope d)))) s'
       | (Inl _, s') \<Rightarrow> ConversationMessages userID key folderID limit s'))"

section \<open>Contacts and events\<close>

(* src: internal/store/webmail.go 487-516 Store.SearchContacts *)
definition SearchContacts :: "(string \<Rightarrow> string) \<Rightarrow> string \<Rightarrow> string \<Rightarrow> int \<Rightarrow> (store, contact list) op" where
  "SearchContacts lw userID q limit =
    (let term = lw (trim_space q); pat = CHR ''%'' # term @ ''%'';
         hit = (\<lambda>c. list_ex (\<lambda>v. like None pat (to_lower v))
           [co_file_as c, co_first c, co_last c, co_company c, co_email1 c, co_email2 c, co_email3 c]) in
     getAll (\<lambda>d. take (clamp 100 500 limit) (sort_key co_file_as (sort_key co_id
       (filter (\<lambda>c. co_user c = userID \<and> \<not> co_deleted c \<and> (term \<noteq> [] \<longrightarrow> hit c)) (tb_contacts d))))))"

(* src: internal/store/webmail.go 518-537 Store.EventsByFolderBetween *)
definition EventsByFolderBetween :: "int \<Rightarrow> int \<Rightarrow> int \<Rightarrow> (store, event list) op" where
  "EventsByFolderBetween folderID from til = getAll (\<lambda>d. sort_key ev_start (sort_key ev_id
     (filter (\<lambda>e. ev_folder e = folderID \<and> \<not> ev_deleted e \<and> (from > 0 \<longrightarrow> ev_end e \<ge> from) \<and>
       (til > 0 \<longrightarrow> ev_start e \<le> til)) (tb_events d))))"

section \<open>Search\<close>

(* src: internal/store/search.go 22-25 Store.SearchMessages *)
definition message_hit :: "string \<Rightarrow> message \<Rightarrow> bool" where
  "message_hit pat m \<longleftrightarrow> list_ex (matches pat) [ms_subject m, ms_from_addr m, ms_from_name m, ms_body_text m]"

(* src: internal/store/search.go 13-39 Store.SearchMessages *)
definition SearchMessages :: "(string \<Rightarrow> string) \<Rightarrow> string \<Rightarrow> string \<Rightarrow> int \<Rightarrow> int \<Rightarrow> (store, message list \<times> nat) op" where
  "SearchMessages lw userID term limit offset =
    (let hits = (\<lambda>d. filter (message_hit (pattern_of lw term)) (live_of userID d)) in
     bindE (getAll (\<lambda>d. take (nat (if limit \<le> 0 then 50 else limit)) (drop (nat offset) (sort_desc ms_date (hits d))))) (\<lambda>rows.
     bindE (getAll (\<lambda>d. length (hits d))) (\<lambda>total. okE (rows, total))))"

(* src: internal/store/search.go 41-48 MailSearchHit *)
record search_hit =
  sh_message :: message
  sh_folder :: string
  sh_key :: string
  sh_preview :: string

(* src: internal/store/search.go 68-76 Store.SearchMail *)
definition mail_hit :: "string \<Rightarrow> int \<Rightarrow> message \<Rightarrow> bool" where
  "mail_hit pat folderID m \<longleftrightarrow>
     list_ex (matches pat) [ms_subject m, ms_from_addr m, ms_from_name m, ms_to m, ms_cc m, ms_body_text m] \<and>
     (folderID > 0 \<longrightarrow> ms_folder m = folderID)"

(* src: internal/store/search.go 90-109 Store.SearchMail *)
definition search_hit_of :: "folder list \<Rightarrow> message \<Rightarrow> search_hit" where
  "search_hit_of folders m = \<lparr>sh_message = m,
     sh_folder = (case filter (\<lambda>f. fo_id f = ms_folder m) (rev folders) of [] \<Rightarrow> [] | f # _ \<Rightarrow> fo_name f),
     sh_key = conv_key m, sh_preview = previewText (ms_body_text m) 140\<rparr>"

(* src: internal/store/search.go 50-111 Store.SearchMail *)
definition SearchMail :: "(string \<Rightarrow> string) \<Rightarrow> string \<Rightarrow> string \<Rightarrow> int \<Rightarrow> int \<Rightarrow> int \<Rightarrow> (store, search_hit list \<times> nat) op" where
  "SearchMail lw userID term folderID limit offset =
    (if trim_space term = [] then okE ([], 0)
     else
       (let hits = (\<lambda>d. filter (mail_hit (pattern_of lw term) folderID) (live_of userID d)) in
        bindE (getAll (\<lambda>d. take (clamp 50 200 limit) (drop (nat offset) (newest_first (hits d))))) (\<lambda>rows.
        bindE (getAll (\<lambda>d. length (hits d))) (\<lambda>total.
        bindE (FoldersByUser userID) (\<lambda>folders.
        okE (map (search_hit_of folders) rows, total))))))"

(* src: internal/store/search.go 112-133 Store.SearchUsers *)
definition SearchUsers :: "(string \<Rightarrow> string) \<Rightarrow> string \<Rightarrow> int \<Rightarrow> (store, user list) op" where
  "SearchUsers lw term limit = getAll (\<lambda>d. take (nat (if limit \<le> 0 then 20 else limit)) (sort_key us_name
     (filter (\<lambda>u. like (Some (CHR 0x5C)) (pattern_of lw term) (us_name u) \<or> matches (pattern_of lw term) (us_display u) \<or>
       matches (pattern_of lw term) (us_address u)) (map (user_view d) (tb_users d)))))"

section \<open>The search finds literal texts\<close>

lemma lower_lower [simp]: "lower_char (lower_char c) = lower_char c"
  by (simp add: lower_char_def Let_def)

lemma to_lower_Cons [simp]: "to_lower (c # s) = lower_char c # to_lower s" "to_lower [] = []"
  by (simp_all add: to_lower_def)

lemma to_lower_append: "to_lower (s @ t) = to_lower s @ to_lower t"
  by (simp add: to_lower_def)

lemma to_lower_idem [simp]: "to_lower (to_lower s) = to_lower s"
  by (induction s) simp_all

lemma like_any: "esc \<noteq> Some CHR ''%'' \<Longrightarrow> like esc (CHR ''%'' # ps) s \<longleftrightarrow> (\<exists>a b. s = a @ b \<and> like esc ps b)"
proof (induction s)
  case (Cons x s)
  have "(\<exists>a b. x # s = a @ b \<and> like esc ps b) \<longleftrightarrow> like esc ps (x # s) \<or> (\<exists>a b. s = a @ b \<and> like esc ps b)"
    by (auto simp: Cons_eq_append_conv)
  then show ?case using Cons by (subst like.simps) auto
qed simp

lemma like_end: "esc \<noteq> Some CHR ''%'' \<Longrightarrow> like esc ''%'' s"
  by (subst like_any) auto

lemma escapeLike_Cons:
  "escapeLike (c # t) = (if c \<in> {CHR 0x5C, CHR ''%'', CHR ''_''} then CHR 0x5C # c # escapeLike t else c # escapeLike t)"
  by (simp add: escapeLike_def)

lemma like_escape:
  "like (Some CHR 0x5C) (escapeLike t @ ps) s \<longleftrightarrow>
     (\<exists>a b. s = a @ b \<and> to_lower a = to_lower t \<and> like (Some CHR 0x5C) ps b)"
proof (induction t arbitrary: s)
  case (Cons c t)
  have split: "(\<exists>a b. s = a @ b \<and> to_lower a = to_lower (c # t) \<and> like (Some CHR 0x5C) ps b) \<longleftrightarrow>
      (case s of [] \<Rightarrow> False | x # xs \<Rightarrow> lower_char x = lower_char c \<and>
        (\<exists>a b. xs = a @ b \<and> to_lower a = to_lower t \<and> like (Some CHR 0x5C) ps b))" for s
  proof (cases s)
    case (Cons x xs)
    show ?thesis unfolding Cons list.case
    proof (intro iffI, elim exE conjE)
      fix a b assume "x # xs = a @ b" "to_lower a = to_lower (c # t)" "like (Some CHR 0x5C) ps b"
      then show "lower_char x = lower_char c \<and> (\<exists>a b. xs = a @ b \<and> to_lower a = to_lower t \<and> like (Some CHR 0x5C) ps b)"
        by (cases a) auto
    next
      assume "lower_char x = lower_char c \<and> (\<exists>a b. xs = a @ b \<and> to_lower a = to_lower t \<and> like (Some CHR 0x5C) ps b)"
      then obtain a b where "lower_char x = lower_char c" "xs = a @ b" "to_lower a = to_lower t" "like (Some CHR 0x5C) ps b"
        by blast
      then show "\<exists>a b. x # xs = a @ b \<and> to_lower a = to_lower (c # t) \<and> like (Some CHR 0x5C) ps b"
        by (intro exI [of _ "x # a"] exI [of _ b]) simp
    qed
  qed (simp add: to_lower_def)
  show ?case unfolding split by (cases s) (simp_all add: escapeLike_Cons Cons)
qed (auto simp: escapeLike_def to_lower_def)

text \<open>The text occurs in the column, whatever the case of its letters.\<close>

definition contains_fold :: "string \<Rightarrow> string \<Rightarrow> bool" where
  "contains_fold column t = list_ex (\<lambda>i. to_lower (take (length t) (drop i column)) = to_lower t) [0..<Suc (length column)]"

lemma contains_fold_iff: "contains_fold column t \<longleftrightarrow> (\<exists>a u b. column = a @ u @ b \<and> to_lower u = to_lower t)"
proof
  assume "contains_fold column t"
  then obtain i where "to_lower (take (length t) (drop i column)) = to_lower t"
    unfolding contains_fold_def list_ex_iff by blast
  then show "\<exists>a u b. column = a @ u @ b \<and> to_lower u = to_lower t"
    by (intro exI [of _ "take i column"] exI [of _ "take (length t) (drop i column)"]
        exI [of _ "drop (length t) (drop i column)"]) (simp del: drop_drop)
next
  assume "\<exists>a u b. column = a @ u @ b \<and> to_lower u = to_lower t"
  then obtain a u b where c: "column = a @ u @ b" and u: "to_lower u = to_lower t" by blast
  have "length u = length t" using arg_cong [OF u, of length] by (simp add: to_lower_def)
  then have "to_lower (take (length t) (drop (length a) column)) = to_lower t" using c u by simp
  moreover have "length a \<in> set [0..<Suc (length column)]" by (simp add: c)
  ultimately show "contains_fold column t" unfolding contains_fold_def list_ex_iff by blast
qed

lemma contains_fold_lower: "contains_fold (to_lower column) (to_lower t) = contains_fold column t"
proof -
  have "to_lower (take n (drop i (to_lower column))) = to_lower (take n (drop i column))" for n i
    by (simp add: to_lower_def take_map drop_map)
  then show ?thesis by (simp add: contains_fold_def) (simp add: to_lower_def)
qed

lemma like_pattern_of: "like (Some CHR 0x5C) (pattern_of lw t) column \<longleftrightarrow> contains_fold column (lw (trim_space t))"
proof -
  have l: "like (Some CHR 0x5C) ''%'' v = True" for v using like_end [of "Some CHR 0x5C" v] by (simp del: like.simps)
  have "like (Some CHR 0x5C) (pattern_of lw t) column \<longleftrightarrow> (\<exists>a b. column = a @ b \<and>
      (\<exists>u v. b = u @ v \<and> to_lower u = to_lower (lw (trim_space t)) \<and> like (Some CHR 0x5C) ''%'' v))"
    unfolding pattern_of_def by (simp only: like_any like_escape option.inject char.inject simp_thms)
  also have "\<dots> \<longleftrightarrow> (\<exists>a u v. column = a @ u @ v \<and> to_lower u = to_lower (lw (trim_space t)))"
    by (simp only: l simp_thms) blast
  finally show ?thesis by (simp only: contains_fold_iff)
qed

lemma contains_fold_column: "contains_fold (to_lower column) t = contains_fold column t"
proof -
  have "to_lower (take n (drop i (to_lower column))) = to_lower (take n (drop i column))" for n i
    by (simp add: to_lower_def take_map drop_map)
  then show ?thesis by (simp add: contains_fold_def) (simp add: to_lower_def)
qed

lemma matches_pattern_of: "matches (pattern_of lw t) column \<longleftrightarrow> contains_fold column (lw (trim_space t))"
  by (simp add: matches_def like_pattern_of contains_fold_column)

definition occurs_in :: "string \<Rightarrow> message \<Rightarrow> bool" where
  "occurs_in t m = list_ex (\<lambda>v. contains_fold v t)
     [ms_subject m, ms_from_addr m, ms_from_name m, ms_to m, ms_cc m, ms_body_text m]"

lemma mail_hit_occurs: "mail_hit (pattern_of lw t) folderID m \<longleftrightarrow> occurs_in (lw (trim_space t)) m \<and> (folderID > 0 \<longrightarrow> ms_folder m = folderID)"
  by (simp add: mail_hit_def occurs_in_def matches_pattern_of)

lemma contains_fold_case: "to_lower t = to_lower t' \<Longrightarrow> contains_fold column t = contains_fold column t'"
proof -
  assume e: "to_lower t = to_lower t'"
  have "length t = length t'" using arg_cong [OF e, of length] by (simp add: to_lower_def)
  then show ?thesis by (simp add: contains_fold_def e)
qed

lemma occurs_in_case: "to_lower t = to_lower t' \<Longrightarrow> occurs_in t m = occurs_in t' m"
  unfolding occurs_in_def by (intro arg_cong2 [where f = list_ex] ext refl contains_fold_case)

text \<open>C32: the mail search is a search for the literal text, for a text whose only capitals are those of ASCII:
  \<open>strings.ToLower\<close> does to it no more than ASCII lowering does. Then a hit is a message of the account that is
  not deleted, in the folder asked for, with the trimmed text in one of its columns up to the case
  of ASCII letters; wildcards in the text stand for themselves. The total counts exactly these, and
  the page is a part of them. For other texts the search misses messages, see \<open>capital_missed\<close>.\<close>

theorem SearchMail_literal:
  assumes "SearchMail lw userID term folderID limit offset s = (Inr (hits, n), s')" "trim_space term \<noteq> []"
    and "lw (trim_space term) = to_lower (trim_space term)"
  shows "n = length (filter (\<lambda>m. occurs_in (trim_space term) m \<and> (folderID > 0 \<longrightarrow> ms_folder m = folderID))
        (live_of userID (st_db s))) \<and>
      length hits = min (clamp 50 200 limit) (n - nat offset) \<and>
      (\<forall>h\<in>set hits. sh_message h \<in> set (live_of userID (st_db s)) \<and> occurs_in (trim_space term) (sh_message h) \<and>
        (folderID > 0 \<longrightarrow> ms_folder (sh_message h) = folderID) \<and> sh_key h = conv_key (sh_message h))"
proof -
  let ?P = "\<lambda>m. occurs_in (trim_space term) m \<and> (folderID > 0 \<longrightarrow> ms_folder m = folderID)"
  let ?rows = "filter ?P (live_of userID (st_db s))"
  have "occurs_in (lw (trim_space term)) m = occurs_in (trim_space term) m" for m
    by (rule occurs_in_case) (simp add: assms(3))
  then have e: "mail_hit (pattern_of lw term) folderID = ?P" by (intro ext) (simp add: mail_hit_occurs)
  obtain fs where h: "hits = map (search_hit_of fs) (take (clamp 50 200 limit) (drop (nat offset) (newest_first ?rows)))"
    and n: "n = length ?rows"
    using assms(1,2) unfolding SearchMail_def Let_def e by (auto simp: bindE_Inr_iff getAll_Inr_iff)
  have l: "length (newest_first xs) = length xs" "set (newest_first xs) = set xs" for xs
    by (simp_all add: newest_first_def sort_desc_def)
  have "m \<in> set ?rows" if "m \<in> set (take c (drop o' (newest_first ?rows)))" for m c o'
    using that l(2) [of ?rows] by (blast dest: in_set_takeD in_set_dropD)
  then have "\<forall>h\<in>set hits. sh_message h \<in> set ?rows \<and> sh_key h = conv_key (sh_message h)"
    unfolding h set_map ball_simps search_hit_of_def search_hit.simps by blast
  moreover have "length hits = min (clamp 50 200 limit) (n - nat offset)" by (simp add: h n l)
  ultimately show ?thesis unfolding n by simp
qed

theorem SearchMail_literal_witness:
  "\<exists>hits n s'. SearchMail to_lower ''u'' ''EXT '' 0 10 0 demo_store = (Inr (hits, n), s') \<and>
     n = length (filter (\<lambda>m. occurs_in ''EXT'' m \<and> ((0::int) > 0 \<longrightarrow> ms_folder m = 0)) (live_of ''u'' demo_db))"
proof -
  have t: "trim_space ''EXT '' = ''EXT''" by (simp add: trim_space_def trim_left_def trim_right_def is_space_def)
  obtain r s' where r: "SearchMail to_lower ''u'' ''EXT '' 0 10 0 demo_store = (Inr r, s')"
    by (simp add: SearchMail_def t Let_def bindE_def getAll_def sql_no_fault FoldersByUser_def)
  obtain hits n where "r = (hits, n)" by (cases r)
  with r SearchMail_literal [of to_lower "''u''" "''EXT ''" 0 10 0 demo_store hits n s'] t show ?thesis by auto
qed

text \<open>A capital outside ASCII hides its own text. \<open>strings.ToLower\<close> makes the bytes of the small a with diaeresis
  out of those of the capital; the column keeps the capital, so a search for it does not find it.\<close>

definition capital_umlaut :: string where
  "capital_umlaut = [CHR 0xC3, CHR 0x84]"

lemma capital_missed:
  assumes "lw capital_umlaut = [CHR 0xC3, CHR 0xA4]"
  shows "occurs_in capital_umlaut (demo_message 1\<lparr>ms_subject := capital_umlaut\<rparr>) \<and>
    \<not> mail_hit (pattern_of lw capital_umlaut) 0 (demo_message 1\<lparr>ms_subject := capital_umlaut\<rparr>)"
proof -
  have t: "trim_space capital_umlaut = capital_umlaut" by code_simp
  have "occurs_in capital_umlaut (demo_message 1\<lparr>ms_subject := capital_umlaut\<rparr>)"
    "\<not> occurs_in [CHR 0xC3, CHR 0xA4] (demo_message 1\<lparr>ms_subject := capital_umlaut\<rparr>)" by code_simp+
  then show ?thesis by (simp add: mail_hit_occurs t assms)
qed

section \<open>Thread lookup and order\<close>

lemma oldest_match_spec:
  "oldest_match l want ns nr rows =
     (case filter (\<lambda>r. ms_conv r \<noteq> [] \<and> NormalizedSubject (ms_subject r) = want \<and> replyParticipantsMatch l ns nr r) (rev rows) of
        [] \<Rightarrow> [] | r # _ \<Rightarrow> ms_conv r)"
  by (induction rows rule: rev_induct) (simp_all add: oldest_match_def)

lemma scope_rowsD: "m \<in> set (scope_rows u scope d) \<longleftrightarrow>
    m \<in> set (tb_messages d) \<and> ms_user m = u \<and> \<not> ms_deleted m \<and> ms_folder m \<in> set scope"
  by (auto simp: scope_rows_def live_of_def)

lemma set_newest_first [simp]: "set (newest_first ms) = set ms"
  by (simp add: newest_first_def sort_desc_def)

text \<open>A stray reply only joins a thread it belongs to. When the lookup finds a conversation, then
  the account has a live message with that conversation and the same subject, whose sender is
  among the recipients of the reply or whose recipients include its sender.\<close>

theorem ThreadForReply_sound:
  assumes "ThreadForReply l userID subject fromAddr toAddrs s = (Inr key, s')" "key \<noteq> []"
  shows "\<exists>m\<in>set (live_of userID (st_db s)). ms_conv m = key \<and>
    NormalizedSubject (ms_subject m) = NormalizedSubject subject \<and>
    replyParticipantsMatch l (lower_address fromAddr) (lowerAddressSet toAddrs) m"
proof -
  obtain P where "key = oldest_match l (NormalizedSubject subject) (lower_address fromAddr) (lowerAddressSet toAddrs)
      (take 200 (newest_first (filter P (live_of userID (st_db s)))))"
    using assms by (auto simp: ThreadForReply_def mailFolderIDs_def Let_def bindE_Inr_iff getAll_Inr_iff split: if_splits prod.splits)
  then obtain m ms where "filter (\<lambda>r. ms_conv r \<noteq> [] \<and> NormalizedSubject (ms_subject r) = NormalizedSubject subject \<and>
      replyParticipantsMatch l (lower_address fromAddr) (lowerAddressSet toAddrs) r)
      (rev (take 200 (newest_first (filter P (live_of userID (st_db s)))))) = m # ms" "key = ms_conv m"
    using assms(2) by (auto simp only: oldest_match_spec list.case split: list.splits)
  then have "m \<in> set (take 200 (newest_first (filter P (live_of userID (st_db s)))))" "ms_conv m = key"
    "NormalizedSubject (ms_subject m) = NormalizedSubject subject"
    "replyParticipantsMatch l (lower_address fromAddr) (lowerAddressSet toAddrs) m"
    unfolding filter_eq_Cons_iff by (auto simp del: set_take_subset dest: arg_cong [of _ _ set])
  then show ?thesis by (auto dest!: in_set_takeD)
qed

lemma sort_stable:
  "sorted_wrt (\<lambda>x y. g x < (g y :: int)) xs \<Longrightarrow> sorted_wrt (\<lambda>x y. f x < (f y :: int) \<or> f x = f y \<and> g x < g y) (sort_key f xs)"
proof (induction xs)
  case (Cons a xs)
  have ins: "sorted_wrt (\<lambda>x y. f x < f y \<or> f x = f y \<and> g x < g y) ys \<Longrightarrow> \<forall>y\<in>set ys. g a < g y \<Longrightarrow>
      sorted_wrt (\<lambda>x y. f x < f y \<or> f x = f y \<and> g x < g y) (insort_key f a ys)" for ys
    by (induction ys) (auto simp: set_insort_key)
  show ?case using Cons by (simp add: ins)
qed simp

lemma sort_key_id: "sorted_wrt (\<lambda>x y. g x < (g y :: int)) xs \<Longrightarrow> sort_key g xs = xs"
  by (rule sort_key_id_if_sorted) (simp add: sorted_map, erule sorted_wrt_mono_rel [rotated], simp)

lemma oldest_first_sorted:
  assumes "db_ok d"
  shows "sorted_wrt (\<lambda>a m. newer_than a m) (oldest_first (filter P (tb_messages d)))"
proof -
  have "sorted_wrt (\<lambda>x y. ms_id x < ms_id y) (filter P (tb_messages d))"
    using db_okD_mail(1) [OF assms] by (simp add: ids_ok_def sorted_wrt_filter)
  note sort_stable [OF this, of ms_date] sort_key_id [OF this]
  then have "sorted_wrt (\<lambda>x y. ms_date x < ms_date y \<or> ms_date x = ms_date y \<and> ms_id x < ms_id y)
      (oldest_first (filter P (tb_messages d)))"
    by (simp add: oldest_first_def)
  then show ?thesis by (rule sorted_wrt_mono_rel [rotated]) (auto simp: newer_than_def)
qed

lemma newer_asym: "newer_than a b \<Longrightarrow> \<not> newer_than b a" "\<not> newer_than a a"
  by (simp_all add: newer_than_def) arith

lemma filter_newer_split:
  assumes "sorted_wrt newer_than xs" "a \<in> set xs"
  shows "\<exists>ys. xs = ys @ a # filter (newer_than a) xs"
proof -
  obtain ys zs where x: "xs = ys @ a # zs" using assms(2) by (auto dest: split_list)
  have "filter (newer_than a) zs = zs" using assms(1) by (simp add: x sorted_wrt_append)
  moreover have "\<not> newer_than a y" if "y \<in> set ys" for y
    using assms(1) that newer_asym by (simp add: x sorted_wrt_append)
  ultimately have "filter (newer_than a) xs = zs" by (simp add: x newer_asym filter_False)
  then show ?thesis using x by auto
qed

lemma filter_oldest_first: "oldest_first (filter P xs) = filter P (oldest_first xs)"
  by (simp add: oldest_first_def filter_sort)

section \<open>What the reader opens\<close>

lemma getAll_no_fault: "st_faults s = [] \<Longrightarrow> getAll q s = (Inr (q (st_db s)), s)"
  by (simp add: getAll_def sql_no_fault)

definition folder_ids_of :: "string \<Rightarrow> db \<Rightarrow> int \<times> int" where
  "folder_ids_of userID d = (let rows = filter (\<lambda>f. fo_user f = userID \<and> \<not> fo_deleted f \<and> fo_type f \<in> {2, 5}) (tb_folders d)
     in (last_of_type 2 rows, last_of_type 5 rows))"

definition scope_in :: "string \<Rightarrow> int \<Rightarrow> db \<Rightarrow> int list" where
  "scope_in userID folderID d = (case folder_ids_of userID d of (inbox, sent) \<Rightarrow> scope_of inbox sent folderID)"

lemma mailFolderIDs_Inr:
  "mailFolderIDs userID s = (Inr p, s') \<longleftrightarrow> \<not> next_fault s \<and> s' = pop_fault s \<and> p = folder_ids_of userID (st_db s)"
  by (auto simp: mailFolderIDs_def bindE_Inr_iff getAll_Inr_iff folder_ids_of_def Let_def)

lemma conversationScope_Inr:
  "conversationScope userID folderID s = (Inr scope, s') \<longleftrightarrow>
     \<not> next_fault s \<and> s' = pop_fault s \<and> scope = scope_in userID folderID (st_db s)"
  by (auto simp: conversationScope_def bindE_Inr_iff mailFolderIDs_Inr scope_in_def split: prod.splits)

lemma conversationScope_no_fault:
  "st_faults s = [] \<Longrightarrow> conversationScope userID folderID s = (Inr (scope_in userID folderID (st_db s)), s)"
  by (simp add: conversationScope_Inr)

text \<open>What the reader opens when nothing fails.\<close>

definition thread_rows :: "string \<Rightarrow> string \<Rightarrow> int \<Rightarrow> db \<Rightarrow> message list" where
  "thread_rows userID key folderID d =
     oldest_first (filter (\<lambda>m. ms_conv m = key) (scope_rows userID (scope_in userID folderID d) d))"

lemma ConversationMessages_thread:
  "st_faults s = [] \<Longrightarrow> own_key key = None \<Longrightarrow> ConversationMessages userID key folderID 0 s =
     (Inr (take 200 (thread_rows userID key folderID (st_db s))), s)"
  by (simp add: ConversationMessages_def bindE_def conversationScope_no_fault getAll_no_fault thread_rows_def clamp_def)

lemma thread_rows_filter: "thread_rows userID key folderID d = oldest_first (filter (\<lambda>m. ms_user m = userID \<and> \<not> ms_deleted m \<and>
    ms_folder m \<in> set (scope_in userID folderID d) \<and> ms_conv m = key) (tb_messages d))"
  by (simp add: thread_rows_def scope_rows_def live_of_def conj_ac)

text \<open>An open thread can be continued. What is read behind a message of the thread is exactly what
  follows it in the whole thread, so a reader that shows the thread up to that message and
  appends the answer shows the whole thread.\<close>

theorem ConversationMessagesAfter_continues:
  assumes "store_ok s" "st_faults s = []" "own_key key = None"
    and "a \<in> set (thread_rows userID key folderID (st_db s))" "length (thread_rows userID key folderID (st_db s)) \<le> 200"
  shows "\<exists>older newer. ConversationMessages userID key folderID 0 s = (Inr (older @ a # newer), s) \<and>
    ConversationMessagesAfter userID key folderID (ms_id a) 0 s = (Inr newer, s)"
proof -
  let ?d = "st_db s" and ?T = "thread_rows userID key folderID (st_db s)"
  have d: "db_ok ?d" using assms(1) by (simp add: store_ok_def)
  have "sorted_wrt newer_than ?T" using oldest_first_sorted [OF d] by (simp add: thread_rows_filter)
  then obtain ys where y: "?T = ys @ a # filter (newer_than a) ?T" using filter_newer_split assms(4) by blast
  have m: "a \<in> set (tb_messages ?d)" "ms_user a = userID" "\<not> ms_deleted a" "ms_conv a = key"
    "ms_folder a \<in> set (scope_in userID folderID ?d)"
    using assms(4) by (simp_all add: thread_rows_filter oldest_first_def)
  have q: "MessageMetaByID (ms_id a) s = (Inr a, s)"
    using message_row_mem [OF d m(1)] by (simp add: MessageMetaByID_def message_query_eval assms(2))
  have f: "filter (newer_than a) ?T = oldest_first (filter (\<lambda>m. ms_conv m = key \<and> newer_than a m)
      (scope_rows userID (scope_in userID folderID ?d) ?d))"
    by (simp add: thread_rows_def filter_oldest_first [symmetric] conj_commute)
  have "length (filter (newer_than a) ?T) \<le> 200" using assms(5) length_filter_le order_trans by blast
  then have "ConversationMessagesAfter userID key folderID (ms_id a) 0 s = (Inr (filter (newer_than a) ?T), s)"
    using assms(2,3) m q f
    by (simp add: ConversationMessagesAfter_def bindE_def conversationScope_no_fault getAll_no_fault clamp_def)
  moreover have "ConversationMessages userID key folderID 0 s = (Inr (ys @ a # filter (newer_than a) ?T), s)"
    using ConversationMessages_thread [OF assms(2,3)] assms(5) y by simp
  ultimately show ?thesis by blast
qed

lemma foldl_max_in: "foldl max (x :: int) xs \<in> set (x # xs)"
proof (induction xs arbitrary: x)
  case (Cons y ys)
  from Cons [of "max x y"] show ?case by (auto simp: max_def split: if_splits)
qed simp

lemma max_of_in: "xs \<noteq> [] \<Longrightarrow> max_of xs \<in> set xs"
  by (cases xs) (simp_all only: max_of.simps foldl_max_in)

lemma oldest_first_facts: "length (oldest_first ms) = length ms" "set (oldest_first ms) = set ms"
  by (simp_all add: oldest_first_def)

definition keys_ok :: "db \<Rightarrow> bool" where
  "keys_ok d \<longleftrightarrow> list_all (\<lambda>m. own_key (ms_conv m) = None \<and> int64_range (ms_id m)) (tb_messages d)"

lemma own_key_itoa: "own_key (''m:'' @ itoa i) = Some (itoa i)"
  by (simp add: own_key_def has_prefix_def)

lemma group_by_conv:
  assumes "own_key k = None" "k \<noteq> []"
  shows "filter (\<lambda>m. conv_key m = k) ms = filter (\<lambda>m. ms_conv m = k) ms"
proof (rule filter_cong [OF refl])
  fix m
  show "(conv_key m = k) = (ms_conv m = k)"
    using assms own_key_itoa [of "ms_id m"] unfolding conv_key_def by (cases "ms_conv m = []") auto
qed

lemma filter_one: "distinct xs \<Longrightarrow> m \<in> set xs \<Longrightarrow> filter (\<lambda>x. x = m) xs = [m]"
  by (induction xs) (auto simp: filter_empty_conv)

lemma group_single:
  assumes "db_ok d" "keys_ok d" "m \<in> set (scope_rows u scope d)" "ms_conv m = []"
  shows "filter (\<lambda>x. conv_key x = conv_key m) (scope_rows u scope d) = [m]"
proof -
  have x: "conv_key x = conv_key m \<longleftrightarrow> x = m" if "x \<in> set (scope_rows u scope d)" for x
  proof
    assume e: "conv_key x = conv_key m"
    have t: "x \<in> set (tb_messages d)" "m \<in> set (tb_messages d)" using that assms(3) by (simp_all add: scope_rowsD)
    have "own_key (conv_key m) = Some (itoa (ms_id m))" using assms(4) own_key_itoa by (simp add: conv_key_def)
    moreover have "own_key (ms_conv x) = None" using assms(2) t by (simp add: keys_ok_def list_all_iff)
    ultimately have "ms_conv x = []" "itoa (ms_id x) = itoa (ms_id m)"
      using e own_key_itoa [of "ms_id x"] by (auto simp: conv_key_def split: if_splits)
    then have "ms_id x = ms_id m" using assms(2) t itoa_inj by (simp add: keys_ok_def list_all_iff)
    then show "x = m" using ids_ok_unique [OF db_okD_mail(1) [OF assms(1)]] t by blast
  qed simp
  have "sorted_wrt (\<lambda>x y. ms_id x < ms_id y) (scope_rows u scope d)"
    using db_okD_mail(1) [OF assms(1)] by (simp add: ids_ok_def scope_rows_def live_of_def sorted_wrt_filter)
  then have "sorted_wrt (<) (map ms_id (scope_rows u scope d))" by (simp add: sorted_wrt_map)
  then have "distinct (scope_rows u scope d)" by (simp add: strict_sorted_iff distinct_map)
  then have "filter (\<lambda>x. x = m) (scope_rows u scope d) = [m]" using assms(3) by (rule filter_one)
  then show ?thesis using x by (simp cong: filter_cong)
qed

lemma conv_rowsD:
  assumes "r \<in> set (conv_rows userID inbox sent sc folderID n d)"
  shows "\<exists>m\<in>set (scope_rows userID sc d). r = conv_group inbox sent (scope_rows userID sc d) (conv_key m)"
proof -
  have "r \<in> conv_group inbox sent (scope_rows userID sc d) ` conv_key ` set (scope_rows userID sc d)"
    using in_set_takeD [OF assms [unfolded conv_rows_def Let_def]] by (simp only: sort_desc_def set_sort set_filter
        set_map set_remdups mem_Collect_eq)
  then show ?thesis by blast
qed

text \<open>The list of threads and the reader agree. For every thread in the list, opening its key in the
  same folder gives messages, as many as the list counts and as many unread (the first 200 of
  them when there are more), and the newest one named in the list is among them.\<close>

theorem conversation_opens:
  assumes "ConversationSummaries userID folderID limit s = (Inr cs, s')" "c \<in> set cs" "store_ok s" "keys_ok (st_db s)"
    and "st_db t = st_db s" "st_faults t = []"
  shows "\<exists>ms. ConversationMessages userID (cv_key c) folderID 0 t = (Inr (take 200 ms), t) \<and>
    length ms = cv_count c \<and> length (filter (\<lambda>m. \<not> ms_read m) ms) = cv_unread c \<and> cv_latest c \<in> ms_id ` set ms"
proof -
  let ?d = "st_db s" and ?sc = "scope_in userID folderID (st_db s)"
  let ?rows = "scope_rows userID ?sc ?d"
  have d: "db_ok ?d" using assms(3) by (simp add: store_ok_def)
  obtain inbox sent latest fs r where c: "c = conversation_of latest fs r"
    and r: "r \<in> set (conv_rows userID inbox sent ?sc folderID (clamp 50 200 limit) ?d)"
    using assms(1,2)
    by (auto simp: ConversationSummaries_def bindE_Inr_iff mailFolderIDs_Inr conversationScope_Inr getAll_Inr_iff
        split: prod.splits if_splits)
  then obtain m where m: "m \<in> set ?rows" and r: "r = conv_group inbox sent ?rows (conv_key m)"
    using conv_rowsD by blast
  let ?k = "conv_key m" and ?ms = "filter (\<lambda>x. conv_key x = conv_key m) ?rows"
  have f: "cv_key c = ?k" "cv_count c = length ?ms" "cv_unread c = length (filter (\<lambda>m. \<not> ms_read m) ?ms)"
    "cv_latest c = max_of (map ms_id ?ms)"
    by (simp_all only: c r conversation_of_def conv_group_def Let_def conversation.select_convs conv_row.select_convs)
  have "m \<in> set ?ms" using m by simp
  then have "map ms_id ?ms \<noteq> []" by (metis empty_iff empty_set map_is_Nil_conv)
  then have l: "cv_latest c \<in> ms_id ` set ?ms" unfolding f set_map [symmetric] by (rule max_of_in)
  have row: "m \<in> set (tb_messages ?d)" "ms_user m = userID" "\<not> ms_deleted m" "ms_folder m \<in> set ?sc"
    using m by (simp_all add: scope_rowsD)
  have k: "own_key (ms_conv m) = None" "int64_range (ms_id m)" using assms(4) row(1) by (simp_all add: keys_ok_def list_all_iff)
  show ?thesis
  proof (cases "ms_conv m = []")
    case True
    then have s: "?ms = [m]" using group_single [OF d assms(4) m] by simp
    have "0 < ms_id m" using db_okD_mail(1) [OF d] row(1) by (simp add: ids_ok_def)
    moreover have "MessageMetaByID (ms_id m) t = (Inr m, t)"
      using message_row_mem [OF d row(1)] by (simp add: MessageMetaByID_def message_query_eval assms(5,6))
    ultimately have "ConversationMessages userID ?k folderID 0 t = (Inr (take 200 ?ms), t)"
      using True row k own_key_itoa [of "ms_id m"] unfolding s
      by (simp add: ConversationMessages_def conv_key_def bindE_def conversationScope_no_fault assms(5,6) parse_int64_itoa)
    then show ?thesis using f l by auto
  next
    case False
    let ?T = "thread_rows userID ?k folderID ?d"
    have k': "own_key ?k = None" "?k \<noteq> []" using k False by (simp_all add: conv_key_def)
    then have T: "?T = oldest_first ?ms" by (simp add: thread_rows_def group_by_conv)
    have "ConversationMessages userID (cv_key c) folderID 0 t = (Inr (take 200 ?T), t)"
      using ConversationMessages_thread [OF assms(6) k'(1)] by (simp add: assms(5) f(1))
    moreover have "length (filter (\<lambda>m. \<not> ms_read m) ?T) = length (filter (\<lambda>m. \<not> ms_read m) ?ms)"
      by (simp only: T filter_oldest_first [symmetric] oldest_first_facts)
    ultimately show ?thesis using f l T oldest_first_facts by (intro exI [of _ ?T]) simp
  qed
qed

text \<open>A store with a reply: both messages of the inbox in one thread.\<close>

definition thread_store :: store where
  "thread_store = demo_store\<lparr>st_db := demo_db\<lparr>tb_messages :=
     map (\<lambda>m. m\<lparr>ms_conv := ''ref:a''\<rparr>) (tb_messages demo_db)\<rparr>\<rparr>"

lemma thread_store_ok: "store_ok thread_store" "st_faults thread_store = []" "keys_ok (st_db thread_store)"
  using demo_ok
  by (simp_all add: thread_store_def store_ok_def db_ok_def db_parts demo_defs ids_ok_def refs_ok_def folder_key_def
      uuid_rows_def primary_rows_def state_key_def keys_ok_def own_key_def has_prefix_def int64_range_def
      min_int64_def max_int64_def)

lemma thread_store_scope: "scope_in ''u'' 1 (st_db thread_store) = [1]"
  by (simp add: scope_in_def folder_ids_of_def scope_of_def last_of_type_def thread_store_def demo_defs)

lemma thread_store_rows: "map ms_id (thread_rows ''u'' ''ref:a'' 1 (st_db thread_store)) = [1, 2]"
  by (simp add: thread_rows_filter thread_store_scope oldest_first_def)
     (simp add: thread_store_def demo_defs)

theorem ConversationMessagesAfter_continues_witness:
  "\<exists>a older newer. ConversationMessages ''u'' ''ref:a'' 1 0 thread_store = (Inr (older @ a # newer), thread_store) \<and>
     ConversationMessagesAfter ''u'' ''ref:a'' 1 (ms_id a) 0 thread_store = (Inr newer, thread_store)"
proof -
  let ?T = "thread_rows ''u'' ''ref:a'' 1 (st_db thread_store)"
  have "length ?T = 2" using arg_cong [OF thread_store_rows, of length] by simp
  moreover then have "hd ?T \<in> set ?T" by (cases ?T) auto
  moreover have "own_key ''ref:a'' = None" by (simp add: own_key_def has_prefix_def)
  ultimately show ?thesis
    using ConversationMessagesAfter_continues [of thread_store "''ref:a''" "hd ?T" "''u''" 1] thread_store_ok by auto
qed

theorem conversation_opens_witness:
  "\<exists>(c :: conversation) ms. ConversationMessages ''u'' (cv_key c) 1 0 thread_store = (Inr (take 200 ms), thread_store) \<and>
     length ms = cv_count c"
proof -
  have rows: "conv_rows ''u'' 1 0 [1] 1 50 (st_db thread_store) \<noteq> []"
    by (simp add: conv_rows_def Let_def scope_rows_def live_of_def thread_store_def demo_defs conv_key_def
        conv_group_def sort_desc_def)
  have "folder_ids_of ''u'' (st_db thread_store) = (1, 0)"
    by (simp add: folder_ids_of_def last_of_type_def thread_store_def demo_defs)
  then obtain cs s' where c: "ConversationSummaries ''u'' 1 0 thread_store = (Inr cs, s')" "cs \<noteq> []"
    using rows thread_store_ok(2) thread_store_scope
    by (auto simp: ConversationSummaries_def bindE_def mailFolderIDs_def conversationScope_no_fault getAll_no_fault
        messagesByID_def conversationFirstSubjects_def folder_ids_of_def clamp_def Let_def)
  then have "hd cs \<in> set cs" by simp
  from conversation_opens [OF c(1) this thread_store_ok(1,3) refl thread_store_ok(2)]
  obtain ms where "ConversationMessages ''u'' (cv_key (hd cs)) 1 0 thread_store = (Inr (take 200 ms), thread_store)"
    "length ms = cv_count (hd cs)" by blast
  then show ?thesis by blast
qed

theorem ThreadForReply_sound_witness:
  "\<exists>s'. ThreadForReply demo_lib ''u'' ''Re: hi'' ''u@x'' [''a@x''] thread_store = (Inr ''ref:a'', s') \<and>
     Bex (set (live_of ''u'' (st_db thread_store))) (\<lambda>m. ms_conv m = ''ref:a'' \<and>
       NormalizedSubject (ms_subject m) = NormalizedSubject ''Re: hi'')"
proof -
  have "fst (ThreadForReply demo_lib ''u'' ''Re: hi'' ''u@x'' [''a@x''] thread_store) = Inr ''ref:a''" by code_simp
  then obtain s' where "ThreadForReply demo_lib ''u'' ''Re: hi'' ''u@x'' [''a@x''] thread_store = (Inr ''ref:a'', s')"
    by (cases "ThreadForReply demo_lib ''u'' ''Re: hi'' ''u@x'' [''a@x''] thread_store") simp
  from this ThreadForReply_sound [OF this] show ?thesis by auto
qed

section \<open>The invariant\<close>

definition of_tables :: "(store \<Rightarrow> bool) \<Rightarrow> bool" where
  "of_tables I \<longleftrightarrow> (\<forall>s t. st_db s = st_db t \<longrightarrow> I s = I t)"

lemma of_tables_ok [simp]: "of_tables store_ok" "of_tables (\<lambda>s. P (st_db s))"
  by (simp_all add: of_tables_def store_ok_def)

lemma of_tablesD: "of_tables I \<Longrightarrow> st_db t = st_db s \<Longrightarrow> I s \<Longrightarrow> I t"
  unfolding of_tables_def by metis

lemma reads_keep:
  assumes "of_tables I"
  shows "keeps I (getAll q)" "keeps I (get_row p)"
proof -
  have k: "keeps I m" if "\<And>s. st_db (snd (m s)) = st_db s" for m :: "(store, 'x) op"
    by (rule keepsI) (rule of_tablesD [OF assms that])
  show "keeps I (getAll q)" by (rule k) (simp add: getAll_def sql_def)
  show "keeps I (get_row p)" by (rule k) (rule get_row_db)
qed

lemma webmail_reads_keep:
  assumes "of_tables I"
  shows "keeps I (mailFolderIDs u)" "keeps I (conversationScope u f)" "keeps I (ThreadForReply l u sj a ts)"
proof -
  note k = keeps_bindE reads_keep [OF assms] keeps_okE keeps_if
  show m: "keeps I (mailFolderIDs u)" unfolding mailFolderIDs_def by (intro k)
  show "keeps I (conversationScope u f)"
    unfolding conversationScope_def by (intro keeps_bindE m) (auto intro: keeps_okE simp del: okE_simp)
  show "keeps I (ThreadForReply l u sj a ts)"
    unfolding ThreadForReply_def Let_def
    by (intro keeps_if keeps_bindE m keeps_okE) (auto intro!: k simp del: okE_simp split: prod.splits)
qed

end
