(* ===== verification/Deliver.thy ===== *)
theory Deliver imports StoreWebmail begin

text \<open>
  Package \<open>internal/deliver\<close>: a parsed message is stored in a mailbox, its parts behind it, and the
  devices are told. The hook that runs after a delivery to an inbox (out-of-office notices,
  answers to meeting requests) is a parameter: a function of the account, the message, its id
  and its conversation that may change the store.
\<close>

(* src: internal/deliver/deliver.go 16-16 FolderInbox *)
definition FolderInbox :: int where "FolderInbox = 2"
(* src: internal/deliver/deliver.go 17-17 FolderSent *)
definition FolderSent :: int where "FolderSent = 5"

(* src: internal/deliver/deliver.go 20-23 InboxHook *)
type_synonym inbox_hook = "user \<Rightarrow> parsed_mail \<Rightarrow> string \<Rightarrow> int \<Rightarrow> string \<Rightarrow> store \<Rightarrow> store"

(* src: internal/deliver/deliver.go 28-42 receivedAsBcc *)
definition receivedAsBcc :: "mail_lib \<Rightarrow> parsed_mail \<Rightarrow> string \<Rightarrow> bool" where
  "receivedAsBcc l parsed addr \<longleftrightarrow> addr \<noteq> [] \<and>
     \<not> list_ex (\<lambda>candidate. equal_fold candidate addr) (Addresses l (pm_to parsed) @ Addresses l (pm_cc parsed))"

(* src: internal/deliver/deliver.go 44-51 NotifyInbox *)
definition NotifyInbox :: "inbox_hook option \<Rightarrow> inbox_hook" where
  "NotifyInbox hook user parsed raw i conv s = (case hook of None \<Rightarrow> s | Some h \<Rightarrow> h user parsed raw i conv s)"

(* src: internal/deliver/deliver.go 112-133 ConversationID *)
definition DeliveryConversationID :: "mail_lib \<Rightarrow> user \<Rightarrow> parsed_mail \<Rightarrow> store \<Rightarrow> string \<times> store" where
  "DeliveryConversationID l user parsed s =
    (let i = ConversationID l parsed in
     if pm_refs parsed \<noteq> [] \<or> trim_space (pm_in_reply_to parsed) \<noteq> [] then (i, s)
     else if \<not> IsReplySubject (pm_subject parsed) then (i, s)
     else (case ThreadForReply l (us_id user) (pm_subject parsed) (pm_from_addr parsed) (Addresses l (pm_to parsed)) s of
        (Inl _, s') \<Rightarrow> (i, s')
      | (Inr thread, s') \<Rightarrow> (if thread = [] then i else thread, s')))"

(* src: internal/deliver/deliver.go 60-86 ToUser *)
definition delivered :: "mail_lib \<Rightarrow> user \<Rightarrow> folder \<Rightarrow> int \<Rightarrow> parsed_mail \<Rightarrow> string \<Rightarrow> string \<Rightarrow> int \<Rightarrow> message" where
  "delivered l user folder folderType parsed raw conv now =
    \<lparr>ms_id = 0, ms_user = us_id user, ms_folder = fo_id folder, ms_subject = pm_subject parsed,
     ms_from_addr = pm_from_addr parsed, ms_from_name = pm_from_name parsed, ms_to = pm_to parsed, ms_cc = pm_cc parsed,
     ms_date = (case pm_date parsed of None \<Rightarrow> now | Some t \<Rightarrow> t), ms_size = int (length raw),
     ms_read = (folderType = FolderSent), ms_flagged = False, ms_importance = 1, ms_class = ''IPM.Note'',
     ms_msgid = pm_msgid parsed, ms_body_text = pm_text parsed, ms_body_html = pm_html parsed, ms_raw = raw,
     ms_raw_path = [], ms_has_att = (pm_parts parsed \<noteq> []), ms_deleted = False,
     ms_sender_addr = pm_sender_addr parsed, ms_sender_name = pm_sender_name parsed,
     ms_bcc = (folderType = FolderInbox \<and> receivedAsBcc l parsed (us_address user)), ms_conv = conv\<rparr>"

definition part_attachment :: "int \<Rightarrow> mail_part \<Rightarrow> attachment" where
  "part_attachment i p = \<lparr>at_id = 0, at_message = i, at_file = mp_file p, at_ctype = mp_ctype p, at_size = 0,
     at_cid = mp_cid p, at_inline = mp_inline p, at_path = [], at_data = mp_data p\<rparr>"

(* src: internal/deliver/deliver.go 91-102 ToUser *)
fun insert_parts :: "int \<Rightarrow> mail_part list \<Rightarrow> (store, unit) op" where
  "insert_parts i [] = okE ()"
| "insert_parts i (p # ps) = bindE (InsertAttachment (part_attachment i p)) (\<lambda>_. insert_parts i ps)"

text \<open>Callers drop the id that comes with an error, so an error is only an error here.\<close>

(* src: internal/deliver/deliver.go 53-110 ToUser *)
definition ToUser :: "mail_lib \<Rightarrow> inbox_hook option \<Rightarrow> user \<Rightarrow> int \<Rightarrow> parsed_mail \<Rightarrow> string \<Rightarrow> (store, int) op" where
  "ToUser l hook user folderType parsed raw = bindE (FolderByType (us_id user) folderType) (\<lambda>folder s.
     (let now = nowUnix s; (conv, s1) = DeliveryConversationID l user parsed s in
      bindE (InsertMessage (delivered l user folder folderType parsed raw conv now)) (\<lambda>i.
      bindE (insert_parts i (pm_parts parsed)) (\<lambda>_.
      bindE (AddChange (fo_id folder) ''add'' ''email'' i) (\<lambda>_ s2.
      okE i (if folderType = FolderInbox then NotifyInbox hook user parsed raw i conv s2 else s2)))) s1))"

section \<open>The invariant\<close>

definition hook_keeps :: "(store \<Rightarrow> bool) \<Rightarrow> inbox_hook option \<Rightarrow> bool" where
  "hook_keeps I hook \<longleftrightarrow> (\<forall>h u p r i c s. hook = Some h \<longrightarrow> I s \<longrightarrow> I (h u p r i c s))"

lemma NotifyInbox_keeps: "hook_keeps I hook \<Longrightarrow> I s \<Longrightarrow> I (NotifyInbox hook u p r i c s)"
  by (auto simp: NotifyInbox_def hook_keeps_def split: option.splits)

lemma DeliveryConversationID_keeps: "of_tables I \<Longrightarrow> I s \<Longrightarrow> I (snd (DeliveryConversationID l u p s))"
  using webmail_reads_keep(3) [THEN keepsD, of I s l "us_id u" "pm_subject p" "pm_from_addr p" "Addresses l (pm_to p)"]
  by (auto simp: DeliveryConversationID_def Let_def split: prod.splits sum.splits)

lemma keeps_insert_parts: "(\<And>a. keeps I (InsertAttachment a)) \<Longrightarrow> keeps I (insert_parts i ps)"
  by (induction ps) (auto intro!: keeps_bindE keeps_okE simp del: okE_simp)

lemma FolderByType_Inr:
  assumes "FolderByType u t s = (Inr f, s')"
  shows "\<not> next_fault s \<and> s' = pop_fault s \<and> f \<in> set (tb_folders (st_db s)) \<and> fo_user f = u \<and> fo_type f = t \<and> \<not> fo_deleted f"
proof -
  obtain xs where x: "limit_rows 1 (sort_key fo_id (filter (\<lambda>f. fo_user f = u \<and> fo_type f = t \<and> \<not> fo_deleted f) (tb_folders (st_db s)))) = f # xs"
    and s: "\<not> next_fault s" "s' = pop_fault s"
    using assms by (auto simp: FolderByType_def get_row_Inr_iff)
  have "f \<in> set (limit_rows 1 (sort_key fo_id (filter (\<lambda>f. fo_user f = u \<and> fo_type f = t \<and> \<not> fo_deleted f) (tb_folders (st_db s)))))"
    by (simp add: x)
  then have "f \<in> set (filter (\<lambda>f. fo_user f = u \<and> fo_type f = t \<and> \<not> fo_deleted f) (tb_folders (st_db s)))"
    using set_limit_rows set_sort by fastforce
  then show ?thesis using s by simp
qed

text \<open>A delivery keeps what its statements keep.\<close>

lemma ToUser_keeps:
  assumes t: "of_tables I" and h: "hook_keeps I hook"
    and m: "\<And>f r c now. fo_user f = us_id u \<Longrightarrow> keeps I (InsertMessage (delivered l u f ft p r c now))"
    and a: "\<And>a. keeps I (InsertAttachment a)" and c: "\<And>(f :: folder) i. fo_user f = us_id u \<Longrightarrow> keeps I (AddChange (fo_id f) ''add'' ''email'' i)"
  shows "keeps I (ToUser l hook u ft p raw)"
proof (rule keepsI)
  fix s assume s: "I s"
  show "I (snd (ToUser l hook u ft p raw s))"
  proof (cases "FolderByType (us_id u) ft s")
    case (Pair r s1)
    have s1: "I s1" by (rule keepsD_eq [OF reads_keep(2) [OF t] s Pair [unfolded FolderByType_def]])
    show ?thesis
    proof (cases r)
      case (Inr f)
      then have f: "fo_user f = us_id u" using Pair FolderByType_Inr by blast
      obtain conv s2 where c2: "DeliveryConversationID l u p s1 = (conv, s2)" by (cases "DeliveryConversationID l u p s1")
      then have s2: "I s2" using DeliveryConversationID_keeps [OF t s1, of l u p] by simp
      have "keeps I (\<lambda>t. okE i (if ft = FolderInbox then NotifyInbox hook u p raw i conv t else t))" for i
        by (rule keepsI) (simp add: NotifyInbox_keeps [OF h])
      then have "keeps I (bindE (InsertMessage (delivered l u f ft p raw conv (nowUnix s1))) (\<lambda>i.
          bindE (insert_parts i (pm_parts p)) (\<lambda>_. bindE (AddChange (fo_id f) ''add'' ''email'' i) (\<lambda>_ s2.
          okE i (if ft = FolderInbox then NotifyInbox hook u p raw i conv s2 else s2)))))"
        by (intro keeps_bindE m [OF f] keeps_insert_parts a c [OF f])
      from keepsD [OF this s2] show ?thesis using Pair Inr c2 by (simp add: ToUser_def bindE_def [of "FolderByType _ _"] Let_def)
    qed (use Pair s1 in \<open>simp add: ToUser_def bindE_def\<close>)
  qed
qed

lemma keeps_ToUser [keeps_intros]: "hook_keeps store_ok hook \<Longrightarrow> keeps store_ok (ToUser l hook u ft p raw)"
  by (rule ToUser_keeps) (simp_all add: keeps_InsertMessage keeps_InsertAttachment keeps_AddChange)

section \<open>What a delivery leaves behind\<close>

lemma update_where_append: "update_where P f (xs @ ys) = update_where P f xs @ update_where P f ys"
  by (simp add: update_where_def)

lemma InsertMessage_tables:
  assumes "store_ok s" "InsertMessage m s = (Inr i, s')"
  shows "\<exists>path. st_db s' = (st_db s)\<lparr>tb_messages := tb_messages (st_db s) @
      [(message_defaults (nowUnix s) m)\<lparr>ms_id := i, ms_raw := [], ms_raw_path := path\<rparr>], sq_messages := i\<rparr>"
proof -
  let ?m = "message_defaults (nowUnix s) m" and ?d = "st_db s"
  obtain j t where j: "sql (insert_message ?m) s = (Inr j, t)" and nb: "st_blobs s \<noteq> None"
    using assms(2) by (auto simp: InsertMessage_def Let_def bindE_Inr_iff split: if_splits)
  have ij: "j = i" and s': "st_db s' = st_db t \<or> (\<exists>p. st_db s' = upd_messages (\<lambda>r. ms_id r = i) (\<lambda>r. r\<lparr>ms_raw_path := p\<rparr>) (st_db t))"
  proof -
    let ?put = "\<lambda>s. let path = blobKey (st_sum s) ''raw'' j ''mime.eml'' (ms_raw ?m) in
         bindE (blobPut path (ms_raw ?m)) (\<lambda>_.
         bindE (exec (upd_messages (\<lambda>r. ms_id r = j) (\<lambda>r. r\<lparr>ms_raw_path := path\<rparr>))) (\<lambda>_. okE j)) s"
    have "(if ms_raw ?m = [] then okE j t else ?put t) = (Inr i, s')"
      using assms(2) j nb by (cases "ms_raw ?m = []") (simp_all add: InsertMessage_def Let_def)
    moreover have "j = i \<and> (\<exists>p. st_db s' = upd_messages (\<lambda>r. ms_id r = i) (\<lambda>r. r\<lparr>ms_raw_path := p\<rparr>) (st_db t))" if "?put t = (Inr i, s')"
      using that unfolding Let_def bindE_Inr_iff by (auto simp: exec_Inr_iff blobPut_def split: if_splits)
    ultimately show "j = i" "st_db s' = st_db t \<or> (\<exists>p. st_db s' = upd_messages (\<lambda>r. ms_id r = i) (\<lambda>r. r\<lparr>ms_raw_path := p\<rparr>) (st_db t))"
      by (auto split: if_splits)
  qed
  have t: "insert_message ?m ?d = Inr (i, st_db t)" using j ij by (auto simp: sql_Inr_iff)
  note ins = insert_message_Inr [OF t]
  have old: "\<forall>r\<in>set (tb_messages ?d). ms_id r \<noteq> i"
    using ins db_okD_mail(1) [of ?d] assms(1) by (fastforce simp: store_ok_def ids_ok_def)
  from s' show ?thesis
  proof
    assume "\<exists>p. st_db s' = upd_messages (\<lambda>r. ms_id r = i) (\<lambda>r. r\<lparr>ms_raw_path := p\<rparr>) (st_db t)"
    then obtain p where "st_db s' = upd_messages (\<lambda>r. ms_id r = i) (\<lambda>r. r\<lparr>ms_raw_path := p\<rparr>) (st_db t)" by blast
    then show ?thesis
      using ins old by (intro exI [of _ p]) (simp add: upd_messages_def update_where_append update_where_none)
  qed (use ins in auto)
qed

definition kept_part :: "int \<Rightarrow> attachment \<Rightarrow> mail_part \<Rightarrow> bool" where
  "kept_part i a p \<longleftrightarrow> at_message a = i \<and> at_file a = mp_file p \<and> at_ctype a = mp_ctype p \<and> at_cid a = mp_cid p \<and>
     at_inline a = mp_inline p \<and> at_size a = int (length (mp_data p))"

lemma InsertAttachment_tables:
  assumes "InsertAttachment a s = (Inr j, t)"
  shows "\<exists>path. st_db t = (st_db s)\<lparr>tb_attachments := tb_attachments (st_db s) @
    [a\<lparr>at_size := int (length (at_data a)), at_path := path, at_id := j, at_data := []\<rparr>], sq_attachments := j\<rparr>"
proof -
  obtain s1 path where "insert_attachment (a\<lparr>at_size := int (length (at_data a)), at_path := path\<rparr>) (st_db s) = Inr (j, st_db t)"
    using assms by (auto simp: InsertAttachment_def Let_def bindE_Inr_iff blobPut_def sql_Inr_iff split: if_splits)
  then show ?thesis by (intro exI [of _ path]) (auto simp: insert_attachment_def Let_def split: if_splits)
qed

lemma insert_parts_tables:
  "insert_parts i ps s = (Inr (), s') \<Longrightarrow> \<exists>as n. list_all2 (kept_part i) as ps \<and>
     st_db s' = (st_db s)\<lparr>tb_attachments := tb_attachments (st_db s) @ as, sq_attachments := n\<rparr>"
proof (induction ps arbitrary: s)
  case Nil
  then show ?case by (intro exI [of _ "[]"] exI [of _ "sq_attachments (st_db s)"]) simp
next
  case (Cons p ps)
  then obtain j t where j: "InsertAttachment (part_attachment i p) s = (Inr j, t)" "insert_parts i ps t = (Inr (), s')"
    by (auto simp: bindE_Inr_iff)
  define b where "b path = (part_attachment i p)\<lparr>at_size := int (length (at_data (part_attachment i p))), at_path := path,
      at_id := j, at_data := []\<rparr>" for path
  from InsertAttachment_tables [OF j(1)] obtain path where
    "st_db t = (st_db s)\<lparr>tb_attachments := tb_attachments (st_db s) @ [b path], sq_attachments := j\<rparr>"
    unfolding b_def by blast
  moreover have "kept_part i (b path) p" by (simp add: b_def part_attachment_def kept_part_def)
  ultimately obtain a where a: "kept_part i a p"
    "st_db t = (st_db s)\<lparr>tb_attachments := tb_attachments (st_db s) @ [a], sq_attachments := j\<rparr>" by blast
  from Cons.IH [OF j(2)] obtain as n where "list_all2 (kept_part i) as ps"
    "st_db s' = (st_db t)\<lparr>tb_attachments := tb_attachments (st_db t) @ as, sq_attachments := n\<rparr>" by blast
  then show ?case using a by (intro exI [of _ "a # as"] exI [of _ n]) simp
qed

text \<open>A delivery is complete or it is an error. On success the mailbox has one new row, in its folder
  of the asked type, with the fields of the message, unread in an inbox, the newest of all rows;
  every part is an attachment of that row; the feed of the folder ends with its arrival; and
  only then, for an inbox, the hook runs.\<close>

theorem ToUser_complete:
  assumes "store_ok s" "ToUser l hook u ft p raw s = (Inr i, s')"
  shows "\<exists>f conv path now clock as seq t.
    f \<in> set (tb_folders (st_db s)) \<and> fo_user f = us_id u \<and> fo_type f = ft \<and> \<not> fo_deleted f \<and>
    tb_messages (st_db t) = tb_messages (st_db s) @
      [(message_defaults clock (delivered l u f ft p raw conv now))\<lparr>ms_id := i, ms_raw := [], ms_raw_path := path\<rparr>] \<and>
    tb_attachments (st_db t) = tb_attachments (st_db s) @ as \<and> list_all2 (kept_part i) as (pm_parts p) \<and>
    tb_changes (st_db t) = tb_changes (st_db s) @
      [\<lparr>ch_seq = seq, ch_folder = fo_id f, ch_type = ''email'', ch_item = i, ch_kind = ''add''\<rparr>] \<and>
    s' = (if ft = FolderInbox then NotifyInbox hook u p raw i conv t else t)"
proof -
  obtain f s1 where f: "FolderByType (us_id u) ft s = (Inr f, s1)"
    using assms(2) by (auto simp: ToUser_def bindE_Inr_iff)
  obtain conv s2 where c: "DeliveryConversationID l u p s1 = (conv, s2)" by (cases "DeliveryConversationID l u p s1")
  let ?now = "nowUnix s1"
  note F = FolderByType_Inr [OF f]
  have db: "st_db s2 = st_db s"
    using DeliveryConversationID_keeps [of "\<lambda>t. st_db t = st_db s" s1 l u p] F c
      of_tables_ok(2) [of "\<lambda>d. d = st_db s"] by simp
  obtain s3 s4 s5 seq where m: "InsertMessage (delivered l u f ft p raw conv ?now) s2 = (Inr i, s3)"
    and a: "insert_parts i (pm_parts p) s3 = (Inr (), s4)" and ch: "AddChange (fo_id f) ''add'' ''email'' i s4 = (Inr seq, s5)"
    and s': "s' = (if ft = FolderInbox then NotifyInbox hook u p raw i conv s5 else s5)"
    using assms(2) f c by (auto simp: ToUser_def bindE_Inr_iff Let_def)
  have ok: "store_ok s2" using assms(1) db by (simp add: store_ok_def)
  obtain path where T: "st_db s3 = (st_db s)\<lparr>tb_messages := tb_messages (st_db s) @
      [(message_defaults (nowUnix s2) (delivered l u f ft p raw conv ?now))\<lparr>ms_id := i, ms_raw := [], ms_raw_path := path\<rparr>],
      sq_messages := i\<rparr>"
    using InsertMessage_tables [OF ok m] db by auto
  obtain as n where A: "list_all2 (kept_part i) as (pm_parts p)"
    "st_db s4 = (st_db s3)\<lparr>tb_attachments := tb_attachments (st_db s3) @ as, sq_attachments := n\<rparr>"
    using insert_parts_tables [OF a] by blast
  have C: "tb_changes (st_db s5) = tb_changes (st_db s4) @
      [\<lparr>ch_seq = seq, ch_folder = fo_id f, ch_type = ''email'', ch_item = i, ch_kind = ''add''\<rparr>]"
    "tb_messages (st_db s5) = tb_messages (st_db s4)" "tb_attachments (st_db s5) = tb_attachments (st_db s4)"
    using ch by (auto simp: AddChange_def sql_Inr_iff insert_change_def Let_def split: if_splits)
  show ?thesis
    by (rule exI [of _ f], rule exI [of _ conv], rule exI [of _ path], rule exI [of _ ?now], rule exI [of _ "nowUnix s2"],
        rule exI [of _ as], rule exI [of _ seq], rule exI [of _ s5]) (use F T A C s' in simp)
qed


lemma result_ok: "(case r of (Inr _, _) \<Rightarrow> True | _ \<Rightarrow> False) \<Longrightarrow> \<exists>x s. r = (Inr x, s)"
  by (cases r; cases "fst r") auto

theorem ToUser_complete_witness:
  "\<exists>i s'. ToUser demo_lib None demo_user 2 empty_mail ''x'' demo_store = (Inr i, s') \<and>
     length (tb_messages (st_db s')) = 3"
proof -
  have "(case ToUser demo_lib None demo_user 2 empty_mail ''x'' demo_store of (Inr _, _) \<Rightarrow> True | _ \<Rightarrow> False)" by code_simp
  from result_ok [OF this] obtain i s'
    where r: "ToUser demo_lib None demo_user 2 empty_mail ''x'' demo_store = (Inr i, s')" by (elim exE)
  have m: "tb_messages (st_db (NotifyInbox None u p x j c t)) = tb_messages (st_db t)" for u p x j c t
    by (simp add: NotifyInbox_def)
  from ToUser_complete [OF demo_ok r] obtain t m conv where t: "tb_messages (st_db t) = tb_messages demo_db @ [m]"
    "s' = (if 2 = FolderInbox then NotifyInbox None demo_user empty_mail ''x'' i conv t else t)"
    unfolding demo_simps by blast
  have "tb_messages (st_db s') = tb_messages demo_db @ [m]" unfolding t(2) using t(1) m by simp
  then have "length (tb_messages (st_db s')) = 3" by (simp add: demo_defs)
  then show ?thesis using r by blast
qed

section \<open>Mail that stays\<close>

text \<open>An account has a mail with a given \<open>Message-ID\<close>, whatever happened to it since.\<close>

definition has_mail :: "string \<Rightarrow> string \<Rightarrow> store \<Rightarrow> bool" where
  "has_mail uid mid s \<longleftrightarrow> list_ex (\<lambda>m. ms_user m = uid \<and> ms_msgid m = mid) (tb_messages (st_db s))"

text \<open>What a delivery does to the tables: rows are appended, and the path of a source is filled in. A
  statement about the tables that survives these steps survives a delivery.\<close>

locale delivery_inv =
  fixes P :: "db \<Rightarrow> bool"
  assumes attach: "P d \<Longrightarrow> P (d\<lparr>tb_attachments := as, sq_attachments := n\<rparr>)"
    and feed: "P d \<Longrightarrow> P (d\<lparr>tb_changes := cs, sq_changes := n\<rparr>)"
    and mail: "P d \<Longrightarrow> P (d\<lparr>tb_messages := tb_messages d @ [m], sq_messages := n\<rparr>)"
    and path: "P d \<Longrightarrow> P (upd_messages Q (\<lambda>r. r\<lparr>ms_raw_path := p\<rparr>) d)"
begin

lemma keeps_statement: "(\<And>d x d'. f d = Inr (x, d') \<Longrightarrow> P d \<Longrightarrow> P d') \<Longrightarrow> keeps (\<lambda>s :: store. P (st_db s)) (sql f)"
  by (auto simp: keeps_def sql_def split: sum.splits)

lemma keeps_put: "keeps (\<lambda>s :: store. P (st_db s)) (blobPut q b)"
  by (simp add: keeps_def blobPut_def)

lemma keeps_attachment: "keeps (\<lambda>s :: store. P (st_db s)) (InsertAttachment a)"
proof -
  have "keeps (\<lambda>s :: store. P (st_db s)) (sql (insert_attachment b))" for b
    by (rule keeps_statement) (auto simp: insert_attachment_def Let_def attach split: if_splits)
  then have "keeps (\<lambda>s :: store. P (st_db s)) (bindE (blobPut q x) (\<lambda>_. sql (insert_attachment b)))" for q x b
    by (intro keeps_bindE keeps_put)
  then show ?thesis by (simp add: keeps_def InsertAttachment_def Let_def)
qed

lemma keeps_change: "keeps (\<lambda>s :: store. P (st_db s)) (AddChange f k t i)"
  unfolding AddChange_def by (rule keeps_statement) (auto simp: insert_change_def Let_def feed split: if_splits)

lemma keeps_message: "keeps (\<lambda>s :: store. P (st_db s)) (InsertMessage m)"
proof (rule keepsI)
  fix s :: store assume s: "P (st_db s)"
  let ?m = "message_defaults (nowUnix s) m"
  have ins: "keeps (\<lambda>s :: store. P (st_db s)) (sql (insert_message ?m))"
    by (rule keeps_statement) (auto simp: insert_message_def Let_def mail split: if_splits)
  have upd: "keeps (\<lambda>s :: store. P (st_db s)) (exec (upd_messages Q (\<lambda>r. r\<lparr>ms_raw_path := q\<rparr>)))" for Q q
    unfolding exec_def by (rule keeps_statement) (auto simp: path)
  have "keeps (\<lambda>s :: store. P (st_db s)) (bindE (blobPut q b) (\<lambda>_. bindE (exec (upd_messages Q (\<lambda>r. r\<lparr>ms_raw_path := q\<rparr>))) (\<lambda>_. okE j)))"
    for q b Q and j :: int
    by (intro keeps_bindE keeps_put upd keeps_okE)
  note b = keepsD [OF this]
  have "keeps (\<lambda>s :: store. P (st_db s)) (bindE (sql (insert_message ?m)) (\<lambda>i.
       if ms_raw ?m = [] then okE i
       else (\<lambda>s. let path = blobKey (st_sum s) ''raw'' i ''mime.eml'' (ms_raw ?m) in
         bindE (blobPut path (ms_raw ?m)) (\<lambda>_.
         bindE (exec (upd_messages (\<lambda>r. ms_id r = i) (\<lambda>r. r\<lparr>ms_raw_path := path\<rparr>))) (\<lambda>_. okE i)) s)))"
    by (intro keeps_bindE ins keeps_if keeps_okE keepsI) (simp only: Let_def b)
  from keepsD [OF this s] show "P (st_db (snd (InsertMessage m s)))" using s by (simp add: InsertMessage_def Let_def)
qed

lemma keeps_delivery: "hook_keeps (\<lambda>s :: store. P (st_db s)) hook \<Longrightarrow> keeps (\<lambda>s :: store. P (st_db s)) (ToUser l hook u ft p raw)"
  by (rule ToUser_keeps) (simp_all add: keeps_message keeps_attachment keeps_change)

end

lemma list_ex_update: "(\<And>x. Q (f x) = Q x) \<Longrightarrow> list_ex Q (update_where P f xs) = list_ex Q xs"
  by (induction xs) simp_all

text \<open>A mail that an account has stays, and a delivery does not touch the accounts.\<close>

interpretation mail_stays: delivery_inv "\<lambda>d. list_ex (\<lambda>m. ms_user m = uid \<and> ms_msgid m = mid) (tb_messages d)" for uid mid
  by unfold_locales (auto simp: upd_messages_def list_ex_update)

interpretation accounts_stay: delivery_inv "\<lambda>d. tb_users d = us \<and> tb_aliases d = as" for us as
  by unfold_locales (auto simp: upd_messages_def)

lemma has_mail_ToUser: "hook_keeps (has_mail uid mid) hook \<Longrightarrow> keeps (has_mail uid mid) (ToUser l hook u ft p raw)"
  using mail_stays.keeps_delivery [of uid mid] by (simp add: has_mail_def [abs_def])

lemma ToUser_has_mail:
  assumes "store_ok s" "ToUser l hook u ft p raw s = (Inr i, s')" "hook_keeps (has_mail (us_id u) (pm_msgid p)) hook"
  shows "has_mail (us_id u) (pm_msgid p) s'"
proof -
  obtain f conv path now clock t where t: "tb_messages (st_db t) = tb_messages (st_db s) @
      [(message_defaults now (delivered l u f ft p raw conv clock))\<lparr>ms_id := i, ms_raw := [], ms_raw_path := path\<rparr>]"
    "s' = (if ft = FolderInbox then NotifyInbox hook u p raw i conv t else t)"
    using ToUser_complete [OF assms(1,2)] by blast
  have "has_mail (us_id u) (pm_msgid p) t" by (simp add: has_mail_def t(1) message_defaults_def delivered_def)
  then show ?thesis using NotifyInbox_keeps [OF assms(3)] t(2) by simp
qed

end
