(* ===== verification/Smtp.thy ===== *)
theory Smtp imports GoLib begin

text \<open>
  \<open>internal/smtp\<close>: the client that hands mail to the relay. What the relay and the network answer
  is the record \<open>smtp_peer\<close>: one field per step of the exchange, \<open>Some\<close> with the text of the error
  when the step fails. Besides the error, \<open>Send\<close> gives the envelopes that the relay has accepted,
  which is what the queue and the submission server reason about. Durations are nanoseconds.
\<close>

(* src: internal/smtp/smtp.go 17-25 Config *)
record smtp_config =
  sc_host :: string
  sc_port :: int
  sc_user :: string
  sc_pass :: string
  sc_from :: string
  sc_domains :: "string list"

record smtp_peer =
  pe_dial :: "string option"
  pe_greet :: "string option"
  pe_offers_tls :: bool
  pe_tls :: "string option"
  pe_auth :: "string \<Rightarrow> string option"
  pe_mail :: "string \<Rightarrow> string option"
  pe_rcpt :: "string \<Rightarrow> string option"
  pe_data :: "string option"
  pe_write :: "string option"
  pe_close :: "string option"
  pe_quit :: "string option"

(* src: internal/smtp/smtp.go 27-33 Sender *)
record sender =
  se_config :: "smtp_config option"
  se_timeout :: int

definition empty_config :: smtp_config where
  "empty_config = \<lparr>sc_host = [], sc_port = 0, sc_user = [], sc_pass = [], sc_from = [], sc_domains = []\<rparr>"

text \<open>A nil sender is \<open>None\<close>, a nil provider is a sender without a configuration.\<close>

(* src: internal/smtp/smtp.go 35-40 Sender.current *)
definition current :: "sender option \<Rightarrow> smtp_config" where
  "current s = (case s of None \<Rightarrow> empty_config
     | Some x \<Rightarrow> (case se_config x of None \<Rightarrow> empty_config | Some cfg \<Rightarrow> cfg))"

(* src: internal/smtp/smtp.go 42-46 Sender.Enabled *)
definition Enabled :: "sender option \<Rightarrow> bool" where
  "Enabled s \<longleftrightarrow> sc_host (current s) \<noteq> [] \<and> sc_pass (current s) \<noteq> []"

(* src: internal/smtp/smtp.go 62-74 ownsDomain *)
definition ownsDomain :: "string list \<Rightarrow> string \<Rightarrow> bool" where
  "ownsDomain domains email = (case last_index_byte email CHR ''@'' of
     None \<Rightarrow> False
   | Some at \<Rightarrow> list_ex (\<lambda>d. equal_fold d (to_lower (drop (at + 1) email))) domains)"

(* src: internal/smtp/smtp.go 48-60 Sender.EnvelopeFrom *)
definition EnvelopeFrom :: "sender option \<Rightarrow> string \<Rightarrow> string" where
  "EnvelopeFrom s userEmail =
    (let cfg = current s in
     if userEmail \<noteq> [] \<and> (sc_domains cfg = [] \<or> ownsDomain (sc_domains cfg) userEmail) then userEmail
     else if sc_from cfg \<noteq> [] then sc_from cfg else userEmail)"

text \<open>\<open>net.JoinHostPort\<close>.\<close>

definition join_host_port :: "string \<Rightarrow> int \<Rightarrow> string" where
  "join_host_port host port =
    (if contains_byte host CHR '':'' then ''['' @ host @ '']:'' @ itoa port else host @ '':'' @ itoa port)"

(* src: internal/smtp/smtp.go 168-179 plainAuth *)
definition plainAuth :: "string \<Rightarrow> string \<Rightarrow> string" where
  "plainAuth user pass = [CHR 0x00] @ user @ [CHR 0x00] @ pass"

fun first_rcpt_error :: "smtp_peer \<Rightarrow> string list \<Rightarrow> string option" where
  "first_rcpt_error p [] = None"
| "first_rcpt_error p (r # rs) = (case pe_rcpt p r of
     Some e \<Rightarrow> Some (''smtp: rcpt '' @ r @ '': '' @ e) | None \<Rightarrow> first_rcpt_error p rs)"

type_synonym envelope = "string \<times> string list \<times> string"

(* src: internal/smtp/smtp.go 124-165 Sender.Send *)
definition smtp_exchange :: "smtp_config \<Rightarrow> int \<Rightarrow> smtp_peer \<Rightarrow> string \<Rightarrow> string list \<Rightarrow> string \<Rightarrow> string option \<times> envelope list" where
  "smtp_exchange cfg port p from rcpts raw =
    (case pe_greet p of Some e \<Rightarrow> (Some (''smtp: greeting: '' @ e), []) | None \<Rightarrow>
     if port \<noteq> 465 \<and> \<not> pe_offers_tls p then (Some ''smtp: server does not support STARTTLS'', [])
     else case (if port \<noteq> 465 then pe_tls p else None) of Some e \<Rightarrow> (Some (''smtp: starttls: '' @ e), []) | None \<Rightarrow>
     case (if sc_user cfg \<noteq> [] then pe_auth p (plainAuth (sc_user cfg) (sc_pass cfg)) else None) of
       Some e \<Rightarrow> (Some (''smtp: auth: '' @ e), []) | None \<Rightarrow>
     case pe_mail p from of Some e \<Rightarrow> (Some (''smtp: mail from: '' @ e), []) | None \<Rightarrow>
     case first_rcpt_error p rcpts of Some e \<Rightarrow> (Some e, []) | None \<Rightarrow>
     case pe_data p of Some e \<Rightarrow> (Some (''smtp: data: '' @ e), []) | None \<Rightarrow>
     case pe_write p of Some e \<Rightarrow> (Some (''smtp: write: '' @ e), []) | None \<Rightarrow>
     case pe_close p of Some e \<Rightarrow> (Some (''smtp: finish: '' @ e), []) | None \<Rightarrow>
     (map_option (\<lambda>e. ''smtp: quit: '' @ e) (pe_quit p), [(from, rcpts, raw)]))"

text \<open>\<open>remaining\<close> is the time to the deadline of the context, if it has one.\<close>

(* src: internal/smtp/smtp.go 76-166 Sender.Send *)
definition SmtpSend :: "sender option \<Rightarrow> int option \<Rightarrow> smtp_peer \<Rightarrow> string \<Rightarrow> string list \<Rightarrow> string \<Rightarrow> string option \<times> envelope list" where
  "SmtpSend s remaining p from rcpts raw =
    (let cfg = current s;
         port = (if sc_port cfg = 0 then 465 else sc_port cfg);
         t0 = (case s of None \<Rightarrow> 0 | Some x \<Rightarrow> se_timeout x);
         t1 = (if t0 = 0 then 60 * 10 ^ 9 else t0);
         timeout = (case remaining of Some r \<Rightarrow> min r t1 | None \<Rightarrow> t1) in
     if sc_host cfg = [] \<or> sc_pass cfg = [] then (Some ''smtp: not configured'', [])
     else if rcpts = [] then (Some ''smtp: no recipients'', [])
     else if timeout \<le> 0 then (Some ''context deadline exceeded'', [])
     else case pe_dial p of
       Some e \<Rightarrow> (Some (''smtp: dial '' @ join_host_port (sc_host cfg) port @ '': '' @ e), [])
     | None \<Rightarrow> smtp_exchange cfg port p from rcpts raw)"

section \<open>Properties\<close>

lemma exchange_accepted:
  "smtp_exchange cfg port p from rcpts raw = (r, acc) \<Longrightarrow> acc = [] \<or> acc = [(from, rcpts, raw)]"
  "smtp_exchange cfg port p from rcpts raw = (None, acc) \<Longrightarrow> acc = [(from, rcpts, raw)]"
  by (auto simp: smtp_exchange_def split: option.splits if_splits)

lemma SmtpSend_accepted: "SmtpSend s remaining p from rcpts raw = (None, acc) \<Longrightarrow> acc = [(from, rcpts, raw)]"
  by (auto simp: SmtpSend_def Let_def exchange_accepted(2) split: if_splits option.splits)

text \<open>A mail is handed over at most once by a call, and exactly once when the call returns no error:
  then the relay has accepted this envelope for all recipients. Without a configuration nothing
  is sent, and over a port without implicit TLS nothing is sent before \<open>STARTTLS\<close>.\<close>

theorem SmtpSend_once:
  assumes "SmtpSend s remaining p from rcpts raw = (r, acc)"
  shows "(acc = [] \<or> acc = [(from, rcpts, raw)]) \<and> (r = None \<longrightarrow> acc = [(from, rcpts, raw)]) \<and>
    (acc \<noteq> [] \<longrightarrow> Enabled s \<and> rcpts \<noteq> [] \<and> (sc_port (current s) \<in> {0, 465} \<or> pe_offers_tls p \<and> pe_tls p = None))"
proof -
  have x: "acc \<noteq> [] \<Longrightarrow> smtp_exchange cfg port p from rcpts raw = (r, acc) \<Longrightarrow> port = 465 \<or> pe_offers_tls p \<and> pe_tls p = None"
    for cfg port by (auto simp: smtp_exchange_def split: option.splits if_splits)
  show ?thesis
    using assms x exchange_accepted [of _ _ p "from" rcpts raw]
    by (simp add: SmtpSend_def Let_def Enabled_def split: if_splits option.splits) metis+
qed

definition demo_peer :: smtp_peer where
  "demo_peer = \<lparr>pe_dial = None, pe_greet = None, pe_offers_tls = True, pe_tls = None, pe_auth = (\<lambda>_. None),
     pe_mail = (\<lambda>_. None), pe_rcpt = (\<lambda>_. None), pe_data = None, pe_write = None, pe_close = None, pe_quit = None\<rparr>"

definition demo_sender :: "sender option" where
  "demo_sender = Some \<lparr>se_config = Some \<lparr>sc_host = ''relay'', sc_port = 0, sc_user = [], sc_pass = ''x'',
     sc_from = [], sc_domains = []\<rparr>, se_timeout = 0\<rparr>"

lemma demo_send: "SmtpSend demo_sender None demo_peer from [r] raw = (None, [(from, [r], raw)])"
  by (simp add: SmtpSend_def demo_sender_def demo_peer_def current_def Let_def smtp_exchange_def)

theorem SmtpSend_once_witness: "Enabled demo_sender \<and> [''r''] \<noteq> []"
  using SmtpSend_once [OF demo_send [of "''f''" "''r''" "''m''"]] by simp

text \<open>The sender of an envelope is on a domain that the relay knows, whenever domains and a default
  sender are configured: an address elsewhere is replaced by the default sender.\<close>

theorem EnvelopeFrom_owned:
  assumes "sc_domains (current s) \<noteq> []" "ownsDomain (sc_domains (current s)) (sc_from (current s))" "sc_from (current s) \<noteq> []"
  shows "ownsDomain (sc_domains (current s)) (EnvelopeFrom s addr)"
  using assms by (simp add: EnvelopeFrom_def Let_def)

theorem EnvelopeFrom_owned_witness:
  "EnvelopeFrom (Some \<lparr>se_config = Some \<lparr>sc_host = [], sc_port = 0, sc_user = [], sc_pass = [], sc_from = ''a@x'',
     sc_domains = [''X'']\<rparr>, se_timeout = 0\<rparr>) ''b@y'' = ''a@x'' \<and>
   ownsDomain [''X''] (EnvelopeFrom (Some \<lparr>se_config = Some \<lparr>sc_host = [], sc_port = 0, sc_user = [], sc_pass = [],
     sc_from = ''a@x'', sc_domains = [''X'']\<rparr>, se_timeout = 0\<rparr>) ''b@y'')"
proof -
  have o: "ownsDomain [''X''] ''a@x''" by code_simp
  let ?s = "Some \<lparr>se_config = Some \<lparr>sc_host = [], sc_port = 0, sc_user = [], sc_pass = [], sc_from = ''a@x'',
     sc_domains = [''X'']\<rparr>, se_timeout = 0\<rparr>"
  have "EnvelopeFrom ?s ''b@y'' = ''a@x''" by code_simp
  then show ?thesis using EnvelopeFrom_owned [of ?s "''b@y''"] o by (simp add: current_def)
qed

lemma exchange_quit:
  assumes "smtp_exchange cfg port p from rcpts raw = (None, acc)"
  shows "smtp_exchange cfg port (p\<lparr>pe_quit := Some e\<rparr>) from rcpts raw = (Some (''smtp: quit: '' @ e), [(from, rcpts, raw)])"
proof -
  have r: "first_rcpt_error (p\<lparr>pe_quit := Some e\<rparr>) rs = first_rcpt_error p rs" for rs
    by (induction rs) (simp_all split: option.split)
  show ?thesis using assms by (simp add: smtp_exchange_def r split: if_splits option.splits)
qed

text \<open>A relay that accepts the mail and then fails to say goodbye makes the call an error, so the
  caller queues a mail that has been sent: the recipients get it twice.\<close>

theorem quit_error_after_accept:
  assumes "SmtpSend s remaining p from rcpts raw = (None, acc)"
  shows "SmtpSend s remaining (p\<lparr>pe_quit := Some e\<rparr>) from rcpts raw = (Some (''smtp: quit: '' @ e), [(from, rcpts, raw)])"
  using assms by (simp add: SmtpSend_def Let_def exchange_quit split: if_split_asm option.split_asm)

theorem quit_error_after_accept_witness:
  "SmtpSend demo_sender None (demo_peer\<lparr>pe_quit := Some ''EOF''\<rparr>) ''f'' [''r''] ''m'' =
     (Some (''smtp: quit: '' @ ''EOF''), [(''f'', [''r''], ''m'')])"
  by (rule quit_error_after_accept [OF demo_send])

end
