(* ===== verification/Handover.thy ===== *)
theory Handover imports Deliver Smtp Outbound StoreAddresses begin

text \<open>
  What the ways into and out of the server share: a mail is handed to the relay and, when that
  fails, to the queue; a recipient is an account or an outside address. \<open>send_log\<close> records the
  calls of the relay: the error of each and the envelopes that were accepted.
\<close>

section \<open>Relay or queue\<close>

type_synonym send_log = "(string option \<times> envelope list) list"

text \<open>\<open>Sender.Send\<close> and, when it fails, \<open>outbound.Enqueue\<close>; false when the mail found no place.\<close>

(* src: internal/submission/server.go 201-215 Server.handle *)
definition send_or_queue :: "sender option \<Rightarrow> (nat \<Rightarrow> smtp_peer) \<Rightarrow> string \<Rightarrow> string list \<Rightarrow> string \<Rightarrow> store \<Rightarrow> send_log \<Rightarrow>
    bool \<times> store \<times> send_log" where
  "send_or_queue sender peer from external raw s log =
    (let r = SmtpSend sender None (peer (length log)) from external raw; log1 = log @ [r] in
     if fst r = None then (True, s, log1)
     else (case Enqueue from external raw s of (Inl _, s1) \<Rightarrow> (False, s1, log1) | (Inr _, s1) \<Rightarrow> (True, s1, log1)))"

lemma SmtpSend_shape: "SmtpSend s remaining p from rcpts raw = (r, acc) \<Longrightarrow> acc = [] \<or> acc = [(from, rcpts, raw)]"
  by (auto simp: SmtpSend_def Let_def exchange_accepted(1) split: if_splits option.splits)

lemma Enqueue_Inr:
  assumes "Enqueue from rcpts raw s = (Inr i, s')"
  shows "tb_messages (st_db s') = tb_messages (st_db s) \<and> (\<exists>row m. row \<in> set (tb_outbox (st_db s')) \<and> ob_from row = from \<and>
    ob_recipients row = join '','' rcpts \<and> st_blobs s' = Some m \<and> m (ob_raw_path row) = Some raw)"
proof -
  define r where "r = \<lparr>ob_id = 0, ob_from = from, ob_recipients = join '','' rcpts, ob_raw_path = [], ob_attempts = 0,
    ob_last_error = [], ob_next_attempt = 0, ob_failed = False, ob_created = nowUnix s\<rparr>"
  obtain t bl where t: "sql (insert_outbox r) s = (Inr i, t)" and bl: "st_blobs s = Some bl"
    and e: "bindE (blobPut (blobKey (st_sum t) ''out'' i ''mime.eml'' raw) raw) (\<lambda>_.
       bindE (exec (upd_outbox i (\<lambda>r. r\<lparr>ob_raw_path := blobKey (st_sum t) ''out'' i ''mime.eml'' raw\<rparr>))) (\<lambda>_. okE i)) t = (Inr i, s')"
    using assms unfolding Enqueue_def EnqueueOutbound_def r_def [symmetric]
    by (auto simp: bindE_Inr_iff [of "sql _"] Let_def exec_Inr_iff bindE_Inr_iff split: if_splits)
  let ?p = "blobKey (st_sum t) ''out'' i ''mime.eml'' raw"
  have d: "st_db t = (st_db s)\<lparr>tb_outbox := tb_outbox (st_db s) @ [r\<lparr>ob_id := i\<rparr>], sq_outbox := i\<rparr>" "st_blobs t = Some bl"
    using t bl by (auto simp: sql_Inr_iff insert_outbox_def Let_def)
  have f: "st_db s' = upd_outbox i (\<lambda>r. r\<lparr>ob_raw_path := ?p\<rparr>) (st_db t)" "st_blobs s' = Some (bl(?p \<mapsto> raw))"
    using e d(2) by (auto simp: bindE_Inr_iff exec_Inr_iff blobPut_def split: if_splits)
  have "(r\<lparr>ob_id := i\<rparr>)\<lparr>ob_raw_path := ?p\<rparr> \<in> set (tb_outbox (st_db s'))"
    using f(1) d(1) by (simp add: upd_outbox_def update_where_append)
  then show ?thesis using f d(1)
    by (intro conjI exI [of _ "(r\<lparr>ob_id := i\<rparr>)\<lparr>ob_raw_path := ?p\<rparr>"] exI [of _ "bl(?p \<mapsto> raw)"])
      (simp_all add: upd_outbox_def r_def)
qed

text \<open>Where a mail is once it was handed over: on an envelope the relay has accepted, or in the queue.\<close>

definition handed_over :: "string \<Rightarrow> string list \<Rightarrow> string \<Rightarrow> send_log \<Rightarrow> send_log \<Rightarrow> store \<Rightarrow> bool" where
  "handed_over from external raw log log' s' \<longleftrightarrow> (\<exists>err. log' = log @ [(err, [(from, external, raw)])]) \<or>
    (\<exists>row m. row \<in> set (tb_outbox (st_db s')) \<and> ob_from row = from \<and>
      ob_recipients row = join '','' external \<and> st_blobs s' = Some m \<and> m (ob_raw_path row) = Some raw)"

lemma send_or_queue_True:
  assumes "send_or_queue sender peer from external raw s log = (True, s', log')"
  shows "tb_messages (st_db s') = tb_messages (st_db s) \<and> handed_over from external raw log log' s'"
proof -
  obtain err acc where r: "SmtpSend sender None (peer (length log)) from external raw = (err, acc)"
    by (cases "SmtpSend sender None (peer (length log)) from external raw")
  show ?thesis
  proof (cases err)
    case None
    then show ?thesis using assms r SmtpSend_accepted by (auto simp: send_or_queue_def Let_def handed_over_def)
  next
    case (Some e)
    then obtain i where "Enqueue from external raw s = (Inr i, s')"
      using assms r by (auto simp: send_or_queue_def Let_def split: sum.splits prod.splits)
    then show ?thesis unfolding handed_over_def using Enqueue_Inr by blast
  qed
qed

lemma send_or_queue_ok:
  "store_ok s \<Longrightarrow> send_or_queue sender peer from external raw s log = (b, s', log') \<Longrightarrow> store_ok s'"
  using keepsD_eq [OF keeps_EnqueueOutbound, of s "from" external raw]
  by (auto simp: send_or_queue_def Enqueue_def Let_def split: if_splits sum.splits prod.splits)

section \<open>Who a recipient is\<close>

definition alias_users :: "db \<Rightarrow> string \<Rightarrow> user list" where
  "alias_users d addr = concat (map (\<lambda>a. map (user_view d) (filter (\<lambda>u. us_id u = al_user a) (tb_users d)))
     (filter (\<lambda>a. al_address a = addr) (tb_aliases d)))"

text \<open>The account of an address, by the tables alone.\<close>

definition account_of :: "db \<Rightarrow> string \<Rightarrow> user option" where
  "account_of d address =
    (let addr = normalizeEmail address in
     case (if addr = [] then [] else alias_users d addr) of
       u # _ \<Rightarrow> Some u
     | [] \<Rightarrow> (case last_index_byte addr CHR ''@'' of
          None \<Rightarrow> None
        | Some at \<Rightarrow> (case index_byte (take at addr) CHR ''+'' of
             None \<Rightarrow> None
           | Some i \<Rightarrow> if at = 0 \<or> i = 0 \<or> addr = [] then None
               else (case alias_users d (take i (take at addr) @ drop at addr) of u # _ \<Rightarrow> Some u | [] \<Rightarrow> None))))"

lemma userByAlias_cases:
  "userByAlias a s = (Inr u, s') \<Longrightarrow> (\<exists>us. alias_users (st_db s) a = u # us) \<and> st_db s' = st_db s"
  "userByAlias a s = (Inl ErrNotFound, s') \<Longrightarrow> alias_users (st_db s) a = [] \<and> st_db s' = st_db s"
  by (auto simp: userByAlias_def alias_users_def get_row_def sql_def split: if_splits list.splits sum.splits prod.splits)

lemma UserByAddress_Inr:
  assumes "UserByAddress a s = (Inr u, s')"
  shows "account_of (st_db s) a = Some u \<and> st_db s' = st_db s"
proof -
  let ?a = "normalizeEmail a"
  have ne: "?a \<noteq> []" using assms by (auto simp: UserByAddress_def Let_def)
  obtain r s1 where r: "userByAlias ?a s = (r, s1)" by (cases "userByAlias ?a s")
  show ?thesis
  proof (cases r)
    case (Inr v)
    then show ?thesis using assms r ne userByAlias_cases(1) [of ?a s v s1]
      by (auto simp: UserByAddress_def account_of_def Let_def)
  next
    case (Inl e)
    then have e: "e = ErrNotFound" using assms r ne by (auto simp: UserByAddress_def Let_def split: if_splits)
    note none = userByAlias_cases(2) [of ?a s s1]
    obtain at i where x: "last_index_byte ?a CHR ''@'' = Some at" "at \<noteq> 0" "index_byte (take at ?a) CHR ''+'' = Some i" "i > 0"
      "userByAlias (take i (take at ?a) @ drop at ?a) s1 = (Inr u, s')"
      using assms r ne Inl e by (auto simp: UserByAddress_def Let_def split: option.splits if_splits)
    show ?thesis using x none userByAlias_cases(1) [OF x(5)] r Inl e ne by (auto simp: account_of_def Let_def)
  qed
qed

lemma UserByAddress_db: "st_db (snd (UserByAddress a s)) = st_db s"
proof -
  have a: "st_db (snd (userByAlias x t)) = st_db t" for x t by (simp add: userByAlias_def)
  show ?thesis
  proof (cases "userByAlias (normalizeEmail a) s")
    case (Pair r t)
    then have "st_db t = st_db s" using a [of "normalizeEmail a" s] by simp
    then show ?thesis using Pair a by (auto simp: UserByAddress_def Let_def split: sum.split option.split)
  qed
qed

definition accounts_are :: "user list \<Rightarrow> mail_alias list \<Rightarrow> store \<Rightarrow> bool" where
  "accounts_are us as s \<longleftrightarrow> tb_users (st_db s) = us \<and> tb_aliases (st_db s) = as"

lemma account_of_same:
  "tb_users d = tb_users d' \<Longrightarrow> tb_aliases d = tb_aliases d' \<Longrightarrow> account_of d a = account_of d' a"
proof -
  assume t: "tb_users d = tb_users d'" "tb_aliases d = tb_aliases d'"
  have "user_view d = user_view d'" using t by (simp add: user_view_def fun_eq_iff primary_address_def)
  then have "alias_users d = alias_users d'" using t by (intro ext) (simp add: alias_users_def)
  then show ?thesis by (simp only: account_of_def)
qed

section \<open>The hook of deliveries\<close>

text \<open>The hook of deliveries keeps the tables consistent, takes no mail away and leaves the accounts.\<close>

definition good_hook :: "inbox_hook option \<Rightarrow> bool" where
  "good_hook hook \<longleftrightarrow> hook_keeps store_ok hook \<and> (\<forall>uid mid. hook_keeps (has_mail uid mid) hook) \<and>
     (\<forall>us as. hook_keeps (accounts_are us as) hook)"

lemma good_hook_None: "good_hook None"
  by (simp add: good_hook_def hook_keeps_def)

lemma delivery_accounts: "good_hook hook \<Longrightarrow> keeps (accounts_are us as) (ToUser l hook u ft p raw)"
  using accounts_stay.keeps_delivery [of us as] by (simp add: good_hook_def accounts_are_def [abs_def])

lemma MessageIDExists_True:
  assumes "MessageIDExists uid mid s = (Inr b, s')"
  shows "st_db s' = st_db s \<and> (b \<longrightarrow> has_mail uid mid s)"
proof (cases "mid = []")
  case False
  then have "b \<longleftrightarrow> filter (\<lambda>m. ms_user m = uid \<and> ms_msgid m = mid) (tb_messages (st_db s)) \<noteq> []" "st_db s' = st_db s"
    using assms by (auto simp: MessageIDExists_def getAll_Inr_iff)
  then show ?thesis by (auto simp: has_mail_def list_ex_iff filter_empty_conv)
qed (use assms in \<open>auto simp: MessageIDExists_def\<close>)

lemma MessageIDExists_db: "st_db (snd (MessageIDExists uid mid s)) = st_db s"
  by (simp add: MessageIDExists_def getAll_def sql_def)

section \<open>One delivery\<close>

text \<open>A mail goes into the inbox of an account unless the account has it already.\<close>

(* src: internal/submission/server.go 247-255 Server.deliverLocal *)
definition deliver_once :: "mail_lib \<Rightarrow> inbox_hook option \<Rightarrow> user \<Rightarrow> parsed_mail \<Rightarrow> string \<Rightarrow> (store, unit) op" where
  "deliver_once l hook u p raw s =
    (case (if pm_msgid p \<noteq> [] then MessageIDExists (us_id u) (pm_msgid p) s else (Inr False, s)) of
       (Inr True, s1) \<Rightarrow> (Inr (), s1)
     | (_, s1) \<Rightarrow> bindE (ToUser l hook u FolderInbox p raw) (\<lambda>_. okE ()) s1)"

lemma deliver_once_cases:
  assumes "deliver_once l hook u p raw s = (r, s')"
  obtains (there) "r = Inr ()" "st_db s' = st_db s" "has_mail (us_id u) (pm_msgid p) s"
  | (stored) s1 q where "st_db s1 = st_db s" "ToUser l hook u FolderInbox p raw s1 = (q, s')" "(\<exists>e. r = Inl e) \<longleftrightarrow> (\<exists>e. q = Inl e)"
proof -
  define ex where "ex = (if pm_msgid p \<noteq> [] then MessageIDExists (us_id u) (pm_msgid p) s else (Inr False, s))"
  obtain b s1 where b: "ex = (b, s1)" by (cases ex)
  have s1: "st_db s1 = st_db s"
    using b MessageIDExists_db [of "us_id u" "pm_msgid p" s] by (auto simp: ex_def split: if_splits)
  have d: "(r, s') = (case (b, s1) of (Inr True, s1) \<Rightarrow> (Inr (), s1)
      | (_, s1) \<Rightarrow> bindE (ToUser l hook u FolderInbox p raw) (\<lambda>_. okE ()) s1)"
    using assms b by (simp add: deliver_once_def ex_def)
  show thesis
  proof (cases "b = Inr True")
    case True
    then have "has_mail (us_id u) (pm_msgid p) s"
      using b MessageIDExists_True [of "us_id u" "pm_msgid p" s True s1] by (auto simp: ex_def split: if_splits)
    then show thesis using there d True s1 by simp
  next
    case False
    obtain q s2 where q: "ToUser l hook u FolderInbox p raw s1 = (q, s2)" by (cases "ToUser l hook u FolderInbox p raw s1")
    have "(r, s') = bindE (ToUser l hook u FolderInbox p raw) (\<lambda>_. okE ()) s1"
      using d False by (auto split: sum.splits bool.splits)
    then have "s' = s2" "(\<exists>e. r = Inl e) \<longleftrightarrow> (\<exists>e. q = Inl e)" using q by (cases q; simp)+
    then show thesis using stored [OF s1] q by simp
  qed
qed

lemma deliver_once_keeps:
  assumes "of_tables I" "keeps I (ToUser l hook u FolderInbox p raw)" shows "keeps I (deliver_once l hook u p raw)"
proof (rule keepsI)
  fix s assume "I s"
  obtain r s' where r: "deliver_once l hook u p raw s = (r, s')" by (cases "deliver_once l hook u p raw s")
  from r show "I (snd (deliver_once l hook u p raw s))"
  proof (cases rule: deliver_once_cases)
    case there
    then show ?thesis using r of_tablesD [OF assms(1) there(2) \<open>I s\<close>] by simp
  next
    case (stored s1 q)
    from keepsD [OF assms(2) of_tablesD [OF assms(1) stored(1) \<open>I s\<close>]] show ?thesis using r stored(2) by simp
  qed
qed

lemma deliver_once_covers:
  assumes "deliver_once l hook u p raw s = (Inr (), s')" "store_ok s" "good_hook hook"
  shows "has_mail (us_id u) (pm_msgid p) s'"
  using assms(1)
proof (cases rule: deliver_once_cases)
  case there
  then show ?thesis by (simp add: has_mail_def)
next
  case (stored s1 q)
  then obtain i where "q = Inr i" by (cases q) auto
  then have t: "ToUser l hook u FolderInbox p raw s1 = (Inr i, s')" using stored(2) by simp
  have "store_ok s1" using stored(1) assms(2) by (simp add: store_ok_def)
  from ToUser_has_mail [OF this t] show ?thesis using assms(3) by (simp add: good_hook_def)
qed

text \<open>What deliveries leave: a relation of the tables before and after that composes.\<close>

definition mail_grows :: "store \<Rightarrow> store \<Rightarrow> bool" where
  "mail_grows s s' \<longleftrightarrow> (store_ok s \<longrightarrow> store_ok s') \<and> (\<forall>us as. accounts_are us as s \<longrightarrow> accounts_are us as s') \<and>
     (\<forall>uid mid. has_mail uid mid s \<longrightarrow> has_mail uid mid s')"

lemma mail_grows_refl [simp]: "mail_grows s s"
  by (simp add: mail_grows_def)

lemma mail_grows_trans [trans]: "mail_grows s t \<Longrightarrow> mail_grows t u \<Longrightarrow> mail_grows s u"
  by (simp add: mail_grows_def)

lemma mail_grows_db: "st_db s' = st_db s \<Longrightarrow> mail_grows s s'"
  by (simp add: mail_grows_def store_ok_def accounts_are_def has_mail_def)

lemma mail_grows_account: "mail_grows s s' \<Longrightarrow> account_of (st_db s') a = account_of (st_db s) a"
proof -
  assume "mail_grows s s'"
  then have "accounts_are (tb_users (st_db s)) (tb_aliases (st_db s)) s'" by (auto simp: mail_grows_def accounts_are_def)
  then show ?thesis by (intro account_of_same) (simp_all add: accounts_are_def)
qed

lemma mail_grows_ToUser:
  assumes "good_hook hook" "ToUser l hook u ft p raw s = (r, s')"
  shows "mail_grows s s'"
proof -
  have h: "hook_keeps store_ok hook" "hook_keeps (has_mail uid mid) hook" for uid mid
    using assms(1) by (auto simp: good_hook_def)
  show ?thesis unfolding mail_grows_def
    using keepsD_eq [OF keeps_ToUser [OF h(1)] _ assms(2)] keepsD_eq [OF delivery_accounts [OF assms(1)] _ assms(2)]
      keepsD_eq [OF has_mail_ToUser [OF h(2)] _ assms(2)] by blast
qed

lemma mail_grows_once: "good_hook hook \<Longrightarrow> deliver_once l hook u p raw s = (r, s') \<Longrightarrow> mail_grows s s'"
proof -
  assume h: "good_hook hook" "deliver_once l hook u p raw s = (r, s')"
  from h(2) show "mail_grows s s'"
  proof (cases rule: deliver_once_cases)
    case there
    then show ?thesis by (simp add: mail_grows_db)
  next
    case (stored s1 q)
    from mail_grows_trans [OF mail_grows_db [OF stored(1)] mail_grows_ToUser [OF h(1) stored(2)]] show ?thesis .
  qed
qed

lemma mail_grows_UserByAddress: "UserByAddress a s = (r, s') \<Longrightarrow> mail_grows s s'"
  using UserByAddress_db [of a s] by (intro mail_grows_db) simp

lemma EnqueueOutbound_tables:
  "EnqueueOutbound from rcpts raw s = (r, s') \<Longrightarrow> tb_messages (st_db s') = tb_messages (st_db s) \<and>
     tb_users (st_db s') = tb_users (st_db s) \<and> tb_aliases (st_db s') = tb_aliases (st_db s)"
  by (auto simp: EnqueueOutbound_def bindE_def sql_def exec_def insert_outbox_def upd_outbox_def blobPut_def Let_def
      split: if_splits prod.splits sum.splits option.splits)

lemma mail_grows_handover:
  assumes "send_or_queue sender peer from external raw s log = (b, s', log')" shows "mail_grows s s'"
proof -
  obtain q t where q: "EnqueueOutbound from external raw s = (q, t)" by (cases "EnqueueOutbound from external raw s")
  have "s' = s \<or> s' = t"
    using assms q by (auto simp: send_or_queue_def Enqueue_def Let_def split: if_splits sum.splits)
  then have "tb_messages (st_db s') = tb_messages (st_db s) \<and> tb_users (st_db s') = tb_users (st_db s) \<and>
      tb_aliases (st_db s') = tb_aliases (st_db s)" using EnqueueOutbound_tables [OF q] by auto
  then show ?thesis using send_or_queue_ok [OF _ assms] by (simp add: mail_grows_def accounts_are_def has_mail_def)
qed

end
