(* ===== verification/Submission.thy ===== *)
theory Submission imports Handover AuthLimit EasData begin

text \<open>
  Package \<open>internal/submission\<close>: the SMTP server for the mail programs of the accounts. A connection
  is a record with its two streams, as in \<open>net/textproto\<close>; \<open>sb_in\<close> is what the client still sends
  before it closes, \<open>sb_writes\<close> how many more lines it takes. \<open>smtp_step\<close> is one round of the loop
  of \<open>handle\<close>. The MIME reader, bcrypt, the hook of deliveries and the answers of the relay are
  parameters; the log is not modelled.
\<close>

section \<open>The connection\<close>

text \<open>The states of \<open>textproto.Reader.DotReader\<close>.\<close>

datatype dot_state = BeginLine | Dot | DotCR | SawCR | InData | DotEOF

(* src: internal/submission/server.go 80-88 Server.handle *)
record smtp_conn =
  sb_user :: "user option"
  sb_from :: string
  sb_rcpts :: "string list"
  sb_in :: string
  sb_out :: string
  sb_writes :: "nat option"
  sb_dot :: "dot_state option"
  sb_remote :: string

definition print_line :: "string \<Rightarrow> smtp_conn \<Rightarrow> bool \<times> smtp_conn" where
  "print_line line c =
    (if sb_writes c = Some 0 then (False, c)
     else (True, c\<lparr>sb_out := sb_out c @ line @ [CHR 0x0D, CHR 0x0A], sb_writes := map_option (\<lambda>n. n - 1) (sb_writes c)\<rparr>))"

text \<open>\<open>_ = tp.PrintfLine(...)\<close>\<close>

definition reply :: "string \<Rightarrow> smtp_conn \<Rightarrow> smtp_conn" where
  "reply line c = snd (print_line line c)"

text \<open>The dot reader: the text of a mail with its lines ended by a line feed, until the line that
  holds a single dot. A byte that is put back is one that is not consumed. At most \<open>n\<close> bytes are
  read; the result is the text, the state reached and what is left of the stream; \<open>None\<close> for the
  state: the stream ended.\<close>

definition emit :: "char \<Rightarrow> string \<times> 'a \<Rightarrow> string \<times> 'a" where
  "emit b r = (case r of (t, x) \<Rightarrow> (b # t, x))"

function dot_read :: "nat \<Rightarrow> dot_state \<Rightarrow> string \<Rightarrow> string \<times> dot_state option \<times> string" where
  "dot_read n st inp =
    (if n = 0 \<or> st = DotEOF then ([], Some st, inp)
     else (case inp of [] \<Rightarrow> ([], None, [])
       | c # rest \<Rightarrow>
          (case st of
             BeginLine \<Rightarrow> if c = CHR ''.'' then dot_read n Dot rest
                else if c = CHR 0x0D then dot_read n SawCR rest else emit c (dot_read (n - 1) InData rest)
           | Dot \<Rightarrow> if c = CHR 0x0D then dot_read n DotCR rest
                else if c = CHR 0x0A then dot_read n DotEOF rest else emit c (dot_read (n - 1) InData rest)
           | DotCR \<Rightarrow> if c = CHR 0x0A then dot_read n DotEOF rest else emit (CHR 0x0D) (dot_read (n - 1) InData inp)
           | SawCR \<Rightarrow> if c = CHR 0x0A then emit c (dot_read (n - 1) BeginLine rest)
                else emit (CHR 0x0D) (dot_read (n - 1) InData inp)
           | InData \<Rightarrow> if c = CHR 0x0D then dot_read n SawCR rest
                else if c = CHR 0x0A then emit c (dot_read (n - 1) BeginLine rest)
                else emit c (dot_read (n - 1) InData rest)
           | DotEOF \<Rightarrow> ([], Some st, inp))))"
  by pat_completeness auto
termination
  by (relation "measure (\<lambda>(n, st, inp). 2 * length inp + (if st = DotCR \<or> st = SawCR then 1 else 0))") auto

declare dot_read.simps [simp del]

text \<open>\<open>closeDot\<close>: what is left of a mail that was not read to its end is skipped. Every byte of the
  text costs one of the stream, so the bound is never reached.\<close>

definition close_dot :: "smtp_conn \<Rightarrow> smtp_conn" where
  "close_dot c = (case sb_dot c of None \<Rightarrow> c
     | Some st \<Rightarrow> c\<lparr>sb_in := snd (snd (dot_read (length (sb_in c) + 2) st (sb_in c))), sb_dot := None\<rparr>)"

definition drop_cr :: "string \<Rightarrow> string" where
  "drop_cr line = (if line \<noteq> [] \<and> last line = CHR 0x0D then butlast line else line)"

text \<open>\<open>textproto.Reader.ReadLine\<close>\<close>

definition read_line :: "(smtp_conn, string) op" where
  "read_line c0 = (let c = close_dot c0 in
     if sb_in c = [] then (Inl (ErrText ''EOF''), c)
     else (case index_byte (sb_in c) CHR 0x0A of
        None \<Rightarrow> (Inr (sb_in c), c\<lparr>sb_in := []\<rparr>)
      | Some i \<Rightarrow> (Inr (drop_cr (take i (sb_in c))), c\<lparr>sb_in := drop (Suc i) (sb_in c)\<rparr>)))"

(* src: internal/submission/server.go 29-29 maxMessageSize *)
definition maxMessageSize :: nat where
  "maxMessageSize = 5 * 1024 * 1024"

text \<open>\<open>io.ReadAll(io.LimitReader(tp.DotReader(), maxMessageSize+1))\<close>; \<open>DotReader\<close> first skips the
  rest of an earlier one.\<close>

(* src: internal/submission/server.go 158-158 Server.handle *)
definition read_mail :: "(smtp_conn, string) op" where
  "read_mail c0 = (let c = close_dot c0 in
     case dot_read (maxMessageSize + 1) BeginLine (sb_in c) of
       (_, None, rest) \<Rightarrow> (Inl (ErrText ''unexpected EOF''), c\<lparr>sb_in := rest\<rparr>)
     | (t, Some st, rest) \<Rightarrow> (Inr t, c\<lparr>sb_in := rest, sb_dot := (if st = DotEOF then None else Some st)\<rparr>))"

section \<open>Parsing\<close>

(* src: internal/submission/server.go 266-273 splitCommand *)
definition smtpCommand :: "string \<Rightarrow> string \<times> string" where
  "smtpCommand line0 = (let line = trim_space line0 in
     case index_byte line CHR '' '' of
       None \<Rightarrow> (to_upper line, [])
     | Some i \<Rightarrow> (to_upper (take i line), trim_space (drop (i + 1) line)))"

text \<open>\<open>None\<close> is the answer \<open>("", false)\<close>; an empty address is rejected with it.\<close>

(* src: internal/submission/server.go 275-292 parsePath *)
definition parsePath :: "string \<Rightarrow> string \<Rightarrow> string option" where
  "parsePath arg prefix =
    (if \<not> has_prefix (to_upper arg) prefix then None
     else
       (let rest = trim_space (drop (length prefix) arg);
            bare = (let r = (case index_byte rest CHR '' '' of Some i \<Rightarrow> if i > 0 then take i rest else rest | None \<Rightarrow> rest);
                        a = to_lower (trim_space r) in if a = [] then None else Some a) in
        case index_byte rest CHR ''<'' of
          None \<Rightarrow> bare
        | Some i \<Rightarrow> (case index_byte (drop i rest) CHR ''>'' of
             None \<Rightarrow> bare
           | Some j \<Rightarrow>
               if j > 0 then (let a = to_lower (trim_space (take (j - 1) (drop (i + 1) rest))) in if a = [] then None else Some a)
               else bare)))"

section \<open>The server\<close>

record smtp_server =
  sv_version :: string
  sv_lib :: mail_lib
  sv_reader :: "string \<Rightarrow> mime_reader option"
  sv_hook :: "inbox_hook option"
  sv_bcrypt :: "string \<Rightarrow> string \<Rightarrow> bool"
  sv_local :: "(string \<Rightarrow> bool) option"
  sv_sender :: "sender option"
  sv_peer :: "nat \<Rightarrow> smtp_peer"

type_synonym smtp_world = "smtp_conn \<times> store \<times> limiter option \<times> send_log"

datatype smtp_error = ErrAuthLocked | ErrAuth | ErrUnknownLocal string | ErrStore go_error

(* src: internal/submission/server.go 54-59 Server.version *)
definition smtp_version :: "smtp_server \<Rightarrow> string" where
  "smtp_version srv = (if sv_version srv = [] then ''dev'' else sv_version srv)"

section \<open>Authentication\<close>

definition print_E :: "string \<Rightarrow> (smtp_conn, unit) op" where
  "print_E line c = (case print_line line c of (True, c') \<Rightarrow> (Inr (), c') | (False, c') \<Rightarrow> (Inl (ErrText ''write''), c'))"

(* src: internal/submission/server.go 351-364 readBase64 *)
definition smtpReadBase64 :: "string \<Rightarrow> (smtp_conn, string) op" where
  "smtpReadBase64 prompt = bindE (print_E (''334 '' @ b64_encode prompt)) (\<lambda>_.
     bindE read_line (\<lambda>line. case b64_decode (trim_space line) of
       None \<Rightarrow> failE (ErrText ''illegal base64 data'') | Some data \<Rightarrow> okE data))"

text \<open>The exchange that ends with the name and the password.\<close>

(* src: internal/submission/server.go 307-349 Server.authenticate *)
definition read_credentials :: "string \<Rightarrow> (smtp_conn, string \<times> string) op" where
  "read_credentials arg = (case GoLib.fields arg of
     [] \<Rightarrow> failE (ErrText ''missing auth mechanism'')
   | mech # args \<Rightarrow>
      if to_upper mech = ''PLAIN'' then
        bindE (case args of payload # _ \<Rightarrow> okE payload
               | [] \<Rightarrow> bindE (print_E ''334 '') (\<lambda>_. bindE read_line (\<lambda>line. okE (trim_space line)))) (\<lambda>payload.
          case b64_decode payload of
            None \<Rightarrow> failE (ErrText ''illegal base64 data'')
          | Some raw \<Rightarrow> (case split_byte CHR 0x00 raw of
               [_, username, password] \<Rightarrow> okE (username, password)
             | _ \<Rightarrow> failE (ErrText ''invalid PLAIN payload'')))
      else if to_upper mech = ''LOGIN'' then
        bindE (smtpReadBase64 ''Username:'') (\<lambda>username.
        bindE (smtpReadBase64 ''Password:'') (\<lambda>password. okE (username, password)))
      else failE (ErrText ''unsupported auth mechanism''))"

text \<open>\<open>sb_remote\<close> is the host of the address of the client.\<close>

(* src: internal/submission/server.go 367-367 Server.checkCredentials *)
definition smtpKey :: "smtp_conn \<Rightarrow> string \<Rightarrow> string" where
  "smtpKey c email = ''smtps|'' @ sb_remote c @ ''|'' @ to_lower email"

(* src: internal/submission/server.go 366-382 Server.checkCredentials *)
definition checkCredentials :: "smtp_server \<Rightarrow> int \<Rightarrow> string \<Rightarrow> string \<Rightarrow> string \<Rightarrow> store \<Rightarrow> limiter option \<Rightarrow> (smtp_error + user) \<times> store \<times> limiter option" where
  "checkCredentials srv now key email password s lim =
    (let ((locked, retry), lim1) = Locked now key lim in
     if locked then (Inl ErrAuthLocked, s, lim1)
     else (case UserByLogin email s of
        (Inl _, s1) \<Rightarrow> (Inl ErrAuth, s1, snd (Fail now key lim1))
      | (Inr user, s1) \<Rightarrow>
          if \<not> sv_bcrypt srv (us_hash user) password then (Inl ErrAuth, s1, snd (Fail now key lim1))
          else (Inr user, s1, Reset key lim1)))"

(* src: internal/submission/server.go 307-349 Server.authenticate *)
definition smtpAuthenticate :: "smtp_server \<Rightarrow> int \<Rightarrow> string \<Rightarrow> smtp_world \<Rightarrow> (smtp_error + user) \<times> smtp_world" where
  "smtpAuthenticate srv now arg w = (case w of (c, s, lim, log) \<Rightarrow> (case read_credentials arg c of
     (Inl e, c1) \<Rightarrow> (Inl ErrAuth, c1, s, lim, log)
   | (Inr (email, password), c1) \<Rightarrow>
      (case checkCredentials srv now (smtpKey c1 email) email password s lim of (r, s1, lim1) \<Rightarrow> (r, c1, s1, lim1, log))))"

section \<open>Mail\<close>

(* src: internal/submission/server.go 294-305 Server.maySendAs *)
definition maySendAs :: "user \<Rightarrow> string \<Rightarrow> store \<Rightarrow> bool \<times> store" where
  "maySendAs user from s =
    (if us_address user \<noteq> [] \<and> equal_fold from (us_address user) then (True, s)
     else (case UserByAddress from s of
        (Inr owner, s') \<Rightarrow> (us_id owner = us_id user, s') | (Inl _, s') \<Rightarrow> (False, s')))"

(* src: internal/submission/server.go 237-264 Server.deliverLocal *)
fun deliverLocal :: "smtp_server \<Rightarrow> parsed_mail \<Rightarrow> string \<Rightarrow> string list \<Rightarrow> string list \<Rightarrow> store \<Rightarrow> (smtp_error + string list) \<times> store" where
  "deliverLocal srv parsed raw [] external s = (Inr external, s)"
| "deliverLocal srv parsed raw (rcpt # rcpts) external s = (case UserByAddress rcpt s of
     (Inl _, s1) \<Rightarrow>
        (case sv_local srv of
           Some isLocal \<Rightarrow> if isLocal (Domain rcpt) then (Inl (ErrUnknownLocal rcpt), s1)
             else deliverLocal srv parsed raw rcpts (external @ [rcpt]) s1
         | None \<Rightarrow> deliverLocal srv parsed raw rcpts (external @ [rcpt]) s1)
   | (Inr owner, s1) \<Rightarrow>
        (case deliver_once (sv_lib srv) (sv_hook srv) owner parsed raw s1 of
           (Inl e, s2) \<Rightarrow> (Inl (ErrStore e), s2)
         | (Inr _, s2) \<Rightarrow> deliverLocal srv parsed raw rcpts external s2))"

(* src: internal/submission/server.go 85-88 Server.handle *)
definition reset :: "smtp_conn \<Rightarrow> smtp_conn" where
  "reset c = c\<lparr>sb_from := [], sb_rcpts := []\<rparr>"

text \<open>The mail is handed to the relay, and to the queue when the relay does not take it. The last
  component says whether the mail has found a place.\<close>

(* src: internal/submission/server.go 191-216 Server.handle *)
definition relay :: "smtp_server \<Rightarrow> string \<Rightarrow> string list \<Rightarrow> string \<Rightarrow> store \<Rightarrow> send_log \<Rightarrow> (string option) \<times> store \<times> send_log" where
  "relay srv from external raw s log =
    (if external = [] then (None, s, log)
     else if \<not> Enabled (sv_sender srv) then (Some ''451 4.3.0 Outbound SMTP is not configured'', s, log)
     else (case send_or_queue (sv_sender srv) (sv_peer srv) from external raw s log of
       (False, s1, log1) \<Rightarrow> (Some ''451 4.3.0 Cannot queue message'', s1, log1)
     | (True, s1, log1) \<Rightarrow> (None, s1, log1)))"

text \<open>\<open>DATA\<close> after the mail was read.\<close>

(* src: internal/submission/server.go 164-218 Server.handle *)
definition submit :: "smtp_server \<Rightarrow> string \<Rightarrow> smtp_world \<Rightarrow> smtp_world" where
  "submit srv raw w = (case w of (c, s, lim, log) \<Rightarrow>
    if length raw > maxMessageSize then (reset (reply ''552 5.3.4 Message too big'' c), s, lim, log)
    else (case fst (Parse (sv_lib srv) (sv_reader srv raw)) of
       None \<Rightarrow> (reset (reply ''550 5.6.0 Cannot parse message'' c), s, lim, log)
     | Some parsed \<Rightarrow> (case deliverLocal srv parsed raw (sb_rcpts c) [] s of
          (Inl (ErrUnknownLocal _), s1) \<Rightarrow> (reset (reply ''550 5.1.1 Unknown recipient'' c), s1, lim, log)
        | (Inl _, s1) \<Rightarrow> (reset (reply ''451 4.3.0 Local delivery failed'' c), s1, lim, log)
        | (Inr external, s1) \<Rightarrow> (case relay srv (sb_from c) external raw s1 log of
             (Some err, s2, log1) \<Rightarrow> (reset (reply err c), s2, lim, log1)
           | (None, s2, log1) \<Rightarrow> (reset (reply ''250 2.0.0 Ok: queued'' c), s2, lim, log1)))))"

(* src: internal/submission/server.go 150-163 Server.handle *)
definition smtpData :: "smtp_server \<Rightarrow> smtp_world \<Rightarrow> smtp_world option" where
  "smtpData srv w = (case w of (c, s, lim, log) \<Rightarrow>
    if sb_user c = None \<or> sb_from c = [] \<or> sb_rcpts c = [] then Some (reply ''503 5.5.1 RCPT TO first'' c, s, lim, log)
    else (case print_line ''354 End data with <CR><LF>.<CR><LF>'' c of
       (False, c1) \<Rightarrow> None
     | (True, c1) \<Rightarrow> (case read_mail c1 of
          (Inl _, c2) \<Rightarrow> Some (reset (reply ''451 4.3.0 Cannot read message'' c2), s, lim, log)
        | (Inr raw, c2) \<Rightarrow> Some (submit srv raw (c2, s, lim, log)))))"

(* src: internal/submission/server.go 117-133 Server.handle *)
definition smtpMail :: "string \<Rightarrow> smtp_world \<Rightarrow> smtp_world" where
  "smtpMail arg w = (case w of (c, s, lim, log) \<Rightarrow> (case sb_user c of
     None \<Rightarrow> (reply ''530 5.7.0 Authentication required'' c, s, lim, log)
   | Some user \<Rightarrow> (case parsePath arg ''FROM:'' of
        None \<Rightarrow> (reply ''501 5.1.7 Bad sender address syntax'' c, s, lim, log)
      | Some from \<Rightarrow> (case maySendAs user from s of
           (False, s1) \<Rightarrow> (reply ''553 5.7.1 Sender must match the authenticated user'' c, s1, lim, log)
         | (True, s1) \<Rightarrow> (reply ''250 2.1.0 Ok'' (c\<lparr>sb_from := from, sb_rcpts := []\<rparr>), s1, lim, log)))))"

(* src: internal/submission/server.go 134-149 Server.handle *)
definition smtpRcpt :: "string \<Rightarrow> smtp_world \<Rightarrow> smtp_world" where
  "smtpRcpt arg w = (case w of (c, s, lim, log) \<Rightarrow>
    if sb_user c = None \<or> sb_from c = [] then (reply ''503 5.5.1 MAIL FROM first'' c, s, lim, log)
    else (case parsePath arg ''TO:'' of
       None \<Rightarrow> (reply ''501 5.1.3 Bad recipient address syntax'' c, s, lim, log)
     | Some rcpt \<Rightarrow>
        if length (sb_rcpts c) \<ge> 50 then (reply ''452 4.5.3 Too many recipients'' c, s, lim, log)
        else (reply ''250 2.1.5 Ok'' (c\<lparr>sb_rcpts := sb_rcpts c @ [rcpt]\<rparr>), s, lim, log)))"

(* src: internal/submission/server.go 105-116 Server.handle *)
definition smtpAuth :: "smtp_server \<Rightarrow> int \<Rightarrow> string \<Rightarrow> smtp_world \<Rightarrow> smtp_world" where
  "smtpAuth srv now arg w = (case smtpAuthenticate srv now arg w of
     (Inl ErrAuthLocked, c, r) \<Rightarrow> (reply ''454 4.7.0 Too many failed authentication attempts, try again later'' c, r)
   | (Inl _, c, r) \<Rightarrow> (reply ''535 5.7.8 Authentication failed'' c, r)
   | (Inr user, c, r) \<Rightarrow> (reply ''235 2.7.0 Authentication successful'' (c\<lparr>sb_user := Some user\<rparr>), r))"

text \<open>One command, and one round of the loop; \<open>None\<close>: the connection is closed.\<close>

(* src: internal/submission/server.go 96-233 Server.handle *)
definition smtp_command :: "smtp_server \<Rightarrow> int \<Rightarrow> string \<Rightarrow> string \<Rightarrow> smtp_world \<Rightarrow> smtp_world option" where
  "smtp_command srv now cmd arg w = (case w of (c, s, lim, log) \<Rightarrow>
     if cmd = ''EHLO'' then Some (reply ''250 OK'' (reply ''250-8BITMIME'' (reply (''250-SIZE '' @ itoa (int maxMessageSize))
        (reply ''250-AUTH PLAIN LOGIN'' (reply ''250-lifemail'' c)))), s, lim, log)
     else if cmd = ''HELO'' then Some (reply ''250 lifemail'' c, s, lim, log)
     else if cmd = ''AUTH'' then Some (smtpAuth srv now arg (c, s, lim, log))
     else if cmd = ''MAIL'' then Some (smtpMail arg (c, s, lim, log))
     else if cmd = ''RCPT'' then Some (smtpRcpt arg (c, s, lim, log))
     else if cmd = ''DATA'' then smtpData srv (c, s, lim, log)
     else if cmd = ''RSET'' then Some (reply ''250 2.0.0 Ok'' (reset c), s, lim, log)
     else if cmd = ''NOOP'' then Some (reply ''250 2.0.0 Ok'' c, s, lim, log)
     else if cmd = ''VRFY'' \<or> cmd = ''EXPN'' then Some (reply ''252 2.5.2 Cannot verify user'' c, s, lim, log)
     else if cmd = ''STARTTLS'' then Some (reply ''502 5.5.1 Already using TLS'' c, s, lim, log)
     else if cmd = ''QUIT'' then None
     else Some (reply ''500 5.5.1 Unknown command'' c, s, lim, log))"

(* src: internal/submission/server.go 90-234 Server.handle *)
definition smtp_step :: "smtp_server \<Rightarrow> int \<Rightarrow> smtp_world \<Rightarrow> smtp_world option" where
  "smtp_step srv now w = (case w of (c0, s, lim, log) \<Rightarrow> (case read_line c0 of
     (Inl _, c) \<Rightarrow> None
   | (Inr line, c) \<Rightarrow> (case smtpCommand line of (cmd, arg) \<Rightarrow> smtp_command srv now cmd arg (c, s, lim, log))))"

text \<open>A new connection; \<open>None\<close> when the greeting cannot be written.\<close>

(* src: internal/submission/server.go 72-79 Server.handle *)
definition smtp_open :: "smtp_server \<Rightarrow> string \<Rightarrow> string \<Rightarrow> nat option \<Rightarrow> smtp_conn option" where
  "smtp_open srv remote inp writes =
    (case print_line (''220 lifemail ESMTP '' @ smtp_version srv @ '' ready'')
        \<lparr>sb_user = None, sb_from = [], sb_rcpts = [], sb_in = inp, sb_out = [], sb_writes = writes, sb_dot = None,
         sb_remote = remote\<rparr> of
       (False, _) \<Rightarrow> None | (True, c) \<Rightarrow> Some c)"

end
