(* ===== verification/SubmissionProps.thy ===== *)
theory SubmissionProps imports Submission begin

text \<open>
  Properties of the submission server: the framing of mails, what an answer of 250 promises, who may
  send, and the invariant of a session.
\<close>

section \<open>Framing\<close>

lemma emit_simp [simp]: "emit b (t, x) = (b # t, x)"
  by (simp add: emit_def)

definition prepend :: "string \<Rightarrow> string \<times> 'a \<Rightarrow> string \<times> 'a" where
  "prepend p r = (case r of (t, x) \<Rightarrow> (p @ t, x))"

lemma prepend_simps [simp]: "prepend [] r = r" "emit b (prepend p r) = prepend (b # p) r"
  "prepend p (prepend q r) = prepend (p @ q) r" "prepend p (t, x) = (p @ t, x)"
  by (cases r; simp add: prepend_def emit_def)+

definition plain :: "string \<Rightarrow> bool" where
  "plain l \<longleftrightarrow> list_all (\<lambda>c. c \<noteq> CHR 0x0D \<and> c \<noteq> CHR 0x0A) l"

text \<open>What a client sends for the lines of a mail, and the text they stand for.\<close>

definition dot_encode :: "string list \<Rightarrow> string" where
  "dot_encode ls = concat (map (\<lambda>l. (if has_prefix l ''.'' then CHR ''.'' # l else l) @ [CHR 0x0D, CHR 0x0A]) ls) @
     [CHR ''.'', CHR 0x0D, CHR 0x0A]"

definition lines_text :: "string list \<Rightarrow> string" where
  "lines_text ls = concat (map (\<lambda>l. l @ [CHR 0x0A]) ls)"

lemma dot_data:
  "plain l \<Longrightarrow> length l < n \<Longrightarrow> dot_read n InData (l @ CHR 0x0D # CHR 0x0A # rest) =
     prepend (l @ [CHR 0x0A]) (dot_read (n - Suc (length l)) BeginLine rest)"
proof (induction l arbitrary: n)
  case Nil
  then show ?case by (simp add: dot_read.simps [of n] prepend_def emit_def split: prod.split)
next
  case (Cons c l)
  then show ?case by (subst dot_read.simps) (simp add: plain_def)
qed

lemma dot_line:
  assumes "plain l" "length l < n"
  shows "dot_read n BeginLine ((if has_prefix l ''.'' then CHR ''.'' # l else l) @ CHR 0x0D # CHR 0x0A # rest) =
     prepend (l @ [CHR 0x0A]) (dot_read (n - Suc (length l)) BeginLine rest)"
proof (cases l)
  case Nil
  then show ?thesis using assms(2)
    by (simp add: has_prefix_def dot_read.simps [of n] prepend_def emit_def split: prod.split)
next
  case (Cons c l')
  have d: "dot_read (n - 1) InData (l' @ CHR 0x0D # CHR 0x0A # rest) =
      prepend (l' @ [CHR 0x0A]) (dot_read (n - 1 - Suc (length l')) BeginLine rest)"
    by (rule dot_data) (use assms Cons in \<open>auto simp: plain_def\<close>)
  show ?thesis
  proof (cases "c = CHR ''.''")
    case True
    then show ?thesis using assms d Cons
      by (simp add: has_prefix_def dot_read.simps [of n BeginLine] dot_read.simps [of n Dot] del: dot_read.simps)
  next
    case False
    then show ?thesis using assms d Cons
      by (simp add: has_prefix_def dot_read.simps [of n BeginLine] plain_def)
  qed
qed

lemma dot_encode_read:
  "list_all plain ls \<Longrightarrow> length (lines_text ls) < n \<Longrightarrow>
     dot_read n BeginLine (dot_encode ls @ rest) = (lines_text ls, Some DotEOF, rest)"
proof (induction ls arbitrary: n)
  case Nil
  then show ?case by (simp add: dot_encode_def lines_text_def dot_read.simps [of n])
next
  case (Cons l ls)
  have e: "dot_encode (l # ls) @ rest = (if has_prefix l ''.'' then CHR ''.'' # l else l) @ CHR 0x0D # CHR 0x0A # (dot_encode ls @ rest)"
    by (simp add: dot_encode_def)
  have "dot_read (n - Suc (length l)) BeginLine (dot_encode ls @ rest) = (lines_text ls, Some DotEOF, rest)"
    by (rule Cons.IH) (use Cons.prems in \<open>auto simp: lines_text_def\<close>)
  then show ?case using Cons.prems unfolding e by (subst dot_line) (auto simp: lines_text_def)
qed

text \<open>One byte: what it makes the reader emit, the next state, and whether it is consumed.\<close>

definition dot_next :: "dot_state \<Rightarrow> char \<Rightarrow> char option \<times> dot_state \<times> bool" where
  "dot_next st c = (case st of
     BeginLine \<Rightarrow> if c = CHR ''.'' then (None, Dot, True) else if c = CHR 0x0D then (None, SawCR, True) else (Some c, InData, True)
   | Dot \<Rightarrow> if c = CHR 0x0D then (None, DotCR, True) else if c = CHR 0x0A then (None, DotEOF, True) else (Some c, InData, True)
   | DotCR \<Rightarrow> if c = CHR 0x0A then (None, DotEOF, True) else (Some (CHR 0x0D), InData, False)
   | SawCR \<Rightarrow> if c = CHR 0x0A then (Some c, BeginLine, True) else (Some (CHR 0x0D), InData, False)
   | InData \<Rightarrow> if c = CHR 0x0D then (None, SawCR, True) else if c = CHR 0x0A then (Some c, BeginLine, True) else (Some c, InData, True)
   | DotEOF \<Rightarrow> (None, DotEOF, True))"

lemma dot_read_stop [simp]: "dot_read 0 st inp = ([], Some st, inp)" "dot_read n DotEOF inp = ([], Some DotEOF, inp)"
  by (simp_all add: dot_read.simps [of 0 st] dot_read.simps [of n DotEOF])

lemma dot_read_end: "n \<noteq> 0 \<Longrightarrow> st \<noteq> DotEOF \<Longrightarrow> dot_read n st [] = ([], None, [])"
  by (simp add: dot_read.simps [of n st "[]"])

lemma dot_read_next:
  assumes "n \<noteq> 0" "st \<noteq> DotEOF" "dot_next st c = (out, st', eaten)"
  shows "dot_read n st (c # rest) = (case out of
      None \<Rightarrow> dot_read n st' rest | Some b \<Rightarrow> emit b (dot_read (n - 1) st' (if eaten then rest else c # rest)))"
  using assms by (cases st) (auto simp: dot_read.simps [of n _ "c # rest"] dot_next_def split: if_splits)

lemma dot_next_eaten: "dot_next st c = (out, st', eaten) \<Longrightarrow> eaten \<or> (st = DotCR \<or> st = SawCR) \<and> st' = InData \<and> out \<noteq> None"
  by (auto simp: dot_next_def split: dot_state.splits if_splits)

lemma dot_next_quiet: "dot_next st c = (None, st', eaten) \<Longrightarrow> eaten"
  using dot_next_eaten by blast

definition pending :: "dot_state \<Rightarrow> nat" where
  "pending st = (if st = DotCR \<or> st = SawCR then 1 else 0)"

lemma dot_next_pending: "dot_next st c = (out, st', eaten) \<Longrightarrow> st \<noteq> DotEOF \<Longrightarrow>
    (case out of None \<Rightarrow> 0 | Some _ \<Rightarrow> 1) + pending st' + (if eaten then 0 else 1) \<le> pending st + 1"
  by (auto simp: dot_next_def pending_def split: dot_state.splits if_splits)

lemma dot_read_split:
  "dot_read n st inp = (t, Some st', inp') \<Longrightarrow>
     dot_read (n + m) st inp = prepend t (dot_read m st' inp') \<and> (st' \<noteq> DotEOF \<longrightarrow> length t = n)"
proof (induction "2 * length inp + pending st" arbitrary: n st inp t rule: less_induct)
  case less
  show ?case
  proof (cases "n = 0 \<or> st = DotEOF")
    case True
    then show ?thesis using less.prems by auto
  next
    case F: False
    show ?thesis
    proof (cases inp)
      case Nil
      then show ?thesis using F less.prems by (simp add: dot_read_end)
    next
      case (Cons c rest)
      obtain out st1 eaten where x: "dot_next st c = (out, st1, eaten)" by (cases "dot_next st c")
      have n: "n \<noteq> 0" "n + m \<noteq> 0" "n + m - 1 = n - 1 + m" "st \<noteq> DotEOF" using F by auto
      let ?i = "if eaten then rest else c # rest"
      have d: "2 * length ?i + pending st1 < 2 * length inp + pending st"
        using dot_next_pending [OF x n(4)] dot_next_eaten [OF x] Cons by (auto simp: pending_def split: if_splits option.splits)
      show ?thesis
      proof (cases out)
        case None
        then have "eaten" using x dot_next_quiet by blast
        then have "dot_read n st1 rest = (t, Some st', inp')" using dot_read_next [OF n(1,4) x] None less.prems Cons by simp
        from less.hyps [OF _ this] d \<open>eaten\<close> show ?thesis using dot_read_next [OF n(2,4) x] None Cons by simp
      next
        case (Some b)
        then obtain u where u: "dot_read (n - 1) st1 ?i = (u, Some st', inp')" "t = b # u"
          using dot_read_next [OF n(1,4) x] less.prems Cons by (cases "dot_read (n - 1) st1 ?i") auto
        from less.hyps [OF d u(1)] show ?thesis
          using dot_read_next [OF n(2,4) x] Some Cons u(2) n by (simp add: n(3))
      qed
    qed
  qed
qed

lemma dot_read_short: "length (fst (dot_read n st inp)) \<le> length inp + pending st"
proof (induction "2 * length inp + pending st" arbitrary: n st inp rule: less_induct)
  case less
  show ?case
  proof (cases "n = 0 \<or> st = DotEOF \<or> inp = []")
    case True
    then show ?thesis by (cases "n = 0 \<or> st = DotEOF") (auto simp: dot_read_end)
  next
    case False
    then obtain c rest where Cons: "inp = c # rest" by (cases inp) auto
    obtain out st1 eaten where x: "dot_next st c = (out, st1, eaten)" by (cases "dot_next st c")
    let ?i = "if eaten then rest else c # rest"
    note p = dot_next_pending [OF x] dot_next_eaten [OF x]
    have d: "2 * length ?i + pending st1 < 2 * length inp + pending st"
      using p False Cons by (auto simp: pending_def split: if_splits option.splits)
    have e: "length (fst (emit b r)) = Suc (length (fst r))" for b and r :: "string \<times> dot_state option \<times> string"
      by (cases r) simp
    show ?thesis
      using less.hyps [OF d, of n] less.hyps [OF d, of "n - 1"] p dot_read_next [OF _ _ x, of n rest] False Cons
      by (cases out) (auto simp: e split: if_splits)
  qed
qed

lemma dot_read_broken:
  "dot_read n st inp = (t, None, inp') \<Longrightarrow> dot_read (n + m) st inp = (t, None, inp')"
proof (induction "2 * length inp + pending st" arbitrary: n st inp t rule: less_induct)
  case less
  show ?case
  proof (cases "inp = [] \<or> n = 0 \<or> st = DotEOF")
    case True
    then show ?thesis using less.prems by (cases "n = 0 \<or> st = DotEOF") (auto simp: dot_read_end)
  next
    case False
    then obtain c rest where Cons: "inp = c # rest" by (cases inp) auto
    obtain out st1 eaten where x: "dot_next st c = (out, st1, eaten)" by (cases "dot_next st c")
    let ?i = "if eaten then rest else c # rest"
    have n: "n \<noteq> 0" "n + m \<noteq> 0" "n + m - 1 = n - 1 + m" "st \<noteq> DotEOF" using False by auto
    have d: "2 * length ?i + pending st1 < 2 * length inp + pending st"
      using dot_next_pending [OF x n(4)] dot_next_eaten [OF x] Cons by (auto simp: pending_def split: if_splits option.splits)
    show ?thesis
    proof (cases out)
      case None
      then have "eaten" using x dot_next_quiet by blast
      then have "dot_read n st1 rest = (t, None, inp')" using dot_read_next [OF n(1,4) x] None less.prems Cons by simp
      from less.hyps [OF _ this] d \<open>eaten\<close> show ?thesis using dot_read_next [OF n(2,4) x] None Cons by simp
    next
      case (Some b)
      then obtain u where u: "dot_read (n - 1) st1 ?i = (u, None, inp')" "t = b # u"
        using dot_read_next [OF n(1,4) x] less.prems Cons by (cases "dot_read (n - 1) st1 ?i") auto
      from less.hyps [OF d u(1)] show ?thesis
        using dot_read_next [OF n(2,4) x] Some Cons u(2) n by (simp add: n(3))
    qed
  qed
qed

lemma dot_read_enough:
  assumes "dot_read m st inp = (t, Some DotEOF, rest)"
  shows "snd (snd (dot_read (length inp + 2) st inp)) = rest"
proof (cases "m \<le> length inp + 2")
  case True
  then obtain k where k: "length inp + 2 = m + k" using le_Suc_ex by blast
  show ?thesis unfolding k using dot_read_split [OF assms, of k] by simp
next
  case False
  then obtain k where k: "m = length inp + 2 + k" using le_Suc_ex [of "length inp + 2" m] by auto
  obtain v s2 r2 where v: "dot_read (length inp + 2) st inp = (v, s2, r2)" by (cases "dot_read (length inp + 2) st inp")
  show ?thesis
  proof (cases s2)
    case None
    then show ?thesis using dot_read_broken [of "length inp + 2" st inp v r2 k] v assms k by simp
  next
    case (Some s3)
    then have sp: "dot_read m st inp = prepend v (dot_read k s3 r2)" "s3 \<noteq> DotEOF \<longrightarrow> length v = length inp + 2"
      using dot_read_split [of "length inp + 2" st inp v s3 r2 k] v k by auto
    have "s3 = DotEOF" using sp(2) dot_read_short [of "length inp + 2" st inp] v by (auto simp: pending_def split: if_splits)
    then show ?thesis using sp(1) assms v by simp
  qed
qed

text \<open>C30: a mail is framed exactly. Whatever lines a client sends, with a dot in front of those that start
  with one, the server reads these lines, and the next command starts right behind the final
  dot: no line of a mail is ever taken for a command. A mail above the limit is read to the byte
  that exceeds it and the rest of it is skipped, up to the same place.\<close>

theorem data_framing:
  assumes "list_all plain ls" "sb_dot c = None" "sb_in c = dot_encode ls @ rest"
  shows "if length (lines_text ls) \<le> maxMessageSize then read_mail c = (Inr (lines_text ls), c\<lparr>sb_in := rest\<rparr>)
    else \<exists>u c'. read_mail c = (Inr u, c') \<and> maxMessageSize < length u \<and> close_dot c' = c\<lparr>sb_in := rest\<rparr>"
proof -
  let ?t = "lines_text ls" and ?all = "dot_encode ls @ rest"
  have upd: "c\<lparr>sb_in := r, sb_dot := None\<rparr> = c\<lparr>sb_in := r\<rparr>" for r using assms(2) by (cases c) simp
  have cl: "close_dot c = c" using assms(2) by (simp add: close_dot_def)
  have rm: "read_mail c = (case dot_read (maxMessageSize + 1) BeginLine ?all of
       (_, None, rest) \<Rightarrow> (Inl (ErrText ''unexpected EOF''), c\<lparr>sb_in := rest\<rparr>)
     | (t, Some st, rest) \<Rightarrow> (Inr t, c\<lparr>sb_in := rest, sb_dot := (if st = DotEOF then None else Some st)\<rparr>))"
    by (simp add: read_mail_def cl assms(3))
  show ?thesis
  proof (cases "length ?t \<le> maxMessageSize")
    case True
    then have "dot_read (maxMessageSize + 1) BeginLine ?all = (?t, Some DotEOF, rest)"
      by (intro dot_encode_read assms(1)) simp
    then show ?thesis using True by (simp add: rm upd)
  next
    case False
    define k where "k = length ?t - maxMessageSize"
    have full: "dot_read (maxMessageSize + 1 + k) BeginLine ?all = (?t, Some DotEOF, rest)"
      by (rule dot_encode_read [OF assms(1)]) (use False in \<open>simp add: k_def\<close>)
    obtain u s2 r2 where u: "dot_read (maxMessageSize + 1) BeginLine ?all = (u, s2, r2)"
      by (cases "dot_read (maxMessageSize + 1) BeginLine ?all")
    obtain st where s2: "s2 = Some st"
      using dot_read_broken [of "maxMessageSize + 1" BeginLine ?all u r2 k] u full by (cases s2) auto
    have sp: "(?t, Some DotEOF, rest) = prepend u (dot_read k st r2)" "st \<noteq> DotEOF \<longrightarrow> length u = maxMessageSize + 1"
      using dot_read_split [of "maxMessageSize + 1" BeginLine ?all u st r2 k] u s2 full by auto
    show ?thesis
    proof (cases "st = DotEOF")
      case True
      then have "u = ?t" "r2 = rest" using sp(1) by auto
      then show ?thesis using False True u s2 assms(2) by (simp add: rm close_dot_def upd)
    next
      case F: False
      obtain t' where "dot_read k st r2 = (t', Some DotEOF, rest)" using sp(1) by (cases "dot_read k st r2") auto
      from dot_read_enough [OF this] show ?thesis using False F sp(2) u s2
        by (simp add: rm close_dot_def upd)
    qed
  qed
qed

definition demo_smtp_conn :: smtp_conn where
  "demo_smtp_conn = \<lparr>sb_user = Some demo_user, sb_from = ''u@x'', sb_rcpts = [''u@x''],
     sb_in = dot_encode [''Subject: hi'', [], ''.hidden''] @ ''QUIT'', sb_out = [], sb_writes = None, sb_dot = None, sb_remote = []\<rparr>"

theorem data_framing_witness:
  "read_mail demo_smtp_conn = (Inr (lines_text [''Subject: hi'', [], ''.hidden'']), demo_smtp_conn\<lparr>sb_in := ''QUIT''\<rparr>)"
  using data_framing [of "[''Subject: hi'', [], ''.hidden'']" demo_smtp_conn "''QUIT''"]
  by (simp add: demo_smtp_conn_def plain_def lines_text_def maxMessageSize_def)

section \<open>What an answer of 250 promises\<close>

lemma deliverLocal_covers:
  assumes "deliverLocal srv p raw rcpts ext s = (Inr ext', s')" "store_ok s" "good_hook (sv_hook srv)"
  shows "mail_grows s s' \<and>
    (\<exists>xs. ext' = ext @ xs \<and> set xs \<subseteq> set rcpts \<and> (\<forall>r\<in>set rcpts. r \<in> set xs \<or>
       (\<exists>u. account_of (st_db s) r = Some u \<and> has_mail (us_id u) (pm_msgid p) s')))"
  using assms
proof (induction rcpts arbitrary: s ext)
  case (Cons r rcpts)
  note hook = \<open>good_hook (sv_hook srv)\<close>
  obtain q s1 where q: "UserByAddress r s = (q, s1)" by (cases "UserByAddress r s")
  note g1 = mail_grows_UserByAddress [OF q]
  have rest: ?case if "deliverLocal srv p raw rcpts (ext @ x) t = (Inr ext', s')" "mail_grows s t" "set x \<subseteq> {r}"
    "x = [r] \<or> (\<exists>u. account_of (st_db s) r = Some u \<and> has_mail (us_id u) (pm_msgid p) t)" for t x
  proof -
    note acc = mail_grows_account [OF that(2)]
    have "store_ok t" using that(2) Cons.prems(2) by (simp add: mail_grows_def)
    from Cons.IH [OF that(1) this hook] obtain xs where xs: "mail_grows t s'" "ext' = (ext @ x) @ xs" "set xs \<subseteq> set rcpts"
      "\<forall>r\<in>set rcpts. r \<in> set xs \<or> (\<exists>u. account_of (st_db s) r = Some u \<and> has_mail (us_id u) (pm_msgid p) s')"
      by (auto simp: acc)
    have "x = [r] \<or> (\<exists>u. account_of (st_db s) r = Some u \<and> has_mail (us_id u) (pm_msgid p) s')"
      using that(4) xs(1) by (auto simp: mail_grows_def)
    then show ?thesis using xs that(3) mail_grows_trans [OF that(2) xs(1)] by (intro conjI exI [of _ "x @ xs"]) auto
  qed
  show ?case
  proof (cases q)
    case (Inl e)
    then have "deliverLocal srv p raw rcpts (ext @ [r]) s1 = (Inr ext', s')"
      using Cons.prems(1) q by (auto split: option.splits if_splits)
    from rest [OF this g1] show ?thesis by simp
  next
    case (Inr u)
    then have acc: "account_of (st_db s) r = Some u" using UserByAddress_Inr q by blast
    obtain d s2 where d: "deliver_once (sv_lib srv) (sv_hook srv) u p raw s1 = (d, s2)"
      by (cases "deliver_once (sv_lib srv) (sv_hook srv) u p raw s1")
    then have "d = Inr ()" and step: "deliverLocal srv p raw rcpts (ext @ []) s2 = (Inr ext', s')"
      using Cons.prems(1) q Inr by (cases d; simp)+
    moreover have "store_ok s1" using g1 Cons.prems(2) by (simp add: mail_grows_def)
    ultimately have "has_mail (us_id u) (pm_msgid p) s2" using deliver_once_covers d hook by blast
    with rest [OF step mail_grows_trans [OF g1 mail_grows_once [OF hook d]]] acc show ?thesis by simp
  qed
qed simp

lemma relay_None:
  assumes "relay srv from ext raw s log = (None, s', log')"
  shows "tb_messages (st_db s') = tb_messages (st_db s) \<and> (ext = [] \<or> (\<exists>err. log' = log @ [(err, [(from, ext, raw)])]) \<or>
    (\<exists>row m. row \<in> set (tb_outbox (st_db s')) \<and> ob_from row = from \<and>
      ob_recipients row = join '','' ext \<and> st_blobs s' = Some m \<and> m (ob_raw_path row) = Some raw))"
  using assms send_or_queue_True [of "sv_sender srv" "sv_peer srv" "from" ext raw s log s' log']
  by (auto simp: relay_def handed_over_def split: if_splits bool.splits prod.splits)

lemma reply_out: "sb_writes c = None \<Longrightarrow> sb_out (reset (reply t c)) = sb_out c @ t @ [CHR 0x0D, CHR 0x0A]"
  by (simp add: reply_def print_line_def reset_def)

text \<open>C15: no mail is lost once 250 is answered. Then the mail was parsed; every recipient that is not
  among the external ones is an account, and that account has a mail with this identifier; and
  the external ones, if any, are all on one envelope that the relay has accepted, or on a row of
  the queue whose source is in the blob directory.\<close>

theorem accepted_mail_is_kept:
  assumes "store_ok s" "good_hook (sv_hook srv)" "submit srv raw (c, s, lim, log) = (c', s', lim', log')"
    and "sb_writes c = None" "sb_out c' = sb_out c @ ''250 2.0.0 Ok: queued'' @ [CHR 0x0D, CHR 0x0A]"
  shows "\<exists>parsed external. fst (Parse (sv_lib srv) (sv_reader srv raw)) = Some parsed \<and> set external \<subseteq> set (sb_rcpts c) \<and>
    (\<forall>r\<in>set (sb_rcpts c). r \<in> set external \<or>
      (\<exists>u. account_of (st_db s) r = Some u \<and> has_mail (us_id u) (pm_msgid parsed) s')) \<and>
    (external = [] \<or> (\<exists>err. log' = log @ [(err, [(sb_from c, external, raw)])]) \<or>
      (\<exists>row m. row \<in> set (tb_outbox (st_db s')) \<and> ob_from row = sb_from c \<and>
        ob_recipients row = join '','' external \<and> st_blobs s' = Some m \<and> m (ob_raw_path row) = Some raw))"
proof -
  have ans: "t = ''250 2.0.0 Ok: queued''" if "c' = reset (reply t c)" for t
    using that assms(4,5) by (simp add: reply_out)
  obtain parsed where p: "fst (Parse (sv_lib srv) (sv_reader srv raw)) = Some parsed"
    using assms(3) ans by (auto simp: submit_def split: if_splits option.splits)
  have len: "\<not> length raw > maxMessageSize" using assms(3) ans by (auto simp: submit_def split: if_splits)
  obtain r s1 where d: "deliverLocal srv parsed raw (sb_rcpts c) [] s = (r, s1)"
    by (cases "deliverLocal srv parsed raw (sb_rcpts c) [] s")
  have sub: "submit srv raw (c, s, lim, log) = (case r of
        Inl (ErrUnknownLocal _) \<Rightarrow> (reset (reply ''550 5.1.1 Unknown recipient'' c), s1, lim, log)
      | Inl _ \<Rightarrow> (reset (reply ''451 4.3.0 Local delivery failed'' c), s1, lim, log)
      | Inr external \<Rightarrow> (case relay srv (sb_from c) external raw s1 log of
             (Some err, s2, log1) \<Rightarrow> (reset (reply err c), s2, lim, log1)
           | (None, s2, log1) \<Rightarrow> (reset (reply ''250 2.0.0 Ok: queued'' c), s2, lim, log1)))"
    using p len d by (simp add: submit_def split: sum.split)
  obtain ext where ext: "r = Inr ext"
    using assms(3) ans by (cases r) (auto simp: sub split: smtp_error.splits)
  obtain a s2 log2 where a: "relay srv (sb_from c) ext raw s1 log = (a, s2, log2)" by (cases "relay srv (sb_from c) ext raw s1 log")
  have "a = None"
  proof (cases a)
    case (Some err)
    then have "err = ''250 2.0.0 Ok: queued''" using assms(3) a ext ans by (simp add: sub)
    then show ?thesis using a Some by (auto simp: relay_def split: if_splits bool.splits prod.splits)
  qed simp
  then have fin: "s' = s2" "log' = log2" and R: "relay srv (sb_from c) ext raw s1 log = (None, s', log')"
    using assms(3) a ext by (auto simp: sub)
  from deliverLocal_covers [OF d [unfolded ext] assms(1,2)]
  have cov: "set ext \<subseteq> set (sb_rcpts c)" "\<forall>r\<in>set (sb_rcpts c). r \<in> set ext \<or>
      (\<exists>u. account_of (st_db s) r = Some u \<and> has_mail (us_id u) (pm_msgid parsed) s1)"
    by auto
  have m: "has_mail uid mid s' = has_mail uid mid s1" for uid mid
    using relay_None [OF R] by (simp add: has_mail_def)
  show ?thesis
    by (rule exI [of _ parsed], rule exI [of _ ext])
       (intro conjI p cov(1) cov(2) [folded m] conjunct2 [OF relay_None [OF R]])
qed

definition demo_smtp :: smtp_server where
  "demo_smtp = \<lparr>sv_version = [], sv_lib = demo_lib, sv_reader = (\<lambda>_. Some (demo_reader (\<lambda>_. []))), sv_hook = None,
     sv_bcrypt = (\<lambda>h p. p = ''secret''), sv_local = None, sv_sender = demo_sender, sv_peer = (\<lambda>_. demo_peer)\<rparr>"

theorem accepted_mail_is_kept_witness:
  "\<exists>c' s' lim' log' parsed external. submit demo_smtp ''x'' (demo_smtp_conn, demo_store, None, []) = (c', s', lim', log') \<and>
     fst (Parse (sv_lib demo_smtp) (sv_reader demo_smtp ''x'')) = Some parsed \<and> set external \<subseteq> {''u@x''}"
proof -
  let ?p = "the (fst (Parse demo_lib (Some (demo_reader (\<lambda>_. [])))))"
  have r: "sb_rcpts demo_smtp_conn = [''u@x'']" by (simp add: demo_smtp_conn_def)
  have p: "fst (Parse (sv_lib demo_smtp) (sv_reader demo_smtp ''x'')) = Some ?p" by (simp add: Parse_def demo_smtp_def)
  have "fst (deliverLocal demo_smtp ?p ''x'' [''u@x''] [] demo_store) = Inr []" by code_simp
  then obtain s1 where d: "deliverLocal demo_smtp ?p ''x'' [''u@x''] [] demo_store = (Inr [], s1)"
    by (cases "deliverLocal demo_smtp ?p ''x'' [''u@x''] [] demo_store") simp
  have s: "submit demo_smtp ''x'' (demo_smtp_conn, demo_store, None, []) =
      (reset (reply ''250 2.0.0 Ok: queued'' demo_smtp_conn), s1, None, [])"
    unfolding submit_def prod.case p option.case r d by (simp add: relay_def maxMessageSize_def)
  have w: "sb_writes demo_smtp_conn = None" by (simp add: demo_smtp_conn_def)
  have h: "good_hook (sv_hook demo_smtp)" by (simp add: demo_smtp_def good_hook_None)
  show ?thesis using accepted_mail_is_kept [OF demo_ok h s w reply_out [OF w]] s by (auto simp: r)
qed

section \<open>Sessions\<close>

text \<open>What a line of output or input leaves alone.\<close>

definition same_mail :: "smtp_conn \<Rightarrow> smtp_conn \<Rightarrow> bool" where
  "same_mail c c' \<longleftrightarrow> sb_from c' = sb_from c \<and> sb_rcpts c' = sb_rcpts c \<and> sb_user c' = sb_user c \<and> sb_remote c' = sb_remote c"

lemma same_mail_refl [simp]: "same_mail c c"
  by (simp add: same_mail_def)

lemma same_mail_trans: "same_mail a b \<Longrightarrow> same_mail b c \<Longrightarrow> same_mail a c"
  by (simp add: same_mail_def)

lemma reply_fields [simp]:
  "sb_from (reply t c) = sb_from c" "sb_rcpts (reply t c) = sb_rcpts c" "sb_user (reply t c) = sb_user c"
  "sb_remote (reply t c) = sb_remote c"
  by (simp_all add: reply_def print_line_def)

lemma print_line_same: "print_line t c = (b, c') \<Longrightarrow> same_mail c c'"
  by (auto simp: print_line_def same_mail_def split: if_splits)

lemma close_dot_fields [simp]:
  "sb_from (close_dot c) = sb_from c" "sb_rcpts (close_dot c) = sb_rcpts c" "sb_user (close_dot c) = sb_user c"
  "sb_remote (close_dot c) = sb_remote c"
  by (simp_all add: close_dot_def split: option.split)

lemma read_line_same: "read_line c = (r, c') \<Longrightarrow> same_mail c c'"
  by (auto simp: read_line_def Let_def same_mail_def split: if_splits option.splits)

lemma read_mail_same: "read_mail c = (r, c') \<Longrightarrow> same_mail c c'"
  by (auto simp: read_mail_def Let_def same_mail_def split: prod.splits option.splits)

lemma same_keeps: "(\<And>c r c'. m c = (r, c') \<Longrightarrow> same_mail c c') \<Longrightarrow> keeps (same_mail c0) m"
  by (rule keepsI) (metis prod.collapse same_mail_trans)

lemma read_credentials_same: "read_credentials arg c = (r, c') \<Longrightarrow> same_mail c c'"
proof -
  have p: "keeps (same_mail c) (print_E t)" for t
    by (rule same_keeps) (auto simp: print_E_def split: prod.splits bool.splits dest: print_line_same)
  have l: "keeps (same_mail c) read_line" by (rule same_keeps) (rule read_line_same)
  have d: "keeps (same_mail c) (case x of None \<Rightarrow> failE e | Some v \<Rightarrow> f v)" if "\<And>v. keeps (same_mail c) (f v)"
    for x e and f :: "'b \<Rightarrow> (smtp_conn, 'c) op"
    using that by (cases x) (simp_all add: keeps_failE del: failE_simp)
  have b: "keeps (same_mail c) (smtpReadBase64 q)" for q
    unfolding smtpReadBase64_def by (intro keeps_bindE p l d keeps_okE)
  have k: "keeps (same_mail c) (read_credentials arg)"
    unfolding read_credentials_def
    by (auto intro!: keeps_if keeps_bindE p l b d keeps_okE keeps_failE split: list.split simp del: okE_simp failE_simp)
  from keepsD [OF k same_mail_refl] show "read_credentials arg c = (r, c') \<Longrightarrow> same_mail c c'" by simp
qed

lemma checkCredentials_result:
  assumes "checkCredentials srv now key email password s lim = (r, s', lim')"
  shows "st_db s' = st_db s \<and> (\<forall>u. r = Inr u \<longrightarrow> fst (UserByLogin email s) = Inr u \<and> sv_bcrypt srv (us_hash u) password \<and>
    \<not> fst (fst (Locked now key lim)))"
proof -
  have db: "st_db (snd (UserByLogin email s)) = st_db s"
  proof (cases "contains_byte (trim_space email) CHR ''@''")
    case True
    then show ?thesis using UserByAddress_db [of "trim_space email" s] by (simp add: UserByLogin_def Let_def)
  next
    case False
    then show ?thesis by (simp add: UserByLogin_def Let_def UserByName_def)
  qed
  obtain a s1 where a: "UserByLogin email s = (a, s1)" by (cases "UserByLogin email s")
  obtain l rt lim1 where l: "Locked now key lim = ((l, rt), lim1)" by (metis prod.collapse)
  show ?thesis using assms db a l by (cases a) (auto simp: checkCredentials_def Let_def split: if_splits)
qed

lemma smtpAuth_result:
  assumes "smtpAuth srv now arg (c, s, lim, log) = (c', s', lim', log')"
  shows "st_db s' = st_db s \<and> log' = log \<and> sb_from c' = sb_from c \<and> sb_rcpts c' = sb_rcpts c \<and> sb_remote c' = sb_remote c \<and>
    (sb_user c' = sb_user c \<or> (\<exists>email password u. sb_user c' = Some u \<and> fst (UserByLogin email s) = Inr u \<and>
      sv_bcrypt srv (us_hash u) password \<and> \<not> fst (fst (Locked now (smtpKey c email) lim))))"
proof -
  obtain r c1 where r: "read_credentials arg c = (r, c1)" by (cases "read_credentials arg c")
  have same: "sb_from c1 = sb_from c" "sb_rcpts c1 = sb_rcpts c" "sb_user c1 = sb_user c" "sb_remote c1 = sb_remote c"
    using read_credentials_same [OF r] by (simp_all add: same_mail_def)
  show ?thesis
  proof (cases r)
    case (Inl e)
    then show ?thesis using assms r same by (auto simp: smtpAuth_def smtpAuthenticate_def)
  next
    case (Inr q)
    obtain email password where q: "q = (email, password)" by (cases q)
    have k: "smtpKey c1 email = smtpKey c email" by (simp add: smtpKey_def same)
    obtain a s1 lim1 where a: "checkCredentials srv now (smtpKey c email) email password s lim = (a, s1, lim1)"
      by (metis prod.collapse)
    note res = checkCredentials_result [OF a]
    have w: "smtpAuthenticate srv now arg (c, s, lim, log) = (a, c1, s1, lim1, log)"
      by (simp add: smtpAuthenticate_def r Inr q k a)
    show ?thesis
    proof (cases a)
      case (Inl e)
      then show ?thesis using assms w res same by (cases e) (auto simp: smtpAuth_def)
    next
      case (Inr u)
      then have e: "sb_user c' = Some u" "st_db s' = st_db s" "log' = log" "sb_from c' = sb_from c" "sb_rcpts c' = sb_rcpts c"
        "sb_remote c' = sb_remote c" using assms w res same by (auto simp: smtpAuth_def)
      have "fst (UserByLogin email s) = Inr u" "sv_bcrypt srv (us_hash u) password" "\<not> fst (fst (Locked now (smtpKey c email) lim))"
        using res Inr by simp_all
      then show ?thesis using e by (intro conjI disjI2 exI [of _ email] exI [of _ password] exI [of _ u]) simp_all
    qed
  qed
qed

lemma maySendAs_True:
  assumes "maySendAs u a s = (b, s')"
  shows "st_db s' = st_db s \<and> (b \<longrightarrow> us_address u \<noteq> [] \<and> equal_fold a (us_address u) \<or>
    (\<exists>v. account_of (st_db s) a = Some v \<and> us_id v = us_id u))"
proof (cases "us_address u \<noteq> [] \<and> equal_fold a (us_address u)")
  case False
  obtain r t where r: "UserByAddress a s = (r, t)" by (cases "UserByAddress a s")
  have m: "maySendAs u a s = (case r of Inr v \<Rightarrow> (us_id v = us_id u, t) | Inl _ \<Rightarrow> (False, t))"
    unfolding maySendAs_def if_not_P [OF False] r by (simp split: sum.split)
  have t: "st_db t = st_db s" using UserByAddress_db [of a s] r by simp
  show ?thesis
  proof (cases r)
    case (Inl e)
    then show ?thesis using assms m t by simp
  next
    case (Inr v)
    then have "account_of (st_db s) a = Some v" using UserByAddress_Inr r by blast
    then show ?thesis using assms m t Inr by simp
  qed
next
  case True
  then show ?thesis using assms by (simp add: maySendAs_def)
qed

text \<open>Everything but \<open>AUTH\<close>, \<open>MAIL\<close>, \<open>RCPT\<close>, \<open>DATA\<close> and \<open>RSET\<close> only answers.\<close>

lemma answers: "(if b1 then Some (f t1) else if b2 then Some (f t2) else if b3 then Some (f t3) else if b4 then Some (f t4)
    else if b5 then None else Some (f t6)) = Some w \<Longrightarrow> \<exists>t. Some (f t) = Some w"
  by (auto split: if_splits)

lemma smtp_command_cases:
  assumes "smtp_command srv now cmd arg (c, s, lim, log) = Some w"
  shows "w = smtpAuth srv now arg (c, s, lim, log) \<or> w = smtpMail arg (c, s, lim, log) \<or> w = smtpRcpt arg (c, s, lim, log) \<or>
    smtpData srv (c, s, lim, log) = Some w \<or> w = (reply ''250 2.0.0 Ok'' (reset c), s, lim, log) \<or>
    (\<exists>c'. same_mail c c' \<and> w = (c', s, lim, log))"
proof -
  have o: "Some (reply t c', s, lim, log) = Some w \<Longrightarrow> same_mail c c' \<Longrightarrow> \<exists>c'. same_mail c c' \<and> w = (c', s, lim, log)" for t c'
  proof -
    assume a: "Some (reply t c', s, lim, log) = Some w" "same_mail c c'"
    have "same_mail c (reply t c')" using a(2) unfolding same_mail_def reply_fields .
    moreover have "w = (reply t c', s, lim, log)" using a(1) by (rule option.inject [THEN iffD1, symmetric])
    ultimately show ?thesis by (intro exI conjI)
  qed
  have r: "same_mail c c' \<Longrightarrow> same_mail c (reply t c')" for t c' unfolding same_mail_def reply_fields .
  note w = assms [unfolded smtp_command_def prod.case]
  show ?thesis
  proof (cases "cmd \<in> {''AUTH'', ''MAIL'', ''RCPT'', ''DATA'', ''RSET''}")
    case True
    then have "cmd = ''AUTH'' \<or> cmd = ''MAIL'' \<or> cmd = ''RCPT'' \<or> cmd = ''DATA'' \<or> cmd = ''RSET''" by simp
    then show ?thesis by (elim disjE) (use w in simp_all)
  next
    case False
    then have n: "cmd \<noteq> ''AUTH''" "cmd \<noteq> ''MAIL''" "cmd \<noteq> ''RCPT''" "cmd \<noteq> ''DATA''" "cmd \<noteq> ''RSET''" by simp_all
    have "\<exists>t c'. same_mail c c' \<and> Some (reply t c', s, lim, log) = Some w"
    proof (cases "cmd = ''EHLO''")
      case True
      then have "Some (reply ''250 OK'' (reply ''250-8BITMIME'' (reply (''250-SIZE '' @ itoa (int maxMessageSize))
        (reply ''250-AUTH PLAIN LOGIN'' (reply ''250-lifemail'' c)))), s, lim, log) = Some w" using w by simp
      then show ?thesis by (intro exI conjI) (rule r [OF r [OF r [OF r [OF same_mail_refl]]]])
    next
      case False
      note w' = w [unfolded if_not_P [OF False] if_not_P [OF n(1)] if_not_P [OF n(2)] if_not_P [OF n(3)] if_not_P [OF n(4)]
          if_not_P [OF n(5)]]
      have "\<exists>t. Some (reply t c, s, lim, log) = Some w"
        by (rule answers [where f = "\<lambda>t. (reply t c, s, lim, log)", OF w'])
      then show ?thesis using same_mail_refl by blast
    qed
    then show ?thesis using o by blast
  qed
qed

lemma smtp_step_cases:
  assumes "smtp_step srv now (c0, s, lim, log) = Some w"
  obtains (auth) c arg where "same_mail c0 c" "w = smtpAuth srv now arg (c, s, lim, log)"
  | (mail) c arg where "same_mail c0 c" "w = smtpMail arg (c, s, lim, log)"
  | (rcpt) c arg where "same_mail c0 c" "w = smtpRcpt arg (c, s, lim, log)"
  | (data) c where "same_mail c0 c" "smtpData srv (c, s, lim, log) = Some w"
  | (rset) c where "same_mail c0 c" "w = (reply ''250 2.0.0 Ok'' (reset c), s, lim, log)"
  | (other) c where "same_mail c0 c" "w = (c, s, lim, log)"
proof -
  obtain line c where l: "read_line c0 = (Inr line, c)" using assms by (auto simp: smtp_step_def split: prod.splits sum.splits)
  have same: "same_mail c0 c" using read_line_same [OF l] .
  obtain cmd arg where ca: "smtpCommand line = (cmd, arg)" by (cases "smtpCommand line")
  have "smtp_command srv now cmd arg (c, s, lim, log) = Some w" using assms l ca by (simp add: smtp_step_def)
  note c = smtp_command_cases [OF this]
  show thesis
    using c auth [OF same] mail [OF same] rcpt [OF same] data [OF same] rset [OF same] other same_mail_trans [OF same]
    by (elim disjE exE conjE) metis+
qed

text \<open>Nothing happens before the password. While a connection is not logged in, no command changes
  the tables or sends anything or begins a mail; and a command that logs it in does so as an
  account whose password the client has given, while its name is not locked.\<close>

theorem smtp_login_required:
  assumes "smtp_step srv now (c, s, lim, log) = Some (c', s', lim', log')" "sb_user c = None"
  shows "st_db s' = st_db s \<and> log' = log \<and> (sb_from c = [] \<longrightarrow> sb_from c' = []) \<and> (sb_rcpts c = [] \<longrightarrow> sb_rcpts c' = []) \<and>
    (\<forall>u. sb_user c' = Some u \<longrightarrow> (\<exists>email password. fst (UserByLogin email s) = Inr u \<and>
      sv_bcrypt srv (us_hash u) password \<and> \<not> fst (fst (Locked now (smtpKey c email) lim))))"
  using assms(1)
proof (cases rule: smtp_step_cases)
  case (auth c1 arg)
  have k: "smtpKey c1 e = smtpKey c e" for e using auth(1) by (simp add: smtpKey_def same_mail_def)
  note R = smtpAuth_result [OF auth(2) [symmetric]]
  have "\<exists>email password. fst (UserByLogin email s) = Inr u \<and> sv_bcrypt srv (us_hash u) password \<and>
      \<not> fst (fst (Locked now (smtpKey c email) lim))" if "sb_user c' = Some u" for u
  proof -
    have "sb_user c' \<noteq> sb_user c1" using that auth(1) assms(2) by (simp add: same_mail_def)
    then obtain e p v where "sb_user c' = Some v" "fst (UserByLogin e s) = Inr v" "sv_bcrypt srv (us_hash v) p"
      "\<not> fst (fst (Locked now (smtpKey c e) lim))" using R unfolding k by blast
    then show ?thesis using that by (intro exI [of _ e] exI [of _ p]) simp
  qed
  then show ?thesis using R auth(1) by (simp add: same_mail_def)
next
  case (mail c1 arg)
  then show ?thesis using assms(2) by (auto simp: same_mail_def smtpMail_def)
next
  case (rcpt c1 arg)
  then show ?thesis using assms(2) by (auto simp: same_mail_def smtpRcpt_def)
next
  case (data c1)
  then show ?thesis using assms(2) by (auto simp: same_mail_def smtpData_def)
qed (use assms(2) in \<open>auto simp: same_mail_def reset_def\<close>)


text \<open>A connection that has not logged in and sends \<open>MAIL\<close>.\<close>

definition new_smtp_conn :: "string \<Rightarrow> smtp_conn" where
  "new_smtp_conn inp = \<lparr>sb_user = None, sb_from = [], sb_rcpts = [], sb_in = inp, sb_out = [], sb_writes = None, sb_dot = None,
     sb_remote = ''10.0.0.1''\<rparr>"

lemma noop_text: "smtpCommand ''NOOP'' = (''NOOP'', [])"
  by code_simp

theorem smtp_login_required_witness:
  "\<exists>c' lim' log'. smtp_step demo_smtp 0 (new_smtp_conn (''NOOP'' @ [CHR 0x0D, CHR 0x0A]), demo_store, None, []) =
     Some (c', demo_store, lim', log') \<and> log' = []"
proof -
  have r: "read_line (new_smtp_conn (''NOOP'' @ [CHR 0x0D, CHR 0x0A])) = (Inr ''NOOP'', new_smtp_conn [])"
    by (simp add: read_line_def new_smtp_conn_def close_dot_def drop_cr_def)
  have s: "smtp_step demo_smtp 0 (new_smtp_conn (''NOOP'' @ [CHR 0x0D, CHR 0x0A]), demo_store, None, []) =
      Some (reply ''250 2.0.0 Ok'' (new_smtp_conn []), demo_store, None, [])"
    unfolding smtp_step_def prod.case r sum.case noop_text by (simp add: smtp_command_def)
  show ?thesis using s smtp_login_required [OF s] by (simp add: new_smtp_conn_def)
qed

text \<open>A mail only starts under a name of the sender. Whenever a command sets the sender of the
  envelope, the account is logged in, and the address is its primary address up to case or
  resolves to it.\<close>

theorem smtp_sender_owned:
  assumes "smtp_step srv now (c, s, lim, log) = Some (c', s', lim', log')" "sb_from c' \<noteq> []" "sb_from c' \<noteq> sb_from c"
  shows "\<exists>u. sb_user c' = Some u \<and> (us_address u \<noteq> [] \<and> equal_fold (sb_from c') (us_address u) \<or>
    (\<exists>v. account_of (st_db s) (sb_from c') = Some v \<and> us_id v = us_id u))"
  using assms(1)
proof (cases rule: smtp_step_cases)
  case (auth c1 arg)
  then show ?thesis using smtpAuth_result [OF auth(2) [symmetric]] assms(3) by (simp add: same_mail_def)
next
  case (mail c1 arg)
  have same: "sb_from c1 = sb_from c" using mail(1) by (simp add: same_mail_def)
  obtain u where u: "sb_user c1 = Some u" using mail(2) assms(3) same by (cases "sb_user c1") (auto simp: smtpMail_def)
  obtain a where a: "parsePath arg ''FROM:'' = Some a"
    using mail(2) assms(3) same u by (cases "parsePath arg ''FROM:''") (auto simp: smtpMail_def)
  obtain b t where b: "maySendAs u a s = (b, t)" by (cases "maySendAs u a s")
  have "b" using mail(2) assms(3) same u a b by (cases b) (auto simp: smtpMail_def)
  then have c: "sb_from c' = a" "sb_user c' = Some u" using mail(2) u a b by (simp_all add: smtpMail_def)
  show ?thesis using maySendAs_True [OF b] \<open>b\<close> c by auto
next
  case (rcpt c1 arg)
  then have "sb_from c' = sb_from c" by (auto simp: same_mail_def smtpRcpt_def split: if_splits option.splits)
  then show ?thesis using assms(3) by simp
next
  case (data c1)
  have n: "sb_from (fst (submit srv raw (c2, s, lim, log))) = []" for raw c2
    by (auto simp: submit_def reset_def split: option.split sum.split smtp_error.split prod.split)
  have "sb_from c' = sb_from c \<or> sb_from c' = []"
    using data n by (auto simp: smtpData_def same_mail_def reset_def split: if_splits prod.splits bool.splits sum.splits)
       (metis fst_conv)+
  then show ?thesis using assms by auto
next
  case (rset c1)
  then show ?thesis using assms(2) by (simp add: reset_def)
next
  case (other c1)
  then show ?thesis using assms(3) by (simp add: same_mail_def)
qed

text \<open>Lines a logged-in connection may send next.\<close>

definition user_smtp_conn :: "string \<Rightarrow> smtp_conn" where
  "user_smtp_conn inp = (new_smtp_conn inp)\<lparr>sb_user := Some demo_user\<rparr>"

lemma mail_text: "smtpCommand ''MAIL FROM:<U@x>'' = (''MAIL'', ''FROM:<U@x>'')" "parsePath ''FROM:<U@x>'' ''FROM:'' = Some ''u@x''"
  by code_simp+

lemma may_send_demo: "fst (maySendAs demo_user ''u@x'' demo_store)"
  by code_simp

theorem smtp_sender_owned_witness:
  "\<exists>c' s' lim' log' u. smtp_step demo_smtp 0 (user_smtp_conn (''MAIL FROM:<U@x>'' @ [CHR 0x0D, CHR 0x0A]), demo_store, None, []) =
     Some (c', s', lim', log') \<and> sb_from c' = ''u@x'' \<and> sb_user c' = Some u"
proof -
  let ?c = "user_smtp_conn (''MAIL FROM:<U@x>'' @ [CHR 0x0D, CHR 0x0A])"
  have r: "read_line ?c = (Inr ''MAIL FROM:<U@x>'', user_smtp_conn [])"
    by (simp add: read_line_def user_smtp_conn_def new_smtp_conn_def close_dot_def drop_cr_def)
  obtain t where m: "maySendAs demo_user ''u@x'' demo_store = (True, t)"
    using may_send_demo by (cases "maySendAs demo_user ''u@x'' demo_store") simp
  have u: "sb_user (user_smtp_conn []) = Some demo_user" by (simp add: user_smtp_conn_def)
  have s: "smtp_step demo_smtp 0 (?c, demo_store, None, []) =
      Some (reply ''250 2.1.0 Ok'' (user_smtp_conn []\<lparr>sb_from := ''u@x'', sb_rcpts := []\<rparr>), t, None, [])"
    unfolding smtp_step_def prod.case r sum.case mail_text(1)
    by (simp add: smtp_command_def smtpMail_def u mail_text(2) m)
  from smtp_sender_owned [OF s] s show ?thesis by (simp add: user_smtp_conn_def new_smtp_conn_def)
qed

section \<open>The invariant\<close>

text \<open>A session of the server: commands, and between them anything that keeps the tables consistent.\<close>

inductive smtp_session :: "smtp_server \<Rightarrow> smtp_world \<Rightarrow> bool" for srv where
  open_conn: "store_ok s \<Longrightarrow> smtp_open srv remote inp writes = Some c \<Longrightarrow> smtp_session srv (c, s, lim, log)"
| command: "smtp_session srv w \<Longrightarrow> smtp_step srv now w = Some w' \<Longrightarrow> smtp_session srv w'"
| elsewhere: "smtp_session srv (c, s, lim, log) \<Longrightarrow> store_ok s' \<Longrightarrow> smtp_session srv (c, s', lim', log)"

definition mail_state_ok :: "smtp_conn \<Rightarrow> bool" where
  "mail_state_ok c \<longleftrightarrow> (sb_from c \<noteq> [] \<longrightarrow> sb_user c \<noteq> None) \<and> (sb_rcpts c \<noteq> [] \<longrightarrow> sb_from c \<noteq> []) \<and> length (sb_rcpts c) \<le> 50"

lemma mail_state_same: "same_mail c c' \<Longrightarrow> mail_state_ok c' = mail_state_ok c"
  by (simp add: same_mail_def mail_state_ok_def)

lemma mail_state_reset: "mail_state_ok (reset c)"
  by (simp add: mail_state_ok_def reset_def)

lemma mail_state_reply [simp]: "mail_state_ok (reply t c) = mail_state_ok c"
  by (simp add: mail_state_ok_def)

lemma deliverLocal_ok:
  assumes h: "hook_keeps store_ok (sv_hook srv)"
  shows "store_ok s \<Longrightarrow> deliverLocal srv p raw rcpts ext s = (r, s') \<Longrightarrow> store_ok s'"
proof (induction rcpts arbitrary: s ext)
  case (Cons a rcpts)
  obtain q s1 where q: "UserByAddress a s = (q, s1)" by (cases "UserByAddress a s")
  then have s1: "store_ok s1" using Cons.prems(1) UserByAddress_db [of a s] by (simp add: store_ok_def)
  show ?case
  proof (cases q)
    case (Inl e)
    then show ?thesis using Cons.prems(2) q Cons.IH [OF s1] s1 by (auto split: option.splits if_splits)
  next
    case (Inr u)
    obtain d s2 where d: "deliver_once (sv_lib srv) (sv_hook srv) u p raw s1 = (d, s2)"
      by (cases "deliver_once (sv_lib srv) (sv_hook srv) u p raw s1")
    have s2: "store_ok s2" by (rule keepsD_eq [OF deliver_once_keeps [OF of_tables_ok(1) keeps_ToUser [OF h]] s1 d])
    then show ?thesis using Cons.prems(2) q Inr d Cons.IH [OF s2] by (cases d) auto
  qed
qed simp

lemma relay_ok: "store_ok s \<Longrightarrow> relay srv a ext raw s log = (r, s', log') \<Longrightarrow> store_ok s'"
  by (auto simp: relay_def split: if_splits bool.splits prod.splits dest: send_or_queue_ok)

lemma submit_ok:
  assumes "store_ok s" "hook_keeps store_ok (sv_hook srv)" "submit srv raw (c, s, lim, log) = (c', s', lim', log')"
  shows "store_ok s' \<and> (\<exists>t. c' = reset (reply t c))"
proof (cases "\<not> length raw > maxMessageSize \<and> fst (Parse (sv_lib srv) (sv_reader srv raw)) \<noteq> None")
  case False
  then show ?thesis using assms by (auto simp: submit_def split: if_splits option.splits)
next
  case True
  then obtain p where p: "fst (Parse (sv_lib srv) (sv_reader srv raw)) = Some p" "\<not> length raw > maxMessageSize" by auto
  obtain r s1 where d: "deliverLocal srv p raw (sb_rcpts c) [] s = (r, s1)" by (cases "deliverLocal srv p raw (sb_rcpts c) [] s")
  have s1: "store_ok s1" by (rule deliverLocal_ok [OF assms(2,1) d])
  have sub: "submit srv raw (c, s, lim, log) = (case r of
        Inl (ErrUnknownLocal _) \<Rightarrow> (reset (reply ''550 5.1.1 Unknown recipient'' c), s1, lim, log)
      | Inl _ \<Rightarrow> (reset (reply ''451 4.3.0 Local delivery failed'' c), s1, lim, log)
      | Inr external \<Rightarrow> (case relay srv (sb_from c) external raw s1 log of
             (Some err, s2, log1) \<Rightarrow> (reset (reply err c), s2, lim, log1)
           | (None, s2, log1) \<Rightarrow> (reset (reply ''250 2.0.0 Ok: queued'' c), s2, lim, log1)))"
    using p d by (simp add: submit_def split: sum.split)
  show ?thesis
  proof (cases r)
    case (Inl e)
    then show ?thesis using assms(3) s1 by (cases e) (auto simp: sub)
  next
    case (Inr ext)
    obtain a s2 log2 where a: "relay srv (sb_from c) ext raw s1 log = (a, s2, log2)"
      by (cases "relay srv (sb_from c) ext raw s1 log")
    have "store_ok s2" by (rule relay_ok [OF s1 a])
    then show ?thesis using assms(3) a Inr by (auto simp: sub split: option.splits)
  qed
qed

lemma smtp_step_ok:
  assumes "smtp_step srv now (c, s, lim, log) = Some (c', s', lim', log')" "store_ok s" "mail_state_ok c"
    "hook_keeps store_ok (sv_hook srv)"
  shows "store_ok s' \<and> mail_state_ok c'"
  using assms(1)
proof (cases rule: smtp_step_cases)
  case (auth c1 arg)
  then show ?thesis using smtpAuth_result [OF auth(2) [symmetric]] assms(2,3)
    by (auto simp: store_ok_def mail_state_ok_def same_mail_def)
next
  case (mail c1 arg)
  have c1: "mail_state_ok c1" using mail(1) assms(3) mail_state_same by blast
  show ?thesis
  proof (cases "sb_user c1 = None \<or> parsePath arg ''FROM:'' = None")
    case True
    then show ?thesis using mail(2) c1 assms(2) by (auto simp: smtpMail_def split: option.splits)
  next
    case False
    then obtain u a where u: "sb_user c1 = Some u" "parsePath arg ''FROM:'' = Some a" by auto
    obtain b t where b: "maySendAs u a s = (b, t)" by (cases "maySendAs u a s")
    have "store_ok t" using maySendAs_True [OF b] assms(2) by (simp add: store_ok_def)
    then show ?thesis using mail(2) c1 u b by (cases b) (simp_all add: smtpMail_def, simp add: mail_state_ok_def)
  qed
next
  case (rcpt c1 arg)
  have c1: "mail_state_ok c1" using rcpt(1) assms(3) mail_state_same by blast
  then show ?thesis using rcpt(2) assms(2)
    by (auto simp: smtpRcpt_def split: if_splits option.splits) (auto simp: mail_state_ok_def)
next
  case (data c1)
  have c1: "mail_state_ok c1" using data(1) assms(3) mail_state_same by blast
  show ?thesis
  proof (cases "sb_user c1 = None \<or> sb_from c1 = [] \<or> sb_rcpts c1 = []")
    case True
    then show ?thesis using data(2) c1 assms(2) by (auto simp: smtpData_def)
  next
    case F: False
    obtain b c2 where p: "print_line ''354 End data with <CR><LF>.<CR><LF>'' c1 = (b, c2)"
      by (cases "print_line ''354 End data with <CR><LF>.<CR><LF>'' c1")
    obtain r c3 where m: "read_mail c2 = (r, c3)" by (cases "read_mail c2")
    have b: "b" using data(2) F p by (cases b) (simp_all add: smtpData_def)
    show ?thesis
    proof (cases r)
      case (Inl e)
      then show ?thesis using data(2) F p m b assms(2) by (auto simp: smtpData_def mail_state_reset)
    next
      case (Inr raw)
      then have "submit srv raw (c3, s, lim, log) = (c', s', lim', log')" using data(2) F p m b by (simp add: smtpData_def)
      from submit_ok [OF assms(2,4) this] show ?thesis by (auto simp: mail_state_reset)
    qed
  qed
next
  case (rset c1)
  then show ?thesis using assms(2) by (simp add: mail_state_reset)
next
  case (other c1)
  then show ?thesis using assms(2,3) mail_state_same by auto
qed

text \<open>C31: a session of the server never damages the tables. Whatever commands arrive on a connection, and
  whatever the rest of the server does to consistent tables in between, the tables stay
  consistent, a sender is only set for an account that is logged in, recipients only follow a
  sender, and there are never more than fifty.\<close>

theorem smtp_session_invariant:
  assumes "smtp_session srv (c, s, lim, log)" "hook_keeps store_ok (sv_hook srv)"
  shows "store_ok s \<and> (sb_from c \<noteq> [] \<longrightarrow> sb_user c \<noteq> None) \<and> (sb_rcpts c \<noteq> [] \<longrightarrow> sb_from c \<noteq> []) \<and>
    length (sb_rcpts c) \<le> 50"
proof -
  have "store_ok (fst (snd w)) \<and> mail_state_ok (fst w)" if "smtp_session srv w" for w
    using that
  proof induction
    case (open_conn s remote inp writes c lim log)
    then have "mail_state_ok c" by (auto simp: smtp_open_def mail_state_ok_def print_line_def split: if_splits)
    then show ?case using open_conn by simp
  next
    case (command w now w')
    obtain c s lim log where w: "w = (c, s, lim, log)" by (cases w)
    obtain c' s' lim' log' where w': "w' = (c', s', lim', log')" by (cases w')
    show ?case using command smtp_step_ok [OF command(2) [unfolded w w'] _ _ assms(2)] by (simp add: w w')
  next
    case (elsewhere c s lim log s' lim')
    then show ?case by simp
  qed
  from this [OF assms(1)] show ?thesis by (simp add: mail_state_ok_def)
qed

theorem smtp_session_invariant_witness:
  "\<exists>c s lim log. smtp_session demo_smtp (c, s, lim, log) \<and> store_ok s \<and> length (sb_rcpts c) \<le> 50"
proof -
  have "\<exists>c. smtp_open demo_smtp [] [] None = Some c" by (simp add: smtp_open_def print_line_def)
  then obtain c where c: "smtp_open demo_smtp [] [] None = Some c" by (elim exE)
  note w = smtp_session.open_conn [OF demo_ok c, of None "[]"]
  have h: "hook_keeps store_ok (sv_hook demo_smtp)" by (simp add: demo_smtp_def hook_keeps_def)
  show ?thesis using smtp_session_invariant [OF w h] w by blast
qed

end
