(* ===== verification/EasCompose.thy ===== *)
theory EasCompose imports Handover EasServer begin

text \<open>
  \<open>internal/eas/compose.go\<close> and the answers to invitations in \<open>extended.go\<close>: what a device composes
  is parsed, its recipients are told apart, and it is relayed, delivered and filed. The world of
  a command is the store, the calls of the relay, the number of random identifiers drawn and, for
  \<open>EasOof\<close>, when each correspondent was answered. \<open>mail_env\<close> holds what the code only calls: the
  libraries for mails and times, the hook, the relay, bytes of randomness and the clock, which one
  command reads once. Dumps of mails for debugging and the log are not modelled.
\<close>

record mail_env =
  me_lib :: mail_lib
  me_env :: env
  me_reader :: "string \<Rightarrow> mime_reader option"
  me_hook :: "inbox_hook option"
  me_local :: "(string \<Rightarrow> bool) option"
  me_sender :: "sender option"
  me_peer :: "nat \<Rightarrow> smtp_peer"
  me_fresh :: "nat \<Rightarrow> string"
  me_qenc :: "string \<Rightarrow> string"
  me_local_time :: "string \<Rightarrow> int \<Rightarrow> string"
  me_now :: int

record mail_world =
  mw_store :: store
  mw_log :: send_log
  mw_drawn :: nat
  mw_oof :: "string \<rightharpoonup> int"

section \<open>The mail of a device\<close>

text \<open>Blanks are ASCII, as everywhere in the model.\<close>

(* src: internal/eas/compose.go 203-227 decodeMime *)
definition decodeMime :: "node option \<Rightarrow> string option" where
  "decodeMime n = (case n of
     None \<Rightarrow> None
   | Some x \<Rightarrow>
      if trim_space (n_text x) = [] then None
      else (case b64_decode (filter (\<lambda>c. \<not> is_space c) (n_text x)) of
         Some raw \<Rightarrow> Some raw
       | None \<Rightarrow> if n_binary x \<or> contains_byte (n_text x) CHR '':'' then Some (n_text x) else None))"

(* src: internal/eas/compose.go 74-83 Server.sendComposed *)
fun first_seen :: "string list \<Rightarrow> string list \<Rightarrow> string list" where
  "first_seen seen [] = []"
| "first_seen seen (a # as) = (if a \<in> set seen then first_seen seen as else a # first_seen (a # seen) as)"

(* src: internal/eas/compose.go 74-83 Server.sendComposed *)
definition recipients_of :: "mail_lib \<Rightarrow> parsed_mail \<Rightarrow> string list" where
  "recipients_of l p = first_seen [] (concat (map (Addresses l) [pm_to p, pm_cc p, pm_bcc p]))"

text \<open>Accounts, outside addresses, and addresses of a domain of this server that no account owns.\<close>

(* src: internal/eas/compose.go 163-176 Server.classifyRecipients *)
fun classifyRecipients :: "mail_env \<Rightarrow> string list \<Rightarrow> store \<Rightarrow> (user list \<times> string list \<times> string list) \<times> store" where
  "classifyRecipients E [] s = (([], [], []), s)"
| "classifyRecipients E (addr # as) s = (case UserByAddress addr s of
     (Inr owner, s1) \<Rightarrow> (case classifyRecipients E as s1 of ((l, x, u), s2) \<Rightarrow> ((owner # l, x, u), s2))
   | (Inl _, s1) \<Rightarrow> (case classifyRecipients E as s1 of ((l, x, u), s2) \<Rightarrow>
        (case me_local E of
           Some isLocal \<Rightarrow> if isLocal (Domain addr) then ((l, x, addr # u), s2) else ((l, addr # x, u), s2)
         | None \<Rightarrow> ((l, addr # x, u), s2))))"

(* src: internal/eas/compose.go 63-73 Server.sendComposed *)
definition with_message_id :: "mail_env \<Rightarrow> user \<Rightarrow> nat \<Rightarrow> string \<Rightarrow> parsed_mail \<Rightarrow> string \<times> parsed_mail \<times> nat" where
  "with_message_id E user n raw p =
    (if pm_msgid p \<noteq> [] then (raw, p, n)
     else
       (let domain = (case last_index_byte (us_address user) CHR ''@'' of
              Some at \<Rightarrow> drop (at + 1) (us_address user) | None \<Rightarrow> ''lifemail.local'');
            (raw', i) = EnsureMessageID (me_fresh E n) raw domain in
        (raw', p\<lparr>pm_msgid := i\<rparr>, if headerMessageID raw = [] then Suc n else n)))"

text \<open>The sender of the envelope.\<close>

(* src: internal/eas/compose.go 98-109 Server.sendComposed *)
definition chooseSender :: "user \<Rightarrow> string \<Rightarrow> store \<Rightarrow> string \<times> store" where
  "chooseSender user header s =
    (let a = to_lower (trim_space header) in
     if a \<noteq> [] \<and> \<not> equal_fold a (us_address user) then
       (case UserByAddress a s of
          (Inr owner, s') \<Rightarrow> (if us_id owner = us_id user then a else us_address user, s')
        | (Inl _, s') \<Rightarrow> (us_address user, s'))
     else (us_address user, s))"

(* src: internal/eas/compose.go 111-122 Server.sendComposed *)
definition with_from :: "mail_env \<Rightarrow> user \<Rightarrow> string \<Rightarrow> string \<Rightarrow> parsed_mail \<Rightarrow> string \<times> parsed_mail" where
  "with_from E user from raw p =
    (if trim_space (pm_from_addr p) \<noteq> [] then (raw, p)
     else
       (let p' = p\<lparr>pm_from_addr := from, pm_from_name := (if pm_from_name p = [] then us_display user else pm_from_name p)\<rparr> in
        (EnsureFrom (me_lib E) raw (pm_from_name p') from, p')))"

text \<open>The accounts among the recipients, one by one; false when a delivery fails.\<close>

(* src: internal/eas/compose.go 142-153 Server.sendComposed *)
fun deliver_each :: "mail_env \<Rightarrow> parsed_mail \<Rightarrow> string \<Rightarrow> user list \<Rightarrow> store \<Rightarrow> bool \<times> store" where
  "deliver_each E p raw [] s = (True, s)"
| "deliver_each E p raw (owner # us) s =
    (case deliver_once (me_lib E) (me_hook E) owner p raw s of
       (Inl _, s1) \<Rightarrow> (False, s1) | (Inr _, s1) \<Rightarrow> deliver_each E p raw us s1)"

(* src: internal/eas/compose.go 124-140 Server.sendComposed *)
definition relay_external :: "mail_env \<Rightarrow> string \<Rightarrow> string list \<Rightarrow> string \<Rightarrow> store \<Rightarrow> send_log \<Rightarrow> bool \<times> store \<times> send_log" where
  "relay_external E from external raw s log =
    (if external = [] then (True, s, log)
     else if \<not> Enabled (me_sender E) then (False, s, log)
     else send_or_queue (me_sender E) (me_peer E) (EnvelopeFrom (me_sender E) from) external raw s log)"

(* src: internal/eas/compose.go 178-183 Server.saveSent *)
definition saveSent :: "mail_env \<Rightarrow> user \<Rightarrow> string \<Rightarrow> parsed_mail \<Rightarrow> store \<Rightarrow> store" where
  "saveSent E user raw p s = execE (ToUser (me_lib E) (me_hook E) user FolderSent p raw) s"

text \<open>What happens once the mail is parsed and has an identifier and recipients.\<close>

(* src: internal/eas/compose.go 88-159 Server.sendComposed *)
definition dispatch_mail :: "mail_env \<Rightarrow> user \<Rightarrow> bool \<Rightarrow> string \<Rightarrow> parsed_mail \<Rightarrow> store \<Rightarrow> send_log \<Rightarrow> string \<times> store \<times> send_log" where
  "dispatch_mail E user saveInSent raw p s log =
    (case classifyRecipients E (recipients_of (me_lib E) p) s of ((local, external, unknown), s1) \<Rightarrow>
       if unknown \<noteq> [] then (''6'', s1, log)
       else if us_address user = [] then (''6'', s1, log)
       else (case chooseSender user (pm_from_addr p) s1 of (from, s2) \<Rightarrow>
         (case with_from E user from raw p of (raw', p') \<Rightarrow>
           (case relay_external E from external raw' s2 log of
              (False, s3, log') \<Rightarrow> (''6'', s3, log')
            | (True, s3, log') \<Rightarrow> (case deliver_each E p' raw' local s3 of
                 (False, s4) \<Rightarrow> (''6'', s4, log')
               | (True, s4) \<Rightarrow> (''1'', if saveInSent then saveSent E user raw' p' s4 else s4, log'))))))"

(* src: internal/eas/compose.go 49-159 Server.sendComposed *)
definition sendComposed :: "mail_env \<Rightarrow> user \<Rightarrow> node option \<Rightarrow> bool \<Rightarrow> mail_world \<Rightarrow> string \<times> mail_world" where
  "sendComposed E user node saveInSent w = (case decodeMime (Child node ''Mime'') of
     None \<Rightarrow> (''6'', w)
   | Some raw0 \<Rightarrow> (case fst (Parse (me_lib E) (me_reader E raw0)) of
        None \<Rightarrow> (''6'', w)
      | Some p0 \<Rightarrow> (case with_message_id E user (mw_drawn w) raw0 p0 of (raw, p, n) \<Rightarrow>
          if recipients_of (me_lib E) p = [] then (''2'', w\<lparr>mw_drawn := n\<rparr>)
          else (case dispatch_mail E user saveInSent raw p (mw_store w) (mw_log w) of (status, s', log') \<Rightarrow>
            (status, w\<lparr>mw_store := s', mw_log := log', mw_drawn := n\<rparr>)))))"

(* src: internal/eas/compose.go 25-33 Server.cmdComposeMail *)
fun compose_each :: "mail_env \<Rightarrow> user \<Rightarrow> node option \<Rightarrow> bool \<Rightarrow> string list \<Rightarrow> mail_world \<Rightarrow> node list \<times> mail_world" where
  "compose_each E user req saveInSent [] w = ([], w)"
| "compose_each E user req saveInSent (name # names) w = (case Child req name of
     None \<Rightarrow> compose_each E user req saveInSent names w
   | Some node \<Rightarrow> (case sendComposed E user (Some node) saveInSent w of (status, w1) \<Rightarrow>
       (case compose_each E user req saveInSent names w1 of (ns, w2) \<Rightarrow>
         (wbN pageComposeMail name [wbT pageComposeMail ''Status'' status] # ns, w2))))"

(* src: internal/eas/compose.go 21-38 Server.cmdComposeMail *)
definition cmdComposeMail :: "mail_env \<Rightarrow> user \<Rightarrow> node option \<Rightarrow> mail_world \<Rightarrow> node \<times> mail_world" where
  "cmdComposeMail E user req w =
    (case compose_each E user req (Child req ''SaveInSentItems'' \<noteq> None) [''SendMail'', ''SmartReply'', ''SmartForward''] w of
       (ns, w') \<Rightarrow> (wbN pageComposeMail ''ComposeMail'' (if ns = [] then [wbT pageComposeMail ''Status'' ''2''] else ns), w'))"

(* src: internal/eas/compose.go 40-47 Server.cmdSendMail *)
definition cmdSendMail :: "mail_env \<Rightarrow> user \<Rightarrow> string \<Rightarrow> node option \<Rightarrow> mail_world \<Rightarrow> node \<times> mail_world" where
  "cmdSendMail E user cmd req w = (case sendComposed E user req True w of (status, w') \<Rightarrow>
     (wbN pageComposeMail cmd [wbT pageComposeMail ''Status'' status], w'))"

section \<open>The invariant\<close>

lemma classifyRecipients_db: "st_db (snd (classifyRecipients E as s)) = st_db s"
proof (induction as arbitrary: s)
  case (Cons a as)
  obtain q s1 where q: "UserByAddress a s = (q, s1)" by (cases "UserByAddress a s")
  have s1: "st_db s1 = st_db s" using UserByAddress_db [of a s] q by simp
  obtain l x u s2 where r: "classifyRecipients E as s1 = ((l, x, u), s2)" by (metis prod.collapse)
  have "st_db s2 = st_db s" using Cons.IH [of s1] r s1 by simp
  then show ?case using q r by (cases q) (auto split: option.split)
qed simp

lemma chooseSender_db: "st_db (snd (chooseSender user h s)) = st_db s"
proof (cases "UserByAddress (to_lower (trim_space h)) s")
  case (Pair q t)
  then show ?thesis using UserByAddress_db [of "to_lower (trim_space h)" s]
    by (cases q) (simp_all add: chooseSender_def Let_def)
qed

lemma deliver_each_ok:
  assumes "hook_keeps store_ok (me_hook E)"
  shows "store_ok s \<Longrightarrow> store_ok (snd (deliver_each E p raw us s))"
proof (induction us arbitrary: s)
  case (Cons u us)
  obtain d s1 where d: "deliver_once (me_lib E) (me_hook E) u p raw s = (d, s1)"
    by (cases "deliver_once (me_lib E) (me_hook E) u p raw s")
  have "store_ok s1"
    by (rule keepsD_eq [OF deliver_once_keeps [OF of_tables_ok(1) keeps_ToUser [OF assms]] Cons.prems d])
  then show ?case using Cons.IH d by (cases d) auto
qed simp

lemma relay_external_ok:
  assumes "store_ok s" "relay_external E f x raw s log = (b, s', log')" shows "store_ok s'"
proof (cases "x = [] \<or> \<not> Enabled (me_sender E)")
  case True
  then show ?thesis using assms by (auto simp: relay_external_def split: if_splits)
next
  case False
  then have "send_or_queue (me_sender E) (me_peer E) (EnvelopeFrom (me_sender E) f) x raw s log = (b, s', log')"
    using assms(2) by (simp add: relay_external_def)
  then show ?thesis by (rule send_or_queue_ok [OF assms(1)])
qed

lemma saveSent_ok: "hook_keeps store_ok (me_hook E) \<Longrightarrow> store_ok s \<Longrightarrow> store_ok (saveSent E user raw p s)"
  unfolding saveSent_def by (rule keeps_execE [OF keeps_ToUser])

text \<open>The steps of a mail that has recipients.\<close>

lemma dispatch_mail_cases:
  assumes "dispatch_mail E user save raw p s log = (status, s', log')"
  obtains (refused) "status = ''6''" "st_db s' = st_db s" "log' = log"
  | (tried) local external s1 a s2 raw' p' b s3 where
      "classifyRecipients E (recipients_of (me_lib E) p) s = ((local, external, []), s1)" "us_address user \<noteq> []"
      "chooseSender user (pm_from_addr p) s1 = (a, s2)" "with_from E user a raw p = (raw', p')"
      "relay_external E a external raw' s2 log = (b, s3, log')"
      "if b then (case deliver_each E p' raw' local s3 of
           (False, s4) \<Rightarrow> status = ''6'' \<and> s' = s4
         | (True, s4) \<Rightarrow> status = ''1'' \<and> s' = (if save then saveSent E user raw' p' s4 else s4))
       else status = ''6'' \<and> s' = s3"
proof -
  obtain l x u s1 where c: "classifyRecipients E (recipients_of (me_lib E) p) s = ((l, x, u), s1)" by (metis prod.collapse)
  show thesis
  proof (cases "u \<noteq> [] \<or> us_address user = []")
    case True
    then show thesis using assms c refused classifyRecipients_db [of E "recipients_of (me_lib E) p" s]
      by (auto simp: dispatch_mail_def split: if_splits)
  next
    case False
    obtain a s2 where a: "chooseSender user (pm_from_addr p) s1 = (a, s2)" by (cases "chooseSender user (pm_from_addr p) s1")
    obtain raw' p' where f: "with_from E user a raw p = (raw', p')" by (cases "with_from E user a raw p")
    obtain b s3 log3 where r: "relay_external E a x raw' s2 log = (b, s3, log3)" by (metis prod.collapse)
    obtain ok s4 where d: "deliver_each E p' raw' l s3 = (ok, s4)" by (cases "deliver_each E p' raw' l s3")
    have "(status, s', log') = (if b then (if ok then (''1'', if save then saveSent E user raw' p' s4 else s4, log3)
        else (''6'', s4, log3)) else (''6'', s3, log3))"
      using assms c a f r d False by (cases b; cases ok) (simp_all add: dispatch_mail_def)
    then show thesis using tried [of l x s1 a s2 raw' p' b s3] c a f r d False by (auto split: if_splits)
  qed
qed

lemma dispatch_mail_ok:
  assumes "dispatch_mail E user save raw p s log = (status, s', log')" "store_ok s" "hook_keeps store_ok (me_hook E)"
  shows "store_ok s'"
  using assms(1)
proof (cases rule: dispatch_mail_cases)
  case refused
  then show ?thesis using assms(2) by (simp add: store_ok_def)
next
  case (tried local external s1 a s2 raw' p' b s3)
  have "st_db s2 = st_db s"
    using tried(1,3) classifyRecipients_db [of E "recipients_of (me_lib E) p" s] chooseSender_db [of user "pm_from_addr p" s1]
    by simp
  then have "store_ok s2" using assms(2) by (simp add: store_ok_def)
  then have s3: "store_ok s3" using relay_external_ok tried(5) by blast
  obtain ok s4 where d: "deliver_each E p' raw' local s3 = (ok, s4)" by (cases "deliver_each E p' raw' local s3")
  have "store_ok s4" using deliver_each_ok [OF assms(3) s3, of p' raw' local] d by simp
  then show ?thesis using tried(6) s3 d saveSent_ok [OF assms(3)] by (auto split: if_splits bool.splits)
qed

lemma sendComposed_ok:
  assumes "hook_keeps store_ok (me_hook E)" "store_ok (mw_store w)"
  shows "store_ok (mw_store (snd (sendComposed E user node save w)))"
  using assms(2) dispatch_mail_ok [OF _ assms(2,1)]
  by (auto simp: sendComposed_def split: option.split prod.split)

section \<open>What status 1 promises\<close>

lemma classifyRecipients_covers:
  assumes "classifyRecipients E as s = ((l, x, u), s')"
  shows "set x \<union> set u \<subseteq> set as \<and> (\<forall>a\<in>set as. a \<in> set x \<or> a \<in> set u \<or> (\<exists>v\<in>set l. account_of (st_db s) a = Some v))"
  using assms
proof (induction as arbitrary: s s' l x u)
  case (Cons a as)
  obtain q s1 where q: "UserByAddress a s = (q, s1)" by (cases "UserByAddress a s")
  obtain l1 x1 u1 s2 where r: "classifyRecipients E as s1 = ((l1, x1, u1), s2)" by (metis prod.collapse)
  have s1: "st_db s1 = st_db s" using UserByAddress_db [of a s] q by simp
  note IH = Cons.IH [OF r, unfolded s1]
  show ?case
  proof (cases q)
    case (Inl e)
    then show ?thesis using Cons.prems q r IH by (auto split: option.splits if_splits)
  next
    case (Inr v)
    then have "account_of (st_db s) a = Some v" using UserByAddress_Inr q by blast
    then show ?thesis using Cons.prems q r IH Inr by auto
  qed
qed simp

lemma chooseSender_owned:
  assumes "chooseSender user h s = (a, s')"
  shows "a = us_address user \<or> (\<exists>v. account_of (st_db s) a = Some v \<and> us_id v = us_id user)"
proof (cases "UserByAddress (to_lower (trim_space h)) s")
  case (Pair q t)
  then show ?thesis using assms UserByAddress_Inr [of "to_lower (trim_space h)" s _ t]
    by (cases q) (auto simp: chooseSender_def Let_def split: if_splits)
qed

lemma deliver_each_covers:
  assumes "deliver_each E p raw us s = (True, s')" "store_ok s" "good_hook (me_hook E)"
  shows "mail_grows s s' \<and> (\<forall>u\<in>set us. has_mail (us_id u) (pm_msgid p) s')"
  using assms
proof (induction us arbitrary: s)
  case (Cons u us)
  obtain d s1 where d: "deliver_once (me_lib E) (me_hook E) u p raw s = (d, s1)"
    by (cases "deliver_once (me_lib E) (me_hook E) u p raw s")
  then have "d = Inr ()" and step: "deliver_each E p raw us s1 = (True, s')" using Cons.prems(1) by (cases d; simp)+
  then have h: "has_mail (us_id u) (pm_msgid p) s1" using deliver_once_covers d Cons.prems by blast
  have g: "mail_grows s s1" by (rule mail_grows_once [OF Cons.prems(3) d])
  then have "store_ok s1" using Cons.prems(2) by (simp add: mail_grows_def)
  from Cons.IH [OF step this Cons.prems(3)] show ?case using h g by (auto simp: mail_grows_def)
qed simp

lemma relay_external_True:
  assumes "relay_external E a x raw s log = (True, s', log')"
  shows "mail_grows s s' \<and> (x = [] \<and> log' = log \<or> handed_over (EnvelopeFrom (me_sender E) a) x raw log log' s')"
proof (cases "x = []")
  case False
  then have "send_or_queue (me_sender E) (me_peer E) (EnvelopeFrom (me_sender E) a) x raw s log = (True, s', log')"
    using assms by (simp add: relay_external_def split: if_splits)
  then show ?thesis using send_or_queue_True mail_grows_handover by blast
qed (use assms in \<open>simp add: relay_external_def\<close>)

lemma recipients_of_msgid [simp]: "recipients_of l (p\<lparr>pm_msgid := i\<rparr>) = recipients_of l p"
  by (simp add: recipients_of_def)

lemma with_message_id_same:
  "with_message_id E user n raw p = (raw', p', n') \<Longrightarrow> recipients_of l p' = recipients_of l p \<and> pm_from_addr p' = pm_from_addr p"
  by (auto simp: with_message_id_def Let_def split: if_splits prod.splits)

lemma with_from_msgid: "with_from E user a raw p = (raw', p') \<Longrightarrow> pm_msgid p' = pm_msgid p"
  by (auto simp: with_from_def Let_def split: if_splits)

lemma saveSent_grows: "good_hook (me_hook E) \<Longrightarrow> mail_grows s (saveSent E user raw p s)"
proof -
  assume "good_hook (me_hook E)"
  moreover obtain r t where t: "ToUser (me_lib E) (me_hook E) user FolderSent p raw s = (r, t)"
    by (cases "ToUser (me_lib E) (me_hook E) user FolderSent p raw s")
  ultimately have "mail_grows s t" by (rule mail_grows_ToUser)
  then show ?thesis using t by (simp add: saveSent_def execE_def)
qed

text \<open>C16: a device that is answered with status 1 need not keep its mail. The mail could be parsed;
  each of its recipients, blind copies included, is an outside address or an account that now has
  the mail; and for the outside addresses it was handed, on one envelope, to the relay or to the
  queue, under an address of the account that sent it, or the address that the configuration
  puts in its place.\<close>

theorem composed_mail_is_kept:
  assumes "sendComposed E user node save w = (''1'', w')" "store_ok (mw_store w)" "good_hook (me_hook E)"
  shows "\<exists>raw0 p0 raw p n external a raw' t. decodeMime (Child node ''Mime'') = Some raw0 \<and>
    fst (Parse (me_lib E) (me_reader E raw0)) = Some p0 \<and> with_message_id E user (mw_drawn w) raw0 p0 = (raw, p, n) \<and>
    recipients_of (me_lib E) p0 \<noteq> [] \<and> set external \<subseteq> set (recipients_of (me_lib E) p0) \<and>
    (\<forall>r\<in>set (recipients_of (me_lib E) p0). r \<in> set external \<or>
      (\<exists>u. account_of (st_db (mw_store w)) r = Some u \<and> has_mail (us_id u) (pm_msgid p) (mw_store w'))) \<and>
    (a = us_address user \<or> (\<exists>v. account_of (st_db (mw_store w)) a = Some v \<and> us_id v = us_id user)) \<and>
    raw' = fst (with_from E user a raw p) \<and>
    (external = [] \<and> mw_log w' = mw_log w \<or>
      handed_over (EnvelopeFrom (me_sender E) a) external raw' (mw_log w) (mw_log w') t) \<and> mail_grows t (mw_store w')"
proof -
  obtain raw0 p0 where m: "decodeMime (Child node ''Mime'') = Some raw0" "fst (Parse (me_lib E) (me_reader E raw0)) = Some p0"
    using assms(1) by (auto simp: sendComposed_def split: option.splits)
  obtain raw p n where i: "with_message_id E user (mw_drawn w) raw0 p0 = (raw, p, n)" by (metis prod.collapse)
  note same = with_message_id_same [OF i, of "me_lib E"]
  obtain st s' log' where d: "dispatch_mail E user save raw p (mw_store w) (mw_log w) = (st, s', log')" by (metis prod.collapse)
  have ne: "recipients_of (me_lib E) p \<noteq> []" and st: "st = ''1''" and w': "mw_store w' = s'" "mw_log w' = log'"
    using assms(1) m i d by (auto simp: sendComposed_def split: if_splits)
  from d show ?thesis
  proof (cases rule: dispatch_mail_cases)
    case refused
    then show ?thesis using st by simp
  next
    case (tried l x s1 a s2 raw' p' b s3)
    have db: "st_db s1 = st_db (mw_store w)" "st_db s2 = st_db s1"
      using classifyRecipients_db [of E "recipients_of (me_lib E) p" "mw_store w"] tried(1)
        chooseSender_db [of user "pm_from_addr p" s1] tried(3) by simp_all
    have b: "b" using tried(6) st by (cases b) auto
    obtain ok s4 where e: "deliver_each E p' raw' l s3 = (ok, s4)" by (cases "deliver_each E p' raw' l s3")
    then have ok: "ok" and s': "s' = (if save then saveSent E user raw' p' s4 else s4)" using tried(6) b st by (cases ok; auto)+
    have r: "mail_grows s2 s3" "x = [] \<and> log' = mw_log w \<or> handed_over (EnvelopeFrom (me_sender E) a) x raw' (mw_log w) log' s3"
      using relay_external_True [of E a x raw' s2 "mw_log w" s3 log'] tried(5) b by auto
    have "store_ok s3" using r(1) assms(2) db by (simp add: mail_grows_def store_ok_def)
    from deliver_each_covers [OF e [unfolded ok [THEN eq_True [THEN iffD2]]] this assms(3)]
    have g: "mail_grows s3 s4" "\<forall>u\<in>set l. has_mail (us_id u) (pm_msgid p) s4" using with_from_msgid [OF tried(4)] by simp_all
    have f: "mail_grows s4 s'" using saveSent_grows [OF assms(3)] by (simp add: s')
    have cov: "\<forall>r\<in>set (recipients_of (me_lib E) p0). r \<in> set x \<or>
        (\<exists>u. account_of (st_db (mw_store w)) r = Some u \<and> has_mail (us_id u) (pm_msgid p) s')"
      using classifyRecipients_covers [OF tried(1)] g(2) f same by (auto simp: mail_grows_def)
    have own: "a = us_address user \<or> (\<exists>v. account_of (st_db (mw_store w)) a = Some v \<and> us_id v = us_id user)"
      using chooseSender_owned [OF tried(3)] db by simp
    have sub: "set x \<subseteq> set (recipients_of (me_lib E) p0)" using classifyRecipients_covers [OF tried(1)] same by simp
    show ?thesis unfolding w'
      by (rule exI [of _ raw0], rule exI [of _ p0], rule exI [of _ raw], rule exI [of _ p], rule exI [of _ n], rule exI [of _ x],
          rule exI [of _ a], rule exI [of _ raw'], rule exI [of _ s3])
         (intro conjI m i ne [unfolded conjunct1 [OF same]] sub cov own r(2) mail_grows_trans [OF g(1) f], simp add: tried(4))
  qed
qed

lemma relay_external_log:
  assumes "relay_external E a x raw s log = (b, s', log')"
  shows "log' = log \<or> (\<exists>err envs. log' = log @ [(err, envs)] \<and> set envs \<subseteq> {(EnvelopeFrom (me_sender E) a, x, raw)})"
proof (cases "x = [] \<or> \<not> Enabled (me_sender E)")
  case False
  obtain err acc where r: "SmtpSend (me_sender E) None (me_peer E (length log)) (EnvelopeFrom (me_sender E) a) x raw = (err, acc)"
    by (cases "SmtpSend (me_sender E) None (me_peer E (length log)) (EnvelopeFrom (me_sender E) a) x raw")
  have "log' = log @ [(err, acc)]"
    using assms False r by (auto simp: relay_external_def send_or_queue_def Let_def split: if_splits sum.splits prod.splits)
  moreover have "set acc \<subseteq> {(EnvelopeFrom (me_sender E) a, x, raw)}" using SmtpSend_shape [OF r] by auto
  ultimately show ?thesis by blast
qed (use assms in \<open>auto simp: relay_external_def split: if_splits\<close>)

text \<open>The relay gets the bytes of the device. When a mail names itself and its sender, nothing is
  taken out of it or rewritten before it is relayed: its \<open>Bcc\<close> field goes to every recipient, and
  its \<open>From\<close> field is whatever the device wrote, owned or not.\<close>

theorem composed_sent_verbatim:
  assumes "sendComposed E user node save w = (status, w')" "decodeMime (Child node ''Mime'') = Some raw0"
    and "fst (Parse (me_lib E) (me_reader E raw0)) = Some p0" "pm_msgid p0 \<noteq> []" "trim_space (pm_from_addr p0) \<noteq> []"
  shows "mw_log w' = mw_log w \<or> (\<exists>err envs. mw_log w' = mw_log w @ [(err, envs)] \<and> (\<forall>e\<in>set envs. snd (snd e) = raw0))"
proof -
  have i: "with_message_id E user (mw_drawn w) raw0 p0 = (raw0, p0, mw_drawn w)" using assms(4) by (simp add: with_message_id_def)
  obtain st s' log' where d: "dispatch_mail E user save raw0 p0 (mw_store w) (mw_log w) = (st, s', log')" by (metis prod.collapse)
  have w': "mw_log w' = mw_log w \<or> mw_log w' = log'"
    using assms(1-3) i d by (auto simp: sendComposed_def split: if_splits)
  from d show ?thesis
  proof (cases rule: dispatch_mail_cases)
    case refused
    then show ?thesis using w' by simp
  next
    case (tried l x s1 a s2 raw' p' b s3)
    have "raw' = raw0" using tried(4) assms(5) by (simp add: with_from_def)
    with relay_external_log [OF tried(5)] have "log' = mw_log w \<or>
        (\<exists>err envs. log' = mw_log w @ [(err, envs)] \<and> (\<forall>e\<in>set envs. snd (snd e) = raw0))" by fastforce
    then show ?thesis using w' by metis
  qed
qed

section \<open>Examples\<close>

definition demo_headers :: "string \<Rightarrow> string" where
  "demo_headers = (\<lambda>_. [])(''To'' := ''u@x'', ''Bcc'' := ''out@y'', ''Message-Id'' := ''<m>'')"

definition demo_mail_env :: mail_env where
  "demo_mail_env = \<lparr>me_lib = demo_lib, me_env = \<lparr>en_addr_string = (\<lambda>_ a. a), en_parse_address = (\<lambda>_. None), en_time_parse = (\<lambda>_ _. None)\<rparr>,
     me_reader = (\<lambda>_. Some ((demo_reader demo_headers)\<lparr>rd_addresses := (\<lambda>k. if k = ''From'' then Some [([], ''boss@z'')] else None)\<rparr>)),
     me_hook = None, me_local = None, me_sender = demo_sender, me_peer = (\<lambda>_. demo_peer), me_fresh = (\<lambda>_. []), me_qenc = (\<lambda>s. s),
     me_local_time = (\<lambda>_ _. []), me_now = 0\<rparr>"

definition demo_world :: mail_world where
  "demo_world = \<lparr>mw_store = demo_store, mw_log = [], mw_drawn = 0, mw_oof = Map.empty\<rparr>"

definition demo_send :: node where
  "demo_send = wbN pageComposeMail ''SendMail'' [wbT pageComposeMail ''Mime'' ''Bcc: out@y'']"

definition demo_account :: user where
  "demo_account = demo_user\<lparr>us_address := ''u@x''\<rparr>"

lemma demo_send_status: "fst (sendComposed demo_mail_env demo_account (Some demo_send) True demo_world) = ''1''"
  by code_simp

lemma demo_send_parts:
  "decodeMime (Child (Some demo_send) ''Mime'') = Some ''Bcc: out@y''"
  "(case fst (Parse (me_lib demo_mail_env) (me_reader demo_mail_env raw)) of None \<Rightarrow> False
    | Some p \<Rightarrow> pm_msgid p = ''<m>'' \<and> trim_space (pm_from_addr p) = ''boss@z'')"
  by code_simp+

theorem composed_mail_is_kept_witness:
  "\<exists>w' n external a raw' t. sendComposed demo_mail_env demo_account (Some demo_send) True demo_world = (''1'', w') \<and>
     set external \<subseteq> set n \<and> n \<noteq> [] \<and> mail_grows t (mw_store w') \<and>
     (external = [] \<and> mw_log w' = [] \<or> handed_over (EnvelopeFrom demo_sender a) external raw' [] (mw_log w') t)"
proof -
  obtain w' where w': "sendComposed demo_mail_env demo_account (Some demo_send) True demo_world = (''1'', w')"
    using demo_send_status by (cases "sendComposed demo_mail_env demo_account (Some demo_send) True demo_world") simp
  have ok: "store_ok (mw_store demo_world)" "good_hook (me_hook demo_mail_env)"
    by (simp_all add: demo_world_def demo_ok demo_mail_env_def good_hook_None)
  have e: "mw_log demo_world = []" "me_sender demo_mail_env = demo_sender" by (simp_all add: demo_world_def demo_mail_env_def)
  show ?thesis using composed_mail_is_kept [OF w' ok] w' unfolding e by blast
qed

theorem composed_sent_verbatim_witness:
  "\<exists>w'. sendComposed demo_mail_env demo_account (Some demo_send) True demo_world = (''1'', w') \<and>
     (mw_log w' = [] \<or> (\<exists>err envs. mw_log w' = [(err, envs)]))"
proof -
  obtain w' where w': "sendComposed demo_mail_env demo_account (Some demo_send) True demo_world = (''1'', w')"
    using demo_send_status by (cases "sendComposed demo_mail_env demo_account (Some demo_send) True demo_world") simp
  obtain p where p: "fst (Parse (me_lib demo_mail_env) (me_reader demo_mail_env ''Bcc: out@y'')) = Some p" "pm_msgid p \<noteq> []"
    "trim_space (pm_from_addr p) \<noteq> []"
    using demo_send_parts(2) [of "''Bcc: out@y''"] by (auto split: option.splits)
  have e: "mw_log demo_world = []" by (simp add: demo_world_def)
  show ?thesis using composed_sent_verbatim [OF w' demo_send_parts(1) p] w' unfolding e by (metis append_Nil)
qed

end
