(* ===== verification/EasMeeting.thy ===== *)
theory EasMeeting imports EasCompose EasRoundtrip EasItems begin

text \<open>
  \<open>internal/eas/extended.go\<close> and \<open>imip.go\<close>: answers to invitations in both directions, free and
  busy times, the directory and the search. \<open>strings.ToUpper\<close> may change the length of a text
  outside ASCII, and \<open>imip.go\<close> cuts a line where its upper case is found: there the function is a
  parameter, and a cut out of range is a panic, \<open>None\<close>. Times of events are far from the bounds
  of \<open>int64\<close>. Times in the zone of the server are a parameter.
\<close>

section \<open>Mails the server writes\<close>

definition crlf :: string where
  "crlf = [CHR 0x0D, CHR 0x0A]"

definition day_names :: "string list" where
  "day_names = [''Sun'', ''Mon'', ''Tue'', ''Wed'', ''Thu'', ''Fri'', ''Sat'']"

definition month_names :: "string list" where
  "month_names = [''Jan'', ''Feb'', ''Mar'', ''Apr'', ''May'', ''Jun'', ''Jul'', ''Aug'', ''Sep'', ''Oct'', ''Nov'', ''Dec'']"

text \<open>\<open>time.RFC1123Z\<close> in UTC.\<close>

definition rfc1123 :: "int \<Rightarrow> string" where
  "rfc1123 unix = (let days = unix div 86400; sec = unix mod 86400; (y, m, d) = civil days in
     day_names ! nat ((days + 4) mod 7) @ '', '' @ pad 2 d @ '' '' @ month_names ! nat (m - 1) @ '' '' @ pad 4 y @ '' '' @
     pad 2 (sec div 3600) @ '':'' @ pad 2 (sec div 60 mod 60) @ '':'' @ pad 2 (sec mod 60) @ '' +0000'')"

(* src: internal/eas/extended.go 118-129 Server.sendMeetingReply *)
definition auto_mail :: "string \<Rightarrow> string \<Rightarrow> string \<Rightarrow> string \<Rightarrow> string \<Rightarrow> string" where
  "auto_mail from to subject date body =
     ''From: '' @ from @ crlf @ ''To: '' @ to @ crlf @ ''Subject: '' @ subject @ crlf @ ''Date: '' @ date @ crlf @
     ''MIME-Version: 1.0'' @ crlf @ ''Content-Type: text/plain; charset=utf-8'' @ crlf @
     ''Content-Transfer-Encoding: 8bit'' @ crlf @ ''Auto-Submitted: auto-replied'' @ crlf @ crlf @ body"

(* src: internal/eas/extended.go 131-138 Server.sendMeetingReply *)
definition send_auto :: "mail_env \<Rightarrow> user \<Rightarrow> string \<Rightarrow> mail_world \<Rightarrow> string \<times> mail_world" where
  "send_auto E user mail w =
     sendComposed E user (Some (wbN pageComposeMail ''SendMail'' [wbT pageComposeMail ''Mime'' (b64_encode mail)])) False w"

section \<open>Answers to invitations\<close>

definition response_verb :: "int \<Rightarrow> string option" where
  "response_verb r = (if r = 1 then Some ''Tentative'' else if r = 2 then Some ''Accepted''
     else if r = 3 then Some ''Declined'' else None)"

(* src: internal/eas/extended.go 87-139 Server.sendMeetingReply *)
definition sendMeetingReply :: "mail_env \<Rightarrow> user \<Rightarrow> event \<Rightarrow> int \<Rightarrow> mail_world \<Rightarrow> mail_world" where
  "sendMeetingReply E user event userResponse w =
    (let organiser = trim_space (ev_org_email event) in
     if organiser = [] \<or> equal_fold organiser (us_address user) then w
     else (case response_verb userResponse of
        None \<Rightarrow> w
      | Some verb \<Rightarrow>
         (let name = (if us_display user = [] then us_name user else us_display user);
              times = me_local_time E ''2006-01-02 15:04'' (ev_start event) @ '' - '' @ me_local_time E ''15:04'' (ev_end event);
              body = name @ '' has '' @ to_lower verb @ '' this meeting.'' @ crlf @ crlf @ ''Subject: '' @ ev_subject event @ crlf @
                ''When: '' @ times @ crlf @ ''Where: '' @ ev_location event @ crlf in
          snd (send_auto E user (auto_mail (ml_string (me_lib E) name (us_address user)) organiser
            (me_qenc E (verb @ '': '' @ ev_subject event)) (rfc1123 (me_now E div 10 ^ 9)) body) w))))"

text \<open>The status an answer gives the event; \<open>None\<close> for any other number.\<close>

(* src: internal/eas/extended.go 37-48 Server.cmdMeetingResponse *)
definition meetingStatusFor :: "int \<Rightarrow> int option" where
  "meetingStatusFor r = (if r = 1 then Some 9 else if r = 2 then Some 3 else if r = 3 then Some 7 else None)"

text \<open>The change is recorded and the organiser is told.\<close>

(* src: internal/eas/extended.go 54-70 Server.cmdMeetingResponse *)
definition record_answer :: "mail_env \<Rightarrow> user \<Rightarrow> int \<Rightarrow> int \<Rightarrow> event \<Rightarrow> int \<Rightarrow> (go_error + unit) \<times> store \<Rightarrow> mail_world \<Rightarrow> string \<times> mail_world" where
  "record_answer E user folderID requestID event userResponse r w = (case r of
     (Inl _, s) \<Rightarrow> (''3'', w\<lparr>mw_store := s\<rparr>)
   | (Inr _, s) \<Rightarrow> (case AddChange folderID ''change'' ''event'' requestID s of
        (Inl _, s1) \<Rightarrow> (''3'', w\<lparr>mw_store := s1\<rparr>)
      | (Inr _, s1) \<Rightarrow> (''1'', sendMeetingReply E user event userResponse (w\<lparr>mw_store := s1\<rparr>))))"

(* src: internal/eas/extended.go 31-72 Server.cmdMeetingResponse *)
definition answerMeeting :: "mail_env \<Rightarrow> user \<Rightarrow> int \<Rightarrow> int \<Rightarrow> int \<Rightarrow> string \<Rightarrow> mail_world \<Rightarrow> string \<times> mail_world" where
  "answerMeeting E user folderID requestID userResponse instanceID w = (case EventByID requestID (mw_store w) of
     (Inl _, s) \<Rightarrow> (''2'', w\<lparr>mw_store := s\<rparr>)
   | (Inr event, s) \<Rightarrow>
      if ev_user event \<noteq> us_id user \<or> ev_folder event \<noteq> folderID then (''2'', w\<lparr>mw_store := s\<rparr>)
      else (case meetingStatusFor userResponse of
         None \<Rightarrow> (''2'', w\<lparr>mw_store := s\<rparr>)
       | Some status \<Rightarrow>
          if instanceID \<noteq> [] then
            (let occurrence = parseEasTime (me_env E) instanceID in
             if occurrence = zero_time then (''2'', w\<lparr>mw_store := s\<rparr>)
             else record_answer E user folderID requestID event userResponse (SetExceptionMeetingStatus (ev_id event) occurrence status s) w)
          else (let event' = event\<lparr>ev_meeting := status\<rparr> in
             record_answer E user folderID requestID event' userResponse (UpdateEvent event' s) w)))"

(* src: internal/eas/extended.go 19-80 Server.cmdMeetingResponse *)
fun answer_each :: "mail_env \<Rightarrow> user \<Rightarrow> node list \<Rightarrow> mail_world \<Rightarrow> node list \<times> mail_world" where
  "answer_each E user [] w = ([], w)"
| "answer_each E user (item # items) w =
    (let c = parseInt (ChildText (Some item) ''CollectionId'');
         folderID = (if c = 0 then parseInt (ChildText (Some item) ''FolderId'') else c);
         requestID = parseInt (ChildText (Some item) ''RequestId'') in
     case answerMeeting E user folderID requestID (atoiDefault (ChildText (Some item) ''UserResponse'') (-1))
         (trim_space (ChildText (Some item) ''InstanceId'')) w of (status, w1) \<Rightarrow>
     (case answer_each E user items w1 of (ns, w2) \<Rightarrow>
       (wbN pageMeetingResponse ''Result'' [wbT pageMeetingResponse ''Status'' status,
          wbT pageMeetingResponse ''RequestId'' (i64toa requestID), wbT pageMeetingResponse ''FolderId'' (i64toa folderID)] # ns, w2)))"

(* src: internal/eas/extended.go 14-85 Server.cmdMeetingResponse *)
definition cmdMeetingResponse :: "mail_env \<Rightarrow> user \<Rightarrow> node option \<Rightarrow> mail_world \<Rightarrow> node \<times> mail_world" where
  "cmdMeetingResponse E user req w = (case answer_each E user (ChildrenNamed req ''Request'') w of (ns, w') \<Rightarrow>
     (wbN pageMeetingResponse ''MeetingResponse''
        (if ns = [] then [wbT pageMeetingResponse ''Status'' ''2''] else ns), w'))"

section \<open>Answers from others\<close>

(* src: internal/eas/imip.go 140-151 meetingStatusForPartStat *)
definition meetingStatusForPartStat :: "string \<Rightarrow> int" where
  "meetingStatusForPartStat p = (if p = ''ACCEPTED'' then 3 else if p = ''DECLINED'' then 7 else if p = ''TENTATIVE'' then 9 else 0)"

(* src: internal/eas/imip.go 153-164 attendeeStatusForPartStat *)
definition attendeeStatusForPartStat :: "string \<Rightarrow> int" where
  "attendeeStatusForPartStat p = (if p = ''ACCEPTED'' then 3 else if p = ''DECLINED'' then 4 else if p = ''TENTATIVE'' then 2 else 0)"

(* src: internal/eas/imip.go 66-78 hasCalendarPart *)
definition hasCalendarPart :: "parsed_mail \<Rightarrow> bool" where
  "hasCalendarPart p \<longleftrightarrow> list_ex (\<lambda>q. index_str (to_lower (mp_ctype q)) ''text/calendar'' \<noteq> None) (pm_parts p)"

(* src: internal/eas/imip.go 80-97 calendarReply *)
definition calendarReply :: "(string \<Rightarrow> string) \<Rightarrow> parsed_mail \<Rightarrow> string option" where
  "calendarReply up p = map_option mp_data (find (\<lambda>q. index_str (to_lower (mp_ctype q)) ''text/calendar'' \<noteq> None \<and>
     index_str (up (mp_data q)) ''METHOD:REPLY'' \<noteq> None) (pm_parts p))"

fun crlf_to_lf :: "string \<Rightarrow> string" where
  "crlf_to_lf (a # b # s) = (if a = CHR 0x0D \<and> b = CHR 0x0A then CHR 0x0A # crlf_to_lf s else a # crlf_to_lf (b # s))"
| "crlf_to_lf s = s"

(* src: internal/eas/imip.go 104-110 unfold *)
definition unfold_line :: "string \<Rightarrow> string list \<Rightarrow> string list" where
  "unfold_line line out =
    (if line \<noteq> [] \<and> (hd line = CHR '' '' \<or> hd line = CHR 0x09) \<and> out \<noteq> []
     then butlast out @ [last out @ trim_left (\<lambda>c. c = CHR '' '' \<or> c = CHR 0x09) line]
     else out @ [line])"

(* src: internal/eas/imip.go 99-112 unfold *)
definition unfold_ics :: "string \<Rightarrow> string list" where
  "unfold_ics ics = fold unfold_line (split_byte CHR 0x0A (crlf_to_lf ics)) []"

text \<open>\<open>line[k:]\<close>; \<open>None\<close> is the panic.\<close>

definition slice_from :: "string \<Rightarrow> nat \<Rightarrow> string option" where
  "slice_from line k = (if k \<le> length line then Some (drop k line) else None)"

text \<open>What one line adds to the identifier, the participation status and the attendee.\<close>

(* src: internal/eas/imip.go 118-136 parseCalendarReply *)
definition reply_line :: "(string \<Rightarrow> string) \<Rightarrow> string \<Rightarrow> string \<times> string \<times> string \<Rightarrow> (string \<times> string \<times> string) option" where
  "reply_line up line r = (case r of (uid, partstat, attendee) \<Rightarrow>
     if has_prefix (up line) ''UID:'' then map_option (\<lambda>t. (trim_space t, partstat, attendee)) (slice_from line 4)
     else if has_prefix (up line) ''ATTENDEE'' then
       (case (case index_str (up line) ''PARTSTAT='' of
          None \<Rightarrow> Some partstat
        | Some i \<Rightarrow> map_option (\<lambda>t. up (trim_space (hd (split_byte CHR '';'' t)))) (slice_from line (i + 9))) of
          None \<Rightarrow> None
        | Some partstat' \<Rightarrow>
           (case index_str (up line) ''MAILTO:'' of
              None \<Rightarrow> Some (uid, partstat', attendee)
            | Some i \<Rightarrow> map_option (\<lambda>t. (uid, partstat', hd (split_byte CHR '';'' (trim_space t)))) (slice_from line (i + 7))))
     else Some r)"

fun reply_lines :: "(string \<Rightarrow> string) \<Rightarrow> string list \<Rightarrow> string \<times> string \<times> string \<Rightarrow> (string \<times> string \<times> string) option" where
  "reply_lines up [] r = Some r"
| "reply_lines up (l # ls) r = (case reply_line up l r of None \<Rightarrow> None | Some r' \<Rightarrow> reply_lines up ls r')"

(* src: internal/eas/imip.go 114-138 parseCalendarReply *)
definition parseCalendarReply :: "(string \<Rightarrow> string) \<Rightarrow> string \<Rightarrow> (string \<times> string \<times> string) option" where
  "parseCalendarReply up ics = reply_lines up (unfold_ics ics) ([], [], [])"

(* src: internal/eas/imip.go 44-53 Server.HandleIMipReply *)
definition answered :: "string \<Rightarrow> string \<Rightarrow> event \<Rightarrow> event" where
  "answered partstat attendee e = e\<lparr>ev_meeting := meetingStatusForPartStat partstat,
     ev_attendees := map (\<lambda>a. if equal_fold (an_email a) attendee then a\<lparr>an_status := attendeeStatusForPartStat partstat\<rparr> else a)
       (ev_attendees e)\<rparr>"

(* src: internal/eas/imip.go 54-62 Server.HandleIMipReply *)
definition store_answer :: "event \<Rightarrow> event \<Rightarrow> store \<Rightarrow> store" where
  "store_answer event event' s =
    (if event' = event then s
     else (case UpdateEvent event' s of
        (Inl _, s1) \<Rightarrow> s1
      | (Inr _, s1) \<Rightarrow> execE (AddChange (ev_folder event') ''change'' ''event'' (ev_id event')) s1))"

(* src: internal/eas/imip.go 10-64 Server.HandleIMipReply *)
definition HandleIMipReply :: "(string \<Rightarrow> string) \<Rightarrow> user \<Rightarrow> parsed_mail \<Rightarrow> store \<Rightarrow> store option" where
  "HandleIMipReply up user parsed s = (case calendarReply up parsed of
     None \<Rightarrow> Some s
   | Some ics \<Rightarrow> (case parseCalendarReply up ics of
        None \<Rightarrow> None
      | Some (uid, partstat, att) \<Rightarrow>
         if uid = [] \<or> partstat = [] \<or> meetingStatusForPartStat partstat = 0 then Some s
         else (case EventByUID (us_id user) uid s of
            (Inl _, s1) \<Rightarrow> Some s1
          | (Inr event, s1) \<Rightarrow>
             Some (store_answer event (answered partstat (if att = [] then pm_from_addr parsed else att) event) s1))))"

section \<open>The invariant\<close>

lemma HandleIMipReply_cases:
  assumes "HandleIMipReply up u p s = Some s'"
  obtains (unchanged) "st_db s' = st_db s"
  | (changed) s1 event' where "st_db s1 = st_db s" "s' = snd (UpdateEvent event' s1) \<or>
      s' = execE (AddChange (ev_folder event') ''change'' ''event'' (ev_id event')) (snd (UpdateEvent event' s1))"
proof (cases "calendarReply up p")
  case None
  then show thesis using unchanged assms by (simp add: HandleIMipReply_def)
next
  case (Some ics)
  obtain uid partstat att where r: "parseCalendarReply up ics = Some (uid, partstat, att)"
    using assms Some by (auto simp: HandleIMipReply_def split: option.splits)
  show thesis
  proof (cases "uid = [] \<or> partstat = [] \<or> meetingStatusForPartStat partstat = 0")
    case True
    then show thesis using unchanged assms Some r by (auto simp: HandleIMipReply_def)
  next
    case False
    obtain q s1 where q: "EventByUID (us_id u) uid s = (q, s1)" by (cases "EventByUID (us_id u) uid s")
    have "st_db (snd (EventByUID (us_id u) uid s)) = st_db s" unfolding EventByUID_def by (rule get_row_db)
    then have s1: "st_db s1 = st_db s" using q by simp
    show thesis
    proof (cases q)
      case (Inl e)
      then show thesis using unchanged assms Some r False q s1 by (simp add: HandleIMipReply_def)
    next
      case (Inr event)
      then obtain event' where e: "s' = store_answer event event' s1"
        using assms Some r False q by (auto simp: HandleIMipReply_def)
      obtain x s2 where x: "UpdateEvent event' s1 = (x, s2)" by (cases "UpdateEvent event' s1")
      have "s' = s1 \<or> s' = s2 \<or> s' = execE (AddChange (ev_folder event') ''change'' ''event'' (ev_id event')) s2"
        using e x by (cases x) (simp_all add: store_answer_def)
      then show thesis using unchanged changed [OF s1, of event'] s1 x by auto
    qed
  qed
qed

lemma HandleIMipReply_keeps:
  assumes "of_tables I" "\<And>e. keeps I (UpdateEvent e)" "\<And>f i. keeps I (AddChange f ''change'' ''event'' i)"
    and "HandleIMipReply up u p s = Some s'" "I s"
  shows "I s'"
  using assms(4)
proof (cases rule: HandleIMipReply_cases)
  case unchanged
  then show ?thesis using of_tablesD [OF assms(1)] assms(5) by blast
next
  case (changed s1 event')
  have "I s1" using of_tablesD [OF assms(1) changed(1) assms(5)] .
  then have "I (snd (UpdateEvent event' s1))" by (rule keepsD [OF assms(2)])
  then show ?thesis using changed(2) keeps_execE [OF assms(3)] by auto
qed

text \<open>The first half of the hook that the process installs.\<close>

definition imip_hook :: "(string \<Rightarrow> string) \<Rightarrow> inbox_hook" where
  "imip_hook up u p r i c s = (case HandleIMipReply up u p s of None \<Rightarrow> s | Some s' \<Rightarrow> s')"

lemma UpdateEvent_leaves: "tb_messages (st_db (snd (UpdateEvent e s))) = tb_messages (st_db s) \<and>
    tb_users (st_db (snd (UpdateEvent e s))) = tb_users (st_db s) \<and> tb_aliases (st_db (snd (UpdateEvent e s))) = tb_aliases (st_db s)"
  by (simp add: UpdateEvent_def sql_def)

lemma AddChange_leaves: "tb_messages (st_db (snd (AddChange f k t i s))) = tb_messages (st_db s) \<and>
    tb_users (st_db (snd (AddChange f k t i s))) = tb_users (st_db s) \<and> tb_aliases (st_db (snd (AddChange f k t i s))) = tb_aliases (st_db s)"
  by (simp add: AddChange_def sql_def insert_change_def Let_def)

text \<open>Answers to invitations are safe to handle on every delivery: they keep the tables consistent,
  take no mail away and leave the accounts. So everything that is proved of deliveries under a
  hook of this kind, such as what an answer of 250 or a status of 1 promises, holds for this one.\<close>

theorem imip_hook_good:
  "good_hook (Some (imip_hook up))"
proof -
  have k: "hook_keeps I (Some (imip_hook up))"
    if "of_tables I" "\<And>e. keeps I (UpdateEvent e)" "\<And>f i. keeps I (AddChange f ''change'' ''event'' i)" for I
    unfolding hook_keeps_def imip_hook_def using HandleIMipReply_keeps [OF that] by (auto split: option.split)
  have "hook_keeps (has_mail uid mid) (Some (imip_hook up))" for uid mid
    by (rule k) (auto simp: of_tables_def has_mail_def UpdateEvent_leaves AddChange_leaves intro!: keepsI)
  moreover have "hook_keeps (accounts_are us as) (Some (imip_hook up))" for us as
    by (rule k) (auto simp: of_tables_def accounts_are_def UpdateEvent_leaves AddChange_leaves intro!: keepsI)
  ultimately show ?thesis using k [OF of_tables_ok(1) keeps_UpdateEvent keeps_AddChange] by (simp add: good_hook_def)
qed


section \<open>What an answer does\<close>

lemma EventByUID_mem:
  "EventByUID u uid s = (Inr e, s') \<Longrightarrow> e \<in> set (tb_events (st_db s)) \<and> ev_user e = u \<and> ev_uid e = uid \<and> \<not> ev_deleted e \<and> s' = pop_fault s"
proof -
  assume "EventByUID u uid s = (Inr e, s')"
  then obtain xs where x: "limit_rows 1 (sort_desc ev_id (filter (\<lambda>e. ev_user e = u \<and> ev_uid e = uid \<and> \<not> ev_deleted e)
      (tb_events (st_db s)))) = e # xs" "s' = pop_fault s"
    by (auto simp: EventByUID_def get_row_Inr_iff)
  have "e \<in> set (limit_rows 1 (sort_desc ev_id (filter (\<lambda>e. ev_user e = u \<and> ev_uid e = uid \<and> \<not> ev_deleted e)
      (tb_events (st_db s)))))" by (simp add: x(1))
  then have "e \<in> set (sort_desc ev_id (filter (\<lambda>e. ev_user e = u \<and> ev_uid e = uid \<and> \<not> ev_deleted e) (tb_events (st_db s))))"
    using set_limit_rows by fast
  then show ?thesis using x(2) by (simp add: sort_desc_def)
qed

lemma store_answer_tables:
  assumes "st_faults s = []" "ev_folder e \<in> set (folder_ids (st_db s))" "ev_folder e' = ev_folder e" "ev_id e' = ev_id e"
  shows "if e' = e then st_db (store_answer e e' s) = st_db s
    else tb_events (st_db (store_answer e e' s)) = map (\<lambda>r. if ev_id r = ev_id e then e'\<lparr>ev_id := ev_id r, ev_user := ev_user r,
        ev_exceptions := [], ev_sequence := ev_sequence r + 1, ev_modified := nowUnix s\<rparr> else r) (tb_events (st_db s)) \<and>
      tb_changes (st_db (store_answer e e' s)) = tb_changes (st_db s) @ [\<lparr>ch_seq = sq_changes (st_db s) + 1,
        ch_folder = ev_folder e, ch_type = ''event'', ch_item = ev_id e, ch_kind = ''change''\<rparr>]"
proof (cases "e' = e")
  case False
  define d where "d = (st_db s)\<lparr>tb_events := update_where (\<lambda>r. ev_id r = ev_id e)
       (\<lambda>r. e'\<lparr>ev_id := ev_id r, ev_user := ev_user r, ev_exceptions := [],
              ev_sequence := ev_sequence r + 1, ev_modified := nowUnix s\<rparr>) (tb_events (st_db s))\<rparr>"
  have x: "UpdateEvent e' s = (Inr (), s\<lparr>st_db := d\<rparr>)"
    using assms by (simp add: UpdateEvent_def sql_no_fault d_def)
  have fd: "ev_folder e \<in> set (folder_ids d)" using assms(2) by (simp add: folder_ids_def d_def)
  have "store_answer e e' s = (s\<lparr>st_db := d\<lparr>tb_changes := tb_changes d @ [\<lparr>ch_seq = sq_changes d + 1, ch_folder = ev_folder e,
      ch_type = ''event'', ch_item = ev_id e, ch_kind = ''change''\<rparr>], sq_changes := sq_changes d + 1\<rparr>\<rparr>)"
    using assms False x fd by (simp add: store_answer_def execE_def AddChange_def sql_no_fault insert_change_def Let_def)
  then show ?thesis using False by (simp add: d_def update_where_def)
qed (simp add: store_answer_def)

definition ascii :: "string \<Rightarrow> bool" where
  "ascii s \<longleftrightarrow> list_all (\<lambda>c. of_char c < (128 :: nat)) s"

text \<open>C18: what an answer to an invitation does. The premises: the mail has a calendar part of method
  \<open>REPLY\<close> that names an event and an attendee, the addresses are ASCII (the model compares them
  byte by byte, upper and lower case apart), the store is consistent, no statement fails, and the
  account has an event with that identifier. Then, whoever sent the mail and whether or not the
  attendee was invited, \<open>ACCEPTED\<close> sets the status of the meeting to 3 and of the attendee to 3,
  \<open>DECLINED\<close> to 7 and 4, and \<open>TENTATIVE\<close> to 9 and 2; the status is changed only for attendees with
  the address of the answer, upper and lower case apart. When this changes the event its row is
  stored with the next sequence number, the other rows stay and the feed gets one change of the
  event; when it does not, no table changes.\<close>

theorem imip_reply_spec:
  assumes "calendarReply up p = Some ics" "parseCalendarReply up ics = Some (uid, partstat, att)"
    and "uid \<noteq> []" "att \<noteq> []" "ascii (att @ concat (map an_email (ev_attendees e)))"
    and "(partstat, meeting, status) \<in> {(''ACCEPTED'', 3, 3), (''DECLINED'', 7, 4), (''TENTATIVE'', 9, 2)}"
    and "store_ok s" "st_faults s = []" "EventByUID (us_id u) uid s = (Inr e, s)"
    and "e' = e\<lparr>ev_meeting := meeting, ev_attendees :=
      map (\<lambda>a. if to_lower (an_email a) = to_lower att then a\<lparr>an_status := status\<rparr> else a) (ev_attendees e)\<rparr>"
  shows "\<exists>s'. (\<forall>sender. HandleIMipReply up u (p\<lparr>pm_from_addr := sender\<rparr>) s = Some s') \<and>
    (if e' = e then st_db s' = st_db s
     else tb_events (st_db s') = map (\<lambda>r. if ev_id r = ev_id e then e'\<lparr>ev_id := ev_id r, ev_user := ev_user r,
         ev_exceptions := [], ev_sequence := ev_sequence r + 1, ev_modified := nowUnix s\<rparr> else r) (tb_events (st_db s)) \<and>
       tb_changes (st_db s') = tb_changes (st_db s) @ [\<lparr>ch_seq = sq_changes (st_db s) + 1, ch_folder = ev_folder e,
         ch_type = ''event'', ch_item = ev_id e, ch_kind = ''change''\<rparr>])"
proof -
  have st: "meetingStatusForPartStat partstat = meeting" "attendeeStatusForPartStat partstat = status"
    "partstat \<noteq> []" "meeting \<noteq> 0"
    using assms(6) by (auto simp: meetingStatusForPartStat_def attendeeStatusForPartStat_def)
  have e': "answered partstat att e = e'" by (simp add: answered_def st assms(10) equal_fold_def)
  have r: "HandleIMipReply up u (p\<lparr>pm_from_addr := sender\<rparr>) s = Some (store_answer e e' s)" for sender
  proof -
    have "calendarReply up (p\<lparr>pm_from_addr := sender\<rparr>) = Some ics" using assms(1) by (simp add: calendarReply_def)
    then show ?thesis using assms(2-4,9) st by (simp add: HandleIMipReply_def e')
  qed
  have f: "ev_folder e \<in> set (folder_ids (st_db s))"
    using EventByUID_mem [OF assms(9)] db_okD_items(6) assms(7) by (auto simp: store_ok_def refs_ok_def folder_ids_def)
  have "ev_folder e' = ev_folder e" "ev_id e' = ev_id e" by (simp_all add: assms(10))
  note t = store_answer_tables [OF assms(8) f this]
  show ?thesis by (rule exI, rule conjI, rule allI, rule r, rule t)
qed

section \<open>A line that stops the process\<close>

lemma reply_lines_None:
  assumes "line \<in> set ls" "\<And>r. reply_line up line r = None" shows "reply_lines up ls r = None"
  using assms(1) by (induction ls arbitrary: r) (auto simp: assms(2) split: option.split)

text \<open>C17: a mail can stop the server. The address of an attendee is looked for in the upper case of a line
  and cut out of the line itself. When the upper case is longer, by letters such as the turned a,
  which takes two bytes and its capital three, the cut is out of range and the handler panics;
  it runs on the delivery of any mail, also in the connections of the submission server, which
  do not recover from panics.\<close>

theorem imip_reply_panics:
  assumes "calendarReply up p = Some ics" "line \<in> set (unfold_ics ics)"
    and "has_prefix (up line) ''ATTENDEE''" "index_str (up line) ''PARTSTAT='' = None"
    and "index_str (up line) ''MAILTO:'' = Some i" "length line < i + 7"
  shows "HandleIMipReply up u p s = None"
proof -
  have "\<not> has_prefix (up line) ''UID:''" using assms(3) by (cases "up line") (auto simp: has_prefix_def)
  then have "reply_line up line r = None" for r
    using assms(3-6) by (cases r) (simp add: reply_line_def slice_from_def)
  then have "reply_lines up (unfold_ics ics) r = None" for r using reply_lines_None assms(2) by blast
  then show ?thesis using assms(1) by (simp add: HandleIMipReply_def parseCalendarReply_def)
qed

text \<open>Upper case of ASCII and of the turned a (U+0250, whose capital is U+2C6F), in UTF-8.\<close>

fun upper_sample :: "string \<Rightarrow> string" where
  "upper_sample (a # b # s) = (if a = CHR 0xC9 \<and> b = CHR 0x90 then CHR 0xE2 # CHR 0xB1 # CHR 0xAF # upper_sample s
     else upper_char a # upper_sample (b # s))"
| "upper_sample s = map upper_char s"

definition bad_line :: string where
  "bad_line = ''ATTENDEE;CN='' @ concat (replicate 8 [CHR 0xC9, CHR 0x90]) @ '':MAILTO:''"

definition bad_mail :: parsed_mail where
  "bad_mail = empty_mail\<lparr>pm_parts := [\<lparr>mp_file = [], mp_ctype = ''text/calendar'', mp_cid = [], mp_inline = True,
     mp_data = ''METHOD:REPLY'' @ [CHR 0x0A] @ bad_line\<rparr>]\<rparr>"

theorem imip_reply_panics_witness:
  "HandleIMipReply upper_sample demo_user bad_mail demo_store = None"
proof -
  have c: "calendarReply upper_sample bad_mail = Some (''METHOD:REPLY'' @ [CHR 0x0A] @ bad_line)" by code_simp
  have l: "bad_line \<in> set (unfold_ics (''METHOD:REPLY'' @ [CHR 0x0A] @ bad_line))" by code_simp
  have a: "has_prefix (upper_sample bad_line) ''ATTENDEE''" "index_str (upper_sample bad_line) ''PARTSTAT='' = None"
    "index_str (upper_sample bad_line) ''MAILTO:'' = Some 37" "length bad_line < 37 + 7" by code_simp+
  show ?thesis by (rule imip_reply_panics [OF c l a])
qed

definition invited_event :: event where
  "invited_event = demo_event\<lparr>ev_id := 1, ev_uid := ''m1'', ev_attendees :=
     [\<lparr>an_name = [], an_email = ''B@y'', an_status = 0, an_type = 1\<rparr>, \<lparr>an_name = [], an_email = ''c@y'', an_status = 0, an_type = 1\<rparr>]\<rparr>"

definition invited_store :: store where
  "invited_store = demo_store\<lparr>st_db := demo_db\<lparr>tb_events := [invited_event], sq_events := 1\<rparr>\<rparr>"

definition tentative_mail :: parsed_mail where
  "tentative_mail = empty_mail\<lparr>pm_parts := [\<lparr>mp_file = [], mp_ctype = ''text/calendar'', mp_cid = [], mp_inline = True,
     mp_data = ''METHOD:REPLY'' @ [CHR 0x0A] @ ''UID:m1'' @ [CHR 0x0A] @ ''ATTENDEE;PARTSTAT=TENTATIVE;CN=x:mailto:b@y''\<rparr>]\<rparr>"

lemma invited_ok: "store_ok invited_store"
  by (simp add: store_ok_def db_ok_def db_parts ids_ok_def refs_ok_def invited_store_def demo_defs invited_event_def demo_event_def
      folder_key_def uuid_rows_def primary_rows_def state_key_def)

text \<open>One of two attendees answers, from the address of somebody else.\<close>

theorem imip_reply_spec_witness:
  "\<exists>s'. HandleIMipReply upper_sample demo_user (tentative_mail\<lparr>pm_from_addr := ''anyone@z''\<rparr>) invited_store = Some s' \<and>
     map ev_meeting (tb_events (st_db s')) = [9] \<and>
     map (map (\<lambda>a. (an_email a, an_status a)) \<circ> ev_attendees) (tb_events (st_db s')) = [[(''B@y'', 2), (''c@y'', 0)]]"
proof -
  obtain ics where c: "calendarReply upper_sample tentative_mail = Some ics"
    "parseCalendarReply upper_sample ics = Some (''m1'', ''TENTATIVE'', ''b@y'')"
  proof -
    have "(case calendarReply upper_sample tentative_mail of None \<Rightarrow> None | Some ics \<Rightarrow> parseCalendarReply upper_sample ics) =
        Some (''m1'', ''TENTATIVE'', ''b@y'')" by code_simp
    then show thesis using that by (auto split: option.splits)
  qed
  have a: "ascii (''b@y'' @ concat (map an_email (ev_attendees invited_event)))" by code_simp
  have e: "EventByUID (us_id demo_user) ''m1'' invited_store = (Inr invited_event, invited_store)"
    by (simp add: EventByUID_def get_row_def sql_def invited_store_def demo_defs invited_event_def demo_event_def limit_rows_def
        sort_desc_def)
  have f: "st_faults invited_store = []" by (simp add: invited_store_def demo_store_def)
  have p: "(''TENTATIVE'', 9, 2) \<in> {(''ACCEPTED'', 3, 3), (''DECLINED'', 7, 4), (''TENTATIVE'', 9 :: int, 2 :: int)}" by simp
  let ?e = "invited_event\<lparr>ev_meeting := 9, ev_attendees :=
      map (\<lambda>a. if to_lower (an_email a) = to_lower ''b@y'' then a\<lparr>an_status := 2\<rparr> else a) (ev_attendees invited_event)\<rparr>"
  have l: "to_lower ''B@y'' = to_lower ''b@y''" "to_lower ''c@y'' \<noteq> to_lower ''b@y''" by code_simp+
  have n: "?e \<noteq> invited_event" by (simp add: invited_event_def demo_event_def)
  have db: "tb_events (st_db invited_store) = [invited_event]" by (simp add: invited_store_def)
  have at: "ev_attendees ?e = [\<lparr>an_name = [], an_email = ''B@y'', an_status = 2, an_type = 1\<rparr>,
      \<lparr>an_name = [], an_email = ''c@y'', an_status = 0, an_type = 1\<rparr>]"
    using l by (simp add: invited_event_def)
  note r = imip_reply_spec [OF c _ _ a p invited_ok f e refl, unfolded if_not_P [OF n] db list.map(1,2) if_P [OF refl]]
  then obtain s' where
    "\<forall>sender. HandleIMipReply upper_sample demo_user (tentative_mail\<lparr>pm_from_addr := sender\<rparr>) invited_store = Some s'"
    "tb_events (st_db s') = [?e\<lparr>ev_id := ev_id invited_event, ev_user := ev_user invited_event,
         ev_exceptions := [], ev_sequence := ev_sequence invited_event + 1, ev_modified := nowUnix invited_store\<rparr>]"
    by blast
  then show ?thesis using at by (intro exI [of _ s']) simp
qed

text \<open>A participation status that is the last parameter of its line is not recognised: it is read up to a
  semicolon, so the colon and the address are taken for a part of it.\<close>

lemma partstat_last_unread:
  "parseCalendarReply upper_sample (''UID:m1'' @ [CHR 0x0A] @ ''ATTENDEE;CN=x;PARTSTAT=DECLINED:mailto:b@y'') =
     Some (''m1'', ''DECLINED:MAILTO:B@Y'', ''b@y'')"
  "meetingStatusForPartStat ''DECLINED:MAILTO:B@Y'' = 0"
  by code_simp+

section \<open>Answers of the account\<close>

lemma record_answer_status: "fst (record_answer E user folderID requestID e r x w) \<in> {''1'', ''3''}"
  by (auto simp: record_answer_def split: prod.split sum.split)

text \<open>C19: an account answers only its own invitations. Unless the answer is status 2, the request names an
  event of the account in the folder it names; with status 2 no table changes and nothing is sent.\<close>

theorem answerMeeting_owned:
  assumes "answerMeeting E user folderID requestID r instanceID w = (status, w')"
  shows "if status = ''2'' then st_db (mw_store w') = st_db (mw_store w) \<and> mw_log w' = mw_log w
    else \<exists>e\<in>set (tb_events (st_db (mw_store w))). ev_id e = requestID \<and> ev_user e = us_id user \<and> ev_folder e = folderID \<and>
      meetingStatusFor r \<noteq> None \<and> status \<in> {''1'', ''3''}"
proof -
  obtain q s1 where q: "EventByID requestID (mw_store w) = (q, s1)" by (cases "EventByID requestID (mw_store w)")
  have "st_db (snd (EventByID requestID (mw_store w))) = st_db (mw_store w)" unfolding EventByID_def by (rule get_row_db)
  then have db: "st_db s1 = st_db (mw_store w)" using q by simp
  show ?thesis
  proof (cases q)
    case (Inl x)
    then show ?thesis using assms q db by (auto simp: answerMeeting_def)
  next
    case (Inr e)
    obtain xs where "filter (\<lambda>e. ev_id e = requestID) (tb_events (st_db (mw_store w))) = e # xs"
      using q Inr by (auto simp: EventByID_def get_row_Inr_iff)
    then have "e \<in> set (filter (\<lambda>e. ev_id e = requestID) (tb_events (st_db (mw_store w))))" by simp
    then have e: "e \<in> set (tb_events (st_db (mw_store w)))" "ev_id e = requestID" by simp_all
    show ?thesis
    proof (cases "ev_user e \<noteq> us_id user \<or> ev_folder e \<noteq> folderID \<or> meetingStatusFor r = None \<or>
        instanceID \<noteq> [] \<and> parseEasTime (me_env E) instanceID = zero_time")
      case True
      then show ?thesis using assms q db Inr by (auto simp: answerMeeting_def split: option.splits if_splits)
    next
      case False
      then obtain y where y: "meetingStatusFor r = Some y" by auto
      have "fst (answerMeeting E user folderID requestID r instanceID w) \<in> {''1'', ''3''}"
        using False q Inr y record_answer_status
        by (cases "instanceID = []") (simp_all add: answerMeeting_def Let_def del: insert_iff)
      then have "status \<in> {''1'', ''3''}" using assms by simp
      then show ?thesis using e False by auto
    qed
  qed
qed

theorem answerMeeting_owned_witness:
  "fst (answerMeeting demo_mail_env demo_user (ev_folder invited_event) 1 3 [] (demo_world\<lparr>mw_store := invited_store\<rparr>)) \<in> {''1'', ''3''}"
proof -
  let ?w = "demo_world\<lparr>mw_store := invited_store\<rparr>"
  let ?a = "answerMeeting demo_mail_env demo_user (ev_folder invited_event) 1 3 [] ?w"
  have e: "EventByID 1 invited_store = (Inr invited_event, invited_store)"
    by (simp add: EventByID_def get_row_def sql_def invited_store_def demo_defs invited_event_def demo_event_def limit_rows_def)
  have "fst ?a \<in> {''1'', ''3''}" using record_answer_status
    by (simp add: answerMeeting_def Let_def e invited_event_def demo_event_def demo_defs meetingStatusFor_def del: insert_iff)
  moreover have "?a = (fst ?a, snd ?a)" by simp
  from answerMeeting_owned [OF this] have "fst ?a = ''2'' \<or> fst ?a \<in> {''1'', ''3''}" by (auto split: if_splits)
  ultimately show ?thesis by blast
qed

end
