(* ===== verification/EasSearch.thy ===== *)
theory EasSearch imports EasData StoreWebmail begin

text \<open>
  \<open>internal/eas/extended.go\<close>, the part that only reads: recipients typed on a device, their free
  and busy times, the directory and the search. Times are far from the bounds of \<open>int64\<close>; the
  window of a search is computed with the wrap-around of the code. \<open>lw\<close> is \<open>strings.ToLower\<close>, by which the search for users and
  mails lowers its term.
\<close>

section \<open>Recipients\<close>

(* src: internal/eas/extended.go 396-407 displayNameOf *)
definition displayNameOf :: "user \<Rightarrow> string" where
  "displayNameOf u = (let name = trim_space (us_display u) in
     if name \<noteq> [] then name else if us_address u \<noteq> [] then us_address u else us_name u)"

text \<open>Division of the code rounds towards zero.\<close>

definition quot :: "int \<Rightarrow> int \<Rightarrow> int" where
  "quot a b = (if a < 0 then - ((- a) div b) else a div b)"

(* src: internal/eas/extended.go 240-248 Server.mergedFreeBusy *)
definition busyCode :: "event \<Rightarrow> nat" where
  "busyCode e = (if ev_busy e = 0 then 0 else if ev_busy e = 1 then 1 else if ev_busy e = 3 then 3 else 2)"

text \<open>The buffer holds the digits as numbers.\<close>

(* src: internal/eas/extended.go 237-263 Server.mergedFreeBusy *)
definition markEvent :: "int \<Rightarrow> int \<Rightarrow> event \<Rightarrow> nat list \<Rightarrow> nat list" where
  "markEvent from to e buf =
    (if ev_end e \<le> from \<or> ev_start e \<ge> to then buf
     else
       (let startIdx = max 0 (quot (ev_start e - from) 1800);
            endIdx = min (int (length buf) - 1) (quot (ev_end e - 1 - from) 1800) in
        map (\<lambda>(i, b). if startIdx \<le> int i \<and> int i \<le> endIdx \<and> busyCode e > b then busyCode e else b) (enumerate 0 buf)))"

(* src: internal/eas/extended.go 205-266 Server.mergedFreeBusy *)
definition mergedFreeBusy :: "user \<Rightarrow> int \<Rightarrow> int \<Rightarrow> store \<Rightarrow> string \<times> store" where
  "mergedFreeBusy user from to s =
    (if to \<le> from then ([], s)
     else
       (let slots = min 2000 ((to - from + 1800 - 1) div 1800); free = replicate (nat slots) 0 in
        case FolderByType (us_id user) 8 s of
          (Inl _, s1) \<Rightarrow> (map digit_char free, s1)
        | (Inr folder, s1) \<Rightarrow> (case EventsByFolder (fo_id folder) s1 of
             (Inl _, s2) \<Rightarrow> (map digit_char free, s2)
           | (Inr events, s2) \<Rightarrow> (map digit_char (fold (markEvent from to) events free), s2))))"

(* src: internal/eas/extended.go 186-197 Server.cmdResolveRecipients *)
definition recipientNode :: "(int \<times> int) option \<Rightarrow> user \<Rightarrow> store \<Rightarrow> node \<times> store" where
  "recipientNode busy u s =
    (let (av, s1) = (case busy of None \<Rightarrow> ([], s)
       | Some (from, to) \<Rightarrow> (case mergedFreeBusy u from to s of (t, s1) \<Rightarrow>
           ([wbN pageResolveRecipients ''Availability'' [wbT pageResolveRecipients ''Status'' ''1'',
               wbT pageResolveRecipients ''MergedFreeBusy'' t]], s1))) in
     (wbN pageResolveRecipients ''Recipient'' ([wbT pageResolveRecipients ''Type'' ''1'',
        wbT pageResolveRecipients ''DisplayName'' (displayNameOf u),
        wbT pageResolveRecipients ''EmailAddress'' (us_address u)] @ av), s1))"

(* src: internal/eas/extended.go 167-201 Server.cmdResolveRecipients *)
fun resolve_each :: "(int \<times> int) option \<Rightarrow> string list \<Rightarrow> node list \<Rightarrow> store \<Rightarrow> node list \<times> store" where
  "resolve_each busy seen [] s = ([], s)"
| "resolve_each busy seen (t # ts) s =
    (let addr = trim_space (n_text t); key = to_lower addr in
     if addr = [] \<or> key \<in> set seen then resolve_each busy seen ts s
     else
       (let (matched, s1) = (case UserByAddress addr s of (Inl _, s1) \<Rightarrow> ([], s1)
              | (Inr owner, s1) \<Rightarrow> (case recipientNode busy owner s1 of (n, s2) \<Rightarrow> ([n], s2)));
            (ns, s3) = resolve_each busy (key # seen) ts s1 in
        (wbN pageResolveRecipients ''Response'' ([wbT pageResolveRecipients ''To'' addr,
           wbT pageResolveRecipients ''Status'' ''1'',
           wbT pageResolveRecipients ''RecipientCount'' (itoa (int (length matched)))] @ matched) # ns, s3)))"

(* src: internal/eas/extended.go 148-165 Server.cmdResolveRecipients *)
definition busyWindow :: "env \<Rightarrow> node option \<Rightarrow> (int \<times> int) option" where
  "busyWindow E req = (case Child req ''Options'' of None \<Rightarrow> None
     | Some opts \<Rightarrow> (case Child (Some opts) ''Availability'' of None \<Rightarrow> None
        | Some av \<Rightarrow>
           (let t = (\<lambda>name. let v = parseEasTime E (ChildText (Some av) name) in if v = zero_time then 0 else v) in
            Some (t ''StartTime'', t ''EndTime''))))"

(* src: internal/eas/extended.go 141-203 Server.cmdResolveRecipients *)
definition cmdResolveRecipients :: "env \<Rightarrow> node option \<Rightarrow> store \<Rightarrow> node \<times> store" where
  "cmdResolveRecipients E req s = (case resolve_each (busyWindow E req) [] (ChildrenNamed req ''To'') s of (ns, s') \<Rightarrow>
     (wbN pageResolveRecipients ''ResolveRecipients'' (wbT pageResolveRecipients ''Status'' ''1'' # ns), s'))"

section \<open>Search\<close>

(* src: internal/eas/extended.go 368-394 searchTerms *)
fun searchTerms :: "node \<Rightarrow> string list" where
  "searchTerms (Node p nm tk tx cs b f) =
    (if nm = ''FreeText'' then (if trim_space tx \<noteq> [] then [trim_space tx] else [])
     else if nm = ''EqualTo'' then
       (case find (\<lambda>c. n_name c = ''Value'') cs of None \<Rightarrow> []
        | Some v \<Rightarrow> if trim_space (n_text v) \<noteq> [] then [trim_space (n_text v)] else [])
     else []) @ concat (map searchTerms cs)"

(* src: internal/eas/extended.go 349-364 searchParams *)
definition searchWindow :: "string option \<Rightarrow> int \<times> int" where
  "searchWindow rng =
    (let (start, limit) = (case rng of None \<Rightarrow> (0, 50)
       | Some text \<Rightarrow> (case cut_byte CHR ''-'' (trim_space text) of (a, b, ok) \<Rightarrow>
          if \<not> ok then (0, 50)
          else
            (let start = atoiDefault a 0; stop = atoiDefault b (wrap64 (start + 49)) in
             (start, if stop \<ge> start then wrap64 (stop - start + 1) else 50)))) in
     (max 0 start, if limit \<le> 0 \<or> limit > 200 then 200 else limit))"

(* src: internal/eas/extended.go 339-366 searchParams *)
definition searchParams :: "node \<Rightarrow> string \<times> int \<times> int" where
  "searchParams st =
    (let term = (case Child (Some st) ''Query'' of None \<Rightarrow> []
       | Some q \<Rightarrow> if trim_space (n_text q) \<noteq> [] then trim_space (n_text q) else join '' '' (searchTerms q)) in
     (term, searchWindow (map_option n_text (Path (Some st) [''Options'', ''Range'']))))"

definition range_text :: "int \<Rightarrow> 'a list \<Rightarrow> node list" where
  "range_text start xs = (if xs = [] then []
     else [wbT pageSearch ''Range'' (itoa start @ ''-'' @ itoa (start + int (length xs) - 1))])"

(* src: internal/eas/extended.go 288-293 Server.cmdSearch *)
definition galNode :: "user \<Rightarrow> node" where
  "galNode u = wbN pageSearch ''Result'' [wbN pageSearch ''Properties'' [
     wbT pageGAL ''DisplayName'' (displayNameOf u), wbT pageGAL ''EmailAddress'' (us_address u)]]"

(* src: internal/eas/extended.go 311-321 Server.cmdSearch *)
definition foundNode :: "env \<Rightarrow> message \<Rightarrow> node" where
  "foundNode E m = wbN pageSearch ''Result'' [wbN pageSearch ''Properties'' [
     wbT pageAirSync ''ServerId'' (i64toa (ms_id m)), wbT pageAirSync ''Class'' ''Email'',
     wbT pageEmail ''Subject'' (ms_subject m), wbT pageEmail ''From'' (formatAddress E (ms_from_name m) (ms_from_addr m)),
     wbT pageEmail ''To'' (ms_to m), wbT pageEmail ''DateReceived'' (formatEasTime (ms_date m)),
     wbT pageEmail ''Read'' (boolString (ms_read m))]]"

(* src: internal/eas/extended.go 273-335 Server.cmdSearch *)
definition searchStore :: "(string \<Rightarrow> string) \<Rightarrow> env \<Rightarrow> user \<Rightarrow> node \<Rightarrow> store \<Rightarrow> node \<times> store" where
  "searchStore lw E user st s =
    (let name = trim_space (ChildText (Some st) ''Name''); (term, start, limit) = searchParams st;
         answer = (\<lambda>cs. wbN pageSearch ''Response'' [wbN pageSearch ''Store'' cs]) in
     if equal_fold name ''GAL'' then
       (case SearchUsers lw term limit s of
          (Inl _, s') \<Rightarrow> (answer [wbT pageSearch ''Status'' ''3''], s')
        | (Inr us, s') \<Rightarrow> (answer ([wbT pageSearch ''Status'' ''1''] @ map galNode us @ range_text 0 us @
            [wbT pageSearch ''Total'' (itoa (int (length us)))]), s'))
     else
       (case SearchMessages lw (us_id user) term limit start s of
          (Inl _, s') \<Rightarrow> (answer [wbT pageSearch ''Status'' ''3''], s')
        | (Inr (ms, n), s') \<Rightarrow> (answer ([wbT pageSearch ''Status'' ''1''] @ map (foundNode E) ms @ range_text start ms @
            [wbT pageSearch ''Total'' (itoa (int n))]), s')))"

fun search_each :: "(string \<Rightarrow> string) \<Rightarrow> env \<Rightarrow> user \<Rightarrow> node list \<Rightarrow> store \<Rightarrow> node list \<times> store" where
  "search_each lw E user [] s = ([], s)"
| "search_each lw E user (st # sts) s = (case searchStore lw E user st s of (n, s1) \<Rightarrow>
     (case search_each lw E user sts s1 of (ns, s2) \<Rightarrow> (n # ns, s2)))"

(* src: internal/eas/extended.go 268-337 Server.cmdSearch *)
definition cmdSearch :: "(string \<Rightarrow> string) \<Rightarrow> env \<Rightarrow> user \<Rightarrow> node option \<Rightarrow> store \<Rightarrow> node \<times> store" where
  "cmdSearch lw E user req s = (case search_each lw E user (ChildrenNamed req ''Store'') s of (ns, s') \<Rightarrow>
     (wbN pageSearch ''Search'' (wbT pageSearch ''Status'' ''1'' # ns), s'))"

section \<open>Free and busy times\<close>

lemma slot_of:
  fixes a q r i :: int
  assumes "a = 1800 * q + r" "0 \<le> r" "r < 1800"
  shows "q \<le> i \<longleftrightarrow> a < 1800 * (i + 1)" "i \<le> q \<longleftrightarrow> 1800 * i \<le> a"
  using assms by (auto simp: algebra_simps)

lemma quot_le: "0 \<le> i \<Longrightarrow> quot a 1800 \<le> i \<longleftrightarrow> a < 1800 * (i + 1)"
proof (cases "a < 0")
  case True
  assume i: "0 \<le> i"
  have "0 \<le> (- a) div 1800" using True by simp
  then have "quot a 1800 \<le> i" using True i by (simp add: quot_def)
  moreover have "a < 1800 * (i + 1)" using True i by (simp add: distrib_left)
  ultimately show ?thesis by simp
next
  case False
  then show ?thesis using slot_of(1) [of a "a div 1800" "a mod 1800" i] by (simp add: quot_def)
qed

lemma le_quot: "0 \<le> a \<Longrightarrow> i \<le> quot a 1800 \<longleftrightarrow> 1800 * i \<le> a"
  using slot_of(2) [of a "a div 1800" "a mod 1800" i] by (simp add: quot_def)

definition overlaps :: "int \<Rightarrow> int \<Rightarrow> nat \<Rightarrow> event \<Rightarrow> bool" where
  "overlaps from to i e \<longleftrightarrow> from + 1800 * int i < ev_end e \<and> ev_start e < min to (from + 1800 * (int i + 1))"

lemma markEvent_length [simp]: "length (markEvent from to e buf) = length buf"
  by (simp add: markEvent_def Let_def)

lemma markEvent_nth:
  assumes "i < length buf"
  shows "markEvent from to e buf ! i = (if overlaps from to i e then max (buf ! i) (busyCode e) else buf ! i)"
proof (cases "ev_end e \<le> from \<or> ev_start e \<ge> to")
  case True
  then show ?thesis by (auto simp: markEvent_def overlaps_def)
next
  case False
  have "quot (ev_start e - from) 1800 \<le> int i \<longleftrightarrow> ev_start e < from + 1800 * (int i + 1)"
    by (subst quot_le) auto
  moreover have "int i \<le> quot (ev_end e - 1 - from) 1800 \<longleftrightarrow> from + 1800 * int i < ev_end e"
    using False by (subst le_quot) auto
  ultimately have "max 0 (quot (ev_start e - from) 1800) \<le> int i \<and>
      int i \<le> min (int (length buf) - 1) (quot (ev_end e - 1 - from) 1800) \<longleftrightarrow> overlaps from to i e"
    using False assms by (auto simp: overlaps_def)
  then show ?thesis using False assms
    by (auto simp: markEvent_def Let_def nth_enumerate_eq max_def)
qed

definition slot_code :: "int \<Rightarrow> int \<Rightarrow> nat \<Rightarrow> event list \<Rightarrow> nat" where
  "slot_code from to i es = Max (insert 0 (set (map busyCode (filter (overlaps from to i) es))))"

lemma mark_all_length [simp]: "length (fold (markEvent from to) es buf) = length buf"
  by (induction es arbitrary: buf) simp_all

lemma mark_all_nth:
  "i < length buf \<Longrightarrow> fold (markEvent from to) es buf ! i = Max (insert (buf ! i) (set (map busyCode (filter (overlaps from to i) es))))"
proof (induction es arbitrary: buf)
  case (Cons e es)
  let ?M = "set (map busyCode (filter (overlaps from to i) es))"
  have m: "Max (insert (max a b) ?M) = Max (insert a (insert b ?M))" for a b :: nat
    by (cases "?M = {}") (simp_all add: max.assoc)
  have i: "i < length (markEvent from to e buf)" using Cons.prems by simp
  show ?case unfolding fold_simps Cons.IH [OF i] markEvent_nth [OF Cons.prems]
    by (cases "overlaps from to i e") (simp_all only: m if_True if_False filter.simps list.map list.set)
qed simp

lemma busyCode_digit: "busyCode e \<le> 3"
  by (simp add: busyCode_def)

text \<open>C24: the picker sees when a colleague is busy. The answer has one digit for every half hour of
  the window, the last one perhaps cut short, up to 2000 of them; each digit is the strongest
  state of the events in the calendar that overlap its half hour: free, tentative, busy, away.
  An event that ends where a half hour begins does not count for it.\<close>

theorem mergedFreeBusy_spec:
  assumes "FolderByType (us_id user) 8 s = (Inr f, s1)" "EventsByFolder (fo_id f) s1 = (Inr es, s2)" "from < to"
  shows "\<exists>n. mergedFreeBusy user from to s = (map (\<lambda>i. digit_char (slot_code from to i es)) [0..<n], s2) \<and>
    n = min 2000 (nat ((to - from + 1799) div 1800)) \<and> (n < 2000 \<longrightarrow> from + 1800 * (int n - 1) < to \<and> to \<le> from + 1800 * int n)"
proof -
  define n where "n = nat (min 2000 ((to - from + 1800 - 1) div 1800))"
  let ?buf = "replicate n (0::nat)"
  have "fold (markEvent from to) es ?buf = map (\<lambda>i. slot_code from to i es) [0..<n]"
    by (rule nth_equalityI) (simp_all add: mark_all_nth slot_code_def)
  then have "mergedFreeBusy user from to s = (map (\<lambda>i. digit_char (slot_code from to i es)) [0..<n], s2)"
    using assms unfolding mergedFreeBusy_def Let_def n_def [symmetric] by (simp add: comp_def)
  moreover have n: "n = min 2000 (nat k) \<and> (n < 2000 \<longrightarrow> from + 1800 * (int n - 1) < to \<and> to \<le> from + 1800 * int n)"
    if k: "k = (to - from + 1799) div 1800" for k
  proof -
    have "to - from + 1799 = 1800 * k + (to - from + 1799) mod 1800" "0 \<le> (to - from + 1799) mod 1800"
      "(to - from + 1799) mod 1800 < 1800" by (simp_all add: k)
    then obtain r where r: "to - from + 1799 = 1800 * k + r" "0 \<le> r" "r < 1800" by blast
    have "0 < k" using slot_of(2) [OF r, of 1] assms(3) by simp
    have nk: "n = nat (min 2000 k)" using k by (simp add: n_def add.commute)
    show ?thesis
    proof (cases "2000 \<le> k")
      case True
      then show ?thesis unfolding nk by (simp add: min_def)
    next
      case False
      then have "n = nat k" "int n = k" using \<open>0 < k\<close> unfolding nk by (simp_all add: min_def)
      then show ?thesis using False r by simp
    qed
  qed
  ultimately show ?thesis using n [OF refl] by blast
qed

section \<open>The window of a search\<close>

text \<open>Whatever range a device asks for, empty, reversed, negative or with numbers of any length, a
  search starts at a non-negative row and takes between 1 and 200 rows.\<close>

theorem searchParams_bounds:
  "case searchParams st of (term, start, limit) \<Rightarrow> 0 \<le> start \<and> 1 \<le> limit \<and> limit \<le> 200 \<and> int64_range start"
proof -
  have r: "int64_range (atoiDefault v d)" if "int64_range d" for v d
    using that parse_int64_range [of "trim_space v"] by (auto simp: atoiDefault_def Let_def)
  have z: "int64_range 0" by (simp add: int64_range_def min_int64_def max_int64_def)
  have w: "int64_range (max 0 x)" if "int64_range x" for x using that by (auto simp: int64_range_def min_int64_def max_int64_def max_def)
  have "0 \<le> fst (searchWindow rng) \<and> 1 \<le> snd (searchWindow rng) \<and> snd (searchWindow rng) \<le> 200 \<and> int64_range (fst (searchWindow rng))" for rng
    using r [OF z] z w by (auto simp: searchWindow_def Let_def split: option.split prod.split)
  then show ?thesis by (simp add: searchParams_def Let_def split: prod.split) (metis fst_conv snd_conv)
qed


definition calendar_store :: store where
  "calendar_store = demo_store\<lparr>st_db := demo_db\<lparr>tb_folders := [demo_folder 3 ''Calendar'' 8 1],
     tb_events := [demo_event\<lparr>ev_folder := 3, ev_start := 1800, ev_end := 3600, ev_busy := 2\<rparr>]\<rparr>\<rparr>"

theorem mergedFreeBusy_spec_witness:
  "\<exists>n. mergedFreeBusy demo_user 0 3600 calendar_store =
     (map (\<lambda>i. digit_char (slot_code 0 3600 i [demo_event\<lparr>ev_folder := 3, ev_start := 1800, ev_end := 3600, ev_busy := 2\<rparr>])) [0..<n],
      calendar_store) \<and> n = 2"
proof -
  have f: "FolderByType (us_id demo_user) 8 calendar_store = (Inr (demo_folder 3 ''Calendar'' 8 1), calendar_store)"
    by (simp add: FolderByType_def get_row_def calendar_store_def demo_defs limit_rows_def sql_def)
  have e: "EventsByFolder (fo_id (demo_folder 3 ''Calendar'' 8 1)) calendar_store =
      (Inr [demo_event\<lparr>ev_folder := 3, ev_start := 1800, ev_end := 3600, ev_busy := 2\<rparr>], calendar_store)"
    by (simp add: EventsByFolder_def getAll_def calendar_store_def demo_defs sql_def demo_event_def)
  show ?thesis using mergedFreeBusy_spec [OF f e, of 0 3600] by auto
qed

end
