(* ===== verification/EasOof.thy ===== *)
theory EasOof imports EasMeeting StoreSettings begin

text \<open>
  \<open>internal/eas/oof.go\<close>: the out-of-office notice of an account and the \<open>Settings\<close> command
  (\<open>misc.go\<close>) that reads and changes it. The setting is kept as JSON; the encoder and the decoder of
  that one struct are parameters, the decoder giving what is in the struct after
  \<open>json.Unmarshal\<close> returned, with or without an error. The times at which correspondents were
  answered are \<open>mw_oof\<close>, in nanoseconds. Logging is not modelled.
\<close>

section \<open>The setting\<close>

(* src: internal/eas/oof.go 20-26 oofSettings *)
record oof_settings =
  oo_state :: int
  oo_start :: int
  oo_end :: int
  oo_message :: string

record oof_json =
  oj_read :: "string \<Rightarrow> oof_settings"
  oj_write :: "oof_settings \<Rightarrow> string option"

definition oof_zero :: oof_settings where
  "oof_zero = \<lparr>oo_state = 0, oo_start = 0, oo_end = 0, oo_message = []\<rparr>"

(* src: internal/eas/oof.go 28-28 oofSettingKey *)
definition oofSettingKey :: "string \<Rightarrow> string" where
  "oofSettingKey userID = ''oof.'' @ userID"

text \<open>The moment is in seconds.\<close>

(* src: internal/eas/oof.go 30-47 oofSettings.active *)
definition oof_active :: "oof_settings \<Rightarrow> int \<Rightarrow> bool" where
  "oof_active v ts =
    (if oo_state v = 1 then True
     else if oo_state v = 2 then
       \<not> (oo_start v > 0 \<and> ts < oo_start v) \<and> \<not> (oo_end v > 0 \<and> ts > oo_end v)
     else False)"

(* src: internal/eas/oof.go 49-59 Server.loadOof *)
definition loadOof :: "oof_json \<Rightarrow> string \<Rightarrow> store \<Rightarrow> oof_settings \<times> store" where
  "loadOof J userID s = (case Setting (oofSettingKey userID) s of
     (Inl _, s1) \<Rightarrow> (oof_zero, s1)
   | (Inr raw, s1) \<Rightarrow> (if trim_space raw = [] then oof_zero else oj_read J raw, s1))"

text \<open>Whether the setting was stored.\<close>

(* src: internal/eas/oof.go 61-67 Server.saveOof *)
definition saveOof :: "oof_json \<Rightarrow> string \<Rightarrow> oof_settings \<Rightarrow> store \<Rightarrow> bool \<times> store" where
  "saveOof J userID v s = (case oj_write J v of
     None \<Rightarrow> (False, s)
   | Some raw \<Rightarrow> (case SetSetting (oofSettingKey userID) raw s of (Inl _, s1) \<Rightarrow> (False, s1) | (Inr _, s1) \<Rightarrow> (True, s1)))"

text \<open>The first message for the own organisation counts, even when its text is empty.\<close>

(* src: internal/eas/oof.go 89-99 Server.oofResponse *)
definition internal_message :: "node \<Rightarrow> string" where
  "internal_message set_node =
    (case find (\<lambda>m. Child (Some m) ''AppliesToInternal'' \<noteq> None) (ChildrenNamed (Some set_node) ''OofMessage'') of
       None \<Rightarrow> [] | Some m \<Rightarrow> ChildText (Some m) ''ReplyMessage'')"

definition time_or_same :: "env \<Rightarrow> string \<Rightarrow> int \<Rightarrow> int" where
  "time_or_same E v old = (if v = [] \<or> parseEasTime E v = zero_time then old else parseEasTime E v)"

(* src: internal/eas/oof.go 75-99 Server.oofResponse *)
definition oof_next :: "env \<Rightarrow> node \<Rightarrow> oof_settings \<Rightarrow> oof_settings" where
  "oof_next E set_node v =
    (let st = ChildText (Some set_node) ''OofState''; msg = internal_message set_node in
     \<lparr>oo_state = (if st = [] then oo_state v else atoiDefault st 0),
      oo_start = time_or_same E (ChildText (Some set_node) ''StartTime'') (oo_start v),
      oo_end = time_or_same E (ChildText (Some set_node) ''EndTime'') (oo_end v),
      oo_message = (if msg = [] then oo_message v else msg)\<rparr>)"

(* src: internal/eas/oof.go 107-126 Server.oofResponse *)
definition oof_node :: "oof_settings \<Rightarrow> node" where
  "oof_node v = wbN pageSettings ''Oof'' [wbT pageSettings ''Status'' ''1'',
     wbN pageSettings ''Get'' ([wbT pageSettings ''OofState'' (itoa (oo_state v))] @
       (if oo_start v > 0 then [wbT pageSettings ''StartTime'' (formatEasCalendarTime (oo_start v))] else []) @
       (if oo_end v > 0 then [wbT pageSettings ''EndTime'' (formatEasCalendarTime (oo_end v))] else []) @
       [wbN pageSettings ''OofMessage'' [wbT pageSettings ''AppliesToInternal'' ''1'', wbT pageSettings ''Enabled'' ''1'',
          wbT pageSettings ''ReplyMessage'' (oo_message v)]])]"

(* src: internal/eas/oof.go 69-127 Server.oofResponse *)
definition oofResponse :: "oof_json \<Rightarrow> env \<Rightarrow> user \<Rightarrow> node \<Rightarrow> store \<Rightarrow> node \<times> store" where
  "oofResponse J E user nd s = (case loadOof J (us_id user) s of (cur, s1) \<Rightarrow>
     (case Child (Some nd) ''Set'' of
        None \<Rightarrow> (oof_node cur, s1)
      | Some set_node \<Rightarrow> (let v = oof_next E set_node cur in
          case saveOof J (us_id user) v s1 of (saved, s2) \<Rightarrow> (oof_node (if saved then v else cur), s2))))"

(* src: internal/eas/misc.go 558-600 Server.cmdSettings *)
definition cmdSettings :: "oof_json \<Rightarrow> env \<Rightarrow> user \<Rightarrow> node option \<Rightarrow> store \<Rightarrow> node \<times> store" where
  "cmdSettings J E user req s =
    (let status = wbT pageSettings ''Status'' ''1'';
         answer = (\<lambda>ns. wbN pageSettings ''Settings'' (status # ns)) in
     if Child req ''UserInformation'' \<noteq> None then
       (answer [wbN pageSettings ''UserInformation'' [status, wbN pageSettings ''Get''
          [wbN pageSettings ''EmailAddresses'' [wbT pageSettings ''PrimarySmtpAddress'' (us_address user),
             wbT pageSettings ''SmtpAddress'' (us_address user)]]]], s)
     else (case Child req ''Oof'' of
         Some nd \<Rightarrow> (case oofResponse J E user nd s of (n, s') \<Rightarrow> (answer [n], s'))
       | None \<Rightarrow>
          (answer (if Child req ''DeviceInformation'' \<noteq> None then [wbN pageSettings ''DeviceInformation'' [status]]
            else if Child req ''DevicePassword'' \<noteq> None then [wbN pageSettings ''DevicePassword'' [status]] else []), s)))"

section \<open>The notice\<close>

(* src: internal/eas/oof.go 129-131 oofReplyInterval *)
definition oofReplyInterval :: int where
  "oofReplyInterval = 24 * 3600 * 10 ^ 9"

text \<open>Under what the server remembers an answer.\<close>

(* src: internal/eas/oof.go 139-139 Server.oofRecentlyAnswered *)
definition oof_key :: "string \<Rightarrow> string \<Rightarrow> string" where
  "oof_key userID addr = userID @ ''|'' @ to_lower addr"

text \<open>True when the correspondent was answered; otherwise the moment is remembered.\<close>

(* src: internal/eas/oof.go 133-148 Server.oofRecentlyAnswered *)
definition oofRecentlyAnswered :: "string \<Rightarrow> int \<Rightarrow> (string \<rightharpoonup> int) \<Rightarrow> bool \<times> (string \<rightharpoonup> int)" where
  "oofRecentlyAnswered key now m = (case m key of
     Some at \<Rightarrow> if now - at < oofReplyInterval then (True, m) else (False, m(key \<mapsto> now))
   | None \<Rightarrow> (False, m(key \<mapsto> now)))"

(* src: internal/eas/oof.go 173-185 indexHeaderEnd *)
definition indexHeaderEnd :: "string \<Rightarrow> nat option" where
  "indexHeaderEnd raw = (case index_str raw (crlf @ crlf) of
     Some i \<Rightarrow> Some i | None \<Rightarrow> index_str raw [CHR 0x0A, CHR 0x0A])"

(* src: internal/eas/oof.go 158-165 looksAutomated *)
definition automated_markers :: "string list" where
  "automated_markers = [''auto-submitted:'', ''precedence: bulk'', ''precedence: list'', ''precedence: junk'',
     ''x-autoreply'', ''list-id:'']"

(* src: internal/eas/oof.go 150-171 looksAutomated *)
definition looksAutomated :: "string \<Rightarrow> bool" where
  "looksAutomated raw =
    (let lower = to_lower (case indexHeaderEnd raw of Some i \<Rightarrow> take i raw | None \<Rightarrow> raw) in
     list_ex (\<lambda>m. index_str lower m \<noteq> None) automated_markers)"

definition fallback_text :: string where
  "fallback_text = ''I am currently out of the office and will reply when I am back.''"

(* src: internal/eas/oof.go 217-220 Server.OofReply *)
definition own_name :: "user \<Rightarrow> string" where
  "own_name user = (if us_display user = [] then us_name user else us_display user)"

(* src: internal/eas/oof.go 221-229 Server.OofReply *)
definition notice_subject :: "string \<Rightarrow> string" where
  "notice_subject subject = ''Auto: '' @ (if subject = [] then ''(no subject)'' else subject)"

(* src: internal/eas/oof.go 213-236 Server.OofReply *)
definition oof_notice :: "mail_env \<Rightarrow> user \<Rightarrow> oof_settings \<Rightarrow> string \<Rightarrow> string \<Rightarrow> string" where
  "oof_notice E user v from subject =
    (let text = trim_space (oo_message v) in
     auto_mail (ml_string (me_lib E) (own_name user) (us_address user)) from (me_qenc E (notice_subject subject))
       (rfc1123 (me_now E div 10 ^ 9)) ((if text = [] then fallback_text else text) @ crlf))"

text \<open>The address that is answered, when nothing forbids an answer.\<close>

(* src: internal/eas/oof.go 193-208 Server.OofReply *)
definition oof_answers :: "user \<Rightarrow> oof_settings \<Rightarrow> int \<Rightarrow> parsed_mail \<Rightarrow> string \<Rightarrow> string option" where
  "oof_answers user v now parsed raw =
    (let from = trim_space (pm_from_addr parsed) in
     if \<not> oof_active v (now div 10 ^ 9) \<or> from = [] \<or> equal_fold from (us_address user) \<or> looksAutomated raw \<or>
        hasCalendarPart parsed
     then None else Some from)"

text \<open>The key and the moment of a notice that was composed, and the world behind it.\<close>

(* src: internal/eas/oof.go 187-246 Server.OofReply *)
definition OofReply :: "oof_json \<Rightarrow> mail_env \<Rightarrow> user \<Rightarrow> parsed_mail \<Rightarrow> string \<Rightarrow> mail_world \<Rightarrow>
    (string \<times> int) option \<times> mail_world" where
  "OofReply J E user parsed raw w = (case loadOof J (us_id user) (mw_store w) of (v, s1) \<Rightarrow>
     (case oof_answers user v (me_now E) parsed raw of
        None \<Rightarrow> (None, w\<lparr>mw_store := s1\<rparr>)
      | Some from \<Rightarrow>
         (let key = oof_key (us_id user) from in
          case oofRecentlyAnswered key (me_now E) (mw_oof w) of (recent, m) \<Rightarrow>
            if recent then (None, w\<lparr>mw_store := s1, mw_oof := m\<rparr>)
            else (Some (key, me_now E),
              snd (send_auto E user (oof_notice E user v from (pm_subject parsed)) (w\<lparr>mw_store := s1, mw_oof := m\<rparr>))))))"


section \<open>One notice a day\<close>

lemma sendComposed_oof: "mw_oof (snd (sendComposed E user node save w)) = mw_oof w"
  by (simp add: sendComposed_def split: option.split prod.split)

lemma OofReply_oof:
  "case OofReply J E user parsed raw w of
     (None, w') \<Rightarrow> mw_oof w' = mw_oof w \<and> mw_log w' = mw_log w
   | (Some n, w') \<Rightarrow> (let k = oof_key (us_id user) (trim_space (pm_from_addr parsed)) in
       mw_oof w' = (mw_oof w)(k \<mapsto> me_now E) \<and> (\<forall>u. mw_oof w k = Some u \<longrightarrow> u + oofReplyInterval \<le> me_now E))"
proof -
  obtain v s1 where v: "loadOof J (us_id user) (mw_store w) = (v, s1)" by fastforce
  show ?thesis
  proof (cases "oof_answers user v (me_now E) parsed raw")
    case None
    then show ?thesis by (simp add: OofReply_def v)
  next
    case (Some f)
    then have f: "f = trim_space (pm_from_addr parsed)" by (simp add: oof_answers_def Let_def split: if_splits)
    obtain b m where b: "oofRecentlyAnswered (oof_key (us_id user) f) (me_now E) (mw_oof w) = (b, m)" by fastforce
    then have "if b then m = mw_oof w else m = (mw_oof w)(oof_key (us_id user) f \<mapsto> me_now E) \<and>
        (\<forall>u. mw_oof w (oof_key (us_id user) f) = Some u \<longrightarrow> u + oofReplyInterval \<le> me_now E)"
      by (auto simp: oofRecentlyAnswered_def split: option.splits if_splits)
    then show ?thesis using b Some by (cases b) (simp_all add: OofReply_def v Let_def send_auto_def sendComposed_oof f)
  qed
qed

text \<open>Mails arrive one after the other, for any accounts, at any readings of the clock; before each one the
  rest of the server may have changed everything but the record of the notices. Whenever a notice was
  composed, or a mail left the server, the account, the sender of the mail that is answered and the
  moment are noted.\<close>

type_synonym arrival = "mail_env \<times> user \<times> parsed_mail \<times> string \<times> (mail_world \<Rightarrow> mail_world)"

fun oof_run :: "oof_json \<Rightarrow> arrival list \<Rightarrow> mail_world \<Rightarrow> (string \<times> string \<times> int) list" where
  "oof_run J [] w = []"
| "oof_run J ((E, user, parsed, raw, others) # as) w =
    (let w0 = (others w)\<lparr>mw_oof := mw_oof w\<rparr> in
     case OofReply J E user parsed raw w0 of (r, w') \<Rightarrow>
       (if r = None \<and> mw_log w' = mw_log w0 then [] else [(us_id user, trim_space (pm_from_addr parsed), me_now E)]) @
       oof_run J as w')"

lemma oof_run_step:
  obtains (silent) w' where "oof_run J ((E, user, parsed, raw, others) # as) w = oof_run J as w'" "mw_oof w' = mw_oof w"
  | (noticed) w' where "oof_run J ((E, user, parsed, raw, others) # as) w =
        (us_id user, trim_space (pm_from_addr parsed), me_now E) # oof_run J as w'"
      "mw_oof w' = (mw_oof w)(oof_key (us_id user) (trim_space (pm_from_addr parsed)) \<mapsto> me_now E)"
      "\<And>u. mw_oof w (oof_key (us_id user) (trim_space (pm_from_addr parsed))) = Some u \<Longrightarrow> u + oofReplyInterval \<le> me_now E"
proof -
  obtain r w' where r: "OofReply J E user parsed raw ((others w)\<lparr>mw_oof := mw_oof w\<rparr>) = (r, w')" by fastforce
  note c = OofReply_oof [where w = "(others w)\<lparr>mw_oof := mw_oof w\<rparr>" and J = J and E = E and user = user and parsed = parsed and raw = raw, unfolded r]
  show thesis
  proof (cases r)
    case None
    then show thesis using silent [of w'] r c by simp
  next
    case (Some n)
    then show thesis using noticed [of w'] r c by (simp add: Let_def)
  qed
qed

lemma oof_run_later:
  "(i, a, t) \<in> set (oof_run J as w) \<Longrightarrow> mw_oof w (oof_key i a) = Some u \<Longrightarrow> u + oofReplyInterval \<le> t"
proof (induction as arbitrary: w u)
  case (Cons m as)
  obtain E user parsed raw others where m: "m = (E, user, parsed, raw, others)" by (cases m)
  have pos: "oofReplyInterval > 0" by (simp add: oofReplyInterval_def)
  show ?case
  proof (cases rule: oof_run_step [of J E user parsed raw others as w])
    case (silent w')
    show ?thesis by (rule Cons.IH [of w']) (use Cons.prems silent(2) in \<open>simp_all only: m silent(1)\<close>)
  next
    case (noticed w')
    let ?k = "oof_key (us_id user) (trim_space (pm_from_addr parsed))"
    have d: "(i, a, t) = (us_id user, trim_space (pm_from_addr parsed), me_now E) \<or> (i, a, t) \<in> set (oof_run J as w')"
      using Cons.prems(1) unfolding m noticed(1) by simp
    show ?thesis
    proof (cases "oof_key i a = ?k")
      case True
      then have u: "u + oofReplyInterval \<le> me_now E" using noticed(3) Cons.prems(2) by simp
      have "me_now E + oofReplyInterval \<le> t" if "(i, a, t) \<in> set (oof_run J as w')"
        using Cons.IH [OF that] noticed(2) True by simp
      then show ?thesis using d u pos by auto
    next
      case False
      then show ?thesis using d Cons.IH [of w' u] Cons.prems(2) noticed(2) by auto
    qed
  qed
qed simp

text \<open>C22: whatever mails arrive in whatever order, two notices of one account to one correspondent, upper
  and lower case of the address and spaces around it apart, are at least 24 hours (in nanoseconds) apart.\<close>

theorem oof_once_a_day:
  "sorted_wrt (\<lambda>(user1, addr1, t1) (user2, addr2, t2).
      user1 = user2 \<and> to_lower addr1 = to_lower addr2 \<longrightarrow> t1 + 24 * 60 * 60 * 1000000000 \<le> t2) (oof_run J arrivals w)"
proof (induction arrivals arbitrary: w)
  case (Cons m as)
  obtain E user parsed raw others where m: "m = (E, user, parsed, raw, others)" by (cases m)
  show ?case
  proof (cases rule: oof_run_step [of J E user parsed raw others as w])
    case (silent w')
    show ?thesis unfolding m silent(1) by (rule Cons.IH)
  next
    case (noticed w')
    have "me_now E + oofReplyInterval \<le> t"
      if "(i, a, t) \<in> set (oof_run J as w')" "us_id user = i" "to_lower (trim_space (pm_from_addr parsed)) = to_lower a" for i a t
      using oof_run_later [OF that(1), of "me_now E"] that(2,3) noticed(2) by (simp add: oof_key_def)
    then show ?thesis unfolding m noticed(1) using Cons.IH [of w'] by (auto simp: oofReplyInterval_def)
  qed
qed simp

section \<open>Notices do not answer each other\<close>

lemma index_str_found: "index_str (a @ p @ b) p \<noteq> None"
proof (induction a)
  case Nil
  have "has_prefix (p @ b) p" by (simp add: has_prefix_def)
  then show ?case by (cases "p @ b") simp_all
next
  case (Cons x a)
  then show ?case by simp
qed

definition header_line :: "string \<Rightarrow> bool" where
  "header_line l \<longleftrightarrow> l \<noteq> [] \<and> hd l \<noteq> CHR 0x0D \<and> CHR 0x0A \<notin> set l"

definition header_text :: "string list \<Rightarrow> string" where
  "header_text ls = concat (map (\<lambda>l. l @ crlf) ls)"

lemma header_text_simps [simp]:
  "header_text [] = []" "header_text (l # ls) = l @ crlf @ header_text ls"
  "header_text (ls @ ms) = header_text ls @ header_text ms"
  by (simp_all add: header_text_def)

lemma header_text_end: "\<exists>t. header_text (l # ls) = l @ t @ crlf"
proof (cases ls rule: rev_cases)
  case (snoc ms k)
  then have "header_text (l # ls) = l @ (crlf @ header_text ms @ k) @ crlf" by simp
  then show ?thesis by blast
qed simp

text \<open>A blank line is not found before the end of a line that more header follows.\<close>

lemma index_blank_skip:
  assumes "CHR 0x0A \<notin> set l" "c \<noteq> CHR 0x0D"
  shows "index_str (l @ crlf @ c # rest) (crlf @ crlf) = map_option (\<lambda>i. i + length l + 2) (index_str (c # rest) (crlf @ crlf))"
  using assms(1)
proof (induction l)
  case Nil
  then show ?case using assms(2) by (cases "index_str (c # rest) (crlf @ crlf)") (auto simp: crlf_def has_prefix_def)
next
  case (Cons x l)
  have "\<not> has_prefix ((x # l) @ crlf @ c # rest) (crlf @ crlf)"
  proof (cases l)
    case Nil
    then show ?thesis using assms(2) by (simp add: has_prefix_def crlf_def)
  next
    case (Cons y m)
    then show ?thesis using Cons.prems by (auto simp: has_prefix_def crlf_def)
  qed
  then show ?case using Cons by (cases "index_str (c # rest) (crlf @ crlf)") auto
qed

lemma index_blank_header:
  assumes "ls \<noteq> []" "\<forall>l\<in>set ls. header_line l"
  shows "index_str (header_text ls @ crlf @ body) (crlf @ crlf) = Some (length (header_text ls) - 2)"
  using assms
proof (induction ls rule: list_nonempty_induct)
  case (single l)
  have "index_str (l @ crlf @ crlf @ body) (crlf @ crlf) = Some (length l)" if "CHR 0x0A \<notin> set l" for l :: string
    using that
  proof (induction l)
    case Nil
    then show ?case by (simp add: crlf_def has_prefix_def)
  next
    case (Cons x l)
    have "\<not> has_prefix ((x # l) @ crlf @ crlf @ body) (crlf @ crlf)"
      using Cons.prems by (cases l; cases "tl l") (auto simp: has_prefix_def crlf_def)
    then show ?case using Cons by simp
  qed
  then show ?case using single by (simp add: header_line_def) (simp add: crlf_def)
next
  case (cons l ls)
  obtain k ks where ks: "ls = k # ks" using cons.hyps by (cases ls) auto
  obtain c rest where c: "k = c # rest" "c \<noteq> CHR 0x0D" using cons.prems ks by (cases k) (auto simp: header_line_def)
  have t: "header_text ls @ crlf @ body = c # (rest @ crlf @ header_text ks @ crlf @ body)" using ks c by simp
  have l: "CHR 0x0A \<notin> set l" using cons.prems by (simp add: header_line_def)
  have ih: "index_str (header_text ls @ crlf @ body) (crlf @ crlf) = Some (length (header_text ls) - 2)" using cons by simp
  have "length (header_text ls) \<ge> 2" using ks by (simp add: crlf_def)
  moreover have "index_str (header_text (l # ls) @ crlf @ body) (crlf @ crlf) =
      map_option (\<lambda>i. i + length l + 2) (index_str (header_text ls @ crlf @ body) (crlf @ crlf))"
    using index_blank_skip [OF l c(2), of "rest @ crlf @ header_text ks @ crlf @ body", folded t] by simp
  ultimately show ?case using ih by (simp add: crlf_def)
qed

lemma header_looksAutomated:
  assumes "\<forall>l\<in>set ls. header_line l" "''Auto-Submitted: auto-replied'' \<in> set ls"
  shows "looksAutomated (header_text ls @ crlf @ body)"
proof -
  obtain ls1 ls2 where ls: "ls = ls1 @ ''Auto-Submitted: auto-replied'' # ls2" using assms(2) by (meson split_list)
  then have "ls \<noteq> []" by simp
  then have i: "indexHeaderEnd (header_text ls @ crlf @ body) = Some (length (header_text ls) - 2)"
    using index_blank_header assms(1) by (simp add: indexHeaderEnd_def)
  obtain t where t: "header_text (''Auto-Submitted: auto-replied'' # ls2) = ''Auto-Submitted: auto-replied'' @ t @ crlf"
    using header_text_end by blast
  define X where "X = header_text ls1 @ ''Auto-Submitted:'' @ '' auto-replied'' @ t"
  have "header_text ls = X @ crlf" using ls t by (simp add: X_def)
  then have "take (length (header_text ls) - 2) (header_text ls @ crlf @ body) = X" by (simp add: crlf_def)
  moreover have "to_lower ''Auto-Submitted:'' = ''auto-submitted:''" by code_simp
  then have "to_lower X = to_lower (header_text ls1) @ ''auto-submitted:'' @ to_lower ('' auto-replied'' @ t)"
    unfolding X_def by (simp only: to_lower_def map_append)
  ultimately have "index_str (to_lower (take (length (header_text ls) - 2) (header_text ls @ crlf @ body))) ''auto-submitted:'' \<noteq> None"
    using index_str_found [of "to_lower (header_text ls1)" "''auto-submitted:''" "to_lower ('' auto-replied'' @ t)"]
    by (simp only: not_False_eq_True)
  then show ?thesis using i by (simp add: looksAutomated_def automated_markers_def)
qed


lemma div_bounds:
  fixes a b :: int assumes "0 < b" shows "b * (a div b) \<le> a" "a < b * (a div b) + b"
  using assms pos_mod_bound [of b a] pos_mod_sign [of b a] by (simp_all add: algebra_simps minus_mod_eq_mult_div [symmetric])

lemma civil_arith:
  fixes e a b c y q r p :: int
  assumes "0 \<le> e" "e < 146097" "1460 * a \<le> e" "e < 1460 * a + 1460" "36524 * b \<le> e" "e < 36524 * b + 36524"
    and "146096 * c \<le> e" "e < 146096 * c + 146096" "365 * y \<le> e - a + b - c" "e - a + b - c < 365 * y + 365"
    and "4 * q \<le> y" "y < 4 * q + 4" "100 * r \<le> y" "y < 100 * r + 100"
    and "153 * p \<le> 5 * (e - (365 * y + q - r)) + 2" "5 * (e - (365 * y + q - r)) + 2 < 153 * p + 153"
  shows "- 2 \<le> p" "p \<le> 21"
proof -
  have a: "0 \<le> a" "a \<le> 100" and b: "0 \<le> b" "b \<le> 4" and c: "0 \<le> c" "c \<le> 1" using assms(1-8) by simp_all
  have y: "0 \<le> 365 * y + 466" "365 * y \<le> e - a + 4" using assms(1,9,10) a b c by simp_all
  have q: "q \<le> a + 2" "- 1 \<le> q" using assms(1-12) a b c y by simp_all
  have r: "- 1 \<le> r" "r \<le> 5" using assms(1-14) a b c y by simp_all
  let ?d = "e - (365 * y + q - r)"
  have "- 8 \<le> ?d" "?d \<le> 600" using assms(9,10) a b c q r by simp_all
  then show "- 2 \<le> p" "p \<le> 21" using assms(15,16) by simp_all
qed

lemma civil_month: "case civil days of (y, m, d) \<Rightarrow> 1 \<le> m \<and> m \<le> 12"
proof -
  define doe where "doe = (days + 719468) mod 146097"
  define yoe where "yoe = (doe - doe div 1460 + doe div 36524 - doe div 146096) div 365"
  define mp where "mp = (5 * (doe - (365 * yoe + yoe div 4 - yoe div 100)) + 2) div 153"
  have "0 \<le> doe" "doe < 146097" by (simp_all add: doe_def)
  then have "- 2 \<le> mp" "mp \<le> 21"
    by (rule civil_arith [OF _ _ div_bounds [of 1460 doe, OF zero_less_numeral] div_bounds [of 36524 doe, OF zero_less_numeral]
      div_bounds [of 146096 doe, OF zero_less_numeral]
      div_bounds [of 365 "doe - doe div 1460 + doe div 36524 - doe div 146096", folded yoe_def, OF zero_less_numeral]
      div_bounds [of 4 yoe, OF zero_less_numeral] div_bounds [of 100 yoe, OF zero_less_numeral]
      div_bounds [of 153 "5 * (doe - (365 * yoe + yoe div 4 - yoe div 100)) + 2", folded mp_def, OF zero_less_numeral]])+
  moreover have "fst (snd (civil days)) = (if mp < 10 then mp + 3 else mp - 9)"
    unfolding civil_def Let_def by (simp only: fst_conv snd_conv mp_def yoe_def doe_def)
  ultimately show ?thesis by (auto split: prod.split if_splits)
qed

lemma nat_str_no_LF: "CHR 0x0A \<notin> set (nat_str n)"
  using nat_str_digits [of "CHR 0x0A" n] by (auto simp: is_digit_def)

lemma pad_no_LF: "CHR 0x0A \<notin> set (pad w n)"
  by (auto simp: pad_def Let_def nat_str_no_LF)

lemma rfc1123_no_LF: "CHR 0x0A \<notin> set (rfc1123 unix)"
proof -
  obtain y m d where c: "civil (unix div 86400) = (y, m, d)" by (cases "civil (unix div 86400)")
  have "0 \<le> (unix div 86400 + 4) mod 7 \<and> (unix div 86400 + 4) mod 7 < 7" by simp
  then have "nat ((unix div 86400 + 4) mod 7) < 7" by linarith
  then have "day_names ! nat ((unix div 86400 + 4) mod 7) \<in> set day_names" by (intro nth_mem) (simp add: day_names_def)
  then have a: "CHR 0x0A \<notin> set (day_names ! nat ((unix div 86400 + 4) mod 7))" by (auto simp: day_names_def)
  have "1 \<le> m \<and> m \<le> 12" using civil_month [of "unix div 86400"] c by simp
  then have "month_names ! nat (m - 1) \<in> set month_names" by (intro nth_mem) (auto simp: month_names_def)
  then have b: "CHR 0x0A \<notin> set (month_names ! nat (m - 1))" by (auto simp: month_names_def)
  show ?thesis using a b by (simp add: rfc1123_def Let_def c pad_no_LF)
qed

text \<open>C23: no notice is ever answered by a notice. Whatever account reads it, parsed in whatever way, a
  notice of this server, also with the \<open>Message-ID\<close> header that \<open>EnsureMessageID\<close> puts into it, leads to
  no second notice: the world behind \<open>OofReply\<close> is the one before it but for failures of the store. What
  the libraries make of the name and of the subject and the correspondent's address hold no line break.\<close>

theorem notices_never_answered:
  assumes "CHR 0x0A \<notin> set addr" "CHR 0x0A \<notin> set (ml_string (me_lib E) (own_name user) (us_address user))"
    and "CHR 0x0A \<notin> set (me_qenc E (notice_subject subject))" "CHR 0x0A \<notin> set fresh" "CHR 0x0A \<notin> set domain"
    and "raw = oof_notice E user v addr subject \<or> raw = fst (EnsureMessageID fresh (oof_notice E user v addr subject) domain)"
  shows "fst (OofReply J E' user' parsed raw w) = None \<and> mw_log (snd (OofReply J E' user' parsed raw w)) = mw_log w \<and>
    mw_oof (snd (OofReply J E' user' parsed raw w)) = mw_oof w"
proof -
  obtain body where n: "oof_notice E user v addr subject = auto_mail (ml_string (me_lib E) (own_name user) (us_address user)) addr (me_qenc E (notice_subject subject))
      (rfc1123 (me_now E div 10 ^ 9)) body"
    by (simp add: oof_notice_def Let_def)
  define ls where "ls = [''From: '' @ ml_string (me_lib E) (own_name user) (us_address user),
    ''To: '' @ addr, ''Subject: '' @ me_qenc E (notice_subject subject),
    ''Date: '' @ rfc1123 (me_now E div 10 ^ 9), ''MIME-Version: 1.0'', ''Content-Type: text/plain; charset=utf-8'',
    ''Content-Transfer-Encoding: 8bit'', ''Auto-Submitted: auto-replied'']"
  have m: "oof_notice E user v addr subject = header_text ls @ crlf @ body" by (simp only: n auto_mail_def ls_def header_text_simps append_assoc append_Nil2)
  have ls: "\<forall>l\<in>set ls. header_line l" using assms(1-3) rfc1123_no_LF by (simp add: ls_def header_line_def)
  have au: "''Auto-Submitted: auto-replied'' \<in> set ls" unfolding ls_def by simp
  define k where "k = ''Message-ID: '' @ ''<'' @ newMessageID fresh (if domain = [] then ''lifemail.local'' else domain) @ ''>''"
  have k: "header_line k" using assms(4,5) by (simp add: header_line_def k_def newMessageID_def)
  have "raw = header_text ls @ crlf @ body \<or> raw = header_text (ls @ [k]) @ crlf @ body"
  proof (cases "headerMessageID (header_text ls @ crlf @ body) = []")
    case False
    then show ?thesis using assms(6) m by (auto simp: EnsureMessageID_def)
  next
    case True
    have i: "index_str (header_text ls @ crlf @ body) [CHR 0x0D, CHR 0x0A, CHR 0x0D, CHR 0x0A] = Some (length (header_text ls) - 2)"
      using index_blank_header [of ls body] ls unfolding crlf_def by (simp add: ls_def)
    have "length (header_text ls) - 2 + 2 = length (header_text ls)" by (simp add: ls_def crlf_def)
    then have "fst (EnsureMessageID fresh (header_text ls @ crlf @ body) domain) = header_text ls @ k @ crlf @ crlf @ body"
      using True i by (simp add: EnsureMessageID_def Let_def k_def crlf_def)
    then show ?thesis using assms(6) m by (simp add: header_text_def)
  qed
  then have "looksAutomated raw" using header_looksAutomated [of ls body] header_looksAutomated [of "ls @ [k]" body] ls k au by auto
  then have "oof_answers user' u now parsed raw = None" for u now by (simp add: oof_answers_def Let_def)
  then show ?thesis by (simp add: OofReply_def split: prod.split)
qed

section \<open>Examples\<close>

definition demo_json :: oof_json where
  "demo_json = \<lparr>oj_read = (\<lambda>_. oof_zero\<lparr>oo_state := 1, oo_message := ''Away''\<rparr>), oj_write = (\<lambda>_. Some ''x'')\<rparr>"

definition away_world :: mail_world where
  "away_world = demo_world\<lparr>mw_store := demo_store\<lparr>st_db := demo_db\<lparr>tb_settings := [oofSettingKey (us_id demo_account) \<mapsto> ''x'']\<rparr>\<rparr>\<rparr>"

text \<open>A mail of a correspondent, at any time.\<close>

definition ann_mail :: "string \<Rightarrow> int \<Rightarrow> arrival" where
  "ann_mail a t = (demo_mail_env\<lparr>me_now := t\<rparr>, demo_account, empty_mail\<lparr>pm_from_addr := a\<rparr>,
     ''Subject: hi'', (\<lambda>_. away_world))"

lemma ann_answer:
  assumes "a \<in> {''Ann@z'', ''ANN@Z'', ''ann@z''}"
  shows "\<exists>w'. mw_oof w' = snd (oofRecentlyAnswered ''u|ann@z'' t (mw_oof w)) \<and>
     oof_run demo_json (ann_mail a t # as) w =
       (if fst (oofRecentlyAnswered ''u|ann@z'' t (mw_oof w)) then [] else [(''u'', a, t)]) @
       oof_run demo_json as w'"
proof -
  let ?v = "oof_zero\<lparr>oo_state := 1, oo_message := ''Away''\<rparr>" and ?p = "empty_mail\<lparr>pm_from_addr := a\<rparr>"
  have l: "loadOof demo_json (us_id demo_account) (mw_store away_world) = (?v, mw_store away_world)"
  proof -
    have "trim_space ''x'' \<noteq> []" by code_simp
    then show ?thesis
      by (simp add: loadOof_def Setting_def get_row_def sql_def limit_rows_def away_world_def demo_json_def demo_store_def)
  qed
  have "trim_space ''Ann@z'' = ''Ann@z''" "trim_space ''ANN@Z'' = ''ANN@Z''" "trim_space ''ann@z'' = ''ann@z''" by code_simp+
  then have tr: "trim_space a = a" "a \<noteq> []" using assms by auto
  have "\<not> equal_fold ''Ann@z'' (us_address demo_account)" "\<not> equal_fold ''ANN@Z'' (us_address demo_account)"
    "\<not> equal_fold ''ann@z'' (us_address demo_account)" by code_simp+
  then have eq: "\<not> equal_fold a (us_address demo_account)" using assms by auto
  have "\<not> looksAutomated ''Subject: hi''" by code_simp
  moreover have "\<not> hasCalendarPart ?p" by (simp add: hasCalendarPart_def empty_mail_def)
  ultimately have an: "oof_answers demo_account ?v t ?p ''Subject: hi'' = Some a"
    by (simp add: oof_answers_def oof_active_def tr eq)
  have "oof_key (us_id demo_account) ''Ann@z'' = ''u|ann@z''" "oof_key (us_id demo_account) ''ANN@Z'' = ''u|ann@z''"
    "oof_key (us_id demo_account) ''ann@z'' = ''u|ann@z''" by code_simp+
  then have k: "oof_key (us_id demo_account) a = ''u|ann@z''" using assms by auto
  have u: "us_id demo_account = ''u''" by code_simp
  obtain b m where b: "oofRecentlyAnswered ''u|ann@z'' t (mw_oof w) = (b, m)" by fastforce
  have e: "\<exists>w'. mw_oof w' = n \<and> oof_run demo_json as v = oof_run demo_json as w'" if "mw_oof v = n" for v n using that by blast
  have same: "b \<Longrightarrow> m = mw_oof w" using b by (simp add: oofRecentlyAnswered_def split: option.splits if_splits)
  show ?thesis
    by (cases b) (simp_all add: ann_mail_def OofReply_def l [unfolded u] an k [unfolded u] u b Let_def send_auto_def
      sendComposed_oof tr e same)
qed

text \<open>Three mails of one correspondent, whose address is spelled in three ways: the second, an hour after the
  first, is not answered, the third, a day after the first, is.\<close>

theorem oof_once_a_day_witness:
  "oof_run demo_json [ann_mail ''Ann@z'' 0, ann_mail ''ANN@Z'' 3600000000000, ann_mail ''ann@z'' 86400000000000] away_world =
     [(''u'', ''Ann@z'', 0), (''u'', ''ann@z'', 86400000000000)] \<and>
   (0 :: int) + 24 * 60 * 60 * 1000000000 \<le> 86400000000000"
proof -
  let ?day = "ann_mail ''ann@z'' 86400000000000" and ?hour = "ann_mail ''ANN@Z'' 3600000000000"
  have m: "mw_oof away_world = Map.empty" by (simp add: away_world_def demo_world_def)
  obtain w1 where w1: "mw_oof w1 = [''u|ann@z'' \<mapsto> 0]"
    "oof_run demo_json [ann_mail ''Ann@z'' 0, ?hour, ?day] away_world = (''u'', ''Ann@z'', 0) # oof_run demo_json [?hour, ?day] w1"
    using ann_answer [of "''Ann@z''" 0 away_world "[?hour, ?day]"] by (auto simp: m oofRecentlyAnswered_def)
  obtain w2 where w2: "mw_oof w2 = [''u|ann@z'' \<mapsto> 0]"
    "oof_run demo_json [?hour, ?day] w1 = oof_run demo_json [?day] w2"
    using ann_answer [of "''ANN@Z''" 3600000000000 w1 "[?day]"] by (auto simp: w1(1) oofRecentlyAnswered_def oofReplyInterval_def)
  have "oof_run demo_json [?day] w2 = [(''u'', ''ann@z'', 86400000000000)]"
    using ann_answer [of "''ann@z''" 86400000000000 w2 "[]"] by (auto simp: w2(1) oofRecentlyAnswered_def oofReplyInterval_def)
  then have r: "oof_run demo_json [ann_mail ''Ann@z'' 0, ?hour, ?day] away_world =
      [(''u'', ''Ann@z'', 0), (''u'', ''ann@z'', 86400000000000)]"
    using w1(2) w2(2) by simp
  have l: "to_lower ''Ann@z'' = to_lower ''ann@z''" by code_simp
  show ?thesis
    using oof_once_a_day [of demo_json "[ann_mail ''Ann@z'' 0, ?hour, ?day]" away_world] unfolding r by (simp add: l)
qed

theorem notices_never_answered_witness:
  "fst (OofReply demo_json demo_mail_env demo_account (empty_mail\<lparr>pm_from_addr := ''u@x''\<rparr>)
     (oof_notice demo_mail_env demo_account oof_zero ''ann@z'' ''hi'') away_world) = None"
proof -
  have h: "CHR 0x0A \<notin> set ''ann@z''" "CHR 0x0A \<notin> set (ml_string (me_lib demo_mail_env) (own_name demo_account) (us_address demo_account))"
    "CHR 0x0A \<notin> set (me_qenc demo_mail_env (notice_subject ''hi''))" "CHR 0x0A \<notin> set ''1''" "CHR 0x0A \<notin> set ''x''"
    by code_simp+
  show ?thesis by (rule conjunct1 [OF notices_never_answered [OF h disjI1 [OF refl]]])
qed

end
