(* ===== verification/Ical.thy ===== *)
theory Ical imports EasData StoreFolders StoreItems begin

text \<open>
  Package \<open>internal/ical\<close>: calendar events as an iCalendar document, and the feed that serves the
  document of a calendar under its UUID. Text is a string of bytes. \<open>range\<close> over a string and
  \<open>WriteRune\<close> are written out: a sequence that is not UTF-8 becomes the replacement character. Of an
  answer of HTTP the status, the headers the handler sets and the body are modelled.
\<close>

section \<open>Text\<close>

definition byte_in :: "nat \<Rightarrow> nat \<Rightarrow> char \<Rightarrow> bool" where
  "byte_in lo hi c \<longleftrightarrow> lo \<le> (of_char c :: nat) \<and> (of_char c :: nat) \<le> hi"

text \<open>\<open>k\<close> continuation bytes, the first one in the given range.\<close>

definition continues :: "nat \<Rightarrow> nat \<Rightarrow> nat \<Rightarrow> string \<Rightarrow> nat option" where
  "continues lo hi k s = (case s of
     [] \<Rightarrow> None
   | d # t \<Rightarrow> (if byte_in lo hi d \<and> k \<le> length s \<and> list_all (byte_in 0x80 0xBF) (take (k - 1) t) then Some k else None))"

text \<open>How many bytes behind the first belong to the character; \<open>None\<close> when it is not UTF-8.\<close>

definition rune_tail :: "char \<Rightarrow> string \<Rightarrow> nat option" where
  "rune_tail c s =
    (if byte_in 0 0x7F c then Some 0
     else if byte_in 0xC2 0xDF c then continues 0x80 0xBF 1 s
     else if byte_in 0xE0 0xE0 c then continues 0xA0 0xBF 2 s
     else if byte_in 0xED 0xED c then continues 0x80 0x9F 2 s
     else if byte_in 0xE1 0xEF c then continues 0x80 0xBF 2 s
     else if byte_in 0xF0 0xF0 c then continues 0x90 0xBF 3 s
     else if byte_in 0xF1 0xF3 c then continues 0x80 0xBF 3 s
     else if byte_in 0xF4 0xF4 c then continues 0x80 0x8F 3 s
     else None)"

definition bad_rune :: string where
  "bad_rune = [CHR 0xEF, CHR 0xBF, CHR 0xBD]"

function runes :: "string \<Rightarrow> string list" where
  "runes [] = []"
| "runes (c # s) = (case rune_tail c s of
     None \<Rightarrow> bad_rune # runes s
   | Some k \<Rightarrow> (c # take k s) # runes (drop k s))"
  by pat_completeness auto
termination by (relation "measure length") auto

definition ics_crlf :: string where
  "ics_crlf = [CHR 0x0D, CHR 0x0A]"

text \<open>The width is that of the physical line so far, without the blank that continues it.\<close>

(* src: internal/ical/ical.go 345-354 fold *)
fun fold_runes :: "nat \<Rightarrow> string list \<Rightarrow> string" where
  "fold_runes width [] = ics_crlf"
| "fold_runes width (r # rs) =
    (if width + length r > 74 then ics_crlf @ '' '' @ r @ fold_runes (length r) rs
     else r @ fold_runes (width + length r) rs)"

(* src: internal/ical/ical.go 341-358 fold *)
definition fold_line :: "string \<Rightarrow> string" where
  "fold_line line = fold_runes 0 (runes line)"

fun replace_crlf :: "string \<Rightarrow> string \<Rightarrow> string" where
  "replace_crlf by_text [] = []"
| "replace_crlf by_text [c] = [c]"
| "replace_crlf by_text (c # d # s) =
    (if c = CHR 0x0D \<and> d = CHR 0x0A then by_text @ replace_crlf by_text s else c # replace_crlf by_text (d # s))"

definition bslash :: char where
  "bslash = CHR 0x5C"

(* src: internal/ical/ical.go 330-339 escape *)
definition ics_escape :: "string \<Rightarrow> string" where
  "ics_escape v0 =
    (let v1 = replace_byte bslash [bslash, bslash] v0;
         v2 = replace_byte CHR '';'' [bslash, CHR '';''] v1;
         v3 = replace_byte CHR '','' [bslash, CHR '',''] v2;
         v4 = replace_crlf [bslash, CHR ''n''] v3;
         v5 = replace_byte CHR 0x0A [bslash, CHR ''n''] v4 in
     replace_byte CHR 0x0D [bslash, CHR ''n''] v5)"

(* src: internal/ical/ical.go 236-240 quote *)
definition ical_quote :: "string \<Rightarrow> string" where
  "ical_quote v = [CHR 0x22] @ replace_byte CHR 0x22 [] v @ [CHR 0x22]"

(* src: internal/ical/ical.go 325-328 utc *)
definition ical_utc :: "int \<Rightarrow> string" where
  "ical_utc unix = (let (y, m, d) = civil (unix div 86400); sec = unix mod 86400 in
     pad 4 y @ pad 2 m @ pad 2 d @ ''T'' @ pad 2 (sec div 3600) @ pad 2 (sec div 60 mod 60) @ pad 2 (sec mod 60) @ ''Z'')"

definition ical_date :: "int \<Rightarrow> string" where
  "ical_date unix = (let (y, m, d) = civil (unix div 86400) in pad 4 y @ pad 2 m @ pad 2 d)"

section \<open>Rules\<close>

(* src: internal/ical/ical.go 242-249 weekdays *)
definition weekdays :: "(nat \<times> string) list" where
  "weekdays = [(0, ''SU''), (1, ''MO''), (2, ''TU''), (3, ''WE''), (4, ''TH''), (5, ''FR''), (6, ''SA'')]"

text \<open>The mask of a weekday is a power of two; a test of one bit stands for the conjunction.\<close>

(* src: internal/ical/ical.go 302-311 byDay *)
definition byDay :: "int \<Rightarrow> string list" where
  "byDay days = map snd (filter (\<lambda>(k, _). days div 2 ^ k mod 2 = 1) weekdays)"

(* src: internal/ical/ical.go 313-323 setPos *)
definition setPos :: "int \<Rightarrow> string" where
  "setPos week = (if 1 \<le> week \<and> week \<le> 4 then itoa week else if week = 5 then ''-1'' else [])"

definition by_day_part :: "int \<Rightarrow> string list" where
  "by_day_part days = (if byDay days = [] then [] else [''BYDAY='' @ join '','' (byDay days)])"

definition set_pos_part :: "int \<Rightarrow> string list" where
  "set_pos_part week = (if setPos week = [] then [] else [''BYSETPOS='' @ setPos week])"

text \<open>The parts of the rule that depend on its type; \<open>None\<close> for a type without a rule.\<close>

(* src: internal/ical/ical.go 256-284 RRule *)
definition freq_parts :: "recurrence \<Rightarrow> string list option" where
  "freq_parts r =
    (if rc_type r = 1 then Some ([''FREQ=WEEKLY''] @ by_day_part (rc_day_of_week r))
     else if rc_type r = 2 then Some [''FREQ=MONTHLY'', ''BYMONTHDAY='' @ itoa (rc_day_of_month r)]
     else if rc_type r = 3 then
       Some ([''FREQ=MONTHLY''] @ by_day_part (rc_day_of_week r) @ set_pos_part (rc_week_of_month r))
     else if rc_type r = 4 then
       Some [''FREQ=YEARLY'', ''BYMONTH='' @ itoa (rc_month_of_year r + 1), ''BYMONTHDAY='' @ itoa (rc_day_of_month r)]
     else if rc_type r = 5 then
       Some ([''FREQ=YEARLY'', ''BYMONTH='' @ itoa (rc_month_of_year r + 1)] @ by_day_part (rc_day_of_week r) @
         set_pos_part (rc_week_of_month r))
     else None)"

(* src: internal/ical/ical.go 251-300 RRule *)
definition RRule :: "recurrence \<Rightarrow> string" where
  "RRule r =
    (if \<not> rc_interval r > 0 then []
     else (case freq_parts r of
        None \<Rightarrow> []
      | Some ps \<Rightarrow> join '';'' (ps @
          (if rc_interval r > 1 then [''INTERVAL='' @ itoa (rc_interval r)] else []) @
          (if rc_occurrences r > 0 then [''COUNT='' @ itoa (rc_occurrences r)]
           else if rc_until r > 0 then [''UNTIL='' @ ical_utc (rc_until r)] else []))))"

section \<open>Events\<close>

(* src: internal/ical/ical.go 223-234 partStat *)
definition partStat :: "int \<Rightarrow> string" where
  "partStat status = (if status = 2 then ''TENTATIVE'' else if status = 3 then ''ACCEPTED''
     else if status = 4 then ''DECLINED'' else ''NEEDS-ACTION'')"

(* src: internal/ical/ical.go 139-152 revision *)
definition revision :: "event \<Rightarrow> string list" where
  "revision e = (let stamp = (if ev_modified e = 0 then ev_dtstamp e else ev_modified e) in
     (''SEQUENCE:'' @ itoa (ev_sequence e)) # (if stamp > 0 then [''LAST-MODIFIED:'' @ ical_utc stamp] else []))"

(* src: internal/ical/ical.go 154-177 classification *)
definition classification :: "event \<Rightarrow> string list" where
  "classification e =
    [if ev_busy e = 0 then ''TRANSP:TRANSPARENT'' else ''TRANSP:OPAQUE'',
     if ev_sensitivity e = 1 then ''CLASS:PRIVATE'' else if ev_sensitivity e = 2 then ''CLASS:PRIVATE''
     else if ev_sensitivity e = 3 then ''CLASS:CONFIDENTIAL'' else ''CLASS:PUBLIC'',
     ''STATUS:CONFIRMED'']"

(* src: internal/ical/ical.go 190-203 parties *)
definition attendee_line :: "attendee \<Rightarrow> string list" where
  "attendee_line a =
    (if an_email a = [] then []
     else [''ATTENDEE;PARTSTAT='' @ partStat (an_status a) @
       (if an_name a = [] then [] else '';CN='' @ ical_quote (an_name a)) @
       (if an_type a = 1 then '';ROLE=REQ-PARTICIPANT'' else []) @ '':mailto:'' @ an_email a])"

(* src: internal/ical/ical.go 179-205 parties *)
definition parties :: "event \<Rightarrow> string list" where
  "parties e =
    (if ev_org_email e = [] then []
     else [''ORGANIZER'' @ (if ev_org_name e = [] then [] else '';CN='' @ ical_quote (ev_org_name e)) @
       '':mailto:'' @ ev_org_email e]) @
    concat (map attendee_line (ev_attendees e))"

(* src: internal/ical/ical.go 207-221 alarm *)
definition alarm :: "event \<Rightarrow> string list" where
  "alarm e = (if ev_reminder e \<le> 0 then []
     else [''BEGIN:VALARM'', ''ACTION:DISPLAY'', ''DESCRIPTION:'' @ ics_escape (ev_subject e),
       ''TRIGGER:-PT'' @ itoa (ev_reminder e) @ ''M'', ''END:VALARM''])"

(* src: internal/ical/ical.go 76-86 renderEvent *)
definition when_lines :: "bool \<Rightarrow> int \<Rightarrow> int \<Rightarrow> string list" where
  "when_lines all_day from to =
    (if all_day then [''DTSTART;VALUE=DATE:'' @ ical_date from, ''DTEND;VALUE=DATE:'' @ ical_date to]
     else [''DTSTART:'' @ ical_utc from, ''DTEND:'' @ ical_utc to])"

definition text_line :: "string \<Rightarrow> string \<Rightarrow> string list" where
  "text_line name v = (if v = [] then [] else [name @ ics_escape v])"

(* src: internal/ical/ical.go 54-57 renderEvent *)
definition stamp_of :: "event \<Rightarrow> int \<Rightarrow> string" where
  "stamp_of e now = ical_utc (if ev_dtstamp e = 0 then now else ev_dtstamp e)"

(* src: internal/ical/ical.go 58-61 renderEvent *)
definition uid_of :: "event \<Rightarrow> string" where
  "uid_of e = (if ev_uid e = [] then ''event-'' @ itoa (ev_id e) @ ''@lifemail'' else ev_uid e)"

(* src: internal/ical/ical.go 63-72 renderEvent *)
definition cancelled :: "event \<Rightarrow> string list" where
  "cancelled e = map (\<lambda>x. ical_utc (ex_occurrence x)) (filter ex_deleted (ev_exceptions e))"

(* src: internal/ical/ical.go 74-103 renderEvent *)
definition series_lines :: "event \<Rightarrow> int \<Rightarrow> string list" where
  "series_lines e now =
     [''BEGIN:VEVENT'', ''UID:'' @ uid_of e, ''DTSTAMP:'' @ stamp_of e now] @ revision e @
     when_lines (ev_all_day e) (ev_start e) (ev_end e) @ [''SUMMARY:'' @ ics_escape (ev_subject e)] @
     text_line ''LOCATION:'' (ev_location e) @ text_line ''DESCRIPTION:'' (ev_body e) @ classification e @ parties e @
     (if RRule (ev_recurrence e) = [] then [] else [''RRULE:'' @ RRule (ev_recurrence e)]) @
     (if cancelled e = [] then [] else [''EXDATE:'' @ join '','' (cancelled e)]) @ alarm e @ [''END:VEVENT'']"

(* src: internal/ical/ical.go 105-135 renderEvent *)
definition override_lines :: "event \<Rightarrow> int \<Rightarrow> event_exception \<Rightarrow> string list" where
  "override_lines e now x =
    (let start = (if ex_start x = 0 then ev_start e else ex_start x);
         end_time = (if ex_start x = 0 then ev_end e else ex_end x);
         subject = (if ex_subject x = [] then ev_subject e else ex_subject x);
         location = (if ex_location x = [] then ev_location e else ex_location x) in
     [''BEGIN:VEVENT'', ''UID:'' @ uid_of e, ''RECURRENCE-ID:'' @ ical_utc (ex_occurrence x), ''DTSTAMP:'' @ stamp_of e now] @
     revision e @ when_lines (ev_all_day e) start end_time @ [''SUMMARY:'' @ ics_escape subject] @
     text_line ''LOCATION:'' location @ classification e @ [''END:VEVENT''])"

(* src: internal/ical/ical.go 51-137 renderEvent *)
definition renderEvent :: "event \<Rightarrow> int \<Rightarrow> string list" where
  "renderEvent e now = series_lines e now @
     concat (map (override_lines e now) (filter (\<lambda>x. \<not> ex_deleted x) (ev_exceptions e)))"

(* src: internal/ical/ical.go 14-17 Feed *)
record feed =
  fd_name :: string
  fd_events :: "event list"

(* src: internal/ical/ical.go 32-48 Feed.Render *)
definition content_lines :: "feed \<Rightarrow> int \<Rightarrow> string list" where
  "content_lines f now =
     [''BEGIN:VCALENDAR'', ''VERSION:2.0'', ''PRODID:-//lifemail//calendar//EN'', ''CALSCALE:GREGORIAN'', ''METHOD:PUBLISH''] @
     text_line ''X-WR-CALNAME:'' (fd_name f) @ [''X-PUBLISHED-TTL:PT1H'', ''REFRESH-INTERVAL;VALUE=DURATION:PT1H''] @
     concat (map (\<lambda>e. renderEvent e now) (fd_events f)) @ [''END:VCALENDAR'']"

(* src: internal/ical/ical.go 19-49 Feed.Render *)
definition Render :: "feed \<Rightarrow> int \<Rightarrow> string" where
  "Render f now = concat (map fold_line (content_lines f now))"

section \<open>The feed\<close>

record http_answer =
  ha_status :: int
  ha_headers :: "(string \<times> string) list"
  ha_body :: string

definition http_error :: "int \<Rightarrow> string \<Rightarrow> http_answer" where
  "http_error status text = \<lparr>ha_status = status, ha_headers = [], ha_body = text @ [CHR 0x0A]\<rparr>"

definition http_not_found :: http_answer where
  "http_not_found = http_error 404 ''404 page not found''"

(* src: internal/ical/feed.go 84-95 feedUUID *)
definition feedUUID :: "string \<Rightarrow> string option" where
  "feedUUID path =
    (if \<not> has_prefix path ''/calendar/'' then None
     else (let rest = drop (length ''/calendar/'') path in
       if \<not> has_suffix rest ''.ics'' then None
       else (let uuid = take (length rest - length ''.ics'') rest in
         if uuid = [] \<or> contains_any uuid [CHR ''/'', bslash] then None else Some uuid)))"

(* src: internal/ical/feed.go 74-76 Handler.ServeHTTP *)
definition feed_headers :: "(string \<times> string) list" where
  "feed_headers = [(''Content-Type'', ''text/calendar; charset=utf-8''), (''Cache-Control'', ''public, max-age=300''),
     (''X-Robots-Tag'', ''noindex'')]"

(* src: internal/ical/feed.go 53-82 Handler.ServeHTTP *)
definition public_feed :: "folder \<Rightarrow> string \<Rightarrow> int \<Rightarrow> store \<Rightarrow> http_answer \<times> store" where
  "public_feed folder meth now s = (case EventsByFolder (fo_id folder) s of
     (Inl _, s1) \<Rightarrow> (http_error 500 ''internal error'', s1)
   | (Inr events, s1) \<Rightarrow> (case ExceptionsByFolder (fo_id folder) s1 of
        (Inl _, s2) \<Rightarrow> (http_error 500 ''internal error'', s2)
      | (Inr exceptions, s2) \<Rightarrow>
          (\<lparr>ha_status = 200, ha_headers = feed_headers,
            ha_body = (if meth = ''HEAD'' then []
              else Render \<lparr>fd_name = fo_name folder, fd_events = map (\<lambda>e. e\<lparr>ev_exceptions := exceptions (ev_id e)\<rparr>) events\<rparr> now)\<rparr>, s2)))"

(* src: internal/ical/feed.go 24-82 Handler.ServeHTTP *)
definition serveFeed :: "string \<Rightarrow> string \<Rightarrow> int \<Rightarrow> store \<Rightarrow> http_answer \<times> store" where
  "serveFeed meth path now s =
    (if meth \<noteq> ''GET'' \<and> meth \<noteq> ''HEAD'' then
       ((http_error 405 ''method not allowed'')\<lparr>ha_headers := [(''Allow'', ''GET, HEAD'')]\<rparr>, s)
     else (case feedUUID path of
        None \<Rightarrow> (http_not_found, s)
      | Some uuid \<Rightarrow> (case FolderByUUID uuid s of
           (Inl e, s1) \<Rightarrow> (if e \<noteq> ErrNotFound then http_error 500 ''internal error'' else http_not_found, s1)
         | (Inr folder, s1) \<Rightarrow> if \<not> fo_public folder then (http_not_found, s1) else public_feed folder meth now s1)))"

section \<open>Reading a document\<close>

text \<open>What a subscriber does by RFC 5545: a line break before a blank is no line break, and the lines end
  with one. \<open>scrub\<close> is the text that UTF-8 can carry; it is the text itself when that is UTF-8.\<close>

fun unfold_rfc :: "string \<Rightarrow> string" where
  "unfold_rfc (a # b # c # s) = (if a = CHR 0x0D \<and> b = CHR 0x0A \<and> (c = CHR '' '' \<or> c = CHR 0x09) then unfold_rfc s
     else a # unfold_rfc (b # c # s))"
| "unfold_rfc s = s"

definition ics_read :: "string \<Rightarrow> string list" where
  "ics_read s = map (\<lambda>l. trim_suffix l [CHR 0x0D]) (split_byte CHR 0x0A (unfold_rfc s))"

definition scrub :: "string \<Rightarrow> string" where
  "scrub s = concat (runes s)"

definition one_line :: "string \<Rightarrow> bool" where
  "one_line s \<longleftrightarrow> CHR 0x0D \<notin> set s \<and> CHR 0x0A \<notin> set s"

definition ics_line :: "string \<Rightarrow> bool" where
  "ics_line l \<longleftrightarrow> one_line l \<and> l \<noteq> [] \<and> byte_in 0x41 0x5A (hd l)"

lemma one_line_append [simp]: "one_line (a @ b) \<longleftrightarrow> one_line a \<and> one_line b"
  by (auto simp: one_line_def)

lemma one_line_Cons [simp]: "one_line (c # s) \<longleftrightarrow> c \<noteq> CHR 0x0D \<and> c \<noteq> CHR 0x0A \<and> one_line s"
  by (auto simp: one_line_def)

lemma one_line_Nil [simp]: "one_line []"
  by (simp add: one_line_def)

lemma rune_tail_le: "rune_tail c s = Some k \<Longrightarrow> k \<le> length s \<and> k \<le> 3"
  by (auto simp: rune_tail_def continues_def split: if_splits list.splits)

lemma runes_parts:
  assumes "r \<in> set (runes s)" shows "length r \<le> 4 \<and> (one_line s \<longrightarrow> one_line r)"
  using assms
proof (induction s rule: runes.induct)
  case (2 c s)
  show ?case
  proof (cases "rune_tail c s")
    case None
    then show ?thesis using 2 by (auto simp: bad_rune_def)
  next
    case (Some k)
    have "one_line s \<longrightarrow> one_line (take k s) \<and> one_line (drop k s)" by (auto simp: one_line_def dest: in_set_takeD in_set_dropD)
    then show ?thesis using 2 Some rune_tail_le [OF Some] by auto
  qed
qed simp

lemma one_line_scrub: "one_line s \<Longrightarrow> one_line (scrub s)"
  using runes_parts [of _ s] by (auto simp: scrub_def one_line_def)

lemma unfold_plain [simp]: "a \<noteq> CHR 0x0D \<Longrightarrow> unfold_rfc (a # s) = a # unfold_rfc s"
  by (cases s; cases "tl s") auto

lemma unfold_one_line: "one_line r \<Longrightarrow> unfold_rfc (r @ s) = r @ unfold_rfc s"
  by (induction r) simp_all

lemma unfold_end:
  assumes "s = [] \<or> byte_in 0x41 0x5A (hd s)" shows "unfold_rfc (ics_crlf @ s) = ics_crlf @ unfold_rfc s"
proof (cases s)
  case (Cons c t)
  then have "c \<noteq> CHR '' ''" "c \<noteq> CHR 0x09" using assms by (auto simp: byte_in_def)
  then show ?thesis using Cons by (simp add: ics_crlf_def)
qed (simp add: ics_crlf_def)

lemma unfold_fold:
  assumes "s = [] \<or> byte_in 0x41 0x5A (hd s)" "\<forall>r\<in>set rs. one_line r"
  shows "unfold_rfc (fold_runes w rs @ s) = concat rs @ ics_crlf @ unfold_rfc s"
  using assms(2)
proof (induction rs arbitrary: w)
  case Nil
  then show ?case using unfold_end [OF assms(1)] by simp
next
  case (Cons r rs)
  have "unfold_rfc (ics_crlf @ '' '' @ t) = unfold_rfc t" for t by (simp add: ics_crlf_def)
  then show ?case using Cons unfold_one_line [of r] by simp
qed

lemma split_one_line: "CHR 0x0A \<notin> set r \<Longrightarrow> split_byte CHR 0x0A (r @ s) = (r @ hd (split_byte CHR 0x0A s)) # tl (split_byte CHR 0x0A s)"
  by (induction r) (auto split: list.splits)

lemma fold_width:
  assumes "\<forall>r\<in>set rs. one_line r \<and> length r \<le> 4" "w \<le> 74"
  shows "\<exists>ls. split_byte CHR 0x0A (fold_runes w rs @ s) = ls @ split_byte CHR 0x0A s \<and> ls \<noteq> [] \<and> length (hd ls) \<le> 75 - w \<and>
    (\<forall>l\<in>set (tl ls). length l \<le> 76)"
  using assms
proof (induction rs arbitrary: w)
  case Nil
  have "split_byte CHR 0x0A (ics_crlf @ s) = [[CHR 0x0D]] @ split_byte CHR 0x0A s"
    using split_byte_append [of "CHR 0x0A" "[CHR 0x0D]" s] by (simp add: ics_crlf_def)
  then show ?case using Nil by (intro exI [of _ "[[CHR 0x0D]]"]) simp
next
  case (Cons r rs)
  have r: "CHR 0x0A \<notin> set r" "length r \<le> 4" using Cons.prems(1) by (auto simp: one_line_def)
  show ?case
  proof (cases "w + length r > 74")
    case True
    obtain ls where ls: "split_byte CHR 0x0A (fold_runes (length r) rs @ s) = ls @ split_byte CHR 0x0A s" "ls \<noteq> []"
      "length (hd ls) \<le> 75 - length r" "\<forall>l\<in>set (tl ls). length l \<le> 76"
      using Cons.IH [of "length r"] Cons.prems(1) r by auto
    have c: "split_byte CHR 0x0A (('' '' @ r) @ fold_runes (length r) rs @ s) = (('' '' @ r) @ hd ls) # tl ls @ split_byte CHR 0x0A s"
      using split_one_line [of "'' '' @ r"] r(1) ls(1,2) by simp
    have "split_byte CHR 0x0A (fold_runes w (r # rs) @ s) = ([CHR 0x0D] # ('' '' @ r @ hd ls) # tl ls) @ split_byte CHR 0x0A s"
      using True c split_byte_append [of "CHR 0x0A" "[CHR 0x0D]"] by (simp add: ics_crlf_def)
    then show ?thesis using ls r Cons.prems(2) by (intro exI [of _ "[CHR 0x0D] # ('' '' @ r @ hd ls) # tl ls"]) auto
  next
    case False
    obtain ls where ls: "split_byte CHR 0x0A (fold_runes (w + length r) rs @ s) = ls @ split_byte CHR 0x0A s" "ls \<noteq> []"
      "length (hd ls) \<le> 75 - (w + length r)" "\<forall>l\<in>set (tl ls). length l \<le> 76"
      using Cons.IH [of "w + length r"] Cons.prems(1) False by auto
    have "split_byte CHR 0x0A (fold_runes w (r # rs) @ s) = ((r @ hd ls) # tl ls) @ split_byte CHR 0x0A s"
      using False split_one_line [OF r(1)] ls(1,2) by simp
    then show ?thesis using ls False by (intro exI [of _ "(r @ hd ls) # tl ls"]) auto
  qed
qed

section \<open>Escaped text\<close>

text \<open>The inverse of \<open>ics_escape\<close> in RFC 5545.\<close>

fun unescape :: "string \<Rightarrow> string" where
  "unescape (c # d # s) =
    (if c = bslash then (if d = CHR ''n'' \<or> d = CHR ''N'' then CHR 0x0A else d) # unescape s else c # unescape (d # s))"
| "unescape s = s"

text \<open>What \<open>ics_escape\<close> does to one byte, once the pairs of line break bytes are one byte.\<close>

definition esc_byte :: "char \<Rightarrow> string" where
  "esc_byte c = (if c = bslash \<or> c = CHR '';'' \<or> c = CHR '','' then [bslash, c]
     else if c = CHR 0x0A \<or> c = CHR 0x0D then [bslash, CHR ''n''] else [c])"

definition unix_breaks :: "string \<Rightarrow> string" where
  "unix_breaks s = map (\<lambda>c. if c = CHR 0x0D then CHR 0x0A else c) (replace_crlf [CHR 0x0A] s)"

lemma replace_byte_concat: "replace_byte c t s = concat (map (\<lambda>x. if x = c then t else [x]) s)"
  by (simp add: replace_byte_def)

lemma replace_crlf_Cons: "c \<noteq> CHR 0x0D \<Longrightarrow> replace_crlf t (c # s) = c # replace_crlf t s"
  by (cases s) auto

definition quote_byte :: "char \<Rightarrow> string" where
  "quote_byte c = (if c = bslash \<or> c = CHR '';'' \<or> c = CHR '','' then [bslash, c] else [c])"

lemma escape_quoted:
  "ics_escape s = concat (map (\<lambda>c. if c = CHR 0x0D \<or> c = CHR 0x0A then [bslash, CHR ''n''] else [c])
     (replace_crlf [bslash, CHR ''n''] (concat (map quote_byte s))))"
proof -
  have q: "replace_byte CHR '','' [bslash, CHR '',''] (replace_byte CHR '';'' [bslash, CHR '';''] (replace_byte bslash [bslash, bslash] s)) =
      concat (map quote_byte s)"
    by (induction s) (auto simp: replace_byte_concat quote_byte_def bslash_def)
  have e: "replace_byte CHR 0x0D [bslash, CHR ''n''] (replace_byte CHR 0x0A [bslash, CHR ''n''] t) =
      concat (map (\<lambda>c. if c = CHR 0x0D \<or> c = CHR 0x0A then [bslash, CHR ''n''] else [c]) t)" for t
    by (induction t) (auto simp: replace_byte_concat bslash_def)
  show ?thesis by (simp add: ics_escape_def Let_def q e)
qed

lemma escape_bytes: "ics_escape s = concat (map esc_byte (replace_crlf [CHR 0x0A] s))"
proof -
  let ?b = "\<lambda>c. if c = CHR 0x0D \<or> c = CHR 0x0A then [bslash, CHR ''n''] else [c]"
  have q: "c = CHR 0x0D \<or> quote_byte c = [bslash, c] \<and> c \<noteq> CHR 0x0A \<or> quote_byte c = [c]" for c by (simp add: quote_byte_def bslash_def)
  have cr: "quote_byte CHR 0x0D = [CHR 0x0D]" "quote_byte CHR 0x0A = [CHR 0x0A]" by (simp_all add: quote_byte_def bslash_def)
  have b: "bslash \<noteq> CHR 0x0D" "bslash \<noteq> CHR 0x0A" by (simp_all add: bslash_def)
  have one: "concat (map ?b (replace_crlf t (quote_byte c @ r))) = esc_byte c @ concat (map ?b (replace_crlf t r))" if "c \<noteq> CHR 0x0D" for c t r
    using that by (auto simp: quote_byte_def esc_byte_def replace_crlf_Cons b)
  have "concat (map ?b (replace_crlf [bslash, CHR ''n''] (concat (map quote_byte s)))) = concat (map esc_byte (replace_crlf [CHR 0x0A] s))"
  proof (induction "[CHR 0x0A]" s rule: replace_crlf.induct)
    case (2 c)
    then show ?case using one [of c _ "[]"] by (cases "c = CHR 0x0D") (simp_all add: cr esc_byte_def bslash_def)
  next
    case (3 c d s)
    show ?case
    proof (cases "c = CHR 0x0D")
      case True
      show ?thesis
      proof (cases "d = CHR 0x0A")
        case True
        then show ?thesis using 3(1) \<open>c = CHR 0x0D\<close> by (simp add: cr esc_byte_def bslash_def)
      next
        case False
        have "\<exists>x y. quote_byte d = x # y \<and> x \<noteq> CHR 0x0A" using False by (cases "d = bslash \<or> d = CHR '';'' \<or> d = CHR '',''") (auto simp: quote_byte_def b)
        then obtain x y where q: "quote_byte d = x # y" "x \<noteq> CHR 0x0A" by blast
        have "concat (map ?b (replace_crlf [bslash, CHR ''n''] (CHR 0x0D # quote_byte d @ concat (map quote_byte s)))) =
            [bslash, CHR ''n''] @ concat (map ?b (replace_crlf [bslash, CHR ''n''] (quote_byte d @ concat (map quote_byte s))))"
          using q by simp
        then show ?thesis using 3(2) True False by (simp add: cr esc_byte_def bslash_def)
      qed
    next
      case False
      then show ?thesis using one [OF False] 3(2) by simp
    qed
  qed simp
  then show ?thesis by (simp only: escape_quoted)
qed

lemma unescape_bytes: "unescape (concat (map esc_byte s)) = map (\<lambda>c. if c = CHR 0x0D then CHR 0x0A else c) s"
proof (induction s)
  case (Cons c s)
  have "unescape (c # t) = c # unescape t" if "c \<noteq> bslash" for t using that by (cases t) simp_all
  then show ?case using Cons by (auto simp: esc_byte_def) (auto simp: bslash_def)
qed simp

lemma one_line_escape: "one_line (ics_escape s)"
  by (auto simp: escape_bytes one_line_def esc_byte_def bslash_def split: if_splits)

text \<open>Text survives the feed. Whatever subject, place or description an event has, its escaped form is one
  line, and a reader that undoes the escapes gets the text back with every line break, written as CR LF,
  CR or LF, as LF.\<close>

theorem escape_roundtrip:
  "unescape (ics_escape v) = unix_breaks v \<and> CHR 0x0D \<notin> set (ics_escape v) \<and> CHR 0x0A \<notin> set (ics_escape v)"
  using one_line_escape [of v] by (simp add: escape_bytes unescape_bytes unix_breaks_def one_line_def)

section \<open>The whole document\<close>

text \<open>The texts of an event that are written as they are.\<close>

definition raw_fields :: "event \<Rightarrow> string list" where
  "raw_fields e = [ev_uid e, ev_org_name e, ev_org_email e] @ concat (map (\<lambda>a. [an_name a, an_email a]) (ev_attendees e))"

lemma one_line_digits: "(\<forall>c\<in>set s. is_digit c \<or> c = CHR ''-'') \<Longrightarrow> one_line s"
  by (auto simp: one_line_def is_digit_def)

lemma one_line_numbers [simp]: "one_line (itoa n)" "one_line (pad w n)"
proof -
  show "one_line (itoa n)" using itoa_chars by (intro one_line_digits) blast
  have "is_digit (CHR ''0'')" by (simp add: is_digit_def)
  then show "one_line (pad w n)" using nat_str_digits by (intro one_line_digits) (auto simp: pad_def Let_def)
qed

lemma one_line_times [simp]: "one_line (ical_utc t)" "one_line (ical_date t)"
  by (simp_all add: ical_utc_def ical_date_def Let_def split: prod.split)

lemma one_line_join: "one_line sep \<Longrightarrow> \<forall>s\<in>set ss. one_line s \<Longrightarrow> one_line (join sep ss)"
  by (induction sep ss rule: join.induct) auto

lemma one_line_replace: "one_line t \<Longrightarrow> one_line s \<Longrightarrow> one_line (replace_byte c t s)"
  by (auto simp: replace_byte_concat one_line_def split: if_splits)

lemma one_line_RRule [simp]: "one_line (RRule r)"
proof -
  have w: "\<forall>p\<in>set weekdays. one_line (snd p)" by (simp add: weekdays_def)
  have d: "one_line (join '','' (byDay k))" for k using w by (intro one_line_join) (auto simp: byDay_def)
  have e: "\<forall>s\<in>set (by_day_part k). one_line s" "\<forall>s\<in>set (set_pos_part k). one_line s" for k
    using d by (simp_all add: by_day_part_def set_pos_part_def setPos_def)
  have "\<forall>s\<in>set ps. one_line s" if "freq_parts r = Some ps" for ps
    using that e by (auto simp: freq_parts_def split: if_splits)
  then show ?thesis by (auto simp: RRule_def intro!: one_line_join split: option.split)
qed

lemma ics_line_Cons [simp]: "ics_line (c # s) \<longleftrightarrow> byte_in 0x41 0x5A c \<and> one_line (c # s)"
  by (auto simp: ics_line_def)

lemma byte_in_upper [simp]:
  "byte_in 0x41 0x5A CHR ''A''" "byte_in 0x41 0x5A CHR ''B''" "byte_in 0x41 0x5A CHR ''C''" "byte_in 0x41 0x5A CHR ''D''"
  "byte_in 0x41 0x5A CHR ''E''" "byte_in 0x41 0x5A CHR ''L''" "byte_in 0x41 0x5A CHR ''M''" "byte_in 0x41 0x5A CHR ''O''"
  "byte_in 0x41 0x5A CHR ''P''" "byte_in 0x41 0x5A CHR ''R''" "byte_in 0x41 0x5A CHR ''S''" "byte_in 0x41 0x5A CHR ''T''"
  "byte_in 0x41 0x5A CHR ''U''" "byte_in 0x41 0x5A CHR ''V''" "byte_in 0x41 0x5A CHR ''X''"
  by (simp_all add: byte_in_def)

lemma event_lines_ok:
  assumes "\<forall>v\<in>set (raw_fields e). one_line v"
  shows "\<forall>l\<in>set (renderEvent e now). ics_line l"
proof -
  note [simp] = one_line_escape
  have q: "one_line (ical_quote v)" if "one_line v" for v using that one_line_replace [of "[]" v] by (simp add: ical_quote_def)
  have u: "one_line (uid_of e)" using assms by (simp add: uid_of_def raw_fields_def)
  have st: "one_line (stamp_of e now)" by (simp add: stamp_of_def)
  have "\<forall>l\<in>set (attendee_line a). ics_line l" if "a \<in> set (ev_attendees e)" for a
    using assms that q by (auto simp: attendee_line_def raw_fields_def partStat_def)
  then have p: "\<forall>l\<in>set (parties e). ics_line l" using assms q by (auto simp: parties_def raw_fields_def)
  have r: "\<forall>l\<in>set (revision e). ics_line l" "\<forall>l\<in>set (classification e). ics_line l" "\<forall>l\<in>set (alarm e). ics_line l"
    by (auto simp: revision_def classification_def alarm_def Let_def)
  have w: "\<forall>l\<in>set (when_lines b s t). ics_line l" for b s t by (auto simp: when_lines_def)
  have t: "\<forall>l\<in>set (text_line ''LOCATION:'' v). ics_line l" "\<forall>l\<in>set (text_line ''DESCRIPTION:'' v). ics_line l" for v
    by (auto simp: text_line_def)
  have c: "one_line (join '','' (cancelled e))" by (rule one_line_join) (auto simp: cancelled_def)
  have "\<forall>l\<in>set (series_lines e now). ics_line l"
    unfolding series_lines_def using p r w t c u st by (auto split: if_splits)
  moreover have "\<forall>l\<in>set (override_lines e now x). ics_line l" for x
    unfolding override_lines_def Let_def using r w t u st by auto
  ultimately show ?thesis by (auto simp: renderEvent_def)
qed

lemma content_lines_ok:
  assumes "\<forall>e\<in>set (fd_events f). \<forall>v\<in>set (raw_fields e). one_line v"
  shows "\<forall>l\<in>set (content_lines f now). ics_line l"
  using assms event_lines_ok [of _ now] by (auto simp: content_lines_def text_line_def one_line_escape)

lemma scrub_line: "ics_line l \<Longrightarrow> one_line (scrub l) \<and> scrub l \<noteq> [] \<and> hd (scrub l) = hd l"
  using one_line_scrub [of l] by (cases l) (auto simp: ics_line_def scrub_def rune_tail_def byte_in_def)

lemma fold_line_not_Nil: "ics_line l \<Longrightarrow> fold_line l @ s \<noteq> [] \<and> hd (fold_line l @ s) = hd l"
  by (cases l) (auto simp: ics_line_def fold_line_def rune_tail_def byte_in_def)

lemma unfold_lines:
  assumes "\<forall>l\<in>set ls. ics_line l"
  shows "unfold_rfc (concat (map fold_line ls)) = concat (map (\<lambda>l. scrub l @ ics_crlf) ls)"
  using assms
proof (induction ls)
  case (Cons l ls)
  have "concat (map fold_line ls) = [] \<or> byte_in 0x41 0x5A (hd (concat (map fold_line ls)))"
    using Cons.prems fold_line_not_Nil by (cases ls) (auto simp: ics_line_def)
  then have "unfold_rfc (fold_line l @ concat (map fold_line ls)) = scrub l @ ics_crlf @ unfold_rfc (concat (map fold_line ls))"
    unfolding fold_line_def scrub_def using Cons.prems runes_parts by (intro unfold_fold) (auto simp: ics_line_def)
  then show ?case using Cons by simp
qed simp

lemma read_lines:
  assumes "\<forall>l\<in>set ls. ics_line l"
  shows "map (\<lambda>l. trim_suffix l [CHR 0x0D]) (split_byte CHR 0x0A (concat (map (\<lambda>l. scrub l @ ics_crlf) ls))) = map scrub ls @ [[]]"
  using assms
proof (induction ls)
  case (Cons l ls)
  have "CHR 0x0A \<notin> set (scrub l @ [CHR 0x0D])" using scrub_line [of l] Cons.prems by (auto simp: one_line_def)
  from split_byte_append [OF this, of "concat (map (\<lambda>l. scrub l @ ics_crlf) ls)"] show ?case
    using Cons by (simp add: ics_crlf_def trim_suffix_def has_suffix_def)
qed (simp add: trim_suffix_def has_suffix_def)

lemma fold_widths:
  "\<forall>l\<in>set ls. ics_line l \<Longrightarrow> l \<in> set (split_byte CHR 0x0A (concat (map fold_line ls))) \<Longrightarrow> length l \<le> 76"
proof (induction ls)
  case (Cons k ls)
  have "\<forall>r\<in>set (runes k). one_line r \<and> length r \<le> 4" using Cons.prems(1) runes_parts [of _ k] by (auto simp: ics_line_def)
  from fold_width [OF this, of 0 "concat (map fold_line ls)"] obtain ks where
    "split_byte CHR 0x0A (fold_line k @ concat (map fold_line ls)) = ks @ split_byte CHR 0x0A (concat (map fold_line ls))"
    "ks \<noteq> []" "length (hd ks) \<le> 75" "\<forall>l\<in>set (tl ks). length l \<le> 76"
    by (auto simp: fold_line_def)
  then show ?case using Cons by (cases ks) auto
qed simp

text \<open>C20: a subscriber reads what was published. When no UID, name or address of an event holds a line break, the
  document read by RFC 5545 has exactly the content lines of the calendar, of which a byte that is not UTF-8 is
  replaced, and no line of it is longer than 75 bytes before its CR LF.\<close>

theorem feed_reads_back:
  assumes "\<forall>e\<in>set (fd_events f). \<forall>v\<in>set (raw_fields e). CHR 0x0D \<notin> set v \<and> CHR 0x0A \<notin> set v"
  shows "ics_read (Render f now) = map scrub (content_lines f now) @ [[]] \<and>
    (\<forall>l\<in>set (split_byte CHR 0x0A (Render f now)). length l \<le> 75 + 1)"
proof -
  have ok: "\<forall>l\<in>set (content_lines f now). ics_line l" using assms by (intro content_lines_ok) (simp add: one_line_def)
  then show ?thesis using unfold_lines [OF ok] read_lines [OF ok] fold_widths [OF ok]
    by (simp add: ics_read_def Render_def)
qed

section \<open>Who is served\<close>

lemma FolderByUUID_Inr:
  assumes "FolderByUUID uuid s = (Inr f, s1)"
  shows "f \<in> set (tb_folders (st_db s)) \<and> fo_uuid f = uuid \<and> \<not> fo_deleted f \<and> st_db s1 = st_db s"
proof -
  obtain xs where "limit_rows 1 (sort_key fo_id (filter (\<lambda>f. fo_uuid f = uuid \<and> \<not> fo_deleted f) (tb_folders (st_db s)))) = f # xs"
    and s1: "s1 = pop_fault s"
    using assms by (auto simp: FolderByUUID_def get_row_Inr_iff failE_def split: if_splits)
  from first_row_mem [OF this(1)] show ?thesis using s1 by simp
qed

lemma public_feed_events:
  assumes "public_feed f meth now s = (answer, s')" "ha_status answer = 200"
  shows "\<exists>es. (\<forall>e\<in>set es. ev_folder e = fo_id f \<and> \<not> ev_deleted e) \<and>
    (ha_body answer = [] \<or> ha_body answer = Render \<lparr>fd_name = fo_name f, fd_events = es\<rparr> now)"
proof (cases "EventsByFolder (fo_id f) s")
  case (Pair r s1)
  then show ?thesis
  proof (cases r)
    case (Inl e)
    then show ?thesis using assms Pair by (auto simp: public_feed_def http_error_def)
  next
    case (Inr es)
    then have es: "\<forall>e\<in>set es. ev_folder e = fo_id f \<and> \<not> ev_deleted e" using Pair by (auto simp: EventsByFolder_def getAll_Inr_iff)
    obtain q s2 where q: "ExceptionsByFolder (fo_id f) s1 = (q, s2)" by (cases "ExceptionsByFolder (fo_id f) s1")
    show ?thesis
    proof (cases q)
      case (Inl e)
      then show ?thesis using assms Pair Inr q by (auto simp: public_feed_def http_error_def)
    next
      case (Inr exs)
      then show ?thesis using assms Pair \<open>r = Inr es\<close> q es
        by (intro exI [of _ "map (\<lambda>e. e\<lparr>ev_exceptions := exs (ev_id e)\<rparr>) es"]) (auto simp: public_feed_def)
    qed
  qed
qed

text \<open>C21: the feed shows public calendars only. An answer 200 to a path is that of a calendar that exists, is
  public and carries the UUID of the path, and its body, if any, is the document of events of this calendar alone;
  and while statements succeed a UUID of no calendar and one of a private calendar get the same answer.\<close>

theorem feed_only_public:
  assumes "serveFeed meth path now s = (answer, s')"
  shows "(ha_status answer = 200 \<longrightarrow> (\<exists>f es. f \<in> set (tb_folders (st_db s)) \<and> fo_public f \<and> \<not> fo_deleted f \<and>
      feedUUID path = Some (fo_uuid f) \<and> (\<forall>e\<in>set es. ev_folder e = fo_id f \<and> \<not> ev_deleted e) \<and>
      (ha_body answer = [] \<or> ha_body answer = Render \<lparr>fd_name = fo_name f, fd_events = es\<rparr> now))) \<and>
    (st_faults s = [] \<longrightarrow> meth = ''GET'' \<or> meth = ''HEAD'' \<longrightarrow>
      (\<forall>f\<in>set (tb_folders (st_db s)). fo_public f \<longrightarrow> feedUUID path \<noteq> Some (fo_uuid f)) \<longrightarrow> answer = http_not_found)"
proof -
  have nf: "ha_status http_not_found \<noteq> 200" "\<And>c t. ha_status (http_error c t) = c"
    by (simp_all add: http_not_found_def http_error_def)
  show ?thesis
  proof (cases "(meth \<noteq> ''GET'' \<and> meth \<noteq> ''HEAD'') \<or> feedUUID path = None")
    case True
    then show ?thesis using assms nf by (auto simp: serveFeed_def split: if_splits)
  next
    case False
    then obtain uuid where u: "feedUUID path = Some uuid" "meth = ''GET'' \<or> meth = ''HEAD''" by auto
    obtain r s1 where r: "FolderByUUID uuid s = (r, s1)" by (cases "FolderByUUID uuid s")
    show ?thesis
    proof (cases r)
      case (Inl e)
      have "st_faults s = [] \<Longrightarrow> e = ErrNotFound"
        using r Inl by (auto simp: FolderByUUID_def failE_def get_row_def sql_no_fault split: if_splits list.splits)
      then show ?thesis using assms nf u r Inl by (auto simp: serveFeed_def)
    next
      case (Inr f)
      note f = FolderByUUID_Inr [OF r [unfolded Inr]]
      show ?thesis
      proof (cases "fo_public f")
        case True
        then have p: "public_feed f meth now s1 = (answer, s')" using assms u r Inr by (auto simp: serveFeed_def)
        show ?thesis using public_feed_events [OF p] f True u by auto
      next
        case False
        then show ?thesis using assms nf u r Inr by (auto simp: serveFeed_def)
      qed
    qed
  qed
qed

text \<open>A series that repeats daily, type 0, has no case in \<open>RRule\<close>: the feed shows its first day only.\<close>

lemma daily_series_lost:
  assumes "rc_type (ev_recurrence e) = 0"
  shows "series_lines e now = series_lines (e\<lparr>ev_recurrence := (ev_recurrence e)\<lparr>rc_interval := 0\<rparr>\<rparr>) now"
  using assms
  by (simp add: series_lines_def RRule_def freq_parts_def uid_of_def stamp_of_def revision_def classification_def parties_def
      cancelled_def alarm_def)

text \<open>A line break in a name is written as it is, and what follows it is a line of its own for every reader.\<close>

lemma name_injects_line:
  "ics_read (concat (map fold_line (attendee_line \<lparr>an_name = ''x'' @ ics_crlf @ ''URL:z'', an_email = ''a'', an_status = 0, an_type = 0\<rparr>))) =
     [''ATTENDEE;PARTSTAT=NEEDS-ACTION;CN='' @ [CHR 0x22] @ ''x'', ''URL:z'' @ [CHR 0x22] @ '':mailto:a'', []]"
  by code_simp

section \<open>Examples\<close>

definition shown_event :: event where
  "shown_event = demo_event\<lparr>ev_uid := ''m1'', ev_subject := ''A;B'' @ [CHR 0x0A] @ ''C'',
     ev_attendees := [\<lparr>an_name = ''Bob'', an_email = ''b@y'', an_status = 3, an_type = 1\<rparr>]\<rparr>"

theorem feed_reads_back_witness:
  "ics_read (Render \<lparr>fd_name = ''Cal'', fd_events = [shown_event]\<rparr> 0) =
     map scrub (content_lines \<lparr>fd_name = ''Cal'', fd_events = [shown_event]\<rparr> 0) @ [[]]"
proof -
  have "\<forall>e\<in>set (fd_events \<lparr>fd_name = ''Cal'', fd_events = [shown_event]\<rparr>). \<forall>v\<in>set (raw_fields e). CHR 0x0D \<notin> set v \<and> CHR 0x0A \<notin> set v"
    by (simp add: raw_fields_def shown_event_def demo_event_def)
  from feed_reads_back [OF this] show ?thesis by blast
qed

definition public_folder :: folder where
  "public_folder = (demo_folder 3 ''Cal'' 8 3)\<lparr>fo_uuid := ''f'', fo_public := True\<rparr>"

definition public_store :: store where
  "public_store = demo_store\<lparr>st_db := demo_db\<lparr>tb_folders := [public_folder]\<rparr>\<rparr>"

theorem feed_only_public_witness:
  "(\<exists>es. ha_body (fst (serveFeed ''GET'' ''/calendar/f.ics'' 0 public_store)) = Render \<lparr>fd_name = fo_name public_folder, fd_events = es\<rparr> 0) \<and>
   fst (serveFeed ''GET'' ''/calendar/g.ics'' 0 public_store) = http_not_found"
proof -
  have u: "feedUUID ''/calendar/f.ics'' = Some ''f''" "feedUUID ''/calendar/g.ics'' = Some ''g''" "trim_space ''f'' \<noteq> []" by code_simp+
  have st: "st_faults public_store = []" "tb_folders (st_db public_store) = [public_folder]"
    by (simp_all add: public_store_def demo_store_def)
  have "FolderByUUID ''f'' public_store = (Inr (public_folder), public_store)"
    using u(3) st by (simp add: FolderByUUID_def get_row_def sql_no_fault limit_rows_def public_folder_def demo_folder_def)
  then have a: "ha_status (fst (serveFeed ''GET'' ''/calendar/f.ics'' 0 public_store)) = 200" "ha_body (fst (serveFeed ''GET'' ''/calendar/f.ics'' 0 public_store)) \<noteq> []"
    using st by (simp_all add: serveFeed_def u public_feed_def EventsByFolder_def ExceptionsByFolder_def getAll_def sql_no_fault Render_def
        content_lines_def fold_line_def rune_tail_def byte_in_def public_folder_def)
  have "\<exists>es. ha_body (fst (serveFeed ''GET'' ''/calendar/f.ics'' 0 public_store)) = Render \<lparr>fd_name = fo_name public_folder, fd_events = es\<rparr> 0"
    using feed_only_public [of "''GET''" "''/calendar/f.ics''" 0 public_store, OF prod.collapse [symmetric]] a st by (auto simp: public_folder_def)
  moreover have "fst (serveFeed ''GET'' ''/calendar/g.ics'' 0 public_store) = http_not_found"
    using feed_only_public [of "''GET''" "''/calendar/g.ics''" 0 public_store, OF prod.collapse [symmetric]] st u by (auto simp: public_folder_def)
  ultimately show ?thesis by blast
qed

end
