(* ===== verification/ApiInbound.thy ===== *)
theory ApiInbound imports Handover EasData begin

text \<open>
  \<open>internal/api/inbound.go\<close>: the endpoint a mail worker posts incoming mail to. Recipients are resolved
  first, then every one is served: an inbox of an account, or the catch-all destination of its domain through
  the relay. Of the request the parts the code looks at are fields; the body is what the connection carries,
  \<open>None\<close> when reading it fails. \<open>encoding/json\<close> is a parameter. The lists of the answer are one list of
  outcomes in the order of the recipients. Logging is not modelled.
\<close>

section \<open>Requests\<close>

record inbound_request =
  iq_method :: string
  iq_token :: string
  iq_auth :: string
  iq_ctype :: string
  iq_body :: "string option"
  iq_envelope :: string
  iq_query :: string

(* src: internal/api/inbound.go 30-41 Inbound *)
record inbound =
  ib_lib :: mail_lib
  ib_reader :: "string \<Rightarrow> mime_reader option"
  ib_hook :: "inbox_hook option"
  ib_token :: string
  ib_max :: int
  ib_catchall :: "(string \<rightharpoonup> string) option"
  ib_sender :: "sender option option"
  ib_peer :: "nat \<Rightarrow> smtp_peer"
  ib_json :: "string \<Rightarrow> string + string list \<times> string"

text \<open>A destination, or the reason of a skipped one.\<close>

(* src: internal/api/inbound.go 43-62 delivered *)
datatype outcome = Delivered string int | Forwarded string string | Skipped string string

record inbound_answer =
  ia_status :: int
  ia_error :: string
  ia_unknown :: "string list"
  ia_outcomes :: "outcome list"

definition inbound_error :: "int \<Rightarrow> string \<Rightarrow> inbound_answer" where
  "inbound_error status text = \<lparr>ia_status = status, ia_error = text, ia_unknown = [], ia_outcomes = []\<rparr>"

(* src: internal/api/inbound.go 307-315 requestToken *)
definition requestToken :: "inbound_request \<Rightarrow> string" where
  "requestToken req =
    (if iq_token req \<noteq> [] then iq_token req
     else if has_prefix (to_lower (iq_auth req)) ''bearer '' then trim_space (drop 7 (iq_auth req)) else [])"

(* src: internal/api/inbound.go 317-319 tokenMatches *)
definition tokenMatches :: "string \<Rightarrow> string \<Rightarrow> bool" where
  "tokenMatches got want \<longleftrightarrow> want \<noteq> [] \<and> got = want"

(* src: internal/api/inbound.go 335-343 normalizeAddress *)
definition normalizeAddress :: "string \<Rightarrow> string" where
  "normalizeAddress value0 =
    (let v = trim_space value0;
         w = (case last_index_byte v CHR ''<'' of
            None \<Rightarrow> v
          | Some i \<Rightarrow> (case index_byte (drop i v) CHR ''>'' of
               Some j \<Rightarrow> if j > 0 then take (j - 1) (drop (i + 1) v) else v
             | None \<Rightarrow> v)) in
     to_lower (trim_set ([CHR ''<'', CHR ''>'', CHR '' ''] @ [CHR 0x09, CHR 0x0D, CHR 0x0A]) w))"

(* src: internal/api/inbound.go 325-333 splitAddresses *)
definition splitAddresses :: "string \<Rightarrow> string list" where
  "splitAddresses value0 = filter (\<lambda>a. a \<noteq> []) (map normalizeAddress (split_byte CHR '','' value0))"

(* src: internal/api/inbound.go 345-351 domainOf *)
definition domainOf :: "string \<Rightarrow> string" where
  "domainOf addr = (case last_index_byte addr CHR ''@'' of Some at \<Rightarrow> drop (at + 1) addr | None \<Rightarrow> [])"

text \<open>The first of several lists that is not empty.\<close>

definition or_else :: "'a list \<Rightarrow> 'a list \<Rightarrow> 'a list" where
  "or_else xs ys = (if xs = [] then ys else xs)"

(* src: internal/api/inbound.go 79-83 Inbound.ServeHTTP *)
definition inbound_limit :: "inbound \<Rightarrow> nat" where
  "inbound_limit h = nat (if ib_max h \<le> 0 then 32 * 2 ^ 20 else ib_max h)"

text \<open>The raw mail and the recipients the request itself names.\<close>

(* src: internal/api/inbound.go 89-113 Inbound.ServeHTTP *)
definition inbound_raw :: "inbound \<Rightarrow> inbound_request \<Rightarrow> string \<Rightarrow> string + string \<times> string list" where
  "inbound_raw h req body =
    (case (if index_str (iq_ctype req) ''application/json'' \<noteq> None then
        (case ib_json h body of
           Inl e \<Rightarrow> Inl (''invalid json: '' @ e)
         | Inr (to, b64) \<Rightarrow>
            if b64 = [] then Inl ''raw is required''
            else (case b64_decode b64 of None \<Rightarrow> Inl ''raw must be base64'' | Some raw \<Rightarrow> Inr (raw, to)))
      else Inr (body, [])) of
       Inl e \<Rightarrow> Inl e
     | Inr (raw, to) \<Rightarrow> Inr (raw, or_else to (or_else (splitAddresses (iq_envelope req)) (splitAddresses (iq_query req)))))"

(* src: internal/api/inbound.go 115-121 Inbound.ServeHTTP *)
definition inbound_parse :: "inbound \<Rightarrow> string \<Rightarrow> parsed_mail" where
  "inbound_parse h raw = (case fst (Parse (ib_lib h) (ib_reader h raw)) of None \<Rightarrow> empty_mail | Some p \<Rightarrow> p)"

text \<open>The mail and its recipients, or the answer to a request that carries none.\<close>

(* src: internal/api/inbound.go 69-129 Inbound.ServeHTTP *)
definition inbound_read :: "inbound \<Rightarrow> inbound_request \<Rightarrow> inbound_answer + string \<times> parsed_mail \<times> string list" where
  "inbound_read h req =
    (if iq_method req \<noteq> ''POST'' then Inl (inbound_error 405 ''method not allowed'')
     else if \<not> tokenMatches (requestToken req) (ib_token h) then Inl (inbound_error 401 ''unauthorized'')
     else (case iq_body req of
        None \<Rightarrow> Inl (inbound_error 400 ''cannot read body'')
      | Some body \<Rightarrow> (case inbound_raw h req (take (inbound_limit h) body) of
          Inl e \<Rightarrow> Inl (inbound_error 400 e)
        | Inr (raw, to) \<Rightarrow>
           (let p = inbound_parse h raw;
                envelope = or_else to (Addresses (ib_lib h) (pm_to p) @ Addresses (ib_lib h) (pm_cc p)) in
            if envelope = [] then Inl (inbound_error 400 ''no recipients'') else Inr (raw, p, envelope)))))"

section \<open>Recipients\<close>

datatype target = To_user string user | To_forward string string

definition catch_all :: "inbound \<Rightarrow> string \<Rightarrow> string" where
  "catch_all h domain = (case ib_catchall h of None \<Rightarrow> [] | Some m \<Rightarrow> (case m domain of None \<Rightarrow> [] | Some d \<Rightarrow> d))"

text \<open>Targets, unknown addresses, and whether a look-up failed.\<close>

(* src: internal/api/inbound.go 131-171 Inbound.ServeHTTP *)
fun resolve :: "inbound \<Rightarrow> string list \<Rightarrow> string list \<Rightarrow> store \<Rightarrow> (target list \<times> string list \<times> bool) \<times> store" where
  "resolve h seen [] s = (([], [], False), s)"
| "resolve h seen (r # rs) s =
    (let addr = normalizeAddress r in
     if addr = [] \<or> addr \<in> set seen then resolve h seen rs s
     else (case UserByAddress addr s of
        (Inr u, s1) \<Rightarrow> (case resolve h (addr # seen) rs s1 of ((ts, us, f), s2) \<Rightarrow> ((To_user addr u # ts, us, f), s2))
      | (Inl e, s1) \<Rightarrow> (case resolve h (addr # seen) rs s1 of ((ts, us, f), s2) \<Rightarrow>
          if e \<noteq> ErrNotFound then ((ts, us, True), s2)
          else if catch_all h (domainOf addr) \<noteq> [] then ((To_forward addr (catch_all h (domainOf addr)) # ts, us, f), s2)
          else ((ts, addr # us, f), s2))))"

section \<open>Serving a recipient\<close>

(* src: internal/api/inbound.go 189-210 Inbound.ServeHTTP *)
definition forward_one :: "inbound \<Rightarrow> string \<Rightarrow> string \<Rightarrow> string \<Rightarrow> send_log \<Rightarrow> outcome \<times> send_log" where
  "forward_one h addr dest raw log = (case ib_sender h of
     None \<Rightarrow> (Skipped addr ''forwarding not configured'', log)
   | Some sender \<Rightarrow>
      (let r = SmtpSend sender None (ib_peer h (length log)) (EnvelopeFrom sender addr) [dest] raw in
       (if fst r = None then Forwarded addr dest else Skipped addr ''forward failed'', log @ [r])))"

(* src: internal/api/inbound.go 230-251 Inbound.ServeHTTP *)
definition inbound_message :: "mail_lib \<Rightarrow> user \<Rightarrow> folder \<Rightarrow> string \<Rightarrow> parsed_mail \<Rightarrow> string \<Rightarrow> string \<Rightarrow> int \<Rightarrow> message" where
  "inbound_message l user inbox addr parsed raw conv now =
    \<lparr>ms_id = 0, ms_user = us_id user, ms_folder = fo_id inbox, ms_subject = pm_subject parsed,
     ms_from_addr = pm_from_addr parsed, ms_from_name = pm_from_name parsed, ms_to = pm_to parsed, ms_cc = pm_cc parsed,
     ms_date = now, ms_size = int (length raw), ms_read = False, ms_flagged = False, ms_importance = 1, ms_class = ''IPM.Note'',
     ms_msgid = pm_msgid parsed, ms_body_text = pm_text parsed, ms_body_html = pm_html parsed, ms_raw = raw,
     ms_raw_path = [], ms_has_att = (pm_parts parsed \<noteq> []), ms_deleted = False,
     ms_sender_addr = pm_sender_addr parsed, ms_sender_name = pm_sender_name parsed,
     ms_bcc = receivedAsBcc l parsed addr, ms_conv = conv\<rparr>"

text \<open>A part that cannot be stored is left out.\<close>

(* src: internal/api/inbound.go 259-270 Inbound.ServeHTTP *)
fun try_parts :: "int \<Rightarrow> mail_part list \<Rightarrow> store \<Rightarrow> store" where
  "try_parts i [] s = s"
| "try_parts i (p # ps) s = try_parts i ps (execE (InsertAttachment (part_attachment i p)) s)"

(* src: internal/api/inbound.go 230-277 Inbound.ServeHTTP *)
definition store_inbound :: "inbound \<Rightarrow> user \<Rightarrow> folder \<Rightarrow> string \<Rightarrow> parsed_mail \<Rightarrow> string \<Rightarrow> store \<Rightarrow> outcome \<times> store" where
  "store_inbound h user inbox addr parsed raw s =
    (let now = nowUnix s; (conv, s1) = DeliveryConversationID (ib_lib h) user parsed s in
     case InsertMessage (inbound_message (ib_lib h) user inbox addr parsed raw conv now) s1 of
       (Inl _, s2) \<Rightarrow> (Skipped addr ''storage error'', s2)
     | (Inr i, s2) \<Rightarrow>
        (Delivered addr i, NotifyInbox (ib_hook h) user parsed raw i conv
           (execE (AddChange (fo_id inbox) ''add'' ''email'' i) (try_parts i (pm_parts parsed) s2))))"

(* src: internal/api/inbound.go 212-277 Inbound.ServeHTTP *)
definition deliver_one :: "inbound \<Rightarrow> string \<Rightarrow> user \<Rightarrow> parsed_mail \<Rightarrow> string \<Rightarrow> store \<Rightarrow> outcome \<times> store" where
  "deliver_one h addr user parsed raw s = (case FolderByType (us_id user) 2 s of
     (Inl _, s1) \<Rightarrow> (Skipped addr ''no inbox'', s1)
   | (Inr inbox, s1) \<Rightarrow> (case MessageIDExists (us_id user) (pm_msgid parsed) s1 of
        (Inl _, s2) \<Rightarrow> (Skipped addr ''storage error'', s2)
      | (Inr True, s2) \<Rightarrow> (Skipped addr ''duplicate'', s2)
      | (Inr False, s2) \<Rightarrow> store_inbound h user inbox addr parsed raw s2))"

(* src: internal/api/inbound.go 184-278 Inbound.ServeHTTP *)
fun serve_targets :: "inbound \<Rightarrow> parsed_mail \<Rightarrow> string \<Rightarrow> target list \<Rightarrow> store \<Rightarrow> send_log \<Rightarrow> outcome list \<times> store \<times> send_log" where
  "serve_targets h p raw [] s log = ([], s, log)"
| "serve_targets h p raw (To_forward addr dest # ts) s log = (case forward_one h addr dest raw log of (x, log1) \<Rightarrow>
     (case serve_targets h p raw ts s log1 of (xs, s', log') \<Rightarrow> (x # xs, s', log')))"
| "serve_targets h p raw (To_user addr u # ts) s log = (case deliver_one h addr u p raw s of (x, s1) \<Rightarrow>
     (case serve_targets h p raw ts s1 log of (xs, s', log') \<Rightarrow> (x # xs, s', log')))"

definition storage_failed :: "outcome \<Rightarrow> bool" where
  "storage_failed x = (case x of Skipped _ r \<Rightarrow> r \<in> {''no inbox'', ''storage error''} | _ \<Rightarrow> False)"

definition forward_failed :: "outcome \<Rightarrow> bool" where
  "forward_failed x = (case x of Skipped _ r \<Rightarrow> r \<in> {''forwarding not configured'', ''forward failed''} | _ \<Rightarrow> False)"

(* src: internal/api/inbound.go 280-290 Inbound.ServeHTTP *)
definition inbound_result :: "outcome list \<Rightarrow> inbound_answer" where
  "inbound_result xs =
    \<lparr>ia_status = (if list_ex storage_failed xs then 500 else if list_ex forward_failed xs then 502 else 200),
     ia_error = [], ia_unknown = [], ia_outcomes = xs\<rparr>"

(* src: internal/api/inbound.go 69-291 Inbound.ServeHTTP *)
definition ServeInbound :: "inbound \<Rightarrow> inbound_request \<Rightarrow> store \<Rightarrow> send_log \<Rightarrow> inbound_answer \<times> store \<times> send_log" where
  "ServeInbound h req s log = (case inbound_read h req of
     Inl a \<Rightarrow> (a, s, log)
   | Inr (raw, p, envelope) \<Rightarrow> (case resolve h [] envelope s of ((targets, unknown, failed), s1) \<Rightarrow>
       if unknown \<noteq> [] then ((inbound_error 550 ''unknown recipient'')\<lparr>ia_unknown := unknown\<rparr>, s1, log)
       else if failed then (inbound_error 500 ''cannot resolve recipient'', s1, log)
       else (case serve_targets h p raw targets s1 log of (xs, s', log') \<Rightarrow> (inbound_result xs, s', log'))))"

section \<open>Recipients are served or refused\<close>

lemma resolve_covers:
  assumes "resolve h seen rs s = ((ts, us, f), s')"
  shows "st_db s' = st_db s \<and> (us = [] \<longrightarrow> \<not> f \<longrightarrow> (\<forall>r\<in>set rs. normalizeAddress r = [] \<or> normalizeAddress r \<in> set seen \<or>
      (\<exists>u. To_user (normalizeAddress r) u \<in> set ts \<and> account_of (st_db s) (normalizeAddress r) = Some u) \<or>
      catch_all h (domainOf (normalizeAddress r)) \<noteq> [] \<and>
        To_forward (normalizeAddress r) (catch_all h (domainOf (normalizeAddress r))) \<in> set ts))"
  using assms
proof (induction rs arbitrary: seen s s' ts us f)
  case (Cons r rs)
  show ?case
  proof (cases "normalizeAddress r = [] \<or> normalizeAddress r \<in> set seen")
    case True
    then show ?thesis using Cons by auto
  next
    case False
    obtain q s1 where q: "UserByAddress (normalizeAddress r) s = (q, s1)" by (cases "UserByAddress (normalizeAddress r) s")
    obtain ts1 us1 f1 s2 where r1: "resolve h (normalizeAddress r # seen) rs s1 = ((ts1, us1, f1), s2)" by (metis prod.collapse)
    have s1: "st_db s1 = st_db s" using UserByAddress_db [of "normalizeAddress r" s] q by simp
    note IH = Cons.IH [OF r1, unfolded s1]
    show ?thesis
    proof (cases q)
      case (Inl e)
      have e: "((ts, us, f), s') = (if e \<noteq> ErrNotFound then ((ts1, us1, True), s2)
          else if catch_all h (domainOf (normalizeAddress r)) \<noteq> [] then
            ((To_forward (normalizeAddress r) (catch_all h (domainOf (normalizeAddress r))) # ts1, us1, f1), s2)
          else ((ts1, normalizeAddress r # us1, f1), s2))"
        using Cons.prems False q Inl r1 by (simp add: Let_def)
      then show ?thesis using IH by (cases "e = ErrNotFound"; cases "catch_all h (domainOf (normalizeAddress r)) = []") auto
    next
      case (Inr u)
      have a: "account_of (st_db s) (normalizeAddress r) = Some u" using UserByAddress_Inr q Inr by blast
      have "((ts, us, f), s') = ((To_user (normalizeAddress r) u # ts1, us1, f1), s2)"
        using Cons.prems False q Inr r1 by (simp add: Let_def)
      then show ?thesis using IH a by auto
    qed
  qed
qed simp

lemma mail_grows_step:
  assumes "keeps store_ok m" "\<And>us as. keeps (accounts_are us as) m" "\<And>uid mid. keeps (has_mail uid mid) m" "m s = (r, s')"
  shows "mail_grows s s'"
  unfolding mail_grows_def
  using keepsD_eq [OF assms(1) _ assms(4)] keepsD_eq [OF assms(2) _ assms(4)] keepsD_eq [OF assms(3) _ assms(4)] by blast

lemma mail_grows_statements:
  "InsertMessage m s = (r1, s') \<Longrightarrow> mail_grows s s'" "InsertAttachment a s = (r1, s') \<Longrightarrow> mail_grows s s'"
  "AddChange f k t j s = (r1, s') \<Longrightarrow> mail_grows s s'"
proof -
  note st = mail_stays.keeps_message mail_stays.keeps_attachment mail_stays.keeps_change
    accounts_stay.keeps_message accounts_stay.keeps_attachment accounts_stay.keeps_change
  show "InsertMessage m s = (r1, s') \<Longrightarrow> mail_grows s s'"
    using st by (intro mail_grows_step [OF keeps_InsertMessage]) (simp_all add: has_mail_def [abs_def] accounts_are_def [abs_def])
  show "InsertAttachment a s = (r1, s') \<Longrightarrow> mail_grows s s'"
    using st by (intro mail_grows_step [OF keeps_InsertAttachment]) (simp_all add: has_mail_def [abs_def] accounts_are_def [abs_def])
  show "AddChange f k t j s = (r1, s') \<Longrightarrow> mail_grows s s'"
    using st by (intro mail_grows_step [OF keeps_AddChange]) (simp_all add: has_mail_def [abs_def] accounts_are_def [abs_def])
qed

lemma mail_grows_exec: "(\<And>r s'. m s = (r, s') \<Longrightarrow> mail_grows s s') \<Longrightarrow> mail_grows s (execE m s)"
  by (cases "m s") (simp add: execE_def)

lemma mail_grows_try_parts: "mail_grows s (try_parts i ps s)"
proof (induction ps arbitrary: s)
  case (Cons p ps)
  show ?case using mail_grows_trans [OF mail_grows_exec [OF mail_grows_statements(2)] Cons.IH] by simp
qed simp

lemma mail_grows_hook: "good_hook hook \<Longrightarrow> mail_grows s (NotifyInbox hook u p raw i c s)"
  unfolding mail_grows_def good_hook_def using NotifyInbox_keeps by metis

lemma store_inbound_serves:
  assumes "store_inbound h u inbox addr p raw s = (x, s')" "good_hook (ib_hook h)" "store_ok s"
  shows "mail_grows s s' \<and> (\<not> storage_failed x \<longrightarrow> has_mail (us_id u) (pm_msgid p) s')"
proof -
  obtain conv s1 where c: "DeliveryConversationID (ib_lib h) u p s = (conv, s1)" by (cases "DeliveryConversationID (ib_lib h) u p s")
  have db: "st_db s1 = st_db s"
    using DeliveryConversationID_keeps [of "\<lambda>t. st_db t = st_db s" s "ib_lib h" u p] c of_tables_ok(2) [of "\<lambda>d. d = st_db s"] by simp
  let ?m = "inbound_message (ib_lib h) u inbox addr p raw conv (nowUnix s)"
  obtain q s2 where q: "InsertMessage ?m s1 = (q, s2)" by (cases "InsertMessage ?m s1")
  have g: "mail_grows s s2" using mail_grows_trans [OF mail_grows_db [OF db] mail_grows_statements(1) [OF q]] .
  show ?thesis
  proof (cases q)
    case (Inl e)
    then show ?thesis using assms(1) c q g by (auto simp: store_inbound_def Let_def storage_failed_def)
  next
    case (Inr i)
    have "store_ok s1" using assms(3) db by (simp add: store_ok_def)
    from InsertMessage_tables [OF this q [unfolded Inr]] obtain path where
      "tb_messages (st_db s2) = tb_messages (st_db s1) @ [(message_defaults (nowUnix s1) ?m)\<lparr>ms_id := i, ms_raw := [], ms_raw_path := path\<rparr>]"
      by auto
    then have h: "has_mail (us_id u) (pm_msgid p) s2" by (simp add: has_mail_def message_defaults_def inbound_message_def)
    have x: "x = Delivered addr i" "s' = NotifyInbox (ib_hook h) u p raw i conv
        (execE (AddChange (fo_id inbox) ''add'' ''email'' i) (try_parts i (pm_parts p) s2))"
      using assms(1) c q Inr by (simp_all add: store_inbound_def Let_def)
    have g2: "mail_grows s2 s'" unfolding x(2)
      by (intro mail_grows_trans [OF mail_grows_trans [OF mail_grows_try_parts mail_grows_exec [OF mail_grows_statements(3)]] mail_grows_hook [OF assms(2)]])
    have "has_mail (us_id u) (pm_msgid p) s'" using g2 h unfolding mail_grows_def by blast
    then show ?thesis using mail_grows_trans [OF g g2] by simp
  qed
qed

lemma deliver_one_serves:
  assumes "deliver_one h addr u p raw s = (x, s')" "good_hook (ib_hook h)" "store_ok s"
  shows "mail_grows s s' \<and> (\<not> storage_failed x \<longrightarrow> has_mail (us_id u) (pm_msgid p) s')"
proof -
  obtain q s1 where q: "FolderByType (us_id u) 2 s = (q, s1)" by (cases "FolderByType (us_id u) 2 s")
  have "st_db (snd (FolderByType (us_id u) 2 s)) = st_db s" unfolding FolderByType_def by (rule get_row_db)
  then have s1: "st_db s1 = st_db s" using q by simp
  obtain b s2 where b: "MessageIDExists (us_id u) (pm_msgid p) s1 = (b, s2)" by (cases "MessageIDExists (us_id u) (pm_msgid p) s1")
  have s2: "st_db s2 = st_db s" using MessageIDExists_db [of "us_id u" "pm_msgid p" s1] b s1 by simp
  have ok: "store_ok s2" using s2 assms(3) by (simp add: store_ok_def)
  show ?thesis
  proof (cases q)
    case (Inl e)
    then show ?thesis using assms(1) q s1 by (auto simp: deliver_one_def storage_failed_def mail_grows_db)
  next
    case (Inr inbox)
    consider (err) e where "b = Inl e" | (there) "b = Inr True" | (new) "b = Inr False" by (cases b) auto
    then show ?thesis
    proof cases
      case err
      then show ?thesis using assms(1) q Inr b s2 by (auto simp: deliver_one_def storage_failed_def mail_grows_db)
    next
      case there
      then have "has_mail (us_id u) (pm_msgid p) s1" using MessageIDExists_True b by blast
      then show ?thesis using assms(1) q Inr b s1 s2 there by (auto simp: deliver_one_def mail_grows_db has_mail_def)
    next
      case new
      then have "store_inbound h u inbox addr p raw s2 = (x, s')" using assms(1) q Inr b by (simp add: deliver_one_def)
      from store_inbound_serves [OF this assms(2) ok] show ?thesis using mail_grows_trans [OF mail_grows_db [OF s2]] by blast
    qed
  qed
qed

text \<open>What serving a target has come to.\<close>

definition served :: "inbound \<Rightarrow> parsed_mail \<Rightarrow> string \<Rightarrow> store \<Rightarrow> send_log \<Rightarrow> target \<Rightarrow> bool" where
  "served h p raw s log t = (case t of
     To_user addr u \<Rightarrow> has_mail (us_id u) (pm_msgid p) s
   | To_forward addr dest \<Rightarrow> (\<exists>sender. ib_sender h = Some sender \<and> (None, [(EnvelopeFrom sender addr, [dest], raw)]) \<in> set log))"

lemma serve_targets_serves:
  assumes "serve_targets h p raw ts s log = (xs, s', log')" "good_hook (ib_hook h)" "store_ok s"
  shows "mail_grows s s' \<and> set log \<subseteq> set log' \<and>
    (list_ex storage_failed xs \<or> list_ex forward_failed xs \<or> (\<forall>t\<in>set ts. served h p raw s' log' t))"
  using assms
proof (induction ts arbitrary: s log xs)
  case (Cons t ts)
  show ?case
  proof (cases t)
    case (To_user addr u)
    obtain x s1 where x: "deliver_one h addr u p raw s = (x, s1)" by (cases "deliver_one h addr u p raw s")
    obtain ys s2 log2 where y: "serve_targets h p raw ts s1 log = (ys, s2, log2)" by (metis prod.collapse)
    have r: "xs = x # ys" "s' = s2" "log' = log2" using Cons.prems(1) x y To_user by simp_all
    note d = deliver_one_serves [OF x Cons.prems(2,3)]
    have "store_ok s1" using d Cons.prems(3) by (simp add: mail_grows_def)
    with Cons.IH [OF y [folded r] Cons.prems(2)] have
      "mail_grows s1 s'" "set log \<subseteq> set log'" "list_ex storage_failed ys \<or> list_ex forward_failed ys \<or> (\<forall>t\<in>set ts. served h p raw s' log' t)"
      by blast+
    then show ?thesis using d mail_grows_trans [of s s1 s'] r To_user by (auto simp: served_def mail_grows_def)
  next
    case (To_forward addr dest)
    obtain x log1 where x: "forward_one h addr dest raw log = (x, log1)" by (cases "forward_one h addr dest raw log")
    obtain ys s2 log2 where y: "serve_targets h p raw ts s log1 = (ys, s2, log2)" by (metis prod.collapse)
    have r: "xs = x # ys" "s' = s2" "log' = log2" using Cons.prems(1) x y To_forward by simp_all
    have f: "set log \<subseteq> set log1 \<and> (forward_failed x \<or> (\<exists>sender. ib_sender h = Some sender \<and> (None, [(EnvelopeFrom sender addr, [dest], raw)]) \<in> set log1))"
    proof (cases "ib_sender h")
      case None
      then show ?thesis using x by (auto simp: forward_one_def forward_failed_def)
    next
      case (Some sender)
      obtain err acc where e: "SmtpSend sender None (ib_peer h (length log)) (EnvelopeFrom sender addr) [dest] raw = (err, acc)"
        by (cases "SmtpSend sender None (ib_peer h (length log)) (EnvelopeFrom sender addr) [dest] raw")
      show ?thesis
      proof (cases err)
        case None
        then show ?thesis using x Some e SmtpSend_accepted by (auto simp: forward_one_def Let_def)
      next
        case (Some a)
        then show ?thesis using x \<open>ib_sender h = Some sender\<close> e by (auto simp: forward_one_def Let_def forward_failed_def)
      qed
    qed
    from Cons.IH [OF y [folded r] Cons.prems(2,3)] show ?thesis using f r To_forward by (auto simp: served_def)
  qed
qed simp

text \<open>C29: no mail of the worker is lost once 200 is answered. Then the request carried the token of the server, and
  every recipient it names that is an address at all is an account that has a mail with this identifier, or has
  a catch-all destination that the relay has accepted the mail for.\<close>

theorem inbound_mail_is_kept:
  assumes "store_ok s" "good_hook (ib_hook h)" "ServeInbound h req s log = (answer, s', log')" "ia_status answer = 200"
  shows "\<exists>raw p envelope. inbound_read h req = Inr (raw, p, envelope) \<and> ib_token h \<noteq> [] \<and> requestToken req = ib_token h \<and>
    (\<forall>r\<in>set envelope. normalizeAddress r = [] \<or>
      (\<exists>u. account_of (st_db s) (normalizeAddress r) = Some u \<and> has_mail (us_id u) (pm_msgid p) s') \<or>
      (\<exists>sender dest. ib_sender h = Some sender \<and> dest \<noteq> [] \<and> dest = catch_all h (domainOf (normalizeAddress r)) \<and>
        (None, [(EnvelopeFrom sender (normalizeAddress r), [dest], raw)]) \<in> set log'))"
proof -
  have not200: "ia_status a \<noteq> 200" if "inbound_read h req = Inl a" for a
    using that by (auto simp: inbound_read_def inbound_error_def Let_def split: if_splits option.splits sum.splits)
  then obtain raw p envelope where i: "inbound_read h req = Inr (raw, p, envelope)"
    using assms(3,4) by (cases "inbound_read h req") (auto simp: ServeInbound_def)
  then have tok: "ib_token h \<noteq> []" "requestToken req = ib_token h" by (auto simp: inbound_read_def tokenMatches_def split: if_splits)
  obtain ts us f s1 where r: "resolve h [] envelope s = ((ts, us, f), s1)" by (metis prod.collapse)
  obtain xs s2 log2 where x: "serve_targets h p raw ts s1 log = (xs, s2, log2)" by (metis prod.collapse)
  have a: "us = []" "\<not> f" "answer = inbound_result xs" "s' = s2" "log' = log2"
    using assms(3,4) i r x by (auto simp: ServeInbound_def inbound_error_def split: if_splits)
  note cov = resolve_covers [OF r]
  have "store_ok s1" using cov assms(1) by (simp add: store_ok_def)
  from serve_targets_serves [OF x assms(2) this] have "\<forall>t\<in>set ts. served h p raw s' log' t"
    using a assms(4) by (auto simp: inbound_result_def split: if_splits)
  then show ?thesis using cov a(1,2) i tok
    by (intro exI [of _ raw] exI [of _ p] exI [of _ envelope]) (fastforce simp: served_def)
qed

text \<open>A body beyond the limit is cut off and taken for the mail: the rest of the mail is lost with 200.\<close>

lemma inbound_truncates:
  assumes "iq_body req = Some body" "index_str (iq_ctype req) ''application/json'' = None" "inbound_read h req = Inr (raw, p, envelope)"
  shows "raw = take (inbound_limit h) body"
  using assms by (auto simp: inbound_read_def inbound_raw_def Let_def split: if_splits)

section \<open>Examples\<close>

definition demo_inbound :: inbound where
  "demo_inbound = \<lparr>ib_lib = demo_lib, ib_reader = (\<lambda>_. Some (demo_reader (\<lambda>_. []))), ib_hook = None, ib_token = ''t'', ib_max = 100,
     ib_catchall = Some [''x'' \<mapsto> ''ann@z''], ib_sender = Some demo_sender, ib_peer = (\<lambda>_. demo_peer), ib_json = (\<lambda>_. Inl [])\<rparr>"

definition demo_post :: inbound_request where
  "demo_post = \<lparr>iq_method = ''POST'', iq_token = [], iq_auth = ''Bearer t'', iq_ctype = ''message/rfc822'', iq_body = Some ''mail'',
     iq_envelope = ''<U@x>, other@x'', iq_query = []\<rparr>"

lemma demo_post_read: "(case inbound_read demo_inbound demo_post of Inl _ \<Rightarrow> False
    | Inr (raw, p, envelope) \<Rightarrow> raw = ''mail'' \<and> envelope = [''u@x'', ''other@x''])"
  by code_simp

lemma demo_post_status: "ia_status (fst (ServeInbound demo_inbound demo_post demo_store [])) = 200"
  by code_simp

theorem inbound_mail_is_kept_witness:
  "\<exists>answer s' log' (p :: parsed_mail). ServeInbound demo_inbound demo_post demo_store [] = (answer, s', log') \<and> ia_status answer = 200 \<and>
     ((\<exists>u. account_of (st_db demo_store) ''other@x'' = Some u \<and> has_mail (us_id u) (pm_msgid p) s') \<or>
      (\<exists>sender. ib_sender demo_inbound = Some sender \<and> (None, [(EnvelopeFrom sender ''other@x'', [''ann@z''], ''mail'')]) \<in> set log'))"
proof -
  obtain answer s' log' where r: "ServeInbound demo_inbound demo_post demo_store [] = (answer, s', log')" by (metis prod.collapse)
  then have st: "ia_status answer = 200" using demo_post_status by simp
  have g: "good_hook (ib_hook demo_inbound)" by (simp add: demo_inbound_def good_hook_None)
  obtain raw p envelope where i: "inbound_read demo_inbound demo_post = Inr (raw, p, envelope)" "raw = ''mail''" "envelope = [''u@x'', ''other@x'']"
    using demo_post_read by (auto split: sum.splits)
  have n: "normalizeAddress ''other@x'' = ''other@x''" "domainOf ''other@x'' = ''x''" by code_simp+
  have d: "catch_all demo_inbound ''x'' = ''ann@z''" by (simp add: catch_all_def demo_inbound_def)
  from inbound_mail_is_kept [OF demo_ok g r st] i have
    "(\<exists>u. account_of (st_db demo_store) ''other@x'' = Some u \<and> has_mail (us_id u) (pm_msgid p) s') \<or>
     (\<exists>sender. ib_sender demo_inbound = Some sender \<and> (None, [(EnvelopeFrom sender ''other@x'', [''ann@z''], ''mail'')]) \<in> set log')"
    by (auto simp: n d)
  then show ?thesis using r st by (intro exI [of _ answer] exI [of _ s'] exI [of _ log'] exI [of _ p] conjI)
qed

end
