(* ===== verification/ApiBase.thy ===== *)
theory ApiBase imports EasServer Handover begin

text \<open>
  What the handlers of \<open>internal/api\<close> share (\<open>user.go\<close>, \<open>admin.go\<close>): the guards of a request that changes
  something, the answers, the sessions of accounts and of the operator. Of a request the parts the code looks at are
  fields. HMAC-SHA-256, bcrypt and \<open>url.Parse\<close> are parameters; the decoded JSON of an answer is a value of the
  model. Times are nanoseconds; of a cookie only its value is modelled. Logging and the pause after a failed login are
  not modelled.
\<close>

record web_request =
  wr_client :: request
  wr_method :: string
  wr_path :: string
  wr_query :: "string \<Rightarrow> string"
  wr_origin :: string
  wr_host :: string
  wr_forwarded_host :: string
  wr_ctype :: string
  wr_cookie :: "string \<Rightarrow> string option"
  wr_body :: "string option"
  wr_token :: string
  wr_auth :: string

record web_lib =
  wl_url_host :: "string \<Rightarrow> string option"
  wl_hmac :: "string \<Rightarrow> string \<Rightarrow> string"
  wl_bcrypt :: "string \<Rightarrow> string \<Rightarrow> bool"
  wl_lower :: "string \<Rightarrow> string"

text \<open>An error is \<open>\{"error": text\}\<close>.\<close>

record 'a api_answer =
  aa_status :: int
  aa_headers :: "(string \<times> string) list"
  aa_cookie :: "string option"
  aa_body :: "string + 'a"

(* src: internal/api/admin.go 405-407 writeJSONError *)
definition api_error :: "int \<Rightarrow> string \<Rightarrow> 'a api_answer" where
  "api_error status text = \<lparr>aa_status = status, aa_headers = [], aa_cookie = None, aa_body = Inl text\<rparr>"

(* src: internal/api/admin.go 399-403 writeJSON *)
definition api_json :: "int \<Rightarrow> 'a \<Rightarrow> 'a api_answer" where
  "api_json status v = \<lparr>aa_status = status, aa_headers = [], aa_cookie = None, aa_body = Inr v\<rparr>"

definition not_allowed :: "string \<Rightarrow> 'a api_answer" where
  "not_allowed methods = (api_error 405 ''method not allowed'')\<lparr>aa_headers := [(''Allow'', methods)]\<rparr>"

(* src: internal/api/admin.go 379-381 isJSON *)
definition isJSON :: "web_request \<Rightarrow> bool" where
  "isJSON r = has_prefix (to_lower (wr_ctype r)) ''application/json''"

(* src: internal/api/admin.go 383-397 sameOrigin *)
definition sameOrigin :: "web_lib \<Rightarrow> web_request \<Rightarrow> bool" where
  "sameOrigin L r =
    (if wr_origin r = [] then True
     else (case wl_url_host L (wr_origin r) of
        None \<Rightarrow> False
      | Some h \<Rightarrow> equal_fold h (if wr_forwarded_host r \<noteq> [] then wr_forwarded_host r else wr_host r)))"

text \<open>The answer to a request that may not change anything.\<close>

(* src: internal/api/user.go 1402-1415 User.mutable *)
definition mutable_guard :: "web_lib \<Rightarrow> web_request \<Rightarrow> 'a api_answer option" where
  "mutable_guard L r =
    (if \<not> sameOrigin L r then Some (api_error 403 ''cross-origin request rejected'')
     else if to_lower (trim_space (wr_ctype r)) \<noteq> [] \<and> \<not> isJSON r
       then Some (api_error 415 ''content-type must be application/json'')
     else None)"

definition json_limit :: nat where
  "json_limit = 2 ^ 20"

(* src: internal/api/user.go 1417-1428 decodeJSON *)
definition decodeJSON :: "(string \<Rightarrow> string + 'j) \<Rightarrow> web_request \<Rightarrow> 'a api_answer + 'j" where
  "decodeJSON decode r = (case wr_body r of
     None \<Rightarrow> Inl (api_error 400 ''request body is required'')
   | Some b \<Rightarrow> (case decode (take json_limit b) of
        Inl e \<Rightarrow> Inl (api_error 400 (''invalid json: '' @ e)) | Inr v \<Rightarrow> Inr v))"

(* src: internal/api/user.go 1430-1440 queryInt *)
definition queryInt :: "web_request \<Rightarrow> string \<Rightarrow> int \<Rightarrow> int" where
  "queryInt r key fallback =
    (let (n, ok) = parse_int64 (wr_query r key) in
     if wr_query r key = [] \<or> \<not> ok \<or> n < 0 then fallback else n)"

section \<open>Sessions of accounts\<close>

definition hexit :: "nat \<Rightarrow> char" where
  "hexit n = ''0123456789abcdef'' ! n"

definition hex_string :: "string \<Rightarrow> string" where
  "hex_string s = concat (map (\<lambda>c. [hexit ((of_char c :: nat) div 16), hexit ((of_char c :: nat) mod 16)]) s)"

(* src: internal/api/user.go 24-28 userCookieName *)
definition userCookieName :: string where
  "userCookieName = ''lifemail_user''"

(* src: internal/api/user.go 24-28 userSessionTTL *)
definition userSessionTTL :: int where
  "userSessionTTL = 12 * 3600 * 10 ^ 9"

(* src: internal/api/user.go 239-246 User.signingKey *)
definition signingKey :: "web_lib \<Rightarrow> string \<Rightarrow> string option" where
  "signingKey L token = (if token = [] then None else Some (wl_hmac L token ''lifemail-user-session-v1''))"

(* src: internal/api/user.go 248-252 User.sign *)
definition user_sign :: "web_lib \<Rightarrow> string \<Rightarrow> string \<Rightarrow> string" where
  "user_sign L token payload =
     hex_string (wl_hmac L (case signingKey L token of None \<Rightarrow> [] | Some k \<Rightarrow> k) payload)"

(* src: internal/api/user.go 193-205 User.issueSession *)
definition issueSession :: "web_lib \<Rightarrow> string \<Rightarrow> int \<Rightarrow> user \<Rightarrow> string" where
  "issueSession L token now user =
    (let payload = us_id user @ ''|'' @ itoa ((now + userSessionTTL) div 10 ^ 9) in
     payload @ ''.'' @ user_sign L token payload)"

text \<open>The account of the cookie.\<close>

(* src: internal/api/user.go 207-237 User.current *)
definition current_user :: "web_lib \<Rightarrow> string \<Rightarrow> int \<Rightarrow> web_request \<Rightarrow> store \<Rightarrow> user option \<times> store" where
  "current_user L token now r s =
    (if signingKey L token = None then (None, s)
     else (case wr_cookie r userCookieName of
        None \<Rightarrow> (None, s)
      | Some v \<Rightarrow> (case cut_byte CHR ''.'' v of (payload, signature, ok) \<Rightarrow>
          if \<not> ok then (None, s)
          else (case cut_byte CHR ''|'' payload of (userID, expiryText, ok2) \<Rightarrow>
            if \<not> ok2 then (None, s)
            else (case parse_int64 expiryText of (expiry, ok3) \<Rightarrow>
              if \<not> ok3 \<or> expiry < now div 10 ^ 9 then (None, s)
              else if signature \<noteq> user_sign L token payload then (None, s)
              else (case UserByID userID s of (Inl _, s1) \<Rightarrow> (None, s1) | (Inr u, s1) \<Rightarrow> (Some u, s1)))))))"

record login_input =
  li_login :: string
  li_password :: string

text \<open>Whether somebody is logged in, and who.\<close>

type_synonym session_view = "user option"

(* src: internal/api/user.go 136-191 User.login *)
definition user_login :: "web_lib \<Rightarrow> string \<Rightarrow> (string \<Rightarrow> string + login_input) \<Rightarrow> int \<Rightarrow> web_request \<Rightarrow> limiter option \<Rightarrow> store \<Rightarrow>
    session_view api_answer \<times> limiter option \<times> store" where
  "user_login L token decode now r lim s =
    (if signingKey L token = None then (api_error 503 ''webmail login is not configured'', lim, s)
     else if \<not> sameOrigin L r then (api_error 403 ''cross-origin request rejected'', lim, s)
     else if \<not> isJSON r then (api_error 415 ''content-type must be application/json'', lim, s)
     else
      (let key = ''user|'' @ ClientIP (wr_client r) in
       case Locked now key lim of ((locked, retry), lim1) \<Rightarrow>
         if locked then ((api_error 429 ''too many failed login attempts, try again later'')
              \<lparr>aa_headers := [(''Retry-After'', itoa (retryAfter retry))]\<rparr>, lim1, s)
         else (case decode (take json_limit (case wr_body r of None \<Rightarrow> [] | Some b \<Rightarrow> b)) of
            Inl e \<Rightarrow> (api_error 400 (''invalid json: '' @ e), lim1, s)
          | Inr body \<Rightarrow> (case UserByLogin (li_login body) s of
               (Inl _, s1) \<Rightarrow> (api_error 401 ''invalid credentials'', snd (Fail now key lim1), s1)
             | (Inr user, s1) \<Rightarrow>
                if \<not> wl_bcrypt L (us_hash user) (li_password body)
                then (api_error 401 ''invalid credentials'', snd (Fail now key lim1), s1)
                else ((api_json 200 (Some user))\<lparr>aa_cookie := Some (issueSession L token now user)\<rparr>, Reset key lim1, s1)))))"

(* src: internal/api/user.go 107-134 User.session *)
definition user_session :: "web_lib \<Rightarrow> string \<Rightarrow> (string \<Rightarrow> string + login_input) \<Rightarrow> int \<Rightarrow> web_request \<Rightarrow> limiter option \<Rightarrow> store \<Rightarrow>
    session_view api_answer \<times> limiter option \<times> store" where
  "user_session L token decode now r lim s =
    (if wr_method r = ''GET'' then (case current_user L token now r s of (u, s1) \<Rightarrow> (api_json 200 u, lim, s1))
     else if wr_method r = ''POST'' then user_login L token decode now r lim s
     else if wr_method r = ''DELETE'' then ((api_json 200 None)\<lparr>aa_cookie := Some []\<rparr>, lim, s)
     else (not_allowed ''GET, POST, DELETE'', lim, s))"

section \<open>Sessions of the operator\<close>

(* src: internal/api/admin.go 22-25 adminCookieName *)
definition adminCookieName :: string where
  "adminCookieName = ''lifemail_admin''"

(* src: internal/api/admin.go 22-25 adminSessionTTL *)
definition adminSessionTTL :: int where
  "adminSessionTTL = 12 * 3600 * 10 ^ 9"

(* src: internal/api/admin.go 359-363 Admin.sign *)
definition admin_sign :: "web_lib \<Rightarrow> string \<Rightarrow> string \<Rightarrow> string" where
  "admin_sign L token payload = hex_string (wl_hmac L token payload)"

(* src: internal/api/admin.go 326-338 Admin.issueSession *)
definition admin_issue :: "web_lib \<Rightarrow> string \<Rightarrow> int \<Rightarrow> string" where
  "admin_issue L token now =
    (let payload = itoa ((now + adminSessionTTL) div 10 ^ 9) in payload @ ''.'' @ admin_sign L token payload)"

(* src: internal/api/admin.go 340-357 Admin.validSession *)
definition validSession :: "web_lib \<Rightarrow> string \<Rightarrow> int \<Rightarrow> web_request \<Rightarrow> bool" where
  "validSession L token now r =
    (if token = [] then False
     else (case wr_cookie r adminCookieName of
        None \<Rightarrow> False
      | Some v \<Rightarrow> (case cut_byte CHR ''.'' v of (payload, signature, ok) \<Rightarrow>
          if \<not> ok then False
          else (case parse_int64 payload of (expiry, ok2) \<Rightarrow>
            if \<not> ok2 \<or> expiry < now div 10 ^ 9 then False else signature = admin_sign L token payload))))"

(* src: internal/api/inbound.go 307-315 requestToken *)
definition web_token :: "web_request \<Rightarrow> string" where
  "web_token r =
    (if wr_token r \<noteq> [] then wr_token r
     else if has_prefix (to_lower (wr_auth r)) ''bearer '' then trim_space (drop 7 (wr_auth r)) else [])"

(* src: internal/api/admin.go 322-324 Admin.authorized *)
definition admin_authorized :: "web_lib \<Rightarrow> string \<Rightarrow> int \<Rightarrow> web_request \<Rightarrow> bool" where
  "admin_authorized L token now r \<longleftrightarrow> token \<noteq> [] \<and> web_token r = token \<or> validSession L token now r"

(* src: internal/api/admin.go 151-201 Admin.login *)
definition admin_login :: "web_lib \<Rightarrow> string \<Rightarrow> (string \<Rightarrow> string + string) \<Rightarrow> int \<Rightarrow> web_request \<Rightarrow> limiter option \<Rightarrow>
    bool api_answer \<times> limiter option" where
  "admin_login L token decode now r lim =
    (if wr_method r \<noteq> ''POST'' then (not_allowed ''POST'', lim)
     else if token = [] then (api_error 503 ''admin token is not configured'', lim)
     else if \<not> sameOrigin L r then (api_error 403 ''cross-origin request rejected'', lim)
     else if \<not> isJSON r then (api_error 415 ''content-type must be application/json'', lim)
     else
      (let key = ''admin|'' @ ClientIP (wr_client r) in
       case Locked now key lim of ((locked, retry), lim1) \<Rightarrow>
         if locked then ((api_error 429 ''too many failed login attempts, try again later'')
              \<lparr>aa_headers := [(''Retry-After'', itoa (retryAfter retry))]\<rparr>, lim1)
         else (case decode (take json_limit (case wr_body r of None \<Rightarrow> [] | Some b \<Rightarrow> b)) of
            Inl e \<Rightarrow> (api_error 400 (''invalid json: '' @ e), lim1)
          | Inr given \<Rightarrow>
              if given \<noteq> token then (api_error 401 ''invalid token'', snd (Fail now key lim1))
              else ((api_json 200 True)\<lparr>aa_cookie := Some (admin_issue L token now)\<rparr>, Reset key lim1))))"

(* src: internal/api/admin.go 203-219 Admin.logout *)
definition admin_logout :: "web_request \<Rightarrow> bool api_answer" where
  "admin_logout r = (if wr_method r \<noteq> ''POST'' then not_allowed ''POST'' else (api_json 200 True)\<lparr>aa_cookie := Some []\<rparr>)"

(* src: internal/api/admin.go 221-231 Admin.session *)
definition admin_session :: "web_lib \<Rightarrow> string \<Rightarrow> int \<Rightarrow> web_request \<Rightarrow> bool api_answer" where
  "admin_session L token now r =
    (if wr_method r \<noteq> ''GET'' then not_allowed ''GET'' else api_json 200 (admin_authorized L token now r))"

section \<open>Properties\<close>

lemma split_byte_rest: "c \<in> set v \<Longrightarrow> \<exists>a b. v = a @ c # b \<and> c \<notin> set a"
  using split_list_first by metis

lemma cut_byte_found: "c \<notin> set a \<Longrightarrow> cut_byte c (a @ c # b) = (a, b, True)"
proof -
  assume "c \<notin> set a"
  moreover have "index_byte (a @ c # b) c = Some (length a)" if "c \<notin> set a" for a using that by (induction a) auto
  ultimately show ?thesis by (simp add: cut_byte_def)
qed

lemma cut_byte_True: "cut_byte c v = (a, b, True) \<Longrightarrow> v = a @ c # b"
  by (auto simp: cut_byte_def dest!: index_byte_SomeD split: option.splits) (metis id_take_nth_drop)

lemma hexit_plain: "n < 16 \<Longrightarrow> hexit n \<noteq> CHR ''.''"
proof -
  assume "n < 16"
  then have "hexit n \<in> set ''0123456789abcdef''" unfolding hexit_def by (intro nth_mem) simp
  then show ?thesis by auto
qed

lemma hex_string_plain: "CHR ''.'' \<notin> set (hex_string s)"
proof -
  have "of_char c div 16 < (16 :: nat)" for c :: char by (simp add: less_mult_imp_div_less nat_of_char_less_256)
  then show ?thesis using hexit_plain by (auto simp: hex_string_def) (metis mod_less_divisor zero_less_numeral)+
qed

text \<open>C26: nobody is taken for an account without a cookie that this server signed. The account that \<open>current\<close> finds is
  a row of the table; the cookie names its id and a moment that has not passed, and what follows is the
  HMAC of both under the key of the server, which is never empty.\<close>

theorem session_sound:
  assumes "current_user L token now r s = (Some u, s')"
  shows "token \<noteq> [] \<and> (\<exists>etext expiry. wr_cookie r userCookieName = Some (us_id u @ ''|'' @ etext @ ''.'' @ user_sign L token (us_id u @ ''|'' @ etext)) \<and>
      parse_int64 etext = (expiry, True) \<and> now div 10 ^ 9 \<le> expiry) \<and>
    (\<exists>row\<in>set (tb_users (st_db s)). us_id row = us_id u \<and> us_hash u = us_hash row) \<and> st_db s' = st_db s"
proof -
  obtain v where v: "token \<noteq> []" "wr_cookie r userCookieName = Some v"
    using assms by (auto simp: current_user_def signingKey_def split: if_splits option.splits)
  obtain payload signature ok where c1: "cut_byte CHR ''.'' v = (payload, signature, ok)" by (metis prod.collapse)
  obtain uid etext ok2 where c2: "cut_byte CHR ''|'' payload = (uid, etext, ok2)" by (metis prod.collapse)
  obtain expiry ok3 where c3: "parse_int64 etext = (expiry, ok3)" by (cases "parse_int64 etext")
  obtain q s1 where q: "UserByID uid s = (q, s1)" by (cases "UserByID uid s")
  have ok: "ok" "ok2" "ok3" "now div 10 ^ 9 \<le> expiry" "signature = user_sign L token payload" "q = Inr u" "s' = s1"
    using assms v c1 c2 c3 q by (auto simp: current_user_def signingKey_def split: if_splits sum.splits)
  have p: "v = payload @ CHR ''.'' # signature" "payload = uid @ CHR ''|'' # etext" using cut_byte_True [of "CHR ''.''" v payload signature] cut_byte_True [of "CHR ''|''" payload uid etext] c1 c2 ok(1,2) by simp_all
  obtain xs where "map (user_view (st_db s)) (filter (\<lambda>w. us_id w = uid) (tb_users (st_db s))) = u # xs" "st_db s1 = st_db s"
    using q ok(6) by (auto simp: UserByID_def get_row_Inr_iff)
  then obtain row rows where row: "filter (\<lambda>w. us_id w = uid) (tb_users (st_db s)) = row # rows" "u = user_view (st_db s) row"
    by (cases "filter (\<lambda>w. us_id w = uid) (tb_users (st_db s))") auto
  from row(1) have "row \<in> set (filter (\<lambda>w. us_id w = uid) (tb_users (st_db s)))" by simp
  then have row: "row \<in> set (tb_users (st_db s))" "us_id row = uid" "u = user_view (st_db s) row" using row(2) by simp_all
  have "us_id u = uid" "us_hash u = us_hash row" using row by (simp_all add: user_view_def)
  then show ?thesis using v p c3 ok row \<open>st_db s1 = st_db s\<close>
    by (intro conjI exI [of _ etext] exI [of _ expiry] bexI [of _ row]) simp_all
qed

lemma find_first: "find P xs = (case filter P xs of [] \<Rightarrow> None | x # _ \<Rightarrow> Some x)"
  by (induction xs) auto

lemma current_issued:
  assumes "token \<noteq> []" "CHR ''.'' \<notin> set (us_id user)" "CHR ''|'' \<notin> set (us_id user)" "int64_range ((t + userSessionTTL) div 10 ^ 9)"
    and "wr_cookie r userCookieName = Some (issueSession L token t user)"
  shows "current_user L token now r s = (if now div 10 ^ 9 \<le> (t + userSessionTTL) div 10 ^ 9
    then (case UserByID (us_id user) s of (Inl _, s1) \<Rightarrow> (None, s1) | (Inr u, s1) \<Rightarrow> (Some u, s1)) else (None, s))"
proof -
  let ?e = "(t + userSessionTTL) div 10 ^ 9"
  let ?p = "us_id user @ CHR ''|'' # itoa ?e"
  have "CHR ''.'' \<notin> set ?p" using assms(2) itoa_chars [of "CHR ''.''" ?e] by (auto simp: is_digit_def)
  then have c1: "cut_byte CHR ''.'' (issueSession L token t user) = (?p, user_sign L token ?p, True)"
    using cut_byte_found [of "CHR ''.''" ?p "user_sign L token ?p"] by (simp add: issueSession_def Let_def)
  have c2: "cut_byte CHR ''|'' ?p = (us_id user, itoa ?e, True)" by (rule cut_byte_found [OF assms(3)])
  have c3: "parse_int64 (itoa ?e) = (?e, True)" by (rule parse_int64_itoa [OF assms(4)])
  show ?thesis using assms(1,5) c1 c2 c3 by (simp add: current_user_def signingKey_def)
qed

text \<open>C27: a session lasts as long as it says. The cookie given at a login is taken for the account, whatever else
  happened to the account but its deletion, up to the second that it names, twelve hours later, and never after.\<close>

theorem session_roundtrip:
  assumes "token \<noteq> []" "CHR ''.'' \<notin> set (us_id user)" "CHR ''|'' \<notin> set (us_id user)" "int64_range ((t + userSessionTTL) div 10 ^ 9)"
    and "wr_cookie r userCookieName = Some (issueSession L token t user)" "st_faults s = []"
  shows "fst (current_user L token now r s) =
    (if now div 10 ^ 9 \<le> (t + userSessionTTL) div 10 ^ 9
     then map_option (user_view (st_db s)) (find (\<lambda>w. us_id w = us_id user) (tb_users (st_db s))) else None)"
proof -
  have "fst (UserByID (us_id user) s) = (case find (\<lambda>w. us_id w = us_id user) (tb_users (st_db s)) of
      None \<Rightarrow> Inl ErrNotFound | Some w \<Rightarrow> Inr (user_view (st_db s) w))"
    using assms(6) by (auto simp: UserByID_def get_row_def sql_no_fault find_first split: list.split)
  then show ?thesis unfolding current_issued [OF assms(1-5)]
    by (cases "UserByID (us_id user) s") (auto split: option.splits sum.splits)
qed

text \<open>A new password ends no session: the cookie names the account and the moment only.\<close>

lemma session_survives_password:
  assumes "st_faults s = []" "wr_cookie r userCookieName = Some (issueSession L token t user)" "token \<noteq> []"
    and "CHR ''.'' \<notin> set (us_id user)" "CHR ''|'' \<notin> set (us_id user)" "int64_range ((t + userSessionTTL) div 10 ^ 9)"
    and "now div 10 ^ 9 \<le> (t + userSessionTTL) div 10 ^ 9" "us_id user = us_id w" "tb_users (st_db s) = us @ w # ws" "us_id w \<notin> us_id ` set us"
  shows "fst (current_user L token now r (s\<lparr>st_db := (st_db s)\<lparr>tb_users := us @ (w\<lparr>us_hash := h\<rparr>) # ws\<rparr>\<rparr>)) \<noteq> None"
proof -
  let ?s = "s\<lparr>st_db := (st_db s)\<lparr>tb_users := us @ (w\<lparr>us_hash := h\<rparr>) # ws\<rparr>\<rparr>"
  have "\<exists>u s1. UserByID (us_id user) ?s = (Inr u, s1)"
    using assms(1,8,10) by (auto simp: UserByID_def get_row_def sql_no_fault split: list.splits)
  then show ?thesis unfolding current_issued [OF assms(3-6,2)] using assms(7) by auto
qed

lemma valid_issued:
  assumes "token \<noteq> []" "int64_range ((t + adminSessionTTL) div 10 ^ 9)" "wr_cookie r adminCookieName = Some (admin_issue L token t)"
  shows "validSession L token now r \<longleftrightarrow> now div 10 ^ 9 \<le> (t + adminSessionTTL) div 10 ^ 9"
proof -
  let ?p = "itoa ((t + adminSessionTTL) div 10 ^ 9)"
  have "CHR ''.'' \<notin> set ?p" using itoa_chars [of "CHR ''.''"] by (auto simp: is_digit_def)
  then have "cut_byte CHR ''.'' (admin_issue L token t) = (?p, admin_sign L token ?p, True)"
    using cut_byte_found [of "CHR ''.''" ?p "admin_sign L token ?p"] by (simp add: admin_issue_def Let_def)
  then show ?thesis using assms(1,3) parse_int64_itoa [OF assms(2)] by (auto simp: validSession_def)
qed

text \<open>C28: nobody is taken for the operator without the token of the server or a cookie signed with it, and a server
  without a token has no operator.\<close>

theorem admin_sound:
  assumes "admin_authorized L token now r"
  shows "token \<noteq> [] \<and> (web_token r = token \<or>
    (\<exists>etext expiry. wr_cookie r adminCookieName = Some (etext @ ''.'' @ admin_sign L token etext) \<and>
      parse_int64 etext = (expiry, True) \<and> now div 10 ^ 9 \<le> expiry))"
proof (cases "token \<noteq> [] \<and> web_token r = token")
  case False
  then have v: "validSession L token now r" using assms by (auto simp: admin_authorized_def)
  then obtain v where c: "token \<noteq> []" "wr_cookie r adminCookieName = Some v"
    by (auto simp: validSession_def split: if_splits option.splits)
  obtain payload signature ok where c1: "cut_byte CHR ''.'' v = (payload, signature, ok)" by (metis prod.collapse)
  obtain expiry ok2 where c2: "parse_int64 payload = (expiry, ok2)" by (cases "parse_int64 payload")
  have "ok" "ok2" "now div 10 ^ 9 \<le> expiry" "signature = admin_sign L token payload"
    using v c c1 c2 by (auto simp: validSession_def split: if_splits)
  then show ?thesis using c c1 c2 cut_byte_True [of "CHR ''.''" v payload signature] by auto
qed simp

section \<open>Examples\<close>

definition demo_web_lib :: web_lib where
  "demo_web_lib = \<lparr>wl_url_host = (\<lambda>_. None), wl_hmac = (\<lambda>k m. k @ m), wl_bcrypt = (=), wl_lower = to_lower\<rparr>"

definition web_get :: "string \<Rightarrow> (string \<Rightarrow> string option) \<Rightarrow> web_request" where
  "web_get path cookies = \<lparr>wr_client = \<lparr>rq_forwarded = [], rq_real_ip = [], rq_remote = ''1.2.3.4:5'', rq_remote_host = Some ''1.2.3.4'',
     rq_basic = None\<rparr>, wr_method = ''GET'', wr_path = path, wr_query = (\<lambda>_. []), wr_origin = [], wr_host = ''h'', wr_forwarded_host = [],
     wr_ctype = [], wr_cookie = cookies, wr_body = None, wr_token = [], wr_auth = []\<rparr>"

definition user_cookie :: "string \<Rightarrow> string option" where
  "user_cookie = [userCookieName \<mapsto> issueSession demo_web_lib ''t'' 0 demo_user]"

lemma demo_cookie:
  "''t'' \<noteq> []" "CHR ''.'' \<notin> set (us_id demo_user)" "CHR ''|'' \<notin> set (us_id demo_user)" "int64_range ((0 + userSessionTTL) div 10 ^ 9)"
  "wr_cookie (web_get [] user_cookie) userCookieName = Some (issueSession demo_web_lib ''t'' 0 demo_user)"
  by (simp_all add: demo_user_def userSessionTTL_def int64_range_def min_int64_def max_int64_def web_get_def user_cookie_def)

theorem session_roundtrip_witness:
  "fst (current_user demo_web_lib ''t'' 0 (web_get [] user_cookie) demo_store) \<noteq> None \<and>
   fst (current_user demo_web_lib ''t'' (43201 * 10 ^ 9) (web_get [] user_cookie) demo_store) = None"
  using session_roundtrip [OF demo_cookie demo_simps(4), of 0] session_roundtrip [OF demo_cookie demo_simps(4), of "43201 * 10 ^ 9"]
  by (simp add: userSessionTTL_def demo_db_def)

theorem session_sound_witness:
  "\<exists>u s'. current_user demo_web_lib ''t'' 0 (web_get [] user_cookie) demo_store = (Some u, s') \<and> us_id u \<in> us_id ` set (tb_users demo_db)"
proof -
  have "\<exists>u. UserByID (us_id demo_user) demo_store = (Inr u, demo_store)"
    by (simp add: UserByID_def get_row_def sql_no_fault demo_db_def)
  moreover have "(0 :: int) div 10 ^ 9 \<le> (0 + userSessionTTL) div 10 ^ 9" by (intro zdiv_mono1) (simp_all add: userSessionTTL_def)
  ultimately obtain u where r: "current_user demo_web_lib ''t'' 0 (web_get [] user_cookie) demo_store = (Some u, demo_store)"
    using current_issued [OF demo_cookie, of 0 demo_store] by fastforce
  obtain row where "row \<in> set (tb_users demo_db)" "us_id row = us_id u" using session_sound [OF r] by auto
  then show ?thesis using r by (metis imageI)
qed

theorem admin_sound_witness:
  "\<exists>etext expiry. wr_cookie (web_get [] [adminCookieName \<mapsto> admin_issue demo_web_lib ''t'' 0]) adminCookieName =
     Some (etext @ ''.'' @ admin_sign demo_web_lib ''t'' etext) \<and> parse_int64 etext = (expiry, True)"
proof -
  have "validSession demo_web_lib ''t'' 0 (web_get [] [adminCookieName \<mapsto> admin_issue demo_web_lib ''t'' 0])"
    by (rule iffD2 [OF valid_issued [where t = 0]]) (simp_all add: web_get_def adminSessionTTL_def int64_range_def min_int64_def max_int64_def)
  then have "admin_authorized demo_web_lib ''t'' 0 (web_get [] [adminCookieName \<mapsto> admin_issue demo_web_lib ''t'' 0])"
    by (simp add: admin_authorized_def)
  from admin_sound [OF this] show ?thesis by (auto simp: web_get_def web_token_def has_prefix_def)
qed

end
