(* ===== verification/ApiReply.thy ===== *)
theory ApiReply imports ApiBase begin

text \<open>
  \<open>internal/api/reply.go\<close> and \<open>compose.go\<close>: replies and new mails of the webmail, and the view of a message
  (\<open>user.go\<close>). \<open>mail.ParseAddress\<close>, the writer of an address, the encoder of a header and \<open>time.Format\<close> are
  parameters. Logging is not modelled.
\<close>

(* src: internal/api/user.go 30-55 User *)
record webmail =
  wm_web :: web_lib
  wm_lib :: mail_lib
  wm_reader :: "string \<Rightarrow> mime_reader option"
  wm_hook :: "inbox_hook option"
  wm_sender :: "sender option"
  wm_peer :: "nat \<Rightarrow> smtp_peer"
  wm_local :: "(string \<Rightarrow> bool) option"
  wm_parse :: "string \<Rightarrow> string option"
  wm_qenc :: "string \<Rightarrow> string"
  wm_date :: "int \<Rightarrow> string"
  wm_now :: int

section \<open>The view of a message\<close>

(* src: internal/api/user.go 616-622 attachmentView *)
record attachment_view =
  tv_id :: int
  tv_file :: string
  tv_ctype :: string
  tv_size :: int
  tv_inline :: bool

(* src: internal/api/user.go 596-614 messageView *)
record message_view =
  mv_id :: int
  mv_folder :: int
  mv_subject :: string
  mv_from_name :: string
  mv_from_addr :: string
  mv_to :: string
  mv_cc :: string
  mv_date :: int
  mv_read :: bool
  mv_has_att :: bool
  mv_text :: string
  mv_html :: string
  mv_attachments :: "attachment_view list"

(* src: internal/api/user.go 624-645 User.messageView *)
definition messageView :: "message \<Rightarrow> (store, message_view) op" where
  "messageView m = bindE (AttachmentsByMessage (ms_id m)) (\<lambda>as.
     okE \<lparr>mv_id = ms_id m, mv_folder = ms_folder m, mv_subject = ms_subject m, mv_from_name = ms_from_name m,
       mv_from_addr = ms_from_addr m, mv_to = ms_to m, mv_cc = ms_cc m, mv_date = ms_date m, mv_read = ms_read m,
       mv_has_att = ms_has_att m, mv_text = ms_body_text m, mv_html = ms_body_html m,
       mv_attachments = map (\<lambda>a. \<lparr>tv_id = at_id a, tv_file = at_file a, tv_ctype = at_ctype a, tv_size = at_size a,
          tv_inline = at_inline a\<rparr>) as\<rparr>)"

section \<open>Recipients\<close>

(* src: internal/api/reply.go 213-226 bareAddress *)
definition bareAddress :: "webmail \<Rightarrow> string \<Rightarrow> string" where
  "bareAddress h v0 =
    (let v = trim_space v0 in
     if v = [] then []
     else (case wm_parse h v of Some a \<Rightarrow> a | None \<Rightarrow> trim_set [CHR ''<'', CHR ''>'', CHR '' ''] v))"

(* src: internal/api/reply.go 327-334 containsFold *)
definition containsFold :: "string list \<Rightarrow> string \<Rightarrow> bool" where
  "containsFold xs v \<longleftrightarrow> list_ex (\<lambda>x. equal_fold x v) xs"

text \<open>A failing query leaves only the primary address.\<close>

(* src: internal/api/reply.go 314-325 User.ownAddresses *)
definition ownAddresses :: "user \<Rightarrow> store \<Rightarrow> string list \<times> store" where
  "ownAddresses user s =
    (let primary = (if us_address user = [] then [] else [to_lower (us_address user)]) in
     case AliasesByUser (us_id user) s of
       (Inl _, s1) \<Rightarrow> (primary, s1) | (Inr as, s1) \<Rightarrow> (primary @ map (\<lambda>a. to_lower (al_address a)) as, s1))"

text \<open>The loop over a list of addresses: empty and own addresses, and those already among the result or among
  others, are left out.\<close>

(* src: internal/api/reply.go 196-201 User.replyRecipients *)
fun collect :: "string list \<Rightarrow> string list \<Rightarrow> string list \<Rightarrow> string list \<Rightarrow> string list" where
  "collect own others out [] = out"
| "collect own others out (a # as) =
    (if a = [] \<or> to_lower a \<in> set own \<or> containsFold out a \<or> containsFold others a then collect own others out as
     else collect own others (out @ [a]) as)"

definition other_sender :: "string list \<Rightarrow> string \<Rightarrow> string list" where
  "other_sender own sender = (if sender \<noteq> [] \<and> to_lower sender \<notin> set own then [sender] else [])"

(* src: internal/api/reply.go 169-211 User.replyRecipients *)
definition replyRecipients :: "webmail \<Rightarrow> string list \<Rightarrow> parsed_mail \<Rightarrow> message \<Rightarrow> bool \<Rightarrow> string list \<times> string list" where
  "replyRecipients h own original meta all =
    (let sender = (if trim_space (pm_from_addr original) = [] then trim_space (ms_from_addr meta) else trim_space (pm_from_addr original));
         to0 = other_sender own sender;
         toList = (if Addresses (wm_lib h) (pm_to original) = [] then Addresses (wm_lib h) (ms_to meta) else Addresses (wm_lib h) (pm_to original));
         ccList = (if Addresses (wm_lib h) (pm_cc original) = [] then Addresses (wm_lib h) (ms_cc meta) else Addresses (wm_lib h) (pm_cc original));
         to = collect own [] to0 (map (bareAddress h) toList) in
     if \<not> all then (to0, []) else (to, collect own to [] (map (bareAddress h) ccList)))"

(* src: internal/api/reply.go 232-251 User.explicitRecipients *)
definition explicitRecipients :: "webmail \<Rightarrow> string list \<Rightarrow> string list \<Rightarrow> string list \<Rightarrow> string list \<times> string list" where
  "explicitRecipients h own toList ccList =
    (let to = collect own [] [] (map (bareAddress h) toList) in (to, collect own to [] (map (bareAddress h) ccList)))"

(* src: internal/api/reply.go 286-312 User.recipientsFromMeta *)
definition recipientsFromMeta :: "webmail \<Rightarrow> string list \<Rightarrow> message \<Rightarrow> string list \<times> string list" where
  "recipientsFromMeta h own m =
    (let to = collect own [] (other_sender own (bareAddress h (ms_from_addr m))) (map (bareAddress h) (Addresses (wm_lib h) (ms_to m))) in
     (to, collect own to [] (map (bareAddress h) (Addresses (wm_lib h) (ms_cc m)))))"

(* src: internal/api/reply.go 336-348 replySubject *)
definition replySubject :: "string \<Rightarrow> string" where
  "replySubject subject =
    (let t = trim_space subject; lower = to_lower t in
     if list_ex (has_prefix lower) [''re:'', ''re'' @ wide_colon, zh_reply @ '':'', zh_reply @ wide_colon, ''aw:'', ''sv:'']
     then t
     else if t = [] then ''Re:'' else ''Re: '' @ t)"

(* src: internal/api/reply.go 34-41 replyTarget *)
record reply_target =
  rt_id :: int
  rt_subject :: string
  rt_to :: "string list"
  rt_cc :: "string list"

text \<open>The last message that is not in the folder of sent mail, else the last one.\<close>

definition target_message :: "user \<Rightarrow> message list \<Rightarrow> int \<Rightarrow> message option" where
  "target_message user messages sentFolderID =
    (let own = filter (\<lambda>m. ms_user m = us_id user) (rev messages) in
     case find (\<lambda>m. ms_folder m \<noteq> sentFolderID) own of Some m \<Rightarrow> Some m | None \<Rightarrow> (case own of [] \<Rightarrow> None | m # _ \<Rightarrow> Some m))"

(* src: internal/api/reply.go 253-284 User.replyTargetFor *)
definition replyTargetFor :: "webmail \<Rightarrow> user \<Rightarrow> message list \<Rightarrow> int \<Rightarrow> store \<Rightarrow> reply_target option \<times> store" where
  "replyTargetFor h user messages sentFolderID s = (case target_message user messages sentFolderID of
     None \<Rightarrow> (None, s)
   | Some m \<Rightarrow> (case ownAddresses user s of (own, s1) \<Rightarrow>
       (case recipientsFromMeta h own m of (to, cc) \<Rightarrow>
         (if to = [] then None
          else Some \<lparr>rt_id = ms_id m, rt_subject = replySubject (ms_subject m), rt_to = to, rt_cc = cc\<rparr>, s1))))"

section \<open>The message\<close>

(* src: internal/api/reply.go 416-426 writeBase64 *)
function base64_lines :: "string \<Rightarrow> string" where
  "base64_lines encoded =
    (if length encoded > 76 then take 76 encoded @ [CHR 0x0D, CHR 0x0A] @ base64_lines (drop 76 encoded)
     else if encoded = [] then [] else encoded @ [CHR 0x0D, CHR 0x0A])"
  by pat_completeness auto
termination by (relation "measure length") auto

declare base64_lines.simps [simp del]

definition add_id :: "string list \<Rightarrow> string \<Rightarrow> string list" where
  "add_id ids i0 = (let i = trim_set [CHR ''<'', CHR ''>'', CHR '' ''] i0 in
     if i = [] \<or> i \<in> set ids then ids else ids @ [i])"

text \<open>The last ten of the identifiers, each once.\<close>

(* src: internal/api/reply.go 393-414 replyReferences *)
definition replyReferences :: "parsed_mail \<Rightarrow> string list" where
  "replyReferences original =
    (let ids = map (\<lambda>i. ''<'' @ i @ ''>'') (foldl add_id [] (pm_refs original @ [pm_msgid original])) in
     drop (length ids - 10) ids)"

definition header_field :: "string \<Rightarrow> string \<Rightarrow> string" where
  "header_field name v = name @ '': '' @ v @ [CHR 0x0D, CHR 0x0A]"

(* src: internal/api/reply.go 350-391 buildMessage *)
definition buildMessage :: "webmail \<Rightarrow> user \<Rightarrow> string list \<Rightarrow> string list \<Rightarrow> string \<Rightarrow> string \<Rightarrow> string \<Rightarrow> string list \<Rightarrow> store \<Rightarrow>
    (string + string) \<times> store" where
  "buildMessage h user to cc subject body inReplyTo references s =
    (if us_address user = [] then (Inl ''account has no primary address'', s)
     else (case NewUUID s of
        (Inl _, s1) \<Rightarrow> (Inl [], s1)
      | (Inr uuid, s1) \<Rightarrow>
         (let from = ml_string (wm_lib h) (us_display user) (us_address user);
              trimmed = trim_set [CHR ''<'', CHR ''>'', CHR '' ''] inReplyTo in
          if from = [] then (Inl ''cannot format sender'', s1)
          else (Inr (header_field ''From'' from @ header_field ''To'' (join '', '' to) @
             (if cc = [] then [] else header_field ''Cc'' (join '', '' cc)) @
             header_field ''Subject'' (wm_qenc h subject) @ header_field ''Date'' (wm_date h (wm_now h div 10 ^ 9)) @
             header_field ''Message-ID'' (''<'' @ uuid @ ''@lifemail'' @ ''>'') @
             (if trimmed = [] then [] else header_field ''In-Reply-To'' (''<'' @ trimmed @ ''>'')) @
             (if references = [] then [] else header_field ''References'' (join '' '' references)) @
             header_field ''MIME-Version'' ''1.0'' @ header_field ''Content-Type'' ''text/plain; charset=utf-8'' @
             header_field ''Content-Transfer-Encoding'' ''base64'' @ [CHR 0x0D, CHR 0x0A] @ base64_lines (b64_encode body)), s1))))"

section \<open>Delivery\<close>

text \<open>Accounts get the mail at once; the outside addresses are left.\<close>

(* src: internal/api/reply.go 430-443 User.deliverReply *)
fun deliver_rcpts :: "webmail \<Rightarrow> parsed_mail \<Rightarrow> string \<Rightarrow> string list \<Rightarrow> store \<Rightarrow> (string + string list) \<times> store" where
  "deliver_rcpts h p raw [] s = (Inr [], s)"
| "deliver_rcpts h p raw (rcpt # rs) s = (case UserByAddress rcpt s of
     (Inr owner, s1) \<Rightarrow> (case ToUser (wm_lib h) (wm_hook h) owner FolderInbox p raw s1 of
        (Inl _, s2) \<Rightarrow> (Inl (''cannot deliver to '' @ rcpt), s2) | (Inr _, s2) \<Rightarrow> deliver_rcpts h p raw rs s2)
   | (Inl _, s1) \<Rightarrow>
       if (case wm_local h of None \<Rightarrow> False | Some isLocal \<Rightarrow> isLocal (Domain rcpt)) then (Inl (''unknown local recipient: '' @ rcpt), s1)
       else (case deliver_rcpts h p raw rs s1 of (Inl e, s2) \<Rightarrow> (Inl e, s2) | (Inr ext, s2) \<Rightarrow> (Inr (rcpt # ext), s2)))"

text \<open>Whether the mail waits in the queue, or an error.\<close>

(* src: internal/api/reply.go 428-466 User.deliverReply *)
definition deliverReply :: "webmail \<Rightarrow> user \<Rightarrow> parsed_mail \<Rightarrow> string \<Rightarrow> string list \<Rightarrow> store \<Rightarrow> send_log \<Rightarrow>
    (string + bool) \<times> store \<times> send_log" where
  "deliverReply h user p raw rcpts s log = (case deliver_rcpts h p raw rcpts s of
     (Inl e, s1) \<Rightarrow> (Inl e, s1, log)
   | (Inr external, s1) \<Rightarrow>
       if external = [] then (Inr False, s1, log)
       else if \<not> Enabled (wm_sender h) then (Inl ''outbound SMTP is not configured'', s1, log)
       else (case send_or_queue (wm_sender h) (wm_peer h) (us_address user) external raw s1 log of
          (False, s2, log') \<Rightarrow> (Inl ''cannot queue outbound mail'', s2, log')
        | (True, s2, log') \<Rightarrow> (Inr (fst (SmtpSend (wm_sender h) None (wm_peer h (length log)) (us_address user) external raw) \<noteq> None), s2, log')))"

(* src: internal/api/reply.go 228-230 maxReplyRecipients *)
definition maxReplyRecipients :: nat where
  "maxReplyRecipients = 50"

text \<open>A copy goes to the sent mail, then the mail is delivered: the number of the copy and whether the mail is queued, or
  an answer.\<close>

(* src: internal/api/reply.go 129-150 User.reply *)
definition file_and_deliver :: "webmail \<Rightarrow> string \<Rightarrow> user \<Rightarrow> string \<Rightarrow> string list \<Rightarrow> store \<Rightarrow> send_log \<Rightarrow>
    ((int \<times> string) + int \<times> bool) \<times> store \<times> send_log" where
  "file_and_deliver h what user out rcpts s log = (case fst (Parse (wm_lib h) (wm_reader h out)) of
     None \<Rightarrow> (Inl (500, ''cannot parse '' @ what), s, log)
   | Some sent \<Rightarrow> (case ToUser (wm_lib h) (wm_hook h) user FolderSent sent out s of
        (Inl _, s1) \<Rightarrow> (Inl (500, ''cannot store sent '' @ what), s1, log)
      | (Inr sentID, s1) \<Rightarrow> (case deliverReply h user sent out rcpts s1 log of
           (Inl e, s2, log') \<Rightarrow> (Inl (502, e), s2, log')
         | (Inr queued, s2, log') \<Rightarrow> (Inr (sentID, queued), s2, log'))))"

section \<open>Replies\<close>

(* src: internal/api/reply.go 20-32 replyInput *)
record reply_input =
  ri_id :: int
  ri_subject :: string
  ri_body :: string
  ri_all :: bool
  ri_to :: "string list"
  ri_cc :: "string list"

record sent_payload =
  sp_queued :: bool
  sp_message :: "message_view option"
  sp_target :: "reply_target option"

text \<open>The mail that is answered: its row and its source, parsed.\<close>

(* src: internal/api/reply.go 65-89 User.reply *)
definition original_mail :: "webmail \<Rightarrow> user \<Rightarrow> int \<Rightarrow> store \<Rightarrow> ((int \<times> string) + message \<times> parsed_mail) \<times> store" where
  "original_mail h user i s = (case MessageMetaByID i s of
     (Inl _, s1) \<Rightarrow> (Inl (404, ''message not found''), s1)
   | (Inr m, s1) \<Rightarrow>
      if ms_user m \<noteq> us_id user \<or> ms_deleted m then (Inl (404, ''message not found''), s1)
      else (case LoadRaw (Some m) s1 of
         (Inl _, s2) \<Rightarrow> (Inl (500, ''cannot read original message''), s2)
       | (Inr m', s2) \<Rightarrow> (case fst (Parse (wm_lib h) (wm_reader h (ms_raw m'))) of
            None \<Rightarrow> (Inl (422, ''cannot parse original message''), s2)
          | Some p \<Rightarrow> (Inr (m, if trim_space (pm_msgid p) = []
               then p\<lparr>pm_msgid := trim_set [CHR ''<'', CHR ''>'', CHR '' ''] (ms_msgid m)\<rparr> else p), s2))))"

(* src: internal/api/reply.go 91-102 User.reply *)
definition reply_to :: "webmail \<Rightarrow> user \<Rightarrow> reply_input \<Rightarrow> message \<Rightarrow> parsed_mail \<Rightarrow> store \<Rightarrow>
    ((int \<times> string) + string list \<times> string list) \<times> store" where
  "reply_to h user r m p s = (case ownAddresses user s of (own, s1) \<Rightarrow>
     if ri_to r = [] \<and> ri_cc r = [] then
       (case replyRecipients h own p m (ri_all r) of (to, cc) \<Rightarrow>
         (if to = [] then Inl (400, ''original message has no reply address'') else Inr (to, cc), s1))
     else (case ownAddresses user s1 of (own2, s2) \<Rightarrow>
       (case explicitRecipients h own2 (ri_to r) (ri_cc r) of (to, cc) \<Rightarrow>
         (if to = [] then Inl (400, ''no recipient left after removing your own address'') else Inr (to, cc), s2))))"

(* src: internal/api/reply.go 104-113 User.reply *)
definition recipients_error :: "string list \<Rightarrow> (int \<times> string) option" where
  "recipients_error rcpts =
    (if length rcpts > maxReplyRecipients then Some (400, ''too many recipients'')
     else map_option (\<lambda>a. (400, ''invalid recipient: '' @ a)) (find (\<lambda>a. \<not> contains_byte a CHR ''@'') rcpts))"

(* src: internal/api/reply.go 114-120 User.reply *)
definition reply_subject_of :: "reply_input \<Rightarrow> message \<Rightarrow> parsed_mail \<Rightarrow> string" where
  "reply_subject_of r m p =
    (if trim_space (ri_subject r) \<noteq> [] then trim_space (ri_subject r)
     else if trim_space (replySubject (pm_subject p)) = ''Re:'' then replySubject (ms_subject m)
     else replySubject (pm_subject p))"

(* src: internal/api/reply.go 158-183 User.sentReplyPayload *)
definition sentReplyPayload :: "webmail \<Rightarrow> user \<Rightarrow> int \<Rightarrow> bool \<Rightarrow> store \<Rightarrow> sent_payload \<times> store" where
  "sentReplyPayload h user i queued s =
    (let plain = \<lparr>sp_queued = queued, sp_message = None, sp_target = None\<rparr> in
     case MessageMetaByID i s of
       (Inl _, s1) \<Rightarrow> (plain, s1)
     | (Inr m, s1) \<Rightarrow> (case messageView m s1 of
          (Inl _, s2) \<Rightarrow> (plain, s2)
        | (Inr v, s2) \<Rightarrow> (case replyTargetFor h user [m] (ms_folder m) s2 of (t, s3) \<Rightarrow>
            (plain\<lparr>sp_message := Some v, sp_target := t\<rparr>, s3))))"

type_synonym webmail_world = "store \<times> send_log"

text \<open>An input that passed the guards.\<close>

(* src: internal/api/reply.go 61-156 User.reply *)
definition send_reply :: "webmail \<Rightarrow> user \<Rightarrow> reply_input \<Rightarrow> webmail_world \<Rightarrow> sent_payload api_answer \<times> webmail_world" where
  "send_reply h user r w = (case w of (s, log) \<Rightarrow>
     if trim_space (ri_body r) = [] then (api_error 400 ''reply body is empty'', s, log)
     else (case original_mail h user (ri_id r) s of
        (Inl (c, e), s1) \<Rightarrow> (api_error c e, s1, log)
      | (Inr (m, p), s1) \<Rightarrow> (case reply_to h user r m p s1 of
           (Inl (c, e), s2) \<Rightarrow> (api_error c e, s2, log)
         | (Inr (to, cc), s2) \<Rightarrow> (case recipients_error (to @ cc) of
              Some (c, e) \<Rightarrow> (api_error c e, s2, log)
            | None \<Rightarrow> (case buildMessage h user to cc (reply_subject_of r m p) (ri_body r) (pm_msgid p) (replyReferences p) s2 of
                 (Inl _, s3) \<Rightarrow> (api_error 500 ''cannot build reply'', s3, log)
               | (Inr out, s3) \<Rightarrow> (case file_and_deliver h ''reply'' user out (to @ cc) s3 log of
                    (Inl (c, e), s4, log') \<Rightarrow> (api_error c e, s4, log')
                  | (Inr (i, queued), s4, log') \<Rightarrow> (case sentReplyPayload h user i queued s4 of (v, s5) \<Rightarrow>
                       (api_json 200 v, s5, log'))))))))"

text \<open>The guards of both handlers.\<close>

(* src: internal/api/reply.go 43-60 User.reply *)
definition sending_guard :: "webmail \<Rightarrow> user \<Rightarrow> (string \<Rightarrow> string + 'j) \<Rightarrow> web_request \<Rightarrow> 'a api_answer + 'j" where
  "sending_guard h user decode req =
    (if wr_method req \<noteq> ''POST'' then Inl (not_allowed ''POST'')
     else (case mutable_guard (wm_web h) req of
        Some a \<Rightarrow> Inl a
      | None \<Rightarrow> if us_address user = [] then Inl (api_error 400 ''account has no primary address'') else decodeJSON decode req))"

(* src: internal/api/reply.go 43-156 User.reply *)
definition web_reply :: "webmail \<Rightarrow> (string \<Rightarrow> string + reply_input) \<Rightarrow> user \<Rightarrow> web_request \<Rightarrow> webmail_world \<Rightarrow>
    sent_payload api_answer \<times> webmail_world" where
  "web_reply h decode user req w = (case sending_guard h user decode req of Inl a \<Rightarrow> (a, w) | Inr r \<Rightarrow> send_reply h user r w)"

section \<open>New mails\<close>

(* src: internal/api/compose.go 12-19 composeInput *)
record compose_input =
  ci_to :: "string list"
  ci_cc :: "string list"
  ci_bcc :: "string list"
  ci_subject :: string
  ci_body :: string

(* src: internal/api/compose.go 61-72 User.send *)
fun unique_rcpts :: "string list \<Rightarrow> string list \<Rightarrow> string + string list" where
  "unique_rcpts out [] = Inr out"
| "unique_rcpts out (a # as) =
    (if \<not> contains_byte a CHR ''@'' then Inl (''invalid recipient: '' @ a)
     else unique_rcpts (if containsFold out a then out else out @ [a]) as)"

(* src: internal/api/compose.go 43-109 User.send *)
definition send_new :: "webmail \<Rightarrow> user \<Rightarrow> compose_input \<Rightarrow> webmail_world \<Rightarrow> bool api_answer \<times> webmail_world" where
  "send_new h user r w = (case w of (s, log) \<Rightarrow>
     let body = trim_space (ci_body r); subject = take 500 (trim_space (ci_subject r)) in
     if body = [] then (api_error 400 ''message body is empty'', s, log)
     else (case ownAddresses user s of (own, s1) \<Rightarrow>
       (case explicitRecipients h own (ci_to r) (ci_cc r) of (to, cc) \<Rightarrow>
       (case ownAddresses user s1 of (own2, s2) \<Rightarrow>
         (let bcc = fst (explicitRecipients h own2 (ci_bcc r) []) in
          if to = [] then (api_error 400 ''no recipient left after removing your own address'', s2, log)
          else (case unique_rcpts [] (to @ cc @ bcc) of
             Inl e \<Rightarrow> (api_error 400 e, s2, log)
           | Inr rcpts \<Rightarrow>
              if length rcpts > maxReplyRecipients then (api_error 400 ''too many recipients'', s2, log)
              else (case buildMessage h user to cc subject body [] [] s2 of
                 (Inl _, s3) \<Rightarrow> (api_error 500 ''cannot build message'', s3, log)
               | (Inr out, s3) \<Rightarrow> (case file_and_deliver h ''message'' user out rcpts s3 log of
                    (Inl (c, e), s4, log') \<Rightarrow> (api_error c e, s4, log')
                  | (Inr (_, queued), s4, log') \<Rightarrow> (api_json 200 queued, s4, log')))))))))"

(* src: internal/api/compose.go 25-109 User.send *)
definition web_send :: "webmail \<Rightarrow> (string \<Rightarrow> string + compose_input) \<Rightarrow> user \<Rightarrow> web_request \<Rightarrow> webmail_world \<Rightarrow>
    bool api_answer \<times> webmail_world" where
  "web_send h decode user req w = (case sending_guard h user decode req of Inl a \<Rightarrow> (a, w) | Inr r \<Rightarrow> send_new h user r w)"

section \<open>Who gets a mail\<close>

lemma deliver_rcpts_covers:
  assumes "deliver_rcpts h p raw rs s = (Inr ext, s')" "store_ok s" "good_hook (wm_hook h)"
  shows "mail_grows s s' \<and> set ext \<subseteq> set rs \<and>
    (\<forall>r\<in>set rs. r \<in> set ext \<or> (\<exists>u. account_of (st_db s) r = Some u \<and> has_mail (us_id u) (pm_msgid p) s'))"
  using assms
proof (induction rs arbitrary: s ext)
  case (Cons r rs)
  note hook = \<open>good_hook (wm_hook h)\<close>
  obtain q s1 where q: "UserByAddress r s = (q, s1)" by (cases "UserByAddress r s")
  note g1 = mail_grows_UserByAddress [OF q]
  show ?case
  proof (cases q)
    case (Inl e)
    then obtain ext1 where e: "deliver_rcpts h p raw rs s1 = (Inr ext1, s')" "ext = r # ext1"
      using Cons.prems(1) q by (auto split: option.splits if_splits sum.splits prod.splits)
    have "store_ok s1" using g1 Cons.prems(2) by (simp add: mail_grows_def)
    from Cons.IH [OF e(1) this hook] show ?thesis using e(2) mail_grows_trans [OF g1] mail_grows_account [OF g1] by auto
  next
    case (Inr u)
    then have acc: "account_of (st_db s) r = Some u" using UserByAddress_Inr q by blast
    obtain d s2 where d: "ToUser (wm_lib h) (wm_hook h) u FolderInbox p raw s1 = (d, s2)"
      by (cases "ToUser (wm_lib h) (wm_hook h) u FolderInbox p raw s1")
    then obtain i where i: "d = Inr i" and step: "deliver_rcpts h p raw rs s2 = (Inr ext, s')"
      using Cons.prems(1) q Inr by (cases d) simp_all
    have ok1: "store_ok s1" using g1 Cons.prems(2) by (simp add: mail_grows_def)
    have m: "has_mail (us_id u) (pm_msgid p) s2"
      using ToUser_has_mail [OF ok1 d [unfolded i]] hook by (simp add: good_hook_def)
    note g2 = mail_grows_trans [OF g1 mail_grows_ToUser [OF hook d]]
    have "store_ok s2" using g2 Cons.prems(2) by (simp add: mail_grows_def)
    from Cons.IH [OF step this hook] have ih: "mail_grows s2 s'" "set ext \<subseteq> set rs"
      "\<forall>r\<in>set rs. r \<in> set ext \<or> (\<exists>u. account_of (st_db s) r = Some u \<and> has_mail (us_id u) (pm_msgid p) s')"
      using mail_grows_account [OF g2] by auto
    have "has_mail (us_id u) (pm_msgid p) s'" using m ih(1) unfolding mail_grows_def by blast
    then show ?thesis using ih acc mail_grows_trans [OF g2 ih(1)] by auto
  qed
qed simp

text \<open>Where a mail that was filed and delivered is.\<close>

definition mail_placed :: "user \<Rightarrow> string list \<Rightarrow> string \<Rightarrow> parsed_mail \<Rightarrow> store \<Rightarrow> send_log \<Rightarrow> store \<Rightarrow> send_log \<Rightarrow> bool" where
  "mail_placed user rcpts out p s log s' log' \<longleftrightarrow> has_mail (us_id user) (pm_msgid p) s' \<and>
     (\<exists>external. set external \<subseteq> set rcpts \<and>
        (\<forall>a\<in>set rcpts. a \<in> set external \<or> (\<exists>u. account_of (st_db s) a = Some u \<and> has_mail (us_id u) (pm_msgid p) s')) \<and>
        (external = [] \<and> log' = log \<or> handed_over (us_address user) external out log log' s'))"

lemma file_and_deliver_placed:
  assumes "file_and_deliver h what user out rcpts s log = (Inr (i, queued), s', log')" "store_ok s" "good_hook (wm_hook h)"
  shows "\<exists>p. fst (Parse (wm_lib h) (wm_reader h out)) = Some p \<and> mail_placed user rcpts out p s log s' log'"
proof -
  obtain p where p: "fst (Parse (wm_lib h) (wm_reader h out)) = Some p"
    using assms(1) by (auto simp: file_and_deliver_def split: option.splits)
  obtain d s1 where d: "ToUser (wm_lib h) (wm_hook h) user FolderSent p out s = (d, s1)"
    by (cases "ToUser (wm_lib h) (wm_hook h) user FolderSent p out s")
  obtain x s2 log2 where x: "deliverReply h user p out rcpts s1 log = (x, s2, log2)" by (metis prod.collapse)
  have r: "d = Inr i" "x = Inr queued" "s' = s2" "log' = log2"
    using assms(1) p d x by (auto simp: file_and_deliver_def split: sum.splits)
  note g1 = mail_grows_ToUser [OF assms(3) d]
  have ok1: "store_ok s1" using g1 assms(2) by (simp add: mail_grows_def)
  have m1: "has_mail (us_id user) (pm_msgid p) s1"
    using ToUser_has_mail [OF assms(2) d [unfolded r(1)]] assms(3) by (simp add: good_hook_def)
  obtain y s3 where y: "deliver_rcpts h p out rcpts s1 = (y, s3)" by (cases "deliver_rcpts h p out rcpts s1")
  then obtain ext where ext: "y = Inr ext" using x r(2) by (cases y) (auto simp: deliverReply_def)
  note cov = deliver_rcpts_covers [OF y [unfolded ext] ok1 assms(3)]
  have rest: "mail_grows s3 s' \<and> (ext = [] \<and> log' = log \<or> handed_over (us_address user) ext out log log' s')"
  proof (cases "ext = []")
    case True
    then show ?thesis using x r y ext by (auto simp: deliverReply_def)
  next
    case False
    obtain b s4 log4 where b: "send_or_queue (wm_sender h) (wm_peer h) (us_address user) ext out s3 log = (b, s4, log4)" by (metis prod.collapse)
    have bt: "b" using x r(2) y ext b False by (cases b) (simp_all add: deliverReply_def split: if_splits)
    have "s' = s4" "log' = log4" using x r(2,3,4) y ext b False bt by (simp_all add: deliverReply_def split: if_splits)
    then show ?thesis using mail_grows_handover [OF b] send_or_queue_True [OF b [unfolded eqTrueI [OF bt]]] by simp
  qed
  have g: "mail_grows s1 s'" using mail_grows_trans cov rest by blast
  have k: "has_mail u m s1 \<Longrightarrow> has_mail u m s'" "has_mail u m s3 \<Longrightarrow> has_mail u m s'" for u m
    using g rest unfolding mail_grows_def by blast+
  have a: "a \<in> set ext \<or> (\<exists>u. account_of (st_db s) a = Some u \<and> has_mail (us_id u) (pm_msgid p) s')" if "a \<in> set rcpts" for a
    using that cov k(2) mail_grows_account [OF g1] by metis
  have "mail_placed user rcpts out p s log s' log'"
    unfolding mail_placed_def
  proof (intro conjI exI [of _ ext] ballI)
    show "has_mail (us_id user) (pm_msgid p) s'" using k(1) m1 .
    show "set ext \<subseteq> set rcpts" using cov by blast
    show "ext = [] \<and> log' = log \<or> handed_over (us_address user) ext out log log' s'" using rest by blast
  qed (rule a)
  then show ?thesis using p by blast
qed

lemma file_and_deliver_error:
  "file_and_deliver h what user out rcpts s log = (Inl (c, e), s', log') \<Longrightarrow> c = 500 \<or> c = 502"
  unfolding file_and_deliver_def by (simp split: option.splits sum.splits prod.splits; auto)

section \<open>Recipients\<close>

lemma collect_ok:
  "distinct (map to_lower out) \<Longrightarrow> (\<forall>a\<in>set out. a \<noteq> [] \<and> to_lower a \<notin> set own) \<Longrightarrow>
   distinct (map to_lower (collect own others out as)) \<and> (\<forall>a\<in>set (collect own others out as). a \<noteq> [] \<and> to_lower a \<notin> set own)"
proof (induction own others out as rule: collect.induct)
  case (2 own others out a as)
  show ?case
  proof (cases "a = [] \<or> to_lower a \<in> set own \<or> containsFold out a \<or> containsFold others a")
    case True
    then have e: "collect own others out (a # as) = collect own others out as" by simp
    from 2(1) [OF True 2(3,4)] show ?thesis unfolding e .
  next
    case False
    then have "distinct (map to_lower (out @ [a]))" "\<forall>b\<in>set (out @ [a]). b \<noteq> [] \<and> to_lower b \<notin> set own"
      using 2(3,4) by (auto simp: containsFold_def list_ex_iff equal_fold_def)
    note ih = 2(2) [OF False this]
    have e: "collect own others out (a # as) = collect own others (out @ [a]) as" using False by simp
    from ih show ?thesis unfolding e .
  qed
qed simp

lemma unique_rcpts_ok:
  "unique_rcpts out as = Inr rs \<Longrightarrow> distinct (map to_lower out) \<Longrightarrow>
   distinct (map to_lower rs) \<and> set rs \<subseteq> set out \<union> set as \<and> (\<forall>a\<in>set as. \<exists>b\<in>set rs. equal_fold b a) \<and> set out \<subseteq> set rs \<and>
   (\<forall>a\<in>set as. contains_byte a CHR ''@'')"
proof (induction out as arbitrary: rs rule: unique_rcpts.induct)
  case (2 out a as)
  have a: "contains_byte a CHR ''@''" using 2(2) by (auto split: if_splits)
  let ?out = "if containsFold out a then out else out @ [a]"
  have "distinct (map to_lower ?out)"
    using 2(3) by (cases "containsFold out a") (auto simp: containsFold_def list_ex_iff equal_fold_def)
  moreover have "unique_rcpts ?out as = Inr rs" using 2(2) a by simp
  ultimately have ih: "distinct (map to_lower rs)" "set rs \<subseteq> set ?out \<union> set as" "\<forall>a\<in>set as. \<exists>b\<in>set rs. equal_fold b a"
    "set ?out \<subseteq> set rs" "\<forall>a\<in>set as. contains_byte a CHR ''@''"
    using 2(1) a by blast+
  have op: "set ?out \<subseteq> insert a (set out)" "set out \<subseteq> set ?out" by (cases "containsFold out a"; auto)+
  have "\<exists>b\<in>set ?out. equal_fold b a"
    by (cases "containsFold out a") (auto simp: containsFold_def list_ex_iff equal_fold_def)
  then have e: "\<exists>b\<in>set rs. equal_fold b a" using ih(4) by blast
  have "set rs \<subseteq> set out \<union> set (a # as)" "set out \<subseteq> set rs" using ih(2,4) op by auto
  then show ?case using ih(1,3,5) a e by simp
qed simp

lemma ownAddresses_spec: "ownAddresses user s = (own, s1) \<Longrightarrow>
    st_db s1 = st_db s \<and> (us_address user \<noteq> [] \<longrightarrow> to_lower (us_address user) \<in> set own)"
  by (auto simp: ownAddresses_def Let_def AliasesByUser_def getAll_def sql_def split: if_splits)

lemma explicit_ok:
  "explicitRecipients h own ts cs = (to, cc) \<Longrightarrow> \<forall>a\<in>set to \<union> set cc. a \<noteq> [] \<and> to_lower a \<notin> set own"
  using collect_ok [of "[]" own "[]" "map (bareAddress h) ts"] collect_ok [of "[]" own to "map (bareAddress h) cs"]
  unfolding explicitRecipients_def Let_def prod.inject ball_Un by (metis empty_iff list.set(1) list.map(1) distinct.simps(1))

lemma buildMessage_db: "st_db (snd (buildMessage h user to cc subject body i refs s)) = st_db s"
  by (simp add: buildMessage_def NewUUID_def Let_def)

text \<open>C25: a new mail of the webmail is sent completely or answered with an error. On 200 it has at least one and at most
  fifty recipients, each once and none the own address; a copy is among the mails of the account; every recipient is
  an account that has the mail or is on the one envelope that the relay has accepted, or on a row of the queue with
  the source behind it.\<close>

theorem webmail_mail_is_kept:
  assumes "store_ok s" "good_hook (wm_hook h)" "web_send h decode user req (s, log) = (answer, s', log')" "aa_status answer = 200"
  shows "\<exists>input rcpts out p. sending_guard h user decode req = (Inr input :: bool api_answer + compose_input) \<and>
    rcpts \<noteq> [] \<and> length rcpts \<le> 50 \<and> distinct (map to_lower rcpts) \<and>
    (\<forall>a\<in>set rcpts. contains_byte a CHR ''@'' \<and> to_lower a \<noteq> to_lower (us_address user)) \<and>
    fst (Parse (wm_lib h) (wm_reader h out)) = Some p \<and> mail_placed user rcpts out p s log s' log'"
proof -
  have bad: "aa_status (api_error c e :: bool api_answer) = c" for c e by (simp add: api_error_def)
  have no: "aa_status a \<noteq> 200" if "sending_guard h user decode req = Inl a" for a :: "bool api_answer"
    using that by (auto simp: sending_guard_def mutable_guard_def decodeJSON_def not_allowed_def api_error_def
        split: if_splits option.splits sum.splits)
  then obtain input where i: "sending_guard h user decode req = (Inr input :: bool api_answer + compose_input)"
    "send_new h user input (s, log) = (answer, s', log')"
    using assms(3,4) by (cases "sending_guard h user decode req :: bool api_answer + compose_input") (auto simp: web_send_def)
  have addr: "us_address user \<noteq> []" using i(1) by (auto simp: sending_guard_def split: if_splits option.splits)
  obtain own s1 where o1: "ownAddresses user s = (own, s1)" by (cases "ownAddresses user s")
  obtain own2 s2 where o2: "ownAddresses user s1 = (own2, s2)" by (cases "ownAddresses user s1")
  obtain to cc where tc: "explicitRecipients h own (ci_to input) (ci_cc input) = (to, cc)"
    by (cases "explicitRecipients h own (ci_to input) (ci_cc input)")
  obtain bcc bc2 where bc: "explicitRecipients h own2 (ci_bcc input) [] = (bcc, bc2)"
    by (cases "explicitRecipients h own2 (ci_bcc input) []")
  have t: "to \<noteq> []" and u: "\<exists>rcpts. unique_rcpts [] (to @ cc @ bcc) = Inr rcpts"
    using i(2) assms(4) bad o1 o2 tc bc by (auto simp: send_new_def Let_def split: if_splits sum.splits)
  then obtain rcpts where u: "unique_rcpts [] (to @ cc @ bcc) = Inr rcpts" by blast
  let ?subject = "take 500 (trim_space (ci_subject input))" and ?body = "trim_space (ci_body input)"
  obtain m s3 where m: "buildMessage h user to cc ?subject ?body [] [] s2 = (m, s3)" by (cases "buildMessage h user to cc ?subject ?body [] [] s2")
  have l: "length rcpts \<le> 50" and mo: "\<exists>out. m = Inr out"
    using i(2) assms(4) bad o1 o2 tc bc t u m by (auto simp: send_new_def Let_def maxReplyRecipients_def split: if_splits sum.splits)
  then obtain out where out: "m = Inr out" by blast
  obtain z s4 log4 where z: "file_and_deliver h ''message'' user out rcpts s3 log = (z, s4, log4)" by (metis prod.collapse)
  have "\<exists>j queued. z = Inr (j, queued) \<and> s' = s4 \<and> log' = log4"
  proof (cases z)
    case (Inl ce)
    then have "fst ce \<noteq> 200" using Inl file_and_deliver_error [of h "''message''" user out rcpts s3 log "fst ce" "snd ce" s4 log4] z by auto
    then show ?thesis using i(2) assms(4) bad o1 o2 tc bc t u m out z Inl l
      by (cases ce) (auto simp: send_new_def Let_def maxReplyRecipients_def split: if_splits)
  next
    case (Inr jq)
    then show ?thesis using i(2) assms(4) bad o1 o2 tc bc t u m out z l
      by (cases jq) (auto simp: send_new_def Let_def maxReplyRecipients_def split: if_splits)
  qed
  then obtain j queued where z: "file_and_deliver h ''message'' user out rcpts s3 log = (Inr (j, queued), s', log')" using z by blast
  have db: "st_db s3 = st_db s"
    using buildMessage_db [of h user to cc ?subject ?body "[]" "[]" s2] m ownAddresses_spec [OF o1] ownAddresses_spec [OF o2] by simp
  have "store_ok s3" using db assms(1) by (simp add: store_ok_def)
  from file_and_deliver_placed [OF z this assms(2)] obtain p where
    p: "fst (Parse (wm_lib h) (wm_reader h out)) = Some p" "mail_placed user rcpts out p s log s' log'"
    by (auto simp: mail_placed_def db)
  note un = unique_rcpts_ok [OF u]
  have "to_lower a \<noteq> to_lower (us_address user)" if "a \<in> set rcpts" for a
  proof -
    have "a \<in> set to \<union> set cc \<or> a \<in> set bcc \<union> set bc2" using that un by auto
    then have "to_lower a \<notin> set own \<or> to_lower a \<notin> set own2" using explicit_ok [OF tc] explicit_ok [OF bc] by blast
    moreover have "to_lower (us_address user) \<in> set own" "to_lower (us_address user) \<in> set own2"
      using ownAddresses_spec [OF o1] ownAddresses_spec [OF o2] addr by blast+
    ultimately show ?thesis by metis
  qed
  moreover have "rcpts \<noteq> []" using un t by (cases to) auto
  ultimately show ?thesis using i(1) l un p by (intro exI [of _ input] exI [of _ rcpts] exI [of _ out] exI [of _ p]) auto
qed

section \<open>Example\<close>

definition demo_webmail :: webmail where
  "demo_webmail = \<lparr>wm_web = demo_web_lib, wm_lib = demo_lib, wm_reader = (\<lambda>_. Some (demo_reader (\<lambda>k. if k = ''Message-Id'' then ''<m>'' else []))),
     wm_hook = None, wm_sender = demo_sender, wm_peer = (\<lambda>_. demo_peer), wm_local = None, wm_parse = (\<lambda>_. None), wm_qenc = (\<lambda>s. s),
     wm_date = (\<lambda>_. []), wm_now = 0\<rparr>"

definition demo_compose :: compose_input where
  "demo_compose = \<lparr>ci_to = [''out@y''], ci_cc = [''u@x'', ''OUT@y''], ci_bcc = [], ci_subject = ''s'', ci_body = ''b''\<rparr>"

definition web_post :: web_request where
  "web_post = (web_get ''/api/send'' Map.empty)\<lparr>wr_method := ''POST'', wr_body := Some ''json''\<rparr>"

definition web_account :: user where
  "web_account = demo_user\<lparr>us_address := ''u@x''\<rparr>"

definition web_store :: store where
  "web_store = demo_store\<lparr>st_db := demo_db\<lparr>tb_folders := tb_folders demo_db @ [demo_folder 3 ''Sent'' FolderSent 3], sq_folders := 3,
     tb_users := [demo_user\<lparr>us_folder_seq := 3\<rparr>]\<rparr>\<rparr>"

lemma web_store_ok: "store_ok web_store"
  by (simp add: web_store_def store_ok_def db_ok_def db_parts demo_defs ids_ok_def refs_ok_def folder_key_def
      uuid_rows_def primary_rows_def state_key_def FolderSent_def)

lemma demo_compose_status: "aa_status (fst (send_new demo_webmail web_account demo_compose (web_store, []))) = 200"
  by code_simp

lemma web_post_guard: "sending_guard demo_webmail web_account (\<lambda>_. Inr demo_compose) web_post = Inr demo_compose"
  by (simp add: sending_guard_def web_post_def web_get_def mutable_guard_def sameOrigin_def to_lower_def trim_space_def trim_left_def trim_right_def web_account_def
      decodeJSON_def)

theorem webmail_mail_is_kept_witness:
  "\<exists>answer s' log' rcpts out p.
     web_send demo_webmail (\<lambda>_. Inr demo_compose) web_account web_post (web_store, []) = (answer, s', log') \<and> aa_status answer = 200 \<and>
     rcpts \<noteq> [] \<and> mail_placed web_account rcpts out p web_store [] s' log'"
proof -
  let ?r = "web_send demo_webmail (\<lambda>_. Inr demo_compose) web_account web_post (web_store, [])"
  have r: "?r = (fst ?r, fst (snd ?r), snd (snd ?r))" by simp
  have st: "aa_status (fst ?r) = 200" using demo_compose_status by (simp add: web_send_def web_post_guard)
  have g: "good_hook (wm_hook demo_webmail)" by (simp add: demo_webmail_def good_hook_None)
  from webmail_mail_is_kept [OF web_store_ok g r st] show ?thesis using r st by blast
qed

end
