(* ===== verification/ApiMail.thy ===== *)
theory ApiMail imports ApiReply EasRoundtrip begin

text \<open>
  \<open>internal/api/user.go\<close>: the handlers of the webmail that read mail: folders, conversations, threads, search, messages
  and attachments. An answer holds the value that is rendered as JSON. Logging is not modelled.
\<close>

text \<open>An operation whose failure is an answer.\<close>

definition or_answer :: "(store, 'a) op \<Rightarrow> int \<Rightarrow> string \<Rightarrow> ('a \<Rightarrow> store \<Rightarrow> 'b api_answer \<times> store) \<Rightarrow> store \<Rightarrow> 'b api_answer \<times> store" where
  "or_answer m code e k s = (case m s of (Inl _, s') \<Rightarrow> (api_error code e, s') | (Inr x, s') \<Rightarrow> k x s')"

section \<open>Keys of conversations\<close>

text \<open>\<open>base64.RawURLEncoding\<close>: the alphabet with \<open>-\<close> and \<open>_\<close>, without padding.\<close>

definition url_char :: "char \<Rightarrow> char" where
  "url_char c = (if c = CHR ''+'' then CHR ''-'' else if c = CHR ''/'' then CHR ''_'' else c)"

definition std_char :: "char \<Rightarrow> char" where
  "std_char c = (if c = CHR ''-'' then CHR ''+'' else if c = CHR ''_'' then CHR ''/'' else c)"

definition raw_url_encode :: "string \<Rightarrow> string" where
  "raw_url_encode s = map url_char (filter (\<lambda>c. c \<noteq> CHR ''='') (b64_encode s))"

definition raw_url_decode :: "string \<Rightarrow> string option" where
  "raw_url_decode s =
    (let v = filter (\<lambda>c. c \<noteq> CHR 0x0D \<and> c \<noteq> CHR 0x0A) s in
     if contains_any v ''+/='' then None
     else b64_groups (map std_char v @ (if length v mod 4 = 2 then ''=='' else if length v mod 4 = 3 then ''='' else [])))"

(* src: internal/api/user.go 1442-1444 encodeKey *)
definition encodeKey :: "string \<Rightarrow> string" where
  "encodeKey key = raw_url_encode key"

(* src: internal/api/user.go 1446-1459 decodeKey *)
definition decodeKey :: "string \<Rightarrow> string option" where
  "decodeKey v = (if v = [] then None else (case raw_url_decode v of None \<Rightarrow> None | Some key \<Rightarrow> if key = [] then None else Some key))"

section \<open>Folders and conversations\<close>

(* src: internal/api/user.go 291-298 User.mailFolders *)
record mail_folder_view =
  mf_id :: int
  mf_parent :: int
  mf_name :: string
  mf_type :: int
  mf_unread :: nat
  mf_total :: nat

definition count_of :: "folder_count list \<Rightarrow> int \<Rightarrow> nat \<times> nat" where
  "count_of counts i = (case filter (\<lambda>c. fc_folder c = i) (rev counts) of [] \<Rightarrow> (0, 0) | c # _ \<Rightarrow> (fc_unread c, fc_total c))"

(* src: internal/api/user.go 269-311 User.mailFolders *)
definition web_mailFolders :: "user \<Rightarrow> web_request \<Rightarrow> store \<Rightarrow> mail_folder_view list api_answer \<times> store" where
  "web_mailFolders user r s =
    (if wr_method r \<noteq> ''GET'' then (not_allowed ''GET'', s)
     else or_answer (FoldersByUser (us_id user)) 500 ''cannot list folders'' (\<lambda>folders.
       or_answer (FolderCounts (us_id user)) 500 ''cannot count folder messages'' (\<lambda>counts s2.
         (api_json 200 (map (\<lambda>f. \<lparr>mf_id = fo_id f, mf_parent = fo_parent f, mf_name = fo_name f, mf_type = fo_type f,
              mf_unread = fst (count_of counts (fo_id f)), mf_total = snd (count_of counts (fo_id f))\<rparr>)
            (filter (\<lambda>f. \<not> fo_deleted f \<and> fo_class f = ''Email'') folders)), s2))) s)"

(* src: internal/api/user.go 313-332 User.resolveFolder *)
definition resolveFolder :: "web_request \<Rightarrow> user \<Rightarrow> (store, folder) op" where
  "resolveFolder r user =
    (let v = wr_query r ''folder''; (i, ok) = parse_int64 v in
     if v = [] then FolderByType (us_id user) 2
     else if \<not> ok \<or> i \<le> 0 then failE ErrNotFound
     else bindE (FolderByID i) (\<lambda>f.
       if fo_user f \<noteq> us_id user \<or> fo_deleted f \<or> fo_class f \<noteq> ''Email'' then failE ErrNotFound else okE f))"

(* src: internal/api/user.go 352-367 User.conversations *)
record conversation_view =
  vc_key :: string
  vc_subject :: string
  vc_from_name :: string
  vc_from_addr :: string
  vc_to :: string
  vc_last :: int
  vc_count :: nat
  vc_unread :: nat
  vc_has_att :: bool
  vc_preview :: string
  vc_latest :: int

(* src: internal/api/user.go 369-382 User.conversations *)
definition conversation_view_of :: "conversation \<Rightarrow> conversation_view" where
  "conversation_view_of c = \<lparr>vc_key = encodeKey (cv_key c), vc_subject = cv_subject c, vc_from_name = cv_from_name c,
     vc_from_addr = cv_from_addr c, vc_to = cv_to c, vc_last = cv_last c, vc_count = cv_count c, vc_unread = cv_unread c,
     vc_has_att = cv_has_att c, vc_preview = cv_preview c, vc_latest = cv_latest c\<rparr>"

(* src: internal/api/user.go 334-384 User.conversations *)
definition web_conversations :: "user \<Rightarrow> web_request \<Rightarrow> store \<Rightarrow> (int \<times> conversation_view list) api_answer \<times> store" where
  "web_conversations user r s =
    (if wr_method r \<noteq> ''GET'' then (not_allowed ''GET'', s)
     else or_answer (resolveFolder r user) 404 ''folder not found'' (\<lambda>folder.
       or_answer (ConversationSummaries (us_id user) (fo_id folder) (queryInt r ''limit'' 50)) 500 ''cannot list conversations''
         (\<lambda>sums s2. (api_json 200 (fo_id folder, map conversation_view_of sums), s2))) s)"

section \<open>Threads\<close>

text \<open>Messages of other accounts are skipped.\<close>

(* src: internal/api/user.go 420-432 User.thread *)
fun message_views :: "user \<Rightarrow> message list \<Rightarrow> (store, message_view list) op" where
  "message_views user [] = okE []"
| "message_views user (m # ms) =
    (if ms_user m \<noteq> us_id user then message_views user ms
     else bindE (messageView m) (\<lambda>v. bindE (message_views user ms) (\<lambda>vs. okE (v # vs))))"

record thread_view =
  vt_folder :: int
  vt_sent :: int
  vt_messages :: "message_view list"
  vt_target :: "reply_target option"

definition thread_messages :: "user \<Rightarrow> web_request \<Rightarrow> string \<Rightarrow> int \<Rightarrow> (store, message list) op" where
  "thread_messages user r key folderID =
    (let since = queryInt r ''since'' 0 in
     if since > 0 then ConversationMessagesAfter (us_id user) key folderID since 200
     else ConversationMessages (us_id user) key folderID 200)"

(* src: internal/api/user.go 386-443 User.thread *)
definition web_thread :: "webmail \<Rightarrow> user \<Rightarrow> web_request \<Rightarrow> store \<Rightarrow> thread_view api_answer \<times> store" where
  "web_thread h user r s =
    (if wr_method r \<noteq> ''GET'' then (not_allowed ''GET'', s)
     else or_answer (resolveFolder r user) 404 ''folder not found'' (\<lambda>folder s1.
       case decodeKey (wr_query r ''key'') of
         None \<Rightarrow> (api_error 400 ''invalid conversation key'', s1)
       | Some key \<Rightarrow> (case thread_messages user r key (fo_id folder) s1 of
            (Inl e, s2) \<Rightarrow>
              (if e = ErrNotFound then api_error 404 ''conversation not found'' else api_error 500 ''cannot read conversation'', s2)
          | (Inr messages, s2) \<Rightarrow> or_answer (message_views user messages) 500 ''cannot read message'' (\<lambda>views s3.
              (case FolderByType (us_id user) 5 s3 of (sent, s4) \<Rightarrow>
                (let sentID = (case sent of Inl _ \<Rightarrow> 0 | Inr f \<Rightarrow> fo_id f) in
                 case replyTargetFor h user messages sentID s4 of (target, s5) \<Rightarrow>
                   (api_json 200 \<lparr>vt_folder = fo_id folder, vt_sent = sentID, vt_messages = views, vt_target = target\<rparr>, s5)))) s2)) s)"

section \<open>Search\<close>

(* src: internal/api/user.go 479-491 User.searchMail *)
record hit_view =
  vh_id :: int
  vh_folder :: int
  vh_folder_name :: string
  vh_key :: string
  vh_subject :: string
  vh_from_name :: string
  vh_from_addr :: string
  vh_to :: string
  vh_date :: int
  vh_read :: bool
  vh_preview :: string

(* src: internal/api/user.go 493-501 User.searchMail *)
definition hit_view_of :: "search_hit \<Rightarrow> hit_view" where
  "hit_view_of x = (let m = sh_message x in
     \<lparr>vh_id = ms_id m, vh_folder = ms_folder m, vh_folder_name = sh_folder x, vh_key = encodeKey (sh_key x),
      vh_subject = ms_subject m, vh_from_name = ms_from_name m, vh_from_addr = ms_from_addr m, vh_to = ms_to m,
      vh_date = ms_date m, vh_read = ms_read m, vh_preview = sh_preview x\<rparr>)"

text \<open>Whether a folder may be searched.\<close>

(* src: internal/api/user.go 461-468 User.searchMail *)
definition search_folder_ok :: "user \<Rightarrow> int \<Rightarrow> store \<Rightarrow> bool \<times> store" where
  "search_folder_ok user folderID s =
    (if folderID > 0 then (case FolderByID folderID s of
        (Inl _, s1) \<Rightarrow> (False, s1) | (Inr f, s1) \<Rightarrow> (fo_user f = us_id user \<and> \<not> fo_deleted f, s1))
     else (True, s))"

(* src: internal/api/user.go 446-505 User.searchMail *)
definition web_search :: "web_lib \<Rightarrow> user \<Rightarrow> web_request \<Rightarrow> store \<Rightarrow> (string \<times> nat \<times> hit_view list) api_answer \<times> store" where
  "web_search L user r s =
    (let q = trim_space (wr_query r ''q''); folderID = queryInt r ''folder'' 0; l = queryInt r ''limit'' 50;
         lim = (if l \<le> 0 \<or> l > 200 then 50 else l) in
     if wr_method r \<noteq> ''GET'' then (not_allowed ''GET'', s)
     else if q = [] then (api_json 200 ([], 0, []), s)
     else (case search_folder_ok user folderID s of
        (False, s1) \<Rightarrow> (api_error 404 ''folder not found'', s1)
      | (True, s1) \<Rightarrow> or_answer (SearchMail (wl_lower L) (us_id user) q folderID lim 0) 500 ''cannot search messages'' (\<lambda>(hits, total) s2.
          (api_json 200 (q, total, map hit_view_of hits), s2)) s1))"

section \<open>A message\<close>

datatype message_payload = MessageShown message_view | MarkedRead

(* src: internal/api/user.go 533-552 User.message *)
definition web_mark_read :: "webmail \<Rightarrow> web_request \<Rightarrow> message \<Rightarrow> store \<Rightarrow> message_payload api_answer \<times> store" where
  "web_mark_read h r m s =
    (if wr_method r \<noteq> ''POST'' then (not_allowed ''POST'', s)
     else (case mutable_guard (wm_web h) r of
        Some a \<Rightarrow> (a, s)
      | None \<Rightarrow>
         if ms_read m then (api_json 200 MarkedRead, s)
         else or_answer (MarkMessageRead (ms_id m) True) 500 ''cannot mark message read'' (\<lambda>_ s1.
           (api_json 200 MarkedRead, execE (AddChange (ms_folder m) ''change'' ''email'' (ms_id m)) s1)) s))"

(* src: internal/api/user.go 507-556 User.message *)
definition web_message :: "webmail \<Rightarrow> user \<Rightarrow> web_request \<Rightarrow> string \<Rightarrow> store \<Rightarrow> message_payload api_answer \<times> store" where
  "web_message h user r rest s = (case cut_byte CHR ''/'' rest of (idText, action, _) \<Rightarrow>
     case parse_int64 idText of (i, ok) \<Rightarrow>
       if \<not> ok \<or> i \<le> 0 then (api_error 400 ''invalid message id'', s)
       else or_answer (MessageMetaByID i) 404 ''message not found'' (\<lambda>m s1.
         if ms_user m \<noteq> us_id user \<or> ms_deleted m then (api_error 404 ''message not found'', s1)
         else if action = [] then
           (if wr_method r \<noteq> ''GET'' then (not_allowed ''GET'', s1)
            else or_answer (messageView m) 500 ''cannot read message'' (\<lambda>v s2. (api_json 200 (MessageShown v), s2)) s1)
         else if action = ''read'' then web_mark_read h r m s1
         else (api_error 404 ''not found'', s1)) s)"

section \<open>Attachments\<close>

text \<open>\<open>url.PathEscape\<close>\<close>

definition path_safe :: "char \<Rightarrow> bool" where
  "path_safe c \<longleftrightarrow> c \<in> set ''ABCDEFGHIJKLMNOPQRSTUVWXYZabcdefghijklmnopqrstuvwxyz0123456789-_.~$&+:=@''"

definition path_escape :: "string \<Rightarrow> string" where
  "path_escape s = concat (map (\<lambda>c. if path_safe c then [c]
     else [CHR ''%'', ''0123456789ABCDEF'' ! ((of_char c :: nat) div 16), ''0123456789ABCDEF'' ! ((of_char c :: nat) mod 16)]) s)"

(* src: internal/api/user.go 576-595 User.attachment *)
definition attachment_answer :: "attachment \<Rightarrow> string api_answer" where
  "attachment_answer a = (api_json 200 (at_data a))\<lparr>aa_headers :=
     [(''Content-Type'', if at_ctype a = [] then ''application/octet-stream'' else at_ctype a),
      (''Content-Disposition'', ''attachment; filename*=UTF-8'' @ replicate 2 CHR 0x27 @
         path_escape (if at_file a = [] then ''attachment'' else at_file a)),
      (''Content-Length'', itoa (int (length (at_data a)))), (''X-Content-Type-Options'', ''nosniff''),
      (''Cache-Control'', ''private, max-age=300'')]\<rparr>"

(* src: internal/api/user.go 558-597 User.attachment *)
definition web_attachment :: "user \<Rightarrow> web_request \<Rightarrow> string \<Rightarrow> store \<Rightarrow> string api_answer \<times> store" where
  "web_attachment user r idText s =
    (if wr_method r \<noteq> ''GET'' then (not_allowed ''GET'', s)
     else (case parse_int64 (trim_set ''/'' idText) of (i, ok) \<Rightarrow>
       if \<not> ok \<or> i \<le> 0 then (api_error 400 ''invalid attachment id'', s)
       else or_answer (AttachmentByID i) 404 ''attachment not found'' (\<lambda>a.
         or_answer (MessageMetaByID (at_message a)) 404 ''attachment not found'' (\<lambda>m s2.
           if ms_user m \<noteq> us_id user then (api_error 404 ''attachment not found'', s2) else (attachment_answer a, s2))) s))"

section \<open>Keys survive\<close>

definition b64_pad :: "nat \<Rightarrow> string" where
  "b64_pad n = (if n mod 4 = 2 then ''=='' else if n mod 4 = 3 then ''='' else [])"

lemma b64_split: "\<exists>body. b64_encode s = body @ b64_pad (length body) \<and> set body \<subseteq> set b64_alphabet"
proof (induction s rule: b64_encode.induct)
  case 1
  then show ?case by (simp add: b64_pad_def)
next
  case (2 a)
  note g = group1 [OF of_char_lt [of a]]
  show ?case
    by (rule exI [of _ "[b64_char (of_char a div 4), b64_char (of_char a mod 4 * 16)]"]) (simp add: b64_pad_def Let_def g b64_char_mem)
next
  case (3 a b)
  note g = group2 [OF bytes2(1) [OF of_char_lt [of a] of_char_lt [of b]]]
  let ?n = "of_char a * 256 + of_char b :: nat"
  show ?case
    by (rule exI [of _ "[b64_char (?n div 1024), b64_char (?n div 16 mod 64), b64_char (?n mod 16 * 4)]"])
      (simp add: b64_pad_def Let_def g b64_char_mem)
next
  case (4 a b c r)
  note g = group3 [OF bytes3(1) [OF of_char_lt [of a] of_char_lt [of b] of_char_lt [of c]]]
  let ?n = "(of_char a * 256 + of_char b) * 256 + of_char c :: nat"
  let ?g = "[b64_char (?n div 262144), b64_char (?n div 4096 mod 64), b64_char (?n div 64 mod 64), b64_char (?n mod 64)]"
  from 4 obtain body where b: "b64_encode r = body @ b64_pad (length body)" "set body \<subseteq> set b64_alphabet" by blast
  have "b64_pad (length (?g @ body)) = b64_pad (length body)" by (simp add: b64_pad_def)
  moreover have "b64_encode (a # b # c # r) = ?g @ b64_encode r" by (simp add: Let_def)
  moreover have "set ?g \<subseteq> set b64_alphabet" using g(1-4) by (simp add: b64_char_mem)
  ultimately show ?case using b by (intro exI [of _ "?g @ body"]) (simp only: append_assoc set_append Un_subset_iff simp_thms)
qed

lemma url_chars: "c \<in> set b64_alphabet \<Longrightarrow> std_char (url_char c) = c \<and> c \<noteq> CHR ''='' \<and> url_char c \<notin> set ''+/='' \<and>
    url_char c \<noteq> CHR 0x0D \<and> url_char c \<noteq> CHR 0x0A"
proof -
  have "list_all (\<lambda>c. std_char (url_char c) = c \<and> c \<noteq> CHR ''='' \<and> url_char c \<notin> set ''+/='' \<and>
    url_char c \<noteq> CHR 0x0D \<and> url_char c \<noteq> CHR 0x0A) b64_alphabet" by code_simp
  then show "c \<in> set b64_alphabet \<Longrightarrow> ?thesis" by (simp add: list_all_iff)
qed

lemma raw_url_roundtrip: "raw_url_decode (raw_url_encode s) = Some s"
proof -
  obtain body where b: "b64_encode s = body @ b64_pad (length body)" "set body \<subseteq> set b64_alphabet" using b64_split by blast
  have u: "std_char (url_char c) = c \<and> c \<noteq> CHR ''='' \<and> url_char c \<notin> set ''+/='' \<and> url_char c \<noteq> CHR 0x0D \<and> url_char c \<noteq> CHR 0x0A"
    if "c \<in> set body" for c using url_chars b(2) that by blast
  have "filter (\<lambda>c. c \<noteq> CHR ''='') body = body" using u by (simp add: filter_id_conv)
  moreover have "filter (\<lambda>c. c \<noteq> CHR ''='') (b64_pad n) = []" for n by (simp add: b64_pad_def)
  ultimately have e: "raw_url_encode s = map url_char body" by (simp add: raw_url_encode_def b(1))
  have f: "filter (\<lambda>c. c \<noteq> CHR 0x0D \<and> c \<noteq> CHR 0x0A) (map url_char body) = map url_char body" using u by (simp add: filter_id_conv)
  have n: "\<not> contains_any (map url_char body) ''+/=''" using u by (auto simp: contains_any_def list_ex_iff)
  have m: "map std_char (map url_char body) = body" using u by (simp add: map_idI)
  show ?thesis
    unfolding raw_url_decode_def e f Let_def using n b64_groups_encode [of s]
    by (simp only: if_False m length_map b(1) b64_pad_def)
qed

text \<open>The key of a conversation that a list shows opens the conversation: \<open>decodeKey\<close> reads back every key that
  \<open>encodeKey\<close> writes, and what it writes needs no escape in a URL.\<close>

theorem key_roundtrip:
  assumes "key \<noteq> []"
  shows "decodeKey (encodeKey key) = Some key \<and> list_all path_safe (encodeKey key)"
proof -
  have "raw_url_decode [] = Some []" by code_simp
  then have "encodeKey key \<noteq> []" using raw_url_roundtrip [of key] assms by (auto simp: encodeKey_def)
  moreover have "list_all path_safe (map url_char b64_alphabet)" by code_simp
  then have "list_all path_safe (encodeKey key)"
    using b64_chars_plain [of _ key] by (auto simp: encodeKey_def raw_url_encode_def list_all_iff)
  ultimately show ?thesis using raw_url_roundtrip [of key] assms by (simp add: decodeKey_def encodeKey_def)
qed

theorem key_roundtrip_witness: "decodeKey (encodeKey ''m:42'') = Some ''m:42''"
  using key_roundtrip [of "''m:42''"] by blast


end
