(* ===== verification/ApiItems.thy ===== *)
theory ApiItems imports ApiMail begin

text \<open>
  \<open>internal/api/user.go\<close>: the calendars, events and contacts of the web client. The inputs are what the JSON
  decoder makes of the body: a field that is absent is \<open>None\<close>.
\<close>

section \<open>Calendars\<close>

(* src: internal/api/user.go 702-708 calendarView *)
record calendar_view =
  vl_id :: int
  vl_name :: string
  vl_public :: bool
  vl_url :: string
  vl_count :: nat

(* src: internal/api/user.go 710-720 User.calendarViewOf *)
definition calendarViewOf :: "string \<Rightarrow> folder \<Rightarrow> (store, calendar_view) op" where
  "calendarViewOf baseURL f = bindE (EventsByFolder (fo_id f)) (\<lambda>es.
     okE \<lparr>vl_id = fo_id f, vl_name = fo_name f, vl_public = fo_public f,
       vl_url = (if fo_uuid f = [] then [] else trim_suffix baseURL ''/'' @ ''/calendar/'' @ fo_uuid f @ ''.ics''),
       vl_count = length es\<rparr>)"

(* src: internal/api/user.go 655-665 User.calendars *)
fun calendar_views :: "string \<Rightarrow> folder list \<Rightarrow> (store, calendar_view list) op" where
  "calendar_views baseURL [] = okE []"
| "calendar_views baseURL (f # fs) = bindE (calendarViewOf baseURL f) (\<lambda>v. bindE (calendar_views baseURL fs) (\<lambda>vs. okE (v # vs)))"

(* src: internal/api/user.go 812-825 User.calendarName *)
definition calendarName :: "(string \<Rightarrow> string + string) \<Rightarrow> web_request \<Rightarrow> 'a api_answer + string" where
  "calendarName decode r = (case decodeJSON decode r of
     Inl a \<Rightarrow> Inl a
   | Inr name0 \<Rightarrow> (let name = trim_space name0 in
       if name = [] \<or> length (runes name) > 100 then Inl (api_error 400 ''calendar name must be 1-100 characters'') else Inr name))"

text \<open>The parameters of these handlers.\<close>

record web_items =
  wi_lib :: web_lib
  wi_base :: string
  wi_name :: "string \<Rightarrow> string + string"
  wi_public :: "string \<Rightarrow> string + bool option"

(* src: internal/api/user.go 667-695 User.calendars *)
definition create_calendar :: "web_items \<Rightarrow> user \<Rightarrow> web_request \<Rightarrow> store \<Rightarrow> calendar_view list api_answer \<times> store" where
  "create_calendar c user r s = (case mutable_guard (wi_lib c) r of
     Some a \<Rightarrow> (a, s)
   | None \<Rightarrow> (case calendarName (wi_name c) r of
        Inl a \<Rightarrow> (a, s)
      | Inr name \<Rightarrow> (case FolderByName (us_id user) name s of
           (Inr _, s1) \<Rightarrow> (api_error 409 ''a calendar with that name already exists'', s1)
         | (Inl e, s1) \<Rightarrow>
             if e \<noteq> ErrNotFound then (api_error 500 ''cannot check calendar name'', s1)
             else or_answer (CreateFolder (us_id user) 0 name FolderTypeCalendar) 500 ''cannot create calendar'' (\<lambda>f.
               or_answer (calendarViewOf (wi_base c) f) 500 ''cannot read calendar'' (\<lambda>v s3. (api_json 201 [v], s3))) s1)))"

(* src: internal/api/user.go 647-700 User.calendars *)
definition web_calendars :: "web_items \<Rightarrow> user \<Rightarrow> web_request \<Rightarrow> store \<Rightarrow> calendar_view list api_answer \<times> store" where
  "web_calendars c user r s =
    (if wr_method r = ''GET'' then
       or_answer (CalendarFolders (us_id user)) 500 ''cannot list calendars'' (\<lambda>fs.
         or_answer (calendar_views (wi_base c) fs) 500 ''cannot count calendar events'' (\<lambda>vs s2. (api_json 200 vs, s2))) s
     else if wr_method r = ''POST'' then create_calendar c user r s
     else (not_allowed ''GET, POST'', s))"

text \<open>The calendar after a change.\<close>

(* src: internal/api/user.go 753-765 User.calendar *)
definition updated_calendar :: "web_items \<Rightarrow> int \<Rightarrow> store \<Rightarrow> calendar_view api_answer \<times> store" where
  "updated_calendar c i = or_answer (FolderByID i) 500 ''cannot read calendar'' (\<lambda>f.
     or_answer (calendarViewOf (wi_base c) f) 500 ''cannot read calendar'' (\<lambda>v s. (api_json 200 v, s)))"

(* src: internal/api/user.go 735-765 User.calendar *)
definition rename_calendar :: "web_items \<Rightarrow> folder \<Rightarrow> web_request \<Rightarrow> store \<Rightarrow> calendar_view api_answer \<times> store" where
  "rename_calendar c f r s =
    (if wr_method r \<noteq> ''PATCH'' \<and> wr_method r \<noteq> ''PUT'' then (not_allowed ''PATCH, PUT'', s)
     else (case mutable_guard (wi_lib c) r of
        Some a \<Rightarrow> (a, s)
      | None \<Rightarrow> (case calendarName (wi_name c) r of
           Inl a \<Rightarrow> (a, s)
         | Inr name \<Rightarrow> or_answer (RenameFolder (fo_id f) name) 500 ''cannot rename calendar'' (\<lambda>_. updated_calendar c (fo_id f)) s)))"

(* src: internal/api/user.go 766-802 User.calendar *)
definition publish_calendar :: "web_items \<Rightarrow> folder \<Rightarrow> web_request \<Rightarrow> store \<Rightarrow> calendar_view api_answer \<times> store" where
  "publish_calendar c f r s =
    (if wr_method r \<noteq> ''PUT'' \<and> wr_method r \<noteq> ''POST'' then (not_allowed ''PUT, POST'', s)
     else (case mutable_guard (wi_lib c) r of
        Some a \<Rightarrow> (a, s)
      | None \<Rightarrow> (case decodeJSON (wi_public c) r of
           Inl a \<Rightarrow> (a, s)
         | Inr None \<Rightarrow> (api_error 400 ''public is required'', s)
         | Inr (Some b) \<Rightarrow>
             or_answer (SetFolderPublic (fo_id f) b) 500 ''cannot update calendar feed'' (\<lambda>_. updated_calendar c (fo_id f)) s)))"

section \<open>Events\<close>

(* src: internal/api/user.go 827-841 eventView *)
record event_view =
  ve_id :: int
  ve_uid :: string
  ve_subject :: string
  ve_location :: string
  ve_body :: string
  ve_start :: int
  ve_end :: int
  ve_all_day :: bool
  ve_busy :: int
  ve_recurring :: bool
  ve_org :: string
  ve_org_at :: string

(* src: internal/api/user.go 843-850 eventViewOf *)
definition eventViewOf :: "event \<Rightarrow> event_view" where
  "eventViewOf e = \<lparr>ve_id = ev_id e, ve_uid = ev_uid e, ve_subject = ev_subject e, ve_location = ev_location e,
     ve_body = ev_body e, ve_start = ev_start e, ve_end = ev_end e, ve_all_day = ev_all_day e, ve_busy = ev_busy e,
     ve_recurring = Active (ev_recurrence e), ve_org = ev_org_name e, ve_org_at = ev_org_email e\<rparr>"

(* src: internal/api/user.go 852-864 eventInput *)
record event_input =
  ie_subject :: "string option"
  ie_location :: "string option"
  ie_body :: "string option"
  ie_start :: "int option"
  ie_end :: "int option"
  ie_all_day :: "bool option"
  ie_busy :: "int option"
  ie_reminder :: "int option"

definition or_old :: "'a option \<Rightarrow> 'a \<Rightarrow> 'a" where
  "or_old v old = (case v of None \<Rightarrow> old | Some x \<Rightarrow> x)"

text \<open>The fields that are given, then the checks that are made in between and at the end.\<close>

(* src: internal/api/user.go 988-1020 applyEventInput *)
definition with_input :: "event_input \<Rightarrow> event \<Rightarrow> event" where
  "with_input i e = e\<lparr>
     ev_subject := (case ie_subject i of None \<Rightarrow> ev_subject e | Some v \<Rightarrow> trim_space v),
     ev_location := (case ie_location i of None \<Rightarrow> ev_location e | Some v \<Rightarrow> trim_space v),
     ev_body := or_old (ie_body i) (ev_body e), ev_start := or_old (ie_start i) (ev_start e),
     ev_end := or_old (ie_end i) (ev_end e), ev_all_day := or_old (ie_all_day i) (ev_all_day e),
     ev_busy := or_old (ie_busy i) (ev_busy e), ev_reminder := or_old (ie_reminder i) (ev_reminder e)\<rparr>"

(* src: internal/api/user.go 985-1033 applyEventInput *)
definition applyEventInput :: "event \<Rightarrow> event_input \<Rightarrow> string + event" where
  "applyEventInput e0 i =
    (let e = with_input i e0 in
     if ie_subject i \<noteq> None \<and> (ev_subject e = [] \<or> length (runes (ev_subject e)) > 255) then Inl ''subject must be 1-255 characters''
     else if ie_busy i \<noteq> None \<and> (ev_busy e < 0 \<or> ev_busy e > 4) then Inl ''busy status must be 0-4''
     else if ie_reminder i \<noteq> None \<and> (ev_reminder e < 0 \<or> ev_reminder e > 40320) then Inl ''reminder must be 0-40320 minutes''
     else if ev_start e \<le> 0 \<or> ev_end e \<le> 0 then Inl ''start and end must be unix seconds''
     else if ev_end e < ev_start e then Inl ''end must not be before start''
     else if ev_end e - ev_start e > 366 * 86400 then Inl ''event is longer than a year''
     else Inr e)"

datatype event_payload = EventList "event_view list" | OneEvent event_view | EventGone

(* src: internal/api/user.go 906-914 User.createEvent *)
definition new_event :: "user \<Rightarrow> folder \<Rightarrow> string \<Rightarrow> string \<Rightarrow> int \<Rightarrow> int \<Rightarrow> event" where
  "new_event user f uuid subject start til = zero_event\<lparr>ev_user := fo_user f, ev_folder := fo_id f, ev_uid := uuid @ ''@lifemail'',
     ev_subject := trim_space subject, ev_start := start, ev_end := til, ev_org_name := us_display user, ev_org_email := us_address user\<rparr>"

text \<open>\<open>InsertEvent\<close> sets the fields of the event it is given that are zero, which the answer shows.\<close>

(* src: internal/api/user.go 890-930 User.createEvent *)
definition createEvent :: "web_lib \<Rightarrow> (string \<Rightarrow> string + event_input) \<Rightarrow> user \<Rightarrow> web_request \<Rightarrow> folder \<Rightarrow> store \<Rightarrow>
    event_payload api_answer \<times> store" where
  "createEvent L decode user r f s = (case mutable_guard L r of
     Some a \<Rightarrow> (a, s)
   | None \<Rightarrow> (case decodeJSON decode r of
        Inl a \<Rightarrow> (a, s)
      | Inr i \<Rightarrow> (case ie_subject i of
           None \<Rightarrow> (api_error 400 ''subject is required'', s)
         | Some subject \<Rightarrow>
             if trim_space subject = [] then (api_error 400 ''subject is required'', s)
             else (case (ie_start i, ie_end i) of
                (Some start, Some til) \<Rightarrow> or_answer NewUUID 500 [] (\<lambda>uuid s1.
                  case applyEventInput (new_event user f uuid subject start til) i of
                    Inl e \<Rightarrow> (api_error 400 e, s1)
                  | Inr e \<Rightarrow> or_answer (InsertEvent e) 500 ''cannot create event'' (\<lambda>n s2.
                      (api_json 201 (OneEvent (eventViewOf ((event_defaults (nowUnix s1) e)\<lparr>ev_id := n\<rparr>))),
                       execE (AddChange (fo_id f) ''add'' ''event'' n) s2)) s1) s
              | _ \<Rightarrow> (api_error 400 ''start and end are required'', s)))))"

(* src: internal/api/user.go 866-888 User.calendarEvents *)
definition calendarEvents :: "web_lib \<Rightarrow> (string \<Rightarrow> string + event_input) \<Rightarrow> user \<Rightarrow> web_request \<Rightarrow> folder \<Rightarrow> store \<Rightarrow>
    event_payload api_answer \<times> store" where
  "calendarEvents L decode user r f s =
    (if wr_method r = ''GET'' then
       or_answer (EventsByFolderBetween (fo_id f) (queryInt r ''from'' 0) (queryInt r ''to'' 0)) 500 ''cannot list events''
         (\<lambda>es s1. (api_json 200 (EventList (map eventViewOf es)), s1)) s
     else if wr_method r = ''POST'' then createEvent L decode user r f s
     else (not_allowed ''GET, POST'', s))"

(* src: internal/api/user.go 944-964 User.calendarEvent *)
definition change_event :: "web_lib \<Rightarrow> (string \<Rightarrow> string + event_input) \<Rightarrow> web_request \<Rightarrow> folder \<Rightarrow> event \<Rightarrow> store \<Rightarrow>
    event_payload api_answer \<times> store" where
  "change_event L decode r f e0 s = (case mutable_guard L r of
     Some a \<Rightarrow> (a, s)
   | None \<Rightarrow> (case decodeJSON decode r of
        Inl a \<Rightarrow> (a, s)
      | Inr i \<Rightarrow> (case applyEventInput e0 i of
           Inl e \<Rightarrow> (api_error 400 e, s)
         | Inr e \<Rightarrow> or_answer (UpdateEvent e) 500 ''cannot update event'' (\<lambda>_ s1.
             (api_json 200 (OneEvent (eventViewOf e)), execE (AddChange (fo_id f) ''change'' ''event'' (ev_id e)) s1)) s)))"

(* src: internal/api/user.go 965-978 User.calendarEvent *)
definition remove_event :: "web_lib \<Rightarrow> web_request \<Rightarrow> folder \<Rightarrow> event \<Rightarrow> store \<Rightarrow> event_payload api_answer \<times> store" where
  "remove_event L r f e s = (case mutable_guard L r of
     Some a \<Rightarrow> (a, s)
   | None \<Rightarrow> or_answer (UpdateEvent (e\<lparr>ev_deleted := True\<rparr>)) 500 ''cannot delete event'' (\<lambda>_ s1.
       (api_json 200 EventGone, execE (AddChange (fo_id f) ''delete'' ''event'' (ev_id e)) s1)) s)"

(* src: internal/api/user.go 932-983 User.calendarEvent *)
definition calendarEvent :: "web_lib \<Rightarrow> (string \<Rightarrow> string + event_input) \<Rightarrow> user \<Rightarrow> web_request \<Rightarrow> folder \<Rightarrow> string \<Rightarrow> store \<Rightarrow>
    event_payload api_answer \<times> store" where
  "calendarEvent L decode user r f idText s = (case parse_int64 idText of (i, ok) \<Rightarrow>
     if \<not> ok \<or> i \<le> 0 then (api_error 400 ''invalid event id'', s)
     else or_answer (EventByID i) 404 ''event not found'' (\<lambda>e s1.
       if ev_user e \<noteq> us_id user \<or> ev_folder e \<noteq> fo_id f \<or> ev_deleted e then (api_error 404 ''event not found'', s1)
       else if wr_method r = ''PATCH'' \<or> wr_method r = ''PUT'' then change_event L decode r f e s1
       else if wr_method r = ''DELETE'' then remove_event L r f e s1
       else (not_allowed ''PATCH, PUT, DELETE'', s1)) s)"

datatype calendar_payload = CalendarShown calendar_view | CalendarEvents event_payload

definition map_answer :: "('a \<Rightarrow> 'b) \<Rightarrow> 'a api_answer \<Rightarrow> 'b api_answer" where
  "map_answer f a = \<lparr>aa_status = aa_status a, aa_headers = aa_headers a, aa_cookie = aa_cookie a, aa_body = map_sum id f (aa_body a)\<rparr>"

definition payload :: "('a \<Rightarrow> 'b) \<Rightarrow> 'a api_answer \<times> 's \<Rightarrow> 'b api_answer \<times> 's" where
  "payload f x = (map_answer f (fst x), snd x)"

(* src: internal/api/user.go 722-810 User.calendar *)
definition web_calendar :: "web_items \<Rightarrow> (string \<Rightarrow> string + event_input) \<Rightarrow> user \<Rightarrow> web_request \<Rightarrow> string \<Rightarrow> store \<Rightarrow>
    calendar_payload api_answer \<times> store" where
  "web_calendar c decode user r rest s =
    (let parts = split_byte CHR ''/'' (trim_set ''/'' rest); (i, ok) = parse_int64 (hd parts) in
     if \<not> ok \<or> i \<le> 0 then (api_error 400 ''invalid calendar id'', s)
     else or_answer (FolderByID i) 404 ''calendar not found'' (\<lambda>f s1.
       if fo_user f \<noteq> us_id user \<or> fo_deleted f \<or> fo_type f \<noteq> FolderTypeCalendar then (api_error 404 ''calendar not found'', s1)
       else (case parts of
          [_] \<Rightarrow> payload CalendarShown (rename_calendar c f r s1)
        | [_, x] \<Rightarrow>
            if x = ''public'' then payload CalendarShown (publish_calendar c f r s1)
            else if x = ''events'' then payload CalendarEvents (calendarEvents (wi_lib c) decode user r f s1)
            else (api_error 404 ''not found'', s1)
        | [_, x, y] \<Rightarrow>
            if x = ''events'' then payload CalendarEvents (calendarEvent (wi_lib c) decode user r f y s1)
            else (api_error 404 ''not found'', s1)
        | _ \<Rightarrow> (api_error 404 ''not found'', s1))) s)"

section \<open>Contacts\<close>

(* src: internal/api/user.go 1175-1211 contactInput *)
record contact_input =
  ic_folder :: "int option"
  ic_file_as :: "string option"
  ic_first :: "string option"
  ic_last :: "string option"
  ic_middle :: "string option"
  ic_company :: "string option"
  ic_department :: "string option"
  ic_job :: "string option"
  ic_email1 :: "string option"
  ic_email2 :: "string option"
  ic_email3 :: "string option"
  ic_home_phone :: "string option"
  ic_home2_phone :: "string option"
  ic_mobile :: "string option"
  ic_business_phone :: "string option"
  ic_business_fax :: "string option"
  ic_home_street :: "string option"
  ic_home_city :: "string option"
  ic_home_state :: "string option"
  ic_home_postal :: "string option"
  ic_home_country :: "string option"
  ic_business_street :: "string option"
  ic_business_city :: "string option"
  ic_business_state :: "string option"
  ic_business_postal :: "string option"
  ic_business_country :: "string option"
  ic_body :: "string option"

definition trimmed_or :: "string option \<Rightarrow> string \<Rightarrow> string" where
  "trimmed_or v old = (case v of None \<Rightarrow> old | Some x \<Rightarrow> trim_space x)"

(* src: internal/api/user.go 1270-1352 applyContactInput *)
definition with_contact_input :: "contact_input \<Rightarrow> contact \<Rightarrow> contact" where
  "with_contact_input i c = c\<lparr>
     co_file_as := trimmed_or (ic_file_as i) (co_file_as c), co_first := trimmed_or (ic_first i) (co_first c),
     co_last := trimmed_or (ic_last i) (co_last c), co_middle := trimmed_or (ic_middle i) (co_middle c),
     co_company := trimmed_or (ic_company i) (co_company c), co_department := trimmed_or (ic_department i) (co_department c),
     co_job := trimmed_or (ic_job i) (co_job c), co_email1 := trimmed_or (ic_email1 i) (co_email1 c),
     co_email2 := trimmed_or (ic_email2 i) (co_email2 c), co_email3 := trimmed_or (ic_email3 i) (co_email3 c),
     co_home_phone := trimmed_or (ic_home_phone i) (co_home_phone c), co_home2_phone := trimmed_or (ic_home2_phone i) (co_home2_phone c),
     co_mobile := trimmed_or (ic_mobile i) (co_mobile c), co_business_phone := trimmed_or (ic_business_phone i) (co_business_phone c),
     co_business_fax := trimmed_or (ic_business_fax i) (co_business_fax c), co_home_street := trimmed_or (ic_home_street i) (co_home_street c),
     co_home_city := trimmed_or (ic_home_city i) (co_home_city c), co_home_state := trimmed_or (ic_home_state i) (co_home_state c),
     co_home_postal := trimmed_or (ic_home_postal i) (co_home_postal c), co_home_country := trimmed_or (ic_home_country i) (co_home_country c),
     co_business_street := trimmed_or (ic_business_street i) (co_business_street c),
     co_business_city := trimmed_or (ic_business_city i) (co_business_city c),
     co_business_state := trimmed_or (ic_business_state i) (co_business_state c),
     co_business_postal := trimmed_or (ic_business_postal i) (co_business_postal c),
     co_business_country := trimmed_or (ic_business_country i) (co_business_country c), co_body := trimmed_or (ic_body i) (co_body c)\<rparr>"

(* src: internal/api/user.go 1353-1357 applyContactInput *)
definition email_ok :: "string \<Rightarrow> bool" where
  "email_ok e \<longleftrightarrow> e = [] \<or> contains_byte e CHR ''@'' \<and> \<not> contains_any e [CHR '' '', CHR 0x09, CHR 0x0D, CHR 0x0A]"

(* src: internal/api/user.go 1270-1359 applyContactInput *)
definition applyContactInput :: "contact \<Rightarrow> contact_input \<Rightarrow> string + contact" where
  "applyContactInput c0 i =
    (let c = with_contact_input i c0 in
     if ic_file_as i \<noteq> None \<and> length (runes (co_file_as c)) > 100 then Inl ''display name must be at most 100 characters''
     else if \<not> list_all email_ok [co_email1 c, co_email2 c, co_email3 c] then Inl ''invalid email address''
     else Inr c)"

(* src: internal/api/user.go 1361-1364 contactIdentified *)
definition contactIdentified :: "contact \<Rightarrow> bool" where
  "contactIdentified c \<longleftrightarrow> co_file_as c \<noteq> [] \<or> co_first c \<noteq> [] \<or> co_last c \<noteq> [] \<or> co_email1 c \<noteq> [] \<or> co_company c \<noteq> []"

text \<open>A rune of 0x2E80 or above begins with a byte above 0xE2, or with 0xE2 and one of at least 0xBA.\<close>

(* src: internal/api/user.go 1381-1391 isCJK *)
definition isCJK :: "string \<Rightarrow> bool" where
  "isCJK v \<longleftrightarrow> v \<noteq> [] \<and> list_all (\<lambda>r. case r of
     a # b # _ \<Rightarrow> (of_char a :: nat) > 0xE2 \<or> (of_char a :: nat) = 0xE2 \<and> (of_char b :: nat) \<ge> 0xBA | _ \<Rightarrow> False) (runes v)"

definition unnamed :: string where
  "unnamed = [CHR 0xE6, CHR 0x9C, CHR 0xAA, CHR 0xE5, CHR 0x91, CHR 0xBD, CHR 0xE5, CHR 0x90, CHR 0x8D]"

(* src: internal/api/user.go 1366-1379 contactDisplayName *)
definition contactDisplayName :: "contact \<Rightarrow> string" where
  "contactDisplayName c =
    (if co_first c \<noteq> [] \<or> co_last c \<noteq> [] then
       (if isCJK (co_first c) \<and> isCJK (co_last c) then co_last c @ co_first c
        else trim_space (co_first c @ '' '' @ co_last c))
     else if co_email1 c \<noteq> [] then co_email1 c else unnamed)"

text \<open>The view of a contact is the contact without its owner, folder and flag, and the name to show.\<close>

(* src: internal/api/user.go 1122-1171 contactViewOf *)
definition contactViewOf :: "contact \<Rightarrow> string \<times> contact" where
  "contactViewOf c = (if co_file_as c = [] then trim_space (co_first c @ '' '' @ co_last c) else co_file_as c,
     c\<lparr>co_user := [], co_folder := 0, co_deleted := False\<rparr>)"

datatype contact_payload = ContactList "(string \<times> contact) list" | OneContact "string \<times> contact" | ContactGone

(* src: internal/api/user.go 1250-1268 User.contactFolder *)
definition contactFolder :: "user \<Rightarrow> int option \<Rightarrow> store \<Rightarrow> ((int \<times> string) + folder) \<times> store" where
  "contactFolder user io s = (case io of
     None \<Rightarrow> (case FolderByType (us_id user) 9 s of
        (Inl _, s1) \<Rightarrow> (Inl (500, ''contacts folder is missing''), s1) | (Inr f, s1) \<Rightarrow> (Inr f, s1))
   | Some i \<Rightarrow> (case FolderByID i s of
        (Inl _, s1) \<Rightarrow> (Inl (404, ''contacts folder not found''), s1)
      | (Inr f, s1) \<Rightarrow>
          (if fo_user f \<noteq> us_id user \<or> fo_deleted f \<or> fo_class f \<noteq> ''Contacts'' then Inl (404, ''contacts folder not found'') else Inr f, s1)))"

text \<open>The contact an input makes of a contact, checked and named.\<close>

(* src: internal/api/user.go 1082-1092 User.contact *)
definition checked_contact :: "contact \<Rightarrow> contact_input \<Rightarrow> string + contact" where
  "checked_contact c0 i = (case applyContactInput c0 i of
     Inl e \<Rightarrow> Inl e
   | Inr c \<Rightarrow>
       if \<not> contactIdentified c then Inl ''contact needs a name, company or email''
       else Inr (if co_file_as c = [] then c\<lparr>co_file_as := contactDisplayName c\<rparr> else c))"

(* src: internal/api/user.go 1213-1248 User.createContact *)
definition createContact :: "web_lib \<Rightarrow> (string \<Rightarrow> string + contact_input) \<Rightarrow> user \<Rightarrow> web_request \<Rightarrow> store \<Rightarrow>
    contact_payload api_answer \<times> store" where
  "createContact L decode user r s = (case mutable_guard L r of
     Some a \<Rightarrow> (a, s)
   | None \<Rightarrow> (case decodeJSON decode r of
        Inl a \<Rightarrow> (a, s)
      | Inr i \<Rightarrow> (case contactFolder user (ic_folder i) s of
           (Inl (code, e), s1) \<Rightarrow> (api_error code e, s1)
         | (Inr f, s1) \<Rightarrow> (case checked_contact (zero_contact\<lparr>co_user := us_id user, co_folder := fo_id f\<rparr>) i of
              Inl e \<Rightarrow> (api_error 400 e, s1)
            | Inr c \<Rightarrow> or_answer (InsertContact c) 500 ''cannot create contact'' (\<lambda>n s2.
                (api_json 201 (OneContact (contactViewOf (c\<lparr>co_id := n\<rparr>))), execE (AddChange (fo_id f) ''add'' ''contact'' n) s2)) s1))))"

(* src: internal/api/user.go 1037-1058 User.contacts *)
definition web_contacts :: "web_lib \<Rightarrow> (string \<Rightarrow> string + contact_input) \<Rightarrow> user \<Rightarrow> web_request \<Rightarrow> store \<Rightarrow>
    contact_payload api_answer \<times> store" where
  "web_contacts L decode user r s =
    (if wr_method r = ''GET'' then
       or_answer (SearchContacts (wl_lower L) (us_id user) (wr_query r ''q'') (queryInt r ''limit'' 100)) 500 ''cannot list contacts''
         (\<lambda>cs s1. (api_json 200 (ContactList (map contactViewOf cs)), s1)) s
     else if wr_method r = ''POST'' then createContact L decode user r s
     else (not_allowed ''GET, POST'', s))"

(* src: internal/api/user.go 1074-1101 User.contact *)
definition change_contact :: "web_lib \<Rightarrow> (string \<Rightarrow> string + contact_input) \<Rightarrow> web_request \<Rightarrow> contact \<Rightarrow> store \<Rightarrow>
    contact_payload api_answer \<times> store" where
  "change_contact L decode r c0 s = (case mutable_guard L r of
     Some a \<Rightarrow> (a, s)
   | None \<Rightarrow> (case decodeJSON decode r of
        Inl a \<Rightarrow> (a, s)
      | Inr i \<Rightarrow> (case checked_contact c0 i of
           Inl e \<Rightarrow> (api_error 400 e, s)
         | Inr c \<Rightarrow> or_answer (UpdateContact c) 500 ''cannot update contact'' (\<lambda>_ s1.
             (api_json 200 (OneContact (contactViewOf c)), execE (AddChange (co_folder c) ''change'' ''contact'' (co_id c)) s1)) s)))"

(* src: internal/api/user.go 1102-1115 User.contact *)
definition remove_contact :: "web_lib \<Rightarrow> web_request \<Rightarrow> contact \<Rightarrow> store \<Rightarrow> contact_payload api_answer \<times> store" where
  "remove_contact L r c s = (case mutable_guard L r of
     Some a \<Rightarrow> (a, s)
   | None \<Rightarrow> or_answer (UpdateContact (c\<lparr>co_deleted := True\<rparr>)) 500 ''cannot delete contact'' (\<lambda>_ s1.
       (api_json 200 ContactGone, execE (AddChange (co_folder c) ''delete'' ''contact'' (co_id c)) s1)) s)"

(* src: internal/api/user.go 1060-1120 User.contact *)
definition web_contact :: "web_lib \<Rightarrow> (string \<Rightarrow> string + contact_input) \<Rightarrow> user \<Rightarrow> web_request \<Rightarrow> string \<Rightarrow> store \<Rightarrow>
    contact_payload api_answer \<times> store" where
  "web_contact L decode user r idText s = (case parse_int64 (trim_set ''/'' idText) of (i, ok) \<Rightarrow>
     if \<not> ok \<or> i \<le> 0 then (api_error 400 ''invalid contact id'', s)
     else or_answer (ContactByID i) 404 ''contact not found'' (\<lambda>c s1.
       if co_user c \<noteq> us_id user \<or> co_deleted c then (api_error 404 ''contact not found'', s1)
       else if wr_method r = ''GET'' then (api_json 200 (OneContact (contactViewOf c)), s1)
       else if wr_method r = ''PATCH'' \<or> wr_method r = ''PUT'' then change_contact L decode r c s1
       else if wr_method r = ''DELETE'' then remove_contact L r c s1
       else (not_allowed ''GET, PATCH, PUT, DELETE'', s1)) s)"

end
