(* ===== verification/ApiEvents.thy ===== *)
theory ApiEvents imports ApiMail "HOL-Library.Sublist" begin

text \<open>
  \<open>internal/api/events.go\<close>: the hub that pushes events to the open pages of an account, and the handler of one
  stream. Every method of the hub holds its mutex, so it is one step; a send on a closed channel and a second close
  are panics, here \<open>None\<close>. \<open>hub_run\<close> interleaves the streams of all accounts with publishers and the shutdown.
\<close>

section \<open>Events\<close>

(* src: internal/api/events.go 23-38 Event *)
record web_event =
  we_kind :: string
  we_action :: string
  we_folder :: int
  we_folder_type :: int
  we_message :: int
  we_key :: string
  we_subject :: string
  we_from :: string
  we_at :: int

(* src: internal/api/events.go 190-200 truncateRunes *)
definition truncateRunes :: "string \<Rightarrow> int \<Rightarrow> string" where
  "truncateRunes value mx =
    (let rs = runes (trim_space value) in
     if mx \<le> 0 then [] else if int (length rs) \<le> mx then concat rs
     else concat (take (nat mx) rs) @ [CHR 0xE2, CHR 0x80, CHR 0xA6])"

(* src: internal/api/events.go 40-62 NewMailEvent *)
definition NewMailEvent :: "int \<Rightarrow> string \<Rightarrow> string \<Rightarrow> string \<Rightarrow> string \<Rightarrow> int \<Rightarrow> int \<Rightarrow> web_event" where
  "NewMailEvent folderType subject fromName fromAddr conversationID messageID now =
    (let from = (if trim_space fromName = [] then trim_space fromAddr else trim_space fromName); i = trim_space conversationID in
     \<lparr>we_kind = ''mail'', we_action = ''new'', we_folder = 0, we_folder_type = folderType, we_message = messageID,
      we_key = (if i = [] then [] else encodeKey i), we_subject = truncateRunes subject 160,
      we_from = truncateRunes from 120, we_at = now\<rparr>)"

section \<open>The hub\<close>

record channel =
  ch_buf :: "web_event list"
  ch_closed :: bool

text \<open>The map from accounts to sets of channels is the list of its pairs.\<close>

(* src: internal/api/events.go 64-72 EventHub *)
record hub =
  hb_subs :: "(string \<times> nat) list"
  hb_closed :: bool
  hb_chans :: "nat \<Rightarrow> channel option"
  hb_next :: nat

(* src: internal/api/events.go 74-77 NewEventHub *)
definition NewEventHub :: hub where
  "NewEventHub = \<lparr>hb_subs = [], hb_closed = False, hb_chans = Map.empty, hb_next = 0\<rparr>"

(* src: internal/api/events.go 17-21 sseEventBuffer *)
definition sseEventBuffer :: nat where
  "sseEventBuffer = 16"

(* src: internal/api/events.go 17-21 maxStreamsPerUser *)
definition maxStreamsPerUser :: nat where
  "maxStreamsPerUser = 16"

definition shut_channel :: "nat \<Rightarrow> hub \<Rightarrow> hub option" where
  "shut_channel c h = (case hb_chans h c of
     None \<Rightarrow> None
   | Some ch \<Rightarrow> if ch_closed ch then None else Some (h\<lparr>hb_chans := (hb_chans h)(c \<mapsto> ch\<lparr>ch_closed := True\<rparr>)\<rparr>))"

text \<open>A send that gives up when the buffer is full.\<close>

definition offer :: "web_event \<Rightarrow> nat \<Rightarrow> hub \<Rightarrow> hub option" where
  "offer ev c h = (case hb_chans h c of
     None \<Rightarrow> None
   | Some ch \<Rightarrow>
       if ch_closed ch then None
       else if length (ch_buf ch) < sseEventBuffer
       then Some (h\<lparr>hb_chans := (hb_chans h)(c \<mapsto> ch\<lparr>ch_buf := ch_buf ch @ [ev]\<rparr>)\<rparr>)
       else Some h)"

fun each_channel :: "(nat \<Rightarrow> hub \<Rightarrow> hub option) \<Rightarrow> nat list \<Rightarrow> hub \<Rightarrow> hub option" where
  "each_channel f [] h = Some h"
| "each_channel f (c # cs) h = Option.bind (f c h) (each_channel f cs)"

definition streams_of :: "string \<Rightarrow> hub \<Rightarrow> nat list" where
  "streams_of u h = map snd (filter (\<lambda>x. fst x = u) (hb_subs h))"

(* src: internal/api/events.go 79-99 EventHub.Publish *)
definition Publish :: "int \<Rightarrow> string \<Rightarrow> web_event \<Rightarrow> hub \<Rightarrow> hub option" where
  "Publish now u ev h =
    (if u = [] \<or> hb_closed h then Some h
     else each_channel (offer (if we_at ev = 0 then ev\<lparr>we_at := now\<rparr> else ev)) (streams_of u h) h)"

(* src: internal/api/events.go 119-141 EventHub.Subscribe *)
definition Subscribe :: "string \<Rightarrow> hub \<Rightarrow> (nat \<times> hub) option" where
  "Subscribe u h =
    (if u = [] \<or> hb_closed h \<or> length (streams_of u h) \<ge> maxStreamsPerUser then None
     else Some (hb_next h, h\<lparr>hb_subs := hb_subs h @ [(u, hb_next h)], hb_next := Suc (hb_next h),
       hb_chans := (hb_chans h)(hb_next h \<mapsto> \<lparr>ch_buf = [], ch_closed = False\<rparr>)\<rparr>))"

(* src: internal/api/events.go 143-151 EventHub.Streams *)
definition Streams :: "string \<Rightarrow> hub \<Rightarrow> nat" where
  "Streams u h = length (streams_of u h)"

(* src: internal/api/events.go 153-171 EventHub.Close *)
definition CloseHub :: "hub \<Rightarrow> hub option" where
  "CloseHub h =
    (if hb_closed h then Some h
     else map_option (\<lambda>h'. h'\<lparr>hb_subs := []\<rparr>) (each_channel shut_channel (map snd (hb_subs h)) (h\<lparr>hb_closed := True\<rparr>)))"

(* src: internal/api/events.go 173-188 EventHub.unsubscribe *)
definition unsubscribe :: "string \<Rightarrow> nat \<Rightarrow> hub \<Rightarrow> hub option" where
  "unsubscribe u c h =
    (if (u, c) \<notin> set (hb_subs h) then Some h
     else shut_channel c (h\<lparr>hb_subs := filter (\<lambda>x. x \<noteq> (u, c)) (hb_subs h)\<rparr>))"

section \<open>A stream\<close>

datatype frame = Retry | Ready int | Frame web_event | PingFrame

text \<open>What is written: the wait before a new connection, the event of kind \<open>ready\<close> with its time, an event under the name of
  its kind, a ping. A connection: its stream, what it has written, and whether the handler has returned.\<close>

(* src: internal/api/events.go 101-109 EventStream *)
record sse =
  se_user :: string
  se_ch :: nat
  se_once :: bool
  se_out :: "frame list"
  se_done :: bool

(* src: internal/api/events.go 111-117 EventStream.Close *)
definition close_stream :: "sse \<Rightarrow> hub \<Rightarrow> (sse \<times> hub) option" where
  "close_stream x h = (if se_once x then Some (x, h)
     else map_option (Pair (x\<lparr>se_once := True\<rparr>)) (unsubscribe (se_user x) (se_ch x) h))"

text \<open>The handler returns: the deferred \<open>Close\<close> runs.\<close>

definition leave :: "sse \<Rightarrow> hub \<Rightarrow> (sse \<times> hub) option" where
  "leave x h = map_option (\<lambda>(y, h'). (y\<lparr>se_done := True\<rparr>, h')) (close_stream x h)"

text \<open>A write that succeeds or ends the handler.\<close>

definition write_frame :: "bool \<Rightarrow> frame \<Rightarrow> sse \<Rightarrow> hub \<Rightarrow> (sse \<times> hub) option" where
  "write_frame ok f x h = (if ok then Some (x\<lparr>se_out := se_out x @ [f]\<rparr>, h) else leave x h)"

text \<open>The two frames a stream begins with.\<close>

(* src: internal/api/events.go 251-256 User.events *)
definition open_sse :: "int \<Rightarrow> bool \<Rightarrow> bool \<Rightarrow> string \<Rightarrow> nat \<Rightarrow> hub \<Rightarrow> (sse \<times> hub) option" where
  "open_sse now ok1 ok2 u c h =
    Option.bind (write_frame ok1 Retry \<lparr>se_user = u, se_ch = c, se_once = False, se_out = [], se_done = False\<rparr> h) (\<lambda>(x, h1).
      if se_done x then Some (x, h1)
      else write_frame ok2 (Ready now) x h1)"

datatype sse_input = ClientGone | ChannelReady | KeepAlive

text \<open>One round of the loop. A channel that is empty and open is not ready, so nothing happens.\<close>

(* src: internal/api/events.go 258-278 User.events *)
definition sse_step :: "bool \<Rightarrow> sse_input \<Rightarrow> sse \<Rightarrow> hub \<Rightarrow> (sse \<times> hub) option" where
  "sse_step ok i x h = (case i of
     ClientGone \<Rightarrow> leave x h
   | KeepAlive \<Rightarrow> write_frame ok PingFrame x h
   | ChannelReady \<Rightarrow> (case hb_chans h (se_ch x) of
        None \<Rightarrow> Some (x, h)
      | Some ch \<Rightarrow> (case ch_buf ch of
           [] \<Rightarrow> if ch_closed ch then leave x h else Some (x, h)
         | ev # rest \<Rightarrow> write_frame ok (Frame ev) x (h\<lparr>hb_chans := (hb_chans h)(se_ch x \<mapsto> ch\<lparr>ch_buf := rest\<rparr>)\<rparr>))))"

text \<open>The answer to a request that opens no stream, or the channel.\<close>

(* src: internal/api/events.go 206-221 User.events *)
definition events_guard :: "hub option \<Rightarrow> user \<Rightarrow> web_request \<Rightarrow> unit api_answer + nat \<times> hub" where
  "events_guard ho user r =
    (if wr_method r \<noteq> ''GET'' then Inl (not_allowed ''GET'')
     else (case ho of
        None \<Rightarrow> Inl (api_error 503 ''realtime updates are not available'')
      | Some h \<Rightarrow> (case Subscribe (us_id user) h of
           None \<Rightarrow> Inl ((api_error 429 ''too many open event streams'')\<lparr>aa_headers := [(''Retry-After'', ''5'')]\<rparr>)
         | Some x \<Rightarrow> Inr x)))"

section \<open>All streams\<close>

text \<open>The hub, the connections, and everything that was published, with the account.\<close>

record hub_system =
  hy_hub :: hub
  hy_sses :: "sse list"
  hy_log :: "(string \<times> web_event) list"

inductive hub_run :: "hub_system \<Rightarrow> bool" where
  start: "hub_run \<lparr>hy_hub = NewEventHub, hy_sses = [], hy_log = []\<rparr>"
| connect: "hub_run y \<Longrightarrow> events_guard (Some (hy_hub y)) user r = Inr (c, h) \<Longrightarrow> open_sse now ok1 ok2 (us_id user) c h = Some (x, h') \<Longrightarrow>
    hub_run (y\<lparr>hy_hub := h', hy_sses := hy_sses y @ [x]\<rparr>)"
| publish: "hub_run y \<Longrightarrow> Publish now u ev (hy_hub y) = Some h \<Longrightarrow>
    hub_run (y\<lparr>hy_hub := h, hy_log := hy_log y @ [(u, if we_at ev = 0 then ev\<lparr>we_at := now\<rparr> else ev)]\<rparr>)"
| advance: "hub_run y \<Longrightarrow> n < length (hy_sses y) \<Longrightarrow> \<not> se_done (hy_sses y ! n) \<Longrightarrow>
    sse_step ok i (hy_sses y ! n) (hy_hub y) = Some (x, h) \<Longrightarrow> hub_run (y\<lparr>hy_hub := h, hy_sses := (hy_sses y)[n := x]\<rparr>)"
| shutdown: "hub_run y \<Longrightarrow> CloseHub (hy_hub y) = Some h \<Longrightarrow> hub_run (y\<lparr>hy_hub := h\<rparr>)"

section \<open>The hub is safe\<close>

definition hub_ok :: "hub \<Rightarrow> bool" where
  "hub_ok h \<longleftrightarrow> distinct (map snd (hb_subs h)) \<and>
     (\<forall>u c. (u, c) \<in> set (hb_subs h) \<longrightarrow> u \<noteq> [] \<and> (\<exists>ch. hb_chans h c = Some ch \<and> \<not> ch_closed ch)) \<and>
     (\<forall>c ch. hb_chans h c = Some ch \<longrightarrow> c < hb_next h \<and> length (ch_buf ch) \<le> sseEventBuffer) \<and>
     (\<forall>u. length (streams_of u h) \<le> maxStreamsPerUser) \<and> (hb_closed h \<longrightarrow> hb_subs h = [])"

text \<open>The events a connection was sent, and those that were published for an account.\<close>

definition sent_events :: "sse \<Rightarrow> web_event list" where
  "sent_events x = concat (map (\<lambda>f. case f of Frame ev \<Rightarrow> [ev] | _ \<Rightarrow> []) (se_out x))"

definition published :: "string \<Rightarrow> (string \<times> web_event) list \<Rightarrow> web_event list" where
  "published u l = map snd (filter (\<lambda>p. fst p = u) l)"

definition stream_ok :: "(string \<times> web_event) list \<Rightarrow> hub \<Rightarrow> sse \<Rightarrow> bool" where
  "stream_ok l h x \<longleftrightarrow> se_once x = se_done x \<and> subseq (sent_events x) (published (se_user x) l) \<and>
     (\<exists>ch. hb_chans h (se_ch x) = Some ch \<and> (\<not> se_done x \<longrightarrow> (\<not> ch_closed ch \<longrightarrow> (se_user x, se_ch x) \<in> set (hb_subs h)) \<and>
        subseq (sent_events x @ ch_buf ch) (published (se_user x) l)))"

text \<open>What a step of one connection leaves alone.\<close>

definition elsewhere :: "nat \<Rightarrow> hub \<Rightarrow> hub \<Rightarrow> bool" where
  "elsewhere c h h' \<longleftrightarrow> hb_next h' = hb_next h \<and> hb_closed h' = hb_closed h \<and> (\<forall>d. d \<noteq> c \<longrightarrow> hb_chans h' d = hb_chans h d) \<and>
     (\<forall>p. snd p \<noteq> c \<longrightarrow> p \<in> set (hb_subs h) \<longrightarrow> p \<in> set (hb_subs h'))"

lemma elsewhere_refl [simp]: "elsewhere c h h"
  by (simp add: elsewhere_def)

lemma elsewhere_trans: "elsewhere c h h' \<Longrightarrow> elsewhere c h' h'' \<Longrightarrow> elsewhere c h h''"
  by (auto simp: elsewhere_def)

lemma stream_ok_elsewhere: "stream_ok l h y \<Longrightarrow> elsewhere c h h' \<Longrightarrow> se_ch y \<noteq> c \<Longrightarrow> stream_ok l h' y"
  by (auto simp: stream_ok_def elsewhere_def)

lemma length_filter_filter: "length (filter P (filter Q xs)) \<le> length (filter P xs)"
  by (induction xs) auto

lemma subseq_drop_mid: "subseq (a @ b) zs \<Longrightarrow> subseq a zs"
  using subseq_order.trans list_emb_append2 by (metis append_Nil2 list_emb_append_mono list_emb_Nil subseq_order.order_refl)

lemma unsubscribe_ok:
  assumes "hub_ok h" "stream_ok l h x"
  shows "\<exists>h' ch. unsubscribe (se_user x) (se_ch x) h = Some h' \<and> hub_ok h' \<and> elsewhere (se_ch x) h h' \<and> hb_chans h' (se_ch x) = Some ch"
proof (cases "(se_user x, se_ch x) \<in> set (hb_subs h)")
  case False
  then show ?thesis using assms by (auto simp: unsubscribe_def stream_ok_def)
next
  case True
  then obtain ch where ch: "hb_chans h (se_ch x) = Some ch" "\<not> ch_closed ch"
    using assms(1) unfolding hub_ok_def by blast
  let ?h = "h\<lparr>hb_subs := filter (\<lambda>y. y \<noteq> (se_user x, se_ch x)) (hb_subs h),
     hb_chans := (hb_chans h)(se_ch x \<mapsto> ch\<lparr>ch_closed := True\<rparr>)\<rparr>"
  have r: "unsubscribe (se_user x) (se_ch x) h = Some ?h" using True ch by (simp add: unsubscribe_def shut_channel_def)
  have d: "distinct (map snd (hb_subs h))" using assms(1) by (simp add: hub_ok_def)
  have one: "u = se_user x" if "(u, se_ch x) \<in> set (hb_subs h)" for u
    using inj_onD [of snd "set (hb_subs h)" "(u, se_ch x)" "(se_user x, se_ch x)"] d True that by (simp add: distinct_map)
  have len: "length (streams_of u ?h) \<le> maxStreamsPerUser" for u
  proof -
    have "length (streams_of u h) \<le> maxStreamsPerUser" using assms(1) by (simp add: hub_ok_def)
    then show ?thesis
      using order_trans [OF length_filter_filter [of "\<lambda>y. fst y = u" "\<lambda>y. y \<noteq> (se_user x, se_ch x)" "hb_subs h"]]
      by (simp add: streams_of_def)
  qed
  have "hub_ok ?h"
    unfolding hub_ok_def
  proof (intro conjI)
    show "distinct (map snd (hb_subs ?h))" using d by (simp add: distinct_map_filter)
    show "\<forall>u c. (u, c) \<in> set (hb_subs ?h) \<longrightarrow> u \<noteq> [] \<and> (\<exists>ch. hb_chans ?h c = Some ch \<and> \<not> ch_closed ch)"
      using assms(1) one by (auto simp: hub_ok_def)
    show "\<forall>c ch. hb_chans ?h c = Some ch \<longrightarrow> c < hb_next ?h \<and> length (ch_buf ch) \<le> sseEventBuffer"
      using assms(1) ch by (auto simp: hub_ok_def)
    show "\<forall>u. length (streams_of u ?h) \<le> maxStreamsPerUser" using len by blast
    show "hb_closed ?h \<longrightarrow> hb_subs ?h = []" using assms(1) by (auto simp: hub_ok_def)
  qed
  moreover have "elsewhere (se_ch x) h ?h" by (auto simp: elsewhere_def)
  ultimately show ?thesis using r by auto
qed

text \<open>The outcome of a step of a connection.\<close>

definition stepped :: "(string \<times> web_event) list \<Rightarrow> sse \<Rightarrow> hub \<Rightarrow> (sse \<times> hub) option \<Rightarrow> bool" where
  "stepped l x h r \<longleftrightarrow> (\<exists>x' h'. r = Some (x', h') \<and> hub_ok h' \<and> stream_ok l h' x' \<and> se_ch x' = se_ch x \<and> se_user x' = se_user x \<and>
     elsewhere (se_ch x) h h')"

lemma leave_ok:
  assumes "hub_ok h" "stream_ok l h x" shows "stepped l x h (leave x h)"
proof (cases "se_once x")
  case True
  then show ?thesis using assms by (auto simp: stepped_def leave_def close_stream_def stream_ok_def sent_events_def)
next
  case False
  obtain h' ch where "unsubscribe (se_user x) (se_ch x) h = Some h'" "hub_ok h'" "elsewhere (se_ch x) h h'" "hb_chans h' (se_ch x) = Some ch"
    using unsubscribe_ok [OF assms] by blast
  then show ?thesis using assms(2) False by (simp add: stepped_def leave_def close_stream_def stream_ok_def sent_events_def)
qed

lemma write_frame_ok:
  assumes "hub_ok h" "stream_ok l h x" "\<And>ev. f \<noteq> Frame ev" shows "stepped l x h (write_frame ok f x h)"
proof (cases ok)
  case True
  have "sent_events (x\<lparr>se_out := se_out x @ [f]\<rparr>) = sent_events x" using assms(3) by (cases f) (auto simp: sent_events_def)
  then show ?thesis using True assms(1,2) by (simp add: stepped_def write_frame_def stream_ok_def)
next
  case False
  then show ?thesis using leave_ok [OF assms(1,2)] by (simp add: write_frame_def)
qed

lemma receive_ok:
  assumes "hub_ok h" "stream_ok l h x" "\<not> se_done x" "hb_chans h (se_ch x) = Some ch" "ch_buf ch = ev # rest"
  shows "stepped l x h (write_frame ok (Frame ev) x (h\<lparr>hb_chans := (hb_chans h)(se_ch x \<mapsto> ch\<lparr>ch_buf := rest\<rparr>)\<rparr>))"
proof -
  let ?h = "h\<lparr>hb_chans := (hb_chans h)(se_ch x \<mapsto> ch\<lparr>ch_buf := rest\<rparr>)\<rparr>"
  let ?x = "x\<lparr>se_out := se_out x @ [Frame ev]\<rparr>"
  have s: "subseq (sent_events x @ ev # rest) (published (se_user x) l)" using assms by (auto simp: stream_ok_def)
  have "subseq (sent_events x @ rest) (sent_events x @ ev # rest)" by (intro list_emb_append_mono) auto
  then have s': "subseq (sent_events x @ rest) (published (se_user x) l)" using s by (rule subseq_order.order_trans)
  have len: "length (ch_buf ch) \<le> sseEventBuffer" "se_ch x < hb_next h" using assms(1,4) by (auto simp: hub_ok_def)
  have h: "hub_ok ?h"
    unfolding hub_ok_def
  proof (intro conjI)
    show "distinct (map snd (hb_subs ?h))" using assms(1) by (simp add: hub_ok_def)
    show "\<forall>u c. (u, c) \<in> set (hb_subs ?h) \<longrightarrow> u \<noteq> [] \<and> (\<exists>ch. hb_chans ?h c = Some ch \<and> \<not> ch_closed ch)"
      using assms(1,4) by (fastforce simp: hub_ok_def)
    show "\<forall>c ch. hb_chans ?h c = Some ch \<longrightarrow> c < hb_next ?h \<and> length (ch_buf ch) \<le> sseEventBuffer"
      using assms(1,5) len by (auto simp: hub_ok_def)
    show "\<forall>u. length (streams_of u ?h) \<le> maxStreamsPerUser" using assms(1) by (simp add: hub_ok_def streams_of_def)
    show "hb_closed ?h \<longrightarrow> hb_subs ?h = []" using assms(1) by (simp add: hub_ok_def)
  qed
  have e: "elsewhere (se_ch x) h ?h" by (simp add: elsewhere_def)
  have o1: "stream_ok l ?h x" using assms(2-4) s' by (simp add: stream_ok_def)
  have dx: "sent_events ?x = sent_events x @ [ev]" by (simp add: sent_events_def)
  have "subseq (sent_events x @ [ev]) (published (se_user x) l)" 
    by (rule subseq_drop_mid [where b = rest]) (use s in simp)
  then have o2: "stream_ok l ?h ?x" using assms(2-4) s by (simp add: stream_ok_def dx)
  show ?thesis
  proof (cases ok)
    case True
    then show ?thesis using h e o2 by (simp add: stepped_def write_frame_def)
  next
    case False
    obtain x' h' where r: "leave x ?h = Some (x', h')" "hub_ok h'" "stream_ok l h' x'" "se_ch x' = se_ch x" "se_user x' = se_user x"
      "elsewhere (se_ch x) ?h h'" using leave_ok [OF h o1] unfolding stepped_def by metis
    have "write_frame ok (Frame ev) x ?h = Some (x', h')" using False r(1) by (simp add: write_frame_def)
    then show ?thesis unfolding stepped_def using r(2-5) elsewhere_trans [OF e r(6)] by blast
  qed
qed

lemma sse_step_ok:
  assumes "hub_ok h" "stream_ok l h x" "\<not> se_done x" shows "stepped l x h (sse_step ok i x h)"
proof (cases i)
  case ClientGone
  then show ?thesis using leave_ok [OF assms(1,2)] by (simp add: sse_step_def)
next
  case KeepAlive
  then show ?thesis using write_frame_ok [OF assms(1,2)] by (simp add: sse_step_def)
next
  case ChannelReady
  obtain ch where ch: "hb_chans h (se_ch x) = Some ch" using assms(2) by (auto simp: stream_ok_def)
  show ?thesis
  proof (cases "ch_buf ch")
    case Nil
    then show ?thesis using ChannelReady ch assms leave_ok [OF assms(1,2)] by (simp add: sse_step_def) (simp add: stepped_def)
  next
    case (Cons ev rest)
    then show ?thesis using ChannelReady ch receive_ok [OF assms ch Cons] by (simp add: sse_step_def)
  qed
qed

text \<open>Publishing: every channel in turn gets the event or is left as it is.\<close>

definition offered :: "web_event \<Rightarrow> nat set \<Rightarrow> hub \<Rightarrow> hub \<Rightarrow> bool" where
  "offered ev C h h' \<longleftrightarrow> hb_subs h' = hb_subs h \<and> hb_closed h' = hb_closed h \<and> hb_next h' = hb_next h \<and>
     (\<forall>c. hb_chans h' c = hb_chans h c \<or>
        (\<exists>ch. c \<in> C \<and> hb_chans h c = Some ch \<and> length (ch_buf ch) < sseEventBuffer \<and> \<not> ch_closed ch \<and>
           hb_chans h' c = Some (ch\<lparr>ch_buf := ch_buf ch @ [ev]\<rparr>)))"

lemma each_offer:
  assumes "distinct cs" "\<forall>c\<in>set cs. \<exists>ch. hb_chans h c = Some ch \<and> \<not> ch_closed ch"
  shows "\<exists>h'. each_channel (offer ev) cs h = Some h' \<and> offered ev (set cs) h h'"
  using assms
proof (induction cs arbitrary: h)
  case Nil
  then show ?case by (simp add: offered_def)
next
  case (Cons c cs)
  then obtain ch where ch: "hb_chans h c = Some ch" "\<not> ch_closed ch" by auto
  let ?h = "if length (ch_buf ch) < sseEventBuffer then h\<lparr>hb_chans := (hb_chans h)(c \<mapsto> ch\<lparr>ch_buf := ch_buf ch @ [ev]\<rparr>)\<rparr> else h"
  have o1: "offer ev c h = Some ?h" using ch by (simp add: offer_def)
  have same: "hb_chans ?h d = hb_chans h d" if "d \<noteq> c" for d using that by simp
  have dist: "distinct cs" "c \<notin> set cs" using Cons.prems(1) by auto
  have "\<forall>d\<in>set cs. \<exists>ch. hb_chans ?h d = Some ch \<and> \<not> ch_closed ch"
  proof
    fix d assume "d \<in> set cs"
    then show "\<exists>ch. hb_chans ?h d = Some ch \<and> \<not> ch_closed ch" using Cons.prems(2) dist(2) same [of d] by force
  qed
  from Cons.IH [OF dist(1) this] obtain h' where h': "each_channel (offer ev) cs ?h = Some h'" "offered ev (set cs) ?h h'" by blast
  have "offered ev (set (c # cs)) h h'"
    unfolding offered_def
  proof (intro conjI allI)
    show "hb_subs h' = hb_subs h" "hb_closed h' = hb_closed h" "hb_next h' = hb_next h" using h'(2) by (simp_all add: offered_def)
    fix d
    show "hb_chans h' d = hb_chans h d \<or> (\<exists>ch. d \<in> set (c # cs) \<and> hb_chans h d = Some ch \<and> length (ch_buf ch) < sseEventBuffer \<and>
        \<not> ch_closed ch \<and> hb_chans h' d = Some (ch\<lparr>ch_buf := ch_buf ch @ [ev]\<rparr>))"
    proof (cases "d = c")
      case True
      then have "hb_chans h' c = hb_chans ?h c" using h'(2) dist(2) unfolding offered_def by blast
      then show ?thesis using True ch by (cases "length (ch_buf ch) < sseEventBuffer") simp_all
    next
      case False
      then show ?thesis using h'(2) same [OF False] unfolding offered_def by (metis list.set_intros(2))
    qed
  qed
  then show ?case using o1 h'(1) by simp
qed

lemma offered_hub_ok: "hub_ok h \<Longrightarrow> offered ev C h h' \<Longrightarrow> hub_ok h'"
  unfolding hub_ok_def
proof (elim conjE, intro conjI)
  assume h: "distinct (map snd (hb_subs h))" "\<forall>u c. (u, c) \<in> set (hb_subs h) \<longrightarrow> u \<noteq> [] \<and> (\<exists>ch. hb_chans h c = Some ch \<and> \<not> ch_closed ch)"
    "\<forall>c ch. hb_chans h c = Some ch \<longrightarrow> c < hb_next h \<and> length (ch_buf ch) \<le> sseEventBuffer"
    "\<forall>u. length (streams_of u h) \<le> maxStreamsPerUser" "hb_closed h \<longrightarrow> hb_subs h = []" and o1: "offered ev C h h'"
  then show "distinct (map snd (hb_subs h'))" "\<forall>u. length (streams_of u h') \<le> maxStreamsPerUser" "hb_closed h' \<longrightarrow> hb_subs h' = []"
    by (simp_all add: offered_def streams_of_def)
  show "\<forall>u c. (u, c) \<in> set (hb_subs h') \<longrightarrow> u \<noteq> [] \<and> (\<exists>ch. hb_chans h' c = Some ch \<and> \<not> ch_closed ch)"
  proof (intro allI impI)
    fix u c assume "(u, c) \<in> set (hb_subs h')"
    then have "u \<noteq> [] \<and> (\<exists>ch. hb_chans h c = Some ch \<and> \<not> ch_closed ch)" using h(2) o1 by (simp add: offered_def)
    moreover have "hb_chans h' c = hb_chans h c \<or> (\<exists>ch. \<not> ch_closed ch \<and> hb_chans h' c = Some (ch\<lparr>ch_buf := ch_buf ch @ [ev]\<rparr>))"
      using o1 unfolding offered_def by blast
    ultimately show "u \<noteq> [] \<and> (\<exists>ch. hb_chans h' c = Some ch \<and> \<not> ch_closed ch)" by auto
  qed
  show "\<forall>c ch. hb_chans h' c = Some ch \<longrightarrow> c < hb_next h' \<and> length (ch_buf ch) \<le> sseEventBuffer"
  proof (intro allI impI)
    fix c ch assume c: "hb_chans h' c = Some ch"
    have "hb_chans h' c = hb_chans h c \<or> (\<exists>ch. hb_chans h c = Some ch \<and> length (ch_buf ch) < sseEventBuffer \<and>
        hb_chans h' c = Some (ch\<lparr>ch_buf := ch_buf ch @ [ev]\<rparr>))"
      using o1 unfolding offered_def by blast
    moreover have "hb_next h' = hb_next h" using o1 by (simp add: offered_def)
    ultimately show "c < hb_next h' \<and> length (ch_buf ch) \<le> sseEventBuffer" using c h(3) by (elim disjE exE) auto
  qed
qed

lemma published_grows: "subseq xs (published u l) \<Longrightarrow> subseq xs (published u (l @ k))"
  using list_emb_append_mono [of "(=)" xs "published u l" "[]" "published u k"] by (simp add: published_def)

lemma offered_stream_ok:
  assumes "hub_ok h" "offered ev (set (streams_of u h)) h h'" "stream_ok l h x"
  shows "stream_ok (l @ [(u, ev)]) h' x"
proof -
  obtain ch where ch: "hb_chans h (se_ch x) = Some ch" "se_once x = se_done x" "subseq (sent_events x) (published (se_user x) l)"
    and live: "\<not> se_done x \<Longrightarrow> (\<not> ch_closed ch \<longrightarrow> (se_user x, se_ch x) \<in> set (hb_subs h)) \<and>
        subseq (sent_events x @ ch_buf ch) (published (se_user x) l)"
    using assms(3) by (auto simp: stream_ok_def)
  have subs: "hb_subs h' = hb_subs h" using assms(2) by (simp add: offered_def)
  consider "hb_chans h' (se_ch x) = Some ch" |
    "se_ch x \<in> set (streams_of u h)" "\<not> ch_closed ch" "hb_chans h' (se_ch x) = Some (ch\<lparr>ch_buf := ch_buf ch @ [ev]\<rparr>)"
    using assms(2) ch(1) unfolding offered_def by (metis option.inject)
  then show ?thesis
  proof cases
    case 1
    then show ?thesis using ch(2,3) live published_grows by (auto simp: stream_ok_def subs)
  next
    case 2
    have "(u, se_ch x) \<in> set (hb_subs h)" using 2(1) by (auto simp: streams_of_def)
    then have "se_user x = u" if "\<not> se_done x"
      using inj_onD [of snd "set (hb_subs h)" "(u, se_ch x)" "(se_user x, se_ch x)"] live that 2(2) assms(1) by (auto simp: hub_ok_def distinct_map)
    then have "subseq (sent_events x @ ch_buf ch @ [ev]) (published (se_user x) (l @ [(u, ev)]))" if "\<not> se_done x"
      using live that list_emb_append_mono [of "(=)" "sent_events x @ ch_buf ch" "published u l" "[ev]" "[ev]"]
      by (simp add: published_def)
    then show ?thesis using 2 ch(2,3) live published_grows by (auto simp: stream_ok_def subs)
  qed
qed

lemma streams_of_open:
  assumes "hub_ok h"
  shows "distinct (streams_of u h)" "\<forall>c\<in>set (streams_of u h). \<exists>ch. hb_chans h c = Some ch \<and> \<not> ch_closed ch"
proof -
  show "distinct (streams_of u h)" using assms by (simp add: hub_ok_def streams_of_def distinct_map_filter)
  show "\<forall>c\<in>set (streams_of u h). \<exists>ch. hb_chans h c = Some ch \<and> \<not> ch_closed ch"
  proof
    fix c assume "c \<in> set (streams_of u h)"
    then have "(u, c) \<in> set (hb_subs h)" by (auto simp: streams_of_def)
    then show "\<exists>ch. hb_chans h c = Some ch \<and> \<not> ch_closed ch" using assms unfolding hub_ok_def by blast
  qed
qed

lemma Publish_ok:
  assumes "hub_ok h"
  shows "\<exists>h'. Publish now u ev h = Some h' \<and> hub_ok h' \<and>
    (\<forall>l x. stream_ok l h x \<longrightarrow> stream_ok (l @ [(u, if we_at ev = 0 then ev\<lparr>we_at := now\<rparr> else ev)]) h' x)"
proof (cases "u = [] \<or> hb_closed h")
  case True
  then show ?thesis using assms published_grows by (auto simp: Publish_def stream_ok_def)
next
  case False
  let ?e = "if we_at ev = 0 then ev\<lparr>we_at := now\<rparr> else ev"
  obtain h' where h': "each_channel (offer ?e) (streams_of u h) h = Some h'" "offered ?e (set (streams_of u h)) h h'"
    using each_offer [OF streams_of_open [OF assms]] by blast
  have "Publish now u ev h = Some h'" using False h'(1) by (simp only: Publish_def if_False)
  then show ?thesis using offered_hub_ok [OF assms h'(2)] offered_stream_ok [OF assms h'(2)] by blast
qed

text \<open>The shutdown closes every channel once.\<close>

lemma each_shut:
  assumes "distinct cs" "\<forall>c\<in>set cs. \<exists>ch. hb_chans h c = Some ch \<and> \<not> ch_closed ch"
  shows "\<exists>h'. each_channel shut_channel cs h = Some h' \<and> hb_subs h' = hb_subs h \<and> hb_closed h' = hb_closed h \<and> hb_next h' = hb_next h \<and>
    (\<forall>c. hb_chans h' c = (if c \<in> set cs then map_option (\<lambda>ch. ch\<lparr>ch_closed := True\<rparr>) (hb_chans h c) else hb_chans h c))"
  using assms
proof (induction cs arbitrary: h)
  case (Cons c cs)
  then obtain ch where ch: "hb_chans h c = Some ch" "\<not> ch_closed ch" by auto
  let ?h = "h\<lparr>hb_chans := (hb_chans h)(c \<mapsto> ch\<lparr>ch_closed := True\<rparr>)\<rparr>"
  have d: "distinct cs" "c \<notin> set cs" using Cons.prems(1) by auto
  have "\<forall>d\<in>set cs. \<exists>ch. hb_chans ?h d = Some ch \<and> \<not> ch_closed ch" using Cons.prems(2) d(2) by auto
  from Cons.IH [OF d(1) this] obtain h' where h': "each_channel shut_channel cs ?h = Some h'" "hb_subs h' = hb_subs h"
    "hb_closed h' = hb_closed h" "hb_next h' = hb_next h"
    "\<forall>c. hb_chans h' c = (if c \<in> set cs then map_option (\<lambda>ch. ch\<lparr>ch_closed := True\<rparr>) (hb_chans ?h c) else hb_chans ?h c)" by auto
  have "shut_channel c h = Some ?h" using ch by (simp add: shut_channel_def)
  then have "each_channel shut_channel (c # cs) h = Some h'" using h'(1) by simp
  then show ?case using h'(2-5) ch d(2) by auto
qed simp

lemma CloseHub_ok:
  assumes "hub_ok h"
  shows "\<exists>h'. CloseHub h = Some h' \<and> hub_ok h' \<and> hb_closed h' \<and> (\<forall>l x. stream_ok l h x \<longrightarrow> stream_ok l h' x)"
proof (cases "hb_closed h")
  case True
  then show ?thesis using assms by (simp add: CloseHub_def)
next
  case False
  let ?cs = "map snd (hb_subs h)"
  have reg: "\<forall>c\<in>set ?cs. \<exists>ch. hb_chans h c = Some ch \<and> \<not> ch_closed ch"
  proof
    fix c assume "c \<in> set ?cs"
    then obtain u where "(u, c) \<in> set (hb_subs h)" by auto
    then show "\<exists>ch. hb_chans h c = Some ch \<and> \<not> ch_closed ch" using assms unfolding hub_ok_def by blast
  qed
  have "distinct ?cs" "\<forall>c\<in>set ?cs. \<exists>ch. hb_chans (h\<lparr>hb_closed := True\<rparr>) c = Some ch \<and> \<not> ch_closed ch"
    using assms reg by (simp_all add: hub_ok_def)
  from each_shut [OF this] obtain h' where h': "each_channel shut_channel ?cs (h\<lparr>hb_closed := True\<rparr>) = Some h'"
    "hb_closed h'" "hb_next h' = hb_next h"
    "\<forall>c. hb_chans h' c = (if c \<in> set ?cs then map_option (\<lambda>ch. ch\<lparr>ch_closed := True\<rparr>) (hb_chans h c) else hb_chans h c)" by auto
  let ?h = "h'\<lparr>hb_subs := []\<rparr>"
  have len: "\<forall>c ch. hb_chans h c = Some ch \<longrightarrow> c < hb_next h \<and> length (ch_buf ch) \<le> sseEventBuffer" using assms by (simp add: hub_ok_def)
  have "c < hb_next ?h \<and> length (ch_buf ch) \<le> sseEventBuffer" if "hb_chans ?h c = Some ch" for c ch
    using that len h'(3,4) by (cases "c \<in> set ?cs") auto
  then have "hub_ok ?h" by (simp add: hub_ok_def streams_of_def)
  moreover have "stream_ok l ?h x" if x: "stream_ok l h x" for l x
  proof -
    obtain ch where ch: "hb_chans h (se_ch x) = Some ch" "se_once x = se_done x" "subseq (sent_events x) (published (se_user x) l)"
      "\<not> se_done x \<Longrightarrow> (\<not> ch_closed ch \<longrightarrow> (se_user x, se_ch x) \<in> set (hb_subs h)) \<and>
        subseq (sent_events x @ ch_buf ch) (published (se_user x) l)" using x by (auto simp: stream_ok_def)
    have "se_ch x \<in> set ?cs" if "(se_user x, se_ch x) \<in> set (hb_subs h)" using that by (force simp: image_iff)
    then have "\<exists>ch'. hb_chans h' (se_ch x) = Some ch' \<and> ch_buf ch' = ch_buf ch \<and>
        (\<not> se_done x \<longrightarrow> ch_closed ch')" using ch(1,4) h'(4) by (cases "se_ch x \<in> set ?cs") auto
    then show ?thesis using ch(2-4) by (auto simp: stream_ok_def)
  qed
  moreover have "CloseHub h = Some ?h" using False h'(1) by (simp add: CloseHub_def)
  ultimately show ?thesis using h'(2) by simp
qed

text \<open>A new connection.\<close>

definition fresh_sse :: "string \<Rightarrow> nat \<Rightarrow> sse" where
  "fresh_sse u c = \<lparr>se_user = u, se_ch = c, se_once = False, se_out = [], se_done = False\<rparr>"

lemma Subscribe_ok:
  assumes "hub_ok h" "Subscribe u h = Some (c, h')"
  shows "hub_ok h' \<and> stream_ok l h' (fresh_sse u c) \<and> c = hb_next h \<and> (\<forall>l x. stream_ok l h x \<longrightarrow> stream_ok l h' x \<and> se_ch x \<noteq> c)"
proof -
  have u: "u \<noteq> []" "\<not> hb_closed h" "length (streams_of u h) < maxStreamsPerUser" and c: "c = hb_next h"
    and h': "h' = h\<lparr>hb_subs := hb_subs h @ [(u, c)], hb_next := Suc c, hb_chans := (hb_chans h)(c \<mapsto> \<lparr>ch_buf = [], ch_closed = False\<rparr>)\<rparr>"
    using assms(2) by (auto simp: Subscribe_def split: if_splits)
  have no: "hb_chans h c = None" using assms(1) c unfolding hub_ok_def by (metis less_irrefl not_None_eq)
  then have out: "c \<notin> snd ` set (hb_subs h)" using assms(1) unfolding hub_ok_def by force
  have "hub_ok h'"
    unfolding hub_ok_def
  proof (intro conjI)
    show "distinct (map snd (hb_subs h'))" using assms(1) out by (simp add: h' hub_ok_def)
    show "\<forall>v d. (v, d) \<in> set (hb_subs h') \<longrightarrow> v \<noteq> [] \<and> (\<exists>ch. hb_chans h' d = Some ch \<and> \<not> ch_closed ch)"
      using assms(1) out u(1) by (auto simp: h' hub_ok_def)
    show "\<forall>d ch. hb_chans h' d = Some ch \<longrightarrow> d < hb_next h' \<and> length (ch_buf ch) \<le> sseEventBuffer"
      using assms(1) c by (auto simp: h' hub_ok_def intro: less_SucI)
    show "\<forall>v. length (streams_of v h') \<le> maxStreamsPerUser"
      using assms(1) u(3) by (auto simp: h' hub_ok_def streams_of_def)
    show "hb_closed h' \<longrightarrow> hb_subs h' = []" using u(2) by (simp add: h')
  qed
  moreover have "stream_ok l h' (fresh_sse u c)" by (simp add: stream_ok_def fresh_sse_def h' sent_events_def)
  moreover have "stream_ok l h' x \<and> se_ch x \<noteq> c" if "stream_ok l h x" for l x
    using that no by (auto simp: stream_ok_def h')
  ultimately show ?thesis using c by blast
qed

lemma open_sse_ok:
  assumes "hub_ok h" "stream_ok l h (fresh_sse u c)"
  shows "stepped l (fresh_sse u c) h (open_sse now ok1 ok2 u c h)"
proof -
  obtain x h1 where x: "write_frame ok1 Retry (fresh_sse u c) h = Some (x, h1)" "hub_ok h1" "stream_ok l h1 x" "se_ch x = c" "se_user x = u"
    "elsewhere c h h1"
    using write_frame_ok [OF assms, of Retry ok1] by (auto simp: stepped_def fresh_sse_def)
  show ?thesis
  proof (cases "se_done x")
    case True
    then show ?thesis using x by (auto simp: stepped_def open_sse_def fresh_sse_def)
  next
    case False
    obtain y h2 where y: "write_frame ok2 (Ready now) x h1 = Some (y, h2)" "hub_ok h2" "stream_ok l h2 y" "se_ch y = c" "se_user y = u"
      "elsewhere c h1 h2"
      using write_frame_ok [OF x(2,3), of "Ready now" ok2] x(4,5) by (auto simp: stepped_def)
    then show ?thesis using x False elsewhere_trans [OF x(6) y(6)] by (simp add: stepped_def open_sse_def fresh_sse_def)
  qed
qed

section \<open>The system is safe\<close>

definition system_ok :: "hub_system \<Rightarrow> bool" where
  "system_ok y \<longleftrightarrow> hub_ok (hy_hub y) \<and> distinct (map se_ch (hy_sses y)) \<and> (\<forall>x\<in>set (hy_sses y). stream_ok (hy_log y) (hy_hub y) x)"

lemma sses_step:
  assumes "system_ok y" "n < length (hy_sses y)" "stepped (hy_log y) (hy_sses y ! n) (hy_hub y) (Some (x, h))"
  shows "system_ok (y\<lparr>hy_hub := h, hy_sses := (hy_sses y)[n := x]\<rparr>)"
proof -
  let ?z = "hy_sses y ! n"
  have x: "hub_ok h" "stream_ok (hy_log y) h x" "se_ch x = se_ch ?z" "elsewhere (se_ch ?z) (hy_hub y) h"
    using assms(3) by (auto simp: stepped_def)
  have "map se_ch ((hy_sses y)[n := x]) = map se_ch (hy_sses y)"
    using assms(2) x(3) by (simp add: map_update) (metis list_update_id nth_map)
  moreover have "stream_ok (hy_log y) h z" if z: "z \<in> set ((hy_sses y)[n := x])" for z
  proof -
    obtain k where k: "k < length (hy_sses y)" "z = (hy_sses y)[n := x] ! k" using z by (auto simp: in_set_conv_nth)
    show ?thesis
    proof (cases "k = n")
      case True
      then show ?thesis using k x(2) by simp
    next
      case False
      have "se_ch (hy_sses y ! k) \<noteq> se_ch ?z"
        using assms(1,2) k(1) False by (auto simp: system_ok_def distinct_conv_nth)
      moreover have "stream_ok (hy_log y) (hy_hub y) (hy_sses y ! k)" using assms(1) k(1) by (simp add: system_ok_def)
      ultimately show ?thesis using stream_ok_elsewhere x(4) k False by auto
    qed
  qed
  ultimately show ?thesis using assms(1) x(1) by (simp add: system_ok_def)
qed

lemma hub_run_ok: "hub_run y \<Longrightarrow> system_ok y"
proof (induction rule: hub_run.induct)
  case start
  then show ?case by (simp add: system_ok_def hub_ok_def NewEventHub_def streams_of_def)
next
  case (connect y user r c h now ok1 ok2 x h')
  have s: "Subscribe (us_id user) (hy_hub y) = Some (c, h)"
    using connect.hyps(2) by (auto simp: events_guard_def split: if_splits option.splits)
  have y: "hub_ok (hy_hub y)" "distinct (map se_ch (hy_sses y))" "\<And>z. z \<in> set (hy_sses y) \<Longrightarrow> stream_ok (hy_log y) (hy_hub y) z"
    using connect.IH by (auto simp: system_ok_def)
  have n: "hub_ok h" "stream_ok (hy_log y) h (fresh_sse (us_id user) c)"
    "\<And>z. z \<in> set (hy_sses y) \<Longrightarrow> stream_ok (hy_log y) h z \<and> se_ch z \<noteq> c"
    using Subscribe_ok [OF y(1) s] y(3) by blast+
  have x: "hub_ok h'" "stream_ok (hy_log y) h' x" "se_ch x = c" "elsewhere c h h'"
    using open_sse_ok [OF n(1,2), of now ok1 ok2] connect.hyps(3) by (auto simp: stepped_def fresh_sse_def)
  have "stream_ok (hy_log y) h' z" if "z \<in> set (hy_sses y)" for z
    using n(3) [OF that] stream_ok_elsewhere [OF _ x(4)] by blast
  moreover have "se_ch x \<notin> se_ch ` set (hy_sses y)" 
  proof
    assume "se_ch x \<in> se_ch ` set (hy_sses y)"
    then obtain z where "z \<in> set (hy_sses y)" "se_ch x = se_ch z" by (rule imageE)
    then show False using n(3) [of z] x(3) by simp
  qed
  ultimately show ?case using x(1,2) y(2) by (simp add: system_ok_def)
next
  case (publish y now u ev h)
  then show ?case using Publish_ok [of "hy_hub y" now u ev] by (auto simp: system_ok_def)
next
  case (advance y n ok i x h)
  have "stepped (hy_log y) (hy_sses y ! n) (hy_hub y) (sse_step ok i (hy_sses y ! n) (hy_hub y))"
    using advance by (intro sse_step_ok) (auto simp: system_ok_def)
  then show ?case using sses_step advance by metis
next
  case (shutdown y h)
  then show ?case using CloseHub_ok [of "hy_hub y"] by (auto simp: system_ok_def)
qed

text \<open>No goroutine of the hub panics. However the connections, the publishers and the shutdown are interleaved, a
  publisher never sends on a closed channel, the shutdown and the handlers never close a channel twice, and a handler
  can always take its next step.\<close>

theorem hub_never_panics:
  assumes "hub_run y"
  shows "Publish now u ev (hy_hub y) \<noteq> None \<and> CloseHub (hy_hub y) \<noteq> None \<and>
    (\<forall>x\<in>set (hy_sses y). \<not> se_done x \<longrightarrow> sse_step ok i x (hy_hub y) \<noteq> None) \<and>
    (\<forall>c h. Subscribe v (hy_hub y) = Some (c, h) \<longrightarrow> open_sse now ok1 ok2 v c h \<noteq> None)"
proof -
  note y = hub_run_ok [OF assms]
  then have h: "hub_ok (hy_hub y)" by (simp add: system_ok_def)
  have "sse_step ok i x (hy_hub y) \<noteq> None" if "x \<in> set (hy_sses y)" "\<not> se_done x" for x
  proof -
    have "stream_ok (hy_log y) (hy_hub y) x" using y that(1) by (simp add: system_ok_def)
    from sse_step_ok [OF h this that(2), of ok i] show ?thesis by (auto simp: stepped_def)
  qed
  moreover have "open_sse now ok1 ok2 v c g \<noteq> None" if "Subscribe v (hy_hub y) = Some (c, g)" for c g
    using open_sse_ok [of g "[]" v c now ok1 ok2] Subscribe_ok [OF h that] by (auto simp: stepped_def)
  moreover have "Publish now u ev (hy_hub y) \<noteq> None" using Publish_ok [OF h, of now u ev] by auto
  moreover have "CloseHub (hy_hub y) \<noteq> None" using CloseHub_ok [OF h] by auto
  ultimately show ?thesis by blast
qed

text \<open>A page is sent only events of its own account, each at most once and in the order in which they were published.\<close>

theorem stream_in_order:
  assumes "hub_run y" "x \<in> set (hy_sses y)"
  shows "subseq (sent_events x) (published (se_user x) (hy_log y))"
  using hub_run_ok [OF assms(1)] assms(2) by (auto simp: system_ok_def stream_ok_def)

text \<open>An account has at most sixteen streams open and a channel holds at most sixteen events; a closed hub has no
  streams and opens none.\<close>

theorem hub_bounds:
  assumes "hub_run y"
  shows "Streams u (hy_hub y) \<le> 16 \<and> (\<forall>c ch. hb_chans (hy_hub y) c = Some ch \<longrightarrow> length (ch_buf ch) \<le> 16) \<and>
    (hb_closed (hy_hub y) \<longrightarrow> Streams u (hy_hub y) = 0 \<and> Subscribe u (hy_hub y) = None)"
  using hub_run_ok [OF assms]
  by (auto simp: system_ok_def hub_ok_def Streams_def streams_of_def maxStreamsPerUser_def sseEventBuffer_def Subscribe_def)

text \<open>Rounds of a stream in which its channel is looked at and every write succeeds.\<close>

fun sse_rounds :: "nat \<Rightarrow> sse \<Rightarrow> hub \<Rightarrow> (sse \<times> hub) option" where
  "sse_rounds 0 x h = Some (x, h)"
| "sse_rounds (Suc n) x h = (if se_done x then Some (x, h)
     else Option.bind (sse_step True ChannelReady x h) (\<lambda>(x', h'). sse_rounds n x' h'))"

lemma rounds_end:
  assumes "hb_chans h (se_ch x) = Some ch" "ch_closed ch" "(se_user x, se_ch x) \<notin> set (hb_subs h)" "\<not> se_done x"
  shows "\<exists>x' h'. sse_rounds (Suc (length (ch_buf ch))) x h = Some (x', h') \<and> se_done x' \<and> sent_events x' = sent_events x @ ch_buf ch"
  using assms
proof (induction "ch_buf ch" arbitrary: ch x h)
  case Nil
  then show ?case by (auto simp: sse_step_def leave_def close_stream_def unsubscribe_def sent_events_def)
next
  case (Cons ev rest)
  let ?x = "x\<lparr>se_out := se_out x @ [Frame ev]\<rparr>" and ?h = "h\<lparr>hb_chans := (hb_chans h)(se_ch x \<mapsto> ch\<lparr>ch_buf := rest\<rparr>)\<rparr>"
  have step: "sse_step True ChannelReady x h = Some (?x, ?h)"
    using Cons.prems Cons.hyps(2) [symmetric] by (simp add: sse_step_def write_frame_def)
  have "\<exists>x' h'. sse_rounds (Suc (length (ch_buf (ch\<lparr>ch_buf := rest\<rparr>)))) ?x ?h = Some (x', h') \<and> se_done x' \<and>
      sent_events x' = sent_events ?x @ ch_buf (ch\<lparr>ch_buf := rest\<rparr>)"
    by (rule Cons.hyps(1)) (use Cons.prems in simp_all)
  then obtain x' h' where r: "sse_rounds (Suc (length rest)) ?x ?h = Some (x', h')" "se_done x'" "sent_events x' = sent_events ?x @ rest"
    by auto
  have "sse_rounds (Suc (Suc (length rest))) x h = Some (x', h')"
    using Cons.prems(4) step r(1) by (subst sse_rounds.simps(2)) (simp only: if_False bind.bind_lunit prod.case)
  moreover have "sent_events ?x = sent_events x @ [ev]" by (simp add: sent_events_def)
  ultimately show ?case using r(2,3) Cons.hyps(2) [symmetric] by simp
qed

text \<open>The shutdown ends every stream. Once the hub is closed, a handler returns within seventeen rounds, after it has
  written the events that were waiting.\<close>

theorem shutdown_ends_streams:
  assumes "hub_run y" "hb_closed (hy_hub y)" "x \<in> set (hy_sses y)" "\<not> se_done x"
  shows "\<exists>n x' h'. n \<le> 17 \<and> sse_rounds n x (hy_hub y) = Some (x', h') \<and> se_done x' \<and>
    (\<exists>ch. hb_chans (hy_hub y) (se_ch x) = Some ch \<and> sent_events x' = sent_events x @ ch_buf ch)"
proof -
  note y = hub_run_ok [OF assms(1)]
  obtain ch where ch: "hb_chans (hy_hub y) (se_ch x) = Some ch" "\<not> ch_closed ch \<longrightarrow> (se_user x, se_ch x) \<in> set (hb_subs (hy_hub y))"
    using y assms(3,4) by (auto simp: system_ok_def stream_ok_def)
  have e: "hb_subs (hy_hub y) = []" "length (ch_buf ch) \<le> 16" using y assms(2) ch(1) by (auto simp: system_ok_def hub_ok_def sseEventBuffer_def)
  from ch(2) e(1) have "ch_closed ch" "(se_user x, se_ch x) \<notin> set (hb_subs (hy_hub y))" by auto
  from rounds_end [OF ch(1) this assms(4)] obtain x' h' where
    "sse_rounds (Suc (length (ch_buf ch))) x (hy_hub y) = Some (x', h')" "se_done x'" "sent_events x' = sent_events x @ ch_buf ch" by blast
  then show ?thesis using ch(1) e(2) by (intro exI [of _ "Suc (length (ch_buf ch))"] exI [of _ x'] exI [of _ h']) simp
qed





section \<open>Example\<close>

definition demo_event_mail :: web_event where
  "demo_event_mail = NewMailEvent 2 ''hi'' [] ''a@x'' [] 7 1"

text \<open>One page is open, an event is published, the hub is closed.\<close>

definition demo_open :: "sse \<times> hub" where
  "demo_open = the (open_sse 0 True True ''u'' 0 (snd (the (Subscribe ''u'' NewEventHub))))"

definition demo_published :: hub where
  "demo_published = the (Publish 1 ''u'' demo_event_mail (snd demo_open))"

definition demo_closed :: hub_system where
  "demo_closed = \<lparr>hy_hub = the (CloseHub demo_published), hy_sses = [fst demo_open], hy_log = [(''u'', demo_event_mail)]\<rparr>"

lemma demo_run: "hub_run demo_closed"
proof -
  let ?h1 = "snd (the (Subscribe ''u'' NewEventHub))"
  have g: "events_guard (Some NewEventHub) demo_user (web_get [] Map.empty) = Inr (0, ?h1)"
    by (simp add: events_guard_def web_get_def Subscribe_def NewEventHub_def demo_user_def streams_of_def maxStreamsPerUser_def)
  have o1: "open_sse 0 True True (us_id demo_user) 0 ?h1 = Some (fst demo_open, snd demo_open)"
    by (simp add: demo_open_def demo_user_def open_sse_def write_frame_def)
  note c = hub_run.connect [OF hub_run.start, unfolded hub_system.simps, OF g o1]
  have s: "system_ok \<lparr>hy_hub = snd demo_open, hy_sses = [fst demo_open], hy_log = []\<rparr>" using hub_run_ok [OF c] by simp
  then have ok1: "hub_ok (snd demo_open)" by (simp add: system_ok_def)
  obtain h where h: "Publish 1 ''u'' demo_event_mail (snd demo_open) = Some h" "hub_ok h"
    using Publish_ok [OF ok1, of 1 "''u''" demo_event_mail] by blast
  have p: "Publish 1 ''u'' demo_event_mail (snd demo_open) = Some demo_published" "hub_ok demo_published"
    using h by (simp_all add: demo_published_def)
  have at: "we_at demo_event_mail = 1" by (simp add: demo_event_mail_def NewMailEvent_def Let_def)
  have c': "hub_run \<lparr>hy_hub = snd demo_open, hy_sses = [fst demo_open], hy_log = []\<rparr>" using c by simp
  have "hub_run \<lparr>hy_hub = demo_published, hy_sses = [fst demo_open], hy_log = [(''u'', demo_event_mail)]\<rparr>"
    using hub_run.publish [OF c', unfolded hub_system.simps, OF p(1)] by (simp add: at)
  moreover have "CloseHub demo_published = Some (the (CloseHub demo_published))" using CloseHub_ok [OF p(2)] by auto
  ultimately show ?thesis
    using hub_run.shutdown [of "\<lparr>hy_hub = demo_published, hy_sses = [fst demo_open], hy_log = [(''u'', demo_event_mail)]\<rparr>"]
    by (simp add: demo_closed_def)
qed

theorem hub_never_panics_witness: "Publish 5 ''u'' demo_event_mail (hy_hub demo_closed) \<noteq> None \<and> CloseHub (hy_hub demo_closed) \<noteq> None"
  using hub_never_panics [OF demo_run] by blast

theorem stream_in_order_witness: "subseq (sent_events (fst demo_open)) (published (se_user (fst demo_open)) [(''u'', demo_event_mail)])"
  using stream_in_order [OF demo_run, of "fst demo_open"] by (simp add: demo_closed_def)

theorem hub_bounds_witness: "Streams ''u'' (hy_hub demo_closed) \<le> 16"
  using hub_bounds [OF demo_run] by blast

lemma demo_closed_facts: "hb_closed (hy_hub demo_closed)" "fst demo_open \<in> set (hy_sses demo_closed)" "\<not> se_done (fst demo_open)"
  by (code_simp, simp add: demo_closed_def, code_simp)

theorem shutdown_ends_streams_witness:
  "\<exists>n x' h'. n \<le> 17 \<and> sse_rounds n (fst demo_open) (hy_hub demo_closed) = Some (x', h') \<and> se_done x'"
  using shutdown_ends_streams [OF demo_run demo_closed_facts] by blast


end
