(* ===== verification/ApiUser.thy ===== *)
theory ApiUser imports ApiItems ApiEvents ImapInv begin

text \<open>
  \<open>internal/api/user.go\<close>: the dispatch of the web API of an account, and what its handlers do to the tables. The locale
  \<open>account_store\<close> holds what the handlers rely on; it is interpreted for the invariant of the tables and for the rows
  of another account.
\<close>

section \<open>Dispatch\<close>

datatype user_payload =
    PSession session_view | PFolders "mail_folder_view list" | PConversations "int \<times> conversation_view list" | PThread thread_view
  | PReply sent_payload | PSend bool | PSearch "string \<times> nat \<times> hit_view list" | PMessage message_payload | PAttachment string
  | PCalendars "calendar_view list" | PCalendar calendar_payload | PContacts contact_payload | PStream nat

text \<open>The configuration with the decoders of JSON, and the state.\<close>

record web_server =
  wv_mail :: webmail
  wv_items :: web_items
  wv_token :: string
  wv_login :: "string \<Rightarrow> string + login_input"
  wv_reply :: "string \<Rightarrow> string + reply_input"
  wv_compose :: "string \<Rightarrow> string + compose_input"
  wv_event :: "string \<Rightarrow> string + event_input"
  wv_contact :: "string \<Rightarrow> string + contact_input"

record web_state =
  ws_store :: store
  ws_log :: send_log
  ws_lim :: "limiter option"
  ws_hub :: "hub option"

definition on_store :: "('a \<Rightarrow> user_payload) \<Rightarrow> (store \<Rightarrow> 'a api_answer \<times> store) \<Rightarrow> web_state \<Rightarrow> user_payload api_answer \<times> web_state" where
  "on_store P f w = (case f (ws_store w) of (a, s) \<Rightarrow> (map_answer P a, w\<lparr>ws_store := s\<rparr>))"

definition on_mail :: "('a \<Rightarrow> user_payload) \<Rightarrow> (webmail_world \<Rightarrow> 'a api_answer \<times> webmail_world) \<Rightarrow> web_state \<Rightarrow>
    user_payload api_answer \<times> web_state" where
  "on_mail P f w = (case f (ws_store w, ws_log w) of (a, s, log) \<Rightarrow> (map_answer P a, w\<lparr>ws_store := s, ws_log := log\<rparr>))"

definition trim_prefix :: "string \<Rightarrow> string \<Rightarrow> string" where
  "trim_prefix s p = (if has_prefix s p then drop (length p) s else s)"

(* src: internal/api/user.go 61-61 User.ServeHTTP *)
definition user_path :: "web_request \<Rightarrow> string" where
  "user_path r = trim_suffix (trim_prefix (wr_path r) ''/api/user'') ''/''"

text \<open>The handlers of an account that is logged in. A stream that is opened goes on as \<open>sse_step\<close>.\<close>

(* src: internal/api/user.go 73-104 User.ServeHTTP *)
definition serve_account :: "web_server \<Rightarrow> user \<Rightarrow> web_request \<Rightarrow> web_state \<Rightarrow> user_payload api_answer \<times> web_state" where
  "serve_account W u r w =
    (let path = user_path r; h = wv_mail W; L = wi_lib (wv_items W) in
     if path = ''/events'' then (case events_guard (ws_hub w) u r of
         Inl a \<Rightarrow> (map_answer (\<lambda>_. PStream 0) a, w)
       | Inr (c, hub) \<Rightarrow> (api_json 200 (PStream c), w\<lparr>ws_hub := Some hub\<rparr>))
     else if path = ''/mail/folders'' then on_store PFolders (web_mailFolders u r) w
     else if path = ''/mail/conversations'' then on_store PConversations (web_conversations u r) w
     else if path = ''/mail/thread'' then on_store PThread (web_thread h u r) w
     else if path = ''/mail/reply'' then on_mail PReply (web_reply h (wv_reply W) u r) w
     else if path = ''/mail/send'' then on_mail PSend (web_send h (wv_compose W) u r) w
     else if path = ''/mail/search'' then on_store PSearch (web_search L u r) w
     else if has_prefix path ''/mail/messages/'' then on_store PMessage (web_message h u r (trim_prefix path ''/mail/messages/'')) w
     else if has_prefix path ''/mail/attachments/'' then on_store PAttachment (web_attachment u r (trim_prefix path ''/mail/attachments/'')) w
     else if path = ''/calendars'' then on_store PCalendars (web_calendars (wv_items W) u r) w
     else if has_prefix path ''/calendars/'' then on_store PCalendar (web_calendar (wv_items W) (wv_event W) u r (trim_prefix path ''/calendars/'')) w
     else if path = ''/contacts'' then on_store PContacts (web_contacts L (wv_contact W) u r) w
     else if has_prefix path ''/contacts/'' then on_store PContacts (web_contact L (wv_contact W) u r (trim_prefix path ''/contacts/'')) w
     else (api_error 404 ''not found'', w))"

(* src: internal/api/user.go 57-105 User.ServeHTTP *)
definition serveUser :: "web_server \<Rightarrow> int \<Rightarrow> web_request \<Rightarrow> web_state \<Rightarrow> user_payload api_answer \<times> web_state" where
  "serveUser W now r w =
    (let L = wi_lib (wv_items W) in
     if user_path r = ''/session'' then
       (case user_session L (wv_token W) (wv_login W) now r (ws_lim w) (ws_store w) of
          (a, lim, s) \<Rightarrow> (map_answer PSession a, w\<lparr>ws_lim := lim, ws_store := s\<rparr>))
     else (case current_user L (wv_token W) now r (ws_store w) of
        (None, s) \<Rightarrow> (api_error 401 ''authentication required'', w\<lparr>ws_store := s\<rparr>)
      | (Some u, s) \<Rightarrow> serve_account W u r (w\<lparr>ws_store := s\<rparr>)))"

section \<open>Operations that only read\<close>

definition reading :: "(store, 'a) op \<Rightarrow> bool" where
  "reading m \<longleftrightarrow> (\<forall>s. st_db (snd (m s)) = st_db s)"

lemma reading_bindE: "reading m \<Longrightarrow> (\<And>x. reading (k x)) \<Longrightarrow> reading (bindE m k)"
  unfolding reading_def
proof (intro allI)
  fix s assume r: "\<forall>s. st_db (snd (m s)) = st_db s" "\<And>x. \<forall>s. st_db (snd (k x s)) = st_db s"
  obtain q t where q: "m s = (q, t)" by (cases "m s")
  then have "st_db t = st_db s" using r(1) [THEN spec, of s] by simp
  then show "st_db (snd (bindE m k s)) = st_db s" using q r(2) by (cases q) (simp_all add: bindE_def)
qed

lemma reading_intros:
  "reading (okE x)" "reading (failE e)" "reading (getAll q)" "reading (get_row p)"
  "(b \<Longrightarrow> reading m) \<Longrightarrow> (\<not> b \<Longrightarrow> reading n) \<Longrightarrow> reading (if b then m else n)"
  by (auto simp: reading_def getAll_def sql_def get_row_db)

lemmas reading_intros' = reading_intros reading_bindE

lemma readingD: "reading m \<Longrightarrow> m s = (r, s') \<Longrightarrow> st_db s' = st_db s"
  unfolding reading_def by (metis snd_conv)

lemma reading_store:
  "reading (FolderByID i)" "reading (FolderByType u t)" "reading (FolderByName u n)" "reading (FoldersByUser u)"
  "reading (CalendarFolders u)" "reading (FolderCounts u)" "reading (MessageMetaByID i)" "reading (AttachmentsByMessage i)"
  "reading (EventByID i)" "reading (ContactByID i)" "reading (EventsByFolder i)" "reading (EventsByFolderBetween i a b)"
  "reading (SearchContacts lw u q lim)" "reading (UserByID v)" "reading (AliasesByUser u)" "reading NewUUID"
  unfolding FolderByID_def FolderByType_def FolderByName_def FoldersByUser_def CalendarFolders_def FolderCounts_def MessageMetaByID_def
    message_query_def AttachmentsByMessage_def EventByID_def ContactByID_def EventsByFolder_def EventsByFolderBetween_def
    SearchContacts_def UserByID_def AliasesByUser_def Let_def
  by (intro reading_intros')+ (simp add: reading_def NewUUID_def)

lemma reading_conversations:
  "reading (mailFolderIDs u)" "reading (conversationScope u f)" "reading (ConversationSummaries u f lim)"
  "reading (ConversationMessages u key f lim)" "reading (ConversationMessagesAfter u key f a lim)" "reading (SearchMail lw u q f lim off)"
  "reading (AttachmentByID i)"
proof -
  note k = reading_intros' reading_store
  show m: "reading (mailFolderIDs u)" for u unfolding mailFolderIDs_def by (intro k)
  show c: "reading (conversationScope u f)" for u f
    unfolding conversationScope_def by (intro k m) (auto intro: k simp del: okE_simp)
  show "reading (ConversationSummaries u f lim)"
    unfolding ConversationSummaries_def messagesByID_def conversationFirstSubjects_def
    by (intro k m c) (auto intro!: k c m simp del: okE_simp split: prod.splits)
  show cm: "reading (ConversationMessages u key f lim)" for u key f lim
    unfolding ConversationMessages_def by (intro k c) (auto intro!: k simp del: okE_simp failE_simp split: option.splits prod.splits)
  show "reading (ConversationMessagesAfter u key f a lim)"
    unfolding reading_def
  proof
    fix s
    obtain q t where q: "conversationScope u f s = (q, t)" by (cases "conversationScope u f s")
    obtain p t2 where p: "MessageMetaByID a t = (p, t2)" by (cases "MessageMetaByID a t")
    have "st_db t = st_db s" "st_db t2 = st_db t" using readingD [OF c q] readingD [OF reading_store(7) p] by simp_all
    then show "st_db (snd (ConversationMessagesAfter u key f a lim s)) = st_db s"
      using q p
      by (cases q; cases p) (auto simp: ConversationMessagesAfter_def bindE_def cm [unfolded reading_def, THEN spec]
          reading_intros(3) [unfolded reading_def, THEN spec])
  qed
  show "reading (SearchMail lw u q f lim off)" unfolding SearchMail_def Let_def by (intro k)
  have "reading (\<lambda>s. if at_path a = [] then (Inr a, s) else if st_blobs s = None then (Inl ErrNoBlobDir, s)
     else bindE (blobGet (at_path a)) (\<lambda>stored. okE (a\<lparr>at_data := stored\<rparr>)) s)" for a
    using reading_bindE [of "blobGet (at_path a)" "\<lambda>stored. okE (a\<lparr>at_data := stored\<rparr>)"] blob_ops_db
    by (auto simp: reading_def)
  then show "reading (AttachmentByID i)" unfolding AttachmentByID_def by (intro k)
qed

text \<open>What a lookup finds.\<close>

lemma head_row: "filter P xs = y # ys \<Longrightarrow> y \<in> set xs \<and> P y"
  by (drule arg_cong [where f = set]) auto

lemma found_rows:
  "FolderByID i s = (Inr f, s') \<Longrightarrow> f \<in> set (tb_folders (st_db s)) \<and> fo_id f = i"
  "MessageMetaByID i s = (Inr m, s') \<Longrightarrow> m \<in> set (tb_messages (st_db s)) \<and> ms_id m = i"
  "EventByID i s = (Inr e, s') \<Longrightarrow> e \<in> set (tb_events (st_db s)) \<and> ev_id e = i"
  "ContactByID i s = (Inr c, s') \<Longrightarrow> c \<in> set (tb_contacts (st_db s)) \<and> co_id c = i"
  unfolding FolderByID_def MessageMetaByID_def message_query_def EventByID_def ContactByID_def get_row_Inr_iff
  by (auto dest: head_row)

section \<open>What the handlers rely on\<close>

text \<open>\<open>own\<close> are folders of the account, \<open>mine\<close> what may be changed by its id: messages, events, contacts.\<close>

locale account_store =
  fixes I :: "store \<Rightarrow> bool" and uid :: string and own :: "int \<Rightarrow> bool"
    and mine_message :: "int \<Rightarrow> bool" and mine_event :: "int \<Rightarrow> bool" and mine_contact :: "int \<Rightarrow> bool"
  assumes tables: "of_tables I"
    and folder_own: "I s \<Longrightarrow> f \<in> set (tb_folders (st_db s)) \<Longrightarrow> fo_user f = uid \<Longrightarrow> own (fo_id f)"
    and message_mine: "I s \<Longrightarrow> m \<in> set (tb_messages (st_db s)) \<Longrightarrow> ms_user m = uid \<Longrightarrow> mine_message (ms_id m) \<and> own (ms_folder m)"
    and event_mine: "I s \<Longrightarrow> e \<in> set (tb_events (st_db s)) \<Longrightarrow> ev_user e = uid \<Longrightarrow> mine_event (ev_id e)"
    and contact_mine: "I s \<Longrightarrow> c \<in> set (tb_contacts (st_db s)) \<Longrightarrow> co_user c = uid \<Longrightarrow> mine_contact (co_id c) \<and> own (co_folder c)"
    and folder_writes: "keeps I (CreateFolder uid p n t)" "own j \<Longrightarrow> keeps I (RenameFolder j n)" "own j \<Longrightarrow> keeps I (SetFolderPublic j b)"
    and message_writes: "mine_message i \<Longrightarrow> keeps I (MarkMessageRead i b)" "own j \<Longrightarrow> keeps I (AddChange j k ty i)"
    and event_writes: "ev_user e = uid \<Longrightarrow> own (ev_folder e) \<Longrightarrow> keeps I (InsertEvent e)"
      "mine_event (ev_id e) \<Longrightarrow> own (ev_folder e) \<Longrightarrow> keeps I (UpdateEvent e)"
    and contact_writes: "co_user c = uid \<Longrightarrow> own (co_folder c) \<Longrightarrow> keeps I (InsertContact c)"
      "mine_contact (co_id c) \<Longrightarrow> own (co_folder c) \<Longrightarrow> keeps I (UpdateContact c)"
begin

lemma read_keeps: "reading m \<Longrightarrow> keeps I m"
  by (rule keepsI) (rule of_tablesD [OF tables], simp add: reading_def)

lemma read_step: "reading m \<Longrightarrow> I s \<Longrightarrow> m s = (r, s') \<Longrightarrow> I s'"
  using of_tablesD [OF tables] readingD by metis

text \<open>An answer after which \<open>I\<close> holds.\<close>

lemma or_answer_step:
  assumes "keeps I m" "I s" "\<And>x s'. m s = (Inr x, s') \<Longrightarrow> I s' \<Longrightarrow> I (snd (k x s'))"
  shows "I (snd (or_answer m c e k s))"
proof -
  obtain r s' where r: "m s = (r, s')" by (cases "m s")
  then have "I s'" using keepsD [OF assms(1,2)] by simp
  then show ?thesis using r assms(3) by (cases r) (simp_all add: or_answer_def)
qed

lemmas read_answer = or_answer_step [OF read_keeps]

lemma exec_step: "keeps I m \<Longrightarrow> I s \<Longrightarrow> I (execE m s)"
  using keepsD [of I m s] by (simp add: execE_def)

lemma mailFolders_step: "I s \<Longrightarrow> I (snd (web_mailFolders u r s))"
  unfolding web_mailFolders_def
  by (auto intro!: read_answer reading_store)

lemma reading_resolveFolder: "reading (resolveFolder r u)"
  unfolding resolveFolder_def Let_def by (auto intro!: reading_intros' reading_store simp del: failE_simp okE_simp split: prod.splits)

lemma conversations_step: "I s \<Longrightarrow> I (snd (web_conversations u r s))"
  unfolding web_conversations_def
  by (auto intro!: read_answer reading_resolveFolder reading_conversations)

lemma reading_message_views: "reading (message_views u ms)"
  by (induction ms) (auto simp: messageView_def intro!: reading_intros' reading_store simp del: okE_simp)

lemma replyTarget_step:
  assumes "I s" shows "I (snd (replyTargetFor h u ms f s))"
proof (cases "target_message u ms f")
  case (Some m)
  obtain own' s1 where "ownAddresses u s = (own', s1)" by (cases "ownAddresses u s")
  moreover then have "I s1" using ownAddresses_spec of_tablesD [OF tables _ assms] by blast
  ultimately show ?thesis using Some by (simp add: replyTargetFor_def split: prod.splits)
qed (simp add: replyTargetFor_def assms)

lemma thread_step: "I s \<Longrightarrow> I (snd (web_thread h u r s))"
proof -
  assume s: "I s"
  have reading_thread: "reading (thread_messages u r key f)" for key f
    unfolding thread_messages_def Let_def by (intro reading_intros' reading_conversations)
  have last: "I (snd (case FolderByType (us_id u) 5 s3 of (sent, s4) \<Rightarrow>
        let sentID = (case sent of Inl _ \<Rightarrow> 0 | Inr f \<Rightarrow> fo_id f) in
        case replyTargetFor h u messages sentID s4 of (target, s5) \<Rightarrow>
          (api_json 200 \<lparr>vt_folder = fid, vt_sent = sentID, vt_messages = views, vt_target = target\<rparr>, s5)))"
    if "I s3" for s3 messages fid views
  proof -
    obtain sent s4 where f: "FolderByType (us_id u) 5 s3 = (sent, s4)" by (cases "FolderByType (us_id u) 5 s3")
    have "I s4" by (rule read_step [OF reading_store(2) that f])
    then show ?thesis using f replyTarget_step [of s4] by (simp add: Let_def split: prod.splits) (metis snd_conv)
  qed
  have "I (snd (case thread_messages u r key f s1 of
            (Inl e, s2) \<Rightarrow> (if e = ErrNotFound then api_error 404 ''conversation not found'' else api_error 500 ''cannot read conversation'', s2)
          | (Inr messages, s2) \<Rightarrow> or_answer (message_views u messages) 500 ''cannot read message'' (\<lambda>views s3.
              (case FolderByType (us_id u) 5 s3 of (sent, s4) \<Rightarrow>
                (let sentID = (case sent of Inl _ \<Rightarrow> 0 | Inr f \<Rightarrow> fo_id f) in
                 case replyTargetFor h u messages sentID s4 of (target, s5) \<Rightarrow>
                   (api_json 200 \<lparr>vt_folder = f, vt_sent = sentID, vt_messages = views, vt_target = target\<rparr>, s5)))) s2))"
    if "I s1" for key f s1
  proof -
    obtain q s2 where q: "thread_messages u r key f s1 = (q, s2)" by (cases "thread_messages u r key f s1")
    have "I s2" by (rule read_step [OF reading_thread that q])
    then show ?thesis using q read_answer [OF reading_message_views _ last] by (cases q) simp_all
  qed
  then show ?thesis using s unfolding web_thread_def
    by (auto intro!: read_answer reading_resolveFolder split: option.splits)
qed

lemma search_step: "I s \<Longrightarrow> I (snd (web_search L u r s))"
proof -
  assume s: "I s"
  obtain b s1 where b: "search_folder_ok u (queryInt r ''folder'' 0) s = (b, s1)" by (cases "search_folder_ok u (queryInt r ''folder'' 0) s")
  have "I s1"
  proof (cases "queryInt r ''folder'' 0 > 0")
    case True
    obtain q s2 where q: "FolderByID (queryInt r ''folder'' 0) s = (q, s2)" by (cases "FolderByID (queryInt r ''folder'' 0) s")
    have "I s2" by (rule read_step [OF reading_store(1) s q])
    then show ?thesis using True q b by (cases q) (auto simp: search_folder_ok_def)
  qed (use b s in \<open>simp add: search_folder_ok_def\<close>)
  then show ?thesis using b s unfolding web_search_def Let_def
    by (cases b) (auto intro!: read_answer reading_conversations)
qed

lemma message_step: "us_id u = uid \<Longrightarrow> I s \<Longrightarrow> I (snd (web_message h u r rest s))"
proof -
  assume u: "us_id u = uid" and s: "I s"
  have mark: "I (snd (web_mark_read h r m s1))" if "I s1" "mine_message (ms_id m)" "own (ms_folder m)" for m s1
    using that unfolding web_mark_read_def
    by (auto intro!: or_answer_step message_writes exec_step split: option.splits)
  have view: "reading (messageView m)" for m
    unfolding messageView_def by (intro reading_intros' reading_store)
  have found: "I (snd (if ms_user m \<noteq> us_id u \<or> ms_deleted m then (api_error 404 ''message not found'', s1)
         else if action = [] then
           (if wr_method r \<noteq> ''GET'' then (not_allowed ''GET'', s1)
            else or_answer (messageView m) 500 ''cannot read message'' (\<lambda>v s2. (api_json 200 (MessageShown v), s2)) s1)
         else if action = ''read'' then web_mark_read h r m s1
         else (api_error 404 ''not found'', s1)))" if m: "MessageMetaByID i s = (Inr m, s1)" "I s1" for m i s1 action
  proof (cases "ms_user m = uid")
    case True
    then have "mine_message (ms_id m)" "own (ms_folder m)" using message_mine [OF s] found_rows(2) [OF m(1)] by blast+
    then show ?thesis using m(2) mark by (auto intro!: read_answer view)
  qed (use m(2) u in simp)
  obtain t action b where t: "cut_byte CHR ''/'' rest = (t, action, b)" by (metis prod.collapse)
  obtain i ok where i: "parse_int64 t = (i, ok)" by (cases "parse_int64 t")
  have "I (snd (or_answer (MessageMetaByID i) 404 ''message not found'' (\<lambda>m s1.
         if ms_user m \<noteq> us_id u \<or> ms_deleted m then (api_error 404 ''message not found'', s1)
         else if action = [] then
           (if wr_method r \<noteq> ''GET'' then (not_allowed ''GET'', s1)
            else or_answer (messageView m) 500 ''cannot read message'' (\<lambda>v s2. (api_json 200 (MessageShown v), s2)) s1)
         else if action = ''read'' then web_mark_read h r m s1
         else (api_error 404 ''not found'', s1)) s))"
    by (rule read_answer [OF reading_store(7) s found])
  then show ?thesis using s by (simp add: web_message_def t i)
qed

lemma attachment_step: "I s \<Longrightarrow> I (snd (web_attachment u r t s))"
  unfolding web_attachment_def
  by (auto intro!: read_answer reading_store reading_conversations split: prod.splits)

lemma reading_calendarViewOf: "reading (calendarViewOf base f)"
  unfolding calendarViewOf_def by (intro reading_intros' reading_store)

lemma reading_calendar_views: "reading (calendar_views base fs)"
  by (induction fs) (auto intro!: reading_intros' reading_calendarViewOf simp del: okE_simp)

lemmas calendar_answer = read_answer [OF reading_calendarViewOf]

lemma create_calendar_step:
  assumes "us_id u = uid" "I s" shows "I (snd (create_calendar c u r s))"
proof -
  have "I (snd (case FolderByName (us_id u) name s of
           (Inr _, s1) \<Rightarrow> (api_error 409 ''a calendar with that name already exists'', s1)
         | (Inl e, s1) \<Rightarrow>
             if e \<noteq> ErrNotFound then (api_error 500 ''cannot check calendar name'', s1)
             else or_answer (CreateFolder (us_id u) 0 name FolderTypeCalendar) 500 ''cannot create calendar'' (\<lambda>f.
               or_answer (calendarViewOf (wi_base c) f) 500 ''cannot read calendar'' (\<lambda>v s3. (api_json 201 [v], s3))) s1))" for name
  proof -
    obtain q s1 where q: "FolderByName (us_id u) name s = (q, s1)" by (cases "FolderByName (us_id u) name s")
    have "I s1" by (rule read_step [OF reading_store(3) assms(2) q])
    then show ?thesis using q folder_writes(1) assms(1) by (cases q) (auto intro!: or_answer_step calendar_answer)
  qed
  then show ?thesis using assms(2) by (simp add: create_calendar_def split: option.split sum.split)
qed

lemma calendars_step: "us_id u = uid \<Longrightarrow> I s \<Longrightarrow> I (snd (web_calendars c u r s))"
  unfolding web_calendars_def
  by (auto intro!: read_answer reading_store reading_calendar_views create_calendar_step)

lemma updated_calendar_step: "I s \<Longrightarrow> I (snd (updated_calendar c i s))"
  unfolding updated_calendar_def by (auto intro!: read_answer reading_store calendar_answer)

lemma rename_calendar_step: "own (fo_id f) \<Longrightarrow> I s \<Longrightarrow> I (snd (rename_calendar c f r s))"
  unfolding rename_calendar_def
  by (auto intro!: or_answer_step folder_writes updated_calendar_step split: option.split sum.split)

lemma publish_calendar_step: "own (fo_id f) \<Longrightarrow> I s \<Longrightarrow> I (snd (publish_calendar c f r s))"
  unfolding publish_calendar_def
  by (auto intro!: or_answer_step folder_writes updated_calendar_step split: option.split sum.split)

lemma applied_same: "applyEventInput e0 i = Inr e \<Longrightarrow> ev_id e = ev_id e0 \<and> ev_user e = ev_user e0 \<and> ev_folder e = ev_folder e0"
  by (auto simp: applyEventInput_def with_input_def Let_def split: if_splits)

lemma createEvent_step:
  assumes "own (fo_id f)" "fo_user f = uid" "I s" shows "I (snd (createEvent L decode u r f s))"
proof -
  have add: "I (snd (or_answer (InsertEvent e) 500 ''cannot create event'' (\<lambda>n s2.
      (api_json 201 (OneEvent (eventViewOf ((event_defaults now e)\<lparr>ev_id := n\<rparr>))), execE (AddChange (fo_id f) ''add'' ''event'' n) s2)) s1))"
    if "ev_user e = uid" "ev_folder e = fo_id f" "I s1" for e now s1
    using that assms(1) by (auto intro!: or_answer_step event_writes exec_step message_writes)
  have new: "I (snd (or_answer NewUUID 500 [] (\<lambda>uuid s1.
                  case applyEventInput (new_event u f uuid subject start til) i of
                    Inl e \<Rightarrow> (api_error 400 e, s1)
                  | Inr e \<Rightarrow> or_answer (InsertEvent e) 500 ''cannot create event'' (\<lambda>n s2.
                      (api_json 201 (OneEvent (eventViewOf ((event_defaults (nowUnix s1) e)\<lparr>ev_id := n\<rparr>))),
                       execE (AddChange (fo_id f) ''add'' ''event'' n) s2)) s1) s))" for subject start til i
  proof (rule read_answer [OF reading_store(16) assms(3)])
    fix uuid s1 assume "I s1"
    show "I (snd (case applyEventInput (new_event u f uuid subject start til) i of
                    Inl e \<Rightarrow> (api_error 400 e, s1)
                  | Inr e \<Rightarrow> or_answer (InsertEvent e) 500 ''cannot create event'' (\<lambda>n s2.
                      (api_json 201 (OneEvent (eventViewOf ((event_defaults (nowUnix s1) e)\<lparr>ev_id := n\<rparr>))),
                       execE (AddChange (fo_id f) ''add'' ''event'' n) s2)) s1))"
    proof (cases "applyEventInput (new_event u f uuid subject start til) i")
      case (Inr e)
      have "ev_user e = uid" "ev_folder e = fo_id f" using applied_same [OF Inr] assms(2) by (simp_all add: new_event_def)
      then show ?thesis using add [OF _ _ \<open>I s1\<close>] Inr by simp
    qed (use \<open>I s1\<close> in simp)
  qed
  consider a where "mutable_guard L r = Some (a :: event_payload api_answer)"
    | a where "(mutable_guard L r :: event_payload api_answer option) = None" "decodeJSON decode r = Inl (a :: event_payload api_answer)"
    | i where "(mutable_guard L r :: event_payload api_answer option) = None" "decodeJSON decode r = (Inr i :: event_payload api_answer + event_input)"
    by (cases "mutable_guard L r :: event_payload api_answer option"; cases "decodeJSON decode r :: event_payload api_answer + event_input") auto
  then show ?thesis
  proof cases
    case (3 i)
    consider "\<exists>v a b. ie_subject i = Some v \<and> ie_start i = Some a \<and> ie_end i = Some b" | "ie_subject i = None" | "ie_start i = None" | "ie_end i = None"
      by (cases "ie_subject i"; cases "ie_start i"; cases "ie_end i") auto
    then show ?thesis
    proof cases
      case 1
      then obtain v a b where "ie_subject i = Some v" "ie_start i = Some a" "ie_end i = Some b" by blast
      then show ?thesis using 3 assms(3) new [of v a b i] by (simp add: createEvent_def)
    qed (use 3 assms(3) in \<open>simp_all add: createEvent_def split: option.split\<close>)
  qed (use assms(3) in \<open>simp_all add: createEvent_def\<close>)
qed

lemma calendarEvents_step: "own (fo_id f) \<Longrightarrow> fo_user f = uid \<Longrightarrow> I s \<Longrightarrow> I (snd (calendarEvents L decode u r f s))"
  unfolding calendarEvents_def by (auto intro!: read_answer reading_store createEvent_step)

lemma change_event_step:
  "own (fo_id f) \<Longrightarrow> mine_event (ev_id e) \<Longrightarrow> ev_folder e = fo_id f \<Longrightarrow> I s \<Longrightarrow> I (snd (change_event L decode r f e s))"
  using applied_same [of e]
  by (simp add: change_event_def split: option.split sum.split)
    (intro allI impI; rule or_answer_step; simp add: event_writes exec_step message_writes)

lemma remove_event_step:
  "own (fo_id f) \<Longrightarrow> mine_event (ev_id e) \<Longrightarrow> ev_folder e = fo_id f \<Longrightarrow> I s \<Longrightarrow> I (snd (remove_event L r f e s))"
  unfolding remove_event_def
  by (auto intro!: or_answer_step event_writes exec_step message_writes split: option.split)

lemma calendarEvent_step:
  assumes "us_id u = uid" "own (fo_id f)" "I s" shows "I (snd (calendarEvent L decode u r f t s))"
proof -
  obtain i ok where i: "parse_int64 t = (i, ok)" by (cases "parse_int64 t")
  have "I (snd (or_answer (EventByID i) 404 ''event not found'' (\<lambda>e s1.
       if ev_user e \<noteq> us_id u \<or> ev_folder e \<noteq> fo_id f \<or> ev_deleted e then (api_error 404 ''event not found'', s1)
       else if wr_method r = ''PATCH'' \<or> wr_method r = ''PUT'' then change_event L decode r f e s1
       else if wr_method r = ''DELETE'' then remove_event L r f e s1
       else (not_allowed ''PATCH, PUT, DELETE'', s1)) s))"
  proof (rule read_answer [OF reading_store(9) assms(3)])
    fix e s1 assume e: "EventByID i s = (Inr e, s1)" "I s1"
    have "mine_event (ev_id e)" if "ev_user e = uid" using event_mine [OF assms(3) _ that] found_rows(3) [OF e(1)] by blast
    then show "I (snd (if ev_user e \<noteq> us_id u \<or> ev_folder e \<noteq> fo_id f \<or> ev_deleted e then (api_error 404 ''event not found'', s1)
       else if wr_method r = ''PATCH'' \<or> wr_method r = ''PUT'' then change_event L decode r f e s1
       else if wr_method r = ''DELETE'' then remove_event L r f e s1
       else (not_allowed ''PATCH, PUT, DELETE'', s1)))"
      using e(2) assms(1,2) change_event_step remove_event_step by simp
  qed
  then show ?thesis using assms(3) by (simp add: calendarEvent_def i)
qed

lemma payload_step [simp]: "I (snd (payload f x)) = I (snd x)"
  by (simp add: payload_def)

lemma calendar_step:
  assumes "us_id u = uid" "I s" shows "I (snd (web_calendar c decode u r rest s))"
proof -
  let ?parts = "split_byte CHR ''/'' (trim_set ''/'' rest)"
  obtain i ok where i: "parse_int64 (hd ?parts) = (i, ok)" by (cases "parse_int64 (hd ?parts)")
  let ?k = "\<lambda>f s1. if fo_user f \<noteq> us_id u \<or> fo_deleted f \<or> fo_type f \<noteq> FolderTypeCalendar then (api_error 404 ''calendar not found'', s1)
       else (case ?parts of
          [_] \<Rightarrow> payload CalendarShown (rename_calendar c f r s1)
        | [_, x] \<Rightarrow>
            if x = ''public'' then payload CalendarShown (publish_calendar c f r s1)
            else if x = ''events'' then payload CalendarEvents (calendarEvents (wi_lib c) decode u r f s1)
            else (api_error 404 ''not found'', s1)
        | [_, x, y] \<Rightarrow>
            if x = ''events'' then payload CalendarEvents (calendarEvent (wi_lib c) decode u r f y s1)
            else (api_error 404 ''not found'', s1)
        | _ \<Rightarrow> (api_error 404 ''not found'', s1))"
  have "I (snd (or_answer (FolderByID i) 404 ''calendar not found'' ?k s))"
  proof (rule read_answer [OF reading_store(1) assms(2)])
    fix f s1 assume f: "FolderByID i s = (Inr f, s1)" "I s1"
    have o1: "own (fo_id f)" if "fo_user f = uid" using folder_own [OF assms(2) _ that] found_rows(1) [OF f(1)] by blast
    show "I (snd (?k f s1))"
    proof (cases "fo_user f = uid")
      case True
      note steps = rename_calendar_step [OF o1 [OF True] f(2)] publish_calendar_step [OF o1 [OF True] f(2)]
        calendarEvents_step [OF o1 [OF True] True f(2)] calendarEvent_step [OF assms(1) o1 [OF True] f(2)]
      show ?thesis using f(2) steps by (auto split: list.split)
    qed (use assms(1) f(2) in simp)
  qed
  then show ?thesis using assms(2) by (simp add: web_calendar_def i Let_def)
qed

lemma checked_same: "checked_contact c0 i = Inr c \<Longrightarrow> co_id c = co_id c0 \<and> co_user c = co_user c0 \<and> co_folder c = co_folder c0"
  by (auto simp: checked_contact_def applyContactInput_def with_contact_input_def Let_def split: if_splits)

lemma createContact_step:
  assumes "us_id u = uid" "I s" shows "I (snd (createContact L decode u r s))"
proof -
  have add: "I (snd (case contactFolder u io s of
           (Inl (code, e), s1) \<Rightarrow> (api_error code e, s1)
         | (Inr f, s1) \<Rightarrow> (case checked_contact (zero_contact\<lparr>co_user := us_id u, co_folder := fo_id f\<rparr>) i of
              Inl e \<Rightarrow> (api_error 400 e, s1)
            | Inr c \<Rightarrow> or_answer (InsertContact c) 500 ''cannot create contact'' (\<lambda>n s2.
                (api_json 201 (OneContact (contactViewOf (c\<lparr>co_id := n\<rparr>))), execE (AddChange (fo_id f) ''add'' ''contact'' n) s2)) s1)))" for io i
  proof -
    obtain q s1 where q: "contactFolder u io s = (q, s1)" by (cases "contactFolder u io s")
    have "st_db s1 = st_db s" using q readingD [OF reading_store(1)] readingD [OF reading_store(2)]
      by (auto simp: contactFolder_def split: option.splits prod.splits sum.splits if_splits)
    then have s1: "I s1" using of_tablesD [OF tables _ assms(2)] by blast
    have o1: "own (fo_id f)" if "q = Inr f" for f
    proof -
      have "f \<in> set (tb_folders (st_db s)) \<and> fo_user f = uid"
        using q that assms(1) found_rows(1) found_folder_mem(1)
        by (fastforce simp: contactFolder_def split: option.splits prod.splits sum.splits if_splits)
      then show ?thesis using folder_own [OF assms(2)] by blast
    qed
    have w: "I (snd (or_answer (InsertContact c) 500 ''cannot create contact'' (\<lambda>n s2.
        (api_json 201 (OneContact (contactViewOf (c\<lparr>co_id := n\<rparr>))), execE (AddChange (fo_id f) ''add'' ''contact'' n) s2)) s1))"
      if "own (fo_id f)" "co_user c = uid" "co_folder c = fo_id f" for f c
      using that s1 by (auto intro!: or_answer_step contact_writes exec_step message_writes)
    show ?thesis
    proof (cases q)
      case (Inl ce)
      then show ?thesis using q s1 by (cases ce) simp
    next
      case (Inr f)
      then show ?thesis using q s1 w [OF o1 [OF Inr]] checked_same [of "zero_contact\<lparr>co_user := us_id u, co_folder := fo_id f\<rparr>" i] assms(1)
        by (simp split: sum.split)
    qed
  qed
  then show ?thesis using assms(2) by (simp add: createContact_def split: option.split sum.split)
qed

lemma contacts_step: "us_id u = uid \<Longrightarrow> I s \<Longrightarrow> I (snd (web_contacts L decode u r s))"
  unfolding web_contacts_def by (auto intro!: read_answer reading_store createContact_step)

lemma contact_step:
  assumes "us_id u = uid" "I s" shows "I (snd (web_contact L decode u r t s))"
proof -
  obtain i ok where i: "parse_int64 (trim_set ''/'' t) = (i, ok)" by (cases "parse_int64 (trim_set ''/'' t)")
  let ?k = "\<lambda>c s1. if co_user c \<noteq> us_id u \<or> co_deleted c then (api_error 404 ''contact not found'', s1)
       else if wr_method r = ''GET'' then (api_json 200 (OneContact (contactViewOf c)), s1)
       else if wr_method r = ''PATCH'' \<or> wr_method r = ''PUT'' then change_contact L decode r c s1
       else if wr_method r = ''DELETE'' then remove_contact L r c s1
       else (not_allowed ''GET, PATCH, PUT, DELETE'', s1)"
  have "I (snd (or_answer (ContactByID i) 404 ''contact not found'' ?k s))"
  proof (rule read_answer [OF reading_store(10) assms(2)])
    fix c s1 assume c: "ContactByID i s = (Inr c, s1)" "I s1"
    show "I (snd (?k c s1))"
    proof (cases "co_user c = uid")
      case True
      then have m: "mine_contact (co_id c)" "own (co_folder c)" using contact_mine [OF assms(2)] found_rows(4) [OF c(1)] by blast+
      have "I (snd (change_contact L decode r c s1))"
        using m c(2) checked_same [of c]
        by (simp add: change_contact_def split: option.split sum.split)
          (intro allI impI; rule or_answer_step; simp add: contact_writes exec_step message_writes)
      moreover have "I (snd (remove_contact L r c s1))"
        unfolding remove_contact_def using m c(2)
        by (auto intro!: or_answer_step contact_writes exec_step message_writes split: option.split)
      ultimately show ?thesis using c(2) by simp
    qed (use assms(1) c(2) in simp)
  qed
  then show ?thesis using assms(2) by (simp add: web_contact_def i)
qed

lemma on_store_step: "I (snd (f (ws_store w))) \<Longrightarrow> I (ws_store (snd (on_store P f w)))"
  by (cases "f (ws_store w)") (simp add: on_store_def)

lemma serve_account_step:
  assumes u: "us_id u = uid" and w: "I (ws_store w)" and p: "user_path r \<noteq> ''/mail/reply''" "user_path r \<noteq> ''/mail/send''"
  shows "I (ws_store (snd (serve_account W u r w)))"
proof -
  have e: "I (ws_store (snd (case events_guard (ws_hub w) u r of
         Inl a \<Rightarrow> (map_answer (\<lambda>_. PStream 0) a, w) | Inr (c, hub) \<Rightarrow> (api_json 200 (PStream c), w\<lparr>ws_hub := Some hub\<rparr>))))"
    using w by (cases "events_guard (ws_hub w) u r") (auto split: prod.split)
  have pick: "I (ws_store (snd a)) \<Longrightarrow> I (ws_store (snd b)) \<Longrightarrow> I (ws_store (snd (if c then a else b)))" for a b :: "user_payload api_answer \<times> web_state" and c
    by simp
  show ?thesis
    unfolding serve_account_def Let_def if_not_P [OF p(1)] if_not_P [OF p(2)]
    by (intro pick e on_store_step mailFolders_step conversations_step thread_step search_step message_step attachment_step
        calendars_step calendar_step contacts_step contact_step u w) (simp add: w)
qed

end

section \<open>The tables stay well-formed\<close>

interpretation web: account_store store_ok uid "\<lambda>_. True" "\<lambda>_. True" "\<lambda>_. True" "\<lambda>_. True" for uid
  by unfold_locales (simp_all add: keeps_intros)

section \<open>The rows of another account\<close>

definition folders_of :: "string \<Rightarrow> db \<Rightarrow> int set" where
  "folders_of w d = fo_id ` {f \<in> set (tb_folders d). fo_user f = w}"

text \<open>The rows of an account and the changes of its folders are the same.\<close>

definition same_account :: "string \<Rightarrow> db \<Rightarrow> db \<Rightarrow> bool" where
  "same_account w d d' \<longleftrightarrow>
     filter (\<lambda>f. fo_user f = w) (tb_folders d') = filter (\<lambda>f. fo_user f = w) (tb_folders d) \<and>
     filter (\<lambda>m. ms_user m = w) (tb_messages d') = filter (\<lambda>m. ms_user m = w) (tb_messages d) \<and>
     filter (\<lambda>c. co_user c = w) (tb_contacts d') = filter (\<lambda>c. co_user c = w) (tb_contacts d) \<and>
     filter (\<lambda>e. ev_user e = w) (tb_events d') = filter (\<lambda>e. ev_user e = w) (tb_events d) \<and>
     filter (\<lambda>c. ch_folder c \<in> folders_of w d) (tb_changes d') = filter (\<lambda>c. ch_folder c \<in> folders_of w d) (tb_changes d)"

text \<open>The messages and contacts of the account lie in its own folders, which the schema does not enforce.\<close>

definition own_folders :: "string \<Rightarrow> string \<Rightarrow> db \<Rightarrow> db \<Rightarrow> bool" where
  "own_folders uid w d0 d \<longleftrightarrow> (\<forall>m\<in>set (tb_messages d). ms_user m = uid \<longrightarrow> ms_folder m \<notin> folders_of w d0) \<and>
     (\<forall>c\<in>set (tb_contacts d). co_user c = uid \<longrightarrow> co_folder c \<notin> folders_of w d0)"

definition apart_db :: "string \<Rightarrow> string \<Rightarrow> db \<Rightarrow> db \<Rightarrow> bool" where
  "apart_db uid w d0 d \<longleftrightarrow> db_ok d \<and> uid \<noteq> w \<and> same_account w d0 d \<and> own_folders uid w d0 d"

definition apart :: "string \<Rightarrow> string \<Rightarrow> db \<Rightarrow> store \<Rightarrow> bool" where
  "apart uid w d0 s \<longleftrightarrow> apart_db uid w d0 (st_db s)"

lemma keeps_apart_sql:
  assumes "\<And>d x d'. apart_db uid w d0 d \<Longrightarrow> f d = Inr (x, d') \<Longrightarrow> apart_db uid w d0 d'"
  shows "keeps (apart uid w d0) (sql f)"
proof (rule keepsI)
  fix s assume s: "apart uid w d0 s"
  obtain r t where r: "sql f s = (r, t)" by fastforce
  show "apart uid w d0 (snd (sql f s))"
  proof (cases r)
    case (Inl e)
    then show ?thesis using s r sql_Inl_db [of f s e t] by (simp add: apart_def)
  next
    case (Inr x)
    then obtain d where "f (st_db s) = Inr (x, d)" "st_db t = d" using r by (auto simp: sql_Inr_iff)
    then show ?thesis using s r assms by (auto simp: apart_def)
  qed
qed

lemma keeps_apart_inTx:
  assumes "keeps (apart uid w d0) m" shows "keeps (apart uid w d0) (inTx m)"
proof (rule keepsI)
  fix s assume s: "apart uid w d0 s"
  have "apart uid w d0 (snd (m (pop_fault s)))" by (rule keepsD [OF assms]) (use s in \<open>simp add: apart_def\<close>)
  then show "apart uid w d0 (snd (inTx m s))"
    using s by (cases "m (pop_fault s)"; cases "fst (m (pop_fault s))") (simp_all add: inTx_def apart_def)
qed

lemma keeps_apart_same: "(\<And>s. st_db (snd (m s)) = st_db s) \<Longrightarrow> keeps (apart uid w d0) m"
  by (simp add: keeps_def apart_def)

lemma filter_update_other:
  "(\<And>x. x \<in> set xs \<Longrightarrow> P x \<Longrightarrow> k x \<noteq> i \<and> k (f x) \<noteq> i) \<Longrightarrow> filter (\<lambda>x. k x = i) (update_where P f xs) = filter (\<lambda>x. k x = i) xs"
  by (induction xs) auto

lemma apart_ok: "apart_db uid w d0 d \<Longrightarrow> db_ok d"
  by (simp add: apart_db_def)

text \<open>The rows of the other account are those of \<open>d0\<close>.\<close>

lemma apart_rows:
  assumes "apart_db uid w d0 d"
  shows "f \<in> set (tb_folders d) \<and> fo_user f = w \<longleftrightarrow> f \<in> set (tb_folders d0) \<and> fo_user f = w"
    "m \<in> set (tb_messages d) \<and> ms_user m = w \<longleftrightarrow> m \<in> set (tb_messages d0) \<and> ms_user m = w"
    "c \<in> set (tb_contacts d) \<and> co_user c = w \<longleftrightarrow> c \<in> set (tb_contacts d0) \<and> co_user c = w"
    "e \<in> set (tb_events d) \<and> ev_user e = w \<longleftrightarrow> e \<in> set (tb_events d0) \<and> ev_user e = w"
proof -
  have k: "x \<in> set xs \<and> P x \<longleftrightarrow> x \<in> set ys \<and> P x" if "filter P xs = filter P ys" for P :: "'x \<Rightarrow> bool" and xs ys x
    using arg_cong [OF that, of set] by auto
  show "f \<in> set (tb_folders d) \<and> fo_user f = w \<longleftrightarrow> f \<in> set (tb_folders d0) \<and> fo_user f = w"
    "m \<in> set (tb_messages d) \<and> ms_user m = w \<longleftrightarrow> m \<in> set (tb_messages d0) \<and> ms_user m = w"
    "c \<in> set (tb_contacts d) \<and> co_user c = w \<longleftrightarrow> c \<in> set (tb_contacts d0) \<and> co_user c = w"
    "e \<in> set (tb_events d) \<and> ev_user e = w \<longleftrightarrow> e \<in> set (tb_events d0) \<and> ev_user e = w"
    using assms by (auto simp: apart_db_def same_account_def dest: k)
qed

definition rows_of :: "('a \<Rightarrow> int) \<Rightarrow> ('a \<Rightarrow> string) \<Rightarrow> string \<Rightarrow> 'a list \<Rightarrow> int set" where
  "rows_of i u w xs = i ` {x \<in> set xs. u x = w}"

lemma apart_folder: "apart_db uid w d0 d \<Longrightarrow> f \<in> set (tb_folders d) \<Longrightarrow> fo_user f \<noteq> w \<Longrightarrow> fo_id f \<notin> folders_of w d0"
proof
  assume d: "apart_db uid w d0 d" and f: "f \<in> set (tb_folders d)" "fo_user f \<noteq> w" and "fo_id f \<in> folders_of w d0"
  then obtain g where "g \<in> set (tb_folders d0)" "fo_user g = w" "fo_id g = fo_id f" by (auto simp: folders_of_def)
  moreover then have "g \<in> set (tb_folders d)" using apart_rows(1) [OF d] by blast
  moreover have "ids_ok fo_id (sq_folders d) (tb_folders d)" using apart_ok [OF d] by (simp add: db_ok_def folders_ok_def)
  ultimately show False using f by (metis ids_ok_unique)
qed

lemma apart_other:
  assumes d: "apart_db uid w d0 d"
  shows "m \<in> set (tb_messages d) \<Longrightarrow> ms_user m \<noteq> w \<Longrightarrow> ms_id m \<notin> rows_of ms_id ms_user w (tb_messages d0)"
    "c \<in> set (tb_contacts d) \<Longrightarrow> co_user c \<noteq> w \<Longrightarrow> co_id c \<notin> rows_of co_id co_user w (tb_contacts d0)"
    "e \<in> set (tb_events d) \<Longrightarrow> ev_user e \<noteq> w \<Longrightarrow> ev_id e \<notin> rows_of ev_id ev_user w (tb_events d0)"
proof -
  have i: "ids_ok ms_id (sq_messages d) (tb_messages d)" "ids_ok co_id (sq_contacts d) (tb_contacts d)" "ids_ok ev_id (sq_events d) (tb_events d)"
    using apart_ok [OF d] by (simp_all add: db_ok_def mail_ok_def calendar_ok_def)
  show "ms_id m \<notin> rows_of ms_id ms_user w (tb_messages d0)" if "m \<in> set (tb_messages d)" "ms_user m \<noteq> w"
    using that apart_rows(2) [OF d] ids_ok_unique [OF i(1)] unfolding rows_of_def by blast
  show "co_id c \<notin> rows_of co_id co_user w (tb_contacts d0)" if "c \<in> set (tb_contacts d)" "co_user c \<noteq> w"
    using that apart_rows(3) [OF d] ids_ok_unique [OF i(2)] unfolding rows_of_def by blast
  show "ev_id e \<notin> rows_of ev_id ev_user w (tb_events d0)" if "e \<in> set (tb_events d)" "ev_user e \<noteq> w"
    using that apart_rows(4) [OF d] ids_ok_unique [OF i(3)] unfolding rows_of_def by blast
qed

lemma not_rows: "i r \<notin> rows_of i u w ys \<Longrightarrow> (r \<in> set xs \<and> u r = w \<longleftrightarrow> r \<in> set ys \<and> u r = w) \<Longrightarrow> r \<in> set xs \<Longrightarrow> u r \<noteq> w"
  by (auto simp: rows_of_def)

text \<open>Every write of the handlers.\<close>

lemma apart_same:
  assumes "apart_db uid w d0 d" "db_ok d'" "tb_folders d' = tb_folders d" "tb_messages d' = tb_messages d" "tb_contacts d' = tb_contacts d"
    "tb_events d' = tb_events d" "tb_changes d' = tb_changes d"
  shows "apart_db uid w d0 d'"
  using assms by (simp add: apart_db_def same_account_def own_folders_def)

lemma apart_bump: "keeps (apart uid w d0) (sql (bump_seq e u))"
proof (rule keeps_apart_sql)
  fix d x d' assume d: "apart_db uid w d0 d" and b: "bump_seq e u d = Inr (x, d')"
  show "apart_db uid w d0 d'"
    using b by (intro apart_same [OF d keeps_db_sqlD [OF keeps_bump apart_ok [OF d] b]]) (auto simp: bump_seq_def split: option.splits)
qed

lemma apart_insert_folder: "fo_user f = uid \<Longrightarrow> keeps (apart uid w d0) (sql (insert_folder f))"
proof (rule keeps_apart_sql)
  fix d x d' assume u: "fo_user f = uid" and d: "apart_db uid w d0 d" and b: "insert_folder f d = Inr (x, d')"
  show "apart_db uid w d0 d'"
    using db_ok_folder_add [OF apart_ok [OF d] b] d b u
    by (auto simp: apart_db_def same_account_def own_folders_def insert_folder_def Let_def split: if_splits)
qed

lemma apart_CreateFolder: "keeps (apart uid w d0) (CreateFolder uid p n t)"
proof -
  have "keeps (apart uid w d0) (\<lambda>s. okE (nowUnix s) s)" "keeps (apart uid w d0) NewUUID"
    by (rule keeps_apart_same, simp add: NewUUID_def)+
  then show ?thesis unfolding CreateFolder_def insertFolderTx_def Let_def
    by (intro keeps_apart_inTx keeps_bindE keeps_if keeps_okE keeps_wrapDuplicate apart_bump apart_insert_folder) simp_all
qed

lemma apart_touchFolder:
  assumes "keeps_identity g" "j \<notin> folders_of w d0" shows "keeps (apart uid w d0) (touchFolder j g)"
proof -
  have "keeps (apart uid w d0) (sql (update_folder j g seq))" for seq
  proof (rule keeps_apart_sql)
    fix d x d' assume d: "apart_db uid w d0 d" and b: "update_folder j g seq d = Inr (x, d')"
    let ?fs = "update_where (\<lambda>f. fo_id f = j) (\<lambda>f. (g f)\<lparr>fo_seq := seq\<rparr>) (tb_folders d)"
    have "db_ok (d\<lparr>tb_folders := ?fs\<rparr>)"
      by (rule db_ok_folders_upd) (use apart_ok [OF d] b assms(1) in \<open>auto simp: keeps_identity_def update_folder_def Let_def
          split: if_splits intro!: map_update_where\<close>)
    moreover have "fo_user f \<noteq> w" if "f \<in> set (tb_folders d)" "fo_id f = j" for f
      using that assms(2) apart_rows(1) [OF d] by (force simp: folders_of_def)
    then have "filter (\<lambda>f. fo_user f = w) ?fs = filter (\<lambda>f. fo_user f = w) (tb_folders d)"
      by (rule_tac filter_update_other) (use assms(1) in \<open>auto simp: keeps_identity_def\<close>)
    ultimately show "apart_db uid w d0 d'"
      using b d by (auto simp: update_folder_def apart_db_def same_account_def own_folders_def Let_def split: if_splits)
  qed
  moreover have "keeps (apart uid w d0) (tx_get_row p)" for p :: "db \<Rightarrow> string list" by (rule keeps_apart_same) (rule sql_reads_db)
  ultimately show ?thesis unfolding touchFolder_def by (intro keeps_apart_inTx keeps_bindE apart_bump)
qed

lemma apart_SetFolderPublic:
  assumes "j \<notin> folders_of w d0" shows "keeps (apart uid w d0) (SetFolderPublic j b)"
proof -
  have "keeps (apart uid w d0) (exec_count n (\<lambda>d. d\<lparr>tb_folders :=
      update_where (\<lambda>f. fo_id f = j \<and> fo_type f = 8 \<and> \<not> fo_deleted f) (\<lambda>f. f\<lparr>fo_public := b\<rparr>) (tb_folders d)\<rparr>))" for n
    unfolding exec_count_def
  proof (rule keeps_apart_sql, goal_cases)
    case (1 d x d')
    let ?fs = "update_where (\<lambda>f. fo_id f = j \<and> fo_type f = 8 \<and> \<not> fo_deleted f) (\<lambda>f. f\<lparr>fo_public := b\<rparr>) (tb_folders d)"
    have m: "map h ?fs = map h (tb_folders d)" if "\<And>f. h (f\<lparr>fo_public := b\<rparr>) = h f" for h :: "folder \<Rightarrow> 'z"
      by (rule map_update_where) (rule that)
    have "db_ok (d\<lparr>tb_folders := ?fs\<rparr>)"
      using apart_ok [OF 1(1)] by (intro db_ok_folders_upd) (simp_all add: m folder_key_def db_ok_def folders_ok_def)
    moreover have "fo_user f \<noteq> w" if "f \<in> set (tb_folders d)" "fo_id f = j" for f
      using that assms apart_rows(1) [OF 1(1)] by (force simp: folders_of_def)
    then have "filter (\<lambda>f. fo_user f = w) ?fs = filter (\<lambda>f. fo_user f = w) (tb_folders d)"
      by (rule_tac filter_update_other) auto
    ultimately show ?case using 1 by (auto simp: apart_db_def same_account_def own_folders_def)
  qed
  then show ?thesis unfolding SetFolderPublic_def Let_def by (intro keeps_bindE keeps_if keeps_okE keeps_failE)
qed

lemma apart_MarkMessageRead:
  assumes "i \<notin> rows_of ms_id ms_user w (tb_messages d0)" shows "keeps (apart uid w d0) (MarkMessageRead i b)"
  unfolding MarkMessageRead_def exec_def
proof (rule keeps_apart_sql, goal_cases)
  case (1 d x d')
  have "db_ok d'" using 1(2) apart_ok [OF 1(1)] by (auto intro!: db_ok_upd_messages)
  moreover have "ms_user m \<noteq> w" if "m \<in> set (tb_messages d)" "ms_id m = i" for m
    using not_rows [where i = ms_id and u = ms_user, OF _ apart_rows(2) [OF 1(1), of m]] that assms by simp
  then have "filter (\<lambda>m. ms_user m = w) (update_where (\<lambda>r. ms_id r = i) (\<lambda>r. r\<lparr>ms_read := b\<rparr>) (tb_messages d)) =
      filter (\<lambda>m. ms_user m = w) (tb_messages d)"
    by (rule_tac filter_update_other) auto
  ultimately show ?case using 1 by (auto simp: apart_db_def same_account_def own_folders_def upd_messages_def set_update_where)
qed

lemma apart_AddChange:
  assumes "j \<notin> folders_of w d0" shows "keeps (apart uid w d0) (AddChange j k ty i)"
  unfolding AddChange_def
proof (rule keeps_apart_sql, goal_cases)
  case (1 d x d')
  have "db_ok d'" by (rule keeps_db_sqlD [OF keeps_AddChange [unfolded AddChange_def] apart_ok [OF 1(1)] 1(2)])
  then show ?case using 1 assms
    by (auto simp: apart_db_def same_account_def own_folders_def insert_change_def Let_def split: if_splits)
qed

lemma apart_InsertEvent: "ev_user e = uid \<Longrightarrow> keeps (apart uid w d0) (InsertEvent e)"
proof -
  assume u: "ev_user e = uid"
  have "keeps (apart uid w d0) (sql (insert_event (event_defaults now e)))" for now
  proof (rule keeps_apart_sql, goal_cases)
    case (1 d x d')
    have "db_ok d'" using 1 apart_ok [OF 1(1)] by (auto simp: insert_event_def Let_def db_ok_def db_parts ids_ok_append
        refs_ok_more user_ids_def folder_ids_def split: if_splits)
    then show ?case using 1 u
      by (auto simp: apart_db_def same_account_def own_folders_def insert_event_def event_defaults_def Let_def split: if_splits)
  qed
  then show ?thesis by (simp add: keeps_def InsertEvent_def)
qed

lemma apart_UpdateEvent:
  assumes "ev_id e \<notin> rows_of ev_id ev_user w (tb_events d0)" shows "keeps (apart uid w d0) (UpdateEvent e)"
proof -
  have "apart uid w d0 (snd (UpdateEvent e s))" if s: "apart uid w d0 s" for s
  proof -
    have d: "apart_db uid w d0 (st_db s)" using s by (simp add: apart_def)
    have ok: "db_ok (st_db (snd (UpdateEvent e s)))" using keepsD [OF keeps_UpdateEvent, of s e] apart_ok [OF d] by (simp add: store_ok_def)
    have "ev_user r \<noteq> w" if "r \<in> set (tb_events (st_db s))" "ev_id r = ev_id e" for r
      using not_rows [where i = ev_id and u = ev_user, OF _ apart_rows(4) [OF d, of r]] that assms by simp
    then have "filter (\<lambda>r. ev_user r = w) (update_where (\<lambda>r. ev_id r = ev_id e) (\<lambda>r. e\<lparr>ev_id := ev_id r, ev_user := ev_user r, ev_exceptions := [],
        ev_sequence := ev_sequence r + 1, ev_modified := nowUnix s\<rparr>) (tb_events (st_db s))) = filter (\<lambda>r. ev_user r = w) (tb_events (st_db s))"
      by (rule_tac filter_update_other) auto
    then show ?thesis using ok d by (auto simp: UpdateEvent_def sql_def apart_def apart_db_def same_account_def own_folders_def)
  qed
  then show ?thesis by (rule keepsI)
qed

lemma apart_InsertContact:
  assumes "co_user c = uid" "co_folder c \<notin> folders_of w d0" shows "keeps (apart uid w d0) (InsertContact c)"
  unfolding InsertContact_def
proof (rule keeps_apart_sql, goal_cases)
  case (1 d x d')
  have "db_ok d'" by (rule keeps_db_sqlD [OF keeps_InsertContact [unfolded InsertContact_def] apart_ok [OF 1(1)] 1(2)])
  then show ?case using 1 assms
    by (auto simp: apart_db_def same_account_def own_folders_def insert_contact_def Let_def split: if_splits)
qed

lemma apart_UpdateContact:
  assumes "co_id c \<notin> rows_of co_id co_user w (tb_contacts d0)" "co_folder c \<notin> folders_of w d0"
  shows "keeps (apart uid w d0) (UpdateContact c)"
  unfolding UpdateContact_def
proof (rule keeps_apart_sql, goal_cases)
  case (1 d x d')
  have ok: "db_ok d'" by (rule keeps_db_sqlD [OF keeps_UpdateContact [unfolded UpdateContact_def] apart_ok [OF 1(1)] 1(2)])
  have "co_user r \<noteq> w" if "r \<in> set (tb_contacts d)" "co_id r = co_id c" for r
    using not_rows [where i = co_id and u = co_user, OF _ apart_rows(3) [OF 1(1), of r]] that assms(1) by simp
  then have "filter (\<lambda>r. co_user r = w) (update_where (\<lambda>r. co_id r = co_id c) (\<lambda>r. c\<lparr>co_id := co_id r, co_user := co_user r\<rparr>) (tb_contacts d)) =
      filter (\<lambda>r. co_user r = w) (tb_contacts d)"
    by (rule_tac filter_update_other) auto
  then show ?case using ok 1 assms(2)
    by (auto simp: apart_db_def same_account_def own_folders_def set_update_where split: if_splits)
qed

lemma apart_own:
  assumes "apart uid w d0 s"
  shows "f \<in> set (tb_folders (st_db s)) \<Longrightarrow> fo_user f = uid \<Longrightarrow> fo_id f \<notin> folders_of w d0"
    "m \<in> set (tb_messages (st_db s)) \<Longrightarrow> ms_user m = uid \<Longrightarrow>
       ms_id m \<notin> rows_of ms_id ms_user w (tb_messages d0) \<and> ms_folder m \<notin> folders_of w d0"
    "e \<in> set (tb_events (st_db s)) \<Longrightarrow> ev_user e = uid \<Longrightarrow> ev_id e \<notin> rows_of ev_id ev_user w (tb_events d0)"
    "c \<in> set (tb_contacts (st_db s)) \<Longrightarrow> co_user c = uid \<Longrightarrow>
       co_id c \<notin> rows_of co_id co_user w (tb_contacts d0) \<and> co_folder c \<notin> folders_of w d0"
proof -
  have d: "apart_db uid w d0 (st_db s)" using assms by (simp add: apart_def)
  then have n: "uid \<noteq> w" "own_folders uid w d0 (st_db s)" by (simp_all add: apart_db_def)
  show "f \<in> set (tb_folders (st_db s)) \<Longrightarrow> fo_user f = uid \<Longrightarrow> fo_id f \<notin> folders_of w d0" using apart_folder [OF d] n(1) by blast
  show "m \<in> set (tb_messages (st_db s)) \<Longrightarrow> ms_user m = uid \<Longrightarrow>
       ms_id m \<notin> rows_of ms_id ms_user w (tb_messages d0) \<and> ms_folder m \<notin> folders_of w d0"
    using apart_other(1) [OF d] n unfolding own_folders_def by blast
  show "e \<in> set (tb_events (st_db s)) \<Longrightarrow> ev_user e = uid \<Longrightarrow> ev_id e \<notin> rows_of ev_id ev_user w (tb_events d0)"
    using apart_other(3) [OF d] n(1) by blast
  show "c \<in> set (tb_contacts (st_db s)) \<Longrightarrow> co_user c = uid \<Longrightarrow>
       co_id c \<notin> rows_of co_id co_user w (tb_contacts d0) \<and> co_folder c \<notin> folders_of w d0"
    using apart_other(2) [OF d] n unfolding own_folders_def by blast
qed

interpretation apart: account_store "apart uid w d0" uid "\<lambda>f. f \<notin> folders_of w d0" "\<lambda>i. i \<notin> rows_of ms_id ms_user w (tb_messages d0)"
  "\<lambda>i. i \<notin> rows_of ev_id ev_user w (tb_events d0)" "\<lambda>i. i \<notin> rows_of co_id co_user w (tb_contacts d0)" for uid w d0
proof unfold_locales
  show "of_tables (apart uid w d0)" by (simp add: of_tables_def apart_def)
qed (simp_all add: apart_own apart_CreateFolder apart_SetFolderPublic apart_MarkMessageRead apart_AddChange apart_InsertEvent
    apart_UpdateEvent apart_InsertContact apart_UpdateContact RenameFolder_def keeps_identity_def apart_touchFolder)


section \<open>Requests\<close>

lemma current_user_db: "current_user L token now r s = (u, s') \<Longrightarrow> st_db s' = st_db s"
proof -
  assume c: "current_user L token now r s = (u, s')"
  have k: "st_db (snd (case UserByID i s of (Inl _, s1) \<Rightarrow> (None, s1) | (Inr u, s1) \<Rightarrow> (Some u, s1))) = st_db s" for i
    using reading_store(14) [of i] readingD by (cases "UserByID i s"; cases "fst (UserByID i s)") auto
  have "st_db (snd (current_user L token now r s)) = st_db s"
    by (simp add: current_user_def k split: option.split prod.split)
  then show ?thesis using c by simp
qed

lemma UserByLogin_reads: "st_db (snd (UserByLogin l s)) = st_db s"
proof -
  have "st_db (snd (UserByName n s)) = st_db s" for n by (simp add: UserByName_def get_row_db)
  then show ?thesis using UserByAddress_db by (simp add: UserByLogin_def Let_def failE_def)
qed

lemma user_session_db:
  assumes "user_session L token decode now r lim s = (a, lim', s')" shows "st_db s' = st_db s"
proof -
  have k: "st_db t = st_db s" if "UserByLogin l s = (q, t)" for l q t using UserByLogin_reads [of l s] that by simp
  have "st_db (snd (snd (user_login L token decode now r lim s))) = st_db s"
    by (auto simp: user_login_def Let_def split: prod.split sum.split dest: k)
  then show ?thesis using assms current_user_db [of L token now r s]
    by (auto simp: user_session_def split: if_splits prod.splits)
qed

lemma same_account_refl: "same_account w d d"
  by (simp add: same_account_def)

text \<open>C10: a request of one account leaves the data of every other account alone. Take a consistent store, and an account
  whose messages and contacts do not lie in folders of another one (which the schema does not enforce). Whatever it
  requests of the web API, but for the two requests that send mail, with whatever ids, and whatever statements fail:
  the folders, messages, contacts and events of the other account are exactly what they were, and nothing is recorded
  for its devices.\<close>

theorem web_isolation:
  assumes "store_ok (ws_store st)" "current_user (wi_lib (wv_items W)) (wv_token W) now r (ws_store st) = (Some u, s1)"
    and "us_id u \<noteq> w" "own_folders (us_id u) w (st_db (ws_store st)) (st_db (ws_store st))"
    and "user_path r \<noteq> ''/mail/reply''" "user_path r \<noteq> ''/mail/send''" "serveUser W now r st = (a, st')"
  shows "same_account w (st_db (ws_store st)) (st_db (ws_store st'))"
proof (cases "user_path r = ''/session''")
  case True
  obtain x lim s where s: "user_session (wi_lib (wv_items W)) (wv_token W) (wv_login W) now r (ws_lim st) (ws_store st) = (x, lim, s)"
    by (metis prod.collapse)
  then have "ws_store st' = s" using assms(7) True by (auto simp: serveUser_def Let_def)
  then show ?thesis using user_session_db [OF s] by (simp add: same_account_refl)
next
  case False
  let ?d = "st_db (ws_store st)"
  have st': "st' = snd (serve_account W u r (st\<lparr>ws_store := s1\<rparr>))" using assms(2,7) False by (simp add: serveUser_def)
  have "apart (us_id u) w ?d s1"
    using assms(1,3,4) current_user_db [OF assms(2)] by (simp add: apart_def apart_db_def store_ok_def same_account_refl)
  then have "apart (us_id u) w ?d (ws_store (snd (serve_account W u r (st\<lparr>ws_store := s1\<rparr>))))"
    by (intro apart.serve_account_step refl assms(5,6)) simp
  then show ?thesis by (simp add: st' apart_def apart_db_def)
qed

section \<open>Example\<close>

text \<open>A second account with a contact.\<close>

definition other_contact :: contact where
  "other_contact = zero_contact\<lparr>co_id := 1, co_user := ''w'', co_folder := 3\<rparr>"

definition two_store :: store where
  "two_store = demo_store\<lparr>st_db := demo_db\<lparr>tb_users := [demo_user, demo_user\<lparr>us_id := ''w'', us_name := ''other'', us_folder_seq := 3\<rparr>],
     tb_folders := tb_folders demo_db @ [(demo_folder 3 ''Contacts'' 9 3)\<lparr>fo_user := ''w''\<rparr>], sq_folders := 3,
     tb_contacts := [other_contact], sq_contacts := 1\<rparr>\<rparr>"

lemma two_store_ok: "store_ok two_store"
  by (simp add: two_store_def other_contact_def zero_contact_def store_ok_def db_ok_def db_parts demo_defs ids_ok_def refs_ok_def folder_key_def
      uuid_rows_def primary_rows_def state_key_def)

definition demo_web :: web_server where
  "demo_web = \<lparr>wv_mail = demo_webmail, wv_items = \<lparr>wi_lib = demo_web_lib, wi_base = [], wi_name = Inl, wi_public = Inl\<rparr>, wv_token = ''t'',
     wv_login = Inl, wv_reply = Inl, wv_compose = Inl, wv_event = Inl, wv_contact = Inl\<rparr>"

definition two_state :: web_state where
  "two_state = \<lparr>ws_store = two_store, ws_log = [], ws_lim = None, ws_hub = None\<rparr>"

definition delete_request :: web_request where
  "delete_request = (web_get ''/api/user/contacts/1'' user_cookie)\<lparr>wr_method := ''DELETE''\<rparr>"

text \<open>The first account asks for the contact of the second to be deleted.\<close>

theorem web_isolation_witness:
  "filter (\<lambda>c. co_user c = ''w'') (tb_contacts (st_db (ws_store (snd (serveUser demo_web 0 delete_request two_state))))) = [other_contact]"
proof -
  obtain u where u: "UserByID (us_id demo_user) two_store = (Inr u, two_store)" "us_id u = ''u''"
    by (simp add: UserByID_def get_row_def sql_no_fault two_store_def demo_defs limit_rows_def)
  have k: "wr_cookie delete_request userCookieName = Some (issueSession demo_web_lib ''t'' 0 demo_user)"
    by (simp add: delete_request_def web_get_def user_cookie_def)
  have t: "(0 :: int) div 10 ^ 9 \<le> (0 + userSessionTTL) div 10 ^ 9" by (intro zdiv_mono1) (simp_all add: userSessionTTL_def)
  have c: "current_user (wi_lib (wv_items demo_web)) (wv_token demo_web) 0 delete_request (ws_store two_state) = (Some u, two_store)"
    using current_issued [OF demo_cookie(1-4) k, of 0 two_store] t u by (simp add: demo_web_def two_state_def)
  have ok: "store_ok (ws_store two_state)" by (simp add: two_state_def two_store_ok)
  have own: "own_folders (us_id u) ''w'' (st_db (ws_store two_state)) (st_db (ws_store two_state))"
    by (auto simp: own_folders_def folders_of_def two_state_def two_store_def demo_defs u(2) other_contact_def)
  have p: "user_path delete_request \<noteq> ''/mail/reply''" "user_path delete_request \<noteq> ''/mail/send''"
  proof -
    have "wr_path delete_request = ''/api/user/contacts/1''" by (simp add: delete_request_def web_get_def)
    moreover have "trim_suffix (trim_prefix ''/api/user/contacts/1'' ''/api/user'') ''/'' = ''/contacts/1''" by code_simp
    ultimately have "user_path delete_request = ''/contacts/1''" by (simp add: user_path_def)
    then show "user_path delete_request \<noteq> ''/mail/reply''" "user_path delete_request \<noteq> ''/mail/send''" by simp_all
  qed
  have "same_account ''w'' (st_db (ws_store two_state)) (st_db (ws_store (snd (serveUser demo_web 0 delete_request two_state))))"
    by (rule web_isolation [OF ok c _ own p prod.collapse [symmetric]]) (simp add: u(2))
  moreover have "filter (\<lambda>c. co_user c = ''w'') (tb_contacts (st_db (ws_store two_state))) = [other_contact]"
    by (simp add: two_state_def two_store_def other_contact_def)
  ultimately show ?thesis by (simp add: same_account_def)
qed

end
