(* ===== verification/Spec2Isabelle.thy ===== *)
theory Spec2Isabelle imports EasServer EasRoundtrip EasSyncProps Outbound StoreAddresses ImapProps SubmissionProps EasCompose EasMeeting EasSearch EasOof Ical ApiInbound ApiUser begin

text \<open>
  A verification of \<open>lifemail\<close>, a mail server in Go: mailboxes in an SQL database, Exchange
  ActiveSync (EAS) for phones, IMAP and a web client on top, an outbound queue below.

  \<^bold>\<open>The program.\<close> The package \<open>internal/store\<close> keeps accounts, aliases, folders, messages,
  contacts, events, devices, settings and the outbound queue in tables, with large bodies in a
  directory of blobs (\<open>internal/blobstore\<close>). Every change of an item is appended to a change
  feed per folder; a device has a position in the feed of each folder it syncs and a list of the
  items it knows. The package \<open>internal/eas\<close> decodes a WBXML document (\<open>internal/wbxml\<close>),
  authenticates the request against a throttle (\<open>internal/authlimit\<close>) and answers it from the
  store. \<open>internal/outbound\<close> drains the queue of mails with a growing delay between attempts.

  \<^bold>\<open>The model.\<close> The state is the record \<open>store\<close> of \<open>StoreBase\<close>: the tables, the blobs, the clock,
  the identifiers the random source will give, and a list of faults, one per coming statement,
  by which any statement of an operation can fail. An operation is a function from the state to
  an error or a value and the new state (\<open>Prelude\<close>); a transaction restores the tables when it
  fails. SQL statements are list functions with the unique, foreign key and cascade rules of the
  schema written out. Integers are \<open>int\<close> with the wrap-around or the range check of \<open>int64\<close>
  where the code parses or increments them, and words in the codec. Library code the model cannot
  evaluate is a parameter: \<open>net/mail\<close> and \<open>time.Parse\<close> (record \<open>env\<close>), the MIME reader and SHA-1
  (\<open>mail_lib\<close>, \<open>mime_reader\<close>), SHA-256 and bcrypt, the sender of mails and the answers of the
  relay, the hook that \<open>main.go\<close> installs for deliveries, HMAC, \<open>url.Parse\<close>, the decoders of JSON,
  \<open>strings.ToUpper\<close> where it is applied to the bytes of a mail, \<open>strings.ToLower\<close> where a search lowers
  its term (\<open>lw\<close>; the columns it is compared with are lowered by SQLite, which knows ASCII only), and
  \<open>time.Format\<close>. Elsewhere \<open>strings.ToLower\<close> and \<open>strings.EqualFold\<close> are modelled on the letters of ASCII
  (\<open>GoLib\<close>); theorems for which this matters say so.

  \<^item> \<open>Prelude\<close>, \<open>GoLib\<close>: operations, invariants (\<open>keeps\<close>), \<open>strings\<close> and \<open>strconv\<close> of Go.
  \<^item> \<open>Wbxml\<close>, \<open>WbxmlProps\<close> (\<open>wbxml.go\<close>): the codec; encoding then decoding is the identity on
    well-formed trees, and decoding ends on every input: the recursion has the number of unread
    bytes as fuel, every element consumes one, and the fuel is proved to be enough.
  \<^item> \<open>StoreBase\<close>, \<open>StoreSync\<close>, \<open>StoreFolders\<close>, \<open>StoreMessages\<close>, \<open>StoreItems\<close>, \<open>StoreOutbox\<close>,
    \<open>StoreDevices\<close>, \<open>StoreUsers\<close>, \<open>StoreAddresses\<close>, \<open>StoreSettings\<close>: one theory per file of
    \<open>internal/store\<close>. The invariant \<open>store_ok\<close> (unique keys, resolved references, sequences above
    all numbers given out) is what the schema enforces and the other proofs start from; every
    operation keeps it, also when it fails. The change feed is the
    locale \<open>change_feed\<close>, interpreted on the tables.
  \<^item> \<open>EasTokens\<close>, \<open>EasTyping\<close> (\<open>tokens.go\<close>): the code pages, and a type discipline: exactly the
    well-typed answers can be encoded.
  \<^item> \<open>EasData\<close>, \<open>EasRoundtrip\<close> (\<open>appdata.go\<close>, helpers of \<open>server.go\<close>): rendering and parsing of
    items; contacts and message bodies survive the round trip.
  \<^item> \<open>EasSync\<close>, \<open>EasSyncInv\<close>, \<open>EasSyncProps\<close> (\<open>sync.go\<close>): \<open>Sync\<close>. It keeps the tables
    consistent, its answer can always be encoded, and a device that applies the commands it is
    sent converges to the folder in at most one round more than there are unread changes (the fuel of \<open>rounds\<close>), as long as
    no statement fails and every source can be read.
  \<^item> \<open>EasFolders\<close> (\<open>folders.go\<close>): the hierarchy; \<open>FolderSync\<close> refines the abstract folder list.
  \<^item> \<open>EasPing\<close> (\<open>misc.go\<close>): the long poll, its registry as a step relation, and the bound of its
    loop: 120 seconds at two seconds a round are 60 rounds.
  \<^item> \<open>EasItems\<close> (\<open>misc.go\<close>, \<open>server.go\<close>): estimates, moves, fetches, emptying, provisioning.
  \<^item> \<open>EasServer\<close> (\<open>server.go\<close>, \<open>httpx\<close>): client address, password cache, authentication.
  \<^item> \<open>ImapProto\<close>, \<open>ImapFetch\<close>, \<open>ImapMailbox\<close>, \<open>ImapServer\<close> (\<open>internal/imap\<close>): a connection is a record
    with its two byte streams; a command takes connection, store and throttle to their new
    values, or panics. \<open>ImapInv\<close> states what the handlers rely on as the locale \<open>mailbox_store\<close> and
    interprets it twice, for the invariant of the tables and for the isolation of accounts;
    \<open>ImapProps\<close> has authentication, sessions interleaved with the rest of the server, and the
    effect of \<open>STORE\<close>, specified flag by flag, on the rows and on the feed that the devices read.
  \<^item> \<open>MailParse\<close> (\<open>internal/mailparse\<close>): a message out of its parts, threads, subjects, addresses.
  \<^item> \<open>StoreWebmail\<close> (\<open>webmail.go\<close>, \<open>search.go\<close>): the queries of the web client; the list of
    conversations agrees with the conversation that is opened, and a search is literal.
  \<^item> \<open>Deliver\<close> (\<open>deliver.go\<close>), \<open>Smtp\<close> (\<open>smtp.go\<close>), \<open>Submission\<close>, \<open>SubmissionProps\<close>
    (\<open>internal/submission\<close>): a mail goes into a mailbox with its attachments, thread and change;
    the relay is a script of answers; a connection of the submission server is a record with its
    byte streams, and \<open>smtp_step\<close> one round of its loop. What is answered with 250 is in a
    mailbox, accepted by the relay or in the queue.
  \<^item> \<open>AuthLimit\<close> (\<open>limiter.go\<close>), \<open>Outbound\<close> (\<open>worker.go\<close>): the throttle and the queue.
  \<^item> \<open>Handover\<close>: what all senders of mail share. \<open>handed_over\<close> says that a mail is on an envelope the
    relay accepted or on a row of the queue with its source behind it, \<open>mail_grows\<close> that no mail gets
    lost between two states; \<open>has_mail\<close> that an account has a mail.
  \<^item> \<open>EasCompose\<close>, \<open>EasMeeting\<close>, \<open>EasSearch\<close> (\<open>compose.go\<close>, \<open>extended.go\<close>, \<open>imip.go\<close>): mails that a device
    sends, answers to invitations, recipients with their free and busy times, and search.
  \<^item> \<open>EasOof\<close> (\<open>oof.go\<close>): the notice of absence, at most one a day and sender, never to a notice.
  \<^item> \<open>Ical\<close> (\<open>internal/ical\<close>): the calendar as text. Its content lines are at most 75 octets and
    unfold to the lines that were written; a feed shows a calendar only while it is public.
  \<^item> \<open>ApiInbound\<close> (\<open>inbound.go\<close>): mail that a web hook brings in. After 200 it is in the mailbox of the
    account or handed to the relay.
  \<^item> \<open>ApiBase\<close>, \<open>ApiReply\<close>, \<open>ApiMail\<close>, \<open>ApiItems\<close>, \<open>ApiUser\<close> (\<open>user.go\<close>, \<open>admin.go\<close>, \<open>reply.go\<close>,
    \<open>compose.go\<close> of \<open>internal/api\<close>): the guards of the web API, its two kinds of sessions, replies and new
    mails of the webmail, the handlers that read mail, calendars, events and contacts, and the dispatch
    \<open>serveUser\<close>. What the handlers rely on is the locale \<open>account_store\<close>: which writes keep an invariant,
    for rows of the account or for ids that may be written. It is interpreted twice, as \<open>web\<close> for the
    invariant of the tables and as \<open>apart\<close> for the rows of another account, from which follows that a
    request leaves the data of every other account alone.
  \<^item> \<open>ApiEvents\<close> (\<open>events.go\<close>): the hub that pushes events to open pages. \<open>hub_run\<close> is the step relation that
    interleaves connections, publishers and the shutdown; a send on a closed channel and a second close
    are \<open>None\<close>. Once the hub is closed a stream ends within 17 rounds: the 16 events its channel can
    hold and the round that sees the channel closed.

  Some theorems state what the code does where that is not what its comments promise: an item
  pruned from the feed or not readable is never sent, the name of a deleted folder stays taken,
  a mailbox opened with \<open>EXAMINE\<close> can be changed, a partial fetch with a negative start panics,
  a search for a word with a capital outside ASCII misses it, an estimate cannot be encoded, an attachment is fetched without a check of its owner, a failed
  enqueue leaves an empty mail behind, a relay that accepts a mail and fails to say goodbye makes
  the server send it again, the line of an answer to an invitation is cut at a position found in
  another string, a daily series is lost in the calendar feed, a name with a line break puts a line
  of its own into the feed, an inbound mail above the limit is stored truncated, and a session
  survives a change of the password.

  \<^bold>\<open>Not modelled.\<close> Connections, files, logs, timers and the start of the process (\<open>main.go\<close>,
  \<open>config.go\<close>, \<open>web/\<close>) are I/O; the migrations (\<open>migrate.go\<close>) are SQL text, whose result is the set of
  constraints in \<open>StoreBase\<close>; \<open>autodiscover.go\<close> is one XML template. Of the settings
  (\<open>internal/settings\<close>) only the table is modelled, and the handlers of the administration (accounts,
  aliases, public calendars, devices, metrics) call one operation of the store each and render its
  result.
\<close>

end
